(* ===== verification/Prelude.thy ===== *)
theory Prelude
  imports Complex_Main "HOL-Library.Multiset"
begin

text \<open>
  Generic vocabulary shared by every component.

  Three things live here.  First, the named collections that the component theories fill
  (\<open>hub_defs\<close> for definitions that are safe to unfold on concrete inputs, \<open>hub_inv\<close> for
  preservation lemmas).  Second, facts on stable sorting: the program sorts record lists by
  version with JavaScript's stable \<open>Array.prototype.sort\<close>, which is \<^const>\<open>sort_key\<close>.
  Third, the interface \<open>version_fold\<close>: an operation that folds a step over a record list in
  version order.  Two operations of the program implement it (the workflow fold and the lint
  overlay), and the read cache relies on nothing else of them, so the facts that make the cache
  sound are proved once, here.
\<close>

named_theorems hub_defs "definitions to unfold when a concrete input is evaluated"
named_theorems hub_inv "preservation of invariants by single operations"

section \<open>Results\<close>

text \<open>A fallible operation returns \<open>Inl\<close> of the error it throws or \<open>Inr\<close> of its value.\<close>

definition rbind :: "('e + 'a) \<Rightarrow> ('a \<Rightarrow> 'e + 'b) \<Rightarrow> 'e + 'b" where
  "rbind r f = (case r of Inl e \<Rightarrow> Inl e | Inr x \<Rightarrow> f x)"

lemma rbind_simps [simp]:
  "rbind (Inl e) f = Inl e"
  "rbind (Inr x) f = f x"
  by (simp_all add: rbind_def)

lemma rbind_Inr_iff: "rbind r f = Inr y \<longleftrightarrow> (\<exists>x. r = Inr x \<and> f x = Inr y)"
  by (cases r) auto

lemma rbind_Inl_iff: "rbind r f = Inl e \<longleftrightarrow> r = Inl e \<or> (\<exists>x. r = Inr x \<and> f x = Inl e)"
  by (cases r) auto

definition guard :: "bool \<Rightarrow> 'e \<Rightarrow> 'e + unit" where
  "guard b e = (if b then Inr () else Inl e)"

lemma guard_Inr_iff [simp]: "guard b e = Inr u \<longleftrightarrow> b"
  by (simp add: guard_def)

lemma guard_Inl_iff [simp]: "guard b e = Inl e' \<longleftrightarrow> \<not> b \<and> e' = e"
  by (auto simp: guard_def)

definition is_ok :: "'e + 'a \<Rightarrow> bool" where
  "is_ok r = (case r of Inl _ \<Rightarrow> False | Inr _ \<Rightarrow> True)"

lemma is_ok_simps [simp]: "is_ok (Inl e) = False" "is_ok (Inr x) = True"
  by (simp_all add: is_ok_def)

lemma is_ok_iff: "is_ok r \<longleftrightarrow> (\<exists>x. r = Inr x)"
  by (cases r) auto

text \<open>Mapping a fallible function over a list, stopping at the first error.\<close>

fun traverse :: "('a \<Rightarrow> 'e + 'b) \<Rightarrow> 'a list \<Rightarrow> 'e + 'b list" where
  "traverse f [] = Inr []"
| "traverse f (x # xs) = rbind (f x) (\<lambda>y. rbind (traverse f xs) (\<lambda>ys. Inr (y # ys)))"

lemma traverse_Inr_iff: "traverse f xs = Inr ys \<longleftrightarrow> list_all2 (\<lambda>x y. f x = Inr y) xs ys"
  by (induction xs arbitrary: ys) (auto simp: rbind_Inr_iff list_all2_Cons1)

lemma traverse_ok_iff: "is_ok (traverse f xs) \<longleftrightarrow> (\<forall>x\<in>set xs. is_ok (f x))"
  by (induction xs) (auto simp: is_ok_def rbind_def split: sum.splits)

lemma traverse_map: "traverse f (map g xs) = traverse (\<lambda>x. f (g x)) xs"
  by (induction xs) simp_all

lemma traverse_id: "(\<And>x. x \<in> set xs \<Longrightarrow> f x = Inr (g x)) \<Longrightarrow> traverse f xs = Inr (map g xs)"
  by (induction xs) simp_all

section \<open>Stable sorting by a key\<close>

lemma sorted_map_append:
  "sorted (map f (xs @ ys)) \<longleftrightarrow>
     sorted (map f xs) \<and> sorted (map f ys) \<and> (\<forall>x\<in>set xs. \<forall>y\<in>set ys. f x \<le> f y)"
  by (auto simp: sorted_append)

lemma stable_filter: "filter (\<lambda>z. f k = f z) (sort_key f xs) = filter (\<lambda>z. f k = f z) xs"
  using sort_key_stable [of f "f k" xs] by (simp add: eq_commute)

lemma sort_key_eqI:
  assumes "mset xs = mset ys"
    and "\<And>k. filter (\<lambda>z. k = f z) xs = filter (\<lambda>z. k = f z) ys"
  shows "sort_key f xs = sort_key f ys"
  using assms by (intro properties_for_sort_key) (simp_all add: stable_filter)

lemma sort_key_append_le:
  assumes "\<And>x y. x \<in> set xs \<Longrightarrow> y \<in> set ys \<Longrightarrow> f x \<le> f y"
  shows "sort_key f (xs @ ys) = sort_key f xs @ sort_key f ys"
proof (rule properties_for_sort_key)
  show "mset (sort_key f xs @ sort_key f ys) = mset (xs @ ys)"
    by simp
  show "filter (\<lambda>z. f k = f z) (sort_key f xs @ sort_key f ys) = filter (\<lambda>z. f k = f z) (xs @ ys)"
    if "k \<in> set (sort_key f xs @ sort_key f ys)" for k
    by (simp add: stable_filter)
  show "sorted (map f (sort_key f xs @ sort_key f ys))"
    using assms by (auto simp: sorted_append)
qed

lemma sort_key_idem: "sort_key f (sort_key f xs) = sort_key f xs"
  by (simp add: sorted_sort_id sort_key_id_if_sorted)

lemma sort_key_singleton: "sort_key f [x] = [x]"
  by simp

section \<open>Maxima of numbers\<close>

definition list_max :: "nat list \<Rightarrow> nat" where
  "list_max ns = foldl max 0 ns"

lemma foldl_max_split: "foldl max (a::nat) ns = max a (foldl max 0 ns)"
proof (induction ns arbitrary: a)
  case Nil
  then show ?case by simp
next
  case (Cons n ns)
  have "foldl max (max a n) ns = max (max a n) (foldl max 0 ns)"
    and "foldl max n ns = max n (foldl max 0 ns)"
    by (rule Cons.IH)+
  then show ?case by (simp add: max.assoc)
qed

lemma list_max_Nil [simp]: "list_max [] = 0"
  by (simp add: list_max_def)

lemma list_max_Cons [simp]: "list_max (n # ns) = max n (list_max ns)"
  by (simp add: list_max_def foldl_max_split [of n])

lemma list_max_append [simp]: "list_max (xs @ ys) = max (list_max xs) (list_max ys)"
  by (induction xs) simp_all

lemma list_max_ge: "n \<in> set ns \<Longrightarrow> n \<le> list_max ns"
  by (induction ns) auto

lemma list_max_mem: "ns \<noteq> [] \<Longrightarrow> list_max ns \<in> set ns"
proof (induction ns)
  case Nil
  then show ?case by simp
next
  case (Cons n ns)
  then show ?case by (cases "ns = []") (auto simp: max_def)
qed

lemma list_max_le_iff: "list_max ns \<le> n \<longleftrightarrow> (\<forall>m\<in>set ns. m \<le> n)"
  by (induction ns) auto

lemma list_max_set_eq: "set xs = set ys \<Longrightarrow> list_max xs = list_max ys"
  by (intro order_antisym) (auto simp: list_max_le_iff list_max_ge)

section \<open>The interface of a version-ordered fold\<close>

text \<open>
  \<open>run s rs\<close> sorts \<open>rs\<close> by \<open>key\<close> (stably) and folds \<open>step\<close> over it; \<open>reached s\<close> is the key of
  the last record folded into \<open>s\<close>.  A client that holds \<open>run s old\<close> and meets new records may
  fold only the new ones, provided none of them sorts below an old one.
\<close>

locale version_fold =
  fixes key :: "'r \<Rightarrow> nat"
    and step :: "'s \<Rightarrow> 'r \<Rightarrow> 's"
    and run :: "'s \<Rightarrow> 'r list \<Rightarrow> 's"
    and reached :: "'s \<Rightarrow> nat"
  assumes run_eq: "run s rs = foldl step s (sort_key key rs)"
    and reached_step: "reached (step s r) = key r"
begin

lemma run_Nil: "run s [] = s"
  by (simp add: run_eq)

lemma run_single: "run s [r] = step s r"
  by (simp add: run_eq)

lemma run_append:
  assumes "\<And>x y. x \<in> set xs \<Longrightarrow> y \<in> set ys \<Longrightarrow> key x \<le> key y"
  shows "run s (xs @ ys) = run (run s xs) ys"
  using assms by (simp add: run_eq sort_key_append_le)

lemma run_sorted: "run s (sort_key key rs) = run s rs"
  by (simp add: run_eq sort_key_idem)

lemma run_stable:
  assumes "mset xs = mset ys"
    and "\<And>k. filter (\<lambda>r. k = key r) xs = filter (\<lambda>r. k = key r) ys"
  shows "run s xs = run s ys"
proof -
  have "sort_key key xs = sort_key key ys"
    using assms by (intro sort_key_eqI) auto
  then show ?thesis by (simp add: run_eq)
qed

lemma run_distinct:
  assumes "mset xs = mset ys" and "inj_on key (set xs)"
  shows "run s xs = run s ys"
proof -
  have "sort_key key xs = sort_key key ys"
    using assms by (intro sort_key_inj_key_eq) simp_all
  then show ?thesis by (simp add: run_eq)
qed

lemma reached_run: "rs \<noteq> [] \<Longrightarrow> reached (run s rs) = list_max (map key rs)"
proof -
  assume "rs \<noteq> []"
  then obtain us u where us: "sort_key key rs = us @ [u]"
    by (metis rev_exhaust length_0_conv length_sort)
  have srt: "sorted (map key (us @ [u]))"
    by (simp flip: us)
  have "reached (run s rs) = key u"
    by (simp add: run_eq us reached_step)
  moreover have "list_max (map key (us @ [u])) = key u"
    using srt by (auto simp: sorted_append list_max_le_iff max_def intro!: order_antisym)
  moreover have "list_max (map key rs) = list_max (map key (us @ [u]))"
    by (rule list_max_set_eq) (metis set_map set_sort us)
  ultimately show ?thesis by simp
qed

text \<open>The extension rule of the read cache: fold only what lies beyond the cached cursor.\<close>

lemma run_extend:
  assumes "\<And>r. r \<in> set new \<Longrightarrow> reached (run s old) < key r"
  shows "run (run s old) new = run s (old @ new)"
proof (cases "old = []")
  case True
  then show ?thesis by (simp add: run_Nil)
next
  case False
  have "key x \<le> key y" if "x \<in> set old" "y \<in> set new" for x y
  proof -
    have "key x \<le> reached (run s old)"
      using that(1) False by (simp add: reached_run list_max_ge)
    with assms that(2) show ?thesis by (meson less_imp_le order_trans)
  qed
  then show ?thesis by (simp add: run_append)
qed

lemma run_invariant:
  assumes "P s" and "\<And>s r. P s \<Longrightarrow> r \<in> set rs \<Longrightarrow> P (step s r)"
  shows "P (run s rs)"
proof -
  have "P (foldl step s xs)" if "set xs \<subseteq> set rs" "P s" for xs s
    using that by (induction xs arbitrary: s) (auto intro: assms(2))
  with assms(1) show ?thesis by (simp add: run_eq)
qed

end

end
