(* ===== verification/Json.thy ===== *)
theory Json
  imports Prelude
begin

text \<open>
  JSON values as the program sees them after \<open>JSON.parse\<close> (JavaScript \<open>unknown\<close>).  Numbers are
  rationals: the validators test \<open>Number.isInteger\<close>, so fractions must be representable.  An
  object is an association list with unique keys; a property read is \<open>jget\<close>, whose \<open>None\<close> is
  JavaScript's \<open>undefined\<close>.
\<close>

datatype json =
    JNull
  | JBool bool
  | JNum rat
  | JStr string
  | JArr "json list"
  | JObj "(string \<times> json) list"

type_synonym jobject = "(string \<times> json) list"

definition pget :: "jobject \<Rightarrow> string \<Rightarrow> json option" where
  "pget ob k = map_of ob k"

definition jget :: "json \<Rightarrow> string \<Rightarrow> json option" where
  "jget v k = (case v of JObj ob \<Rightarrow> map_of ob k | _ \<Rightarrow> None)"

definition is_plain_object :: "json \<Rightarrow> bool" where
  "is_plain_object v = (case v of JObj _ \<Rightarrow> True | _ \<Rightarrow> False)"

definition is_integer :: "rat \<Rightarrow> bool" where
  "is_integer q \<longleftrightarrow> of_int \<lfloor>q\<rfloor> = q"

definition string_of :: "json option \<Rightarrow> string option" where
  "string_of v = (case v of Some (JStr s) \<Rightarrow> Some s | _ \<Rightarrow> None)"

text \<open>A non-negative integral number, as a natural number.\<close>

definition nat_of :: "json option \<Rightarrow> nat option" where
  "nat_of v = (case v of
       Some (JNum q) \<Rightarrow> (if is_integer q \<and> 0 \<le> q then Some (nat \<lfloor>q\<rfloor>) else None)
     | _ \<Rightarrow> None)"

lemma is_integer_of_nat [simp]: "is_integer (of_nat n)"
  by (simp add: is_integer_def)

lemma nat_of_JNum [simp]: "nat_of (Some (JNum (of_nat n))) = Some n"
  by (simp add: nat_of_def)

lemma string_of_simps [simp]:
  "string_of None = None"
  "string_of (Some (JStr s)) = Some s"
  "string_of (Some (JBool b)) = None"
  "string_of (Some (JNum q)) = None"
  "string_of (Some JNull) = None"
  "string_of (Some (JArr xs)) = None"
  "string_of (Some (JObj ob)) = None"
  by (simp_all add: string_of_def)

lemma string_of_Some_iff: "string_of v = Some s \<longleftrightarrow> v = Some (JStr s)"
  by (auto simp: string_of_def split: option.splits json.splits)

lemma jget_simps [simp]:
  "jget (JObj ob) k = map_of ob k"
  "jget JNull k = None"
  "jget (JBool b) k = None"
  "jget (JNum q) k = None"
  "jget (JStr s) k = None"
  "jget (JArr xs) k = None"
  by (simp_all add: jget_def)

lemma pget_Nil [simp]: "pget [] k = None"
  by (simp add: pget_def)

lemma pget_Cons [simp]: "pget ((a, v) # ob) k = (if a = k then Some v else pget ob k)"
  by (simp add: pget_def)

section \<open>Strings\<close>

text \<open>
  JavaScript's \<open>trim\<close> and \<open>toLowerCase\<close> restricted to ASCII: strings here are byte strings, so
  only the ASCII white space and letters are affected.
\<close>

definition is_space :: "char \<Rightarrow> bool" where
  "is_space c \<longleftrightarrow> of_char c \<in> {9, 10, 11, 12, 13, 32 :: nat}"

definition blank :: "string \<Rightarrow> bool" where
  "blank s \<longleftrightarrow> list_all is_space s"

definition to_lower :: "char \<Rightarrow> char" where
  "to_lower c = (if of_char c \<in> {65..90 :: nat} then char_of (of_char c + 32 :: nat) else c)"

definition lower_case :: "string \<Rightarrow> string" where
  "lower_case s = map to_lower s"

definition is_digit :: "char \<Rightarrow> bool" where
  "is_digit c \<longleftrightarrow> of_char c \<in> {48..57 :: nat}"

definition starts_with :: "string \<Rightarrow> string \<Rightarrow> bool" where
  "starts_with p s \<longleftrightarrow> take (length p) s = p"

lemma starts_with_append [simp]: "starts_with p (p @ s)"
  by (simp add: starts_with_def)

lemma starts_with_iff: "starts_with p s \<longleftrightarrow> (\<exists>t. s = p @ t)"
  by (metis append_take_drop_id starts_with_append starts_with_def)

definition nonempty_string :: "json option \<Rightarrow> bool" where
  "nonempty_string v = (case v of Some (JStr s) \<Rightarrow> \<not> blank s | _ \<Rightarrow> False)"

lemma nonempty_string_iff: "nonempty_string v \<longleftrightarrow> (\<exists>s. v = Some (JStr s) \<and> \<not> blank s)"
  by (auto simp: nonempty_string_def split: option.splits json.splits)

end
