(* ===== verification/Types.thy ===== *)
theory Types
  imports Json
begin

text \<open>
  The shared data model of \<open>src/core/common/types.ts\<close>: task statuses, flows, the record that is
  appended to a task log, and the diagnostics a fold attaches to it.

  \<^item> String unions that the code enumerates exhaustively (\<open>Status\<close>, \<open>Flow\<close>, \<open>WarningCode\<close>) are
    datatypes; open string types (\<open>ContentType\<close>, \<open>role\<close>, \<open>WaitingFor\<close>) stay strings.
  \<^item> Versions are natural numbers: the store validates every version it reads or writes to be an
    integer, at least 1 for a record.
  \<^item> A \<open>Warning\<close> carries \<open>w_ref\<close>, the identity of the JavaScript object: the fold distinguishes
    warnings by object identity, never by their non-unique version.
\<close>

definition PROJECT_TASK_ID :: string where
  "PROJECT_TASK_ID = ''project''"

datatype status =
    Designing
  | Implementing
  | Reviewing
  | Revising
  | Pending_approval
  | Approved
  | Closed

datatype flow = Full | Direct | Solo

text \<open>A parsed agent command and the two shapes of a route.\<close>

record agent_command =
  ac_agent :: string
  ac_args :: "string list"

datatype agent_route = Bare string | Command agent_command

type_synonym cast = "(string \<times> agent_route) list"

datatype checkout_route = Current | Worktree string "string option"

record context_record =
  rec_version :: nat
  rec_task_id :: string
  rec_role :: string
  rec_agent :: "string option"
  rec_model :: "string option"
  rec_content_type :: string
  rec_timestamp :: string
  rec_payload :: jobject
  rec_tut_version :: "string option"

datatype warning_code =
    OUT_OF_TABLE
  | CLOSED_ABSORB
  | INVALID_VERDICT
  | VERSION_GAP
  | REVIEW_EXIT_CONDITIONS_INCOMPLETE
  | REVIEW_SCOPE_SECTION_MISSING
  | EXPECTED_REVISION
  | NON_CANONICAL_ROLE
  | VERSION_DUPLICATE

text \<open>
  The record a repair suggestion asks for, and the suggestion.  The human-readable instruction
  text is not modelled; the example value is a text (code points) or a number.
\<close>

record fix_record =
  fr_role :: string
  fr_content_type :: string
  fr_ref_version :: "nat option"

record supported_fix =
  sf_field :: string
  sf_example :: "(nat list + nat) option"
  sf_record :: fix_record

record correction =
  co_root_version :: nat
  co_round :: nat
  co_exhausted :: bool

text \<open>Location (field and section), fixes and correction of a lint warning; a fold warning has none of them.\<close>

record warning_detail =
  wd_field :: string
  wd_section :: "nat list option"
  wd_fixes :: "supported_fix list"
  wd_correction :: correction

record warning =
  w_ref :: nat
  w_version :: nat
  w_code :: warning_code
  w_detail :: "warning_detail option"

text \<open>The derivation output: \<open>DerivedState\<close>.\<close>

record derived_state =
  ds_status :: status
  ds_waiting_for :: string
  ds_needs_attention :: bool
  ds_warnings :: "warning list"

definition agent_waiting :: "string \<Rightarrow> string" where
  "agent_waiting role = ''agent:'' @ role"

definition HUMAN :: string where "HUMAN = ''human''"

definition NONE :: string where "NONE = ''none''"

section \<open>Reading the payload fields the program consumes\<close>

text \<open>\<open>record.payload.ack === true\<close>, \<open>record.payload.verdict\<close>, \<open>record.payload.decision === d\<close>.\<close>

definition is_ack :: "context_record \<Rightarrow> bool" where
  "is_ack r \<longleftrightarrow> pget (rec_payload r) ''ack'' = Some (JBool True)"

definition verdict_of :: "context_record \<Rightarrow> string option" where
  "verdict_of r = string_of (pget (rec_payload r) ''verdict'')"

definition decides :: "context_record \<Rightarrow> string \<Rightarrow> bool" where
  "decides r d \<longleftrightarrow> pget (rec_payload r) ''decision'' = Some (JStr d)"

definition is_ack_note :: "context_record \<Rightarrow> bool" where
  "is_ack_note r \<longleftrightarrow> rec_content_type r = ''note'' \<and> is_ack r"

definition is_close :: "context_record \<Rightarrow> bool" where
  "is_close r \<longleftrightarrow> rec_content_type r = ''decision'' \<and> decides r ''close''"

lemma decides_unique: "decides r d \<Longrightarrow> decides r d' \<longleftrightarrow> d = d'"
  by (auto simp: decides_def)

instantiation status :: linorder
begin

definition status_rank :: "status \<Rightarrow> nat" where
  "status_rank s = (case s of Designing \<Rightarrow> 0 | Implementing \<Rightarrow> 1 | Reviewing \<Rightarrow> 2 | Revising \<Rightarrow> 3
     | Pending_approval \<Rightarrow> 4 | Approved \<Rightarrow> 5 | Closed \<Rightarrow> 6)"

definition less_eq_status :: "status \<Rightarrow> status \<Rightarrow> bool" where
  "less_eq_status a b \<longleftrightarrow> status_rank a \<le> status_rank b"

definition less_status :: "status \<Rightarrow> status \<Rightarrow> bool" where
  "less_status a b \<longleftrightarrow> status_rank a < status_rank b"

instance
  by standard (auto simp: less_eq_status_def less_status_def status_rank_def split: status.splits)

end

end
