(* ===== verification/Agent_Command.thy ===== *)
theory Agent_Command
  imports Types
begin

text \<open>
  Agent routes, \<open>src/core/common/agent-command.ts\<close>: a route is an executable name or an executable
  with arguments, every token drawn from a shell-neutral alphabet, so that a validated route can be
  expanded into argv (or shown as one line) without shell evaluation.  Errors keep their kind; the
  field name that prefixes the message text is not modelled.
\<close>

datatype agent_command_error =
    Empty_token
  | Whitespace_token
  | Not_shell_neutral
  | Not_a_command
  | Args_not_array
  | Empty_command

text \<open>\<open>SHELL_NEUTRAL_TOKEN\<close>: one or more of \<open>A-Za-z0-9._@%+=:,/-\<close>.\<close>

definition neutral_char :: "char \<Rightarrow> bool" where
  "neutral_char c \<longleftrightarrow>
     (let n = (of_char c :: nat) in n \<in> {65..90} \<or> n \<in> {97..122} \<or> n \<in> {48..57}) \<or>
     c \<in> set ''._@%+=:,/-''"

definition SHELL_NEUTRAL_TOKEN :: "string \<Rightarrow> bool" where
  "SHELL_NEUTRAL_TOKEN s \<longleftrightarrow> s \<noteq> [] \<and> list_all neutral_char s"

definition validateAgentToken :: "json option \<Rightarrow> agent_command_error + string" where
  "validateAgentToken value =
     (case value of
        Some (JStr s) \<Rightarrow>
          (if s = [] then Inl Empty_token
           else if list_ex is_space s then Inl Whitespace_token
           else if \<not> SHELL_NEUTRAL_TOKEN s then Inl Not_shell_neutral
           else Inr s)
      | _ \<Rightarrow> Inl Empty_token)"

text \<open>\<open>value.trim().split(/\s+/u)\<close> for a value that is not blank: its maximal runs of non-spaces.\<close>

function split_words :: "string \<Rightarrow> string list" where
  "split_words s =
     (let t = dropWhile is_space s in
      if t = [] then [] else takeWhile (\<lambda>c. \<not> is_space c) t # split_words (dropWhile (\<lambda>c. \<not> is_space c) t))"
  by pat_completeness auto
termination
proof (relation "measure length", simp)
  fix s t :: string
  assume t: "t = dropWhile is_space s" "t \<noteq> []"
  then have "\<not> is_space (hd t)"
    using hd_dropWhile by blast
  with t(2) have "length (dropWhile (\<lambda>c. \<not> is_space c) t) < length t"
    by (cases t) (auto simp: length_dropWhile_le less_Suc_eq_le)
  moreover have "length t \<le> length s"
    by (simp add: t(1) length_dropWhile_le)
  ultimately show "(dropWhile (\<lambda>c. \<not> is_space c) t, s) \<in> measure length"
    by simp
qed

declare split_words.simps [simp del]

definition token_route :: "string list \<Rightarrow> agent_command_error + agent_route" where
  "token_route tokens = (case tokens of
       [] \<Rightarrow> Inl Empty_command
     | agent # args \<Rightarrow> Inr (if args = [] then Bare agent
                           else Command \<lparr>ac_agent = agent, ac_args = args\<rparr>))"

definition parseAgentRoute :: "string \<Rightarrow> agent_command_error + agent_route" where
  "parseAgentRoute value =
     (if blank value then Inl Empty_command
      else rbind (traverse (\<lambda>t. validateAgentToken (Some (JStr t))) (split_words value)) token_route)"

definition validateAgentRoute :: "json option \<Rightarrow> agent_command_error + agent_route" where
  "validateAgentRoute value =
     (case value of
        Some (JStr s) \<Rightarrow> parseAgentRoute s
      | Some (JObj raw) \<Rightarrow>
          rbind (validateAgentToken (pget raw ''agent'')) (\<lambda>agent.
          (case pget raw ''args'' of
             Some (JArr xs) \<Rightarrow>
               rbind (traverse (\<lambda>x. validateAgentToken (Some x)) xs) (\<lambda>args.
                 Inr (Command \<lparr>ac_agent = agent, ac_args = args\<rparr>))
           | _ \<Rightarrow> Inl Args_not_array))
      | _ \<Rightarrow> Inl Not_a_command)"

definition parseAgentInvocation :: "string list \<Rightarrow> agent_command_error + agent_route" where
  "parseAgentInvocation values =
     (case values of
        [] \<Rightarrow> Inl Empty_command
      | [v] \<Rightarrow> parseAgentRoute v
      | _ \<Rightarrow> rbind (traverse (\<lambda>v. validateAgentToken (Some (JStr v))) values) (\<lambda>validated.
             (case validated of
                [] \<Rightarrow> Inl Empty_command
              | agent # args \<Rightarrow> Inr (Command \<lparr>ac_agent = agent, ac_args = args\<rparr>))))"

text \<open>The JSON shape of a route, as it is stored and re-validated.\<close>

definition route_json :: "agent_route \<Rightarrow> json" where
  "route_json r = (case r of
       Bare s \<Rightarrow> JStr s
     | Command c \<Rightarrow> JObj [(''agent'', JStr (ac_agent c)), (''args'', JArr (map JStr (ac_args c)))])"

definition normalizeAgentRoute :: "agent_route \<Rightarrow> agent_command_error + agent_command" where
  "normalizeAgentRoute route =
     rbind (validateAgentRoute (Some (route_json route))) (\<lambda>valid.
       Inr (case valid of
              Bare s \<Rightarrow> \<lparr>ac_agent = s, ac_args = []\<rparr>
            | Command c \<Rightarrow> c))"

definition commandHead :: "agent_route \<Rightarrow> agent_command_error + string" where
  "commandHead route = rbind (normalizeAgentRoute route) (\<lambda>c. Inr (ac_agent c))"

definition commandArgs :: "agent_route \<Rightarrow> agent_command_error + string list" where
  "commandArgs route = rbind (normalizeAgentRoute route) (\<lambda>c. Inr (ac_args c))"

fun join_space :: "string list \<Rightarrow> string" where
  "join_space [] = []"
| "join_space [t] = t"
| "join_space (t # ts) = t @ '' '' @ join_space ts"

definition formatAgentRoute :: "agent_route \<Rightarrow> agent_command_error + string" where
  "formatAgentRoute route =
     rbind (normalizeAgentRoute route) (\<lambda>c. Inr (join_space (ac_agent c # ac_args c)))"

definition isAgentCommand :: "agent_route \<Rightarrow> bool" where
  "isAgentCommand route = (case route of Bare _ \<Rightarrow> False | Command _ \<Rightarrow> True)"

section \<open>Tokens\<close>

lemma neutral_not_space: "neutral_char c \<Longrightarrow> \<not> is_space c"
  by (auto simp: neutral_char_def is_space_def Let_def)

lemma neutral_token_no_space: "SHELL_NEUTRAL_TOKEN t \<Longrightarrow> \<not> list_ex is_space t"
  by (auto simp: SHELL_NEUTRAL_TOKEN_def list_ex_iff list_all_iff dest: neutral_not_space)

lemma validateAgentToken_Inr_iff:
  "validateAgentToken v = Inr t \<longleftrightarrow> v = Some (JStr t) \<and> SHELL_NEUTRAL_TOKEN t"
  using neutral_token_no_space
  by (auto simp: validateAgentToken_def SHELL_NEUTRAL_TOKEN_def split: option.splits json.splits if_splits)

lemma validate_tokens:
  "traverse (\<lambda>t. validateAgentToken (Some (JStr t))) ts = Inr us \<longleftrightarrow> us = ts \<and> list_all SHELL_NEUTRAL_TOKEN ts"
  by (auto simp: traverse_Inr_iff validateAgentToken_Inr_iff list_all2_conv_all_nth list_all_length
      intro: nth_equalityI)

lemma split_words_token:
  assumes "SHELL_NEUTRAL_TOKEN t"
  shows "split_words (t @ '' '' @ s) = t # split_words s" and "split_words t = [t]"
proof -
  have ns: "\<forall>c\<in>set t. \<not> is_space c"
    using neutral_token_no_space [OF assms] by (simp add: list_ex_iff)
  moreover have "t \<noteq> []"
    using assms by (simp add: SHELL_NEUTRAL_TOKEN_def)
  moreover have sp: "is_space CHR '' ''"
    by (simp add: is_space_def)
  ultimately have *: "dropWhile is_space (t @ u) = t @ u"
    "takeWhile (\<lambda>c. \<not> is_space c) (t @ CHR '' '' # u) = t"
    "dropWhile (\<lambda>c. \<not> is_space c) (t @ CHR '' '' # u) = CHR '' '' # u" for u
    by (cases t; simp add: takeWhile_append2 dropWhile_append2)+
  have "split_words (CHR '' '' # s) = split_words s"
    using sp by (simp add: split_words.simps [of "CHR '' '' # s"] split_words.simps [of s])
  with * [of "CHR '' '' # s"] * [of s] \<open>t \<noteq> []\<close> show "split_words (t @ '' '' @ s) = t # split_words s"
    by (simp add: split_words.simps [of "t @ CHR '' '' # s"] Let_def)
  have nil: "split_words [] = []"
    by (simp add: split_words.simps)
  have "takeWhile (\<lambda>c. \<not> is_space c) t = t" "dropWhile (\<lambda>c. \<not> is_space c) t = []"
    using ns by (simp_all add: takeWhile_eq_all_conv dropWhile_eq_Nil_conv)
  with * (1) [of "[]"] \<open>t \<noteq> []\<close> show "split_words t = [t]"
    by (simp add: split_words.simps [of t] Let_def nil del: dropWhile_eq_Nil_conv takeWhile_eq_all_conv)
qed

lemma split_words_join:
  "list_all SHELL_NEUTRAL_TOKEN ts \<Longrightarrow> split_words (join_space ts) = ts"
proof (induction ts rule: join_space.induct)
  case 1
  then show ?case by (simp add: split_words.simps)
next
  case (2 t)
  then show ?case by (simp add: split_words_token(2))
next
  case (3 t u ts)
  then show ?case using split_words_token(1) [of t "join_space (u # ts)"] by simp
qed

lemma join_space_not_blank: "ts \<noteq> [] \<Longrightarrow> list_all SHELL_NEUTRAL_TOKEN ts \<Longrightarrow> \<not> blank (join_space ts)"
  by (induction ts rule: join_space.induct)
    (auto simp: SHELL_NEUTRAL_TOKEN_def blank_def neq_Nil_conv dest: neutral_not_space)

definition route_tokens :: "agent_route \<Rightarrow> string list" where
  "route_tokens r = (case r of Bare s \<Rightarrow> [s] | Command c \<Rightarrow> ac_agent c # ac_args c)"

lemma parseAgentRoute_Inr:
  "parseAgentRoute s = Inr r \<Longrightarrow> route_tokens r = split_words s \<and> list_all SHELL_NEUTRAL_TOKEN (route_tokens r)"
  by (auto simp: parseAgentRoute_def rbind_Inr_iff validate_tokens token_route_def route_tokens_def
      split: if_splits list.splits)

lemma traverse_validate_tokens:
  "traverse (\<lambda>x. validateAgentToken (Some x)) xs = Inr args \<longleftrightarrow> xs = map JStr args \<and> list_all SHELL_NEUTRAL_TOKEN args"
  by (auto simp: traverse_Inr_iff validateAgentToken_Inr_iff list_all2_conv_all_nth list_all_length
      intro: nth_equalityI)

lemma validateAgentRoute_JObj:
  "validateAgentRoute (Some (JObj raw)) = Inr r \<longleftrightarrow>
     (\<exists>agent args. r = Command \<lparr>ac_agent = agent, ac_args = args\<rparr> \<and>
        pget raw ''agent'' = Some (JStr agent) \<and> SHELL_NEUTRAL_TOKEN agent \<and>
        pget raw ''args'' = Some (JArr (map JStr args)) \<and> list_all SHELL_NEUTRAL_TOKEN args)"
proof (cases "\<exists>xs. pget raw ''args'' = Some (JArr xs)")
  case True
  then show ?thesis
    by (auto simp: validateAgentRoute_def rbind_Inr_iff validateAgentToken_Inr_iff traverse_validate_tokens)
next
  case False
  then show ?thesis
    by (auto simp: validateAgentRoute_def rbind_Inr_iff split: option.split_asm json.split_asm)
qed

lemma validateAgentRoute_tokens:
  assumes "validateAgentRoute v = Inr r"
  shows "list_all SHELL_NEUTRAL_TOKEN (route_tokens r)"
proof -
  consider (str) s where "v = Some (JStr s)" | (obj) raw where "v = Some (JObj raw)"
    using assms by (auto simp: validateAgentRoute_def split: option.splits json.splits)
  then show ?thesis
  proof cases
    case str
    with assms have "parseAgentRoute s = Inr r" by (simp add: validateAgentRoute_def)
    then show ?thesis by (rule parseAgentRoute_Inr [THEN conjunct2])
  next
    case obj
    with assms show ?thesis by (auto simp: validateAgentRoute_JObj route_tokens_def)
  qed
qed

lemma normalizeAgentRoute_tokens:
  assumes "normalizeAgentRoute r = Inr c"
  shows "list_all SHELL_NEUTRAL_TOKEN (ac_agent c # ac_args c)"
proof -
  from assms obtain valid where v: "validateAgentRoute (Some (route_json r)) = Inr valid"
    and c: "c = (case valid of Bare s \<Rightarrow> \<lparr>ac_agent = s, ac_args = []\<rparr> | Command c \<Rightarrow> c)"
    by (auto simp: normalizeAgentRoute_def rbind_Inr_iff)
  from validateAgentRoute_tokens [OF v] c show ?thesis
    by (cases valid) (simp_all add: route_tokens_def)
qed

lemma parse_tokens:
  assumes "list_all SHELL_NEUTRAL_TOKEN ts" and "ts \<noteq> []"
  shows "parseAgentRoute (join_space ts) = token_route ts"
  using assms validate_tokens [of ts ts]
  by (simp add: parseAgentRoute_def join_space_not_blank split_words_join)

lemma parse_single: "SHELL_NEUTRAL_TOKEN t \<Longrightarrow> parseAgentRoute t = Inr (Bare t)"
  using parse_tokens [of "[t]"] by (simp add: token_route_def)

section \<open>Properties\<close>

text \<open>No shell syntax survives validation: every token of an accepted route, the executable
  included, is non-empty and drawn from the shell-neutral alphabet, in either accepted shape.\<close>

theorem accepted_route_is_shell_neutral:
  assumes "validateAgentRoute v = Inr r"
  shows "list_all SHELL_NEUTRAL_TOKEN (route_tokens r)"
  using assms by (rule validateAgentRoute_tokens)

theorem accepted_route_is_shell_neutral_witness:
  "list_all SHELL_NEUTRAL_TOKEN (route_tokens (Command \<lparr>ac_agent = ''pi'', ac_args = [''-x'']\<rparr>))"
  by (rule accepted_route_is_shell_neutral
      [of "Some (JObj [(''agent'', JStr ''pi''), (''args'', JArr [JStr ''-x''])])"])
    (simp add: validateAgentRoute_def validateAgentToken_def SHELL_NEUTRAL_TOKEN_def neutral_char_def is_space_def)

text \<open>Display and parse are inverse: the one-line form of an accepted route parses back to a
  route with the same executable and arguments.\<close>

theorem formatAgentRoute_roundtrip:
  assumes "normalizeAgentRoute route = Inr c"
  shows "\<exists>s route'. formatAgentRoute route = Inr s \<and> parseAgentRoute s = Inr route' \<and>
    normalizeAgentRoute route' = Inr c"
proof -
  let ?ts = "ac_agent c # ac_args c"
  have tok: "list_all SHELL_NEUTRAL_TOKEN ?ts"
    using assms by (rule normalizeAgentRoute_tokens)
  then have "parseAgentRoute (join_space ?ts) = token_route ?ts"
    by (intro parse_tokens) simp_all
  moreover have "normalizeAgentRoute (if ac_args c = [] then Bare (ac_agent c)
      else Command \<lparr>ac_agent = ac_agent c, ac_args = ac_args c\<rparr>) = Inr c"
  proof -
    have "traverse (\<lambda>x. validateAgentToken (Some x)) (map JStr (ac_args c)) = Inr (ac_args c)"
      using tok by (simp add: traverse_validate_tokens)
    moreover have "validateAgentToken (Some (JStr (ac_agent c))) = Inr (ac_agent c)"
      using tok by (simp add: validateAgentToken_Inr_iff)
    ultimately show ?thesis
      using tok by (simp add: normalizeAgentRoute_def route_json_def validateAgentRoute_def parse_single)
  qed
  ultimately show ?thesis
    using assms by (simp add: formatAgentRoute_def token_route_def)
qed

theorem formatAgentRoute_roundtrip_witness:
  "\<exists>s route'. formatAgentRoute (Bare ''codex'') = Inr s \<and> parseAgentRoute s = Inr route' \<and>
    normalizeAgentRoute route' = Inr \<lparr>ac_agent = ''codex'', ac_args = []\<rparr>"
  by (rule formatAgentRoute_roundtrip)
    (simp add: normalizeAgentRoute_def route_json_def validateAgentRoute_def parse_single
      SHELL_NEUTRAL_TOKEN_def neutral_char_def)

end
