(* ===== verification/Artifacts.thy ===== *)
theory Artifacts
  imports Agent_Command
begin

text \<open>
  Artifact shapes and validators, \<open>src/core/hub/store/artifacts.ts\<close>: what may be written to and read
  from a task directory (record files, \<open>meta.json\<close>), task identifiers and record file names.
  \<open>StoreError\<close> is represented by its code; the message text is not part of the contract.  Every
  validator takes the JSON value it is given (\<open>None\<close> for \<open>undefined\<close>).
\<close>

datatype error_code = TASK_NOT_FOUND | VERSION_CONFLICT | VALIDATION_ERROR

definition requireNonEmptyString :: "json option \<Rightarrow> error_code + string" where
  "requireNonEmptyString value =
     (case value of
        Some (JStr s) \<Rightarrow> (if blank s then Inl VALIDATION_ERROR else Inr s)
      | _ \<Rightarrow> Inl VALIDATION_ERROR)"

definition flow_name :: "flow \<Rightarrow> string" where
  "flow_name f = (case f of Full \<Rightarrow> ''full'' | Direct \<Rightarrow> ''direct'' | Solo \<Rightarrow> ''solo'')"

definition requireValidFlow :: "json option \<Rightarrow> error_code + flow option" where
  "requireValidFlow value =
     (if value = None then Inr None
      else if value = Some (JStr ''full'') then Inr (Some Full)
      else if value = Some (JStr ''direct'') then Inr (Some Direct)
      else if value = Some (JStr ''solo'') then Inr (Some Solo)
      else Inl VALIDATION_ERROR)"

definition CAST_ROLES :: "string list" where
  "CAST_ROLES = [''architect'', ''executor'', ''reviewer'']"

definition cast_entry :: "string \<times> json \<Rightarrow> error_code + (string \<times> agent_route)" where
  "cast_entry entry = (case entry of (role, route) \<Rightarrow>
     if role \<notin> set CAST_ROLES then Inl VALIDATION_ERROR
     else (case validateAgentRoute (Some route) of
             Inl e \<Rightarrow> Inl VALIDATION_ERROR
           | Inr r \<Rightarrow> Inr (role, r)))"

definition requireValidCast :: "json option \<Rightarrow> error_code + cast option" where
  "requireValidCast value =
     (case value of
        None \<Rightarrow> Inr None
      | Some (JObj entries) \<Rightarrow>
          rbind (traverse cast_entry entries)
            (\<lambda>out. Inr (if out = [] then None else Some out))
      | Some _ \<Rightarrow> Inl VALIDATION_ERROR)"

text \<open>\<open>/[\u0000\r\n]/u\<close>.\<close>

definition has_control :: "string \<Rightarrow> bool" where
  "has_control s \<longleftrightarrow> list_ex (\<lambda>c. of_char c \<in> {0, 10, 13 :: nat}) s"

definition routeValue :: "json option \<Rightarrow> error_code + string option" where
  "routeValue candidate =
     (case candidate of
        None \<Rightarrow> Inr None
      | Some (JStr s) \<Rightarrow> (if blank s \<or> has_control s then Inl VALIDATION_ERROR else Inr (Some s))
      | Some _ \<Rightarrow> Inl VALIDATION_ERROR)"

definition requireValidCheckout :: "json option \<Rightarrow> error_code + checkout_route option" where
  "requireValidCheckout value =
     (case value of
        None \<Rightarrow> Inr None
      | Some (JObj raw) \<Rightarrow>
          (if pget raw ''kind'' = Some (JStr ''current'') then Inr (Some Current)
           else if pget raw ''kind'' \<noteq> Some (JStr ''worktree'') then Inl VALIDATION_ERROR
           else rbind (routeValue (pget raw ''path'')) (\<lambda>checkoutPath.
                rbind (routeValue (pget raw ''ref'')) (\<lambda>ref.
                (case checkoutPath of
                   None \<Rightarrow> Inl VALIDATION_ERROR
                 | Some p \<Rightarrow> Inr (Some (Worktree p ref))))))
      | Some _ \<Rightarrow> Inl VALIDATION_ERROR)"

section \<open>Task identifiers\<close>

definition lower_alnum :: "char \<Rightarrow> bool" where
  "lower_alnum c \<longleftrightarrow> (let n = (of_char c :: nat) in n \<in> {97..122} \<or> n \<in> {48..57})"

definition TASK_ID_PATTERN :: "string \<Rightarrow> bool" where
  "TASK_ID_PATTERN s = (case s of
       [] \<Rightarrow> False
     | c # t \<Rightarrow> lower_alnum c \<and> list_all (\<lambda>c. lower_alnum c \<or> c = CHR ''_'' \<or> c = CHR ''-'') t)"

definition LEGACY_TASK_ID_PATTERN :: "string \<Rightarrow> bool" where
  "LEGACY_TASK_ID_PATTERN s = (case s of
       [] \<Rightarrow> False
     | c # t \<Rightarrow> lower_alnum c \<and>
         list_all (\<lambda>c. lower_alnum c \<or> c = CHR ''.'' \<or> c = CHR ''_'' \<or> c = CHR ''-'') t)"

definition requireValidTaskId :: "string \<Rightarrow> (string \<Rightarrow> bool) \<Rightarrow> error_code + unit" where
  "requireValidTaskId taskId pattern = guard (pattern taskId) VALIDATION_ERROR"

text \<open>
  \<open>replace(/[^a-z0-9]+/g, "-")\<close>: every maximal run of other characters becomes one hyphen;
  \<open>pending\<close> says that the last character emitted stands for such a run.
\<close>

fun collapse_runs :: "bool \<Rightarrow> string \<Rightarrow> string" where
  "collapse_runs pending [] = []"
| "collapse_runs pending (c # s) =
     (if lower_alnum c then c # collapse_runs False s
      else if pending then collapse_runs True s
      else CHR ''-'' # collapse_runs True s)"

definition strip_hyphens :: "string \<Rightarrow> string" where
  "strip_hyphens s =
     rev (dropWhile (\<lambda>c. c = CHR ''-'') (rev (dropWhile (\<lambda>c. c = CHR ''-'') s)))"

definition slugify :: "string \<Rightarrow> string" where
  "slugify title =
     (let slug = strip_hyphens (collapse_runs False (lower_case title))
      in if slug \<noteq> [] then slug else ''task'')"

section \<open>Record file names\<close>

definition filename_char :: "char \<Rightarrow> bool" where
  "filename_char c \<longleftrightarrow>
     (let n = (of_char c :: nat) in n \<in> {65..90} \<or> n \<in> {97..122} \<or> n \<in> {48..57}) \<or> c \<in> set ''._-''"

definition sanitizeContentType :: "string \<Rightarrow> string" where
  "sanitizeContentType ct =
     (let sanitized = map (\<lambda>c. if filename_char c then c else CHR ''-'') ct
      in if sanitized \<noteq> [] then sanitized else ''record'')"

definition digit_char :: "nat \<Rightarrow> char" where
  "digit_char d = char_of (48 + d)"

fun show_nat :: "nat \<Rightarrow> string" where
  "show_nat n = (if n < 10 then [digit_char n] else show_nat (n div 10) @ [digit_char (n mod 10)])"

declare show_nat.simps [simp del]

definition read_nat :: "string \<Rightarrow> nat" where
  "read_nat s = foldl (\<lambda>a c. 10 * a + (of_char c - 48)) 0 s"

definition pad3 :: "string \<Rightarrow> string" where
  "pad3 s = replicate (3 - length s) (CHR ''0'') @ s"

definition recordFileName :: "nat \<Rightarrow> string \<Rightarrow> string" where
  "recordFileName version contentType =
     ''v'' @ pad3 (show_nat version) @ ''.'' @ sanitizeContentType contentType @ ''.json''"

definition ends_with :: "string \<Rightarrow> string \<Rightarrow> bool" where
  "ends_with suffix s \<longleftrightarrow> length suffix \<le> length s \<and> drop (length s - length suffix) s = suffix"

definition line_terminator :: "char \<Rightarrow> bool" where
  "line_terminator c \<longleftrightarrow> of_char c \<in> {10, 13 :: nat}"

text \<open>\<open>/^v(\d+)\..+\.json$/\<close> and the parsed version.\<close>

definition recordFileVersion :: "string \<Rightarrow> nat option" where
  "recordFileVersion fileName =
     (let ds = takeWhile is_digit (tl fileName); rest = dropWhile is_digit (tl fileName) in
      if fileName \<noteq> [] \<and> hd fileName = CHR ''v'' \<and> ds \<noteq> [] \<and>
         rest \<noteq> [] \<and> hd rest = CHR ''.'' \<and> ends_with ''.json'' (tl rest) \<and> 5 < length (tl rest) \<and>
         \<not> list_ex line_terminator rest
      then Some (read_nat ds) else None)"

definition maxRecordVersionOf :: "string list \<Rightarrow> nat" where
  "maxRecordVersionOf names =
     foldl (\<lambda>m name. case recordFileVersion name of None \<Rightarrow> m | Some v \<Rightarrow> max m v) 0 names"

section \<open>Records\<close>

definition validateRecordArtifact :: "json \<Rightarrow> string option \<Rightarrow> error_code + context_record" where
  "validateRecordArtifact value taskId =
     (case value of
        JObj record \<Rightarrow>
          rbind (case nat_of (pget record ''version'') of
                   None \<Rightarrow> Inl VALIDATION_ERROR
                 | Some v \<Rightarrow> if v < 1 then Inl VALIDATION_ERROR else Inr v) (\<lambda>v.
          rbind (requireNonEmptyString (pget record ''task_id'')) (\<lambda>tid.
          rbind (guard (taskId = None \<or> taskId = Some tid) VALIDATION_ERROR) (\<lambda>_.
          rbind (requireNonEmptyString (pget record ''role'')) (\<lambda>role.
          rbind (requireNonEmptyString (pget record ''content_type'')) (\<lambda>ct.
          rbind (requireNonEmptyString (pget record ''timestamp'')) (\<lambda>ts.
          (case pget record ''payload'' of
             Some (JObj p) \<Rightarrow>
               rbind (requireNonEmptyString (pget p ''summary'')) (\<lambda>_.
               rbind (requireNonEmptyString (pget p ''body'')) (\<lambda>_.
               Inr \<lparr>rec_version = v, rec_task_id = tid, rec_role = role,
                    rec_agent = string_of (pget record ''agent''),
                    rec_model = string_of (pget record ''model''),
                    rec_content_type = ct, rec_timestamp = ts, rec_payload = p,
                    rec_tut_version = string_of (pget record ''tut_version'')\<rparr>))
           | _ \<Rightarrow> Inl VALIDATION_ERROR)))))))
      | _ \<Rightarrow> Inl VALIDATION_ERROR)"

definition opt_field :: "string \<Rightarrow> json option \<Rightarrow> jobject" where
  "opt_field k v = (case v of None \<Rightarrow> [] | Some x \<Rightarrow> [(k, x)])"

text \<open>The object \<open>JSON.stringify\<close> is applied to when a record is written.\<close>

definition record_json :: "context_record \<Rightarrow> json" where
  "record_json r = JObj (
     [(''version'', JNum (of_nat (rec_version r))),
      (''task_id'', JStr (rec_task_id r)),
      (''role'', JStr (rec_role r)),
      (''content_type'', JStr (rec_content_type r)),
      (''timestamp'', JStr (rec_timestamp r)),
      (''payload'', JObj (rec_payload r))]
     @ opt_field ''agent'' (map_option JStr (rec_agent r))
     @ opt_field ''model'' (map_option JStr (rec_model r))
     @ opt_field ''tut_version'' (map_option JStr (rec_tut_version r)))"

section \<open>Metadata\<close>

text \<open>
  \<open>TaskMeta\<close>.  \<open>description\<close> is JSON, because a hand-edited file may hold anything there;
  \<open>tm_cached\<close> stands for the four derived-state fields, which the store writes together and never
  reads back.
\<close>

record task_meta =
  tm_task_id :: string
  tm_title :: string
  tm_description :: "json option"
  tm_creator :: "string option"
  tm_role :: "string option"
  tm_flow :: "flow option"
  tm_cast :: "cast option"
  tm_checkout :: "checkout_route option"
  tm_created_at :: string
  tm_updated_at :: string
  tm_version :: nat
  tm_cached :: "derived_state option"

text \<open>A stored route is kept as it was written, validated but not normalised.\<close>

definition raw_route :: "json \<Rightarrow> agent_route" where
  "raw_route v = (case v of
       JObj raw \<Rightarrow> Command \<lparr>ac_agent = (case string_of (pget raw ''agent'') of None \<Rightarrow> [] | Some s \<Rightarrow> s),
         ac_args = (case pget raw ''args'' of
             Some (JArr xs) \<Rightarrow> map (\<lambda>x. case string_of (Some x) of None \<Rightarrow> [] | Some s \<Rightarrow> s) xs
           | _ \<Rightarrow> [])\<rparr>
     | JStr s \<Rightarrow> Bare s
     | _ \<Rightarrow> Bare [])"

definition raw_cast :: "json option \<Rightarrow> cast option" where
  "raw_cast v = (case v of Some (JObj es) \<Rightarrow> Some (map (\<lambda>(k, x). (k, raw_route x)) es) | _ \<Rightarrow> None)"

definition validateMetaArtifact :: "json \<Rightarrow> string \<Rightarrow> error_code + task_meta" where
  "validateMetaArtifact value taskId =
     (case value of
        JObj meta \<Rightarrow>
          rbind (guard (pget meta ''task_id'' = Some (JStr taskId)) VALIDATION_ERROR) (\<lambda>_.
          rbind (requireNonEmptyString (pget meta ''title'')) (\<lambda>title.
          rbind (requireNonEmptyString (pget meta ''created_at'')) (\<lambda>created.
          rbind (requireNonEmptyString (pget meta ''updated_at'')) (\<lambda>updated.
          rbind (case nat_of (pget meta ''version'') of
                   None \<Rightarrow> Inl VALIDATION_ERROR | Some v \<Rightarrow> Inr v) (\<lambda>v.
          rbind (requireValidFlow (pget meta ''flow'')) (\<lambda>flow.
          rbind (requireValidCast (pget meta ''cast'')) (\<lambda>_.
          rbind (requireValidCheckout (pget meta ''checkout'')) (\<lambda>checkout.
          Inr \<lparr>tm_task_id = taskId, tm_title = title, tm_description = pget meta ''description'',
               tm_creator = string_of (pget meta ''creator''), tm_role = string_of (pget meta ''role''),
               tm_flow = flow, tm_cast = raw_cast (pget meta ''cast''), tm_checkout = checkout,
               tm_created_at = created, tm_updated_at = updated, tm_version = v, tm_cached = None\<rparr>))))))))
      | _ \<Rightarrow> Inl VALIDATION_ERROR)"

definition checkout_json :: "checkout_route \<Rightarrow> json" where
  "checkout_json c = (case c of
       Current \<Rightarrow> JObj [(''kind'', JStr ''current'')]
     | Worktree p ref \<Rightarrow> JObj ([(''kind'', JStr ''worktree''), (''path'', JStr p)]
         @ opt_field ''ref'' (map_option JStr ref)))"

definition cast_json :: "cast \<Rightarrow> json" where
  "cast_json c = JObj (map (\<lambda>(role, r). (role, route_json r)) c)"

definition status_name :: "status \<Rightarrow> string" where
  "status_name s = (case s of Designing \<Rightarrow> ''designing'' | Implementing \<Rightarrow> ''implementing''
     | Reviewing \<Rightarrow> ''reviewing'' | Revising \<Rightarrow> ''revising'' | Pending_approval \<Rightarrow> ''pending_approval''
     | Approved \<Rightarrow> ''approved'' | Closed \<Rightarrow> ''closed'')"

text \<open>
  The object \<open>writeMeta\<close> serialises.  Of the cached fields only status, waiting_for and
  needs_attention are written out here; the warnings list is left out, since no reader uses it.
\<close>

definition meta_json :: "task_meta \<Rightarrow> json" where
  "meta_json m = JObj (
     [(''task_id'', JStr (tm_task_id m)), (''title'', JStr (tm_title m)),
      (''created_at'', JStr (tm_created_at m)), (''updated_at'', JStr (tm_updated_at m)),
      (''version'', JNum (of_nat (tm_version m)))]
     @ opt_field ''description'' (tm_description m)
     @ opt_field ''creator'' (map_option JStr (tm_creator m))
     @ opt_field ''role'' (map_option JStr (tm_role m))
     @ opt_field ''flow'' (map_option (\<lambda>f. JStr (flow_name f)) (tm_flow m))
     @ opt_field ''cast'' (map_option cast_json (tm_cast m))
     @ opt_field ''checkout'' (map_option checkout_json (tm_checkout m))
     @ opt_field ''status'' (map_option (\<lambda>d. JStr (status_name (ds_status d))) (tm_cached m))
     @ opt_field ''waiting_for'' (map_option (\<lambda>d. JStr (ds_waiting_for d)) (tm_cached m))
     @ opt_field ''needs_attention'' (map_option (\<lambda>d. JBool (ds_needs_attention d)) (tm_cached m)))"

section \<open>Numbers in file names\<close>

lemma of_char_digit [simp]: "d < 10 \<Longrightarrow> (of_char (digit_char d) :: nat) = 48 + d"
  by (simp add: digit_char_def)

lemma is_digit_digit_char: "d < 10 \<Longrightarrow> is_digit (digit_char d)"
  by (simp add: is_digit_def)

lemma show_nat_digits: "show_nat n \<noteq> [] \<and> list_all is_digit (show_nat n)"
proof (induction n rule: show_nat.induct)
  case (1 n)
  then show ?case
    by (cases "n < 10") (simp_all add: show_nat.simps [of n] is_digit_digit_char)
qed

lemma read_nat_snoc: "read_nat (s @ [c]) = 10 * read_nat s + (of_char c - 48)"
  by (simp add: read_nat_def)

lemma read_show_nat: "read_nat (show_nat n) = n"
proof (induction n rule: show_nat.induct)
  case (1 n)
  show ?case
  proof (cases "n < 10")
    case True
    then show ?thesis by (simp add: show_nat.simps [of n] read_nat_def)
  next
    case False
    with 1 show ?thesis by (simp add: show_nat.simps [of n] read_nat_snoc)
  qed
qed

lemma read_nat_zeros: "read_nat (replicate k (CHR ''0'') @ s) = read_nat s"
  by (induction k) (simp_all add: read_nat_def)

lemma pad3_digits: "list_all is_digit s \<Longrightarrow> list_all is_digit (pad3 s)"
  by (auto simp: pad3_def list_all_iff is_digit_def)

lemma takeWhile_all_append: "list_all P xs \<Longrightarrow> \<not> P y \<Longrightarrow> takeWhile P (xs @ y # ys) = xs"
  by (induction xs) simp_all

lemma dropWhile_all_append: "list_all P xs \<Longrightarrow> \<not> P y \<Longrightarrow> dropWhile P (xs @ y # ys) = y # ys"
  by (induction xs) simp_all

lemma sanitized_chars: "list_all filename_char (sanitizeContentType ct) \<and> sanitizeContentType ct \<noteq> []"
  by (auto simp: sanitizeContentType_def Let_def list_all_iff filename_char_def)

lemma filename_char_no_newline: "filename_char c \<Longrightarrow> \<not> line_terminator c"
  by (auto simp: filename_char_def line_terminator_def Let_def)

lemma ends_with_append: "ends_with s (t @ s)"
  by (simp add: ends_with_def)

lemma record_file_name_version: "recordFileVersion (recordFileName v ct) = Some v"
proof -
  let ?d = "pad3 (show_nat v)" and ?m = "sanitizeContentType ct"
  have d: "list_all is_digit ?d" "?d \<noteq> []"
    using show_nat_digits [of v] by (simp_all add: pad3_digits) (simp add: pad3_def)
  have dot: "\<not> is_digit (CHR ''.'')"
    by (simp add: is_digit_def)
  have m: "\<not> list_ex line_terminator ?m" "0 < length ?m"
    using sanitized_chars [of ct] filename_char_no_newline by (auto simp: list_ex_iff list_all_iff)
  have ld: "?m \<noteq> []" using m by simp
  have "read_nat ?d = v"
    by (simp add: pad3_def read_nat_zeros read_show_nat)
  moreover have "takeWhile is_digit (?d @ CHR ''.'' # ?m @ ''.json'') = ?d"
    "dropWhile is_digit (?d @ CHR ''.'' # ?m @ ''.json'') = CHR ''.'' # ?m @ ''.json''"
    using d dot by (simp_all add: takeWhile_all_append dropWhile_all_append)
  moreover have "\<not> line_terminator c" if "c \<in> set ''.json''" for c
    using that by (auto simp: line_terminator_def)
  ultimately show ?thesis
    using d m ends_with_append [of "''.json''" ?m]
    by (simp add: recordFileVersion_def recordFileName_def Let_def)
qed

lemma maxRecordVersionOf_eq: "maxRecordVersionOf names = list_max (List.map_filter recordFileVersion names)"
proof -
  have "foldl (\<lambda>m name. case recordFileVersion name of None \<Rightarrow> m | Some v \<Rightarrow> max m v) a names =
      max a (list_max (List.map_filter recordFileVersion names))" for a
    by (induction names arbitrary: a) (auto simp: List.map_filter_simps max.assoc split: option.splits)
  then show ?thesis by (simp add: maxRecordVersionOf_def)
qed

lemma maxRecordVersionOf_ge:
  "name \<in> set names \<Longrightarrow> recordFileVersion name = Some v \<Longrightarrow> v \<le> maxRecordVersionOf names"
  by (auto simp: maxRecordVersionOf_eq List.map_filter_def intro!: list_max_ge) force

lemma maxRecordVersionOf_append:
  "maxRecordVersionOf (xs @ ys) = max (maxRecordVersionOf xs) (maxRecordVersionOf ys)"
  by (simp add: maxRecordVersionOf_eq List.map_filter_def)

lemma maxRecordVersionOf_single:
  "maxRecordVersionOf [n] = (case recordFileVersion n of None \<Rightarrow> 0 | Some v \<Rightarrow> v)"
  by (simp add: maxRecordVersionOf_def split: option.splits)

lemma fresh_record_name:
  "maxRecordVersionOf names < v \<Longrightarrow> recordFileName v ct \<notin> set names"
  using maxRecordVersionOf_ge [OF _ record_file_name_version] by fastforce

section \<open>Identifiers\<close>

lemma collapse_runs_chars: "list_all (\<lambda>c. lower_alnum c \<or> c = CHR ''-'') (collapse_runs b s)"
  by (induction b s rule: collapse_runs.induct) auto

lemma strip_hyphens_subset: "set (strip_hyphens s) \<subseteq> set s"
  unfolding strip_hyphens_def by (auto dest!: set_dropWhileD)

lemma strip_hyphens_hd: "strip_hyphens s \<noteq> [] \<Longrightarrow> hd (strip_hyphens s) \<noteq> CHR ''-''"
proof -
  let ?P = "\<lambda>c. c = CHR ''-''" and ?t = "dropWhile (\<lambda>c. c = CHR ''-'') s"
  assume ne: "strip_hyphens s \<noteq> []"
  obtain us where us: "rev ?t = us @ dropWhile ?P (rev ?t)"
    by (metis takeWhile_dropWhile_id)
  then have "?t = strip_hyphens s @ rev us"
    unfolding strip_hyphens_def by (metis rev_append rev_rev_ident)
  with ne have "hd (strip_hyphens s) = hd ?t" "?t \<noteq> []"
    by (metis hd_append2, metis append_is_Nil_conv)
  with hd_dropWhile [of ?P s] show ?thesis by simp
qed

lemma slug_pattern: "TASK_ID_PATTERN (slugify title)"
proof (cases "strip_hyphens (collapse_runs False (lower_case title))")
  case Nil
  then show ?thesis
    by (simp add: slugify_def TASK_ID_PATTERN_def lower_alnum_def Let_def)
next
  case (Cons c t)
  have "list_all (\<lambda>c. lower_alnum c \<or> c = CHR ''-'') (c # t)"
    using strip_hyphens_subset [of "collapse_runs False (lower_case title)"]
      collapse_runs_chars [of False "lower_case title"] Cons
    by (auto simp: list_all_iff)
  moreover have "c \<noteq> CHR ''-''"
    using strip_hyphens_hd [of "collapse_runs False (lower_case title)"] Cons by simp
  ultimately show ?thesis
    using Cons by (auto simp: slugify_def TASK_ID_PATTERN_def list_all_iff)
qed

lemma TASK_ID_legacy: "TASK_ID_PATTERN s \<Longrightarrow> LEGACY_TASK_ID_PATTERN s"
  by (auto simp: TASK_ID_PATTERN_def LEGACY_TASK_ID_PATTERN_def list_all_iff split: list.splits)

lemma task_id_suffix:
  assumes "TASK_ID_PATTERN base" and "list_all lower_alnum suffix"
  shows "TASK_ID_PATTERN (base @ ''-'' @ suffix)"
  using assms by (auto simp: TASK_ID_PATTERN_def list_all_iff split: list.splits)

lemma lower_alnum_no_sep: "lower_alnum c \<Longrightarrow> c \<notin> {CHR ''/'', CHR 0x5C, CHR 0x00, CHR ''.''}"
  by (auto simp: lower_alnum_def)

lemma legacy_id_safe:
  assumes "LEGACY_TASK_ID_PATTERN s"
  shows "CHR ''/'' \<notin> set s \<and> CHR 0x5C \<notin> set s \<and> CHR 0x00 \<notin> set s \<and> s \<noteq> [] \<and> hd s \<noteq> CHR ''.''"
  using assms by (auto simp: LEGACY_TASK_ID_PATTERN_def list_all_iff dest: lower_alnum_no_sep split: list.splits)

section \<open>Round trips\<close>

definition record_ok :: "context_record \<Rightarrow> bool" where
  "record_ok r \<longleftrightarrow> 1 \<le> rec_version r \<and> \<not> blank (rec_task_id r) \<and> \<not> blank (rec_role r) \<and>
     \<not> blank (rec_content_type r) \<and> \<not> blank (rec_timestamp r) \<and>
     nonempty_string (pget (rec_payload r) ''summary'') \<and> nonempty_string (pget (rec_payload r) ''body'')"

lemma requireNonEmptyString_Inr:
  "requireNonEmptyString v = Inr s \<longleftrightarrow> v = Some (JStr s) \<and> \<not> blank s"
  by (auto simp: requireNonEmptyString_def split: option.splits json.splits)

lemma pget_append: "pget (xs @ ys) k = (case pget xs k of None \<Rightarrow> pget ys k | Some v \<Rightarrow> Some v)"
  by (simp add: pget_def map_add_def split: option.splits)

lemma pget_opt_field: "pget (opt_field k v) k' = (if k = k' then v else None)"
  by (simp add: opt_field_def split: option.splits)

lemma record_json_pget:
  assumes "record_json r = JObj ob"
  shows "pget ob ''version'' = Some (JNum (of_nat (rec_version r)))"
    "pget ob ''task_id'' = Some (JStr (rec_task_id r))"
    "pget ob ''role'' = Some (JStr (rec_role r))"
    "pget ob ''content_type'' = Some (JStr (rec_content_type r))"
    "pget ob ''timestamp'' = Some (JStr (rec_timestamp r))"
    "pget ob ''payload'' = Some (JObj (rec_payload r))"
    "pget ob ''agent'' = map_option JStr (rec_agent r)"
    "pget ob ''model'' = map_option JStr (rec_model r)"
    "pget ob ''tut_version'' = map_option JStr (rec_tut_version r)"
  using assms unfolding record_json_def by (auto simp: pget_append pget_opt_field split: option.splits)

lemma string_of_map_option [simp]: "string_of (map_option JStr v) = v"
  by (cases v) simp_all

lemma record_json_valid:
  assumes "record_ok r"
  shows "validateRecordArtifact (record_json r) (Some (rec_task_id r)) = Inr r"
proof -
  obtain ob where ob: "record_json r = JObj ob"
    by (simp add: record_json_def)
  obtain a b where "pget (rec_payload r) ''summary'' = Some (JStr a)" "\<not> blank a"
    "pget (rec_payload r) ''body'' = Some (JStr b)" "\<not> blank b"
    using assms by (auto simp: record_ok_def nonempty_string_iff)
  with assms show ?thesis
    unfolding validateRecordArtifact_def ob
    by (simp add: record_json_pget [OF ob] record_ok_def requireNonEmptyString_def guard_def)
qed

text \<open>Metadata: what \<open>writeMeta\<close> writes, \<open>readMeta\<close> accepts and returns without the cached fields.\<close>

definition meta_ok :: "task_meta \<Rightarrow> bool" where
  "meta_ok m \<longleftrightarrow> \<not> blank (tm_title m) \<and> \<not> blank (tm_created_at m) \<and> \<not> blank (tm_updated_at m) \<and>
     (\<forall>c. tm_cast m = Some c \<longrightarrow>
        list_all (\<lambda>(role, r). role \<in> set CAST_ROLES \<and> is_ok (validateAgentRoute (Some (route_json r)))) c) \<and>
     (\<forall>p ref. tm_checkout m = Some (Worktree p ref) \<longrightarrow> \<not> blank p \<and> \<not> has_control p \<and>
        (\<forall>s. ref = Some s \<longrightarrow> \<not> blank s \<and> \<not> has_control s))"

lemma checkout_json_valid:
  assumes "meta_ok m"
  shows "requireValidCheckout (map_option checkout_json (tm_checkout m)) = Inr (tm_checkout m)"
  using assms
  by (auto simp: meta_ok_def requireValidCheckout_def checkout_json_def routeValue_def pget_append
      pget_opt_field split: option.splits checkout_route.splits)

lemma flow_name_valid: "requireValidFlow (map_option (\<lambda>f. JStr (flow_name f)) fl) = Inr fl"
  by (cases fl) (auto simp: requireValidFlow_def flow_name_def split: flow.splits)

lemma raw_route_json: "raw_route (route_json r) = r"
  by (simp add: raw_route_def route_json_def o_def map_idI split: agent_route.splits)

lemma raw_cast_json: "raw_cast (map_option cast_json c) = c"
  by (cases c) (auto simp: raw_cast_def cast_json_def raw_route_json o_def case_prod_unfold)

lemma cast_json_valid:
  assumes "meta_ok m"
  shows "is_ok (requireValidCast (map_option cast_json (tm_cast m)))"
proof (cases "tm_cast m")
  case None
  then show ?thesis by (simp add: requireValidCast_def)
next
  case (Some c)
  have "is_ok (cast_entry (role, route_json r))" if "(role, r) \<in> set c" for role r
    using assms Some that by (fastforce simp: meta_ok_def list_all_iff cast_entry_def is_ok_iff)
  then have "is_ok (traverse cast_entry (map (\<lambda>(role, r). (role, route_json r)) c))"
    by (auto simp: traverse_ok_iff)
  with Some show ?thesis by (auto simp: requireValidCast_def cast_json_def is_ok_iff)
qed

lemma meta_json_pget:
  assumes "meta_json m = JObj ob"
  shows "pget ob ''task_id'' = Some (JStr (tm_task_id m))"
    "pget ob ''title'' = Some (JStr (tm_title m))"
    "pget ob ''created_at'' = Some (JStr (tm_created_at m))"
    "pget ob ''updated_at'' = Some (JStr (tm_updated_at m))"
    "pget ob ''version'' = Some (JNum (of_nat (tm_version m)))"
    "pget ob ''description'' = tm_description m"
    "pget ob ''creator'' = map_option JStr (tm_creator m)"
    "pget ob ''role'' = map_option JStr (tm_role m)"
    "pget ob ''flow'' = map_option (\<lambda>f. JStr (flow_name f)) (tm_flow m)"
    "pget ob ''cast'' = map_option cast_json (tm_cast m)"
    "pget ob ''checkout'' = map_option checkout_json (tm_checkout m)"
  using assms unfolding meta_json_def by (auto simp: pget_append pget_opt_field split: option.splits)

lemma meta_json_valid:
  assumes "meta_ok m"
  shows "validateMetaArtifact (meta_json m) (tm_task_id m) = Inr (m\<lparr>tm_cached := None\<rparr>)"
proof -
  obtain ob where ob: "meta_json m = JObj ob"
    by (simp add: meta_json_def)
  obtain out where cast: "requireValidCast (map_option cast_json (tm_cast m)) = Inr out"
    using cast_json_valid [OF assms] by (auto simp: is_ok_iff)
  have str: "requireNonEmptyString (Some (JStr (tm_title m))) = Inr (tm_title m)"
    "requireNonEmptyString (Some (JStr (tm_created_at m))) = Inr (tm_created_at m)"
    "requireNonEmptyString (Some (JStr (tm_updated_at m))) = Inr (tm_updated_at m)"
    using assms by (simp_all add: meta_ok_def requireNonEmptyString_Inr)
  show ?thesis
    unfolding validateMetaArtifact_def ob
    by (simp add: meta_json_pget [OF ob] str cast checkout_json_valid [OF assms] flow_name_valid
        raw_cast_json guard_def)
qed

text \<open>What the reader accepts is well formed, so it can be written back.\<close>

lemma requireValidCheckout_ok:
  assumes "requireValidCheckout v = Inr (Some (Worktree p ref))"
  shows "\<not> blank p \<and> \<not> has_control p \<and> (\<forall>s. ref = Some s \<longrightarrow> \<not> blank s \<and> \<not> has_control s)"
proof -
  have rv: "\<not> blank s \<and> \<not> has_control s" if "routeValue w = Inr (Some s)" for w s
    using that by (auto simp: routeValue_def split: option.split_asm json.split_asm if_split_asm)
  obtain raw where "v = Some (JObj raw)"
    using assms by (auto simp: requireValidCheckout_def split: option.split_asm json.split_asm)
  with assms show ?thesis
    by (auto simp: requireValidCheckout_def rbind_Inr_iff dest: rv split: if_split_asm option.split_asm)
qed

lemma raw_route_valid:
  assumes "validateAgentRoute (Some v) = Inr r"
  shows "is_ok (validateAgentRoute (Some (route_json (raw_route v))))"
proof (cases v)
  case (JObj raw)
  from assms JObj obtain agent args where a: "r = Command \<lparr>ac_agent = agent, ac_args = args\<rparr>"
      "pget raw ''agent'' = Some (JStr agent)" "SHELL_NEUTRAL_TOKEN agent"
      "pget raw ''args'' = Some (JArr (map JStr args))" "list_all SHELL_NEUTRAL_TOKEN args"
    by (auto simp: validateAgentRoute_JObj)
  then have "raw_route v = r"
    using JObj by (simp add: raw_route_def o_def)
  moreover have "validateAgentRoute (Some (route_json r)) = Inr r"
    using a by (simp add: route_json_def validateAgentRoute_JObj)
  ultimately show ?thesis by simp
qed (use assms in \<open>simp_all add: raw_route_def route_json_def validateAgentRoute_def\<close>)

lemma raw_cast_valid:
  assumes "requireValidCast v = Inr out" and "raw_cast v = Some c"
  shows "list_all (\<lambda>(role, r). role \<in> set CAST_ROLES \<and> is_ok (validateAgentRoute (Some (route_json r)))) c"
proof -
  obtain es where v: "v = Some (JObj es)" and c: "c = map (\<lambda>(k, x). (k, raw_route x)) es"
    using assms(2) by (auto simp: raw_cast_def split: option.split_asm json.split_asm)
  have "is_ok (traverse cast_entry es)"
    using assms(1) v by (auto simp: requireValidCast_def rbind_Inr_iff)
  then have entry: "is_ok (cast_entry (k, x))" if "(k, x) \<in> set es" for k x
    using that by (auto simp: traverse_ok_iff)
  have "k \<in> set CAST_ROLES \<and> is_ok (validateAgentRoute (Some (route_json (raw_route x))))" if "(k, x) \<in> set es" for k x
    using entry [OF that] raw_route_valid [of x]
    by (cases "validateAgentRoute (Some x)") (auto simp: cast_entry_def split: if_split_asm)
  then show ?thesis unfolding c by (auto simp: list_all_iff)
qed

lemma validateAgentRoute_again:
  assumes "validateAgentRoute (Some v) = Inr r"
  shows "is_ok (validateAgentRoute (Some (route_json r)))"
proof (cases v)
  case (JObj raw)
  with assms obtain agent args where "r = Command \<lparr>ac_agent = agent, ac_args = args\<rparr>" "SHELL_NEUTRAL_TOKEN agent"
      "list_all SHELL_NEUTRAL_TOKEN args"
    by (auto simp: validateAgentRoute_JObj)
  then show ?thesis
    by (auto simp: route_json_def is_ok_iff validateAgentRoute_JObj)
next
  case (JStr s)
  with assms have p: "parseAgentRoute s = Inr r"
    by (simp add: validateAgentRoute_def)
  then have tok: "list_all SHELL_NEUTRAL_TOKEN (route_tokens r)"
    by (rule parseAgentRoute_Inr [THEN conjunct2])
  show ?thesis
  proof (cases r)
    case (Bare t)
    with tok show ?thesis
      by (simp add: route_json_def validateAgentRoute_def route_tokens_def parse_single)
  next
    case (Command c)
    with tok show ?thesis
      by (auto simp: route_json_def is_ok_iff validateAgentRoute_JObj route_tokens_def)
  qed
qed (use assms in \<open>simp_all add: validateAgentRoute_def\<close>)

lemma requireValidCast_ok:
  assumes "requireValidCast v = Inr (Some c)"
  shows "list_all (\<lambda>(role, r). role \<in> set CAST_ROLES \<and> is_ok (validateAgentRoute (Some (route_json r)))) c"
proof -
  obtain es where es: "v = Some (JObj es)" "traverse cast_entry es = Inr c"
    using assms by (auto simp: requireValidCast_def rbind_Inr_iff split: option.split_asm json.split_asm if_split_asm)
  have "\<exists>x\<in>set es. cast_entry x = Inr y" if "y \<in> set c" for y
    using es(2) that unfolding traverse_Inr_iff list_all2_conv_all_nth by (metis in_set_conv_nth)
  moreover have "fst y \<in> set CAST_ROLES \<and> is_ok (validateAgentRoute (Some (route_json (snd y))))" if "cast_entry x = Inr y" for x y
    using that validateAgentRoute_again
    by (auto simp: cast_entry_def split: prod.split_asm if_split_asm sum.split_asm)
  ultimately show ?thesis by (fastforce simp: list_all_iff)
qed

lemma validateMetaArtifact_ok:
  assumes "validateMetaArtifact j t = Inr m"
  shows "meta_ok m \<and> tm_task_id m = t \<and> tm_cached m = None"
proof -
  obtain ob where j: "j = JObj ob"
    using assms by (cases j) (simp_all add: validateMetaArtifact_def)
  obtain title created updated v flow cast checkout where
    str: "requireNonEmptyString (pget ob ''title'') = Inr title"
      "requireNonEmptyString (pget ob ''created_at'') = Inr created"
      "requireNonEmptyString (pget ob ''updated_at'') = Inr updated"
    and cast: "requireValidCast (pget ob ''cast'') = Inr cast"
    and ck: "requireValidCheckout (pget ob ''checkout'') = Inr checkout"
    and m: "m = \<lparr>tm_task_id = t, tm_title = title, tm_description = pget ob ''description'',
               tm_creator = string_of (pget ob ''creator''), tm_role = string_of (pget ob ''role''),
               tm_flow = flow, tm_cast = raw_cast (pget ob ''cast''), tm_checkout = checkout,
               tm_created_at = created, tm_updated_at = updated, tm_version = v, tm_cached = None\<rparr>"
    using assms unfolding j validateMetaArtifact_def by (auto simp: rbind_Inr_iff)
  have "\<not> blank title" "\<not> blank created" "\<not> blank updated"
    using str by (simp_all add: requireNonEmptyString_Inr)
  with m show ?thesis
    using raw_cast_valid [OF cast] requireValidCheckout_ok ck by (auto simp: meta_ok_def)
qed

lemma validateRecordArtifact_ok:
  assumes "validateRecordArtifact v t = Inr r"
  shows "record_ok r \<and> (t = None \<or> t = Some (rec_task_id r))"
proof -
  obtain ob where v: "v = JObj ob"
    using assms by (auto simp: validateRecordArtifact_def split: json.split_asm)
  obtain p where p: "pget ob ''payload'' = Some (JObj p)"
  proof (cases "\<exists>p. pget ob ''payload'' = Some (JObj p)")
    case False
    then have "(case pget ob ''payload'' of Some (JObj p) \<Rightarrow> F p | _ \<Rightarrow> Inl VALIDATION_ERROR) = Inl VALIDATION_ERROR"
      for F :: "jobject \<Rightarrow> error_code + context_record"
      by (auto split: option.split json.split)
    with assms show ?thesis
      unfolding v validateRecordArtifact_def by (simp add: rbind_Inr_iff)
  qed blast
  show ?thesis
    using assms unfolding v validateRecordArtifact_def
    by (clarsimp simp: p rbind_Inr_iff requireNonEmptyString_Inr not_less record_ok_def nonempty_string_iff
        split: option.split_asm if_split_asm)
qed

section \<open>Properties\<close>

text \<open>C34. A record that is well formed is read back unchanged from the object it is written as, and
  the reader accepts nothing else: whatever \<open>validateRecordArtifact\<close> returns is well formed and
  belongs to the task it was asked for.\<close>

theorem record_roundtrip:
  shows "(record_ok r \<longrightarrow> validateRecordArtifact (record_json r) (Some (rec_task_id r)) = Inr r) \<and>
    (validateRecordArtifact v (Some tid) = Inr r' \<longrightarrow> record_ok r' \<and> rec_task_id r' = tid)"
proof (intro conjI impI)
  show "validateRecordArtifact (record_json r) (Some (rec_task_id r)) = Inr r" if "record_ok r"
    using that by (rule record_json_valid)
  assume "validateRecordArtifact v (Some tid) = Inr r'"
  from validateRecordArtifact_ok [OF this] show "record_ok r'" "rec_task_id r' = tid"
    by simp_all
qed

definition sample_written :: context_record where
  "sample_written = \<lparr>rec_version = 4, rec_task_id = ''a-task'', rec_role = ''executor'',
     rec_agent = Some ''codex'', rec_model = None, rec_content_type = ''output'',
     rec_timestamp = ''2026-01-01T00:00:00.000Z'',
     rec_payload = [(''summary'', JStr ''s''), (''body'', JStr ''b'')], rec_tut_version = None\<rparr>"

lemma sample_written_ok: "record_ok sample_written"
  by (simp add: sample_written_def record_ok_def blank_def is_space_def nonempty_string_def)

theorem record_roundtrip_witness:
  "validateRecordArtifact (record_json sample_written) (Some ''a-task'') = Inr sample_written"
  using record_roundtrip [of sample_written JNull "[]" sample_written] sample_written_ok
  by (simp add: sample_written_def)

text \<open>Metadata survives a write and a read: for well formed metadata \<open>readMeta\<close> returns what
  \<open>writeMeta\<close> was given, less the cached derived state, which no reader trusts.\<close>

theorem meta_roundtrip:
  assumes "meta_ok m"
  shows "validateMetaArtifact (meta_json m) (tm_task_id m) = Inr (m\<lparr>tm_cached := None\<rparr>)"
  using assms by (rule meta_json_valid)

definition sample_meta :: task_meta where
  "sample_meta = \<lparr>tm_task_id = ''a-task'', tm_title = ''A task'', tm_description = Some (JStr ''d''),
     tm_creator = None, tm_role = None, tm_flow = Some Direct, tm_cast = None,
     tm_checkout = Some (Worktree ''/w'' None), tm_created_at = ''t0'', tm_updated_at = ''t1'',
     tm_version = 3, tm_cached = None\<rparr>"

lemma sample_meta_ok: "meta_ok sample_meta"
  by (simp add: sample_meta_def meta_ok_def blank_def is_space_def has_control_def)

theorem meta_roundtrip_witness:
  "validateMetaArtifact (meta_json sample_meta) ''a-task'' = Inr sample_meta"
  using meta_roundtrip [OF sample_meta_ok] by (simp add: sample_meta_def)

text \<open>The file a new record is given never exists: with any version above the largest one on
  disk its name collides with no file of the directory, it is recognised as a record of that very
  version, and it becomes the new maximum.\<close>

theorem recordFileName_fresh:
  assumes "maxRecordVersionOf names < v"
  shows "recordFileName v ct \<notin> set names \<and> recordFileVersion (recordFileName v ct) = Some v \<and>
    maxRecordVersionOf (names @ [recordFileName v ct]) = v"
  using assms by (simp add: fresh_record_name record_file_name_version maxRecordVersionOf_append
      maxRecordVersionOf_single)

theorem recordFileName_fresh_witness:
  "recordFileName 1 ''note'' \<notin> set [''meta.json''] \<and>
    recordFileVersion (recordFileName 1 ''note'') = Some 1 \<and>
    maxRecordVersionOf ([''meta.json''] @ [recordFileName 1 ''note'']) = 1"
  by (rule recordFileName_fresh) (simp add: maxRecordVersionOf_def recordFileVersion_def)

text \<open>Task identifiers cannot leave the store: the slug of any title is a valid new identifier,
  also with an alphanumeric suffix, and every identifier accepted at any door contains no path
  separator and does not start with a dot.\<close>

theorem task_id_path_safe:
  "TASK_ID_PATTERN (slugify title) \<and>
   (list_all lower_alnum suffix \<longrightarrow> TASK_ID_PATTERN (slugify title @ ''-'' @ suffix)) \<and>
   (requireValidTaskId tid LEGACY_TASK_ID_PATTERN = Inr () \<longrightarrow>
      CHR ''/'' \<notin> set tid \<and> CHR 0x5C \<notin> set tid \<and> CHR 0x00 \<notin> set tid \<and> tid \<noteq> [] \<and> hd tid \<noteq> CHR ''.'')"
  using slug_pattern task_id_suffix legacy_id_safe by (simp add: requireValidTaskId_def)

theorem task_id_path_safe_witness:
  "TASK_ID_PATTERN (slugify ''Fix it'') \<and> TASK_ID_PATTERN (slugify ''Fix it'' @ ''-'' @ ''2'') \<and>
   CHR ''/'' \<notin> set ''v1.2''"
  using task_id_path_safe [of "''Fix it''" "''2''" "''v1.2''"]
  by (simp add: requireValidTaskId_def guard_def LEGACY_TASK_ID_PATTERN_def lower_alnum_def)

end
