(* ===== verification/State_Machine.thy ===== *)
theory State_Machine
  imports Types
begin

text \<open>
  The derivation of \<open>src/core/hub/state-machine.ts\<close>: a task's status is never stored, it is the
  fold of its record log.  \<open>fold_record\<close> is one row of the transition table, \<open>fold_step\<close> one
  iteration of the loop of \<open>foldOntoCursor\<close> (status, structural anomalies, the warnings and the
  subset of them that only a decision clears), \<open>foldOntoCursor\<close> the resumable fold and \<open>derive\<close>
  the function the rest of the program calls.

  The abstract specification is \<open>workflow\<close>, the table a reader finds in the README; the lemmas
  relate the code's branches to it.
\<close>

section \<open>Tables\<close>

definition WAITING_FOR_BASE :: "status \<Rightarrow> string" where
  "WAITING_FOR_BASE s = (case s of
       Designing \<Rightarrow> ''agent:architect''
     | Implementing \<Rightarrow> ''agent:executor''
     | Reviewing \<Rightarrow> ''agent:reviewer''
     | Revising \<Rightarrow> ''agent:executor''
     | Pending_approval \<Rightarrow> ''human''
     | Approved \<Rightarrow> ''human''
     | Closed \<Rightarrow> ''none'')"

definition INITIAL_STATUS :: "flow \<Rightarrow> status" where
  "INITIAL_STATUS f = (case f of Full \<Rightarrow> Designing | Direct \<Rightarrow> Implementing | Solo \<Rightarrow> Implementing)"

definition VERDICT_TARGET :: "(string \<times> status) list" where
  "VERDICT_TARGET =
     [(''pass'', Pending_approval),
      (''blocked_external'', Pending_approval),
      (''fail_code'', Revising),
      (''fail_design'', Designing)]"

definition VERDICT_TARGET_DIRECT :: "(string \<times> status) list" where
  "VERDICT_TARGET_DIRECT =
     [(''pass'', Pending_approval),
      (''blocked_external'', Pending_approval),
      (''fail_code'', Revising)]"

text \<open>\<open>typeof verdict === "string" && Object.hasOwn(VERDICT_TARGET, verdict)\<close>.\<close>

definition legal_verdict :: "context_record \<Rightarrow> bool" where
  "legal_verdict r = (case verdict_of r of
       None \<Rightarrow> False
     | Some v \<Rightarrow> map_of VERDICT_TARGET v \<noteq> None)"

section \<open>One transition\<close>

definition fold_review :: "status \<Rightarrow> context_record \<Rightarrow> flow \<Rightarrow> status \<times> warning_code option" where
  "fold_review status r flow =
     (let table = (if flow = Direct then VERDICT_TARGET_DIRECT else VERDICT_TARGET) in
      if legal_verdict r
      then (case (if flow \<noteq> Solo \<and> status = Reviewing
                  then map_of table (the (verdict_of r)) else None) of
              Some target \<Rightarrow> (target, None)
            | None \<Rightarrow> (Pending_approval, Some OUT_OF_TABLE))
      else (status, Some (if flow = Solo \<or> status \<noteq> Reviewing then OUT_OF_TABLE else INVALID_VERDICT)))"

definition fold_decision :: "status \<Rightarrow> context_record \<Rightarrow> flow \<Rightarrow> status \<times> warning_code option" where
  "fold_decision status r flow =
     (if decides r ''close'' then (Closed, None)
      else if (decides r ''approve'' \<or> decides r ''reject'') \<and> status = Pending_approval
      then (if decides r ''reject'' \<and> flow = Solo then (Implementing, None)
            else ((if decides r ''approve'' then Approved else Revising), None))
      else (status, Some OUT_OF_TABLE))"

definition fold_record :: "status \<Rightarrow> context_record \<Rightarrow> flow \<Rightarrow> status \<times> warning_code option" where
  "fold_record status r flow =
     (let ct = rec_content_type r in
      if ct = ''note''
      then (if \<not> is_ack r \<and> rec_role r = ''executor'' \<and> status = Reviewing
            then (Revising, None) else (status, None))
      else if status = Closed
      then (if ct = ''decision'' \<and> decides r ''close'' then (status, None)
            else (status, Some CLOSED_ABSORB))
      else if ct = ''design''
      then (if flow = Direct \<or> flow = Solo
            then (if status = Implementing then (status, None) else (status, Some OUT_OF_TABLE))
            else (if status = Designing then (Implementing, None) else (status, Some OUT_OF_TABLE)))
      else if ct = ''code_changes''
      then (if flow = Solo
            then (if status = Implementing then (Pending_approval, None)
                  else (status, Some OUT_OF_TABLE))
            else (if status = Implementing then (Reviewing, None)
                  else (status, Some OUT_OF_TABLE)))
      else if ct = ''review'' then fold_review status r flow
      else if ct = ''revision''
      then (if flow = Solo then (status, Some OUT_OF_TABLE)
            else if status = Revising \<or> (flow = Full \<and> status = Implementing)
            then (Reviewing, None)
            else (status, Some OUT_OF_TABLE))
      else if ct = ''decision'' then fold_decision status r flow
      else (status, Some OUT_OF_TABLE))"

section \<open>The resumable fold\<close>

text \<open>
  \<open>FoldCursor\<close>: the carried state between two records.  \<open>fc_gate\<close> is \<open>reviewGateWarnings\<close> (absent
  in the code when empty) and \<open>fc_heap\<close> numbers the warning objects allocated so far, so that
  \<open>reviewGateWarnings.includes(warning)\<close> is a comparison of identities.
\<close>

record fold_cursor =
  fc_status :: status
  fc_prevVersion :: nat
  fc_warnings :: "warning list"
  fc_gate :: "warning list"
  fc_heap :: nat

definition initialCursor :: "flow \<Rightarrow> fold_cursor" where
  "initialCursor flow =
     \<lparr>fc_status = INITIAL_STATUS flow, fc_prevVersion = 0, fc_warnings = [], fc_gate = [], fc_heap = 0\<rparr>"

definition isGateWarning :: "warning list \<Rightarrow> warning \<Rightarrow> bool" where
  "isGateWarning gate w \<longleftrightarrow> w_ref w \<in> set (map w_ref gate)"

text \<open>Allocate a warning object and push it.\<close>

definition push_warning :: "fold_cursor \<Rightarrow> nat \<Rightarrow> warning_code \<Rightarrow> fold_cursor \<times> warning" where
  "push_warning c v code =
     (let w = \<lparr>w_ref = fc_heap c, w_version = v, w_code = code, w_detail = None\<rparr>
      in (c\<lparr>fc_warnings := fc_warnings c @ [w], fc_heap := Suc (fc_heap c)\<rparr>, w))"

definition clear_warnings :: "fold_cursor \<Rightarrow> context_record \<Rightarrow> warning_code option \<Rightarrow> fold_cursor" where
  "clear_warnings c r step_warning =
     (if is_close r then c\<lparr>fc_warnings := [], fc_gate := []\<rparr>
      else if rec_content_type r = ''decision'' \<and> fc_status c = Pending_approval \<and> step_warning = None
      then c\<lparr>fc_warnings := filter (\<lambda>w. \<not> isGateWarning (fc_gate c) w) (fc_warnings c), fc_gate := []\<rparr>
      else if is_ack_note r
      then c\<lparr>fc_warnings := filter (isGateWarning (fc_gate c)) (fc_warnings c)\<rparr>
      else c)"

definition structural_check :: "fold_cursor \<Rightarrow> context_record \<Rightarrow> fold_cursor" where
  "structural_check c r =
     (if rec_version r = fc_prevVersion c
      then fst (push_warning c (rec_version r) VERSION_DUPLICATE)
      else if rec_version r \<noteq> fc_prevVersion c + 1
      then fst (push_warning c (rec_version r) VERSION_GAP)
      else c)"

definition record_warning :: "fold_cursor \<Rightarrow> context_record \<Rightarrow> warning_code \<Rightarrow> fold_cursor" where
  "record_warning c r code =
     (let (c', w) = push_warning c (rec_version r) code in
      if rec_content_type r = ''review'' \<and> code = OUT_OF_TABLE \<and> legal_verdict r
      then c'\<lparr>fc_gate := fc_gate c' @ [w]\<rparr> else c')"

definition fold_step :: "flow \<Rightarrow> fold_cursor \<Rightarrow> context_record \<Rightarrow> fold_cursor" where
  "fold_step flow c r =
     (let (status', code) = fold_record (fc_status c) r flow;
          c1 = clear_warnings c r code;
          c2 = structural_check c1 r;
          c3 = c2\<lparr>fc_prevVersion := rec_version r, fc_status := status'\<rparr>
      in case code of None \<Rightarrow> c3 | Some k \<Rightarrow> record_warning c3 r k)"

definition foldOntoCursor :: "fold_cursor \<Rightarrow> context_record list \<Rightarrow> flow \<Rightarrow> fold_cursor" where
  "foldOntoCursor c rs flow = foldl (fold_step flow) c (sort_key rec_version rs)"

text \<open>The \<open>DerivedState\<close> part of the value \<open>foldOntoCursor\<close> returns.\<close>

definition derived_of :: "fold_cursor \<Rightarrow> derived_state" where
  "derived_of c =
     (let needsAttention = fc_warnings c \<noteq> [] in
      \<lparr>ds_status = fc_status c,
       ds_waiting_for = (if needsAttention then ''human'' else WAITING_FOR_BASE (fc_status c)),
       ds_needs_attention = needsAttention,
       ds_warnings = fc_warnings c\<rparr>)"

text \<open>\<open>flow ?? "full"\<close>.\<close>

definition effective_flow :: "flow option \<Rightarrow> flow" where
  "effective_flow f = (case f of None \<Rightarrow> Full | Some g \<Rightarrow> g)"

definition derive :: "string \<Rightarrow> context_record list \<Rightarrow> flow option \<Rightarrow> derived_state option" where
  "derive task_id records flow =
     (if task_id = PROJECT_TASK_ID then None
      else let effectiveFlow = effective_flow flow;
               ordered = sort_key rec_version records
           in Some (derived_of (foldOntoCursor (initialCursor effectiveFlow) ordered effectiveFlow)))"

section \<open>One loop iteration\<close>

lemmas fold_step_defs = fold_step_def clear_warnings_def structural_check_def record_warning_def
  push_warning_def Let_def

lemma structural_check_frame [simp]:
  "fc_status (structural_check c r) = fc_status c"
  "fc_gate (structural_check c r) = fc_gate c"
  "fc_prevVersion (structural_check c r) = fc_prevVersion c"
  by (simp_all add: structural_check_def push_warning_def Let_def)

lemma clear_warnings_frame [simp]:
  "fc_status (clear_warnings c r k) = fc_status c"
  "fc_prevVersion (clear_warnings c r k) = fc_prevVersion c"
  "fc_heap (clear_warnings c r k) = fc_heap c"
  by (simp_all add: clear_warnings_def)

lemma record_warning_frame [simp]:
  "fc_status (record_warning c r k) = fc_status c"
  "fc_prevVersion (record_warning c r k) = fc_prevVersion c"
  by (simp_all add: record_warning_def push_warning_def Let_def)

lemma fold_step_status: "fc_status (fold_step flow c r) = fst (fold_record (fc_status c) r flow)"
  by (simp add: fold_step_def Let_def split: prod.splits option.splits)

lemma fold_step_prevVersion: "fc_prevVersion (fold_step flow c r) = rec_version r"
  by (simp add: fold_step_def Let_def split: prod.splits option.splits)

interpretation wf_fold: version_fold rec_version "fold_step flow"
    "\<lambda>c rs. foldOntoCursor c rs flow" fc_prevVersion for flow
  by unfold_locales (simp_all add: foldOntoCursor_def fold_step_prevVersion)

lemma foldOntoCursor_status:
  "fc_status (foldOntoCursor c rs flow) =
     foldl (\<lambda>s r. fst (fold_record s r flow)) (fc_status c) (sort_key rec_version rs)"
proof -
  have "fc_status (foldl (fold_step flow) c xs) =
      foldl (\<lambda>s r. fst (fold_record s r flow)) (fc_status c) xs" for xs
    by (induction xs arbitrary: c) (simp_all add: fold_step_status)
  then show ?thesis by (simp add: foldOntoCursor_def)
qed

lemma derive_eq:
  "task_id \<noteq> PROJECT_TASK_ID \<Longrightarrow>
   derive task_id records flow =
     Some (derived_of (foldOntoCursor (initialCursor (effective_flow flow)) records (effective_flow flow)))"
  by (simp add: derive_def Let_def wf_fold.run_sorted)

lemma derived_of_status [simp]: "ds_status (derived_of c) = fc_status c"
  by (simp add: derived_of_def Let_def)

lemma derived_of_attention [simp]: "ds_needs_attention (derived_of c) \<longleftrightarrow> fc_warnings c \<noteq> []"
  by (simp add: derived_of_def Let_def)

section \<open>Object identities: the gate warnings are some of the warnings\<close>

text \<open>
  Identities are fresh and distinct, and \<open>reviewGateWarnings\<close> is exactly the subsequence of
  \<open>warnings\<close> it names.
\<close>

definition cursor_ok :: "fold_cursor \<Rightarrow> bool" where
  "cursor_ok c \<longleftrightarrow>
     distinct (map w_ref (fc_warnings c)) \<and>
     (\<forall>w\<in>set (fc_warnings c). w_ref w < fc_heap c) \<and>
     fc_gate c = filter (isGateWarning (fc_gate c)) (fc_warnings c)"

lemma cursor_ok_initial [hub_inv]: "cursor_ok (initialCursor flow)"
  by (simp add: cursor_ok_def initialCursor_def)

lemma cursor_ok_gate_subset: "cursor_ok c \<Longrightarrow> set (fc_gate c) \<subseteq> set (fc_warnings c)"
  unfolding cursor_ok_def by (metis filter_is_subset)

lemma isGateWarning_Nil [simp]: "\<not> isGateWarning [] w"
  by (simp add: isGateWarning_def)

lemma isGateWarning_mem: "w \<in> set gate \<Longrightarrow> isGateWarning gate w"
  by (simp add: isGateWarning_def)

lemma push_fresh:
  assumes "cursor_ok c" and "w_ref w = fc_heap c"
  shows "\<not> isGateWarning (fc_gate c) w"
  using assms cursor_ok_gate_subset [OF assms(1)]
  by (auto simp: isGateWarning_def cursor_ok_def)

lemma cursor_ok_push [hub_inv]:
  assumes "cursor_ok c"
  shows "cursor_ok (fst (push_warning c v k))"
proof -
  let ?w = "\<lparr>w_ref = fc_heap c, w_version = v, w_code = k, w_detail = None\<rparr>"
  have "\<not> isGateWarning (fc_gate c) ?w" using assms by (rule push_fresh) simp
  with assms show ?thesis
    by (auto simp: cursor_ok_def push_warning_def Let_def less_Suc_eq)
qed

lemma distinct_map_filter_ref: "distinct (map w_ref ws) \<Longrightarrow> distinct (map w_ref (filter P ws))"
  by (induction ws) auto

lemma cursor_ok_drop:
  assumes "cursor_ok c" and "g = filter (isGateWarning g) (filter P (fc_warnings c))"
  shows "cursor_ok (c\<lparr>fc_warnings := filter P (fc_warnings c), fc_gate := g\<rparr>)"
  using assms unfolding cursor_ok_def by (simp add: distinct_map_filter_ref)

lemma cursor_ok_clear [hub_inv]:
  assumes "cursor_ok c"
  shows "cursor_ok (clear_warnings c r k)"
proof -
  have g: "filter (isGateWarning (fc_gate c)) (fc_warnings c) = fc_gate c"
    using assms by (simp add: cursor_ok_def)
  have "cursor_ok (c\<lparr>fc_warnings := filter (isGateWarning (fc_gate c)) (fc_warnings c), fc_gate := fc_gate c\<rparr>)"
    using assms by (rule cursor_ok_drop) (simp add: g isGateWarning_mem)
  moreover have "cursor_ok (c\<lparr>fc_warnings := filter (\<lambda>w. \<not> isGateWarning (fc_gate c) w) (fc_warnings c), fc_gate := []\<rparr>)"
    using assms by (rule cursor_ok_drop) simp
  moreover have "cursor_ok (c\<lparr>fc_warnings := [], fc_gate := []\<rparr>)"
    by (simp add: cursor_ok_def)
  ultimately show ?thesis
    using assms by (simp add: clear_warnings_def)
qed

lemma cursor_ok_structural [hub_inv]: "cursor_ok c \<Longrightarrow> cursor_ok (structural_check c r)"
  by (simp add: structural_check_def cursor_ok_push)

lemma cursor_ok_frame:
  "cursor_ok (c\<lparr>fc_prevVersion := v, fc_status := s\<rparr>) \<longleftrightarrow> cursor_ok c"
  by (simp add: cursor_ok_def)

lemma cursor_ok_record_warning [hub_inv]:
  assumes "cursor_ok c"
  shows "cursor_ok (record_warning c r k)"
proof -
  let ?w = "\<lparr>w_ref = fc_heap c, w_version = rec_version r, w_code = k, w_detail = None\<rparr>"
  let ?g = "fc_gate c @ [?w]"
  have old: "isGateWarning ?g w \<longleftrightarrow> isGateWarning (fc_gate c) w" if "w \<in> set (fc_warnings c)" for w
    using assms that by (auto simp: isGateWarning_def cursor_ok_def)
  have "filter (isGateWarning ?g) (fc_warnings c) = fc_gate c"
    using assms old by (simp add: cursor_ok_def cong: filter_cong)
  moreover have "isGateWarning ?g ?w" by (simp add: isGateWarning_def)
  ultimately have "cursor_ok (c\<lparr>fc_warnings := fc_warnings c @ [?w], fc_heap := Suc (fc_heap c), fc_gate := ?g\<rparr>)"
    using assms by (auto simp: cursor_ok_def less_Suc_eq)
  then show ?thesis
    using cursor_ok_push [OF assms, of "rec_version r" k]
    by (auto simp: record_warning_def push_warning_def Let_def)
qed

lemma cursor_ok_step [hub_inv]: "cursor_ok c \<Longrightarrow> cursor_ok (fold_step flow c r)"
  unfolding fold_step_def Let_def
  by (auto split: prod.splits option.splits
      intro!: cursor_ok_record_warning cursor_ok_structural cursor_ok_clear simp: cursor_ok_frame)

lemma cursor_ok_run: "cursor_ok c \<Longrightarrow> cursor_ok (foldOntoCursor c rs flow)"
  by (rule wf_fold.run_invariant) (auto intro: cursor_ok_step)

section \<open>The abstract workflow\<close>

text \<open>What a record does, as far as the transition table can see.\<close>

datatype action =
    Note_of_executor
  | Other_note
  | Publish_design
  | Publish_code
  | Publish_revision
  | Review_verdict string
  | Review_invalid
  | Decide_approve
  | Decide_reject
  | Decide_close
  | Unknown_action

definition action_of :: "context_record \<Rightarrow> action" where
  "action_of r =
     (let ct = rec_content_type r in
      if ct = ''note'' then (if \<not> is_ack r \<and> rec_role r = ''executor'' then Note_of_executor else Other_note)
      else if ct = ''design'' then Publish_design
      else if ct = ''code_changes'' then Publish_code
      else if ct = ''revision'' then Publish_revision
      else if ct = ''review'' then (if legal_verdict r then Review_verdict (the (verdict_of r)) else Review_invalid)
      else if ct = ''decision''
      then (if decides r ''close'' then Decide_close
            else if decides r ''approve'' then Decide_approve
            else if decides r ''reject'' then Decide_reject else Unknown_action)
      else Unknown_action)"

text \<open>
  The table of the README, one line per transition that is part of a flow; \<open>None\<close> is a record
  that does not fit the table.
\<close>

fun workflow :: "flow \<Rightarrow> status \<Rightarrow> action \<Rightarrow> status option" where
  "workflow f s Other_note = Some s"
| "workflow f s Note_of_executor = Some (if s = Reviewing then Revising else s)"
| "workflow f s Decide_close = Some Closed"
| "workflow Full Designing Publish_design = Some Implementing"
| "workflow Direct Implementing Publish_design = Some Implementing"
| "workflow Solo Implementing Publish_design = Some Implementing"
| "workflow Full Implementing Publish_code = Some Reviewing"
| "workflow Direct Implementing Publish_code = Some Reviewing"
| "workflow Solo Implementing Publish_code = Some Pending_approval"
| "workflow Full Implementing Publish_revision = Some Reviewing"
| "workflow Full Revising Publish_revision = Some Reviewing"
| "workflow Direct Revising Publish_revision = Some Reviewing"
| "workflow Full Reviewing (Review_verdict v) =
     (if v = ''pass'' \<or> v = ''blocked_external'' then Some Pending_approval
      else if v = ''fail_code'' then Some Revising
      else if v = ''fail_design'' then Some Designing else None)"
| "workflow Direct Reviewing (Review_verdict v) =
     (if v = ''pass'' \<or> v = ''blocked_external'' then Some Pending_approval
      else if v = ''fail_code'' then Some Revising else None)"
| "workflow f Pending_approval Decide_approve = Some Approved"
| "workflow f Pending_approval Decide_reject = Some (if f = Solo then Implementing else Revising)"
| "workflow f s a = None"

text \<open>Where the code goes on a record outside the table: it stays, except for the review gate.\<close>

definition off_table_target :: "status \<Rightarrow> action \<Rightarrow> status" where
  "off_table_target s a =
     (case a of Review_verdict v \<Rightarrow> (if s = Closed then s else Pending_approval) | _ \<Rightarrow> s)"

lemma legal_verdict_iff:
  "legal_verdict r \<longleftrightarrow> (\<exists>v\<in>{''pass'', ''blocked_external'', ''fail_code'', ''fail_design''}. verdict_of r = Some v)"
  by (auto simp: legal_verdict_def VERDICT_TARGET_def split: option.splits)

lemma fold_review_workflow:
  assumes "legal_verdict r" and "s \<noteq> Closed"
  shows "fold_review s r f = (case workflow f s (Review_verdict (the (verdict_of r))) of
      Some t \<Rightarrow> (t, None) | None \<Rightarrow> (Pending_approval, Some OUT_OF_TABLE))"
  using assms
  by (cases f; cases s)
    (auto simp: fold_review_def legal_verdict_iff VERDICT_TARGET_def VERDICT_TARGET_DIRECT_def)

lemma fold_decision_workflow:
  assumes "s \<noteq> Closed" and "rec_content_type r = ''decision''"
  shows "fold_decision s r f = (case workflow f s (action_of r) of
      Some t \<Rightarrow> (t, None) | None \<Rightarrow> (s, Some OUT_OF_TABLE))"
  using assms
  by (cases f; cases s)
    (simp_all add: fold_decision_def action_of_def Let_def decides_def)

lemma workflow_Closed: "workflow f Closed a = Some t \<Longrightarrow> t = Closed"
  by (cases a; cases f) auto

text \<open>The code implements the table: it moves along it, and warns exactly off it.\<close>

lemma fold_record_workflow:
  "fold_record s r f = (case workflow f s (action_of r) of
      Some t \<Rightarrow> (t, None)
    | None \<Rightarrow> (off_table_target s (action_of r), snd (fold_record s r f))) \<and>
   (snd (fold_record s r f) = None \<longleftrightarrow> workflow f s (action_of r) \<noteq> None)"
proof -
  consider (is_note) "rec_content_type r = ''note''"
    | (is_closed) "rec_content_type r \<noteq> ''note''" "s = Closed"
    | (is_review) "rec_content_type r = ''review''" "s \<noteq> Closed"
    | (is_decision) "rec_content_type r = ''decision''" "s \<noteq> Closed"
    | (is_other) "rec_content_type r \<notin> {''note'', ''review'', ''decision''}" "s \<noteq> Closed"
    by auto
  then show ?thesis
  proof cases
    case is_note
    then show ?thesis by (auto simp: fold_record_def action_of_def)
  next
    case is_closed
    then show ?thesis
      by (cases f) (auto simp: fold_record_def action_of_def off_table_target_def Let_def)
  next
    case is_review
    then show ?thesis
    proof (cases "legal_verdict r")
      case True
      with is_review fold_review_workflow [OF True, of s f] show ?thesis
        by (auto simp: fold_record_def action_of_def off_table_target_def Let_def split: option.splits)
    next
      case False
      with is_review show ?thesis
        by (cases f; cases s)
          (auto simp: fold_record_def fold_review_def action_of_def off_table_target_def Let_def)
    qed
  next
    case is_decision
    with fold_decision_workflow [of s r f] show ?thesis
      by (cases f; cases s)
        (auto simp: fold_record_def action_of_def off_table_target_def Let_def split: option.splits)
  next
    case is_other
    then show ?thesis
      by (cases f; cases s)
        (auto simp: fold_record_def action_of_def off_table_target_def Let_def)
  qed
qed

section \<open>Reachable statuses\<close>

text \<open>The statuses a flow can be in; the other flows' states are not reachable.\<close>

definition flow_statuses :: "flow \<Rightarrow> status set" where
  "flow_statuses f = (case f of
       Full \<Rightarrow> UNIV
     | Direct \<Rightarrow> UNIV - {Designing}
     | Solo \<Rightarrow> {Implementing, Pending_approval, Approved, Closed})"

lemma workflow_flow_statuses:
  "workflow f s a = Some t \<Longrightarrow> s \<in> flow_statuses f \<Longrightarrow> t \<in> flow_statuses f"
  by (induction f s a rule: workflow.induct) (auto simp: flow_statuses_def split: if_splits flow.splits)

lemma off_table_flow_statuses:
  "s \<in> flow_statuses f \<Longrightarrow> off_table_target s a \<in> flow_statuses f"
  by (cases f) (auto simp: off_table_target_def flow_statuses_def split: action.splits)

lemma fold_record_target:
  "fst (fold_record s r f) =
     (case workflow f s (action_of r) of Some t \<Rightarrow> t | None \<Rightarrow> off_table_target s (action_of r))"
proof (cases "workflow f s (action_of r)")
  case None
  then show ?thesis using fold_record_workflow [of s r f] by (metis fst_conv option.simps(4))
next
  case (Some t)
  then show ?thesis using fold_record_workflow [of s r f] by (metis fst_conv option.simps(5))
qed

lemma fold_record_flow_statuses:
  "s \<in> flow_statuses f \<Longrightarrow> fst (fold_record s r f) \<in> flow_statuses f"
  by (auto simp: fold_record_target intro: workflow_flow_statuses off_table_flow_statuses split: option.splits)

lemma fold_step_flow_statuses [hub_inv]:
  "fc_status c \<in> flow_statuses f \<Longrightarrow> fc_status (fold_step f c r) \<in> flow_statuses f"
  by (simp add: fold_step_status fold_record_flow_statuses)

lemma initial_flow_statuses: "fc_status (initialCursor f) \<in> flow_statuses f"
  by (cases f) (simp_all add: initialCursor_def INITIAL_STATUS_def flow_statuses_def)

section \<open>Closed, approved\<close>

lemma fold_record_Closed [simp]: "fst (fold_record Closed r f) = Closed"
  by (simp add: fold_record_def Let_def)

lemma fold_record_close: "is_close r \<Longrightarrow> fst (fold_record s r f) = Closed"
  by (simp add: fold_record_def fold_decision_def is_close_def Let_def)

lemma foldl_Closed: "foldl (\<lambda>s r. fst (fold_record s r f)) Closed rs = Closed"
  by (induction rs) simp_all

lemma foldl_close: "r \<in> set rs \<Longrightarrow> is_close r \<Longrightarrow> foldl (\<lambda>s r. fst (fold_record s r f)) s rs = Closed"
  by (induction rs arbitrary: s) (auto simp: fold_record_close foldl_Closed)

lemma workflow_Approved:
  "workflow f s a = Some Approved \<Longrightarrow> s \<noteq> Approved \<Longrightarrow> s = Pending_approval \<and> a = Decide_approve"
  by (induction f s a rule: workflow.induct) (auto split: if_splits)

lemma fold_record_Approved:
  assumes "fst (fold_record s r f) = Approved" and "s \<noteq> Approved"
  shows "s = Pending_approval \<and> rec_content_type r = ''decision'' \<and> decides r ''approve''"
proof -
  have "workflow f s (action_of r) = Some Approved"
    using assms by (auto simp: fold_record_target off_table_target_def split: option.splits action.splits if_splits)
  then have "s = Pending_approval \<and> action_of r = Decide_approve"
    using assms(2) by (rule workflow_Approved)
  then show ?thesis
    by (auto simp: action_of_def Let_def split: if_splits)
qed

lemma foldl_Approved:
  assumes "foldl (\<lambda>s r. fst (fold_record s r f)) s rs = Approved" and "s \<noteq> Approved"
  shows "\<exists>pre r post. rs = pre @ r # post \<and>
     foldl (\<lambda>s r. fst (fold_record s r f)) s pre = Pending_approval \<and>
     rec_content_type r = ''decision'' \<and> decides r ''approve''"
  using assms
proof (induction rs rule: rev_induct)
  case Nil
  then show ?case by simp
next
  case (snoc x xs)
  show ?case
  proof (cases "foldl (\<lambda>s r. fst (fold_record s r f)) s xs = Approved")
    case True
    with snoc show ?thesis by fastforce
  next
    case False
    with snoc.prems fold_record_Approved show ?thesis by fastforce
  qed
qed

section \<open>The review gate\<close>

lemma fc_gate_step_mono:
  assumes "rec_content_type r \<noteq> ''decision''" and "fc_gate c \<noteq> []"
  shows "fc_gate (fold_step f c r) \<noteq> []"
  using assms
  by (auto simp: fold_step_defs is_close_def split: prod.splits option.splits)

lemma gate_persists:
  assumes "cursor_ok c" and "fc_gate c \<noteq> []" and "\<And>r. r \<in> set rs \<Longrightarrow> rec_content_type r \<noteq> ''decision''"
  shows "fc_gate (foldOntoCursor c rs f) \<noteq> [] \<and> fc_warnings (foldOntoCursor c rs f) \<noteq> []"
proof -
  have "cursor_ok (foldOntoCursor c rs f) \<and> fc_gate (foldOntoCursor c rs f) \<noteq> []"
    by (rule wf_fold.run_invariant [where P = "\<lambda>c. cursor_ok c \<and> fc_gate c \<noteq> []"])
      (simp_all add: assms cursor_ok_step fc_gate_step_mono)
  then show ?thesis
    using cursor_ok_gate_subset by fastforce
qed

lemma gate_opens:
  assumes "rec_content_type r = ''review''" and "legal_verdict r" and "fc_status c \<noteq> Closed"
    and "workflow f (fc_status c) (action_of r) = None"
  shows "fc_gate (fold_step f c r) \<noteq> []" and "fc_status (fold_step f c r) = Pending_approval"
proof -
  have fr: "fold_record (fc_status c) r f = (Pending_approval, Some OUT_OF_TABLE)"
    using assms fold_review_workflow [OF assms(2,3), of f]
    by (simp add: fold_record_def action_of_def Let_def)
  then show "fc_status (fold_step f c r) = Pending_approval"
    by (simp add: fold_step_status)
  show "fc_gate (fold_step f c r) \<noteq> []"
    using fr assms by (simp add: fold_step_defs)
qed

section \<open>Clean runs and acknowledgements\<close>

fun workflow_run :: "flow \<Rightarrow> status \<Rightarrow> action list \<Rightarrow> status option" where
  "workflow_run f s [] = Some s"
| "workflow_run f s (a # as) = (case workflow f s a of None \<Rightarrow> None | Some t \<Rightarrow> workflow_run f t as)"

lemma fold_step_clean:
  assumes "fc_warnings c = []" "fc_gate c = []" "rec_version r = Suc (fc_prevVersion c)"
    and "workflow f (fc_status c) (action_of r) = Some t"
  shows "fc_status (fold_step f c r) = t \<and> fc_warnings (fold_step f c r) = [] \<and>
    fc_gate (fold_step f c r) = [] \<and> fc_prevVersion (fold_step f c r) = rec_version r"
proof -
  have "fold_record (fc_status c) r f = (t, None)"
    using fold_record_workflow [of "fc_status c" r f] assms(4) by simp
  with assms show ?thesis by (simp add: fold_step_defs)
qed

lemma foldl_clean:
  assumes "fc_warnings c = []" "fc_gate c = []"
    and "map rec_version rs = [Suc (fc_prevVersion c)..<Suc (fc_prevVersion c + length rs)]"
    and "workflow_run f (fc_status c) (map action_of rs) = Some t"
  shows "fc_status (foldl (fold_step f) c rs) = t \<and> fc_warnings (foldl (fold_step f) c rs) = []"
  using assms
proof (induction rs arbitrary: c)
  case Nil
  then show ?case by simp
next
  case (Cons r rs)
  have ver: "rec_version r = Suc (fc_prevVersion c)"
    and vers: "map rec_version rs = [Suc (Suc (fc_prevVersion c))..<Suc (Suc (fc_prevVersion c) + length rs)]"
    using Cons.prems(3) by (simp_all add: upt_conv_Cons del: upt_Suc)
  from Cons.prems(4) obtain u where u: "workflow f (fc_status c) (action_of r) = Some u"
    and run: "workflow_run f u (map action_of rs) = Some t"
    by (auto split: option.splits)
  from fold_step_clean [OF Cons.prems(1,2) ver u] Cons.IH [of "fold_step f c r"] vers ver run
  show ?case by simp
qed

lemma upt_versions_sorted: "map rec_version rs = [a..<b] \<Longrightarrow> sort_key rec_version rs = rs"
  by (simp add: sort_key_id_if_sorted)

lemma ack_step:
  assumes "cursor_ok c" "is_ack_note n" "rec_version n = Suc (fc_prevVersion c)"
  shows "fc_status (fold_step f c n) = fc_status c \<and> fc_warnings (fold_step f c n) = fc_gate c"
proof -
  have "filter (isGateWarning (fc_gate c)) (fc_warnings c) = fc_gate c"
    using assms(1) by (simp add: cursor_ok_def)
  moreover have "fold_record (fc_status c) n f = (fc_status c, None)"
    using assms(2) by (simp add: fold_record_def is_ack_note_def Let_def)
  ultimately show ?thesis
    using assms(2,3) by (simp add: fold_step_defs is_close_def is_ack_note_def)
qed

text \<open>A record with the fields the fold reads, for concrete inputs.\<close>

definition sample_record :: "nat \<Rightarrow> string \<Rightarrow> string \<Rightarrow> jobject \<Rightarrow> context_record" where
  "sample_record v role ct p =
     \<lparr>rec_version = v, rec_task_id = ''t'', rec_role = role, rec_agent = None, rec_model = None,
      rec_content_type = ct, rec_timestamp = ''2026-01-01T00:00:00Z'', rec_payload = p,
      rec_tut_version = None\<rparr>"

definition sample_log :: "context_record list" where
  "sample_log =
     [sample_record 1 ''architect'' ''design'' [],
      sample_record 2 ''executor'' ''code_changes'' [],
      sample_record 3 ''reviewer'' ''review'' [(''verdict'', JStr ''pass'')],
      sample_record 4 ''human'' ''decision'' [(''decision'', JStr ''approve'')],
      sample_record 5 ''human'' ''decision'' [(''decision'', JStr ''close'')]]"

section \<open>Properties\<close>

text \<open>C2. Closed is absorbing: once any record of a task log is a close decision, the derived
  status is closed, wherever the record stands and whatever surrounds it.\<close>

theorem derive_closed_absorbing:
  assumes "task_id \<noteq> PROJECT_TASK_ID" and "r \<in> set records" and "is_close r"
  shows "\<exists>d. derive task_id records flow = Some d \<and> ds_status d = Closed"
  using assms by (simp add: derive_eq foldOntoCursor_status foldl_close [of r])

theorem derive_closed_absorbing_witness:
  "\<exists>d. derive ''t'' (sample_log @ [sample_record 6 ''executor'' ''code_changes'' []]) None = Some d \<and>
     ds_status d = Closed"
  by (rule derive_closed_absorbing
      [of _ "sample_record 5 ''human'' ''decision'' [(''decision'', JStr ''close'')]"])
    (simp_all add: PROJECT_TASK_ID_def sample_log_def is_close_def sample_record_def decides_def)

text \<open>C4. The approval gate: a task is approved only through a human approve decision that was
  taken while the log up to it derived to pending approval.\<close>

theorem derive_approved_by_decision:
  assumes "derive task_id records flow = Some d" and "ds_status d = Approved"
  shows "\<exists>pre r post. sort_key rec_version records = pre @ r # post \<and>
    rec_content_type r = ''decision'' \<and> decides r ''approve'' \<and>
    (\<exists>d'. derive task_id pre flow = Some d' \<and> ds_status d' = Pending_approval)"
proof -
  let ?f = "effective_flow flow"
  have ne: "task_id \<noteq> PROJECT_TASK_ID"
    using assms(1) by (auto simp: derive_def)
  have "foldl (\<lambda>s r. fst (fold_record s r ?f)) (INITIAL_STATUS ?f) (sort_key rec_version records) = Approved"
    using assms ne by (auto simp: derive_eq foldOntoCursor_status initialCursor_def)
  moreover have "INITIAL_STATUS ?f \<noteq> Approved"
    by (simp add: INITIAL_STATUS_def split: flow.splits)
  ultimately obtain pre r post where
    split: "sort_key rec_version records = pre @ r # post"
    and pend: "foldl (\<lambda>s r. fst (fold_record s r ?f)) (INITIAL_STATUS ?f) pre = Pending_approval"
    and dec: "rec_content_type r = ''decision''" "decides r ''approve''"
    by (blast dest: foldl_Approved)
  have "sorted (map rec_version (pre @ r # post))"
    by (simp flip: split)
  then have "sort_key rec_version pre = pre"
    by (simp add: sorted_append sort_key_id_if_sorted)
  then have "\<exists>d'. derive task_id pre flow = Some d' \<and> ds_status d' = Pending_approval"
    using ne pend by (simp add: derive_eq foldOntoCursor_status initialCursor_def)
  with split dec show ?thesis by blast
qed

lemma sample_log_evaluated:
  "map_option ds_status (derive ''t'' (take 4 sample_log) None) = Some Approved"
  by code_simp

theorem derive_approved_by_decision_witness:
  "\<exists>pre r post. sort_key rec_version (take 4 sample_log) = pre @ r # post \<and>
    rec_content_type r = ''decision'' \<and> decides r ''approve'' \<and>
    (\<exists>d'. derive ''t'' pre None = Some d' \<and> ds_status d' = Pending_approval)"
proof -
  obtain d where "derive ''t'' (take 4 sample_log) None = Some d" "ds_status d = Approved"
    using sample_log_evaluated by (auto simp: map_option_case split: option.splits)
  then show ?thesis by (rule derive_approved_by_decision)
qed

text \<open>Resumption: folding a log in two portions, the second not reaching below the first, gives
  the cursor of folding it at once (status, warnings, their identities and the gate subset).\<close>

theorem foldOntoCursor_resume:
  assumes "\<And>x y. x \<in> set xs \<Longrightarrow> y \<in> set ys \<Longrightarrow> rec_version x \<le> rec_version y"
  shows "foldOntoCursor (foldOntoCursor c xs flow) ys flow = foldOntoCursor c (xs @ ys) flow"
  using wf_fold.run_append [OF assms] by simp

theorem foldOntoCursor_resume_witness:
  "foldOntoCursor (foldOntoCursor (initialCursor Full) (take 2 sample_log) Full) (drop 2 sample_log) Full =
   foldOntoCursor (initialCursor Full) (take 2 sample_log @ drop 2 sample_log) Full"
  by (rule foldOntoCursor_resume) (auto simp: sample_log_def sample_record_def)

text \<open>C1. The code implements the workflow table: a record moves the status along the table and
  raises no warning exactly when the table has a transition for it; off the table the status stays,
  except that a legal verdict goes to the human gate.\<close>

theorem fold_record_refines_workflow:
  "fst (fold_record s r f) =
     (case workflow f s (action_of r) of Some t \<Rightarrow> t | None \<Rightarrow> off_table_target s (action_of r)) \<and>
   (snd (fold_record s r f) = None \<longleftrightarrow> workflow f s (action_of r) \<noteq> None)"
  using fold_record_workflow [of s r f] by (simp add: fold_record_target)

text \<open>A log with consecutive versions whose records follow the workflow derives to the status
  the workflow reaches, without warnings, waiting for whoever that status names.\<close>

theorem derive_clean_run:
  assumes "task_id \<noteq> PROJECT_TASK_ID"
    and "map rec_version records = [1..<Suc (length records)]"
    and "workflow_run f (INITIAL_STATUS f) (map action_of records) = Some s"
  shows "derive task_id records (Some f) =
    Some \<lparr>ds_status = s, ds_waiting_for = WAITING_FOR_BASE s, ds_needs_attention = False, ds_warnings = []\<rparr>"
proof -
  have "fc_status (foldOntoCursor (initialCursor f) records f) = s \<and>
        fc_warnings (foldOntoCursor (initialCursor f) records f) = []"
    using foldl_clean [of "initialCursor f" records f s] assms(2,3)
    by (simp add: foldOntoCursor_def upt_versions_sorted [OF assms(2)] initialCursor_def del: upt_Suc)
  then show ?thesis
    using assms(1) by (simp add: derive_eq effective_flow_def derived_of_def)
qed

theorem derive_clean_run_witness:
  "derive ''t'' (take 4 sample_log) (Some Full) =
    Some \<lparr>ds_status = Approved, ds_waiting_for = WAITING_FOR_BASE Approved,
          ds_needs_attention = False, ds_warnings = []\<rparr>"
  by (rule derive_clean_run)
    (simp_all add: PROJECT_TASK_ID_def sample_log_def sample_record_def action_of_def legal_verdict_def
      verdict_of_def VERDICT_TARGET_def decides_def INITIAL_STATUS_def numeral_eq_Suc)

text \<open>A flow never leaves its own states: a direct task is never designing, a solo task is
  never designing, reviewing or revising, whatever is published to it.\<close>

theorem derive_flow_statuses:
  assumes "derive task_id records flow = Some d"
  shows "ds_status d \<in> flow_statuses (effective_flow flow)"
proof -
  have "task_id \<noteq> PROJECT_TASK_ID"
    using assms by (auto simp: derive_def)
  moreover have "fc_status (foldOntoCursor (initialCursor f) records f) \<in> flow_statuses f" for f
    by (rule wf_fold.run_invariant) (simp_all add: initial_flow_statuses fold_step_flow_statuses)
  ultimately show ?thesis
    using assms by (auto simp: derive_eq)
qed

theorem derive_flow_statuses_witness:
  "ds_status (the (derive ''t'' sample_log (Some Solo))) \<in> flow_statuses (effective_flow (Some Solo))"
  by (rule derive_flow_statuses [of "''t''" sample_log]) (simp add: derive_def PROJECT_TASK_ID_def Let_def)

text \<open>C3. The review gate cannot be acknowledged away: after a review with a legal verdict that does
  not fit the table, the task needs attention until a decision is published, whatever notes
  (acknowledgements included) and other records follow.\<close>

theorem review_gate_needs_decision:
  assumes "task_id \<noteq> PROJECT_TASK_ID"
    and "sort_key rec_version records = pre @ r # post"
    and "rec_content_type r = ''review''" and "legal_verdict r"
    and "derive task_id pre (Some f) = Some d" and "ds_status d \<noteq> Closed"
    and "workflow f (ds_status d) (action_of r) = None"
    and "\<And>x. x \<in> set post \<Longrightarrow> rec_content_type x \<noteq> ''decision''"
  shows "\<exists>d'. derive task_id records (Some f) = Some d' \<and> ds_needs_attention d' \<and>
    ds_waiting_for d' = ''human''"
proof -
  let ?c = "foldOntoCursor (initialCursor f) pre f"
  have srt: "sorted (map rec_version (pre @ r # post))"
    by (simp flip: assms(2))
  have d: "ds_status d = fc_status ?c"
    using assms(1,5) by (auto simp: derive_eq effective_flow_def)
  have "fc_gate (fold_step f ?c r) \<noteq> []"
    using gate_opens(1) [of r ?c f] assms(3,4,6,7) d by simp
  moreover have "cursor_ok (fold_step f ?c r)"
    by (intro cursor_ok_step cursor_ok_run cursor_ok_initial)
  ultimately have "fc_warnings (foldOntoCursor (fold_step f ?c r) post f) \<noteq> []"
    using gate_persists assms(8) by blast
  moreover have "foldOntoCursor (initialCursor f) records f = foldOntoCursor (fold_step f ?c r) post f"
  proof -
    have "foldOntoCursor (initialCursor f) records f = foldOntoCursor (initialCursor f) (pre @ [r] @ post) f"
      using wf_fold.run_sorted [of "initialCursor f" records f] assms(2) by simp
    also have "\<dots> = foldOntoCursor ?c ([r] @ post) f"
      using srt by (intro wf_fold.run_append) (auto simp: sorted_append)
    also have "\<dots> = foldOntoCursor (foldOntoCursor ?c [r] f) post f"
      using srt by (intro wf_fold.run_append) (auto simp: sorted_append)
    finally show ?thesis by (simp add: wf_fold.run_single)
  qed
  ultimately show ?thesis
    using assms(1) by (simp add: derive_eq effective_flow_def derived_of_def)
qed

text \<open>A review published before any work, then acknowledged.\<close>

definition gate_log :: "context_record list" where
  "gate_log =
     [sample_record 1 ''reviewer'' ''review'' [(''verdict'', JStr ''pass'')],
      sample_record 2 ''human'' ''note'' [(''ack'', JBool True)]]"

theorem review_gate_needs_decision_witness:
  "\<exists>d'. derive ''t'' gate_log (Some Solo) = Some d' \<and> ds_needs_attention d' \<and>
    ds_waiting_for d' = ''human''"
  by (rule review_gate_needs_decision
      [where pre = "[]" and r = "hd gate_log" and post = "tl gate_log" and d = "derived_of (initialCursor Solo)"])
    (simp_all add: PROJECT_TASK_ID_def gate_log_def sample_record_def legal_verdict_def verdict_of_def
      VERDICT_TARGET_def derive_def effective_flow_def Let_def foldOntoCursor_def initialCursor_def
      INITIAL_STATUS_def action_of_def)

text \<open>The derivation does not depend on the order in which the records of a log are read, as
  long as their versions differ.\<close>

theorem derive_order_insensitive:
  assumes "mset records = mset records'" and "inj_on rec_version (set records)"
  shows "derive task_id records flow = derive task_id records' flow"
proof (cases "task_id = PROJECT_TASK_ID")
  case True
  then show ?thesis by (simp add: derive_def)
next
  case False
  then show ?thesis
    using wf_fold.run_distinct [OF assms] by (simp add: derive_eq)
qed

theorem derive_order_insensitive_witness:
  "derive ''t'' sample_log None = derive ''t'' (rev sample_log) None"
  by (rule derive_order_insensitive) (simp_all add: sample_log_def sample_record_def)

text \<open>An acknowledgement with the next version clears every warning except those of the review
  gate, and never moves the status.\<close>

theorem acknowledgement_clears:
  assumes "cursor_ok c" and "is_ack_note n" and "rec_version n = Suc (fc_prevVersion c)"
  shows "fc_status (fold_step f c n) = fc_status c \<and> fc_warnings (fold_step f c n) = fc_gate c"
  using assms by (rule ack_step)

text \<open>Code published out of turn, one warning, and the note that acknowledges it.\<close>

definition early_cursor :: fold_cursor where
  "early_cursor = fold_step Full (initialCursor Full) (sample_record 1 ''executor'' ''code_changes'' [])"

definition ack_record :: context_record where
  "ack_record = sample_record 2 ''human'' ''note'' [(''ack'', JBool True)]"

theorem acknowledgement_clears_witness:
  "fc_warnings early_cursor \<noteq> [] \<and> fc_gate early_cursor = [] \<and>
   fc_warnings (fold_step Full early_cursor ack_record) = []"
proof -
  have "cursor_ok early_cursor"
    unfolding early_cursor_def by (intro cursor_ok_step cursor_ok_initial)
  moreover have "is_ack_note ack_record"
    by (simp add: ack_record_def is_ack_note_def is_ack_def sample_record_def)
  moreover have "rec_version ack_record = Suc (fc_prevVersion early_cursor)"
    by (simp add: ack_record_def early_cursor_def sample_record_def fold_step_prevVersion)
  ultimately have "fc_warnings (fold_step Full early_cursor ack_record) = fc_gate early_cursor"
    using acknowledgement_clears by blast
  moreover have "fc_warnings early_cursor \<noteq> [] \<and> fc_gate early_cursor = []"
    by (simp add: early_cursor_def fold_step_defs fold_record_def initialCursor_def INITIAL_STATUS_def
        sample_record_def is_close_def is_ack_note_def)
  ultimately show ?thesis by simp
qed

end
