(* ===== verification/Task_Spec.thy ===== *)
theory Task_Spec
  imports Types
begin

text \<open>
  The task-spec reader of \<open>src/core/common/task-spec.ts\<close>: which lines of a description are prose,
  the named sections, placeholders, the limited list grammar, and the exit conditions.

  The regular expressions of the code carry the \<open>u\<close> flag, so text is a list of Unicode code points
  here; \<open>utf8\<close> decodes the byte strings records are stored as.  Each regular expression is
  written out as the deterministic scan it amounts to, and where it backtracks
  (\<open>/^(#{1,6})\s+(.+?)\s*#*\s*$/\<close>) as a search through its alternatives in preference order.
\<close>

type_synonym utext = "nat list"

section \<open>Text\<close>

text \<open>UTF-8, ill-formed bytes becoming U+FFFD.\<close>

definition is_cont :: "nat \<Rightarrow> bool" where
  "is_cont b \<longleftrightarrow> 128 \<le> b \<and> b < 192"

fun utf8_bytes :: "nat list \<Rightarrow> utext" where
  "utf8_bytes [] = []"
| "utf8_bytes (b # bs) =
     (if b < 128 then b # utf8_bytes bs
      else if 194 \<le> b \<and> b < 224 then
        (case bs of
           c # cs \<Rightarrow> if is_cont c then ((b - 192) * 64 + (c - 128)) # utf8_bytes cs else 65533 # utf8_bytes bs
         | [] \<Rightarrow> [65533])
      else if 224 \<le> b \<and> b < 240 then
        (case bs of
           c # d # ds \<Rightarrow> if is_cont c \<and> is_cont d
              then ((b - 224) * 4096 + (c - 128) * 64 + (d - 128)) # utf8_bytes ds else 65533 # utf8_bytes bs
         | _ \<Rightarrow> 65533 # utf8_bytes bs)
      else if 240 \<le> b \<and> b < 245 then
        (case bs of
           c # d # e # es \<Rightarrow> if is_cont c \<and> is_cont d \<and> is_cont e
              then ((b - 240) * 262144 + (c - 128) * 4096 + (d - 128) * 64 + (e - 128)) # utf8_bytes es
              else 65533 # utf8_bytes bs
         | _ \<Rightarrow> 65533 # utf8_bytes bs)
      else 65533 # utf8_bytes bs)"

definition utf8 :: "string \<Rightarrow> utext" where
  "utf8 s = utf8_bytes (map of_char s)"

text \<open>JavaScript's \<open>\s\<close> (and \<open>trim\<close>) and the complement of \<open>.\<close>.\<close>

definition ws :: "nat \<Rightarrow> bool" where
  "ws c \<longleftrightarrow> (9 \<le> c \<and> c \<le> 13) \<or> c \<in> {32, 160, 0x1680, 0x2028, 0x2029, 0x202F, 0x205F, 0x3000, 0xFEFF}
     \<or> (0x2000 \<le> c \<and> c \<le> 0x200A)"

definition terminator :: "nat \<Rightarrow> bool" where
  "terminator c \<longleftrightarrow> c \<in> {10, 13, 0x2028, 0x2029}"

definition trim_end :: "utext \<Rightarrow> utext" where
  "trim_end t = rev (dropWhile ws (rev t))"

definition trim :: "utext \<Rightarrow> utext" where
  "trim t = trim_end (dropWhile ws t)"

text \<open>\<open>text.split(/\r?\n/u)\<close>; the first argument is the current line, reversed.\<close>

fun split_lines_on :: "utext \<Rightarrow> utext \<Rightarrow> utext list" where
  "split_lines_on cur [] = [rev cur]"
| "split_lines_on cur (c # t) =
     (if c = 10 then rev cur # split_lines_on [] t
      else if c = 13 \<and> t \<noteq> [] \<and> hd t = 10 then rev cur # split_lines_on [] (tl t)
      else split_lines_on (c # cur) t)"

definition split_lines :: "utext \<Rightarrow> utext list" where
  "split_lines t = split_lines_on [] t"

definition starts :: "utext \<Rightarrow> utext \<Rightarrow> bool" where
  "starts p t \<longleftrightarrow> take (length p) t = p"

section \<open>Prose lines\<close>

text \<open>\<open>/^ {0,3}(`{3,}|~{3,})/u\<close>: the marker as its character and length.\<close>

definition fence_marker :: "utext \<Rightarrow> (nat \<times> nat) option" where
  "fence_marker line =
     (let spaces = length (takeWhile (\<lambda>c. c = 32) line); rest = drop spaces line in
      if 3 < spaces \<or> rest = [] then None
      else let c = hd rest; n = length (takeWhile (\<lambda>x. x = c) rest) in
        if (c = 96 \<or> c = 126) \<and> 3 \<le> n then Some (c, n) else None)"

text \<open>The closing test: only white space may follow the marker.\<close>

definition fence_closes :: "nat \<times> nat \<Rightarrow> utext \<Rightarrow> bool" where
  "fence_closes fence line =
     (case fence_marker line of
        None \<Rightarrow> False
      | Some (c, n) \<Rightarrow> c = fst fence \<and> snd fence \<le> n \<and>
          list_all ws (dropWhile (\<lambda>x. x = c) (dropWhile (\<lambda>x. x = 32) line)))"

definition quoted_or_code :: "utext \<Rightarrow> bool" where
  "quoted_or_code line \<longleftrightarrow> starts [62] (dropWhile ws line) \<or> starts [32, 32, 32, 32] line \<or> starts [9] line"

fun prose_from :: "(nat \<times> nat) option \<Rightarrow> utext list \<Rightarrow> utext list" where
  "prose_from fence [] = []"
| "prose_from (Some fence) (line # ls) =
     [] # prose_from (if fence_closes fence line then None else Some fence) ls"
| "prose_from None (line # ls) =
     (case fence_marker line of
        Some m \<Rightarrow> [] # prose_from (Some m) ls
      | None \<Rightarrow> (if quoted_or_code line then [] else line) # prose_from None ls)"

definition proseLines :: "utext \<Rightarrow> utext list" where
  "proseLines t = prose_from None (split_lines t)"

section \<open>Sections\<close>

definition TASK_SPEC_HEADINGS :: "utext list" where
  "TASK_SPEC_HEADINGS =
     [[35201, 25913, 21464, 30340, 34892, 20026],
      [39564, 25910, 22330, 26223],
      [26126, 30830, 19981, 20570],
      [24517, 35201, 20381, 36182, 21450, 29702, 30001]]"

text \<open>The heading of the exit conditions, \<open>TASK_SPEC_HEADINGS[1]\<close>, and the two review headings.\<close>

definition EXIT_REVIEW_HEADING :: utext where
  "EXIT_REVIEW_HEADING = [36864, 20986, 26465, 20214, 36880, 26465, 26680, 39564]"

definition SCOPE_REVIEW_HEADING :: utext where
  "SCOPE_REVIEW_HEADING = [36229, 20986, 35268, 26684, 30340, 25913, 21160]"

text \<open>\<open>\s*#*\s*$\<close>.\<close>

definition heading_tail :: "utext \<Rightarrow> bool" where
  "heading_tail t \<longleftrightarrow> list_all ws (dropWhile (\<lambda>c. c = 35) (dropWhile ws t))"

text \<open>
  \<open>(.+?)\s*#*\s*$\<close> after \<open>\s+\<close>: the shortest title whose rest is a heading tail; then, with one
  character less for \<open>\s+\<close>, again.
\<close>

fun lazy_title :: "utext \<Rightarrow> utext \<Rightarrow> utext option" where
  "lazy_title acc [] = None"
| "lazy_title acc (c # t) =
     (if terminator c then None
      else if heading_tail t then Some (rev (c # acc))
      else lazy_title (c # acc) t)"

fun heading_title :: "nat \<Rightarrow> utext \<Rightarrow> utext option" where
  "heading_title 0 rest = None"
| "heading_title (Suc k) rest =
     (case lazy_title [] (drop (Suc k) rest) of
        Some t \<Rightarrow> Some t
      | None \<Rightarrow> heading_title k rest)"

text \<open>The number of hashes and the title.\<close>

definition heading_match :: "utext \<Rightarrow> (nat \<times> utext) option" where
  "heading_match line =
     (let h = length (takeWhile (\<lambda>c. c = 35) line); rest = drop h line in
      if 1 \<le> h \<and> h \<le> 6
      then map_option (Pair h) (heading_title (length (takeWhile ws rest)) rest)
      else None)"

text \<open>
  The loop of \<open>sections\<close>: finished sections in order, the open one (if any) with its lines.
  \<open>result\<close> holds the open section too, as the last element, because the code pushes the array
  before it fills it.
\<close>

definition section_step :: "utext \<Rightarrow> bool \<Rightarrow> bool \<times> utext list list \<Rightarrow> utext \<Rightarrow> bool \<times> utext list list" where
  "section_step title bare st line =
     (case st of (active, result) \<Rightarrow>
        let heading = heading_match line;
            bareHeading = (bare \<and> trim line \<in> set TASK_SPEC_HEADINGS);
            active' = (if (case heading of None \<Rightarrow> False | Some (h, _) \<Rightarrow> h \<le> 2) \<or> bareHeading
                       then False else active)
        in if heading = Some (2, title) \<or> (bare \<and> trim line = title) then (True, result @ [[]])
           else if active' then (True, butlast result @ [last result @ [line]])
           else (False, result))"

definition sections :: "utext \<Rightarrow> utext \<Rightarrow> bool \<Rightarrow> utext list list" where
  "sections t title bare = snd (foldl (section_step title bare) (False, []) (proseLines t))"

section \<open>Placeholders and lists\<close>

definition PLACEHOLDER_PUNCTUATION :: "nat set" where
  "PLACEHOLDER_PUNCTUATION = {65307, 59, 12290, 46, 33, 65281}"

definition upper :: "nat \<Rightarrow> nat" where
  "upper c = (if 97 \<le> c \<and> c \<le> 122 then c - 32 else c)"

definition isPlaceholder :: "utext \<Rightarrow> bool \<Rightarrow> bool" where
  "isPlaceholder t allowNone =
     (let value = trim (rev (dropWhile (\<lambda>c. c \<in> PLACEHOLDER_PUNCTUATION) (rev (trim t)))) in
      value = [] \<or>
      map upper value \<in> {[84, 79, 68, 79], [84, 66, 68]} \<or>
      value \<in> {[24453, 34917, 20805], [24453, 22635, 20889], [24453, 23450], [46, 46, 46]} \<or>
      list_all (\<lambda>c. c = 0x2026) value \<or>
      (\<not> allowNone \<and> value = [26080]))"

record list_item =
  li_number :: "nat option"
  li_text :: utext

definition digit :: "nat \<Rightarrow> bool" where
  "digit c \<longleftrightarrow> 48 \<le> c \<and> c \<le> 57"

definition number :: "utext \<Rightarrow> nat" where
  "number ds = foldl (\<lambda>a c. 10 * a + (c - 48)) 0 ds"

definition circled :: "nat \<Rightarrow> bool" where
  "circled c \<longleftrightarrow> 0x2460 \<le> c \<and> c \<le> 0x2473"

text \<open>The three alternatives of the list regular expression, with the indentation.\<close>

datatype list_match =
    Numbered nat utext
  | Bulleted utext
  | Circled_line

text \<open>\<open>(?:\s+|$)\<close> and then \<open>(.*)$\<close>.\<close>

definition after_marker :: "utext \<Rightarrow> utext option" where
  "after_marker t =
     (if t = [] \<or> ws (hd t)
      then (let body = dropWhile ws t in if list_ex terminator body then None else Some body)
      else None)"

definition list_match :: "utext \<Rightarrow> (nat \<times> list_match) option" where
  "list_match line =
     (let indent = length (takeWhile (\<lambda>c. c = 32) line);
          rest = drop indent line;
          ds = takeWhile digit rest;
          tail = dropWhile digit rest
      in map_option (Pair indent)
        (if ds \<noteq> []
         then (if tail \<noteq> [] \<and> hd tail \<in> {46, 41}
               then map_option (Numbered (number ds)) (after_marker (tl tail)) else None)
         else if rest = [] then None
         else if hd rest \<in> {45, 43, 42} then map_option Bulleted (after_marker (tl rest))
         else if circled (hd rest) \<and> \<not> list_ex terminator (tl rest) then Some Circled_line
         else None))"

text \<open>\<open>line.trim().matchAll(/([\u2460-\u2473])([^\u2460-\u2473]*)/gu)\<close>.\<close>

function circled_items :: "utext \<Rightarrow> list_item list" where
  "circled_items t =
     (case dropWhile (\<lambda>c. \<not> circled c) t of
        [] \<Rightarrow> []
      | c # rest \<Rightarrow>
          \<lparr>li_number = Some (c - 0x2460 + 1), li_text = trim (takeWhile (\<lambda>c. \<not> circled c) rest)\<rparr>
          # circled_items (dropWhile (\<lambda>c. \<not> circled c) rest))"
  by pat_completeness auto
termination
proof (relation "measure length")
  show "wf (measure (length :: utext \<Rightarrow> nat))" by simp
  fix t :: utext and c rest
  assume "dropWhile (\<lambda>c. \<not> circled c) t = c # rest"
  then have "length (c # rest) \<le> length t"
    by (metis length_dropWhile_le)
  then show "(dropWhile (\<lambda>c. \<not> circled c) rest, t) \<in> measure length"
    using length_dropWhile_le [of "\<lambda>c. \<not> circled c" rest] by simp
qed

definition continue_item :: "list_item list \<Rightarrow> utext \<Rightarrow> list_item list" where
  "continue_item items line =
     (if items = [] \<or> trim line = [] then items
      else butlast items @ [(last items)\<lparr>li_text := li_text (last items) @ 10 # trim line\<rparr>])"

definition list_step :: "nat option \<times> list_item list \<Rightarrow> utext \<Rightarrow> nat option \<times> list_item list" where
  "list_step st line =
     (case st of (indent, items) \<Rightarrow>
       (case list_match line of
          Some (k, m) \<Rightarrow>
            (if (case indent of None \<Rightarrow> True | Some i \<Rightarrow> k \<le> i)
             then (Some k, items @ (case m of
                     Circled_line \<Rightarrow> circled_items (trim line)
                   | Numbered n body \<Rightarrow> [\<lparr>li_number = Some n, li_text = trim body\<rparr>]
                   | Bulleted body \<Rightarrow> [\<lparr>li_number = None, li_text = trim body\<rparr>]))
             else (indent, continue_item items line))
        | None \<Rightarrow> (indent, continue_item items line)))"

definition listItems :: "utext list \<Rightarrow> list_item list" where
  "listItems ls = snd (foldl list_step (None, []) ls)"

section \<open>Exit conditions\<close>

datatype spec_diagnostic =
    Missing_section
  | Duplicate_section
  | No_items
  | Placeholder_item nat

definition exitConditions :: "utext \<Rightarrow> list_item list \<times> spec_diagnostic list" where
  "exitConditions description =
     (let found = sections description (TASK_SPEC_HEADINGS ! 1) True;
          items = (if length found = 1 then listItems (hd found) else []);
          diagnostics =
            (if found = [] then [Missing_section] else [])
            @ (if 1 < length found then [Duplicate_section] else [])
            @ (if length found = 1 \<and> items = [] then [No_items] else [])
            @ map (\<lambda>(item, index). Placeholder_item (index + 1))
                (filter (\<lambda>(item, index). isPlaceholder (li_text item) False) (zip items [0..<length items]))
      in (filter (\<lambda>item. \<not> isPlaceholder (li_text item) False) items, diagnostics))"

text \<open>The warning is shown when there is a diagnostic; its text is their concatenation.\<close>

definition taskSpecWarning :: "utext \<Rightarrow> spec_diagnostic list option" where
  "taskSpecWarning description =
     (let diagnostics = snd (exitConditions description) in
      if diagnostics = [] then None else Some diagnostics)"

section \<open>Lines\<close>

fun join_lines :: "utext list \<Rightarrow> utext" where
  "join_lines [] = []"
| "join_lines [l] = l"
| "join_lines (l # ls) = l @ 10 # join_lines ls"

lemma split_lines_on_plain:
  "10 \<notin> set l \<Longrightarrow> 13 \<notin> set l \<Longrightarrow>
   split_lines_on cur (l @ t) = split_lines_on (rev l @ cur) t"
  by (induction l arbitrary: cur) auto

lemma split_join_lines:
  assumes "ls \<noteq> []" and "\<And>l. l \<in> set ls \<Longrightarrow> 10 \<notin> set l \<and> 13 \<notin> set l"
  shows "split_lines (join_lines ls) = ls"
  unfolding split_lines_def using assms
proof (induction ls rule: join_lines.induct)
  case (2 l)
  then show ?case using split_lines_on_plain [of l "[]" "[]"] by simp
next
  case (3 l l' ls)
  then show ?case
    using split_lines_on_plain [of l "[]" "10 # join_lines (l' # ls)"] by simp
qed simp

definition plain_line :: "utext \<Rightarrow> bool" where
  "plain_line l \<longleftrightarrow> fence_marker l = None \<and> \<not> quoted_or_code l"

lemma prose_from_plain: "list_all plain_line ls \<Longrightarrow> prose_from None ls = ls"
  by (induction ls) (simp_all add: plain_line_def)

lemma prose_from_fenced:
  "list_all (\<lambda>l. \<not> fence_closes f l) ls \<Longrightarrow> prose_from (Some f) ls = replicate (length ls) []"
  by (induction ls) simp_all

lemma length_prose_from: "length (prose_from f ls) = length ls"
  by (induction f ls rule: prose_from.induct) (auto split: option.split)

lemma prose_from_append:
  "\<exists>f'. \<forall>ms. prose_from f (ls @ ms) = prose_from f ls @ prose_from f' ms"
proof (induction f ls rule: prose_from.induct)
  case (1 f)
  then show ?case by auto
next
  case (2 f line ls)
  then show ?case by simp
next
  case (3 line ls)
  then show ?case by (cases "fence_marker line") simp_all
qed

section \<open>Section contents\<close>

text \<open>A line that neither opens nor ends a section.\<close>

definition body_line :: "bool \<Rightarrow> utext \<Rightarrow> utext \<Rightarrow> bool" where
  "body_line bare title l \<longleftrightarrow> heading_match l = None \<and> (bare \<longrightarrow> trim l \<notin> set TASK_SPEC_HEADINGS \<and> trim l \<noteq> title)"

lemma section_step_body:
  "body_line bare title l \<Longrightarrow> section_step title bare (active, res) l =
     (if active then (True, butlast res @ [last res @ [l]]) else (False, res))"
  by (auto simp: section_step_def body_line_def Let_def)

lemma section_step_body_run:
  "list_all (body_line bare title) ls \<Longrightarrow>
   foldl (section_step title bare) (True, res @ [acc]) ls = (True, res @ [acc @ ls])"
  by (induction ls arbitrary: acc) (simp_all add: section_step_body)

lemma section_step_skip_run:
  "list_all (body_line bare title) ls \<Longrightarrow> foldl (section_step title bare) (False, res) ls = (False, res)"
  by (induction ls) (simp_all add: section_step_body)

lemma section_step_open:
  "heading_match l = Some (2, title) \<Longrightarrow> section_step title bare (active, res) l = (True, res @ [[]])"
  by (simp add: section_step_def Let_def)

lemma sections_unique:
  assumes "proseLines t = pre @ l # body"
    and "list_all (body_line bare title) pre" and "heading_match l = Some (2, title)"
    and "list_all (body_line bare title) body"
  shows "sections t title bare = [body]"
  using section_step_body_run [OF assms(4), of "[]" "[]"]
  by (simp add: sections_def assms(1) section_step_skip_run [OF assms(2)] section_step_open [OF assms(3)])

section \<open>Numbered lists\<close>

fun digits :: "nat \<Rightarrow> utext" where
  "digits n = (if n < 10 then [48 + n] else digits (n div 10) @ [48 + n mod 10])"

declare digits.simps [simp del]

lemma digits_digit: "digits n \<noteq> [] \<and> list_all digit (digits n)"
proof (induction n rule: digits.induct)
  case (1 n)
  then show ?case
    by (cases "n < 10") (simp_all add: digits.simps [of n] digit_def)
qed

lemma number_digits: "number (digits n) = n"
proof (induction n rule: digits.induct)
  case (1 n)
  then show ?case
    by (cases "n < 10") (simp_all add: digits.simps [of n] number_def)
qed

lemma digits_hd: "\<exists>c t. digits n = c # t \<and> digit c"
  using digits_digit [of n] by (cases "digits n") auto

text \<open>A one-line item text: trimmed, not blank, on one line.\<close>

definition item_text :: "utext \<Rightarrow> bool" where
  "item_text t \<longleftrightarrow> t \<noteq> [] \<and> trim t = t \<and> \<not> list_ex terminator t"

definition numbered_line :: "nat \<Rightarrow> utext \<Rightarrow> utext" where
  "numbered_line n t = digits n @ [46, 32] @ t"

lemma trim_hd: "trim t = t \<Longrightarrow> t \<noteq> [] \<Longrightarrow> \<not> ws (hd t)"
proof -
  assume eq: "trim t = t" and ne: "t \<noteq> []"
  have "length (trim t) \<le> length (dropWhile ws t)"
    unfolding trim_def trim_end_def by (metis length_dropWhile_le length_rev)
  then have "length t \<le> length (dropWhile ws t)" using eq by simp
  then have "dropWhile ws t = t"
    using ne by (cases t) (use length_dropWhile_le not_less_eq_eq in \<open>auto split: if_splits\<close>)
  with ne show ?thesis by (metis hd_dropWhile)
qed

lemma digit_not_special:
  "digit c \<Longrightarrow> \<not> ws c \<and> c \<noteq> 35 \<and> c \<noteq> 32 \<and> c \<noteq> 96 \<and> c \<noteq> 126 \<and> c \<noteq> 62 \<and> c \<noteq> 9 \<and> \<not> terminator c \<and> c \<noteq> 10 \<and> c \<noteq> 13"
  by (auto simp: digit_def ws_def terminator_def)

lemma ws_space: "ws 32"
  by (simp add: ws_def)

lemma numbered_line_list_match:
  assumes "item_text t"
  shows "list_match (numbered_line n t) = Some (0, Numbered n t)"
proof -
  obtain c u where d: "digits n = c # u" "digit c" using digits_hd by blast
  have "takeWhile (\<lambda>c. c = 32) (numbered_line n t) = []"
    using d digit_not_special [of c] by (simp add: numbered_line_def)
  moreover have "takeWhile digit (numbered_line n t) = digits n"
    "dropWhile digit (numbered_line n t) = 46 # 32 # t"
    using digits_digit [of n] by (simp_all add: numbered_line_def list_all_iff digit_def takeWhile_append2 dropWhile_append2)
  moreover have "dropWhile ws (32 # t) = t"
    using trim_hd [of t] assms by (cases t) (auto simp: item_text_def ws_space)
  ultimately show ?thesis
    using assms digits_digit [of n] by (simp add: list_match_def Let_def after_marker_def number_digits item_text_def ws_space)
qed

lemma listItems_numbered:
  assumes "list_all (\<lambda>(n, t). item_text t) nts"
  shows "listItems (map (\<lambda>(n, t). numbered_line n t) nts) = map (\<lambda>(n, t). \<lparr>li_number = Some n, li_text = t\<rparr>) nts"
proof -
  have "foldl list_step (ind, items) (map (\<lambda>(n, t). numbered_line n t) nts) =
      (if nts = [] then ind else Some 0, items @ map (\<lambda>(n, t). \<lparr>li_number = Some n, li_text = t\<rparr>) nts)"
    if "ind = None \<or> ind = Some 0" for ind items
    using assms that
  proof (induction nts arbitrary: ind items)
    case Nil
    then show ?case by simp
  next
    case (Cons a nts)
    obtain n t where a: "a = (n, t)" by (cases a)
    have "list_step (ind, items) (numbered_line n t) = (Some 0, items @ [\<lparr>li_number = Some n, li_text = t\<rparr>])"
      using Cons.prems a by (auto simp: list_step_def numbered_line_list_match item_text_def)
    with Cons a show ?case by simp
  qed
  from this [of None "[]"] show ?thesis by (simp add: listItems_def)
qed

lemma numbered_line_plain: "plain_line (numbered_line n t)"
proof -
  obtain c u where d: "digits n = c # u" "digit c" using digits_hd by blast
  then show ?thesis
    using digit_not_special [of c]
    by (auto simp: plain_line_def numbered_line_def fence_marker_def quoted_or_code_def starts_def Let_def)
qed

lemma numbered_line_no_newline:
  "item_text t \<Longrightarrow> 10 \<notin> set (numbered_line n t) \<and> 13 \<notin> set (numbered_line n t)"
  using digits_digit [of n] digit_not_special
  by (auto simp: numbered_line_def item_text_def list_all_iff list_ex_iff terminator_def)

lemma numbered_line_body: "body_line bare title (numbered_line n t)" if "title \<in> set TASK_SPEC_HEADINGS \<or> \<not> bare"
proof -
  obtain c u where d: "digits n = c # u" "digit c" using digits_hd by blast
  have "heading_match (numbered_line n t) = None"
    using d digit_not_special [of c] by (simp add: numbered_line_def heading_match_def Let_def)
  moreover have "hd (trim (numbered_line n t)) = c" "trim (numbered_line n t) \<noteq> []"
  proof -
    have "dropWhile ws (numbered_line n t) = c # u @ 46 # 32 # t"
      using d digit_not_special [of c] by (simp add: numbered_line_def)
    then have "trim (numbered_line n t) = rev (dropWhile ws (rev (46 # 32 # t) @ rev (c # u)))"
      by (simp add: trim_def trim_end_def)
    moreover have "dropWhile ws (xs @ rev (c # u)) = dropWhile ws xs @ rev (c # u) \<or>
        dropWhile ws (xs @ rev (c # u)) = dropWhile ws (rev u @ [c])" for xs
      by (induction xs) auto
    moreover have "\<exists>vs. dropWhile ws (vs @ [c]) = dropWhile ws (vs @ [c])" by blast
    moreover have "\<exists>ws'. dropWhile ws (vs @ [c]) = ws' @ [c]" for vs
      using d(2) digit_not_special [of c] by (induction vs) auto
    ultimately show "hd (trim (numbered_line n t)) = c" "trim (numbered_line n t) \<noteq> []"
      by (metis append_assoc append_Cons append_Nil list.sel(1) rev.simps(2) rev_append rev_rev_ident
          append_is_Nil_conv list.distinct(1))+
  qed
  ultimately show ?thesis
    using d that by (auto simp: body_line_def TASK_SPEC_HEADINGS_def digit_def)
qed

section \<open>A description written from the template\<close>

definition heading_line :: "utext \<Rightarrow> utext" where
  "heading_line title = [35, 35, 32] @ title"

definition numbered_section :: "utext \<Rightarrow> utext list \<Rightarrow> utext" where
  "numbered_section title ts =
     join_lines (heading_line title # map (\<lambda>(n, t). numbered_line n t) (zip [1..<Suc (length ts)] ts))"

definition numbered_items :: "utext list \<Rightarrow> list_item list" where
  "numbered_items ts = map (\<lambda>(n, t). \<lparr>li_number = Some n, li_text = t\<rparr>) (zip [1..<Suc (length ts)] ts)"

text \<open>A title the heading expression reads back: one line, not blank at its ends, no trailing hash.\<close>

definition plain_title :: "utext \<Rightarrow> bool" where
  "plain_title title \<longleftrightarrow> heading_match (heading_line title) = Some (2, title) \<and>
     \<not> list_ex (\<lambda>c. c = 10 \<or> c = 13) title"

lemmas text_eval = TASK_SPEC_HEADINGS_def EXIT_REVIEW_HEADING_def SCOPE_REVIEW_HEADING_def
  plain_title_def heading_line_def heading_match_def heading_tail_def terminator_def ws_def
  body_line_def trim_def trim_end_def Let_def utf8_def is_cont_def item_text_def isPlaceholder_def
  PLACEHOLDER_PUNCTUATION_def upper_def split_lines_def fence_marker_def fence_closes_def

lemma plain_titles:
  "list_all plain_title TASK_SPEC_HEADINGS" "plain_title EXIT_REVIEW_HEADING" "plain_title SCOPE_REVIEW_HEADING"
  by (simp_all add: text_eval)

lemma numbered_section_sections:
  assumes "plain_title title" "list_all item_text ts" "title \<in> set TASK_SPEC_HEADINGS \<or> \<not> bare"
  shows "sections (numbered_section title ts) title bare =
    [map (\<lambda>(n, t). numbered_line n t) (zip [1..<Suc (length ts)] ts)]"
proof (rule sections_unique)
  let ?ls = "map (\<lambda>(n, t). numbered_line n t) (zip [1..<Suc (length ts)] ts)"
  have mem: "\<exists>n t. l = numbered_line n t \<and> item_text t" if "l \<in> set ?ls" for l
    using that assms(2) by (auto simp: list_all_iff dest!: set_zip_rightD simp del: upt_Suc)
  have "split_lines (numbered_section title ts) = heading_line title # ?ls"
    unfolding numbered_section_def
  proof (rule split_join_lines)
    show "10 \<notin> set l \<and> 13 \<notin> set l" if "l \<in> set (heading_line title # ?ls)" for l
    proof (cases "l = heading_line title")
      case True
      then show ?thesis using assms(1) by (auto simp: plain_title_def heading_line_def list_ex_iff)
    next
      case False
      with that mem [of l] numbered_line_no_newline show ?thesis by auto
    qed
  qed simp
  moreover have "plain_line (heading_line title)"
    by (simp add: plain_line_def heading_line_def fence_marker_def quoted_or_code_def starts_def ws_def Let_def)
  moreover have "list_all plain_line ?ls"
    by (auto simp: list_all_iff numbered_line_plain simp del: upt_Suc)
  ultimately show "proseLines (numbered_section title ts) = [] @ heading_line title # ?ls"
    using prose_from_plain [of "heading_line title # ?ls"] by (simp add: proseLines_def del: upt_Suc)
  show "list_all (body_line bare title) ?ls"
    using numbered_line_body [OF assms(3)] by (auto simp: list_all_iff simp del: upt_Suc)
  show "heading_match (heading_line title) = Some (2, title)"
    using assms(1) by (simp add: plain_title_def)
qed simp

lemma listItems_numbered_section:
  assumes "list_all item_text ts"
  shows "listItems (map (\<lambda>(n, t). numbered_line n t) (zip [1..<Suc (length ts)] ts)) = numbered_items ts"
  unfolding numbered_items_def
  using assms by (intro listItems_numbered) (auto simp: list_all_iff dest: set_zip_rightD simp del: upt_Suc)

lemma numbered_items_texts: "map li_text (numbered_items ts) = ts"
  by (simp add: numbered_items_def o_def case_prod_unfold del: upt_Suc)

lemma length_numbered_items [simp]: "length (numbered_items ts) = length ts"
  using numbered_items_texts [of ts] by (metis length_map)

lemma numbered_items_set: "item \<in> set (numbered_items ts) \<Longrightarrow> li_text item \<in> set ts"
  using numbered_items_texts [of ts] by (metis image_eqI set_map)

lemma exitConditions_section:
  assumes "sections d (TASK_SPEC_HEADINGS ! 1) True = [ls]" and "listItems ls = items" and "items \<noteq> []"
    and "\<And>i. i \<in> set items \<Longrightarrow> \<not> isPlaceholder (li_text i) False"
  shows "exitConditions d = (items, [])"
proof -
  have "filter (\<lambda>(item, index). isPlaceholder (li_text item) False) (zip items [0..<length items]) = []"
    using assms(4) by (auto simp: filter_empty_conv dest: set_zip_leftD)
  moreover have "filter (\<lambda>item. \<not> isPlaceholder (li_text item) False) items = items"
    using assms(4) by (simp add: filter_id_conv)
  ultimately show ?thesis
    using assms by (simp add: exitConditions_def Let_def)
qed

section \<open>Properties\<close>

text \<open>A description written from the template is read back exactly: the exit conditions are the
  numbered lines of the acceptance section, in order and with their numbers, and creating the task
  raises no warning.\<close>

theorem exitConditions_template:
  assumes "ts \<noteq> []" and "list_all item_text ts" and "\<And>t. t \<in> set ts \<Longrightarrow> \<not> isPlaceholder t False"
  shows "exitConditions (numbered_section (TASK_SPEC_HEADINGS ! 1) ts) = (numbered_items ts, []) \<and>
    taskSpecWarning (numbered_section (TASK_SPEC_HEADINGS ! 1) ts) = None"
proof -
  have mem: "TASK_SPEC_HEADINGS ! 1 \<in> set TASK_SPEC_HEADINGS"
    by (rule nth_mem) (simp add: TASK_SPEC_HEADINGS_def)
  then have "plain_title (TASK_SPEC_HEADINGS ! 1)"
    using plain_titles(1) by (auto simp: list_all_iff)
  then have "sections (numbered_section (TASK_SPEC_HEADINGS ! 1) ts) (TASK_SPEC_HEADINGS ! 1) True =
      [map (\<lambda>(n, t). numbered_line n t) (zip [1..<Suc (length ts)] ts)]"
    using assms(2) mem by (intro numbered_section_sections) blast+
  moreover have "numbered_items ts \<noteq> []"
    using assms(1) length_numbered_items [of ts] by (metis length_0_conv)
  ultimately have "exitConditions (numbered_section (TASK_SPEC_HEADINGS ! 1) ts) = (numbered_items ts, [])"
    using listItems_numbered_section [OF assms(2)] assms(3) numbered_items_set
    by (intro exitConditions_section) blast+
  then show ?thesis by (simp add: taskSpecWarning_def)
qed

theorem exitConditions_template_witness:
  "taskSpecWarning (numbered_section (TASK_SPEC_HEADINGS ! 1) [utf8 ''it works'', utf8 ''tests pass'']) = None"
proof -
  have ok: "list_all (\<lambda>t. item_text t \<and> \<not> isPlaceholder t False) [utf8 ''it works'', utf8 ''tests pass'']"
    by (simp add: text_eval)
  have "list_all item_text [utf8 ''it works'', utf8 ''tests pass'']"
    using ok by (simp add: list_all_iff)
  moreover have "\<not> isPlaceholder t False" if "t \<in> set [utf8 ''it works'', utf8 ''tests pass'']" for t
    using ok that by (auto simp: list_all_iff)
  ultimately show ?thesis
    using exitConditions_template [of "[utf8 ''it works'', utf8 ''tests pass'']"] by simp
qed

text \<open>Text inside a fence is never a specification: when the description opens a code fence that
  no later line closes, no exit condition is found, whatever the fenced lines contain.\<close>

theorem fenced_conditions_ignored:
  assumes "split_lines d = l # ls" and "fence_marker l = Some f" and "list_all (\<lambda>l. \<not> fence_closes f l) ls"
  shows "exitConditions d = ([], [Missing_section])"
proof -
  have blank: "body_line True (TASK_SPEC_HEADINGS ! 1) []"
    by (simp add: text_eval)
  have "proseLines d = replicate (Suc (length ls)) []"
    using assms by (simp add: proseLines_def prose_from_fenced)
  then have "sections d (TASK_SPEC_HEADINGS ! 1) True = []"
    unfolding sections_def
    using section_step_skip_run [of True "TASK_SPEC_HEADINGS ! 1" "replicate (Suc (length ls)) []" "[]"] blank
    by (simp add: list_all_iff)
  then show ?thesis by (simp add: exitConditions_def)
qed

theorem fenced_conditions_ignored_witness:
  "exitConditions (join_lines [[96, 96, 96], heading_line (TASK_SPEC_HEADINGS ! 1), utf8 ''1. it works'']) =
    ([], [Missing_section])"
  by (rule fenced_conditions_ignored [of _ "[96, 96, 96]"
        "[heading_line (TASK_SPEC_HEADINGS ! 1), utf8 ''1. it works'']" "(96, 3)"]) (simp_all add: text_eval)

end
