(* ===== verification/Record_Lint.thy ===== *)
theory Record_Lint
  imports State_Machine Task_Spec
begin

text \<open>
  The diagnostic overlay of \<open>src/core/hub/record-lint.ts\<close>.  \<open>foldWithLint\<close> runs the workflow fold
  one record at a time and, beside it, keeps the open lint issues of each role, replaces their
  warnings when a later record is evaluated again, counts consecutive failures, and derives when a
  task became pending and how many deliveries it saw.

  \<open>parses\<close> stands for \<open>Number.isFinite(Date.parse(\<dots>))\<close>, which ECMAScript leaves to the
  implementation for most strings.  Warning messages and repair instructions are left out; fields,
  sections, examples and the records a repair asks for are kept.
\<close>

record lint_issue =
  iss_code :: warning_code
  iss_role :: string
  iss_root :: nat
  iss_last :: nat
  iss_round :: nat
  iss_required :: "nat option"

text \<open>\<open>LintCursor\<close>: the fold cursor it extends, and its own fields.\<close>

record lint_cursor =
  lc_fold :: fold_cursor
  lc_pendingFailDesign :: "nat option"
  lc_pending_since :: "string option"
  lc_round_count :: nat
  lc_issues :: "lint_issue list"

definition lint_initial :: "flow \<Rightarrow> lint_cursor" where
  "lint_initial flow = \<lparr>lc_fold = initialCursor flow, lc_pendingFailDesign = None,
     lc_pending_since = None, lc_round_count = 0, lc_issues = []\<rparr>"

text \<open>The mutable locals of one loop iteration: \<open>next\<close>, \<open>issues\<close>, \<open>pending\<close>.\<close>

record lint_state =
  ls_next :: fold_cursor
  ls_issues :: "lint_issue list"
  ls_pending :: "nat option"

section \<open>Issues and warnings\<close>

definition clear_issue :: "lint_issue \<Rightarrow> lint_state \<Rightarrow> lint_state" where
  "clear_issue issue st = st
     \<lparr>ls_next := (ls_next st)\<lparr>fc_warnings := filter (\<lambda>w. \<not> (w_code w = iss_code issue \<and> w_version w = iss_last issue))
                                (fc_warnings (ls_next st))\<rparr>,
      ls_issues := filter (\<lambda>candidate. candidate \<noteq> issue) (ls_issues st)\<rparr>"

definition find_issue :: "string \<Rightarrow> warning_code \<Rightarrow> lint_state \<Rightarrow> lint_issue option" where
  "find_issue canonical code st =
     find (\<lambda>issue. iss_code issue = code \<and> iss_role issue = canonical) (ls_issues st)"

definition clear_found :: "lint_issue option \<Rightarrow> lint_state \<Rightarrow> lint_state" where
  "clear_found issue st = (case issue of None \<Rightarrow> st | Some i \<Rightarrow> clear_issue i st)"

definition push_lint_warning :: "fold_cursor \<Rightarrow> nat \<Rightarrow> warning_code \<Rightarrow> warning_detail \<Rightarrow> fold_cursor" where
  "push_lint_warning c v code d =
     c\<lparr>fc_warnings := fc_warnings c @ [\<lparr>w_ref = fc_heap c, w_version = v, w_code = code, w_detail = Some d\<rparr>],
       fc_heap := Suc (fc_heap c)\<rparr>"

definition warn_issue ::
    "context_record \<Rightarrow> string \<Rightarrow> warning_code \<Rightarrow> string \<Rightarrow> utext option \<Rightarrow> supported_fix list \<Rightarrow> nat option
      \<Rightarrow> lint_state \<Rightarrow> lint_state" where
  "warn_issue r canonical code field sect fixes required st =
     (let previous = find_issue canonical code st;
          issue = \<lparr>iss_code = code, iss_role = canonical,
            iss_root = (case previous of None \<Rightarrow> rec_version r | Some i \<Rightarrow> iss_root i),
            iss_last = rec_version r,
            iss_round = (case previous of None \<Rightarrow> 0 | Some i \<Rightarrow> iss_round i) + 1,
            iss_required = required\<rparr>;
          st1 = clear_found previous st
      in st1\<lparr>ls_issues := ls_issues st1 @ [issue],
             ls_next := push_lint_warning (ls_next st1) (rec_version r) code
               \<lparr>wd_field = field, wd_section = sect, wd_fixes = fixes,
                wd_correction = \<lparr>co_root_version = iss_root issue, co_round = iss_round issue,
                                 co_exhausted = 2 \<le> iss_round issue\<rparr>\<rparr>\<rparr>)"

definition noteFix :: "context_record \<Rightarrow> string \<Rightarrow> string \<Rightarrow> utext option \<Rightarrow> supported_fix" where
  "noteFix r canonical field example =
     \<lparr>sf_field = field, sf_example = map_option Inl example,
      sf_record = \<lparr>fr_role = canonical, fr_content_type = ''note'', fr_ref_version = Some (rec_version r)\<rparr>\<rparr>"

text \<open>\<open>record.payload.ref_version === v\<close>, where \<open>v\<close> may be \<open>undefined\<close>.\<close>

definition refs :: "context_record \<Rightarrow> nat option \<Rightarrow> bool" where
  "refs r v \<longleftrightarrow> pget (rec_payload r) ''ref_version'' = map_option (\<lambda>n. JNum (of_nat n)) v"

definition correction_targets :: "context_record \<Rightarrow> string \<Rightarrow> lint_issue list \<Rightarrow> lint_issue list" where
  "correction_targets r canonical issues =
     (if rec_content_type r = ''note'' \<and> \<not> is_ack r
      then filter (\<lambda>issue. iss_role issue = canonical \<and> rec_role r = canonical \<and>
             (refs r (Some (iss_root issue)) \<or> refs r (Some (iss_last issue)))) issues
      else [])"

section \<open>The role lint\<close>

definition CANONICAL_ROLES :: "string list" where
  "CANONICAL_ROLES = [''architect'', ''executor'', ''reviewer'', ''human'']"

definition lint_role :: "context_record \<Rightarrow> string \<Rightarrow> lint_issue list \<Rightarrow> lint_state \<Rightarrow> lint_state" where
  "lint_role r canonical targets st =
     (if rec_role r \<noteq> canonical \<and> canonical \<in> set CANONICAL_ROLES
      then warn_issue r canonical NON_CANONICAL_ROLE ''role'' None
             [noteFix r canonical ''role'' (Some (utf8 canonical))] None st
      else foldl (\<lambda>st issue. clear_issue issue st) st
             (filter (\<lambda>issue. iss_code issue = NON_CANONICAL_ROLE) targets))"

section \<open>The review lints\<close>

text \<open>\<open>/^(\<dots>|\<dots>|\<dots>|\<dots>)\s*[\<dots>]\s*(.+)$/su\<close> over an item: its second group.\<close>

definition ANSWERS :: "utext list" where
  "ANSWERS = [[28385, 36275], [19981, 28385, 36275], [22806, 37096, 38459, 22622], [24050, 25209, 20934, 24310, 21518]]"

definition ANSWER_SEPARATORS :: "nat set" where
  "ANSWER_SEPARATORS = {8212, 8211, 58, 65306, 45}"

definition answer_reason :: "utext \<Rightarrow> utext option" where
  "answer_reason t =
     (case find (\<lambda>a. starts a t) ANSWERS of
        None \<Rightarrow> None
      | Some a \<Rightarrow>
          (case dropWhile ws (drop (length a) t) of
             [] \<Rightarrow> None
           | c # rest \<Rightarrow>
               if c \<notin> ANSWER_SEPARATORS \<or> rest = [] then None
               else Some (if dropWhile ws rest = [] then [last rest] else dropWhile ws rest)))"

definition answered_number :: "nat \<Rightarrow> list_item \<Rightarrow> nat option" where
  "answered_number n item =
     (case li_number item of
        None \<Rightarrow> None
      | Some k \<Rightarrow>
          if k \<noteq> 0 \<and> k \<le> n \<and>
             (case answer_reason (li_text item) of None \<Rightarrow> False | Some reason \<Rightarrow> \<not> isPlaceholder reason False)
          then Some k else None)"

definition answered :: "nat \<Rightarrow> utext \<Rightarrow> nat set" where
  "answered n body =
     (let coverage = sections body EXIT_REVIEW_HEADING False;
          items = (if length coverage = 1 then listItems (hd coverage) else [])
      in set (List.map_filter (answered_number n) items))"

definition scope_stated :: "utext \<Rightarrow> bool" where
  "scope_stated body =
     (let scope = sections body SCOPE_REVIEW_HEADING False in
      length scope = 1 \<and>
      \<not> isPlaceholder (join_lines (hd scope)) True \<and>
      \<not> (listItems (hd scope) \<noteq> [] \<and> list_all (\<lambda>item. isPlaceholder (li_text item) True) (listItems (hd scope))))"

text \<open>Whether a review body fails the lint, per code.\<close>

definition review_incomplete :: "warning_code \<Rightarrow> nat \<Rightarrow> utext \<Rightarrow> bool" where
  "review_incomplete code n body =
     (if code = REVIEW_EXIT_CONDITIONS_INCOMPLETE then card (answered n body) < n else \<not> scope_stated body)"

definition review_heading :: "warning_code \<Rightarrow> utext" where
  "review_heading code =
     (if code = REVIEW_EXIT_CONDITIONS_INCOMPLETE then EXIT_REVIEW_HEADING else SCOPE_REVIEW_HEADING)"

definition review_example :: "warning_code \<Rightarrow> nat \<Rightarrow> utext" where
  "review_example code n =
     (if code = REVIEW_EXIT_CONDITIONS_INCOMPLETE
      then heading_line EXIT_REVIEW_HEADING @ 10 # join_lines (map (\<lambda>i. numbered_line (i + 1) 
        [60, 28385, 36275, 124, 19981, 28385, 36275, 124, 22806, 37096, 38459, 22622, 124, 24050, 25209, 20934, 24310, 21518, 62, 32, 8212, 32, 60, 26412, 39033, 35777, 25454, 25110, 29702, 30001, 62]) [0..<n])
      else heading_line SCOPE_REVIEW_HEADING @ [10, 26080])"

definition body_of :: "context_record \<Rightarrow> utext" where
  "body_of r = utf8 (case string_of (pget (rec_payload r) ''body'') of None \<Rightarrow> [] | Some s \<Rightarrow> s)"

definition lint_review ::
    "list_item list \<Rightarrow> context_record \<Rightarrow> string \<Rightarrow> lint_issue list \<Rightarrow> warning_code \<Rightarrow> lint_state \<Rightarrow> lint_state" where
  "lint_review baseline r canonical targets code st =
     (if rec_content_type r \<noteq> ''review'' \<and> \<not> list_ex (\<lambda>issue. iss_code issue = code) targets then st
      else if baseline = [] then st
      else if review_incomplete code (length baseline) (body_of r)
      then warn_issue r canonical code ''payload.body'' (Some (review_heading code))
             [noteFix r canonical ''payload.body'' (Some (review_example code (length baseline)))] None st
      else clear_found (find_issue canonical code st) st)"

section \<open>The revision lint\<close>

definition track_fail_design ::
    "flow \<Rightarrow> list_item list \<Rightarrow> context_record \<Rightarrow> status \<Rightarrow> lint_state \<Rightarrow> lint_state" where
  "track_fail_design flow baseline r before st =
     (if rec_content_type r = ''review''
      then (if flow = Full \<and> before = Reviewing \<and> fc_status (ls_next st) = Designing \<and>
               verdict_of r = Some ''fail_design'' \<and> baseline \<noteq> []
            then st\<lparr>ls_pending := Some (rec_version r)\<rparr>
            else if ls_pending st \<noteq> None \<and> before = Reviewing \<and> fc_status (ls_next st) \<noteq> Designing
            then st\<lparr>ls_pending := None\<rparr> else st)
      else st)"

definition revision_fixes :: "string \<Rightarrow> nat \<Rightarrow> supported_fix list" where
  "revision_fixes canonical required =
     (let target = \<lparr>fr_role = canonical, fr_content_type = ''revision'', fr_ref_version = Some required\<rparr> in
      [\<lparr>sf_field = ''content_type'', sf_example = Some (Inl (utf8 ''revision'')), sf_record = target\<rparr>,
       \<lparr>sf_field = ''payload.ref_version'', sf_example = Some (Inr required), sf_record = target\<rparr>])"

definition lint_revision :: "context_record \<Rightarrow> string \<Rightarrow> status \<Rightarrow> lint_state \<Rightarrow> lint_state" where
  "lint_revision r canonical before st =
     (let revisionIssue = find_issue canonical EXPECTED_REVISION st;
          pending = ls_pending st;
          expected = (case pending of Some v \<Rightarrow> Some v
                      | None \<Rightarrow> (case revisionIssue of None \<Rightarrow> None | Some i \<Rightarrow> iss_required i));
          validRevision = (rec_content_type r = ''revision'' \<and> (before = Revising \<or> before = Implementing) \<and>
            fc_status (ls_next st) = Reviewing \<and> refs r expected)
      in if validRevision
         then (let st1 = clear_found revisionIssue st
               in if refs r pending then st1\<lparr>ls_pending := None\<rparr> else st1)
         else if (before = Implementing \<and> rec_content_type r = ''code_changes'' \<and> pending \<noteq> None) \<or>
                 ((case revisionIssue of None \<Rightarrow> False | Some i \<Rightarrow> pending = iss_required i) \<and>
                  rec_content_type r = ''revision'' \<and> before \<noteq> Closed)
         then warn_issue r canonical EXPECTED_REVISION ''content_type'' None
                (revision_fixes canonical (the expected)) expected st
         else st)"

section \<open>The overlay\<close>

definition delivered :: "context_record \<Rightarrow> status \<Rightarrow> status \<Rightarrow> bool" where
  "delivered r before after \<longleftrightarrow> before \<noteq> after \<and>
     (rec_content_type r = ''code_changes'' \<or> rec_content_type r = ''revision'') \<and>
     (after = Reviewing \<or> after = Pending_approval)"

definition pending_since_after ::
    "(string \<Rightarrow> bool) \<Rightarrow> context_record \<Rightarrow> status \<Rightarrow> status \<Rightarrow> string option \<Rightarrow> string option" where
  "pending_since_after parses r before after since =
     (if after \<noteq> Pending_approval then None
      else if before = Pending_approval then Some (case since of None \<Rightarrow> ''unknown'' | Some t \<Rightarrow> t)
      else Some (if parses (rec_timestamp r) then rec_timestamp r else ''unknown''))"

definition lint_record ::
    "list_item list \<Rightarrow> flow \<Rightarrow> context_record \<Rightarrow> status \<Rightarrow> lint_state \<Rightarrow> lint_state" where
  "lint_record baseline flow r before st0 =
     (let canonical = lower_case (rec_role r);
          st1 = (if is_ack_note r \<or> is_close r then st0\<lparr>ls_issues := []\<rparr> else st0);
          targets = correction_targets r canonical (ls_issues st1);
          st2 = lint_role r canonical targets st1;
          st3 = lint_review baseline r canonical targets REVIEW_EXIT_CONDITIONS_INCOMPLETE st2;
          st4 = lint_review baseline r canonical targets REVIEW_SCOPE_SECTION_MISSING st3;
          st5 = track_fail_design flow baseline r before st4
      in lint_revision r canonical before st5)"

definition lint_step ::
    "(string \<Rightarrow> bool) \<Rightarrow> flow \<Rightarrow> list_item list \<Rightarrow> lint_cursor \<Rightarrow> context_record \<Rightarrow> lint_cursor" where
  "lint_step parses flow baseline current r =
     (let before = fc_status (lc_fold current);
          st = lint_record baseline flow r before
            \<lparr>ls_next = foldOntoCursor (lc_fold current) [r] flow, ls_issues = lc_issues current,
             ls_pending = lc_pendingFailDesign current\<rparr>;
          after = fc_status (ls_next st)
      in \<lparr>lc_fold = ls_next st,
          lc_pendingFailDesign = ls_pending st,
          lc_pending_since = pending_since_after parses r before after (lc_pending_since current),
          lc_round_count = lc_round_count current + (if delivered r before after then 1 else 0),
          lc_issues = ls_issues st\<rparr>)"

definition foldWithLint ::
    "(string \<Rightarrow> bool) \<Rightarrow> lint_cursor \<Rightarrow> context_record list \<Rightarrow> flow \<Rightarrow> utext \<Rightarrow> lint_cursor" where
  "foldWithLint parses cursor records flow description =
     (let baseline = fst (exitConditions description)
      in foldl (lint_step parses flow baseline) cursor (sort_key rec_version records))"

text \<open>\<open>needs_attention\<close> and \<open>waiting_for\<close> of the value \<open>foldWithLint\<close> returns.\<close>

definition lint_derived :: "lint_cursor \<Rightarrow> derived_state" where
  "lint_derived c = derived_of (lc_fold c)"

section \<open>Well-formedness\<close>

definition LINT_CODES :: "warning_code set" where
  "LINT_CODES = {NON_CANONICAL_ROLE, REVIEW_EXIT_CONDITIONS_INCOMPLETE, REVIEW_SCOPE_SECTION_MISSING, EXPECTED_REVISION}"

text \<open>Fold warnings carry no detail, lint warnings do; the review gate only names fold warnings.\<close>

definition diag_ok :: "fold_cursor \<Rightarrow> bool" where
  "diag_ok c \<longleftrightarrow> cursor_ok c \<and>
     (\<forall>w\<in>set (fc_warnings c). w_detail w = None \<longleftrightarrow> w_code w \<notin> LINT_CODES) \<and>
     (\<forall>w\<in>set (fc_gate c). w_detail w = None)"

definition lint_ok :: "lint_state \<Rightarrow> bool" where
  "lint_ok st \<longleftrightarrow> diag_ok (ls_next st) \<and> (\<forall>i\<in>set (ls_issues st). iss_code i \<in> LINT_CODES)"

lemma lint_okI: "diag_ok (ls_next st) \<Longrightarrow> (\<And>i. i \<in> set (ls_issues st) \<Longrightarrow> iss_code i \<in> LINT_CODES) \<Longrightarrow> lint_ok st"
  by (simp add: lint_ok_def)

lemma diag_ok_gate: "diag_ok c \<Longrightarrow> w \<in> set (fc_warnings c) \<Longrightarrow> isGateWarning (fc_gate c) w \<Longrightarrow> w_detail w = None"
proof -
  assume ok: "diag_ok c" and w: "w \<in> set (fc_warnings c)" "isGateWarning (fc_gate c) w"
  then have "w \<in> set (filter (isGateWarning (fc_gate c)) (fc_warnings c))" by simp
  then have "w \<in> set (fc_gate c)"
    using ok unfolding diag_ok_def cursor_ok_def by metis
  with ok show ?thesis by (simp add: diag_ok_def)
qed

lemma diag_ok_filter:
  assumes "diag_ok c" and "\<And>w. w \<in> set (fc_warnings c) \<Longrightarrow> w_detail w = None \<Longrightarrow> P w"
  shows "diag_ok (c\<lparr>fc_warnings := filter P (fc_warnings c)\<rparr>)"
proof -
  have "filter (isGateWarning (fc_gate c)) (filter P (fc_warnings c)) = filter (isGateWarning (fc_gate c)) (fc_warnings c)"
    using assms diag_ok_gate [OF assms(1)] by (auto simp: filter_filter intro!: filter_cong)
  then have "cursor_ok (c\<lparr>fc_warnings := filter P (fc_warnings c), fc_gate := fc_gate c\<rparr>)"
    using assms(1) by (intro cursor_ok_drop) (simp_all add: diag_ok_def cursor_ok_def)
  with assms(1) show ?thesis by (simp add: diag_ok_def)
qed

lemma diag_ok_push_lint:
  assumes "diag_ok c" and "code \<in> LINT_CODES"
  shows "diag_ok (push_lint_warning c v code d)"
proof -
  let ?w = "\<lparr>w_ref = fc_heap c, w_version = v, w_code = code, w_detail = Some d\<rparr>"
  have "\<not> isGateWarning (fc_gate c) ?w"
    using assms(1) by (intro push_fresh) (simp_all add: diag_ok_def)
  with assms show ?thesis
    by (auto simp: diag_ok_def cursor_ok_def push_lint_warning_def less_Suc_eq)
qed

lemma diag_ok_clear:
  assumes "diag_ok c"
  shows "diag_ok (clear_warnings c r k)"
proof -
  have "cursor_ok (clear_warnings c r k)"
    using assms by (intro cursor_ok_clear) (simp add: diag_ok_def)
  with assms show ?thesis
    by (auto simp: diag_ok_def clear_warnings_def)
qed

lemma diag_ok_push:
  assumes "diag_ok c" and "k \<notin> LINT_CODES"
  shows "diag_ok (fst (push_warning c v k))"
proof -
  have "cursor_ok (fst (push_warning c v k))"
    using assms by (intro cursor_ok_push) (simp add: diag_ok_def)
  with assms show ?thesis by (auto simp: diag_ok_def push_warning_def Let_def)
qed

lemma diag_ok_structural: "diag_ok c \<Longrightarrow> diag_ok (structural_check c r)"
  by (simp add: structural_check_def diag_ok_push LINT_CODES_def)

lemma diag_ok_frame: "diag_ok (c\<lparr>fc_prevVersion := v, fc_status := s\<rparr>) \<longleftrightarrow> diag_ok c"
  by (simp add: diag_ok_def cursor_ok_frame)

lemma diag_ok_record_warning:
  assumes "diag_ok c" and "k \<notin> LINT_CODES"
  shows "diag_ok (record_warning c r k)"
proof -
  have "cursor_ok (record_warning c r k)"
    using assms by (intro cursor_ok_record_warning) (simp add: diag_ok_def)
  with assms show ?thesis by (auto simp: diag_ok_def record_warning_def push_warning_def Let_def)
qed

lemma fold_record_codes: "snd (fold_record s r f) = Some k \<Longrightarrow> k \<notin> LINT_CODES"
  by (auto simp: fold_record_def fold_review_def fold_decision_def LINT_CODES_def Let_def
      split: if_splits option.splits)

lemma diag_ok_step [hub_inv]: "diag_ok c \<Longrightarrow> diag_ok (fold_step flow c r)"
  unfolding fold_step_def Let_def
  using fold_record_codes [of "fc_status c" r flow]
  by (auto split: prod.splits option.splits
      intro!: diag_ok_record_warning diag_ok_structural diag_ok_clear simp: diag_ok_frame)

lemma diag_ok_run: "diag_ok c \<Longrightarrow> diag_ok (foldOntoCursor c rs flow)"
  by (rule wf_fold.run_invariant) (auto intro: diag_ok_step)

section \<open>What the fold alone contributes\<close>

text \<open>
  The part of a cursor the workflow fold owns: status, last version, and its own warnings with
  their gate membership.  \<open>view_step\<close> is the fold on that view.
\<close>

type_synonym fold_view = "status \<times> nat \<times> (nat \<times> warning_code \<times> bool) list"

definition fold_view :: "fold_cursor \<Rightarrow> fold_view" where
  "fold_view c = (fc_status c, fc_prevVersion c,
     map (\<lambda>w. (w_version w, w_code w, isGateWarning (fc_gate c) w))
       (filter (\<lambda>w. w_detail w = None) (fc_warnings c)))"

definition view_clear :: "fold_view \<Rightarrow> context_record \<Rightarrow> warning_code option \<Rightarrow> fold_view" where
  "view_clear v r k = (case v of (s, p, wl) \<Rightarrow>
     (s, p, if is_close r then []
            else if rec_content_type r = ''decision'' \<and> s = Pending_approval \<and> k = None
            then filter (\<lambda>(_, _, g). \<not> g) wl
            else if is_ack_note r then filter (\<lambda>(_, _, g). g) wl else wl))"

definition view_push :: "fold_view \<Rightarrow> nat \<Rightarrow> warning_code \<Rightarrow> bool \<Rightarrow> fold_view" where
  "view_push v n k g = (case v of (s, p, wl) \<Rightarrow> (s, p, wl @ [(n, k, g)]))"

definition view_step :: "flow \<Rightarrow> fold_view \<Rightarrow> context_record \<Rightarrow> fold_view" where
  "view_step flow v r =
     (let (status', code) = fold_record (fst v) r flow;
          (s, p, wl) = view_clear v r code;
          v2 = (if rec_version r = p then view_push (s, p, wl) (rec_version r) VERSION_DUPLICATE False
                else if rec_version r \<noteq> p + 1 then view_push (s, p, wl) (rec_version r) VERSION_GAP False
                else (s, p, wl));
          v3 = (status', rec_version r, snd (snd v2))
      in case code of None \<Rightarrow> v3
         | Some k \<Rightarrow> view_push v3 (rec_version r) k
             (rec_content_type r = ''review'' \<and> k = OUT_OF_TABLE \<and> legal_verdict r))"

lemma view_clear_refines:
  "fold_view (clear_warnings c r k) = view_clear (fold_view c) r k"
  by (auto simp: fold_view_def view_clear_def clear_warnings_def filter_map o_def conj_commute
      intro!: map_cong filter_cong)

lemma view_push_refines:
  assumes "cursor_ok c"
  shows "fold_view (fst (push_warning c v k)) = view_push (fold_view c) v k False"
  using push_fresh [OF assms, of "\<lparr>w_ref = fc_heap c, w_version = v, w_code = k, w_detail = None\<rparr>"]
  by (simp add: fold_view_def view_push_def push_warning_def Let_def)

lemma view_record_warning_refines:
  assumes "cursor_ok c"
  shows "fold_view (record_warning c r k) = view_push (fold_view c) (rec_version r) k
    (rec_content_type r = ''review'' \<and> k = OUT_OF_TABLE \<and> legal_verdict r)"
proof (cases "rec_content_type r = ''review'' \<and> k = OUT_OF_TABLE \<and> legal_verdict r")
  case True
  let ?w = "\<lparr>w_ref = fc_heap c, w_version = rec_version r, w_code = k, w_detail = None\<rparr>"
  have "isGateWarning (fc_gate c @ [?w]) w \<longleftrightarrow> isGateWarning (fc_gate c) w" if "w \<in> set (fc_warnings c)" for w
    using assms that by (auto simp: isGateWarning_def cursor_ok_def)
  with True show ?thesis
    by (auto simp: record_warning_def push_warning_def fold_view_def view_push_def Let_def isGateWarning_def)
next
  case False
  then show ?thesis
    using view_push_refines [OF assms, of "rec_version r" k]
    by (auto simp: record_warning_def split: prod.splits)
qed

lemma fold_view_frame:
  "fold_view (c\<lparr>fc_prevVersion := v, fc_status := s\<rparr>) = (s, v, snd (snd (fold_view c)))"
  by (simp add: fold_view_def)

lemma view_step_refines:
  assumes "cursor_ok c"
  shows "fold_view (fold_step flow c r) = view_step flow (fold_view c) r"
proof -
  obtain s' k where fr: "fold_record (fc_status c) r flow = (s', k)" by (cases "fold_record (fc_status c) r flow")
  let ?c1 = "clear_warnings c r k"
  have ok1: "cursor_ok ?c1" using assms by (rule cursor_ok_clear)
  obtain s p wl where v1: "view_clear (fold_view c) r k = (s, p, wl)" by (metis prod_cases3)
  have p: "p = fc_prevVersion ?c1"
    using v1 by (simp add: view_clear_def fold_view_def)
  have c2: "fold_view (structural_check ?c1 r) =
      (if rec_version r = p then view_push (s, p, wl) (rec_version r) VERSION_DUPLICATE False
       else if rec_version r \<noteq> p + 1 then view_push (s, p, wl) (rec_version r) VERSION_GAP False
       else (s, p, wl))"
    using view_clear_refines [of c r k] view_push_refines [OF ok1] v1 p by (simp add: structural_check_def)
  have fst: "fst (fold_view c) = fc_status c" by (simp add: fold_view_def)
  have "cursor_ok ((structural_check ?c1 r)\<lparr>fc_prevVersion := rec_version r, fc_status := s'\<rparr>)"
    using ok1 by (simp add: cursor_ok_frame cursor_ok_structural)
  note rw = view_record_warning_refines [OF this, of r]
  show ?thesis
    using v1 c2 rw by (cases k) (simp_all add: fold_step_def view_step_def fr fst Let_def fold_view_frame)
qed

section \<open>The overlay adds diagnostics only\<close>

text \<open>Every lint operation keeps well-formedness and leaves the view of the fold alone.\<close>

definition overlay :: "(lint_state \<Rightarrow> lint_state) \<Rightarrow> bool" where
  "overlay op \<longleftrightarrow> (\<forall>st. lint_ok st \<longrightarrow> lint_ok (op st) \<and> fold_view (ls_next (op st)) = fold_view (ls_next st))"

lemma overlayD: "overlay op \<Longrightarrow> lint_ok st \<Longrightarrow> lint_ok (op st) \<and> fold_view (ls_next (op st)) = fold_view (ls_next st)"
  by (simp add: overlay_def)

lemma overlay_id: "overlay (\<lambda>st. st)"
  by (simp add: overlay_def)

lemma overlay_comp: "overlay f \<Longrightarrow> overlay g \<Longrightarrow> overlay (\<lambda>st. g (f st))"
  by (simp add: overlay_def)

lemma overlay_cond: "overlay f \<Longrightarrow> overlay g \<Longrightarrow> overlay (\<lambda>st. if P st then f st else g st)"
  by (simp add: overlay_def)

lemma overlay_local: "(\<And>st. overlay (f st)) \<Longrightarrow> overlay (\<lambda>st. f st st)"
  by (simp add: overlay_def)

lemma clear_issue_overlay:
  assumes "iss_code issue \<in> LINT_CODES"
  shows "overlay (clear_issue issue)"
  unfolding overlay_def
proof (intro allI impI conjI)
  fix st assume ok: "lint_ok st"
  let ?P = "\<lambda>w. \<not> (w_code w = iss_code issue \<and> w_version w = iss_last issue)"
  have keep: "?P w" if "w \<in> set (fc_warnings (ls_next st))" "w_detail w = None" for w
    using ok that assms by (auto simp: lint_ok_def diag_ok_def)
  show "lint_ok (clear_issue issue st)"
    using ok keep by (auto simp: clear_issue_def lint_ok_def intro!: diag_ok_filter)
  show "fold_view (ls_next (clear_issue issue st)) = fold_view (ls_next st)"
    using keep by (auto simp: clear_issue_def fold_view_def intro!: arg_cong [where f = "map _"] filter_cong)
qed

lemma find_issue_code: "find_issue canonical code st = Some i \<Longrightarrow> iss_code i = code \<and> i \<in> set (ls_issues st)"
  by (auto simp: find_issue_def find_Some_iff)

lemma clear_found_ok: "(\<And>i. x = Some i \<Longrightarrow> iss_code i \<in> LINT_CODES) \<Longrightarrow> overlay (clear_found x)"
  by (cases x) (simp_all add: clear_found_def [abs_def] overlay_id clear_issue_overlay)

lemma clear_found_overlay:
  "code \<in> LINT_CODES \<Longrightarrow> overlay (\<lambda>st. clear_found (find_issue canonical code st) st)"
  by (rule overlay_local [of "\<lambda>st. clear_found (find_issue canonical code st)"], rule clear_found_ok)
    (auto dest: find_issue_code)

lemma warn_issue_overlay:
  assumes "code \<in> LINT_CODES"
  shows "overlay (warn_issue r canonical code field sect fixes required)"
  unfolding overlay_def
proof (intro allI impI)
  fix st assume ok: "lint_ok st"
  let ?st1 = "clear_found (find_issue canonical code st) st"
  have 1: "lint_ok ?st1" "fold_view (ls_next ?st1) = fold_view (ls_next st)"
    using clear_found_overlay [OF assms, of canonical] ok by (simp_all add: overlay_def)
  have v: "fold_view (push_lint_warning c v code d) = fold_view c" for c v d
    by (simp add: fold_view_def push_lint_warning_def)
  show "lint_ok (warn_issue r canonical code field sect fixes required st) \<and>
      fold_view (ls_next (warn_issue r canonical code field sect fixes required st)) = fold_view (ls_next st)"
    using 1 assms by (auto simp: warn_issue_def Let_def lint_ok_def v intro: diag_ok_push_lint)
qed

lemma clear_run_overlay:
  "list_all (\<lambda>i. iss_code i \<in> LINT_CODES) is \<Longrightarrow> overlay (\<lambda>st. foldl (\<lambda>st i. clear_issue i st) st is)"
proof (induction "is")
  case Nil
  then show ?case by (simp add: overlay_id)
next
  case (Cons i "is")
  then show ?case
    using overlay_comp [OF clear_issue_overlay [of i], of "\<lambda>st. foldl (\<lambda>st i. clear_issue i st) st is"] by simp
qed

lemma lint_role_overlay: "overlay (lint_role r canonical targets)"
  unfolding lint_role_def
  by (intro overlay_cond warn_issue_overlay clear_run_overlay) (auto simp: LINT_CODES_def list_all_iff)

lemma lint_review_overlay: "code \<in> LINT_CODES \<Longrightarrow> overlay (lint_review baseline r canonical targets code)"
  unfolding lint_review_def by (intro overlay_cond overlay_id warn_issue_overlay clear_found_overlay)

lemma pending_overlay: "overlay (\<lambda>st. st\<lparr>ls_pending := p\<rparr>)"
  by (simp add: overlay_def lint_ok_def)

lemma track_fail_design_overlay: "overlay (track_fail_design flow baseline r before)"
  unfolding track_fail_design_def by (intro overlay_cond overlay_id pending_overlay)

lemma lint_revision_overlay: "overlay (lint_revision r canonical before)"
proof -
  have e: "EXPECTED_REVISION \<in> LINT_CODES" by (simp add: LINT_CODES_def)
  let ?i = "\<lambda>st. find_issue canonical EXPECTED_REVISION st"
  have cl: "overlay (clear_found (?i st))" for st
    by (rule clear_found_ok) (auto dest!: find_issue_code intro: e)
  have "overlay (\<lambda>st. lint_revision r canonical before st)"
    unfolding lint_revision_def Let_def
    by (intro overlay_cond overlay_id overlay_local [of "\<lambda>st. clear_found (?i st)"]
        overlay_local [of "\<lambda>st x. (clear_found (?i st) x)\<lparr>ls_pending := None\<rparr>"]
        overlay_local [of "\<lambda>st. warn_issue r canonical EXPECTED_REVISION ''content_type'' None
            (revision_fixes canonical (the (case ls_pending st of Some v \<Rightarrow> Some v
              | None \<Rightarrow> (case ?i st of None \<Rightarrow> None | Some i \<Rightarrow> iss_required i))))
            (case ls_pending st of Some v \<Rightarrow> Some v | None \<Rightarrow> (case ?i st of None \<Rightarrow> None | Some i \<Rightarrow> iss_required i))"]
        overlay_comp [OF cl pending_overlay] cl warn_issue_overlay e)
  then show ?thesis by simp
qed

lemma lint_record_overlay: "overlay (lint_record baseline flow r before)"
proof -
  let ?c = "lower_case (rec_role r)"
  let ?f1 = "\<lambda>st :: lint_state. if is_ack_note r \<or> is_close r then st\<lparr>ls_issues := []\<rparr> else st"
  have "overlay (\<lambda>st :: lint_state. st\<lparr>ls_issues := []\<rparr>)"
    by (simp add: overlay_def lint_ok_def)
  then have "overlay ?f1" using overlay_id by (rule overlay_cond)
  then have "overlay (\<lambda>st. lint_revision r ?c before (track_fail_design flow baseline r before
      (lint_review baseline r ?c ts REVIEW_SCOPE_SECTION_MISSING
        (lint_review baseline r ?c ts REVIEW_EXIT_CONDITIONS_INCOMPLETE (lint_role r ?c ts (?f1 st))))))" for ts
    by (intro overlay_comp [OF _ lint_revision_overlay] overlay_comp [OF _ track_fail_design_overlay]
        overlay_comp [OF _ lint_review_overlay] overlay_comp [OF _ lint_role_overlay])
      (simp_all add: LINT_CODES_def)
  from overlay_local [OF this, of "\<lambda>st. correction_targets r ?c (ls_issues (?f1 st))"]
  show ?thesis by (simp add: lint_record_def [abs_def] Let_def)
qed

definition lint_cursor_ok :: "lint_cursor \<Rightarrow> bool" where
  "lint_cursor_ok c \<longleftrightarrow> diag_ok (lc_fold c) \<and> (\<forall>i\<in>set (lc_issues c). iss_code i \<in> LINT_CODES)"

lemma lint_initial_ok: "lint_cursor_ok (lint_initial flow)"
  by (simp add: lint_cursor_ok_def lint_initial_def diag_ok_def cursor_ok_initial)
    (simp add: initialCursor_def)

lemma lint_step_refines:
  assumes "lint_cursor_ok c"
  shows "lint_cursor_ok (lint_step parses flow baseline c r) \<and>
    fold_view (lc_fold (lint_step parses flow baseline c r)) = view_step flow (fold_view (lc_fold c)) r"
proof -
  let ?st = "\<lparr>ls_next = foldOntoCursor (lc_fold c) [r] flow, ls_issues = lc_issues c,
      ls_pending = lc_pendingFailDesign c\<rparr>"
  have "lint_ok ?st"
    using assms by (simp add: lint_ok_def lint_cursor_ok_def diag_ok_run)
  note ov = overlayD [OF lint_record_overlay [of baseline flow r "fc_status (lc_fold c)"] this]
  have "cursor_ok (lc_fold c)" using assms by (simp add: lint_cursor_ok_def diag_ok_def)
  with ov show ?thesis
    by (simp add: lint_step_def Let_def lint_cursor_ok_def lint_ok_def wf_fold.run_single view_step_refines)
qed

lemma lint_run_refines:
  "lint_cursor_ok c \<Longrightarrow> lint_cursor_ok (foldl (lint_step parses flow baseline) c rs) \<and>
    fold_view (lc_fold (foldl (lint_step parses flow baseline) c rs)) =
      foldl (view_step flow) (fold_view (lc_fold c)) rs"
  by (induction rs arbitrary: c) (simp_all add: lint_step_refines)

lemma fold_run_refines:
  "cursor_ok c \<Longrightarrow> fold_view (foldl (fold_step flow) c rs) = foldl (view_step flow) (fold_view c) rs"
  by (induction rs arbitrary: c) (simp_all add: view_step_refines cursor_ok_step)

section \<open>The overlay as a version-ordered fold\<close>

lemmas lint_op_defs = clear_issue_def push_lint_warning_def warn_issue_def clear_found_def

lemma clear_found_frame [simp]:
  "fc_prevVersion (ls_next (clear_found x st)) = fc_prevVersion (ls_next st)"
  "fc_status (ls_next (clear_found x st)) = fc_status (ls_next st)"
  by (simp_all add: lint_op_defs split: option.split)

lemma warn_issue_frame [simp]:
  "fc_prevVersion (ls_next (warn_issue r ca co f se fi re st)) = fc_prevVersion (ls_next st)"
  "fc_status (ls_next (warn_issue r ca co f se fi re st)) = fc_status (ls_next st)"
  by (simp_all add: warn_issue_def push_lint_warning_def Let_def)

lemma clear_run_frame [simp]:
  "fc_prevVersion (ls_next (foldl (\<lambda>st i. clear_issue i st) st is)) = fc_prevVersion (ls_next st)"
  "fc_status (ls_next (foldl (\<lambda>st i. clear_issue i st) st is)) = fc_status (ls_next st)"
  by (induction "is" arbitrary: st) (simp_all add: clear_issue_def)

lemma lint_role_frame [simp]:
  "fc_prevVersion (ls_next (lint_role r ca ts st)) = fc_prevVersion (ls_next st)"
  "fc_status (ls_next (lint_role r ca ts st)) = fc_status (ls_next st)"
  by (simp_all add: lint_role_def)

lemma lint_review_frame [simp]:
  "fc_prevVersion (ls_next (lint_review b r ca ts co st)) = fc_prevVersion (ls_next st)"
  "fc_status (ls_next (lint_review b r ca ts co st)) = fc_status (ls_next st)"
  by (simp_all add: lint_review_def)

lemma track_fail_design_frame [simp]:
  "ls_next (track_fail_design flow b r before st) = ls_next st"
  "ls_issues (track_fail_design flow b r before st) = ls_issues st"
  by (simp_all add: track_fail_design_def)

lemma lint_revision_frame [simp]:
  "fc_prevVersion (ls_next (lint_revision r ca before st)) = fc_prevVersion (ls_next st)"
  "fc_status (ls_next (lint_revision r ca before st)) = fc_status (ls_next st)"
  by (simp_all add: lint_revision_def Let_def)

lemma lint_record_frame [simp]:
  "fc_prevVersion (ls_next (lint_record baseline flow r before st)) = fc_prevVersion (ls_next st)"
  "fc_status (ls_next (lint_record baseline flow r before st)) = fc_status (ls_next st)"
  by (simp_all add: lint_record_def Let_def)

lemma lint_step_frame:
  "fc_prevVersion (lc_fold (lint_step parses flow baseline c r)) = rec_version r"
  "fc_status (lc_fold (lint_step parses flow baseline c r)) = fst (fold_record (fc_status (lc_fold c)) r flow)"
  by (simp_all add: lint_step_def Let_def wf_fold.run_single fold_step_prevVersion fold_step_status)

interpretation lint_fold: version_fold rec_version "lint_step parses flow (fst (exitConditions description))"
    "\<lambda>c rs. foldWithLint parses c rs flow description" "\<lambda>c. fc_prevVersion (lc_fold c)"
  for parses flow description
  by unfold_locales (simp_all add: foldWithLint_def Let_def lint_step_frame)

section \<open>Issues\<close>

text \<open>At most one open issue per lint and role; \<open>warn\<close> replaces, \<open>clear\<close> removes.\<close>

definition issue_keys :: "lint_state \<Rightarrow> (warning_code \<times> string) list" where
  "issue_keys st = map (\<lambda>i. (iss_code i, iss_role i)) (ls_issues st)"

definition issues_distinct :: "lint_state \<Rightarrow> bool" where
  "issues_distinct st \<longleftrightarrow> distinct (issue_keys st)"

lemma find_issue_None: "find_issue ca co st = None \<longleftrightarrow> (co, ca) \<notin> set (issue_keys st)"
  by (auto simp: find_issue_def issue_keys_def find_None_iff)

lemma distinct_keys_filter: "distinct (map f xs) \<Longrightarrow> distinct (map f (filter P xs))"
  by (induction xs) auto

lemma clear_issue_distinct: "issues_distinct st \<Longrightarrow> issues_distinct (clear_issue i st)"
  by (simp add: issues_distinct_def issue_keys_def clear_issue_def distinct_keys_filter)

lemma clear_found_removes:
  assumes "issues_distinct st"
  shows "find_issue ca co (clear_found (find_issue ca co st) st) = None"
proof (cases "find_issue ca co st")
  case None
  then show ?thesis by (simp add: clear_found_def)
next
  case (Some i)
  have "j = i" if "j \<in> set (ls_issues st)" "iss_code j = co" "iss_role j = ca" for j
  proof -
    have "i \<in> set (ls_issues st)" "iss_code i = co" "iss_role i = ca"
      using Some by (auto simp: find_issue_def find_Some_iff)
    with that assms show ?thesis
      unfolding issues_distinct_def issue_keys_def distinct_map by (auto dest: inj_onD)
  qed
  with Some show ?thesis
    by (auto simp: clear_found_def clear_issue_def find_issue_None issue_keys_def)
qed

lemma clear_found_distinct: "issues_distinct st \<Longrightarrow> issues_distinct (clear_found x st)"
  by (cases x) (simp_all add: clear_found_def clear_issue_distinct)

lemma clear_found_other:
  "(co', ca') \<noteq> (co, ca) \<Longrightarrow> find_issue ca' co' (clear_found (find_issue ca co st) st) = find_issue ca' co' st"
proof (cases "find_issue ca co st")
  case (Some i)
  assume ne: "(co', ca') \<noteq> (co, ca)"
  have i: "iss_code i = co" "iss_role i = ca" using Some by (auto simp: find_issue_def find_Some_iff)
  have "find P (filter (\<lambda>c. c \<noteq> i) xs) = find P xs" if "\<not> P i" for P xs
    using that by (induction xs) auto
  with Some i ne show ?thesis by (auto simp: clear_found_def clear_issue_def find_issue_def)
qed (simp add: clear_found_def)

lemma warn_issue_distinct:
  "issues_distinct st \<Longrightarrow> issues_distinct (warn_issue r ca co f se fi re st)"
  using clear_found_removes [of st ca co] clear_found_distinct [of st "find_issue ca co st"]
  by (simp add: warn_issue_def Let_def issues_distinct_def issue_keys_def find_issue_None)

lemma find_append: "find P (xs @ ys) = (case find P xs of None \<Rightarrow> find P ys | Some x \<Rightarrow> Some x)"
  by (induction xs) auto

lemma warn_issue_finds:
  assumes "issues_distinct st"
  shows "find_issue ca co (warn_issue r ca co f se fi re st) =
    Some \<lparr>iss_code = co, iss_role = ca,
      iss_root = (case find_issue ca co st of None \<Rightarrow> rec_version r | Some i \<Rightarrow> iss_root i),
      iss_last = rec_version r,
      iss_round = (case find_issue ca co st of None \<Rightarrow> 0 | Some i \<Rightarrow> iss_round i) + 1,
      iss_required = re\<rparr>"
  using clear_found_removes [OF assms, of ca co]
  by (simp add: warn_issue_def Let_def find_issue_def find_append)

lemma warn_issue_other:
  "(co', ca') \<noteq> (co, ca) \<Longrightarrow> find_issue ca' co' (warn_issue r ca co f se fi re st) = find_issue ca' co' st"
  using clear_found_other [of co' ca' co ca st]
  by (auto simp: warn_issue_def Let_def find_issue_def find_append split: option.split)

lemma find_issue_cong: "ls_issues st = ls_issues st' \<Longrightarrow> find_issue ca co st = find_issue ca co st'"
  by (simp add: find_issue_def)

lemma lint_revision_find:
  assumes "co \<noteq> EXPECTED_REVISION"
  shows "find_issue ca co (lint_revision r ca before st) = find_issue ca co st"
proof -
  have "find_issue ca co (st'\<lparr>ls_pending := p\<rparr>) = find_issue ca co st'" for st' p
    by (simp add: find_issue_def)
  with assms show ?thesis
    by (simp add: lint_revision_def Let_def clear_found_other warn_issue_other)
qed

lemma lint_role_find:
  assumes "co \<noteq> NON_CANONICAL_ROLE" and "issues_distinct st"
  shows "find_issue ca co (lint_role r ca [] st) = find_issue ca co st \<and> issues_distinct (lint_role r ca [] st)"
  using assms by (simp add: lint_role_def warn_issue_other warn_issue_distinct)

lemma lint_review_find:
  assumes "issues_distinct st" and "rec_content_type r = ''review''" and "baseline \<noteq> []"
  shows "issues_distinct (lint_review baseline r ca ts co st) \<and>
    (\<forall>co'. co' \<noteq> co \<longrightarrow> find_issue ca co' (lint_review baseline r ca ts co st) = find_issue ca co' st) \<and>
    find_issue ca co (lint_review baseline r ca ts co st) =
      (if review_incomplete co (length baseline) (body_of r)
       then Some \<lparr>iss_code = co, iss_role = ca,
         iss_root = (case find_issue ca co st of None \<Rightarrow> rec_version r | Some i \<Rightarrow> iss_root i),
         iss_last = rec_version r,
         iss_round = (case find_issue ca co st of None \<Rightarrow> 0 | Some i \<Rightarrow> iss_round i) + 1,
         iss_required = None\<rparr>
       else None)"
  using assms
  by (simp add: lint_review_def warn_issue_finds warn_issue_distinct warn_issue_other clear_found_distinct
      clear_found_other clear_found_removes)

lemma lint_record_review:
  assumes "rec_content_type r = ''review''" and "baseline \<noteq> []" and "issues_distinct st"
    and "code = REVIEW_EXIT_CONDITIONS_INCOMPLETE \<or> code = REVIEW_SCOPE_SECTION_MISSING"
    and "ca = lower_case (rec_role r)"
  shows "find_issue ca code (lint_record baseline flow r before st) =
      (if review_incomplete code (length baseline) (body_of r)
       then Some \<lparr>iss_code = code, iss_role = ca,
         iss_root = (case find_issue ca code st of None \<Rightarrow> rec_version r | Some i \<Rightarrow> iss_root i),
         iss_last = rec_version r,
         iss_round = (case find_issue ca code st of None \<Rightarrow> 0 | Some i \<Rightarrow> iss_round i) + 1,
         iss_required = None\<rparr>
       else None)"
proof -
  let ?st2 = "lint_role r ca [] st"
  let ?st3 = "lint_review baseline r ca [] REVIEW_EXIT_CONDITIONS_INCOMPLETE ?st2"
  let ?st4 = "lint_review baseline r ca [] REVIEW_SCOPE_SECTION_MISSING ?st3"
  have ne: "\<not> is_ack_note r" "\<not> is_close r" "correction_targets r ca (ls_issues st) = []"
    using assms(1) by (simp_all add: is_ack_note_def is_close_def correction_targets_def)
  have code: "code \<noteq> NON_CANONICAL_ROLE" "code \<noteq> EXPECTED_REVISION"
    using assms(4) by auto
  have 2: "find_issue ca code ?st2 = find_issue ca code st" "issues_distinct ?st2"
    using lint_role_find [OF code(1) assms(3)] by auto
  note 3 = lint_review_find [OF 2(2) assms(1,2), of ca "[]" REVIEW_EXIT_CONDITIONS_INCOMPLETE]
  note 4 = lint_review_find [OF conjunct1 [OF 3] assms(1,2), of ca "[]" REVIEW_SCOPE_SECTION_MISSING]
  have "find_issue ca code (lint_record baseline flow r before st) = find_issue ca code ?st4"
    using ne assms(5) code(2) find_issue_cong [OF track_fail_design_frame(2)]
    by (simp add: lint_record_def Let_def lint_revision_find)
  then show ?thesis
    using assms(4) 2(1) 3 4 by auto
qed

section \<open>Properties\<close>

text \<open>C31. Diagnostics never decide: whatever the description and the lints say, the lint fold has the
  status, the last version and the workflow warnings (with their gate membership) of the plain fold.\<close>

theorem lint_overlay_transparent:
  "fold_view (lc_fold (foldWithLint parses (lint_initial flow) records flow description)) =
   fold_view (foldOntoCursor (initialCursor flow) records flow)"
proof -
  have "fold_view (lc_fold (foldl (lint_step parses flow b) (lint_initial flow) rs)) =
      fold_view (foldl (fold_step flow) (initialCursor flow) rs)" for b rs
    using lint_run_refines [OF lint_initial_ok, of parses flow b flow rs]
      fold_run_refines [OF cursor_ok_initial, of flow flow rs]
    by (simp add: lint_initial_def)
  then show ?thesis
    by (simp add: foldWithLint_def foldOntoCursor_def Let_def)
qed

text \<open>C32. The review lint is exact: after a review of a task with exit conditions, the reviewer's
  role has an open issue for the conditions exactly when fewer of them are answered than exist, and
  for the scope section exactly when it is missing or empty; a repeated failure keeps its root and
  counts one round more, a complete review closes the issue.\<close>

theorem review_lint_exact:
  assumes "rec_content_type r = ''review''" and "baseline \<noteq> []" and "issues_distinct st"
    and "code = REVIEW_EXIT_CONDITIONS_INCOMPLETE \<or> code = REVIEW_SCOPE_SECTION_MISSING"
  shows "find_issue (lower_case (rec_role r)) code (lint_record baseline flow r before st) =
      (if (if code = REVIEW_EXIT_CONDITIONS_INCOMPLETE
           then card (answered (length baseline) (body_of r)) < length baseline
           else \<not> scope_stated (body_of r))
       then Some \<lparr>iss_code = code, iss_role = lower_case (rec_role r),
         iss_root = (case find_issue (lower_case (rec_role r)) code st of None \<Rightarrow> rec_version r | Some i \<Rightarrow> iss_root i),
         iss_last = rec_version r,
         iss_round = (case find_issue (lower_case (rec_role r)) code st of None \<Rightarrow> 0 | Some i \<Rightarrow> iss_round i) + 1,
         iss_required = None\<rparr>
       else None)"
  using lint_record_review [OF assms refl] unfolding review_incomplete_def .

text \<open>An empty review of a task with one exit condition, twice.\<close>

definition empty_review :: "nat \<Rightarrow> context_record" where
  "empty_review v = sample_record v ''reviewer'' ''review'' [(''verdict'', JStr ''pass''), (''body'', JStr ''fine'')]"

definition one_condition :: "list_item list" where
  "one_condition = [\<lparr>li_number = Some 1, li_text = utf8 ''it works''\<rparr>]"

definition reviewed_state :: lint_state where
  "reviewed_state = \<lparr>ls_next = initialCursor Full, ls_issues =
     [\<lparr>iss_code = REVIEW_SCOPE_SECTION_MISSING, iss_role = ''reviewer'', iss_root = 3, iss_last = 3,
       iss_round = 1, iss_required = None\<rparr>], ls_pending = None\<rparr>"

lemma empty_review_scope: "\<not> scope_stated (body_of (empty_review 4))"
  by (simp add: scope_stated_def sections_def proseLines_def body_of_def empty_review_def sample_record_def
      section_step_def text_eval quoted_or_code_def starts_def)

theorem review_lint_exact_witness:
  "find_issue ''reviewer'' REVIEW_SCOPE_SECTION_MISSING
     (lint_record one_condition Full (empty_review 4) Reviewing reviewed_state) =
   Some \<lparr>iss_code = REVIEW_SCOPE_SECTION_MISSING, iss_role = ''reviewer'', iss_root = 3, iss_last = 4,
     iss_round = 2, iss_required = None\<rparr>"
proof -
  have role: "lower_case (rec_role (empty_review 4)) = ''reviewer''"
    by (simp add: empty_review_def sample_record_def lower_case_def to_lower_def)
  have "rec_content_type (empty_review 4) = ''review''" "one_condition \<noteq> []" "issues_distinct reviewed_state"
    by (simp_all add: empty_review_def sample_record_def one_condition_def issues_distinct_def issue_keys_def
        reviewed_state_def)
  from review_lint_exact [OF this, of REVIEW_SCOPE_SECTION_MISSING Full Reviewing] empty_review_scope role
  show ?thesis
    by (simp add: find_issue_def reviewed_state_def) (simp add: empty_review_def sample_record_def)
qed

end
