(* ===== verification/Record_IO.thy ===== *)
theory Record_IO
  imports Artifacts
begin

text \<open>
  Task directories and the file operations of \<open>src/core/hub/store/record-io.ts\<close>, with the digest
  chain of \<open>recoveredRecordFor\<close> (\<open>src/core/hub/store/recovery.ts\<close>).

  A file is a text \<open>JSON.parse\<close> accepts (\<open>Doc\<close>: its value, and a number that tells apart texts of
  the same value; 0 is what the program itself writes), a text it rejects, or a file that cannot be
  read.  \<open>recovery.jsonl\<close> is a list of lines and whether the last one lacks its newline.  The
  operations are the atomic ones the code builds from temporary files, \<open>rename\<close> and \<open>link\<close>;
  \<open>sha256\<close> is a parameter.
\<close>

datatype bytes = Doc json nat | Junk string | Unreadable

text \<open>A thrown \<open>StoreError\<close> by its code, or any other exception.\<close>

datatype failure = Coded error_code | Thrown

definition coded :: "error_code + 'a \<Rightarrow> failure + 'a" where
  "coded r = (case r of Inl e \<Rightarrow> Inl (Coded e) | Inr x \<Rightarrow> Inr x)"

datatype manifest = Lines "bytes list" bool | Unreadable_manifest

record task_dir =
  td_meta :: "bytes option"
  td_files :: "(string \<times> bytes) list"
  td_manifest :: "manifest option"

definition empty_dir :: task_dir where
  "empty_dir = \<lparr>td_meta = None, td_files = [], td_manifest = None\<rparr>"

definition parse_json :: "bytes \<Rightarrow> json option" where
  "parse_json b = (case b of Doc j _ \<Rightarrow> Some j | Junk _ \<Rightarrow> None | Unreadable \<Rightarrow> None)"

section \<open>Metadata\<close>

definition readMeta :: "task_dir \<Rightarrow> string \<Rightarrow> failure + task_meta option" where
  "readMeta d taskId =
     (case td_meta d of
        None \<Rightarrow> Inr None
      | Some Unreadable \<Rightarrow> Inl Thrown
      | Some (Junk _) \<Rightarrow> Inl (Coded VALIDATION_ERROR)
      | Some (Doc j _) \<Rightarrow> rbind (coded (validateMetaArtifact j taskId)) (\<lambda>m. Inr (Some m)))"

definition writeMeta :: "task_meta \<Rightarrow> task_dir \<Rightarrow> task_dir" where
  "writeMeta m d = d\<lparr>td_meta := Some (Doc (meta_json m) 0)\<rparr>"

section \<open>Names and record files\<close>

definition taskDirNames :: "task_dir \<Rightarrow> string list" where
  "taskDirNames d =
     (if td_meta d = None then [] else [''meta.json''])
     @ (if td_manifest d = None then [] else [''recovery.jsonl''])
     @ map fst (td_files d)"

definition maxOnDiskRecordVersion :: "task_dir \<Rightarrow> nat" where
  "maxOnDiskRecordVersion d = maxRecordVersionOf (taskDirNames d)"

definition writeRecordExclusive :: "string \<Rightarrow> bytes \<Rightarrow> task_dir \<Rightarrow> failure + task_dir" where
  "writeRecordExclusive fileName content d =
     (if fileName \<in> set (taskDirNames d) then Inl (Coded VERSION_CONFLICT)
      else Inr (d\<lparr>td_files := td_files d @ [(fileName, content)]\<rparr>))"

text \<open>\<open>readFile\<close>: \<open>None\<close> when it throws.\<close>

definition readBytes :: "task_dir \<Rightarrow> string \<Rightarrow> bytes option" where
  "readBytes d name =
     (case map_of (td_files d) name of
        None \<Rightarrow> None
      | Some b \<Rightarrow> (if b = Unreadable then None else Some b))"

section \<open>The recovery manifest\<close>

record recovery_entry =
  re_file :: string
  re_corrupt_sha256 :: string
  re_recovered_sha256 :: string
  re_recovered_file :: string

definition parse_entry :: "bytes \<Rightarrow> recovery_entry option" where
  "parse_entry line =
     (case parse_json line of
        None \<Rightarrow> None
      | Some parsed \<Rightarrow>
          (case (string_of (jget parsed ''file''), string_of (jget parsed ''corrupt_sha256''),
                 string_of (jget parsed ''recovered_sha256''), string_of (jget parsed ''recovered_file'')) of
             (Some f, Some c, Some r, Some n) \<Rightarrow>
               Some \<lparr>re_file = f, re_corrupt_sha256 = c, re_recovered_sha256 = r, re_recovered_file = n\<rparr>
           | _ \<Rightarrow> None))"

definition readRecoveryEntries :: "task_dir \<Rightarrow> failure + recovery_entry list" where
  "readRecoveryEntries d =
     (case td_manifest d of
        None \<Rightarrow> Inr []
      | Some Unreadable_manifest \<Rightarrow> Inl (Coded VALIDATION_ERROR)
      | Some (Lines ls _) \<Rightarrow> Inr (List.map_filter parse_entry ls))"

text \<open>
  \<open>appendFile(prefix + line + "\n")\<close>: without the newline prefix a torn last line and the new one
  become one line that does not parse.
\<close>

definition append_text :: "bool \<Rightarrow> bytes \<Rightarrow> bytes list \<Rightarrow> bool \<Rightarrow> manifest" where
  "append_text prefix line ls torn =
     (if torn \<and> ls \<noteq> [] \<and> \<not> prefix then Lines (butlast ls @ [Junk []]) False
      else Lines (ls @ [line]) False)"

definition appendRecoveryLine :: "bytes \<Rightarrow> task_dir \<Rightarrow> failure + task_dir" where
  "appendRecoveryLine line d =
     (case td_manifest d of
        None \<Rightarrow> Inr (d\<lparr>td_manifest := Some (append_text False line [] False)\<rparr>)
      | Some Unreadable_manifest \<Rightarrow> Inl Thrown
      | Some (Lines ls torn) \<Rightarrow>
          (let prefix = (ls \<noteq> [] \<and> torn)
           in Inr (d\<lparr>td_manifest := Some (append_text prefix line ls torn)\<rparr>)))"

section \<open>The digest chain\<close>

text \<open>The last registration for a file stands.\<close>

definition last_entry :: "string \<Rightarrow> recovery_entry list \<Rightarrow> recovery_entry option" where
  "last_entry fileName es =
     foldl (\<lambda>found e. if re_file e = fileName then Some e else found) None es"

definition recoveredRecordFor ::
    "(bytes \<Rightarrow> string) \<Rightarrow> task_dir \<Rightarrow> string \<Rightarrow> string \<Rightarrow> nat \<Rightarrow> bytes \<Rightarrow> failure + context_record option" where
  "recoveredRecordFor sha256 d taskId fileName version corruptBytes =
     rbind (readRecoveryEntries d) (\<lambda>es.
       (case last_entry fileName es of
          None \<Rightarrow> Inr None
        | Some m \<Rightarrow>
            if sha256 corruptBytes \<noteq> re_corrupt_sha256 m then Inr None
            else (case readBytes d (re_recovered_file m) of
                    None \<Rightarrow> Inr None
                  | Some copyBytes \<Rightarrow>
                      if sha256 copyBytes \<noteq> re_recovered_sha256 m then Inr None
                      else (case parse_json copyBytes of
                              None \<Rightarrow> Inr None
                            | Some j \<Rightarrow>
                                (case validateRecordArtifact j (Some taskId) of
                                   Inl _ \<Rightarrow> Inr None
                                 | Inr r \<Rightarrow> Inr (if rec_version r = version then Some r else None))))))"

section \<open>Reading records\<close>

definition read_direct :: "string \<Rightarrow> bytes \<Rightarrow> context_record option" where
  "read_direct taskId b =
     (case parse_json b of
        None \<Rightarrow> None
      | Some j \<Rightarrow> (case validateRecordArtifact j (Some taskId) of Inl _ \<Rightarrow> None | Inr r \<Rightarrow> Some r))"

text \<open>One file of the loop in \<open>readNamedRecordsPaired\<close>.\<close>

definition read_record :: "(bytes \<Rightarrow> string) \<Rightarrow> task_dir \<Rightarrow> string \<Rightarrow> string \<Rightarrow> failure + context_record" where
  "read_record sha256 d taskId name =
     (case readBytes d name of
        None \<Rightarrow> Inl (Coded VALIDATION_ERROR)
      | Some b \<Rightarrow>
          (case read_direct taskId b of
             Some r \<Rightarrow> Inr r
           | None \<Rightarrow>
               rbind (recoveredRecordFor sha256 d taskId name (the (recordFileVersion name)) b) (\<lambda>r.
                 (case r of None \<Rightarrow> Inl (Coded VALIDATION_ERROR) | Some r \<Rightarrow> Inr r))))"

definition is_record_name :: "string \<Rightarrow> bool" where
  "is_record_name name \<longleftrightarrow> recordFileVersion name \<noteq> None"

text \<open>Names without a version count as 0 in the sort and are skipped.\<close>

definition name_version :: "string \<Rightarrow> nat" where
  "name_version name = (case recordFileVersion name of None \<Rightarrow> 0 | Some v \<Rightarrow> v)"

text \<open>Every failure of the loop is, or is wrapped into, a validation error.\<close>

definition readNamedRecordsPaired ::
    "(bytes \<Rightarrow> string) \<Rightarrow> task_dir \<Rightarrow> string \<Rightarrow> string list \<Rightarrow> failure + (string \<times> context_record) list" where
  "readNamedRecordsPaired sha256 d taskId names =
     (let sorted = filter is_record_name (sort_key name_version names);
          results = map (\<lambda>name. (name, read_record sha256 d taskId name)) sorted
      in if list_all (\<lambda>(_, r). is_ok r) results
         then Inr (map (\<lambda>(name, r). (name, projr r)) results)
         else Inl (Coded VALIDATION_ERROR))"

definition readNamedRecords ::
    "(bytes \<Rightarrow> string) \<Rightarrow> task_dir \<Rightarrow> string \<Rightarrow> string list \<Rightarrow> failure + context_record list" where
  "readNamedRecords sha256 d taskId names =
     rbind (readNamedRecordsPaired sha256 d taskId names) (\<lambda>ps. Inr (map snd ps))"

definition readRecords :: "(bytes \<Rightarrow> string) \<Rightarrow> task_dir \<Rightarrow> string \<Rightarrow> failure + context_record list" where
  "readRecords sha256 d taskId =
     readNamedRecords sha256 d taskId (filter is_record_name (taskDirNames d))"

section \<open>The sweep of temporary files\<close>

definition SWEEP_TMP_MAX_AGE_MS :: int where
  "SWEEP_TMP_MAX_AGE_MS = 60000"

text \<open>
  Which names of a directory the sweep unlinks; each name comes with its age in milliseconds
  (\<open>None\<close> when \<open>stat\<close> fails) and \<open>ownSuffix\<close> is \<open>.<pid>.tmp\<close>.
\<close>

definition swept :: "string \<Rightarrow> (string \<times> int option) list \<Rightarrow> string list" where
  "swept ownSuffix names =
     map fst (filter (\<lambda>(name, age).
       ends_with ''.tmp'' name \<and> \<not> ends_with ownSuffix name \<and>
       (case age of None \<Rightarrow> False | Some a \<Rightarrow> SWEEP_TMP_MAX_AGE_MS \<le> a)) names)"

section \<open>Lemmas\<close>

lemma readBytes_append:
  assumes "name \<notin> fst ` set (td_files d)"
  shows "readBytes (d\<lparr>td_files := td_files d @ [(name, b)]\<rparr>) n =
    (if n = name then (if b = Unreadable then None else Some b) else readBytes d n)"
proof -
  have "map_of (td_files d) name = None"
    using assms by (simp add: map_of_eq_None_iff)
  then show ?thesis
    by (auto simp: readBytes_def map_add_def split: option.split)
qed

lemma readBytes_not_Unreadable: "readBytes d n = Some b \<Longrightarrow> b \<noteq> Unreadable"
  by (auto simp: readBytes_def split: option.splits if_splits)

lemma readRecoveryEntries_files [simp]:
  "readRecoveryEntries (d\<lparr>td_files := fs\<rparr>) = readRecoveryEntries d"
  "readRecoveryEntries (d\<lparr>td_meta := m\<rparr>) = readRecoveryEntries d"
  by (simp_all add: readRecoveryEntries_def)

lemma readBytes_meta [simp]:
  "readBytes (d\<lparr>td_meta := m\<rparr>) n = readBytes d n" "readBytes (d\<lparr>td_manifest := mf\<rparr>) n = readBytes d n"
  by (simp_all add: readBytes_def)

lemma read_record_meta [simp]: "read_record sha (d\<lparr>td_meta := m\<rparr>) t n = read_record sha d t n"
  by (simp add: read_record_def recoveredRecordFor_def cong: option.case_cong if_cong)

text \<open>The chain as a conjunction: what must hold for a stand-in to be used.\<close>

lemma recoveredRecordFor_Some:
  "recoveredRecordFor sha d t n v c = Inr (Some r) \<longleftrightarrow>
     (\<exists>es m copy j. readRecoveryEntries d = Inr es \<and> last_entry n es = Some m \<and>
        sha c = re_corrupt_sha256 m \<and> readBytes d (re_recovered_file m) = Some copy \<and>
        sha copy = re_recovered_sha256 m \<and> parse_json copy = Some j \<and>
        validateRecordArtifact j (Some t) = Inr r \<and> rec_version r = v)"
proof (cases "readRecoveryEntries d")
  case (Inr es)
  show ?thesis
  proof (cases "last_entry n es")
    case (Some m)
    show ?thesis
    proof (cases "readBytes d (re_recovered_file m)")
      case copy: (Some copy)
      show ?thesis
      proof (cases "parse_json copy")
        case json: (Some j)
        show ?thesis
          using Inr Some copy json
          by (cases "validateRecordArtifact j (Some t)") (auto simp: recoveredRecordFor_def)
      qed (use Inr Some copy in \<open>simp add: recoveredRecordFor_def\<close>)
    qed (use Inr Some in \<open>simp add: recoveredRecordFor_def\<close>)
  qed (use Inr in \<open>simp add: recoveredRecordFor_def\<close>)
qed (simp add: recoveredRecordFor_def)

text \<open>A file appended under a fresh name does not disturb what reads as a record.\<close>

lemma recoveredRecordFor_append:
  assumes "name \<notin> fst ` set (td_files d)"
    and "recoveredRecordFor sha d t n v c = Inr (Some r)"
  shows "recoveredRecordFor sha (d\<lparr>td_files := td_files d @ [(name, b)]\<rparr>) t n v c = Inr (Some r)"
proof -
  have "readBytes d name = None"
    using assms(1) by (simp add: readBytes_def map_of_eq_None_iff[THEN iffD2])
  then have "readBytes d n' = Some x \<Longrightarrow> readBytes (d\<lparr>td_files := td_files d @ [(name, b)]\<rparr>) n' = Some x" for n' x
    using assms(1) by (auto simp: readBytes_append)
  with assms(2) show ?thesis
    unfolding recoveredRecordFor_Some by auto
qed

lemma read_record_append:
  assumes "name \<notin> fst ` set (td_files d)" and "read_record sha d t n = Inr r"
  shows "read_record sha (d\<lparr>td_files := td_files d @ [(name, b)]\<rparr>) t n = Inr r"
proof -
  obtain c where c: "readBytes d n = Some c"
    using assms(2) by (auto simp: read_record_def split: option.split_asm)
  have "readBytes d name = None"
    using assms(1) by (simp add: readBytes_def map_of_eq_None_iff[THEN iffD2])
  with c have ne: "n \<noteq> name" by auto
  show ?thesis
  proof (cases "read_direct t c")
    case None
    then have "recoveredRecordFor sha d t n (the (recordFileVersion n)) c = Inr (Some r)"
      using assms(2) c by (auto simp: read_record_def rbind_Inr_iff split: option.split_asm)
    from recoveredRecordFor_append [OF assms(1) this] None c ne assms(1) show ?thesis
      by (simp add: read_record_def readBytes_append)
  next
    case (Some r')
    with assms c ne show ?thesis by (simp add: read_record_def readBytes_append)
  qed
qed

lemma readNamed_Inr_iff:
  "(\<exists>ps. readNamedRecordsPaired sha d t names = Inr ps) \<longleftrightarrow>
     (\<forall>n\<in>set names. is_record_name n \<longrightarrow> is_ok (read_record sha d t n))"
  by (auto simp: readNamedRecordsPaired_def Let_def list_all_iff)

lemma readNamed_Inl:
  "readNamedRecordsPaired sha d t names = Inl f \<longleftrightarrow>
     f = Coded VALIDATION_ERROR \<and> \<not> (\<forall>n\<in>set names. is_record_name n \<longrightarrow> is_ok (read_record sha d t n))"
  by (auto simp: readNamedRecordsPaired_def Let_def list_all_iff)

lemma map_of_keyed: "map_of (map (\<lambda>n. (n, f n)) ns) n = (if n \<in> set ns then Some (f n) else None)"
  by (induction ns) auto

lemma readNamed_lookup:
  assumes "readNamedRecordsPaired sha d t names = Inr ps" and "n \<in> set names" and "is_record_name n"
  shows "\<exists>r. map_of ps n = Some r \<and> read_record sha d t n = Inr r"
proof -
  let ?ns = "filter is_record_name (sort_key name_version names)"
  have ps: "ps = map (\<lambda>n. (n, projr (read_record sha d t n))) ?ns"
    and ok: "\<forall>n\<in>set ?ns. is_ok (read_record sha d t n)"
    using assms(1) by (auto simp: readNamedRecordsPaired_def Let_def o_def list_all_iff split: if_split_asm)
  have mem: "n \<in> set ?ns" using assms(2,3) by simp
  with ok obtain r where "read_record sha d t n = Inr r" by (auto simp: is_ok_iff)
  with mem show ?thesis unfolding ps map_of_keyed by simp
qed

lemma is_record_name_file: "is_record_name (recordFileName v ct)"
  by (simp add: is_record_name_def record_file_name_version)

lemma meta_not_record [simp]: "\<not> is_record_name ''meta.json''" "\<not> is_record_name ''recovery.jsonl''"
  by (simp_all add: is_record_name_def recordFileVersion_def)

end
