(* ===== verification/Fold_Cache.thy ===== *)
theory Fold_Cache
  imports Record_IO Record_Lint "HOL-Library.List_Lexorder" "HOL-Library.Char_ord"
begin

text \<open>
  The per-task read cache of \<open>src/core/hub/store/fold-cache.ts\<close>.  An entry remembers the cursor of
  a fold and the token it was taken under: the sorted fold-relevant names of the directory (kept as
  a list; the code joins it with newlines).  \<open>foldCursorFor\<close> returns the entry the cache holds
  afterwards, its cursor being the result; on a failure the cache is left as it was.

  The last section states what the cache promises: as long as an entry is sound for the directory,
  the answer is the one a cold read would give, and the entry it leaves is sound again.
\<close>

record fold_entry =
  fe_token :: "string list"
  fe_cursor :: "lint_cursor option"
  fe_spec :: "(flow \<times> json) option"
  fe_probeMax :: nat

definition isFoldRelevantName :: "string \<Rightarrow> bool" where
  "isFoldRelevantName name \<longleftrightarrow>
     recordFileVersion name \<noteq> None \<or> name = ''recovery.jsonl'' \<or> ends_with ''.recovered'' name"

definition foldTokenOf :: "string list \<Rightarrow> string list" where
  "foldTokenOf names = sort (filter isFoldRelevantName names)"

text \<open>\<open>description ?? ""\<close> inside the key, and the default argument of \<open>foldWithLint\<close>: only
  \<open>undefined\<close> defaults, anything that is not a string makes \<open>text.split\<close> throw.\<close>

definition spec_description :: "json option \<Rightarrow> json" where
  "spec_description desc = (case desc of None \<Rightarrow> JStr [] | Some JNull \<Rightarrow> JStr [] | Some j \<Rightarrow> j)"

definition description_text :: "json option \<Rightarrow> failure + utext" where
  "description_text desc = (case desc of None \<Rightarrow> Inr [] | Some (JStr s) \<Rightarrow> Inr (utf8 s) | Some _ \<Rightarrow> Inl Thrown)"

text \<open>\<open>additions\<close> and the extension test, common to the task and the project path.\<close>

definition additions :: "string list \<Rightarrow> string list \<Rightarrow> string list" where
  "additions token names = filter (\<lambda>n. n \<notin> set token) (filter isFoldRelevantName names)"

definition extensible :: "string list \<Rightarrow> string list \<Rightarrow> nat \<Rightarrow> bool" where
  "extensible token names through \<longleftrightarrow>
     \<not> list_ex (\<lambda>n. n \<notin> set (filter isFoldRelevantName names)) token \<and>
     list_all (\<lambda>n. case recordFileVersion n of None \<Rightarrow> False | Some v \<Rightarrow> through < v) (additions token names)"

text \<open>\<open>names.map((name) => readByName.get(name) ?? loaded.get(name)!)\<close> after reading the rest.\<close>

definition load_records ::
    "(bytes \<Rightarrow> string) \<Rightarrow> task_dir \<Rightarrow> string \<Rightarrow> (string \<times> context_record) list \<Rightarrow> string list
      \<Rightarrow> failure + context_record list" where
  "load_records sha256 d taskId already names =
     (let unread = filter (\<lambda>n. map_of already n = None) names in
      rbind (if unread = [] then Inr [] else readNamedRecordsPaired sha256 d taskId unread) (\<lambda>loaded.
        Inr (map (\<lambda>n. case map_of already n of Some r \<Rightarrow> r | None \<Rightarrow> the (map_of loaded n)) names)))"

text \<open>Read the files, fold them onto the cursor and remember the result under the current token.\<close>

definition fold_files ::
    "(bytes \<Rightarrow> string) \<Rightarrow> (string \<Rightarrow> bool) \<Rightarrow> task_dir \<Rightarrow> string \<Rightarrow> flow \<Rightarrow> json option \<Rightarrow> string list
      \<Rightarrow> (string \<times> context_record) list \<Rightarrow> lint_cursor \<Rightarrow> string list \<Rightarrow> failure + fold_entry" where
  "fold_files sha256 parses d taskId flow desc names already cursor files =
     rbind (load_records sha256 d taskId already files) (\<lambda>rs.
     rbind (description_text desc) (\<lambda>t.
       let c = foldWithLint parses cursor rs flow t in
       Inr \<lparr>fe_token = foldTokenOf names, fe_cursor = Some c, fe_spec = Some (flow, spec_description desc),
            fe_probeMax = fc_prevVersion (lc_fold c)\<rparr>))"

definition foldCursorFor ::
    "(bytes \<Rightarrow> string) \<Rightarrow> (string \<Rightarrow> bool) \<Rightarrow> task_dir \<Rightarrow> string \<Rightarrow> flow \<Rightarrow> json option \<Rightarrow> string list
      \<Rightarrow> (string \<times> context_record) list \<Rightarrow> fold_entry option \<Rightarrow> failure + fold_entry" where
  "foldCursorFor sha256 parses d taskId flow desc names already entry =
     (let onto = fold_files sha256 parses d taskId flow desc names already;
          cold = onto (lint_initial flow) (filter is_record_name names)
      in case entry of
           None \<Rightarrow> cold
         | Some e \<Rightarrow>
             if fe_spec e \<noteq> Some (flow, spec_description desc) then cold
             else (case fe_cursor e of
                     None \<Rightarrow> cold
                   | Some c \<Rightarrow>
                       if fe_token e = foldTokenOf names then Inr e
                       else if extensible (fe_token e) names (fc_prevVersion (lc_fold c))
                       then onto c (additions (fe_token e) names)
                       else cold))"

definition probeRecords ::
    "(bytes \<Rightarrow> string) \<Rightarrow> task_dir \<Rightarrow> string \<Rightarrow> string list \<Rightarrow> fold_entry option \<Rightarrow> failure + fold_entry" where
  "probeRecords sha256 d taskId names entry =
     (let token = foldTokenOf names;
          probe = (\<lambda>files m. rbind (if files = [] then Inr [] else readNamedRecords sha256 d taskId files) (\<lambda>_.
            Inr \<lparr>fe_token = token, fe_cursor = None, fe_spec = None, fe_probeMax = m\<rparr>));
          recordNames = filter is_record_name names;
          cold = probe recordNames (maxRecordVersionOf recordNames)
      in case entry of
           None \<Rightarrow> cold
         | Some e \<Rightarrow>
             if fe_cursor e \<noteq> None then cold
             else if fe_token e = token then Inr e
             else if extensible (fe_token e) names (fe_probeMax e)
             then (let adds = additions (fe_token e) names
                   in probe adds (max (fe_probeMax e) (maxRecordVersionOf adds)))
             else cold)"

definition rememberFoldToken :: "string list \<Rightarrow> string \<Rightarrow> fold_entry option \<Rightarrow> fold_entry option" where
  "rememberFoldToken names fileName entry =
     (case entry of
        None \<Rightarrow> None
      | Some e \<Rightarrow>
          if fe_cursor e \<noteq> None then Some e
          else if fe_token e \<noteq> foldTokenOf names then Some e
          else Some \<lparr>fe_token = foldTokenOf (names @ [fileName]), fe_cursor = None, fe_spec = None,
                     fe_probeMax = max (fe_probeMax e) (name_version fileName)\<rparr>)"

text \<open>\<open>derivedFor\<close>: the derived state and the overlay's fields; nothing for the project scope.\<close>

record derived_view =
  dv_state :: derived_state
  dv_pending_since :: "string option"
  dv_round_count :: nat

definition view_of_cursor :: "lint_cursor \<Rightarrow> derived_view" where
  "view_of_cursor c = \<lparr>dv_state = lint_derived c, dv_pending_since = lc_pending_since c,
     dv_round_count = lc_round_count c\<rparr>"

definition derivedFor ::
    "(bytes \<Rightarrow> string) \<Rightarrow> (string \<Rightarrow> bool) \<Rightarrow> task_dir \<Rightarrow> string \<Rightarrow> flow option \<Rightarrow> json option \<Rightarrow> string list
      \<Rightarrow> (string \<times> context_record) list \<Rightarrow> fold_entry option \<Rightarrow> failure + (derived_view \<times> fold_entry) option" where
  "derivedFor sha256 parses d taskId flow desc names already entry =
     (if taskId = PROJECT_TASK_ID then Inr None
      else rbind (foldCursorFor sha256 parses d taskId (effective_flow flow) desc names already entry) (\<lambda>e.
        Inr (map_option (\<lambda>c. (view_of_cursor c, e)) (fe_cursor e))))"

definition cacheDerived :: "task_meta \<Rightarrow> derived_state option \<Rightarrow> task_meta" where
  "cacheDerived m derived = (case derived of None \<Rightarrow> m | Some ds \<Rightarrow> m\<lparr>tm_cached := Some ds\<rparr>)"

section \<open>Loading\<close>

text \<open>What was already read agrees with the directory.\<close>

definition read_already :: "(bytes \<Rightarrow> string) \<Rightarrow> task_dir \<Rightarrow> string \<Rightarrow> (string \<times> context_record) list \<Rightarrow> bool" where
  "read_already sha256 d taskId already \<longleftrightarrow>
     (\<forall>n r. map_of already n = Some r \<longrightarrow> read_record sha256 d taskId n = Inr r)"

definition readable :: "(bytes \<Rightarrow> string) \<Rightarrow> task_dir \<Rightarrow> string \<Rightarrow> string list \<Rightarrow> bool" where
  "readable sha256 d taskId names \<longleftrightarrow> (\<forall>n\<in>set names. is_ok (read_record sha256 d taskId n))"

definition records_at :: "(bytes \<Rightarrow> string) \<Rightarrow> task_dir \<Rightarrow> string \<Rightarrow> string list \<Rightarrow> context_record list" where
  "records_at sha256 d taskId names = map (\<lambda>n. projr (read_record sha256 d taskId n)) names"

lemma load_records_eq:
  assumes "read_already sha d t already" and "list_all is_record_name names"
  shows "load_records sha d t already names =
    (if readable sha d t names then Inr (records_at sha d t names) else Inl (Coded VALIDATION_ERROR))"
proof -
  let ?unread = "filter (\<lambda>n. map_of already n = None) names"
  let ?res = "if ?unread = [] then Inr [] else readNamedRecordsPaired sha d t ?unread"
  have ok: "is_ok (read_record sha d t n)" if "map_of already n \<noteq> None" for n
    using assms(1) that by (auto simp: read_already_def)
  show ?thesis
  proof (cases "readable sha d t names")
    case True
    then have "\<exists>ps. readNamedRecordsPaired sha d t ?unread = Inr ps"
      unfolding readNamed_Inr_iff by (auto simp: readable_def)
    then obtain ps where ps: "?res = Inr ps" "?unread = [] \<or> readNamedRecordsPaired sha d t ?unread = Inr ps"
      by (cases "?unread = []") auto
    have "(case map_of already n of Some r \<Rightarrow> r | None \<Rightarrow> the (map_of ps n)) = projr (read_record sha d t n)"
      if n: "n \<in> set names" for n
    proof (cases "map_of already n")
      case None
      with n have "n \<in> set ?unread" by simp
      then have "?unread \<noteq> []" by (metis empty_iff empty_set)
      with ps(2) have "readNamedRecordsPaired sha d t ?unread = Inr ps" by blast
      from readNamed_lookup [OF this \<open>n \<in> set ?unread\<close>] n assms(2) None show ?thesis
        by (auto simp: list_all_iff)
    next
      case (Some r)
      with assms(1) show ?thesis by (simp add: read_already_def)
    qed
    then have "map (\<lambda>n. case map_of already n of Some r \<Rightarrow> r | None \<Rightarrow> the (map_of ps n)) names = records_at sha d t names"
      by (simp add: records_at_def)
    with True ps(1) show ?thesis unfolding load_records_def Let_def by simp
  next
    case False
    then obtain n where n: "n \<in> set names" "\<not> is_ok (read_record sha d t n)"
      by (auto simp: readable_def)
    then have "map_of already n = None" using ok by blast
    with n assms(2) have "n \<in> set ?unread" "is_record_name n"
      by (auto simp: list_all_iff)
    with n(2) have bad: "\<not> (\<forall>n\<in>set ?unread. is_record_name n \<longrightarrow> is_ok (read_record sha d t n))" by blast
    have "?unread \<noteq> []"
      using \<open>n \<in> set ?unread\<close> by (metis empty_iff empty_set)
    moreover have "readNamedRecordsPaired sha d t ?unread = Inl (Coded VALIDATION_ERROR)"
      unfolding readNamed_Inl using bad by blast
    ultimately show ?thesis
      using False unfolding load_records_def Let_def by simp
  qed
qed

section \<open>Soundness\<close>

text \<open>The specification: fold every record file of the directory from scratch.\<close>

definition cold_fold ::
    "(bytes \<Rightarrow> string) \<Rightarrow> (string \<Rightarrow> bool) \<Rightarrow> task_dir \<Rightarrow> string \<Rightarrow> flow \<Rightarrow> json option \<Rightarrow> string list
      \<Rightarrow> failure + lint_cursor" where
  "cold_fold sha256 parses d taskId flow desc names =
     (if readable sha256 d taskId (filter is_record_name names)
      then rbind (description_text desc) (\<lambda>t.
        Inr (foldWithLint parses (lint_initial flow) (records_at sha256 d taskId (filter is_record_name names)) flow t))
      else Inl (Coded VALIDATION_ERROR))"

text \<open>Record contents carry the version their file name says.\<close>

definition versions_match :: "(bytes \<Rightarrow> string) \<Rightarrow> task_dir \<Rightarrow> string \<Rightarrow> bool" where
  "versions_match sha256 d taskId \<longleftrightarrow>
     (\<forall>n r. is_record_name n \<longrightarrow> read_record sha256 d taskId n = Inr r \<longrightarrow> recordFileVersion n = Some (rec_version r))"

text \<open>
  A cursor entry is sound when, unless a file of its token is gone, those files still read and the
  cursor is their fold, in directory order.  Entries of another key say nothing.
\<close>

definition cursor_sound ::
    "(bytes \<Rightarrow> string) \<Rightarrow> (string \<Rightarrow> bool) \<Rightarrow> task_dir \<Rightarrow> string \<Rightarrow> flow \<Rightarrow> json option \<Rightarrow> string list
      \<Rightarrow> fold_entry option \<Rightarrow> bool" where
  "cursor_sound sha256 parses d taskId flow desc names entry \<longleftrightarrow>
     (\<forall>e c. entry = Some e \<longrightarrow> fe_cursor e = Some c \<longrightarrow> fe_spec e = Some (flow, spec_description desc) \<longrightarrow>
        set (fe_token e) \<subseteq> set names \<longrightarrow>
        (let files = filter (\<lambda>n. n \<in> set (fe_token e)) (filter is_record_name names) in
         readable sha256 d taskId files \<and>
         (\<exists>t. description_text desc = Inr t \<and>
              c = foldWithLint parses (lint_initial flow) (records_at sha256 d taskId files) flow t)))"

lemma is_record_relevant: "is_record_name n \<Longrightarrow> isFoldRelevantName n"
  by (simp add: is_record_name_def isFoldRelevantName_def)

lemma set_foldTokenOf: "set (foldTokenOf names) = {n \<in> set names. isFoldRelevantName n}"
  by (auto simp: foldTokenOf_def)

lemma records_at_append: "records_at sha d t (xs @ ys) = records_at sha d t xs @ records_at sha d t ys"
  by (simp add: records_at_def)

lemma mset_partition: "mset (filter P xs) + mset (filter (\<lambda>x. \<not> P x) xs) = mset xs"
  by (induction xs) auto

lemma record_version_at:
  assumes "versions_match sha d t" "readable sha d t names" "n \<in> set names" "is_record_name n"
  shows "rec_version (projr (read_record sha d t n)) = name_version n"
proof -
  obtain r where "read_record sha d t n = Inr r"
    using assms(2,3) by (auto simp: readable_def is_ok_iff)
  with assms(1,4) show ?thesis
    by (auto simp: versions_match_def name_version_def)
qed

text \<open>Folding the additions onto a sound cursor is the cold fold: the extension rule of the
  version-ordered fold, interpreted on the lint fold.\<close>

lemma filter_split_order:
  assumes "\<And>x y. x \<in> set xs \<Longrightarrow> y \<in> set xs \<Longrightarrow> P x \<Longrightarrow> \<not> P y \<Longrightarrow> f x < (f y :: nat)"
  shows "filter (\<lambda>x. k = f x) (filter P xs @ filter (\<lambda>x. \<not> P x) xs) = filter (\<lambda>x. k = f x) xs"
proof (cases "\<exists>x\<in>set xs. P x \<and> f x = k")
  case True
  then obtain x where x: "x \<in> set xs" "P x" "f x = k" by blast
  then have "P y" if "y \<in> set xs" "f y = k" for y
    using assms [of x y] that by (cases "P y") auto
  then have "filter (\<lambda>x. k = f x) (filter (\<lambda>x. \<not> P x) xs) = []"
    and "filter (\<lambda>x. k = f x) (filter P xs) = filter (\<lambda>x. k = f x) xs"
    by (auto simp: filter_empty_conv intro!: filter_cong)
  then show ?thesis by simp
next
  case False
  then have "filter (\<lambda>x. k = f x) (filter P xs) = []"
    and "filter (\<lambda>x. k = f x) (filter (\<lambda>x. \<not> P x) xs) = filter (\<lambda>x. k = f x) xs"
    by (auto simp: filter_empty_conv intro!: filter_cong)
  then show ?thesis by simp
qed

lemma filter_map_key: "filter (\<lambda>r. k = f r) (map g xs) = map g (filter (\<lambda>x. k = f (g x)) xs)"
  by (simp add: filter_map o_def)

lemma fold_extension:
  fixes names :: "string list" and P :: "string \<Rightarrow> bool"
  defines "old \<equiv> filter P names" and "new \<equiv> filter (\<lambda>n. \<not> P n) names"
  assumes names: "list_all is_record_name names" "readable sha d t names" "versions_match sha d t"
    and beyond: "\<And>n. n \<in> set new \<Longrightarrow> fc_prevVersion (lc_fold c) < name_version n"
    and c: "c = foldWithLint parses (lint_initial flow) (records_at sha d t old) flow txt"
  shows "foldWithLint parses c (records_at sha d t new) flow txt =
    foldWithLint parses (lint_initial flow) (records_at sha d t names) flow txt"
proof -
  have ver: "rec_version (projr (read_record sha d t n)) = name_version n" if "n \<in> set names" for n
    using record_version_at [OF names(3,2) that] names(1) that by (simp add: list_all_iff)
  have "fc_prevVersion (lc_fold c) < rec_version r" if "r \<in> set (records_at sha d t new)" for r
    using that beyond ver by (auto simp: records_at_def new_def)
  then have "foldWithLint parses c (records_at sha d t new) flow txt =
      foldWithLint parses (lint_initial flow) (records_at sha d t (old @ new)) flow txt"
    unfolding c records_at_append by (intro lint_fold.run_extend) simp
  also have "\<dots> = foldWithLint parses (lint_initial flow) (records_at sha d t names) flow txt"
  proof (rule lint_fold.run_stable)
    show "mset (records_at sha d t (old @ new)) = mset (records_at sha d t names)"
      unfolding records_at_def old_def new_def mset_map mset_append mset_partition ..
    fix k
    have lt: "name_version x < name_version y" if "x \<in> set old" "y \<in> set new" for x y
    proof -
      have "rec_version (projr (read_record sha d t x)) \<in> set (map rec_version (records_at sha d t old))"
        using that(1) by (auto simp: records_at_def)
      moreover have "records_at sha d t old \<noteq> []"
        using that(1) by (auto simp: records_at_def)
      ultimately have "rec_version (projr (read_record sha d t x)) \<le> fc_prevVersion (lc_fold c)"
        unfolding c using lint_fold.reached_run list_max_ge by simp
      moreover have "x \<in> set names" using that(1) by (simp add: old_def)
      ultimately show ?thesis
        using ver [of x] beyond [OF that(2)] by simp
    qed
    have ver': "filter (\<lambda>n. k = rec_version (projr (read_record sha d t n))) ns = filter (\<lambda>n. k = name_version n) ns"
      if "set ns \<subseteq> set names" for ns
      using that ver by (auto intro!: filter_cong)
    have "filter (\<lambda>n. k = name_version n) (old @ new) = filter (\<lambda>n. k = name_version n) names"
      unfolding old_def new_def
      by (rule filter_split_order) (use lt in \<open>auto simp: old_def new_def\<close>)
    then show "filter (\<lambda>r. k = rec_version r) (records_at sha d t (old @ new)) =
        filter (\<lambda>r. k = rec_version r) (records_at sha d t names)"
      unfolding records_at_def filter_map_key
      by (subst (1 2) ver') (auto simp: old_def new_def)
  qed
  finally show ?thesis .
qed

text \<open>The three ways \<open>foldCursorFor\<close> answers, against the cold fold.\<close>

lemma fold_files_cold:
  assumes "read_already sha d t already"
  shows "fold_files sha parses d t flow desc names already (lint_initial flow) (filter is_record_name names) =
    rbind (cold_fold sha parses d t flow desc names) (\<lambda>c.
      Inr \<lparr>fe_token = foldTokenOf names, fe_cursor = Some c, fe_spec = Some (flow, spec_description desc),
           fe_probeMax = fc_prevVersion (lc_fold c)\<rparr>)"
proof -
  have "list_all is_record_name (filter is_record_name names)"
    by (simp add: list_all_iff)
  from load_records_eq [OF assms this] show ?thesis
    by (cases "description_text desc") (simp_all add: fold_files_def cold_fold_def Let_def)
qed

lemma extensible_split:
  assumes "extensible (fe_token e) names through"
  shows "set (fe_token e) \<subseteq> set names"
    and "additions (fe_token e) names = filter (\<lambda>n. n \<notin> set (fe_token e)) (filter is_record_name names)"
    and "\<And>n. n \<in> set (additions (fe_token e) names) \<Longrightarrow> through < name_version n"
proof -
  show "set (fe_token e) \<subseteq> set names"
    using assms by (auto simp: extensible_def list_ex_iff)
  have rec: "is_record_name n \<and> through < name_version n" if "n \<in> set (additions (fe_token e) names)" for n
    using assms that by (auto simp: extensible_def list_all_iff is_record_name_def name_version_def split: option.splits)
  then show "through < name_version n" if "n \<in> set (additions (fe_token e) names)" for n
    using that by blast
  have "filter (\<lambda>n. n \<notin> set (fe_token e)) (filter isFoldRelevantName names) =
      filter (\<lambda>n. n \<notin> set (fe_token e)) (filter is_record_name names)"
    using rec is_record_relevant by (auto simp: additions_def filter_filter intro!: filter_cong)
  then show "additions (fe_token e) names = filter (\<lambda>n. n \<notin> set (fe_token e)) (filter is_record_name names)"
    by (simp add: additions_def)
qed

lemma readable_split:
  "readable sha d t names \<longleftrightarrow> readable sha d t (filter P names) \<and> readable sha d t (filter (\<lambda>n. \<not> P n) names)"
  by (auto simp: readable_def)

lemma cold_foldI:
  assumes "readable sha d t (filter is_record_name names)" and "description_text desc = Inr tx"
  shows "cold_fold sha parses d t flow desc names =
    Inr (foldWithLint parses (lint_initial flow) (records_at sha d t (filter is_record_name names)) flow tx)"
  using assms by (simp add: cold_fold_def)

lemma foldCursorFor_answers:
  assumes "versions_match sha d t" and "read_already sha d t already"
    and "cursor_sound sha parses d t flow desc names entry"
  shows "rbind (foldCursorFor sha parses d t flow desc names already entry) (\<lambda>e. Inr (the (fe_cursor e))) =
      cold_fold sha parses d t flow desc names \<and>
    (\<forall>e. foldCursorFor sha parses d t flow desc names already entry = Inr e \<longrightarrow>
       fe_token e = foldTokenOf names \<and> fe_cursor e \<noteq> None \<and> fe_spec e = Some (flow, spec_description desc))"
proof -
  let ?onto = "fold_files sha parses d t flow desc names already"
  let ?cold = "?onto (lint_initial flow) (filter is_record_name names)"
  have cold: "rbind ?cold (\<lambda>e. Inr (the (fe_cursor e))) = cold_fold sha parses d t flow desc names"
    "\<And>e. ?cold = Inr e \<Longrightarrow> fe_token e = foldTokenOf names \<and> fe_cursor e \<noteq> None \<and>
       fe_spec e = Some (flow, spec_description desc)"
    unfolding fold_files_cold [OF assms(2)]
    by (cases "cold_fold sha parses d t flow desc names"; auto)+
  consider (full) "foldCursorFor sha parses d t flow desc names already entry = ?cold"
    | (hit) e c where "entry = Some e" "fe_cursor e = Some c" "fe_spec e = Some (flow, spec_description desc)"
        "fe_token e = foldTokenOf names" "foldCursorFor sha parses d t flow desc names already entry = Inr e"
    | (ext) e c where "entry = Some e" "fe_cursor e = Some c" "fe_spec e = Some (flow, spec_description desc)"
        "extensible (fe_token e) names (fc_prevVersion (lc_fold c))"
        "foldCursorFor sha parses d t flow desc names already entry = ?onto c (additions (fe_token e) names)"
  proof (cases entry)
    case None
    then show thesis by (intro full) (simp add: foldCursorFor_def Let_def)
  next
    case (Some e)
    show thesis
    proof (cases "fe_spec e = Some (flow, spec_description desc) \<and> fe_cursor e \<noteq> None")
      case True
      then obtain c where c: "fe_cursor e = Some c" "fe_spec e = Some (flow, spec_description desc)" by auto
      show thesis
        using hit [OF Some c] ext [OF Some c] full Some c
        by (cases "fe_token e = foldTokenOf names";
            cases "extensible (fe_token e) names (fc_prevVersion (lc_fold c))")
          (simp_all add: foldCursorFor_def Let_def)
    next
      case False
      with Some show thesis
        by (intro full) (auto simp: foldCursorFor_def Let_def)
    qed
  qed
  then show ?thesis
  proof cases
    case full
    then show ?thesis using cold by simp
  next
    case hit
    have tok: "set (fe_token e) \<subseteq> set names" "filter (\<lambda>n. n \<in> set (fe_token e)) (filter is_record_name names) = filter is_record_name names"
      using hit(4) is_record_relevant by (auto simp: set_foldTokenOf filter_filter intro!: filter_cong)
    obtain tx where "readable sha d t (filter is_record_name names)" "description_text desc = Inr tx"
      "c = foldWithLint parses (lint_initial flow) (records_at sha d t (filter is_record_name names)) flow tx"
      using assms(3) hit(1-3) tok unfolding cursor_sound_def Let_def by auto
    with hit show ?thesis by (simp add: cold_foldI)
  next
    case ext
    let ?old = "filter (\<lambda>n. n \<in> set (fe_token e)) (filter is_record_name names)"
      and ?new = "filter (\<lambda>n. n \<notin> set (fe_token e)) (filter is_record_name names)"
    note sp = extensible_split [OF ext(4)]
    obtain tx where old: "readable sha d t ?old" "description_text desc = Inr tx"
      "c = foldWithLint parses (lint_initial flow) (records_at sha d t ?old) flow tx"
      using assms(3) ext(1-3) sp(1) unfolding cursor_sound_def Let_def by auto
    have rd: "readable sha d t (filter is_record_name names) \<longleftrightarrow> readable sha d t ?new"
      using readable_split [of sha d t "filter is_record_name names" "\<lambda>n. n \<in> set (fe_token e)"] old(1) by simp
    have load: "load_records sha d t already ?new =
        (if readable sha d t ?new then Inr (records_at sha d t ?new) else Inl (Coded VALIDATION_ERROR))"
      using assms(2) by (intro load_records_eq) (auto simp: list_all_iff)
    show ?thesis
    proof (cases "readable sha d t ?new")
      case True
      have "foldWithLint parses c (records_at sha d t ?new) flow tx =
          foldWithLint parses (lint_initial flow) (records_at sha d t (filter is_record_name names)) flow tx"
        using True rd assms(1) old(3) sp(2,3)
        by (intro fold_extension) (auto simp: list_all_iff)
      with True rd ext(5) old(2) load sp(2) show ?thesis
        by (simp add: cold_foldI fold_files_def Let_def)
    next
      case False
      with rd ext(5) load sp(2) show ?thesis
        by (simp add: cold_fold_def fold_files_def)
    qed
  qed
qed

text \<open>The entry an answer leaves is sound, whatever the state of the cache before.\<close>

lemma foldCursorFor_sound:
  assumes "versions_match sha d t" and "read_already sha d t already"
    and "cursor_sound sha parses d t flow desc names entry"
    and "foldCursorFor sha parses d t flow desc names already entry = Inr e"
  shows "cursor_sound sha parses d t flow desc names (Some e)"
proof -
  have "rbind (Inr e) (\<lambda>e. Inr (the (fe_cursor e))) = cold_fold sha parses d t flow desc names"
    and e: "fe_token e = foldTokenOf names" "fe_cursor e \<noteq> None"
    using foldCursorFor_answers [OF assms(1-3)] assms(4) by auto
  then have "cold_fold sha parses d t flow desc names = Inr (the (fe_cursor e))" by simp
  then obtain tx where "readable sha d t (filter is_record_name names)" "description_text desc = Inr tx"
    "the (fe_cursor e) = foldWithLint parses (lint_initial flow) (records_at sha d t (filter is_record_name names)) flow tx"
    by (auto simp: cold_fold_def rbind_Inr_iff split: if_split_asm)
  moreover have "filter (\<lambda>n. n \<in> set (fe_token e)) (filter is_record_name names) = filter is_record_name names"
    using e(1) is_record_relevant by (auto simp: set_foldTokenOf filter_filter intro!: filter_cong)
  ultimately show ?thesis
    using e by (auto simp: cursor_sound_def Let_def)
qed

end
