(* ===== verification/Store.thy ===== *)
theory Store
  imports Fold_Cache "HOL-Library.AList"
begin

text \<open>
  The store facade, \<open>src/core/hub/store.ts\<close>: creating tasks, appending records, reading and listing
  them.  Mutations of one task run one after the other (the code's per-task promise queue, whose
  tails are not modelled), so an operation is a function from a store state to a result and a state.
  What can go wrong inside one is an argument: the random suffixes drawn, and the point at which a
  write fails or the process dies.

  The state is the tasks directory (every entry, directories or not) and the fold cache of the
  process.  Fields of \<open>meta.json\<close> outside \<open>TaskMeta\<close> are not carried through a rewrite.
\<close>

datatype dir_entry = Dir task_dir | Other_entry

record store =
  st_tasks :: "(string \<times> dir_entry) list"
  st_cache :: "string \<Rightarrow> fold_entry option"

text \<open>Functions of the platform: the hash and the finiteness of \<open>Date.parse\<close>.\<close>

record platform =
  pf_sha256 :: "bytes \<Rightarrow> string"
  pf_parses :: "string \<Rightarrow> bool"

definition dir_of :: "store \<Rightarrow> string \<Rightarrow> task_dir option" where
  "dir_of st t = (case map_of (st_tasks st) t of Some (Dir d) \<Rightarrow> Some d | _ \<Rightarrow> None)"

definition entryExists :: "store \<Rightarrow> string \<Rightarrow> bool" where
  "entryExists st t \<longleftrightarrow> map_of (st_tasks st) t \<noteq> None"

definition put_dir :: "string \<Rightarrow> task_dir \<Rightarrow> store \<Rightarrow> store" where
  "put_dir t d st = st\<lparr>st_tasks := AList.update t (Dir d) (st_tasks st)\<rparr>"

definition put_cache :: "string \<Rightarrow> fold_entry option \<Rightarrow> store \<Rightarrow> store" where
  "put_cache t e st = st\<lparr>st_cache := (st_cache st)(t := e)\<rparr>"

definition meta_of :: "store \<Rightarrow> string \<Rightarrow> failure + task_meta option" where
  "meta_of st t = (case map_of (st_tasks st) t of
       None \<Rightarrow> Inr None | Some Other_entry \<Rightarrow> Inl Thrown | Some (Dir d) \<Rightarrow> readMeta d t)"

section \<open>Creating a task\<close>

text \<open>
  \<open>uniqueSlug\<close> with the suffixes \<open>shortSuffix\<close> draws; \<open>None\<close> when the given draws are used up before
  a free name is found.
\<close>

fun free_slug :: "(string \<Rightarrow> bool) \<Rightarrow> string \<Rightarrow> string \<Rightarrow> string list \<Rightarrow> string option" where
  "free_slug occupied base candidate suffixes =
     (if \<not> occupied candidate then Some candidate
      else (case suffixes of
              [] \<Rightarrow> None
            | s # ss \<Rightarrow> free_slug occupied base (base @ ''-'' @ s) ss))"

declare free_slug.simps [simp del]

definition uniqueSlug :: "store \<Rightarrow> string \<Rightarrow> string list \<Rightarrow> string option" where
  "uniqueSlug st base suffixes =
     (if base = PROJECT_TASK_ID
      then (case suffixes of
              [] \<Rightarrow> None
            | s # ss \<Rightarrow> free_slug (entryExists st) base (base @ ''-'' @ s) ss)
      else free_slug (entryExists st) base base suffixes)"

record create_input =
  ci_title :: "json option"
  ci_description :: "json option"
  ci_creator :: "json option"
  ci_role :: "json option"
  ci_flow :: "json option"
  ci_cast :: "json option"
  ci_checkout :: "json option"

record create_result =
  cr_task_id :: string
  cr_status :: status
  cr_warning :: "spec_diagnostic list option"

definition created_meta ::
    "string \<Rightarrow> string \<Rightarrow> string \<Rightarrow> string \<Rightarrow> string \<Rightarrow> flow option \<Rightarrow> cast option \<Rightarrow> checkout_route option \<Rightarrow> string \<Rightarrow> task_meta" where
  "created_meta taskId title description creator role flow cast checkout now =
     \<lparr>tm_task_id = taskId, tm_title = title, tm_description = Some (JStr description), tm_creator = Some creator,
      tm_role = Some role, tm_flow = flow, tm_cast = cast, tm_checkout = checkout, tm_created_at = now,
      tm_updated_at = now, tm_version = 0, tm_cached = None\<rparr>"

text \<open>The queued part: \<open>wrote\<close> says whether \<open>writeMeta\<close> succeeds.\<close>

definition create_in ::
    "platform \<Rightarrow> string \<Rightarrow> bool \<Rightarrow> string \<Rightarrow> task_meta \<Rightarrow> string \<Rightarrow> store \<Rightarrow> (failure + create_result) \<times> store" where
  "create_in pf now wrote taskId meta description st =
     (let flow = effective_flow (tm_flow meta);
          seeded = foldWithLint (pf_parses pf) (lint_initial flow) [] flow (utf8 description);
          entry = \<lparr>fe_token = [], fe_cursor = Some seeded, fe_spec = Some (flow, JStr description), fe_probeMax = 0\<rparr>;
          meta' = cacheDerived meta (Some (lint_derived seeded));
          st1 = put_cache taskId (Some entry) (put_dir taskId empty_dir st)
      in if \<not> wrote then (Inl Thrown, st1)
         else (Inr \<lparr>cr_task_id = taskId, cr_status = ds_status (lint_derived seeded),
                    cr_warning = taskSpecWarning (utf8 description)\<rparr>,
               put_dir taskId (writeMeta meta' empty_dir) st1))"

definition createTask ::
    "platform \<Rightarrow> string \<Rightarrow> bool \<Rightarrow> string list \<Rightarrow> create_input \<Rightarrow> store
      \<Rightarrow> ((failure + create_result) \<times> store) option" where
  "createTask pf now wrote suffixes inp st =
     (case rbind (requireNonEmptyString (ci_title inp)) (\<lambda>title.
           rbind (requireNonEmptyString (ci_description inp)) (\<lambda>description.
           rbind (requireNonEmptyString (ci_creator inp)) (\<lambda>creator.
           rbind (requireNonEmptyString (ci_role inp)) (\<lambda>role.
           rbind (requireValidFlow (ci_flow inp)) (\<lambda>flow.
           rbind (requireValidCast (ci_cast inp)) (\<lambda>cast.
           rbind (requireValidCheckout (ci_checkout inp)) (\<lambda>checkout.
           Inr (title, description, creator, role, flow, cast, checkout)))))))) of
        Inl e \<Rightarrow> Some (Inl (Coded e), st)
      | Inr (title, description, creator, role, flow, cast, checkout) \<Rightarrow>
          map_option (\<lambda>taskId.
            if requireValidTaskId taskId TASK_ID_PATTERN \<noteq> Inr () then (Inl (Coded VALIDATION_ERROR), st)
            else create_in pf now wrote taskId
                   (created_meta taskId title description creator role flow cast checkout now) description st)
            (uniqueSlug st (slugify title) suffixes))"

section \<open>Appending a record\<close>

record append_input =
  ai_role :: "json option"
  ai_content_type :: "json option"
  ai_payload :: "json option"
  ai_agent :: "string option"
  ai_model :: "string option"
  ai_expected_version :: "json option"

record append_result =
  ar_version :: nat
  ar_status :: "status option"
  ar_needs_attention :: "bool option"
  ar_warnings :: "warning list"

text \<open>Where an append may be cut short.\<close>

datatype append_fault = No_fault | Record_write_fails | Crash_after_record | Meta_write_fails

text \<open>The checks at the door: role, content type, payload, expected version.\<close>

definition requirePayload :: "json option \<Rightarrow> error_code + jobject" where
  "requirePayload v = (case v of Some (JObj p) \<Rightarrow> Inr p | _ \<Rightarrow> Inl VALIDATION_ERROR)"

definition requireExpectedVersion :: "json option \<Rightarrow> error_code + nat option" where
  "requireExpectedVersion v =
     (if v = None then Inr None
      else (case nat_of v of None \<Rightarrow> Inl VALIDATION_ERROR | Some n \<Rightarrow> Inr (Some n)))"

definition validate_append ::
    "string \<Rightarrow> append_input \<Rightarrow> error_code + (string \<times> string \<times> jobject \<times> nat option)" where
  "validate_append taskId inp =
     rbind (requireNonEmptyString (Some (JStr taskId))) (\<lambda>_.
     rbind (requireValidTaskId taskId LEGACY_TASK_ID_PATTERN) (\<lambda>_.
     rbind (requireNonEmptyString (ai_role inp)) (\<lambda>role.
     rbind (requireNonEmptyString (ai_content_type inp)) (\<lambda>ct.
     rbind (requirePayload (ai_payload inp)) (\<lambda>p.
     rbind (requireNonEmptyString (pget p ''summary'')) (\<lambda>_.
     rbind (requireNonEmptyString (pget p ''body'')) (\<lambda>_.
     rbind (requireExpectedVersion (ai_expected_version inp)) (\<lambda>e.
     Inr (role, ct, p, e)))))))))"

definition new_record ::
    "nat \<Rightarrow> string \<Rightarrow> string \<Rightarrow> string \<Rightarrow> jobject \<Rightarrow> append_input \<Rightarrow> string \<Rightarrow> string option \<Rightarrow> context_record" where
  "new_record version taskId role ct p inp now tut =
     \<lparr>rec_version = version, rec_task_id = taskId, rec_role = role, rec_agent = ai_agent inp,
      rec_model = ai_model inp, rec_content_type = ct, rec_timestamp = now, rec_payload = p, rec_tut_version = tut\<rparr>"

text \<open>\<open>typeof meta.description === "string" ? meta.description : undefined\<close>.\<close>

definition string_description :: "task_meta \<Rightarrow> json option" where
  "string_description m = map_option JStr (string_of (tm_description m))"

definition next_version :: "task_meta \<Rightarrow> task_dir \<Rightarrow> nat" where
  "next_version m d = max (tm_version m) (maxRecordVersionOf (taskDirNames d)) + 1"

text \<open>The fold before the write: nothing (project scope), or the cache entry and the state after
  the record.\<close>

definition prewrite_fold ::
    "platform \<Rightarrow> task_dir \<Rightarrow> string \<Rightarrow> task_meta \<Rightarrow> context_record \<Rightarrow> fold_entry option
      \<Rightarrow> failure + (fold_entry \<times> lint_cursor) option" where
  "prewrite_fold pf d taskId m r entry =
     (if taskId = PROJECT_TASK_ID then Inr None
      else rbind (foldCursorFor (pf_sha256 pf) (pf_parses pf) d taskId (effective_flow (tm_flow m))
                    (string_description m) (taskDirNames d) [] entry) (\<lambda>e.
           rbind (description_text (string_description m)) (\<lambda>t.
             Inr (Some (e, foldWithLint (pf_parses pf) (the (fe_cursor e)) [r] (effective_flow (tm_flow m)) t)))))"

text \<open>The cache after the record landed.\<close>

definition entry_after ::
    "task_dir \<Rightarrow> task_meta \<Rightarrow> string \<Rightarrow> (fold_entry \<times> lint_cursor) option \<Rightarrow> fold_entry option \<Rightarrow> fold_entry option" where
  "entry_after d m fileName folded entry =
     (case folded of
        None \<Rightarrow> rememberFoldToken (taskDirNames d) fileName entry
      | Some (_, derived) \<Rightarrow>
          Some \<lparr>fe_token = foldTokenOf (taskDirNames d @ [fileName]), fe_cursor = Some derived,
                fe_spec = Some (effective_flow (tm_flow m), spec_description (tm_description m)),
                fe_probeMax = fc_prevVersion (lc_fold derived)\<rparr>)"

definition meta_after :: "task_meta \<Rightarrow> nat \<Rightarrow> string \<Rightarrow> (fold_entry \<times> lint_cursor) option \<Rightarrow> task_meta" where
  "meta_after m version now folded =
     m\<lparr>tm_version := version, tm_updated_at := now,
       tm_cached := map_option (\<lambda>(_, derived). lint_derived derived) folded\<rparr>"

definition append_result_of :: "nat \<Rightarrow> (fold_entry \<times> lint_cursor) option \<Rightarrow> append_result" where
  "append_result_of version folded =
     (case folded of
        None \<Rightarrow> \<lparr>ar_version = version, ar_status = None, ar_needs_attention = None, ar_warnings = []\<rparr>
      | Some (_, derived) \<Rightarrow>
          \<lparr>ar_version = version, ar_status = Some (ds_status (lint_derived derived)),
           ar_needs_attention = Some (ds_needs_attention (lint_derived derived)),
           ar_warnings = ds_warnings (lint_derived derived)\<rparr>)"

text \<open>The operation once the metadata is there; \<open>None\<close> as a result is a process that died.\<close>

definition append_with ::
    "platform \<Rightarrow> string \<Rightarrow> string option \<Rightarrow> append_fault \<Rightarrow> string \<Rightarrow> string \<times> string \<times> jobject \<times> nat option
      \<Rightarrow> append_input \<Rightarrow> task_meta \<Rightarrow> task_dir \<Rightarrow> store \<Rightarrow> (failure + append_result) option \<times> store" where
  "append_with pf now tut fault taskId checked inp m d st =
     (case checked of (role, ct, p, expected) \<Rightarrow>
      if expected \<noteq> None \<and> expected \<noteq> Some (tm_version m) then (Some (Inl (Coded VERSION_CONFLICT)), st)
      else
        (let version = next_version m d;
             r = new_record version taskId role ct p inp now tut;
             fileName = recordFileName version ct
         in case prewrite_fold pf d taskId m r (st_cache st taskId) of
              Inl f \<Rightarrow> (Some (Inl f), st)
            | Inr folded \<Rightarrow>
                (let st1 = (case folded of None \<Rightarrow> st | Some (e, _) \<Rightarrow> put_cache taskId (Some e) st)
                 in if fault = Record_write_fails then (Some (Inl Thrown), st1)
                    else (case writeRecordExclusive fileName (Doc (record_json r) 0) d of
                            Inl f \<Rightarrow> (Some (Inl f), st1)
                          | Inr d' \<Rightarrow>
                              (let st2 = put_dir taskId d' st1;
                                   st3 = put_cache taskId (entry_after d m fileName folded (st_cache st1 taskId)) st2
                               in if fault = Crash_after_record
                                  then (None, st2\<lparr>st_cache := (\<lambda>_. None)\<rparr>)
                                  else if fault = Meta_write_fails
                                  then (Some (Inr \<lparr>ar_version = version, ar_status = None,
                                          ar_needs_attention = Some True, ar_warnings = []\<rparr>), st3)
                                  else (Some (Inr (append_result_of version folded)),
                                        put_dir taskId (writeMeta (meta_after m version now folded) d') st3))))))"

definition project_meta :: "string \<Rightarrow> task_meta" where
  "project_meta now =
     \<lparr>tm_task_id = PROJECT_TASK_ID, tm_title = PROJECT_TASK_ID, tm_description = None, tm_creator = None,
      tm_role = None, tm_flow = None, tm_cast = None, tm_checkout = None, tm_created_at = now,
      tm_updated_at = now, tm_version = 0, tm_cached = None\<rparr>"

definition dir_or_empty :: "store \<Rightarrow> string \<Rightarrow> task_dir" where
  "dir_or_empty st t = (case dir_of st t of None \<Rightarrow> empty_dir | Some d \<Rightarrow> d)"

definition append_op ::
    "platform \<Rightarrow> string \<Rightarrow> string option \<Rightarrow> append_fault \<Rightarrow> string \<Rightarrow> append_input \<Rightarrow> store
      \<Rightarrow> (failure + append_result) option \<times> store" where
  "append_op pf now tut fault taskId inp st =
     (case validate_append taskId inp of
        Inl e \<Rightarrow> (Some (Inl (Coded e)), st)
      | Inr checked \<Rightarrow>
          (case meta_of st taskId of
             Inl f \<Rightarrow> (Some (Inl f), st)
           | Inr (Some m) \<Rightarrow> append_with pf now tut fault taskId checked inp m (dir_or_empty st taskId) st
           | Inr None \<Rightarrow>
               if taskId \<noteq> PROJECT_TASK_ID then (Some (Inl (Coded TASK_NOT_FOUND)), st)
               else (let m = project_meta now;
                         d = writeMeta m (dir_or_empty st taskId)
                     in append_with pf now tut fault taskId checked inp m d (put_dir taskId d st))))"

section \<open>Reading\<close>

record read_result =
  rr_title :: string
  rr_description :: "json option"
  rr_flow :: "flow option"
  rr_cast :: "cast option"
  rr_checkout :: "checkout_route option"
  rr_status :: "status option"
  rr_versions :: "context_record list"

text \<open>\<open>sinceVersion\<close> has been checked to be a non-negative integer.\<close>

definition readTask ::
    "platform \<Rightarrow> string \<Rightarrow> nat option \<Rightarrow> store \<Rightarrow> (failure + read_result) \<times> store" where
  "readTask pf taskId sinceVersion st =
     (case coded (rbind (requireNonEmptyString (Some (JStr taskId))) (\<lambda>_.
             requireValidTaskId taskId LEGACY_TASK_ID_PATTERN)) of
        Inl f \<Rightarrow> (Inl f, st)
      | Inr _ \<Rightarrow>
          (case meta_of st taskId of
             Inl f \<Rightarrow> (Inl f, st)
           | Inr None \<Rightarrow> (Inl (Coded TASK_NOT_FOUND), st)
           | Inr (Some m) \<Rightarrow>
               (let d = dir_or_empty st taskId;
                    names = taskDirNames d;
                    wanted = filter (\<lambda>name. is_record_name name \<and>
                      (case sinceVersion of None \<Rightarrow> True | Some v \<Rightarrow> v \<le> name_version name)) names
                in case readNamedRecordsPaired (pf_sha256 pf) d taskId wanted of
                     Inl f \<Rightarrow> (Inl f, st)
                   | Inr readPaired \<Rightarrow>
                       (let records = map snd readPaired;
                            versions = filter (\<lambda>r. case sinceVersion of None \<Rightarrow> True | Some v \<Rightarrow> v \<le> rec_version r) records;
                            result = \<lparr>rr_title = tm_title m, rr_description = tm_description m, rr_flow = None,
                              rr_cast = None, rr_checkout = None, rr_status = None, rr_versions = versions\<rparr>
                        in if taskId = PROJECT_TASK_ID then (Inr result, st)
                           else (case derivedFor (pf_sha256 pf) (pf_parses pf) d taskId (tm_flow m)
                                        (tm_description m) names readPaired (st_cache st taskId) of
                                   Inl f \<Rightarrow> (Inl f, st)
                                 | Inr dv \<Rightarrow>
                                     (Inr (result\<lparr>rr_flow := Some (effective_flow (tm_flow m)), rr_cast := tm_cast m,
                                             rr_checkout := tm_checkout m,
                                             rr_status := map_option (\<lambda>(v, _). ds_status (dv_state v)) dv\<rparr>),
                                      (case dv of None \<Rightarrow> st | Some (_, e) \<Rightarrow> put_cache taskId (Some e) st)))))))"

record list_entry =
  le_task_id :: string
  le_title :: string
  le_updated_at :: string
  le_version :: nat
  le_view :: "derived_view option"
  le_flow :: "flow option"
  le_cast :: "cast option"
  le_checkout :: "checkout_route option"

text \<open>
  One directory of the walk: a listed task, a degraded one, or an entry the walk ignores, and the
  cache entry afterwards.  A failed fold leaves the cache as it was.
\<close>

datatype collected = Listed list_entry | Degraded string | Ignored

definition collect_one ::
    "platform \<Rightarrow> string \<Rightarrow> dir_entry \<Rightarrow> fold_entry option \<Rightarrow> collected \<times> fold_entry option" where
  "collect_one pf taskId entry cached =
     (case entry of
        Other_entry \<Rightarrow> (Ignored, cached)
      | Dir d \<Rightarrow>
          if \<not> LEGACY_TASK_ID_PATTERN taskId then (Ignored, cached)
          else (case readMeta d taskId of
                  Inl _ \<Rightarrow> (Degraded taskId, cached)
                | Inr None \<Rightarrow> (Degraded taskId, cached)
                | Inr (Some m) \<Rightarrow>
                    (let names = taskDirNames d in
                     if taskId = PROJECT_TASK_ID
                     then (case probeRecords (pf_sha256 pf) d taskId names cached of
                             Inl _ \<Rightarrow> (Degraded taskId, cached)
                           | Inr e \<Rightarrow> (Listed \<lparr>le_task_id = taskId, le_title = tm_title m,
                               le_updated_at = tm_updated_at m, le_version = tm_version m, le_view = None,
                               le_flow = None, le_cast = None, le_checkout = None\<rparr>, Some e))
                     else (case derivedFor (pf_sha256 pf) (pf_parses pf) d taskId (tm_flow m)
                                  (tm_description m) names [] cached of
                             Inl _ \<Rightarrow> (Degraded taskId, cached)
                           | Inr None \<Rightarrow> (Ignored, cached)
                           | Inr (Some (v, e)) \<Rightarrow> (Listed \<lparr>le_task_id = taskId, le_title = tm_title m,
                               le_updated_at = tm_updated_at m,
                               le_version = max (tm_version m) (maxRecordVersionOf names), le_view = Some v,
                               le_flow = Some (effective_flow (tm_flow m)), le_cast = tm_cast m,
                               le_checkout = tm_checkout m\<rparr>, Some e)))))"

text \<open>The walk, in directory order; the code sorts both lists by identifier at the end.\<close>

fun collect_from ::
    "platform \<Rightarrow> (string \<times> dir_entry) list \<Rightarrow> store \<Rightarrow> (list_entry list \<times> string list) \<times> store" where
  "collect_from pf [] st = (([], []), st)"
| "collect_from pf ((taskId, entry) # es) st =
     (let (c, cached) = collect_one pf taskId entry (st_cache st taskId);
          ((out, degraded), st') = collect_from pf es (put_cache taskId cached st)
      in ((case c of Listed le \<Rightarrow> (le # out, degraded)
                   | Degraded t \<Rightarrow> (out, t # degraded)
                   | Ignored \<Rightarrow> (out, degraded)), st'))"

definition snapshotTasks :: "platform \<Rightarrow> store \<Rightarrow> (list_entry list \<times> string list) \<times> store" where
  "snapshotTasks pf st = collect_from pf (st_tasks st) st"

text \<open>The filter of \<open>listTasks\<close>; an entry without a derived view is the project scope.\<close>

definition listTasks :: "platform \<Rightarrow> status option \<Rightarrow> store \<Rightarrow> list_entry list" where
  "listTasks pf status st =
     (let tasks = fst (fst (snapshotTasks pf st)) in
      case status of
        None \<Rightarrow> tasks
      | Some s \<Rightarrow> filter (\<lambda>e. case le_view e of None \<Rightarrow> False | Some v \<Rightarrow> ds_status (dv_state v) = s) tasks)"

section \<open>Frame lemmas\<close>

lemma dir_of_put_dir [simp]: "dir_of (put_dir t d st) t' = (if t' = t then Some d else dir_of st t')"
  by (simp add: dir_of_def put_dir_def update_conv')

lemma dir_of_put_cache [simp]: "dir_of (put_cache t e st) t' = dir_of st t'"
  by (simp add: dir_of_def put_cache_def)

lemma dir_of_cache [simp]: "dir_of (st\<lparr>st_cache := c\<rparr>) t = dir_of st t"
  by (simp add: dir_of_def)

lemma st_cache_put [simp]:
  "st_cache (put_dir t d st) = st_cache st"
  "st_cache (put_cache t e st) = (st_cache st)(t := e)"
  "st_tasks (put_cache t e st) = st_tasks st"
  by (simp_all add: put_dir_def put_cache_def)

lemma meta_of_dir: "meta_of st t = Inr (Some m) \<Longrightarrow> \<exists>d. dir_of st t = Some d \<and> readMeta d t = Inr (Some m)"
  by (auto simp: meta_of_def dir_of_def split: option.splits dir_entry.splits)

lemma td_writeMeta [simp]:
  "td_files (writeMeta m d) = td_files d" "td_manifest (writeMeta m d) = td_manifest d"
  "td_meta (writeMeta m d) = Some (Doc (meta_json m) 0)"
  by (simp_all add: writeMeta_def)

lemma names_writeMeta:
  "td_meta d \<noteq> None \<Longrightarrow> taskDirNames (writeMeta m d) = taskDirNames d"
  by (simp add: taskDirNames_def)

lemma maxVersion_writeMeta:
  "maxRecordVersionOf (taskDirNames (writeMeta m d)) = maxRecordVersionOf (taskDirNames d)"
  by (simp add: taskDirNames_def maxRecordVersionOf_append)
    (simp add: maxRecordVersionOf_def recordFileVersion_def)

lemma writeRecordExclusive_Inr:
  "writeRecordExclusive n b d = Inr d' \<longleftrightarrow> n \<notin> set (taskDirNames d) \<and> d' = d\<lparr>td_files := td_files d @ [(n, b)]\<rparr>"
  by (auto simp: writeRecordExclusive_def)

lemma names_append: "taskDirNames (d\<lparr>td_files := td_files d @ [(n, b)]\<rparr>) = taskDirNames d @ [n]"
  by (simp add: taskDirNames_def)

text \<open>The version chosen is beyond every record file, so the exclusive write cannot collide.\<close>

lemma next_version_free: "recordFileName (next_version m d) ct \<notin> set (taskDirNames d)"
  by (rule fresh_record_name) (simp add: next_version_def)

lemma next_version_gt: "tm_version m < next_version m d \<and> maxRecordVersionOf (taskDirNames d) < next_version m d"
  by (simp add: next_version_def less_Suc_eq_le)

section \<open>Append\<close>

definition landed :: "task_dir \<Rightarrow> string \<Rightarrow> context_record \<Rightarrow> task_dir" where
  "landed d fileName r = d\<lparr>td_files := td_files d @ [(fileName, Doc (record_json r) 0)]\<rparr>"

text \<open>The cases of an append with metadata in hand.\<close>

lemma append_with_cases:
  fixes d :: task_dir and m :: task_meta and t role ct now :: string and p :: jobject
    and inp :: append_input and tut :: "string option"
  assumes "checked = (role, ct, p, expected)"
  defines "v \<equiv> next_version m d"
  defines "r \<equiv> new_record v t role ct p inp now tut"
  defines "d' \<equiv> landed d (recordFileName v ct) r"
  obtains
    (conflict) "expected \<noteq> None" "expected \<noteq> Some (tm_version m)"
      "append_with pf now tut fault t checked inp m d st = (Some (Inl (Coded VERSION_CONFLICT)), st)"
  | (prewrite) f where "prewrite_fold pf d t m r (st_cache st t) = Inl f"
      "append_with pf now tut fault t checked inp m d st = (Some (Inl f), st)"
  | (nowrite) folded where "prewrite_fold pf d t m r (st_cache st t) = Inr folded" "fault = Record_write_fails"
      "append_with pf now tut fault t checked inp m d st =
         (Some (Inl Thrown), case folded of None \<Rightarrow> st | Some (e, _) \<Rightarrow> put_cache t (Some e) st)"
  | (crash) folded where "prewrite_fold pf d t m r (st_cache st t) = Inr folded" "fault = Crash_after_record"
      "append_with pf now tut fault t checked inp m d st = (None, (put_dir t d' st)\<lparr>st_cache := \<lambda>_. None\<rparr>)"
  | (booked) folded st3 where "expected = None \<or> expected = Some (tm_version m)"
      "prewrite_fold pf d t m r (st_cache st t) = Inr folded" "fault = No_fault \<or> fault = Meta_write_fails"
      "st3 = put_cache t (entry_after d m (recordFileName v ct) folded
          (case folded of None \<Rightarrow> st_cache st t | Some (e, _) \<Rightarrow> Some e)) (put_dir t d' st)"
      "append_with pf now tut fault t checked inp m d st =
         (if fault = Meta_write_fails
          then (Some (Inr \<lparr>ar_version = v, ar_status = None, ar_needs_attention = Some True, ar_warnings = []\<rparr>), st3)
          else (Some (Inr (append_result_of v folded)), put_dir t (writeMeta (meta_after m v now folded) d') st3))"
proof (cases "expected \<noteq> None \<and> expected \<noteq> Some (tm_version m)")
  case True
  then show thesis using assms(1) by (intro conflict) (auto simp: append_with_def)
next
  case ok: False
  have wr: "writeRecordExclusive (recordFileName v ct) (Doc (record_json r) 0) d = Inr d'"
    using next_version_free [of m d ct] by (simp add: writeRecordExclusive_Inr v_def d'_def landed_def)
  show thesis
  proof (cases "prewrite_fold pf d t m r (st_cache st t)")
    case (Inl f)
    then show thesis
      using ok assms(1) by (intro prewrite) (auto simp: append_with_def Let_def v_def r_def)
  next
    case (Inr folded)
    let ?st1 = "case folded of None \<Rightarrow> st | Some (e, _) \<Rightarrow> put_cache t (Some e) st"
    have st1: "st_tasks ?st1 = st_tasks st" "st_cache ?st1 t = (case folded of None \<Rightarrow> st_cache st t | Some (e, _) \<Rightarrow> Some e)"
      by (auto split: option.split)
    have put: "put_dir t d' ?st1 = (put_dir t d' st)\<lparr>st_cache := st_cache ?st1\<rparr>"
      by (simp add: put_dir_def st1)
    have res: "append_with pf now tut fault t checked inp m d st =
        (if fault = Record_write_fails then (Some (Inl Thrown), ?st1)
         else if fault = Crash_after_record then (None, (put_dir t d' ?st1)\<lparr>st_cache := (\<lambda>_. None)\<rparr>)
         else (let st3 = put_cache t (entry_after d m (recordFileName v ct) folded (st_cache ?st1 t)) (put_dir t d' ?st1) in
           if fault = Meta_write_fails
           then (Some (Inr \<lparr>ar_version = v, ar_status = None, ar_needs_attention = Some True, ar_warnings = []\<rparr>), st3)
           else (Some (Inr (append_result_of v folded)), put_dir t (writeMeta (meta_after m v now folded) d') st3)))"
      using ok assms(1) Inr wr by (auto simp: append_with_def Let_def v_def r_def)
    have same: "put_cache t e (put_dir t d' ?st1) = put_cache t e (put_dir t d' st)" for e
      by (auto simp: put_cache_def put_dir_def split: option.split)
    show thesis
    proof (cases fault)
      case No_fault
      with res same st1 ok Inr show thesis
        by (intro booked [of folded "put_cache t (entry_after d m (recordFileName v ct) folded
          (case folded of None \<Rightarrow> st_cache st t | Some (e, _) \<Rightarrow> Some e)) (put_dir t d' st)"]) (auto simp: Let_def)
    next
      case Record_write_fails
      with res st1 Inr show thesis
        by (intro nowrite [of folded]) auto
    next
      case Crash_after_record
      with res put Inr show thesis by (intro crash [of folded]) auto
    next
      case Meta_write_fails
      with res same st1 ok Inr show thesis
        by (intro booked [of folded "put_cache t (entry_after d m (recordFileName v ct) folded
          (case folded of None \<Rightarrow> st_cache st t | Some (e, _) \<Rightarrow> Some e)) (put_dir t d' st)"]) (auto simp: Let_def)
    qed
  qed
qed

section \<open>What a landed record reads as\<close>

lemma landed_append: "n \<notin> set (taskDirNames d) \<Longrightarrow> n \<notin> fst ` set (td_files d)"
  by (auto simp: taskDirNames_def)

lemma names_landed: "taskDirNames (landed d n r) = taskDirNames d @ [n]"
  by (simp add: landed_def names_append)

lemma read_direct_record_json: "record_ok r \<Longrightarrow> read_direct (rec_task_id r) (Doc (record_json r) 0) = Some r"
  by (simp add: read_direct_def parse_json_def record_json_valid)

lemma landed_reads_new:
  assumes "n \<notin> set (taskDirNames d)" and "record_ok r" and "rec_task_id r = t"
  shows "read_record sha (landed d n r) t n = Inr r"
  using assms read_direct_record_json [OF assms(2)]
  by (simp add: read_record_def landed_def readBytes_append landed_append)

lemma landed_reads_old:
  "n \<notin> set (taskDirNames d) \<Longrightarrow> read_record sha d t n' = Inr x \<Longrightarrow> read_record sha (landed d n r) t n' = Inr x"
  unfolding landed_def by (intro read_record_append landed_append)

text \<open>Version agreement only concerns records read directly; a recovered copy is checked.\<close>

lemma recovered_version:
  assumes "recoveredRecordFor sha d t n v c = Inr (Some r)"
  shows "rec_version r = v"
  using assms unfolding recoveredRecordFor_Some by blast

lemma versions_match_direct:
  "versions_match sha d t \<longleftrightarrow>
     (\<forall>n b r. is_record_name n \<longrightarrow> readBytes d n = Some b \<longrightarrow> read_direct t b = Some r \<longrightarrow>
        recordFileVersion n = Some (rec_version r))"
proof
  assume "versions_match sha d t"
  then show "\<forall>n b r. is_record_name n \<longrightarrow> readBytes d n = Some b \<longrightarrow> read_direct t b = Some r \<longrightarrow>
      recordFileVersion n = Some (rec_version r)"
    by (auto simp: versions_match_def read_record_def)
next
  assume direct: "\<forall>n b r. is_record_name n \<longrightarrow> readBytes d n = Some b \<longrightarrow> read_direct t b = Some r \<longrightarrow>
      recordFileVersion n = Some (rec_version r)"
  show "versions_match sha d t"
    unfolding versions_match_def
  proof (intro allI impI)
    fix n r assume n: "is_record_name n" and r: "read_record sha d t n = Inr r"
    then obtain b where b: "readBytes d n = Some b"
      by (auto simp: read_record_def split: option.split_asm)
    show "recordFileVersion n = Some (rec_version r)"
    proof (cases "read_direct t b")
      case None
      then have "recoveredRecordFor sha d t n (the (recordFileVersion n)) b = Inr (Some r)"
        using r b by (auto simp: read_record_def rbind_Inr_iff split: option.split_asm)
      with n show ?thesis by (auto simp: is_record_name_def dest: recovered_version)
    next
      case (Some r')
      with r b direct n show ?thesis by (simp add: read_record_def)
    qed
  qed
qed

lemma versions_match_landed:
  assumes "versions_match sha d t" "n \<notin> set (taskDirNames d)" "record_ok r" "rec_task_id r = t"
    and "recordFileVersion n = Some (rec_version r)"
  shows "versions_match sha (landed d n r) t"
  using assms read_direct_record_json [OF assms(3)]
  unfolding versions_match_direct by (auto simp: landed_def readBytes_append landed_append)

lemma versions_match_meta [simp]: "versions_match sha (d\<lparr>td_meta := x\<rparr>) t = versions_match sha d t"
  by (simp add: versions_match_def)

lemma records_at_landed:
  assumes "n \<notin> set (taskDirNames d)" and "readable sha d t names"
  shows "readable sha (landed d n r) t names \<and> records_at sha (landed d n r) t names = records_at sha d t names"
  using assms landed_reads_old [of n d sha t _ _ r]
  by (fastforce simp: readable_def records_at_def is_ok_iff)

text \<open>The cold fold of the directory with the new record is one step on the cold fold before.\<close>

lemma cold_fold_landed:
  assumes "n \<notin> set (taskDirNames d)" "record_ok r" "rec_task_id r = t" "versions_match sha d t"
    and "recordFileVersion n = Some (rec_version r)" and "maxRecordVersionOf (taskDirNames d) < rec_version r"
    and "cold_fold sha parses d t flow desc (taskDirNames d) = Inr c" and "description_text desc = Inr tx"
  shows "cold_fold sha parses (landed d n r) t flow desc (taskDirNames (landed d n r)) =
    Inr (foldWithLint parses c [r] flow tx)"
proof -
  let ?names = "filter is_record_name (taskDirNames d)" and ?d = "landed d n r"
  have rd: "readable sha d t ?names" and c: "c = foldWithLint parses (lint_initial flow) (records_at sha d t ?names) flow tx"
    using assms(7,8) by (auto simp: cold_fold_def split: if_split_asm)
  have "is_record_name n" using assms(5) by (simp add: is_record_name_def)
  then have new: "filter is_record_name (taskDirNames ?d) = ?names @ [n]"
    by (simp add: names_landed)
  note old = records_at_landed [OF assms(1) rd, of r]
  have rn: "read_record sha ?d t n = Inr r"
    using assms by (intro landed_reads_new) auto
  have "rec_version x \<le> rec_version r" if "x \<in> set (records_at sha d t ?names)" for x
  proof -
    obtain n' where n': "n' \<in> set ?names" "x = projr (read_record sha d t n')"
      using \<open>x \<in> set (records_at sha d t ?names)\<close> by (auto simp: records_at_def)
    then have "rec_version x = name_version n'"
      using record_version_at [OF assms(4) rd, of n'] by simp
    moreover have "name_version n' \<le> maxRecordVersionOf (taskDirNames d)"
      using n'(1) maxRecordVersionOf_ge by (auto simp: name_version_def is_record_name_def)
    ultimately show ?thesis using assms(6) by simp
  qed
  then have "foldWithLint parses c [r] flow tx =
      foldWithLint parses (lint_initial flow) (records_at sha d t ?names @ [r]) flow tx"
    unfolding c by (subst lint_fold.run_append) auto
  moreover have "records_at sha ?d t (?names @ [n]) = records_at sha d t ?names @ [r]"
    using old rn by (simp add: records_at_append) (simp add: records_at_def)
  moreover have "readable sha ?d t (?names @ [n])"
    using old rn by (auto simp: readable_def)
  ultimately show ?thesis
    using assms(8) unfolding cold_fold_def new by simp
qed

section \<open>The invariant of a task\<close>

text \<open>
  For a task with readable metadata: the metadata is well formed, its description is a text, record
  contents match their names, and the cache entry is sound.
\<close>

definition task_ok :: "platform \<Rightarrow> string \<Rightarrow> task_dir \<Rightarrow> fold_entry option \<Rightarrow> bool" where
  "task_ok pf t d entry \<longleftrightarrow> t \<noteq> PROJECT_TASK_ID \<longrightarrow> versions_match (pf_sha256 pf) d t \<and>
     (\<forall>m. readMeta d t = Inr (Some m) \<longrightarrow>
        string_description m = tm_description m \<and>
        cursor_sound (pf_sha256 pf) (pf_parses pf) d t (effective_flow (tm_flow m)) (tm_description m)
          (taskDirNames d) entry)"

definition store_ok :: "platform \<Rightarrow> store \<Rightarrow> bool" where
  "store_ok pf st \<longleftrightarrow> (\<forall>t d. dir_of st t = Some d \<longrightarrow> task_ok pf t d (st_cache st t))"

lemma read_already_Nil [simp]: "read_already sha d t []"
  by (simp add: read_already_def)

lemma prewrite_fold_task:
  assumes "t \<noteq> PROJECT_TASK_ID" and "prewrite_fold pf d t m r entry = Inr folded"
    and "versions_match (pf_sha256 pf) d t" and "string_description m = tm_description m"
    and "cursor_sound (pf_sha256 pf) (pf_parses pf) d t (effective_flow (tm_flow m)) (tm_description m)
          (taskDirNames d) entry"
  shows "\<exists>e c tx. folded = Some (e, foldWithLint (pf_parses pf) c [r] (effective_flow (tm_flow m)) tx) \<and>
    description_text (tm_description m) = Inr tx \<and> fe_cursor e = Some c \<and>
    cold_fold (pf_sha256 pf) (pf_parses pf) d t (effective_flow (tm_flow m)) (tm_description m) (taskDirNames d) = Inr c \<and>
    cursor_sound (pf_sha256 pf) (pf_parses pf) d t (effective_flow (tm_flow m)) (tm_description m)
          (taskDirNames d) (Some e)"
proof -
  obtain e tx where e: "foldCursorFor (pf_sha256 pf) (pf_parses pf) d t (effective_flow (tm_flow m))
        (tm_description m) (taskDirNames d) [] entry = Inr e"
    "description_text (tm_description m) = Inr tx"
    "folded = Some (e, foldWithLint (pf_parses pf) (the (fe_cursor e)) [r] (effective_flow (tm_flow m)) tx)"
    using assms(1,2,4) by (auto simp: prewrite_fold_def rbind_Inr_iff)
  note ans = foldCursorFor_answers [OF assms(3) read_already_Nil assms(5)]
  note snd = foldCursorFor_sound [OF assms(3) read_already_Nil assms(5) e(1)]
  obtain c where "fe_cursor e = Some c" using ans e(1) by auto
  with ans e snd show ?thesis by auto
qed

lemma cursor_sound_cold:
  assumes "cold_fold sha parses d t flow desc names = Inr c"
  shows "cursor_sound sha parses d t flow desc names
    (Some \<lparr>fe_token = foldTokenOf names, fe_cursor = Some c, fe_spec = sp, fe_probeMax = pm\<rparr>)"
proof -
  have "filter (\<lambda>n. n \<in> set (foldTokenOf names)) (filter is_record_name names) = filter is_record_name names"
    using is_record_relevant by (auto simp: set_foldTokenOf filter_filter intro!: filter_cong)
  with assms show ?thesis
    by (auto simp: cursor_sound_def cold_fold_def rbind_Inr_iff Let_def split: if_split_asm)
qed

section \<open>Metadata through the store\<close>

lemma readMeta_ok:
  assumes "readMeta d t = Inr (Some m)"
  shows "meta_ok m \<and> tm_task_id m = t \<and> tm_cached m = None \<and> td_meta d \<noteq> None"
  using assms validateMetaArtifact_ok
  by (auto simp: readMeta_def coded_def rbind_Inr_iff split: option.split_asm bytes.split_asm sum.split_asm)

lemma readMeta_writeMeta:
  "meta_ok m \<Longrightarrow> tm_task_id m = t \<Longrightarrow> readMeta (writeMeta m d) t = Inr (Some (m\<lparr>tm_cached := None\<rparr>))"
  using meta_json_valid [of m] by (simp add: readMeta_def coded_def)

lemma meta_after_ok: "meta_ok m \<Longrightarrow> \<not> blank now \<Longrightarrow> meta_ok (meta_after m v now folded)"
  by (simp add: meta_ok_def meta_after_def)

lemma meta_after_fields [simp]:
  "tm_version (meta_after m v now folded) = v" "tm_task_id (meta_after m v now folded) = tm_task_id m"
  "tm_flow (meta_after m v now folded) = tm_flow m"
  "tm_description (meta_after m v now folded) = tm_description m"
  by (simp_all add: meta_after_def)

lemma readMeta_files [simp]: "readMeta (d\<lparr>td_files := fs\<rparr>) t = readMeta d t"
  by (simp add: readMeta_def)

lemma append_existing:
  assumes "meta_of st t = Inr (Some m)" and "validate_append t inp = Inr checked" and "dir_of st t = Some d"
  shows "append_op pf now tut fault t inp st = append_with pf now tut fault t checked inp m d st"
  using assms by (simp add: append_op_def dir_or_empty_def)

lemma requirePayload_Inr: "requirePayload v = Inr p \<longleftrightarrow> v = Some (JObj p)"
  by (auto simp: requirePayload_def split: option.splits json.splits)

lemma requireExpectedVersion_Inr:
  "requireExpectedVersion v = Inr e \<longleftrightarrow> (if v = None then e = None else e \<noteq> None \<and> nat_of v = e)"
  by (auto simp: requireExpectedVersion_def split: option.splits)

lemma validate_append_Inr:
  "validate_append t inp = Inr (role, ct, p, e) \<longleftrightarrow>
     \<not> blank t \<and> LEGACY_TASK_ID_PATTERN t \<and> ai_role inp = Some (JStr role) \<and> \<not> blank role \<and>
     ai_content_type inp = Some (JStr ct) \<and> \<not> blank ct \<and> ai_payload inp = Some (JObj p) \<and>
     nonempty_string (pget p ''summary'') \<and> nonempty_string (pget p ''body'') \<and>
     requireExpectedVersion (ai_expected_version inp) = Inr e"
  by (auto simp: validate_append_def rbind_Inr_iff requireNonEmptyString_Inr requirePayload_Inr
      requireValidTaskId_def nonempty_string_iff)

lemma validate_append_ok:
  assumes "validate_append t inp = Inr (role, ct, p, e)" and "1 \<le> v" and "\<not> blank now"
  shows "record_ok (new_record v t role ct p inp now tut)"
  using assms by (simp add: validate_append_Inr record_ok_def new_record_def)

text \<open>Success, read off the cases: the record landed under the next version.\<close>

lemma append_success:
  assumes "append_op pf now tut fault t inp st = (Some (Inr res), st')"
    and "meta_of st t = Inr (Some m)" and "dir_of st t = Some d"
  obtains role ct p e folded where
    "validate_append t inp = Inr (role, ct, p, e)" "e = None \<or> e = Some (tm_version m)"
    "ar_version res = next_version m d"
    "prewrite_fold pf d t m (new_record (next_version m d) t role ct p inp now tut) (st_cache st t) = Inr folded"
    "fault = No_fault \<or> fault = Meta_write_fails"
    "fault = No_fault \<longrightarrow> res = append_result_of (next_version m d) folded"
    "dir_of st' t = Some (let d' = landed d (recordFileName (next_version m d) ct)
        (new_record (next_version m d) t role ct p inp now tut)
      in if fault = No_fault then writeMeta (meta_after m (next_version m d) now folded) d' else d')"
    "st_cache st' t = entry_after d m (recordFileName (next_version m d) ct) folded
       (case folded of None \<Rightarrow> st_cache st t | Some (e, _) \<Rightarrow> Some e)"
    "\<And>t'. t' \<noteq> t \<Longrightarrow> dir_of st' t' = dir_of st t' \<and> st_cache st' t' = st_cache st t'"
proof -
  obtain role ct p e where ck: "validate_append t inp = Inr (role, ct, p, e)"
    using assms(1) by (cases "validate_append t inp") (auto simp: append_op_def)
  have eq: "append_with pf now tut fault t (role, ct, p, e) inp m d st = (Some (Inr res), st')"
    using assms append_existing [OF assms(2) ck assms(3)] by simp
  show thesis
  proof (rule append_with_cases [OF refl, where pf = pf and now = now and tut = tut and fault = fault
        and t = t and role = role and ct = ct and p = p and expected = e and inp = inp and m = m and d = d and st = st], goal_cases)
    case (5 folded st3)
    note booked = 5
    let ?v = "next_version m d"
    have res: "res = (if fault = No_fault then append_result_of ?v folded
        else \<lparr>ar_version = ?v, ar_status = None, ar_needs_attention = Some True, ar_warnings = []\<rparr>)"
      and st': "st' = (if fault = No_fault
        then put_dir t (writeMeta (meta_after m ?v now folded)
          (landed d (recordFileName ?v ct) (new_record ?v t role ct p inp now tut))) st3 else st3)"
      using eq booked(3,5) by auto
    have "ar_version (append_result_of ?v folded) = ?v"
      by (simp add: append_result_of_def split: option.split)
    with res st' booked ck show thesis
      by (intro that [OF ck]) (auto simp: Let_def)
  qed (use eq in simp_all)
qed

section \<open>A healthy task\<close>

lemma prewrite_fold_eq:
  assumes "task_ok pf t d entry" "t \<noteq> PROJECT_TASK_ID" "readMeta d t = Inr (Some m)"
  shows "(\<forall>f. cold_fold (pf_sha256 pf) (pf_parses pf) d t (effective_flow (tm_flow m)) (tm_description m)
            (taskDirNames d) = Inl f \<longrightarrow> prewrite_fold pf d t m r entry = Inl f) \<and>
    (\<forall>c. cold_fold (pf_sha256 pf) (pf_parses pf) d t (effective_flow (tm_flow m)) (tm_description m)
            (taskDirNames d) = Inr c \<longrightarrow>
       (\<exists>e tx. description_text (tm_description m) = Inr tx \<and> prewrite_fold pf d t m r entry =
          Inr (Some (e, foldWithLint (pf_parses pf) c [r] (effective_flow (tm_flow m)) tx))))"
proof -
  let ?fc = "foldCursorFor (pf_sha256 pf) (pf_parses pf) d t (effective_flow (tm_flow m)) (tm_description m)
      (taskDirNames d) [] entry"
  let ?cf = "cold_fold (pf_sha256 pf) (pf_parses pf) d t (effective_flow (tm_flow m)) (tm_description m) (taskDirNames d)"
  have sd: "string_description m = tm_description m" and vm: "versions_match (pf_sha256 pf) d t"
    and cs: "cursor_sound (pf_sha256 pf) (pf_parses pf) d t (effective_flow (tm_flow m)) (tm_description m)
          (taskDirNames d) entry"
    using assms by (auto simp: task_ok_def)
  have ans: "rbind ?fc (\<lambda>e. Inr (the (fe_cursor e))) = ?cf"
    using foldCursorFor_answers [OF vm read_already_Nil cs] by blast
  have "\<exists>tx. description_text (tm_description m) = Inr tx"
    using sd by (cases "tm_description m")
      (auto simp: description_text_def string_description_def string_of_def split: json.splits option.splits)
  then obtain tx where tx: "description_text (tm_description m) = Inr tx" by blast
  show ?thesis
    using ans tx assms(2) by (cases ?fc) (auto simp: prewrite_fold_def sd)
qed

lemma landed_task_ok:
  assumes ok: "task_ok pf t d entry" and t: "t \<noteq> PROJECT_TASK_ID" and m: "readMeta d t = Inr (Some m)"
    and fresh: "n \<notin> set (taskDirNames d)" and r: "record_ok r" "rec_task_id r = t"
    and ver: "recordFileVersion n = Some (rec_version r)" "maxRecordVersionOf (taskDirNames d) < rec_version r"
    and pre: "prewrite_fold pf d t m r entry = Inr folded"
  shows "\<exists>e c. folded = Some (e, c) \<and>
    cold_fold (pf_sha256 pf) (pf_parses pf) (landed d n r) t (effective_flow (tm_flow m)) (tm_description m)
      (taskDirNames (landed d n r)) = Inr c \<and>
    versions_match (pf_sha256 pf) (landed d n r) t \<and>
    cursor_sound (pf_sha256 pf) (pf_parses pf) (landed d n r) t (effective_flow (tm_flow m)) (tm_description m)
      (taskDirNames (landed d n r)) (entry_after d m n folded entry)"
proof -
  have h: "string_description m = tm_description m" "versions_match (pf_sha256 pf) d t"
    "cursor_sound (pf_sha256 pf) (pf_parses pf) d t (effective_flow (tm_flow m)) (tm_description m)
          (taskDirNames d) entry"
    using ok t m by (auto simp: task_ok_def)
  from prewrite_fold_task [OF t pre h(2,1,3)] obtain e c tx where
    f: "folded = Some (e, foldWithLint (pf_parses pf) c [r] (effective_flow (tm_flow m)) tx)"
    and tx: "description_text (tm_description m) = Inr tx"
    and c: "cold_fold (pf_sha256 pf) (pf_parses pf) d t (effective_flow (tm_flow m)) (tm_description m) (taskDirNames d) = Inr c"
    by blast
  note cold = cold_fold_landed [OF fresh r h(2) ver c tx]
  have "cursor_sound (pf_sha256 pf) (pf_parses pf) (landed d n r) t (effective_flow (tm_flow m)) (tm_description m)
      (taskDirNames (landed d n r)) (entry_after d m n folded entry)"
    using cursor_sound_cold [OF cold] f by (simp add: entry_after_def names_landed)
  with f cold versions_match_landed [OF h(2) fresh r ver(1)] show ?thesis by blast
qed

lemma cold_fold_writeMeta:
  assumes "td_meta d \<noteq> None"
  shows "cold_fold sha parses (writeMeta m d) t flow desc (taskDirNames (writeMeta m d)) =
    cold_fold sha parses d t flow desc (taskDirNames d)"
proof -
  have rd: "read_record sha (writeMeta m d) t n = read_record sha d t n" for n
    by (simp add: writeMeta_def)
  show ?thesis
    unfolding cold_fold_def readable_def records_at_def rd names_writeMeta [OF assms] by (rule refl)
qed

lemma task_ok_meta:
  assumes "versions_match (pf_sha256 pf) d t" and "meta_ok m'" and "tm_task_id m' = t" and "td_meta d \<noteq> None"
    and "string_description m' = tm_description m'"
    and "cursor_sound (pf_sha256 pf) (pf_parses pf) d t (effective_flow (tm_flow m')) (tm_description m')
          (taskDirNames d) entry"
  shows "task_ok pf t (writeMeta m' d) entry"
proof -
  have "readMeta (writeMeta m' d) t = Inr (Some (m'\<lparr>tm_cached := None\<rparr>))"
    using assms(2,3) by (rule readMeta_writeMeta)
  moreover have "read_record sha (writeMeta m' d) t' n = read_record sha d t' n" for sha t' n
    by (simp add: writeMeta_def)
  then have "readable sha (writeMeta m' d) t' ns = readable sha d t' ns"
    "records_at sha (writeMeta m' d) t' ns = records_at sha d t' ns" for sha t' ns
    by (simp_all add: readable_def records_at_def)
  then have "cursor_sound sha parses (writeMeta m' d) t' fl de ns en = cursor_sound sha parses d t' fl de ns en"
    for sha parses t' fl de ns en
    by (simp add: cursor_sound_def)
  ultimately show ?thesis
    using assms by (simp add: task_ok_def names_writeMeta string_description_def) (simp add: writeMeta_def)
qed

lemma append_keeps_ok:
  assumes "store_ok pf st" "t \<noteq> PROJECT_TASK_ID" "meta_of st t = Inr (Some m)" "dir_of st t = Some d" "\<not> blank now"
    and "append_op pf now tut fault t inp st = (Some (Inr res), st')"
  shows "store_ok pf st'"
proof -
  have m: "readMeta d t = Inr (Some m)"
    using assms(3,4) meta_of_dir by fastforce
  note mok = readMeta_ok [OF m]
  have tok: "task_ok pf t d (st_cache st t)"
    using assms(1,4) by (simp add: store_ok_def)
  from append_success [OF assms(6,3,4)] obtain role ct p e folded where
    ck: "validate_append t inp = Inr (role, ct, p, e)"
    and pre: "prewrite_fold pf d t m (new_record (next_version m d) t role ct p inp now tut) (st_cache st t) = Inr folded"
    and d': "dir_of st' t = Some (let d' = landed d (recordFileName (next_version m d) ct)
        (new_record (next_version m d) t role ct p inp now tut)
      in if fault = No_fault then writeMeta (meta_after m (next_version m d) now folded) d' else d')"
    and ca: "st_cache st' t = entry_after d m (recordFileName (next_version m d) ct) folded
       (case folded of None \<Rightarrow> st_cache st t | Some (e, _) \<Rightarrow> Some e)"
    and other: "\<And>t'. t' \<noteq> t \<Longrightarrow> dir_of st' t' = dir_of st t' \<and> st_cache st' t' = st_cache st t'"
    by metis
  let ?v = "next_version m d" and ?n = "recordFileName (next_version m d) ct"
  let ?r = "new_record ?v t role ct p inp now tut"
  have rok: "record_ok ?r" "rec_task_id ?r = t" "rec_version ?r = ?v"
    using validate_append_ok [OF ck, of ?v] assms(5) by (auto simp: new_record_def next_version_def)
  have ver: "recordFileVersion ?n = Some (rec_version ?r)" "maxRecordVersionOf (taskDirNames d) < rec_version ?r"
    using rok(3) next_version_gt [of m d] by (simp_all add: record_file_name_version)
  from landed_task_ok [OF tok assms(2) m next_version_free rok(1,2) ver pre] obtain e' c where
    l: "folded = Some (e', c)" "versions_match (pf_sha256 pf) (landed d ?n ?r) t"
      "cursor_sound (pf_sha256 pf) (pf_parses pf) (landed d ?n ?r) t (effective_flow (tm_flow m)) (tm_description m)
        (taskDirNames (landed d ?n ?r)) (entry_after d m ?n folded (st_cache st t))"
    by blast
  have ca': "st_cache st' t = entry_after d m ?n folded (st_cache st t)"
    using ca l(1) by (simp add: entry_after_def)
  have sd: "string_description m = tm_description m"
    using tok assms(2) m by (simp add: task_ok_def)
  have "td_meta (landed d ?n ?r) \<noteq> None" "readMeta (landed d ?n ?r) t = Inr (Some m)"
    using mok m by (simp_all add: landed_def)
  then have "task_ok pf t (writeMeta (meta_after m ?v now folded) (landed d ?n ?r)) (st_cache st' t)"
    and "task_ok pf t (landed d ?n ?r) (st_cache st' t)"
    unfolding ca' using l mok sd assms(5)
    by (auto intro!: task_ok_meta meta_after_ok simp: string_description_def) (simp add: task_ok_def string_description_def)
  with d' have "task_ok pf t (the (dir_of st' t)) (st_cache st' t)"
    by (simp add: Let_def)
  with assms(1) other d' show ?thesis
    unfolding store_ok_def by (metis option.sel)
qed

lemma append_healthy:
  assumes "store_ok pf st" and "t \<noteq> PROJECT_TASK_ID" and "meta_of st t = Inr (Some m)" and "dir_of st t = Some d"
    and "validate_append t inp = Inr (role, ct, p, e)" and "e = None \<or> e = Some (tm_version m)" and "\<not> blank now"
    and "cold_fold (pf_sha256 pf) (pf_parses pf) d t (effective_flow (tm_flow m)) (tm_description m) (taskDirNames d) = Inr c"
  shows "\<exists>res st' d' c'. append_op pf now tut No_fault t inp st = (Some (Inr res), st') \<and> store_ok pf st' \<and>
    dir_of st' t = Some d' \<and>
    cold_fold (pf_sha256 pf) (pf_parses pf) d' t (effective_flow (tm_flow m)) (tm_description m) (taskDirNames d') = Inr c' \<and>
    ar_status res = Some (fc_status (lc_fold c')) \<and> ar_warnings res = fc_warnings (lc_fold c')"
proof -
  let ?v = "next_version m d" and ?n = "recordFileName (next_version m d) ct"
  let ?r = "new_record ?v t role ct p inp now tut"
  have m: "readMeta d t = Inr (Some m)"
    using assms(3,4) meta_of_dir by fastforce
  have tok: "task_ok pf t d (st_cache st t)"
    using assms(1,4) by (simp add: store_ok_def)
  have rok: "record_ok ?r" "rec_task_id ?r = t" "rec_version ?r = ?v"
    using validate_append_ok [OF assms(5), of ?v] assms(7) by (auto simp: new_record_def next_version_def)
  have ver: "recordFileVersion ?n = Some (rec_version ?r)" "maxRecordVersionOf (taskDirNames d) < rec_version ?r"
    using rok(3) next_version_gt [of m d] by (simp_all add: record_file_name_version)
  obtain e' tx where pre: "prewrite_fold pf d t m ?r (st_cache st t) =
      Inr (Some (e', foldWithLint (pf_parses pf) c [?r] (effective_flow (tm_flow m)) tx))"
    using prewrite_fold_eq [OF tok assms(2) m] assms(8) by blast
  then obtain folded where pre': "prewrite_fold pf d t m ?r (st_cache st t) = Inr folded" by blast
  from landed_task_ok [OF tok assms(2) m next_version_free rok(1,2) ver pre'] obtain e2 c' where
    l: "folded = Some (e2, c')"
      "cold_fold (pf_sha256 pf) (pf_parses pf) (landed d ?n ?r) t (effective_flow (tm_flow m)) (tm_description m)
        (taskDirNames (landed d ?n ?r)) = Inr c'"
    by blast
  have lands: "writeRecordExclusive ?n (Doc (record_json ?r) 0) d = Inr (landed d ?n ?r)"
    using next_version_free [of m d ct] by (simp add: writeRecordExclusive_Inr landed_def)
  obtain st' where app: "append_op pf now tut No_fault t inp st = (Some (Inr (append_result_of ?v folded)), st')"
      and d': "dir_of st' t = Some (writeMeta (meta_after m ?v now folded) (landed d ?n ?r))"
    using append_existing [OF assms(3,5,4)] assms(6) pre' lands by (auto simp: append_with_def Let_def)
  have "td_meta (landed d ?n ?r) \<noteq> None"
    using readMeta_ok [OF m] by (simp add: landed_def)
  with l(2) have "cold_fold (pf_sha256 pf) (pf_parses pf) (writeMeta m' (landed d ?n ?r)) t (effective_flow (tm_flow m))
      (tm_description m) (taskDirNames (writeMeta m' (landed d ?n ?r))) = Inr c'" for m'
    by (simp only: cold_fold_writeMeta not_False_eq_True)
  moreover have "store_ok pf st'"
    using append_keeps_ok [OF assms(1-4,7) app] .
  moreover have "ar_status (append_result_of ?v folded) = Some (fc_status (lc_fold c'))"
    "ar_warnings (append_result_of ?v folded) = fc_warnings (lc_fold c')"
    using l(1) by (simp_all add: append_result_of_def lint_derived_def derived_of_def Let_def)
  ultimately show ?thesis using app d' by blast
qed

lemma append_crash_total:
  assumes "store_ok pf st" and "t \<noteq> PROJECT_TASK_ID" and "meta_of st t = Inr (Some m)" and "dir_of st t = Some d"
    and "validate_append t inp = Inr (role, ct, p, e)" and "e = None \<or> e = Some (tm_version m)" and "\<not> blank now"
    and "cold_fold (pf_sha256 pf) (pf_parses pf) d t (effective_flow (tm_flow m)) (tm_description m) (taskDirNames d) = Inr c"
  shows "\<exists>st' d' c'. append_op pf now tut Crash_after_record t inp st = (None, st') \<and> store_ok pf st' \<and>
    dir_of st' t = Some d' \<and> meta_of st' t = Inr (Some m) \<and>
    cold_fold (pf_sha256 pf) (pf_parses pf) d' t (effective_flow (tm_flow m)) (tm_description m) (taskDirNames d') = Inr c'"
proof -
  let ?v = "next_version m d" and ?n = "recordFileName (next_version m d) ct"
  let ?r = "new_record ?v t role ct p inp now tut"
  let ?st' = "(put_dir t (landed d ?n ?r) st)\<lparr>st_cache := \<lambda>_. None\<rparr>"
  have m: "readMeta d t = Inr (Some m)"
    using assms(3,4) meta_of_dir by fastforce
  have tok: "task_ok pf t d (st_cache st t)"
    using assms(1,4) by (simp add: store_ok_def)
  have rok: "record_ok ?r" "rec_task_id ?r = t" "rec_version ?r = ?v"
    using validate_append_ok [OF assms(5), of ?v] assms(7) by (auto simp: new_record_def next_version_def)
  have ver: "recordFileVersion ?n = Some (rec_version ?r)" "maxRecordVersionOf (taskDirNames d) < rec_version ?r"
    using rok(3) next_version_gt [of m d] by (simp_all add: record_file_name_version)
  obtain folded where pre: "prewrite_fold pf d t m ?r (st_cache st t) = Inr folded"
    using prewrite_fold_eq [OF tok assms(2) m] assms(8) by blast
  from landed_task_ok [OF tok assms(2) m next_version_free rok(1,2) ver pre] obtain c' where
    l: "cold_fold (pf_sha256 pf) (pf_parses pf) (landed d ?n ?r) t (effective_flow (tm_flow m)) (tm_description m)
        (taskDirNames (landed d ?n ?r)) = Inr c'" "versions_match (pf_sha256 pf) (landed d ?n ?r) t"
    by blast
  have lands: "writeRecordExclusive ?n (Doc (record_json ?r) 0) d = Inr (landed d ?n ?r)"
    using next_version_free [of m d ct] by (simp add: writeRecordExclusive_Inr landed_def)
  have app: "append_op pf now tut Crash_after_record t inp st = (None, ?st')"
    using append_existing [OF assms(3,5,4)] assms(6) pre lands
    by (auto simp: append_with_def Let_def put_dir_def split: option.split)
  have rm: "readMeta (landed d ?n ?r) t = Inr (Some m)" using m by (simp add: landed_def)
  then have "meta_of ?st' t = Inr (Some m)"
    by (simp add: meta_of_def put_dir_def update_conv')
  moreover have "string_description m = tm_description m"
    using tok assms(2) m by (simp add: task_ok_def)
  then have "task_ok pf t (landed d ?n ?r) None"
    using rm l(2) by (simp add: task_ok_def cursor_sound_def)
  moreover have "task_ok pf t' d' None" if "task_ok pf t' d' en" for t' d' en
    using that by (simp add: task_ok_def cursor_sound_def)
  moreover have "store_ok pf ?st'"
    unfolding store_ok_def
  proof (intro allI impI)
    fix t' d' assume d': "dir_of ?st' t' = Some d'"
    show "task_ok pf t' d' (st_cache ?st' t')"
    proof (cases "t' = t")
      case True
      with d' calculation(2) show ?thesis by simp
    next
      case False
      with d' have "task_ok pf t' d' (st_cache st t')"
        using assms(1) by (simp add: store_ok_def)
      then show ?thesis using calculation(3) by simp
    qed
  qed
  ultimately show ?thesis using app l(1) by fastforce
qed

section \<open>A sample store\<close>

text \<open>A store with one task and no records, and a note to append to it.\<close>

definition one_task_meta :: task_meta where
  "one_task_meta = \<lparr>tm_task_id = ''t'', tm_title = ''T'', tm_description = None, tm_creator = None, tm_role = None,
     tm_flow = None, tm_cast = None, tm_checkout = None, tm_created_at = ''c'', tm_updated_at = ''c'',
     tm_version = 0, tm_cached = None\<rparr>"

definition one_task :: store where
  "one_task = \<lparr>st_tasks = [(''t'', Dir (writeMeta one_task_meta empty_dir))], st_cache = \<lambda>_. None\<rparr>"

definition a_note :: "nat option \<Rightarrow> append_input" where
  "a_note expected = \<lparr>ai_role = Some (JStr ''executor''), ai_content_type = Some (JStr ''note''),
     ai_payload = Some (JObj [(''summary'', JStr ''s''), (''body'', JStr ''b'')]),
     ai_agent = None, ai_model = None, ai_expected_version = map_option (\<lambda>n. JNum (of_nat n)) expected\<rparr>"

definition sample_platform :: platform where
  "sample_platform = \<lparr>pf_sha256 = (\<lambda>_. []), pf_parses = (\<lambda>_. True)\<rparr>"

lemma one_task_meta_of:
  "dir_of one_task ''t'' = Some (writeMeta one_task_meta empty_dir)"
  "meta_of one_task ''t'' = Inr (Some one_task_meta)"
proof -
  have "meta_ok one_task_meta"
    by (simp add: one_task_meta_def meta_ok_def blank_def is_space_def)
  from readMeta_writeMeta [OF this, of "''t''" empty_dir]
  have "readMeta (writeMeta one_task_meta empty_dir) ''t'' = Inr (Some one_task_meta)"
    by (simp add: one_task_meta_def)
  then show "meta_of one_task ''t'' = Inr (Some one_task_meta)"
    by (simp add: meta_of_def one_task_def)
qed (simp add: one_task_def dir_of_def)

lemma one_task_names [simp]: "taskDirNames (writeMeta m empty_dir) = [''meta.json'']"
  by (simp add: taskDirNames_def empty_dir_def)

lemma one_task_ok: "store_ok pf one_task"
proof -
  have "readMeta (writeMeta one_task_meta empty_dir) ''t'' = Inr (Some m) \<Longrightarrow> m = one_task_meta" for m
    using one_task_meta_of(2) by (simp add: meta_of_def one_task_def)
  then show ?thesis
    by (auto simp: store_ok_def one_task_def dir_of_def task_ok_def versions_match_def cursor_sound_def
      read_record_def readBytes_def empty_dir_def one_task_meta_def string_description_def split: if_split_asm)
qed

lemma a_note_valid: "validate_append ''t'' (a_note e) = Inr (''executor'', ''note'',
    [(''summary'', JStr ''s''), (''body'', JStr ''b'')], e)"
  by (cases e) (simp_all add: validate_append_Inr a_note_def blank_def is_space_def LEGACY_TASK_ID_PATTERN_def
      lower_alnum_def nonempty_string_def requireExpectedVersion_def)

lemma one_task_cold:
  "\<exists>c. cold_fold sha parses (writeMeta one_task_meta empty_dir) ''t'' Full None
     (taskDirNames (writeMeta one_task_meta empty_dir)) = Inr c"
  by (simp add: cold_fold_def readable_def description_text_def)

lemma one_task_side:
  "''t'' \<noteq> PROJECT_TASK_ID" "None = None \<or> None = Some (tm_version one_task_meta)"
  "Some 0 = None \<or> Some 0 = Some (tm_version one_task_meta)" "\<not> blank ''now''"
  by (simp_all add: PROJECT_TASK_ID_def one_task_meta_def blank_def is_space_def)

lemma one_task_cold_fold:
  "\<exists>c. cold_fold (pf_sha256 pf) (pf_parses pf) (writeMeta one_task_meta empty_dir)
      ''t'' (effective_flow (tm_flow one_task_meta)) (tm_description one_task_meta)
      (taskDirNames (writeMeta one_task_meta empty_dir)) = Inr c"
  using one_task_cold by (fastforce simp: one_task_meta_def effective_flow_def)

lemma one_task_append:
  "\<exists>res st'. append_op sample_platform ''now'' None No_fault ''t'' (a_note (Some 0)) one_task = (Some (Inr res), st')"
proof -
  obtain c where c: "cold_fold (pf_sha256 sample_platform) (pf_parses sample_platform) (writeMeta one_task_meta empty_dir)
      ''t'' (effective_flow (tm_flow one_task_meta)) (tm_description one_task_meta)
      (taskDirNames (writeMeta one_task_meta empty_dir)) = Inr c"
    using one_task_cold_fold by blast
  show ?thesis
    using append_healthy [OF one_task_ok one_task_side(1) one_task_meta_of(2,1) a_note_valid one_task_side(3,4) c, of None]
    by blast
qed

lemma one_task_crash:
  "\<exists>st' res st2. append_op sample_platform ''now'' None Crash_after_record ''t'' (a_note None) one_task = (None, st') \<and>
     append_op sample_platform ''now'' None No_fault ''t'' (a_note None) st' = (Some (Inr res), st2)"
proof -
  obtain c where c: "cold_fold (pf_sha256 sample_platform) (pf_parses sample_platform) (writeMeta one_task_meta empty_dir)
      ''t'' (effective_flow (tm_flow one_task_meta)) (tm_description one_task_meta)
      (taskDirNames (writeMeta one_task_meta empty_dir)) = Inr c"
    using one_task_cold_fold by blast
  from append_crash_total [OF one_task_ok one_task_side(1) one_task_meta_of(2,1) a_note_valid one_task_side(2,4) c, of None]
  obtain st' d' c' where s: "append_op sample_platform ''now'' None Crash_after_record ''t'' (a_note None) one_task = (None, st')"
    "store_ok sample_platform st'" "dir_of st' ''t'' = Some d'" "meta_of st' ''t'' = Inr (Some one_task_meta)"
    "cold_fold (pf_sha256 sample_platform) (pf_parses sample_platform) d' ''t'' (effective_flow (tm_flow one_task_meta))
       (tm_description one_task_meta) (taskDirNames d') = Inr c'"
    by blast
  from append_healthy [OF s(2) one_task_side(1) s(4,3) a_note_valid one_task_side(2,4) s(5), of None] s(1)
  show ?thesis by blast
qed

section \<open>Properties\<close>



text \<open>On a healthy task every valid publish lands, its answer is what a cold reader of the new
  directory computes, and the store stays healthy: the cache never shows in the result.\<close>

theorem append_result_is_cold:
  assumes "store_ok pf st" and "t \<noteq> PROJECT_TASK_ID" and "meta_of st t = Inr (Some m)" and "dir_of st t = Some d"
    and "validate_append t inp = Inr (role, ct, p, e)" and "e = None \<or> e = Some (tm_version m)" and "\<not> blank now"
    and "cold_fold (pf_sha256 pf) (pf_parses pf) d t (effective_flow (tm_flow m)) (tm_description m) (taskDirNames d) = Inr c"
  shows "\<exists>res st' d' c'. append_op pf now tut No_fault t inp st = (Some (Inr res), st') \<and> store_ok pf st' \<and>
    dir_of st' t = Some d' \<and>
    cold_fold (pf_sha256 pf) (pf_parses pf) d' t (effective_flow (tm_flow m)) (tm_description m) (taskDirNames d') = Inr c' \<and>
    ar_status res = Some (fc_status (lc_fold c')) \<and> ar_warnings res = fc_warnings (lc_fold c')"
  using assms by (rule append_healthy)

theorem append_result_is_cold_witness:
  "\<exists>res st'. append_op sample_platform ''now'' None No_fault ''t'' (a_note (Some 0)) one_task = (Some (Inr res), st') \<and>
     store_ok sample_platform st' \<and> ar_status res \<noteq> None"
proof -
  have *: "''t'' \<noteq> PROJECT_TASK_ID" "Some 0 = None \<or> Some 0 = Some (tm_version one_task_meta)" "\<not> blank ''now''"
    by (simp_all add: PROJECT_TASK_ID_def one_task_meta_def blank_def is_space_def)
  obtain c where "cold_fold (pf_sha256 sample_platform) (pf_parses sample_platform) (writeMeta one_task_meta empty_dir)
      ''t'' (effective_flow (tm_flow one_task_meta)) (tm_description one_task_meta)
      (taskDirNames (writeMeta one_task_meta empty_dir)) = Inr c"
    using one_task_cold by (fastforce simp: one_task_meta_def effective_flow_def)
  from append_result_is_cold [OF one_task_ok *(1) one_task_meta_of(2,1) a_note_valid *(2,3) this, of None]
  show ?thesis by (metis option.distinct(1))
qed

section \<open>Damaged records\<close>

text \<open>
  The files whose bytes a store still sees: a warm entry of the same flow and description, whose
  files are all still there and whose newcomers all have higher versions, vouches for the files of
  its token; every other record file is read again by the next publish.  A process that just
  started has no entry and vouches for none.
\<close>

definition vouched :: "task_meta \<Rightarrow> string list \<Rightarrow> fold_entry option \<Rightarrow> string \<Rightarrow> bool" where
  "vouched m names entry n \<longleftrightarrow>
     (case entry of
        None \<Rightarrow> False
      | Some e \<Rightarrow>
          (case fe_cursor e of
             None \<Rightarrow> False
           | Some c \<Rightarrow>
               fe_spec e = Some (effective_flow (tm_flow m), spec_description (string_description m)) \<and>
               n \<in> set (fe_token e) \<and>
               (fe_token e = foldTokenOf names \<or> extensible (fe_token e) names (fc_prevVersion (lc_fold c)))))"

definition damage_seen :: "platform \<Rightarrow> string \<Rightarrow> task_meta \<Rightarrow> task_dir \<Rightarrow> fold_entry option \<Rightarrow> bool" where
  "damage_seen pf t m d entry \<longleftrightarrow>
     list_ex (\<lambda>n. is_record_name n \<and> \<not> vouched m (taskDirNames d) entry n \<and>
                  \<not> is_ok (read_record (pf_sha256 pf) d t n)) (taskDirNames d)"

lemma string_description_text: "\<exists>tx. description_text (string_description m) = Inr tx"
  by (cases "tm_description m")
    (auto simp: description_text_def string_description_def string_of_def split: json.splits option.splits)

lemma fold_files_read:
  assumes "list_all is_record_name files"
  shows "if readable sha d t files
    then \<exists>e. fold_files sha parses d t flow (string_description m) names [] cursor files = Inr e
    else fold_files sha parses d t flow (string_description m) names [] cursor files = Inl (Coded VALIDATION_ERROR)"
  using string_description_text [of m] load_records_eq [OF read_already_Nil assms, of sha d t]
  by (auto simp: fold_files_def Let_def)

lemma additions_records:
  "extensible token names through \<Longrightarrow> list_all is_record_name (additions token names)"
  by (auto simp: extensible_def list_all_iff is_record_name_def split: option.splits)

lemma additions_set:
  "set (additions token names) = {n \<in> set names. isFoldRelevantName n \<and> n \<notin> set token}"
  by (auto simp: additions_def)

text \<open>The fold before a write fails exactly on the files it reads again.\<close>

lemma foldCursorFor_damage:
  fixes pf :: platform and t :: string and d :: task_dir and m :: task_meta and entry :: "fold_entry option"
  defines "fc \<equiv> foldCursorFor (pf_sha256 pf) (pf_parses pf) d t (effective_flow (tm_flow m)) (string_description m)
      (taskDirNames d) [] entry"
  shows "if damage_seen pf t m d entry then fc = Inl (Coded VALIDATION_ERROR) else (\<exists>e. fc = Inr e)"
proof -
  let ?names = "taskDirNames d"
  let ?onto = "fold_files (pf_sha256 pf) (pf_parses pf) d t (effective_flow (tm_flow m)) (string_description m) ?names []"
  let ?cold = "?onto (lint_initial (effective_flow (tm_flow m))) (filter is_record_name ?names)"
  have answer: "if \<not> readable (pf_sha256 pf) d t fs then ?onto c fs = Inl (Coded VALIDATION_ERROR) else (\<exists>e. ?onto c fs = Inr e)"
    if "list_all is_record_name fs" for c fs
    using fold_files_read [OF that, of "pf_sha256 pf" d t "pf_parses pf" "effective_flow (tm_flow m)" m ?names c]
    by auto
  have cold: ?thesis if "fc = ?cold" "\<And>n. \<not> vouched m ?names entry n"
  proof -
    have "damage_seen pf t m d entry \<longleftrightarrow> \<not> readable (pf_sha256 pf) d t (filter is_record_name ?names)"
      using that(2) by (auto simp: damage_seen_def readable_def list_ex_iff)
    with answer [of "filter is_record_name ?names"] that(1) show ?thesis by (simp add: list_all_iff)
  qed
  show ?thesis
  proof (cases entry)
    case None
    then show ?thesis by (intro cold) (simp_all add: fc_def foldCursorFor_def vouched_def)
  next
    case (Some e)
    show ?thesis
    proof (cases "fe_spec e = Some (effective_flow (tm_flow m), spec_description (string_description m)) \<and> fe_cursor e \<noteq> None")
      case False
      with Some show ?thesis
        by (intro cold) (auto simp: fc_def foldCursorFor_def vouched_def Let_def split: option.splits)
    next
      case True
      then obtain c where c: "fe_cursor e = Some c" by blast
      consider (same) "fe_token e = foldTokenOf ?names"
        | (more) "fe_token e \<noteq> foldTokenOf ?names" "extensible (fe_token e) ?names (fc_prevVersion (lc_fold c))"
        | (other) "fe_token e \<noteq> foldTokenOf ?names" "\<not> extensible (fe_token e) ?names (fc_prevVersion (lc_fold c))"
        by blast
      then show ?thesis
      proof cases
        case same
        then have "vouched m ?names entry n" if "n \<in> set ?names" "is_record_name n" for n
          using Some True c that is_record_relevant by (simp add: vouched_def set_foldTokenOf)
        then have "\<not> damage_seen pf t m d entry"
          by (auto simp: damage_seen_def list_ex_iff)
        with same Some True c show ?thesis by (simp add: fc_def foldCursorFor_def)
      next
        case more
        have "damage_seen pf t m d entry \<longleftrightarrow> \<not> readable (pf_sha256 pf) d t (additions (fe_token e) ?names)"
          using Some True c more is_record_relevant additions_records [OF more(2)]
          by (auto simp: damage_seen_def readable_def list_ex_iff vouched_def additions_set list_all_iff)
        with answer [OF additions_records [OF more(2)]] Some True c more show ?thesis
          by (simp add: fc_def foldCursorFor_def)
      next
        case other
        with Some True c show ?thesis
          by (intro cold) (simp_all add: fc_def foldCursorFor_def vouched_def)
      qed
    qed
  qed
qed

lemma prewrite_fold_damage:
  assumes "t \<noteq> PROJECT_TASK_ID"
  shows "if damage_seen pf t m d entry then prewrite_fold pf d t m r entry = Inl (Coded VALIDATION_ERROR)
    else (\<exists>x. prewrite_fold pf d t m r entry = Inr (Some x))"
  using foldCursorFor_damage [of pf t m d entry] string_description_text [of m] assms
  by (auto simp: prewrite_fold_def split: if_split_asm)

text \<open>C8. A publish on a task is refused, before a byte is written and with the store as it was, when
  a record file that the store has to read again does not read: always in a process that just
  started, and in a warm one unless the file is one its cached fold vouches for.  When every file
  it reads again does read, no damage elsewhere stops it: a well-formed publish that names no
  stale version succeeds.\<close>

theorem append_refuses_damage:
  assumes "t \<noteq> PROJECT_TASK_ID" and "meta_of st t = Inr (Some m)" and "dir_of st t = Some d"
  shows "if damage_seen pf t m d (st_cache st t)
    then \<forall>inp fault. \<exists>f. append_op pf now tut fault t inp st = (Some (Inl f), st) \<and>
           (f = Coded VALIDATION_ERROR \<or> f = Coded VERSION_CONFLICT \<or> (\<exists>e. validate_append t inp = Inl e \<and> f = Coded e))
    else \<forall>inp role ct p e. validate_append t inp = Inr (role, ct, p, e) \<longrightarrow> e = None \<or> e = Some (tm_version m) \<longrightarrow>
           (\<exists>res st'. append_op pf now tut No_fault t inp st = (Some (Inr res), st'))"
proof (cases "damage_seen pf t m d (st_cache st t)")
  case True
  then have pre: "prewrite_fold pf d t m r (st_cache st t) = Inl (Coded VALIDATION_ERROR)" for r
    using prewrite_fold_damage [OF assms(1), of pf m d "st_cache st t" r] by simp
  have "\<exists>f. append_op pf now tut fault t inp st = (Some (Inl f), st) \<and>
      (f = Coded VALIDATION_ERROR \<or> f = Coded VERSION_CONFLICT \<or> (\<exists>e. validate_append t inp = Inl e \<and> f = Coded e))"
    for inp fault
  proof (cases "validate_append t inp")
    case (Inr checked)
    with append_existing [OF assms(2) Inr assms(3)] pre show ?thesis
      by (cases checked) (auto simp: append_with_def Let_def)
  qed (simp add: append_op_def)
  with True show ?thesis by simp
next
  case False
  have "\<exists>res st'. append_op pf now tut No_fault t inp st = (Some (Inr res), st')"
    if v: "validate_append t inp = Inr (role, ct, p, e)" and e: "e = None \<or> e = Some (tm_version m)" for inp role ct p e
  proof -
    obtain x where "prewrite_fold pf d t m (new_record (next_version m d) t role ct p inp now tut) (st_cache st t) = Inr (Some x)"
      using prewrite_fold_damage [OF assms(1), of pf m d "st_cache st t"] False by fastforce
    with append_existing [OF assms(2) v assms(3)] e next_version_free [of m d ct] show ?thesis
      by (cases x) (auto simp: append_with_def Let_def writeRecordExclusive_def)
  qed
  with False show ?thesis by simp
qed

text \<open>The same task with a record file that does not parse, in a process that just started.\<close>

definition damaged_dir :: task_dir where
  "damaged_dir = (writeMeta one_task_meta empty_dir)\<lparr>td_files := [(''v001.note.json'', Junk ''x'')]\<rparr>"

definition damaged_task :: store where
  "damaged_task = \<lparr>st_tasks = [(''t'', Dir damaged_dir)], st_cache = \<lambda>_. None\<rparr>"

text \<open>And in one that folded the file before its bytes rotted.\<close>

definition folded_note :: fold_entry where
  "folded_note = \<lparr>fe_token = [''v001.note.json''],
     fe_cursor = Some (foldWithLint (\<lambda>_. True) (lint_initial Full)
       [new_record 1 ''t'' ''executor'' ''note'' [(''summary'', JStr ''s''), (''body'', JStr ''b'')] (a_note None) ''now'' None] Full []),
     fe_spec = Some (Full, spec_description None), fe_probeMax = 1\<rparr>"

definition warm_damaged_task :: store where
  "warm_damaged_task = \<lparr>st_tasks = [(''t'', Dir damaged_dir)], st_cache = \<lambda>_. Some folded_note\<rparr>"

lemma damaged_reads: "read_record sha damaged_dir t n = Inl (Coded VALIDATION_ERROR)"
  by (simp add: read_record_def damaged_dir_def readBytes_def read_direct_def parse_json_def
      recoveredRecordFor_def readRecoveryEntries_def last_entry_def writeMeta_def empty_dir_def)

lemma damaged_names: "taskDirNames damaged_dir = [''meta.json'', ''v001.note.json'']"
  by (simp add: damaged_dir_def taskDirNames_def writeMeta_def empty_dir_def)

lemma damaged_version: "recordFileVersion ''v001.note.json'' = Some 1"
  by (simp add: recordFileVersion_def is_digit_def ends_with_def line_terminator_def read_nat_def)

lemma meta_version: "recordFileVersion ''meta.json'' = None"
  by (simp add: recordFileVersion_def)

lemma damaged_meta: "readMeta damaged_dir ''t'' = Inr (Some one_task_meta)"
  using one_task_meta_of(2) by (simp add: damaged_dir_def meta_of_def one_task_def)

lemma damaged_facts:
  "dir_of damaged_task ''t'' = Some damaged_dir" "meta_of damaged_task ''t'' = Inr (Some one_task_meta)"
  "dir_of warm_damaged_task ''t'' = Some damaged_dir" "meta_of warm_damaged_task ''t'' = Inr (Some one_task_meta)"
  "damage_seen pf ''t'' one_task_meta damaged_dir (st_cache damaged_task ''t'')"
  "\<not> damage_seen pf ''t'' one_task_meta damaged_dir (st_cache warm_damaged_task ''t'')"
  using damaged_meta
  by (simp_all add: damaged_task_def warm_damaged_task_def folded_note_def dir_of_def meta_of_def damage_seen_def
      vouched_def damaged_reads damaged_names damaged_version meta_version is_record_name_def foldTokenOf_def
      isFoldRelevantName_def ends_with_def string_description_def one_task_meta_def effective_flow_def)

theorem append_refuses_damage_witness:
  "(\<exists>f. append_op sample_platform ''now'' None No_fault ''t'' (a_note None) damaged_task = (Some (Inl f), damaged_task)) \<and>
   (\<exists>res st'. append_op sample_platform ''now'' None No_fault ''t'' (a_note None) warm_damaged_task = (Some (Inr res), st'))"
  using append_refuses_damage [OF one_task_side(1) damaged_facts(2,1), of sample_platform "''now''" None]
    append_refuses_damage [OF one_task_side(1) damaged_facts(4,3), of sample_platform "''now''" None]
    damaged_facts(5,6) a_note_valid [of None]
  by simp blast

section \<open>Crashes, races, listings\<close>

lemma append_crash:
  assumes "append_op pf now tut Crash_after_record t inp st = (None, st')"
    and "meta_of st t = Inr (Some m)" and "dir_of st t = Some d"
  shows "\<exists>n r. n = recordFileName (rec_version r) (rec_content_type r) \<and> rec_version r = next_version m d \<and>
    n \<notin> set (taskDirNames d) \<and> dir_of st' t = Some (landed d n r) \<and> meta_of st' t = Inr (Some m)"
proof -
  obtain role ct p e where ck: "validate_append t inp = Inr (role, ct, p, e)"
    using assms(1) by (cases "validate_append t inp") (auto simp: append_op_def)
  have eq: "append_with pf now tut Crash_after_record t (role, ct, p, e) inp m d st = (None, st')"
    using assms append_existing [OF assms(2) ck assms(3)] by simp
  let ?r = "new_record (next_version m d) t role ct p inp now tut"
  let ?n = "recordFileName (next_version m d) ct"
  have st': "dir_of st' t = Some (landed d ?n ?r)"
    by (rule append_with_cases [OF refl, where pf = pf and now = now and tut = tut and fault = Crash_after_record
        and t = t and role = role and ct = ct and p = p and expected = e and inp = inp and m = m and d = d and st = st])
      (use eq in auto)
  have "readMeta (landed d ?n ?r) t = Inr (Some m)"
    using assms(2,3) meta_of_dir by (fastforce simp: landed_def)
  then have "meta_of st' t = Inr (Some m)"
    using st' by (auto simp: meta_of_def dir_of_def split: option.splits dir_entry.splits)
  moreover have "rec_version ?r = next_version m d \<and> rec_content_type ?r = ct"
    by (simp add: new_record_def)
  ultimately show ?thesis
    using st' next_version_free [of m d ct] by metis
qed

lemma foldCursorFor_cursor:
  "foldCursorFor sha parses d t flow desc names already entry = Inr e \<Longrightarrow> fe_cursor e \<noteq> None"
proof -
  have "fold_files sha parses d t flow desc names already c fs = Inr e \<Longrightarrow> fe_cursor e \<noteq> None" for c fs
    by (auto simp: fold_files_def rbind_Inr_iff Let_def)
  moreover assume "foldCursorFor sha parses d t flow desc names already entry = Inr e"
  ultimately show ?thesis
    by (auto simp: foldCursorFor_def Let_def split: option.split_asm if_split_asm)
qed

definition visible :: "collected \<Rightarrow> string option" where
  "visible c = (case c of Listed le \<Rightarrow> Some (le_task_id le) | Degraded t \<Rightarrow> Some t | Ignored \<Rightarrow> None)"

lemma collect_one_visible:
  "visible (fst (collect_one pf t entry cached)) =
     (case entry of Other_entry \<Rightarrow> None | Dir d \<Rightarrow> if LEGACY_TASK_ID_PATTERN t then Some t else None)"
proof (cases entry)
  case Other_entry
  then show ?thesis by (simp add: collect_one_def visible_def)
next
  case (Dir d)
  have df: "derivedFor sha parses d t fl desc names al cached \<noteq> Inr None" if "t \<noteq> PROJECT_TASK_ID" for sha parses fl desc names al
    using that foldCursorFor_cursor by (auto simp: derivedFor_def rbind_Inr_iff)
  show ?thesis
  proof (cases "LEGACY_TASK_ID_PATTERN t")
    case False
    with Dir show ?thesis by (simp add: collect_one_def visible_def)
  next
    case True
    show ?thesis
    proof (cases "readMeta d t")
      case (Inl f)
      with Dir True show ?thesis by (simp add: collect_one_def visible_def)
    next
      case (Inr mo)
      show ?thesis
      proof (cases mo)
        case None
        with Dir True Inr show ?thesis by (simp add: collect_one_def visible_def)
      next
        case (Some m)
        show ?thesis
        proof (cases "t = PROJECT_TASK_ID")
          case True
          then show ?thesis
            using Dir \<open>LEGACY_TASK_ID_PATTERN t\<close> Inr Some
            by (auto simp: collect_one_def visible_def Let_def split: sum.split)
        next
          case False
          then show ?thesis
            using Dir True Inr Some df [OF False, of "pf_sha256 pf" "pf_parses pf" "tm_flow m" "tm_description m"
                "taskDirNames d" "[]"]
            by (auto simp: collect_one_def visible_def Let_def split: sum.split option.split)
        qed
      qed
    qed
  qed
qed

lemma collect_from_partition:
  "mset (map le_task_id (fst (fst (collect_from pf es st)))) + mset (snd (fst (collect_from pf es st))) =
   mset (map fst (filter (\<lambda>(t, en). (\<exists>d. en = Dir d) \<and> LEGACY_TASK_ID_PATTERN t) es))"
proof (induction es arbitrary: st)
  case Nil
  then show ?case by simp
next
  case (Cons a es)
  obtain t en where a: "a = (t, en)" by (cases a)
  obtain c ca where c: "collect_one pf t en (st_cache st t) = (c, ca)" by (cases "collect_one pf t en (st_cache st t)")
  obtain out dg st' where rest: "collect_from pf es (put_cache t ca st) = ((out, dg), st')"
    by (metis prod.collapse)
  have ih: "mset (map le_task_id out) + mset dg =
      mset (map fst (filter (\<lambda>(t, en). (\<exists>d. en = Dir d) \<and> LEGACY_TASK_ID_PATTERN t) es))"
    using Cons.IH [of "put_cache t ca st"] rest by simp
  have vis: "visible c = (if (\<exists>d. en = Dir d) \<and> LEGACY_TASK_ID_PATTERN t then Some t else None)"
    using collect_one_visible [of pf t en "st_cache st t"] c by (cases en) auto
  show ?case
  proof (cases c)
    case (Listed le)
    with vis have "(\<exists>d. en = Dir d) \<and> LEGACY_TASK_ID_PATTERN t \<and> le_task_id le = t"
      by (auto simp: visible_def split: if_split_asm)
    with ih a c rest Listed show ?thesis by auto
  next
    case (Degraded x)
    with vis have "(\<exists>d. en = Dir d) \<and> LEGACY_TASK_ID_PATTERN t \<and> x = t"
      by (auto simp: visible_def split: if_split_asm)
    with ih a c rest Degraded show ?thesis by auto
  next
    case Ignored
    with vis have "\<not> ((\<exists>d. en = Dir d) \<and> LEGACY_TASK_ID_PATTERN t)"
      by (auto simp: visible_def split: if_split_asm)
    with ih a c rest Ignored show ?thesis by auto
  qed
qed

lemma free_slug_finds:
  assumes "\<exists>s\<in>set suffixes. \<not> occupied (base @ ''-'' @ s)"
  shows "\<exists>t. free_slug occupied base candidate suffixes = Some t \<and> \<not> occupied t \<and>
    (t = candidate \<or> (\<exists>s\<in>set suffixes. t = base @ ''-'' @ s))"
  using assms
proof (induction suffixes arbitrary: candidate)
  case Nil
  then show ?case by simp
next
  case (Cons s ss)
  show ?case
  proof (cases "occupied candidate")
    case False
    then show ?thesis by (simp add: free_slug.simps)
  next
    case True
    show ?thesis
    proof (cases "occupied (base @ ''-'' @ s)")
      case False
      then show ?thesis using True by (cases ss) (simp_all add: free_slug.simps)
    next
      case True': True
      with Cons.prems Cons.IH [of "base @ ''-'' @ s"] True show ?thesis
        by (auto simp: free_slug.simps)
    qed
  qed
qed

text \<open>C9. The crash window: when the process dies between the record and its metadata, the record
  stays, the metadata is stale but readable, and the next publish that lands takes a later version
  and keeps the orphan.\<close>

theorem crash_window_healed:
  assumes "append_op pf now tut Crash_after_record t inp st = (None, st1)"
    and "meta_of st t = Inr (Some m)" and "dir_of st t = Some d"
    and "append_op pf now' tut' fault t inp' st1 = (Some (Inr res), st2)"
  shows "\<exists>r d1 d2 x. dir_of st1 t = Some d1 \<and> dir_of st2 t = Some d2 \<and> meta_of st1 t = Inr (Some m) \<and>
    td_files d1 = td_files d @ [(recordFileName (rec_version r) (rec_content_type r), Doc (record_json r) 0)] \<and>
    td_files d2 = td_files d1 @ [x] \<and> tm_version m < rec_version r \<and> rec_version r < ar_version res"
proof -
  from append_crash [OF assms(1-3)] obtain n r where
    n: "n = recordFileName (rec_version r) (rec_content_type r)" "rec_version r = next_version m d"
    and fresh: "n \<notin> set (taskDirNames d)" and d1: "dir_of st1 t = Some (landed d n r)" "meta_of st1 t = Inr (Some m)"
    by blast
  from append_success [OF assms(4) d1(2,1)] obtain role ct p e folded where
    v: "ar_version res = next_version m (landed d n r)"
    and d2: "dir_of st2 t = Some (let d' = landed (landed d n r) (recordFileName (next_version m (landed d n r)) ct)
        (new_record (next_version m (landed d n r)) t role ct p inp' now' tut')
      in if fault = No_fault then writeMeta (meta_after m (next_version m (landed d n r)) now' folded) d' else d')"
    by metis
  have "name_version n \<le> maxRecordVersionOf (taskDirNames (landed d n r))"
    using n(1) by (intro maxRecordVersionOf_ge [of n]) (simp_all add: names_landed record_file_name_version name_version_def)
  then have "rec_version r < ar_version res"
    using next_version_gt [of m "landed d n r"] n(1) v by (simp add: name_version_def record_file_name_version)
  moreover have "tm_version m < rec_version r"
    using next_version_gt [of m d] n(2) by simp
  moreover have "td_files (landed d n r) = td_files d @ [(n, Doc (record_json r) 0)]"
    by (simp add: landed_def)
  moreover obtain d2' x where "dir_of st2 t = Some d2'" "td_files d2' = td_files (landed d n r) @ [x]"
    using d2 by (auto simp: Let_def landed_def split: if_split_asm)
  ultimately show ?thesis using d1 n(1) by metis
qed

theorem crash_window_healed_witness:
  "\<exists>st1 res st2 (r :: context_record). append_op sample_platform ''now'' None Crash_after_record ''t'' (a_note None) one_task = (None, st1) \<and>
     append_op sample_platform ''now'' None No_fault ''t'' (a_note None) st1 = (Some (Inr res), st2) \<and>
     rec_version r < ar_version res"
proof -
  obtain st1 res st2 where app: "append_op sample_platform ''now'' None Crash_after_record ''t'' (a_note None) one_task = (None, st1)"
    "append_op sample_platform ''now'' None No_fault ''t'' (a_note None) st1 = (Some (Inr res), st2)"
    using one_task_crash by blast
  from crash_window_healed [OF app(1) one_task_meta_of(2,1) app(2)] app show ?thesis by blast
qed

text \<open>A second publish that names the same expected version is a conflict.\<close>

lemma append_conflict:
  assumes "append_op pf now tut No_fault t inp st = (Some (Inr res), st1)"
    and "meta_of st t = Inr (Some m)" and "dir_of st t = Some d" and "\<not> blank now"
    and "validate_append t inp = Inr (role, ct, p, Some v)" and "validate_append t inp' = Inr (role', ct', p', Some v)"
  shows "append_op pf now' tut' fault t inp' st1 = (Some (Inl (Coded VERSION_CONFLICT)), st1)"
proof -
  from append_success [OF assms(1-3)] obtain role1 ct1 p1 e folded where
    ck: "validate_append t inp = Inr (role1, ct1, p1, e)" "e = None \<or> e = Some (tm_version m)"
    and d': "dir_of st1 t = Some (let d' = landed d (recordFileName (next_version m d) ct1)
        (new_record (next_version m d) t role1 ct1 p1 inp now tut)
      in if No_fault = No_fault then writeMeta (meta_after m (next_version m d) now folded) d' else d')"
    by metis
  then have d1: "dir_of st1 t = Some (writeMeta (meta_after m (next_version m d) now folded)
      (landed d (recordFileName (next_version m d) ct1) (new_record (next_version m d) t role1 ct1 p1 inp now tut)))"
    by (simp add: Let_def)
  have v: "v = tm_version m" using ck assms(5) by auto
  have "readMeta d t = Inr (Some m)"
    using assms(2,3) meta_of_dir by fastforce
  then have "meta_ok m" "tm_task_id m = t"
    using readMeta_ok by auto
  then have "readMeta (the (dir_of st1 t)) t = Inr (Some ((meta_after m (next_version m d) now folded)\<lparr>tm_cached := None\<rparr>))"
    using d1 readMeta_writeMeta [OF meta_after_ok [OF _ assms(4)]] by simp
  then have m1: "meta_of st1 t = Inr (Some ((meta_after m (next_version m d) now folded)\<lparr>tm_cached := None\<rparr>))"
    using d1 by (auto simp: meta_of_def dir_of_def split: option.splits dir_entry.splits)
  have "v \<noteq> next_version m d"
    using next_version_gt [of m d] v by simp
  then show ?thesis
    using append_existing [OF m1 assms(6) d1] by (simp add: append_with_def)
qed

text \<open>An expected version admits one publish: after a publish that named it has been booked,
  another one naming the same version is a conflict and changes nothing.\<close>

theorem expected_version_excludes:
  assumes "append_op pf now tut No_fault t inp st = (Some (Inr res), st1)"
    and "meta_of st t = Inr (Some m)" and "dir_of st t = Some d" and "\<not> blank now"
    and "validate_append t inp = Inr (role, ct, p, Some v)" and "validate_append t inp' = Inr (role', ct', p', Some v)"
  shows "append_op pf now' tut' fault t inp' st1 = (Some (Inl (Coded VERSION_CONFLICT)), st1)"
  using assms by (rule append_conflict)

theorem expected_version_excludes_witness:
  "\<exists>res st1. append_op sample_platform ''now'' None No_fault ''t'' (a_note (Some 0)) one_task = (Some (Inr res), st1) \<and>
     append_op sample_platform ''now'' None No_fault ''t'' (a_note (Some 0)) st1 = (Some (Inl (Coded VERSION_CONFLICT)), st1)"
proof -
  obtain res st1 where app: "append_op sample_platform ''now'' None No_fault ''t'' (a_note (Some 0)) one_task = (Some (Inr res), st1)"
    using one_task_append by blast
  from expected_version_excludes [OF app one_task_meta_of(2,1) one_task_side(4) a_note_valid a_note_valid] app
  show ?thesis by blast
qed

text \<open>Nothing disappears from the state surface: every directory with a legal name is either
  listed or degraded, exactly once, whatever its files hold.\<close>

theorem snapshot_partition:
  "mset (map le_task_id (fst (fst (snapshotTasks pf st)))) + mset (snd (fst (snapshotTasks pf st))) =
   mset (map fst (filter (\<lambda>(t, en). (\<exists>d. en = Dir d) \<and> LEGACY_TASK_ID_PATTERN t) (st_tasks st)))"
  unfolding snapshotTasks_def by (rule collect_from_partition)

end
