(* ===== verification/Recovery.thy ===== *)
theory Recovery
  imports Store
begin

text \<open>
  The two repair doors of \<open>src/core/hub/store/recovery.ts\<close>: rebuilding a broken \<open>meta.json\<close> and
  registering a recovered copy of a corrupt record.  Both run in the task's queue, so they are
  functions on the store state.
\<close>

section \<open>Rebuilding metadata\<close>

record repair_input =
  ri_title :: "json option"
  ri_description :: "json option"
  ri_creator :: "json option"
  ri_created_at :: "json option"
  ri_flow :: "json option"
  ri_cast :: "json option"
  ri_checkout :: "json option"

record repair_fields =
  rf_title :: "string option"
  rf_description :: "string option"
  rf_creator :: "string option"
  rf_created_at :: "string option"
  rf_flow :: "flow option"
  rf_cast :: "cast option"
  rf_checkout :: "checkout_route option"

text \<open>\<open>input?.f !== undefined ? requireNonEmptyString(input.f) : undefined\<close>.\<close>

definition optional_string :: "json option \<Rightarrow> error_code + string option" where
  "optional_string v =
     (if v = None then Inr None else rbind (requireNonEmptyString v) (\<lambda>s. Inr (Some s)))"

definition repair_pattern :: "string \<Rightarrow> store \<Rightarrow> string \<Rightarrow> bool" where
  "repair_pattern taskId st =
     (if CHR ''.'' \<in> set taskId \<and> dir_of st taskId \<noteq> None then LEGACY_TASK_ID_PATTERN else TASK_ID_PATTERN)"

definition validate_repair :: "string \<Rightarrow> repair_input \<Rightarrow> store \<Rightarrow> error_code + repair_fields" where
  "validate_repair taskId inp st =
     rbind (requireNonEmptyString (Some (JStr taskId))) (\<lambda>_.
     rbind (requireValidTaskId taskId LEGACY_TASK_ID_PATTERN) (\<lambda>_.
     rbind (requireValidTaskId taskId (repair_pattern taskId st)) (\<lambda>_.
     rbind (optional_string (ri_title inp)) (\<lambda>title.
     rbind (optional_string (ri_description inp)) (\<lambda>description.
     rbind (optional_string (ri_creator inp)) (\<lambda>creator.
     rbind (optional_string (ri_created_at inp)) (\<lambda>created.
     rbind (requireValidFlow (ri_flow inp)) (\<lambda>flow.
     rbind (requireValidCast (ri_cast inp)) (\<lambda>cast.
     rbind (requireValidCheckout (ri_checkout inp)) (\<lambda>checkout.
     rbind (guard (\<not> (taskId = PROJECT_TASK_ID \<and>
              (flow \<noteq> None \<or> cast \<noteq> None \<or> checkout \<noteq> None \<or> title \<noteq> None))) VALIDATION_ERROR) (\<lambda>_.
     Inr \<lparr>rf_title = title, rf_description = description, rf_creator = creator, rf_created_at = created,
          rf_flow = flow, rf_cast = cast, rf_checkout = checkout\<rparr>)))))))))))"

text \<open>The description that survives in a damaged but parseable file, of whatever type.\<close>

definition original_description :: "task_dir \<Rightarrow> json option" where
  "original_description d =
     (case td_meta d of
        Some (Doc (JObj raw) _) \<Rightarrow> pget raw ''description''
      | _ \<Rightarrow> None)"

text \<open>\<open>description.split(/\r?\n/u).some((line) => line.trimEnd() === `## ${heading}`)\<close> for every heading.\<close>

definition four_sections :: "string \<Rightarrow> bool" where
  "four_sections description =
     list_all (\<lambda>heading. list_ex (\<lambda>line. trim_end line = heading_line heading) (split_lines (utf8 description)))
       TASK_SPEC_HEADINGS"

definition frozen_scope :: "task_dir \<Rightarrow> string option" where
  "frozen_scope d =
     (case original_description d of
        Some (JStr s) \<Rightarrow> if four_sections s then Some s else None
      | _ \<Rightarrow> None)"

definition rebuilt_meta :: "string \<Rightarrow> repair_fields \<Rightarrow> string option \<Rightarrow> string \<Rightarrow> nat \<Rightarrow> task_meta" where
  "rebuilt_meta taskId fs description now version =
     (let isProject = (taskId = PROJECT_TASK_ID) in
      \<lparr>tm_task_id = taskId,
       tm_title = (if isProject then PROJECT_TASK_ID else case rf_title fs of None \<Rightarrow> taskId | Some s \<Rightarrow> s),
       tm_description = map_option JStr description, tm_creator = rf_creator fs, tm_role = None,
       tm_flow = (if isProject then None else Some (effective_flow (rf_flow fs))),
       tm_cast = rf_cast fs, tm_checkout = rf_checkout fs,
       tm_created_at = (case rf_created_at fs of None \<Rightarrow> now | Some s \<Rightarrow> s), tm_updated_at = now,
       tm_version = version, tm_cached = None\<rparr>)"

definition rebuilt_derived :: "platform \<Rightarrow> task_dir \<Rightarrow> string \<Rightarrow> task_meta \<Rightarrow> derived_state option" where
  "rebuilt_derived pf d taskId m =
     (if taskId = PROJECT_TASK_ID then None
      else (case readRecords (pf_sha256 pf) d taskId of
              Inl _ \<Rightarrow> None
            | Inr rs \<Rightarrow>
                (case description_text (tm_description m) of
                   Inl _ \<Rightarrow> None
                 | Inr t \<Rightarrow> Some (lint_derived (foldWithLint (pf_parses pf)
                     (lint_initial (effective_flow (tm_flow m))) rs (effective_flow (tm_flow m)) t)))))"

record repair_result =
  rp_version :: nat
  rp_status :: "status option"

definition repair_in ::
    "platform \<Rightarrow> string \<Rightarrow> bool \<Rightarrow> string \<Rightarrow> repair_fields \<Rightarrow> task_dir \<Rightarrow> store \<Rightarrow> (failure + repair_result) \<times> store" where
  "repair_in pf now wrote taskId fs d st =
     (let readable = readMeta d taskId;
          frozen = frozen_scope d
      in if readable = Inl Thrown then (Inl Thrown, st)
         else if frozen \<noteq> None \<and> rf_description fs \<noteq> None \<and> rf_description fs \<noteq> frozen
         then (Inl (Coded VALIDATION_ERROR), st)
         else if (case readable of Inr (Some _) \<Rightarrow> True | _ \<Rightarrow> False)
         then (Inl (Coded VALIDATION_ERROR), st)
         else (let description = (if frozen \<noteq> None then frozen else rf_description fs);
                   version = maxOnDiskRecordVersion d;
                   st1 = put_cache taskId None st;
                   m = rebuilt_meta taskId fs description now version;
                   derived = rebuilt_derived pf d taskId m;
                   m' = cacheDerived m derived
               in if \<not> wrote then (Inl Thrown, st1)
                  else (Inr \<lparr>rp_version = version, rp_status = map_option ds_status derived\<rparr>,
                        put_dir taskId (writeMeta m' d) st1)))"

definition repairMeta ::
    "platform \<Rightarrow> string \<Rightarrow> bool \<Rightarrow> string \<Rightarrow> repair_input \<Rightarrow> store \<Rightarrow> (failure + repair_result) \<times> store" where
  "repairMeta pf now wrote taskId inp st =
     (case validate_repair taskId inp st of
        Inl e \<Rightarrow> (Inl (Coded e), st)
      | Inr fs \<Rightarrow>
          (case dir_of st taskId of
             None \<Rightarrow> (Inl (Coded TASK_NOT_FOUND), st)
           | Some d \<Rightarrow> repair_in pf now wrote taskId fs d st))"

section \<open>Registering a recovered record\<close>

record recover_input =
  rc_record_file :: "json option"
  rc_from_path :: "json option"
  rc_source :: "json option"

record recover_result =
  rv_record_file :: string
  rv_seq :: nat
  rv_recovered_file :: string

definition validate_recover :: "string \<Rightarrow> recover_input \<Rightarrow> error_code + (string \<times> string \<times> string option)" where
  "validate_recover taskId inp =
     rbind (requireNonEmptyString (Some (JStr taskId))) (\<lambda>_.
     rbind (requireValidTaskId taskId LEGACY_TASK_ID_PATTERN) (\<lambda>_.
     rbind (requireNonEmptyString (rc_record_file inp)) (\<lambda>recordFile.
     rbind (guard (is_record_name recordFile \<and> CHR ''/'' \<notin> set recordFile \<and> CHR 0x5C \<notin> set recordFile)
              VALIDATION_ERROR) (\<lambda>_.
     rbind (requireNonEmptyString (rc_from_path inp)) (\<lambda>fromPath.
     rbind (optional_string (rc_source inp)) (\<lambda>source.
     Inr (recordFile, fromPath, source)))))))"

definition recovered_name :: "string \<Rightarrow> string" where
  "recovered_name recordFile = recordFile @ ''.recovered''"

definition entry_json :: "nat \<Rightarrow> recovery_entry \<Rightarrow> string \<Rightarrow> string \<Rightarrow> json" where
  "entry_json sq e source now = JObj
     [(''seq'', JNum (of_nat sq)), (''file'', JStr (re_file e)), (''corrupt_sha256'', JStr (re_corrupt_sha256 e)),
      (''recovered_sha256'', JStr (re_recovered_sha256 e)), (''recovered_file'', JStr (re_recovered_file e)),
      (''source'', JStr source), (''registered_at'', JStr now)]"

text \<open>The recovered source: well formed by itself, of the version the name says and of this task.\<close>

definition source_ok :: "string \<Rightarrow> string \<Rightarrow> bytes \<Rightarrow> bool" where
  "source_ok taskId recordFile b =
     (case parse_json b of
        None \<Rightarrow> False
      | Some j \<Rightarrow>
          (case validateRecordArtifact j None of
             Inl _ \<Rightarrow> False
           | Inr r \<Rightarrow> Some (rec_version r) = recordFileVersion recordFile \<and> rec_task_id r = taskId))"

text \<open>Phase 1: the append-only copy, or an orphan of an earlier attempt with the same digest.\<close>

definition land_copy :: "(bytes \<Rightarrow> string) \<Rightarrow> string \<Rightarrow> bytes \<Rightarrow> task_dir \<Rightarrow> failure + task_dir" where
  "land_copy sha256 recoveredFile recovered d =
     (case writeRecordExclusive recoveredFile recovered d of
        Inr d' \<Rightarrow> Inr d'
      | Inl f \<Rightarrow>
          if f = Coded VERSION_CONFLICT
          then (case readBytes d recoveredFile of
                  None \<Rightarrow> Inl (Coded VALIDATION_ERROR)
                | Some orphan \<Rightarrow>
                    if sha256 orphan \<noteq> sha256 recovered then Inl (Coded VALIDATION_ERROR) else Inr d)
          else Inl f)"

text \<open>
  Where a registration may be cut short.  \<open>Dies_in_line whole\<close>: the process dies while it appends
  the line, so the file ends without a newline, in the whole line or in an unparseable part of it.
\<close>

datatype recover_fault = Recover_completes | Copy_write_fails | Dies_after_copy | Dies_in_line bool

definition torn_line :: "bytes \<Rightarrow> task_dir \<Rightarrow> task_dir" where
  "torn_line remnant d = d\<lparr>td_manifest := Some (case td_manifest d of
       Some (Lines ls _) \<Rightarrow> Lines (ls @ [remnant]) True
     | Some Unreadable_manifest \<Rightarrow> Unreadable_manifest
     | None \<Rightarrow> Lines [remnant] True)\<rparr>"

definition recover_in ::
    "(bytes \<Rightarrow> string) \<Rightarrow> (string \<Rightarrow> bytes option) \<Rightarrow> string \<Rightarrow> recover_fault \<Rightarrow> string
      \<Rightarrow> string \<times> string \<times> string option \<Rightarrow> task_dir \<Rightarrow> (failure + recover_result) option \<times> task_dir" where
  "recover_in sha256 files now fault taskId checked d =
     (case checked of (recordFile, fromPath, source) \<Rightarrow>
      (case readBytes d recordFile of
         None \<Rightarrow> (Some (Inl (Coded VALIDATION_ERROR)), d)
       | Some original \<Rightarrow>
           if read_direct taskId original \<noteq> None then (Some (Inl (Coded VALIDATION_ERROR)), d)
           else (case files fromPath of
                   None \<Rightarrow> (Some (Inl (Coded VALIDATION_ERROR)), d)
                 | Some recovered \<Rightarrow>
                     if \<not> source_ok taskId recordFile recovered then (Some (Inl (Coded VALIDATION_ERROR)), d)
                     else (case readRecoveryEntries d of
                             Inl f \<Rightarrow> (Some (Inl f), d)
                           | Inr entries \<Rightarrow>
                               if list_ex (\<lambda>e. re_file e = recordFile) entries
                               then (Some (Inl (Coded VALIDATION_ERROR)), d)
                               else if fault = Copy_write_fails then (Some (Inl Thrown), d)
                               else (case land_copy sha256 (recovered_name recordFile) recovered d of
                                       Inl f \<Rightarrow> (Some (Inl f), d)
                                     | Inr d1 \<Rightarrow>
                                         (let e = \<lparr>re_file = recordFile, re_corrupt_sha256 = sha256 original,
                                                re_recovered_sha256 = sha256 recovered,
                                                re_recovered_file = recovered_name recordFile\<rparr>;
                                              sq = length entries + 1;
                                              line = Doc (entry_json sq e (case source of None \<Rightarrow> [] | Some s \<Rightarrow> s) now) 0
                                          in if fault = Dies_after_copy then (None, d1)
                                             else if fault = Dies_in_line True then (None, torn_line line d1)
                                             else if fault = Dies_in_line False then (None, torn_line (Junk []) d1)
                                             else (case appendRecoveryLine line d1 of
                                                     Inl f \<Rightarrow> (Some (Inl f), d1)
                                                   | Inr d2 \<Rightarrow>
                                                       (Some (Inr \<lparr>rv_record_file = recordFile, rv_seq = sq,
                                                          rv_recovered_file = recovered_name recordFile\<rparr>), d2))))))))"

definition recoverRecord ::
    "platform \<Rightarrow> (string \<Rightarrow> bytes option) \<Rightarrow> string \<Rightarrow> recover_fault \<Rightarrow> string \<Rightarrow> recover_input \<Rightarrow> store
      \<Rightarrow> (failure + recover_result) option \<times> store" where
  "recoverRecord pf files now fault taskId inp st =
     (case validate_recover taskId inp of
        Inl e \<Rightarrow> (Some (Inl (Coded e)), st)
      | Inr checked \<Rightarrow>
          (case dir_of st taskId of
             None \<Rightarrow> (Some (Inl (Coded TASK_NOT_FOUND)), st)
           | Some d \<Rightarrow>
               (let (res, d') = recover_in (pf_sha256 pf) files now fault taskId checked d;
                    st' = put_dir taskId d' st
                in (res, if res = None then st'\<lparr>st_cache := (\<lambda>_. None)\<rparr> else st'))))"

section \<open>Registration\<close>

lemma last_entry_append:
  "last_entry n (es @ [e]) = (if re_file e = n then Some e else last_entry n es)"
  by (simp add: last_entry_def)

lemma last_entry_None: "last_entry n es = None \<longleftrightarrow> \<not> list_ex (\<lambda>e. re_file e = n) es"
proof (induction es rule: rev_induct)
  case (snoc e es)
  then show ?case by (simp add: last_entry_append)
qed (simp add: last_entry_def)

lemma parse_entry_json: "parse_entry (Doc (entry_json sq e source now) 0) = Some e"
  by (simp add: parse_entry_def parse_json_def entry_json_def)

lemma parse_entry_Junk [simp]: "parse_entry (Junk s) = None"
  by (simp add: parse_entry_def parse_json_def)

text \<open>A committed line adds exactly its entry, also behind a torn line.\<close>

lemma appendRecoveryLine_entries:
  assumes "readRecoveryEntries d = Inr es" and "parse_entry line = Some e"
  shows "\<exists>d'. appendRecoveryLine line d = Inr d' \<and> readRecoveryEntries d' = Inr (es @ [e]) \<and>
    td_files d' = td_files d \<and> td_meta d' = td_meta d"
proof (cases "td_manifest d")
  case None
  with assms show ?thesis
    by (simp add: readRecoveryEntries_def appendRecoveryLine_def append_text_def List.map_filter_def)
next
  case (Some mf)
  show ?thesis
  proof (cases mf)
    case (Lines ls torn)
    with assms Some show ?thesis
      by (cases "ls = []") (auto simp: readRecoveryEntries_def appendRecoveryLine_def append_text_def List.map_filter_def Let_def)
  next
    case Unreadable_manifest
    with assms(1) Some show ?thesis by (simp add: readRecoveryEntries_def)
  qed
qed

lemma torn_line_entries:
  assumes "readRecoveryEntries d = Inr es"
  shows "readRecoveryEntries (torn_line (Junk s) d) = Inr es"
  using assms
  by (auto simp: readRecoveryEntries_def torn_line_def List.map_filter_def split: option.splits manifest.splits)

lemma torn_line_files [simp]: "td_files (torn_line b d) = td_files d" "td_meta (torn_line b d) = td_meta d"
  by (simp_all add: torn_line_def)

lemma readBytes_files: "td_files d = td_files d' \<Longrightarrow> readBytes d n = readBytes d' n"
  by (simp add: readBytes_def)

lemma recovered_name_ne [simp]: "recovered_name n \<noteq> n"
  by (simp add: recovered_name_def)

lemma land_copy_Inr:
  assumes "land_copy sha n b d = Inr d'"
  shows "d' = d \<or> (n \<notin> set (taskDirNames d) \<and> d' = d\<lparr>td_files := td_files d @ [(n, b)]\<rparr>)"
    and "b \<noteq> Unreadable \<Longrightarrow> \<exists>c. readBytes d' n = Some c \<and> sha c = sha b"
    and "readRecoveryEntries d' = readRecoveryEntries d" and "td_meta d' = td_meta d"
proof -
  have cases: "d' = d \<and> (\<exists>c. readBytes d n = Some c \<and> sha c = sha b) \<or>
      n \<notin> set (taskDirNames d) \<and> d' = d\<lparr>td_files := td_files d @ [(n, b)]\<rparr>"
    using assms
    by (auto simp: land_copy_def writeRecordExclusive_def split: if_split_asm option.split_asm)
  then show "d' = d \<or> (n \<notin> set (taskDirNames d) \<and> d' = d\<lparr>td_files := td_files d @ [(n, b)]\<rparr>)"
    "readRecoveryEntries d' = readRecoveryEntries d" "td_meta d' = td_meta d"
    by auto
  show "\<exists>c. readBytes d' n = Some c \<and> sha c = sha b" if "b \<noteq> Unreadable"
    using cases that by (auto simp: readBytes_append landed_append)
qed

lemma land_copy_reads:
  assumes "land_copy sha n b d = Inr d'" and "readBytes d m = Some c"
  shows "readBytes d' m = Some c"
proof -
  have "readBytes d n = None" if "n \<notin> set (taskDirNames d)"
    using landed_append [OF that] by (simp add: readBytes_def map_of_eq_None_iff [THEN iffD2])
  with land_copy_Inr(1) [OF assms(1)] assms(2) show ?thesis
    by (auto simp: readBytes_append landed_append)
qed

lemma source_ok_reads:
  assumes "source_ok t n b"
  shows "\<exists>j r. parse_json b = Some j \<and> validateRecordArtifact j (Some t) = Inr r \<and> recordFileVersion n = Some (rec_version r) \<and>
    b \<noteq> Unreadable"
proof -
  obtain j r where j: "parse_json b = Some j" "validateRecordArtifact j None = Inr r"
    "Some (rec_version r) = recordFileVersion n" "rec_task_id r = t"
    using assms by (auto simp: source_ok_def split: option.split_asm sum.split_asm)
  obtain ob where ob: "j = JObj ob"
    using j(2) by (cases j) (simp_all add: validateRecordArtifact_def)
  obtain tid where tid: "requireNonEmptyString (pget ob ''task_id'') = Inr tid"
    using j(2) ob by (auto simp: validateRecordArtifact_def rbind_Inr_iff)
  have "validateRecordArtifact j (Some tid) = validateRecordArtifact j None"
    using tid ob by (simp add: validateRecordArtifact_def guard_def)
  moreover have "tid = t"
    using validateRecordArtifact_ok [of j "Some tid" r] calculation j(2,4) by simp
  moreover have "b \<noteq> Unreadable" using j(1) by (auto simp: parse_json_def)
  ultimately show ?thesis using j by auto
qed

text \<open>A registration that went through, taken apart.\<close>

lemma recover_in_success:
  assumes "recover_in sha files now fault t (n, path, source) d = (Some (Inr res), d2)"
  obtains original recovered entries d1 e where
    "readBytes d n = Some original" "read_direct t original = None" "files path = Some recovered"
    "source_ok t n recovered" "readRecoveryEntries d = Inr entries" "\<not> list_ex (\<lambda>e. re_file e = n) entries"
    "land_copy sha (recovered_name n) recovered d = Inr d1"
    "e = \<lparr>re_file = n, re_corrupt_sha256 = sha original, re_recovered_sha256 = sha recovered,
          re_recovered_file = recovered_name n\<rparr>"
    "appendRecoveryLine (Doc (entry_json (length entries + 1) e (case source of None \<Rightarrow> [] | Some s \<Rightarrow> s) now) 0) d1 = Inr d2"
  using assms
  by (auto simp: recover_in_def Let_def split: option.split_asm if_split_asm sum.split_asm)

lemma recover_in_reads:
  assumes "recover_in sha files now fault t (n, path, source) d = (Some (Inr res), d2)" and "is_record_name n"
    and "\<And>b. files path = Some b \<Longrightarrow> (\<And>c. sha c = sha b \<Longrightarrow> c = b)"
  shows "\<exists>b j r. files path = Some b \<and> parse_json b = Some j \<and> validateRecordArtifact j (Some t) = Inr r \<and>
    read_record sha d2 t n = Inr r"
proof -
  from recover_in_success [OF assms(1)] obtain original recovered entries d1 e where
    h: "readBytes d n = Some original" "read_direct t original = None" "files path = Some recovered"
    "source_ok t n recovered" "readRecoveryEntries d = Inr entries" "\<not> list_ex (\<lambda>e. re_file e = n) entries"
    "land_copy sha (recovered_name n) recovered d = Inr d1"
    and e: "e = \<lparr>re_file = n, re_corrupt_sha256 = sha original, re_recovered_sha256 = sha recovered,
          re_recovered_file = recovered_name n\<rparr>"
    and ap: "appendRecoveryLine (Doc (entry_json (length entries + 1) e (case source of None \<Rightarrow> [] | Some s \<Rightarrow> s) now) 0) d1 = Inr d2"
    by metis
  have "readRecoveryEntries d1 = Inr entries"
    using land_copy_Inr(3) [OF h(7)] h(5) by simp
  from appendRecoveryLine_entries [OF this parse_entry_json [of "length entries + 1" e "case source of None \<Rightarrow> [] | Some s \<Rightarrow> s" now]] ap
  have d2: "readRecoveryEntries d2 = Inr (entries @ [e])" "td_files d2 = td_files d1"
    by auto
  obtain j r where src: "parse_json recovered = Some j" "validateRecordArtifact j (Some t) = Inr r"
      "recordFileVersion n = Some (rec_version r)" "recovered \<noteq> Unreadable"
    using source_ok_reads [OF h(4)] by blast
  obtain c where "readBytes d1 (recovered_name n) = Some c" "sha c = sha recovered"
    using land_copy_Inr(2) [OF h(7) src(4)] by blast
  then have copy: "readBytes d2 (recovered_name n) = Some recovered"
    using assms(3) [OF h(3)] readBytes_files [OF d2(2)] by simp
  have "readBytes d2 n = Some original"
    using land_copy_reads [OF h(7,1)] readBytes_files [OF d2(2)] by simp
  moreover have "recoveredRecordFor sha d2 t n (the (recordFileVersion n)) original = Inr (Some r)"
    unfolding recoveredRecordFor_Some
    using d2(1) copy src e by (auto simp: last_entry_append)
  ultimately have "read_record sha d2 t n = Inr r"
    using h(2) by (simp add: read_record_def)
  with h(3) src show ?thesis by blast
qed

section \<open>Retrying a registration\<close>

lemma recover_in_interrupted:
  assumes "recover_in sha files now fault t (n, path, source) d = (None, d1)"
    and "fault = Dies_after_copy \<or> fault = Dies_in_line False"
  obtains original recovered entries dc where
    "readBytes d n = Some original" "read_direct t original = None" "files path = Some recovered"
    "source_ok t n recovered" "readRecoveryEntries d = Inr entries" "\<not> list_ex (\<lambda>e. re_file e = n) entries"
    "land_copy sha (recovered_name n) recovered d = Inr dc"
    "d1 = dc \<or> d1 = torn_line (Junk []) dc"
  using assms
  by (auto simp: recover_in_def Let_def split: option.split_asm if_split_asm sum.split_asm)

lemma land_copy_again:
  assumes "land_copy sha n b d = Inr d'" and "b \<noteq> Unreadable" and "td_files d'' = td_files d'"
    and "n \<in> set (taskDirNames d'')"
  shows "land_copy sha n b d'' = Inr d''"
proof -
  obtain c where "readBytes d' n = Some c" "sha c = sha b"
    using land_copy_Inr(2) [OF assms(1,2)] by blast
  moreover have "readBytes d'' n = readBytes d' n"
    using assms(3) by (rule readBytes_files)
  ultimately show ?thesis
    using assms(4) by (simp add: land_copy_def writeRecordExclusive_def)
qed

lemma recover_in_retry:
  assumes "recover_in sha files now fault t (n, path, source) d = (None, d1)"
    and "fault = Dies_after_copy \<or> fault = Dies_in_line False"
  shows "\<exists>res d2. recover_in sha files now' Recover_completes t (n, path, source) d1 = (Some (Inr res), d2)"
proof -
  from recover_in_interrupted [OF assms] obtain original recovered entries dc where
    h: "readBytes d n = Some original" "read_direct t original = None" "files path = Some recovered"
    "source_ok t n recovered" "readRecoveryEntries d = Inr entries" "\<not> list_ex (\<lambda>e. re_file e = n) entries"
    "land_copy sha (recovered_name n) recovered d = Inr dc"
    and d1: "d1 = dc \<or> d1 = torn_line (Junk []) dc"
    by metis
  have ec: "readRecoveryEntries dc = Inr entries"
    using land_copy_Inr(3) [OF h(7)] h(5) by simp
  then have e1: "readRecoveryEntries d1 = Inr entries"
    using d1 torn_line_entries by auto
  have f1: "td_files d1 = td_files dc" using d1 by auto
  have nu: "recovered \<noteq> Unreadable"
    using source_ok_reads [OF h(4)] by blast
  obtain c where "readBytes dc (recovered_name n) = Some c"
    using land_copy_Inr(2) [OF h(7) nu] by blast
  then have "recovered_name n \<in> fst ` set (td_files d1)"
    using f1 by (auto simp: readBytes_def map_of_eq_None_iff dest!: map_of_SomeD split: option.split_asm intro: rev_image_eqI)
  then have "recovered_name n \<in> set (taskDirNames d1)"
    by (simp add: taskDirNames_def)
  note again = land_copy_again [OF h(7) nu f1 this]
  have o1: "readBytes d1 n = Some original"
    using land_copy_reads [OF h(7,1)] readBytes_files [OF f1] by simp
  let ?e = "\<lparr>re_file = n, re_corrupt_sha256 = sha original, re_recovered_sha256 = sha recovered,
        re_recovered_file = recovered_name n\<rparr>"
  obtain d2 where "appendRecoveryLine (Doc (entry_json (length entries + 1) ?e
      (case source of None \<Rightarrow> [] | Some s \<Rightarrow> s) now') 0) d1 = Inr d2"
    using appendRecoveryLine_entries [OF e1 parse_entry_json] by blast
  then show ?thesis
    using h(2,3,4,6) e1 again o1 by (simp add: recover_in_def Let_def)
qed

section \<open>Rebuilding\<close>

lemma readMeta_description:
  "readMeta (writeMeta m d) t = Inr (Some m') \<Longrightarrow> tm_description m' = tm_description m \<and> tm_flow m' = tm_flow m \<and>
    tm_version m' = tm_version m"
proof -
  assume r: "readMeta (writeMeta m d) t = Inr (Some m')"
  obtain ob where ob: "meta_json m = JObj ob" by (simp add: meta_json_def)
  from r show ?thesis
    by (auto simp: readMeta_def coded_def validateMetaArtifact_def ob rbind_Inr_iff flow_name_valid
        meta_json_pget [OF ob] split: sum.split_asm)
qed

lemma repair_in_readable:
  "readMeta d t = Inr (Some m) \<Longrightarrow> repair_in pf now wrote t fs d st = (Inl (Coded VALIDATION_ERROR), st)"
  by (simp add: repair_in_def Let_def)

lemma repair_in_success:
  assumes "repair_in pf now wrote t fs d st = (Inr rep, st')"
  shows "\<exists>description m'. m' = cacheDerived (rebuilt_meta t fs description now (maxOnDiskRecordVersion d))
        (rebuilt_derived pf d t (rebuilt_meta t fs description now (maxOnDiskRecordVersion d))) \<and>
    description = (if frozen_scope d \<noteq> None then frozen_scope d else rf_description fs) \<and>
    rp_version rep = maxOnDiskRecordVersion d \<and>
    st' = put_dir t (writeMeta m' d) (put_cache t None st)"
  using assms unfolding repair_in_def Let_def by (simp split: if_split_asm) auto

lemma cacheDerived_fields [simp]:
  "tm_version (cacheDerived m x) = tm_version m" "tm_description (cacheDerived m x) = tm_description m"
  "tm_flow (cacheDerived m x) = tm_flow m"
  by (simp_all add: cacheDerived_def split: option.split)

section \<open>A sample registration\<close>

definition spare_record :: context_record where
  "spare_record = new_record 1 ''t'' ''executor'' ''note'' [(''summary'', JStr ''s''), (''body'', JStr ''b'')] (a_note None) ''now'' None"

definition spare :: bytes where
  "spare = Doc (record_json spare_record) 0"

definition spare_platform :: platform where
  "spare_platform = \<lparr>pf_sha256 = (\<lambda>b. if b = spare then ''s'' else ''o''), pf_parses = (\<lambda>_. True)\<rparr>"

definition backup :: "string \<Rightarrow> bytes option" where
  "backup path = Some spare"

definition spare_request :: recover_input where
  "spare_request = \<lparr>rc_record_file = Some (JStr ''v001.note.json''), rc_from_path = Some (JStr ''b''), rc_source = None\<rparr>"

lemma spare_record_ok: "record_ok spare_record" "rec_task_id spare_record = ''t''" "rec_version spare_record = 1"
  by (simp_all add: spare_record_def new_record_def record_ok_def blank_def is_space_def nonempty_string_def)

lemma record_json_valid_any: "record_ok r \<Longrightarrow> validateRecordArtifact (record_json r) None = Inr r"
proof -
  assume "record_ok r"
  then have "validateRecordArtifact (record_json r) (Some (rec_task_id r)) = Inr r"
    by (rule record_json_valid)
  then show ?thesis
    by (auto simp: validateRecordArtifact_def record_json_def rbind_Inr_iff guard_def split: if_split_asm)
qed

lemma v001_name: "recordFileVersion ''v001.note.json'' = Some 1"
  by (simp add: recordFileVersion_def is_digit_def ends_with_def line_terminator_def read_nat_def)

lemma spare_source_ok: "source_ok ''t'' ''v001.note.json'' spare"
  using record_json_valid_any [OF spare_record_ok(1)] spare_record_ok
  by (simp add: source_ok_def spare_def parse_json_def v001_name)

lemma spare_request_valid: "validate_recover ''t'' spare_request = Inr (''v001.note.json'', ''b'', None)"
  by (simp add: validate_recover_def spare_request_def requireNonEmptyString_def blank_def is_space_def
      requireValidTaskId_def LEGACY_TASK_ID_PATTERN_def lower_alnum_def guard_def is_record_name_def v001_name optional_string_def)

lemma damaged_recover:
  "recover_in (pf_sha256 spare_platform) backup ''now'' f ''t'' (''v001.note.json'', ''b'', None) damaged_dir =
     (let d1 = damaged_dir\<lparr>td_files := td_files damaged_dir @ [(''v001.note.json.recovered'', spare)]\<rparr>;
          line = Doc (entry_json 1 \<lparr>re_file = ''v001.note.json'', re_corrupt_sha256 = ''o'', re_recovered_sha256 = ''s'',
            re_recovered_file = ''v001.note.json.recovered''\<rparr> [] ''now'') 0
      in if f = Copy_write_fails then (Some (Inl Thrown), damaged_dir)
         else if f = Dies_after_copy then (None, d1)
         else if f = Dies_in_line True then (None, torn_line line d1)
         else if f = Dies_in_line False then (None, torn_line (Junk []) d1)
         else (Some (Inr \<lparr>rv_record_file = ''v001.note.json'', rv_seq = 1, rv_recovered_file = ''v001.note.json.recovered''\<rparr>),
               d1\<lparr>td_manifest := Some (Lines [line] False)\<rparr>))"
proof -
  have "readBytes damaged_dir ''v001.note.json'' = Some (Junk ''x'')"
    "read_direct ''t'' (Junk ''x'') = None" "readRecoveryEntries damaged_dir = Inr []"
    "''v001.note.json.recovered'' \<notin> set (taskDirNames damaged_dir)"
    by (simp_all add: damaged_dir_def readBytes_def read_direct_def parse_json_def readRecoveryEntries_def
        writeMeta_def empty_dir_def taskDirNames_def)
  moreover have "td_manifest damaged_dir = None"
    by (simp add: damaged_dir_def writeMeta_def empty_dir_def)
  moreover have "Junk ''x'' \<noteq> spare" by (simp add: spare_def)
  ultimately show ?thesis
    using spare_source_ok
    by (simp add: recover_in_def backup_def land_copy_def writeRecordExclusive_def recovered_name_def
        spare_platform_def appendRecoveryLine_def append_text_def Let_def)
qed

section \<open>Properties\<close>

text \<open>C10. A completed registration un-degrades the record: from then on the corrupt file reads as the
  record in the supplied source, while the corrupt bytes stay in place.  The hash is assumed not to
  collide with the source.\<close>

theorem registration_recovers:
  assumes "recoverRecord pf files now fault t inp st = (Some (Inr res), st')"
    and "\<And>path b c. files path = Some b \<Longrightarrow> pf_sha256 pf c = pf_sha256 pf b \<Longrightarrow> c = b"
  shows "\<exists>d d' b j r. dir_of st t = Some d \<and> dir_of st' t = Some d' \<and>
    rc_from_path inp = Some (JStr (the (string_of (rc_from_path inp)))) \<and>
    files (the (string_of (rc_from_path inp))) = Some b \<and> parse_json b = Some j \<and>
    validateRecordArtifact j (Some t) = Inr r \<and>
    read_record (pf_sha256 pf) d' t (rv_record_file res) = Inr r \<and>
    readBytes d' (rv_record_file res) = readBytes d (rv_record_file res)"
proof -
  obtain n path source where ck: "validate_recover t inp = Inr (n, path, source)"
    using assms(1) by (cases "validate_recover t inp") (auto simp: recoverRecord_def)
  have ck': "is_record_name n" "rc_from_path inp = Some (JStr path)"
    using ck by (auto simp: validate_recover_def rbind_Inr_iff requireNonEmptyString_Inr)
  obtain d where d: "dir_of st t = Some d"
    using assms(1) ck by (cases "dir_of st t") (auto simp: recoverRecord_def)
  obtain d' where d': "recover_in (pf_sha256 pf) files now fault t (n, path, source) d = (Some (Inr res), d')"
      "dir_of st' t = Some d'"
    using assms(1) ck d by (auto simp: recoverRecord_def Let_def split: prod.split_asm)
  have nm: "rv_record_file res = n"
    using d'(1) by (auto simp: recover_in_def Let_def split: option.split_asm if_split_asm sum.split_asm)
  from recover_in_reads [OF d'(1) ck'(1)] assms(2) obtain b j r where
    b: "files path = Some b" "parse_json b = Some j" "validateRecordArtifact j (Some t) = Inr r"
      "read_record (pf_sha256 pf) d' t n = Inr r"
    by blast
  have "readBytes d' n = readBytes d n"
  proof (rule recover_in_success [OF d'(1)])
    fix original recovered entries d1 e
    assume h: "readBytes d n = Some original" "land_copy (pf_sha256 pf) (recovered_name n) recovered d = Inr d1"
      "readRecoveryEntries d = Inr entries"
      "appendRecoveryLine (Doc (entry_json (length entries + 1) e (case source of None \<Rightarrow> [] | Some s \<Rightarrow> s) now) 0) d1 = Inr d'"
    have "td_files d' = td_files d1"
      using h(4) by (auto simp: appendRecoveryLine_def Let_def split: option.split_asm manifest.split_asm)
    then show "readBytes d' n = readBytes d n"
      using land_copy_reads [OF h(2,1)] h(1) readBytes_files by metis
  qed
  then show ?thesis
    using d d'(2) ck' b nm by auto
qed

theorem registration_recovers_witness:
  "\<exists>res st' d' r. recoverRecord spare_platform backup ''now'' Recover_completes ''t'' spare_request damaged_task = (Some (Inr res), st') \<and>
     dir_of st' ''t'' = Some d' \<and> read_record (pf_sha256 spare_platform) d' ''t'' (rv_record_file res) = Inr r"
proof -
  obtain res st' where r: "recoverRecord spare_platform backup ''now'' Recover_completes ''t'' spare_request damaged_task = (Some (Inr res), st')"
    using damaged_facts(1) by (simp add: recoverRecord_def spare_request_valid damaged_recover Let_def)
  have nc: "backup path = Some b \<Longrightarrow> pf_sha256 spare_platform c = pf_sha256 spare_platform b \<Longrightarrow> c = b" for path b c
    by (simp add: backup_def spare_platform_def split: if_split_asm)
  have "\<exists>d' r. dir_of st' ''t'' = Some d' \<and>
      read_record (pf_sha256 spare_platform) d' ''t'' (rv_record_file res) = Inr r"
    by (rule exE [OF registration_recovers [OF r]]) (use nc in blast)+
  with r show ?thesis by blast
qed

text \<open>C11. The repair tool cannot brick a record: when the process dies after landing the copy, or in
  the middle of the registration line, the same request succeeds afterwards.\<close>

theorem registration_retry_succeeds:
  assumes "recoverRecord pf files now fault t inp st = (None, st1)"
    and "fault = Dies_after_copy \<or> fault = Dies_in_line False"
  shows "\<exists>res st2. recoverRecord pf files now' Recover_completes t inp st1 = (Some (Inr res), st2)"
proof -
  obtain n path source where ck: "validate_recover t inp = Inr (n, path, source)"
    using assms(1) by (cases "validate_recover t inp") (auto simp: recoverRecord_def)
  obtain d where d: "dir_of st t = Some d"
    using assms(1) ck by (cases "dir_of st t") (auto simp: recoverRecord_def)
  obtain d1 where d1: "recover_in (pf_sha256 pf) files now fault t (n, path, source) d = (None, d1)"
      "dir_of st1 t = Some d1"
    using assms(1) ck d by (auto simp: recoverRecord_def Let_def split: prod.split_asm)
  from recover_in_retry [OF d1(1) assms(2), of now'] obtain res d2 where
    "recover_in (pf_sha256 pf) files now' Recover_completes t (n, path, source) d1 = (Some (Inr res), d2)" by blast
  then show ?thesis
    using ck d1(2) by (simp add: recoverRecord_def)
qed

theorem registration_retry_succeeds_witness:
  "\<exists>st1 res st2. recoverRecord spare_platform backup ''now'' (Dies_in_line False) ''t'' spare_request damaged_task = (None, st1) \<and>
     recoverRecord spare_platform backup ''now'' Recover_completes ''t'' spare_request st1 = (Some (Inr res), st2)"
proof -
  obtain st1 where s: "recoverRecord spare_platform backup ''now'' (Dies_in_line False) ''t'' spare_request damaged_task = (None, st1)"
    using damaged_facts(1) by (simp add: recoverRecord_def spare_request_valid damaged_recover Let_def)
  from registration_retry_succeeds [OF s, of "''now''"] s show ?thesis by blast
qed

text \<open>The metadata door only opens for broken metadata and never widens a frozen scope: readable
  metadata is refused without a change; a rebuild keeps every record file, takes its version from
  the records on disk, and keeps a surviving four-section description.\<close>

theorem repair_only_broken:
  assumes "repairMeta pf now wrote t inp st = (res, st')" and "dir_of st t = Some d"
  shows "((\<exists>m. readMeta d t = Inr (Some m)) \<longrightarrow> (\<exists>e. res = Inl (Coded e)) \<and> st' = st) \<and>
    (\<forall>rep. res = Inr rep \<longrightarrow> rp_version rep = maxOnDiskRecordVersion d \<and>
      (\<exists>m'. dir_of st' t = Some (writeMeta m' d) \<and> tm_version m' = maxOnDiskRecordVersion d \<and>
         (\<forall>s. frozen_scope d = Some s \<longrightarrow> tm_description m' = Some (JStr s)) \<and> st_cache st' t = None))"
proof (cases "validate_repair t inp st")
  case (Inl e)
  with assms(1) show ?thesis by (auto simp: repairMeta_def)
next
  case (Inr fs)
  with assms have r: "repair_in pf now wrote t fs d st = (res, st')"
    by (simp add: repairMeta_def)
  show ?thesis
  proof (intro conjI impI allI)
    show "\<exists>e. res = Inl (Coded e)" "st' = st" if "\<exists>m. readMeta d t = Inr (Some m)"
      using that r repair_in_readable by fastforce+
    fix rep assume "res = Inr rep"
    then have "repair_in pf now wrote t fs d st = (Inr rep, st')" using r by simp
    from repair_in_success [OF this] show "rp_version rep = maxOnDiskRecordVersion d"
      "\<exists>m'. dir_of st' t = Some (writeMeta m' d) \<and> tm_version m' = maxOnDiskRecordVersion d \<and>
         (\<forall>s. frozen_scope d = Some s \<longrightarrow> tm_description m' = Some (JStr s)) \<and> st_cache st' t = None"
      by (auto simp: rebuilt_meta_def Let_def)
  qed
qed

theorem repair_only_broken_witness:
  "st_cache (snd (repairMeta sample_platform ''now'' True ''t''
     \<lparr>ri_title = None, ri_description = None, ri_creator = None, ri_created_at = None, ri_flow = None,
      ri_cast = None, ri_checkout = None\<rparr> damaged_task)) ''t'' = st_cache damaged_task ''t''"
proof -
  let ?inp = "\<lparr>ri_title = None, ri_description = None, ri_creator = None, ri_created_at = None, ri_flow = None,
      ri_cast = None, ri_checkout = None\<rparr> :: repair_input"
  obtain res st' where r: "repairMeta sample_platform ''now'' True ''t'' ?inp damaged_task = (res, st')"
    by (cases "repairMeta sample_platform ''now'' True ''t'' ?inp damaged_task")
  from repair_only_broken [OF this damaged_facts(1)] damaged_meta r show ?thesis by auto
qed

end
