(* ===== verification/Store_Runs.thy ===== *)
theory Store_Runs
  imports Recovery
begin

text \<open>
  Runs of the store: any sequence of creations, publishes, reads, listings, rebuilds and
  registrations, with whatever faults they meet.  Two facts hold along every run: record files are
  only ever added, and every cache entry stays sound, so that no answer depends on the cache.
\<close>

inductive store_step :: "platform \<Rightarrow> store \<Rightarrow> store \<Rightarrow> bool" for pf where
  create: "createTask pf now wrote suffixes inp st = Some (res, st') \<Longrightarrow> \<not> blank now \<Longrightarrow> store_step pf st st'"
| append: "append_op pf now tut fault t ainp st = (ares, st') \<Longrightarrow> \<not> blank now \<Longrightarrow> store_step pf st st'"
| read: "readTask pf t since st = (rres, st') \<Longrightarrow> store_step pf st st'"
| listing: "snapshotTasks pf st = (snap, st') \<Longrightarrow> store_step pf st st'"
| repair: "repairMeta pf now wrote t rinp st = (pres, st') \<Longrightarrow> store_step pf st st'"
| recover: "recoverRecord pf files now rfault t cinp st = (vres, st') \<Longrightarrow> store_step pf st st'"

inductive_cases store_stepE: "store_step pf st st'"

inductive store_run :: "platform \<Rightarrow> store \<Rightarrow> store \<Rightarrow> bool" for pf where
  refl: "store_run pf st st"
| step: "store_run pf st st' \<Longrightarrow> store_step pf st' st'' \<Longrightarrow> store_run pf st st''"

section \<open>The invariant\<close>

definition token_ok :: "task_dir \<Rightarrow> fold_entry option \<Rightarrow> bool" where
  "token_ok d entry \<longleftrightarrow> (\<forall>e. entry = Some e \<longrightarrow> set (fe_token e) \<subseteq> set (taskDirNames d))"

definition dir_inv :: "platform \<Rightarrow> string \<Rightarrow> task_dir \<Rightarrow> fold_entry option \<Rightarrow> bool" where
  "dir_inv pf t d entry \<longleftrightarrow> (t \<noteq> PROJECT_TASK_ID \<longrightarrow> task_ok pf t d entry \<and> token_ok d entry)"

definition store_inv :: "platform \<Rightarrow> store \<Rightarrow> bool" where
  "store_inv pf st \<longleftrightarrow> distinct (map fst (st_tasks st)) \<and>
     (\<forall>t d. dir_of st t = Some d \<longrightarrow> dir_inv pf t d (st_cache st t))"

lemma store_inv_ok: "store_inv pf st \<Longrightarrow> store_ok pf st"
  by (auto simp: store_inv_def store_ok_def dir_inv_def task_ok_def)

lemma dir_inv_None: "dir_inv pf t d en \<Longrightarrow> dir_inv pf t d None"
  by (simp add: dir_inv_def task_ok_def token_ok_def cursor_sound_def)

lemma store_inv_update:
  assumes "store_inv pf st" and "dir_inv pf t d en"
  shows "store_inv pf (put_cache t en (put_dir t d st))"
  using assms by (auto simp: store_inv_def distinct_update put_dir_def dir_of_def put_cache_def update_conv')

lemma store_inv_put:
  assumes "store_inv pf st" and "dir_inv pf t d (st_cache st t)"
  shows "store_inv pf (put_dir t d st)"
  using assms by (auto simp: store_inv_def distinct_update put_dir_def dir_of_def update_conv')

lemma store_inv_put_cache:
  assumes "store_inv pf st" and "\<And>d. dir_of st t = Some d \<Longrightarrow> dir_inv pf t d en"
  shows "store_inv pf (put_cache t en st)"
  using assms by (auto simp: store_inv_def)

lemma store_inv_crash: "store_inv pf st \<Longrightarrow> store_inv pf (st\<lparr>st_cache := \<lambda>_. None\<rparr>)"
  by (auto simp: store_inv_def intro: dir_inv_None)

lemma store_inv_dir: "store_inv pf st \<Longrightarrow> dir_of st t = Some d \<Longrightarrow> dir_inv pf t d (st_cache st t)"
  by (simp add: store_inv_def)

lemma dir_inv_project: "dir_inv pf PROJECT_TASK_ID d en"
  by (simp add: dir_inv_def)

text \<open>An answer of the cache leaves an entry that fits.\<close>

lemma dir_inv_answer:
  assumes "dir_inv pf t d entry" "t \<noteq> PROJECT_TASK_ID" "readMeta d t = Inr (Some m)"
    and "read_already (pf_sha256 pf) d t already"
    and "foldCursorFor (pf_sha256 pf) (pf_parses pf) d t (effective_flow (tm_flow m)) (tm_description m)
           (taskDirNames d) already entry = Inr e"
  shows "dir_inv pf t d (Some e)"
proof -
  have h: "versions_match (pf_sha256 pf) d t" "string_description m = tm_description m"
    "cursor_sound (pf_sha256 pf) (pf_parses pf) d t (effective_flow (tm_flow m)) (tm_description m) (taskDirNames d) entry"
    using assms(1-3) by (auto simp: dir_inv_def task_ok_def)
  note snd = foldCursorFor_sound [OF h(1) assms(4) h(3) assms(5)]
  have "fe_token e = foldTokenOf (taskDirNames d)"
    using foldCursorFor_answers [OF h(1) assms(4) h(3)] assms(5) by blast
  with snd h assms(2,3) show ?thesis
    by (auto simp: dir_inv_def task_ok_def token_ok_def set_foldTokenOf)
qed

section \<open>Growth\<close>

definition grows :: "store \<Rightarrow> store \<Rightarrow> bool" where
  "grows st st' \<longleftrightarrow> (\<forall>t d. dir_of st t = Some d \<longrightarrow>
     (\<exists>d' added. dir_of st' t = Some d' \<and> td_files d' = td_files d @ added))"

lemma grows_refl [simp]: "grows st st"
  by (simp add: grows_def)

lemma grows_trans: "grows a b \<Longrightarrow> grows b c \<Longrightarrow> grows a c"
  unfolding grows_def by (metis append.assoc)

lemma grows_put:
  assumes "\<And>d. dir_of st t = Some d \<Longrightarrow> \<exists>added. td_files d' = td_files d @ added"
    and "\<And>t'. dir_of st' t' = (if t' = t then Some d' else dir_of st t')"
  shows "grows st st'"
  unfolding grows_def
proof (intro allI impI)
  fix u d assume "dir_of st u = Some d"
  then show "\<exists>d' added. dir_of st' u = Some d' \<and> td_files d' = td_files d @ added"
    using assms by (cases "u = t") auto
qed

lemma grows_same: "(\<And>t. dir_of st' t = dir_of st t) \<Longrightarrow> grows st st'"
  by (simp add: grows_def)

section \<open>Creation\<close>

lemma free_slug_sound: "free_slug occ base c ss = Some t \<Longrightarrow> \<not> occ t"
  by (induction occ base c ss rule: free_slug.induct) (auto simp: free_slug.simps split: if_split_asm list.split_asm)

lemma uniqueSlug_free: "uniqueSlug st base ss = Some t \<Longrightarrow> dir_of st t = None"
  by (auto simp: uniqueSlug_def entryExists_def dir_of_def split: if_split_asm list.split_asm
      dest!: free_slug_sound)

lemma create_in_inv:
  assumes "store_inv pf st" "dir_of st t = None" "meta_ok m" "tm_task_id m = t"
    and "tm_description m = Some (JStr desc)" "tm_cached m = None"
    and "create_in pf now wrote t m desc st = (res, st')"
  shows "store_inv pf st' \<and> grows st st'"
proof -
  let ?c = "foldWithLint (pf_parses pf) (lint_initial (effective_flow (tm_flow m))) [] (effective_flow (tm_flow m)) (utf8 desc)"
  let ?e = "Some \<lparr>fe_token = [], fe_cursor = Some ?c, fe_spec = Some (effective_flow (tm_flow m), JStr desc), fe_probeMax = 0\<rparr>"
  let ?m = "cacheDerived m (Some (lint_derived ?c))"
  have vm: "versions_match (pf_sha256 pf) (writeMeta m' empty_dir) t" for m'
    by (simp add: versions_match_def read_record_def readBytes_def empty_dir_def)
  have mok: "meta_ok ?m" "tm_task_id ?m = t"
    using assms(3,4) by (simp_all add: cacheDerived_def meta_ok_def)
  have rm: "readMeta (writeMeta ?m empty_dir) t = Inr (Some m)"
    using readMeta_writeMeta [OF mok, of empty_dir] assms(6) by (simp add: cacheDerived_def)
  have "cursor_sound (pf_sha256 pf) (pf_parses pf) (writeMeta ?m empty_dir) t (effective_flow (tm_flow m))
      (tm_description m) (taskDirNames (writeMeta ?m empty_dir)) ?e"
    by (simp add: cursor_sound_def readable_def records_at_def assms(5) description_text_def)
  then have full: "dir_inv pf t (writeMeta ?m empty_dir) ?e"
    using rm vm assms(5) by (simp add: dir_inv_def task_ok_def token_ok_def string_description_def)
  have bare: "dir_inv pf t empty_dir ?e"
    by (simp add: dir_inv_def task_ok_def token_ok_def versions_match_def read_record_def readBytes_def empty_dir_def
        readMeta_def)
  have st': "st' = (if wrote then put_dir t (writeMeta ?m empty_dir) (put_cache t ?e (put_dir t empty_dir st))
      else put_cache t ?e (put_dir t empty_dir st))"
    using assms(7) by (auto simp: create_in_def Let_def split: if_split_asm)
  have "store_inv pf st'"
    unfolding st' using store_inv_update [OF assms(1) bare] full by (auto intro!: store_inv_put)
  moreover have "grows st st'"
    unfolding grows_def st' using assms(2) by auto
  ultimately show ?thesis ..
qed

lemma create_inv:
  assumes "store_inv pf st" "createTask pf now wrote suffixes inp st = Some (res, st')" "\<not> blank now"
  shows "store_inv pf st' \<and> grows st st'"
proof (cases "\<exists>e. createTask pf now wrote suffixes inp st = Some (Inl (Coded e), st)")
  case True
  with assms show ?thesis by auto
next
  case False
  with assms(2) obtain title desc creator role flow cast checkout t where
    h: "\<not> blank title" "requireValidCast (ci_cast inp) = Inr cast" "requireValidCheckout (ci_checkout inp) = Inr checkout"
      "uniqueSlug st (slugify title) suffixes = Some t"
      "create_in pf now wrote t (created_meta t title desc creator role flow cast checkout now) desc st = (res, st')"
    unfolding createTask_def
    by (auto simp: rbind_Inr_iff rbind_Inl_iff requireNonEmptyString_Inr split: sum.split_asm if_split_asm)
  have "meta_ok (created_meta t title desc creator role flow cast checkout now)"
    using h(1,2,3) assms(3) requireValidCheckout_ok by (auto simp: meta_ok_def created_meta_def requireValidCast_ok)
  then show ?thesis
    using create_in_inv [OF assms(1) uniqueSlug_free [OF h(4)] _ _ _ _ h(5)] by (simp add: created_meta_def)
qed

section \<open>Publishing\<close>

lemma landed_inv:
  assumes "dir_inv pf t d entry" "t \<noteq> PROJECT_TASK_ID" "readMeta d t = Inr (Some m)"
    and "validate_append t inp = Inr (role, ct, p, e)" "\<not> blank now"
    and r: "r = new_record (next_version m d) t role ct p inp now tut"
    and n: "n = recordFileName (next_version m d) ct"
    and pre: "prewrite_fold pf d t m r entry = Inr folded"
  shows "dir_inv pf t (landed d n r) (entry_after d m n folded entry) \<and>
    dir_inv pf t (writeMeta (meta_after m (next_version m d) now folded) (landed d n r)) (entry_after d m n folded entry) \<and>
    (\<exists>x. folded = Some x)"
proof -
  have tok: "task_ok pf t d entry" using assms(1,2) by (simp add: dir_inv_def)
  have rok: "record_ok r" "rec_task_id r = t" "rec_version r = next_version m d"
    using validate_append_ok [OF assms(4), of "next_version m d"] assms(5)
    by (auto simp: r new_record_def next_version_def)
  have ver: "recordFileVersion n = Some (rec_version r)" "maxRecordVersionOf (taskDirNames d) < rec_version r"
    using rok(3) next_version_gt [of m d] by (simp_all add: n record_file_name_version)
  have fresh: "n \<notin> set (taskDirNames d)" unfolding n by (rule next_version_free)
  from landed_task_ok [OF tok assms(2,3) fresh rok(1,2) ver pre] obtain e' c where
    l: "folded = Some (e', c)" "versions_match (pf_sha256 pf) (landed d n r) t"
      "cursor_sound (pf_sha256 pf) (pf_parses pf) (landed d n r) t (effective_flow (tm_flow m)) (tm_description m)
        (taskDirNames (landed d n r)) (entry_after d m n folded entry)"
    by blast
  have sd: "string_description m = tm_description m" using tok assms(2,3) by (simp add: task_ok_def)
  note mok = readMeta_ok [OF assms(3)]
  have td: "td_meta (landed d n r) \<noteq> None" "readMeta (landed d n r) t = Inr (Some m)"
    using mok assms(3) by (simp_all add: landed_def)
  have tk: "token_ok (landed d n r) (entry_after d m n folded entry)"
    using l(1) by (auto simp: token_ok_def entry_after_def set_foldTokenOf names_landed)
  then have "token_ok (writeMeta (meta_after m (next_version m d) now folded) (landed d n r)) (entry_after d m n folded entry)"
    by (simp only: token_ok_def names_writeMeta [OF td(1)])
  moreover have "task_ok pf t (writeMeta (meta_after m (next_version m d) now folded) (landed d n r)) (entry_after d m n folded entry)"
    using l mok sd assms(5) td by (auto intro!: task_ok_meta meta_after_ok simp: string_description_def)
  moreover have "task_ok pf t (landed d n r) (entry_after d m n folded entry)"
    using td(2) l sd by (simp add: task_ok_def)
  ultimately show ?thesis using tk l(1) by (simp add: dir_inv_def)
qed

lemma prewrite_entry_inv:
  assumes "dir_inv pf t d entry" "readMeta d t = Inr (Some m)" "prewrite_fold pf d t m r entry = Inr (Some (e, c))"
  shows "dir_inv pf t d (Some e)"
proof (cases "t = PROJECT_TASK_ID")
  case True
  then show ?thesis by (simp add: dir_inv_project)
next
  case False
  have "string_description m = tm_description m"
    using assms(1,2) False by (simp add: dir_inv_def task_ok_def)
  then have "foldCursorFor (pf_sha256 pf) (pf_parses pf) d t (effective_flow (tm_flow m)) (tm_description m)
           (taskDirNames d) [] entry = Inr e"
    using assms(3) False by (auto simp: prewrite_fold_def rbind_Inr_iff)
  then show ?thesis
    using dir_inv_answer [OF assms(1) False assms(2) read_already_Nil] by blast
qed

lemma append_with_inv:
  assumes "store_inv pf st" "dir_of st t = Some d" "readMeta d t = Inr (Some m)" "\<not> blank now"
    and "validate_append t inp = Inr checked"
    and "append_with pf now tut fault t checked inp m d st = (res, st')"
  shows "store_inv pf st' \<and> grows st st'"
proof -
  obtain role ct p e where ck: "checked = (role, ct, p, e)" by (metis prod_cases4)
  let ?r = "new_record (next_version m d) t role ct p inp now tut" and ?n = "recordFileName (next_version m d) ct"
  note di = store_inv_dir [OF assms(1,2)]
  note va = assms(5) [unfolded ck]
  have li: "dir_inv pf t (landed d ?n ?r) (entry_after d m ?n folded
        (case folded of None \<Rightarrow> st_cache st t | Some (e, _) \<Rightarrow> Some e)) \<and>
      dir_inv pf t (writeMeta (meta_after m (next_version m d) now folded) (landed d ?n ?r)) (entry_after d m ?n folded
        (case folded of None \<Rightarrow> st_cache st t | Some (e, _) \<Rightarrow> Some e))"
    if "prewrite_fold pf d t m ?r (st_cache st t) = Inr folded" for folded
  proof (cases "t = PROJECT_TASK_ID")
    case True
    then show ?thesis by (simp add: dir_inv_project)
  next
    case False
    from landed_inv [OF di False assms(3) va assms(4) HOL.refl HOL.refl that] show ?thesis
      by (auto simp: entry_after_def)
  qed
  have gr: "\<exists>added. td_files (landed d ?n ?r) = td_files d @ added" by (simp add: landed_def)
  show ?thesis
  proof (rule append_with_cases [OF ck, where pf = pf and now = now and tut = tut and fault = fault
        and t = t and inp = inp and m = m and d = d and st = st], goal_cases)
    case (1)
    with assms(1,6) show ?case by simp
  next
    case (2 f)
    with assms(1,6) show ?case by simp
  next
    case (3 folded)
    then have st': "st' = (case folded of None \<Rightarrow> st | Some (e, _) \<Rightarrow> put_cache t (Some e) st)"
      using assms(6) by simp
    show ?case
    proof (cases folded)
      case None
      with st' assms(1) show ?thesis by simp
    next
      case (Some x)
      obtain e' c where x: "x = (e', c)" by (cases x)
      have "dir_inv pf t d (Some e')"
        using prewrite_entry_inv [OF di assms(3)] 3(1) Some x by blast
      then have "store_inv pf (put_cache t (Some e') st)"
        using assms(1,2) by (intro store_inv_put_cache) auto
      with st' Some x show ?thesis by (auto intro: grows_same)
    qed
  next
    case (4 folded)
    then have st': "st' = (put_dir t (landed d ?n ?r) st)\<lparr>st_cache := \<lambda>_. None\<rparr>"
      using assms(6) by simp
    have "store_inv pf (put_cache t (entry_after d m ?n folded (case folded of None \<Rightarrow> st_cache st t | Some (e, _) \<Rightarrow> Some e))
        (put_dir t (landed d ?n ?r) st))"
      using store_inv_update [OF assms(1)] li [OF 4(1)] by blast
    from store_inv_crash [OF this] have "store_inv pf st'"
      unfolding st' by (simp add: put_cache_def)
    moreover have "grows st st'"
      using gr assms(2) unfolding st' by (intro grows_put [of st t "landed d ?n ?r"]) auto
    ultimately show ?case ..
  next
    case (5 folded st3)
    let ?en = "entry_after d m ?n folded (case folded of None \<Rightarrow> st_cache st t | Some (e, _) \<Rightarrow> Some e)"
    have i3: "store_inv pf st3"
      unfolding 5(4) using store_inv_update [OF assms(1)] li [OF 5(2)] by blast
    have st': "st' = (if fault = Meta_write_fails then st3
        else put_dir t (writeMeta (meta_after m (next_version m d) now folded) (landed d ?n ?r)) st3)"
      using 5(5) assms(6) by (auto split: if_split_asm)
    have "st_cache st3 t = ?en" unfolding 5(4) by simp
    then have "store_inv pf st'"
      using i3 li [OF 5(2)] st' by (auto intro!: store_inv_put)
    moreover have "grows st st'"
      unfolding grows_def st' 5(4) using gr assms(2) by auto
    ultimately show ?case ..
  qed
qed

lemma append_inv:
  assumes "store_inv pf st" "append_op pf now tut fault t inp st = (res, st')" "\<not> blank now"
  shows "store_inv pf st' \<and> grows st st'"
proof (cases "validate_append t inp")
  case (Inl e)
  with assms show ?thesis by (simp add: append_op_def)
next
  case ck: (Inr checked)
  show ?thesis
  proof (cases "meta_of st t")
    case (Inl f)
    with ck assms show ?thesis by (simp add: append_op_def)
  next
    case (Inr mo)
    show ?thesis
    proof (cases mo)
      case (Some m)
      with Inr obtain d where d: "dir_of st t = Some d" "readMeta d t = Inr (Some m)"
        using meta_of_dir by blast
      have "append_with pf now tut fault t checked inp m d st = (res, st')"
        using assms(2) append_existing [OF Inr [unfolded Some] ck d(1)] by simp
      from append_with_inv [OF assms(1) d assms(3) ck this] show ?thesis .
    next
      case None
      show ?thesis
      proof (cases "t = PROJECT_TASK_ID")
        case False
        with assms ck Inr None show ?thesis by (simp add: append_op_def)
      next
        case True
        let ?m = "project_meta now" and ?d = "writeMeta (project_meta now) (dir_or_empty st t)"
        have i: "store_inv pf (put_dir t ?d st)"
          using assms(1) True by (intro store_inv_put) (simp_all add: dir_inv_project)
        have "meta_ok ?m \<and> tm_task_id ?m = t \<and> tm_cached ?m = None"
          using assms(3) True by (simp add: project_meta_def meta_ok_def PROJECT_TASK_ID_def blank_def is_space_def)
        then have rm: "readMeta ?d t = Inr (Some ?m)"
          using readMeta_writeMeta [of ?m t "dir_or_empty st t"] by simp
        have dd: "dir_of (put_dir t ?d st) t = Some ?d" by simp
        have aw: "append_with pf now tut fault t checked inp ?m ?d (put_dir t ?d st) = (res, st')"
          using assms(2) ck Inr None True by (simp add: append_op_def Let_def)
        have "grows st (put_dir t ?d st)"
          by (rule grows_put [of st t ?d]) (simp_all add: dir_or_empty_def)
        with append_with_inv [OF i dd rm assms(3) ck aw] show ?thesis
          using grows_trans by blast
      qed
    qed
  qed
qed

section \<open>Reading\<close>

lemma derivedFor_inv:
  assumes "dir_inv pf t d entry" "readMeta d t = Inr (Some m)" "read_already (pf_sha256 pf) d t already"
    and "derivedFor (pf_sha256 pf) (pf_parses pf) d t (tm_flow m) (tm_description m) (taskDirNames d) already entry =
      Inr (Some (v, e))"
  shows "dir_inv pf t d (Some e)"
proof -
  have ne: "t \<noteq> PROJECT_TASK_ID" using assms(4) by (auto simp: derivedFor_def)
  with assms(4) have "foldCursorFor (pf_sha256 pf) (pf_parses pf) d t (effective_flow (tm_flow m)) (tm_description m)
      (taskDirNames d) already entry = Inr e"
    by (auto simp: derivedFor_def rbind_Inr_iff)
  then show ?thesis using dir_inv_answer [OF assms(1) ne assms(2,3)] by blast
qed

lemma readNamed_already:
  "readNamedRecordsPaired sha d t names = Inr ps \<Longrightarrow> read_already sha d t ps"
proof -
  assume r: "readNamedRecordsPaired sha d t names = Inr ps"
  show ?thesis
    unfolding read_already_def
  proof (intro allI impI)
    fix n x assume m: "map_of ps n = Some x"
    then have "n \<in> fst ` set ps" by (metis domI dom_map_of_conv_image_fst)
    with r have "n \<in> set names" "is_record_name n"
      by (auto simp: readNamedRecordsPaired_def Let_def split: if_split_asm)
    from readNamed_lookup [OF r this] m show "read_record sha d t n = Inr x" by auto
  qed
qed

lemma read_inv:
  assumes "store_inv pf st" "readTask pf t since st = (res, st')"
  shows "store_inv pf st' \<and> grows st st'"
proof (cases "st' = st")
  case True
  with assms(1) show ?thesis by simp
next
  case False
  then obtain m ps v e where h: "meta_of st t = Inr (Some m)"
    "readNamedRecordsPaired (pf_sha256 pf) (dir_or_empty st t) t
       (filter (\<lambda>name. is_record_name name \<and> (case since of None \<Rightarrow> True | Some v \<Rightarrow> v \<le> name_version name))
          (taskDirNames (dir_or_empty st t))) = Inr ps"
    "derivedFor (pf_sha256 pf) (pf_parses pf) (dir_or_empty st t) t (tm_flow m) (tm_description m)
       (taskDirNames (dir_or_empty st t)) ps (st_cache st t) = Inr (Some (v, e))"
    "st' = put_cache t (Some e) st"
    using assms(2) unfolding readTask_def Let_def
    by (auto split: sum.split_asm option.split_asm if_split_asm prod.split_asm)
  obtain d where d: "dir_of st t = Some d" "readMeta d t = Inr (Some m)" using meta_of_dir [OF h(1)] by blast
  have de: "dir_or_empty st t = d" using d(1) by (simp add: dir_or_empty_def)
  have "dir_inv pf t d (Some e)"
    using derivedFor_inv [OF store_inv_dir [OF assms(1) d(1)] d(2) readNamed_already] h(2,3) de by blast
  then show ?thesis
    using assms(1) d(1) h(4) by (auto intro!: store_inv_put_cache grows_same)
qed

lemma collect_one_inv:
  assumes "dir_inv pf t d entry"
  shows "dir_inv pf t d (snd (collect_one pf t (Dir d) entry))"
proof (cases "t = PROJECT_TASK_ID")
  case True
  then show ?thesis by (simp add: dir_inv_project)
next
  case ne: False
  show ?thesis
  proof (cases "snd (collect_one pf t (Dir d) entry) = entry")
    case True
    with assms show ?thesis by simp
  next
    case False
    then obtain m v e where "readMeta d t = Inr (Some m)"
      "derivedFor (pf_sha256 pf) (pf_parses pf) d t (tm_flow m) (tm_description m) (taskDirNames d) [] entry = Inr (Some (v, e))"
      "snd (collect_one pf t (Dir d) entry) = Some e"
      using ne by (auto simp: collect_one_def Let_def split: if_split_asm sum.split_asm option.split_asm)
    then show ?thesis using derivedFor_inv [OF assms _ read_already_Nil] by metis
  qed
qed

lemma collect_from_inv:
  assumes "store_inv pf st" "set es \<subseteq> set (st_tasks st)" "collect_from pf es st = (r, st')"
  shows "store_inv pf st' \<and> (\<forall>t. dir_of st' t = dir_of st t)"
  using assms
proof (induction es arbitrary: st r st')
  case Nil
  then show ?case by simp
next
  case (Cons a es)
  obtain t en where a: "a = (t, en)" by (cases a)
  obtain c ca where c: "collect_one pf t en (st_cache st t) = (c, ca)" by (cases "collect_one pf t en (st_cache st t)")
  obtain r1 st1 where rest: "collect_from pf es (put_cache t ca st) = (r1, st1)"
    by (cases "collect_from pf es (put_cache t ca st)")
  have st1: "st' = st1" using Cons.prems(3) a c rest by (auto split: prod.split_asm)
  have mo: "map_of (st_tasks st) t = Some en"
    using Cons.prems(1,2) a by (auto simp: store_inv_def)
  have "store_inv pf (put_cache t ca st)"
  proof (rule store_inv_put_cache [OF Cons.prems(1)])
    fix d assume d: "dir_of st t = Some d"
    then have "en = Dir d" using mo by (simp add: dir_of_def split: dir_entry.split_asm)
    then show "dir_inv pf t d ca"
      using collect_one_inv [OF store_inv_dir [OF Cons.prems(1) d]] c by (metis snd_conv)
  qed
  from Cons.IH [OF this _ rest] Cons.prems(2) st1 show ?case by simp
qed

lemma listing_inv:
  "store_inv pf st \<Longrightarrow> snapshotTasks pf st = (r, st') \<Longrightarrow> store_inv pf st' \<and> grows st st'"
  using collect_from_inv [of pf st "st_tasks st" r st'] grows_same by (auto simp: snapshotTasks_def)

section \<open>Recovery\<close>

lemma rebuilt_inv:
  assumes "dir_inv pf t d en" "tm_description m = map_option JStr x"
  shows "dir_inv pf t (writeMeta m d) None"
proof -
  have "versions_match sha (writeMeta m d) t = versions_match sha d t" for sha
    by (simp add: writeMeta_def)
  moreover have "string_description m' = tm_description m'" if "readMeta (writeMeta m d) t = Inr (Some m')" for m'
    using readMeta_description [OF that] assms(2) by (simp add: string_description_def)
  ultimately show ?thesis
    using assms(1) by (simp add: dir_inv_def task_ok_def token_ok_def cursor_sound_def)
qed

lemma repair_inv:
  assumes "store_inv pf st" "repairMeta pf now wrote t inp st = (res, st')"
  shows "store_inv pf st' \<and> grows st st'"
proof (cases "validate_repair t inp st")
  case (Inl e)
  with assms show ?thesis by (simp add: repairMeta_def)
next
  case (Inr fs)
  show ?thesis
  proof (cases "dir_of st t")
    case None
    with Inr assms show ?thesis by (simp add: repairMeta_def)
  next
    case (Some d)
    with Inr assms(2) have r: "repair_in pf now wrote t fs d st = (res, st')"
      by (simp add: repairMeta_def)
    have dropped: "store_inv pf (put_cache t None st)"
      using assms(1) Some by (auto intro!: store_inv_put_cache intro: dir_inv_None dest: store_inv_dir)
    show ?thesis
    proof (cases res)
      case (Inl f)
      then have "st' = st \<or> st' = put_cache t None st"
        using r by (auto simp: repair_in_def Let_def split: if_split_asm)
      with assms(1) dropped show ?thesis by (auto intro: grows_same)
    next
      case (Inr rep)
      from repair_in_success [of pf now wrote t fs d st rep st'] r Inr obtain description m' where
        m': "m' = cacheDerived (rebuilt_meta t fs description now (maxOnDiskRecordVersion d))
          (rebuilt_derived pf d t (rebuilt_meta t fs description now (maxOnDiskRecordVersion d)))"
        and st': "st' = put_dir t (writeMeta m' d) (put_cache t None st)"
        by auto
      have "tm_description m' = map_option JStr description"
        unfolding m' by (simp add: rebuilt_meta_def Let_def)
      from rebuilt_inv [OF store_inv_dir [OF assms(1) Some] this] have "store_inv pf st'"
        unfolding st' using dropped by (auto intro!: store_inv_put)
      moreover have "grows st st'"
        using Some unfolding st' by (intro grows_put [of st t "writeMeta m' d"]) auto
      ultimately show ?thesis ..
    qed
  qed
qed

lemma ends_with_last: "ends_with s x \<Longrightarrow> s \<noteq> [] \<Longrightarrow> last x = last s"
  by (auto simp: ends_with_def) (metis last_drop length_drop length_greater_0_conv zero_less_diff)

lemma last_dropWhile: "dropWhile P xs \<noteq> [] \<Longrightarrow> last (dropWhile P xs) = last xs"
  by (induction xs) (auto split: if_splits)

lemma record_name_last: "is_record_name n \<Longrightarrow> last n = CHR ''n''"
proof -
  let ?rest = "dropWhile is_digit (tl n)"
  assume "is_record_name n"
  then have h: "ends_with ''.json'' (tl ?rest)" "5 < length (tl ?rest)" "?rest \<noteq> []"
    by (auto simp: is_record_name_def recordFileVersion_def Let_def split: if_split_asm)
  have ne: "tl ?rest \<noteq> []" "tl n \<noteq> []"
    using h(2,3) by (metis list.size(3) not_numeral_less_zero, metis dropWhile.simps(1))
  have "last (tl ?rest) = last ?rest" using ne by (simp add: last_tl)
  also have "\<dots> = last (tl n)" using h(3) by (rule last_dropWhile)
  also have "\<dots> = last n" using ne(2) by (simp add: last_tl)
  finally show ?thesis using ends_with_last [OF h(1)] by simp
qed

lemma recovered_not_record: "\<not> is_record_name (recovered_name n)"
  using record_name_last [of "recovered_name n"] by (auto simp: recovered_name_def)

text \<open>What a registration does to a directory: at most one copy is added, the manifest grows by an
  entry of a file that had none.\<close>

lemma torn_whole_entries:
  assumes "readRecoveryEntries d = Inr es" "parse_entry b = Some e"
  shows "readRecoveryEntries (torn_line b d) = Inr (es @ [e])"
  using assms
  by (auto simp: readRecoveryEntries_def torn_line_def List.map_filter_def split: option.splits manifest.splits)

lemma recover_in_effect:
  assumes "recover_in sha files now fault t (n, path, source) d = (res, d')"
  shows "d' = d \<or> (\<exists>es b. readRecoveryEntries d = Inr es \<and> \<not> list_ex (\<lambda>e. re_file e = n) es \<and>
    (td_files d' = td_files d \<or> (recovered_name n \<notin> set (taskDirNames d) \<and>
        td_files d' = td_files d @ [(recovered_name n, b)])) \<and> td_meta d' = td_meta d \<and>
    (readRecoveryEntries d' = Inr es \<or> (\<exists>e. re_file e = n \<and> readRecoveryEntries d' = Inr (es @ [e]))))"
proof (cases "d' = d")
  case False
  then obtain original recovered es d1 where h: "readBytes d n = Some original" "files path = Some recovered"
    "readRecoveryEntries d = Inr es" "\<not> list_ex (\<lambda>e. re_file e = n) es"
    "land_copy sha (recovered_name n) recovered d = Inr d1"
    and d': "let e = \<lparr>re_file = n, re_corrupt_sha256 = sha original, re_recovered_sha256 = sha recovered,
               re_recovered_file = recovered_name n\<rparr>;
             line = Doc (entry_json (length es + 1) e (case source of None \<Rightarrow> [] | Some s \<Rightarrow> s) now) 0
      in d' = d1 \<or> d' = torn_line line d1 \<or> d' = torn_line (Junk []) d1 \<or> appendRecoveryLine line d1 = Inr d'"
    using assms unfolding recover_in_def Let_def
    by (auto split: option.split_asm if_split_asm sum.split_asm)
  let ?e = "\<lparr>re_file = n, re_corrupt_sha256 = sha original, re_recovered_sha256 = sha recovered,
               re_recovered_file = recovered_name n\<rparr>"
  have e1: "readRecoveryEntries d1 = Inr es" "td_meta d1 = td_meta d"
    using land_copy_Inr(3,4) [OF h(5)] h(3) by simp_all
  have pe: "parse_entry (Doc (entry_json k ?e src now) 0) = Some ?e" for k src
    by (rule parse_entry_json)
  have "td_files d' = td_files d1 \<and> td_meta d' = td_meta d1 \<and>
      (readRecoveryEntries d' = Inr es \<or> readRecoveryEntries d' = Inr (es @ [?e]))"
  proof -
    let ?l = "Doc (entry_json (length es + 1) ?e (case source of None \<Rightarrow> [] | Some s \<Rightarrow> s) now) 0"
    from d' consider "d' = d1" | "d' = torn_line ?l d1" | "d' = torn_line (Junk []) d1" | "appendRecoveryLine ?l d1 = Inr d'"
      unfolding Let_def by blast
    then show ?thesis
    proof cases
      case 1
      then show ?thesis using e1 by simp
    next
      case 2
      then show ?thesis using torn_whole_entries [OF e1(1) pe] by simp
    next
      case 3
      then show ?thesis using torn_line_entries [OF e1(1)] by simp
    next
      case 4
      obtain dd where "appendRecoveryLine ?l d1 = Inr dd" "readRecoveryEntries dd = Inr (es @ [?e])"
        "td_files dd = td_files d1 \<and> td_meta dd = td_meta d1"
        using appendRecoveryLine_entries [OF e1(1) pe] by blast
      with 4 show ?thesis by simp
    qed
  qed
  moreover have "td_files d1 = td_files d \<or> (recovered_name n \<notin> set (taskDirNames d) \<and>
      td_files d1 = td_files d @ [(recovered_name n, recovered)])"
    using land_copy_Inr(1) [OF h(5)] by auto
  moreover have "re_file ?e = n" by simp
  ultimately show ?thesis
    using h(3,4) e1(2) by (intro disjI2 exI [of _ es] exI [of _ recovered]) metis
qed simp

lemma recover_in_reads_old:
  assumes "recover_in sha files now fault t (n, path, source) d = (res, d')" and "read_record sha d t k = Inr r"
  shows "read_record sha d' t k = Inr r"
proof (cases "d' = d")
  case False
  with recover_in_effect [OF assms(1)] obtain es b where
    es: "readRecoveryEntries d = Inr es" "\<not> list_ex (\<lambda>e. re_file e = n) es"
    and fs: "td_files d' = td_files d \<or> (recovered_name n \<notin> set (taskDirNames d) \<and>
        td_files d' = td_files d @ [(recovered_name n, b)])"
    and en: "readRecoveryEntries d' = Inr es \<or> (\<exists>e. re_file e = n \<and> readRecoveryEntries d' = Inr (es @ [e]))"
    by blast
  have rb: "readBytes d' x = Some y" if "readBytes d x = Some y" for x y
  proof -
    have "readBytes d' x = readBytes d x \<or> (recovered_name n \<notin> set (taskDirNames d) \<and>
        readBytes d' x = readBytes (d\<lparr>td_files := td_files d @ [(recovered_name n, b)]\<rparr>) x)"
      using fs by (auto simp: readBytes_def)
    moreover have "readBytes d (recovered_name n) = None" if "recovered_name n \<notin> set (taskDirNames d)"
      using landed_append [OF that] by (simp add: readBytes_def map_of_eq_None_iff [THEN iffD2])
    ultimately show ?thesis
      using that by (auto simp: readBytes_append landed_append)
  qed
  obtain c where c: "readBytes d k = Some c"
    using assms(2) by (auto simp: read_record_def split: option.split_asm)
  show ?thesis
  proof (cases "read_direct t c")
    case (Some r')
    with assms(2) c rb [OF c] show ?thesis by (simp add: read_record_def)
  next
    case None
    then have rec: "recoveredRecordFor sha d t k (the (recordFileVersion k)) c = Inr (Some r)"
      using assms(2) c by (auto simp: read_record_def rbind_Inr_iff split: option.split_asm)
    then obtain m where m: "last_entry k es = Some m"
      unfolding recoveredRecordFor_Some using es(1) by auto
    have "k \<noteq> n"
      using m es(2) last_entry_None [of n es] by auto
    then obtain es' where "readRecoveryEntries d' = Inr es'" "last_entry k es' = Some m"
      using en m by (auto simp: last_entry_append)
    then have "recoveredRecordFor sha d' t k (the (recordFileVersion k)) c = Inr (Some r)"
      using rec es(1) m unfolding recoveredRecordFor_Some by (auto intro: rb)
    with None c rb [OF c] show ?thesis by (simp add: read_record_def)
  qed
qed (use assms in simp)

lemma recover_in_inv:
  assumes "recover_in (pf_sha256 pf) files now fault t (n, path, source) d = (res, d')" and "dir_inv pf t d en"
  shows "dir_inv pf t d' en \<and> (\<exists>added. td_files d' = td_files d @ added)"
proof -
  note old = recover_in_reads_old [OF assms(1)]
  have eff: "td_meta d' = td_meta d \<and> (td_files d' = td_files d \<or> (\<exists>b. recovered_name n \<notin> set (taskDirNames d) \<and>
      td_files d' = td_files d @ [(recovered_name n, b)]))"
    using recover_in_effect [OF assms(1)] by blast
  have rm: "readMeta d' t = readMeta d t" using eff by (simp add: readMeta_def)
  have recs: "filter is_record_name (taskDirNames d') = filter is_record_name (taskDirNames d)"
    using eff recovered_not_record [of n] by (auto simp: taskDirNames_def)
  have fsub: "set (td_files d) \<subseteq> set (td_files d')" using eff by auto
  have mf: "td_manifest d \<noteq> None \<Longrightarrow> td_manifest d' \<noteq> None"
    using assms(1)
    by (auto simp: recover_in_def Let_def land_copy_def writeRecordExclusive_def torn_line_def appendRecoveryLine_def
        split: option.split_asm if_split_asm sum.split_asm manifest.split_asm)
  have sub: "set (taskDirNames d) \<subseteq> set (taskDirNames d')"
    using eff fsub mf by (auto simp: taskDirNames_def)
  show ?thesis
  proof (cases "t = PROJECT_TASK_ID")
    case True
    then show ?thesis using eff by (auto simp: dir_inv_project)
  next
    case False
    have "versions_match (pf_sha256 pf) d t" using assms(2) False by (simp add: dir_inv_def task_ok_def)
    then have "versions_match (pf_sha256 pf) d' t"
      unfolding versions_match_direct using eff recovered_not_record [of n]
      by (auto simp: readBytes_def map_add_def split: option.split_asm if_split_asm)
    moreover have "cursor_sound (pf_sha256 pf) (pf_parses pf) d' t fl de (taskDirNames d') en"
      if cs: "cursor_sound (pf_sha256 pf) (pf_parses pf) d t fl de (taskDirNames d) en" for fl de
      unfolding cursor_sound_def Let_def recs
    proof (intro allI impI)
      fix e c assume h: "en = Some e" "fe_cursor e = Some c" "fe_spec e = Some (fl, spec_description de)"
      let ?files = "filter (\<lambda>n. n \<in> set (fe_token e)) (filter is_record_name (taskDirNames d))"
      have "set (fe_token e) \<subseteq> set (taskDirNames d)"
        using assms(2) False h(1) by (simp add: dir_inv_def token_ok_def)
      then have "readable (pf_sha256 pf) d t ?files" "\<exists>tx. description_text de = Inr tx \<and>
          c = foldWithLint (pf_parses pf) (lint_initial fl) (records_at (pf_sha256 pf) d t ?files) fl tx"
        using cs h unfolding cursor_sound_def Let_def by blast+
      moreover have "readable sha d' t fs \<and> records_at sha d' t fs = records_at sha d t fs"
        if "readable sha d t fs" "sha = pf_sha256 pf" for fs sha
        using that old by (fastforce simp: readable_def records_at_def is_ok_iff)
      ultimately show "readable (pf_sha256 pf) d' t ?files \<and> (\<exists>tx. description_text de = Inr tx \<and>
          c = foldWithLint (pf_parses pf) (lint_initial fl) (records_at (pf_sha256 pf) d' t ?files) fl tx)"
        by simp
    qed
    ultimately have "task_ok pf t d' en"
      using assms(2) False rm by (simp add: dir_inv_def task_ok_def)
    moreover have "token_ok d' en"
      using assms(2) False sub by (auto simp: dir_inv_def token_ok_def)
    ultimately show ?thesis using eff by (auto simp: dir_inv_def)
  qed
qed

lemma recover_inv:
  assumes "store_inv pf st" "recoverRecord pf files now fault t inp st = (res, st')"
  shows "store_inv pf st' \<and> grows st st'"
proof (cases "validate_recover t inp")
  case (Inl e)
  with assms show ?thesis by (simp add: recoverRecord_def)
next
  case (Inr checked)
  obtain n path source where ck: "checked = (n, path, source)" by (metis prod_cases3)
  show ?thesis
  proof (cases "dir_of st t")
    case None
    with Inr assms show ?thesis by (simp add: recoverRecord_def)
  next
    case (Some d)
    obtain r d' where r: "recover_in (pf_sha256 pf) files now fault t (n, path, source) d = (r, d')"
      by (cases "recover_in (pf_sha256 pf) files now fault t (n, path, source) d")
    have st': "st' = (if r = None then (put_dir t d' st)\<lparr>st_cache := \<lambda>_. None\<rparr> else put_dir t d' st)"
      using assms(2) Inr Some r ck by (auto simp: recoverRecord_def Let_def)
    note inv = recover_in_inv [OF r store_inv_dir [OF assms(1) Some]]
    have "store_inv pf (put_dir t d' st)"
      using assms(1) inv by (intro store_inv_put) auto
    then have "store_inv pf st'"
      unfolding st' using store_inv_crash by auto
    moreover have "grows st st'"
      using inv Some unfolding st' by (intro grows_put [of st t d']) auto
    ultimately show ?thesis ..
  qed
qed

section \<open>Every run\<close>

lemma store_step_inv: "store_step pf st st' \<Longrightarrow> store_inv pf st \<Longrightarrow> store_inv pf st' \<and> grows st st'"
  by (induction rule: store_step.induct) (auto dest: create_inv append_inv read_inv listing_inv repair_inv recover_inv)

lemma store_run_inv: "store_run pf st st' \<Longrightarrow> store_inv pf st \<Longrightarrow> store_inv pf st' \<and> grows st st'"
  by (induction rule: store_run.induct) (auto dest: store_step_inv intro: grows_trans)

section \<open>Properties\<close>

text \<open>C6. Append-only, along every run: whatever creations, publishes, readings, rebuilds and
  registrations happen, with whatever faults, the files of a task only ever grow at the end, so no
  record or recovered copy is changed, reordered or removed.\<close>

theorem run_append_only:
  assumes "store_run pf st st'" and "store_inv pf st" and "dir_of st t = Some d"
  shows "\<exists>d' added. dir_of st' t = Some d' \<and> td_files d' = td_files d @ added"
  using store_run_inv [OF assms(1,2)] assms(3) by (simp add: grows_def)

text \<open>C7. Along every run the read cache answers as a cold read: for any task, folding through the
  cache gives what reading and folding every record file from scratch gives, failures included.\<close>

theorem run_cache_is_cold:
  assumes "store_run pf st st'" and "store_inv pf st" and "t \<noteq> PROJECT_TASK_ID"
    and "dir_of st' t = Some d" and "meta_of st' t = Inr (Some m)"
  shows "rbind (foldCursorFor (pf_sha256 pf) (pf_parses pf) d t (effective_flow (tm_flow m)) (tm_description m)
             (taskDirNames d) [] (st_cache st' t)) (\<lambda>e. Inr (the (fe_cursor e))) =
    cold_fold (pf_sha256 pf) (pf_parses pf) d t (effective_flow (tm_flow m)) (tm_description m) (taskDirNames d)"
proof -
  have "dir_inv pf t d (st_cache st' t)"
    using store_run_inv [OF assms(1,2)] assms(4) by (auto dest: store_inv_dir)
  moreover have "readMeta d t = Inr (Some m)"
    using meta_of_dir [OF assms(5)] assms(4) by auto
  ultimately have "versions_match (pf_sha256 pf) d t"
    "cursor_sound (pf_sha256 pf) (pf_parses pf) d t (effective_flow (tm_flow m)) (tm_description m)
       (taskDirNames d) (st_cache st' t)"
    using assms(3) by (auto simp: dir_inv_def task_ok_def)
  then show ?thesis
    using foldCursorFor_answers [OF _ read_already_Nil] by blast
qed

text \<open>A run of one publish on the sample store.\<close>

lemma one_task_inv: "store_inv pf one_task"
proof -
  have "task_ok pf ''t'' (writeMeta one_task_meta empty_dir) None"
    using one_task_ok one_task_meta_of(1) by (fastforce simp: store_ok_def one_task_def)
  then show ?thesis
    by (simp add: store_inv_def one_task_def dir_of_def dir_inv_def token_ok_def split: if_split_asm)
qed

lemma one_task_run:
  "\<exists>st'. store_run sample_platform one_task st' \<and> (\<exists>d. dir_of st' ''t'' = Some d \<and> meta_of st' ''t'' = Inr (Some one_task_meta))"
proof -
  obtain st' res st2 where c: "append_op sample_platform ''now'' None Crash_after_record ''t'' (a_note None) one_task = (None, st')"
    using one_task_crash by blast
  have "store_step sample_platform one_task st'"
    by (rule store_step.append [OF c]) (simp add: blank_def is_space_def)
  then have "store_run sample_platform one_task st'"
    by (rule store_run.step [OF store_run.refl])
  with append_crash [OF c one_task_meta_of(2,1)] show ?thesis by blast
qed

theorem run_append_only_witness:
  "\<exists>st'. store_run sample_platform one_task st' \<and> (\<exists>d' added. dir_of st' ''t'' = Some d' \<and>
     td_files d' = td_files (writeMeta one_task_meta empty_dir) @ added)"
proof -
  obtain st' where "store_run sample_platform one_task st'" using one_task_run by blast
  with run_append_only [OF this one_task_inv one_task_meta_of(1)] show ?thesis by blast
qed

theorem run_cache_is_cold_witness:
  "\<exists>st' d. dir_of st' ''t'' = Some d \<and>
     rbind (foldCursorFor (pf_sha256 sample_platform) (pf_parses sample_platform) d ''t'' (effective_flow (tm_flow one_task_meta))
        (tm_description one_task_meta) (taskDirNames d) [] (st_cache st' ''t'')) (\<lambda>e. Inr (the (fe_cursor e))) =
     cold_fold (pf_sha256 sample_platform) (pf_parses sample_platform) d ''t'' (effective_flow (tm_flow one_task_meta))
        (tm_description one_task_meta) (taskDirNames d)"
proof -
  obtain st' d where r: "store_run sample_platform one_task st'" "dir_of st' ''t'' = Some d"
    "meta_of st' ''t'' = Inr (Some one_task_meta)" using one_task_run by blast
  from run_cache_is_cold [OF r(1) one_task_inv one_task_side(1) r(2,3)] r(2) show ?thesis by blast
qed

end
