(* ===== verification/Hub_View.thy ===== *)
theory Hub_View
  imports Store
begin

text \<open>
  The surface between the Hub and its consumers.  \<open>src/core/hub/http.ts\<close> builds \<open>GET /state\<close> from
  the store's snapshot and one reading of the configuration; \<open>src/core/notifier/contracts.ts\<close> is the
  shape a consumer of that document relies on.  The wire carries the status as a string, and the
  optional fields of an older Hub may be missing.
\<close>

record state_task =
  ts_task_id :: string
  ts_title :: string
  ts_status :: string
  ts_updated_at :: string
  ts_needs_attention :: bool
  ts_waiting_for :: string
  ts_version :: "nat option"
  ts_pending_since :: "string option"
  ts_round_count :: nat
  ts_cast :: "cast option"
  ts_checkout :: "checkout_route option"

text \<open>The \<open>auto\<close> section; the whitelist is read defensively, so it is any JSON value.\<close>

record state_auto =
  sa_remediate :: "string option"
  sa_launch_roles :: "json option"

record state_response =
  sr_flow_mode :: string
  sr_tasks :: "state_task list"
  sr_degraded :: "string list option"
  sr_notify :: "json option"
  sr_auto :: "state_auto option"

definition autoWhitelisted :: "state_auto option \<Rightarrow> string \<Rightarrow> bool" where
  "autoWhitelisted auto role =
     (case auto of
        None \<Rightarrow> False
      | Some a \<Rightarrow> (case sa_launch_roles a of Some (JArr roles) \<Rightarrow> JStr role \<in> set roles | _ \<Rightarrow> False))"

section \<open>The state document\<close>

text \<open>What one reading of the configuration contributes; \<open>None\<close> for a missing or corrupt file.\<close>

record hub_config =
  hc_flow_mode :: string
  hc_notify :: "json option"
  hc_auto :: "state_auto option"

definition state_entry :: "list_entry \<Rightarrow> state_task" where
  "state_entry e =
     (case le_view e of
        None \<Rightarrow> \<lparr>ts_task_id = le_task_id e, ts_title = le_title e, ts_status = ''designing'',
          ts_updated_at = le_updated_at e, ts_needs_attention = False, ts_waiting_for = NONE,
          ts_version = Some (le_version e), ts_pending_since = None, ts_round_count = 0,
          ts_cast = le_cast e, ts_checkout = le_checkout e\<rparr>
      | Some v \<Rightarrow> \<lparr>ts_task_id = le_task_id e, ts_title = le_title e,
          ts_status = status_name (ds_status (dv_state v)),
          ts_updated_at = le_updated_at e, ts_needs_attention = ds_needs_attention (dv_state v),
          ts_waiting_for = ds_waiting_for (dv_state v),
          ts_version = Some (le_version e), ts_pending_since = dv_pending_since v,
          ts_round_count = dv_round_count v, ts_cast = le_cast e, ts_checkout = le_checkout e\<rparr>)"

definition state_visible :: "bool \<Rightarrow> list_entry \<Rightarrow> bool" where
  "state_visible includeClosed e \<longleftrightarrow>
     \<not> (le_task_id e = PROJECT_TASK_ID \<or>
        (\<not> includeClosed \<and> map_option (\<lambda>v. ds_status (dv_state v)) (le_view e) = Some Closed))"

definition handleState :: "hub_config option \<Rightarrow> bool \<Rightarrow> list_entry list \<times> string list \<Rightarrow> state_response" where
  "handleState config includeClosed snapshot =
     \<lparr>sr_flow_mode = (case config of None \<Rightarrow> ''manual'' | Some c \<Rightarrow> hc_flow_mode c),
      sr_tasks = map state_entry (filter (state_visible includeClosed) (fst snapshot)),
      sr_degraded = (if snd snapshot \<noteq> [] then Some (snd snapshot) else None),
      sr_notify = (case config of None \<Rightarrow> None | Some c \<Rightarrow> hc_notify c),
      sr_auto = (case config of None \<Rightarrow> None | Some c \<Rightarrow> hc_auto c)\<rparr>"

text \<open>\<open>state.degraded ?? []\<close> and the identifiers the document shows.\<close>

definition degraded_of :: "state_response \<Rightarrow> string list" where
  "degraded_of s = (case sr_degraded s of None \<Rightarrow> [] | Some ds \<Rightarrow> ds)"

definition task_ids :: "state_response \<Rightarrow> string list" where
  "task_ids s = map ts_task_id (sr_tasks s)"

definition find_task :: "string \<Rightarrow> state_task list \<Rightarrow> state_task option" where
  "find_task t tasks = find (\<lambda>e. ts_task_id e = t) tasks"

text \<open>\<open>waiting_for.startsWith("agent:")\<close> and \<open>waiting_for.slice("agent:".length)\<close>.\<close>

definition agent_role :: "string \<Rightarrow> string option" where
  "agent_role waiting = (if starts_with ''agent:'' waiting then Some (drop 6 waiting) else None)"

lemma agent_role_waiting [simp]: "agent_role (agent_waiting role) = Some role"
  by (simp add: agent_role_def agent_waiting_def starts_with_def)

lemma agent_role_Some_iff: "agent_role w = Some role \<longleftrightarrow> w = agent_waiting role"
proof
  assume "agent_role w = Some role"
  then have "starts_with ''agent:'' w" "role = drop 6 w"
    by (simp_all add: agent_role_def split: if_split_asm)
  then show "w = agent_waiting role"
    by (auto simp: starts_with_iff agent_waiting_def)
qed simp

lemma autoWhitelisted_None [simp]: "\<not> autoWhitelisted None role"
  by (simp add: autoWhitelisted_def)

lemma find_task_Some: "find_task t tasks = Some e \<Longrightarrow> e \<in> set tasks \<and> ts_task_id e = t"
  by (auto simp: find_task_def find_Some_iff)

lemma find_task_None_iff: "find_task t tasks = None \<longleftrightarrow> t \<notin> ts_task_id ` set tasks"
  by (auto simp: find_task_def find_None_iff)

end
