(* ===== verification/Launch.thy ===== *)
theory Launch
  imports Hub_View Store_Runs
begin

text \<open>
  Launch provenance and de-duplication, \<open>src/core/launcher/launch.ts\<close>, and the two consumers that
  decide on it: the in-lock revalidation of an automatic launch
  (\<open>src/core/notifier/launch-revalidate.ts\<close>) and the startup catchup pass
  (\<open>src/core/notifier/launch-catchup.ts\<close>).

  A launch is a note with a \<open>launch\<close> field.  The state machine ignores notes, so the log itself is
  the only source of truth about which rounds were launched; the store's expected version decides
  between two launchers that read the same log.  The network read of \<open>resolveLaunchTarget\<close> and the
  text of audit lines are not modelled.
\<close>

datatype launch_via = Start_next | Auto | Legacy

definition via_name :: "launch_via \<Rightarrow> string" where
  "via_name v = (case v of Start_next \<Rightarrow> ''start-next'' | Auto \<Rightarrow> ''auto'' | Legacy \<Rightarrow> ''legacy'')"

datatype launch_decision = Fresh | Blocked nat

definition isWakeNote :: "context_record \<Rightarrow> bool" where
  "isWakeNote r \<longleftrightarrow> rec_content_type r = ''note'' \<and> \<not> is_ack r \<and> pget (rec_payload r) ''launch'' = None"

definition latestRecordVersion :: "context_record list \<Rightarrow> nat" where
  "latestRecordVersion records = foldl (\<lambda>m r. max m (rec_version r)) 0 records"

text \<open>The marker carried by a note: an object whose \<open>role\<close> is a string.\<close>

definition launchMarkerOf :: "context_record \<Rightarrow> json option" where
  "launchMarkerOf r =
     (if rec_content_type r \<noteq> ''note'' then None
      else (case pget (rec_payload r) ''launch'' of
              Some candidate \<Rightarrow> (if string_of (jget candidate ''role'') = None then None else Some candidate)
            | None \<Rightarrow> None))"

definition marker_role :: "context_record \<Rightarrow> string option" where
  "marker_role r = (case launchMarkerOf r of None \<Rightarrow> None | Some m \<Rightarrow> string_of (jget m ''role''))"

text \<open>
  The loop of \<open>launchBlocked\<close> over the records in version order, on the pair of the final content
  version and the latest marker of the role.
\<close>

definition block_step :: "string \<Rightarrow> nat \<times> nat option \<Rightarrow> context_record \<Rightarrow> nat \<times> nat option" where
  "block_step role s r =
     (case s of (lastContent, latestMarker) \<Rightarrow>
      if rec_content_type r = ''note''
      then (lastContent, if marker_role r = Some role then Some (rec_version r) else latestMarker)
      else (max lastContent (rec_version r), latestMarker))"

text \<open>The verified note wake: the only record of that version, and a wake note.\<close>

definition wake_boundary :: "context_record list \<Rightarrow> nat option \<Rightarrow> nat" where
  "wake_boundary ordered noteWake =
     (case noteWake of
        None \<Rightarrow> 0
      | Some v \<Rightarrow> (case filter (\<lambda>r. rec_version r = v) ordered of
                     [c] \<Rightarrow> if isWakeNote c then rec_version c else 0
                   | _ \<Rightarrow> 0))"

definition launchBlocked :: "context_record list \<Rightarrow> string \<Rightarrow> nat option \<Rightarrow> launch_decision" where
  "launchBlocked records role noteWake =
     (let ordered = sort_key rec_version records in
      case foldl (block_step role) (wake_boundary ordered noteWake, None) ordered of
        (lastContent, Some marker) \<Rightarrow> if lastContent < marker then Blocked marker else Fresh
      | (_, None) \<Rightarrow> Fresh)"

section \<open>Writing the marker\<close>

definition launchSummary :: "string \<Rightarrow> nat \<Rightarrow> string" where
  "launchSummary role baseVersion = ''launch: '' @ role @ '' (base v'' @ show_nat baseVersion @ '')''"

definition launchBody :: "string \<Rightarrow> nat \<Rightarrow> launch_via \<Rightarrow> string" where
  "launchBody role baseVersion via =
     ''Recorded launch of '' @ role @ '' via '' @ via_name via @ '' at task log base version ''
       @ show_nat baseVersion @ ''.''"

text \<open>The portable subset of a launch plan, \<open>LaunchMarkerProjection\<close>.\<close>

record marker_projection =
  mp_role :: string
  mp_base_version :: nat
  mp_via :: launch_via
  mp_route :: agent_command
  mp_route_source :: string
  mp_target_kind :: string
  mp_target_digest :: string

definition command_json :: "agent_command \<Rightarrow> json" where
  "command_json c = JObj [(''agent'', JStr (ac_agent c)), (''args'', JArr (map JStr (ac_args c)))]"

definition projection_json :: "marker_projection \<Rightarrow> json" where
  "projection_json p = JObj
     [(''protocol_version'', JNum 2),
      (''role'', JStr (mp_role p)),
      (''base_version'', JNum (of_nat (mp_base_version p))),
      (''via'', JStr (via_name (mp_via p))),
      (''route'', command_json (mp_route p)),
      (''route_source'', JStr (mp_route_source p)),
      (''target_kind'', JStr (mp_target_kind p)),
      (''target_digest'', JStr (mp_target_digest p))]"

definition marker_json :: "string \<Rightarrow> nat \<Rightarrow> launch_via \<Rightarrow> marker_projection option \<Rightarrow> json" where
  "marker_json role baseVersion via projection =
     (case projection of
        None \<Rightarrow> JObj [(''role'', JStr role), (''base_version'', JNum (of_nat baseVersion)),
                      (''via'', JStr (via_name via))]
      | Some p \<Rightarrow> projection_json p)"

definition marker_input :: "string \<Rightarrow> nat \<Rightarrow> launch_via \<Rightarrow> marker_projection option \<Rightarrow> append_input" where
  "marker_input role baseVersion via projection =
     \<lparr>ai_role = Some (JStr ''human''), ai_content_type = Some (JStr ''note''),
      ai_payload = Some (JObj [(''summary'', JStr (launchSummary role baseVersion)),
                               (''body'', JStr (launchBody role baseVersion via)),
                               (''launch'', marker_json role baseVersion via projection)]),
      ai_agent = None, ai_model = None, ai_expected_version = Some (JNum (of_nat baseVersion))\<rparr>"

text \<open>
  \<open>markLaunched\<close>: \<open>None\<close> is the thrown mismatch, before anything is published.  \<open>publish\<close> is the
  Hub's \<open>context.publish\<close>.
\<close>

definition markLaunched ::
    "(string \<Rightarrow> append_input \<Rightarrow> 'r) \<Rightarrow> string \<Rightarrow> string \<Rightarrow> nat \<Rightarrow> launch_via \<Rightarrow> marker_projection option \<Rightarrow> 'r option" where
  "markLaunched publish taskId role baseVersion via projection =
     (if (case projection of None \<Rightarrow> False
          | Some p \<Rightarrow> mp_role p \<noteq> role \<or> mp_base_version p \<noteq> baseVersion \<or> mp_via p \<noteq> via)
      then None
      else Some (publish taskId (marker_input role baseVersion via projection)))"

section \<open>Revalidating an automatic launch\<close>

datatype revalidate_error =
    Not_visible
  | Not_launchable string
  | Attention_set
  | Waits_elsewhere string
  | Log_unreadable
  | Log_kept_advancing nat nat
  | Log_closed
  | Served_by_other nat

definition MAX_SAFE_INTEGER :: nat where
  "MAX_SAFE_INTEGER = 9007199254740991"

text \<open>The scan for the latest marker of the role: its version and attempt.\<close>

definition attempt_step :: "string \<Rightarrow> nat \<times> json option \<Rightarrow> context_record \<Rightarrow> nat \<times> json option" where
  "attempt_step role s r =
     (case s of (markerVersion, markerAttempt) \<Rightarrow>
      (case (if rec_content_type r = ''note'' then pget (rec_payload r) ''launch'' else None) of
         None \<Rightarrow> s
       | Some launch \<Rightarrow>
           if jget launch ''role'' = Some (JStr role) \<and> markerVersion \<le> rec_version r
           then (rec_version r, jget launch ''attempt_id'') else s))"

definition marker_attempt :: "context_record list \<Rightarrow> string \<Rightarrow> nat \<times> json option" where
  "marker_attempt records role = foldl (attempt_step role) (0, None) records"

text \<open>The gate on one fresh state entry.\<close>

definition revalidate_entry :: "string \<Rightarrow> state_task option \<Rightarrow> revalidate_error + state_task" where
  "revalidate_entry role entry =
     (case entry of
        None \<Rightarrow> Inl Not_visible
      | Some e \<Rightarrow>
          if ts_status e \<in> {''pending_approval'', ''approved'', ''closed''} then Inl (Not_launchable (ts_status e))
          else if ts_needs_attention e then Inl Attention_set
          else if ts_waiting_for e \<noteq> agent_waiting role then Inl (Waits_elsewhere (ts_waiting_for e))
          else Inr e)"

definition log_ahead :: "context_record list \<Rightarrow> state_task \<Rightarrow> bool" where
  "log_ahead records e =
     (case ts_version e of
        None \<Rightarrow> False
      | Some v \<Rightarrow> v \<le> MAX_SAFE_INTEGER \<and> v < latestRecordVersion records)"

definition revalidate_log :: "string \<Rightarrow> string \<Rightarrow> context_record list \<Rightarrow> revalidate_error + unit" where
  "revalidate_log role attemptId records =
     (if list_ex is_close records then Inl Log_closed
      else (case marker_attempt records role of
              (_, None) \<Rightarrow> Inr ()
            | (v, Some a) \<Rightarrow> if a \<noteq> JStr attemptId then Inl (Served_by_other v) else Inr ()))"

text \<open>
  One pass; \<open>final\<close> says that the refresh is used up, so a log ahead of the state refuses.  \<open>None\<close>
  asks for the refresh.
\<close>

definition revalidate_pass ::
    "bool \<Rightarrow> string \<Rightarrow> string \<Rightarrow> string \<Rightarrow> state_task list \<Rightarrow> context_record list option \<Rightarrow> (revalidate_error + unit) option" where
  "revalidate_pass final taskId role attemptId tasks logRead =
     (case revalidate_entry role (find_task taskId tasks) of
        Inl e \<Rightarrow> Some (Inl e)
      | Inr entry \<Rightarrow>
          (case logRead of
             None \<Rightarrow> Some (Inl Log_unreadable)
           | Some records \<Rightarrow>
               if log_ahead records entry
               then (if final then Some (Inl (Log_kept_advancing (latestRecordVersion records) (the (ts_version entry))))
                     else None)
               else Some (revalidate_log role attemptId records)))"

text \<open>The two attempts; \<open>fetchState i\<close> and \<open>readLog i\<close> are what the Hub answers in attempt \<open>i\<close>.\<close>

definition headlessRevalidate ::
    "(nat \<Rightarrow> state_task list) \<Rightarrow> (nat \<Rightarrow> context_record list option) \<Rightarrow> string \<Rightarrow> string \<Rightarrow> string \<Rightarrow> revalidate_error + unit" where
  "headlessRevalidate fetchState readLog taskId role attemptId =
     (case revalidate_pass False taskId role attemptId (fetchState 0) (readLog 0) of
        Some r \<Rightarrow> r
      | None \<Rightarrow> (case revalidate_pass True taskId role attemptId (fetchState 1) (readLog 1) of
                   Some r \<Rightarrow> r
                 | None \<Rightarrow> Inl Not_visible))"

section \<open>The startup catchup\<close>

text \<open>What the pass finds for one task: the dedup verdict and whether it hands the task to the
  launcher.\<close>

datatype catchup_dedup = Gate_withheld | Not_whitelisted | Dedup_fresh | Launched_at nat | Dedup_unreadable

record catchup_line =
  cl_task_id :: string
  cl_role :: string
  cl_gate :: "string option"
  cl_dedup :: catchup_dedup
  cl_launch :: bool

definition catchup_dedup_of ::
    "(state_task \<Rightarrow> string option) \<Rightarrow> (string \<Rightarrow> bool) \<Rightarrow> (state_task \<Rightarrow> context_record list option) \<Rightarrow> state_task \<Rightarrow> string \<Rightarrow> catchup_dedup" where
  "catchup_dedup_of gateOf whitelisted readLog task role =
     (if gateOf task \<noteq> None then Gate_withheld
      else if \<not> whitelisted role then Not_whitelisted
      else (case readLog task of
              None \<Rightarrow> Dedup_unreadable
            | Some records \<Rightarrow> (case launchBlocked records role None of
                 Blocked v \<Rightarrow> Launched_at v | Fresh \<Rightarrow> Dedup_fresh)))"

definition catchup_launches :: "catchup_dedup \<Rightarrow> bool" where
  "catchup_launches d = (case d of Dedup_fresh \<Rightarrow> True | Dedup_unreadable \<Rightarrow> True | _ \<Rightarrow> False)"

definition runLaunchCatchup ::
    "(state_task \<Rightarrow> string option) \<Rightarrow> (state_auto option \<Rightarrow> string \<Rightarrow> bool) \<Rightarrow> (state_task \<Rightarrow> context_record list option)
      \<Rightarrow> state_response \<Rightarrow> catchup_line list" where
  "runLaunchCatchup gateOf whitelisted readLog state =
     concat (map (\<lambda>task.
       (case agent_role (ts_waiting_for task) of
          None \<Rightarrow> []
        | Some role \<Rightarrow>
            (let d = catchup_dedup_of gateOf (whitelisted (sr_auto state)) readLog task role
             in [\<lparr>cl_task_id = ts_task_id task, cl_role = role, cl_gate = gateOf task, cl_dedup = d,
                  cl_launch = catchup_launches d\<rparr>]))) (sr_tasks state))"

section \<open>The decision on a log\<close>

lemma latestRecordVersion_eq: "latestRecordVersion records = list_max (map rec_version records)"
proof -
  have "foldl (\<lambda>m r. max m (rec_version r)) a records = foldl max a (map rec_version records)" for a
    by (induction records arbitrary: a) simp_all
  then show ?thesis by (simp add: latestRecordVersion_def list_max_def)
qed

lemma latestRecordVersion_ge: "r \<in> set records \<Longrightarrow> rec_version r \<le> latestRecordVersion records"
  by (simp add: latestRecordVersion_eq list_max_ge)

lemma marker_role_note: "marker_role r = Some role \<Longrightarrow> rec_content_type r = ''note''"
  by (auto simp: marker_role_def launchMarkerOf_def split: if_split_asm)

abbreviation markers_of :: "string \<Rightarrow> context_record list \<Rightarrow> context_record list" where
  "markers_of role \<equiv> filter (\<lambda>r. marker_role r = Some role)"

abbreviation contents_of :: "context_record list \<Rightarrow> context_record list" where
  "contents_of \<equiv> filter (\<lambda>r. rec_content_type r \<noteq> ''note'')"

lemma block_fold:
  "foldl (block_step role) (c, None) rs =
     (max c (list_max (map rec_version (contents_of rs))),
      if markers_of role rs = [] then None else Some (rec_version (last (markers_of role rs))))"
proof (induction rs rule: rev_induct)
  case Nil
  then show ?case by simp
next
  case (snoc r rs)
  then show ?case using marker_role_note [of r role] by (auto simp: block_step_def)
qed

lemma last_sorted_max:
  assumes "sorted (map f xs)" and "x \<in> set xs"
  shows "f x \<le> f (last xs)"
proof -
  from assms(2) have "xs = butlast xs @ [last xs]" by (metis append_butlast_last_id empty_iff list.set(1))
  moreover from this assms(1) have "sorted (map f (butlast xs @ [last xs]))" by simp
  ultimately show ?thesis using assms(2)
    by (metis (no_types, lifting) Un_iff in_set_conv_decomp list.set_intros(1) order.refl set_append set_ConsD
        sorted_map_append empty_iff list.set(1))
qed

lemma launchBlocked_Blocked:
  "launchBlocked records role w = Blocked v \<longleftrightarrow>
     (\<exists>m\<in>set records. marker_role m = Some role \<and> rec_version m = v) \<and>
     (\<forall>m\<in>set records. marker_role m = Some role \<longrightarrow> rec_version m \<le> v) \<and>
     (\<forall>r\<in>set records. rec_content_type r \<noteq> ''note'' \<longrightarrow> rec_version r < v) \<and>
     wake_boundary (sort_key rec_version records) w < v"
proof -
  let ?rs = "sort_key rec_version records" and ?b = "wake_boundary (sort_key rec_version records) w"
  let ?ms = "markers_of role ?rs"
  have mset: "set ?ms = {m \<in> set records. marker_role m = Some role}" by auto
  have srt: "sorted (map rec_version ?ms)"
    by (rule sorted_filter) simp
  have eq: "launchBlocked records role w = Blocked v \<longleftrightarrow>
      ?ms \<noteq> [] \<and> rec_version (last ?ms) = v \<and> max ?b (list_max (map rec_version (contents_of ?rs))) < v"
    by (auto simp: launchBlocked_def block_fold Let_def)
  have c: "list_max (map rec_version (contents_of ?rs)) < v \<longleftrightarrow>
      (\<forall>r\<in>set records. rec_content_type r \<noteq> ''note'' \<longrightarrow> rec_version r < v)" if "0 < v"
  proof -
    have "list_max (map rec_version (contents_of ?rs)) \<le> v - 1 \<longleftrightarrow>
        (\<forall>r\<in>set records. rec_content_type r \<noteq> ''note'' \<longrightarrow> rec_version r \<le> v - 1)"
      by (auto simp: list_max_le_iff)
    with that show ?thesis by (auto simp: less_Suc_eq_le [symmetric])
  qed
  have m: "?ms \<noteq> [] \<and> rec_version (last ?ms) = v \<longleftrightarrow>
     (\<exists>m\<in>set records. marker_role m = Some role \<and> rec_version m = v) \<and>
     (\<forall>m\<in>set records. marker_role m = Some role \<longrightarrow> rec_version m \<le> v)"
  proof (intro iffI conjI)
    assume a: "?ms \<noteq> [] \<and> rec_version (last ?ms) = v"
    then have "last ?ms \<in> {m \<in> set records. marker_role m = Some role}"
      using last_in_set [of ?ms] mset by blast
    with a show "\<exists>m\<in>set records. marker_role m = Some role \<and> rec_version m = v" by auto
    show "\<forall>m\<in>set records. marker_role m = Some role \<longrightarrow> rec_version m \<le> v"
      using last_sorted_max [OF srt] mset a by auto
  next
    assume a: "(\<exists>m\<in>set records. marker_role m = Some role \<and> rec_version m = v) \<and>
     (\<forall>m\<in>set records. marker_role m = Some role \<longrightarrow> rec_version m \<le> v)"
    then obtain m where m: "m \<in> set ?ms" "rec_version m = v" using mset by auto
    then show "?ms \<noteq> []" by (metis empty_iff list.set(1))
    then have "last ?ms \<in> {m \<in> set records. marker_role m = Some role}"
      using last_in_set [of ?ms] mset by blast
    with a last_sorted_max [OF srt m(1)] m(2) show "rec_version (last ?ms) = v" by force
  qed
  show ?thesis
    unfolding eq using m c by (cases v) auto
qed

lemma launchBlocked_Fresh_iff: "launchBlocked records role w = Fresh \<longleftrightarrow> (\<forall>v. launchBlocked records role w \<noteq> Blocked v)"
  by (cases "launchBlocked records role w") auto

section \<open>The marker on the wire\<close>

lemma launch_text_nonblank: "\<not> blank (launchSummary role b)" "\<not> blank (launchBody role b via)"
  by (simp_all add: launchSummary_def launchBody_def blank_def is_space_def)

lemma marker_json_role [simp]: "jget (projection_json p) ''role'' = Some (JStr (mp_role p))"
  by (simp add: projection_json_def)

lemma marker_json_role':
  assumes "\<And>p. projection = Some p \<Longrightarrow> mp_role p = role"
  shows "jget (marker_json role b via projection) ''role'' = Some (JStr role)"
  using assms by (cases projection) (simp_all add: marker_json_def)

lemma nat_of_of_nat: "nat_of (Some (JNum (of_nat b))) = Some b"
  by simp

lemma marker_validates:
  assumes "validate_append t (marker_input role b via projection) = Inr (r, ct, p, e)"
  shows "r = ''human'' \<and> ct = ''note'' \<and> e = Some b \<and>
    p = [(''summary'', JStr (launchSummary role b)), (''body'', JStr (launchBody role b via)),
         (''launch'', marker_json role b via projection)]"
  using assms
  by (auto simp: validate_append_def marker_input_def rbind_Inr_iff requirePayload_def requireExpectedVersion_def
      requireNonEmptyString_Inr)

lemma marker_valid:
  assumes "validate_append t inp = Inr checked"
  shows "validate_append t (marker_input role b via projection) =
    Inr (''human'', ''note'', [(''summary'', JStr (launchSummary role b)), (''body'', JStr (launchBody role b via)),
         (''launch'', marker_json role b via projection)], Some b)"
proof -
  have "requireNonEmptyString (Some (JStr t)) = Inr t" "requireValidTaskId t LEGACY_TASK_ID_PATTERN = Inr ()"
    using assms by (auto simp: validate_append_def rbind_Inr_iff requireNonEmptyString_Inr)
  moreover have "requireNonEmptyString (Some (JStr ''human'')) = Inr ''human''"
    "requireNonEmptyString (Some (JStr ''note'')) = Inr ''note''"
    "requireNonEmptyString (Some (JStr (launchSummary role b))) = Inr (launchSummary role b)"
    "requireNonEmptyString (Some (JStr (launchBody role b via))) = Inr (launchBody role b via)"
    using launch_text_nonblank by (simp_all add: requireNonEmptyString_Inr blank_def is_space_def)
  ultimately show ?thesis
    by (simp add: validate_append_def marker_input_def requirePayload_def requireExpectedVersion_def)
qed

lemma marker_role_new_record:
  assumes "\<And>p. projection = Some p \<Longrightarrow> mp_role p = role"
  shows "marker_role (new_record v t ''human'' ''note''
      [(''summary'', s), (''body'', bd), (''launch'', marker_json role b via projection)] inp now tut) = Some role"
  using marker_json_role' [OF assms]
  by (simp add: marker_role_def launchMarkerOf_def new_record_def)

text \<open>A marker above every record blocks its role; a later content record frees it again.\<close>

lemma wake_boundary_None [simp]: "wake_boundary rs None = 0"
  by (simp add: wake_boundary_def)

lemma marker_blocks:
  assumes "marker_role r = Some role" and "0 < rec_version r"
    and "\<And>x. x \<in> set records \<Longrightarrow> rec_version x < rec_version r"
  shows "launchBlocked (records @ [r]) role None = Blocked (rec_version r)"
  unfolding launchBlocked_Blocked
  using assms(1,2) marker_role_note [OF assms(1)] by (auto dest: assms(3) less_imp_le)

lemma content_frees:
  assumes "rec_content_type r \<noteq> ''note''" and "\<And>x. x \<in> set records \<Longrightarrow> rec_version x < rec_version r"
  shows "launchBlocked (records @ [r]) role None = Fresh"
proof -
  have "launchBlocked (records @ [r]) role None \<noteq> Blocked v" for v
    unfolding launchBlocked_Blocked using assms marker_role_note by force
  then show ?thesis by (simp add: launchBlocked_Fresh_iff)
qed

section \<open>The latest attempt\<close>

definition attempt_of :: "context_record \<Rightarrow> json option" where
  "attempt_of r = (case pget (rec_payload r) ''launch'' of None \<Rightarrow> None | Some l \<Rightarrow> jget l ''attempt_id'')"

lemma marker_role_iff:
  "marker_role r = Some role \<longleftrightarrow> rec_content_type r = ''note'' \<and>
     (\<exists>l. pget (rec_payload r) ''launch'' = Some l \<and> jget l ''role'' = Some (JStr role))"
  by (auto simp: marker_role_def launchMarkerOf_def string_of_Some_iff split: option.splits)

lemma attempt_step_eq:
  "attempt_step role s r =
     (if marker_role r = Some role \<and> fst s \<le> rec_version r then (rec_version r, attempt_of r) else s)"
  by (cases s) (auto simp: attempt_step_def marker_role_iff attempt_of_def split: option.splits)

lemma attempt_fold:
  assumes "fst s \<le> rec_version r" and "r \<in> set rs \<or> s = (rec_version r, attempt_of r)" and "marker_role r = Some role"
    and "\<And>x. x \<in> set rs \<Longrightarrow> marker_role x = Some role \<Longrightarrow> x \<noteq> r \<Longrightarrow> rec_version x < rec_version r"
  shows "foldl (attempt_step role) s rs = (rec_version r, attempt_of r)"
  using assms(1,2,4)
proof (induction rs arbitrary: s)
  case Nil
  then show ?case by simp
next
  case (Cons x xs)
  show ?case
  proof (cases "x = r")
    case True
    have "foldl (attempt_step role) (rec_version r, attempt_of r) xs = (rec_version r, attempt_of r)"
      by (rule Cons.IH) (auto intro: Cons.prems(3))
    moreover have "attempt_step role s x = (rec_version r, attempt_of r)"
      using True Cons.prems(1) assms(3) by (simp add: attempt_step_eq)
    ultimately show ?thesis by simp
  next
    case False
    have "fst (attempt_step role s x) \<le> rec_version r"
      using Cons.prems(1) Cons.prems(3) [of x] False by (auto simp: attempt_step_eq)
    moreover have "r \<in> set xs \<or> attempt_step role s x = (rec_version r, attempt_of r)"
      using Cons.prems(2) Cons.prems(3) [of x] False by (auto simp: attempt_step_eq)
    ultimately show ?thesis using Cons.IH Cons.prems(3) by simp
  qed
qed

lemma marker_attempt_newest:
  assumes "r \<in> set records" and "marker_role r = Some role"
    and "\<And>x. x \<in> set records \<Longrightarrow> marker_role x = Some role \<Longrightarrow> x \<noteq> r \<Longrightarrow> rec_version x < rec_version r"
  shows "marker_attempt records role = (rec_version r, attempt_of r)"
  unfolding marker_attempt_def using assms by (intro attempt_fold) auto

text \<open>A marker without an attempt identifier (a \<open>start-next\<close> marker) never refuses a plan.\<close>

lemma plain_marker_passes_revalidation:
  assumes "r \<in> set records" and "marker_role r = Some role" and "attempt_of r = None"
    and "\<And>x. x \<in> set records \<Longrightarrow> marker_role x = Some role \<Longrightarrow> x \<noteq> r \<Longrightarrow> rec_version x < rec_version r"
    and "\<not> list_ex is_close records"
  shows "revalidate_log role attemptId records = Inr ()"
  using marker_attempt_newest [OF assms(1,2,4)] assms(3,5) by (simp add: revalidate_log_def)

lemma revalidate_pass_Inr:
  assumes "revalidate_pass final t role a tasks logRead = Some (Inr ())"
  obtains e records where "find_task t tasks = Some e" "logRead = Some records"
    "ts_status e \<notin> {''pending_approval'', ''approved'', ''closed''}" "\<not> ts_needs_attention e"
    "ts_waiting_for e = agent_waiting role" "\<not> log_ahead records e" "revalidate_log role a records = Inr ()"
  using assms
  by (auto simp: revalidate_pass_def revalidate_entry_def split: option.split_asm sum.split_asm if_split_asm)

lemma revalidate_final: "revalidate_pass True t role a tasks logRead \<noteq> None"
  by (auto simp: revalidate_pass_def split: option.splits sum.splits)

section \<open>Properties\<close>

text \<open>C16. When a role counts as launched: exactly when the log holds a marker of the role newer than
  every content record and newer than a verified note wake (a wake version that names one wake note
  unambiguously); the version reported is the newest marker's.\<close>

theorem launch_blocked_exact:
  "launchBlocked records role w = Blocked v \<longleftrightarrow>
     0 < v \<and>
     (\<exists>m\<in>set records. marker_role m = Some role \<and> rec_version m = v) \<and>
     (\<forall>m\<in>set records. marker_role m = Some role \<longrightarrow> rec_version m \<le> v) \<and>
     (\<forall>r\<in>set records. rec_content_type r \<noteq> ''note'' \<longrightarrow> rec_version r < v) \<and>
     (\<forall>n c. w = Some n \<and> filter (\<lambda>r. rec_version r = n) records = [c] \<and> isWakeNote c \<longrightarrow> n < v)"
proof -
  have f: "filter (\<lambda>r. rec_version r = n) (sort_key rec_version records) = filter (\<lambda>r. rec_version r = n) records" for n
    using sort_key_stable [of rec_version n records] by simp
  have c: "rec_version c = n" if "filter (\<lambda>r. rec_version r = n) records = [c]" for n c
  proof -
    have "c \<in> set (filter (\<lambda>r. rec_version r = n) records)" unfolding that by simp
    then show ?thesis by simp
  qed
  have "wake_boundary (sort_key rec_version records) w < v \<longleftrightarrow>
      0 < v \<and> (\<forall>n c. w = Some n \<and> filter (\<lambda>r. rec_version r = n) records = [c] \<and> isWakeNote c \<longrightarrow> n < v)"
  proof (cases "\<exists>n c. w = Some n \<and> filter (\<lambda>r. rec_version r = n) records = [c] \<and> isWakeNote c")
    case True
    then obtain n x where x: "w = Some n" "filter (\<lambda>r. rec_version r = n) records = [x]" "isWakeNote x"
      by blast
    then have "wake_boundary (sort_key rec_version records) w = n"
      using c [OF x(2)] by (simp add: wake_boundary_def f)
    then show ?thesis using x by auto
  next
    case False
    then have "wake_boundary (sort_key rec_version records) w = 0"
      by (cases w) (auto simp: wake_boundary_def f split: list.split)
    with False show ?thesis by auto
  qed
  then show ?thesis unfolding launchBlocked_Blocked by blast
qed

text \<open>One launch per round: of any number of launchers that read the same log, one leaves a
  marker.  The marker names the version it was decided on, every later attempt on that version
  fails without a trace, and the log with the marker blocks the role.\<close>

theorem one_launch_per_round:
  assumes "markLaunched (\<lambda>t i. append_op pf now tut No_fault t i st) t role b via proj = Some (Some (Inr res), st1)"
    and "meta_of st t = Inr (Some m)" and "dir_of st t = Some d" and "\<not> blank now"
  shows "b = tm_version m \<and>
    (\<forall>role' via' proj' now' tut' fault x.
       markLaunched (\<lambda>t i. append_op pf now' tut' fault t i st1) t role' b via' proj' = Some x \<longrightarrow>
         x = (Some (Inl (Coded VERSION_CONFLICT)), st1)) \<and>
    (\<exists>d1 r. dir_of st1 t = Some d1 \<and> rec_version r = ar_version res \<and>
       td_files d1 = td_files d @ [(recordFileName (rec_version r) ''note'', Doc (record_json r) 0)] \<and>
       (\<forall>records. (\<forall>x\<in>set records. rec_version x < rec_version r) \<longrightarrow>
          launchBlocked (records @ [r]) role None = Blocked (ar_version res)))"
proof -
  have proj: "\<And>p. proj = Some p \<Longrightarrow> mp_role p = role"
    and app: "append_op pf now tut No_fault t (marker_input role b via proj) st = (Some (Inr res), st1)"
    using assms(1) by (auto simp: markLaunched_def split: if_split_asm)
  obtain role1 ct p e folded where
    ck: "validate_append t (marker_input role b via proj) = Inr (role1, ct, p, e)" "e = None \<or> e = Some (tm_version m)"
    and v: "ar_version res = next_version m d"
    and d1: "dir_of st1 t = Some (let d' = landed d (recordFileName (next_version m d) ct)
        (new_record (next_version m d) t role1 ct p (marker_input role b via proj) now tut)
      in if No_fault = No_fault then writeMeta (meta_after m (next_version m d) now folded) d' else d')"
    using append_success [OF app assms(2,3)] by metis
  note eqs = marker_validates [OF ck(1)]
  let ?r = "new_record (next_version m d) t ''human'' ''note'' p (marker_input role b via proj) now tut"
  have b: "b = tm_version m" using eqs ck(2) by simp
  have conflict: "append_op pf now' tut' fault t (marker_input role' b via' proj') st1 = (Some (Inl (Coded VERSION_CONFLICT)), st1)"
    for role' via' proj' now' tut' fault
    using append_conflict [OF app assms(2-4) marker_valid [OF ck(1)] marker_valid [OF ck(1)]] .
  have "marker_role ?r = Some role" using eqs marker_role_new_record [OF proj] by simp
  moreover have rv: "rec_version ?r = ar_version res" "0 < rec_version ?r"
    by (simp_all add: new_record_def v next_version_def)
  ultimately have "\<forall>records. (\<forall>x\<in>set records. rec_version x < rec_version ?r) \<longrightarrow>
      launchBlocked (records @ [?r]) role None = Blocked (ar_version res)"
    using marker_blocks by metis
  moreover obtain d1 where "dir_of st1 t = Some d1"
      "td_files d1 = td_files d @ [(recordFileName (rec_version ?r) ''note'', Doc (record_json ?r) 0)]"
    using d1 eqs rv v by (simp add: Let_def landed_def new_record_def)
  moreover have "x = (Some (Inl (Coded VERSION_CONFLICT)), st1)"
    if "markLaunched (\<lambda>t i. append_op pf now' tut' fault t i st1) t role' b via' proj' = Some x"
    for role' via' proj' now' tut' fault x
    using that conflict by (simp add: markLaunched_def split: if_split_asm)
  ultimately show ?thesis
    using b rv(1) by blast
qed

text \<open>An automatic launch goes ahead only on consistent and fresh evidence: the task is visible,
  waits for this role without attention and in a launchable status, its log was read and is not
  ahead of that state, holds no close decision, and its newest marker of the role is this plan's own
  attempt or names no attempt.\<close>

theorem revalidation_is_sound:
  assumes "headlessRevalidate fetchState readLog t role a = Inr ()"
  shows "\<exists>i<2. \<exists>e records. find_task t (fetchState i) = Some e \<and> readLog i = Some records \<and>
    ts_status e \<notin> {''pending_approval'', ''approved'', ''closed''} \<and> \<not> ts_needs_attention e \<and>
    ts_waiting_for e = agent_waiting role \<and>
    (\<forall>v. ts_version e = Some v \<and> v \<le> MAX_SAFE_INTEGER \<longrightarrow> (\<forall>r\<in>set records. rec_version r \<le> v)) \<and>
    (\<forall>r\<in>set records. \<not> is_close r) \<and>
    (\<forall>r\<in>set records. marker_role r = Some role \<and>
       (\<forall>x\<in>set records. marker_role x = Some role \<and> x \<noteq> r \<longrightarrow> rec_version x < rec_version r) \<longrightarrow>
       attempt_of r = None \<or> attempt_of r = Some (JStr a))"
proof -
  obtain i final where i: "i < (2::nat)" "revalidate_pass final t role a (fetchState i) (readLog i) = Some (Inr ())"
  proof (cases "revalidate_pass False t role a (fetchState 0) (readLog 0)")
    case None
    with assms that [of 1 True] show ?thesis
      by (auto simp: headlessRevalidate_def revalidate_final split: option.split_asm)
  next
    case (Some r)
    with assms that [of 0 False] show ?thesis by (simp add: headlessRevalidate_def)
  qed
  from i(2) obtain e records where e: "find_task t (fetchState i) = Some e" "readLog i = Some records"
    "ts_status e \<notin> {''pending_approval'', ''approved'', ''closed''}" "\<not> ts_needs_attention e"
    "ts_waiting_for e = agent_waiting role" "\<not> log_ahead records e" "revalidate_log role a records = Inr ()"
    by (rule revalidate_pass_Inr)
  have "rec_version r \<le> v" if "ts_version e = Some v" "v \<le> MAX_SAFE_INTEGER" "r \<in> set records" for v r
    using e(6) that latestRecordVersion_ge [OF that(3)] by (auto simp: log_ahead_def)
  moreover have "attempt_of r = None \<or> attempt_of r = Some (JStr a)"
    if "r \<in> set records" "marker_role r = Some role"
      "\<forall>x\<in>set records. marker_role x = Some role \<and> x \<noteq> r \<longrightarrow> rec_version x < rec_version r" for r
    using e(7) marker_attempt_newest [OF that(1,2)] that(3)
    by (auto simp: revalidate_log_def split: if_split_asm option.split_asm)
  moreover have "\<not> is_close r" if "r \<in> set records" for r
    using e(7) that by (auto simp: revalidate_log_def list_ex_iff split: if_split_asm)
  ultimately show ?thesis using i(1) e(1-5) by blast
qed

text \<open>A log of a content record and a marker above it.\<close>

definition sample_content :: "nat \<Rightarrow> context_record" where
  "sample_content v = \<lparr>rec_version = v, rec_task_id = ''t'', rec_role = ''architect'', rec_agent = None, rec_model = None,
     rec_content_type = ''design'', rec_timestamp = ''now'', rec_payload = [], rec_tut_version = None\<rparr>"

definition sample_marker :: "nat \<Rightarrow> context_record" where
  "sample_marker v = \<lparr>rec_version = v, rec_task_id = ''t'', rec_role = ''human'', rec_agent = None, rec_model = None,
     rec_content_type = ''note'', rec_timestamp = ''now'',
     rec_payload = [(''launch'', marker_json ''executor'' 1 Auto None)], rec_tut_version = None\<rparr>"

lemma sample_marker_role [simp]: "marker_role (sample_marker v) = Some ''executor''" "rec_version (sample_marker v) = v"
  "rec_content_type (sample_marker v) = ''note''" "attempt_of (sample_marker v) = None"
  by (simp_all add: marker_role_def launchMarkerOf_def sample_marker_def marker_json_def attempt_of_def)

lemma sample_content_role [simp]: "marker_role (sample_content v) = None" "rec_version (sample_content v) = v"
  "rec_content_type (sample_content v) = ''design''" "\<not> is_close (sample_content v)" "\<not> is_close (sample_marker v)"
  by (simp_all add: marker_role_def launchMarkerOf_def sample_content_def is_close_def sample_marker_def)

theorem launch_blocked_exact_witness:
  "launchBlocked [sample_content 1, sample_marker 2] ''executor'' None = Blocked 2"
  unfolding launch_blocked_exact by simp

theorem one_launch_per_round_witness:
  "\<exists>res st1. markLaunched (\<lambda>t i. append_op sample_platform ''now'' None No_fault t i one_task) ''t'' ''executor'' 0 Auto None =
       Some (Some (Inr res), st1) \<and>
     markLaunched (\<lambda>t i. append_op sample_platform ''now'' None No_fault t i st1) ''t'' ''executor'' 0 Start_next None =
       Some (Some (Inl (Coded VERSION_CONFLICT)), st1)"
proof -
  obtain c where c: "cold_fold (pf_sha256 sample_platform) (pf_parses sample_platform) (writeMeta one_task_meta empty_dir)
      ''t'' (effective_flow (tm_flow one_task_meta)) (tm_description one_task_meta)
      (taskDirNames (writeMeta one_task_meta empty_dir)) = Inr c"
    using one_task_cold_fold by blast
  obtain res st1 where app: "append_op sample_platform ''now'' None No_fault ''t'' (marker_input ''executor'' 0 Auto None) one_task
      = (Some (Inr res), st1)"
    using append_healthy [OF one_task_ok one_task_side(1) one_task_meta_of(2,1) marker_valid [OF a_note_valid]
      one_task_side(3,4) c, of None] by blast
  then have m: "markLaunched (\<lambda>t i. append_op sample_platform ''now'' None No_fault t i one_task) ''t'' ''executor'' 0 Auto None =
      Some (Some (Inr res), st1)"
    by (simp add: markLaunched_def)
  have "\<exists>x. markLaunched (\<lambda>t i. append_op sample_platform ''now'' None No_fault t i st1) ''t'' ''executor'' 0 Start_next None = Some x"
    by (simp add: markLaunched_def)
  with one_launch_per_round [OF m one_task_meta_of(2,1) one_task_side(4)] m show ?thesis by blast
qed

definition sample_state :: state_task where
  "sample_state = \<lparr>ts_task_id = ''t'', ts_title = ''T'', ts_status = ''implementing'', ts_updated_at = ''now'',
     ts_needs_attention = False, ts_waiting_for = ''agent:executor'', ts_version = Some 1, ts_pending_since = None,
     ts_round_count = 0, ts_cast = None, ts_checkout = None\<rparr>"

theorem revalidation_is_sound_witness:
  "headlessRevalidate (\<lambda>_. [sample_state]) (\<lambda>i. if i = 0 then Some [sample_content 1] else None) ''t'' ''executor'' ''a'' = Inr () \<and>
   (\<exists>i<(2::nat). \<exists>e records. find_task ''t'' [sample_state] = Some e \<and>
     (if i = 0 then Some [sample_content 1] else None) = Some records \<and> ts_waiting_for e = agent_waiting ''executor'')"
proof -
  have ok: "headlessRevalidate (\<lambda>_. [sample_state]) (\<lambda>i. if i = 0 then Some [sample_content 1] else None) ''t'' ''executor'' ''a'' = Inr ()"
    by (simp add: headlessRevalidate_def revalidate_pass_def revalidate_entry_def sample_state_def find_task_def
        agent_waiting_def log_ahead_def latestRecordVersion_def revalidate_log_def marker_attempt_def attempt_step_def)
  from revalidation_is_sound [OF ok] ok show ?thesis by blast
qed

end
