(* ===== verification/Invocation.thy ===== *)
theory Invocation
  imports Launch "HOL-Library.List_Lexorder" "HOL-Library.Char_ord"
begin

text \<open>
  The launch request and invocation boundary, \<open>src/core/launcher/invocation.ts\<close>, and the internal
  command that crosses it, \<open>src/core/launcher/entry-parse.ts\<close>.

  A caller's request is expanded once into an immutable invocation, which is serialised as one argv
  item and validated again by the child.  JSON text is below the model: serialising stops at the
  JSON value and \<open>JSON.parse\<close> is an argument.  The SHA-256 function and the printing of a number are
  arguments too (\<open>digester\<close>).  An error is the name of the field that was refused.
\<close>

type_synonym launch_error = string

section \<open>Data\<close>

record launch_request =
  lr_kind :: string
  lr_task_id :: string
  lr_role :: string
  lr_fresh :: bool
  lr_via :: launch_via
  lr_explicit :: "string list option"

record exec_plan =
  xp_executable :: string
  xp_args :: "string list"
  xp_env :: "(string \<times> string) list"

datatype target_kind = Native | Node_entry

record resolved_target =
  rt_kind :: target_kind
  rt_executable :: string
  rt_prefix_args :: "string list"
  rt_source_path :: string

record launch_anchor =
  la_workspace_id :: string
  la_cwd :: string
  la_pane_id :: string

text \<open>\<open>CheckoutRoute\<close> as the invocation accepts it: a worktree names a path or a ref.\<close>

datatype checkout_ref = Use_current | Use_worktree "string option" "string option"

record execution_context =
  ec_anchor :: "launch_anchor option"
  ec_caller_cwd :: "string option"
  ec_hubRoot :: string
  ec_routingRoot :: string
  ec_checkoutRoot :: string
  ec_checkout :: checkout_ref
  ec_source :: string

record launch_naming =
  ln_tab_label :: string
  ln_pane_label :: string

record launch_invocation =
  li_task_id :: string
  li_role :: string
  li_fresh :: bool
  li_via :: launch_via
  li_base_version :: nat
  li_hub_url :: string
  li_route :: agent_command
  li_route_source :: string
  li_context :: execution_context
  li_naming :: launch_naming
  li_prompt :: string
  li_posix_direct :: "exec_plan option"
  li_resolved_target :: "resolved_target option"
  li_effective_agent :: "exec_plan option"
  li_marker :: "marker_projection option"

record digester =
  dg_hash :: "string \<Rightarrow> string"
  dg_num :: "rat \<Rightarrow> string"

section \<open>Canonical JSON\<close>

fun join_with :: "string \<Rightarrow> string list \<Rightarrow> string" where
  "join_with sep [] = []"
| "join_with sep [x] = x"
| "join_with sep (x # y # ys) = x @ sep @ join_with sep (y # ys)"

text \<open>\<open>JSON.stringify\<close> of a string: quotes, backslashes and control characters are escaped.\<close>

definition hex_digit :: "nat \<Rightarrow> char" where
  "hex_digit n = (if n < 10 then char_of (48 + n) else char_of (87 + n))"

definition quote_char :: char where
  "quote_char = CHR 0x22"

definition backslash :: char where
  "backslash = CHR 0x5C"

definition escape_char :: "char \<Rightarrow> string" where
  "escape_char c =
     (let n = (of_char c :: nat) in
      if n = 34 then [backslash, quote_char]
      else if n = 92 then [backslash, backslash]
      else if n = 8 then [backslash, CHR ''b'']
      else if n = 9 then [backslash, CHR ''t'']
      else if n = 10 then [backslash, CHR ''n'']
      else if n = 12 then [backslash, CHR ''f'']
      else if n = 13 then [backslash, CHR ''r'']
      else if n < 32 then [backslash, CHR ''u'', CHR ''0'', CHR ''0'', hex_digit (n div 16), hex_digit (n mod 16)]
      else [c])"

definition json_string :: "string \<Rightarrow> string" where
  "json_string s = quote_char # concat (map escape_char s) @ [quote_char]"

fun canonicalJson :: "digester \<Rightarrow> json \<Rightarrow> string" where
  "canonicalJson dg JNull = ''null''"
| "canonicalJson dg (JBool b) = (if b then ''true'' else ''false'')"
| "canonicalJson dg (JNum q) = dg_num dg q"
| "canonicalJson dg (JStr s) = json_string s"
| "canonicalJson dg (JArr xs) = ''['' @ join_with '','' (map (canonicalJson dg) xs) @ '']''"
| "canonicalJson dg (JObj es) =
     ''{'' @ join_with '','' (map (\<lambda>(k, s). json_string k @ '':'' @ s)
              (sort_key fst (map (\<lambda>(k, v). (k, canonicalJson dg v)) es))) @ ''}''"

definition targetDigest :: "digester \<Rightarrow> json \<Rightarrow> string" where
  "targetDigest dg v = ''sha256:'' @ dg_hash dg (canonicalJson dg v)"

section \<open>Field checks\<close>

definition ROUTE_SOURCES :: "string list" where
  "ROUTE_SOURCES = [''task-cast'', ''workspace-project'', ''workspace-user'', ''builtin-default'', ''legacy-explicit'']"

definition clean_string :: "string \<Rightarrow> bool" where
  "clean_string s \<longleftrightarrow> s \<noteq> [] \<and> \<not> has_control s"

definition assertNonEmptyString :: "string \<Rightarrow> json option \<Rightarrow> launch_error + string" where
  "assertNonEmptyString field v =
     (case v of Some (JStr s) \<Rightarrow> if clean_string s then Inr s else Inl field | _ \<Rightarrow> Inl field)"

definition assertFiniteVersion :: "string \<Rightarrow> json option \<Rightarrow> launch_error + nat" where
  "assertFiniteVersion field v =
     (case nat_of v of Some n \<Rightarrow> if n \<le> MAX_SAFE_INTEGER then Inr n else Inl field | None \<Rightarrow> Inl field)"

definition assertRouteSource :: "string \<Rightarrow> json option \<Rightarrow> launch_error + string" where
  "assertRouteSource field v =
     (case v of Some (JStr s) \<Rightarrow> if s \<in> set ROUTE_SOURCES then Inr s else Inl field | _ \<Rightarrow> Inl field)"

definition assertLaunchVia :: "string \<Rightarrow> json option \<Rightarrow> launch_error + launch_via" where
  "assertLaunchVia field v =
     (if v = Some (JStr ''start-next'') then Inr Start_next
      else if v = Some (JStr ''auto'') then Inr Auto
      else if v = Some (JStr ''legacy'') then Inr Legacy
      else Inl field)"

definition need_object :: "string \<Rightarrow> json option \<Rightarrow> launch_error + jobject" where
  "need_object field v = (case v of Some (JObj ob) \<Rightarrow> Inr ob | _ \<Rightarrow> Inl field)"

definition need_bool :: "string \<Rightarrow> json option \<Rightarrow> launch_error + bool" where
  "need_bool field v = (case v of Some (JBool b) \<Rightarrow> Inr b | _ \<Rightarrow> Inl field)"

text \<open>An optional field: \<open>undefined\<close> is allowed, \<open>null\<close> is not.\<close>

definition opt_check :: "(json \<Rightarrow> launch_error + 'a) \<Rightarrow> json option \<Rightarrow> launch_error + 'a option" where
  "opt_check f v = (case v of None \<Rightarrow> Inr None | Some x \<Rightarrow> rbind (f x) (\<lambda>y. Inr (Some y)))"

definition controlled_string :: "string \<Rightarrow> json \<Rightarrow> launch_error + string" where
  "controlled_string field v = (case v of JStr s \<Rightarrow> if has_control s then Inl field else Inr s | _ \<Rightarrow> Inl field)"

definition stringArray :: "string \<Rightarrow> json option \<Rightarrow> launch_error + string list" where
  "stringArray field v =
     (case v of Some (JArr xs) \<Rightarrow> traverse (controlled_string field) xs | _ \<Rightarrow> Inl field)"

definition string_entry :: "string \<Rightarrow> string \<times> json \<Rightarrow> launch_error + (string \<times> string)" where
  "string_entry field e =
     rbind (assertNonEmptyString field (Some (JStr (fst e)))) (\<lambda>k.
     rbind (controlled_string field (snd e)) (\<lambda>v. Inr (k, v)))"

text \<open>The copy is written key by key into a plain object, where assigning a string to \<open>__proto__\<close> is without
  effect: an own key of that name is checked and then lost.\<close>

definition assigned :: "(string \<times> string) list \<Rightarrow> (string \<times> string) list" where
  "assigned es = filter (\<lambda>(k, _). k \<noteq> ''__proto__'') es"

definition stringMap :: "string \<Rightarrow> json option \<Rightarrow> launch_error + (string \<times> string) list" where
  "stringMap field v =
     rbind (need_object field v) (\<lambda>ob.
     rbind (traverse (string_entry field) ob) (\<lambda>es. Inr (assigned es)))"

definition as_route_error :: "agent_command_error + 'a \<Rightarrow> launch_error + 'a" where
  "as_route_error r = (case r of Inl _ \<Rightarrow> Inl ''route'' | Inr x \<Rightarrow> Inr x)"

definition command_of :: "agent_route \<Rightarrow> agent_command" where
  "command_of r = (case r of Bare s \<Rightarrow> \<lparr>ac_agent = s, ac_args = []\<rparr> | Command c \<Rightarrow> c)"

definition cloneRoute :: "agent_route \<Rightarrow> launch_error + agent_command" where
  "cloneRoute route = as_route_error (normalizeAgentRoute route)"

section \<open>The launch base\<close>

definition bindLaunchBaseVersion :: "nat option \<Rightarrow> nat \<Rightarrow> launch_error + nat" where
  "bindLaunchBaseVersion stateVersion logVersion =
     (if MAX_SAFE_INTEGER < logVersion then Inl ''log_version''
      else (case stateVersion of
              None \<Rightarrow> Inr logVersion
            | Some s \<Rightarrow> if MAX_SAFE_INTEGER < s then Inl ''state_version''
                        else if s \<noteq> logVersion then Inl ''state/log version'' else Inr s))"

definition assertLaunchStateGate :: "launch_request \<Rightarrow> state_task option \<Rightarrow> launch_error + unit" where
  "assertLaunchStateGate request task =
     (case task of
        None \<Rightarrow> Inl ''task''
      | Some t \<Rightarrow>
          if ts_task_id t \<noteq> lr_task_id request then Inl ''task''
          else if ts_waiting_for t \<noteq> agent_waiting (lr_role request) then Inl ''waiting_for''
          else if ts_needs_attention t then Inl ''needs_attention''
          else if ts_status t \<notin> {''designing'', ''implementing'', ''reviewing'', ''revising''} then Inl ''status''
          else Inr ())"

definition explicitRouteFromValues :: "string list option \<Rightarrow> launch_error + agent_command option" where
  "explicitRouteFromValues values =
     (case values of
        None \<Rightarrow> Inr None
      | Some [] \<Rightarrow> Inr None
      | Some vs \<Rightarrow> rbind (as_route_error (parseAgentInvocation vs)) (\<lambda>r.
                   rbind (cloneRoute r) (\<lambda>c. Inr (Some c))))"

definition requestFromLegacyArgs ::
    "string \<Rightarrow> string \<Rightarrow> bool \<Rightarrow> string list option \<Rightarrow> launch_via \<Rightarrow> launch_error + launch_request" where
  "requestFromLegacyArgs taskId role fresh explicit via =
     (if \<not> clean_string taskId then Inl ''task_id''
      else if \<not> clean_string role then Inl ''role''
      else if explicit = Some [] then Inl ''explicit route values''
      else Inr \<lparr>lr_kind = ''round'', lr_task_id = taskId, lr_role = role, lr_fresh = fresh, lr_via = via,
                lr_explicit = explicit\<rparr>)"

section \<open>The planner\<close>

definition plan_json :: "exec_plan \<Rightarrow> json" where
  "plan_json p = JObj [(''executable'', JStr (xp_executable p)), (''args'', JArr (map JStr (xp_args p))),
     (''env'', JObj (map (\<lambda>(k, v). (k, JStr v)) (xp_env p)))]"

definition kind_name :: "target_kind \<Rightarrow> string" where
  "kind_name k = (case k of Native \<Rightarrow> ''native'' | Node_entry \<Rightarrow> ''node-entry'')"

definition target_json :: "resolved_target \<Rightarrow> json" where
  "target_json t = JObj [(''kind'', JStr (kind_name (rt_kind t))), (''executable'', JStr (rt_executable t)),
     (''prefix_args'', JArr (map JStr (rt_prefix_args t))), (''source_path'', JStr (rt_source_path t))]"

definition privateExecutionInputOf ::
    "agent_command \<Rightarrow> exec_plan option \<Rightarrow> resolved_target option \<Rightarrow> exec_plan option \<Rightarrow> json" where
  "privateExecutionInputOf route posix resolved effective =
     (if resolved \<noteq> None \<or> effective \<noteq> None
      then JObj ([(''route'', command_json route),
                  (''target_kind'', JStr (case resolved of None \<Rightarrow> ''windows-direct'' | Some t \<Rightarrow> kind_name (rt_kind t)))]
                 @ opt_field ''resolved_target'' (map_option target_json resolved)
                 @ opt_field ''effective_agent'' (map_option plan_json effective))
      else JObj [(''route'', command_json route), (''target_kind'', JStr ''posix-direct''),
                 (''posix_direct'', plan_json (case posix of
                    None \<Rightarrow> \<lparr>xp_executable = ac_agent route, xp_args = ac_args route, xp_env = []\<rparr>
                  | Some p \<Rightarrow> p))])"

definition target_kind_of :: "resolved_target option \<Rightarrow> string" where
  "target_kind_of resolved = (case resolved of None \<Rightarrow> ''posix-direct'' | Some t \<Rightarrow> kind_name (rt_kind t))"

text \<open>\<open>clonePlan\<close>: what a plan must look like to be copied.\<close>

definition clonePlan :: "exec_plan \<Rightarrow> launch_error + exec_plan" where
  "clonePlan plan =
     (if \<not> clean_string (xp_executable plan) then Inl ''execution plan executable''
      else if \<not> list_all clean_string (xp_args plan) then Inl ''execution plan args''
      else if \<not> list_all (\<lambda>(k, v). clean_string k \<and> \<not> has_control v) (xp_env plan) then Inl ''execution plan env''
      else Inr plan)"

definition clone_opt :: "exec_plan option \<Rightarrow> launch_error + exec_plan option" where
  "clone_opt p = (case p of None \<Rightarrow> Inr None | Some x \<Rightarrow> rbind (clonePlan x) (\<lambda>y. Inr (Some y)))"

definition posix_matches :: "exec_plan option \<Rightarrow> agent_command \<Rightarrow> bool" where
  "posix_matches posix route = (case posix of None \<Rightarrow> True | Some p \<Rightarrow> xp_executable p = ac_agent route)"

record build_options =
  bo_request :: launch_request
  bo_base_version :: nat
  bo_hub_url :: string
  bo_route :: agent_route
  bo_route_source :: string
  bo_context :: "execution_context option"
  bo_naming :: "launch_naming option"
  bo_prompt :: "string option"
  bo_posix_direct :: "exec_plan option"
  bo_resolved_target :: "resolved_target option"
  bo_effective_agent :: "exec_plan option"

definition buildMarkerProjection :: "digester \<Rightarrow> build_options \<Rightarrow> launch_error + marker_projection" where
  "buildMarkerProjection dg bo =
     rbind (guard (lr_via (bo_request bo) \<noteq> Legacy) ''via'') (\<lambda>_.
     rbind (guard (bo_base_version bo \<le> MAX_SAFE_INTEGER) ''base_version'') (\<lambda>_.
     rbind (cloneRoute (bo_route bo)) (\<lambda>route.
     rbind (clone_opt (bo_posix_direct bo)) (\<lambda>posix.
     rbind (guard (posix_matches posix route) ''posix_direct.executable'') (\<lambda>_.
     rbind (assertRouteSource ''route_source'' (Some (JStr (bo_route_source bo)))) (\<lambda>source.
     rbind (clone_opt (bo_effective_agent bo)) (\<lambda>effective.
       Inr \<lparr>mp_role = lr_role (bo_request bo), mp_base_version = bo_base_version bo, mp_via = lr_via (bo_request bo),
            mp_route = route, mp_route_source = source, mp_target_kind = target_kind_of (bo_resolved_target bo),
            mp_target_digest = targetDigest dg
              (privateExecutionInputOf route posix (bo_resolved_target bo) effective)\<rparr>)))))))"

definition PLACEHOLDER_CONTEXT :: execution_context where
  "PLACEHOLDER_CONTEXT = \<lparr>ec_anchor = None, ec_caller_cwd = None, ec_hubRoot = ''<hub-root>'',
     ec_routingRoot = ''<routing-root>'', ec_checkoutRoot = ''<checkout-root>'', ec_checkout = Use_current,
     ec_source = ''placeholder''\<rparr>"

definition PLACEHOLDER_NAMING :: launch_naming where
  "PLACEHOLDER_NAMING = \<lparr>ln_tab_label = ''TUT {role}'', ln_pane_label = ''<task>.<role>''\<rparr>"

text \<open>The marker is built from the normalised route and the copied plans.\<close>

definition invocation_marker ::
    "digester \<Rightarrow> build_options \<Rightarrow> agent_command \<Rightarrow> exec_plan option \<Rightarrow> exec_plan option \<Rightarrow> launch_error + marker_projection option" where
  "invocation_marker dg bo route posix effective =
     (if lr_via (bo_request bo) = Legacy then Inr None
      else rbind (buildMarkerProjection dg (bo\<lparr>bo_route := Command route, bo_posix_direct := posix,
                    bo_effective_agent := effective\<rparr>)) (\<lambda>m. Inr (Some m)))"

definition buildLaunchInvocation :: "digester \<Rightarrow> build_options \<Rightarrow> launch_error + launch_invocation" where
  "buildLaunchInvocation dg bo =
     (let request = bo_request bo in
      rbind (guard (lr_kind request = ''round'') ''request.kind'') (\<lambda>_.
      rbind (guard (clean_string (lr_task_id request)) ''task_id'') (\<lambda>_.
      rbind (guard (clean_string (lr_role request)) ''role'') (\<lambda>_.
      rbind (guard (clean_string (bo_hub_url bo)) ''hub_url'') (\<lambda>_.
      rbind (guard (bo_base_version bo \<le> MAX_SAFE_INTEGER) ''base_version'') (\<lambda>_.
      rbind (guard (lr_explicit request \<noteq> Some []) ''explicit_route_values'') (\<lambda>_.
      rbind (cloneRoute (bo_route bo)) (\<lambda>route.
      rbind (clone_opt (bo_posix_direct bo)) (\<lambda>posix.
      rbind (guard (posix_matches posix route) ''posix_direct.executable'') (\<lambda>_.
      rbind (assertRouteSource ''route_source'' (Some (JStr (bo_route_source bo)))) (\<lambda>source.
      (let naming = (case bo_naming bo of None \<Rightarrow> PLACEHOLDER_NAMING | Some n \<Rightarrow> n);
           prompt = (case bo_prompt bo of None \<Rightarrow> [] | Some p \<Rightarrow> p) in
      rbind (guard (clean_string (ln_tab_label naming)) ''naming.tab_label'') (\<lambda>_.
      rbind (guard (clean_string (ln_pane_label naming)) ''naming.pane_label'') (\<lambda>_.
      rbind (guard (clean_string prompt) ''prompt'') (\<lambda>_.
      rbind (clone_opt (bo_effective_agent bo)) (\<lambda>effective.
      rbind (invocation_marker dg bo route posix effective) (\<lambda>marker.
        Inr \<lparr>li_task_id = lr_task_id request, li_role = lr_role request, li_fresh = lr_fresh request,
             li_via = lr_via request, li_base_version = bo_base_version bo, li_hub_url = bo_hub_url bo,
             li_route = route, li_route_source = source,
             li_context = (case bo_context bo of None \<Rightarrow> PLACEHOLDER_CONTEXT | Some c \<Rightarrow> c),
             li_naming = naming, li_prompt = prompt, li_posix_direct = posix,
             li_resolved_target = bo_resolved_target bo, li_effective_agent = effective,
             li_marker = marker\<rparr>)))))))))))))))))"

section \<open>The invocation as JSON\<close>

definition checkout_ref_json :: "checkout_ref \<Rightarrow> json" where
  "checkout_ref_json c = (case c of
       Use_current \<Rightarrow> JObj [(''kind'', JStr ''current'')]
     | Use_worktree p r \<Rightarrow> JObj ([(''kind'', JStr ''worktree'')] @ opt_field ''path'' (map_option JStr p)
         @ opt_field ''ref'' (map_option JStr r)))"

definition anchor_json :: "launch_anchor \<Rightarrow> json" where
  "anchor_json a = JObj [(''workspace_id'', JStr (la_workspace_id a)), (''cwd'', JStr (la_cwd a)),
     (''pane_id'', JStr (la_pane_id a))]"

definition context_json :: "execution_context \<Rightarrow> json" where
  "context_json c = JObj (
     opt_field ''anchor'' (map_option anchor_json (ec_anchor c))
     @ opt_field ''caller_cwd'' (map_option JStr (ec_caller_cwd c))
     @ [(''hubRoot'', JStr (ec_hubRoot c)), (''routingRoot'', JStr (ec_routingRoot c)),
        (''checkoutRoot'', JStr (ec_checkoutRoot c)), (''checkout'', checkout_ref_json (ec_checkout c)),
        (''context'', JObj [(''kind'', JStr ''shared'')]), (''source'', JStr (ec_source c))])"

definition naming_json :: "launch_naming \<Rightarrow> json" where
  "naming_json n = JObj [(''tab_label'', JStr (ln_tab_label n)), (''pane_label'', JStr (ln_pane_label n))]"

definition invocation_json :: "launch_invocation \<Rightarrow> json" where
  "invocation_json i = JObj (
     [(''protocol_version'', JNum 2), (''kind'', JStr ''round''),
      (''task_id'', JStr (li_task_id i)), (''role'', JStr (li_role i)), (''fresh'', JBool (li_fresh i)),
      (''via'', JStr (via_name (li_via i))), (''base_version'', JNum (of_nat (li_base_version i))),
      (''hub_url'', JStr (li_hub_url i)), (''route'', command_json (li_route i)),
      (''route_source'', JStr (li_route_source i)), (''context'', context_json (li_context i)),
      (''naming'', naming_json (li_naming i)), (''prompt'', JStr (li_prompt i))]
     @ opt_field ''posix_direct'' (map_option plan_json (li_posix_direct i))
     @ opt_field ''resolved_target'' (map_option target_json (li_resolved_target i))
     @ opt_field ''effective_agent'' (map_option plan_json (li_effective_agent i))
     @ opt_field ''marker_projection'' (map_option projection_json (li_marker i)))"

section \<open>Validating an invocation\<close>

text \<open>A path or ref of the checkout: not blank, no control characters.\<close>

definition routeString :: "string \<Rightarrow> json \<Rightarrow> launch_error + string" where
  "routeString field v =
     (case v of JStr s \<Rightarrow> if blank s \<or> has_control s then Inl field else Inr s | _ \<Rightarrow> Inl field)"

definition cloneCheckout :: "json option \<Rightarrow> launch_error + checkout_ref" where
  "cloneCheckout value =
     rbind (need_object ''context.checkout'' value) (\<lambda>raw.
       if pget raw ''kind'' = Some (JStr ''current'') then Inr Use_current
       else if pget raw ''kind'' \<noteq> Some (JStr ''worktree'') then Inl ''context.checkout.kind''
       else rbind (opt_check (routeString ''context.checkout.path'') (pget raw ''path'')) (\<lambda>p.
            rbind (opt_check (routeString ''context.checkout.ref'') (pget raw ''ref'')) (\<lambda>r.
              if p = None \<and> r = None then Inl ''context.checkout'' else Inr (Use_worktree p r))))"

definition validate_anchor :: "json \<Rightarrow> launch_error + launch_anchor" where
  "validate_anchor v =
     rbind (need_object ''context.anchor'' (Some v)) (\<lambda>a.
     rbind (assertNonEmptyString ''context.anchor.workspace_id'' (pget a ''workspace_id'')) (\<lambda>w.
     rbind (assertNonEmptyString ''context.anchor.cwd'' (pget a ''cwd'')) (\<lambda>c.
     rbind (assertNonEmptyString ''context.anchor.pane_id'' (pget a ''pane_id'')) (\<lambda>p.
       Inr \<lparr>la_workspace_id = w, la_cwd = c, la_pane_id = p\<rparr>))))"

definition CONTEXT_SOURCES :: "string list" where
  "CONTEXT_SOURCES = [''anchor'', ''project-root'', ''placeholder'', ''legacy'']"

definition validateExecutionContext :: "json option \<Rightarrow> launch_error + execution_context" where
  "validateExecutionContext value =
     rbind (need_object ''context'' value) (\<lambda>raw.
     rbind (assertNonEmptyString ''context.hubRoot'' (pget raw ''hubRoot'')) (\<lambda>hub.
     rbind (assertNonEmptyString ''context.routingRoot'' (pget raw ''routingRoot'')) (\<lambda>routing.
     rbind (assertNonEmptyString ''context.checkoutRoot'' (pget raw ''checkoutRoot'')) (\<lambda>checkoutRoot.
     rbind (assertNonEmptyString ''context.source'' (pget raw ''source'')) (\<lambda>source.
     rbind (guard (source \<in> set CONTEXT_SOURCES) ''context.source'') (\<lambda>_.
     rbind (cloneCheckout (pget raw ''checkout'')) (\<lambda>checkout.
     rbind (guard (case pget raw ''context'' of None \<Rightarrow> False | Some c \<Rightarrow> jget c ''kind'' = Some (JStr ''shared'')) ''context.context'') (\<lambda>_.
     rbind (opt_check validate_anchor (pget raw ''anchor'')) (\<lambda>anchor.
     rbind (opt_check (\<lambda>v. assertNonEmptyString ''context.caller_cwd'' (Some v)) (pget raw ''caller_cwd'')) (\<lambda>cwd.
       Inr \<lparr>ec_anchor = anchor, ec_caller_cwd = cwd, ec_hubRoot = hub, ec_routingRoot = routing,
            ec_checkoutRoot = checkoutRoot, ec_checkout = checkout, ec_source = source\<rparr>))))))))))"

definition validateInvocationMarker :: "json \<Rightarrow> launch_error + marker_projection" where
  "validateInvocationMarker v =
     rbind (need_object ''marker_projection'' (Some v)) (\<lambda>raw.
     rbind (guard (pget raw ''protocol_version'' = Some (JNum 2)) ''marker.protocol_version'') (\<lambda>_.
     rbind (assertNonEmptyString ''marker.role'' (pget raw ''role'')) (\<lambda>role.
     rbind (assertFiniteVersion ''marker.base_version'' (pget raw ''base_version'')) (\<lambda>base.
     rbind (assertLaunchVia ''marker.via'' (pget raw ''via'')) (\<lambda>via.
     rbind (guard (via \<noteq> Legacy) ''marker.via'') (\<lambda>_.
     rbind (as_route_error (validateAgentRoute (pget raw ''route''))) (\<lambda>route.
     rbind (assertRouteSource ''marker.route_source'' (pget raw ''route_source'')) (\<lambda>source.
     rbind (assertNonEmptyString ''marker.target_kind'' (pget raw ''target_kind'')) (\<lambda>kind.
     rbind (assertNonEmptyString ''marker.target_digest'' (pget raw ''target_digest'')) (\<lambda>digest.
       Inr \<lparr>mp_role = role, mp_base_version = base, mp_via = via, mp_route = command_of route,
            mp_route_source = source, mp_target_kind = kind, mp_target_digest = digest\<rparr>))))))))))"

definition validate_naming :: "json option \<Rightarrow> launch_error + launch_naming" where
  "validate_naming v =
     rbind (need_object ''naming'' v) (\<lambda>raw.
     rbind (assertNonEmptyString ''naming.tab_label'' (pget raw ''tab_label'')) (\<lambda>t.
     rbind (assertNonEmptyString ''naming.pane_label'' (pget raw ''pane_label'')) (\<lambda>p.
       Inr \<lparr>ln_tab_label = t, ln_pane_label = p\<rparr>)))"

definition validate_plan :: "json \<Rightarrow> launch_error + exec_plan" where
  "validate_plan v =
     rbind (need_object ''plan'' (Some v)) (\<lambda>raw.
     rbind (assertNonEmptyString ''plan.executable'' (pget raw ''executable'')) (\<lambda>e.
     rbind (stringArray ''plan.args'' (pget raw ''args'')) (\<lambda>a.
     rbind (stringMap ''plan.env'' (pget raw ''env'')) (\<lambda>env.
       Inr \<lparr>xp_executable = e, xp_args = a, xp_env = env\<rparr>))))"

definition validate_posix :: "agent_command \<Rightarrow> json \<Rightarrow> launch_error + exec_plan" where
  "validate_posix route v =
     rbind (validate_plan v) (\<lambda>p.
       if xp_executable p \<noteq> ac_agent route then Inl ''posix_direct.executable'' else Inr p)"

definition validate_target :: "json \<Rightarrow> launch_error + resolved_target" where
  "validate_target v =
     rbind (need_object ''resolved_target'' (Some v)) (\<lambda>raw.
     rbind (if pget raw ''kind'' = Some (JStr ''native'') then Inr Native
            else if pget raw ''kind'' = Some (JStr ''node-entry'') then Inr Node_entry
            else Inl ''resolved_target.kind'') (\<lambda>kind.
     rbind (assertNonEmptyString ''resolved_target.executable'' (pget raw ''executable'')) (\<lambda>e.
     rbind (assertNonEmptyString ''resolved_target.source_path'' (pget raw ''source_path'')) (\<lambda>s.
     rbind (stringArray ''resolved_target.prefix_args'' (pget raw ''prefix_args'')) (\<lambda>a.
       Inr \<lparr>rt_kind = kind, rt_executable = e, rt_prefix_args = a, rt_source_path = s\<rparr>)))))"

text \<open>The marker must agree with the invocation that carries it.\<close>

definition marker_agrees :: "digester \<Rightarrow> launch_invocation \<Rightarrow> bool" where
  "marker_agrees dg i =
     (case li_marker i of
        None \<Rightarrow> li_via i = Legacy
      | Some m \<Rightarrow> li_via i \<noteq> Legacy \<and>
          mp_via m = li_via i \<and> mp_role m = li_role i \<and> mp_base_version m = li_base_version i \<and>
          canonicalJson dg (command_json (mp_route m)) = canonicalJson dg (command_json (li_route i)) \<and>
          mp_route_source m = li_route_source i \<and>
          mp_target_kind m = target_kind_of (li_resolved_target i) \<and>
          mp_target_digest m = targetDigest dg (privateExecutionInputOf (li_route i) (li_posix_direct i)
            (li_resolved_target i) (li_effective_agent i)))"

definition validateLaunchInvocation :: "digester \<Rightarrow> json \<Rightarrow> launch_error + launch_invocation" where
  "validateLaunchInvocation dg value =
     rbind (need_object ''launch invocation'' (Some value)) (\<lambda>raw.
     rbind (guard (pget raw ''protocol_version'' = Some (JNum 2)) ''protocol_version'') (\<lambda>_.
     rbind (guard (pget raw ''kind'' = Some (JStr ''round'')) ''kind'') (\<lambda>_.
     rbind (assertLaunchVia ''via'' (pget raw ''via'')) (\<lambda>via.
     rbind (assertNonEmptyString ''task_id'' (pget raw ''task_id'')) (\<lambda>taskId.
     rbind (assertNonEmptyString ''role'' (pget raw ''role'')) (\<lambda>role.
     rbind (assertNonEmptyString ''hub_url'' (pget raw ''hub_url'')) (\<lambda>url.
     rbind (assertNonEmptyString ''prompt'' (pget raw ''prompt'')) (\<lambda>prompt.
     rbind (assertRouteSource ''route_source'' (pget raw ''route_source'')) (\<lambda>source.
     rbind (need_bool ''fresh'' (pget raw ''fresh'')) (\<lambda>fresh.
     rbind (assertFiniteVersion ''base_version'' (pget raw ''base_version'')) (\<lambda>base.
     rbind (as_route_error (validateAgentRoute (pget raw ''route''))) (\<lambda>route.
     rbind (validateExecutionContext (pget raw ''context'')) (\<lambda>context.
     rbind (validate_naming (pget raw ''naming'')) (\<lambda>naming.
     rbind (opt_check (validate_posix (command_of route)) (pget raw ''posix_direct'')) (\<lambda>posix.
     rbind (opt_check validate_target (pget raw ''resolved_target'')) (\<lambda>resolved.
     rbind (opt_check validate_plan (pget raw ''effective_agent'')) (\<lambda>effective.
     rbind (opt_check validateInvocationMarker (pget raw ''marker_projection'')) (\<lambda>marker.
       let i = \<lparr>li_task_id = taskId, li_role = role, li_fresh = fresh, li_via = via, li_base_version = base,
             li_hub_url = url, li_route = command_of route, li_route_source = source, li_context = context,
             li_naming = naming, li_prompt = prompt, li_posix_direct = posix, li_resolved_target = resolved,
             li_effective_agent = effective, li_marker = marker\<rparr>
       in if marker_agrees dg i then Inr i else Inl ''marker projection''))))))))))))))))))"

definition serializeLaunchInvocation :: "digester \<Rightarrow> launch_invocation \<Rightarrow> launch_error + json" where
  "serializeLaunchInvocation dg i =
     rbind (validateLaunchInvocation dg (invocation_json i)) (\<lambda>_. Inr (invocation_json i))"

definition deserializeLaunchInvocation ::
    "(string \<Rightarrow> json option) \<Rightarrow> digester \<Rightarrow> string \<Rightarrow> launch_error + launch_invocation" where
  "deserializeLaunchInvocation parse dg value =
     (case parse value of None \<Rightarrow> Inl ''launch invocation'' | Some v \<Rightarrow> validateLaunchInvocation dg v)"

section \<open>The internal command\<close>

datatype launch_entry =
    Cleanup string
  | Round launch_request "launch_invocation option"

datatype entry_error = Usage_cleanup | Usage_invocation | Usage_launch | Refused launch_error

definition request_of_invocation :: "launch_invocation \<Rightarrow> launch_request" where
  "request_of_invocation i = \<lparr>lr_kind = ''round'', lr_task_id = li_task_id i, lr_role = li_role i,
     lr_fresh = li_fresh i, lr_via = li_via i, lr_explicit = None\<rparr>"

text \<open>The positional form after an optional \<open>--fresh\<close>.\<close>

definition positional_entry :: "bool \<Rightarrow> string list \<Rightarrow> entry_error + launch_entry" where
  "positional_entry fresh values =
     (case values of
        taskId # role # rest \<Rightarrow>
          if taskId = [] \<or> role = [] then Inl Usage_launch
          else (case requestFromLegacyArgs taskId role fresh (if rest = [] then None else Some rest) Legacy of
                  Inl e \<Rightarrow> Inl (Refused e)
                | Inr request \<Rightarrow> Inr (Round request None))
      | _ \<Rightarrow> Inl Usage_launch)"

definition parseLaunchEntry ::
    "(string \<Rightarrow> json option) \<Rightarrow> digester \<Rightarrow> string list \<Rightarrow> entry_error + launch_entry" where
  "parseLaunchEntry parse dg args =
     (case args of
        [] \<Rightarrow> Inl Usage_launch
      | first # rest \<Rightarrow>
          if first = ''--cleanup''
          then (case rest of [t] \<Rightarrow> if t = [] then Inl Usage_cleanup else Inr (Cleanup t) | _ \<Rightarrow> Inl Usage_cleanup)
          else if first = ''--invocation''
          then (case rest of
                  [v] \<Rightarrow> (case deserializeLaunchInvocation parse dg v of
                     Inl e \<Rightarrow> Inl (Refused e)
                   | Inr i \<Rightarrow> Inr (Round (request_of_invocation i) (Some i)))
                | _ \<Rightarrow> Inl Usage_invocation)
          else if first = ''--fresh'' then positional_entry True rest
          else positional_entry False args)"

definition requestOf :: "launch_entry \<Rightarrow> launch_request option" where
  "requestOf e = (case e of Cleanup _ \<Rightarrow> None | Round r _ \<Rightarrow> Some r)"

section \<open>What the checks accept\<close>

lemma assertNonEmptyString_Inr: "assertNonEmptyString f v = Inr s \<longleftrightarrow> v = Some (JStr s) \<and> clean_string s"
  by (auto simp: assertNonEmptyString_def split: option.splits json.splits if_splits)

lemma controlled_string_Inr: "controlled_string f v = Inr s \<longleftrightarrow> v = JStr s \<and> \<not> has_control s"
  by (auto simp: controlled_string_def split: json.splits if_splits)

lemma assertFiniteVersion_Inr: "assertFiniteVersion f v = Inr n \<longleftrightarrow> nat_of v = Some n \<and> n \<le> MAX_SAFE_INTEGER"
  by (auto simp: assertFiniteVersion_def split: option.splits)

lemma assertRouteSource_Inr: "assertRouteSource f v = Inr s \<longleftrightarrow> v = Some (JStr s) \<and> s \<in> set ROUTE_SOURCES"
  by (auto simp: assertRouteSource_def split: option.splits json.splits if_splits)

lemma assertLaunchVia_Inr: "assertLaunchVia f v = Inr via \<longleftrightarrow> v = Some (JStr (via_name via))"
  by (cases via) (auto simp: assertLaunchVia_def via_name_def)

lemma need_object_Inr: "need_object f v = Inr ob \<longleftrightarrow> v = Some (JObj ob)"
  by (auto simp: need_object_def split: option.splits json.splits)

lemma need_bool_Inr: "need_bool f v = Inr b \<longleftrightarrow> v = Some (JBool b)"
  by (auto simp: need_bool_def split: option.splits json.splits)

lemma opt_check_Inr:
  "opt_check f v = Inr y \<longleftrightarrow> (v = None \<and> y = None) \<or> (\<exists>x z. v = Some x \<and> f x = Inr z \<and> y = Some z)"
  by (cases v) (auto simp: opt_check_def rbind_Inr_iff)

lemma stringArray_Inr:
  "stringArray f v = Inr xs \<longleftrightarrow> v = Some (JArr (map JStr xs)) \<and> list_all (\<lambda>s. \<not> has_control s) xs"
  by (auto simp: stringArray_def traverse_Inr_iff controlled_string_Inr list_all2_conv_all_nth list_all_length
      split: option.splits json.splits intro!: nth_equalityI)

abbreviation env_ok :: "string \<times> string \<Rightarrow> bool" where
  "env_ok \<equiv> \<lambda>(k, v). clean_string k \<and> \<not> has_control v"

abbreviation env_json :: "string \<times> string \<Rightarrow> string \<times> json" where
  "env_json \<equiv> \<lambda>(k, v). (k, JStr v)"

lemma string_entry_Inr: "string_entry f e = Inr kv \<longleftrightarrow> e = env_json kv \<and> env_ok kv"
  by (cases e; cases kv) (auto simp: string_entry_def rbind_Inr_iff assertNonEmptyString_Inr controlled_string_Inr)

lemma stringMap_Inr:
  "stringMap f v = Inr es \<longleftrightarrow> (\<exists>es'. v = Some (JObj (map env_json es')) \<and> list_all env_ok es' \<and> es = assigned es')"
proof -
  have "traverse (string_entry f) ob = Inr es' \<longleftrightarrow> ob = map env_json es' \<and> list_all env_ok es'" for ob es'
    by (auto simp: traverse_Inr_iff string_entry_Inr list_all2_conv_all_nth list_all_length intro!: nth_equalityI)
  then show ?thesis by (auto simp: stringMap_def rbind_Inr_iff need_object_Inr)
qed

lemma assigned_ok: "list_all env_ok es \<Longrightarrow> list_all env_ok (assigned es)"
  by (auto simp: assigned_def list_all_iff)

definition plan_ok :: "exec_plan \<Rightarrow> bool" where
  "plan_ok p \<longleftrightarrow> clean_string (xp_executable p) \<and> list_all (\<lambda>s. \<not> has_control s) (xp_args p) \<and> list_all env_ok (xp_env p)"

lemma clean_accepted: "clean_string s \<Longrightarrow> assertNonEmptyString f (Some (JStr s)) = Inr s"
  by (simp add: assertNonEmptyString_Inr)

lemma stringArray_json: "list_all (\<lambda>s. \<not> has_control s) xs \<Longrightarrow> stringArray f (Some (JArr (map JStr xs))) = Inr xs"
  by (simp add: stringArray_Inr)

lemma stringMap_json: "list_all env_ok es \<Longrightarrow> stringMap f (Some (JObj (map env_json es))) = Inr (assigned es)"
  by (auto simp: stringMap_Inr)

text \<open>A plan as its copy arrives.\<close>

definition sent_plan :: "exec_plan \<Rightarrow> exec_plan" where
  "sent_plan p = p\<lparr>xp_env := assigned (xp_env p)\<rparr>"

lemma need_object_json [simp]: "need_object f (Some (JObj ob)) = Inr ob"
  by (simp add: need_object_def)

lemma map_JStr_eq [simp]: "map JStr xs = map JStr ys \<longleftrightarrow> xs = ys"
  by (simp add: inj_map_eq_map inj_def)

lemma validate_plan_json: "plan_ok p \<Longrightarrow> validate_plan (plan_json p) = Inr (sent_plan p)"
  by (simp add: validate_plan_def plan_json_def clean_accepted stringArray_json stringMap_json plan_ok_def sent_plan_def)

lemma validate_plan_ok: "validate_plan v = Inr p \<Longrightarrow> plan_ok p"
  by (auto simp: validate_plan_def rbind_Inr_iff assertNonEmptyString_Inr stringArray_Inr stringMap_Inr plan_ok_def assigned_ok)

lemma clonePlan_Inr: "clonePlan p = Inr p' \<Longrightarrow> p' = p \<and> plan_ok p"
  by (auto simp: clonePlan_def plan_ok_def clean_string_def list_all_iff split: if_split_asm)

lemma clone_opt_Inr: "clone_opt p = Inr p' \<Longrightarrow> p' = p \<and> (\<forall>x. p = Some x \<longrightarrow> plan_ok x)"
  by (cases p) (auto simp: clone_opt_def rbind_Inr_iff dest: clonePlan_Inr)

lemma clone_opt_again: "clone_opt p = Inr p' \<Longrightarrow> clone_opt p' = Inr p'"
  by (cases p) (auto simp: clone_opt_def rbind_Inr_iff clonePlan_def split: if_split_asm)

definition target_ok :: "resolved_target \<Rightarrow> bool" where
  "target_ok t \<longleftrightarrow> clean_string (rt_executable t) \<and> clean_string (rt_source_path t) \<and>
     list_all (\<lambda>s. \<not> has_control s) (rt_prefix_args t)"

lemma validate_target_json: "target_ok t \<Longrightarrow> validate_target (target_json t) = Inr t"
  by (cases "rt_kind t")
    (simp_all add: validate_target_def target_json_def kind_name_def clean_accepted target_ok_def stringArray_json)

lemma validate_target_ok: "validate_target v = Inr t \<Longrightarrow> target_ok t"
  by (auto simp: validate_target_def rbind_Inr_iff assertNonEmptyString_Inr stringArray_Inr target_ok_def)

lemma command_route:
  "validateAgentRoute (Some (command_json c)) = Inr r \<longleftrightarrow>
     list_all SHELL_NEUTRAL_TOKEN (ac_agent c # ac_args c) \<and> r = Command c"
  unfolding command_json_def validateAgentRoute_JObj
  by (cases c) auto

lemma command_of_tokens: "validateAgentRoute v = Inr r \<Longrightarrow>
    list_all SHELL_NEUTRAL_TOKEN (ac_agent (command_of r) # ac_args (command_of r))"
  using validateAgentRoute_tokens [of v r] by (cases r) (simp_all add: route_tokens_def command_of_def)

lemma cloneRoute_tokens: "cloneRoute r = Inr c \<Longrightarrow> list_all SHELL_NEUTRAL_TOKEN (ac_agent c # ac_args c)"
  using normalizeAgentRoute_tokens by (auto simp: cloneRoute_def as_route_error_def split: sum.split_asm)

lemma cloneRoute_again:
  "list_all SHELL_NEUTRAL_TOKEN (ac_agent c # ac_args c) \<Longrightarrow> cloneRoute (Command c) = Inr c"
  using command_route [of c "Command c"]
  by (simp add: cloneRoute_def normalizeAgentRoute_def route_json_def command_json_def as_route_error_def)

definition checkout_ref_ok :: "checkout_ref \<Rightarrow> bool" where
  "checkout_ref_ok c = (case c of
       Use_current \<Rightarrow> True
     | Use_worktree p r \<Rightarrow> (p \<noteq> None \<or> r \<noteq> None) \<and>
         (\<forall>s. p = Some s \<or> r = Some s \<longrightarrow> \<not> blank s \<and> \<not> has_control s))"

lemma routeString_Inr: "routeString f v = Inr s \<longleftrightarrow> v = JStr s \<and> \<not> blank s \<and> \<not> has_control s"
  by (auto simp: routeString_def split: json.splits if_splits)

lemma cloneCheckout_json: "checkout_ref_ok c \<Longrightarrow> cloneCheckout (Some (checkout_ref_json c)) = Inr c"
  by (cases c) (auto simp: cloneCheckout_def need_object_def checkout_ref_json_def checkout_ref_ok_def pget_append
      pget_opt_field opt_check_def routeString_def split: option.splits)

lemma cloneCheckout_ok: "cloneCheckout v = Inr c \<Longrightarrow> checkout_ref_ok c"
  by (auto simp: cloneCheckout_def rbind_Inr_iff opt_check_Inr routeString_Inr checkout_ref_ok_def split: if_split_asm)

definition context_ok :: "execution_context \<Rightarrow> bool" where
  "context_ok c \<longleftrightarrow> clean_string (ec_hubRoot c) \<and> clean_string (ec_routingRoot c) \<and> clean_string (ec_checkoutRoot c) \<and>
     ec_source c \<in> set CONTEXT_SOURCES \<and> checkout_ref_ok (ec_checkout c) \<and>
     (\<forall>a. ec_anchor c = Some a \<longrightarrow> clean_string (la_workspace_id a) \<and> clean_string (la_cwd a) \<and> clean_string (la_pane_id a)) \<and>
     (\<forall>s. ec_caller_cwd c = Some s \<longrightarrow> clean_string s)"

lemma context_source_clean: "s \<in> set CONTEXT_SOURCES \<Longrightarrow> clean_string s"
  by (auto simp: CONTEXT_SOURCES_def clean_string_def has_control_def)

lemma validateExecutionContext_json:
  assumes "context_ok c"
  shows "validateExecutionContext (Some (context_json c)) = Inr c"
proof -
  have a: "opt_check validate_anchor (map_option anchor_json (ec_anchor c)) = Inr (ec_anchor c)"
    using assms by (cases "ec_anchor c")
      (simp_all add: opt_check_def validate_anchor_def anchor_json_def clean_accepted context_ok_def)
  have w: "opt_check (\<lambda>v. assertNonEmptyString ''context.caller_cwd'' (Some v)) (map_option JStr (ec_caller_cwd c))
      = Inr (ec_caller_cwd c)"
    using assms by (cases "ec_caller_cwd c") (simp_all add: opt_check_def clean_accepted context_ok_def)
  obtain ob where ob: "context_json c = JObj ob" "pget ob ''anchor'' = map_option anchor_json (ec_anchor c)"
    "pget ob ''caller_cwd'' = map_option JStr (ec_caller_cwd c)" "pget ob ''hubRoot'' = Some (JStr (ec_hubRoot c))"
    "pget ob ''routingRoot'' = Some (JStr (ec_routingRoot c))" "pget ob ''checkoutRoot'' = Some (JStr (ec_checkoutRoot c))"
    "pget ob ''checkout'' = Some (checkout_ref_json (ec_checkout c))"
    "pget ob ''context'' = Some (JObj [(''kind'', JStr ''shared'')])" "pget ob ''source'' = Some (JStr (ec_source c))"
    unfolding context_json_def by (auto simp: pget_append pget_opt_field split: option.splits)
  show ?thesis
    using assms context_source_clean
    by (simp add: validateExecutionContext_def ob a w clean_accepted context_ok_def cloneCheckout_json guard_def)
qed

lemma validateExecutionContext_ok: "validateExecutionContext v = Inr c \<Longrightarrow> context_ok c"
  by (auto simp: validateExecutionContext_def rbind_Inr_iff assertNonEmptyString_Inr context_ok_def opt_check_Inr
      validate_anchor_def dest: cloneCheckout_ok)

definition marker_ok :: "marker_projection \<Rightarrow> bool" where
  "marker_ok m \<longleftrightarrow> clean_string (mp_role m) \<and> mp_base_version m \<le> MAX_SAFE_INTEGER \<and> mp_via m \<noteq> Legacy \<and>
     list_all SHELL_NEUTRAL_TOKEN (ac_agent (mp_route m) # ac_args (mp_route m)) \<and>
     mp_route_source m \<in> set ROUTE_SOURCES \<and> clean_string (mp_target_kind m) \<and> clean_string (mp_target_digest m)"

lemma version_accepted: "n \<le> MAX_SAFE_INTEGER \<Longrightarrow> assertFiniteVersion f (Some (JNum (of_nat n))) = Inr n"
  by (simp add: assertFiniteVersion_Inr)

lemma source_accepted: "s \<in> set ROUTE_SOURCES \<Longrightarrow> assertRouteSource f (Some (JStr s)) = Inr s"
  by (simp add: assertRouteSource_Inr)

lemma via_accepted: "assertLaunchVia f (Some (JStr (via_name via))) = Inr via"
  by (simp add: assertLaunchVia_Inr)

lemma route_accepted:
  "list_all SHELL_NEUTRAL_TOKEN (ac_agent c # ac_args c) \<Longrightarrow>
     as_route_error (validateAgentRoute (Some (command_json c))) = Inr (Command c)"
  using command_route [of c "Command c"] by (simp add: as_route_error_def)

lemma route_accepted_iff: "as_route_error r = Inr x \<longleftrightarrow> r = Inr x"
  by (cases r) (simp_all add: as_route_error_def)

lemma command_of_Command [simp]: "command_of (Command c) = c"
  by (simp add: command_of_def)

lemma validateInvocationMarker_json:
  assumes "marker_ok m"
  shows "validateInvocationMarker (projection_json m) = Inr m"
  using assms
  by (simp add: validateInvocationMarker_def projection_json_def marker_ok_def clean_accepted version_accepted
      source_accepted via_accepted route_accepted guard_def)

lemma validateInvocationMarker_ok:
  assumes "validateInvocationMarker v = Inr m"
  shows "marker_ok m"
proof -
  from assms obtain route where "validateAgentRoute (pget (THE ob. v = JObj ob) ''route'') = Inr route"
    "mp_route m = command_of route"
    "clean_string (mp_role m)" "mp_base_version m \<le> MAX_SAFE_INTEGER" "mp_via m \<noteq> Legacy"
    "mp_route_source m \<in> set ROUTE_SOURCES" "clean_string (mp_target_kind m)" "clean_string (mp_target_digest m)"
    by (clarsimp simp: validateInvocationMarker_def rbind_Inr_iff assertNonEmptyString_Inr assertFiniteVersion_Inr
        assertRouteSource_Inr route_accepted_iff need_object_Inr)
  with command_of_tokens show ?thesis
    by (simp add: marker_ok_def)
qed

definition invocation_ok :: "launch_invocation \<Rightarrow> bool" where
  "invocation_ok i \<longleftrightarrow> clean_string (li_task_id i) \<and> clean_string (li_role i) \<and> clean_string (li_hub_url i) \<and>
     clean_string (li_prompt i) \<and> li_route_source i \<in> set ROUTE_SOURCES \<and> li_base_version i \<le> MAX_SAFE_INTEGER \<and>
     list_all SHELL_NEUTRAL_TOKEN (ac_agent (li_route i) # ac_args (li_route i)) \<and>
     context_ok (li_context i) \<and> clean_string (ln_tab_label (li_naming i)) \<and> clean_string (ln_pane_label (li_naming i)) \<and>
     posix_matches (li_posix_direct i) (li_route i) \<and>
     (\<forall>p. li_posix_direct i = Some p \<or> li_effective_agent i = Some p \<longrightarrow> plan_ok p) \<and>
     (\<forall>t. li_resolved_target i = Some t \<longrightarrow> target_ok t) \<and>
     (\<forall>m. li_marker i = Some m \<longrightarrow> marker_ok m)"

lemma opt_check_map:
  "(\<And>x. v = Some x \<Longrightarrow> f (g x) = Inr (h x)) \<Longrightarrow> opt_check f (map_option g v) = Inr (map_option h v)"
  by (cases v) (simp_all add: opt_check_def)

lemma opt_check_ok:
  assumes "opt_check f v = Inr y" and "\<And>x z. f x = Inr z \<Longrightarrow> P z" and "y = Some z"
  shows "P z"
  using assms by (auto simp: opt_check_Inr)

lemma validate_posix_json:
  "plan_ok p \<Longrightarrow> xp_executable p = ac_agent c \<Longrightarrow> validate_posix c (plan_json p) = Inr (sent_plan p)"
  by (simp add: validate_posix_def validate_plan_json sent_plan_def)

lemma validate_posix_ok: "validate_posix c v = Inr p \<Longrightarrow> plan_ok p \<and> xp_executable p = ac_agent c"
  by (auto simp: validate_posix_def rbind_Inr_iff validate_plan_ok split: if_split_asm)

lemma invocation_json_pget:
  obtains ob where "invocation_json i = JObj ob"
    "pget ob ''protocol_version'' = Some (JNum 2)" "pget ob ''kind'' = Some (JStr ''round'')"
    "pget ob ''task_id'' = Some (JStr (li_task_id i))" "pget ob ''role'' = Some (JStr (li_role i))"
    "pget ob ''fresh'' = Some (JBool (li_fresh i))" "pget ob ''via'' = Some (JStr (via_name (li_via i)))"
    "pget ob ''base_version'' = Some (JNum (of_nat (li_base_version i)))"
    "pget ob ''hub_url'' = Some (JStr (li_hub_url i))" "pget ob ''route'' = Some (command_json (li_route i))"
    "pget ob ''route_source'' = Some (JStr (li_route_source i))" "pget ob ''context'' = Some (context_json (li_context i))"
    "pget ob ''naming'' = Some (naming_json (li_naming i))" "pget ob ''prompt'' = Some (JStr (li_prompt i))"
    "pget ob ''posix_direct'' = map_option plan_json (li_posix_direct i)"
    "pget ob ''resolved_target'' = map_option target_json (li_resolved_target i)"
    "pget ob ''effective_agent'' = map_option plan_json (li_effective_agent i)"
    "pget ob ''marker_projection'' = map_option projection_json (li_marker i)"
  unfolding invocation_json_def by (auto simp: pget_append pget_opt_field split: option.splits)

lemma validate_naming_json:
  "clean_string (ln_tab_label n) \<Longrightarrow> clean_string (ln_pane_label n) \<Longrightarrow> validate_naming (Some (naming_json n)) = Inr n"
  by (simp add: validate_naming_def naming_json_def clean_accepted)

lemma validate_naming_ok:
  "validate_naming v = Inr n \<Longrightarrow> clean_string (ln_tab_label n) \<and> clean_string (ln_pane_label n)"
  by (auto simp: validate_naming_def rbind_Inr_iff assertNonEmptyString_Inr)

text \<open>An invocation as it arrives at the child.\<close>

definition sent :: "launch_invocation \<Rightarrow> launch_invocation" where
  "sent i = i\<lparr>li_posix_direct := map_option sent_plan (li_posix_direct i),
     li_effective_agent := map_option sent_plan (li_effective_agent i)\<rparr>"

lemma sent_fields: "\<lparr>li_task_id = li_task_id i, li_role = li_role i, li_fresh = li_fresh i, li_via = li_via i,
      li_base_version = li_base_version i, li_hub_url = li_hub_url i, li_route = li_route i,
      li_route_source = li_route_source i, li_context = li_context i, li_naming = li_naming i,
      li_prompt = li_prompt i, li_posix_direct = map_option sent_plan (li_posix_direct i), li_resolved_target = li_resolved_target i,
      li_effective_agent = map_option sent_plan (li_effective_agent i), li_marker = li_marker i\<rparr> = sent i"
  by (simp add: sent_def)

lemma validateLaunchInvocation_json:
  assumes "invocation_ok i"
  shows "validateLaunchInvocation dg (invocation_json i) =
    (if marker_agrees dg (sent i) then Inr (sent i) else Inl ''marker projection'')"
proof -
  have posix: "opt_check (validate_posix (li_route i)) (map_option plan_json (li_posix_direct i)) =
      Inr (map_option sent_plan (li_posix_direct i))"
    using assms(1) by (intro opt_check_map validate_posix_json) (auto simp: invocation_ok_def posix_matches_def)
  have target: "opt_check validate_target (map_option target_json (li_resolved_target i)) = Inr (li_resolved_target i)"
    using assms(1) opt_check_map [of _ _ _ "\<lambda>x. x", OF validate_target_json] by (simp add: invocation_ok_def option.map_ident)
  have effective: "opt_check validate_plan (map_option plan_json (li_effective_agent i)) =
      Inr (map_option sent_plan (li_effective_agent i))"
    using assms(1) by (intro opt_check_map validate_plan_json) (auto simp: invocation_ok_def)
  have marker: "opt_check validateInvocationMarker (map_option projection_json (li_marker i)) = Inr (li_marker i)"
    using assms(1) opt_check_map [of _ _ _ "\<lambda>x. x", OF validateInvocationMarker_json] by (simp add: invocation_ok_def option.map_ident)
  obtain ob where ob: "invocation_json i = JObj ob"
    "pget ob ''protocol_version'' = Some (JNum 2)" "pget ob ''kind'' = Some (JStr ''round'')"
    "pget ob ''task_id'' = Some (JStr (li_task_id i))" "pget ob ''role'' = Some (JStr (li_role i))"
    "pget ob ''fresh'' = Some (JBool (li_fresh i))" "pget ob ''via'' = Some (JStr (via_name (li_via i)))"
    "pget ob ''base_version'' = Some (JNum (of_nat (li_base_version i)))"
    "pget ob ''hub_url'' = Some (JStr (li_hub_url i))" "pget ob ''route'' = Some (command_json (li_route i))"
    "pget ob ''route_source'' = Some (JStr (li_route_source i))" "pget ob ''context'' = Some (context_json (li_context i))"
    "pget ob ''naming'' = Some (naming_json (li_naming i))" "pget ob ''prompt'' = Some (JStr (li_prompt i))"
    "pget ob ''posix_direct'' = map_option plan_json (li_posix_direct i)"
    "pget ob ''resolved_target'' = map_option target_json (li_resolved_target i)"
    "pget ob ''effective_agent'' = map_option plan_json (li_effective_agent i)"
    "pget ob ''marker_projection'' = map_option projection_json (li_marker i)"
    by (rule invocation_json_pget)
  show ?thesis
    using assms
    by (simp add: validateLaunchInvocation_def ob posix target effective marker clean_accepted version_accepted
        source_accepted via_accepted route_accepted guard_def need_bool_def validateExecutionContext_json
        validate_naming_json invocation_ok_def Let_def sent_fields)
qed

lemma validateLaunchInvocation_ok:
  assumes "validateLaunchInvocation dg v = Inr i"
  shows "invocation_ok i \<and> marker_agrees dg i"
proof -
  from assms obtain raw route posix resolved effective marker where
    r: "as_route_error (validateAgentRoute (pget raw ''route'')) = Inr route" "li_route i = command_of route"
    and p: "opt_check (validate_posix (li_route i)) (pget raw ''posix_direct'') = Inr (li_posix_direct i)"
    and t: "opt_check validate_target (pget raw ''resolved_target'') = Inr (li_resolved_target i)"
    and e: "opt_check validate_plan (pget raw ''effective_agent'') = Inr (li_effective_agent i)"
    and m: "opt_check validateInvocationMarker (pget raw ''marker_projection'') = Inr (li_marker i)"
    and c: "validateExecutionContext (pget raw ''context'') = Inr (li_context i)"
    and n: "validate_naming (pget raw ''naming'') = Inr (li_naming i)"
    and s: "clean_string (li_task_id i)" "clean_string (li_role i)" "clean_string (li_hub_url i)"
      "clean_string (li_prompt i)" "li_route_source i \<in> set ROUTE_SOURCES" "li_base_version i \<le> MAX_SAFE_INTEGER"
    and agrees: "marker_agrees dg i"
    by (clarsimp simp: validateLaunchInvocation_def rbind_Inr_iff assertNonEmptyString_Inr assertFiniteVersion_Inr
        assertRouteSource_Inr Let_def split: if_split_asm)
  have "list_all SHELL_NEUTRAL_TOKEN (ac_agent (li_route i) # ac_args (li_route i))"
    using r command_of_tokens by (simp add: route_accepted_iff)
  moreover have "posix_matches (li_posix_direct i) (li_route i)"
    using p by (auto simp: posix_matches_def opt_check_Inr dest: validate_posix_ok split: option.splits)
  moreover have "plan_ok x" if "li_posix_direct i = Some x \<or> li_effective_agent i = Some x" for x
    using that p e by (auto simp: opt_check_Inr dest: validate_posix_ok validate_plan_ok)
  moreover have "target_ok x" if "li_resolved_target i = Some x" for x
    using that t by (auto simp: opt_check_Inr dest: validate_target_ok)
  moreover have "marker_ok x" if "li_marker i = Some x" for x
    using that m by (auto simp: opt_check_Inr dest: validateInvocationMarker_ok)
  moreover have "clean_string (ln_tab_label (li_naming i))" "clean_string (ln_pane_label (li_naming i))"
    using validate_naming_ok [OF n] by simp_all
  ultimately show ?thesis
    using s agrees validateExecutionContext_ok [OF c] unfolding invocation_ok_def by blast
qed

section \<open>Canonical routes\<close>

lemma escape_neutral: "neutral_char c \<Longrightarrow> escape_char c = [c]"
  by (auto simp: neutral_char_def escape_char_def Let_def)

lemma json_string_neutral: "SHELL_NEUTRAL_TOKEN t \<Longrightarrow> json_string t = quote_char # t @ [quote_char]"
proof -
  assume "SHELL_NEUTRAL_TOKEN t"
  then have "map escape_char t = map (\<lambda>c. [c]) t"
    by (intro map_cong refl) (auto simp: SHELL_NEUTRAL_TOKEN_def list_all_iff intro: escape_neutral)
  then have "concat (map escape_char t) = t"
    by (simp only: concat_map_singleton) simp
  then show ?thesis by (simp add: json_string_def)
qed

lemma quote_not_neutral: "SHELL_NEUTRAL_TOKEN t \<Longrightarrow> quote_char \<notin> set t"
proof -
  have "\<not> neutral_char quote_char"
    by (simp add: neutral_char_def quote_char_def Let_def)
  then show "SHELL_NEUTRAL_TOKEN t \<Longrightarrow> quote_char \<notin> set t"
    by (auto simp: SHELL_NEUTRAL_TOKEN_def list_all_iff)
qed

lemma cut_at_quote:
  "q \<notin> set a \<Longrightarrow> q \<notin> set b \<Longrightarrow> a @ q # r = b @ q # s \<Longrightarrow> a = b \<and> r = s"
proof (induction a arbitrary: b)
  case Nil
  then show ?case by (cases b) auto
next
  case (Cons x a)
  then show ?case by (cases b) auto
qed

lemma quoted_prefix:
  assumes "SHELL_NEUTRAL_TOKEN t" and "SHELL_NEUTRAL_TOKEN u" and "json_string t @ r = json_string u @ s"
  shows "t = u \<and> r = s"
  using cut_at_quote [OF quote_not_neutral [OF assms(1)] quote_not_neutral [OF assms(2)], of r s] assms
  by (simp add: json_string_neutral)

lemma quoted_join:
  assumes "list_all SHELL_NEUTRAL_TOKEN ts" and "list_all SHELL_NEUTRAL_TOKEN us"
    and "join_with '','' (map json_string ts) = join_with '','' (map json_string us)"
  shows "ts = us"
  using assms
proof (induction ts arbitrary: us)
  case Nil
  then show ?case by (cases us; cases "tl us") (auto simp: json_string_def)
next
  case (Cons t ts)
  obtain u us' where us: "us = u # us'"
    using Cons.prems(3) by (cases us; cases ts) (auto simp: json_string_def)
  have split: "join_with '','' (map json_string (x # xs)) =
      json_string x @ (if xs = [] then [] else CHR '','' # join_with '','' (map json_string xs))" for x xs
    by (cases xs) simp_all
  have tok: "SHELL_NEUTRAL_TOKEN t" "SHELL_NEUTRAL_TOKEN u"
    using Cons.prems(1,2) us by simp_all
  have "t = u \<and> (if ts = [] then [] else CHR '','' # join_with '','' (map json_string ts)) =
      (if us' = [] then [] else CHR '','' # join_with '','' (map json_string us'))"
    using Cons.prems(3) unfolding us split by (rule quoted_prefix [OF tok])
  moreover have "ts = us'" if "join_with '','' (map json_string ts) = join_with '','' (map json_string us')"
    using Cons.IH [of us'] Cons.prems(1,2) that us by simp
  ultimately show ?case by (auto simp: us split: if_split_asm)
qed

lemma canonicalJson_command:
  "canonicalJson dg (command_json c) =
     ''{'' @ json_string ''agent'' @ '':'' @ json_string (ac_agent c) @ '','' @ json_string ''args'' @ '':'' @ ''['' @
       join_with '','' (map json_string (ac_args c)) @ '']}''"
proof -
  have "canonicalJson dg \<circ> JStr = json_string"
    by (rule ext) simp
  then show ?thesis by (simp add: command_json_def)
qed

lemma canonical_route_inj:
  assumes "list_all SHELL_NEUTRAL_TOKEN (ac_agent a # ac_args a)" and "list_all SHELL_NEUTRAL_TOKEN (ac_agent b # ac_args b)"
    and "canonicalJson dg (command_json a) = canonicalJson dg (command_json b)"
  shows "a = b"
proof -
  have "ac_agent a = ac_agent b \<and>
      '','' @ json_string ''args'' @ '':'' @ ''['' @ join_with '','' (map json_string (ac_args a)) @ '']}'' =
      '','' @ json_string ''args'' @ '':'' @ ''['' @ join_with '','' (map json_string (ac_args b)) @ '']}''"
    using assms unfolding canonicalJson_command by (intro quoted_prefix) simp_all
  moreover from this have "ac_args a = ac_args b"
    using assms(1,2) by (intro quoted_join) simp_all
  ultimately show ?thesis by simp
qed

section \<open>Properties\<close>

lemma kind_clean: "clean_string (target_kind_of r)"
  by (cases r; cases "rt_kind (the r)")
    (simp_all add: target_kind_of_def kind_name_def clean_string_def has_control_def)

lemma placeholder_ok: "context_ok PLACEHOLDER_CONTEXT"
  by (simp add: context_ok_def PLACEHOLDER_CONTEXT_def clean_string_def has_control_def CONTEXT_SOURCES_def
      checkout_ref_ok_def)

lemma digest_clean: "\<not> has_control (dg_hash dg s) \<Longrightarrow> targetDigest dg v = ''sha256:'' @ dg_hash dg s \<Longrightarrow> clean_string (targetDigest dg v)"
  by (simp add: clean_string_def has_control_def)

lemma build_invocation_ok:
  assumes "buildLaunchInvocation dg bo = Inr i"
    and "\<And>c. bo_context bo = Some c \<Longrightarrow> context_ok c" and "\<And>t. bo_resolved_target bo = Some t \<Longrightarrow> target_ok t"
    and "\<And>s. \<not> has_control (dg_hash dg s)"
  shows "invocation_ok i \<and> marker_agrees dg i"
proof -
  from assms(1) have
    s: "clean_string (li_task_id i)" "clean_string (li_role i)" "clean_string (li_hub_url i)" "clean_string (li_prompt i)"
      "li_base_version i \<le> MAX_SAFE_INTEGER" "li_route_source i \<in> set ROUTE_SOURCES"
      "clean_string (ln_tab_label (li_naming i))" "clean_string (ln_pane_label (li_naming i))"
    and route: "cloneRoute (bo_route bo) = Inr (li_route i)"
    and posix: "clone_opt (bo_posix_direct bo) = Inr (li_posix_direct i)" "posix_matches (li_posix_direct i) (li_route i)"
    and effective: "clone_opt (bo_effective_agent bo) = Inr (li_effective_agent i)"
    and resolved: "li_resolved_target i = bo_resolved_target bo"
    and ctxt: "li_context i = (case bo_context bo of None \<Rightarrow> PLACEHOLDER_CONTEXT | Some c \<Rightarrow> c)"
    and marker: "invocation_marker dg bo (li_route i) (li_posix_direct i) (li_effective_agent i) = Inr (li_marker i)"
    and ids: "li_via i = lr_via (bo_request bo)" "li_role i = lr_role (bo_request bo)"
      "li_base_version i = bo_base_version bo" "li_route_source i = bo_route_source bo"
    by (clarsimp simp: buildLaunchInvocation_def Let_def rbind_Inr_iff assertRouteSource_Inr)+
  note tokens = cloneRoute_tokens [OF route]
  have plans: "plan_ok x" if "li_posix_direct i = Some x \<or> li_effective_agent i = Some x" for x
    using that clone_opt_Inr [OF posix(1)] clone_opt_Inr [OF effective] by auto
  have m: "marker_ok x \<and> lr_via (bo_request bo) \<noteq> Legacy \<and> mp_via x = li_via i \<and> mp_role x = li_role i \<and>
      mp_base_version x = li_base_version i \<and> mp_route x = li_route i \<and> mp_route_source x = li_route_source i \<and>
      mp_target_kind x = target_kind_of (li_resolved_target i) \<and>
      mp_target_digest x = targetDigest dg (privateExecutionInputOf (li_route i) (li_posix_direct i)
            (li_resolved_target i) (li_effective_agent i))" if "li_marker i = Some x" for x
  proof -
    from marker that have "lr_via (bo_request bo) \<noteq> Legacy" "buildMarkerProjection dg (bo\<lparr>bo_route := Command (li_route i),
        bo_posix_direct := li_posix_direct i, bo_effective_agent := li_effective_agent i\<rparr>) = Inr x"
      by (auto simp: invocation_marker_def rbind_Inr_iff split: if_split_asm)
    then show ?thesis
      using cloneRoute_again [OF tokens] clone_opt_again [OF posix(1)] clone_opt_again [OF effective] s ids tokens
        resolved assms(4) kind_clean
      by (auto simp: buildMarkerProjection_def rbind_Inr_iff marker_ok_def assertRouteSource_Inr clean_string_def
          targetDigest_def has_control_def)
  qed
  have "marker_agrees dg i"
  proof (cases "li_marker i")
    case None
    with marker ids(1) show ?thesis
      by (auto simp: marker_agrees_def invocation_marker_def rbind_Inr_iff split: if_split_asm)
  next
    case (Some x)
    with m [OF Some] ids(1) show ?thesis by (simp add: marker_agrees_def)
  qed
  moreover have "context_ok (li_context i)"
    using ctxt placeholder_ok assms(2) by (auto split: option.split)
  moreover have "target_ok x" if "li_resolved_target i = Some x" for x
    using that resolved assms(3) by simp
  moreover have "marker_ok x" if "li_marker i = Some x" for x
    using m [OF that] by simp
  ultimately show ?thesis
    using s tokens posix(2) plans unfolding invocation_ok_def by blast
qed

definition proto_free :: "launch_invocation \<Rightarrow> bool" where
  "proto_free i \<longleftrightarrow> (\<forall>p. li_posix_direct i = Some p \<or> li_effective_agent i = Some p \<longrightarrow> ''__proto__'' \<notin> fst ` set (xp_env p))"

lemma assigned_eq_iff: "assigned es = es \<longleftrightarrow> ''__proto__'' \<notin> fst ` set es"
  by (force simp: assigned_def filter_id_conv)

lemma sent_plan_eq_iff: "sent_plan p = p \<longleftrightarrow> ''__proto__'' \<notin> fst ` set (xp_env p)"
  by (cases p) (simp add: sent_plan_def assigned_eq_iff)

lemma sent_eq_iff: "sent i = i \<longleftrightarrow> proto_free i"
proof -
  have "sent i = i \<longleftrightarrow> map_option sent_plan (li_posix_direct i) = li_posix_direct i \<and>
      map_option sent_plan (li_effective_agent i) = li_effective_agent i"
    by (cases i) (simp add: sent_def)
  also have "\<dots> \<longleftrightarrow> proto_free i"
    by (cases "li_posix_direct i"; cases "li_effective_agent i") (auto simp: proto_free_def sent_plan_eq_iff)
  finally show ?thesis .
qed

lemma sent_legacy: "marker_agrees dg i \<Longrightarrow> li_via i = Legacy \<Longrightarrow> marker_agrees dg (sent i)"
  by (auto simp: marker_agrees_def sent_def split: option.splits)

text \<open>C35. What the planner builds crosses the process boundary unchanged: an invocation built by
  \<open>buildLaunchInvocation\<close> serialises, and the child that parses and validates the text gets the same
  invocation.  The one exception is a plan whose environment has a variable named \<open>__proto__\<close>, which the
  planner accepts and the copy at the boundary loses: the child of a legacy launch gets the invocation
  without the variable, a marked launch is refused before it is sent, since the digest in the marker was
  taken with the variable, unless the digest is the same without it.  The caller's execution context and
  resolved target are copied without a check, so they are assumed to have the shape the child demands; the
  digest function is assumed to print no control characters (it prints hexadecimal), and parsing what
  was printed to give the value back.\<close>

theorem invocation_roundtrip:
  assumes "buildLaunchInvocation dg bo = Inr i"
    and "\<And>c. bo_context bo = Some c \<Longrightarrow> context_ok c" and "\<And>t. bo_resolved_target bo = Some t \<Longrightarrow> target_ok t"
    and "\<And>s. \<not> has_control (dg_hash dg s)"
    and "parse txt = Some (invocation_json i)"
  shows "(proto_free i \<longrightarrow>
      serializeLaunchInvocation dg i = Inr (invocation_json i) \<and> deserializeLaunchInvocation parse dg txt = Inr i) \<and>
    (\<not> proto_free i \<longrightarrow> sent i \<noteq> i \<and>
      (if li_via i = Legacy \<or> marker_agrees dg (sent i)
       then serializeLaunchInvocation dg i = Inr (invocation_json i) \<and> deserializeLaunchInvocation parse dg txt = Inr (sent i)
       else serializeLaunchInvocation dg i = Inl ''marker projection'' \<and>
         deserializeLaunchInvocation parse dg txt = Inl ''marker projection''))"
proof -
  have ok: "invocation_ok i" "marker_agrees dg i"
    using build_invocation_ok [OF assms(1-4)] by simp_all
  have v: "validateLaunchInvocation dg (invocation_json i) = (if marker_agrees dg (sent i) then Inr (sent i) else Inl ''marker projection'')"
    by (rule validateLaunchInvocation_json [OF ok(1)])
  have l: "li_via i = Legacy \<or> marker_agrees dg (sent i) \<longleftrightarrow> marker_agrees dg (sent i)"
    using sent_legacy [OF ok(2)] by blast
  show ?thesis
    using ok(2) unfolding l
    by (simp add: serializeLaunchInvocation_def deserializeLaunchInvocation_def assms(5) v sent_eq_iff)
      (metis sent_eq_iff)
qed

text \<open>C36. A child runs only what its marker fixes.  Every invocation the validator accepts has a route
  of shell-neutral words, starts exactly that executable, carries a marker unless it is a legacy
  launch, and the marker names its role, base version, door, route and the digest of its own plan;
  such a marker is never refused when it is written.\<close>

theorem accepted_invocation_matches_marker:
  assumes "validateLaunchInvocation dg v = Inr i"
  shows "list_all SHELL_NEUTRAL_TOKEN (ac_agent (li_route i) # ac_args (li_route i)) \<and>
    (\<forall>p. li_posix_direct i = Some p \<longrightarrow> xp_executable p = ac_agent (li_route i)) \<and>
    (li_marker i = None \<longleftrightarrow> li_via i = Legacy) \<and>
    (\<forall>m. li_marker i = Some m \<longrightarrow>
       mp_role m = li_role i \<and> mp_base_version m = li_base_version i \<and> mp_via m = li_via i \<and>
       mp_route m = li_route i \<and> mp_route_source m = li_route_source i \<and>
       mp_target_digest m = targetDigest dg (privateExecutionInputOf (li_route i) (li_posix_direct i)
         (li_resolved_target i) (li_effective_agent i)) \<and>
       markLaunched publish t (li_role i) (li_base_version i) (li_via i) (Some m) \<noteq> None)"
proof -
  have ok: "invocation_ok i" "marker_agrees dg i"
    using validateLaunchInvocation_ok [OF assms] by simp_all
  have route: "mp_route m = li_route i" if "li_marker i = Some m" for m
    using ok that canonical_route_inj [of "mp_route m" "li_route i" dg]
    by (simp add: marker_agrees_def invocation_ok_def marker_ok_def)
  have "\<forall>p. li_posix_direct i = Some p \<longrightarrow> xp_executable p = ac_agent (li_route i)"
    using ok(1) by (auto simp: invocation_ok_def posix_matches_def)
  moreover have "li_marker i = None \<longleftrightarrow> li_via i = Legacy"
    using ok(2) by (auto simp: marker_agrees_def split: option.split_asm)
  ultimately show ?thesis
    using ok route by (auto simp: marker_agrees_def markLaunched_def invocation_ok_def)
qed

definition sample_digester :: digester where
  "sample_digester = \<lparr>dg_hash = (\<lambda>_. ''0''), dg_num = (\<lambda>_. [])\<rparr>"

definition sample_options :: build_options where
  "sample_options = \<lparr>bo_request = \<lparr>lr_kind = ''round'', lr_task_id = ''t'', lr_role = ''executor'', lr_fresh = True,
       lr_via = Auto, lr_explicit = None\<rparr>, bo_base_version = 3, bo_hub_url = ''u'',
     bo_route = Command \<lparr>ac_agent = ''pi'', ac_args = [''-x'']\<rparr>, bo_route_source = ''task-cast'', bo_context = None,
     bo_naming = None, bo_prompt = Some ''p'', bo_posix_direct = None, bo_resolved_target = None,
     bo_effective_agent = None\<rparr>"

lemma sample_options_build: "\<exists>i. buildLaunchInvocation sample_digester sample_options = Inr i \<and> li_role i = ''executor'' \<and> li_marker i \<noteq> None \<and>
    li_posix_direct i = None \<and> li_effective_agent i = None"
proof -
  have "cloneRoute (Command \<lparr>ac_agent = ''pi'', ac_args = [''-x'']\<rparr>) = Inr \<lparr>ac_agent = ''pi'', ac_args = [''-x'']\<rparr>"
    by (rule cloneRoute_again) (simp add: SHELL_NEUTRAL_TOKEN_def neutral_char_def)
  then show ?thesis
    by (simp add: buildLaunchInvocation_def sample_options_def clean_string_def has_control_def MAX_SAFE_INTEGER_def
        clone_opt_def posix_matches_def assertRouteSource_def ROUTE_SOURCES_def PLACEHOLDER_NAMING_def
        invocation_marker_def buildMarkerProjection_def guard_def)
qed

lemma sample_digester_clean: "\<not> has_control (dg_hash sample_digester s)"
  by (simp add: sample_digester_def has_control_def)

text \<open>A marked launch, and a legacy launch with the variable that is lost.\<close>

definition proto_options :: build_options where
  "proto_options = sample_options\<lparr>bo_request := (bo_request sample_options)\<lparr>lr_via := Legacy\<rparr>,
     bo_posix_direct := Some \<lparr>xp_executable = ''pi'', xp_args = [''-x''], xp_env = [(''__proto__'', ''x''), (''A'', ''b'')]\<rparr>\<rparr>"

lemma proto_options_build:
  "\<exists>i. buildLaunchInvocation sample_digester proto_options = Inr i \<and> li_via i = Legacy \<and>
     li_posix_direct i = Some \<lparr>xp_executable = ''pi'', xp_args = [''-x''], xp_env = [(''__proto__'', ''x''), (''A'', ''b'')]\<rparr>"
proof -
  have "cloneRoute (Command \<lparr>ac_agent = ''pi'', ac_args = [''-x'']\<rparr>) = Inr \<lparr>ac_agent = ''pi'', ac_args = [''-x'']\<rparr>"
    by (rule cloneRoute_again) (simp add: SHELL_NEUTRAL_TOKEN_def neutral_char_def)
  then show ?thesis
    by (simp add: buildLaunchInvocation_def proto_options_def sample_options_def clean_string_def has_control_def MAX_SAFE_INTEGER_def
        clone_opt_def clonePlan_def posix_matches_def assertRouteSource_def ROUTE_SOURCES_def PLACEHOLDER_NAMING_def
        invocation_marker_def guard_def)
qed

theorem invocation_roundtrip_witness:
  "(\<exists>i. buildLaunchInvocation sample_digester sample_options = Inr i \<and>
     deserializeLaunchInvocation (\<lambda>_. Some (invocation_json i)) sample_digester ''{}'' = Inr i) \<and>
   (\<exists>i j. buildLaunchInvocation sample_digester proto_options = Inr i \<and>
     deserializeLaunchInvocation (\<lambda>_. Some (invocation_json i)) sample_digester ''{}'' = Inr j \<and>
     map_option xp_env (li_posix_direct j) = Some [(''A'', ''b'')])"
proof
  obtain i where i: "buildLaunchInvocation sample_digester sample_options = Inr i" "li_posix_direct i = None" "li_effective_agent i = None"
    using sample_options_build by blast
  have "bo_context sample_options = None" "bo_resolved_target sample_options = None" "proto_free i"
    using i(2,3) by (simp_all add: sample_options_def proto_free_def)
  with invocation_roundtrip [OF i(1) _ _ sample_digester_clean, of "\<lambda>_. Some (invocation_json i)"] i(1)
  show "\<exists>i. buildLaunchInvocation sample_digester sample_options = Inr i \<and>
     deserializeLaunchInvocation (\<lambda>_. Some (invocation_json i)) sample_digester ''{}'' = Inr i" by auto
next
  obtain i where i: "buildLaunchInvocation sample_digester proto_options = Inr i" "li_via i = Legacy"
    "li_posix_direct i = Some \<lparr>xp_executable = ''pi'', xp_args = [''-x''], xp_env = [(''__proto__'', ''x''), (''A'', ''b'')]\<rparr>"
    using proto_options_build by blast
  have "bo_context proto_options = None" "bo_resolved_target proto_options = None"
    by (simp_all add: proto_options_def sample_options_def)
  moreover have "\<not> proto_free i" using i(3) by (auto simp: proto_free_def)
  ultimately have "deserializeLaunchInvocation (\<lambda>_. Some (invocation_json i)) sample_digester ''{}'' = Inr (sent i)"
    using invocation_roundtrip [OF i(1) _ _ sample_digester_clean, of "\<lambda>_. Some (invocation_json i)" "''{}''"] i(2) by auto
  moreover have "map_option xp_env (li_posix_direct (sent i)) = Some [(''A'', ''b'')]"
    by (simp add: sent_def i(3) sent_plan_def assigned_def)
  ultimately show "\<exists>i j. buildLaunchInvocation sample_digester proto_options = Inr i \<and>
     deserializeLaunchInvocation (\<lambda>_. Some (invocation_json i)) sample_digester ''{}'' = Inr j \<and>
     map_option xp_env (li_posix_direct j) = Some [(''A'', ''b'')]" using i(1) by blast
qed

theorem accepted_invocation_matches_marker_witness:
  "\<exists>i m. validateLaunchInvocation sample_digester (invocation_json i) = Inr i \<and> li_marker i = Some m \<and>
     mp_role m = ''executor'' \<and> mp_route m = li_route i"
proof -
  obtain i where i: "buildLaunchInvocation sample_digester sample_options = Inr i" "li_role i = ''executor''" "li_marker i \<noteq> None"
    "li_posix_direct i = None" "li_effective_agent i = None"
    using sample_options_build by blast
  have "bo_context sample_options = None" "bo_resolved_target sample_options = None"
    by (simp_all add: sample_options_def)
  then have "invocation_ok i \<and> marker_agrees sample_digester i"
    using build_invocation_ok [OF i(1) _ _ sample_digester_clean] by simp
  then have v: "validateLaunchInvocation sample_digester (invocation_json i) = Inr i"
    using validateLaunchInvocation_json [of i sample_digester] i(4,5) sent_eq_iff [of i] by (simp add: proto_free_def)
  from accepted_invocation_matches_marker [OF v, of "\<lambda>_ _. ()" "[]"] v i(2,3) show ?thesis by auto
qed

end
