(* ===== verification/Detached_Lane.thy ===== *)
theory Detached_Lane
  imports Launch
begin

text \<open>
  The memory of the detached lane, \<open>src/standalone/notifier/detached-lane.ts\<close>: which human wakes were
  observed online, which tasks a human stopped, and which candidates wait for a running agent to
  finish; and the two decisions of \<open>src/standalone/launcher-headless/plan.ts\<close> it relies on, the launch
  generation of a log and the session an agent continues.  The operations that talk to the Hub or
  start runs are in \<open>Engine\<close>.  \<open>Date.parse\<close> is an argument (\<open>None\<close>: not a date, which compares as
  \<open>NaN\<close>).
\<close>

section \<open>Generations\<close>

definition humanInstruction :: "context_record \<Rightarrow> bool" where
  "humanInstruction r \<longleftrightarrow>
     rec_role r = ''human'' \<and> rec_content_type r = ''note'' \<and> \<not> is_ack r \<and> pget (rec_payload r) ''launch'' = None"

record generation =
  gn_blocked :: bool
  gn_trigger :: nat
  gn_marker :: "nat option"

definition generation_step :: "string \<Rightarrow> nat \<Rightarrow> nat \<times> nat option \<Rightarrow> context_record \<Rightarrow> nat \<times> nat option" where
  "generation_step role online s r =
     (case s of (trigger, marker) \<Rightarrow>
      let trigger = (if rec_content_type r \<noteq> ''note'' then max trigger (rec_version r) else trigger);
          trigger = (if rec_version r = online \<and> humanInstruction r then max trigger (rec_version r) else trigger);
          launch = (if rec_content_type r = ''note'' then pget (rec_payload r) ''launch'' else None)
      in (trigger,
          if (case launch of None \<Rightarrow> False | Some l \<Rightarrow> jget l ''role'' = Some (JStr role))
          then Some (max (case marker of None \<Rightarrow> 0 | Some m \<Rightarrow> m) (rec_version r)) else marker))"

definition online_wake :: "context_record list \<Rightarrow> nat \<Rightarrow> nat option" where
  "online_wake records online =
     (if list_ex (\<lambda>r. rec_version r = online \<and> humanInstruction r) records then Some online else None)"

definition headlessGeneration :: "context_record list \<Rightarrow> string \<Rightarrow> nat \<Rightarrow> generation" where
  "headlessGeneration records role online =
     (case foldl (generation_step role online) (0, None) records of (trigger, marker) \<Rightarrow>
      \<lparr>gn_blocked = (launchBlocked records role (online_wake records online) \<noteq> Fresh),
       gn_trigger = trigger, gn_marker = marker\<rparr>)"

section \<open>Session continuity\<close>

record run_view =
  rv_run_id :: string
  rv_task_id :: string
  rv_started_at :: string
  rv_ended_at :: "string option"
  rv_cwd :: string
  rv_stop :: "bool option option"
  rv_role :: "string option"
  rv_route :: agent_command
  rv_agent_session_id :: "string option"
  rv_designated :: "string option"

text \<open>
  \<open>rv_stop\<close> is the stop request with the success of its result; \<open>rv_role\<close> is \<open>None\<close> for a run that is
  not headless.  The newest run sorts first (\<open>started_at\<close> is ISO text); \<open>newer\<close> is the comparison.
\<close>

datatype session_reason =
    Role_continuity_disabled
  | No_previous_run
  | Completion_unconfirmed
  | Route_changed
  | Identity_unavailable
  | Resume_exact

record session_choice =
  sc_id :: "string option"
  sc_run :: "string option"
  sc_reason :: session_reason

definition fresh_session :: "session_reason \<Rightarrow> session_choice" where
  "fresh_session r = \<lparr>sc_id = None, sc_run = None, sc_reason = r\<rparr>"

definition newest_run :: "(string \<Rightarrow> string \<Rightarrow> bool) \<Rightarrow> run_view list \<Rightarrow> run_view option" where
  "newest_run newer runs =
     foldl (\<lambda>best m. case best of None \<Rightarrow> Some m
                     | Some b \<Rightarrow> if newer (rv_started_at m) (rv_started_at b) then Some m else Some b) None runs"

definition previousSession ::
    "(string \<Rightarrow> string \<Rightarrow> bool) \<Rightarrow> run_view list \<Rightarrow> string \<Rightarrow> string \<Rightarrow> agent_command \<Rightarrow> string \<Rightarrow> string list \<Rightarrow> string \<Rightarrow> session_choice" where
  "previousSession newer runs task role route checkout continuity agent =
     (if role = ''architect'' \<or> role \<notin> set continuity then fresh_session Role_continuity_disabled
      else (case newest_run newer (filter (\<lambda>m. rv_task_id m = task \<and> rv_role m = Some role) runs) of
              None \<Rightarrow> fresh_session No_previous_run
            | Some m \<Rightarrow>
                if (case rv_ended_at m of None \<Rightarrow> True | Some s \<Rightarrow> s = []) \<or> (case rv_stop m of None \<Rightarrow> False | Some r \<Rightarrow> r \<noteq> Some True)
                then fresh_session Completion_unconfirmed
                else if rv_cwd m \<noteq> checkout \<or> rv_route m \<noteq> route then fresh_session Route_changed
                else (case (if agent = ''codex'' then rv_agent_session_id m else rv_designated m) of
                        Some i \<Rightarrow> if i = [] then fresh_session Identity_unavailable
                                  else \<lparr>sc_id = Some i, sc_run = Some (rv_run_id m), sc_reason = Resume_exact\<rparr>
                      | None \<Rightarrow> fresh_session Identity_unavailable)))"

section \<open>The memory of the lane\<close>

record lane =
  ln_human :: "string \<Rightarrow> nat option"
  ln_stop :: "string \<Rightarrow> int option option"
  ln_pending :: "string \<Rightarrow> (string \<times> nat) option"
  ln_delivery :: "string \<Rightarrow> (nat \<times> nat) option"
  ln_armed :: bool

definition fresh_lane :: lane where
  "fresh_lane = \<lparr>ln_human = (\<lambda>_. None), ln_stop = (\<lambda>_. None), ln_pending = (\<lambda>_. None), ln_delivery = (\<lambda>_. None),
     ln_armed = True\<rparr>"

definition forget :: "'a set \<Rightarrow> ('a \<Rightarrow> 'b option) \<Rightarrow> 'a \<Rightarrow> 'b option" where
  "forget gone m = (\<lambda>t. if t \<in> gone then None else m t)"

definition keep_only :: "'a set \<Rightarrow> ('a \<Rightarrow> 'b option) \<Rightarrow> 'a \<Rightarrow> 'b option" where
  "keep_only present m = (\<lambda>t. if t \<in> present then m t else None)"

text \<open>\<open>observe\<close>: the stops that the run observation reported.\<close>

definition observe_stop :: "(string \<Rightarrow> int option) \<Rightarrow> lane \<Rightarrow> string \<times> string \<Rightarrow> lane" where
  "observe_stop date l stop =
     (case stop of (t, requested_at) \<Rightarrow>
      l\<lparr>ln_pending := (ln_pending l)(t := None), ln_human := (ln_human l)(t := None),
        ln_stop := (ln_stop l)(t \<mapsto> date requested_at)\<rparr>)"

definition observe_stops :: "(string \<Rightarrow> int option) \<Rightarrow> (string \<times> string) list \<Rightarrow> lane \<Rightarrow> lane" where
  "observe_stops date stops l = foldl (observe_stop date) l stops"

definition lane_reconcilePresence :: "string set \<Rightarrow> lane \<Rightarrow> lane" where
  "lane_reconcilePresence present l =
     l\<lparr>ln_human := keep_only present (ln_human l), ln_pending := keep_only present (ln_pending l),
       ln_stop := keep_only present (ln_stop l)\<rparr>"

definition after_stop :: "(string \<Rightarrow> int option) \<Rightarrow> int option option \<Rightarrow> context_record \<Rightarrow> bool" where
  "after_stop date boundary r =
     (case boundary of
        None \<Rightarrow> True
      | Some b \<Rightarrow> (case (date (rec_timestamp r), b) of (Some moment, Some stop) \<Rightarrow> stop \<le> moment | _ \<Rightarrow> False))"

definition human_version :: "(string \<Rightarrow> int option) \<Rightarrow> int option option \<Rightarrow> context_record list \<Rightarrow> nat \<Rightarrow> nat \<Rightarrow> nat" where
  "human_version date boundary records low high =
     list_max (map rec_version (filter (\<lambda>r. low < rec_version r \<and> rec_version r \<le> high \<and> humanInstruction r \<and>
       after_stop date boundary r) records))"

definition scanHumanWake ::
    "(string \<Rightarrow> int option) \<Rightarrow> string \<Rightarrow> context_record list \<Rightarrow> nat \<Rightarrow> nat \<Rightarrow> lane \<Rightarrow> lane" where
  "scanHumanWake date t records low high l =
     (let v = human_version date (ln_stop l t) records low high in
      if v \<noteq> 0 then l\<lparr>ln_human := (ln_human l)(t \<mapsto> v)\<rparr>
      else if ln_pending l t = None then l\<lparr>ln_human := (ln_human l)(t := None)\<rparr> else l)"

text \<open>An observed stop cancels the note wakes of tasks without a later human instruction.\<close>

definition filterStoppedWakes :: "lane \<Rightarrow> (string \<Rightarrow> nat option) \<Rightarrow> string \<Rightarrow> nat option" where
  "filterStoppedWakes l wakes = forget {t. ln_stop l t \<noteq> None \<and> ln_human l t = None} wakes"

definition takeReadyWake :: "bool \<Rightarrow> state_task \<Rightarrow> state_response \<Rightarrow> lane \<Rightarrow> nat option \<times> lane" where
  "takeReadyWake busy task state l =
     (let t = ts_task_id task;
          l = (case ln_pending l t of
                 None \<Rightarrow> l
               | Some (role, _) \<Rightarrow>
                   if sr_flow_mode state \<noteq> ''auto'' \<or> ts_needs_attention task \<or> ts_waiting_for task \<noteq> agent_waiting role \<or>
                      \<not> autoWhitelisted (sr_auto state) role
                   then l\<lparr>ln_pending := (ln_pending l)(t := None)\<rparr> else l)
      in (case ln_pending l t of
            None \<Rightarrow> (None, l)
          | Some (role, v) \<Rightarrow>
              if busy then (None, l)
              else (Some v, l\<lparr>ln_human := (ln_human l)(t \<mapsto> max v (case ln_human l t of None \<Rightarrow> 0 | Some h \<Rightarrow> h)),
                              ln_pending := (ln_pending l)(t := None)\<rparr>)))"

text \<open>\<open>coalesceBusy\<close>: \<open>True\<close> when the candidate must not launch now.\<close>

definition coalesceBusy :: "bool \<Rightarrow> state_task \<Rightarrow> string \<Rightarrow> nat option \<Rightarrow> lane \<Rightarrow> bool \<times> lane" where
  "coalesceBusy busy task role noteWake l =
     (let t = ts_task_id task in
      if \<not> busy then (False, l)
      else if noteWake \<noteq> None \<and> ln_human l t = None \<and> ln_pending l t = None then (True, l)
      else (True, l\<lparr>ln_pending := (ln_pending l)(t \<mapsto> (role, case ln_human l t of None \<Rightarrow> 0 | Some h \<Rightarrow> h))\<rparr>))"

definition allowsNoteWake :: "string \<Rightarrow> lane \<Rightarrow> bool" where
  "allowsNoteWake t l \<longleftrightarrow> ln_human l t \<noteq> None"

text \<open>The version of the record that closed the task: the first close decision.\<close>

definition closeVersion :: "context_record list \<Rightarrow> nat option" where
  "closeVersion records =
     foldl (\<lambda>m r. if is_close r then Some (case m of None \<Rightarrow> rec_version r | Some v \<Rightarrow> min v (rec_version r)) else m)
       None records"

text \<open>
  Whether a close also cleans up panes: no launch marker, or one that is not headless.  A marker that
  is JSON \<open>null\<close> makes the property access throw (\<open>None\<close>).
\<close>

definition not_headless :: "json \<Rightarrow> bool" where
  "not_headless launch \<longleftrightarrow> jget launch ''launch_mode'' \<noteq> Some (JStr ''headless'')"

fun some_not_headless :: "json list \<Rightarrow> bool option" where
  "some_not_headless [] = Some False"
| "some_not_headless (l # ls) =
     (if l = JNull then None else if not_headless l then Some True else some_not_headless ls)"

definition launches_of :: "context_record list \<Rightarrow> json list" where
  "launches_of records =
     concat (map (\<lambda>r. if rec_content_type r = ''note''
                      then (case pget (rec_payload r) ''launch'' of None \<Rightarrow> [] | Some l \<Rightarrow> [l]) else []) records)"

definition needs_pane_cleanup :: "context_record list \<Rightarrow> bool option" where
  "needs_pane_cleanup records = (if launches_of records = [] then Some True else some_not_headless (launches_of records))"

section \<open>A stop cancels earlier wakes\<close>

lemma observe_stops_task:
  assumes "(t, asked) \<in> set stops"
  shows "ln_pending (observe_stops date stops l) t = None \<and> ln_human (observe_stops date stops l) t = None \<and>
    (\<exists>requested. (t, requested) \<in> set stops \<and> ln_stop (observe_stops date stops l) t = Some (date requested))"
  using assms
proof (induction stops rule: rev_induct)
  case Nil
  then show ?case by simp
next
  case (snoc s stops)
  then show ?case
    by (cases s) (auto simp: observe_stops_def observe_stop_def)
qed



end
