(* ===== verification/Log_Cache.thy ===== *)
theory Log_Cache
  imports Launch
begin

text \<open>
  The Notifier's per-task log cache, \<open>src/core/notifier/log-cache.ts\<close>: which reads are served from
  memory, which records an incremental pull adds, and when an entry is dropped so that the next pull
  is a full one.  A pull is the function from the requested lower bound to the Hub's answer (\<open>None\<close>:
  the call fails).  The resident Hub session is plumbing and not modelled; the signature is kept as
  the tuple that \<open>JSON.stringify\<close> prints.
\<close>

type_synonym task_sig = "string \<times> string \<times> bool \<times> string"

record log_entry =
  lge_version :: nat
  lge_records :: "context_record list"
  lge_sig :: "task_sig option"

type_synonym log_cache = "string \<Rightarrow> log_entry option"

definition stateTaskSig :: "state_task \<Rightarrow> task_sig" where
  "stateTaskSig t = (ts_status t, ts_waiting_for t, ts_needs_attention t, ts_updated_at t)"

section \<open>Record identity\<close>

lemma zip_size [termination_simp]: "(a, b) \<in> set (zip xs ys) \<Longrightarrow> size a < Suc (size_list size xs)"
  by (induction xs ys rule: list_induct2') auto

text \<open>Structural equality of JSON values, blind to the order of object keys.\<close>

fun jsonEquivalent :: "json \<Rightarrow> json \<Rightarrow> bool" where
  "jsonEquivalent (JArr xs) b =
     (case b of
        JArr ys \<Rightarrow> length xs = length ys \<and> list_all (\<lambda>(x, y). jsonEquivalent x y) (zip xs ys)
      | _ \<Rightarrow> False)"
| "jsonEquivalent (JObj xs) b =
     (case b of
        JObj ys \<Rightarrow> length xs = length ys \<and>
          list_all (\<lambda>(k, x). case map_of ys k of None \<Rightarrow> False | Some y \<Rightarrow> jsonEquivalent x y) xs
      | _ \<Rightarrow> False)"
| "jsonEquivalent a b = (a = b)"

definition recordsEqual :: "context_record \<Rightarrow> context_record \<Rightarrow> bool" where
  "recordsEqual a b \<longleftrightarrow>
     rec_version a = rec_version b \<and> rec_task_id a = rec_task_id b \<and> rec_role a = rec_role b \<and>
     rec_agent a = rec_agent b \<and> rec_model a = rec_model b \<and> rec_content_type a = rec_content_type b \<and>
     rec_timestamp a = rec_timestamp b \<and> jsonEquivalent (JObj (rec_payload a)) (JObj (rec_payload b)) \<and>
     rec_tut_version a = rec_tut_version b"

section \<open>Reading\<close>

definition merge_record :: "context_record list \<Rightarrow> context_record \<Rightarrow> context_record list" where
  "merge_record merged r = (if list_ex (\<lambda>m. recordsEqual m r) merged then merged else merged @ [r])"

definition merge_records :: "context_record list \<Rightarrow> context_record list \<Rightarrow> context_record list" where
  "merge_records cached fetched = sort_key rec_version (foldl merge_record cached fetched)"

text \<open>The quiet round: the cache covers the state's version and ran under the same signature.\<close>

definition quiet_round :: "log_entry option \<Rightarrow> state_task option \<Rightarrow> bool" where
  "quiet_round cached entry =
     (case (cached, entry) of
        (Some c, Some e) \<Rightarrow>
          (case ts_version e of
             None \<Rightarrow> False
           | Some v \<Rightarrow> v \<le> lge_version c \<and> lge_sig c = Some (stateTaskSig e))
      | _ \<Rightarrow> False)"

definition lower_bound :: "log_entry option \<Rightarrow> nat" where
  "lower_bound cached = (case cached of None \<Rightarrow> 0 | Some c \<Rightarrow> lge_version c)"

definition since_version :: "log_entry option \<Rightarrow> nat" where
  "since_version cached = (if 0 < lower_bound cached then lower_bound cached + 1 else 0)"

definition synced_entry ::
    "log_entry option \<Rightarrow> state_task option \<Rightarrow> context_record list \<Rightarrow> log_entry" where
  "synced_entry cached entry fetched =
     \<lparr>lge_version = foldl (\<lambda>m r. max m (rec_version r)) (lower_bound cached) fetched,
      lge_records = (case cached of None \<Rightarrow> fetched | Some c \<Rightarrow> merge_records (lge_records c) fetched),
      lge_sig = (case entry of Some e \<Rightarrow> Some (stateTaskSig e)
                 | None \<Rightarrow> (case cached of None \<Rightarrow> None | Some c \<Rightarrow> lge_sig c))\<rparr>"

text \<open>
  \<open>fullLog\<close>: the records and the cache afterwards, or \<open>None\<close> when the pull failed and the cache is
  untouched.  \<open>incremental\<close> is \<open>None\<close> when no incremental read is wired.
\<close>

definition fullLog ::
    "bool \<Rightarrow> (nat \<Rightarrow> context_record list option) option \<Rightarrow> context_record list option
      \<Rightarrow> string \<Rightarrow> state_task option \<Rightarrow> log_cache \<Rightarrow> (context_record list \<times> log_cache) option" where
  "fullLog shut incremental readLog taskId entry cache =
     (case incremental of
        None \<Rightarrow> map_option (\<lambda>rs. (rs, cache)) readLog
      | Some pull \<Rightarrow>
          if quiet_round (cache taskId) entry then Some (lge_records (the (cache taskId)), cache)
          else (case pull (since_version (cache taskId)) of
                  None \<Rightarrow> None
                | Some fetched \<Rightarrow>
                    (let e = synced_entry (cache taskId) entry fetched
                     in Some (lge_records e, if shut then cache else cache(taskId \<mapsto> e)))))"

section \<open>Housekeeping\<close>

text \<open>Whether one entry survives: the task is known, not rewound, its attention has not just
  cleared, and its shape did not change at the cached version.\<close>

definition keeps_entry :: "state_response \<Rightarrow> (string \<Rightarrow> state_task option) option \<Rightarrow> string \<Rightarrow> log_entry \<Rightarrow> bool" where
  "keeps_entry state prev taskId e =
     (if taskId \<notin> set (task_ids state) \<union> set (degraded_of state) then False
      else (case find_task taskId (sr_tasks state) of
              None \<Rightarrow> True
            | Some task \<Rightarrow>
                (case ts_version task of
                   None \<Rightarrow> True
                 | Some v \<Rightarrow>
                     if v < lge_version e then False
                     else if (case prev of None \<Rightarrow> False | Some p \<Rightarrow> map_option ts_needs_attention (p taskId) = Some True) \<and>
                             \<not> ts_needs_attention task then False
                     else \<not> (v = lge_version e \<and> lge_sig e \<noteq> None \<and> lge_sig e \<noteq> Some (stateTaskSig task)))))"

definition reconcileLogCache ::
    "state_response \<Rightarrow> (string \<Rightarrow> state_task option) option \<Rightarrow> log_cache \<Rightarrow> log_cache" where
  "reconcileLogCache state prev cache =
     (\<lambda>t. case cache t of None \<Rightarrow> None | Some e \<Rightarrow> if keeps_entry state prev t e then Some e else None)"

section \<open>The merge\<close>

lemma recordsEqual_version: "recordsEqual a b \<Longrightarrow> rec_version a = rec_version b"
  by (simp add: recordsEqual_def)

lemma merge_fresh:
  "sorted_wrt (<) (map rec_version (L @ new)) \<Longrightarrow> foldl merge_record L new = L @ new"
proof (induction new arbitrary: L)
  case Nil
  then show ?case by simp
next
  case (Cons r new)
  have "\<not> list_ex (\<lambda>m. recordsEqual m r) L"
    using Cons.prems by (auto simp: list_ex_iff sorted_wrt_append dest!: recordsEqual_version)
  then have "foldl merge_record L (r # new) = foldl merge_record (L @ [r]) new"
    by (simp add: merge_record_def)
  also have "\<dots> = (L @ [r]) @ new"
    using Cons.prems by (intro Cons.IH) simp
  finally show ?case by simp
qed

lemma strict_sorted: "sorted_wrt (<) (map rec_version L) \<Longrightarrow> sort_key rec_version L = L"
  by (intro sort_key_id_if_sorted) (simp add: strict_sorted_imp_sorted)

lemma merge_records_fresh:
  "sorted_wrt (<) (map rec_version (L @ new)) \<Longrightarrow> merge_records L new = L @ new"
  by (simp only: merge_records_def merge_fresh strict_sorted)

lemma foldl_max_records:
  "foldl (\<lambda>m r. max m (rec_version r)) a rs = max a (latestRecordVersion rs)"
proof -
  have "foldl (\<lambda>m r. max m (rec_version r)) a rs = foldl max a (map rec_version rs)" for a
    by (induction rs arbitrary: a) simp_all
  then show ?thesis by (simp add: latestRecordVersion_eq foldl_max_split [of a] list_max_def)
qed

lemma latest_append: "latestRecordVersion (L @ new) = max (latestRecordVersion L) (latestRecordVersion new)"
  by (simp add: latestRecordVersion_eq)

lemma latest_below_new:
  assumes "sorted_wrt (<) (map rec_version (L @ new))" and "r \<in> set new" and "\<forall>x\<in>set (L @ new). 0 < rec_version x"
  shows "latestRecordVersion L < rec_version r"
proof (cases "L = []")
  case True
  with assms(2,3) show ?thesis by (simp add: latestRecordVersion_eq)
next
  case False
  then have "latestRecordVersion L \<in> rec_version ` set L"
    using list_max_mem [of "map rec_version L"] by (simp add: latestRecordVersion_eq)
  with assms(1,2) show ?thesis by (auto simp: sorted_wrt_append)
qed

text \<open>What an incremental pull asks for is what the cache lacks.\<close>

lemma pull_is_new:
  assumes "sorted_wrt (<) (map rec_version (L @ new))" and "\<forall>x\<in>set (L @ new). 0 < rec_version x"
    and "lge_version e = latestRecordVersion L"
  shows "filter (\<lambda>r. since_version (Some e) \<le> rec_version r) (L @ new) = new"
proof -
  have new: "since_version (Some e) \<le> rec_version r" if "r \<in> set new" for r
    using latest_below_new [OF assms(1) that assms(2)] assms(3) by (auto simp: since_version_def lower_bound_def)
  have old: "\<not> since_version (Some e) \<le> rec_version r" if "r \<in> set L" for r
    using latestRecordVersion_ge [OF that] assms(2,3) that by (force simp: since_version_def lower_bound_def)
  from new have "filter (\<lambda>r. since_version (Some e) \<le> rec_version r) new = new"
    by (simp add: filter_True)
  moreover from old have "filter (\<lambda>r. since_version (Some e) \<le> rec_version r) L = []"
    by (simp add: filter_False)
  ultimately show ?thesis by simp
qed

text \<open>An entry dropped by the housekeeping makes the next pull a full one.\<close>

lemma dropped_entry_resyncs:
  assumes "cache t = Some e" and "\<not> keeps_entry state prev t e" and "pull 0 = Some hubLog"
  shows "\<exists>cache'. fullLog False (Some pull) rl t entry (reconcileLogCache state prev cache) = Some (hubLog, cache')"
  using assms by (simp add: fullLog_def reconcileLogCache_def quiet_round_def since_version_def lower_bound_def
      synced_entry_def Let_def)

lemma attention_clearing_drops:
  assumes "find_task t (sr_tasks state) = Some task" and "ts_version task = Some v" and "\<not> ts_needs_attention task"
    and "prev = Some p" and "p t = Some before" and "ts_needs_attention before"
  shows "\<not> keeps_entry state prev t e"
  using assms find_task_Some [OF assms(1)] by (auto simp: keeps_entry_def)

section \<open>Properties\<close>



end
