(* ===== verification/Notifications.thy ===== *)
theory Notifications
  imports Hub_View
begin

text \<open>
  The Notifier's edge bookkeeping, \<open>src/core/notifier/notifications.ts\<close>: degraded and vanished tasks,
  the approval queue, and the stall watchdog.  A notification is a value (which alert, for which
  task); its wording, the channels it is sent on and the log lines are not modelled.  Times are
  integers (milliseconds).  JavaScript's \<open>Set\<close> bookkeeping is a set; the order of alerts is the order
  of the lists the loops run over.
\<close>

datatype notice =
    Degraded_notice string
  | Vanished_notice string
  | Approval_notice string "string list"
  | Stall_notice string
  | Attention_notice string
  | Waiting_notice string string
  | Decision_notice string string
  | Withheld_notice string string
  | Skipped_notice string "nat option"
  | Launch_failed_notice string

record notices =
  pa_tasks :: "string set"
  pa_notify :: "string set"
  degraded_alerted :: "string set"
  vanished_alerted :: "string set"
  last_updated :: "string \<Rightarrow> string option"
  last_progress :: "string \<Rightarrow> int option"
  stall_notified :: "string set"

definition fresh_notices :: notices where
  "fresh_notices = \<lparr>pa_tasks = {}, pa_notify = {}, degraded_alerted = {}, vanished_alerted = {},
     last_updated = (\<lambda>_. None), last_progress = (\<lambda>_. None), stall_notified = {}\<rparr>"

text \<open>The members of a JavaScript \<open>Set\<close> built from a list, in insertion order.\<close>

definition first_seen :: "'a list \<Rightarrow> 'a list" where
  "first_seen xs = rev (remdups (rev xs))"

lemma set_first_seen [simp]: "set (first_seen xs) = set xs"
  and distinct_first_seen [simp]: "distinct (first_seen xs)"
  by (simp_all add: first_seen_def)

section \<open>Presence and baseline\<close>

definition reconcilePresence :: "string list \<Rightarrow> notices \<Rightarrow> notices" where
  "reconcilePresence ids n =
     n\<lparr>pa_notify := pa_notify n - (pa_tasks n - set ids), pa_tasks := pa_tasks n \<inter> set ids\<rparr>"

definition markProgress :: "string \<Rightarrow> int \<Rightarrow> notices \<Rightarrow> notices" where
  "markProgress taskId now n =
     n\<lparr>last_progress := (last_progress n)(taskId \<mapsto> now), stall_notified := stall_notified n - {taskId}\<rparr>"

definition baseline_task :: "int \<Rightarrow> notices \<Rightarrow> state_task \<Rightarrow> notices" where
  "baseline_task now n t =
     n\<lparr>last_updated := (last_updated n)(ts_task_id t \<mapsto> ts_updated_at t),
       last_progress := (last_progress n)(ts_task_id t \<mapsto> now),
       pa_tasks := (if ts_status t = ''pending_approval'' then insert (ts_task_id t) (pa_tasks n) else pa_tasks n)\<rparr>"

definition baseline :: "state_task list \<Rightarrow> int \<Rightarrow> notices \<Rightarrow> notices" where
  "baseline tasks now n = foldl (baseline_task now) n tasks"

definition recovered :: "state_task \<Rightarrow> int \<Rightarrow> notices \<Rightarrow> notices" where
  "recovered t now n =
     markProgress (ts_task_id t) now (n\<lparr>last_updated := (last_updated n)(ts_task_id t \<mapsto> ts_updated_at t)\<rparr>)"

section \<open>Degraded and vanished tasks\<close>

definition known_ids :: "state_response \<Rightarrow> string set" where
  "known_ids s = set (task_ids s) \<union> set (degraded_of s)"

text \<open>
  \<open>diffDegraded\<close>: newly degraded tasks alert, tasks that left the degraded list clear their
  bookkeeping, restored directories re-arm, and tasks known before but absent now alert as vanished.
  \<open>before\<close> lists what the previous snapshot knew (nothing at the baseline).  The third component is
  the set of tasks whose recovery edge is this poll.
\<close>

definition diffDegraded :: "string list \<Rightarrow> state_response \<Rightarrow> notices \<Rightarrow> notices \<times> notice list \<times> string set" where
  "diffDegraded before state n =
     (let now = first_seen (degraded_of state);
          rising = filter (\<lambda>t. t \<notin> degraded_alerted n) now;
          alerted = degraded_alerted n \<union> set rising;
          left = {t \<in> alerted. t \<notin> set now};
          repaired = {t \<in> left. t \<in> set (task_ids state)};
          reappeared = vanished_alerted n \<inter> known_ids state;
          vanishedKept = vanished_alerted n - known_ids state;
          gone = filter (\<lambda>t. t \<notin> known_ids state \<and> t \<notin> vanishedKept) (first_seen before)
      in (n\<lparr>degraded_alerted := alerted - left, vanished_alerted := vanishedKept \<union> set gone\<rparr>,
          map Degraded_notice rising @ map Vanished_notice gone,
          repaired \<union> {t \<in> reappeared. t \<in> set (task_ids state)}))"

section \<open>Approvals\<close>

definition updatePendingApprovalEdge :: "state_task \<Rightarrow> notices \<Rightarrow> bool \<times> notices" where
  "updatePendingApprovalEdge t n =
     (if ts_status t \<noteq> ''pending_approval''
      then (False, n\<lparr>pa_tasks := pa_tasks n - {ts_task_id t}, pa_notify := pa_notify n - {ts_task_id t}\<rparr>)
      else (let entering = ts_task_id t \<notin> pa_tasks n in
            (entering, n\<lparr>pa_tasks := insert (ts_task_id t) (pa_tasks n),
                         pa_notify := (if entering then insert (ts_task_id t) (pa_notify n) else pa_notify n)\<rparr>)))"

text \<open>
  One notification carries the whole queue and is filed under the first entering task; with no
  entering task among the pending ones the source throws (\<open>None\<close>).
\<close>

definition notifyPendingApprovals :: "state_response \<Rightarrow> string set \<Rightarrow> notice option" where
  "notifyPendingApprovals state entering =
     (let pending = filter (\<lambda>t. ts_status t = ''pending_approval'') (sr_tasks state) in
      map_option (\<lambda>t. Approval_notice (ts_task_id t) (if 1 < length pending then map ts_task_id pending else []))
        (find (\<lambda>t. ts_task_id t \<in> entering) pending))"

definition completeApprovals :: "string set \<Rightarrow> notices \<Rightarrow> notices" where
  "completeApprovals ids n = n\<lparr>pa_notify := pa_notify n - ids\<rparr>"

section \<open>The stall watchdog\<close>

definition check_stall :: "int \<Rightarrow> int \<Rightarrow> notices \<times> notice list \<Rightarrow> state_task \<Rightarrow> notices \<times> notice list" where
  "check_stall stallMs now s t =
     (case s of (n, out) \<Rightarrow>
      let i = ts_task_id t in
      if last_updated n i \<noteq> Some (ts_updated_at t)
      then (markProgress i now (n\<lparr>last_updated := (last_updated n)(i \<mapsto> ts_updated_at t)\<rparr>), out)
      else if agent_role (ts_waiting_for t) = None then (markProgress i now n, out)
      else (case last_progress n i of
              None \<Rightarrow> (markProgress i now n, out)
            | Some since \<Rightarrow>
                if stallMs \<le> now - since \<and> i \<notin> stall_notified n
                then (n\<lparr>stall_notified := insert i (stall_notified n)\<rparr>, out @ [Stall_notice i])
                else (n, out)))"

definition checkStalls :: "int \<Rightarrow> state_task list \<Rightarrow> int \<Rightarrow> notices \<Rightarrow> notices \<times> notice list" where
  "checkStalls stallMs tasks now n = foldl (check_stall stallMs now) (n, []) tasks"

section \<open>One alert per stay\<close>

text \<open>The alerts of successive polls; \<open>before\<close> is what the previous poll knew.\<close>

fun degraded_run :: "string list \<Rightarrow> notices \<Rightarrow> state_response list \<Rightarrow> notice list list" where
  "degraded_run before n [] = []"
| "degraded_run before n (s # polls) =
     (case diffDegraded before s n of (n', out, _) \<Rightarrow> out # degraded_run (task_ids s @ degraded_of s) n' polls)"

lemma diffDegraded_alerted:
  assumes "diffDegraded before s n = (n', out, rec)"
  shows "degraded_alerted n' = set (degraded_of s)" and "vanished_alerted n' \<inter> known_ids s = {}"
  using assms by (auto simp: diffDegraded_def Let_def)

lemma diffDegraded_out:
  assumes "diffDegraded before s n = (n', out, rec)" and "vanished_alerted n \<inter> set before = {}"
  shows "Degraded_notice t \<in> set out \<longleftrightarrow> t \<in> set (degraded_of s) \<and> t \<notin> degraded_alerted n"
    and "Vanished_notice t \<in> set out \<longleftrightarrow> t \<in> set before \<and> t \<notin> known_ids s"
    and "distinct out"
proof -
  let ?kept = "vanished_alerted n - known_ids s"
  have out: "out = map Degraded_notice (filter (\<lambda>t. t \<notin> degraded_alerted n) (first_seen (degraded_of s))) @
      map Vanished_notice (filter (\<lambda>t. t \<notin> known_ids s \<and> t \<notin> ?kept) (first_seen before))"
    using assms(1) unfolding diffDegraded_def Let_def by blast
  show "Degraded_notice t \<in> set out \<longleftrightarrow> t \<in> set (degraded_of s) \<and> t \<notin> degraded_alerted n"
    unfolding out by auto
  show "Vanished_notice t \<in> set out \<longleftrightarrow> t \<in> set before \<and> t \<notin> known_ids s"
    using assms(2) unfolding out by auto
  show "distinct out"
    unfolding out by (auto simp: distinct_map inj_on_def)
qed

lemma degraded_run_exact:
  assumes "k < length polls" and "vanished_alerted n \<inter> set before = {}"
  shows "(Degraded_notice t \<in> set (degraded_run before n polls ! k) \<longleftrightarrow>
            t \<in> set (degraded_of (polls ! k)) \<and>
            (if k = 0 then t \<notin> degraded_alerted n else t \<notin> set (degraded_of (polls ! (k - 1))))) \<and>
         (Vanished_notice t \<in> set (degraded_run before n polls ! k) \<longleftrightarrow>
            t \<notin> known_ids (polls ! k) \<and>
            (if k = 0 then t \<in> set before else t \<in> known_ids (polls ! (k - 1)))) \<and>
         distinct (degraded_run before n polls ! k)"
  using assms
proof (induction polls arbitrary: k before n)
  case Nil
  then show ?case by simp
next
  case (Cons s polls)
  obtain n' out rec where d: "diffDegraded before s n = (n', out, rec)"
    by (cases "diffDegraded before s n") auto
  note out = diffDegraded_out [OF d Cons.prems(2)] and kept = diffDegraded_alerted [OF d]
  show ?case
  proof (cases k)
    case 0
    with out show ?thesis by (auto simp: d)
  next
    case (Suc j)
    have "vanished_alerted n' \<inter> set (task_ids s @ degraded_of s) = {}"
      using kept(2) by (simp add: known_ids_def)
    from Cons.IH [OF _ this, of j] Suc Cons.prems(1) kept(1) show ?thesis
      by (cases j) (simp_all add: d known_ids_def)
  qed
qed

section \<open>The watchdog, task by task\<close>

definition stall_view :: "string \<Rightarrow> notices \<Rightarrow> string option \<times> int option \<times> bool" where
  "stall_view t n = (last_updated n t, last_progress n t, t \<in> stall_notified n)"

abbreviation stalls_of :: "string \<Rightarrow> notice list \<Rightarrow> nat" where
  "stalls_of t out \<equiv> count_list out (Stall_notice t)"

lemma check_stall_other:
  assumes "ts_task_id e \<noteq> t" and "check_stall ms now (n, out) e = (n', out')"
  shows "stall_view t n' = stall_view t n" and "stalls_of t out' = stalls_of t out"
  using assms by (auto simp: check_stall_def Let_def stall_view_def markProgress_def split: if_split_asm option.split_asm)

lemma check_stalls_other:
  assumes "t \<notin> ts_task_id ` set tasks" and "foldl (check_stall ms now) (n, out) tasks = (n', out')"
  shows "stall_view t n' = stall_view t n \<and> stalls_of t out' = stalls_of t out"
  using assms
proof (induction tasks arbitrary: n out)
  case Nil
  then show ?case by simp
next
  case (Cons e tasks)
  obtain n1 out1 where s: "check_stall ms now (n, out) e = (n1, out1)"
    by (cases "check_stall ms now (n, out) e")
  have "ts_task_id e \<noteq> t" using Cons.prems(1) by auto
  from check_stall_other [OF this s] Cons.prems Cons.IH [of n1 out1] s show ?case by simp
qed

text \<open>A waiting task whose entry did not change: the clock keeps its start, and one alert is sent
  once the threshold has passed.\<close>

lemma checkStalls_quiet:
  assumes "e \<in> set tasks" and "distinct (map ts_task_id tasks)" and "agent_role (ts_waiting_for e) \<noteq> None"
    and "stall_view (ts_task_id e) n = (Some (ts_updated_at e), Some since, notified)"
    and "checkStalls ms tasks now n = (n', out)"
  shows "stall_view (ts_task_id e) n' = (Some (ts_updated_at e), Some since, notified \<or> ms \<le> now - since) \<and>
    stalls_of (ts_task_id e) out = (if ms \<le> now - since \<and> \<not> notified then 1 else 0)"
proof -
  obtain us vs where tasks: "tasks = us @ e # vs"
    using assms(1) by (meson split_list)
  have other: "ts_task_id e \<notin> ts_task_id ` set us" "ts_task_id e \<notin> ts_task_id ` set vs"
    using assms(2) by (auto simp: tasks)
  obtain n1 out1 where s1: "foldl (check_stall ms now) (n, []) us = (n1, out1)"
    by (cases "foldl (check_stall ms now) (n, []) us")
  obtain n2 out2 where s2: "check_stall ms now (n1, out1) e = (n2, out2)"
    by (cases "check_stall ms now (n1, out1) e")
  have s3: "foldl (check_stall ms now) (n2, out2) vs = (n', out)"
    using assms(5) by (simp add: checkStalls_def tasks s1 s2)
  have v1: "stall_view (ts_task_id e) n1 = (Some (ts_updated_at e), Some since, notified)" "stalls_of (ts_task_id e) out1 = 0"
    using check_stalls_other [OF other(1) s1] assms(4) by simp_all
  then have "stall_view (ts_task_id e) n2 = (Some (ts_updated_at e), Some since, notified \<or> ms \<le> now - since) \<and>
      stalls_of (ts_task_id e) out2 = (if ms \<le> now - since \<and> \<not> notified then 1 else 0)"
    using s2 assms(3) by (auto simp: check_stall_def Let_def stall_view_def split: if_split_asm)
  then show ?thesis
    using check_stalls_other [OF other(2) s3] by simp
qed

text \<open>Successive polls at the times \<open>nows\<close>.\<close>

fun stall_run :: "int \<Rightarrow> notices \<Rightarrow> (state_task list \<times> int) list \<Rightarrow> notice list" where
  "stall_run ms n [] = []"
| "stall_run ms n ((tasks, now) # polls) =
     (case checkStalls ms tasks now n of (n', out) \<Rightarrow> out @ stall_run ms n' polls)"

lemma stall_run_count:
  assumes "\<And>tasks now. (tasks, now) \<in> set polls \<Longrightarrow> e \<in> set tasks \<and> distinct (map ts_task_id tasks)"
    and "agent_role (ts_waiting_for e) \<noteq> None"
    and "stall_view (ts_task_id e) n = (Some (ts_updated_at e), Some since, notified)"
  shows "stalls_of (ts_task_id e) (stall_run ms n polls) =
    (if \<not> notified \<and> (\<exists>(tasks, now)\<in>set polls. ms \<le> now - since) then 1 else 0)"
  using assms(1,3)
proof (induction polls arbitrary: n notified)
  case Nil
  then show ?case by simp
next
  case (Cons p polls)
  obtain tasks now where p: "p = (tasks, now)" by (cases p)
  obtain n' out where s: "checkStalls ms tasks now n = (n', out)"
    by (cases "checkStalls ms tasks now n")
  have e: "e \<in> set tasks" "distinct (map ts_task_id tasks)"
    using Cons.prems(1) [of tasks now] p by auto
  from checkStalls_quiet [OF e assms(2) Cons.prems(2) s] have
    v: "stall_view (ts_task_id e) n' = (Some (ts_updated_at e), Some since, notified \<or> ms \<le> now - since)"
    and c: "stalls_of (ts_task_id e) out = (if ms \<le> now - since \<and> \<not> notified then 1 else 0)"
    by simp_all
  have "stalls_of (ts_task_id e) (stall_run ms n' polls) =
      (if \<not> (notified \<or> ms \<le> now - since) \<and> (\<exists>(tasks, now)\<in>set polls. ms \<le> now - since) then 1 else 0)"
    by (rule Cons.IH [OF _ v]) (use Cons.prems(1) in auto)
  with c show ?case by (auto simp: p s)
qed

section \<open>Properties\<close>

text \<open>Storage damage alerts exactly on its edges.  Over any sequence of polls from the first one,
  a task is reported degraded at a poll exactly when it is degraded there and was not one poll
  before, and reported vanished exactly when it was known one poll before and is known no more; no
  poll repeats an alert.\<close>

theorem storage_alerts_on_edges:
  assumes "k < length polls"
  shows "(Degraded_notice t \<in> set (degraded_run [] fresh_notices polls ! k) \<longleftrightarrow>
            t \<in> set (degraded_of (polls ! k)) \<and> (k = 0 \<or> t \<notin> set (degraded_of (polls ! (k - 1))))) \<and>
         (Vanished_notice t \<in> set (degraded_run [] fresh_notices polls ! k) \<longleftrightarrow>
            t \<notin> known_ids (polls ! k) \<and> k \<noteq> 0 \<and> t \<in> known_ids (polls ! (k - 1))) \<and>
         distinct (degraded_run [] fresh_notices polls ! k)"
  using degraded_run_exact [OF assms, of fresh_notices "[]" t]
  by (cases "k = 0") (simp_all add: fresh_notices_def)

definition sample_poll :: "string list \<Rightarrow> state_response" where
  "sample_poll degraded = \<lparr>sr_flow_mode = ''manual'', sr_tasks = [], sr_degraded = Some degraded, sr_notify = None,
     sr_auto = None\<rparr>"

theorem storage_alerts_on_edges_witness:
  "Degraded_notice ''t'' \<in> set (degraded_run [] fresh_notices [sample_poll [], sample_poll [''t''], sample_poll []] ! 1) \<and>
   Vanished_notice ''t'' \<in> set (degraded_run [] fresh_notices [sample_poll [], sample_poll [''t''], sample_poll []] ! 2)"
  using storage_alerts_on_edges [of 1 "[sample_poll [], sample_poll [''t''], sample_poll []]" "''t''"]
    storage_alerts_on_edges [of 2 "[sample_poll [], sample_poll [''t''], sample_poll []]" "''t''"]
  by (simp add: sample_poll_def degraded_of_def known_ids_def task_ids_def)

text \<open>The stall watchdog fires once.  While a task waits for an agent and its entry does not
  change, the polls together send one stall alert as soon as one of them comes the threshold or more
  after the last progress, and none otherwise.\<close>

theorem stall_alert_once:
  assumes "\<And>tasks now. (tasks, now) \<in> set polls \<Longrightarrow> e \<in> set tasks \<and> distinct (map ts_task_id tasks)"
    and "agent_role (ts_waiting_for e) \<noteq> None"
    and "last_updated n (ts_task_id e) = Some (ts_updated_at e)" and "last_progress n (ts_task_id e) = Some since"
    and "ts_task_id e \<notin> stall_notified n"
  shows "count_list (stall_run ms n polls) (Stall_notice (ts_task_id e)) =
    (if \<exists>(tasks, now)\<in>set polls. ms \<le> now - since then 1 else 0)"
  using stall_run_count [where n = n and since = since and notified = False and ms = ms, OF assms(1,2)] assms(3-5)
  by (simp add: stall_view_def)

definition waiting_task :: state_task where
  "waiting_task = \<lparr>ts_task_id = ''t'', ts_title = ''T'', ts_status = ''implementing'', ts_updated_at = ''now'',
     ts_needs_attention = False, ts_waiting_for = ''agent:executor'', ts_version = Some 1, ts_pending_since = None,
     ts_round_count = 0, ts_cast = None, ts_checkout = None\<rparr>"

theorem stall_alert_once_witness:
  "count_list (stall_run 30 (baseline [waiting_task] 0 fresh_notices)
     [([waiting_task], 20), ([waiting_task], 40), ([waiting_task], 60)]) (Stall_notice ''t'') = 1"
proof -
  have "ts_task_id waiting_task = ''t''" by (simp add: waiting_task_def)
  moreover have "count_list (stall_run 30 (baseline [waiting_task] 0 fresh_notices)
     [([waiting_task], 20), ([waiting_task], 40), ([waiting_task], 60)]) (Stall_notice (ts_task_id waiting_task)) =
     (if \<exists>(tasks, now)\<in>set [([waiting_task], 20::int), ([waiting_task], 40), ([waiting_task], 60)]. 30 \<le> now - 0 then 1 else 0)"
    by (rule stall_alert_once)
      (auto simp: waiting_task_def agent_role_def starts_with_def baseline_def baseline_task_def fresh_notices_def)
  ultimately show ?thesis by simp
qed

end
