(* ===== verification/Engine.thy ===== *)
theory Engine
  imports Detached_Lane Invocation Log_Cache Notifications
begin

text \<open>
  The Notifier engine, \<open>src/core/notifier/engine.ts\<close>, with the detached lane's operations that reach
  the Hub and the run store (\<open>src/standalone/notifier/detached-lane.ts\<close>).

  One poll is one function of the engine's state, of the fetched state document (\<open>None\<close>: the fetch
  failed) and of the time.  Everything else the code asks is an oracle of the record \<open>world\<close>, indexed
  by a clock that every question advances, so two reads in one poll may disagree: the Hub may accept
  a record between them.  What a poll does is the list of its effects, in order; the answers that
  decide over a launch are in that list too, where they were received: each log the poll read
  (\<open>Log_read\<close>) and each answer of the Hub to a launch marker (\<open>Marked\<close>).

  Not modelled: message texts, the configuration diagnostic, the pane bookkeeping of the terminal lane
  (a port of this file) and a close of the notifier in the middle of a poll.
\<close>

section \<open>Effects, world and state\<close>

datatype launch_mode = Detached | Tui

datatype mark_result = Mark_ok | Mark_conflict | Mark_failed

datatype decision_action =
    Act_recovery
  | Act_gate
  | Act_not_whitelisted
  | Act_baseline
  | Act_edge
  | Act_note
  | Act_no_edge
  | Act_already nat
  | Act_reread
  | Act_unreadable

datatype effect =
    Poll_failed
  | Poll_crashed
  | Baseline_line nat string
  | Mode_changed string string
  | Mode_echo string
  | Decision string "string option" bool catchup_dedup decision_action "nat option"
  | Catchup catchup_line
  | Merged_transitions string nat nat
  | Deferred string nat
  | Notify notice
  | Host_report string string
  | Cleanup_panes string
  | Close_run string "nat option"
  | Tui_launch string string nat "nat option"
  | Run_marker string string nat nat
  | Run_launch string string
  | Log_read string "context_record list"
  | Marked string mark_result

record world =
  wd_incremental :: bool
  wd_pull :: "nat \<Rightarrow> string \<Rightarrow> nat \<Rightarrow> context_record list option"
  wd_read :: "nat \<Rightarrow> string \<Rightarrow> context_record list option"
  wd_mode :: "nat \<Rightarrow> launch_mode option"
  wd_catchup :: "nat \<Rightarrow> bool option"
  wd_plan :: "nat \<Rightarrow> string \<Rightarrow> string \<Rightarrow> bool"
  wd_mark :: "nat \<Rightarrow> string \<Rightarrow> mark_result"
  wd_busy :: "nat \<Rightarrow> string \<Rightarrow> bool"
  wd_knows :: "nat \<Rightarrow> string \<Rightarrow> bool"
  wd_stopped :: "nat \<Rightarrow> (string \<times> string) list"
  wd_deliver :: "nat \<Rightarrow> string \<Rightarrow> bool option"
  wd_date :: "string \<Rightarrow> int option"

record note_scan =
  ns_version :: nat
  ns_status :: string
  ns_waiting :: string

record engine =
  en_snapshot :: "state_task list option"
  en_degraded :: "string list"
  en_failures :: nat
  en_mode :: "string option"
  en_echo :: int
  en_scans :: "string \<Rightarrow> note_scan option"
  en_notices :: notices
  en_cache :: log_cache
  en_lane :: lane
  en_closed :: bool
  en_clock :: nat
  en_out :: "effect list"

definition fresh_engine :: engine where
  "fresh_engine = \<lparr>en_snapshot = None, en_degraded = [], en_failures = 0, en_mode = None, en_echo = 0,
     en_scans = (\<lambda>_. None), en_notices = fresh_notices, en_cache = (\<lambda>_. None), en_lane = fresh_lane,
     en_closed = False, en_clock = 0, en_out = []\<rparr>"

definition emit :: "effect \<Rightarrow> engine \<Rightarrow> engine" where
  "emit x e = e\<lparr>en_out := en_out e @ [x]\<rparr>"

definition emits :: "effect list \<Rightarrow> engine \<Rightarrow> engine" where
  "emits xs e = e\<lparr>en_out := en_out e @ xs\<rparr>"

text \<open>A question to the world: its answer is taken at the current clock.\<close>

definition ask :: "(nat \<Rightarrow> 'a) \<Rightarrow> engine \<Rightarrow> 'a \<times> engine" where
  "ask q e = (q (en_clock e), e\<lparr>en_clock := Suc (en_clock e)\<rparr>)"

definition with_lane :: "(lane \<Rightarrow> lane) \<Rightarrow> engine \<Rightarrow> engine" where
  "with_lane f e = e\<lparr>en_lane := f (en_lane e)\<rparr>"

text \<open>A \<open>Map\<close> built from the task list: a later entry of the same identifier replaces an earlier one.\<close>

definition snapshot_get :: "state_task list \<Rightarrow> string \<Rightarrow> state_task option" where
  "snapshot_get tasks t = find_task t (rev tasks)"

definition prev_get :: "state_task list option \<Rightarrow> string \<Rightarrow> state_task option" where
  "prev_get prev t = (case prev of None \<Rightarrow> None | Some tasks \<Rightarrow> snapshot_get tasks t)"

definition engine_log :: "world \<Rightarrow> state_task \<Rightarrow> engine \<Rightarrow> context_record list option \<times> engine" where
  "engine_log w task e =
     (let t = ts_task_id task; k = en_clock e; e = e\<lparr>en_clock := Suc k\<rparr> in
      case fullLog (en_closed e) (if wd_incremental w then Some (wd_pull w k t) else None) (wd_read w k t)
             t (Some task) (en_cache e) of
        None \<Rightarrow> (None, e)
      | Some (records, cache) \<Rightarrow> (Some records, emit (Log_read t records) (e\<lparr>en_cache := cache\<rparr>)))"

section \<open>The gate and the mode line\<close>

definition autoGateReason :: "state_task \<Rightarrow> string option" where
  "autoGateReason after =
     (if ts_needs_attention after then Some ''needs_attention set''
      else if agent_role (ts_waiting_for after) = None
      then (if ts_waiting_for after = ''human'' then Some ''pending human decision''
            else Some (''waiting_for '' @ ts_waiting_for after @ '' is not launchable''))
      else None)"

definition FLOW_MODE_ECHO_INTERVAL_MS :: int where
  "FLOW_MODE_ECHO_INTERVAL_MS = 5 * 60000"

definition observeFlowMode :: "string \<Rightarrow> int \<Rightarrow> engine \<Rightarrow> engine" where
  "observeFlowMode mode now e =
     (case en_mode e of
        None \<Rightarrow> e\<lparr>en_mode := Some mode, en_echo := now\<rparr>
      | Some previous \<Rightarrow>
          if mode \<noteq> previous then emit (Mode_changed previous mode) (e\<lparr>en_mode := Some mode, en_echo := now\<rparr>)
          else if FLOW_MODE_ECHO_INTERVAL_MS \<le> now - en_echo e then emit (Mode_echo mode) (e\<lparr>en_echo := now\<rparr>)
          else e)"

section \<open>Launching\<close>

definition autoLaunchSkipped :: "state_task \<Rightarrow> nat option \<Rightarrow> engine \<Rightarrow> engine" where
  "autoLaunchSkipped task v e = emit (Notify (Skipped_notice (ts_task_id task) v)) e"

definition autoLaunchFailed :: "state_task \<Rightarrow> engine \<Rightarrow> engine" where
  "autoLaunchFailed task e = emit (Notify (Launch_failed_notice (ts_task_id task))) e"

definition deferNoteWake :: "state_task \<Rightarrow> nat \<Rightarrow> engine \<Rightarrow> engine" where
  "deferNoteWake task wake e =
     emit (Deferred (ts_task_id task) wake)
       (e\<lparr>en_scans := (en_scans e)(ts_task_id task \<mapsto>
          \<lparr>ns_version = wake - 1, ns_status = ts_status task, ns_waiting = ts_waiting_for task\<rparr>)\<rparr>)"

text \<open>
  \<open>autoLaunchHeadless\<close>.  Of \<open>buildHeadlessPlan\<close> the version check is modelled (its base is the latest
  record, which must be the version the state reported); whether the rest of the planning succeeds is
  \<open>wd_plan\<close>.
\<close>

definition run_plan :: "world \<Rightarrow> nat \<Rightarrow> state_task \<Rightarrow> string \<Rightarrow> context_record list \<Rightarrow> nat option" where
  "run_plan w k task role records =
     (if \<not> wd_plan w k (ts_task_id task) role \<or> ts_version task \<noteq> Some (latestRecordVersion records) then None
      else Some (latestRecordVersion records))"

definition after_conflict :: "world \<Rightarrow> state_task \<Rightarrow> string \<Rightarrow> nat \<Rightarrow> engine \<Rightarrow> engine" where
  "after_conflict w task role online e =
     (case ask (\<lambda>k. wd_read w k (ts_task_id task)) e of
        (None, e) \<Rightarrow> autoLaunchFailed task e
      | (Some latest, e) \<Rightarrow>
          (let covered = headlessGeneration latest role online in
           if gn_blocked covered then autoLaunchSkipped task (gn_marker covered) e else autoLaunchFailed task e))"

definition launched :: "state_task \<Rightarrow> string \<Rightarrow> engine \<Rightarrow> engine" where
  "launched task role e =
     with_lane (\<lambda>l. l\<lparr>ln_human := (ln_human l)(ts_task_id task := None), ln_stop := (ln_stop l)(ts_task_id task := None)\<rparr>)
       (emit (Run_launch (ts_task_id task) role) e)"

definition mark_and_launch :: "world \<Rightarrow> state_task \<Rightarrow> string \<Rightarrow> nat \<Rightarrow> nat \<Rightarrow> nat \<Rightarrow> engine \<Rightarrow> engine" where
  "mark_and_launch w task role base trigger online e =
     (case ask (\<lambda>k. wd_mark w k (ts_task_id task)) e of
        (answer, e) \<Rightarrow>
          (let e = emit (Marked (ts_task_id task) answer) e in
           case answer of
             Mark_ok \<Rightarrow> launched task role (emit (Run_marker (ts_task_id task) role base trigger) e)
           | Mark_conflict \<Rightarrow> after_conflict w task role online e
           | Mark_failed \<Rightarrow> autoLaunchFailed task e))"

definition autoLaunchHeadless :: "world \<Rightarrow> state_task \<Rightarrow> string \<Rightarrow> engine \<Rightarrow> engine" where
  "autoLaunchHeadless w task role e =
     (if en_closed e then e
      else (case engine_log w task e of
              (None, e) \<Rightarrow> autoLaunchFailed task e
            | (Some records, e) \<Rightarrow>
                (let online = (case ln_human (en_lane e) (ts_task_id task) of None \<Rightarrow> 0 | Some v \<Rightarrow> v);
                     gen = headlessGeneration records role online in
                 if gn_blocked gen then autoLaunchSkipped task (gn_marker gen) e
                 else (case ask (\<lambda>k. run_plan w k task role records) e of
                         (None, e) \<Rightarrow> autoLaunchFailed task e
                       | (Some base, e) \<Rightarrow> mark_and_launch w task role base (gn_trigger gen) online e))))"

definition auto_request :: "state_task \<Rightarrow> string \<Rightarrow> launch_request" where
  "auto_request task role = \<lparr>lr_kind = ''round'', lr_task_id = ts_task_id task, lr_role = role, lr_fresh = False,
     lr_via = Auto, lr_explicit = None\<rparr>"

text \<open>The terminal lane: dedup on the log, then the base version, then the launch.\<close>

definition tui_launch :: "world \<Rightarrow> state_task \<Rightarrow> string \<Rightarrow> nat option \<Rightarrow> engine \<Rightarrow> engine" where
  "tui_launch w task role wake e =
     (case engine_log w task e of
        (None, e) \<Rightarrow> autoLaunchFailed task (case wake of None \<Rightarrow> e | Some v \<Rightarrow> deferNoteWake task v e)
      | (Some records, e) \<Rightarrow>
          (case (wake, launchBlocked records role wake) of
             (Some _, Blocked v) \<Rightarrow> autoLaunchSkipped task (Some v) e
           | (_, blocked) \<Rightarrow>
               (case bindLaunchBaseVersion (ts_version task) (latestRecordVersion records) of
                  Inl _ \<Rightarrow>
                    (case (wake, ts_version task) of
                       (Some v, Some s) \<Rightarrow> if s < latestRecordVersion records then deferNoteWake task v e
                                           else autoLaunchFailed task e
                     | _ \<Rightarrow> autoLaunchFailed task e)
                | Inr base \<Rightarrow>
                    (case blocked of
                       Blocked v \<Rightarrow> autoLaunchSkipped task (Some v) e
                     | Fresh \<Rightarrow> emit (Tui_launch (ts_task_id task) role base wake) e))))"

definition launch_by_mode :: "world \<Rightarrow> state_task \<Rightarrow> string \<Rightarrow> nat option \<Rightarrow> engine \<Rightarrow> engine" where
  "launch_by_mode w task role wake e =
     (case ask (wd_mode w) e of
        (None, e) \<Rightarrow> autoLaunchFailed task e
      | (Some Detached, e) \<Rightarrow>
          if wake \<noteq> None \<and> \<not> allowsNoteWake (ts_task_id task) (en_lane e) then e
          else autoLaunchHeadless w task role e
      | (Some Tui, e) \<Rightarrow> tui_launch w task role wake e)"

definition autoLaunch :: "world \<Rightarrow> state_task \<Rightarrow> string \<Rightarrow> nat option \<Rightarrow> engine \<Rightarrow> engine" where
  "autoLaunch w task role wake e =
     (if en_closed e then e
      else (case assertLaunchStateGate (auto_request task role) (Some task) of
              Inl _ \<Rightarrow> autoLaunchFailed task e
            | Inr _ \<Rightarrow>
                (case ask (\<lambda>k. wd_busy w k (ts_task_id task)) e of
                   (busy, e) \<Rightarrow>
                     (case coalesceBusy busy task role wake (en_lane e) of
                        (stop, l) \<Rightarrow>
                          (let e = e\<lparr>en_lane := l\<rparr> in
                           if stop then e else launch_by_mode w task role wake e)))))"

section \<open>Decision lines and note wakes\<close>

text \<open>The interval of record versions to scan for a wake note, when the poll has one.\<close>

definition scan_bounds :: "state_task list option \<Rightarrow> string set \<Rightarrow> state_task \<Rightarrow> engine \<Rightarrow> (nat \<times> nat) option" where
  "scan_bounds prev recov task e =
     (let t = ts_task_id task;
          before = (case en_scans e t of Some s \<Rightarrow> Some (ns_version s)
                    | None \<Rightarrow> (case prev_get prev t of None \<Rightarrow> None | Some p \<Rightarrow> ts_version p))
      in if t \<in> recov then None
         else (case (before, ts_version task) of
                 (Some b, Some a) \<Rightarrow> if b < a then Some (b, a) else None
               | _ \<Rightarrow> None))"

definition wake_version :: "context_record list \<Rightarrow> nat \<Rightarrow> nat \<Rightarrow> nat" where
  "wake_version records b a =
     list_max (map rec_version (filter (\<lambda>r. b < rec_version r \<and> rec_version r \<le> a \<and> isWakeNote r) records))"

definition scan_notes ::
    "world \<Rightarrow> string \<Rightarrow> (nat \<times> nat) option \<Rightarrow> context_record list \<Rightarrow> (string \<Rightarrow> nat option) \<times> engine \<Rightarrow> (string \<Rightarrow> nat option) \<times> engine" where
  "scan_notes w t bounds records s =
     (case (bounds, s) of
        (None, _) \<Rightarrow> s
      | (Some (b, a), (wakes, e)) \<Rightarrow>
          (if 0 < wake_version records b a then wakes(t \<mapsto> wake_version records b a) else wakes,
           with_lane (scanHumanWake (wd_date w) t records b a) e))"

definition decision_dedup ::
    "world \<Rightarrow> state_task list option \<Rightarrow> string set \<Rightarrow> state_task \<Rightarrow> string \<Rightarrow> (string \<Rightarrow> nat option) \<times> engine
      \<Rightarrow> catchup_dedup \<times> (string \<Rightarrow> nat option) \<times> engine" where
  "decision_dedup w prev recov task role s =
     (case s of (wakes, e) \<Rightarrow>
      let t = ts_task_id task; bounds = scan_bounds prev recov task e in
      (case engine_log w task e of
         (Some records, e) \<Rightarrow>
           (case scan_notes w t bounds records (wakes, e\<lparr>en_scans := (en_scans e)(t := None)\<rparr>) of
              (wakes, e) \<Rightarrow>
                ((case launchBlocked records role (wakes t) of Blocked v \<Rightarrow> Launched_at v | Fresh \<Rightarrow> Dedup_fresh), wakes, e))
       | (None, e) \<Rightarrow>
           (Dedup_unreadable, wakes,
            (case bounds of
               None \<Rightarrow> e
             | Some (b, _) \<Rightarrow> e\<lparr>en_scans := (en_scans e)(t \<mapsto>
                 \<lparr>ns_version = b, ns_status = ts_status task, ns_waiting = ts_waiting_for task\<rparr>)\<rparr>))))"

definition waiting_before :: "state_task list option \<Rightarrow> string \<Rightarrow> string" where
  "waiting_before prev t = (case prev_get prev t of None \<Rightarrow> NONE | Some p \<Rightarrow> ts_waiting_for p)"

definition action_of ::
    "state_task list option \<Rightarrow> string set \<Rightarrow> state_task \<Rightarrow> bool \<Rightarrow> catchup_dedup \<Rightarrow> nat option \<Rightarrow> decision_action" where
  "action_of prev recov task whitelisted dedup wake =
     (let edge = (waiting_before prev (ts_task_id task) \<noteq> ts_waiting_for task) in
      if ts_task_id task \<in> recov then Act_recovery
      else if autoGateReason task \<noteq> None then Act_gate
      else if \<not> whitelisted then Act_not_whitelisted
      else (case dedup of
              Dedup_fresh \<Rightarrow> (if prev = None then Act_baseline else if edge then Act_edge
                              else if wake \<noteq> None then Act_note else Act_no_edge)
            | Launched_at v \<Rightarrow> Act_already v
            | _ \<Rightarrow> (if prev \<noteq> None \<and> (edge \<or> wake \<noteq> None) then Act_reread else Act_unreadable)))"

definition decision_task ::
    "world \<Rightarrow> state_task list option \<Rightarrow> state_response \<Rightarrow> string set \<Rightarrow> (string \<Rightarrow> nat option) \<times> engine \<Rightarrow> state_task
      \<Rightarrow> (string \<Rightarrow> nat option) \<times> engine" where
  "decision_task w prev state recov s task =
     (case agent_role (ts_waiting_for task) of
        None \<Rightarrow> s
      | Some role \<Rightarrow>
          (let whitelisted = autoWhitelisted (sr_auto state) role in
           case (if autoGateReason task = None \<and> whitelisted then decision_dedup w prev recov task role s
                 else (if autoGateReason task \<noteq> None then Gate_withheld else Not_whitelisted, s)) of
             (dedup, wakes, e) \<Rightarrow>
               (wakes, emit (Decision (ts_task_id task) (autoGateReason task) whitelisted dedup
                  (action_of prev recov task whitelisted dedup (wakes (ts_task_id task))) (wakes (ts_task_id task))) e)))"

definition logAutoDecisions ::
    "world \<Rightarrow> state_task list option \<Rightarrow> state_response \<Rightarrow> string set \<Rightarrow> engine \<Rightarrow> (string \<Rightarrow> nat option) \<times> engine" where
  "logAutoDecisions w prev state recov e = foldl (decision_task w prev state recov) (\<lambda>_. None, e) (sr_tasks state)"

section \<open>One task of a poll\<close>

text \<open>\<open>closeTask\<close>: the audit version, the stop of the run, and whether panes are cleaned up too.\<close>

definition closeTask :: "world \<Rightarrow> state_task \<Rightarrow> engine \<Rightarrow> bool option \<times> engine" where
  "closeTask w after e =
     (let t = ts_task_id after;
          e = with_lane (\<lambda>l. l\<lparr>ln_pending := (ln_pending l)(t := None)\<rparr>) e in
      case engine_log w after e of
        (records, e) \<Rightarrow>
          (case ask (\<lambda>k. wd_knows w k t)
                  (emit (Close_run t (closeVersion (case records of None \<Rightarrow> [] | Some rs \<Rightarrow> rs))) e) of
             (False, e) \<Rightarrow> (needs_pane_cleanup [], e)
           | (True, e) \<Rightarrow>
               (case engine_log w after e of
                  (records, e) \<Rightarrow> (needs_pane_cleanup (case records of None \<Rightarrow> [] | Some rs \<Rightarrow> rs), e))))"

definition close_edge :: "world \<Rightarrow> state_task option \<Rightarrow> state_task \<Rightarrow> engine \<Rightarrow> bool \<times> engine" where
  "close_edge w before after e =
     (if (case before of None \<Rightarrow> False | Some b \<Rightarrow> ts_status b \<noteq> ''closed'') \<and> ts_status after = ''closed''
      then (case closeTask w after e of
              (None, e) \<Rightarrow> (False, e)
            | (Some cleanup, e) \<Rightarrow> (True, if cleanup then emit (Cleanup_panes (ts_task_id after)) e else e))
      else (True, e))"

definition merged_line :: "state_task option \<Rightarrow> state_task \<Rightarrow> effect list" where
  "merged_line before after =
     (case (Option.bind before ts_version, ts_version after) of
        (Some b, Some a) \<Rightarrow> if 1 < int a - int b then [Merged_transitions (ts_task_id after) b a] else []
      | _ \<Rightarrow> [])"

definition attention_rising :: "state_task option \<Rightarrow> state_task \<Rightarrow> bool" where
  "attention_rising before after \<longleftrightarrow> ts_needs_attention after \<and> map_option ts_needs_attention before \<noteq> Some True"

text \<open>The last part of \<open>diffTask\<close>: what the flow edge of one task does.\<close>

definition act_on_edge ::
    "world \<Rightarrow> state_task option \<Rightarrow> state_task \<Rightarrow> string \<Rightarrow> state_auto option \<Rightarrow> nat option \<Rightarrow> bool \<Rightarrow> engine \<Rightarrow> engine" where
  "act_on_edge w before after flowMode auto wake entering e =
     (let t = ts_task_id after;
          waited = (case before of None \<Rightarrow> NONE | Some b \<Rightarrow> ts_waiting_for b) in
      if attention_rising before after then emit (Notify (Attention_notice t)) e
      else if entering then e
      else if waited = ts_waiting_for after \<and> wake = None then e
      else if ts_waiting_for after = NONE then e
      else if flowMode \<noteq> ''auto'' then emit (Notify (Waiting_notice t (ts_waiting_for after))) e
      else (case autoGateReason after of
              Some gate \<Rightarrow> emit (Notify (Decision_notice t gate)) e
            | None \<Rightarrow>
                (let role = drop 6 (ts_waiting_for after) in
                 if \<not> autoWhitelisted auto role then emit (Notify (Withheld_notice t role)) e
                 else autoLaunch w after role wake e)))"

definition diffTask ::
    "world \<Rightarrow> state_task option \<Rightarrow> state_task \<Rightarrow> string \<Rightarrow> state_auto option \<Rightarrow> nat option \<Rightarrow> string set \<Rightarrow> engine
      \<Rightarrow> bool \<times> string set \<times> engine" where
  "diffTask w before after flowMode auto wake approvals e =
     (case close_edge w before after e of
        (False, e) \<Rightarrow> (False, approvals, e)
      | (True, e) \<Rightarrow>
          (case updatePendingApprovalEdge after (en_notices e) of
             (entering, n) \<Rightarrow>
               (let t = ts_task_id after;
                    e = emits ((if entering then [Host_report t ''pending_approval''] else []) @
                               (if attention_rising before after then [Host_report t ''needs_attention''] else []) @
                               merged_line before after) (e\<lparr>en_notices := n\<rparr>)
                in (True, if t \<in> pa_notify n then insert t approvals else approvals,
                    act_on_edge w before after flowMode auto wake entering e))))"

section \<open>One poll\<close>

definition scan_kept :: "state_task list option \<Rightarrow> state_response \<Rightarrow> string \<Rightarrow> note_scan \<Rightarrow> bool" where
  "scan_kept prev state t scan =
     (case snapshot_get (sr_tasks state) t of
        None \<Rightarrow> False
      | Some task \<Rightarrow>
          sr_flow_mode state = ''auto'' \<and> \<not> ts_needs_attention task \<and> ts_status task = ns_status scan \<and>
          ts_waiting_for task = ns_waiting scan \<and> autoWhitelisted (sr_auto state) (drop 6 (ts_waiting_for task)) \<and>
          (case ts_version task of
             None \<Rightarrow> False
           | Some v \<Rightarrow> (case Option.bind (prev_get prev t) ts_version of None \<Rightarrow> ns_version scan | Some p \<Rightarrow> p) \<le> v))"

definition set_delivery :: "state_task \<Rightarrow> (nat \<times> nat) option \<Rightarrow> engine \<Rightarrow> engine" where
  "set_delivery task b = with_lane (\<lambda>l. l\<lparr>ln_delivery := (ln_delivery l)(ts_task_id task := b)\<rparr>)"

text \<open>A version beyond the processed one: the run store says whether the interval is settled.\<close>

definition deliver_due :: "world \<Rightarrow> state_task \<Rightarrow> nat \<Rightarrow> engine \<Rightarrow> engine" where
  "deliver_due w task v e =
     (case ask (\<lambda>k. wd_busy w k (ts_task_id task)) e of
        (True, e) \<Rightarrow> e
      | (False, e) \<Rightarrow>
          (case engine_log w task e of
             (None, e) \<Rightarrow> e
           | (Some _, e) \<Rightarrow>
               (case ask (\<lambda>k. wd_deliver w k (ts_task_id task)) e of
                  (Some True, e) \<Rightarrow> set_delivery task (Some (v, v)) e
                | (_, e) \<Rightarrow> e)))"

definition deliver_task :: "world \<Rightarrow> engine \<Rightarrow> state_task \<Rightarrow> engine" where
  "deliver_task w e task =
     (case (ts_version task, ask (\<lambda>k. wd_knows w k (ts_task_id task)) e) of
        (None, _, e) \<Rightarrow> set_delivery task None e
      | (Some v, False, e) \<Rightarrow> set_delivery task None e
      | (Some v, True, e) \<Rightarrow>
          (case ln_delivery (en_lane e) (ts_task_id task) of
             None \<Rightarrow> set_delivery task (Some (v, v)) e
           | Some (processed, seen) \<Rightarrow>
               if v < seen then set_delivery task (Some (v, v)) e
               else if v \<le> processed then set_delivery task (Some (processed, v)) e
               else deliver_due w task v (set_delivery task (Some (processed, v)) e)))"

definition reconcileHeadlessDeliveries :: "world \<Rightarrow> state_response \<Rightarrow> engine \<Rightarrow> engine" where
  "reconcileHeadlessDeliveries w state e =
     (case ask (wd_mode w) e of
        (Some Detached, e) \<Rightarrow>
          foldl (deliver_task w)
            (with_lane (\<lambda>l. l\<lparr>ln_delivery := keep_only (set (task_ids state)) (ln_delivery l)\<rparr>) e) (sr_tasks state)
      | (_, e) \<Rightarrow> with_lane (\<lambda>l. l\<lparr>ln_delivery := (\<lambda>_. None)\<rparr>) e)"

definition catchup_task :: "world \<Rightarrow> state_response \<Rightarrow> engine \<Rightarrow> state_task \<Rightarrow> engine" where
  "catchup_task w state e task =
     (case agent_role (ts_waiting_for task) of
        None \<Rightarrow> e
      | Some role \<Rightarrow>
          (case (if autoGateReason task = None \<and> autoWhitelisted (sr_auto state) role then engine_log w task e
                 else (None, e)) of
             (records, e) \<Rightarrow>
               (let d = catchup_dedup_of autoGateReason (autoWhitelisted (sr_auto state)) (\<lambda>_. records) task role;
                    e = emit (Catchup \<lparr>cl_task_id = ts_task_id task, cl_role = role, cl_gate = autoGateReason task,
                                cl_dedup = d, cl_launch = catchup_launches d\<rparr>) e
                in if catchup_launches d then autoLaunch w task role None e else e)))"

definition runStartupCatchup :: "world \<Rightarrow> state_response \<Rightarrow> engine \<Rightarrow> engine" where
  "runStartupCatchup w state e =
     (if \<not> ln_armed (en_lane e) \<or> en_closed e then e
      else (case ask (wd_catchup w) (with_lane (\<lambda>l. l\<lparr>ln_armed := False\<rparr>) e) of
              (Some True, e) \<Rightarrow>
                (case ask (wd_mode w) e of
                   (Some Detached, e) \<Rightarrow>
                     (if sr_flow_mode state \<noteq> ''auto'' then e else foldl (catchup_task w state) e (sr_tasks state))
                 | (_, e) \<Rightarrow> e)
            | (_, e) \<Rightarrow> e))"

text \<open>The bookkeeping of one successful fetch, before any edge is acted on.\<close>

definition observe_state :: "world \<Rightarrow> state_response \<Rightarrow> int \<Rightarrow> engine \<Rightarrow> engine" where
  "observe_state w state now e =
     (let prev = en_snapshot e; present = set (task_ids state) in
      case ask (wd_stopped w) (e\<lparr>en_failures := 0\<rparr>) of
        (stops, e) \<Rightarrow>
          (let e = with_lane (\<lambda>l. lane_reconcilePresence present (observe_stops (wd_date w) stops l)) e;
               e = e\<lparr>en_snapshot := Some (sr_tasks state),
                     en_scans := (\<lambda>t. case en_scans e t of None \<Rightarrow> None
                                     | Some scan \<Rightarrow> if scan_kept prev state t scan then Some scan else None),
                     en_degraded := degraded_of state,
                     en_cache := reconcileLogCache state (map_option snapshot_get prev) (en_cache e)\<rparr>;
               e = reconcileHeadlessDeliveries w state e
           in observeFlowMode (sr_flow_mode state) now
                (e\<lparr>en_notices := reconcilePresence (task_ids state) (en_notices e)\<rparr>)))"

definition known_before :: "engine \<Rightarrow> string list" where
  "known_before e = (case en_snapshot e of None \<Rightarrow> [] | Some tasks \<Rightarrow> map ts_task_id tasks @ en_degraded e)"

definition storage_edges :: "string list \<Rightarrow> state_response \<Rightarrow> engine \<Rightarrow> string set \<times> engine" where
  "storage_edges before state e =
     (case diffDegraded before state (en_notices e) of
        (n, alerts, recov) \<Rightarrow> (recov, emits (map Notify alerts) (e\<lparr>en_notices := n\<rparr>)))"

definition baseline_poll :: "world \<Rightarrow> state_response \<Rightarrow> int \<Rightarrow> engine \<Rightarrow> engine" where
  "baseline_poll w state now e =
     (let e = snd (storage_edges [] state e);
          e = emit (Baseline_line (length (sr_tasks state)) (sr_flow_mode state))
                (e\<lparr>en_notices := baseline (sr_tasks state) now (en_notices e)\<rparr>);
          e = (if sr_flow_mode state = ''auto'' then snd (logAutoDecisions w None state {} e) else e)
      in runStartupCatchup w state e)"

definition ready_wake :: "world \<Rightarrow> state_response \<Rightarrow> state_task \<Rightarrow> engine \<Rightarrow> nat option \<times> engine" where
  "ready_wake w state task e =
     (case ask (\<lambda>k. wd_busy w k (ts_task_id task)) e of
        (busy, e) \<Rightarrow>
          (case takeReadyWake busy task state (en_lane e) of (v, l) \<Rightarrow> (v, e\<lparr>en_lane := l\<rparr>)))"

definition poll_task ::
    "world \<Rightarrow> state_task list option \<Rightarrow> state_response \<Rightarrow> int \<Rightarrow> string set \<Rightarrow> (string \<Rightarrow> nat option)
      \<Rightarrow> bool \<times> string set \<times> engine \<Rightarrow> state_task \<Rightarrow> bool \<times> string set \<times> engine" where
  "poll_task w prev state now recov wakes s after =
     (case s of
        (False, _, _) \<Rightarrow> s
      | (True, approvals, e) \<Rightarrow>
          (let t = ts_task_id after in
           if t \<in> recov then (True, approvals, e\<lparr>en_notices := recovered after now (en_notices e)\<rparr>)
           else (case ready_wake w state after e of
                   (ready, e) \<Rightarrow>
                     diffTask w (prev_get prev t) after (sr_flow_mode state) (sr_auto state)
                       (case wakes t of Some v \<Rightarrow> Some v | None \<Rightarrow> ready) approvals e)))"

definition finish_poll :: "world \<Rightarrow> int \<Rightarrow> state_response \<Rightarrow> int \<Rightarrow> bool \<times> string set \<times> engine \<Rightarrow> engine" where
  "finish_poll w stallMs state now s =
     (case s of
        (False, _, e) \<Rightarrow> emit Poll_crashed e
      | (True, approvals, e) \<Rightarrow>
          (if approvals \<noteq> {} \<and> notifyPendingApprovals state approvals = None then emit Poll_crashed e
           else (let e = (if approvals = {} then e
                          else emit (Notify (the (notifyPendingApprovals state approvals))) e);
                     e = e\<lparr>en_notices := completeApprovals approvals (en_notices e)\<rparr>
                 in (case checkStalls stallMs (sr_tasks state) now (en_notices e) of
                       (n, alerts) \<Rightarrow> emits (map Notify alerts) (e\<lparr>en_notices := n\<rparr>)))))"

definition edge_poll :: "world \<Rightarrow> int \<Rightarrow> state_task list \<Rightarrow> string list \<Rightarrow> state_response \<Rightarrow> int \<Rightarrow> engine \<Rightarrow> engine" where
  "edge_poll w stallMs prev before state now e =
     (case storage_edges before state e of
        (recov, e) \<Rightarrow>
          (case (if sr_flow_mode state = ''auto'' then logAutoDecisions w (Some prev) state recov e else (\<lambda>_. None, e)) of
             (wakes, e) \<Rightarrow>
               finish_poll w stallMs state now
                 (foldl (poll_task w (Some prev) state now recov (filterStoppedWakes (en_lane e) wakes))
                   (True, {}, e) (sr_tasks state))))"

text \<open>\<open>compareAndAct\<close>; \<open>en_out\<close> holds the effects of the poll.\<close>

definition compareAndAct :: "world \<Rightarrow> int \<Rightarrow> state_response option \<Rightarrow> int \<Rightarrow> engine \<Rightarrow> engine" where
  "compareAndAct w stallMs fetched now e =
     (let e = e\<lparr>en_out := []\<rparr> in
      case fetched of
        None \<Rightarrow> (if en_failures e = 0 then emit Poll_failed e else e)\<lparr>en_failures := Suc (en_failures e)\<rparr>
      | Some state \<Rightarrow>
          if en_closed e then e
          else (case en_snapshot e of
                  None \<Rightarrow> baseline_poll w state now (observe_state w state now e)
                | Some prev \<Rightarrow> edge_poll w stallMs prev (known_before e) state now (observe_state w state now e)))"

definition engine_close :: "engine \<Rightarrow> engine" where
  "engine_close e = e\<lparr>en_closed := True, en_scans := (\<lambda>_. None)\<rparr>"

definition notices_close :: "notices \<Rightarrow> notices" where
  "notices_close n = fresh_notices"

definition lane_close :: "lane \<Rightarrow> lane" where
  "lane_close l = fresh_lane\<lparr>ln_armed := False\<rparr>"

section \<open>Effects of the parts\<close>

definition is_launch :: "effect \<Rightarrow> bool" where
  "is_launch x = (case x of Tui_launch _ _ _ _ \<Rightarrow> True | Run_marker _ _ _ _ \<Rightarrow> True | Run_launch _ _ \<Rightarrow> True | _ \<Rightarrow> False)"

lemma is_launch_simps [simp]:
  "is_launch (Tui_launch t r b v)" "is_launch (Run_marker t r b g)" "is_launch (Run_launch t r)"
  "\<not> is_launch (Notify n)" "\<not> is_launch (Decision t gt wl dd ac wv)" "\<not> is_launch (Catchup cl)" "\<not> is_launch Poll_failed"
  "\<not> is_launch Poll_crashed" "\<not> is_launch (Baseline_line i m)" "\<not> is_launch (Mode_changed m m')" "\<not> is_launch (Mode_echo m)"
  "\<not> is_launch (Merged_transitions t i j)" "\<not> is_launch (Deferred t i)" "\<not> is_launch (Host_report t st)"
  "\<not> is_launch (Cleanup_panes t)" "\<not> is_launch (Close_run t ov)" "\<not> is_launch (Log_read t rs)" "\<not> is_launch (Marked t a)"
  by (simp_all add: is_launch_def)

text \<open>Each launch with what the poll had done and learnt before it.\<close>

fun moments :: "effect list \<Rightarrow> effect list \<Rightarrow> (effect list \<times> effect) list" where
  "moments h [] = []"
| "moments h (x # xs) = (if is_launch x then [(h, x)] else []) @ moments (h @ [x]) xs"

definition launches :: "engine \<Rightarrow> (effect list \<times> effect) list" where
  "launches e = moments [] (en_out e)"

lemma moments_append: "moments h (xs @ ys) = moments h xs @ moments (h @ xs) ys"
  by (induction xs arbitrary: h) simp_all

lemma moments_quiet: "filter is_launch ys = [] \<Longrightarrow> moments h ys = []"
  by (induction ys arbitrary: h) (simp_all split: if_split_asm)

lemma moments_nth: "i < length xs \<Longrightarrow> is_launch (xs ! i) \<Longrightarrow> (h @ take i xs, xs ! i) \<in> set (moments h xs)"
proof (induction xs arbitrary: h i)
  case (Cons x xs)
  then show ?case
  proof (cases i)
    case (Suc j)
    with Cons.IH [of j "h @ [x]"] Cons.prems show ?thesis by simp
  qed simp
qed simp

lemma launches_cong [simp]:
  "launches (e\<lparr>en_snapshot := a\<rparr>) = launches e" "launches (e\<lparr>en_degraded := b\<rparr>) = launches e"
  "launches (e\<lparr>en_failures := c\<rparr>) = launches e" "launches (e\<lparr>en_mode := d\<rparr>) = launches e"
  "launches (e\<lparr>en_echo := f\<rparr>) = launches e" "launches (e\<lparr>en_scans := g\<rparr>) = launches e"
  "launches (e\<lparr>en_notices := h\<rparr>) = launches e" "launches (e\<lparr>en_cache := i\<rparr>) = launches e"
  "launches (e\<lparr>en_lane := j\<rparr>) = launches e" "launches (e\<lparr>en_clock := k\<rparr>) = launches e"
  by (simp_all add: launches_def)

lemma emit_simps [simp]:
  "en_out (emit x e) = en_out e @ [x]" "en_notices (emit x e) = en_notices e" "en_lane (emit x e) = en_lane e"
  "en_closed (emit x e) = en_closed e"
  by (simp_all add: emit_def)

lemma launches_emit [simp]: "launches (emit x e) = launches e @ (if is_launch x then [(en_out e, x)] else [])"
  by (simp add: launches_def emit_def moments_append)

lemma launches_emits [simp]: "filter is_launch xs = [] \<Longrightarrow> launches (emits xs e) = launches e"
  by (simp add: launches_def emits_def moments_append moments_quiet)

lemma launches_with_lane [simp]: "launches (with_lane f e) = launches e"
  by (simp add: with_lane_def)

lemma ask_iff: "ask q e = (x, e') \<longleftrightarrow> x = q (en_clock e) \<and> e' = e\<lparr>en_clock := Suc (en_clock e)\<rparr>"
  by (auto simp: ask_def)

lemma launches_log: "engine_log w task e = (r, e') \<Longrightarrow> launches e' = launches e"
  by (auto simp: engine_log_def Let_def split: option.split_asm)

lemma launches_skipped [simp]: "launches (autoLaunchSkipped task v e) = launches e"
  and launches_failed [simp]: "launches (autoLaunchFailed task e) = launches e"
  and launches_defer [simp]: "launches (deferNoteWake task u e) = launches e"
  by (simp_all add: autoLaunchSkipped_def autoLaunchFailed_def deferNoteWake_def)

lemma launches_after_conflict [simp]: "launches (after_conflict w task role online e) = launches e"
  by (auto simp: after_conflict_def ask_def Let_def split: option.split)

text \<open>
  What a launch of one task must have seen, in the history \<open>h\<close> of the poll before it: the log it read
  last, in which the role is not blocked and whose latest version it is bound to; and for a detached
  run the Hub's acceptance of its marker, and then the marker.
\<close>

definition last_log :: "string \<Rightarrow> effect list \<Rightarrow> context_record list option" where
  "last_log t h =
     foldl (\<lambda>found x. case x of Log_read u records \<Rightarrow> if u = t then Some records else found | _ \<Rightarrow> found) None h"

definition marked_last :: "string \<Rightarrow> effect list \<Rightarrow> bool" where
  "marked_last t h \<longleftrightarrow> h \<noteq> [] \<and> List.last h = Marked t Mark_ok"

definition marker_last :: "string \<Rightarrow> string \<Rightarrow> effect list \<Rightarrow> bool" where
  "marker_last t role h \<longleftrightarrow> h \<noteq> [] \<and> (case List.last h of Run_marker u r _ _ \<Rightarrow> u = t \<and> r = role | _ \<Rightarrow> False)"

definition cleared :: "world \<Rightarrow> state_task \<Rightarrow> string \<Rightarrow> nat option \<Rightarrow> effect list \<Rightarrow> effect \<Rightarrow> bool" where
  "cleared w task role wake h x =
     (case x of
        Tui_launch t r base v \<Rightarrow>
          t = ts_task_id task \<and> r = role \<and> v = wake \<and> (ts_version task = None \<or> ts_version task = Some base) \<and>
          (\<exists>k. wd_mode w k = Some Tui) \<and>
          (\<exists>records. last_log t h = Some records \<and> launchBlocked records role wake = Fresh \<and>
             base = latestRecordVersion records)
      | Run_marker t r base trigger \<Rightarrow>
          t = ts_task_id task \<and> r = role \<and> ts_version task = Some base \<and>
          (\<exists>k. wd_mode w k = Some Detached) \<and> (\<exists>k. wd_plan w k t role) \<and> marked_last t h \<and>
          (\<exists>records online. last_log t h = Some records \<and>
             launchBlocked records role (online_wake records online) = Fresh \<and>
             trigger = gn_trigger (headlessGeneration records role online) \<and> base = latestRecordVersion records)
      | Run_launch t r \<Rightarrow> t = ts_task_id task \<and> r = role \<and> marker_last t role h
      | _ \<Rightarrow> False)"

lemma last_log_snoc [simp]:
  "last_log t (h @ [x]) = (case x of Log_read u records \<Rightarrow> if u = t then Some records else last_log t h | _ \<Rightarrow> last_log t h)"
  by (cases x) (simp_all add: last_log_def)

lemma log_is_last:
  "engine_log w task e = (Some records, e') \<Longrightarrow> last_log (ts_task_id task) (en_out e') = Some records"
proof -
  have "last_log t (en_out (emit (Log_read t rs) e)) = Some rs" for t rs e
    by (simp add: emit_def)
  then show "engine_log w task e = (Some records, e') \<Longrightarrow> ?thesis"
    unfolding engine_log_def Let_def by (auto split: option.split_asm)
qed

definition adds_cleared :: "world \<Rightarrow> state_task \<Rightarrow> string \<Rightarrow> nat option \<Rightarrow> engine \<Rightarrow> engine \<Rightarrow> bool" where
  "adds_cleared w task role wake e e' \<longleftrightarrow>
     (\<forall>x\<in>set (launches e'). x \<in> set (launches e) \<or> cleared w task role wake (fst x) (snd x))"

lemma adds_same [intro]: "launches e' = launches e \<Longrightarrow> adds_cleared w task role wake e e'"
  by (simp add: adds_cleared_def)

lemma adds_cong: "launches e1 = launches e \<Longrightarrow> adds_cleared w task role wake e1 e' \<Longrightarrow> adds_cleared w task role wake e e'"
  by (simp add: adds_cleared_def)

lemma gn_blocked_iff: "gn_blocked (headlessGeneration records role online) \<longleftrightarrow> launchBlocked records role (online_wake records online) \<noteq> Fresh"
  by (simp add: headlessGeneration_def split: prod.split)

lemma adds_mark_and_launch:
  assumes "last_log (ts_task_id task) (en_out e) = Some records"
    and "\<not> gn_blocked (headlessGeneration records role online)"
    and "run_plan w k task role records = Some base" and "wd_mode w k' = Some Detached"
  shows "adds_cleared w task role wake e
    (mark_and_launch w task role base (gn_trigger (headlessGeneration records role online)) online e)"
proof -
  let ?t = "ts_task_id task"
  let ?m = "Run_marker ?t role base (gn_trigger (headlessGeneration records role online))"
  have "cleared w task role wake (en_out e @ [Marked ?t Mark_ok]) ?m"
    using assms by (auto simp: cleared_def marked_last_def gn_blocked_iff run_plan_def split: if_split_asm)
  moreover have "cleared w task role wake (en_out e @ [Marked ?t Mark_ok, ?m]) (Run_launch ?t role)"
    by (simp add: cleared_def marker_last_def)
  ultimately show ?thesis
    by (auto simp: mark_and_launch_def ask_def adds_cleared_def launched_def Let_def split: mark_result.split)
qed

lemma adds_headless:
  assumes "wd_mode w k' = Some Detached"
  shows "adds_cleared w task role wake e (autoLaunchHeadless w task role e)"
proof -
  obtain r e1 where log: "engine_log w task e = (r, e1)"
    by (cases "engine_log w task e")
  note same = launches_log [OF log]
  show ?thesis
  proof (cases r)
    case None
    then show ?thesis by (auto simp: autoLaunchHeadless_def log same)
  next
    case (Some records)
    have "adds_cleared w task role wake e
        (mark_and_launch w task role base (gn_trigger (headlessGeneration records role online)) online e2)"
      if "launches e2 = launches e" "en_out e2 = en_out e1" "run_plan w k task role records = Some base"
        "\<not> gn_blocked (headlessGeneration records role online)" for base online e2 k
      using adds_mark_and_launch [OF _ that(4,3) assms] log_is_last [OF log [unfolded Some]] that(1,2)
      by (intro adds_cong [OF that(1)]) simp
    then show ?thesis
      by (auto simp: autoLaunchHeadless_def log Some same ask_def Let_def split: option.split)
  qed
qed

lemma bindLaunchBaseVersion_Inr:
  "bindLaunchBaseVersion sv lv = Inr base \<longleftrightarrow> lv \<le> MAX_SAFE_INTEGER \<and> base = lv \<and> (sv = None \<or> sv = Some lv)"
  by (auto simp: bindLaunchBaseVersion_def split: option.split)

lemma adds_tui:
  assumes "wd_mode w k = Some Tui"
  shows "adds_cleared w task role wake e (tui_launch w task role wake e)"
proof -
  obtain r e1 where log: "engine_log w task e = (r, e1)"
    by (cases "engine_log w task e")
  note same = launches_log [OF log]
  show ?thesis
  proof (cases r)
    case None
    then show ?thesis by (auto simp: tui_launch_def log same split: option.split)
  next
    case (Some records)
    have "cleared w task role wake (en_out e1) (Tui_launch (ts_task_id task) role base wake)"
      if "bindLaunchBaseVersion (ts_version task) (latestRecordVersion records) = Inr base"
        "launchBlocked records role wake = Fresh" for base
      using log_is_last [OF log [unfolded Some]] that assms by (auto simp: cleared_def bindLaunchBaseVersion_Inr)
    then show ?thesis
      by (auto simp: tui_launch_def log Some same adds_cleared_def split: option.split launch_decision.split sum.split)
  qed
qed

lemma adds_by_mode: "adds_cleared w task role wake e (launch_by_mode w task role wake e)"
proof -
  let ?e = "e\<lparr>en_clock := Suc (en_clock e)\<rparr>"
  have "wd_mode w (en_clock e) = Some Detached \<Longrightarrow> adds_cleared w task role wake e (autoLaunchHeadless w task role ?e)"
    and "wd_mode w (en_clock e) = Some Tui \<Longrightarrow> adds_cleared w task role wake e (tui_launch w task role wake ?e)"
    by (rule adds_cong [OF _ adds_headless] adds_cong [OF _ adds_tui], simp, assumption)+
  then show ?thesis
    by (auto simp: launch_by_mode_def ask_def split: option.split launch_mode.split)
qed

definition launchable :: "state_task \<Rightarrow> string \<Rightarrow> bool" where
  "launchable task role \<longleftrightarrow> ts_waiting_for task = agent_waiting role \<and> \<not> ts_needs_attention task \<and>
     ts_status task \<in> {''designing'', ''implementing'', ''reviewing'', ''revising''}"

lemma auto_gate_Inr: "assertLaunchStateGate (auto_request task role) (Some task) = Inr u \<longleftrightarrow> launchable task role"
  by (auto simp: assertLaunchStateGate_def auto_request_def launchable_def)

text \<open>The evidence of one automatic launch: the task is launchable and idle, and the launch cleared.\<close>

definition granted :: "world \<Rightarrow> state_task \<Rightarrow> string \<Rightarrow> nat option \<Rightarrow> effect list \<times> effect \<Rightarrow> bool" where
  "granted w task role wake x \<longleftrightarrow>
     cleared w task role wake (fst x) (snd x) \<and> launchable task role \<and> (\<exists>k. \<not> wd_busy w k (ts_task_id task))"

lemma adds_autoLaunch:
  assumes "x \<in> set (launches (autoLaunch w task role wake e))"
  shows "x \<in> set (launches e) \<or> granted w task role wake x"
proof (cases "en_closed e \<or> \<not> launchable task role")
  case True
  then have "launches (autoLaunch w task role wake e) = launches e"
    by (cases "assertLaunchStateGate (auto_request task role) (Some task)") (auto simp: autoLaunch_def auto_gate_Inr)
  with assms show ?thesis by simp
next
  case False
  obtain busy e1 where b: "ask (\<lambda>k. wd_busy w k (ts_task_id task)) e = (busy, e1)"
    by (cases "ask (\<lambda>k. wd_busy w k (ts_task_id task)) e")
  have same: "launches e1 = launches e"
    using b by (auto simp: ask_iff)
  obtain stop l where c: "coalesceBusy busy task role wake (en_lane e1) = (stop, l)"
    by (cases "coalesceBusy busy task role wake (en_lane e1)")
  have idle: "\<exists>k. \<not> wd_busy w k (ts_task_id task)" if "\<not> stop"
    using that b c by (auto simp: ask_iff coalesceBusy_def Let_def split: if_split_asm)
  from False obtain u where "assertLaunchStateGate (auto_request task role) (Some task) = Inr u"
    by (auto simp: auto_gate_Inr)
  with False b c have "autoLaunch w task role wake e =
      (if stop then e1\<lparr>en_lane := l\<rparr> else launch_by_mode w task role wake (e1\<lparr>en_lane := l\<rparr>))"
    by (simp add: autoLaunch_def)
  with assms same idle adds_by_mode [of w task role wake "e1\<lparr>en_lane := l\<rparr>"] False show ?thesis
    by (auto simp: adds_cleared_def granted_def split: if_split_asm)
qed

section \<open>The parts that never launch\<close>

lemma launches_decision_dedup:
  "decision_dedup w prev recov task role s = (d, wakes, e') \<Longrightarrow> launches e' = launches (snd s)"
proof -
  assume d: "decision_dedup w prev recov task role s = (d, wakes, e')"
  obtain v e where s: "s = (v, e)" by (cases s)
  obtain r e1 where log: "engine_log w task e = (r, e1)" by (cases "engine_log w task e")
  note same = launches_log [OF log]
  from d same show ?thesis
    by (auto simp: decision_dedup_def s log scan_notes_def Let_def split: option.split_asm prod.split_asm)
qed

lemma launches_decision_task: "launches (snd (decision_task w prev state recov s task)) = launches (snd s)"
proof (cases "agent_role (ts_waiting_for task)")
  case None
  then show ?thesis by (simp add: decision_task_def)
next
  case (Some role)
  obtain d v e where r: "decision_dedup w prev recov task role s = (d, v, e)"
    by (cases "decision_dedup w prev recov task role s")
  note same = launches_decision_dedup [OF r]
  obtain v0 e0 where s: "s = (v0, e0)" by (cases s)
  from r same show ?thesis by (simp add: decision_task_def Some Let_def s)
qed

lemma launches_decisions [simp]: "launches (snd (logAutoDecisions w prev state recov e)) = launches e"
proof -
  have "launches (snd (foldl (decision_task w prev state recov) s tasks)) = launches (snd s)" for s tasks
    by (induction tasks arbitrary: s) (simp_all add: launches_decision_task)
  then show ?thesis by (simp add: logAutoDecisions_def)
qed

lemma launches_set_delivery [simp]: "launches (set_delivery task b e) = launches e"
  by (simp add: set_delivery_def)

lemma launches_deliver_due [simp]: "launches (deliver_due w task v e) = launches e"
proof -
  obtain r e1 where log: "engine_log w task (e\<lparr>en_clock := Suc (en_clock e)\<rparr>) = (r, e1)"
    by (cases "engine_log w task (e\<lparr>en_clock := Suc (en_clock e)\<rparr>)")
  with launches_log [OF log] show ?thesis
    by (simp add: deliver_due_def ask_def split: option.split bool.split)
qed

lemma launches_deliver [simp]: "launches (deliver_task w e task) = launches e"
  by (simp add: deliver_task_def ask_def split: option.split prod.split bool.split)

lemma launches_deliveries [simp]: "launches (reconcileHeadlessDeliveries w state e) = launches e"
proof -
  have "launches (foldl (deliver_task w) e tasks) = launches e" for e tasks
    by (induction tasks arbitrary: e) simp_all
  then show ?thesis
    by (auto simp: reconcileHeadlessDeliveries_def ask_def split: option.split launch_mode.split)
qed

lemma launches_flow_mode [simp]: "launches (observeFlowMode mode now e) = launches e"
  by (auto simp: observeFlowMode_def split: option.split)

lemma launches_observe [simp]: "launches (observe_state w state now e) = launches e"
  by (simp add: observe_state_def ask_def Let_def split: prod.split)

lemma launches_storage: "storage_edges before state e = (recov, e') \<Longrightarrow> launches e' = launches e"
  by (auto simp: storage_edges_def filter_empty_conv split: prod.split_asm)

lemma launches_closeTask: "closeTask w after e = (r, e') \<Longrightarrow> launches e' = launches e"
  by (auto simp: closeTask_def Let_def ask_def split: prod.split_asm bool.split_asm dest!: launches_log)

lemma launches_close_edge: "close_edge w before after e = (ok, e') \<Longrightarrow> launches e' = launches e"
  by (auto simp: close_edge_def split: prod.split_asm option.split_asm if_split_asm dest!: launches_closeTask)

lemma launches_finish [simp]: "launches (finish_poll w ms state now s) = launches (snd (snd s))"
  by (auto simp: finish_poll_def Let_def filter_empty_conv split: prod.split bool.split)

section \<open>What a poll launches\<close>

text \<open>The conditions under which the effect \<open>x\<close> may launch \<open>task\<close> on a state document.\<close>

definition permitted :: "world \<Rightarrow> state_response \<Rightarrow> state_task \<Rightarrow> string \<Rightarrow> nat option \<Rightarrow> effect list \<times> effect \<Rightarrow> bool" where
  "permitted w state task role wake x \<longleftrightarrow>
     sr_flow_mode state = ''auto'' \<and> autoWhitelisted (sr_auto state) role \<and> granted w task role wake x"

lemma act_on_edge_launches:
  assumes "x \<in> set (launches (act_on_edge w before after (sr_flow_mode state) (sr_auto state) wake entering e))"
  shows "x \<in> set (launches e) \<or>
    (\<exists>role. permitted w state after role wake x \<and>
      ((case before of None \<Rightarrow> NONE | Some b \<Rightarrow> ts_waiting_for b) \<noteq> ts_waiting_for after \<or> wake \<noteq> None))"
proof (rule disjCI)
  assume new: "\<not> (\<exists>role. permitted w state after role wake x \<and>
      ((case before of None \<Rightarrow> NONE | Some b \<Rightarrow> ts_waiting_for b) \<noteq> ts_waiting_for after \<or> wake \<noteq> None))"
  show "x \<in> set (launches e)"
  proof (rule ccontr)
    assume out: "x \<notin> set (launches e)"
    with assms have auto: "sr_flow_mode state = ''auto''" "autoWhitelisted (sr_auto state) (drop 6 (ts_waiting_for after))"
      and edge: "(case before of None \<Rightarrow> NONE | Some b \<Rightarrow> ts_waiting_for b) \<noteq> ts_waiting_for after \<or> wake \<noteq> None"
      and l: "x \<in> set (launches (autoLaunch w after (drop 6 (ts_waiting_for after)) wake e))"
      by (auto simp: act_on_edge_def Let_def split: if_split_asm option.split_asm)
    from adds_autoLaunch [OF l] out auto have "permitted w state after (drop 6 (ts_waiting_for after)) wake x"
      by (simp add: permitted_def)
    with new edge show False by blast
  qed
qed

lemma merged_line_launches [simp]: "filter is_launch (merged_line before after) = []"
  by (auto simp: merged_line_def split: option.split)

lemma diffTask_launches:
  assumes "diffTask w before after (sr_flow_mode state) (sr_auto state) wake approvals e = (ok, approvals', e')"
    and "x \<in> set (launches e')"
  shows "x \<in> set (launches e) \<or>
    (\<exists>role. permitted w state after role wake x \<and>
      ((case before of None \<Rightarrow> NONE | Some b \<Rightarrow> ts_waiting_for b) \<noteq> ts_waiting_for after \<or> wake \<noteq> None))"
proof -
  obtain ok1 e1 where c: "close_edge w before after e = (ok1, e1)"
    by (cases "close_edge w before after e")
  note same = launches_close_edge [OF c]
  obtain entering n where u: "updatePendingApprovalEdge after (en_notices e1) = (entering, n)"
    by (cases "updatePendingApprovalEdge after (en_notices e1)")
  show ?thesis
  proof (cases ok1)
    case False
    with assms c same show ?thesis by (simp add: diffTask_def)
  next
    case True
    let ?e = "emits ((if entering then [Host_report (ts_task_id after) ''pending_approval''] else []) @
      (if attention_rising before after then [Host_report (ts_task_id after) ''needs_attention''] else []) @
      merged_line before after) (e1\<lparr>en_notices := n\<rparr>)"
    from True assms(1) c u have "e' = act_on_edge w before after (sr_flow_mode state) (sr_auto state) wake entering ?e"
      by (simp add: diffTask_def Let_def)
    with assms(2) have "x \<in> set (launches (act_on_edge w before after (sr_flow_mode state) (sr_auto state) wake entering ?e))"
      by simp
    moreover have "launches ?e = launches e"
      using same by (simp add: filter_append)
    ultimately show ?thesis
      using act_on_edge_launches by metis
  qed
qed

definition edge_permitted :: "world \<Rightarrow> state_task list \<Rightarrow> state_response \<Rightarrow> string set \<Rightarrow> effect list \<times> effect \<Rightarrow> bool" where
  "edge_permitted w prev state recov x \<longleftrightarrow>
     (\<exists>task role wake. task \<in> set (sr_tasks state) \<and> ts_task_id task \<notin> recov \<and> permitted w state task role wake x \<and>
        (waiting_before (Some prev) (ts_task_id task) \<noteq> ts_waiting_for task \<or> wake \<noteq> None))"

lemma poll_task_launches:
  assumes "x \<in> set (launches (snd (snd (poll_task w (Some prev) state now recov wakes s task))))"
    and "task \<in> set (sr_tasks state)"
  shows "x \<in> set (launches (snd (snd s))) \<or> edge_permitted w prev state recov x"
proof -
  obtain ok approvals e where s: "s = (ok, approvals, e)" by (cases s)
  show ?thesis
  proof (cases "ok \<and> ts_task_id task \<notin> recov")
    case False
    with assms show ?thesis by (cases ok) (auto simp: poll_task_def s)
  next
    case True
    obtain busy e1 where b: "ask (\<lambda>k. wd_busy w k (ts_task_id task)) e = (busy, e1)"
      by (cases "ask (\<lambda>k. wd_busy w k (ts_task_id task)) e")
    obtain ready l where r: "takeReadyWake busy task state (en_lane e1) = (ready, l)"
      by (cases "takeReadyWake busy task state (en_lane e1)")
    define wake where "wake = (case wakes (ts_task_id task) of Some v \<Rightarrow> Some v | None \<Rightarrow> ready)"
    obtain ok' ap' e' where d: "diffTask w (prev_get (Some prev) (ts_task_id task)) task (sr_flow_mode state) (sr_auto state)
        wake approvals (e1\<lparr>en_lane := l\<rparr>) = (ok', ap', e')"
      by (cases "diffTask w (prev_get (Some prev) (ts_task_id task)) task (sr_flow_mode state) (sr_auto state)
        wake approvals (e1\<lparr>en_lane := l\<rparr>)")
    have x: "x \<in> set (launches e')"
      using assms(1) True b r d by (simp add: poll_task_def s Let_def ready_wake_def flip: wake_def)
    have "launches (e1\<lparr>en_lane := l\<rparr>) = launches e"
      using b by (simp add: ask_iff)
    with diffTask_launches [OF d x] assms(2) True show ?thesis
      by (auto simp: s edge_permitted_def waiting_before_def)
  qed
qed

lemma poll_tasks_launches:
  assumes "x \<in> set (launches (snd (snd (foldl (poll_task w (Some prev) state now recov wakes) s tasks))))"
    and "set tasks \<subseteq> set (sr_tasks state)"
  shows "x \<in> set (launches (snd (snd s))) \<or> edge_permitted w prev state recov x"
  using assms
proof (induction tasks arbitrary: s)
  case Nil
  then show ?case by simp
next
  case (Cons task tasks)
  then show ?case using poll_task_launches [of x w prev state now recov wakes s task] by fastforce
qed

lemma edge_poll_launches:
  assumes "x \<in> set (launches (edge_poll w ms prev before state now e))"
  shows "x \<in> set (launches e) \<or> edge_permitted w prev state (fst (storage_edges before state e)) x"
proof -
  obtain recov e1 where st: "storage_edges before state e = (recov, e1)"
    by (cases "storage_edges before state e")
  obtain wakes e2 where l: "(if sr_flow_mode state = ''auto'' then logAutoDecisions w (Some prev) state recov e1 else (\<lambda>_. None, e1))
      = (wakes, e2)"
    by (cases "if sr_flow_mode state = ''auto'' then logAutoDecisions w (Some prev) state recov e1 else (\<lambda>_. None, e1)")
  have "launches e2 = launches e1"
    using l launches_decisions [of w "Some prev" state recov e1] by (metis snd_conv)
  moreover have "launches e1 = launches e"
    by (rule launches_storage [OF st])
  moreover have "x \<in> set (launches (snd (snd (foldl (poll_task w (Some prev) state now recov (filterStoppedWakes (en_lane e2) wakes))
      (True, {}, e2) (sr_tasks state)))))"
    using assms l by (simp add: edge_poll_def st)
  ultimately show ?thesis
    using poll_tasks_launches by (fastforce simp: st)
qed

section \<open>What the startup launches\<close>

definition catchup_permitted :: "world \<Rightarrow> state_response \<Rightarrow> effect list \<times> effect \<Rightarrow> bool" where
  "catchup_permitted w state x \<longleftrightarrow>
     (\<exists>k. wd_catchup w k = Some True) \<and> (\<exists>k. wd_mode w k = Some Detached) \<and>
     (\<exists>task role. task \<in> set (sr_tasks state) \<and> permitted w state task role None x)"

lemma catchup_task_launches:
  assumes "x \<in> set (launches (catchup_task w state e task))"
  shows "x \<in> set (launches e) \<or>
    (\<exists>role. granted w task role None x \<and> autoWhitelisted (sr_auto state) role)"
proof (cases "agent_role (ts_waiting_for task)")
  case None
  with assms show ?thesis by (simp add: catchup_task_def)
next
  case (Some role)
  obtain records e1 where r: "(if autoGateReason task = None \<and> autoWhitelisted (sr_auto state) role then engine_log w task e else (None, e))
      = (records, e1)"
    by (metis surj_pair)
  have same: "launches e1 = launches e"
    using r by (auto split: if_split_asm dest: launches_log)
  let ?d = "catchup_dedup_of autoGateReason (autoWhitelisted (sr_auto state)) (\<lambda>_. records) task role"
  have wl: "autoWhitelisted (sr_auto state) role" if "catchup_launches ?d"
    using that by (auto simp: catchup_dedup_of_def catchup_launches_def split: if_split_asm)
  show ?thesis
  proof (cases "catchup_launches ?d")
    case False
    with assms r same Some show ?thesis by (simp add: catchup_task_def Let_def)
  next
    case True
    with assms r Some have "x \<in> set (launches (autoLaunch w task role None (emit (Catchup
        \<lparr>cl_task_id = ts_task_id task, cl_role = role, cl_gate = autoGateReason task, cl_dedup = ?d, cl_launch = True\<rparr>) e1)))"
      by (simp add: catchup_task_def Let_def)
    from adds_autoLaunch [OF this] same wl [OF True] show ?thesis by auto
  qed
qed

lemma catchup_launches_permitted:
  assumes "x \<in> set (launches (runStartupCatchup w state e))"
  shows "x \<in> set (launches e) \<or> catchup_permitted w state x"
proof -
  have tasks: "x \<in> set (launches e) \<or> (\<exists>task role. task \<in> set tasks \<and> granted w task role None x \<and>
      autoWhitelisted (sr_auto state) role)"
    if "x \<in> set (launches (foldl (catchup_task w state) e tasks))" for tasks e
    using that
  proof (induction tasks arbitrary: e)
    case Nil
    then show ?case by simp
  next
    case (Cons task tasks)
    then show ?case using catchup_task_launches [of x w state e task] by fastforce
  qed
  from assms show ?thesis
    by (auto simp: runStartupCatchup_def ask_def catchup_permitted_def permitted_def
        split: if_split_asm option.split_asm bool.split_asm launch_mode.split_asm dest!: tasks)
qed

lemma baseline_launches:
  assumes "x \<in> set (launches (baseline_poll w state now e))"
  shows "x \<in> set (launches e) \<or> catchup_permitted w state x"
proof -
  obtain recov e1 where st: "storage_edges [] state e = (recov, e1)"
    by (cases "storage_edges [] state e")
  from assms launches_storage [OF st] show ?thesis
    by (auto simp: baseline_poll_def Let_def st dest!: catchup_launches_permitted split: if_split_asm)
qed

section \<open>The recovery edge\<close>

lemma notices_log: "engine_log w task e = (r, e') \<Longrightarrow> en_notices e' = en_notices e"
  by (auto simp: engine_log_def Let_def split: option.split_asm)

lemma notices_set_delivery [simp]: "en_notices (set_delivery task b e) = en_notices e"
  by (simp add: set_delivery_def with_lane_def)

lemma notices_deliver_due [simp]: "en_notices (deliver_due w task v e) = en_notices e"
proof -
  obtain r e1 where log: "engine_log w task (e\<lparr>en_clock := Suc (en_clock e)\<rparr>) = (r, e1)"
    by (cases "engine_log w task (e\<lparr>en_clock := Suc (en_clock e)\<rparr>)")
  with notices_log [OF log] show ?thesis
    by (simp add: deliver_due_def ask_def split: option.split bool.split)
qed

lemma notices_deliveries: "en_notices (reconcileHeadlessDeliveries w state e) = en_notices e"
proof -
  have "en_notices (deliver_task w e task) = en_notices e" for e task
    by (simp add: deliver_task_def ask_def split: option.split prod.split bool.split)
  then have "en_notices (foldl (deliver_task w) e tasks) = en_notices e" for e tasks
    by (induction tasks arbitrary: e) simp_all
  then show ?thesis
    by (auto simp: reconcileHeadlessDeliveries_def ask_def with_lane_def split: option.split launch_mode.split)
qed

lemma notices_observe: "en_notices (observe_state w state now e) = reconcilePresence (task_ids state) (en_notices e)"
proof -
  have "en_notices (observeFlowMode mode now e) = en_notices e" for mode e
    by (auto simp: observeFlowMode_def emit_def split: option.split)
  then show ?thesis
    by (simp add: observe_state_def ask_def Let_def notices_deliveries with_lane_def split: prod.split)
qed

lemma recovery_edge:
  assumes "storage_edges before state (observe_state w state now e) = (recov, e')"
    and "t \<in> set (task_ids state)" and "t \<notin> recov"
  shows "t \<notin> vanished_alerted (en_notices e)" and "t \<in> degraded_alerted (en_notices e) \<Longrightarrow> t \<in> set (degraded_of state)"
  using assms
  by (auto simp: storage_edges_def notices_observe diffDegraded_def Let_def reconcilePresence_def known_ids_def)

section \<open>Properties\<close>


definition quiet_world :: world where
  "quiet_world = \<lparr>wd_incremental = False, wd_pull = (\<lambda>_ _ _. None), wd_read = (\<lambda>_ _. Some [sample_content 1]),
     wd_mode = (\<lambda>_. Some Tui), wd_catchup = (\<lambda>_. Some False), wd_plan = (\<lambda>_ _ _. False), wd_mark = (\<lambda>_ _. Mark_failed),
     wd_busy = (\<lambda>_ _. False), wd_knows = (\<lambda>_ _. False), wd_stopped = (\<lambda>_. []), wd_deliver = (\<lambda>_ _. None),
     wd_date = (\<lambda>_. None)\<rparr>"

definition auto_state :: "state_task list \<Rightarrow> state_response" where
  "auto_state tasks = \<lparr>sr_flow_mode = ''auto'', sr_tasks = tasks, sr_degraded = None, sr_notify = None,
     sr_auto = Some \<lparr>sa_remediate = None, sa_launch_roles = Some (JArr [JStr ''executor''])\<rparr>\<rparr>"

definition watching :: engine where
  "watching = fresh_engine\<lparr>en_snapshot := Some [], en_mode := Some ''auto''\<rparr>"

definition one_task :: state_response where
  "one_task = auto_state [waiting_task]"

lemma one_task_simps [simp]: "sr_tasks one_task = [waiting_task]" "sr_flow_mode one_task = ''auto''" "sr_degraded one_task = None"
  "task_ids one_task = [''t'']" "degraded_of one_task = []" "autoWhitelisted (sr_auto one_task) ''executor''"
  by (simp_all add: one_task_def auto_state_def task_ids_def degraded_of_def autoWhitelisted_def waiting_task_def)

lemma waiting_task_simps [simp]: "ts_task_id waiting_task = ''t''" "ts_waiting_for waiting_task = ''agent:executor''"
  "ts_version waiting_task = Some 1" "ts_needs_attention waiting_task = False" "ts_status waiting_task = ''implementing''"
  "agent_role ''agent:executor'' = Some ''executor''" "autoGateReason waiting_task = None"
  by (simp_all add: waiting_task_def agent_role_def starts_with_def autoGateReason_def)

lemma quiet_world_simps [simp]: "wd_mode quiet_world k = Some Tui" "wd_busy quiet_world k t = False" "wd_stopped quiet_world k = []"
  by (simp_all add: quiet_world_def)

lemma keep_only_None [simp]: "keep_only present (\<lambda>_. None) = (\<lambda>_. None)"
  by (simp add: keep_only_def fun_eq_iff)

lemma quiet_log [simp]: "engine_log quiet_world task e = (Some [sample_content 1],
    emit (Log_read (ts_task_id task) [sample_content 1]) (e\<lparr>en_clock := Suc (en_clock e)\<rparr>))"
  by (simp add: engine_log_def fullLog_def quiet_world_def Let_def)

lemma quiet_observe:
  "\<exists>k. observe_state quiet_world one_task 10 watching = watching\<lparr>en_snapshot := Some [waiting_task], en_clock := k\<rparr>"
  by (rule exI [of _ 2])
    (simp add: observe_state_def ask_def observe_stops_def lane_reconcilePresence_def with_lane_def
      reconcileHeadlessDeliveries_def observeFlowMode_def watching_def fresh_engine_def fresh_lane_def
      reconcileLogCache_def reconcilePresence_def fresh_notices_def FLOW_MODE_ECHO_INTERVAL_MS_def)

lemma quiet_poll_launches:
  "Tui_launch ''t'' ''executor'' 1 None \<in> set (en_out (compareAndAct quiet_world 30 (Some one_task) 10 watching))"
proof -
  obtain k where o: "observe_state quiet_world one_task 10 watching = watching\<lparr>en_snapshot := Some [waiting_task], en_clock := k\<rparr>"
    using quiet_observe by blast
  have w: "watching\<lparr>en_out := []\<rparr> = watching" by (simp add: watching_def fresh_engine_def)
  have snap: "en_snapshot watching = Some []" "\<not> en_closed watching" by (simp_all add: watching_def fresh_engine_def)
  let ?e = "watching\<lparr>en_snapshot := Some [waiting_task], en_clock := k\<rparr>"
  have st: "storage_edges (known_before watching) one_task ?e = ({}, ?e)"
    by (simp add: storage_edges_def diffDegraded_def known_before_def watching_def fresh_engine_def fresh_notices_def
      first_seen_def emits_def)
  have d: "\<exists>e2. logAutoDecisions quiet_world (Some []) one_task {} ?e = (\<lambda>_. None, e2) \<and> en_lane e2 = fresh_lane \<and>
     en_notices e2 = fresh_notices \<and> en_closed e2 = False"
    by (simp add: logAutoDecisions_def decision_task_def decision_dedup_def quiet_log scan_bounds_def scan_notes_def
      prev_get_def snapshot_get_def find_task_def emit_def watching_def fresh_engine_def Let_def)
  then obtain e2 where d2: "logAutoDecisions quiet_world (Some []) one_task {} ?e = (\<lambda>_. None, e2)" and
    e2: "en_lane e2 = fresh_lane" "en_notices e2 = fresh_notices" "en_closed e2 = False" by blast
  have launch: "Tui_launch ''t'' ''executor'' 1 None \<in> set (en_out (autoLaunch quiet_world waiting_task ''executor'' None e))"
    if "en_closed e = False" for e
    by (simp add: autoLaunch_def that assertLaunchStateGate_def auto_request_def ask_def coalesceBusy_def agent_waiting_def
      launch_by_mode_def tui_launch_def launchBlocked_def block_step_def wake_boundary_def sample_content_def
      latestRecordVersion_def bindLaunchBaseVersion_def MAX_SAFE_INTEGER_def emit_def)
  have diff: "\<exists>e'. diffTask quiet_world None waiting_task ''auto'' (sr_auto one_task) None {} e = (True, {}, e') \<and>
     Tui_launch ''t'' ''executor'' 1 None \<in> set (en_out e')" if "en_closed e = False" "en_notices e = fresh_notices" for e
    using that by (simp add: diffTask_def close_edge_def updatePendingApprovalEdge_def attention_rising_def merged_line_def
      act_on_edge_def NONE_def launch emits_def fresh_notices_def del: One_nat_def)
  have finish: "x \<in> set (en_out e) \<Longrightarrow> x \<in> set (en_out (finish_poll quiet_world 30 one_task 10 (True, {}, e)))" for e x
    by (auto simp: finish_poll_def Let_def emits_def split: prod.split)
  obtain e3 where r: "ready_wake quiet_world one_task waiting_task e2 = (None, e3)" and
    e3: "en_closed e3 = False" "en_notices e3 = fresh_notices"
    by (simp add: ready_wake_def ask_def takeReadyWake_def e2 fresh_lane_def Let_def)
  obtain e4 where p: "poll_task quiet_world (Some []) one_task 10 {} (\<lambda>_. None) (True, {}, e2) waiting_task = (True, {}, e4)"
    and e4: "Tui_launch ''t'' ''executor'' 1 None \<in> set (en_out e4)"
    using diff [OF e3] r by (auto simp: poll_task_def prev_get_def snapshot_get_def find_task_def)
  have "compareAndAct quiet_world 30 (Some one_task) 10 watching =
      edge_poll quiet_world 30 [] (known_before watching) one_task 10 ?e"
    by (simp add: compareAndAct_def w o snap)
  also have "\<dots> = finish_poll quiet_world 30 one_task 10 (True, {}, e4)"
    by (simp add: edge_poll_def st d2 filterStoppedWakes_def forget_def p e2 fresh_lane_def)
  finally show ?thesis
    using finish [OF e4] by simp
qed


end
