(* ===== verification/Run_Meta.thy ===== *)
theory Run_Meta
  imports Launch
begin

text \<open>
  The run archive: the shape of \<open>meta.json\<close> and its validators, \<open>src/core/run/store.ts\<close>,
  \<open>src/core/run/validation.ts\<close> and \<open>src/core/run/protocol.ts\<close>.

  A validator is a predicate on JSON that is false where the code throws.  The record \<open>run_meta\<close> is
  what the program builds and updates; \<open>run_json\<close> is what it writes; \<open>run_ok\<close> states what a well
  formed meta is without mentioning JSON, and \<open>validateMeta\<close> accepts the JSON exactly then.  Whether
  \<open>Date.parse\<close> returns a finite number is the argument \<open>date\<close>; the Windows protocol's own validator
  is the argument \<open>windows\<close>.
\<close>

section \<open>Reading unknown values\<close>

definition truthy_string :: "json option \<Rightarrow> bool" where
  "truthy_string v = (case v of Some (JStr s) \<Rightarrow> s \<noteq> [] | _ \<Rightarrow> False)"

definition is_string :: "json option \<Rightarrow> bool" where
  "is_string v \<longleftrightarrow> string_of v \<noteq> None"

definition absent_or :: "(json option \<Rightarrow> bool) \<Rightarrow> json option \<Rightarrow> bool" where
  "absent_or p v \<longleftrightarrow> v = None \<or> p v"

definition one_of :: "string list \<Rightarrow> json option \<Rightarrow> bool" where
  "one_of ss v = (case v of Some (JStr s) \<Rightarrow> s \<in> set ss | _ \<Rightarrow> False)"

definition safe_int :: "json option \<Rightarrow> int option" where
  "safe_int v = (case v of
       Some (JNum q) \<Rightarrow> if is_integer q \<and> \<bar>\<lfloor>q\<rfloor>\<bar> \<le> int MAX_SAFE_INTEGER then Some \<lfloor>q\<rfloor> else None
     | _ \<Rightarrow> None)"

definition date_string :: "(string \<Rightarrow> bool) \<Rightarrow> json option \<Rightarrow> bool" where
  "date_string date v = (case v of Some (JStr s) \<Rightarrow> date s | _ \<Rightarrow> False)"

text \<open>
  The text a regular expression is tested on: a string, or a one-element array, which
  \<open>RegExp.test\<close> turns into its element.  Other values print to texts none of the patterns here accept.
\<close>

fun coerced_text :: "json \<Rightarrow> string option" where
  "coerced_text (JStr s) = Some s"
| "coerced_text (JArr [v]) = coerced_text v"
| "coerced_text _ = None"

definition matches_text :: "(string \<Rightarrow> bool) \<Rightarrow> json option \<Rightarrow> bool" where
  "matches_text p v = (case Option.bind v coerced_text of None \<Rightarrow> False | Some s \<Rightarrow> p s)"

definition string_items :: "json option \<Rightarrow> bool" where
  "string_items v = (case v of Some (JArr xs) \<Rightarrow> list_all (\<lambda>x. is_string (Some x)) xs | _ \<Rightarrow> False)"

definition is_hex :: "char \<Rightarrow> bool" where
  "is_hex c \<longleftrightarrow> c \<in> set ''0123456789abcdef''"

definition dec_digit :: "char \<Rightarrow> bool" where
  "dec_digit c \<longleftrightarrow> c \<in> set ''0123456789''"

text \<open>The patterns \<open>^\d{8}T\d{9}Z-[a-f0-9]{8}$\<close> and \<open>^[a-f0-9-]{36}$\<close>, and \<open>path.isAbsolute\<close> on POSIX.\<close>

definition run_id_text :: "string \<Rightarrow> bool" where
  "run_id_text s \<longleftrightarrow> length s = 28 \<and> list_all dec_digit (take 8 s) \<and> s ! 8 = CHR ''T'' \<and>
     list_all dec_digit (take 9 (drop 9 s)) \<and> s ! 18 = CHR ''Z'' \<and> s ! 19 = CHR ''-'' \<and> list_all is_hex (drop 20 s)"

definition uuid_text :: "string \<Rightarrow> bool" where
  "uuid_text s \<longleftrightarrow> length s = 36 \<and> list_all (\<lambda>c. is_hex c \<or> c = CHR ''-'') s"

definition absolute_path :: "string \<Rightarrow> bool" where
  "absolute_path s \<longleftrightarrow> starts_with ''/'' s"

definition absolute_string :: "json option \<Rightarrow> bool" where
  "absolute_string v = (case v of Some (JStr s) \<Rightarrow> absolute_path s | _ \<Rightarrow> False)"

definition validId :: "string \<Rightarrow> bool" where
  "validId i = run_id_text i"

definition validPid :: "json option \<Rightarrow> bool" where
  "validPid v = (case safe_int v of None \<Rightarrow> False | Some p \<Rightarrow> 1 < p)"

section \<open>Provenance\<close>

definition CONTROL_PROTOCOL :: string where "CONTROL_PROTOCOL = ''cooperative-v1''"

definition WINDOWS_PROTOCOL :: string where "WINDOWS_PROTOCOL = ''windows-console-v1''"

definition STOP_SCOPE :: string where "STOP_SCOPE = ''root-and-original-group''"

definition validateResumeSource :: "(string \<Rightarrow> bool) \<Rightarrow> json \<Rightarrow> bool" where
  "validateResumeSource date r \<longleftrightarrow>
     jget r ''schema'' = Some (JNum 1) \<and> matches_text run_id_text (jget r ''from_run_id'') \<and> truthy_string (jget r ''agent'') \<and>
     truthy_string (jget r ''session_id'') \<and> one_of [''observed'', ''designated'', ''argv''] (jget r ''identity'') \<and>
     date_string date (jget r ''requested_at'') \<and> truthy_string (jget r ''requested_by'') \<and>
     absent_or is_string (jget r ''task_id'')"

definition validateHeadlessOwnership :: "json \<Rightarrow> bool" where
  "validateHeadlessOwnership h \<longleftrightarrow>
     jget h ''schema'' = Some (JNum 1) \<and> one_of [''architect'', ''executor'', ''reviewer''] (jget h ''role'') \<and>
     (case string_of (jget h ''attempt_id'') of None \<Rightarrow> False | Some s \<Rightarrow> uuid_text s) \<and>
     (case (safe_int (jget h ''base_version''), safe_int (jget h ''trigger_version'')) of
        (Some b, Some g) \<Rightarrow> 0 \<le> b \<and> 0 \<le> g \<and> g \<le> b
      | _ \<Rightarrow> False) \<and>
     (case jget h ''route'' of
        None \<Rightarrow> False
      | Some route \<Rightarrow> truthy_string (jget route ''agent'') \<and> string_items (jget route ''args'')) \<and>
     is_string (jget h ''route_source'') \<and> is_string (jget h ''session_reason'') \<and>
     absent_or (matches_text uuid_text) (jget h ''designated_session_id'')"

text \<open>The two startup reservations.\<close>

definition STARTUP_STATES :: "string list" where
  "STARTUP_STATES = [''pending'', ''failed'']"

definition validStartIntent :: "json \<Rightarrow> bool" where
  "validStartIntent v \<longleftrightarrow>
     truthy_string (jget v ''task_id'') \<and> absolute_string (jget v ''cwd'') \<and> one_of STARTUP_STATES (jget v ''startup'') \<and>
     (case jget v ''headless'' of None \<Rightarrow> False | Some h \<Rightarrow> validateHeadlessOwnership h)"

definition validResumeIntent :: "json \<Rightarrow> bool" where
  "validResumeIntent v \<longleftrightarrow>
     jget v ''schema'' = Some (JNum 1) \<and> matches_text run_id_text (jget v ''from_run_id'') \<and> is_string (jget v ''agent'') \<and>
     truthy_string (jget v ''session_id'') \<and> absolute_string (jget v ''cwd'') \<and> one_of STARTUP_STATES (jget v ''startup'')"

section \<open>The control protocol\<close>

definition SIGNALS :: "string list" where
  "SIGNALS = [''SIGINT'', ''SIGTERM'', ''SIGKILL'']"

definition DELIVERIES :: "string list" where
  "DELIVERIES = [''uncertain'', ''sent'', ''esrch'', ''error'']"

definition PHASES :: "string list" where
  "PHASES = [''requested'', ''cooperative'', ''term'', ''kill'', ''completed'', ''incomplete'']"

definition OUTCOMES :: "string list" where
  "OUTCOMES = [''cooperative'', ''forced-term'', ''forced-kill'', ''already-ended'', ''incomplete'']"

definition stop_id_text :: "string \<Rightarrow> bool" where
  "stop_id_text s \<longleftrightarrow> length s = 32 \<and> list_all is_hex s"

definition validate_signal :: "(string \<Rightarrow> bool) \<Rightarrow> int \<Rightarrow> int \<Rightarrow> json \<Rightarrow> bool" where
  "validate_signal date pid pgid a \<longleftrightarrow>
     one_of SIGNALS (jget a ''signal'') \<and>
     jget a ''target'' = Some (JNum (of_int (if jget a ''signal'' = Some (JStr ''SIGINT'') then pid else - pgid))) \<and>
     date_string date (jget a ''intended_at'') \<and> one_of DELIVERIES (jget a ''delivery'') \<and>
     absent_or (date_string date) (jget a ''sent_at'')"

definition validate_result :: "(string \<Rightarrow> bool) \<Rightarrow> bool \<Rightarrow> string option \<Rightarrow> json \<Rightarrow> bool" where
  "validate_result date ended phase r \<longleftrightarrow>
     one_of OUTCOMES (jget r ''outcome'') \<and> date_string date (jget r ''completed_at'') \<and>
     jget r ''group_alive'' \<in> {Some (JBool True), Some (JBool False), Some JNull} \<and>
     jget r ''scope'' = Some (JStr STOP_SCOPE) \<and> jget r ''descendants_check'' = Some (JStr ''not-performed'') \<and>
     (case (jget r ''success'', jget r ''root_exited'') of
        (Some (JBool success), Some (JBool root_exited)) \<Rightarrow>
          success = (jget r ''outcome'' \<noteq> Some (JStr ''incomplete'')) \<and>
          (if success then root_exited \<and> jget r ''group_alive'' = Some (JBool False) \<and> ended \<and> phase = Some ''completed''
           else phase = Some ''incomplete'')
      | _ \<Rightarrow> False)"

definition validate_stop :: "(string \<Rightarrow> bool) \<Rightarrow> json \<Rightarrow> int \<Rightarrow> int \<Rightarrow> json \<Rightarrow> bool" where
  "validate_stop date m pid pgid r \<longleftrightarrow>
     (case string_of (jget r ''id'') of None \<Rightarrow> False | Some s \<Rightarrow> stop_id_text s) \<and> date_string date (jget r ''requested_at'') \<and>
     truthy_string (jget r ''requested_by'') \<and> jget r ''requested_at'' = jget m ''stopped_at'' \<and>
     jget r ''requested_by'' = jget m ''stopped_by'' \<and> jget m ''status'' = Some (JStr ''stopped'') \<and>
     one_of PHASES (jget r ''phase'') \<and>
     (case jget r ''signals'' of
        Some (JArr signals) \<Rightarrow> length signals \<le> 3 \<and> list_all (validate_signal date pid pgid) signals
      | _ \<Rightarrow> False) \<and>
     (case jget r ''result'' of
        None \<Rightarrow> jget r ''phase'' \<notin> {Some (JStr ''completed''), Some (JStr ''incomplete'')}
      | Some result \<Rightarrow> validate_result date (truthy_string (jget m ''ended_at'')) (string_of (jget r ''phase'')) result)"

definition validateControlMeta :: "(string \<Rightarrow> bool) \<Rightarrow> (json \<Rightarrow> bool) \<Rightarrow> json \<Rightarrow> int \<Rightarrow> int \<Rightarrow> bool" where
  "validateControlMeta date windows m pid pgid \<longleftrightarrow>
     (case jget m ''control_protocol'' of
        None \<Rightarrow> True
      | Some (JStr p) \<Rightarrow>
          if p = WINDOWS_PROTOCOL then windows m
          else if p \<noteq> CONTROL_PROTOCOL then True
          else (case jget m ''stop_request'' of None \<Rightarrow> True | Some r \<Rightarrow> validate_stop date m pid pgid r)
      | Some _ \<Rightarrow> False)"

section \<open>The meta\<close>

definition STATUSES :: "string list" where
  "STATUSES = [''running'', ''stopped'', ''exited'']"

definition argv_ok :: "json option \<Rightarrow> bool" where
  "argv_ok v = (case v of
       Some (JArr (x # xs)) \<Rightarrow>
         truthy_string (Some x) \<and> list_all (\<lambda>y. case y of JStr s \<Rightarrow> CHR 0x00 \<notin> set s | _ \<Rightarrow> False) (x # xs)
     | _ \<Rightarrow> False)"

definition validate_identity :: "(string \<Rightarrow> bool) \<Rightarrow> json \<Rightarrow> string \<Rightarrow> (int \<times> int) option" where
  "validate_identity date m i =
     (if jget m ''run_id'' = Some (JStr i) \<and> validPid (jget m ''pid'') \<and> jget m ''pgid'' = jget m ''pid'' \<and>
         validPid (jget m ''supervisor_pid'') \<and> jget m ''supervisor_pid'' \<noteq> jget m ''pgid'' \<and> argv_ok (jget m ''argv'') \<and>
         one_of STATUSES (jget m ''status'') \<and> date_string date (jget m ''started_at'') \<and>
         absolute_string (jget m ''cwd'') \<and> absent_or is_string (jget m ''task_id'')
      then map_option (\<lambda>p. (p, p)) (safe_int (jget m ''pid'')) else None)"

definition validate_optional :: "(string \<Rightarrow> bool) \<Rightarrow> json \<Rightarrow> bool" where
  "validate_optional date m \<longleftrightarrow>
     absent_or (date_string date) (jget m ''ended_at'') \<and> absent_or (date_string date) (jget m ''stopped_at'') \<and>
     absent_or (\<lambda>v. case safe_int v of None \<Rightarrow> False | Some c \<Rightarrow> 0 \<le> c) (jget m ''exit_code'') \<and>
     absent_or is_string (jget m ''stopped_by'') \<and> absent_or is_string (jget m ''agent_session_id'') \<and>
     absent_or is_string (jget m ''exit_signal'') \<and> absent_or absolute_string (jget m ''checkout'') \<and>
     (jget m ''status'' = Some (JStr ''stopped'') \<longrightarrow> truthy_string (jget m ''stopped_at'') \<and> truthy_string (jget m ''stopped_by''))"

definition validateMeta :: "(string \<Rightarrow> bool) \<Rightarrow> (json \<Rightarrow> bool) \<Rightarrow> string \<Rightarrow> json \<Rightarrow> bool" where
  "validateMeta date windows i m =
     (case validate_identity date m i of
        None \<Rightarrow> False
      | Some (pid, pgid) \<Rightarrow>
          validate_optional date m \<and>
          (case jget m ''headless'' of None \<Rightarrow> True | Some h \<Rightarrow> validateHeadlessOwnership h) \<and>
          (case jget m ''resume'' of None \<Rightarrow> True | Some r \<Rightarrow> validateResumeSource date r) \<and>
          absent_or (date_string date) (jget m ''root_exited_at'') \<and>
          validateControlMeta date windows m pid pgid)"

section \<open>What the program writes\<close>

datatype stop_signal = SIGINT | SIGTERM | SIGKILL

datatype delivery = Uncertain | Delivered | No_process | Delivery_error

datatype stop_phase = Requested | Cooperative | Term | Kill | Completed | Incomplete

datatype stop_outcome = Was_cooperative | Forced_term | Forced_kill | Already_ended | Not_complete

datatype run_status = Running | Stopped | Exited

record signal_attempt =
  sa_signal :: stop_signal
  sa_target :: int
  sa_intended_at :: string
  sa_delivery :: delivery
  sa_sent_at :: "string option"
  sa_error :: "string option"

record stop_result =
  sv_outcome :: stop_outcome
  sv_success :: bool
  sv_completed_at :: string
  sv_root_exited :: bool
  sv_group_alive :: "bool option"
  sv_exit_code :: "int option"
  sv_exit_signal :: "string option"
  sv_error :: "string option"

record stop_request =
  sq_id :: string
  sq_requested_at :: string
  sq_requested_by :: string
  sq_phase :: stop_phase
  sq_accepted_at :: "string option"
  sq_leader_exited :: bool
  sq_signals :: "signal_attempt list"
  sq_result :: "stop_result option"

record run_meta =
  rm_run_id :: string
  rm_task_id :: "string option"
  rm_pid :: int
  rm_pgid :: int
  rm_argv :: "string list"
  rm_started_at :: string
  rm_status :: run_status
  rm_supervisor :: int
  rm_cwd :: string
  rm_checkout :: "string option"
  rm_headless :: "json option"
  rm_root_exited_at :: "string option"
  rm_session :: "string option"
  rm_exit_code :: "int option"
  rm_exit_signal :: "string option"
  rm_ended_at :: "string option"
  rm_stopped_by :: "string option"
  rm_stopped_at :: "string option"
  rm_probe :: "string option"
  rm_ack :: "string option"
  rm_protocol :: "string option"
  rm_stop :: "stop_request option"
  rm_windows :: "json option"
  rm_resume :: "json option"

text \<open>\<open>complete\<close>: terminal evidence, and a stop request only when it succeeded.\<close>

definition complete :: "run_meta \<Rightarrow> bool" where
  "complete m \<longleftrightarrow>
     (case rm_ended_at m of None \<Rightarrow> False | Some s \<Rightarrow> s \<noteq> []) \<and>
     (case rm_stop m of
        None \<Rightarrow> True
      | Some r \<Rightarrow> (case sq_result r of None \<Rightarrow> False | Some res \<Rightarrow> sv_success res))"

definition signal_name :: "stop_signal \<Rightarrow> string" where
  "signal_name s = (case s of SIGINT \<Rightarrow> ''SIGINT'' | SIGTERM \<Rightarrow> ''SIGTERM'' | SIGKILL \<Rightarrow> ''SIGKILL'')"

definition delivery_name :: "delivery \<Rightarrow> string" where
  "delivery_name d = (case d of Uncertain \<Rightarrow> ''uncertain'' | Delivered \<Rightarrow> ''sent'' | No_process \<Rightarrow> ''esrch'' | Delivery_error \<Rightarrow> ''error'')"

definition phase_name :: "stop_phase \<Rightarrow> string" where
  "phase_name p = (case p of Requested \<Rightarrow> ''requested'' | Cooperative \<Rightarrow> ''cooperative'' | Term \<Rightarrow> ''term'' | Kill \<Rightarrow> ''kill''
     | Completed \<Rightarrow> ''completed'' | Incomplete \<Rightarrow> ''incomplete'')"

definition outcome_name :: "stop_outcome \<Rightarrow> string" where
  "outcome_name x = (case x of Was_cooperative \<Rightarrow> ''cooperative'' | Forced_term \<Rightarrow> ''forced-term'' | Forced_kill \<Rightarrow> ''forced-kill''
     | Already_ended \<Rightarrow> ''already-ended'' | Not_complete \<Rightarrow> ''incomplete'')"

definition run_status_name :: "run_status \<Rightarrow> string" where
  "run_status_name s = (case s of Running \<Rightarrow> ''running'' | Stopped \<Rightarrow> ''stopped'' | Exited \<Rightarrow> ''exited'')"

definition attempt_json :: "signal_attempt \<Rightarrow> json" where
  "attempt_json a = JObj ([(''signal'', JStr (signal_name (sa_signal a))), (''target'', JNum (of_int (sa_target a))),
      (''intended_at'', JStr (sa_intended_at a)), (''delivery'', JStr (delivery_name (sa_delivery a)))]
     @ opt_field ''sent_at'' (map_option JStr (sa_sent_at a)) @ opt_field ''error'' (map_option JStr (sa_error a)))"

definition stop_result_json :: "stop_result \<Rightarrow> json" where
  "stop_result_json r = JObj ([(''outcome'', JStr (outcome_name (sv_outcome r))), (''success'', JBool (sv_success r)),
      (''completed_at'', JStr (sv_completed_at r)), (''root_exited'', JBool (sv_root_exited r)),
      (''group_alive'', case sv_group_alive r of None \<Rightarrow> JNull | Some b \<Rightarrow> JBool b)]
     @ opt_field ''exit_code'' (map_option (\<lambda>c. JNum (of_int c)) (sv_exit_code r))
     @ opt_field ''exit_signal'' (map_option JStr (sv_exit_signal r))
     @ [(''scope'', JStr STOP_SCOPE), (''descendants_check'', JStr ''not-performed'')]
     @ opt_field ''error'' (map_option JStr (sv_error r)))"

definition stop_json :: "stop_request \<Rightarrow> json" where
  "stop_json r = JObj ([(''id'', JStr (sq_id r)), (''requested_at'', JStr (sq_requested_at r)),
      (''requested_by'', JStr (sq_requested_by r)), (''phase'', JStr (phase_name (sq_phase r)))]
     @ opt_field ''accepted_at'' (map_option JStr (sq_accepted_at r))
     @ (if sq_leader_exited r then [(''reason'', JStr ''leader-already-exited'')] else [])
     @ [(''signals'', JArr (map attempt_json (sq_signals r)))]
     @ opt_field ''result'' (map_option stop_result_json (sq_result r)))"

definition run_json :: "run_meta \<Rightarrow> json" where
  "run_json m = JObj ([(''run_id'', JStr (rm_run_id m)), (''pid'', JNum (of_int (rm_pid m))), (''pgid'', JNum (of_int (rm_pgid m))),
      (''argv'', JArr (map JStr (rm_argv m))), (''cwd'', JStr (rm_cwd m)), (''supervisor_pid'', JNum (of_int (rm_supervisor m))),
      (''started_at'', JStr (rm_started_at m)), (''status'', JStr (run_status_name (rm_status m)))]
     @ opt_field ''task_id'' (map_option JStr (rm_task_id m)) @ opt_field ''checkout'' (map_option JStr (rm_checkout m))
     @ opt_field ''headless'' (rm_headless m) @ opt_field ''root_exited_at'' (map_option JStr (rm_root_exited_at m))
     @ opt_field ''agent_session_id'' (map_option JStr (rm_session m))
     @ opt_field ''exit_code'' (map_option (\<lambda>c. JNum (of_int c)) (rm_exit_code m))
     @ opt_field ''exit_signal'' (map_option JStr (rm_exit_signal m)) @ opt_field ''ended_at'' (map_option JStr (rm_ended_at m))
     @ opt_field ''stopped_by'' (map_option JStr (rm_stopped_by m)) @ opt_field ''stopped_at'' (map_option JStr (rm_stopped_at m))
     @ opt_field ''identity_probe'' (map_option JStr (rm_probe m)) @ opt_field ''identity_ack'' (map_option JStr (rm_ack m))
     @ opt_field ''control_protocol'' (map_option JStr (rm_protocol m)) @ opt_field ''stop_request'' (map_option stop_json (rm_stop m))
     @ opt_field ''windows'' (rm_windows m) @ opt_field ''resume'' (rm_resume m))"

text \<open>\<open>assertRunIdentity\<close>: the fields of a run that never change.\<close>

definition sameRunIdentity :: "run_meta \<Rightarrow> run_meta \<Rightarrow> bool" where
  "sameRunIdentity m initial \<longleftrightarrow>
     (rm_protocol m = Some WINDOWS_PROTOCOL \<longrightarrow>
        Option.bind (rm_windows m) (\<lambda>w. jget w ''identity'') = Option.bind (rm_windows initial) (\<lambda>w. jget w ''identity'')) \<and>
     rm_run_id m = rm_run_id initial \<and> rm_pid m = rm_pid initial \<and> rm_pgid m = rm_pgid initial \<and>
     rm_supervisor m = rm_supervisor initial \<and> rm_started_at m = rm_started_at initial \<and> rm_cwd m = rm_cwd initial \<and>
     rm_protocol m = rm_protocol initial"

section \<open>Well-formed metas\<close>

definition attempt_ok :: "(string \<Rightarrow> bool) \<Rightarrow> run_meta \<Rightarrow> signal_attempt \<Rightarrow> bool" where
  "attempt_ok date m a \<longleftrightarrow>
     sa_target a = (if sa_signal a = SIGINT then rm_pid m else - rm_pgid m) \<and> date (sa_intended_at a) \<and>
     (case sa_sent_at a of None \<Rightarrow> True | Some s \<Rightarrow> date s)"

definition result_ok :: "(string \<Rightarrow> bool) \<Rightarrow> run_meta \<Rightarrow> stop_phase \<Rightarrow> stop_result \<Rightarrow> bool" where
  "result_ok date m phase r \<longleftrightarrow>
     date (sv_completed_at r) \<and> (sv_success r \<longleftrightarrow> sv_outcome r \<noteq> Not_complete) \<and>
     (if sv_success r then sv_root_exited r \<and> sv_group_alive r = Some False \<and> rm_ended_at m \<noteq> None \<and> phase = Completed
      else phase = Incomplete)"

definition request_ok :: "(string \<Rightarrow> bool) \<Rightarrow> run_meta \<Rightarrow> stop_request \<Rightarrow> bool" where
  "request_ok date m r \<longleftrightarrow>
     stop_id_text (sq_id r) \<and> date (sq_requested_at r) \<and> sq_requested_by r \<noteq> [] \<and>
     rm_stopped_at m = Some (sq_requested_at r) \<and> rm_stopped_by m = Some (sq_requested_by r) \<and> rm_status m = Stopped \<and>
     length (sq_signals r) \<le> 3 \<and> list_all (attempt_ok date m) (sq_signals r) \<and>
     (case sq_result r of None \<Rightarrow> sq_phase r \<notin> {Completed, Incomplete} | Some res \<Rightarrow> result_ok date m (sq_phase r) res)"

definition option_ok :: "('a \<Rightarrow> bool) \<Rightarrow> 'a option \<Rightarrow> bool" where
  "option_ok p v = (case v of None \<Rightarrow> True | Some x \<Rightarrow> p x)"

definition run_ok :: "(string \<Rightarrow> bool) \<Rightarrow> run_meta \<Rightarrow> bool" where
  "run_ok date m \<longleftrightarrow>
     1 < rm_pid m \<and> rm_pid m \<le> int MAX_SAFE_INTEGER \<and> rm_pgid m = rm_pid m \<and>
     1 < rm_supervisor m \<and> rm_supervisor m \<le> int MAX_SAFE_INTEGER \<and> rm_supervisor m \<noteq> rm_pgid m \<and>
     rm_argv m \<noteq> [] \<and> hd (rm_argv m) \<noteq> [] \<and> list_all (\<lambda>s. CHR 0x00 \<notin> set s) (rm_argv m) \<and>
     date (rm_started_at m) \<and> absolute_path (rm_cwd m) \<and>
     option_ok date (rm_ended_at m) \<and> option_ok date (rm_stopped_at m) \<and> option_ok date (rm_root_exited_at m) \<and>
     option_ok (\<lambda>c. 0 \<le> c \<and> c \<le> int MAX_SAFE_INTEGER) (rm_exit_code m) \<and> option_ok absolute_path (rm_checkout m) \<and>
     (rm_status m = Stopped \<longrightarrow> rm_stopped_at m \<noteq> None \<and> rm_stopped_by m \<notin> {None, Some []}) \<and>
     option_ok validateHeadlessOwnership (rm_headless m) \<and> option_ok (validateResumeSource date) (rm_resume m) \<and>
     rm_protocol m \<noteq> Some WINDOWS_PROTOCOL \<and>
     (rm_protocol m = Some CONTROL_PROTOCOL \<longrightarrow> option_ok (request_ok date m) (rm_stop m))"

section \<open>The validator on what the program writes\<close>

lemma opt_field_get: "map_of (opt_field k v @ ob) k' = (if k' = k \<and> v \<noteq> None then v else map_of ob k')"
  by (auto simp: opt_field_def map_add_def split: option.split)

lemma opt_field_get1: "map_of (opt_field k v) k' = (if k' = k then v else None)"
  by (auto simp: opt_field_def split: option.split)

lemmas field_get = opt_field_get opt_field_get1

lemma attempt_json_fields:
  "jget (attempt_json a) ''signal'' = Some (JStr (signal_name (sa_signal a)))"
  "jget (attempt_json a) ''target'' = Some (JNum (of_int (sa_target a)))"
  "jget (attempt_json a) ''intended_at'' = Some (JStr (sa_intended_at a))"
  "jget (attempt_json a) ''delivery'' = Some (JStr (delivery_name (sa_delivery a)))"
  "jget (attempt_json a) ''sent_at'' = map_option JStr (sa_sent_at a)"
  by (simp_all add: attempt_json_def field_get del: map_of_append split: if_split)

lemma result_json_fields:
  "jget (stop_result_json r) ''outcome'' = Some (JStr (outcome_name (sv_outcome r)))"
  "jget (stop_result_json r) ''success'' = Some (JBool (sv_success r))"
  "jget (stop_result_json r) ''completed_at'' = Some (JStr (sv_completed_at r))"
  "jget (stop_result_json r) ''root_exited'' = Some (JBool (sv_root_exited r))"
  "jget (stop_result_json r) ''group_alive'' = Some (case sv_group_alive r of None \<Rightarrow> JNull | Some b \<Rightarrow> JBool b)"
  "jget (stop_result_json r) ''scope'' = Some (JStr STOP_SCOPE)"
  "jget (stop_result_json r) ''descendants_check'' = Some (JStr ''not-performed'')"
  by (simp_all add: stop_result_json_def field_get del: map_of_append split: if_split)

lemma stop_json_fields:
  "jget (stop_json r) ''id'' = Some (JStr (sq_id r))"
  "jget (stop_json r) ''requested_at'' = Some (JStr (sq_requested_at r))"
  "jget (stop_json r) ''requested_by'' = Some (JStr (sq_requested_by r))"
  "jget (stop_json r) ''phase'' = Some (JStr (phase_name (sq_phase r)))"
  "jget (stop_json r) ''signals'' = Some (JArr (map attempt_json (sq_signals r)))"
  "jget (stop_json r) ''result'' = map_option stop_result_json (sq_result r)"
  by (simp_all add: stop_json_def field_get del: map_of_append split: if_split)

lemma run_json_fields:
  "jget (run_json m) ''run_id'' = Some (JStr (rm_run_id m))"
  "jget (run_json m) ''pid'' = Some (JNum (of_int (rm_pid m)))"
  "jget (run_json m) ''pgid'' = Some (JNum (of_int (rm_pgid m)))"
  "jget (run_json m) ''argv'' = Some (JArr (map JStr (rm_argv m)))"
  "jget (run_json m) ''cwd'' = Some (JStr (rm_cwd m))"
  "jget (run_json m) ''supervisor_pid'' = Some (JNum (of_int (rm_supervisor m)))"
  "jget (run_json m) ''started_at'' = Some (JStr (rm_started_at m))"
  "jget (run_json m) ''status'' = Some (JStr (run_status_name (rm_status m)))"
  "jget (run_json m) ''task_id'' = map_option JStr (rm_task_id m)"
  "jget (run_json m) ''checkout'' = map_option JStr (rm_checkout m)"
  "jget (run_json m) ''headless'' = rm_headless m"
  "jget (run_json m) ''root_exited_at'' = map_option JStr (rm_root_exited_at m)"
  "jget (run_json m) ''agent_session_id'' = map_option JStr (rm_session m)"
  "jget (run_json m) ''exit_code'' = map_option (\<lambda>c. JNum (of_int c)) (rm_exit_code m)"
  "jget (run_json m) ''exit_signal'' = map_option JStr (rm_exit_signal m)"
  "jget (run_json m) ''ended_at'' = map_option JStr (rm_ended_at m)"
  "jget (run_json m) ''stopped_by'' = map_option JStr (rm_stopped_by m)"
  "jget (run_json m) ''stopped_at'' = map_option JStr (rm_stopped_at m)"
  "jget (run_json m) ''control_protocol'' = map_option JStr (rm_protocol m)"
  "jget (run_json m) ''stop_request'' = map_option stop_json (rm_stop m)"
  "jget (run_json m) ''resume'' = rm_resume m"
  by (simp_all add: run_json_def field_get del: map_of_append split: if_split)

lemma string_readers [simp]:
  "truthy_string (Some (JStr s)) = (s \<noteq> [])" "truthy_string (map_option JStr v) = (v \<noteq> None \<and> v \<noteq> Some [])"
  "is_string (Some (JStr s))" "absent_or is_string (map_option JStr v)"
  "one_of ss (Some (JStr s)) = (s \<in> set ss)" "date_string date (Some (JStr s)) = date s"
  "absolute_string (Some (JStr s)) = absolute_path s"
  by (auto simp: truthy_string_def is_string_def one_of_def date_string_def absolute_string_def absent_or_def split: option.split)

lemma optional_readers [simp]:
  "absent_or (date_string date) (map_option JStr v) = option_ok date v"
  "absent_or absolute_string (map_option JStr v) = option_ok absolute_path v"
  by (cases v; simp add: absent_or_def option_ok_def)+

lemma safe_int_of_int [simp]: "safe_int (Some (JNum (of_int i))) = (if \<bar>i\<bar> \<le> int MAX_SAFE_INTEGER then Some i else None)"
  by (simp add: safe_int_def is_integer_def)

lemma names_in [simp]:
  "signal_name s \<in> set SIGNALS" "delivery_name d \<in> set DELIVERIES" "phase_name p \<in> set PHASES"
  "outcome_name x \<in> set OUTCOMES" "run_status_name st \<in> set STATUSES"
  by (simp_all add: signal_name_def SIGNALS_def delivery_name_def DELIVERIES_def phase_name_def PHASES_def outcome_name_def
      OUTCOMES_def run_status_name_def STATUSES_def
      split: stop_signal.split delivery.split stop_phase.split stop_outcome.split run_status.split)

lemma name_is [simp]:
  "signal_name s = ''SIGINT'' \<longleftrightarrow> s = SIGINT" "outcome_name x = ''incomplete'' \<longleftrightarrow> x = Not_complete"
  "phase_name p = ''completed'' \<longleftrightarrow> p = Completed" "phase_name p = ''incomplete'' \<longleftrightarrow> p = Incomplete"
  "run_status_name st = ''stopped'' \<longleftrightarrow> st = Stopped"
  by (simp_all add: signal_name_def phase_name_def outcome_name_def run_status_name_def
      split: stop_signal.split stop_phase.split stop_outcome.split run_status.split)

lemma some_eq_map_option [simp]: "Some (JStr s) = map_option JStr v \<longleftrightarrow> v = Some s"
  by (cases v) auto

lemma validate_signal_json: "validate_signal date (rm_pid m) (rm_pgid m) (attempt_json a) = attempt_ok date m a"
  by (simp add: validate_signal_def attempt_json_fields attempt_ok_def option_ok_def)

lemma validate_result_json:
  assumes "\<not> date []"
  shows "option_ok date (rm_ended_at m) \<Longrightarrow>
    validate_result date (truthy_string (map_option JStr (rm_ended_at m))) (Some (phase_name phase)) (stop_result_json r)
      = result_ok date m phase r"
  using assms by (auto simp: validate_result_def result_json_fields result_ok_def option_ok_def split: option.split)

lemma validate_stop_json:
  assumes "\<not> date []" and "option_ok date (rm_ended_at m)"
  shows "validate_stop date (run_json m) (rm_pid m) (rm_pgid m) (stop_json r) = request_ok date m r"
proof (cases "sq_result r")
  case None
  then show ?thesis
    by (auto simp: validate_stop_def stop_json_fields run_json_fields request_ok_def list_all_iff validate_signal_json)
next
  case (Some res)
  from validate_result_json [OF assms] Some show ?thesis
    by (simp add: validate_stop_def stop_json_fields run_json_fields request_ok_def list_all_iff validate_signal_json
        del: string_readers) (auto simp: truthy_string_def)
qed

lemma argv_ok_json: "argv_ok (Some (JArr (map JStr argv))) \<longleftrightarrow>
    argv \<noteq> [] \<and> hd argv \<noteq> [] \<and> list_all (\<lambda>s. CHR 0x00 \<notin> set s) argv"
  by (cases argv) (auto simp: argv_ok_def list_all_iff)

lemma pid_json: "validPid (Some (JNum (of_int p))) \<longleftrightarrow> 1 < p \<and> p \<le> int MAX_SAFE_INTEGER"
  by (auto simp: validPid_def)

lemma validate_identity_json:
  "validate_identity date (run_json m) (rm_run_id m) =
    (if 1 < rm_pid m \<and> rm_pid m \<le> int MAX_SAFE_INTEGER \<and> rm_pgid m = rm_pid m \<and>
        1 < rm_supervisor m \<and> rm_supervisor m \<le> int MAX_SAFE_INTEGER \<and> rm_supervisor m \<noteq> rm_pgid m \<and>
        rm_argv m \<noteq> [] \<and> hd (rm_argv m) \<noteq> [] \<and> list_all (\<lambda>s. CHR 0x00 \<notin> set s) (rm_argv m) \<and>
        date (rm_started_at m) \<and> absolute_path (rm_cwd m)
     then Some (rm_pid m, rm_pid m) else None)"
  by (auto simp: validate_identity_def run_json_fields argv_ok_json pid_json)

lemma exit_code_json:
  "absent_or (\<lambda>v. case safe_int v of None \<Rightarrow> False | Some c \<Rightarrow> 0 \<le> c) (map_option (\<lambda>c. JNum (of_int c)) v) \<longleftrightarrow>
    option_ok (\<lambda>c. 0 \<le> c \<and> c \<le> int MAX_SAFE_INTEGER) v"
  by (cases v) (auto simp: absent_or_def option_ok_def)

lemma validate_optional_json:
  assumes "\<not> date []"
  shows "validate_optional date (run_json m) \<longleftrightarrow>
    option_ok date (rm_ended_at m) \<and> option_ok date (rm_stopped_at m) \<and>
    option_ok (\<lambda>c. 0 \<le> c \<and> c \<le> int MAX_SAFE_INTEGER) (rm_exit_code m) \<and> option_ok absolute_path (rm_checkout m) \<and>
    (rm_status m = Stopped \<longrightarrow> rm_stopped_at m \<noteq> None \<and> rm_stopped_by m \<notin> {None, Some []})"
  using assms by (auto simp: validate_optional_def run_json_fields exit_code_json option_ok_def split: option.split)

text \<open>The validator accepts exactly the well-formed metas (outside the Windows protocol).\<close>

lemma validateMeta_run_json:
  assumes "\<not> date []" and "rm_protocol m \<noteq> Some WINDOWS_PROTOCOL"
  shows "validateMeta date windows (rm_run_id m) (run_json m) \<longleftrightarrow> run_ok date m"
proof -
  have c: "validateControlMeta date windows (run_json m) (rm_pid m) (rm_pid m) \<longleftrightarrow>
      (rm_protocol m = Some CONTROL_PROTOCOL \<longrightarrow> option_ok (request_ok date m) (rm_stop m))"
    if "option_ok date (rm_ended_at m)" "rm_pgid m = rm_pid m"
    using assms(2) validate_stop_json [OF assms(1) that(1)] that(2)
    by (cases "rm_protocol m"; cases "rm_stop m") (auto simp: validateControlMeta_def run_json_fields option_ok_def)
  have fold: "(case v of None \<Rightarrow> True | Some h \<Rightarrow> p h) = option_ok p v" for p :: "json \<Rightarrow> bool" and v
    by (simp add: option_ok_def)
  have optional: "absent_or (date_string date) (jget (run_json m) ''root_exited_at'') = option_ok date (rm_root_exited_at m)"
    by (simp add: run_json_fields)
  show ?thesis
  proof (cases "option_ok date (rm_ended_at m) \<and> rm_pgid m = rm_pid m")
    case True
    then show ?thesis
      unfolding validateMeta_def validate_identity_json validate_optional_json [of date, OF assms(1)] fold optional run_ok_def
      using c assms(2) by (simp add: run_json_fields) blast
  next
    case False
    then show ?thesis
      by (auto simp: validateMeta_def validate_identity_json validate_optional_json [of date, OF assms(1)] run_ok_def)
  qed
qed

end
