(* ===== verification/Stop_Controller.thy ===== *)
theory Stop_Controller
  imports Run_Meta
begin

text \<open>
  The cooperative stop of a run, \<open>src/core/run/stop-controller.ts\<close>, driven by the supervisor loop of
  \<open>src/core/run/supervisor.ts\<close>.

  The controller is a state machine over the persisted stop request.  Its operations can fail in the
  middle and keep what they have done, so they are functions from the controller to an error or a
  value, with the controller afterwards (\<open>ctl\<close>).  The actual exit of the child, the liveness of the
  process group, the answer of a signal, the monotonic clock, the text of the current time and the
  archive's storage are oracles of \<open>stop_world\<close>, indexed by a counter that every question advances.
  A read of the archive may throw; an update (\<open>updateMeta\<close>) may throw before the new meta is in place
  (the lock is not acquired, the read, the write or the rename fails: \<open>Not_stored\<close>) or after it (the
  lock cannot be released: \<open>Stored_but\<close>); and the supervisor's own work before a step, reading the log
  and acknowledging probes, may throw (\<open>wk_loop\<close>).  After any of these the supervisor makes one
  attempt to record an incomplete result, \<open>fail\<close>, and exits, whether that attempt succeeds or not.
  The archive is written by the controller alone between two steps; every write passes
  \<open>validateMeta\<close>, in the form of \<open>run_ok\<close> (\<open>Run_Meta.validateMeta_run_json\<close>).
\<close>

record root_exit =
  rx_code :: "int option"
  rx_signal :: "string option"

datatype kill_answer = Signalled | Gone | Refused string

datatype update_answer = Stored | Not_stored string | Stored_but string

record stop_world =
  wk_exit :: "nat \<Rightarrow> root_exit option"
  wk_group :: "nat \<Rightarrow> bool option"
  wk_kill :: "nat \<Rightarrow> kill_answer"
  wk_now :: "nat \<Rightarrow> int"
  wk_date :: "nat \<Rightarrow> string"
  wk_read :: "nat \<Rightarrow> string option"
  wk_update :: "nat \<Rightarrow> update_answer"
  wk_loop :: "nat \<Rightarrow> string option"
  wk_cooperative :: int
  wk_grace :: int
  wk_verify :: int

record controller =
  ct_meta :: run_meta
  ct_request :: "string option"
  ct_deadline :: int
  ct_clock :: nat
  ct_sent :: "(stop_signal \<times> int) list"
  ct_exited :: bool

datatype ctl_error =
    Identity_changed | Request_changed | Meta_refused | Group_unknown | Signal_failed string | Storage_failed string | Loop_failed string

type_synonym 'a ctl = "controller \<Rightarrow> (ctl_error + 'a) \<times> controller"

section \<open>Sequencing\<close>

definition ctl_return :: "'a \<Rightarrow> 'a ctl" where
  "ctl_return x c = (Inr x, c)"

definition ctl_throw :: "ctl_error \<Rightarrow> 'a ctl" where
  "ctl_throw e c = (Inl e, c)"

definition and_then :: "'a ctl \<Rightarrow> ('a \<Rightarrow> 'b ctl) \<Rightarrow> 'b ctl" where
  "and_then f g c = (case f c of (Inl e, c) \<Rightarrow> (Inl e, c) | (Inr x, c) \<Rightarrow> g x c)"

definition question :: "(nat \<Rightarrow> 'a) \<Rightarrow> 'a ctl" where
  "question q c = (Inr (q (ct_clock c)), c\<lparr>ct_clock := Suc (ct_clock c)\<rparr>)"

definition change :: "(controller \<Rightarrow> controller) \<Rightarrow> unit ctl" where
  "change f c = (Inr (), f c)"

definition current :: "(controller \<Rightarrow> 'a) \<Rightarrow> 'a ctl" where
  "current f c = (Inr (f c), c)"

section \<open>The archive\<close>

definition ctl_read :: "stop_world \<Rightarrow> run_meta \<Rightarrow> run_meta ctl" where
  "ctl_read w initial =
     and_then (question (wk_read w)) (\<lambda>failure c.
       case failure of
         Some msg \<Rightarrow> (Inl (Storage_failed msg), c)
       | None \<Rightarrow> if sameRunIdentity (ct_meta c) initial then (Inr (ct_meta c), c) else (Inl Identity_changed, c))"

definition ctl_update ::
    "stop_world \<Rightarrow> (string \<Rightarrow> bool) \<Rightarrow> run_meta \<Rightarrow> (run_meta \<Rightarrow> stop_request \<Rightarrow> run_meta) \<Rightarrow> unit ctl" where
  "ctl_update w date initial f =
     and_then (question (wk_update w)) (\<lambda>answer c.
       let m = ct_meta c in
       case answer of
         Not_stored msg \<Rightarrow> (Inl (Storage_failed msg), c)
       | _ \<Rightarrow>
           if \<not> sameRunIdentity m initial then (Inl Identity_changed, c)
           else (case rm_stop m of
                   None \<Rightarrow> (Inl Request_changed, c)
                 | Some r \<Rightarrow>
                     if ct_request c \<noteq> Some (sq_id r) then (Inl Request_changed, c)
                     else if \<not> run_ok date (f m r) then (Inl Meta_refused, c)
                     else (case answer of Stored_but msg \<Rightarrow> Inl (Storage_failed msg) | _ \<Rightarrow> Inr (),
                           c\<lparr>ct_meta := f m r\<rparr>)))"

section \<open>The operations\<close>

definition exit_fields :: "root_exit option \<Rightarrow> run_meta \<Rightarrow> run_meta" where
  "exit_fields ex m =
     (case ex of
        None \<Rightarrow> m
      | Some x \<Rightarrow> m\<lparr>rm_exit_code := (case rx_code x of None \<Rightarrow> rm_exit_code m | Some c \<Rightarrow> Some c),
                    rm_exit_signal := (case rx_signal x of None \<Rightarrow> rm_exit_signal m | Some s \<Rightarrow> Some s)\<rparr>)"

definition final_result :: "stop_outcome \<Rightarrow> root_exit option \<Rightarrow> bool option \<Rightarrow> string \<Rightarrow> string option \<Rightarrow> stop_result" where
  "final_result outcome ex alive at' error =
     (let success = (outcome \<noteq> Not_complete \<and> ex \<noteq> None \<and> alive = Some False) in
      \<lparr>sv_outcome = (if success then outcome else Not_complete), sv_success = success, sv_completed_at = at',
       sv_root_exited = (ex \<noteq> None), sv_group_alive = alive,
       sv_exit_code = Option.bind ex rx_code, sv_exit_signal = Option.bind ex rx_signal, sv_error = error\<rparr>)"

definition finished_meta ::
    "stop_outcome \<Rightarrow> root_exit option \<Rightarrow> bool option \<Rightarrow> string \<Rightarrow> string option \<Rightarrow> run_meta \<Rightarrow> stop_request \<Rightarrow> run_meta" where
  "finished_meta outcome ex alive at' error m r =
     (let res = final_result outcome ex alive at' error in
      exit_fields ex
        (m\<lparr>rm_ended_at := (if sv_success res then Some at' else rm_ended_at m),
           rm_stop := Some (r\<lparr>sq_phase := (if sv_success res then Completed else Incomplete), sq_result := Some res\<rparr>)\<rparr>))"

definition finish :: "stop_world \<Rightarrow> (string \<Rightarrow> bool) \<Rightarrow> run_meta \<Rightarrow> stop_outcome \<Rightarrow> string option \<Rightarrow> unit ctl" where
  "finish w date initial outcome error =
     and_then (question (wk_exit w)) (\<lambda>ex.
     and_then (question (wk_group w)) (\<lambda>alive.
     and_then (question (wk_date w)) (\<lambda>at'.
       ctl_update w date initial (finished_meta outcome ex alive at' error))))"

definition budget :: "stop_world \<Rightarrow> stop_signal \<Rightarrow> int" where
  "budget w s = (case s of SIGINT \<Rightarrow> wk_cooperative w | SIGTERM \<Rightarrow> wk_grace w | SIGKILL \<Rightarrow> wk_verify w)"

definition set_deadline :: "stop_world \<Rightarrow> stop_signal \<Rightarrow> unit ctl" where
  "set_deadline w s =
     and_then (question (wk_now w)) (\<lambda>now. change (\<lambda>c. c\<lparr>ct_deadline := now + budget w s\<rparr>))"

definition target_of :: "run_meta \<Rightarrow> stop_signal \<Rightarrow> int" where
  "target_of initial s = (if s = SIGINT then rm_pid initial else - rm_pgid initial)"

definition add_attempt :: "signal_attempt \<Rightarrow> run_meta \<Rightarrow> stop_request \<Rightarrow> run_meta" where
  "add_attempt a m r = m\<lparr>rm_stop := Some (r\<lparr>sq_signals := sq_signals r @ [a]\<rparr>)\<rparr>"

definition set_attempt :: "signal_attempt \<Rightarrow> run_meta \<Rightarrow> stop_request \<Rightarrow> run_meta" where
  "set_attempt a m r =
     m\<lparr>rm_stop := Some (r\<lparr>sq_signals := map (\<lambda>b. if sa_signal b = sa_signal a then a else b) (sq_signals r)\<rparr>)\<rparr>"

definition attempt_of_answer :: "signal_attempt \<Rightarrow> string \<Rightarrow> kill_answer \<Rightarrow> signal_attempt" where
  "attempt_of_answer a at' k =
     (case k of
        Signalled \<Rightarrow> a\<lparr>sa_delivery := Delivered, sa_sent_at := Some at'\<rparr>
      | Gone \<Rightarrow> a\<lparr>sa_delivery := No_process\<rparr>
      | Refused msg \<Rightarrow> a\<lparr>sa_delivery := Delivery_error, sa_error := Some msg\<rparr>)"

text \<open>The system call and the record of its answer.\<close>

definition deliver_signal :: "stop_world \<Rightarrow> (string \<Rightarrow> bool) \<Rightarrow> run_meta \<Rightarrow> signal_attempt \<Rightarrow> bool ctl" where
  "deliver_signal w date initial a =
     and_then (change (\<lambda>c. c\<lparr>ct_sent := ct_sent c @ [(sa_signal a, sa_target a)]\<rparr>)) (\<lambda>_.
     and_then (question (wk_kill w)) (\<lambda>answer.
     and_then (question (wk_date w)) (\<lambda>at'.
     and_then (set_deadline w (sa_signal a)) (\<lambda>_.
     and_then (ctl_update w date initial (set_attempt (attempt_of_answer a at' answer))) (\<lambda>_.
       case answer of Refused msg \<Rightarrow> ctl_throw (Signal_failed msg) | _ \<Rightarrow> ctl_return True)))))"

text \<open>Whether the process is still there to be signalled; \<open>True\<close> when it is.\<close>

definition still_there :: "stop_world \<Rightarrow> stop_signal \<Rightarrow> bool ctl" where
  "still_there w s =
     and_then (question (wk_exit w)) (\<lambda>ex.
       if s = SIGINT \<and> ex \<noteq> None then ctl_return False
       else and_then (question (wk_group w)) (\<lambda>alive.
              case alive of None \<Rightarrow> ctl_throw Group_unknown | Some b \<Rightarrow> ctl_return b))"

definition request_result :: "run_meta \<Rightarrow> stop_result option" where
  "request_result m = Option.bind (rm_stop m) sq_result"

definition send :: "stop_world \<Rightarrow> (string \<Rightarrow> bool) \<Rightarrow> run_meta \<Rightarrow> stop_signal \<Rightarrow> bool ctl" where
  "send w date initial s =
     and_then (ctl_read w initial) (\<lambda>m.
       if request_result m \<noteq> None then ctl_return False
       else and_then (still_there w s) (\<lambda>there.
         if \<not> there then ctl_return False
         else and_then (question (wk_date w)) (\<lambda>at'.
           let a = \<lparr>sa_signal = s, sa_target = target_of initial s, sa_intended_at = at', sa_delivery = Uncertain,
                    sa_sent_at = None, sa_error = None\<rparr> in
           and_then (ctl_update w date initial (add_attempt a)) (\<lambda>_.
           and_then (ctl_read w initial) (\<lambda>_.
           and_then (still_there w s) (\<lambda>there.
             if \<not> there then ctl_return False else deliver_signal w date initial a))))))"

definition phase_of :: "stop_signal \<Rightarrow> stop_phase" where
  "phase_of s = (case s of SIGINT \<Rightarrow> Cooperative | SIGTERM \<Rightarrow> Term | SIGKILL \<Rightarrow> Kill)"

definition entered :: "stop_signal \<Rightarrow> bool \<Rightarrow> string \<Rightarrow> run_meta \<Rightarrow> stop_request \<Rightarrow> run_meta" where
  "entered s leader at' m r =
     m\<lparr>rm_stop := Some (r\<lparr>sq_phase := phase_of s,
         sq_accepted_at := Some (case sq_accepted_at r of None \<Rightarrow> at' | Some x \<Rightarrow> x),
         sq_leader_exited := (leader \<or> sq_leader_exited r)\<rparr>)\<rparr>"

text \<open>A phase is named by the signal it sends.\<close>

definition enter :: "stop_world \<Rightarrow> (string \<Rightarrow> bool) \<Rightarrow> run_meta \<Rightarrow> stop_signal \<Rightarrow> bool \<Rightarrow> unit ctl" where
  "enter w date initial s leader =
     and_then (set_deadline w s) (\<lambda>_.
     and_then (question (wk_date w)) (\<lambda>at'.
     and_then (ctl_update w date initial (entered s leader at')) (\<lambda>_.
     and_then (send w date initial s) (\<lambda>_. ctl_return ()))))"

definition outcome_of :: "stop_request \<Rightarrow> stop_outcome" where
  "outcome_of r =
     (let sent = map sa_signal (filter (\<lambda>a. sa_delivery a = Delivered) (sq_signals r)) in
      if SIGKILL \<in> set sent then Forced_kill else if SIGTERM \<in> set sent then Forced_term
      else if SIGINT \<in> set sent then Was_cooperative else Already_ended)"

definition first_step :: "stop_world \<Rightarrow> (string \<Rightarrow> bool) \<Rightarrow> run_meta \<Rightarrow> stop_request \<Rightarrow> unit ctl" where
  "first_step w date initial r =
     and_then (change (\<lambda>c. c\<lparr>ct_request := Some (sq_id r)\<rparr>)) (\<lambda>_.
       if sq_phase r \<noteq> Requested then finish w date initial Not_complete (Some ''uncertain previous control phase; not replayed'')
       else and_then (question (wk_group w)) (\<lambda>alive.
         if alive = None then finish w date initial Not_complete (Some ''process group liveness unknown'')
         else and_then (question (wk_exit w)) (\<lambda>ex.
           if ex \<noteq> None \<and> alive = Some False then finish w date initial Already_ended None
           else and_then (question (wk_exit w)) (\<lambda>ex.
             if ex \<noteq> None then enter w date initial SIGTERM True
             else enter w date initial SIGINT False))))"

definition next_step :: "stop_world \<Rightarrow> (string \<Rightarrow> bool) \<Rightarrow> run_meta \<Rightarrow> stop_request \<Rightarrow> unit ctl" where
  "next_step w date initial r =
     and_then (question (wk_group w)) (\<lambda>alive.
       if alive = None then finish w date initial Not_complete (Some ''process group liveness unknown'')
       else and_then (question (wk_exit w)) (\<lambda>ex.
         if ex \<noteq> None \<and> alive = Some False then finish w date initial (outcome_of r) None
         else and_then (question (wk_now w)) (\<lambda>now.
           and_then (current ct_deadline) (\<lambda>deadline.
             if now < deadline then ctl_return ()
             else if alive = Some False
               then finish w date initial Not_complete (Some ''group absent but actual root exit unconfirmed'')
             else if sq_phase r = Cooperative then enter w date initial SIGTERM False
             else if sq_phase r = Term then enter w date initial SIGKILL False
             else finish w date initial Not_complete (Some ''process group still present after SIGKILL budget'')))))"

definition step :: "stop_world \<Rightarrow> (string \<Rightarrow> bool) \<Rightarrow> run_meta \<Rightarrow> unit ctl" where
  "step w date initial =
     and_then (ctl_read w initial) (\<lambda>m.
     and_then (current ct_request) (\<lambda>request.
       case rm_stop m of
         None \<Rightarrow> ctl_return ()
       | Some r \<Rightarrow>
           if sq_result r \<noteq> None then ctl_return ()
           else if request = None then first_step w date initial r
           else if request \<noteq> Some (sq_id r) then ctl_throw Request_changed
           else next_step w date initial r))"

definition error_text :: "ctl_error \<Rightarrow> string" where
  "error_text e = (case e of
       Identity_changed \<Rightarrow> ''run identity changed; control unverified''
     | Request_changed \<Rightarrow> ''stop request identity changed''
     | Meta_refused \<Rightarrow> ''invalid meta''
     | Group_unknown \<Rightarrow> ''process group liveness unknown''
     | Signal_failed msg \<Rightarrow> msg
     | Storage_failed msg \<Rightarrow> msg
     | Loop_failed msg \<Rightarrow> msg)"

definition fail :: "stop_world \<Rightarrow> (string \<Rightarrow> bool) \<Rightarrow> run_meta \<Rightarrow> ctl_error \<Rightarrow> unit ctl" where
  "fail w date initial e =
     and_then (ctl_read w initial) (\<lambda>m.
       case rm_stop m of
         None \<Rightarrow> ctl_return ()
       | Some r \<Rightarrow>
           if sq_result r \<noteq> None then ctl_return ()
           else and_then (change (\<lambda>c. c\<lparr>ct_request := Some (sq_id r)\<rparr>)) (\<lambda>_.
                  finish w date initial Not_complete (Some (error_text e))))"

text \<open>One round of the supervisor loop: its own work, then a step of the controller.\<close>

definition iteration :: "stop_world \<Rightarrow> (string \<Rightarrow> bool) \<Rightarrow> run_meta \<Rightarrow> unit ctl" where
  "iteration w date initial =
     and_then (question (wk_loop w)) (\<lambda>failure.
       case failure of Some msg \<Rightarrow> ctl_throw (Loop_failed msg) | None \<Rightarrow> step w date initial)"

text \<open>Rounds until one throws; then one attempt to record that, and the supervisor exits.\<close>

fun supervise :: "nat \<Rightarrow> stop_world \<Rightarrow> (string \<Rightarrow> bool) \<Rightarrow> run_meta \<Rightarrow> controller \<Rightarrow> controller" where
  "supervise 0 w date initial c = c"
| "supervise (Suc n) w date initial c =
     (case iteration w date initial c of
        (Inl e, c) \<Rightarrow> (snd (fail w date initial e c))\<lparr>ct_exited := True\<rparr>
      | (Inr _, c) \<Rightarrow> supervise n w date initial c)"

section \<open>Triples\<close>

text \<open>\<open>triple P f Q E\<close>: from a controller that satisfies \<open>P\<close>, \<open>f\<close> either returns a value in \<open>Q\<close> or throws
  an error in \<open>E\<close>.\<close>

definition triple ::
    "(controller \<Rightarrow> bool) \<Rightarrow> 'a ctl \<Rightarrow> ('a \<Rightarrow> controller \<Rightarrow> bool) \<Rightarrow> (ctl_error \<Rightarrow> controller \<Rightarrow> bool) \<Rightarrow> bool" where
  "triple P f Q E \<longleftrightarrow> (\<forall>c. P c \<longrightarrow> (case f c of (Inr x, c') \<Rightarrow> Q x c' | (Inl e, c') \<Rightarrow> E e c'))"

lemma triple_and_then:
  "triple P f R E \<Longrightarrow> (\<And>x. triple (R x) (g x) Q E) \<Longrightarrow> triple P (and_then f g) Q E"
  unfolding triple_def and_then_def by (fastforce split: prod.splits sum.splits)

lemma triple_outcome: "triple P f Q E \<Longrightarrow> P c \<Longrightarrow> f c = (out, c') \<Longrightarrow> case out of Inr x \<Rightarrow> Q x c' | Inl e \<Rightarrow> E e c'"
  by (auto simp: triple_def)

lemma triple_pre: "triple R f Q E \<Longrightarrow> (\<And>c. P c \<Longrightarrow> R c) \<Longrightarrow> triple P f Q E"
  by (simp add: triple_def)

lemma triple_post:
  "triple P f R F \<Longrightarrow> (\<And>x c. R x c \<Longrightarrow> Q x c) \<Longrightarrow> (\<And>e c. F e c \<Longrightarrow> E e c) \<Longrightarrow> triple P f Q E"
  unfolding triple_def by (fastforce split: prod.splits sum.splits)

lemma triple_return [intro]: "(\<And>c. P c \<Longrightarrow> Q x c) \<Longrightarrow> triple P (ctl_return x) Q E"
  by (simp add: triple_def ctl_return_def)

lemma triple_throw [intro]: "(\<And>c. P c \<Longrightarrow> E e c) \<Longrightarrow> triple P (ctl_throw e) Q E"
  by (simp add: triple_def ctl_throw_def)

lemma triple_if: "(b \<Longrightarrow> triple P f Q E) \<Longrightarrow> (\<not> b \<Longrightarrow> triple P g Q E) \<Longrightarrow> triple P (if b then f else g) Q E"
  by simp

lemma triple_change: "(\<And>c. P c \<Longrightarrow> Q () (f c)) \<Longrightarrow> triple P (change f) Q E"
  by (simp add: triple_def change_def)

lemma triple_question:
  "(\<And>c. P c \<Longrightarrow> R (c\<lparr>ct_clock := Suc (ct_clock c)\<rparr>)) \<Longrightarrow> triple P (question q) (\<lambda>x c. R c \<and> (\<exists>k. x = q k)) E"
  by (auto simp: triple_def question_def)

lemma triple_current: "triple P (current f) (\<lambda>x c. P c \<and> x = f c) E"
  by (simp add: triple_def current_def)

section \<open>The invariant of a stop in progress\<close>

fun sig_rank :: "stop_signal \<Rightarrow> nat" where
  "sig_rank SIGINT = 1" | "sig_rank SIGTERM = 2" | "sig_rank SIGKILL = 3"

fun phase_rank :: "stop_phase \<Rightarrow> nat" where
  "phase_rank Requested = 0" | "phase_rank Cooperative = 1" | "phase_rank Term = 2" | "phase_rank Kill = 3"
| "phase_rank _ = 4"

definition ranked :: "nat \<Rightarrow> stop_signal list \<Rightarrow> bool" where
  "ranked bnd ss \<longleftrightarrow> sorted_wrt (<) (map sig_rank ss) \<and> (\<forall>s\<in>set ss. sig_rank s \<le> bnd)"

lemma phase_rank_of [simp]: "phase_rank (phase_of s) = sig_rank s"
  by (cases s) (simp_all add: phase_of_def)

lemma sig_rank_bounds: "1 \<le> sig_rank s" "sig_rank s \<le> 3"
  by (cases s; simp)+

lemma ranked_Nil [simp]: "ranked bnd []"
  by (simp add: ranked_def)

lemma ranked_mono: "ranked bnd ss \<Longrightarrow> bnd \<le> bnd' \<Longrightarrow> ranked bnd' ss"
  by (auto simp: ranked_def)

lemma ranked_snoc: "ranked bnd ss \<Longrightarrow> bnd < sig_rank s \<Longrightarrow> ranked (sig_rank s) (ss @ [s])"
  by (auto simp: ranked_def sorted_wrt_append dest: order_le_less_trans)

lemma ranked_length: "ranked bnd ss \<Longrightarrow> length ss \<le> 3"
proof -
  assume r: "ranked bnd ss"
  then have d: "distinct (map sig_rank ss)"
    by (simp add: ranked_def strict_sorted_iff)
  have "set (map sig_rank ss) \<subseteq> {1, 2, 3}"
  proof
    fix k assume "k \<in> set (map sig_rank ss)"
    then obtain s where "k = sig_rank s" by auto
    then show "k \<in> {1, 2, 3}" by (cases s) auto
  qed
  then have "card (set (map sig_rank ss)) \<le> card {1, 2, 3 :: nat}"
    by (intro card_mono) auto
  with distinct_card [OF d] show ?thesis by simp
qed

lemma ranked_distinct: "ranked bnd ss \<Longrightarrow> distinct ss"
  by (auto simp: ranked_def strict_sorted_iff distinct_map)

definition sent_ok :: "run_meta \<Rightarrow> nat \<Rightarrow> controller \<Rightarrow> bool" where
  "sent_ok initial bnd c \<longleftrightarrow> ranked bnd (map fst (ct_sent c)) \<and> (\<forall>x\<in>set (ct_sent c). snd x = target_of initial (fst x))"

definition archive_ok :: "(string \<Rightarrow> bool) \<Rightarrow> run_meta \<Rightarrow> run_meta \<Rightarrow> bool" where
  "archive_ok date initial m \<longleftrightarrow> run_ok date m \<and> sameRunIdentity m initial \<and> rm_protocol m = Some CONTROL_PROTOCOL"

definition in_progress :: "(string \<Rightarrow> bool) \<Rightarrow> run_meta \<Rightarrow> stop_phase \<Rightarrow> nat \<Rightarrow> nat \<Rightarrow> controller \<Rightarrow> bool" where
  "in_progress date initial p sl bnd c \<longleftrightarrow>
     archive_ok date initial (ct_meta c) \<and> sent_ok initial bnd c \<and>
     (case rm_stop (ct_meta c) of
        None \<Rightarrow> False
      | Some r \<Rightarrow> ct_request c = Some (sq_id r) \<and> sq_result r = None \<and> sq_phase r = p \<and>
          ranked sl (map sa_signal (sq_signals r)))"

lemma in_progress_clock [simp]:
  "in_progress date initial p sl bnd (c\<lparr>ct_clock := k\<rparr>) = in_progress date initial p sl bnd c"
  "in_progress date initial p sl bnd (c\<lparr>ct_deadline := d\<rparr>) = in_progress date initial p sl bnd c"
  "in_progress date initial p sl bnd (c\<lparr>ct_exited := x\<rparr>) = in_progress date initial p sl bnd c"
  by (simp_all add: in_progress_def sent_ok_def split: option.split)

lemma in_progress_mono: "in_progress date initial p sl bnd c \<Longrightarrow> sl \<le> sl' \<Longrightarrow> bnd \<le> bnd' \<Longrightarrow> in_progress date initial p sl' bnd' c"
  by (auto simp: in_progress_def sent_ok_def intro: ranked_mono split: option.splits)

text \<open>What is assumed of the world: current times print as dates, the empty text is no date, and exit
  codes are byte values.\<close>

definition world_ok :: "stop_world \<Rightarrow> (string \<Rightarrow> bool) \<Rightarrow> bool" where
  "world_ok w date \<longleftrightarrow> \<not> date [] \<and> (\<forall>k. date (wk_date w k)) \<and>
     (\<forall>k x. wk_exit w k = Some x \<longrightarrow> option_ok (\<lambda>c. 0 \<le> c \<and> c \<le> 255) (rx_code x))"

section \<open>Where a controller can be\<close>

text \<open>Before its first step, in the middle of a request, or with a result; and when storage failed.\<close>

definition start_ok :: "(string \<Rightarrow> bool) \<Rightarrow> run_meta \<Rightarrow> controller \<Rightarrow> bool" where
  "start_ok date initial c \<longleftrightarrow>
     archive_ok date initial (ct_meta c) \<and> ct_request c = None \<and> ct_sent c = [] \<and>
     (case rm_stop (ct_meta c) of
        None \<Rightarrow> False
      | Some r \<Rightarrow> sq_result r = None \<and>
          ranked (if sq_phase r = Requested then 0 else 3) (map sa_signal (sq_signals r)))"

definition finished :: "stop_world \<Rightarrow> (string \<Rightarrow> bool) \<Rightarrow> run_meta \<Rightarrow> controller \<Rightarrow> bool" where
  "finished w date initial c \<longleftrightarrow>
     archive_ok date initial (ct_meta c) \<and> sent_ok initial 3 c \<and>
     (case request_result (ct_meta c) of
        None \<Rightarrow> False
      | Some res \<Rightarrow> sv_success res \<longrightarrow> complete (ct_meta c) \<and> (\<exists>j. wk_exit w j \<noteq> None) \<and> (\<exists>j. wk_group w j = Some False))"

definition open_at :: "(string \<Rightarrow> bool) \<Rightarrow> run_meta \<Rightarrow> controller \<Rightarrow> bool" where
  "open_at date initial c \<longleftrightarrow> (\<exists>p sl bnd. bnd \<le> 3 \<and> in_progress date initial p sl bnd c)"

definition halted :: "stop_world \<Rightarrow> (string \<Rightarrow> bool) \<Rightarrow> run_meta \<Rightarrow> controller \<Rightarrow> bool" where
  "halted w date initial c \<longleftrightarrow> start_ok date initial c \<or> open_at date initial c \<or> finished w date initial c"

definition storage_fails :: "stop_world \<Rightarrow> bool" where
  "storage_fails w \<longleftrightarrow> (\<exists>k. wk_read w k \<noteq> None) \<or> (\<exists>k. wk_update w k \<noteq> Stored)"

definition stuck :: "stop_world \<Rightarrow> (string \<Rightarrow> bool) \<Rightarrow> run_meta \<Rightarrow> controller \<Rightarrow> bool" where
  "stuck w date initial c \<longleftrightarrow> halted w date initial c \<and> storage_fails w"

lemma moved_simps [simp]:
  "start_ok date initial (c\<lparr>ct_clock := k\<rparr>) = start_ok date initial c"
  "start_ok date initial (c\<lparr>ct_exited := x\<rparr>) = start_ok date initial c"
  "finished w date initial (c\<lparr>ct_clock := k\<rparr>) = finished w date initial c"
  "finished w date initial (c\<lparr>ct_exited := x\<rparr>) = finished w date initial c"
  "open_at date initial (c\<lparr>ct_clock := k\<rparr>) = open_at date initial c"
  "open_at date initial (c\<lparr>ct_exited := x\<rparr>) = open_at date initial c"
  "halted w date initial (c\<lparr>ct_clock := k\<rparr>) = halted w date initial c"
  "halted w date initial (c\<lparr>ct_exited := x\<rparr>) = halted w date initial c"
  by (simp_all add: start_ok_def finished_def sent_ok_def open_at_def halted_def split: option.split)

lemma halted_progress: "in_progress date initial p sl bnd c \<Longrightarrow> bnd \<le> 3 \<Longrightarrow> halted w date initial c"
  by (auto simp: halted_def open_at_def)

lemma triple_weaken: "triple P f Q (\<lambda>_. stuck w date initial) \<Longrightarrow> triple P f Q (\<lambda>_. halted w date initial)"
  by (rule triple_post, assumption) (auto simp: stuck_def)

lemma triple_asking:
  assumes "\<And>c k. P c \<Longrightarrow> P (c\<lparr>ct_clock := k\<rparr>)" and "\<And>k. triple P (g (q k)) Q E"
  shows "triple P (and_then (question q) g) Q E"
  using assms by (simp add: triple_def and_then_def question_def)

section \<open>Writes that stay in progress\<close>

lemma option_ok_simps [simp]: "option_ok p None" "option_ok p (Some x) = p x"
  by (simp_all add: option_ok_def)

lemma request_ok_stop [simp]: "request_ok date (m\<lparr>rm_stop := x\<rparr>) r = request_ok date m r"
proof -
  have "attempt_ok date (m\<lparr>rm_stop := x\<rparr>) = attempt_ok date m" "result_ok date (m\<lparr>rm_stop := x\<rparr>) = result_ok date m"
    by (simp_all add: fun_eq_iff attempt_ok_def result_ok_def)
  then show ?thesis by (simp add: request_ok_def split: option.split)
qed

lemma archive_ok_update:
  assumes "archive_ok date initial m" and "rm_stop m = Some r" and "request_ok date m r'" and "m' = m\<lparr>rm_stop := Some r'\<rparr>"
  shows "archive_ok date initial m'"
  using assms by (auto simp: archive_ok_def run_ok_def sameRunIdentity_def)

lemma request_of_archive: "archive_ok date initial m \<Longrightarrow> rm_stop m = Some r \<Longrightarrow> request_ok date m r"
  by (auto simp: archive_ok_def run_ok_def option_ok_def)

text \<open>An update that the validator accepts is stored, unless storage fails before or after it.\<close>

lemma update_stored:
  assumes "\<And>k. P k \<Longrightarrow> archive_ok date initial (ct_meta k) \<and> (\<exists>r. rm_stop (ct_meta k) = Some r \<and> ct_request k = Some (sq_id r) \<and>
      archive_ok date initial (f (ct_meta k) r) \<and> R (k\<lparr>ct_meta := f (ct_meta k) r\<rparr>))"
    and "\<And>k j. P k \<Longrightarrow> P (k\<lparr>ct_clock := j\<rparr>)" and "\<And>k. P k \<Longrightarrow> halted w date initial k" and "\<And>k. R k \<Longrightarrow> halted w date initial k"
  shows "triple P (ctl_update w date initial f) (\<lambda>_. R) (\<lambda>_. stuck w date initial)"
  unfolding ctl_update_def
proof (rule triple_asking)
  show "P (c\<lparr>ct_clock := k\<rparr>)" if "P c" for c k
    using assms(2) that .
next
  fix k
  show "triple P (\<lambda>c. let m = ct_meta c in
       case wk_update w k of
         Not_stored msg \<Rightarrow> (Inl (Storage_failed msg), c)
       | _ \<Rightarrow>
           if \<not> sameRunIdentity m initial then (Inl Identity_changed, c)
           else (case rm_stop m of
                   None \<Rightarrow> (Inl Request_changed, c)
                 | Some r \<Rightarrow>
                     if ct_request c \<noteq> Some (sq_id r) then (Inl Request_changed, c)
                     else if \<not> run_ok date (f m r) then (Inl Meta_refused, c)
                     else (case wk_update w k of Stored_but msg \<Rightarrow> Inl (Storage_failed msg) | _ \<Rightarrow> Inr (),
                           c\<lparr>ct_meta := f m r\<rparr>))) (\<lambda>_. R) (\<lambda>_. stuck w date initial)"
    unfolding triple_def
  proof (intro allI impI)
    fix c assume c: "P c"
    then obtain r where r: "archive_ok date initial (ct_meta c)" "rm_stop (ct_meta c) = Some r" "ct_request c = Some (sq_id r)"
        "archive_ok date initial (f (ct_meta c) r)" "R (c\<lparr>ct_meta := f (ct_meta c) r\<rparr>)"
      using assms(1) by blast
    have same: "sameRunIdentity (ct_meta c) initial" "run_ok date (f (ct_meta c) r)"
      using r(1,4) by (simp_all add: archive_ok_def)
    have fails: "wk_update w k \<noteq> Stored \<Longrightarrow> storage_fails w"
      by (auto simp: storage_fails_def)
    show "case let m = ct_meta c in
       case wk_update w k of
         Not_stored msg \<Rightarrow> (Inl (Storage_failed msg), c)
       | _ \<Rightarrow>
           if \<not> sameRunIdentity m initial then (Inl Identity_changed, c)
           else (case rm_stop m of
                   None \<Rightarrow> (Inl Request_changed, c)
                 | Some r \<Rightarrow>
                     if ct_request c \<noteq> Some (sq_id r) then (Inl Request_changed, c)
                     else if \<not> run_ok date (f m r) then (Inl Meta_refused, c)
                     else (case wk_update w k of Stored_but msg \<Rightarrow> Inl (Storage_failed msg) | _ \<Rightarrow> Inr (),
                           c\<lparr>ct_meta := f m r\<rparr>)) of
        (Inl e, c') \<Rightarrow> stuck w date initial c' | (Inr x, c') \<Rightarrow> R c'"
      using c r same fails assms(3,4) by (cases "wk_update w k") (simp_all add: stuck_def)
  qed
qed

lemma triple_update:
  assumes "\<And>m r. archive_ok date initial m \<Longrightarrow> rm_stop m = Some r \<Longrightarrow> sq_result r = None \<Longrightarrow> sq_phase r = p \<Longrightarrow>
      ranked sl (map sa_signal (sq_signals r)) \<Longrightarrow>
      \<exists>r'. f m r = m\<lparr>rm_stop := Some r'\<rparr> \<and> request_ok date m r' \<and> sq_id r' = sq_id r \<and> sq_result r' = None \<and> sq_phase r' = p' \<and>
        ranked sl' (map sa_signal (sq_signals r'))"
    and "bnd \<le> 3"
  shows "triple (in_progress date initial p sl bnd) (ctl_update w date initial f)
    (\<lambda>_. in_progress date initial p' sl' bnd) (\<lambda>_. halted w date initial)"
proof (rule triple_weaken, rule update_stored)
  fix c assume c: "in_progress date initial p sl bnd c"
  then obtain r where r: "archive_ok date initial (ct_meta c)" "rm_stop (ct_meta c) = Some r" "ct_request c = Some (sq_id r)"
      "sq_result r = None" "sq_phase r = p" "ranked sl (map sa_signal (sq_signals r))" "sent_ok initial bnd c"
    by (auto simp: in_progress_def split: option.splits)
  from assms(1) [OF r(1,2,4,5,6)] obtain r' where r': "f (ct_meta c) r = (ct_meta c)\<lparr>rm_stop := Some r'\<rparr>"
      "request_ok date (ct_meta c) r'" "sq_id r' = sq_id r" "sq_result r' = None" "sq_phase r' = p'"
      "ranked sl' (map sa_signal (sq_signals r'))"
    by blast
  have "archive_ok date initial (f (ct_meta c) r)"
    using archive_ok_update [OF r(1,2) r'(2) r'(1)] .
  then show "archive_ok date initial (ct_meta c) \<and> (\<exists>r. rm_stop (ct_meta c) = Some r \<and> ct_request c = Some (sq_id r) \<and>
      archive_ok date initial (f (ct_meta c) r) \<and> in_progress date initial p' sl' bnd (c\<lparr>ct_meta := f (ct_meta c) r\<rparr>))"
    using r r' by (simp add: in_progress_def sent_ok_def)
qed (use assms(2) in \<open>auto intro: halted_progress\<close>)

lemma read_ok:
  assumes "\<And>k. P k \<Longrightarrow> sameRunIdentity (ct_meta k) initial" and "\<And>k j. P k \<Longrightarrow> P (k\<lparr>ct_clock := j\<rparr>)"
    and "\<And>k. P k \<Longrightarrow> halted w date initial k"
  shows "triple P (ctl_read w initial) (\<lambda>m c. P c \<and> m = ct_meta c) (\<lambda>_. stuck w date initial)"
  unfolding ctl_read_def
  by (rule triple_asking, erule assms(2))
    (use assms(1,3) in \<open>auto simp: triple_def stuck_def storage_fails_def split: option.split\<close>)

lemma triple_read:
  assumes "bnd \<le> 3"
  shows "triple (in_progress date initial p sl bnd) (ctl_read w initial)
     (\<lambda>m c. in_progress date initial p sl bnd c \<and> m = ct_meta c) (\<lambda>_. halted w date initial)"
proof (rule triple_weaken, rule read_ok)
  show "sameRunIdentity (ct_meta c) initial" if "in_progress date initial p sl bnd c" for c
    using that by (simp add: in_progress_def archive_ok_def)
qed (use assms in \<open>auto intro: halted_progress\<close>)

section \<open>A phase\<close>

definition progressing :: "(string \<Rightarrow> bool) \<Rightarrow> run_meta \<Rightarrow> stop_phase \<Rightarrow> nat \<Rightarrow> controller \<Rightarrow> bool" where
  "progressing date initial p k c \<longleftrightarrow> in_progress date initial p k k c"

lemma attempt_ok_fresh:
  assumes "archive_ok date initial m" and "sa_target a = target_of initial (sa_signal a)" and "date (sa_intended_at a)"
    and "option_ok date (sa_sent_at a)"
  shows "attempt_ok date m a"
  using assms by (simp add: attempt_ok_def archive_ok_def sameRunIdentity_def target_of_def option_ok_def)

lemma triple_add_attempt:
  assumes "sa_target a = target_of initial (sa_signal a)" and "date (sa_intended_at a)" and "sa_sent_at a = None"
    and "sl < sig_rank (sa_signal a)" and "bnd \<le> 3"
  shows "triple (in_progress date initial p sl bnd) (ctl_update w date initial (add_attempt a))
    (\<lambda>_. in_progress date initial p (sig_rank (sa_signal a)) bnd) (\<lambda>_. halted w date initial)"
proof (rule triple_update)
  fix m r
  assume m: "archive_ok date initial m" and r: "rm_stop m = Some r" "sq_result r = None" "sq_phase r = p"
    "ranked sl (map sa_signal (sq_signals r))"
  let ?r = "r\<lparr>sq_signals := sq_signals r @ [a]\<rparr>"
  have ranked: "ranked (sig_rank (sa_signal a)) (map sa_signal (sq_signals ?r))"
    using ranked_snoc [OF r(4) assms(4)] by simp
  moreover have "request_ok date m ?r"
    using request_of_archive [OF m r(1)] ranked_length [OF ranked] attempt_ok_fresh [OF m assms(1,2)] assms(3) r(2)
    by (simp add: request_ok_def)
  ultimately show "\<exists>r'. add_attempt a m r = m\<lparr>rm_stop := Some r'\<rparr> \<and> request_ok date m r' \<and> sq_id r' = sq_id r \<and>
      sq_result r' = None \<and> sq_phase r' = p \<and> ranked (sig_rank (sa_signal a)) (map sa_signal (sq_signals r'))"
    using r by (intro exI [of _ ?r]) (simp add: add_attempt_def)
qed (rule assms(5))

lemma triple_set_attempt:
  assumes "sa_target a = target_of initial (sa_signal a)" and "date (sa_intended_at a)" and "option_ok date (sa_sent_at a)"
    and "bnd \<le> 3"
  shows "triple (in_progress date initial p sl bnd) (ctl_update w date initial (set_attempt a))
    (\<lambda>_. in_progress date initial p sl bnd) (\<lambda>_. halted w date initial)"
proof (rule triple_update)
  fix m r
  assume m: "archive_ok date initial m" and r: "rm_stop m = Some r" "sq_result r = None" "sq_phase r = p"
    "ranked sl (map sa_signal (sq_signals r))"
  let ?signals = "map (\<lambda>b. if sa_signal b = sa_signal a then a else b) (sq_signals r)"
  let ?r = "r\<lparr>sq_signals := ?signals\<rparr>"
  have names: "map sa_signal ?signals = map sa_signal (sq_signals r)"
    by simp
  have "request_ok date m ?r"
    using request_of_archive [OF m r(1)] attempt_ok_fresh [OF m assms(1-3)] r(2)
    by (auto simp: request_ok_def list_all_iff)
  with names r show "\<exists>r'. set_attempt a m r = m\<lparr>rm_stop := Some r'\<rparr> \<and> request_ok date m r' \<and> sq_id r' = sq_id r \<and>
      sq_result r' = None \<and> sq_phase r' = p \<and> ranked sl (map sa_signal (sq_signals r'))"
    by (intro exI [of _ ?r]) (simp add: set_attempt_def del: map_map map_eq_conv)
qed (rule assms(4))

lemma triple_entered:
  assumes "bnd \<le> 3"
  shows "triple (in_progress date initial p sl bnd) (ctl_update w date initial (entered s leader at'))
    (\<lambda>_. in_progress date initial (phase_of s) sl bnd) (\<lambda>_. halted w date initial)"
proof (rule triple_update)
  fix m r
  assume m: "archive_ok date initial m" and r: "rm_stop m = Some r" "sq_result r = None" "sq_phase r = p"
    "ranked sl (map sa_signal (sq_signals r))"
  let ?r = "r\<lparr>sq_phase := phase_of s, sq_accepted_at := Some (case sq_accepted_at r of None \<Rightarrow> at' | Some x \<Rightarrow> x),
    sq_leader_exited := leader \<or> sq_leader_exited r\<rparr>"
  have "request_ok date m ?r"
    using request_of_archive [OF m r(1)] r(2) by (cases s) (simp_all add: request_ok_def phase_of_def)
  with r show "\<exists>r'. entered s leader at' m r = m\<lparr>rm_stop := Some r'\<rparr> \<and> request_ok date m r' \<and> sq_id r' = sq_id r \<and>
      sq_result r' = None \<and> sq_phase r' = phase_of s \<and> ranked sl (map sa_signal (sq_signals r'))"
    by (intro exI [of _ ?r]) (simp add: entered_def)
qed (rule assms)

lemma triple_set_deadline:
  "triple (in_progress date initial p sl bnd) (set_deadline w s) (\<lambda>_. in_progress date initial p sl bnd) E"
  unfolding set_deadline_def by (rule triple_asking) (simp_all add: triple_change)

lemma triple_still_there:
  assumes "\<And>c. in_progress date initial p sl bnd c \<Longrightarrow> E Group_unknown c"
  shows "triple (in_progress date initial p sl bnd) (still_there w s) (\<lambda>_. in_progress date initial p sl bnd) E"
  unfolding still_there_def
proof (rule triple_asking)
  fix k
  have "triple (in_progress date initial p sl bnd)
      (and_then (question (wk_group w)) (\<lambda>alive. case alive of None \<Rightarrow> ctl_throw Group_unknown | Some b \<Rightarrow> ctl_return b))
      (\<lambda>_. in_progress date initial p sl bnd) E"
    using assms by (intro triple_asking) (auto split: option.split)
  then show "triple (in_progress date initial p sl bnd)
      (if s = SIGINT \<and> wk_exit w k \<noteq> None then ctl_return False
       else and_then (question (wk_group w)) (\<lambda>alive. case alive of None \<Rightarrow> ctl_throw Group_unknown | Some b \<Rightarrow> ctl_return b))
      (\<lambda>_. in_progress date initial p sl bnd) E"
    by auto
qed simp

lemma triple_deliver:
  assumes "world_ok w date" and "sa_target a = target_of initial (sa_signal a)" and "date (sa_intended_at a)"
    and "sa_sent_at a = None" and "b < sig_rank (sa_signal a)"
  shows "triple (in_progress date initial p (sig_rank (sa_signal a)) b) (deliver_signal w date initial a)
    (\<lambda>_. progressing date initial p (sig_rank (sa_signal a))) (\<lambda>_. halted w date initial)"
proof -
  let ?P = "in_progress date initial p (sig_rank (sa_signal a)) (sig_rank (sa_signal a))"
  let ?E = "\<lambda>_. halted w date initial"
  have sent: "triple (in_progress date initial p (sig_rank (sa_signal a)) b)
      (change (\<lambda>c. c\<lparr>ct_sent := ct_sent c @ [(sa_signal a, sa_target a)]\<rparr>)) (\<lambda>_. ?P) ?E"
    using ranked_snoc [OF _ assms(5)] assms(2)
    by (intro triple_change) (auto simp: in_progress_def sent_ok_def split: option.splits)
  have update: "triple ?P (ctl_update w date initial (set_attempt (attempt_of_answer a (wk_date w j) k))) (\<lambda>_. ?P) ?E" for j k
  proof -
    let ?a = "attempt_of_answer a (wk_date w j) k"
    have "sa_signal ?a = sa_signal a" "sa_target ?a = sa_target a" "sa_intended_at ?a = sa_intended_at a" "option_ok date (sa_sent_at ?a)"
      using assms(1,4) by (simp_all add: attempt_of_answer_def world_ok_def split: kill_answer.split)
    then show ?thesis
      using assms(2,3) sig_rank_bounds(2) by (intro triple_set_attempt) simp_all
  qed
  have tail: "triple ?P (case answer of Refused msg \<Rightarrow> ctl_throw (Signal_failed msg) | _ \<Rightarrow> ctl_return True) (\<lambda>_. ?P) ?E" for answer
    using sig_rank_bounds(2) by (auto split: kill_answer.split intro: halted_progress)
  show ?thesis
    unfolding deliver_signal_def progressing_def
    by (rule triple_and_then [OF sent] triple_asking triple_and_then [OF triple_set_deadline] triple_and_then [OF update] tail | simp)+
qed

lemma triple_send:
  assumes "world_ok w date" and "b < sig_rank s"
  shows "triple (in_progress date initial p b b) (send w date initial s)
    (\<lambda>_. progressing date initial p (sig_rank s)) (\<lambda>_. halted w date initial)"
proof -
  let ?a = "\<lambda>k. \<lparr>sa_signal = s, sa_target = target_of initial s, sa_intended_at = wk_date w k, sa_delivery = Uncertain,
                    sa_sent_at = None, sa_error = None\<rparr>"
  let ?P = "in_progress date initial p b b" and ?Q = "in_progress date initial p (sig_rank s) b"
  let ?after = "progressing date initial p (sig_rank s)" and ?E = "\<lambda>_. halted w date initial"
  have b3: "b \<le> 3"
    using assms(2) sig_rank_bounds(2) [of s] by linarith
  have widen: "?P c \<Longrightarrow> ?after c" "?Q c \<Longrightarrow> ?after c" for c
    using assms(2) by (auto simp: progressing_def elim: in_progress_mono)
  have stop: "triple ?P (ctl_return False) (\<lambda>_. ?after) ?E" "triple ?Q (ctl_return False) (\<lambda>_. ?after) ?E"
    by (rule triple_return, erule widen)+
  have there: "triple ?P (still_there w s) (\<lambda>_. ?P) ?E" "triple ?Q (still_there w s) (\<lambda>_. ?Q) ?E"
    using b3 by (auto intro!: triple_still_there intro: halted_progress)
  have intent: "triple ?P (ctl_update w date initial (add_attempt (?a k))) (\<lambda>_. ?Q) ?E" for k
    using triple_add_attempt [of "?a k" initial date b b p w] assms b3 by (simp add: world_ok_def)
  have deliver: "triple ?Q (deliver_signal w date initial (?a k)) (\<lambda>_. ?after) ?E" for k
    using triple_deliver [of w date "?a k" initial b p] assms by (simp add: world_ok_def)
  have read: "triple ?P (ctl_read w initial) (\<lambda>_. ?P) ?E" "triple ?Q (ctl_read w initial) (\<lambda>_. ?Q) ?E"
    by (rule triple_post [OF triple_read [OF b3]]; simp)+
  show ?thesis
    unfolding send_def Let_def
    by (rule triple_and_then [OF read(1)] triple_and_then [OF read(2)] triple_if stop triple_and_then [OF there(1)]
        triple_and_then [OF there(2)] triple_asking triple_and_then [OF intent] deliver | simp)+
qed

lemma triple_enter:
  assumes "world_ok w date" and "b < sig_rank s"
  shows "triple (in_progress date initial p b b) (enter w date initial s leader)
    (\<lambda>_. progressing date initial (phase_of s) (sig_rank s)) (\<lambda>_. halted w date initial)"
proof -
  have b3: "b \<le> 3"
    using assms(2) sig_rank_bounds(2) [of s] by linarith
  show ?thesis
    unfolding enter_def
    by (rule triple_and_then [OF triple_set_deadline] triple_asking triple_and_then [OF triple_entered [OF b3]]
        triple_and_then [OF triple_send [OF assms]] triple_return | simp)+
qed

section \<open>The final write\<close>

lemma exit_fields_simps [simp]:
  "rm_run_id (exit_fields ex m) = rm_run_id m" "rm_task_id (exit_fields ex m) = rm_task_id m" "rm_pid (exit_fields ex m) = rm_pid m"
  "rm_pgid (exit_fields ex m) = rm_pgid m" "rm_argv (exit_fields ex m) = rm_argv m" "rm_started_at (exit_fields ex m) = rm_started_at m"
  "rm_status (exit_fields ex m) = rm_status m" "rm_supervisor (exit_fields ex m) = rm_supervisor m" "rm_cwd (exit_fields ex m) = rm_cwd m"
  "rm_checkout (exit_fields ex m) = rm_checkout m" "rm_headless (exit_fields ex m) = rm_headless m"
  "rm_root_exited_at (exit_fields ex m) = rm_root_exited_at m" "rm_session (exit_fields ex m) = rm_session m"
  "rm_ended_at (exit_fields ex m) = rm_ended_at m" "rm_stopped_by (exit_fields ex m) = rm_stopped_by m"
  "rm_stopped_at (exit_fields ex m) = rm_stopped_at m" "rm_protocol (exit_fields ex m) = rm_protocol m"
  "rm_stop (exit_fields ex m) = rm_stop m" "rm_windows (exit_fields ex m) = rm_windows m" "rm_resume (exit_fields ex m) = rm_resume m"
  by (simp_all add: exit_fields_def split: option.split)

lemma exit_code_fields:
  "option_ok p (rm_exit_code m) \<Longrightarrow> (\<And>x. ex = Some x \<Longrightarrow> option_ok p (rx_code x)) \<Longrightarrow> option_ok p (rm_exit_code (exit_fields ex m))"
  by (auto simp: exit_fields_def split: option.split)

lemma archive_ok_finished:
  assumes "archive_ok date initial m" and "rm_stop m = Some r" and "sq_result r = None" and "date at'"
    and "\<And>x. ex = Some x \<Longrightarrow> option_ok (\<lambda>c. 0 \<le> c \<and> c \<le> 255) (rx_code x)"
  shows "archive_ok date initial (finished_meta outcome ex alive at' error m r)"
proof -
  let ?res = "final_result outcome ex alive at' error"
  let ?r = "r\<lparr>sq_phase := (if sv_success ?res then Completed else Incomplete), sq_result := Some ?res\<rparr>"
  let ?m = "finished_meta outcome ex alive at' error m r"
  have code: "option_ok (\<lambda>c. 0 \<le> c \<and> c \<le> int MAX_SAFE_INTEGER) (rx_code x)" if "ex = Some x" for x
    using assms(5) [OF that] by (auto simp: option_ok_def MAX_SAFE_INTEGER_def split: option.splits)
  have same: "attempt_ok date ?m = attempt_ok date m"
    by (simp add: fun_eq_iff attempt_ok_def finished_meta_def Let_def)
  have "result_ok date ?m (sq_phase ?r) ?res"
    using assms(4) by (auto simp: result_ok_def final_result_def finished_meta_def Let_def)
  then have "request_ok date ?m ?r"
    using request_of_archive [OF assms(1,2)] same by (simp add: request_ok_def) (simp add: finished_meta_def Let_def)
  moreover have "rm_stop ?m = Some ?r"
    by (simp add: finished_meta_def Let_def)
  moreover have "option_ok (\<lambda>c. 0 \<le> c \<and> c \<le> int MAX_SAFE_INTEGER) (rm_exit_code ?m)"
    unfolding finished_meta_def Let_def
    by (rule exit_code_fields) (use assms(1) code in \<open>simp_all add: archive_ok_def run_ok_def\<close>)
  moreover have "option_ok date (rm_ended_at ?m)"
    using assms(1,4) by (simp add: finished_meta_def Let_def archive_ok_def run_ok_def)
  ultimately show ?thesis
    using assms(1) unfolding archive_ok_def run_ok_def sameRunIdentity_def
    by (simp add: finished_meta_def Let_def) auto
qed

lemma triple_finish:
  assumes "world_ok w date" and "bnd \<le> 3"
  shows "triple (in_progress date initial p sl bnd) (finish w date initial outcome error)
    (\<lambda>_. finished w date initial) (\<lambda>_. stuck w date initial)"
proof -
  have "triple (in_progress date initial p sl bnd)
      (ctl_update w date initial (finished_meta outcome (wk_exit w i) (wk_group w j) (wk_date w k) error))
      (\<lambda>_. finished w date initial) (\<lambda>_. stuck w date initial)" for i j k
  proof (rule update_stored)
    fix c assume c: "in_progress date initial p sl bnd c"
    then obtain r where r: "archive_ok date initial (ct_meta c)" "rm_stop (ct_meta c) = Some r" "ct_request c = Some (sq_id r)"
        "sq_result r = None" "sent_ok initial bnd c"
      by (auto simp: in_progress_def split: option.splits)
    let ?f = "finished_meta outcome (wk_exit w i) (wk_group w j) (wk_date w k) error"
    have ok: "archive_ok date initial (?f (ct_meta c) r)"
      using r(1,2,4) assms(1) by (intro archive_ok_finished) (simp_all add: world_ok_def)
    have "wk_date w k \<noteq> []"
      using assms(1) unfolding world_ok_def by metis
    then have "finished w date initial (c\<lparr>ct_meta := ?f (ct_meta c) r\<rparr>)"
      using ok r(5) assms(2)
      by (auto simp: finished_def sent_ok_def request_result_def finished_meta_def final_result_def complete_def Let_def
          intro: ranked_mono)
    with ok r show "archive_ok date initial (ct_meta c) \<and> (\<exists>r. rm_stop (ct_meta c) = Some r \<and> ct_request c = Some (sq_id r) \<and>
        archive_ok date initial (?f (ct_meta c) r) \<and> finished w date initial (c\<lparr>ct_meta := ?f (ct_meta c) r\<rparr>))"
      by blast
  qed (use assms(2) in \<open>auto simp: halted_def open_at_def\<close>)
  then show ?thesis
    unfolding finish_def by (intro triple_asking) simp_all
qed

section \<open>Steps\<close>

definition at_signal :: "(string \<Rightarrow> bool) \<Rightarrow> run_meta \<Rightarrow> stop_signal \<Rightarrow> controller \<Rightarrow> bool" where
  "at_signal date initial s c \<longleftrightarrow> progressing date initial (phase_of s) (sig_rank s) c"

lemma enter_at:
  assumes "world_ok w date" and "b < sig_rank s"
  shows "triple (in_progress date initial p b b) (enter w date initial s leader)
    (\<lambda>_ c. finished w date initial c \<or> (\<exists>s. at_signal date initial s c \<and> b < sig_rank s)) (\<lambda>_. halted w date initial)"
  by (rule triple_post [OF triple_enter [OF assms]]) (use assms(2) in \<open>auto simp: at_signal_def\<close>)

lemma finish_at:
  assumes "world_ok w date" and "bnd \<le> 3"
  shows "triple (in_progress date initial p sl bnd) (finish w date initial outcome error)
    (\<lambda>_ c. finished w date initial c \<or> R c) (\<lambda>_. halted w date initial)"
  by (rule triple_post [OF triple_weaken [OF triple_finish [OF assms]]]) auto

lemma triple_first_step:
  assumes "world_ok w date"
  shows "triple (\<lambda>c. start_ok date initial c \<and> rm_stop (ct_meta c) = Some r) (first_step w date initial r)
    (\<lambda>_ c. finished w date initial c \<or> (\<exists>s. at_signal date initial s c)) (\<lambda>_. halted w date initial)"
proof -
  let ?Q = "\<lambda>_ c. finished w date initial c \<or> (\<exists>s. at_signal date initial s c)"
  let ?E = "\<lambda>_. halted w date initial"
  let ?b = "if sq_phase r = Requested then 0 else 3"
  have set_request: "triple (\<lambda>c. start_ok date initial c \<and> rm_stop (ct_meta c) = Some r)
      (change (\<lambda>c. c\<lparr>ct_request := Some (sq_id r)\<rparr>)) (\<lambda>_. in_progress date initial (sq_phase r) ?b 0) ?E"
    by (rule triple_change) (auto simp: start_ok_def in_progress_def sent_ok_def)
  have enter: "triple (in_progress date initial Requested 0 0) (enter w date initial s leader) ?Q ?E" for s leader
    by (rule triple_post [OF enter_at [OF assms, of 0 s]]) (use sig_rank_bounds(1) [of s] in auto)
  show ?thesis
  proof (cases "sq_phase r = Requested")
    case True
    show ?thesis
      unfolding first_step_def
      by (rule triple_and_then [OF set_request]) (simp only: True simp_thms if_False if_True,
        intro triple_asking triple_if enter finish_at [OF assms], simp_all)
  next
    case False
    show ?thesis
      unfolding first_step_def
      by (rule triple_and_then [OF set_request]) (use False in \<open>simp add: finish_at [OF assms]\<close>)
  qed
qed

text \<open>A later step either waits for the deadline, or finishes, or moves to a later signal.\<close>

definition waits :: "stop_world \<Rightarrow> controller \<Rightarrow> controller \<Rightarrow> bool" where
  "waits w c c' \<longleftrightarrow> c' = c\<lparr>ct_clock := ct_clock c + 3\<rparr> \<and> wk_now w (ct_clock c + 2) < ct_deadline c"

lemma triple_next_step:
  assumes "world_ok w date"
  shows "triple (\<lambda>c. c = c0 \<and> at_signal date initial s c \<and> rm_stop (ct_meta c) = Some r) (next_step w date initial r)
    (\<lambda>_ c. finished w date initial c \<or> (\<exists>s'. at_signal date initial s' c \<and> sig_rank s < sig_rank s') \<or> waits w c0 c)
    (\<lambda>_. halted w date initial)"
proof -
  let ?Q = "\<lambda>_ c. finished w date initial c \<or> (\<exists>s'. at_signal date initial s' c \<and> sig_rank s < sig_rank s') \<or> waits w c0 c"
  let ?E = "\<lambda>_. halted w date initial"
  let ?I = "in_progress date initial (phase_of s) (sig_rank s) (sig_rank s)"
  let ?P = "\<lambda>i c. c = c0\<lparr>ct_clock := ct_clock c0 + i\<rparr> \<and> ?I c \<and> rm_stop (ct_meta c) = Some r"
  have finish: "triple (?P i) (finish w date initial outcome error) ?Q ?E" for i outcome error
    by (rule triple_post [OF triple_pre [OF triple_weaken [OF triple_finish [OF assms]]]]) (use sig_rank_bounds(2) [of s] in auto)
  have enter: "triple (?P i) (enter w date initial s' False) ?Q ?E" if "sig_rank s < sig_rank s'" for i s'
    by (rule triple_post [OF triple_pre [OF enter_at [OF assms that]]]) auto
  have ask: "triple (?P i) (and_then (question q) g) ?Q ?E" if "triple (?P (Suc i)) (g (q (ct_clock c0 + i))) ?Q ?E" for i q and g :: "'a \<Rightarrow> unit ctl"
    using that by (simp add: triple_def and_then_def question_def)
  have phase: "sq_phase r = phase_of s" if "?P i c" for i c
    using that by (auto simp: in_progress_def)
  have decide: "triple (?P 3)
      (if wk_now w (ct_clock c0 + 2) < ct_deadline c0 then ctl_return ()
       else if alive = Some False then finish w date initial Not_complete m1
       else if sq_phase r = Cooperative then enter w date initial SIGTERM False
       else if sq_phase r = Term then enter w date initial SIGKILL False
       else finish w date initial Not_complete m2) ?Q ?E" for alive m1 m2
  proof (cases "\<exists>c. ?P 3 c")
    case False
    then show ?thesis unfolding triple_def by blast
  next
    case True
    then have p: "sq_phase r = phase_of s" using phase by blast
    show ?thesis
    proof (intro triple_if finish)
      assume "wk_now w (ct_clock c0 + 2) < ct_deadline c0"
      then show "triple (?P 3) (ctl_return ()) ?Q ?E"
        by (intro triple_return) (auto simp: waits_def)
    next
      assume "sq_phase r = Cooperative"
      with p show "triple (?P 3) (enter w date initial SIGTERM False) ?Q ?E"
        by (intro enter) (cases s; simp add: phase_of_def)
    next
      assume "sq_phase r = Term"
      with p show "triple (?P 3) (enter w date initial SIGKILL False) ?Q ?E"
        by (intro enter) (cases s; simp add: phase_of_def)
    qed
  qed
  have "triple (?P 3) (and_then (current ct_deadline) (\<lambda>deadline.
             if wk_now w (ct_clock c0 + 2) < deadline then ctl_return ()
             else if alive = Some False then finish w date initial Not_complete m1
             else if sq_phase r = Cooperative then enter w date initial SIGTERM False
             else if sq_phase r = Term then enter w date initial SIGKILL False
             else finish w date initial Not_complete m2)) ?Q ?E" for alive m1 m2
    using decide [of alive m1 m2] by (simp add: triple_def and_then_def current_def)
  then have "triple (?P 0) (next_step w date initial r) ?Q ?E"
    unfolding next_step_def
    by (intro ask triple_if finish) (simp add: numeral_eq_Suc)
  then show ?thesis
    by (rule triple_pre) (simp add: at_signal_def progressing_def)
qed

section \<open>The supervisor\<close>

text \<open>One round: from the start of a request or within it, and after the result.\<close>

definition pauses :: "stop_world \<Rightarrow> controller \<Rightarrow> controller \<Rightarrow> bool" where
  "pauses w c c' \<longleftrightarrow> c' = c\<lparr>ct_clock := ct_clock c + 5\<rparr> \<and> wk_now w (ct_clock c + 4) < ct_deadline c"

lemma at_signal_moved [simp]:
  "at_signal date initial s (c\<lparr>ct_clock := k\<rparr>) = at_signal date initial s c"
  "at_signal date initial s (c\<lparr>ct_exited := x\<rparr>) = at_signal date initial s c"
  by (simp_all add: at_signal_def progressing_def)

lemma at_signal_open: "at_signal date initial s c \<Longrightarrow> open_at date initial c"
  using sig_rank_bounds(2) [of s] unfolding at_signal_def progressing_def open_at_def by blast

lemma at_signal_halted: "at_signal date initial s c \<Longrightarrow> halted w date initial c"
  using sig_rank_bounds(2) [of s] unfolding at_signal_def progressing_def by (rule halted_progress [rotated])

lemma iteration_round:
  assumes "iteration w date initial c = (out, c')" and "sameRunIdentity (ct_meta c) initial"
  shows "(\<exists>e k. out = Inl e \<and> c' = c\<lparr>ct_clock := k\<rparr>) \<or>
    (\<exists>d. d = c\<lparr>ct_clock := ct_clock c + 2\<rparr> \<and> (out, c') =
      (case rm_stop (ct_meta c) of
         None \<Rightarrow> (Inr (), d)
       | Some r \<Rightarrow>
           if sq_result r \<noteq> None then (Inr (), d)
           else if ct_request c = None then first_step w date initial r d
           else if ct_request c \<noteq> Some (sq_id r) then (Inl Request_changed, d)
           else next_step w date initial r d))"
proof (cases "wk_loop w (ct_clock c) = None \<and> wk_read w (Suc (ct_clock c)) = None")
  case False
  with assms(1) show ?thesis
    by (auto simp: iteration_def step_def ctl_read_def and_then_def question_def ctl_throw_def split: option.split_asm)
next
  case True
  with assms show ?thesis
    by (intro disjI2)
      (auto simp: iteration_def step_def ctl_read_def and_then_def question_def current_def ctl_return_def ctl_throw_def
        split: option.split)
qed

lemma halted_identity: "halted w date initial c \<Longrightarrow> sameRunIdentity (ct_meta c) initial"
  by (auto simp: halted_def start_ok_def open_at_def in_progress_def finished_def archive_ok_def)

lemma iteration_cases:
  assumes "world_ok w date" and "start_ok date initial c \<or> (\<exists>s. at_signal date initial s c)"
    and "iteration w date initial c = (out, c')"
  shows "case out of
      Inl _ \<Rightarrow> halted w date initial c'
    | Inr _ \<Rightarrow> finished w date initial c' \<or>
        (if start_ok date initial c then \<exists>s. at_signal date initial s c'
         else (\<exists>s s'. at_signal date initial s c \<and> at_signal date initial s' c' \<and> sig_rank s < sig_rank s') \<or> pauses w c c')"
proof -
  let ?d = "c\<lparr>ct_clock := ct_clock c + 2\<rparr>"
  have h: "halted w date initial c"
    using assms(2) at_signal_open by (auto simp: halted_def)
  from iteration_round [OF assms(3) halted_identity [OF h]] show ?thesis
  proof (elim disjE exE conjE)
    fix e k assume "out = Inl e" "c' = c\<lparr>ct_clock := k\<rparr>"
    then show ?thesis using h by simp
  next
    fix d assume d: "d = ?d" and run: "(out, c') =
      (case rm_stop (ct_meta c) of
         None \<Rightarrow> (Inr (), d)
       | Some r \<Rightarrow>
           if sq_result r \<noteq> None then (Inr (), d)
           else if ct_request c = None then first_step w date initial r d
           else if ct_request c \<noteq> Some (sq_id r) then (Inl Request_changed, d)
           else next_step w date initial r d)"
    show ?thesis
    proof (cases "start_ok date initial c")
      case True
      then obtain r where r: "rm_stop (ct_meta c) = Some r" "sq_result r = None" "ct_request c = None"
        by (auto simp: start_ok_def split: option.splits)
      with run d have "first_step w date initial r ?d = (out, c')" by simp
      from triple_outcome [OF triple_first_step [OF assms(1)] _ this] True r(1) show ?thesis
        by (auto split: sum.splits)
    next
      case False
      with assms(2) obtain s where s: "at_signal date initial s c" by blast
      then obtain r where r: "rm_stop (ct_meta c) = Some r" "sq_result r = None" "ct_request c = Some (sq_id r)"
        by (auto simp: at_signal_def progressing_def in_progress_def split: option.splits)
      with run d have "next_step w date initial r ?d = (out, c')" by simp
      note after = triple_outcome [OF triple_next_step [OF assms(1), of ?d initial s r] _ this]
      have "pauses w c x" if "waits w ?d x" for x
        using that by (simp add: waits_def pauses_def eval_nat_numeral)
      with after s r(1) False show ?thesis
        by (auto split: sum.splits)
    qed
  qed
qed

lemma finished_iteration:
  assumes "finished w date initial c"
  shows "\<exists>out k. iteration w date initial c = (out, c\<lparr>ct_clock := k\<rparr>)"
proof -
  obtain out c' where it: "iteration w date initial c = (out, c')" by (cases "iteration w date initial c")
  obtain r where r: "rm_stop (ct_meta c) = Some r" "sq_result r \<noteq> None"
    using assms by (auto simp: finished_def request_result_def bind_eq_Some_conv split: option.split_asm)
  have "sameRunIdentity (ct_meta c) initial"
    using assms by (intro halted_identity [of w date]) (simp add: halted_def)
  from iteration_round [OF it this] r it show ?thesis by auto
qed

text \<open>The last attempt: a result, or storage failed.\<close>

lemma triple_fail:
  assumes "world_ok w date"
  shows "triple (halted w date initial) (fail w date initial e) (\<lambda>_. finished w date initial) (\<lambda>_. stuck w date initial)"
proof -
  let ?tail = "\<lambda>m. case rm_stop m of
         None \<Rightarrow> ctl_return ()
       | Some r \<Rightarrow>
           if sq_result r \<noteq> None then ctl_return ()
           else and_then (change (\<lambda>c. c\<lparr>ct_request := Some (sq_id r)\<rparr>)) (\<lambda>_.
                  finish w date initial Not_complete (Some (error_text e)))"
  have tail: "triple (\<lambda>c. halted w date initial c \<and> m = ct_meta c) (?tail m) (\<lambda>_. finished w date initial) (\<lambda>_. stuck w date initial)" for m
    unfolding triple_def
  proof (intro allI impI)
    fix c assume c: "halted w date initial c \<and> m = ct_meta c"
    show "case ?tail m c of (Inl e, c') \<Rightarrow> stuck w date initial c' | (Inr x, c') \<Rightarrow> finished w date initial c'"
    proof (cases "finished w date initial c")
      case True
      then obtain r where "rm_stop (ct_meta c) = Some r" "sq_result r \<noteq> None"
        by (auto simp: finished_def request_result_def bind_eq_Some_conv split: option.split_asm)
      with c True show ?thesis by (simp add: ctl_return_def)
    next
      case False
      then obtain r p sl bnd where r: "rm_stop m = Some r" "sq_result r = None" "bnd \<le> 3"
          "in_progress date initial p sl bnd (c\<lparr>ct_request := Some (sq_id r)\<rparr>)"
        using c by (fastforce simp: halted_def open_at_def start_ok_def in_progress_def sent_ok_def split: option.split_asm)
      with triple_finish [OF assms r(3), of initial p sl Not_complete "Some (error_text e)"] show ?thesis
        by (simp add: triple_def and_then_def change_def)
    qed
  qed
  have "triple (halted w date initial) (ctl_read w initial) (\<lambda>m c. halted w date initial c \<and> m = ct_meta c) (\<lambda>_. stuck w date initial)"
    by (rule read_ok) (auto dest: halted_identity)
  then show ?thesis
    unfolding fail_def by (rule triple_and_then) (rule tail)
qed

lemma fail_cases:
  assumes "world_ok w date" and "halted w date initial c"
  shows "finished w date initial (snd (fail w date initial e c)) \<or> stuck w date initial (snd (fail w date initial e c))"
  using triple_fail [OF assms(1), of initial e] assms(2)
  by (cases "fail w date initial e c"; cases "fst (fail w date initial e c)") (auto simp: triple_def)

lemma halted_supervise:
  assumes "world_ok w date"
  shows "start_ok date initial c \<or> (\<exists>s. at_signal date initial s c) \<or> finished w date initial c \<Longrightarrow>
    halted w date initial (supervise n w date initial c)"
proof (induction n arbitrary: c)
  case 0
  then show ?case using at_signal_open by (auto simp: halted_def)
next
  case (Suc n)
  obtain out c' where s: "iteration w date initial c = (out, c')" by (cases "iteration w date initial c")
  have after_fail: "halted w date initial (snd (fail w date initial e c'))" if "halted w date initial c'" for e
    using fail_cases [OF assms that, of e] by (auto simp: stuck_def halted_def)
  show ?case
  proof (cases "finished w date initial c")
    case True
    then obtain k where "c' = c\<lparr>ct_clock := k\<rparr>" using finished_iteration s by fastforce
    with True have f: "finished w date initial c'" by simp
    then show ?thesis
      using s after_fail Suc.IH [of c'] by (cases out) (auto simp: halted_def)
  next
    case False
    with Suc.prems have "start_ok date initial c \<or> (\<exists>s. at_signal date initial s c)" by blast
    from iteration_cases [OF assms this s] have c: "case out of
      Inl _ \<Rightarrow> halted w date initial c'
    | Inr _ \<Rightarrow> finished w date initial c' \<or> (\<exists>s. at_signal date initial s c')"
      using Suc.prems False by (auto simp: pauses_def split: sum.split if_split_asm)
    then show ?thesis
      using s after_fail Suc.IH [of c'] by (cases out) auto
  qed
qed

text \<open>Waiting ends: a clock that passes every time passes the deadline.\<close>

definition clock_passes :: "stop_world \<Rightarrow> bool" where
  "clock_passes w \<longleftrightarrow> (\<forall>t. \<exists>K. \<forall>k\<ge>K. t \<le> wk_now w k)"

text \<open>Where the supervisor ends up: a result on disk, or an exit after storage failed.\<close>

definition settled :: "stop_world \<Rightarrow> (string \<Rightarrow> bool) \<Rightarrow> run_meta \<Rightarrow> controller \<Rightarrow> bool" where
  "settled w date initial c \<longleftrightarrow> finished w date initial c \<or> (stuck w date initial c \<and> ct_exited c)"

lemma failing_round:
  assumes "world_ok w date" and "iteration w date initial c = (Inl e, c')" and "halted w date initial c'"
  shows "settled w date initial (supervise 1 w date initial c)"
  using fail_cases [OF assms(1,3), of e] assms(2) by (auto simp: settled_def stuck_def)

lemma quiet_round:
  "iteration w date initial c = (Inr (), c') \<Longrightarrow> supervise (Suc n) w date initial c = supervise n w date initial c'"
  by simp

lemma signal_ends:
  assumes "world_ok w date" and "clock_passes w"
  shows "at_signal date initial s c \<Longrightarrow> \<exists>n. settled w date initial (supervise n w date initial c)"
proof (induction "3 - sig_rank s" arbitrary: s c rule: less_induct)
  case less
  note outer = less.hyps
  obtain K where K: "\<And>k. K \<le> k \<Longrightarrow> ct_deadline c \<le> wk_now w k"
    using assms(2) unfolding clock_passes_def by blast
  have "\<exists>n. settled w date initial (supervise n w date initial d)"
    if "at_signal date initial s d" "ct_deadline d = ct_deadline c" for d
    using that
  proof (induction "K - ct_clock d" arbitrary: d rule: less_induct)
    case (less d)
    obtain out d' where st: "iteration w date initial d = (out, d')" by (cases "iteration w date initial d")
    have not_start: "\<not> start_ok date initial d"
      using less.prems(1) by (auto simp: start_ok_def at_signal_def progressing_def in_progress_def split: option.splits)
    have at_some: "\<exists>s. at_signal date initial s d" using less.prems(1) by blast
    have c: "case out of
      Inl _ \<Rightarrow> halted w date initial d'
    | Inr _ \<Rightarrow> finished w date initial d' \<or>
        (\<exists>s s'. at_signal date initial s d \<and> at_signal date initial s' d' \<and> sig_rank s < sig_rank s') \<or> pauses w d d'"
      using iteration_cases [OF assms(1) disjI2 [OF at_some] st] by (simp only: not_start if_False)
    show ?case
    proof (cases out)
      case (Inl e)
      with c st have "settled w date initial (supervise 1 w date initial d)"
        by (intro failing_round [OF assms(1)]) simp_all
      then show ?thesis by blast
    next
      case (Inr u)
      then have st': "iteration w date initial d = (Inr (), d')" using st by simp
      have next_run: "\<exists>n. settled w date initial (supervise n w date initial d)"
        if "\<exists>n. settled w date initial (supervise n w date initial d')"
        using that quiet_round [OF st'] by metis
      consider "finished w date initial d'" | s1 s' where "at_signal date initial s1 d" "at_signal date initial s' d'" "sig_rank s1 < sig_rank s'"
        | "pauses w d d'"
        using c Inr by auto
      then show ?thesis
      proof cases
        case 1
        then have "settled w date initial (supervise 0 w date initial d')" by (simp add: settled_def)
        then show ?thesis using next_run by blast
      next
        case 2
        have "sig_rank s1 = sig_rank s"
          using 2(1) less.prems(1)
          by (cases s1; cases s) (auto simp: at_signal_def progressing_def in_progress_def phase_of_def split: option.splits)
        then have "3 - sig_rank s' < 3 - sig_rank s"
          using 2(3) sig_rank_bounds(2) [of s'] by linarith
        from outer \<open>at_signal date initial s' d'\<close> this next_run show ?thesis by blast
      next
        case 3
        then have d': "d' = d\<lparr>ct_clock := ct_clock d + 5\<rparr>" "wk_now w (ct_clock d + 4) < ct_deadline d"
          by (simp_all add: pauses_def)
        have "ct_clock d + 4 < K"
          using d'(2) K [of "ct_clock d + 4"] less.prems(2) by (metis leD leI)
        then have "K - ct_clock d' < K - ct_clock d"
          by (simp add: d')
        moreover have "at_signal date initial s d'" "ct_deadline d' = ct_deadline c"
          using less.prems by (simp_all add: d')
        ultimately show ?thesis using less.hyps next_run by blast
      qed
    qed
  qed
  with less.prems show ?case by blast
qed

section \<open>Properties\<close>

text \<open>C17. Signals escalate and are never repeated.  However long the supervisor runs, the signals it has
  sent for a request rise from SIGINT over SIGTERM to SIGKILL without repetition; SIGINT goes to the
  root process, the others to its group.\<close>

theorem stop_signals_once:
  assumes "world_ok w date" and "start_ok date initial c"
  shows "sorted_wrt (<) (map sig_rank (map fst (ct_sent (supervise n w date initial c)))) \<and>
    (\<forall>x\<in>set (ct_sent (supervise n w date initial c)).
       snd x = (if fst x = SIGINT then rm_pid initial else - rm_pgid initial))"
proof -
  have "sent_ok initial 3 c'" if "halted w date initial c'" for c'
    using that by (auto simp: halted_def start_ok_def open_at_def in_progress_def sent_ok_def finished_def intro: ranked_mono)
  with halted_supervise [OF assms(1), of initial c n] assms(2) have "sent_ok initial 3 (supervise n w date initial c)"
    by blast
  then show ?thesis
    by (simp add: sent_ok_def ranked_def target_of_def)
qed

text \<open>C19. The controller never leaves an archive that cannot be read back: at every point the meta it has
  written passes the validator of the store, and it still describes the same process.\<close>

theorem stop_archive_valid:
  assumes "world_ok w date" and "start_ok date initial c"
  shows "validateMeta date windows (rm_run_id initial) (run_json (ct_meta (supervise n w date initial c))) \<and>
    sameRunIdentity (ct_meta (supervise n w date initial c)) initial"
proof -
  let ?m = "ct_meta (supervise n w date initial c)"
  have ok: "archive_ok date initial ?m"
    using halted_supervise [OF assms(1), of initial c n] assms(2)
    by (auto simp: halted_def start_ok_def open_at_def in_progress_def finished_def)
  have "rm_protocol ?m \<noteq> Some WINDOWS_PROTOCOL" "rm_run_id ?m = rm_run_id initial" "run_ok date ?m"
    using ok by (auto simp: archive_ok_def sameRunIdentity_def CONTROL_PROTOCOL_def WINDOWS_PROTOCOL_def)
  with validateMeta_run_json [of date ?m windows] assms(1) ok show ?thesis
    by (auto simp: world_ok_def archive_ok_def)
qed

text \<open>C18. A stop request comes to an end, and success is honest.  When the monotonic clock passes every
  time, the supervisor reaches one of two ends, whatever the process and the storage do.  Either a
  result is on disk, and one that says success was written for a complete run, after the actual exit
  of the root and the absence of the group were observed.  Or the archive could not be read or
  updated: then the supervisor has exited, and the request on disk keeps a phase that is neither
  completed nor incomplete, without a result.\<close>

theorem stop_terminates:
  assumes "world_ok w date" and "clock_passes w" and "start_ok date initial c"
  shows "\<exists>n r. rm_stop (ct_meta (supervise n w date initial c)) = Some r \<and>
    (case sq_result r of
       Some res \<Rightarrow> sv_success res \<longrightarrow> complete (ct_meta (supervise n w date initial c)) \<and>
         (\<exists>j. wk_exit w j \<noteq> None) \<and> (\<exists>j. wk_group w j = Some False)
     | None \<Rightarrow> ct_exited (supervise n w date initial c) \<and> sq_phase r \<notin> {Completed, Incomplete} \<and>
         ((\<exists>k. wk_read w k \<noteq> None) \<or> (\<exists>k. wk_update w k \<noteq> Stored)))"
proof -
  obtain out c1 where s: "iteration w date initial c = (out, c1)" by (cases "iteration w date initial c")
  have c1: "case out of Inl _ \<Rightarrow> halted w date initial c1
      | Inr _ \<Rightarrow> finished w date initial c1 \<or> (\<exists>s. at_signal date initial s c1)"
    using iteration_cases [OF assms(1) disjI1 [OF assms(3)] s] assms(3) by (auto split: sum.split)
  have "\<exists>n. settled w date initial (supervise n w date initial c)"
  proof (cases out)
    case (Inl e)
    with c1 s have "settled w date initial (supervise 1 w date initial c)"
      by (intro failing_round [OF assms(1)]) simp_all
    then show ?thesis by blast
  next
    case (Inr u)
    then have "\<exists>n. settled w date initial (supervise n w date initial c1)"
      using c1 signal_ends [OF assms(1,2)] by (auto intro: exI [of _ 0] simp: settled_def)
    with s Inr show ?thesis using quiet_round by (metis (full_types) unit.exhaust)
  qed
  then obtain n where n: "settled w date initial (supervise n w date initial c)" by blast
  let ?c = "supervise n w date initial c"
  show ?thesis
  proof (cases "finished w date initial ?c")
    case True
    then obtain r res where "rm_stop (ct_meta ?c) = Some r" "sq_result r = Some res"
      by (auto simp: finished_def request_result_def bind_eq_Some_conv split: option.split_asm)
    with True show ?thesis by (intro exI [of _ n] exI [of _ r]) (auto simp: finished_def request_result_def)
  next
    case False
    with n have st: "halted w date initial ?c" "storage_fails w" "ct_exited ?c"
      by (auto simp: settled_def stuck_def)
    with False obtain r where r: "rm_stop (ct_meta ?c) = Some r" "sq_result r = None" "archive_ok date initial (ct_meta ?c)"
      by (auto simp: halted_def start_ok_def open_at_def in_progress_def split: option.split_asm)
    with request_of_archive [OF r(3,1)] st(2,3) show ?thesis
      by (intro exI [of _ n] exI [of _ r]) (auto simp: request_ok_def storage_fails_def)
  qed
qed

definition stubborn_world :: stop_world where
  "stubborn_world = \<lparr>wk_exit = (\<lambda>_. None), wk_group = (\<lambda>_. Some True), wk_kill = (\<lambda>_. Signalled), wk_now = int,
     wk_date = (\<lambda>_. ''now''), wk_read = (\<lambda>_. None), wk_update = (\<lambda>_. Stored), wk_loop = (\<lambda>_. None),
     wk_cooperative = 0, wk_grace = 0, wk_verify = 0\<rparr>"

definition sample_run :: run_meta where
  "sample_run = \<lparr>rm_run_id = ''r'', rm_task_id = None, rm_pid = 10, rm_pgid = 10, rm_argv = [''pi''], rm_started_at = ''now'',
     rm_status = Stopped, rm_supervisor = 9, rm_cwd = ''/w'', rm_checkout = None, rm_headless = None, rm_root_exited_at = None,
     rm_session = None, rm_exit_code = None, rm_exit_signal = None, rm_ended_at = None, rm_stopped_by = Some ''me'',
     rm_stopped_at = Some ''now'', rm_probe = None, rm_ack = None, rm_protocol = Some CONTROL_PROTOCOL,
     rm_stop = Some \<lparr>sq_id = replicate 32 CHR ''a'', sq_requested_at = ''now'', sq_requested_by = ''me'', sq_phase = Requested,
       sq_accepted_at = None, sq_leader_exited = False, sq_signals = [], sq_result = None\<rparr>,
     rm_windows = None, rm_resume = None\<rparr>"

definition sample_controller :: controller where
  "sample_controller = \<lparr>ct_meta = sample_run, ct_request = None, ct_deadline = 0, ct_clock = 0, ct_sent = [], ct_exited = False\<rparr>"

lemma stubborn_ok: "world_ok stubborn_world (\<lambda>s. s = ''now'')" "clock_passes stubborn_world"
  "start_ok (\<lambda>s. s = ''now'') sample_run sample_controller"
proof -
  show "world_ok stubborn_world (\<lambda>s. s = ''now'')"
    by (simp add: world_ok_def stubborn_world_def)
  have "\<exists>K. \<forall>k\<ge>K. t \<le> int k" for t
    by (rule exI [of _ "nat t"]) auto
  then show "clock_passes stubborn_world"
    by (simp add: clock_passes_def stubborn_world_def)
  have "stop_id_text (replicate 32 CHR ''a'')"
    by (simp add: stop_id_text_def is_hex_def list_all_iff)
  then show "start_ok (\<lambda>s. s = ''now'') sample_run sample_controller"
    by (simp add: start_ok_def sample_controller_def archive_ok_def sample_run_def run_ok_def request_ok_def sameRunIdentity_def
      absolute_path_def starts_with_def CONTROL_PROTOCOL_def WINDOWS_PROTOCOL_def MAX_SAFE_INTEGER_def)
qed

theorem stop_signals_once_witness:
  "sorted_wrt (<) (map sig_rank (map fst (ct_sent (supervise 9 stubborn_world (\<lambda>s. s = ''now'') sample_run sample_controller))))"
  using stop_signals_once [OF stubborn_ok(1,3)] by blast

theorem stop_archive_valid_witness:
  "validateMeta (\<lambda>s. s = ''now'') (\<lambda>_. False) ''r''
     (run_json (ct_meta (supervise 9 stubborn_world (\<lambda>s. s = ''now'') sample_run sample_controller)))"
  using stop_archive_valid [OF stubborn_ok(1,3)] by (simp add: sample_run_def)

text \<open>The same process on a disk that takes no write.\<close>

definition full_disk :: stop_world where
  "full_disk = stubborn_world\<lparr>wk_update := (\<lambda>_. Not_stored ''ENOSPC'')\<rparr>"

lemma full_disk_ok: "world_ok full_disk (\<lambda>s. s = ''now'')" "clock_passes full_disk"
  using stubborn_ok(1,2) by (simp_all add: world_ok_def clock_passes_def full_disk_def)

theorem stop_terminates_witness:
  "(\<exists>n r res. rm_stop (ct_meta (supervise n stubborn_world (\<lambda>s. s = ''now'') sample_run sample_controller)) = Some r \<and>
      sq_result r = Some res \<and> \<not> sv_success res) \<and>
   (\<exists>n r. rm_stop (ct_meta (supervise n full_disk (\<lambda>s. s = ''now'') sample_run sample_controller)) = Some r \<and>
      \<not> (\<exists>res. sq_result r = Some res \<and> sv_success res))"
proof
  have "wk_exit stubborn_world j = None" "wk_exit full_disk j = None" "wk_read stubborn_world j = None"
    "wk_update stubborn_world j = Stored" for j
    by (simp_all add: stubborn_world_def full_disk_def)
  note never = this
  show "\<exists>n r res. rm_stop (ct_meta (supervise n stubborn_world (\<lambda>s. s = ''now'') sample_run sample_controller)) = Some r \<and>
      sq_result r = Some res \<and> \<not> sv_success res"
    using stop_terminates [OF stubborn_ok] never by (fastforce split: option.split_asm)
  show "\<exists>n r. rm_stop (ct_meta (supervise n full_disk (\<lambda>s. s = ''now'') sample_run sample_controller)) = Some r \<and>
      \<not> (\<exists>res. sq_result r = Some res \<and> sv_success res)"
    using stop_terminates [OF full_disk_ok stubborn_ok(3)] never by (fastforce split: option.split_asm)
qed

end
