(* ===== verification/Run_Lock.thy ===== *)
theory Run_Lock
  imports Run_Meta
begin

text \<open>
  The exclusive file locks of the run store, \<open>lockFile\<close> in \<open>src/core/run/store.ts\<close>: creation with
  \<open>O_EXCL\<close>, publication of the owner, release by the owner, and the recovery of a lock whose owner is
  dead under a second directory lock.

  Processes are process ids; they die at any moment and an id may be used again.  Every system call is
  one action, so the actions of different processes interleave freely.  Inode numbers are chosen by the
  file system and may repeat; the random token of an acquisition is one that was not used before.  A
  deadline that expires is the action \<open>Give_up\<close>.
\<close>

type_synonym owner = "nat \<times> nat"

datatype lock_pc =
    Outside
  | Created nat
  | Holding nat
  | Releasing nat
  | Looked nat
  | Read_owner nat owner
  | Dead_seen nat owner
  | Claimed nat owner
  | Stat_same nat owner
  | Content_same owner
  | Leaving

record lock_state =
  lk_file :: "(nat \<times> owner option) option"
  lk_reclaim :: bool
  lk_alive :: "nat \<Rightarrow> bool"
  lk_pc :: "nat \<Rightarrow> lock_pc"
  lk_used :: "nat \<Rightarrow> bool"

datatype lock_action =
    Born nat
  | Die nat
  | Create nat nat nat
  | Publish nat
  | Check_owner nat
  | Unlink_own nat
  | Stat nat
  | Read_lock nat
  | Probe nat
  | Give_up nat
  | Mkdir nat
  | Stat_again nat
  | Read_again nat
  | Unlink_stale nat
  | Back_off nat
  | Rmdir nat

definition set_pc :: "nat \<Rightarrow> lock_pc \<Rightarrow> lock_state \<Rightarrow> lock_state" where
  "set_pc p pc s = s\<lparr>lk_pc := (lk_pc s)(p := pc)\<rparr>"

definition unlocked :: "(nat \<Rightarrow> bool) \<Rightarrow> lock_state" where
  "unlocked alive = \<lparr>lk_file = None, lk_reclaim = False, lk_alive = alive, lk_pc = (\<lambda>_. Outside), lk_used = (\<lambda>_. False)\<rparr>"

text \<open>The acquiring and releasing process.\<close>

definition own_action :: "lock_action \<Rightarrow> lock_state \<Rightarrow> lock_state option" where
  "own_action a s =
     (case a of
        Create p i t \<Rightarrow>
          (if lk_pc s p = Outside \<and> lk_file s = None \<and> \<not> lk_used s t
           then Some (set_pc p (Created t) (s\<lparr>lk_file := Some (i, None), lk_used := (lk_used s)(t := True)\<rparr>)) else None)
      | Publish p \<Rightarrow>
          (case (lk_pc s p, lk_file s) of
             (Created t, Some (i, _)) \<Rightarrow> Some (set_pc p (Holding t) (s\<lparr>lk_file := Some (i, Some (p, t))\<rparr>))
           | _ \<Rightarrow> None)
      | Check_owner p \<Rightarrow>
          (case (lk_pc s p, lk_file s) of
             (Holding t, Some (_, Some owner)) \<Rightarrow>
               Some (set_pc p (if owner = (p, t) then Releasing t else Outside) s)
           | (Holding t, _) \<Rightarrow> Some (set_pc p Outside s)
           | _ \<Rightarrow> None)
      | Unlink_own p \<Rightarrow>
          (case lk_pc s p of Releasing t \<Rightarrow> Some (set_pc p Outside (s\<lparr>lk_file := None\<rparr>)) | _ \<Rightarrow> None)
      | _ \<Rightarrow> None)"

text \<open>The contender: it reads the lock, sees its owner dead, and removes it under the reclaim directory
  when inode and content are still what it read.\<close>

definition contend_action :: "lock_action \<Rightarrow> lock_state \<Rightarrow> lock_state option" where
  "contend_action a s =
     (case a of
        Stat p \<Rightarrow>
          (case (lk_pc s p, lk_file s) of
             (Outside, Some (i, _)) \<Rightarrow> Some (set_pc p (Looked i) s) | _ \<Rightarrow> None)
      | Read_lock p \<Rightarrow>
          (case (lk_pc s p, lk_file s) of
             (Looked i, Some (_, Some owner)) \<Rightarrow> Some (set_pc p (Read_owner i owner) s)
           | (Looked i, _) \<Rightarrow> Some (set_pc p Outside s)
           | _ \<Rightarrow> None)
      | Probe p \<Rightarrow>
          (case lk_pc s p of
             Read_owner i owner \<Rightarrow> Some (set_pc p (if lk_alive s (fst owner) then Outside else Dead_seen i owner) s)
           | _ \<Rightarrow> None)
      | Give_up p \<Rightarrow>
          (case lk_pc s p of
             Looked _ \<Rightarrow> Some (set_pc p Outside s)
           | Read_owner _ _ \<Rightarrow> Some (set_pc p Outside s)
           | Dead_seen _ _ \<Rightarrow> Some (set_pc p Outside s)
           | _ \<Rightarrow> None)
      | Mkdir p \<Rightarrow>
          (case lk_pc s p of
             Dead_seen i owner \<Rightarrow>
               Some (if lk_reclaim s then set_pc p Outside s else set_pc p (Claimed i owner) (s\<lparr>lk_reclaim := True\<rparr>))
           | _ \<Rightarrow> None)
      | Stat_again p \<Rightarrow>
          (case lk_pc s p of
             Claimed i owner \<Rightarrow>
               Some (set_pc p (if map_option fst (lk_file s) = Some i then Stat_same i owner else Leaving) s)
           | _ \<Rightarrow> None)
      | Read_again p \<Rightarrow>
          (case lk_pc s p of
             Stat_same i owner \<Rightarrow>
               Some (set_pc p (if map_option snd (lk_file s) = Some (Some owner) then Content_same owner else Leaving) s)
           | _ \<Rightarrow> None)
      | Unlink_stale p \<Rightarrow>
          (case lk_pc s p of Content_same _ \<Rightarrow> Some (set_pc p Leaving (s\<lparr>lk_file := None\<rparr>)) | _ \<Rightarrow> None)
      | Back_off p \<Rightarrow>
          (case lk_pc s p of
             Claimed _ _ \<Rightarrow> Some (set_pc p Leaving s) | Stat_same _ _ \<Rightarrow> Some (set_pc p Leaving s)
           | Content_same _ \<Rightarrow> Some (set_pc p Leaving s) | _ \<Rightarrow> None)
      | Rmdir p \<Rightarrow>
          (if lk_pc s p = Leaving then Some (set_pc p Outside (s\<lparr>lk_reclaim := False\<rparr>)) else None)
      | _ \<Rightarrow> None)"

fun actor :: "lock_action \<Rightarrow> nat" where
  "actor (Born p) = p" | "actor (Die p) = p" | "actor (Create p _ _) = p" | "actor (Publish p) = p"
| "actor (Check_owner p) = p" | "actor (Unlink_own p) = p" | "actor (Stat p) = p" | "actor (Read_lock p) = p"
| "actor (Probe p) = p" | "actor (Give_up p) = p" | "actor (Mkdir p) = p" | "actor (Stat_again p) = p"
| "actor (Read_again p) = p" | "actor (Unlink_stale p) = p" | "actor (Back_off p) = p" | "actor (Rmdir p) = p"

definition lock_act :: "lock_action \<Rightarrow> lock_state \<Rightarrow> lock_state option" where
  "lock_act a s =
     (case a of
        Born p \<Rightarrow> if lk_alive s p then None else Some (s\<lparr>lk_alive := (lk_alive s)(p := True)\<rparr>)
      | Die p \<Rightarrow> if lk_alive s p then Some (set_pc p Outside (s\<lparr>lk_alive := (lk_alive s)(p := False)\<rparr>)) else None
      | _ \<Rightarrow> if \<not> lk_alive s (actor a) then None
             else (case own_action a s of Some s' \<Rightarrow> Some s' | None \<Rightarrow> contend_action a s))"

inductive lock_step :: "lock_state \<Rightarrow> lock_state \<Rightarrow> bool" where
  act: "lock_act a s = Some s' \<Longrightarrow> lock_step s s'"

text \<open>Runs of actions.\<close>

fun lock_run :: "lock_action list \<Rightarrow> lock_state \<Rightarrow> lock_state option" where
  "lock_run [] s = Some s"
| "lock_run (a # as) s = (case lock_act a s of None \<Rightarrow> None | Some s' \<Rightarrow> lock_run as s')"

definition holds_lock :: "lock_state \<Rightarrow> nat \<Rightarrow> bool" where
  "holds_lock s p \<longleftrightarrow> (case lk_pc s p of Created _ \<Rightarrow> True | Holding _ \<Rightarrow> True | Releasing _ \<Rightarrow> True | _ \<Rightarrow> False)"

section \<open>The invariant\<close>

definition owns :: "lock_state \<Rightarrow> nat \<Rightarrow> nat \<Rightarrow> bool" where
  "owns s p t \<longleftrightarrow> lk_pc s p \<in> {Created t, Holding t, Releasing t}"

text \<open>The owner a contender has seen dead, if it has.\<close>

fun dead_owner :: "lock_pc \<Rightarrow> owner option" where
  "dead_owner (Dead_seen _ x) = Some x" | "dead_owner (Claimed _ x) = Some x" | "dead_owner (Stat_same _ x) = Some x"
| "dead_owner (Content_same x) = Some x" | "dead_owner _ = None"

fun in_reclaim :: "lock_pc \<Rightarrow> bool" where
  "in_reclaim (Claimed _ _) = True" | "in_reclaim (Stat_same _ _) = True" | "in_reclaim (Content_same _) = True"
| "in_reclaim Leaving = True" | "in_reclaim _ = False"

definition lock_inv :: "lock_state \<Rightarrow> bool" where
  "lock_inv s \<longleftrightarrow>
     (\<forall>p. lk_pc s p \<noteq> Outside \<longrightarrow> lk_alive s p) \<and>
     (\<forall>p q. holds_lock s p \<and> holds_lock s q \<longrightarrow> p = q) \<and>
     (\<forall>p t. lk_pc s p = Created t \<longrightarrow> (\<exists>i. lk_file s = Some (i, None))) \<and>
     (\<forall>p t. lk_pc s p \<in> {Holding t, Releasing t} \<longrightarrow> (\<exists>i. lk_file s = Some (i, Some (p, t)))) \<and>
     (\<forall>p t. owns s p t \<longrightarrow> lk_used s t) \<and>
     (\<forall>i x. lk_file s = Some (i, Some x) \<longrightarrow> lk_used s (snd x)) \<and>
     (\<forall>q i x. lk_pc s q = Read_owner i x \<longrightarrow> lk_used s (snd x)) \<and>
     (\<forall>q x. dead_owner (lk_pc s q) = Some x \<longrightarrow> lk_used s (snd x) \<and> \<not> owns s (fst x) (snd x)) \<and>
     (\<forall>q x. lk_pc s q = Content_same x \<longrightarrow> (\<exists>i. lk_file s = Some (i, Some x))) \<and>
     (\<forall>q. in_reclaim (lk_pc s q) \<longrightarrow> lk_reclaim s) \<and>
     (\<forall>p q. in_reclaim (lk_pc s p) \<and> in_reclaim (lk_pc s q) \<longrightarrow> p = q)"

lemma lock_invD:
  assumes "lock_inv s"
  shows "lk_pc s p \<noteq> Outside \<Longrightarrow> lk_alive s p" and "holds_lock s p \<Longrightarrow> holds_lock s q \<Longrightarrow> p = q"
    and "lk_pc s p = Created t \<Longrightarrow> \<exists>i. lk_file s = Some (i, None)"
    and "lk_pc s p \<in> {Holding t, Releasing t} \<Longrightarrow> \<exists>i. lk_file s = Some (i, Some (p, t))"
    and "owns s p t \<Longrightarrow> lk_used s t" and "lk_file s = Some (i, Some x) \<Longrightarrow> lk_used s (snd x)"
    and "lk_pc s q = Read_owner i x \<Longrightarrow> lk_used s (snd x)"
    and "dead_owner (lk_pc s q) = Some x \<Longrightarrow> lk_used s (snd x) \<and> \<not> owns s (fst x) (snd x)"
    and "lk_pc s q = Content_same x \<Longrightarrow> \<exists>i. lk_file s = Some (i, Some x)"
    and "in_reclaim (lk_pc s q) \<Longrightarrow> lk_reclaim s"
    and "in_reclaim (lk_pc s p) \<Longrightarrow> in_reclaim (lk_pc s q) \<Longrightarrow> p = q"
  using assms unfolding lock_inv_def by - (elim conjE, metis insertCI)+

lemma holds_owns: "holds_lock s p \<longleftrightarrow> (\<exists>t. owns s p t)"
  by (auto simp: holds_lock_def owns_def split: lock_pc.splits)

lemma set_pc_simps [simp]:
  "lk_file (set_pc p pc s) = lk_file s" "lk_reclaim (set_pc p pc s) = lk_reclaim s" "lk_alive (set_pc p pc s) = lk_alive s"
  "lk_used (set_pc p pc s) = lk_used s" "lk_pc (set_pc p pc s) q = (if q = p then pc else lk_pc s q)"
  by (simp_all add: set_pc_def)

definition owner_pc :: "lock_pc \<Rightarrow> bool" where
  "owner_pc pc \<longleftrightarrow> (\<exists>t. pc \<in> {Created t, Holding t, Releasing t})"

lemma holds_owner_pc: "holds_lock s p = owner_pc (lk_pc s p)"
  by (auto simp: holds_lock_def owner_pc_def split: lock_pc.splits)

lemma owns_set_pc: "owns (set_pc p pc s) q t = (if q = p then pc \<in> {Created t, Holding t, Releasing t} else owns s q t)"
  by (simp add: owns_def)

text \<open>Moving a process to a program counter that owns nothing.\<close>

lemma move_free:
  assumes "lock_inv s" and "lk_alive s p \<or> pc = Outside" and "\<not> owner_pc pc"
    and "\<And>i x. pc = Read_owner i x \<Longrightarrow> lk_used s (snd x)"
    and "\<And>x. dead_owner pc = Some x \<Longrightarrow> lk_used s (snd x) \<and> \<not> owns s (fst x) (snd x)"
    and "\<And>x. pc = Content_same x \<Longrightarrow> \<exists>i. lk_file s = Some (i, Some x)"
    and "in_reclaim pc \<Longrightarrow> lk_reclaim s \<and> (\<forall>q. in_reclaim (lk_pc s q) \<longrightarrow> q = p)"
  shows "lock_inv (set_pc p pc s)"
proof -
  note d = lock_invD [OF assms(1)]
  have o: "pc \<notin> {Created t, Holding t, Releasing t}" "\<not> owns (set_pc p pc s) p t" for t
    using assms(3) by (auto simp: owner_pc_def owns_set_pc)
  show ?thesis
    unfolding lock_inv_def holds_owner_pc owns_set_pc
  proof (intro conjI allI impI)
    show "lk_alive (set_pc p pc s) q" if "lk_pc (set_pc p pc s) q \<noteq> Outside" for q
      using that assms(2) d(1) [of q] by (auto split: if_split_asm)
    show "q = r" if "owner_pc (lk_pc (set_pc p pc s) q) \<and> owner_pc (lk_pc (set_pc p pc s) r)" for q r
      using that assms(3) d(2) [of q r] by (auto simp: holds_owner_pc split: if_split_asm)
    show "\<exists>i. lk_file (set_pc p pc s) = Some (i, None)" if "lk_pc (set_pc p pc s) q = Created t" for q t
      using that o(1) d(3) [of q t] by (auto split: if_split_asm)
    show "\<exists>i. lk_file (set_pc p pc s) = Some (i, Some (q, t))" if "lk_pc (set_pc p pc s) q \<in> {Holding t, Releasing t}" for q t
      using that o(1) d(4) [of q t] by (auto split: if_split_asm)
    show "lk_used (set_pc p pc s) t" if "if q = p then pc \<in> {Created t, Holding t, Releasing t} else owns s q t" for q t
      using that o(1) d(5) [of q t] by (auto split: if_split_asm)
    show "lk_used (set_pc p pc s) (snd x)" if "lk_file (set_pc p pc s) = Some (i, Some x)" for i x
      using that d(6) by simp
    show "lk_used (set_pc p pc s) (snd x)" if "lk_pc (set_pc p pc s) q = Read_owner i x" for q i x
      using that assms(4) d(7) [of q i x] by (auto split: if_split_asm)
    show "lk_used (set_pc p pc s) (snd x)" "\<not> (if fst x = p then pc \<in> {Created (snd x), Holding (snd x), Releasing (snd x)} else owns s (fst x) (snd x))"
      if "dead_owner (lk_pc (set_pc p pc s) q) = Some x" for q x
      using that assms(5) [of x] d(8) [of q x] o(1) [of "snd x"] by (cases "q = p"; simp)+
    show "\<exists>i. lk_file (set_pc p pc s) = Some (i, Some x)" if "lk_pc (set_pc p pc s) q = Content_same x" for q x
      using that assms(6) d(9) [of q x] by (auto split: if_split_asm)
    show "lk_reclaim (set_pc p pc s)" if "in_reclaim (lk_pc (set_pc p pc s) q)" for q
      using that assms(7) d(10) [of q] by (cases "q = p"; simp)
    show "q = r" if "in_reclaim (lk_pc (set_pc p pc s) q) \<and> in_reclaim (lk_pc (set_pc p pc s) r)" for q r
    proof (cases "q = p \<or> r = p")
      case True
      then show ?thesis using that assms(7) unfolding set_pc_simps(5) by metis
    next
      case False
      then show ?thesis using that d(11) [of q r] by simp
    qed
  qed
qed

lemma inv_reclaim_up: "lock_inv s \<Longrightarrow> lock_inv (s\<lparr>lk_reclaim := True\<rparr>)"
  unfolding lock_inv_def by (simp add: holds_lock_def owns_def)

lemma inv_alive_up: "lock_inv s \<Longrightarrow> lock_inv (s\<lparr>lk_alive := (lk_alive s)(p := True)\<rparr>)"
  unfolding lock_inv_def by (simp add: holds_lock_def owns_def)

lemma set_pc_shared:
  "(set_pc p pc s)\<lparr>lk_file := f\<rparr> = set_pc p pc (s\<lparr>lk_file := f\<rparr>)"
  "(set_pc p pc s)\<lparr>lk_reclaim := b\<rparr> = set_pc p pc (s\<lparr>lk_reclaim := b\<rparr>)"
  "(set_pc p pc s)\<lparr>lk_alive := v\<rparr> = set_pc p pc (s\<lparr>lk_alive := v\<rparr>)"
  by (simp_all add: set_pc_def)

lemma inv_alive_down: "\<lbrakk>lock_inv s; lk_pc s p = Outside\<rbrakk> \<Longrightarrow> lock_inv (s\<lparr>lk_alive := (lk_alive s)(p := False)\<rparr>)"
  unfolding lock_inv_def by (simp add: holds_lock_def owns_def)

lemma inv_reclaim_down: "\<lbrakk>lock_inv s; \<And>q. \<not> in_reclaim (lk_pc s q)\<rbrakk> \<Longrightarrow> lock_inv (s\<lparr>lk_reclaim := False\<rparr>)"
  unfolding lock_inv_def by (simp add: holds_lock_def owns_def)

lemma inv_file_gone:
  "\<lbrakk>lock_inv s; \<And>q. \<not> holds_lock s q; \<And>q x. lk_pc s q \<noteq> Content_same x\<rbrakk> \<Longrightarrow> lock_inv (s\<lparr>lk_file := None\<rparr>)"
  unfolding lock_inv_def holds_owner_pc owner_pc_def by (simp add: owns_def)

text \<open>With no file nobody holds the lock and nobody has seen its content twice.\<close>

lemma no_file:
  assumes "lock_inv s" and "lk_file s = None"
  shows "\<not> holds_lock s q" and "lk_pc s q \<noteq> Content_same x"
  using assms lock_invD(3,4) [OF assms(1), of q] lock_invD(9) [OF assms(1), of q x]
  by (auto simp: holds_owner_pc owner_pc_def)

lemma inv_create:
  assumes "lock_inv s" and "lk_pc s p = Outside" and "lk_file s = None" and "\<not> lk_used s t" and "lk_alive s p"
  shows "lock_inv (set_pc p (Created t) (s\<lparr>lk_file := Some (i, None), lk_used := (lk_used s)(t := True)\<rparr>))"
    (is "lock_inv ?s")
proof -
  note d = lock_invD [OF assms(1)] and n = no_file [OF assms(1,3)]
  have free: "\<not> owner_pc (lk_pc s q)" "\<not> owns s q u" for q u
    using n(1) [of q] by (auto simp: holds_owner_pc owner_pc_def owns_def)
  have pc: "lk_pc ?s q = (if q = p then Created t else lk_pc s q)" for q by simp
  have own: "owns ?s q u \<longleftrightarrow> q = p \<and> u = t" for q u
    using free(2) [of q u] by (auto simp: owns_def)
  show ?thesis
    unfolding lock_inv_def
  proof (intro conjI allI impI)
    show "lk_alive ?s q" if "lk_pc ?s q \<noteq> Outside" for q using that assms(5) d(1) [of q] by (auto simp: pc split: if_split_asm)
    show "q = r" if "holds_lock ?s q \<and> holds_lock ?s r" for q r using that by (auto simp: holds_owns own)
    show "\<exists>j. lk_file ?s = Some (j, None)" for q u by simp
    show "\<exists>j. lk_file ?s = Some (j, Some (q, u))" if "lk_pc ?s q \<in> {Holding u, Releasing u}" for q u
      using that free(1) [of q] by (auto simp: pc owner_pc_def split: if_split_asm)
    show "lk_used ?s u" if "owns ?s q u" for q u using that by (simp add: own)
    show "lk_used ?s (snd x)" if "lk_file ?s = Some (j, Some x)" for j x using that by simp
    show "lk_used ?s (snd x)" if "lk_pc ?s q = Read_owner j x" for q j x
      using that d(7) [of q j x] by (auto simp: pc split: if_split_asm)
    show "lk_used ?s (snd x)" "\<not> owns ?s (fst x) (snd x)" if "dead_owner (lk_pc ?s q) = Some x" for q x
      using that d(8) [of q x] assms(4) by (cases "q = p"; force simp: own)+
    show "\<exists>j. lk_file ?s = Some (j, Some x)" if "lk_pc ?s q = Content_same x" for q x
      using that n(2) [of q x] by (simp add: pc split: if_split_asm)
    show "lk_reclaim ?s" if "in_reclaim (lk_pc ?s q)" for q using that d(10) [of q] by (cases "q = p") simp_all
    show "q = r" if "in_reclaim (lk_pc ?s q) \<and> in_reclaim (lk_pc ?s r)" for q r
      using that d(11) [of q r] by (cases "q = p"; cases "r = p") simp_all
  qed
qed

text \<open>A holder that moves to \<open>Holding t\<close> or \<open>Releasing t\<close> with its own content in the file.\<close>

lemma inv_hold:
  assumes "lock_inv s" and "owns s p t" and "pc \<in> {Holding t, Releasing t}"
    and f: "lk_file s = Some (i, None) \<or> lk_file s = Some (i, Some (p, t))"
  shows "lock_inv (set_pc p pc (s\<lparr>lk_file := Some (i, Some (p, t))\<rparr>))" (is "lock_inv ?s")
proof -
  note d = lock_invD [OF assms(1)]
  have only: "owner_pc (lk_pc s q) \<longleftrightarrow> q = p" for q
    using assms(2) d(2) [of q p] by (auto simp: holds_owns simp flip: holds_owner_pc)
  have pc: "lk_pc ?s q = (if q = p then pc else lk_pc s q)" for q by simp
  have own: "owns ?s q u = owns s q u" for q u
    using assms(2,3) by (auto simp: owns_def)
  have hold: "holds_lock ?s q = holds_lock s q" for q by (simp only: holds_owns own)
  show ?thesis
    unfolding lock_inv_def
  proof (intro conjI allI impI)
    show "lk_alive ?s q" if "lk_pc ?s q \<noteq> Outside" for q
      using that assms(2) d(1) [of q] by (auto simp: pc owns_def split: if_split_asm)
    show "q = r" if "holds_lock ?s q \<and> holds_lock ?s r" for q r using that d(2) unfolding hold by blast
    show "\<exists>j. lk_file ?s = Some (j, None)" if "lk_pc ?s q = Created u" for q u
      using that only [of q] assms(3) by (auto simp: pc owner_pc_def split: if_split_asm)
    show "\<exists>j. lk_file ?s = Some (j, Some (q, u))" if "lk_pc ?s q \<in> {Holding u, Releasing u}" for q u
      using that only [of q] assms(3) by (auto simp: pc owner_pc_def split: if_split_asm)
    show "lk_used ?s u" if "owns ?s q u" for q u using that d(5) [of q u] by (simp add: own)
    show "lk_used ?s (snd x)" if "lk_file ?s = Some (j, Some x)" for j x
      using that d(5) [OF assms(2)] by auto
    show "lk_used ?s (snd x)" if "lk_pc ?s q = Read_owner j x" for q j x
      using that d(7) [of q j x] assms(3) by (cases "q = p") auto
    show "lk_used ?s (snd x)" "\<not> owns ?s (fst x) (snd x)" if "dead_owner (lk_pc ?s q) = Some x" for q x
      using that d(8) [of q x] assms(3) unfolding own by (cases "q = p"; auto)+
    show "\<exists>j. lk_file ?s = Some (j, Some x)" if "lk_pc ?s q = Content_same x" for q x
    proof (cases "q = p")
      case True
      with that assms(3) show ?thesis by (auto simp: pc)
    next
      case False
      with that have c: "lk_pc s q = Content_same x" by simp
      have "lk_file s = Some (i, Some (p, t))" using f d(9) [OF c] by auto
      then show ?thesis using d(9) [OF c] by simp
    qed
    show "lk_reclaim ?s" if "in_reclaim (lk_pc ?s q)" for q
      using that d(10) [of q] assms(3) by (cases "q = p") auto
    show "q = r" if "in_reclaim (lk_pc ?s q) \<and> in_reclaim (lk_pc ?s r)" for q r
      using that d(11) [of q r] assms(3) by (cases "q = p"; cases "r = p") auto
  qed
qed

lemma release_free:
  assumes "lock_inv s" and "owns s p t" and "lk_file s = Some (i, Some (p, t))"
  shows "lock_inv (set_pc p Outside (s\<lparr>lk_file := None\<rparr>))"
proof -
  note d = lock_invD [OF assms(1)]
  let ?u = "set_pc p Outside s"
  have u: "lock_inv ?u" by (rule move_free [OF assms(1)]) (auto simp: owner_pc_def)
  have "\<not> holds_lock ?u q" for q
    using assms(2) d(2) [of q p] by (auto simp: holds_owns owns_set_pc)
  moreover have "lk_pc ?u q \<noteq> Content_same x" for q x
  proof
    assume "lk_pc ?u q = Content_same x"
    then have c: "lk_pc s q = Content_same x" by (simp split: if_split_asm)
    then have "x = (p, t)" using d(9) [OF c] assms(3) by auto
    then show False using d(8) [of q x] c assms(2) by simp
  qed
  ultimately have "lock_inv (?u\<lparr>lk_file := None\<rparr>)" by (intro inv_file_gone u)
  then show ?thesis by (simp only: set_pc_shared)
qed

lemma unlink_stale_free:
  assumes "lock_inv s" and c: "lk_pc s p = Content_same x"
  shows "lock_inv (set_pc p Leaving (s\<lparr>lk_file := None\<rparr>))"
proof -
  note d = lock_invD [OF assms(1)]
  let ?u = "set_pc p Leaving s"
  obtain i where f: "lk_file s = Some (i, Some x)" using d(9) [OF c] by blast
  have r: "lk_reclaim s" "\<And>q. in_reclaim (lk_pc s q) \<Longrightarrow> q = p"
    using d(10) [of p] d(11) [of _ p] c by auto
  have u: "lock_inv ?u"
    using d(1) [of p] c r by (intro move_free [OF assms(1)]) (auto simp: owner_pc_def)
  have "\<not> holds_lock s q" for q
  proof
    assume "holds_lock s q"
    then obtain t where o: "owns s q t" by (auto simp: holds_owns)
    then have "x = (q, t)" using d(3) [of q t] d(4) [of q t] f by (auto simp: owns_def)
    then show False using d(8) [of p x] c o by simp
  qed
  then have "\<not> holds_lock ?u q" for q by (simp add: holds_owns owns_set_pc)
  moreover have "lk_pc ?u q \<noteq> Content_same y" for q y
    using r(2) [of q] by (auto split: if_split_asm)
  ultimately have "lock_inv (?u\<lparr>lk_file := None\<rparr>)" by (intro inv_file_gone u)
  then show ?thesis by (simp only: set_pc_shared)
qed

lemma rmdir_free:
  assumes "lock_inv s" and c: "lk_pc s p = Leaving"
  shows "lock_inv (set_pc p Outside (s\<lparr>lk_reclaim := False\<rparr>))"
proof -
  note d = lock_invD [OF assms(1)]
  let ?u = "set_pc p Outside s"
  have u: "lock_inv ?u" by (rule move_free [OF assms(1)]) (auto simp: owner_pc_def)
  have "\<not> in_reclaim (lk_pc ?u q)" for q using d(11) [of q p] c by auto
  then have "lock_inv (?u\<lparr>lk_reclaim := False\<rparr>)" by (intro inv_reclaim_down u)
  then show ?thesis by (simp only: set_pc_shared)
qed

lemma mkdir_free:
  assumes "lock_inv s" and c: "lk_pc s p = Dead_seen i x" and "\<not> lk_reclaim s"
  shows "lock_inv (set_pc p (Claimed i x) (s\<lparr>lk_reclaim := True\<rparr>))"
proof -
  note d = lock_invD [OF assms(1)]
  have u: "lock_inv (s\<lparr>lk_reclaim := True\<rparr>)" by (rule inv_reclaim_up [OF assms(1)])
  show ?thesis
    using d(1) [of p] d(8) [of p x] d(10) assms(2,3)
    by (intro move_free [OF u]) (auto simp: owner_pc_def owns_def)
qed

lemma dead_unowned: "lock_inv s \<Longrightarrow> \<not> lk_alive s p \<Longrightarrow> \<not> owns s p t"
  using lock_invD(1) [of s p] by (auto simp: owns_def)

lemma own_inv:
  assumes "lock_inv s" and "lk_alive s (actor a)" and "own_action a s = Some s'"
  shows "lock_inv s'"
proof -
  note d = lock_invD [OF assms(1)]
  show ?thesis
  proof (cases a)
    case (Create p i t)
    with assms show ?thesis by (auto simp: own_action_def split: if_split_asm intro: inv_create)
  next
    case (Publish p)
    with assms(3) obtain t i x where h: "lk_pc s p = Created t" "lk_file s = Some (i, x)"
      "s' = set_pc p (Holding t) (s\<lparr>lk_file := Some (i, Some (p, t))\<rparr>)"
      by (auto simp: own_action_def split: lock_pc.splits option.splits)
    have "owns s p t" "x = None" using h d(3) [OF h(1)] by (auto simp: owns_def)
    then show ?thesis using h by (auto intro!: inv_hold [OF assms(1)])
  next
    case (Check_owner p)
    with assms(3) obtain t where h: "lk_pc s p = Holding t" by (auto simp: own_action_def split: lock_pc.splits)
    obtain i where f: "lk_file s = Some (i, Some (p, t))" using d(4) [of p t] h by auto
    have s': "s' = set_pc p (Releasing t) s" using assms(3) Check_owner h f by (simp add: own_action_def)
    have "lock_inv (set_pc p (Releasing t) (s\<lparr>lk_file := Some (i, Some (p, t))\<rparr>))"
      using h f by (intro inv_hold [OF assms(1)]) (auto simp: owns_def)
    moreover have "s\<lparr>lk_file := Some (i, Some (p, t))\<rparr> = s" using f by (cases s) simp
    ultimately show ?thesis by (simp add: s')
  next
    case (Unlink_own p)
    with assms(3) obtain t where h: "lk_pc s p = Releasing t" "s' = set_pc p Outside (s\<lparr>lk_file := None\<rparr>)"
      by (auto simp: own_action_def split: lock_pc.splits)
    obtain i where f: "lk_file s = Some (i, Some (p, t))" using d(4) [of p t] h by auto
    show ?thesis unfolding h(2) by (rule release_free [OF assms(1) _ f]) (simp add: owns_def h(1))
  qed (use assms(3) in \<open>simp_all add: own_action_def\<close>)
qed

lemma to_outside: "lock_inv s \<Longrightarrow> lock_inv (set_pc p Outside s)"
  by (rule move_free) (auto simp: owner_pc_def)

lemma stay_claimed:
  assumes "lock_inv s" and "in_reclaim (lk_pc s p)" and "in_reclaim pc" and "\<not> owner_pc pc"
    and "dead_owner pc = None \<or> dead_owner pc = dead_owner (lk_pc s p)"
    and "\<And>x. pc = Content_same x \<Longrightarrow> \<exists>i. lk_file s = Some (i, Some x)"
  shows "lock_inv (set_pc p pc s)"
proof (rule move_free [OF assms(1) _ assms(4)])
  note d = lock_invD [OF assms(1)]
  show "lk_alive s p \<or> pc = Outside" using d(1) [of p] assms(2) by (cases "lk_pc s p") auto
  show "lk_used s (snd x)" if "pc = Read_owner i x" for i x using that assms(3) by simp
  show "lk_used s (snd x) \<and> \<not> owns s (fst x) (snd x)" if "dead_owner pc = Some x" for x
    using that assms(5) d(8) [of p x] by simp
  show "lk_reclaim s \<and> (\<forall>q. in_reclaim (lk_pc s q) \<longrightarrow> q = p)" if "in_reclaim pc"
    using d(10) [OF assms(2)] d(11) [OF _ assms(2)] by blast
qed (rule assms(6))

lemma to_leaving: "lock_inv s \<Longrightarrow> in_reclaim (lk_pc s p) \<Longrightarrow> lock_inv (set_pc p Leaving s)"
  by (rule stay_claimed) (simp_all add: owner_pc_def)

lemma contend_inv:
  assumes "lock_inv s" and "lk_alive s (actor a)" and "contend_action a s = Some s'"
  shows "lock_inv s'"
proof -
  note d = lock_invD [OF assms(1)]
  note out = to_outside [OF assms(1)] and leave = to_leaving [OF assms(1)]
  show ?thesis
  proof (cases a)
    case (Stat p)
    with assms show ?thesis
      by (auto simp: contend_action_def owner_pc_def split: lock_pc.splits option.splits intro!: move_free [OF assms(1)])
  next
    case (Read_lock p)
    with assms show ?thesis using d(6)
      by (auto simp: contend_action_def owner_pc_def split: lock_pc.splits option.splits
               intro!: move_free [OF assms(1)] out)
  next
    case (Probe p)
    with assms(3) obtain i x where h: "lk_pc s p = Read_owner i x"
      "s' = set_pc p (if lk_alive s (fst x) then Outside else Dead_seen i x) s"
      by (auto simp: contend_action_def split: lock_pc.splits)
    show ?thesis
    proof (cases "lk_alive s (fst x)")
      case True
      then show ?thesis by (simp add: h(2) out)
    next
      case False
      have "lock_inv (set_pc p (Dead_seen i x) s)"
        using assms(2) Probe d(7) [OF h(1)] dead_unowned [OF assms(1) False]
        by (intro move_free [OF assms(1)]) (auto simp: owner_pc_def)
      then show ?thesis using False by (simp add: h(2))
    qed
  next
    case (Mkdir p)
    with assms(3) obtain i x where h: "lk_pc s p = Dead_seen i x"
      "s' = (if lk_reclaim s then set_pc p Outside s else set_pc p (Claimed i x) (s\<lparr>lk_reclaim := True\<rparr>))"
      by (auto simp: contend_action_def split: lock_pc.splits)
    then show ?thesis using out mkdir_free [OF assms(1) h(1)] by simp
  next
    case (Stat_again p)
    with assms(3) obtain i x where h: "lk_pc s p = Claimed i x"
      "s' = set_pc p (if map_option fst (lk_file s) = Some i then Stat_same i x else Leaving) s"
      by (auto simp: contend_action_def split: lock_pc.splits)
    have "lock_inv (set_pc p (Stat_same i x) s)"
      by (rule stay_claimed [OF assms(1)]) (simp_all add: h(1) owner_pc_def)
    then show ?thesis using leave [of p] h by simp
  next
    case (Read_again p)
    with assms(3) obtain i x where h: "lk_pc s p = Stat_same i x"
      "s' = set_pc p (if map_option snd (lk_file s) = Some (Some x) then Content_same x else Leaving) s"
      by (auto simp: contend_action_def split: lock_pc.splits)
    have "lock_inv (set_pc p (Content_same x) s)" if "map_option snd (lk_file s) = Some (Some x)"
      using that by (intro stay_claimed [OF assms(1)]) (auto simp: h(1) owner_pc_def)
    then show ?thesis using leave [of p] h by simp
  next
    case (Unlink_stale p)
    with assms(3) show ?thesis
      by (auto simp: contend_action_def split: lock_pc.splits intro: unlink_stale_free [OF assms(1)])
  next
    case (Rmdir p)
    with assms(3) show ?thesis
      by (auto simp: contend_action_def split: if_split_asm intro: rmdir_free [OF assms(1)])
  next
    case (Give_up p)
    with assms(3) show ?thesis by (auto simp: contend_action_def split: lock_pc.splits intro: out)
  next
    case (Back_off p)
    with assms(3) show ?thesis by (auto simp: contend_action_def split: lock_pc.splits intro: leave)
  qed (use assms(3) in \<open>simp_all add: contend_action_def\<close>)
qed

lemma lock_act_inv:
  assumes "lock_inv s" and "lock_act a s = Some s'"
  shows "lock_inv s'"
proof (cases "(\<exists>p. a = Born p) \<or> (\<exists>p. a = Die p)")
  case True
  then show ?thesis
  proof (elim disjE exE)
    fix p assume "a = Born p"
    then show ?thesis using assms by (auto simp: lock_act_def split: if_split_asm intro: inv_alive_up)
  next
    fix p assume a: "a = Die p"
    have "lock_inv ((set_pc p Outside s)\<lparr>lk_alive := (lk_alive s)(p := False)\<rparr>)"
      using inv_alive_down [OF to_outside [OF assms(1), of p], of p] by simp
    then show ?thesis using assms a by (simp add: lock_act_def set_pc_shared split: if_split_asm)
  qed
next
  case False
  then have "lk_alive s (actor a)" "own_action a s = Some s' \<or> contend_action a s = Some s'"
    using assms(2) by (cases a; simp add: lock_act_def split: if_split_asm option.splits)+
  then show ?thesis using own_inv [OF assms(1)] contend_inv [OF assms(1)] by blast
qed

lemma lock_run_inv: "lock_inv s \<Longrightarrow> lock_run as s = Some s' \<Longrightarrow> lock_inv s'"
  by (induction as s rule: lock_run.induct) (auto split: option.splits intro: lock_act_inv)

lemma unlocked_inv: "lock_inv (unlocked alive)"
  by (simp add: unlocked_def lock_inv_def holds_lock_def owns_def)

text \<open>The same invariant for the step relation.\<close>

lemma lock_step_inv: "lock_step\<^sup>*\<^sup>* s s' \<Longrightarrow> lock_inv s \<Longrightarrow> lock_inv s'"
  by (induction rule: rtranclp_induct) (auto elim!: lock_step.cases intro: lock_act_inv)

section \<open>Mutual exclusion\<close>

text \<open>C12. However the steps of the contending processes interleave, and whichever of them die and come
  back, at most one process is between the creation of the lock file and its removal, and a holder always
  finds its own pid and token in the file, so its release never fails.\<close>

theorem lock_excludes:
  assumes "lock_run as (unlocked alive) = Some s"
  shows "(\<forall>p q. holds_lock s p \<and> holds_lock s q \<longrightarrow> p = q) \<and>
    (\<forall>p t. lk_pc s p = Holding t \<longrightarrow> (\<exists>i. lk_file s = Some (i, Some (p, t))))"
proof -
  have i: "lock_inv s" using lock_run_inv [OF unlocked_inv assms] .
  show ?thesis using lock_invD(2,4) [OF i] by simp
qed

definition takeover :: "lock_action list" where
  "takeover = [Create 1 7 100, Publish 1, Stat 2, Read_lock 2, Die 1, Probe 2, Mkdir 2, Stat_again 2,
     Read_again 2, Unlink_stale 2, Rmdir 2, Born 1, Create 2 7 101, Publish 2, Stat 1]"

definition two_alive :: "nat \<Rightarrow> bool" where
  "two_alive p \<longleftrightarrow> p = 1 \<or> p = 2"

lemma takeover_runs: "\<exists>s. lock_run takeover (unlocked two_alive) = Some s \<and> lk_pc s 2 = Holding 101"
  by (simp add: takeover_def lock_act_def own_action_def contend_action_def unlocked_def two_alive_def del: One_nat_def)

theorem lock_excludes_witness:
  "\<exists>s. lock_run takeover (unlocked two_alive) = Some s \<and> (\<forall>p. holds_lock s p \<longrightarrow> p = 2)"
proof -
  obtain s where s: "lock_run takeover (unlocked two_alive) = Some s" "lk_pc s 2 = Holding 101"
    using takeover_runs by blast
  then show ?thesis using lock_excludes [OF s(1)] by (auto simp: holds_lock_def)
qed

text \<open>A process that dies while it owns the reclaim directory leaves it behind.\<close>

definition orphaned :: "lock_state \<Rightarrow> bool" where
  "orphaned s \<longleftrightarrow> lk_reclaim s \<and> (\<forall>q. \<not> in_reclaim (lk_pc s q)) \<and> (\<forall>q. \<not> holds_lock s q) \<and> lk_file s \<noteq> None"

lemma orphaned_move:
  "\<lbrakk>orphaned s; \<not> in_reclaim pc; \<not> owner_pc pc\<rbrakk> \<Longrightarrow> orphaned (set_pc p pc s)"
  by (simp add: orphaned_def holds_owner_pc)

lemma orphaned_own: "orphaned s \<Longrightarrow> own_action a s = None"
  by (cases a; simp add: own_action_def orphaned_def holds_owner_pc owner_pc_def split: lock_pc.splits; blast?)

lemma orphaned_contend: "\<lbrakk>orphaned s; contend_action a s = Some s'\<rbrakk> \<Longrightarrow> orphaned s'"
proof (cases a)
  case (Mkdir p)
  assume "orphaned s" "contend_action a s = Some s'"
  moreover from this have "lk_reclaim s" by (simp add: orphaned_def)
  ultimately show ?thesis using Mkdir
    by (auto simp: contend_action_def owner_pc_def split: lock_pc.splits intro: orphaned_move)
next
  case (Stat_again p)
  assume "orphaned s" "contend_action a s = Some s'"
  moreover from this have "\<not> in_reclaim (lk_pc s p)" by (simp add: orphaned_def)
  ultimately show ?thesis using Stat_again by (auto simp: contend_action_def split: lock_pc.splits)
next
  case (Read_again p)
  assume "orphaned s" "contend_action a s = Some s'"
  moreover from this have "\<not> in_reclaim (lk_pc s p)" by (simp add: orphaned_def)
  ultimately show ?thesis using Read_again by (auto simp: contend_action_def split: lock_pc.splits)
next
  case (Unlink_stale p)
  assume "orphaned s" "contend_action a s = Some s'"
  moreover from this have "\<not> in_reclaim (lk_pc s p)" by (simp add: orphaned_def)
  ultimately show ?thesis using Unlink_stale by (auto simp: contend_action_def split: lock_pc.splits)
next
  case (Back_off p)
  assume "orphaned s" "contend_action a s = Some s'"
  moreover from this have "\<not> in_reclaim (lk_pc s p)" by (simp add: orphaned_def)
  ultimately show ?thesis using Back_off by (auto simp: contend_action_def split: lock_pc.splits)
next
  case (Rmdir p)
  assume "orphaned s" "contend_action a s = Some s'"
  moreover from this have "\<not> in_reclaim (lk_pc s p)" by (simp add: orphaned_def)
  ultimately show ?thesis using Rmdir by (auto simp: contend_action_def split: if_split_asm)
next
  case (Probe p)
  assume "orphaned s" "contend_action a s = Some s'"
  moreover from this obtain i x where "s' = set_pc p (if lk_alive s (fst x) then Outside else Dead_seen i x) s"
    using Probe by (cases "lk_pc s p") (auto simp: contend_action_def)
  ultimately show ?thesis by (cases "lk_alive s (fst x)") (simp_all add: owner_pc_def orphaned_move)
qed (auto simp: contend_action_def owner_pc_def split: lock_pc.splits option.splits intro!: orphaned_move)

lemma orphaned_act:
  assumes "orphaned s" and "lock_act a s = Some s'"
  shows "orphaned s'"
proof (cases "(\<exists>p. a = Born p) \<or> (\<exists>p. a = Die p)")
  case True
  have alive: "orphaned (s\<lparr>lk_alive := v\<rparr>)" for v using assms(1) by (simp add: orphaned_def holds_lock_def)
  show ?thesis using True assms(2)
    by (auto simp: lock_act_def owner_pc_def alive split: if_split_asm intro!: orphaned_move)
next
  case False
  then have "own_action a s = Some s' \<or> contend_action a s = Some s'"
    using assms(2) by (cases a; simp add: lock_act_def split: if_split_asm option.splits)+
  then show ?thesis using orphaned_own [OF assms(1)] orphaned_contend [OF assms(1)] by auto
qed

text \<open>A process that dies between creating and removing the reclaim directory leaves it behind, and
  nothing ever removes it: from then on no sequence of steps of any processes acquires the lock again,
  although its owner is dead.\<close>

theorem orphaned_reclaim_blocks:
  assumes "lock_run as s = Some s'" and "lk_reclaim s" and "lk_file s \<noteq> None"
    and "\<And>q. \<not> in_reclaim (lk_pc s q)" and "\<And>q. \<not> holds_lock s q"
  shows "lk_file s' \<noteq> None \<and> lk_reclaim s' \<and> \<not> holds_lock s' p"
proof -
  have "orphaned s" using assms(2-) by (simp add: orphaned_def)
  with assms(1) have "orphaned s'"
    by (induction as s rule: lock_run.induct) (auto split: option.splits intro: orphaned_act)
  then show ?thesis by (simp add: orphaned_def)
qed

definition reclaim_crash :: "lock_action list" where
  "reclaim_crash = [Create 1 7 100, Publish 1, Die 1, Stat 2, Read_lock 2, Probe 2, Mkdir 2, Die 2]"

definition retry_after_crash :: "lock_action list" where
  "retry_after_crash = [Born 1, Stat 1, Read_lock 1]"

theorem orphaned_reclaim_blocks_witness:
  "\<exists>s s'. lock_run reclaim_crash (unlocked two_alive) = Some s \<and> (\<forall>q. lk_pc s q = Outside) \<and>
    lock_run retry_after_crash s = Some s' \<and> \<not> holds_lock s' 1 \<and> lk_reclaim s'"
proof -
  obtain s where s: "lock_run reclaim_crash (unlocked two_alive) = Some s" "\<And>q. lk_pc s q = Outside"
    "lk_reclaim s" "lk_file s = Some (7, Some (1, 100))" "\<not> lk_alive s 1"
    by (simp add: reclaim_crash_def lock_act_def own_action_def contend_action_def unlocked_def two_alive_def del: One_nat_def)
  obtain s' where s': "lock_run retry_after_crash s = Some s'"
    using s by (simp add: retry_after_crash_def lock_act_def own_action_def contend_action_def del: One_nat_def)
  show ?thesis using orphaned_reclaim_blocks [OF s', of 1] s s' by (auto simp: holds_lock_def)
qed

end
