(* ===== verification/Run_Repair.thy ===== *)
theory Run_Repair
  imports Run_Meta "HOL-Library.List_Lexorder" "HOL-Library.Char_ord"
begin

text \<open>
  The disposition of an unreadable run archive: the classification in \<open>src/core/run/repair.ts\<close> and the
  operation on the archive directory, \<open>repairArchive\<close> in \<open>src/core/run/store.ts\<close>.

  An archive directory is the list of its entries in the order \<open>readdir\<close> reports them.  A regular file
  carries its bytes (as text) and its modification time; links, special files and unreadable files are
  entries of their own, because the code refuses them.  The arguments are \<open>parse\<close> for \<open>JSON.parse\<close>
  (\<open>None\<close> where it throws), \<open>valid\<close> for \<open>validateMeta\<close> on this run id, \<open>pr\<close> for \<open>probe\<close>
  (\<open>None\<close> is the code's \<open>null\<close>) and the list of hexadecimal suffixes that \<open>randomBytes\<close> will draw.
\<close>

datatype entry = Regular string rat | Link | Special | Unreadable string

type_synonym archive_dir = "(string \<times> entry) list"

datatype unsafe_kind = Symbolic_link | Not_regular | Unreadable_meta string

datatype meta_state = Meta_bytes string | Meta_absent "string option" | Meta_unsafe unsafe_kind

record artifact =
  af_name :: string
  af_raw :: string
  af_mtime :: rat

datatype blocking =
    Supervisor_alive int | Supervisor_unknown int | Completion_unproven
  | No_safe_pid | Pid_alive int | Pid_unknown int
  | No_safe_pgid | Group_alive int | Group_unknown int

datatype refusal =
    Unsafe_meta unsafe_kind
  | Identity_conflict string
  | Current_writers blocking
  | Artifact_writers blocking
  | Possibly_live blocking
  | Nothing_to_adopt
  | Identity_unknown
  | Artifact_gone string
  | No_bytes_to_isolate

datatype repair_decision =
    Already_valid | Already_quarantined | Adopt string | Isolate | Refuse refusal

datatype repair_applied =
    Was_valid | Was_quarantined | Adopted string "string option" | Isolated string | Refused refusal

section \<open>Names\<close>

definition QUARANTINE_BASE :: string where "QUARANTINE_BASE = ''meta.json.broken''"

definition META_JSON :: string where "META_JSON = ''meta.json''"

text \<open>\<open>/^meta\.[a-f0-9]{24}\.tmp$/\<close>\<close>

definition meta_tmp_name :: "string \<Rightarrow> bool" where
  "meta_tmp_name s \<longleftrightarrow> length s = 33 \<and> take 5 s = ''meta.'' \<and> list_all is_hex (take 24 (drop 5 s)) \<and> drop 29 s = ''.tmp''"

definition quarantine_name :: "string \<Rightarrow> bool" where
  "quarantine_name s \<longleftrightarrow> s = QUARANTINE_BASE \<or> starts_with (QUARANTINE_BASE @ ''.'') s"

text \<open>The marker of an isolated archive; \<open>None\<close> is a directory that cannot be listed.\<close>

definition quarantinedMarker :: "archive_dir option \<Rightarrow> string option" where
  "quarantinedMarker d = (case d of None \<Rightarrow> None | Some es \<Rightarrow> find quarantine_name (map fst es))"

section \<open>Classification\<close>

definition pid_of :: "json option \<Rightarrow> int option" where
  "pid_of v = (case safe_int v of None \<Rightarrow> None | Some p \<Rightarrow> if 1 < p then Some p else None)"

definition terminal_status :: "json \<Rightarrow> bool" where
  "terminal_status m \<longleftrightarrow> jget m ''status'' \<in> {Some (JStr ''exited''), Some (JStr ''stopped'')}"

definition writersBlocking :: "json \<Rightarrow> (int \<Rightarrow> bool option) \<Rightarrow> blocking option" where
  "writersBlocking m pr =
     (let supervisor =
        (case pid_of (jget m ''supervisor_pid'') of
           Some s \<Rightarrow> (case pr s of Some True \<Rightarrow> Some (Supervisor_alive s) | None \<Rightarrow> Some (Supervisor_unknown s) | Some False \<Rightarrow> None)
         | None \<Rightarrow> if terminal_status m then None else Some Completion_unproven)
      in case supervisor of Some b \<Rightarrow> Some b | None \<Rightarrow>
        (case pid_of (jget m ''pid'') of
           None \<Rightarrow> Some No_safe_pid
         | Some p \<Rightarrow>
             (case pr p of Some True \<Rightarrow> Some (Pid_alive p) | None \<Rightarrow> Some (Pid_unknown p) | Some False \<Rightarrow>
               (case pid_of (jget m ''pgid'') of
                  None \<Rightarrow> Some No_safe_pgid
                | Some g \<Rightarrow>
                    (case pr (- g) of Some True \<Rightarrow> Some (Group_alive g) | None \<Rightarrow> Some (Group_unknown g) | Some False \<Rightarrow> None)))))"

definition conflicting_field :: "json \<Rightarrow> json \<Rightarrow> string \<Rightarrow> bool" where
  "conflicting_field original candidate f =
     (case safe_int (jget original f) of None \<Rightarrow> False | Some v \<Rightarrow> jget candidate f \<noteq> Some (JNum (of_int v)))"

definition identityConflict :: "json \<Rightarrow> json \<Rightarrow> string option" where
  "identityConflict original candidate = find (conflicting_field original candidate) [''pid'', ''pgid'', ''supervisor_pid'']"

definition candidates :: "(string \<Rightarrow> json option) \<Rightarrow> (json \<Rightarrow> bool) \<Rightarrow> artifact list \<Rightarrow> artifact list" where
  "candidates parse valid afs =
     sort_key (\<lambda>a. - af_mtime a) (filter (\<lambda>a. case parse (af_raw a) of None \<Rightarrow> False | Some v \<Rightarrow> valid v) afs)"

text \<open>The newest candidate; the candidates passed the validator, so its bytes parse.\<close>

definition pickAdoptable ::
  "(string \<Rightarrow> json option) \<Rightarrow> (json \<Rightarrow> bool) \<Rightarrow> (int \<Rightarrow> bool option) \<Rightarrow> json option \<Rightarrow> artifact list \<Rightarrow> repair_decision option" where
  "pickAdoptable parse valid pr original afs =
     (case candidates parse valid afs of
        [] \<Rightarrow> None
      | newest # _ \<Rightarrow>
          (case parse (af_raw newest) of
             None \<Rightarrow> None
           | Some candidate \<Rightarrow>
               (let conflict =
                  (case original of
                     None \<Rightarrow> None
                   | Some m \<Rightarrow>
                       (case identityConflict m candidate of
                          Some f \<Rightarrow> Some (Identity_conflict f)
                        | None \<Rightarrow> map_option Current_writers (writersBlocking m pr)))
                in case conflict of
                     Some r \<Rightarrow> Some (Refuse r)
                   | None \<Rightarrow>
                       (case writersBlocking candidate pr of
                          Some b \<Rightarrow> Some (Refuse (Artifact_writers b))
                        | None \<Rightarrow> Some (Adopt (af_name newest))))))"

text \<open>The parsed current meta, when it is an object.\<close>

definition loose_identity :: "(string \<Rightarrow> json option) \<Rightarrow> string \<Rightarrow> json option" where
  "loose_identity parse raw = (case parse raw of Some (JObj ob) \<Rightarrow> Some (JObj ob) | _ \<Rightarrow> None)"

definition classifyRepair ::
  "(string \<Rightarrow> json option) \<Rightarrow> (json \<Rightarrow> bool) \<Rightarrow> (int \<Rightarrow> bool option) \<Rightarrow> meta_state \<Rightarrow> artifact list \<Rightarrow> repair_decision" where
  "classifyRepair parse valid pr meta afs =
     (case meta of
        Meta_unsafe k \<Rightarrow> Refuse (Unsafe_meta k)
      | Meta_absent marker \<Rightarrow>
          (case pickAdoptable parse valid pr None afs of
             Some d \<Rightarrow> d
           | None \<Rightarrow> if marker \<noteq> None then Already_quarantined else Refuse Nothing_to_adopt)
      | Meta_bytes raw \<Rightarrow>
          (let parsed = loose_identity parse raw in
           if (case parsed of None \<Rightarrow> False | Some m \<Rightarrow> valid m) then Already_valid
           else (case pickAdoptable parse valid pr parsed afs of
             Some d \<Rightarrow> d
           | None \<Rightarrow>
               (case parsed of
                  None \<Rightarrow> Refuse Identity_unknown
                | Some m \<Rightarrow> (case writersBlocking m pr of Some b \<Rightarrow> Refuse (Possibly_live b) | None \<Rightarrow> Isolate)))))"

section \<open>The archive directory\<close>

text \<open>\<open>readRepairMetaState\<close> and the lazy artifact scan; unreadable entries are skipped by the scan.\<close>

definition readRepairMetaState :: "archive_dir \<Rightarrow> meta_state" where
  "readRepairMetaState d =
     (case map_of d META_JSON of
        Some (Regular raw _) \<Rightarrow> Meta_bytes raw
      | Some Link \<Rightarrow> Meta_unsafe Symbolic_link
      | Some Special \<Rightarrow> Meta_unsafe Not_regular
      | Some (Unreadable e) \<Rightarrow> Meta_unsafe (Unreadable_meta e)
      | None \<Rightarrow> Meta_absent (find quarantine_name (map fst d)))"

definition scanArtifacts :: "archive_dir \<Rightarrow> artifact list" where
  "scanArtifacts d =
     List.map_filter (\<lambda>n. case map_of d n of
         Some (Regular raw t) \<Rightarrow> Some \<lparr>af_name = n, af_raw = raw, af_mtime = t\<rparr> | _ \<Rightarrow> None)
       (filter meta_tmp_name (sort (map fst d)))"

text \<open>\<open>renameSync\<close> replaces an existing target.\<close>

definition rename_entry :: "string \<Rightarrow> string \<Rightarrow> archive_dir \<Rightarrow> archive_dir" where
  "rename_entry old new d = map (\<lambda>(n, e). (if n = old then new else n, e)) (filter (\<lambda>(n, _). n \<noteq> new) d)"

text \<open>The loop of \<open>isolateMetaEvidence\<close>; \<open>None\<close> when the draws run out.\<close>

fun fresh_name :: "string set \<Rightarrow> string \<Rightarrow> string list \<Rightarrow> string option" where
  "fresh_name existing target draws =
     (if target \<notin> existing then Some target
      else (case draws of [] \<Rightarrow> None | h # hs \<Rightarrow> fresh_name existing (QUARANTINE_BASE @ ''.'' @ h) hs))"

declare fresh_name.simps [simp del]

definition isolateMetaEvidence :: "string list \<Rightarrow> archive_dir \<Rightarrow> (string \<times> archive_dir) option" where
  "isolateMetaEvidence draws d =
     map_option (\<lambda>t. (t, rename_entry META_JSON t d)) (fresh_name (set (map fst d)) QUARANTINE_BASE draws)"

definition apply_decision :: "string list \<Rightarrow> repair_decision \<Rightarrow> archive_dir \<Rightarrow> (repair_applied \<times> archive_dir) option" where
  "apply_decision draws dec d =
     (case dec of
        Already_valid \<Rightarrow> Some (Was_valid, d)
      | Already_quarantined \<Rightarrow> Some (Was_quarantined, d)
      | Refuse r \<Rightarrow> Some (Refused r, d)
      | Isolate \<Rightarrow>
          (case readRepairMetaState d of
             Meta_bytes _ \<Rightarrow> map_option (\<lambda>(t, d'). (Isolated t, d')) (isolateMetaEvidence draws d)
           | _ \<Rightarrow> Some (Refused No_bytes_to_isolate, d))
      | Adopt a \<Rightarrow>
          (if a \<notin> af_name ` set (scanArtifacts d) then Some (Refused (Artifact_gone a), d)
           else (case readRepairMetaState d of
             Meta_bytes _ \<Rightarrow>
               map_option (\<lambda>(t, d'). (Adopted a (Some t), rename_entry a META_JSON d')) (isolateMetaEvidence draws d)
           | _ \<Rightarrow> Some (Adopted a None, rename_entry a META_JSON d))))"

definition repairArchive ::
  "(string \<Rightarrow> json option) \<Rightarrow> (json \<Rightarrow> bool) \<Rightarrow> (int \<Rightarrow> bool option) \<Rightarrow> string list \<Rightarrow> archive_dir \<Rightarrow> (repair_applied \<times> archive_dir) option" where
  "repairArchive parse valid pr draws d =
     apply_decision draws (classifyRepair parse valid pr (readRepairMetaState d) (scanArtifacts d)) d"

datatype repair_outcome =
    Outcome_valid | Outcome_repaired string "string option" | Outcome_quarantined string
  | Outcome_already_quarantined | Outcome_refused refusal | Outcome_not_run string

text \<open>\<open>Inl\<close> is the thrown error of an ill-formed id; \<open>lk\<close> is the outcome of taking the meta lock.\<close>

definition repairRun ::
  "(string \<Rightarrow> json option) \<Rightarrow> (string \<Rightarrow> json \<Rightarrow> bool) \<Rightarrow> (int \<Rightarrow> bool option) \<Rightarrow> string list \<Rightarrow> string + unit \<Rightarrow>
    string \<Rightarrow> archive_dir \<Rightarrow> (string + repair_outcome \<times> archive_dir) option" where
  "repairRun parse valid pr draws lk i d =
     (if \<not> validId i then Some (Inl (''invalid run-id: '' @ i))
      else (case lk of
        Inl e \<Rightarrow> Some (Inr (Outcome_not_run e, d))
      | Inr _ \<Rightarrow>
          map_option (\<lambda>(r, d'). Inr (case r of
              Was_valid \<Rightarrow> Outcome_valid | Was_quarantined \<Rightarrow> Outcome_already_quarantined
            | Isolated t \<Rightarrow> Outcome_quarantined t | Adopted a t \<Rightarrow> Outcome_repaired a t | Refused e \<Rightarrow> Outcome_refused e, d'))
            (repairArchive parse (valid i) pr draws d)))"

section \<open>Nothing is modified while a writer may live\<close>

definition provably_dead :: "(int \<Rightarrow> bool option) \<Rightarrow> json \<Rightarrow> bool" where
  "provably_dead pr m \<longleftrightarrow>
     (case pid_of (jget m ''supervisor_pid'') of Some s \<Rightarrow> pr s = Some False | None \<Rightarrow> terminal_status m) \<and>
     (case pid_of (jget m ''pid'') of Some p \<Rightarrow> pr p = Some False | None \<Rightarrow> False) \<and>
     (case pid_of (jget m ''pgid'') of Some g \<Rightarrow> pr (- g) = Some False | None \<Rightarrow> False)"

lemma writersBlocking_None: "writersBlocking m pr = None \<longleftrightarrow> provably_dead pr m"
  by (simp add: writersBlocking_def provably_dead_def Let_def split: option.splits bool.splits)

lemma candidates_sound:
  assumes "candidates parse valid afs = a # as"
  shows "a \<in> set afs" and "\<exists>v. parse (af_raw a) = Some v \<and> valid v"
proof -
  have "a \<in> set (candidates parse valid afs)" using assms by simp
  then show "a \<in> set afs" "\<exists>v. parse (af_raw a) = Some v \<and> valid v"
    by (auto simp: candidates_def split: option.splits)
qed

lemma candidates_newest:
  assumes "candidates parse valid afs = a # as"
  shows "\<forall>b\<in>set afs. (\<exists>v. parse (af_raw b) = Some v \<and> valid v) \<longrightarrow> af_mtime b \<le> af_mtime a"
proof (intro ballI impI)
  fix b
  assume b: "b \<in> set afs" "\<exists>v. parse (af_raw b) = Some v \<and> valid v"
  have "sorted (map (\<lambda>a. - af_mtime a) (candidates parse valid afs))" unfolding candidates_def by (rule sorted_sort_key)
  moreover have "b \<in> set (candidates parse valid afs)" using b by (auto simp: candidates_def)
  ultimately show "af_mtime b \<le> af_mtime a" unfolding assms by auto
qed

lemma pickAdoptable_none:
  assumes "pickAdoptable parse valid pr original afs = None" and "a \<in> set afs" and "parse (af_raw a) = Some v"
  shows "\<not> valid v"
proof
  assume "valid v"
  with assms(2,3) have "a \<in> set (candidates parse valid afs)" by (simp add: candidates_def)
  then obtain b bs where c: "candidates parse valid afs = b # bs" by (cases "candidates parse valid afs") auto
  then show False
    using assms(1) candidates_sound(2) [OF c] by (auto simp: pickAdoptable_def Let_def c split: option.splits)
qed

lemma pickAdoptable_adopts:
  assumes "pickAdoptable parse valid pr original afs = Some (Adopt n)"
  obtains a m where "a \<in> set afs" and "af_name a = n" and "parse (af_raw a) = Some m" and "valid m"
    and "provably_dead pr m" and "case original of None \<Rightarrow> True | Some m0 \<Rightarrow> provably_dead pr m0 \<and> identityConflict m0 m = None"
    and "\<forall>b\<in>set afs. (\<exists>v. parse (af_raw b) = Some v \<and> valid v) \<longrightarrow> af_mtime b \<le> af_mtime a"
proof -
  obtain a as where c: "candidates parse valid afs = a # as"
    using assms by (auto simp: pickAdoptable_def split: list.splits)
  obtain m where m: "parse (af_raw a) = Some m" "valid m" using candidates_sound(2) [OF c] by blast
  have "af_name a = n \<and> writersBlocking m pr = None \<and>
      (case original of None \<Rightarrow> True | Some m0 \<Rightarrow> writersBlocking m0 pr = None \<and> identityConflict m0 m = None)"
    using assms by (auto simp: pickAdoptable_def c m(1) split: option.splits)
  then show thesis
    using that [of a m] candidates_sound(1) [OF c] m candidates_newest [OF c] by (auto simp: writersBlocking_None split: option.splits)
qed

lemma pickAdoptable_cases:
  "pickAdoptable parse valid pr original afs = Some d \<Longrightarrow> (\<exists>n. d = Adopt n) \<or> (\<exists>r. d = Refuse r)"
  by (auto simp: pickAdoptable_def split: list.splits option.splits)

lemma classify_isolate:
  assumes "classifyRepair parse valid pr meta afs = Isolate"
  obtains raw m where "meta = Meta_bytes raw" and "loose_identity parse raw = Some m" and "\<not> valid m" and "provably_dead pr m"
    and "pickAdoptable parse valid pr (Some m) afs = None"
  using assms pickAdoptable_cases [of parse valid pr _ afs]
  by (fastforce simp: classifyRepair_def Let_def writersBlocking_None split: meta_state.splits option.splits if_split_asm)

lemma classify_adopt:
  assumes "classifyRepair parse valid pr meta afs = Adopt n"
  shows "pickAdoptable parse valid pr
      (case meta of Meta_bytes raw \<Rightarrow> loose_identity parse raw | _ \<Rightarrow> None) afs = Some (Adopt n)"
  using assms
  by (auto simp: classifyRepair_def Let_def split: meta_state.splits option.splits if_split_asm)

lemma apply_changes:
  assumes "apply_decision draws dec d = Some (r, d')" and "d' \<noteq> d"
  shows "dec = Isolate \<or> (\<exists>n. dec = Adopt n)"
  using assms by (auto simp: apply_decision_def split: repair_decision.splits)

section \<open>Evidence is never lost\<close>

lemma rename_missing: "old \<notin> fst ` set d \<Longrightarrow> new \<notin> fst ` set d \<Longrightarrow> rename_entry old new d = d"
  by (induction d) (auto simp: rename_entry_def)

lemma drop_absent: "new \<notin> fst ` set d \<Longrightarrow> filter (\<lambda>p. fst p \<noteq> new) d = d"
  by (induction d) auto

lemma rename_entries: "new \<notin> fst ` set d \<Longrightarrow> map snd (rename_entry old new d) = map snd d"
  by (simp add: rename_entry_def case_prod_unfold comp_def drop_absent)

lemma rename_names: "new \<notin> fst ` set d \<Longrightarrow> map fst (rename_entry old new d) = map (\<lambda>n. if n = old then new else n) (map fst d)"
  by (simp add: rename_entry_def case_prod_unfold comp_def drop_absent)

lemma rename_lookup:
  assumes "distinct (map fst d)" and "new \<notin> fst ` set d"
  shows "map_of (rename_entry old new d) n =
    (if n = new then map_of d old else if n = old then None else map_of d n)"
  using assms
proof (induction d)
  case (Cons x d)
  have r: "rename_entry old new (x # d) = (if fst x = old then new else fst x, snd x) # rename_entry old new d"
    using Cons.prems(2) by (auto simp: rename_entry_def case_prod_unfold)
  have m: "map_of d n = None \<longleftrightarrow> n \<notin> fst ` set d" for n by (rule map_of_eq_None_iff)
  show ?case using Cons m [of old] m [of new] by (auto simp: r)
qed (simp add: rename_entry_def)

lemma fresh_name_fresh: "fresh_name existing t draws = Some n \<Longrightarrow> n \<notin> existing"
  by (induction existing t draws rule: fresh_name.induct)
    (subst (asm) (2) fresh_name.simps, auto split: if_split_asm list.splits)

lemma distinct_renamed: "distinct ns \<Longrightarrow> new \<notin> set ns \<Longrightarrow> distinct (map (\<lambda>n. if n = old then new else n) ns)"
  by (induction ns) auto

lemma isolate_entries:
  assumes "isolateMetaEvidence draws d = Some (t, d')" and "META_JSON \<in> fst ` set d" and "distinct (map fst d)"
  shows "d' = rename_entry META_JSON t d" and "map snd d' = map snd d" and "META_JSON \<notin> fst ` set d'"
    and "t \<notin> fst ` set d" and "distinct (map fst d')"
proof -
  obtain f: "fresh_name (set (map fst d)) QUARANTINE_BASE draws = Some t" and d': "d' = rename_entry META_JSON t d"
    using assms by (auto simp: isolateMetaEvidence_def)
  have t: "t \<notin> fst ` set d" using fresh_name_fresh [OF f] by simp
  show "d' = rename_entry META_JSON t d" "t \<notin> fst ` set d" "map snd d' = map snd d"
    using t by (simp_all add: d' rename_entries)
  have n: "map fst d' = map (\<lambda>n. if n = META_JSON then t else n) (map fst d)"
    using t by (simp add: d' rename_names)
  have ne: "t \<noteq> META_JSON" using t assms(2) by auto
  have "set (map fst d') = (\<lambda>n. if n = META_JSON then t else n) ` set (map fst d)" by (simp only: n set_map)
  then show "META_JSON \<notin> fst ` set d'" using ne by (auto split: if_split_asm)
  show "distinct (map fst d')"
    unfolding n using assms(3) t by (intro distinct_renamed) simp_all
qed

lemma meta_present: "readRepairMetaState d = Meta_bytes raw \<Longrightarrow> META_JSON \<in> fst ` set d"
  by (auto simp: readRepairMetaState_def split: option.splits entry.splits dest!: map_of_SomeD) force

lemma meta_absent: "readRepairMetaState d = Meta_absent m \<Longrightarrow> META_JSON \<notin> fst ` set d"
  by (simp add: readRepairMetaState_def map_of_eq_None_iff split: option.splits entry.splits)

lemma adopt_not_unsafe: "classifyRepair parse valid pr (Meta_unsafe k) afs \<noteq> Adopt n"
  by (simp add: classifyRepair_def)

text \<open>A repair only renames: the entries of the archive, contents and times included, are the same
  before and after it, so that neither the invalid meta nor any artifact nor the run log is lost or
  overwritten.\<close>

theorem repair_keeps_evidence:
  assumes "repairArchive parse valid pr draws d = Some (r, d')" and "distinct (map fst d)"
  shows "map snd d' = map snd d"
proof -
  let ?meta = "readRepairMetaState d"
  let ?dec = "classifyRepair parse valid pr ?meta (scanArtifacts d)"
  have a: "apply_decision draws ?dec d = Some (r, d')" using assms(1) by (simp add: repairArchive_def)
  consider "d' = d" | "?dec = Isolate" | n where "?dec = Adopt n" "d' \<noteq> d"
    using apply_changes [OF a] by blast
  then show ?thesis
  proof cases
    case 2
    show ?thesis
    proof (rule classify_isolate [OF 2])
      fix raw m assume m: "?meta = Meta_bytes raw"
      obtain t where "isolateMetaEvidence draws d = Some (t, d')"
        using a unfolding 2 by (auto simp: apply_decision_def m)
      then show ?thesis using isolate_entries(2) meta_present [OF m] assms(2) by blast
    qed
  next
    case 3
    show ?thesis
    proof (cases ?meta)
      case (Meta_bytes raw)
      obtain t d1 where i: "isolateMetaEvidence draws d = Some (t, d1)" "d' = rename_entry n META_JSON d1"
        using a 3(2) unfolding 3(1) by (auto simp: apply_decision_def Meta_bytes split: if_split_asm)
      note e = isolate_entries [OF i(1) meta_present [OF Meta_bytes] assms(2)]
      show ?thesis using e(2,3) by (simp add: i(2) rename_entries)
    next
      case (Meta_absent x)
      have "d' = rename_entry n META_JSON d"
        using a 3(2) unfolding 3(1) by (auto simp: apply_decision_def Meta_absent split: if_split_asm)
      then show ?thesis using meta_absent [OF Meta_absent] by (simp add: rename_entries)
    next
      case (Meta_unsafe k)
      then show ?thesis using 3(1) adopt_not_unsafe by metis
    qed
  qed simp
qed

section \<open>An adopted write is valid\<close>

lemma validateMeta_object: "validateMeta date windows i v \<Longrightarrow> \<exists>ob. v = JObj ob"
  by (cases v) (simp_all add: validateMeta_def validate_identity_def jget_def)

lemma scanned:
  assumes "a \<in> set (scanArtifacts d)"
  shows "map_of d (af_name a) = Some (Regular (af_raw a) (af_mtime a))" and "meta_tmp_name (af_name a)"
  using assms by (auto simp: scanArtifacts_def map_filter_def split: option.splits entry.splits)

lemma meta_json_no_tmp: "\<not> meta_tmp_name META_JSON"
  by (simp add: meta_tmp_name_def META_JSON_def)

lemma apply_adopted:
  assumes "apply_decision draws dec d = Some (Adopted n t, d')" and "distinct (map fst d)"
    and "map_of d n = Some e" and "n \<noteq> META_JSON"
  shows "dec = Adopt n" and "map_of d' META_JSON = Some e \<or> (\<exists>k. readRepairMetaState d = Meta_unsafe k)"
proof -
  show dec: "dec = Adopt n"
    using assms(1) by (auto simp: apply_decision_def split: repair_decision.splits meta_state.splits if_split_asm)
  show "map_of d' META_JSON = Some e \<or> (\<exists>k. readRepairMetaState d = Meta_unsafe k)"
  proof (cases "readRepairMetaState d")
    case (Meta_bytes raw)
    obtain t d1 where i: "isolateMetaEvidence draws d = Some (t, d1)" "d' = rename_entry n META_JSON d1"
      using assms(1) unfolding dec by (auto simp: apply_decision_def Meta_bytes split: if_split_asm)
    note e = isolate_entries [OF i(1) meta_present [OF Meta_bytes] assms(2)]
    have "n \<in> fst ` set d" using assms(3) by (force dest: map_of_SomeD)
    then have "n \<noteq> t" using e(4) by auto
    then have "map_of d1 n = Some e" using assms(3,4) e(4) by (simp add: e(1) rename_lookup [OF assms(2)])
    then show ?thesis using e(3,5) by (simp add: i(2) rename_lookup)
  next
    case (Meta_absent x)
    have "d' = rename_entry n META_JSON d"
      using assms(1) unfolding dec by (auto simp: apply_decision_def Meta_absent split: if_split_asm)
    then show ?thesis using meta_absent [OF Meta_absent] assms(2,3) by (simp add: rename_lookup)
  qed simp
qed

lemma applied_adopted_dec: "apply_decision draws dec d = Some (Adopted n t, d') \<Longrightarrow> dec = Adopt n"
  by (auto simp: apply_decision_def split: repair_decision.splits meta_state.splits if_split_asm)

text \<open>When a repair adopted a pending write, the archive reads as valid afterwards: repairing it again,
  under any liveness of processes, finds a valid meta and changes nothing.\<close>

theorem adopted_archive_valid:
  assumes "repairArchive parse (validateMeta date windows i) pr draws d = Some (Adopted n t, d')"
    and "distinct (map fst d)"
  shows "repairArchive parse (validateMeta date windows i) pr' draws' d' = Some (Was_valid, d')"
proof -
  let ?dec = "classifyRepair parse (validateMeta date windows i) pr (readRepairMetaState d) (scanArtifacts d)"
  have a: "apply_decision draws ?dec d = Some (Adopted n t, d')" using assms(1) by (simp add: repairArchive_def)
  have dec: "?dec = Adopt n" by (rule applied_adopted_dec [OF a])
  obtain x m where x: "x \<in> set (scanArtifacts d)" "af_name x = n" "parse (af_raw x) = Some m" "validateMeta date windows i m"
    using pickAdoptable_adopts [OF classify_adopt [OF dec]] by metis
  have n: "map_of d n = Some (Regular (af_raw x) (af_mtime x))" "n \<noteq> META_JSON"
    using scanned [OF x(1)] x(2) meta_json_no_tmp by auto
  have "map_of d' META_JSON = Some (Regular (af_raw x) (af_mtime x))"
    using apply_adopted(2) [OF a assms(2) n] dec adopt_not_unsafe by metis
  then have "readRepairMetaState d' = Meta_bytes (af_raw x)" by (simp add: readRepairMetaState_def)
  moreover have "loose_identity parse (af_raw x) = Some m"
    using validateMeta_object [OF x(4)] x(3) by (auto simp: loose_identity_def)
  ultimately show ?thesis using x(4) by (simp add: repairArchive_def classifyRepair_def apply_decision_def)
qed

section \<open>Every identifiable writer is dead\<close>

lemma identityConflict_None:
  "identityConflict original candidate = None \<longleftrightarrow>
    (\<forall>f\<in>{''pid'', ''pgid'', ''supervisor_pid''}. \<forall>v. safe_int (jget original f) = Some v \<longrightarrow> jget candidate f = Some (JNum (of_int v)))"
  by (auto simp: identityConflict_def find_None_iff conflicting_field_def split: option.splits)

lemma classify_adopt_invalid:
  assumes "classifyRepair parse valid pr (Meta_bytes raw) afs = Adopt n" and "loose_identity parse raw = Some m"
  shows "\<not> valid m"
  using assms by (auto simp: classifyRepair_def Let_def)

text \<open>C38. A repair changes the archive in two ways only.  It isolates a meta that is readable but invalid
  when there is no valid pending write at all and the writers the meta names are provably dead: the
  supervisor, or a terminal status where none is named, then the root process and the process group.  It
  adopts a pending write when that write, the newest valid one, names only writers that are provably dead;
  if there is a meta it is invalid, and where it is readable its own writers are provably dead too, and no
  process identifier in it differs from the one in the adopted write.  What is then read as the meta is the
  adopted write, bytes and time.  A live or unknown process leaves every file as it is.\<close>

theorem repair_only_when_dead:
  assumes "repairArchive parse valid pr draws d = Some (r, d')" and "d' \<noteq> d" and "distinct (map fst d)"
  shows "case r of
      Isolated t \<Rightarrow> (\<exists>raw m. readRepairMetaState d = Meta_bytes raw \<and> loose_identity parse raw = Some m \<and>
        \<not> valid m \<and> provably_dead pr m \<and> (\<forall>a\<in>set (scanArtifacts d). \<forall>v. parse (af_raw a) = Some v \<longrightarrow> \<not> valid v))
    | Adopted n t \<Rightarrow> (\<exists>a c. a \<in> set (scanArtifacts d) \<and> af_name a = n \<and> parse (af_raw a) = Some c \<and> valid c \<and> provably_dead pr c \<and>
        (\<forall>b\<in>set (scanArtifacts d). (\<exists>v. parse (af_raw b) = Some v \<and> valid v) \<longrightarrow> af_mtime b \<le> af_mtime a) \<and>
        map_of d' META_JSON = Some (Regular (af_raw a) (af_mtime a)) \<and>
        (\<forall>raw m. readRepairMetaState d = Meta_bytes raw \<and> loose_identity parse raw = Some m \<longrightarrow>
          \<not> valid m \<and> provably_dead pr m \<and>
          (\<forall>f\<in>{''pid'', ''pgid'', ''supervisor_pid''}. \<forall>v. safe_int (jget m f) = Some v \<longrightarrow> jget c f = Some (JNum (of_int v)))))
    | _ \<Rightarrow> False"
proof -
  let ?meta = "readRepairMetaState d" and ?afs = "scanArtifacts d"
  let ?dec = "classifyRepair parse valid pr ?meta ?afs"
  have a: "apply_decision draws ?dec d = Some (r, d')" using assms(1) by (simp add: repairArchive_def)
  consider "?dec = Isolate" | n where "?dec = Adopt n" using apply_changes [OF a assms(2)] by blast
  then show ?thesis
  proof cases
    case 1
    obtain raw m where m: "?meta = Meta_bytes raw" "loose_identity parse raw = Some m" "\<not> valid m" "provably_dead pr m"
      "pickAdoptable parse valid pr (Some m) ?afs = None"
      by (rule classify_isolate [OF 1])
    obtain t where "r = Isolated t" using a unfolding 1 by (auto simp: apply_decision_def m(1))
    then show ?thesis using m pickAdoptable_none [OF m(5)] by auto
  next
    case (2 n)
    obtain x c where x: "x \<in> set ?afs" "af_name x = n" "parse (af_raw x) = Some c" "valid c" "provably_dead pr c"
      "case (case ?meta of Meta_bytes raw \<Rightarrow> loose_identity parse raw | _ \<Rightarrow> None) of
         None \<Rightarrow> True | Some m0 \<Rightarrow> provably_dead pr m0 \<and> identityConflict m0 c = None"
      "\<forall>b\<in>set ?afs. (\<exists>v. parse (af_raw b) = Some v \<and> valid v) \<longrightarrow> af_mtime b \<le> af_mtime x"
      by (rule pickAdoptable_adopts [OF classify_adopt [OF 2]])
    obtain t where r: "r = Adopted n t"
      using a assms(2) unfolding 2 by (auto simp: apply_decision_def split: if_split_asm meta_state.splits)
    have n: "map_of d n = Some (Regular (af_raw x) (af_mtime x))" "n \<noteq> META_JSON"
      using scanned [OF x(1)] x(2) meta_json_no_tmp by auto
    have "map_of d' META_JSON = Some (Regular (af_raw x) (af_mtime x))"
      using apply_adopted(2) [OF a [unfolded r] assms(3) n] 2 adopt_not_unsafe by metis
    moreover have "\<not> valid m \<and> provably_dead pr m \<and> identityConflict m c = None"
      if "?meta = Meta_bytes raw" "loose_identity parse raw = Some m" for raw m
      using classify_adopt_invalid [OF 2 [unfolded that(1)] that(2)] x(6) that by simp
    ultimately show ?thesis using x(1-5,7) unfolding r identityConflict_None [symmetric] by auto
  qed
qed

section \<open>The search for a fresh evidence name ends\<close>

lemma fresh_name_None: "fresh_name existing t draws = None \<Longrightarrow> insert t ((\<lambda>h. QUARANTINE_BASE @ ''.'' @ h) ` set draws) \<subseteq> existing"
  by (induction existing t draws rule: fresh_name.induct)
    (subst (asm) (2) fresh_name.simps, auto split: if_split_asm list.splits)

lemma evidence_names: "inj (\<lambda>h. QUARANTINE_BASE @ ''.'' @ h)" "QUARANTINE_BASE \<noteq> QUARANTINE_BASE @ ''.'' @ h"
  by (auto intro: injI)

text \<open>Isolating an unreadable meta always ends with a fresh evidence name: with as many distinct
  random suffixes as the directory has entries one of the tried names is free.\<close>

theorem isolation_finds_a_name:
  assumes "distinct draws" and "length d \<le> length draws"
  shows "\<exists>t d'. isolateMetaEvidence draws d = Some (t, d') \<and> t \<notin> fst ` set d"
proof -
  let ?names = "insert QUARANTINE_BASE ((\<lambda>h. QUARANTINE_BASE @ ''.'' @ h) ` set draws)"
  have "card ((\<lambda>h. QUARANTINE_BASE @ ''.'' @ h) ` set draws) = length draws"
    using card_image [OF inj_on_subset [OF evidence_names(1) subset_UNIV], of "set draws"] distinct_card [OF assms(1)]
    by simp
  moreover have "QUARANTINE_BASE \<notin> (\<lambda>h. QUARANTINE_BASE @ ''.'' @ h) ` set draws"
    using evidence_names(2) by auto
  ultimately have "card ?names = Suc (length draws)" by simp
  then have "card (fst ` set d) < card ?names"
    using assms(2) card_image_le [of "set d" fst] card_length [of d] by simp
  then have "\<not> ?names \<subseteq> fst ` set d" by (meson card_mono finite_imageI List.finite_set leD)
  then obtain t where "fresh_name (set (map fst d)) QUARANTINE_BASE draws = Some t"
    using fresh_name_None [of "set (map fst d)" QUARANTINE_BASE draws] by force
  then show ?thesis using fresh_name_fresh by (force simp: isolateMetaEvidence_def)
qed

section \<open>Concrete archives\<close>

definition torn_meta :: json where
  "torn_meta = JObj [(''pid'', JNum 10), (''pgid'', JNum 10), (''supervisor_pid'', JNum 11), (''status'', JStr ''running'')]"

definition torn_parse :: "string \<Rightarrow> json option" where
  "torn_parse s = (if s = ''torn'' then Some torn_meta else None)"

definition torn_archive :: archive_dir where
  "torn_archive = [(''log'', Regular ''out'' 5), (''meta.json'', Regular ''torn'' 6), (''meta.json.broken'', Regular ''old'' 1)]"

lemma torn_repaired:
  "repairArchive torn_parse (\<lambda>_. False) (\<lambda>_. Some False) [''0011aabb''] torn_archive =
    Some (Isolated ''meta.json.broken.0011aabb'',
      [(''log'', Regular ''out'' 5), (''meta.json.broken.0011aabb'', Regular ''torn'' 6), (''meta.json.broken'', Regular ''old'' 1)])"
proof -
  have meta: "readRepairMetaState torn_archive = Meta_bytes ''torn''"
    by (simp add: readRepairMetaState_def torn_archive_def META_JSON_def)
  have i: "is_integer (10::rat)" "is_integer (11::rat)" "\<lfloor>10::rat\<rfloor> = 10" "\<lfloor>11::rat\<rfloor> = 11" by (simp_all add: is_integer_def)
  have w: "writersBlocking torn_meta (\<lambda>_. Some False) = None"
    by (simp add: writersBlocking_def torn_meta_def jget_def pid_of_def safe_int_def i MAX_SAFE_INTEGER_def)
  have "classifyRepair torn_parse (\<lambda>_. False) (\<lambda>_. Some False) (Meta_bytes ''torn'') afs = Isolate" for afs
  proof -
    have l: "loose_identity torn_parse ''torn'' = Some torn_meta"
      by (simp add: loose_identity_def torn_parse_def) (simp add: torn_meta_def)
    have "filter (\<lambda>a. case torn_parse (af_raw a) of None \<Rightarrow> False | Some v \<Rightarrow> False) afs = []"
      by (simp add: filter_empty_conv split: option.splits)
    then have "candidates torn_parse (\<lambda>_. False) afs = []" by (simp add: candidates_def)
    then show ?thesis using w by (simp add: classifyRepair_def l pickAdoptable_def)
  qed
  then show ?thesis
    by (simp add: repairArchive_def meta apply_decision_def isolateMetaEvidence_def fresh_name.simps QUARANTINE_BASE_def)
      (simp add: torn_archive_def rename_entry_def META_JSON_def)
qed

theorem repair_keeps_evidence_witness:
  "map snd [(''log'', Regular ''out'' 5), (''meta.json.broken.0011aabb'', Regular ''torn'' 6), (''meta.json.broken'', Regular ''old'' 1)]
    = map snd torn_archive"
  by (rule repair_keeps_evidence [OF torn_repaired]) (simp add: torn_archive_def)

theorem isolation_finds_a_name_witness:
  "\<exists>t d'. isolateMetaEvidence [''00'', ''01'', ''02''] torn_archive = Some (t, d') \<and> t \<notin> fst ` set torn_archive"
  by (rule isolation_finds_a_name) (simp_all add: torn_archive_def)

definition pending_meta :: json where
  "pending_meta = JObj [(''run_id'', JStr ''r''), (''pid'', JNum 10), (''pgid'', JNum 10), (''supervisor_pid'', JNum 11),
     (''argv'', JArr [JStr ''agent'']), (''status'', JStr ''exited''), (''started_at'', JStr ''now''), (''cwd'', JStr ''/work'')]"

definition pending_parse :: "string \<Rightarrow> json option" where
  "pending_parse s = (if s = ''pending'' then Some pending_meta else None)"

definition pending_name :: string where
  "pending_name = ''meta.0123456789abcdef01234567.tmp''"

definition pending_archive :: archive_dir where
  "pending_archive = [(pending_name, Regular ''pending'' 6), (''log'', Regular ''out'' 5)]"

lemma small_ints:
  "is_integer (10::rat)" "is_integer (11::rat)" "\<lfloor>10::rat\<rfloor> = 10" "\<lfloor>11::rat\<rfloor> = 11"
  by (simp_all add: is_integer_def)

lemma pending_valid: "validateMeta (\<lambda>s. s = ''now'') (\<lambda>_. False) ''r'' pending_meta"
  by (simp add: validateMeta_def validate_identity_def validate_optional_def validateControlMeta_def pending_meta_def jget_def
      validPid_def safe_int_def small_ints MAX_SAFE_INTEGER_def argv_ok_def truthy_string_def one_of_def STATUSES_def
      date_string_def absolute_string_def absolute_path_def starts_with_def absent_or_def)

lemma pending_adopted:
  "repairArchive pending_parse (validateMeta (\<lambda>s. s = ''now'') (\<lambda>_. False) ''r'') (\<lambda>_. Some False) [] pending_archive =
    Some (Adopted pending_name None, [(''meta.json'', Regular ''pending'' 6), (''log'', Regular ''out'' 5)])"
proof -
  let ?valid = "validateMeta (\<lambda>s. s = ''now'') (\<lambda>_. False) ''r''"
  have meta: "readRepairMetaState pending_archive = Meta_absent None"
    by (simp add: readRepairMetaState_def pending_archive_def META_JSON_def pending_name_def quarantine_name_def
        QUARANTINE_BASE_def starts_with_def)
  have s: "sort [pending_name, ''log''] = [''log'', pending_name]"
    by (simp add: pending_name_def less_eq_char_def list_le_def list_less_def)
  have t: "meta_tmp_name pending_name" "\<not> meta_tmp_name ''log''"
    by (simp_all add: meta_tmp_name_def pending_name_def is_hex_def)
  have scan: "scanArtifacts pending_archive = [\<lparr>af_name = pending_name, af_raw = ''pending'', af_mtime = 6\<rparr>]"
    by (simp add: scanArtifacts_def pending_archive_def s t map_filter_def del: sort_key_simps)
  have w: "writersBlocking pending_meta (\<lambda>_. Some False) = None"
    by (simp add: writersBlocking_def pending_meta_def jget_def pid_of_def safe_int_def small_ints MAX_SAFE_INTEGER_def)
  have p: "pending_parse ''pending'' = Some pending_meta" by (simp add: pending_parse_def)
  have "classifyRepair pending_parse ?valid (\<lambda>_. Some False) (Meta_absent None) (scanArtifacts pending_archive) = Adopt pending_name"
    by (simp add: classifyRepair_def pickAdoptable_def candidates_def scan p pending_valid w)
  then show ?thesis
    by (simp add: repairArchive_def meta apply_decision_def scan)
      (simp add: pending_archive_def rename_entry_def META_JSON_def pending_name_def)
qed

theorem adopted_archive_valid_witness:
  "repairArchive pending_parse (validateMeta (\<lambda>s. s = ''now'') (\<lambda>_. False) ''r'') (\<lambda>_. None) []
    [(''meta.json'', Regular ''pending'' 6), (''log'', Regular ''out'' 5)] =
    Some (Was_valid, [(''meta.json'', Regular ''pending'' 6), (''log'', Regular ''out'' 5)])"
  by (rule adopted_archive_valid [OF pending_adopted]) (simp add: pending_archive_def pending_name_def)

text \<open>An archive whose current meta is readable but invalid, with the pending write that replaces it.\<close>

definition crossed_archive :: archive_dir where
  "crossed_archive = [(''log'', Regular ''out'' 5), (''meta.json'', Regular ''torn'' 6), (pending_name, Regular ''pending'' 7)]"

definition crossed_parse :: "string \<Rightarrow> json option" where
  "crossed_parse s = (if s = ''torn'' then Some torn_meta else pending_parse s)"

lemma crossed_adopted:
  "repairArchive crossed_parse (validateMeta (\<lambda>s. s = ''now'') (\<lambda>_. False) ''r'') (\<lambda>_. Some False) [] crossed_archive =
    Some (Adopted pending_name (Some QUARANTINE_BASE),
      [(''log'', Regular ''out'' 5), (QUARANTINE_BASE, Regular ''torn'' 6), (''meta.json'', Regular ''pending'' 7)])"
proof -
  let ?valid = "validateMeta (\<lambda>s. s = ''now'') (\<lambda>_. False) ''r''"
  have meta: "readRepairMetaState crossed_archive = Meta_bytes ''torn''"
    by (simp add: readRepairMetaState_def crossed_archive_def META_JSON_def)
  have s: "sort [''log'', ''meta.json'', pending_name] = [''log'', pending_name, ''meta.json'']"
    by (simp add: pending_name_def less_eq_char_def list_le_def list_less_def)
  have t: "meta_tmp_name pending_name" "\<not> meta_tmp_name ''log''" "\<not> meta_tmp_name ''meta.json''"
    by (simp_all add: meta_tmp_name_def pending_name_def is_hex_def)
  have scan: "scanArtifacts crossed_archive = [\<lparr>af_name = pending_name, af_raw = ''pending'', af_mtime = 7\<rparr>]"
    by (simp add: scanArtifacts_def crossed_archive_def s t map_filter_def del: sort_key_simps) (simp add: pending_name_def)
  have w: "writersBlocking pending_meta (\<lambda>_. Some False) = None" "writersBlocking torn_meta (\<lambda>_. Some False) = None"
    by (simp_all add: writersBlocking_def pending_meta_def torn_meta_def jget_def pid_of_def safe_int_def small_ints MAX_SAFE_INTEGER_def)
  have p: "crossed_parse ''pending'' = Some pending_meta" by (simp add: crossed_parse_def pending_parse_def)
  have l: "loose_identity crossed_parse ''torn'' = Some torn_meta"
    by (simp add: loose_identity_def crossed_parse_def) (simp add: torn_meta_def)
  have v: "\<not> ?valid torn_meta" by (simp add: validateMeta_def validate_identity_def torn_meta_def jget_def)
  have c: "identityConflict torn_meta pending_meta = None"
    by (simp add: identityConflict_def conflicting_field_def torn_meta_def pending_meta_def jget_def safe_int_def small_ints MAX_SAFE_INTEGER_def)
  have "classifyRepair crossed_parse ?valid (\<lambda>_. Some False) (Meta_bytes ''torn'') (scanArtifacts crossed_archive) = Adopt pending_name"
    by (simp add: classifyRepair_def l v pickAdoptable_def candidates_def scan p pending_valid w c)
  then show ?thesis
    by (simp add: repairArchive_def meta apply_decision_def scan isolateMetaEvidence_def fresh_name.simps)
      (simp add: crossed_archive_def rename_entry_def META_JSON_def pending_name_def QUARANTINE_BASE_def)
qed

theorem repair_only_when_dead_witness:
  "provably_dead (\<lambda>_. Some False) torn_meta \<and> provably_dead (\<lambda>_. Some False) pending_meta"
proof -
  have meta: "readRepairMetaState crossed_archive = Meta_bytes ''torn''"
    by (simp add: readRepairMetaState_def crossed_archive_def META_JSON_def)
  have l: "loose_identity crossed_parse ''torn'' = Some torn_meta"
    by (simp add: loose_identity_def crossed_parse_def) (simp add: torn_meta_def)
  have changed: "[(''log'', Regular ''out'' 5), (QUARANTINE_BASE, Regular ''torn'' 6), (''meta.json'', Regular ''pending'' 7)] \<noteq> crossed_archive"
    "distinct (map fst crossed_archive)"
    by (simp_all add: crossed_archive_def QUARANTINE_BASE_def pending_name_def)
  obtain a c where a: "a \<in> set (scanArtifacts crossed_archive)" "af_name a = pending_name" "crossed_parse (af_raw a) = Some c"
    "provably_dead (\<lambda>_. Some False) c" "provably_dead (\<lambda>_. Some False) torn_meta"
    using repair_only_when_dead [OF crossed_adopted changed] meta l by auto
  have "af_raw a = ''pending''"
    using scanned(1) [OF a(1)] a(2) by (simp add: crossed_archive_def pending_name_def)
  with a(3-5) show ?thesis by (simp add: crossed_parse_def pending_parse_def)
qed

end
