(* ===== verification/Native_Argv.thy ===== *)
theory Native_Argv
  imports Run_Meta
begin

text \<open>
  The command lines of the native agents: \<open>codexArgv\<close> of \<open>src/standalone/launcher-headless/codex-argv.ts\<close>,
  \<open>nativeArgv\<close> of \<open>src/standalone/launcher-headless/plan.ts\<close>, the two conservative parsers of
  \<open>src/core/run/resume.ts\<close> that take such a line apart again, and \<open>metaCarriesSession\<close> of
  \<open>src/core/run/admission.ts\<close>, which looks for a session in it.

  Errors are values of \<open>argv_error\<close>; a random session identifier is an argument.  A command line is given
  to the parsers as its executable and its remaining words, because a validated meta never has an empty one.
\<close>

datatype argv_error =
    Unsupported_argument string
  | Missing_value string
  | Duplicate_json
  | Session_selector
  | Unsupported_positional string
  | Mode_not_json
  | Unsupported_agent string
  | Too_many_positionals nat
  | Duplicate_session
  | No_exact_uuid
  | Pi_selector string
  | Pi_identity_unavailable
  | Words_before_prompt

section \<open>Codex\<close>

definition globalValues :: "string list" where
  "globalValues = [''-m'', ''--model'', ''-c'', ''--config'', ''-s'', ''--sandbox'', ''-a'', ''--ask-for-approval'',
     ''-p'', ''--profile'', ''--enable'', ''--disable'', ''--add-dir'', ''--local-provider'']"

definition globalFlags :: "string list" where
  "globalFlags = [''--strict-config'', ''--oss'', ''--search'', ''--no-daemon'', ''--approve-for-me'',
     ''--dangerously-bypass-approvals-and-sandbox'', ''--dangerously-bypass-hook-trust'']"

definition execValues :: "string list" where
  "execValues = [''--thread-source'', ''--cyber-access-program'', ''--output-schema'', ''-o'', ''--output-last-message'']"

definition execFlags :: "string list" where
  "execFlags = [''--skip-git-repo-check'', ''--ephemeral'', ''--ignore-user-config'', ''--ignore-rules'', ''--json'']"

definition parentValues :: "string list" where
  "parentValues = [''--color'']"

definition valueOptions :: "string list" where
  "valueOptions = globalValues @ execValues @ parentValues"

text \<open>\<open>token.split('=', 1)[0]\<close> and \<open>token.includes('=')\<close>\<close>

definition option_word :: "string \<Rightarrow> string" where
  "option_word token = takeWhile (\<lambda>c. c \<noteq> CHR ''='') token"

definition attached :: "string \<Rightarrow> bool" where
  "attached token \<longleftrightarrow> CHR ''='' \<in> set token"

text \<open>\<open>/^-[mcsoap].+/\<close>; the dot matches no line terminator.\<close>

definition short_attached :: "string \<Rightarrow> bool" where
  "short_attached token =
     (case token of d # c # x # _ \<Rightarrow> d = CHR ''-'' \<and> c \<in> set ''mcsoap'' \<and> x \<noteq> CHR 0x0A \<and> x \<noteq> CHR 0x0D | _ \<Rightarrow> False)"

definition codex_option :: "string \<Rightarrow> string \<times> bool" where
  "codex_option token =
     (if option_word token \<notin> set valueOptions \<and> short_attached token \<and> \<not> starts_with ''--'' token
      then (take 2 token, True) else (option_word token, attached token))"

datatype codex_scope = Global | Parent | Resume_scope

definition scope_of :: "string \<Rightarrow> codex_scope option" where
  "scope_of opt =
     (if opt \<in> set globalValues \<or> opt \<in> set globalFlags then Some Global
      else if opt \<in> set parentValues then Some Parent
      else if opt \<in> set execValues \<or> opt \<in> set execFlags then Some Resume_scope else None)"

record codex_words =
  cw_global :: "string list"
  cw_exec :: "string list"
  cw_parent :: "string list"
  cw_resume :: "string list"
  cw_explicit :: bool
  cw_json :: bool

definition no_words :: codex_words where
  "no_words = \<lparr>cw_global = [], cw_exec = [], cw_parent = [], cw_resume = [], cw_explicit = False, cw_json = False\<rparr>"

definition push_words :: "codex_scope \<Rightarrow> string list \<Rightarrow> codex_words \<Rightarrow> codex_words" where
  "push_words sc toks a =
     (case sc of
        Global \<Rightarrow> a\<lparr>cw_global := cw_global a @ toks\<rparr>
      | Parent \<Rightarrow> a\<lparr>cw_parent := cw_parent a @ toks, cw_exec := cw_exec a @ toks\<rparr>
      | Resume_scope \<Rightarrow> a\<lparr>cw_resume := cw_resume a @ toks, cw_exec := cw_exec a @ toks\<rparr>)"

text \<open>The words of one option and the rest of the line.\<close>

definition option_words :: "string \<Rightarrow> string \<Rightarrow> bool \<Rightarrow> string list \<Rightarrow> argv_error + string list \<times> string list" where
  "option_words opt token att rest =
     (if opt \<notin> set valueOptions then Inr ([token], rest)
      else if att then (if ends_with ''='' token then Inl (Missing_value opt) else Inr ([token], rest))
      else (case rest of
              [] \<Rightarrow> Inl (Missing_value opt)
            | v # rest' \<Rightarrow> if starts_with ''-'' v then Inl (Missing_value opt) else Inr ([token, v], rest')))"

lemma option_words_rest: "option_words opt token att rest = Inr (toks, rest') \<Longrightarrow> length rest' \<le> length rest"
  by (auto simp: option_words_def split: if_split_asm list.splits)

function (sequential) codex_scan :: "string list \<Rightarrow> codex_words \<Rightarrow> argv_error + codex_words" where
  "codex_scan [] a = Inr a"
| "codex_scan (token # rest) a =
     (if token = ''exec'' \<and> \<not> cw_explicit a then codex_scan rest (a\<lparr>cw_explicit := True\<rparr>)
      else (case codex_option token of (opt, att) \<Rightarrow>
        (case scope_of opt of
           None \<Rightarrow> Inl (Unsupported_argument token)
         | Some sc \<Rightarrow>
             if att \<and> opt \<notin> set valueOptions then Inl (Unsupported_argument token)
             else (case option_words opt token att rest of
                     Inl e \<Rightarrow> Inl e
                   | Inr (toks, rest') \<Rightarrow>
                       if opt = ''--json'' \<and> cw_json a then Inl Duplicate_json
                       else codex_scan rest' (push_words sc toks (a\<lparr>cw_json := (cw_json a \<or> opt = ''--json'')\<rparr>))))))"
  by pat_completeness auto
termination
  by (relation "measure (\<lambda>(toks, _). length toks)") (auto dest: option_words_rest)

definition truthy :: "string option \<Rightarrow> string option" where
  "truthy s = (if s = Some [] then None else s)"

definition codex_line :: "string \<Rightarrow> codex_words \<Rightarrow> string \<Rightarrow> string option \<Rightarrow> string list" where
  "codex_line agent a prompt session =
     [agent] @ cw_global a @ [''exec''] @
     (case truthy session of Some _ \<Rightarrow> cw_parent a @ [''resume''] @ cw_resume a | None \<Rightarrow> cw_exec a) @
     (if cw_json a then [] else [''--json'']) @ (case truthy session of Some s \<Rightarrow> [s] | None \<Rightarrow> []) @ [prompt]"

definition codexArgv :: "string \<Rightarrow> string list \<Rightarrow> string \<Rightarrow> string option \<Rightarrow> argv_error + string list" where
  "codexArgv agent args prompt session =
     (case codex_scan args no_words of Inl e \<Rightarrow> Inl e | Inr a \<Rightarrow> Inr (codex_line agent a prompt session))"

section \<open>Pi\<close>

definition basename :: "string \<Rightarrow> string" where
  "basename s = rev (takeWhile (\<lambda>c. c \<noteq> CHR ''/'') (dropWhile (\<lambda>c. c = CHR ''/'') (rev s)))"

text \<open>\<open>/^(--(?:continue|resume|session|session-id|fork|no-session|session-dir)|-[cr])(?:=|$)/u\<close>\<close>

definition selectors :: "string list" where
  "selectors = [''--continue'', ''--resume'', ''--session'', ''--session-id'', ''--fork'', ''--no-session'', ''--session-dir'',
     ''-c'', ''-r'']"

definition session_selector :: "string \<Rightarrow> bool" where
  "session_selector token \<longleftrightarrow> option_word token \<in> set selectors"

definition pi_values :: "string list" where
  "pi_values = [''--provider'', ''--model'', ''--api-key'', ''--system-prompt'', ''--append-system-prompt'', ''--name'', ''-n'',
     ''--models'', ''--tools'', ''-t'', ''--exclude-tools'', ''-xt'', ''--thinking'', ''--extension'', ''-e'', ''--skill'',
     ''--prompt-template'', ''--theme'', ''--use-theme'', ''--tui-mode'']"

text \<open>The flags seen: whether the line prints, and whether it asks for JSON.\<close>

fun pi_scan :: "string list \<Rightarrow> bool \<times> bool \<Rightarrow> argv_error + bool \<times> bool" where
  "pi_scan [] f = Inr f"
| "pi_scan (a # rest) (print, json) =
     (if \<not> starts_with ''-'' a \<or> a = ''--'' then Inl (Unsupported_positional a)
      else if a \<in> set pi_values then (case rest of [] \<Rightarrow> Inl (Missing_value a) | _ # rest' \<Rightarrow> pi_scan rest' (print, json))
      else if a = ''--mode''
        then (case rest of
                m # rest' \<Rightarrow> if m = ''json'' then pi_scan rest' (print, True) else Inl Mode_not_json
              | [] \<Rightarrow> Inl Mode_not_json)
      else if starts_with ''--mode='' a
        then (if a = ''--mode=json'' then pi_scan rest (print, True) else Inl Mode_not_json)
      else pi_scan rest (print \<or> a = ''--print'' \<or> a = ''-p'', json))"

definition pi_line :: "agent_command \<Rightarrow> bool \<times> bool \<Rightarrow> string \<Rightarrow> string \<Rightarrow> string list" where
  "pi_line route f sid prompt =
     [ac_agent route] @ ac_args route @ (if fst f then [] else [''--print'']) @ (if snd f then [] else [''--mode'', ''json'']) @
     [''--session-id'', sid, ''--'', prompt]"

text \<open>\<open>session ?? randomUUID()\<close> takes an empty session as it is.\<close>

definition nativeArgv :: "agent_command \<Rightarrow> string \<Rightarrow> string option \<Rightarrow> string \<Rightarrow> argv_error + string list" where
  "nativeArgv route prompt session uuid =
     (let agent = basename (ac_agent route); args = ac_args route in
      if agent = ''codex'' then codexArgv (ac_agent route) args prompt session
      else if agent = ''pi'' then
        (if list_ex session_selector args then Inl Session_selector
         else (case pi_scan args (False, False) of
                 Inl e \<Rightarrow> Inl e
               | Inr f \<Rightarrow> Inr (pi_line route f (case session of Some s \<Rightarrow> s | None \<Rightarrow> uuid) prompt)))
      else Inl (Unsupported_agent (ac_agent route)))"

section \<open>Taking a command line apart\<close>

definition plain_codex_values :: "string list" where
  "plain_codex_values = [''-m'', ''--model'', ''-c'', ''--config'', ''-s'', ''--sandbox'', ''-a'', ''--ask-for-approval'',
     ''-p'', ''--profile'', ''--enable'', ''--disable'', ''--add-dir'', ''--local-provider'', ''--thread-source'',
     ''--cyber-access-program'', ''--output-schema'', ''-o'', ''--output-last-message'', ''--color'']"

definition plain_codex_flags :: "string list" where
  "plain_codex_flags = [''--strict-config'', ''--oss'', ''--search'', ''--no-daemon'', ''--approve-for-me'',
     ''--skip-git-repo-check'', ''--ephemeral'', ''--ignore-user-config'', ''--ignore-rules'', ''--json'',
     ''--dangerously-bypass-hook-trust'']"

text \<open>The option words and the positional words; the flag says that \<open>exec\<close> was seen.\<close>

fun plain_codex_scan :: "string list \<Rightarrow> bool \<Rightarrow> argv_error + string list \<times> string list" where
  "plain_codex_scan [] x = Inr ([], [])"
| "plain_codex_scan (token # rest) x =
     (if token = ''exec'' \<and> \<not> x then plain_codex_scan rest True
      else if token = ''resume'' then plain_codex_scan rest x
      else if option_word token \<in> set plain_codex_values \<and> \<not> attached token
        then (case rest of
                [] \<Rightarrow> Inl (Missing_value (option_word token))
              | v # rest' \<Rightarrow> map_sum id (\<lambda>(os, ps). (token # v # os, ps)) (plain_codex_scan rest' x))
      else if option_word token \<in> set plain_codex_values \<or> option_word token \<in> set plain_codex_flags
        then map_sum id (\<lambda>(os, ps). (token # os, ps)) (plain_codex_scan rest x)
      else if starts_with ''-'' token then Inl (Unsupported_argument token)
      else map_sum id (\<lambda>(os, ps). (os, token # ps)) (plain_codex_scan rest x))"

definition parsePlainCodexArgv :: "string \<Rightarrow> string list \<Rightarrow> argv_error + string \<times> string list" where
  "parsePlainCodexArgv agent line =
     (case plain_codex_scan line False of
        Inl e \<Rightarrow> Inl e
      | Inr (os, ps) \<Rightarrow>
          if (if ''resume'' \<in> set (agent # line) then 2 else 1) < length ps then Inl (Too_many_positionals (length ps))
          else Inr (agent, os))"

text \<open>\<open>/^[0-9a-f]{8}-[0-9a-f]{4}-[0-9a-f]{4}-[0-9a-f]{4}-[0-9a-f]{12}$/i\<close>\<close>

definition any_hex :: "char \<Rightarrow> bool" where
  "any_hex c \<longleftrightarrow> c \<in> set ''0123456789abcdefABCDEF''"

definition exact_uuid :: "string \<Rightarrow> bool" where
  "exact_uuid s \<longleftrightarrow> length s = 36 \<and>
     list_all any_hex (take 8 s) \<and> s ! 8 = CHR ''-'' \<and> list_all any_hex (take 4 (drop 9 s)) \<and> s ! 13 = CHR ''-'' \<and>
     list_all any_hex (take 4 (drop 14 s)) \<and> s ! 18 = CHR ''-'' \<and> list_all any_hex (take 4 (drop 19 s)) \<and> s ! 23 = CHR ''-'' \<and>
     list_all any_hex (drop 24 s)"

definition plain_pi_values :: "string list" where
  "plain_pi_values = pi_values @ [''--mode'']"

definition plain_pi_flags :: "string list" where
  "plain_pi_flags = [''--print'', ''-p'']"

text \<open>
  The scan up to the separator.  The words are counted from \<open>i\<close>; the result is the index of the only
  \<open>--session-id\<close>.
\<close>

fun plain_pi_scan :: "string list \<Rightarrow> nat \<Rightarrow> nat option \<Rightarrow> argv_error + nat option" where
  "plain_pi_scan [] i si = Inr si"
| "plain_pi_scan (token # rest) i si =
     (if token = ''--'' then Inr si
      else if token = ''--session-id''
        then (if si \<noteq> None then Inl Duplicate_session
              else (case rest of
                      v # rest' \<Rightarrow> if exact_uuid v then plain_pi_scan rest' (i + 2) (Some i) else Inl No_exact_uuid
                    | [] \<Rightarrow> Inl No_exact_uuid))
      else if session_selector token then Inl (Pi_selector token)
      else if token \<in> set plain_pi_values
        then (case rest of [] \<Rightarrow> Inl (Missing_value token) | _ # rest' \<Rightarrow> plain_pi_scan rest' (i + 2) si)
      else if token \<in> set plain_pi_flags then plain_pi_scan rest (i + 1) si
      else if starts_with ''-'' token then Inl (Unsupported_argument token)
      else Inl (Unsupported_positional token))"

record plain_pi =
  pp_agent :: string
  pp_head :: "string list"
  pp_session :: string

definition parsePlainPiArgv :: "string \<Rightarrow> string list \<Rightarrow> argv_error + plain_pi" where
  "parsePlainPiArgv agent line =
     (case plain_pi_scan line 1 None of
        Inl e \<Rightarrow> Inl e
      | Inr None \<Rightarrow> Inl Pi_identity_unavailable
      | Inr (Some i) \<Rightarrow>
          (case drop (i + 2) (agent # line) of
             s # _ \<Rightarrow> if s = ''--'' then Inr \<lparr>pp_agent = agent, pp_head = take i (agent # line), pp_session = (agent # line) ! (i + 1)\<rparr>
                      else Inl Words_before_prompt
           | [] \<Rightarrow> Inl Words_before_prompt))"

text \<open>The line of a resumed plain pi run.\<close>

definition resumed_pi_line :: "plain_pi \<Rightarrow> string \<Rightarrow> string list" where
  "resumed_pi_line p prompt = pp_head p @ [''--session-id'', pp_session p, ''--'', prompt]"

section \<open>Finding a session\<close>

text \<open>\<open>argv.indexOf('resume')\<close>; \<open>None\<close> is -1.\<close>

fun index_of :: "'a \<Rightarrow> 'a list \<Rightarrow> nat option" where
  "index_of x [] = None"
| "index_of x (y # ys) = (if y = x then Some 0 else map_option Suc (index_of x ys))"

definition argv_selects :: "string list \<Rightarrow> string \<Rightarrow> nat \<Rightarrow> bool" where
  "argv_selects argv sid i \<longleftrightarrow>
     argv ! i = sid \<and>
     (argv ! (i - 1) = ''--session-id'' \<or>
      (case index_of ''resume'' argv of None \<Rightarrow> False | Some r \<Rightarrow> r < i \<and> i < length argv - 1))"

definition argv_carries :: "string list \<Rightarrow> string \<Rightarrow> bool" where
  "argv_carries argv sid \<longleftrightarrow> list_ex (argv_selects argv sid) [1..<length argv]"

definition metaCarriesSession :: "run_meta \<Rightarrow> string \<Rightarrow> string \<Rightarrow> bool" where
  "metaCarriesSession m agent sid \<longleftrightarrow>
     rm_session m = Some sid \<or>
     (case rm_headless m of None \<Rightarrow> False | Some h \<Rightarrow> jget h ''designated_session_id'' = Some (JStr sid)) \<or>
     (case rm_resume m of None \<Rightarrow> False
      | Some r \<Rightarrow> (case string_of (jget r ''agent'') of None \<Rightarrow> False | Some a \<Rightarrow> basename a = basename agent) \<and>
                  jget r ''session_id'' = Some (JStr sid)) \<or>
     argv_carries (rm_argv m) sid"

section \<open>The session of a resumed run can be found\<close>

lemma argv_carriesI: "\<lbrakk>1 \<le> i; i < length argv; argv_selects argv sid i\<rbrakk> \<Longrightarrow> argv_carries argv sid"
  by (auto simp: argv_carries_def list_ex_iff)

lemma index_of_le: "\<exists>r. index_of x (pre @ x # post) = Some r \<and> r \<le> length pre"
  by (induction pre) auto

lemma carries_resume: "argv_carries (pre @ ''resume'' # mid @ [sid, prompt]) sid"
proof (rule argv_carriesI)
  let ?argv = "pre @ ''resume'' # mid @ [sid, prompt]" and ?i = "Suc (length pre + length mid)"
  obtain r where "index_of ''resume'' ?argv = Some r" "r \<le> length pre" using index_of_le by metis
  then show "argv_selects ?argv sid ?i" by (simp add: argv_selects_def nth_append)
qed simp_all

lemma carries_session_id: "argv_carries (pre @ [''--session-id'', sid, ''--'', prompt]) sid"
proof (rule argv_carriesI)
  show "argv_selects (pre @ [''--session-id'', sid, ''--'', prompt]) sid (Suc (length pre))"
    by (simp add: argv_selects_def nth_append)
qed simp_all

lemma codex_line_carries: "s \<noteq> [] \<Longrightarrow> argv_carries (codex_line agent a prompt (Some s)) s"
  using carries_resume [of "[agent] @ cw_global a @ [''exec''] @ cw_parent a"
      "cw_resume a @ (if cw_json a then [] else [''--json''])" s prompt]
  by (simp add: codex_line_def truthy_def)

lemma native_line_carries:
  assumes "nativeArgv route prompt (Some sid) uuid = Inr argv" and "sid \<noteq> []"
  shows "argv_carries argv sid"
proof (cases "basename (ac_agent route) = ''codex''")
  case True
  with assms(1) obtain a where "argv = codex_line (ac_agent route) a prompt (Some sid)"
    by (auto simp: nativeArgv_def Let_def codexArgv_def split: sum.splits)
  then show ?thesis using codex_line_carries [OF assms(2)] by simp
next
  case False
  with assms(1) obtain f where "argv = pi_line route f sid prompt"
    by (auto simp: nativeArgv_def Let_def split: sum.splits if_split_asm)
  then show ?thesis
    using carries_session_id [of "[ac_agent route] @ ac_args route @ (if fst f then [] else [''--print'']) @
        (if snd f then [] else [''--mode'', ''json''])"]
    by (simp add: pi_line_def)
qed

text \<open>Every command line the program builds to continue a session carries that session in a form the
  admission check finds, whatever the options and the prompt are: for codex between \<open>resume\<close> and the prompt,
  for pi after \<open>--session-id\<close>.\<close>

theorem native_line_carries_session:
  assumes "nativeArgv route prompt (Some sid) uuid = Inr argv" and "sid \<noteq> []" and "rm_argv m = argv"
  shows "metaCarriesSession m agent sid"
  using native_line_carries [OF assms(1,2)] by (simp add: metaCarriesSession_def assms(3))

definition sample_codex :: agent_command where
  "sample_codex = \<lparr>ac_agent = ''/bin/codex'', ac_args = [''-m'', ''resume'', ''--color=never'', ''--ephemeral'']\<rparr>"

lemma sample_codex_line:
  "nativeArgv sample_codex ''go'' (Some ''s1'') ''u'' =
    Inr [''/bin/codex'', ''-m'', ''resume'', ''exec'', ''--color=never'', ''resume'', ''--ephemeral'', ''--json'', ''s1'', ''go'']"
  by (simp add: nativeArgv_def sample_codex_def basename_def codexArgv_def codex_line_def no_words_def truthy_def push_words_def
      codex_option_def option_word_def attached_def short_attached_def starts_with_def ends_with_def scope_of_def option_words_def
      globalValues_def globalFlags_def execValues_def execFlags_def parentValues_def valueOptions_def)

theorem native_line_carries_session_witness:
  "\<forall>m. rm_argv m = [''/bin/codex'', ''-m'', ''resume'', ''exec'', ''--color=never'', ''resume'', ''--ephemeral'', ''--json'', ''s1'', ''go'']
    \<longrightarrow> metaCarriesSession m ''codex'' ''s1''"
  using native_line_carries_session [OF sample_codex_line] by simp

section \<open>A resumed pi line is parsed again\<close>

lemma plain_pi_scan_si:
  "plain_pi_scan line i (Some k) = Inr si \<Longrightarrow> si = Some k"
  by (induction line i "Some k" rule: plain_pi_scan.induct) (auto split: if_split_asm list.splits)

lemma plain_pi_scan_found:
  assumes "plain_pi_scan line i None = Inr (Some k)"
  shows "\<exists>pre v post. line = pre @ ''--session-id'' # v # post \<and> k = i + length pre \<and> exact_uuid v \<and>
    (\<forall>rest j. plain_pi_scan (pre @ rest) j None = plain_pi_scan rest (j + length pre) None)"
  using assms
proof (induction line i "None :: nat option" rule: plain_pi_scan.induct)
  case (2 token rest i)
  consider (stop) "token = ''--''" | (found) "token = ''--session-id''" | (sel) "token \<noteq> ''--session-id''" "session_selector token"
    | (val) "token \<noteq> ''--''" "token \<noteq> ''--session-id''" "\<not> session_selector token" "token \<in> set plain_pi_values"
    | (flag) "token \<noteq> ''--''" "token \<noteq> ''--session-id''" "\<not> session_selector token" "token \<notin> set plain_pi_values" "token \<in> set plain_pi_flags"
    | (bad) "token \<noteq> ''--''" "token \<noteq> ''--session-id''" "\<not> session_selector token" "token \<notin> set plain_pi_values" "token \<notin> set plain_pi_flags"
    by blast
  then show ?case
  proof cases
    case found
    then obtain v rest' where r: "rest = v # rest'" "exact_uuid v" "plain_pi_scan rest' (i + 2) (Some i) = Inr (Some k)"
      using 2(3) by (auto split: list.splits if_split_asm)
    have "k = i" using plain_pi_scan_si [OF r(3)] by simp
    then show ?thesis using found r(1,2) by (intro exI [of _ "[]"] exI [of _ v] exI [of _ rest']) simp
  next
    case val
    then obtain v rest' where r: "rest = v # rest'" "plain_pi_scan rest' (i + 2) None = Inr (Some k)"
      using 2(3) by (auto split: list.splits)
    obtain pre w post where h: "rest' = pre @ ''--session-id'' # w # post" "k = i + 2 + length pre" "exact_uuid w"
      "\<forall>rest j. plain_pi_scan (pre @ rest) j None = plain_pi_scan rest (j + length pre) None"
      using 2(1) [of v rest'] val r by auto
    show ?thesis using h val r(1) by (intro exI [of _ "token # v # pre"] exI [of _ w] exI [of _ post]) (simp add: add.assoc)
  next
    case flag
    then have "plain_pi_scan rest (i + 1) None = Inr (Some k)" using 2(3) by simp
    then obtain pre w post where h: "rest = pre @ ''--session-id'' # w # post" "k = i + 1 + length pre" "exact_uuid w"
      "\<forall>rest j. plain_pi_scan (pre @ rest) j None = plain_pi_scan rest (j + length pre) None"
      using 2(2) flag by auto
    show ?thesis using h flag by (intro exI [of _ "token # pre"] exI [of _ w] exI [of _ post]) simp
  qed (use 2(3) in \<open>simp_all split: if_split_asm\<close>)
qed simp

text \<open>A plain pi run that can be resumed can be resumed again: the line built for it, with any prompt,
  is parsed to the same executable, options and session.\<close>

theorem resumed_pi_roundtrip:
  assumes "parsePlainPiArgv agent line = Inr p"
  shows "\<exists>line'. resumed_pi_line p prompt = agent # line' \<and> parsePlainPiArgv agent line' = Inr p"
proof -
  obtain k where k: "plain_pi_scan line 1 None = Inr (Some k)" and p: "p = \<lparr>pp_agent = agent, pp_head = take k (agent # line),
      pp_session = (agent # line) ! (k + 1)\<rparr>"
    using assms by (auto simp: parsePlainPiArgv_def split: sum.splits option.splits list.splits if_split_asm)
  obtain pre v post where h: "line = pre @ ''--session-id'' # v # post" "k = 1 + length pre" "exact_uuid v"
    "\<forall>rest j. plain_pi_scan (pre @ rest) j None = plain_pi_scan rest (j + length pre) None"
    using plain_pi_scan_found [OF k] by auto
  have p': "p = \<lparr>pp_agent = agent, pp_head = agent # pre, pp_session = v\<rparr>"
    by (simp add: p h(1,2) nth_append)
  let ?line = "pre @ [''--session-id'', v, ''--'', prompt]"
  have "plain_pi_scan ?line 1 None = Inr (Some k)" using h(2,3) h(4) [rule_format, of "[''--session-id'', v, ''--'', prompt]" 1] by simp
  then have "parsePlainPiArgv agent ?line = Inr p" by (simp add: parsePlainPiArgv_def h(2) p' nth_append)
  then show ?thesis by (simp add: resumed_pi_line_def p')
qed

definition sample_pi_line :: "string list" where
  "sample_pi_line = [''--model'', ''m'', ''--session-id'', ''00000000-0000-0000-0000-000000000000'', ''--'', ''go'']"

theorem resumed_pi_roundtrip_witness:
  "\<exists>p line'. parsePlainPiArgv ''pi'' sample_pi_line = Inr p \<and> resumed_pi_line p ''more'' = ''pi'' # line' \<and> parsePlainPiArgv ''pi'' line' = Inr p"
proof -
  have "\<exists>p. parsePlainPiArgv ''pi'' sample_pi_line = Inr p"
    by (simp add: parsePlainPiArgv_def sample_pi_line_def session_selector_def option_word_def selectors_def plain_pi_values_def
        pi_values_def exact_uuid_def any_hex_def numeral_nat)
  then obtain p where p: "parsePlainPiArgv ''pi'' sample_pi_line = Inr p" by blast
  show ?thesis using resumed_pi_roundtrip [OF p, of "''more''"] p by blast
qed

section \<open>A resumed codex line is parsed again\<close>

text \<open>
  The option words of a plain line whose options all belong to one scope; the flag says that \<open>--json\<close> is
  among them.
\<close>

inductive scoped :: "codex_scope \<Rightarrow> bool \<Rightarrow> string list \<Rightarrow> bool" where
  none: "scoped sc False []"
| json: "scoped Resume_scope False toks \<Longrightarrow> scoped Resume_scope True (''--json'' # toks)"
| flag: "\<lbrakk>t \<in> set plain_codex_flags; t \<noteq> ''--json''; scope_of t = Some sc; scoped sc j toks\<rbrakk> \<Longrightarrow> scoped sc j (t # toks)"
| inline: "\<lbrakk>option_word t \<in> set valueOptions; attached t; \<not> ends_with ''='' t; scope_of (option_word t) = Some sc; scoped sc j toks\<rbrakk>
    \<Longrightarrow> scoped sc j (t # toks)"
| val: "\<lbrakk>t \<in> set valueOptions; \<not> starts_with ''-'' v; scope_of t = Some sc; scoped sc j toks\<rbrakk> \<Longrightarrow> scoped sc j (t # v # toks)"

lemma plain_values: "plain_codex_values = valueOptions"
  by (simp add: plain_codex_values_def valueOptions_def globalValues_def execValues_def parentValues_def)

lemma no_equals: "CHR ''='' \<notin> set t \<Longrightarrow> option_word t = t \<and> \<not> attached t"
  by (auto simp: option_word_def attached_def takeWhile_eq_all_conv)

lemma flag_word:
  assumes "t \<in> set plain_codex_flags"
  shows "option_word t = t" and "\<not> attached t" and "t \<notin> set valueOptions" and "starts_with ''--'' t" and "t \<noteq> ''exec''" and "t \<noteq> ''resume''"
  using assms by (auto simp: plain_codex_flags_def option_word_def attached_def valueOptions_def globalValues_def execValues_def
      parentValues_def starts_with_def)

lemma value_word:
  assumes "t \<in> set valueOptions"
  shows "option_word t = t" and "\<not> attached t" and "t \<noteq> ''exec''" and "t \<noteq> ''resume''" and "t \<noteq> ''--json''"
  using assms by (auto simp: option_word_def attached_def valueOptions_def globalValues_def execValues_def parentValues_def)

lemma inline_word:
  assumes "option_word t \<in> set valueOptions"
  shows "t \<noteq> ''exec''" and "t \<noteq> ''resume''" and "option_word t \<noteq> ''--json''"
  using assms value_word(5) [OF assms] by (auto simp: option_word_def valueOptions_def globalValues_def execValues_def parentValues_def)

lemma json_word:
  "codex_option ''--json'' = (''--json'', False)" "scope_of ''--json'' = Some Resume_scope" "''--json'' \<notin> set valueOptions"
  "''--json'' \<in> set plain_codex_flags"
  by (simp_all add: codex_option_def option_word_def attached_def starts_with_def scope_of_def globalValues_def globalFlags_def
      parentValues_def execValues_def execFlags_def valueOptions_def plain_codex_flags_def)

lemma codex_option_flag: "t \<in> set plain_codex_flags \<Longrightarrow> codex_option t = (t, False)"
  by (simp add: codex_option_def flag_word)

lemma codex_option_value: "option_word t \<in> set valueOptions \<Longrightarrow> codex_option t = (option_word t, attached t)"
  by (simp add: codex_option_def)

lemma scoped_append: "\<lbrakk>scoped sc i xs; scoped sc j ys; \<not> (i \<and> j)\<rbrakk> \<Longrightarrow> scoped sc (i \<or> j) (xs @ ys)"
proof (induction rule: scoped.induct)
  case (json toks)
  then show ?case using scoped.json [of "toks @ ys"] by simp
qed (auto intro: scoped.intros)

lemma push_words_push: "push_words sc ys (push_words sc xs a) = push_words sc (xs @ ys) a"
  by (cases sc) (simp_all add: push_words_def)

lemma push_words_json: "push_words sc xs (a\<lparr>cw_json := b\<rparr>) = (push_words sc xs a)\<lparr>cw_json := b\<rparr>"
  by (cases sc) (simp_all add: push_words_def)

lemma push_words_keeps [simp]: "cw_json (push_words sc xs a) = cw_json a" "cw_explicit (push_words sc xs a) = cw_explicit a"
  by (cases sc; simp add: push_words_def)+

lemma push_words_nil: "push_words sc [] a = a"
  by (cases sc) (simp_all add: push_words_def)

text \<open>The codex scan moves such words into their scope; the plain scan keeps them as options.\<close>

lemma codex_scan_scoped:
  assumes "scoped sc j toks"
  shows "\<not> (j \<and> cw_json a) \<Longrightarrow> codex_scan (toks @ rest) a =
    codex_scan rest ((push_words sc toks a)\<lparr>cw_json := (cw_json a \<or> j)\<rparr>)"
  using assms
proof (induction arbitrary: a rule: scoped.induct)
  case (json toks)
  then show ?case
    by (simp add: json_word option_words_def push_words_json push_words_push)
next
  case (flag t sc j toks)
  then show ?case
    by (simp add: codex_option_flag flag_word option_words_def push_words_json push_words_push)
next
  case (inline t sc j toks)
  then show ?case
    by (simp add: codex_option_value inline_word option_words_def push_words_json push_words_push)
next
  case (val t v sc j toks)
  then show ?case
    by (simp add: codex_option_value value_word option_words_def push_words_json push_words_push)
qed (simp add: push_words_nil)

lemma plain_scan_scoped:
  assumes "scoped sc j toks"
  shows "plain_codex_scan (toks @ rest) x = map_sum id (\<lambda>(os, ps). (toks @ os, ps)) (plain_codex_scan rest x)"
  using assms
proof (induction rule: scoped.induct)
  case none
  show ?case by (cases "plain_codex_scan rest x") auto
next
  case (json toks)
  then show ?case
    by (cases "plain_codex_scan rest x") (auto simp: plain_values json_word flag_word [OF json_word(4)])
next
  case (flag t sc j toks)
  then show ?case
    by (cases "plain_codex_scan rest x") (auto simp: plain_values flag_word)
next
  case (inline t sc j toks)
  then show ?case
    by (cases "plain_codex_scan rest x") (auto simp: plain_values inline_word)
next
  case (val t v sc j toks)
  then show ?case
    by (cases "plain_codex_scan rest x") (auto simp: plain_values value_word)
qed

lemma map_sum_Inr: "map_sum id f r = Inr y \<Longrightarrow> (\<And>z. r = Inr z \<Longrightarrow> y = f z \<Longrightarrow> thesis) \<Longrightarrow> thesis"
  by (cases r) auto

inductive plain_opts :: "string list \<Rightarrow> bool" where
  none: "plain_opts []"
| flag: "\<lbrakk>option_word t \<in> set plain_codex_flags; plain_opts os\<rbrakk> \<Longrightarrow> plain_opts (t # os)"
| inline: "\<lbrakk>option_word t \<in> set valueOptions; attached t; plain_opts os\<rbrakk> \<Longrightarrow> plain_opts (t # os)"
| val: "\<lbrakk>t \<in> set valueOptions; plain_opts os\<rbrakk> \<Longrightarrow> plain_opts (t # v # os)"

lemma plain_scan_opts: "plain_codex_scan line x = Inr (os, ps) \<Longrightarrow> plain_opts os"
proof (induction line x arbitrary: os ps rule: plain_codex_scan.induct)
  case (2 token rest x)
  have t: "option_word token = token" if "\<not> attached token"
    using that no_equals by (auto simp: attached_def)
  consider (skip) "(token = ''exec'' \<and> \<not> x) \<or> token = ''resume''"
    | (val) "\<not> (token = ''exec'' \<and> \<not> x)" "token \<noteq> ''resume''" "option_word token \<in> set valueOptions" "\<not> attached token"
    | (inline) "\<not> (token = ''exec'' \<and> \<not> x)" "token \<noteq> ''resume''" "option_word token \<in> set valueOptions" "attached token"
    | (flag) "\<not> (token = ''exec'' \<and> \<not> x)" "token \<noteq> ''resume''" "option_word token \<notin> set valueOptions" "option_word token \<in> set plain_codex_flags"
    | (other) "\<not> (token = ''exec'' \<and> \<not> x)" "token \<noteq> ''resume''" "option_word token \<notin> set valueOptions" "option_word token \<notin> set plain_codex_flags"
    by blast
  then show ?case
  proof cases
    case skip
    then show ?thesis using 2 by (auto split: if_split_asm)
  next
    case val
    with 2(6) obtain v rest' r where r: "rest = v # rest'" "plain_codex_scan rest' x = Inr r"
      "os = token # v # fst r"
      by (auto simp: plain_values split: list.splits elim!: map_sum_Inr)
    then show ?thesis using 2(3) [of v rest' "fst r" "snd r"] val t by (auto simp: plain_values intro: plain_opts.val)
  next
    case inline
    with 2(6) obtain r where r: "plain_codex_scan rest x = Inr r" "os = token # fst r"
      by (auto simp: plain_values elim!: map_sum_Inr)
    then show ?thesis using 2(4) [of "fst r" "snd r"] inline by (auto simp: plain_values intro: plain_opts.inline)
  next
    case flag
    with 2(6) obtain r where r: "plain_codex_scan rest x = Inr r" "os = token # fst r"
      by (auto simp: plain_values elim!: map_sum_Inr)
    then show ?thesis using 2(4) [of "fst r" "snd r"] flag by (auto simp: plain_values intro: plain_opts.flag)
  next
    case other
    with 2(6) obtain r where r: "plain_codex_scan rest x = Inr r" "os = fst r" "\<not> starts_with ''-'' token"
      by (auto simp: plain_values split: if_split_asm elim!: map_sum_Inr)
    then show ?thesis using 2(5) [of "fst r" "snd r"] other by (auto simp: plain_values)
  qed
qed (auto intro: plain_opts.none)

definition words_ok :: "codex_words \<Rightarrow> bool" where
  "words_ok a \<longleftrightarrow> scoped Global False (cw_global a) \<and> scoped Parent False (cw_parent a) \<and> scoped Resume_scope (cw_json a) (cw_resume a)"

lemma words_ok_push:
  assumes "words_ok a" and "scoped sc j toks" and "j \<longrightarrow> sc = Resume_scope \<and> \<not> cw_json a"
  shows "words_ok (push_words sc toks (a\<lparr>cw_json := (cw_json a \<or> j)\<rparr>))"
proof -
  note w = assms(1) [unfolded words_ok_def]
  show ?thesis
  proof (cases sc)
    case Global
    then show ?thesis using w assms(2,3) scoped_append [of Global False "cw_global a" False toks] by (simp add: words_ok_def push_words_def)
  next
    case Parent
    then show ?thesis using w assms(2,3) scoped_append [of Parent False "cw_parent a" False toks] by (simp add: words_ok_def push_words_def)
  next
    case Resume_scope
    then show ?thesis using w assms(2,3) scoped_append [of Resume_scope "cw_json a" "cw_resume a" j toks]
      by (auto simp: words_ok_def push_words_def)
  qed
qed

lemma codex_scan_words:
  assumes "plain_opts os"
  shows "codex_scan os a = Inr b \<Longrightarrow> words_ok a \<Longrightarrow> words_ok b"
  using assms
proof (induction os arbitrary: a rule: plain_opts.induct)
  case none
  then show ?case by simp
next
  case (flag t os)
  let ?o = "option_word t"
  have "starts_with ''--'' (?o @ dropWhile (\<lambda>c. c \<noteq> CHR ''='') t)"
    using flag_word(4) [OF flag(1)] by (auto simp: starts_with_iff)
  then have dd: "starts_with ''--'' t" by (simp add: option_word_def)
  then have c: "codex_option t = (?o, attached t)" and ne: "t \<noteq> ''exec''"
    by (auto simp: codex_option_def starts_with_def)
  show ?case
  proof (cases "attached t")
    case True
    then show ?thesis using flag(4) c ne flag_word(3) [OF flag(1)] by (simp split: option.splits)
  next
    case False
    then have t: "?o = t" using no_equals by (auto simp: attached_def)
    obtain sc where sc: "scope_of t = Some sc" "t = ''--json'' \<longrightarrow> sc = Resume_scope"
      using flag(1) t by (auto simp: plain_codex_flags_def scope_of_def globalValues_def globalFlags_def parentValues_def
          execValues_def execFlags_def)
    have j: "\<not> (t = ''--json'' \<and> cw_json a)"
      and b: "codex_scan os (push_words sc [t] (a\<lparr>cw_json := (cw_json a \<or> t = ''--json'')\<rparr>)) = Inr b"
      using flag(4) c ne t sc flag_word(2,3) [OF flag(1)] by (simp_all add: option_words_def split: if_split_asm)
    have "scoped sc (t = ''--json'') [t]"
      using scoped.json [OF scoped.none] scoped.flag [OF _ _ sc(1) scoped.none] flag(1) t sc(2) by (cases "t = ''--json''") auto
    then have "words_ok (push_words sc [t] (a\<lparr>cw_json := (cw_json a \<or> t = ''--json'')\<rparr>))"
      using j sc(2) by (intro words_ok_push [OF flag(5)]) auto
    then show ?thesis using flag(3) [OF b] by blast
  qed
next
  case (inline t os)
  let ?o = "option_word t"
  obtain sc where sc: "scope_of ?o = Some sc"
    and e: "\<not> ends_with ''='' t" and b: "codex_scan os (push_words sc [t] (a\<lparr>cw_json := cw_json a\<rparr>)) = Inr b"
    using inline(5) codex_option_value [OF inline(1)] inline_word [OF inline(1)] inline(1,2)
    by (auto simp: option_words_def split: option.splits if_split_asm)
  have "words_ok (push_words sc [t] (a\<lparr>cw_json := (cw_json a \<or> False)\<rparr>))"
    using scoped.inline [OF inline(1,2) e sc scoped.none] by (intro words_ok_push [OF inline(6)]) auto
  then show ?case using inline(4) [OF b] by simp
next
  case (val t os v)
  obtain sc where sc: "scope_of t = Some sc"
    and e: "\<not> starts_with ''-'' v" and b: "codex_scan os (push_words sc [t, v] (a\<lparr>cw_json := cw_json a\<rparr>)) = Inr b"
    using val(4) codex_option_value [of t] value_word [OF val(1)] val(1)
    by (auto simp: option_words_def split: option.splits if_split_asm)
  have "words_ok (push_words sc [t, v] (a\<lparr>cw_json := (cw_json a \<or> False)\<rparr>))"
    using scoped.val [OF val(1) e sc scoped.none] by (intro words_ok_push [OF val(5)]) auto
  then show ?case using val(3) [OF b] by simp
qed

definition plain_word :: "string \<Rightarrow> bool" where
  "plain_word w \<longleftrightarrow> w \<noteq> [] \<and> \<not> starts_with ''-'' w \<and> w \<noteq> ''resume''"

lemma dashed_options: "w \<in> set plain_codex_values \<union> set plain_codex_flags \<Longrightarrow> starts_with ''-'' w"
  by (auto simp: plain_codex_values_def plain_codex_flags_def starts_with_def)

lemma plain_word_positional:
  assumes "plain_word w"
  shows "plain_codex_scan (w # rest) True = map_sum id (\<lambda>(os, ps). (os, w # ps)) (plain_codex_scan rest True)"
proof -
  have "\<not> starts_with ''-'' (option_word w)"
    using assms by (cases w) (auto simp: plain_word_def option_word_def starts_with_def)
  then have "option_word w \<notin> set plain_codex_values" "option_word w \<notin> set plain_codex_flags" using dashed_options by auto
  then show ?thesis using assms by (simp add: plain_word_def)
qed

text \<open>A plain codex run that was continued can be continued again: the command line built from its
  options parses, and the options found there build the same line up to the prompt.  The session and the
  prompt must not look like options or like the word \<open>resume\<close>.\<close>

theorem resumed_codex_repeats:
  assumes "parsePlainCodexArgv agent0 line0 = Inr (agent, os)" and "codexArgv agent os prompt (Some sid) = Inr (agent # line)"
    and "plain_word sid" and "plain_word prompt"
  shows "\<exists>os'. parsePlainCodexArgv agent line = Inr (agent, os') \<and>
    (\<forall>prompt'. codexArgv agent os' prompt' (Some sid) = Inr (agent # butlast line @ [prompt']))"
proof -
  obtain ps where p: "plain_codex_scan line0 False = Inr (os, ps)"
    using assms(1) by (auto simp: parsePlainCodexArgv_def split: sum.splits if_split_asm)
  obtain a where a: "codex_scan os no_words = Inr a" and l: "agent # line = codex_line agent a prompt (Some sid)"
    using assms(2) by (auto simp: codexArgv_def split: sum.splits)
  have "words_ok no_words" by (simp add: words_ok_def no_words_def scoped.none)
  then have ok: "words_ok a" using codex_scan_words [OF plain_scan_opts [OF p] a] by blast
  let ?g = "cw_global a" and ?p = "cw_parent a" and ?r = "cw_resume a @ (if cw_json a then [] else [''--json''])"
  have g: "scoped Global False ?g" and pa: "scoped Parent False ?p" and r: "scoped Resume_scope True ?r"
    using ok scoped_append [OF _ scoped.json [OF scoped.none], of False "cw_resume a"] by (auto simp: words_ok_def)
  have sid: "sid \<noteq> []" using assms(3) by (simp add: plain_word_def)
  have line: "line = ?g @ ''exec'' # ?p @ ''resume'' # ?r @ [sid, prompt]"
    using l sid by (simp add: codex_line_def truthy_def)
  have two: "plain_codex_scan [sid, prompt] True = Inr ([], [sid, prompt])"
    unfolding plain_word_positional [OF assms(3)] plain_word_positional [OF assms(4)] by simp
  have skip: "plain_codex_scan (''resume'' # toks) True = plain_codex_scan toks True" for toks by simp
  have "plain_codex_scan (?p @ ''resume'' # ?r @ [sid, prompt]) True = Inr (?p @ ?r, [sid, prompt])"
    unfolding plain_scan_scoped [OF pa] skip plain_scan_scoped [OF r] two by simp
  then have scan: "plain_codex_scan line False = Inr (?g @ ?p @ ?r, [sid, prompt])"
    unfolding line plain_scan_scoped [OF g] by simp
  have parse: "parsePlainCodexArgv agent line = Inr (agent, ?g @ ?p @ ?r)"
    by (simp add: parsePlainCodexArgv_def scan) (simp add: line)
  obtain c where c: "codex_scan (?g @ ?p @ ?r) no_words = Inr c" "cw_global c = ?g" "cw_parent c = ?p" "cw_resume c = ?r" "cw_json c"
    using codex_scan_scoped [OF g, of no_words] codex_scan_scoped [OF pa] codex_scan_scoped [OF r, of _ "[]"]
    by (simp add: no_words_def push_words_def)
  have "codexArgv agent (?g @ ?p @ ?r) prompt' (Some sid) = Inr (agent # butlast line @ [prompt'])" for prompt'
    using c sid by (simp add: codexArgv_def codex_line_def truthy_def line butlast_append)
  then show ?thesis using parse by blast
qed

lemma sample_plain_codex:
  "parsePlainCodexArgv ''codex'' [''--ephemeral'', ''-m'', ''x'', ''go''] = Inr (''codex'', [''--ephemeral'', ''-m'', ''x''])"
  "codexArgv ''codex'' [''--ephemeral'', ''-m'', ''x''] ''more'' (Some ''s1'') =
    Inr (''codex'' # [''-m'', ''x'', ''exec'', ''resume'', ''--ephemeral'', ''--json'', ''s1'', ''more''])"
  by (simp_all add: parsePlainCodexArgv_def plain_codex_values_def plain_codex_flags_def
      codexArgv_def codex_line_def no_words_def truthy_def push_words_def
      codex_option_def option_word_def attached_def short_attached_def starts_with_def ends_with_def scope_of_def option_words_def
      globalValues_def globalFlags_def execValues_def execFlags_def parentValues_def valueOptions_def)

theorem resumed_codex_repeats_witness:
  "\<exists>os'. parsePlainCodexArgv ''codex'' [''-m'', ''x'', ''exec'', ''resume'', ''--ephemeral'', ''--json'', ''s1'', ''more''] = Inr (''codex'', os') \<and>
    codexArgv ''codex'' os' ''again'' (Some ''s1'') = Inr [''codex'', ''-m'', ''x'', ''exec'', ''resume'', ''--ephemeral'', ''--json'', ''s1'', ''again'']"
  using resumed_codex_repeats [OF sample_plain_codex] by (simp add: plain_word_def starts_with_def) blast

end
