(* ===== verification/Resume.thy ===== *)
theory Resume
  imports Native_Argv
begin

text \<open>
  Continuing a completed run: the admission check of \<open>src/core/run/admission.ts\<close> and the planning and
  execution of \<open>tut resume\<close> in \<open>src/core/run/resume.ts\<close>, on POSIX.

  The run store is the list of its run directories in the order of \<open>RunStore.list\<close>.  A directory carries
  the meta that \<open>read\<close> returns (\<open>None\<close> where it throws) and the JSON of the two startup reservations.
  What the execution asks of the outside (the Hub's state, the task log, the publication of the marker,
  the start of the process, the admission lock) are the fields of \<open>resume_world\<close>, indexed by the attempt,
  so that every answer may be different each time.
\<close>

section \<open>Admission\<close>

record run_dir =
  rd_id :: string
  rd_meta :: "run_meta option"
  rd_resume :: "json option"
  rd_start :: "json option"

definition readResumeIntent :: "run_dir \<Rightarrow> json option" where
  "readResumeIntent d = (case rd_resume d of None \<Rightarrow> None | Some v \<Rightarrow> if validResumeIntent v then Some v else None)"

definition readStartIntent :: "run_dir \<Rightarrow> json option" where
  "readStartIntent d = (case rd_start d of None \<Rightarrow> None | Some v \<Rightarrow> if validStartIntent v then Some v else None)"

datatype occupant_detail =
    Incomplete_run run_status bool
  | Pending_resume "string option"
  | Pending_start "string option"

record occupant =
  oc_run :: string
  oc_detail :: occupant_detail

definition incomplete_occupant :: "run_dir \<Rightarrow> run_meta \<Rightarrow> occupant" where
  "incomplete_occupant d m =
     \<lparr>oc_run = rd_id d, oc_detail = Incomplete_run (rm_status m) (case rm_ended_at m of None \<Rightarrow> True | Some s \<Rightarrow> s = [])\<rparr>"

definition pending :: "json \<Rightarrow> bool" where
  "pending v \<longleftrightarrow> jget v ''startup'' = Some (JStr ''pending'')"

definition designated_of :: "json \<Rightarrow> json option" where
  "designated_of v = (case jget v ''headless'' of None \<Rightarrow> None | Some h \<Rightarrow> jget h ''designated_session_id'')"

definition session_occupant :: "string \<Rightarrow> string \<Rightarrow> run_dir \<Rightarrow> occupant option" where
  "session_occupant agent sid d =
     (case rd_meta d of
        Some m \<Rightarrow> if metaCarriesSession m agent sid \<and> \<not> complete m then Some (incomplete_occupant d m) else None
      | None \<Rightarrow>
          (case readResumeIntent d of
             Some v \<Rightarrow>
               if jget v ''agent'' = Some (JStr agent) \<and> jget v ''session_id'' = Some (JStr sid) \<and> pending v
               then Some \<lparr>oc_run = rd_id d, oc_detail = Pending_resume (string_of (jget v ''from_run_id''))\<rparr> else None
           | None \<Rightarrow>
               (case readStartIntent d of
                  Some v \<Rightarrow>
                    if pending v \<and> designated_of v = Some (JStr sid)
                    then Some \<lparr>oc_run = rd_id d, oc_detail = Pending_start (string_of (jget v ''task_id''))\<rparr> else None
                | None \<Rightarrow> None)))"

definition sessionOccupants :: "run_dir list \<Rightarrow> string \<Rightarrow> string \<Rightarrow> occupant list" where
  "sessionOccupants store agent sid = List.map_filter (session_occupant agent sid) store"

definition read_run :: "run_dir list \<Rightarrow> string \<Rightarrow> run_meta option" where
  "read_run store i = (case find (\<lambda>d. rd_id d = i) store of None \<Rightarrow> None | Some d \<Rightarrow> rd_meta d)"

definition taskOfSource :: "run_dir list \<Rightarrow> string option \<Rightarrow> string option" where
  "taskOfSource store i = (case Option.bind i (read_run store) of None \<Rightarrow> None | Some m \<Rightarrow> rm_task_id m)"

definition task_occupant :: "run_dir list \<Rightarrow> string \<Rightarrow> run_dir \<Rightarrow> occupant option" where
  "task_occupant store task d =
     (case rd_meta d of
        Some m \<Rightarrow> if rm_task_id m = Some task \<and> \<not> complete m then Some (incomplete_occupant d m) else None
      | None \<Rightarrow>
          (case readStartIntent d of
             Some v \<Rightarrow>
               if jget v ''task_id'' = Some (JStr task) \<and> pending v
               then Some \<lparr>oc_run = rd_id d, oc_detail = Pending_start None\<rparr> else None
           | None \<Rightarrow>
               (case readResumeIntent d of
                  Some v \<Rightarrow>
                    if pending v \<and> taskOfSource store (string_of (jget v ''from_run_id'')) = Some task
                    then Some \<lparr>oc_run = rd_id d, oc_detail = Pending_resume (string_of (jget v ''from_run_id''))\<rparr> else None
                | None \<Rightarrow> None)))"

definition taskOccupants :: "run_dir list \<Rightarrow> string \<Rightarrow> occupant list" where
  "taskOccupants store task = List.map_filter (task_occupant store task) store"

section \<open>The pi session store\<close>

text \<open>\<open>realdir\<close> resolves a directory; the leading slash is dropped once.\<close>

definition mangle :: "string \<Rightarrow> string" where
  "mangle p =
     (let body = (case p of c # r \<Rightarrow> if c = CHR ''/'' \<or> c = CHR 0x5C then r else p | [] \<Rightarrow> []) in
      map (\<lambda>c. if c = CHR ''/'' \<or> c = CHR 0x5C \<or> c = CHR '':'' then CHR ''-'' else c) body)"

definition piSessionDirFor :: "(string \<Rightarrow> string) \<Rightarrow> string \<Rightarrow> string \<Rightarrow> string" where
  "piSessionDirFor realdir cwd base = base @ ''/--'' @ mangle (realdir cwd) @ ''--''"

definition readPiSessionHead :: "(string \<Rightarrow> json option) \<Rightarrow> string \<Rightarrow> (string \<times> string option) option" where
  "readPiSessionHead parse content =
     (case parse (takeWhile (\<lambda>c. c \<noteq> CHR 0x0A) (take 8192 content)) of
        None \<Rightarrow> None
      | Some v \<Rightarrow>
          if jget v ''type'' = Some (JStr ''session'')
          then (case jget v ''id'' of Some (JStr i) \<Rightarrow> Some (i, string_of (jget v ''cwd'')) | _ \<Rightarrow> None)
          else None)"

datatype pi_refusal = No_session_store | Other_project string | Session_missing

text \<open>A session directory is the list of its files with their contents; \<open>None\<close> cannot be listed.\<close>

fun find_session :: "(string \<Rightarrow> json option) \<Rightarrow> (string \<Rightarrow> string) \<Rightarrow> string \<Rightarrow> string \<Rightarrow> (string \<times> string) list \<Rightarrow> pi_refusal + string" where
  "find_session parse resolve cwd sid [] = Inl Session_missing"
| "find_session parse resolve cwd sid ((name, content) # files) =
     (case readPiSessionHead parse content of
        Some (i, c) \<Rightarrow>
          if i = sid then
            (case c of
               Some d \<Rightarrow> if resolve d \<noteq> resolve cwd then Inl (Other_project d) else Inr name
             | None \<Rightarrow> Inr name)
          else find_session parse resolve cwd sid files
      | None \<Rightarrow> find_session parse resolve cwd sid files)"

definition verifyPiSession ::
  "(string \<Rightarrow> json option) \<Rightarrow> (string \<Rightarrow> string) \<Rightarrow> (string \<Rightarrow> string) \<Rightarrow> (string \<Rightarrow> (string \<times> string) list option) \<Rightarrow>
    string \<Rightarrow> string \<Rightarrow> string \<Rightarrow> pi_refusal + string" where
  "verifyPiSession parse realdir resolve sessions base cwd sid =
     (case sessions (piSessionDirFor realdir cwd base) of
        None \<Rightarrow> Inl No_session_store
      | Some files \<Rightarrow> find_session parse resolve cwd sid (filter (\<lambda>(n, _). ends_with ''.jsonl'' n) files))"

section \<open>Planning\<close>

datatype resume_error =
    Source_unreadable
  | Source_run_active
  | Source_stop_incomplete
  | Source_run_incomplete
  | Codex_session_unavailable
  | Pi_identity_missing
  | Pi_session_not_found pi_refusal
  | Unsupported_resume_agent string
  | Argv_failed argv_error
  | Hub_unreachable
  | Hub_root_mismatch
  | Task_unavailable
  | Task_unreadable
  | Task_not_waiting
  | Task_needs_attention
  | State_inconsistent nat
  | Session_busy "occupant list"
  | Task_busy "occupant list"
  | Marker_conflict
  | Marker_failed
  | Spawn_uncertain
  | Spawn_failed
  | Start_threw
  | Invalid_ownership
  | Lock_failed
  | Wrong_kind

record ownership =
  ow_role :: "json option"
  ow_attempt :: string
  ow_route :: json
  ow_route_source :: "json option"
  ow_reason :: string
  ow_from :: string
  ow_designated :: "string option"

record resume_plan =
  pl_from :: run_meta
  pl_from_id :: string
  pl_cwd :: string
  pl_argv :: "string list"
  pl_prompt :: string
  pl_agent :: string
  pl_session :: string
  pl_identity :: string
  pl_task :: "string option"
  pl_managed :: bool
  pl_headless :: "ownership option"
  pl_resume :: json

record plan_world =
  pw_read :: "string \<Rightarrow> run_meta option"
  pw_verify :: "string \<Rightarrow> string \<Rightarrow> pi_refusal + string"
  pw_prompt :: "run_meta \<Rightarrow> string"
  pw_now :: string
  pw_by :: string
  pw_attempt :: string

text \<open>The route of a managed run; on a validated meta every part is there.\<close>

definition route_of :: "json \<Rightarrow> agent_command" where
  "route_of h =
     (case jget h ''route'' of
        None \<Rightarrow> \<lparr>ac_agent = [], ac_args = []\<rparr>
      | Some r \<Rightarrow>
          \<lparr>ac_agent = (case string_of (jget r ''agent'') of Some s \<Rightarrow> s | None \<Rightarrow> []),
           ac_args = (case jget r ''args'' of Some (JArr xs) \<Rightarrow> List.map_filter (\<lambda>x. string_of (Some x)) xs | _ \<Rightarrow> [])\<rparr>)"

definition incomplete_reason :: "run_meta \<Rightarrow> resume_error" where
  "incomplete_reason m =
     (if rm_status m = Running then Source_run_active
      else if (case rm_stop m of Some r \<Rightarrow> sq_result r = None | None \<Rightarrow> False) then Source_stop_incomplete
      else Source_run_incomplete)"

text \<open>The exact session of a run: the session and where it comes from.\<close>

definition pi_identity :: "run_meta \<Rightarrow> resume_error + string \<times> string" where
  "pi_identity m =
     (case Option.bind (rm_headless m) (\<lambda>h. truthy (string_of (jget h ''designated_session_id''))) of
        Some i \<Rightarrow> Inr (i, ''designated'')
      | None \<Rightarrow>
          (case rm_argv m of
             [] \<Rightarrow> Inl Pi_identity_missing
           | a # line \<Rightarrow>
               (case parsePlainPiArgv a line of
                  Inr p \<Rightarrow> Inr (pp_session p, ''argv'')
                | Inl e \<Rightarrow> Inl (if e = Pi_identity_unavailable then Pi_identity_missing else Argv_failed e))))"

definition session_handle :: "plan_world \<Rightarrow> run_meta \<Rightarrow> string \<Rightarrow> resume_error + string \<times> string" where
  "session_handle w m agent =
     (if agent = ''codex'' then
        (case truthy (rm_session m) of None \<Rightarrow> Inl Codex_session_unavailable | Some s \<Rightarrow> Inr (s, ''observed''))
      else if agent = ''pi'' then
        (case pi_identity m of
           Inl e \<Rightarrow> Inl e
         | Inr (i, src) \<Rightarrow>
             (case pw_verify w (rm_cwd m) i of Inl r \<Rightarrow> Inl (Pi_session_not_found r) | Inr _ \<Rightarrow> Inr (i, src)))
      else Inl (Unsupported_resume_agent agent))"

definition resumed_argv :: "run_meta \<Rightarrow> string \<Rightarrow> string \<Rightarrow> string \<Rightarrow> resume_error + string list" where
  "resumed_argv m agent prompt sid =
     (case rm_headless m of
        Some h \<Rightarrow> (case nativeArgv (route_of h) prompt (Some sid) [] of Inl e \<Rightarrow> Inl (Argv_failed e) | Inr l \<Rightarrow> Inr l)
      | None \<Rightarrow>
          (case rm_argv m of
             [] \<Rightarrow> Inl (Unsupported_resume_agent agent)
           | a # line \<Rightarrow>
               if agent = ''codex'' then
                 (case parsePlainCodexArgv a line of
                    Inl e \<Rightarrow> Inl (Argv_failed e)
                  | Inr (exe, os) \<Rightarrow> (case codexArgv exe os prompt (Some sid) of Inl e \<Rightarrow> Inl (Argv_failed e) | Inr l \<Rightarrow> Inr l))
               else
                 (case parsePlainPiArgv a line of
                    Inl e \<Rightarrow> Inl (Argv_failed e)
                  | Inr p \<Rightarrow> Inr (pp_head p @ [''--session-id'', sid, ''--'', prompt]))))"

definition resume_source :: "plan_world \<Rightarrow> run_meta \<Rightarrow> string \<Rightarrow> string \<Rightarrow> string \<Rightarrow> string \<Rightarrow> json" where
  "resume_source w m i agent sid src =
     JObj ([(''schema'', JNum 1), (''from_run_id'', JStr i), (''agent'', JStr agent), (''session_id'', JStr sid),
        (''identity'', JStr src), (''requested_at'', JStr (pw_now w)), (''requested_by'', JStr (pw_by w))] @
        opt_field ''task_id'' (map_option JStr (rm_task_id m)))"

definition rebuilt_ownership :: "plan_world \<Rightarrow> json \<Rightarrow> string \<Rightarrow> string \<Rightarrow> string \<Rightarrow> ownership" where
  "rebuilt_ownership w h i agent sid =
     \<lparr>ow_role = jget h ''role'', ow_attempt = pw_attempt w, ow_route = (case jget h ''route'' of Some r \<Rightarrow> r | None \<Rightarrow> JNull),
      ow_route_source = jget h ''route_source'', ow_reason = ''resume: manual continuation of run '' @ i, ow_from = i,
      ow_designated = (if agent = ''pi'' then Some sid else None)\<rparr>"

definition planResume :: "plan_world \<Rightarrow> string \<Rightarrow> string option \<Rightarrow> resume_error + resume_plan" where
  "planResume w i instruction =
     (case pw_read w i of
        None \<Rightarrow> Inl Source_unreadable
      | Some m \<Rightarrow>
          if \<not> complete m then Inl (incomplete_reason m)
          else (let agent = (case rm_argv m of a # _ \<Rightarrow> basename a | [] \<Rightarrow> []) in
            (case session_handle w m agent of
               Inl e \<Rightarrow> Inl e
             | Inr (sid, src) \<Rightarrow>
                 (let prompt = (case instruction of Some t \<Rightarrow> t | None \<Rightarrow> pw_prompt w m) in
                  (case resumed_argv m agent prompt sid of
                     Inl e \<Rightarrow> Inl e
                   | Inr argv \<Rightarrow>
                       Inr \<lparr>pl_from = m, pl_from_id = i, pl_cwd = rm_cwd m, pl_argv = argv, pl_prompt = prompt, pl_agent = agent,
                          pl_session = sid, pl_identity = src, pl_task = rm_task_id m, pl_managed = (rm_headless m \<noteq> None),
                          pl_headless = map_option (\<lambda>h. rebuilt_ownership w h i agent sid) (rm_headless m),
                          pl_resume = resume_source w m i agent sid src\<rparr>)))))"

section \<open>Execution\<close>

record state_row =
  st_task :: string
  st_status :: "string option"
  st_waiting :: "string option"
  st_attention :: bool
  st_version :: "int option"

record hub_snapshot =
  sn_root :: "string option"
  sn_tasks :: "state_row list"

record gate_log =
  gl_status :: "string option"
  gl_attention :: bool
  gl_versions :: "nat list"

datatype publish_outcome = Marker_published nat | Version_conflict | Publish_error

datatype start_outcome = Run_started string | Start_uncertain | Start_refused | Start_error

record resume_world =
  xw_canonical :: "string \<Rightarrow> string"
  xw_lock :: bool
  xw_state :: "nat \<Rightarrow> hub_snapshot option"
  xw_log :: "nat \<Rightarrow> gate_log option"
  xw_store :: "nat \<Rightarrow> run_dir list"
  xw_publish :: "nat \<Rightarrow> nat \<Rightarrow> publish_outcome"
  xw_start :: "nat \<Rightarrow> start_outcome"

definition same_root :: "(string \<Rightarrow> string) \<Rightarrow> string \<Rightarrow> hub_snapshot \<Rightarrow> bool" where
  "same_root canonical hub st =
     (case sn_root st of None \<Rightarrow> False | Some r \<Rightarrow> absolute_path r \<and> canonical r = canonical hub)"

definition finished_status :: "string option \<Rightarrow> bool" where
  "finished_status s \<longleftrightarrow> s \<in> {Some ''pending_approval'', Some ''approved'', Some ''closed''}"

definition plan_role :: "resume_plan \<Rightarrow> string option" where
  "plan_role p = (case pl_headless p of None \<Rightarrow> None | Some h \<Rightarrow> string_of (ow_role h))"

definition verifyManagedGate ::
  "(string \<Rightarrow> string) \<Rightarrow> string \<Rightarrow> resume_plan \<Rightarrow> hub_snapshot \<Rightarrow> gate_log \<Rightarrow> resume_error option" where
  "verifyManagedGate canonical hub p st lg =
     (if \<not> same_root canonical hub st then Some Hub_root_mismatch
      else (case find (\<lambda>t. Some (st_task t) = pl_task p) (sn_tasks st) of
        None \<Rightarrow> Some Task_unavailable
      | Some t \<Rightarrow>
          if finished_status (st_status t) \<or> finished_status (gl_status lg) then Some Task_not_waiting
          else if st_attention t \<or> gl_attention lg then Some Task_needs_attention
          else if st_waiting t \<noteq> map_option agent_waiting (plan_role p) then Some Task_not_waiting
          else None))"

definition base_of :: "gate_log \<Rightarrow> nat" where
  "base_of lg = foldl max 0 (gl_versions lg)"

text \<open>The ownership of the run, with the versions of the gate.\<close>

definition ownership_json :: "ownership \<Rightarrow> nat \<Rightarrow> json" where
  "ownership_json h base =
     JObj ([(''schema'', JNum 1)] @ opt_field ''role'' (ow_role h) @ [(''attempt_id'', JStr (ow_attempt h)), (''route'', ow_route h)] @
        opt_field ''route_source'' (ow_route_source h) @
        [(''session_reason'', JStr (ow_reason h)), (''resume_from_run_id'', JStr (ow_from h))] @
        opt_field ''designated_session_id'' (map_option JStr (ow_designated h)) @
        [(''base_version'', JNum (of_nat base)), (''trigger_version'', JNum (of_nat base))])"

datatype round =
    Again resume_error
  | Refused_round resume_error
  | Round_started string nat

text \<open>One attempt under the lock.  \<open>Again\<close> carries the refusal the last attempt ends with; the list holds
  the markers it published.\<close>

definition gate_round :: "resume_world \<Rightarrow> string \<Rightarrow> resume_plan \<Rightarrow> nat \<Rightarrow> resume_error + nat" where
  "gate_round w hub p n =
     (case xw_state w n of
        None \<Rightarrow> Inl Hub_unreachable
      | Some st \<Rightarrow>
          if \<not> same_root (xw_canonical w) hub st then Inl Hub_root_mismatch
          else (case find (\<lambda>t. Some (st_task t) = pl_task p) (sn_tasks st) of
            None \<Rightarrow> Inl Task_unavailable
          | Some t \<Rightarrow>
              (case xw_log w n of
                 None \<Rightarrow> Inl Task_unreadable
               | Some lg \<Rightarrow>
                   (case verifyManagedGate (xw_canonical w) hub p st lg of
                      Some e \<Rightarrow> Inl e
                    | None \<Rightarrow>
                        (case st_version t of
                           Some v \<Rightarrow> if v < int (base_of lg) then Inl (State_inconsistent (base_of lg)) else Inr (base_of lg)
                         | None \<Rightarrow> Inr (base_of lg))))))"

definition admission :: "run_dir list \<Rightarrow> resume_plan \<Rightarrow> resume_error option" where
  "admission store p =
     (let busy = sessionOccupants store (pl_agent p) (pl_session p) in
      if busy \<noteq> [] then Some (Session_busy busy)
      else (case pl_task p of
        None \<Rightarrow> None
      | Some t \<Rightarrow> let busy = taskOccupants store t in if busy \<noteq> [] then Some (Task_busy busy) else None))"

definition start_round :: "resume_world \<Rightarrow> ownership \<Rightarrow> nat \<Rightarrow> nat \<Rightarrow> round" where
  "start_round w h n base =
     (if \<not> validateHeadlessOwnership (ownership_json h base) then Refused_round Invalid_ownership
      else (case xw_start w n of
        Run_started i \<Rightarrow> Round_started i base
      | Start_uncertain \<Rightarrow> Refused_round Spawn_uncertain
      | Start_refused \<Rightarrow> Refused_round Spawn_failed
      | Start_error \<Rightarrow> Refused_round Start_threw))"

definition managed_round :: "resume_world \<Rightarrow> string \<Rightarrow> resume_plan \<Rightarrow> ownership \<Rightarrow> nat \<Rightarrow> nat list \<times> round" where
  "managed_round w hub p h n =
     (case gate_round w hub p n of
        Inl (State_inconsistent b) \<Rightarrow> ([], Again (State_inconsistent b))
      | Inl e \<Rightarrow> ([], Refused_round e)
      | Inr base \<Rightarrow>
          (case admission (xw_store w n) p of
             Some e \<Rightarrow> ([], Refused_round e)
           | None \<Rightarrow>
               (case xw_publish w n base of
                  Version_conflict \<Rightarrow> ([], Again Marker_conflict)
                | Publish_error \<Rightarrow> ([], Refused_round Marker_failed)
                | Marker_published v \<Rightarrow> ([v], start_round w h n base))))"

fun managed_loop :: "resume_world \<Rightarrow> string \<Rightarrow> resume_plan \<Rightarrow> ownership \<Rightarrow> nat list \<Rightarrow> nat list \<times> (resume_error + string \<times> nat)" where
  "managed_loop w hub p h [] = ([], Inl Start_threw)"
| "managed_loop w hub p h (n # ns) =
     (case managed_round w hub p h n of
        (ms, Again e) \<Rightarrow>
          if n < 2 then (case managed_loop w hub p h ns of (ms', r) \<Rightarrow> (ms @ ms', r)) else (ms, Inl e)
      | (ms, Refused_round e) \<Rightarrow> (ms, Inl e)
      | (ms, Round_started i base) \<Rightarrow> (ms, Inr (i, base)))"

definition executeManagedResume :: "resume_world \<Rightarrow> string \<Rightarrow> resume_plan \<Rightarrow> nat list \<times> (resume_error + string \<times> nat)" where
  "executeManagedResume w hub p =
     (case (pl_headless p, pl_task p) of
        (Some h, Some _) \<Rightarrow>
          if \<not> pl_managed p then ([], Inl Wrong_kind)
          else if \<not> xw_lock w then ([], Inl Lock_failed)
          else managed_loop w hub p h [0, 1, 2]
      | _ \<Rightarrow> ([], Inl Wrong_kind))"

definition executeResume :: "resume_world \<Rightarrow> resume_plan \<Rightarrow> resume_error + string" where
  "executeResume w p =
     (if pl_managed p then Inl Wrong_kind
      else if \<not> xw_lock w then Inl Lock_failed
      else (let busy = sessionOccupants (xw_store w 0) (pl_agent p) (pl_session p) in
        if busy \<noteq> [] then Inl (Session_busy busy)
        else (case xw_start w 0 of
          Run_started i \<Rightarrow> Inr i | Start_uncertain \<Rightarrow> Inl Spawn_uncertain | Start_refused \<Rightarrow> Inl Spawn_failed
        | Start_error \<Rightarrow> Inl Start_threw)))"

section \<open>What a start has passed\<close>

lemma gate_round_ok:
  assumes "gate_round w hub p n = Inr base"
  obtains st lg t where "xw_state w n = Some st" and "xw_log w n = Some lg" and "same_root (xw_canonical w) hub st"
    and "t \<in> set (sn_tasks st)" and "Some (st_task t) = pl_task p"
    and "st_waiting t = map_option agent_waiting (plan_role p)"
    and "\<not> finished_status (st_status t)" and "\<not> finished_status (gl_status lg)" and "\<not> st_attention t" and "\<not> gl_attention lg"
    and "base = base_of lg" and "\<And>v. st_version t = Some v \<Longrightarrow> int base \<le> v"
proof -
  obtain st where st: "xw_state w n = Some st" "same_root (xw_canonical w) hub st"
    using assms by (auto simp: gate_round_def split: option.splits if_split_asm)
  obtain t where t: "find (\<lambda>t. Some (st_task t) = pl_task p) (sn_tasks st) = Some t"
    using assms st by (auto simp: gate_round_def split: option.splits)
  obtain lg where lg: "xw_log w n = Some lg" using assms st t by (auto simp: gate_round_def split: option.splits)
  have g: "verifyManagedGate (xw_canonical w) hub p st lg = None"
    using assms st t lg by (auto simp: gate_round_def split: option.splits)
  have v: "base = base_of lg \<and> (\<forall>v. st_version t = Some v \<longrightarrow> int (base_of lg) \<le> v)"
    using assms st t lg g by (auto simp: gate_round_def split: option.splits if_split_asm)
  have "t \<in> set (sn_tasks st)" "Some (st_task t) = pl_task p" using t by (auto simp: find_Some_iff)
  then show thesis
    using that [OF st(1) lg st(2)] g v st(2) t by (auto simp: verifyManagedGate_def split: if_split_asm)
qed

lemma admission_None:
  "admission store p = None \<longleftrightarrow> sessionOccupants store (pl_agent p) (pl_session p) = [] \<and>
    (\<forall>t. pl_task p = Some t \<longrightarrow> taskOccupants store t = [])"
  by (auto simp: admission_def Let_def split: option.splits)

lemma managed_round_started:
  assumes "managed_round w hub p h n = (ms, Round_started i base)"
  shows "gate_round w hub p n = Inr base \<and> admission (xw_store w n) p = None \<and>
    (\<exists>v. xw_publish w n base = Marker_published v \<and> ms = [v]) \<and> xw_start w n = Run_started i"
  using assms
  by (auto simp: managed_round_def start_round_def split: sum.splits option.splits publish_outcome.splits
      start_outcome.splits if_split_asm resume_error.splits)

lemma managed_round_again: "managed_round w hub p h n = (ms, Again e) \<Longrightarrow> ms = []"
  by (auto simp: managed_round_def start_round_def split: sum.splits option.splits publish_outcome.splits
      start_outcome.splits if_split_asm resume_error.splits)

lemma managed_loop_started:
  "managed_loop w hub p h ns = (ms, Inr (i, base)) \<Longrightarrow> \<exists>n\<in>set ns. managed_round w hub p h n = (ms, Round_started i base)"
proof (induction ns arbitrary: ms)
  case (Cons n ns)
  obtain ms1 r where r: "managed_round w hub p h n = (ms1, r)" by (cases "managed_round w hub p h n")
  show ?case
  proof (cases r)
    case (Again e)
    then obtain ms2 where "managed_loop w hub p h ns = (ms2, Inr (i, base))" "ms = ms1 @ ms2"
      using Cons.prems r by (auto split: if_split_asm prod.splits)
    moreover have "ms1 = []" using managed_round_again r Again by blast
    ultimately show ?thesis using Cons.IH by auto
  next
    case (Round_started j b)
    then show ?thesis using Cons.prems r by auto
  qed (use Cons.prems r in auto)
qed simp

lemma managed_started_round:
  assumes "executeManagedResume w hub p = (ms, Inr (i, base))"
  obtains h n where "xw_lock w" and "n \<le> 2" and "managed_round w hub p h n = (ms, Round_started i base)"
proof -
  obtain h where l: "xw_lock w" "managed_loop w hub p h [0, 1, 2] = (ms, Inr (i, base))"
    using assms by (auto simp: executeManagedResume_def simp del: managed_loop.simps split: option.splits if_split_asm)
  obtain n where n: "n \<in> set [0, 1, 2]" "managed_round w hub p h n = (ms, Round_started i base)"
    using managed_loop_started [OF l(2)] by blast
  have "n \<le> 2" using n(1) by auto
  then show thesis using that [OF l(1)] n(2) by blast
qed

lemma managed_started_free:
  assumes "executeManagedResume w hub p = (ms, Inr (i, base))"
  shows "\<exists>n\<le>2. sessionOccupants (xw_store w n) (pl_agent p) (pl_session p) = []"
  by (rule managed_started_round [OF assms]) (auto dest!: managed_round_started simp: admission_None)

text \<open>C13. A managed resume that starts a run passed, in the attempt that started it, every check on answers
  given under the admission lock: the Hub serves the same root, the task waits for the role of the run in a
  state snapshot not older than the log, nothing needs attention, neither the session nor the task is held
  by an unfinished run or reservation, and exactly one marker was published, on the condition that the log
  had not moved since it was read.\<close>

theorem managed_resume_gated:
  assumes "executeManagedResume w hub p = (ms, Inr (i, base))"
  shows "\<exists>n st lg t v. n \<le> 2 \<and> xw_lock w \<and> xw_state w n = Some st \<and> xw_log w n = Some lg \<and>
    same_root (xw_canonical w) hub st \<and> t \<in> set (sn_tasks st) \<and> Some (st_task t) = pl_task p \<and>
    st_waiting t = map_option agent_waiting (plan_role p) \<and>
    \<not> finished_status (st_status t) \<and> \<not> finished_status (gl_status lg) \<and> \<not> st_attention t \<and> \<not> gl_attention lg \<and>
    base = base_of lg \<and> (\<forall>u. st_version t = Some u \<longrightarrow> int base \<le> u) \<and>
    sessionOccupants (xw_store w n) (pl_agent p) (pl_session p) = [] \<and> taskOccupants (xw_store w n) (st_task t) = [] \<and>
    xw_publish w n base = Marker_published v \<and> ms = [v] \<and> xw_start w n = Run_started i"
proof -
  obtain h n where l: "xw_lock w" and n: "n \<le> 2" and r: "managed_round w hub p h n = (ms, Round_started i base)"
    using managed_started_round [OF assms] by metis
  have m: "gate_round w hub p n = Inr base" "admission (xw_store w n) p = None" "xw_start w n = Run_started i"
    using managed_round_started [OF r] by simp_all
  obtain v where v: "xw_publish w n base = Marker_published v" "ms = [v]" using managed_round_started [OF r] by blast
  obtain st lg t where g: "xw_state w n = Some st" "xw_log w n = Some lg" "same_root (xw_canonical w) hub st"
    "t \<in> set (sn_tasks st)" "Some (st_task t) = pl_task p"
    "st_waiting t = map_option agent_waiting (plan_role p)"
    "\<not> finished_status (st_status t)" "\<not> finished_status (gl_status lg)" "\<not> st_attention t" "\<not> gl_attention lg"
    "base = base_of lg" "\<And>v. st_version t = Some v \<Longrightarrow> int base \<le> v"
    using gate_round_ok [OF m(1)] by metis
  show ?thesis
    using g m(2,3) v l n g(5) [symmetric] unfolding admission_None
    by (intro exI [of _ n] exI [of _ st] exI [of _ lg] exI [of _ t] exI [of _ v]) auto
qed

section \<open>A continued session is held\<close>

lemma resumed_argv_carries:
  assumes "resumed_argv m agent prompt sid = Inr argv" and "sid \<noteq> []"
  shows "argv_carries argv sid"
proof (cases "rm_headless m")
  case (Some h)
  then have "nativeArgv (route_of h) prompt (Some sid) [] = Inr argv"
    using assms(1) by (auto simp: resumed_argv_def split: sum.splits)
  then show ?thesis using native_line_carries assms(2) by blast
next
  case None
  then obtain a line where a: "rm_argv m = a # line" using assms(1) by (auto simp: resumed_argv_def split: list.splits)
  show ?thesis
  proof (cases "agent = ''codex''")
    case True
    then obtain exe os where "codexArgv exe os prompt (Some sid) = Inr argv"
      using assms(1) None a by (auto simp: resumed_argv_def split: sum.splits)
    then obtain c where "argv = codex_line exe c prompt (Some sid)" by (auto simp: codexArgv_def split: sum.splits)
    then show ?thesis using codex_line_carries [OF assms(2)] by simp
  next
    case False
    then obtain hd' where "argv = hd' @ [''--session-id'', sid, ''--'', prompt]"
      using assms(1) None a by (auto simp: resumed_argv_def split: sum.splits)
    then show ?thesis using carries_session_id by metis
  qed
qed

lemma session_handle_nonempty:
  assumes "session_handle w m agent = Inr (sid, src)"
  shows "sid \<noteq> []"
proof -
  have t: "truthy x = Some s \<Longrightarrow> s \<noteq> []" for x s by (auto simp: truthy_def split: if_split_asm)
  have u: "parsePlainPiArgv a line = Inr p \<Longrightarrow> pp_session p \<noteq> []" for a line p
  proof -
    assume p: "parsePlainPiArgv a line = Inr p"
    then obtain k where k: "plain_pi_scan line 1 None = Inr (Some k)" and s: "pp_session p = (a # line) ! (k + 1)"
      by (auto simp: parsePlainPiArgv_def split: sum.splits option.splits list.splits if_split_asm)
    obtain pre v post where "line = pre @ ''--session-id'' # v # post" "k = 1 + length pre" "exact_uuid v"
      using plain_pi_scan_found [OF k] by blast
    then show "pp_session p \<noteq> []" by (auto simp: s nth_append exact_uuid_def)
  qed
  show ?thesis
    using assms t u
    by (auto simp: session_handle_def pi_identity_def bind_eq_Some_conv split: if_split_asm option.splits sum.splits list.splits)
qed

lemma planResume_carries:
  assumes "planResume w i instruction = Inr p"
  shows "pl_session p \<noteq> []" and "argv_carries (pl_argv p) (pl_session p)" and "\<exists>m. pw_read w i = Some m \<and> complete m"
proof -
  obtain m where m: "pw_read w i = Some m" "complete m"
    using assms by (auto simp: planResume_def split: option.splits if_split_asm)
  obtain agent sid src prompt argv where h: "session_handle w m agent = Inr (sid, src)"
    "resumed_argv m agent prompt sid = Inr argv" "pl_session p = sid" "pl_argv p = argv"
    using assms m by (auto simp: planResume_def Let_def split: sum.splits)
  show "pl_session p \<noteq> []" "argv_carries (pl_argv p) (pl_session p)" "\<exists>m. pw_read w i = Some m \<and> complete m"
    using session_handle_nonempty [OF h(1)] resumed_argv_carries [OF h(2)] m by (simp_all add: h(3,4))
qed

lemma occupied:
  assumes "d \<in> set store" and "session_occupant agent sid d = Some x"
  shows "sessionOccupants store agent sid \<noteq> []"
proof -
  have "x \<in> set (sessionOccupants store agent sid)"
    using assms by (force simp: sessionOccupants_def map_filter_def)
  then show ?thesis by auto
qed

text \<open>C14. While a run started by a resume is unfinished, no resume of the same session starts another: the
  command line alone, without any session report of the agent, makes the run an occupant of its session for
  the plain and the managed path.\<close>

theorem resume_excludes_itself:
  assumes "planResume pw i instruction = Inr p" and "pl_session p' = pl_session p"
    and "rm_argv m = pl_argv p" and "\<not> complete m"
    and "\<And>n. n \<le> 2 \<Longrightarrow> \<exists>d\<in>set (xw_store w n). rd_meta d = Some m"
  shows "(\<forall>r. executeResume w p' \<noteq> Inr r) \<and> (\<forall>ms r. executeManagedResume w hub p' \<noteq> (ms, Inr r))"
proof -
  have busy: "sessionOccupants (xw_store w n) (pl_agent p') (pl_session p') \<noteq> []" if n: "n \<le> 2" for n
  proof -
    obtain d where d: "d \<in> set (xw_store w n)" "rd_meta d = Some m" using assms(5) [OF n] by blast
    have "metaCarriesSession m (pl_agent p') (pl_session p')"
      using planResume_carries(2) [OF assms(1)] assms(2,3) by (simp add: metaCarriesSession_def)
    then have "session_occupant (pl_agent p') (pl_session p') d = Some (incomplete_occupant d m)"
      using d(2) assms(4) by (simp add: session_occupant_def)
    then show ?thesis using occupied d(1) by blast
  qed
  have "executeResume w p' \<noteq> Inr r" for r using busy [of 0] by (simp add: executeResume_def Let_def)
  moreover have "executeManagedResume w hub p' \<noteq> (ms, Inr r)" for ms r
    using managed_started_free [of w hub p' ms "fst r" "snd r"] busy by auto
  ultimately show ?thesis by blast
qed

section \<open>Concrete resumes\<close>

definition finished_codex_run :: run_meta where
  "finished_codex_run = \<lparr>rm_run_id = ''r0'', rm_task_id = Some ''t'', rm_pid = 10, rm_pgid = 10,
     rm_argv = [''codex'', ''-m'', ''x'', ''go''], rm_started_at = ''now'', rm_status = Exited, rm_supervisor = 11, rm_cwd = ''/w'',
     rm_checkout = None, rm_headless = None, rm_root_exited_at = Some ''now'', rm_session = Some ''s1'', rm_exit_code = Some 0,
     rm_exit_signal = None, rm_ended_at = Some ''now'', rm_stopped_by = None, rm_stopped_at = None, rm_probe = None, rm_ack = None,
     rm_protocol = None, rm_stop = None, rm_windows = None, rm_resume = None\<rparr>"

definition sample_plan_world :: plan_world where
  "sample_plan_world = \<lparr>pw_read = (\<lambda>i. if i = ''r0'' then Some finished_codex_run else None), pw_verify = (\<lambda>_ _. Inl Session_missing),
     pw_prompt = (\<lambda>_. ''continue''), pw_now = ''now'', pw_by = ''me'', pw_attempt = ''u''\<rparr>"

lemma sample_plan:
  "\<exists>p. planResume sample_plan_world ''r0'' None = Inr p \<and> pl_session p = ''s1'' \<and>
    pl_argv p = [''codex'', ''-m'', ''x'', ''exec'', ''resume'', ''--json'', ''s1'', ''continue'']"
proof -
  have c: "complete finished_codex_run" by (simp add: complete_def finished_codex_run_def)
  have p: "parsePlainCodexArgv ''codex'' [''-m'', ''x'', ''go''] = Inr (''codex'', [''-m'', ''x''])"
    "codexArgv ''codex'' [''-m'', ''x''] ''continue'' (Some ''s1'') =
      Inr [''codex'', ''-m'', ''x'', ''exec'', ''resume'', ''--json'', ''s1'', ''continue'']"
    by (simp_all add: parsePlainCodexArgv_def plain_codex_values_def plain_codex_flags_def
        codexArgv_def codex_line_def no_words_def truthy_def push_words_def
        codex_option_def option_word_def attached_def short_attached_def starts_with_def ends_with_def scope_of_def option_words_def
        globalValues_def globalFlags_def execValues_def execFlags_def parentValues_def valueOptions_def)
  have s: "session_handle sample_plan_world finished_codex_run ''codex'' = Inr (''s1'', ''observed'')"
    by (simp add: session_handle_def finished_codex_run_def truthy_def)
  have r: "resumed_argv finished_codex_run ''codex'' ''continue'' ''s1'' =
      Inr [''codex'', ''-m'', ''x'', ''exec'', ''resume'', ''--json'', ''s1'', ''continue'']"
    by (simp add: resumed_argv_def finished_codex_run_def p)
  have b: "basename ''codex'' = ''codex''" by (simp add: basename_def)
  have a: "rm_argv finished_codex_run = ''codex'' # [''-m'', ''x'', ''go'']" by (simp add: finished_codex_run_def)
  have w: "pw_read sample_plan_world ''r0'' = Some finished_codex_run" "pw_prompt sample_plan_world finished_codex_run = ''continue''"
    by (simp_all add: sample_plan_world_def)
  show ?thesis by (simp add: planResume_def Let_def w c a b s r)
qed

definition quiet_world :: "run_dir list \<Rightarrow> resume_world" where
  "quiet_world store = \<lparr>xw_canonical = id, xw_lock = True,
     xw_state = (\<lambda>n. Some \<lparr>sn_root = Some ''/hub'', sn_tasks = [\<lparr>st_task = ''t'', st_status = Some ''implementing'',
       st_waiting = Some (agent_waiting ''executor''), st_attention = False, st_version = Some (if n = 0 then 3 else 4)\<rparr>]\<rparr>),
     xw_log = (\<lambda>_. Some \<lparr>gl_status = Some ''implementing'', gl_attention = False, gl_versions = [1, 2, 4]\<rparr>),
     xw_store = (\<lambda>_. store), xw_publish = (\<lambda>_ v. Marker_published (v + 1)), xw_start = (\<lambda>_. Run_started ''r9'')\<rparr>"

definition running_codex_run :: run_meta where
  "running_codex_run = finished_codex_run\<lparr>rm_status := Running, rm_ended_at := None, rm_session := None,
     rm_argv := [''codex'', ''-m'', ''x'', ''exec'', ''resume'', ''--json'', ''s1'', ''continue'']\<rparr>"

theorem resume_excludes_itself_witness:
  "\<exists>p. planResume sample_plan_world ''r0'' None = Inr p \<and>
    (\<forall>r. executeResume (quiet_world [\<lparr>rd_id = ''r1'', rd_meta = Some running_codex_run, rd_resume = None, rd_start = None\<rparr>]) p \<noteq> Inr r)"
proof -
  obtain p where p: "planResume sample_plan_world ''r0'' None = Inr p" "pl_session p = ''s1''"
    "pl_argv p = [''codex'', ''-m'', ''x'', ''exec'', ''resume'', ''--json'', ''s1'', ''continue'']"
    using sample_plan by blast
  have "rm_argv running_codex_run = pl_argv p" "\<not> complete running_codex_run"
    by (simp_all add: running_codex_run_def p(3) complete_def)
  then show ?thesis
    using resume_excludes_itself [OF p(1) HOL.refl, of running_codex_run
        "quiet_world [\<lparr>rd_id = ''r1'', rd_meta = Some running_codex_run, rd_resume = None, rd_start = None\<rparr>]"] p(1)
    by (auto simp: quiet_world_def)
qed

definition sample_ownership :: ownership where
  "sample_ownership = \<lparr>ow_role = Some (JStr ''executor''), ow_attempt = ''00000000-0000-0000-0000-000000000000'',
     ow_route = JObj [(''agent'', JStr ''codex''), (''args'', JArr [])], ow_route_source = Some (JStr ''config''),
     ow_reason = ''resume'', ow_from = ''r0'', ow_designated = None\<rparr>"

lemma sample_ownership_valid: "validateHeadlessOwnership (ownership_json sample_ownership 4)"
proof -
  have n: "is_integer (4::rat)" "\<lfloor>4::rat\<rfloor> = 4" by (simp_all add: is_integer_def)
  have u: "uuid_text ''00000000-0000-0000-0000-000000000000''" by (simp add: uuid_text_def is_hex_def)
  show ?thesis
    by (simp add: validateHeadlessOwnership_def ownership_json_def sample_ownership_def opt_field_def jget_def one_of_def
        safe_int_def n MAX_SAFE_INTEGER_def truthy_string_def string_items_def is_string_def absent_or_def u)
qed

definition sample_managed_plan :: resume_plan where
  "sample_managed_plan = \<lparr>pl_from = finished_codex_run, pl_from_id = ''r0'', pl_cwd = ''/w'', pl_argv = [''codex''], pl_prompt = ''go'',
     pl_agent = ''codex'', pl_session = ''s1'', pl_identity = ''observed'', pl_task = Some ''t'', pl_managed = True,
     pl_headless = Some sample_ownership, pl_resume = JNull\<rparr>"

lemma sample_managed_run: "executeManagedResume (quiet_world []) ''/hub'' sample_managed_plan = ([5], Inr (''r9'', 4))"
proof -
  let ?w = "quiet_world []"
  have role: "plan_role sample_managed_plan = Some ''executor''" by (simp add: plan_role_def sample_managed_plan_def sample_ownership_def)
  have root: "same_root id ''/hub'' \<lparr>sn_root = Some ''/hub'', sn_tasks = ts\<rparr>" for ts
    by (simp add: same_root_def absolute_path_def starts_with_def)
  have fs: "\<not> finished_status (Some ''implementing'')" by (simp add: finished_status_def)
  have b: "base_of \<lparr>gl_status = s, gl_attention = a, gl_versions = [1, 2, 4]\<rparr> = 4" for s a by (simp add: base_of_def)
  have t: "pl_task sample_managed_plan = Some ''t''" by (simp add: sample_managed_plan_def)
  have g: "gate_round ?w ''/hub'' sample_managed_plan n = (if n = 0 then Inl (State_inconsistent 4) else Inr 4)" for n
    by (simp add: gate_round_def quiet_world_def root verifyManagedGate_def t role fs b del: One_nat_def)
  have ad: "admission [] sample_managed_plan = None"
    by (simp add: admission_def sessionOccupants_def taskOccupants_def map_filter_def split: option.split)
  have pub: "xw_publish ?w n 4 = Marker_published 5" and st: "xw_start ?w n = Run_started ''r9''" and sto: "xw_store ?w n = []" for n
    by (simp_all add: quiet_world_def)
  have r0: "managed_round ?w ''/hub'' sample_managed_plan sample_ownership 0 = ([], Again (State_inconsistent 4))"
    by (simp add: managed_round_def g)
  have r1: "managed_round ?w ''/hub'' sample_managed_plan sample_ownership 1 = ([5], Round_started ''r9'' 4)"
    by (simp add: managed_round_def g sto ad pub start_round_def sample_ownership_valid st)
  have h: "pl_headless sample_managed_plan = Some sample_ownership" "pl_managed sample_managed_plan" "xw_lock ?w"
    by (simp_all add: sample_managed_plan_def quiet_world_def)
  show ?thesis by (simp add: executeManagedResume_def h t r0 r1 del: One_nat_def)
qed

theorem managed_resume_gated_witness: "\<exists>n\<le>2. sessionOccupants (xw_store (quiet_world []) n) ''codex'' ''s1'' = []"
  using managed_resume_gated [OF sample_managed_run] by (auto simp: sample_managed_plan_def)

end
