(* ===== verification/Shell_Renderer.thy ===== *)
theory Shell_Renderer
  imports Task_Spec
begin

text \<open>
  The command line a pane's shell is given: \<open>src/herdr/launcher/shell-renderer.ts\<close> and
  \<open>src/core/common/shell-quote.ts\<close>.  A raw request (directory, executable, arguments, environment) becomes
  one line in one of four dialects.

  Text is a list of code points, because PowerShell gives meaning to characters beyond ASCII.  The encoded
  payload of the pane runner, \<open>base64url\<close> of its JSON, is the argument \<open>encode\<close>, and \<open>path.win32.isAbsolute\<close>
  the argument \<open>win_absolute\<close>.

  The second half transcribes what the documented languages make of such a line: quoting, tokens, reserved
  words and simple commands of POSIX (XCU 2.2, 2.3, 2.4, 2.9.1) for the characters that occur and the operands
  of its \<open>cd\<close> and \<open>env\<close>; PowerShell's single-quoted strings; the argument rule of the Microsoft C runtime.
  A line that leaves the transcribed part has no reading at all, so a theorem about a reading says that the
  line stays inside.  Aliases, functions and the search for the command's name, the directories of \<open>CDPATH\<close>
  and the terminal that carries the line are outside.  The theorems compare the reading with the raw request.
\<close>

definition lit :: "string \<Rightarrow> utext" where
  "lit s = map of_char s"

datatype shell_dialect = Posix | Powershell5 | Pwsh | Cmd

datatype pane_purpose = Agent_pane | Service_pane

record pane_command =
  pc_cwd :: utext
  pc_executable :: utext
  pc_args :: "utext list"
  pc_env :: "(utext \<times> utext) list"
  pc_dialect :: shell_dialect
  pc_purpose :: pane_purpose

datatype pane_error =
    Not_raw
  | Empty_cwd
  | Empty_executable
  | Bad_env_name utext
  | Cmd_unquotable utext
  | Cmd_runtime_path utext
  | Unknown_dialect string

section \<open>Quoting\<close>

definition raw_string :: "utext \<Rightarrow> bool" where
  "raw_string v \<longleftrightarrow> 0 \<notin> set v \<and> 13 \<notin> set v \<and> 10 \<notin> set v"

definition quote_body :: "utext \<Rightarrow> utext \<Rightarrow> utext" where
  "quote_body esc v = concat (map (\<lambda>c. if c = 39 then esc else [c]) v)"

definition psq :: "utext \<Rightarrow> utext" where
  "psq v = 39 # quote_body [39, 39] v @ [39]"

definition sq :: "utext \<Rightarrow> utext" where
  "sq v = 39 # quote_body [39, 92, 39, 39] v @ [39]"

text \<open>\<open>/[%!^&|<>;"\u0000\r\n]/u\<close>\<close>

definition cmdUnsafe :: "utext \<Rightarrow> bool" where
  "cmdUnsafe v \<longleftrightarrow> list_ex (\<lambda>c. c \<in> {37, 33, 94, 38, 124, 60, 62, 59, 34, 0, 13, 10}) v"

definition trailing_backslashes :: "utext \<Rightarrow> nat" where
  "trailing_backslashes v = length (takeWhile (\<lambda>c. c = 92) (rev v))"

definition cmdq :: "utext \<Rightarrow> utext" where
  "cmdq v = 34 # take (length v - trailing_backslashes v) v @ replicate (2 * trailing_backslashes v) 92 @ [34]"

section \<open>The request\<close>

definition ascii_letter :: "nat \<Rightarrow> bool" where
  "ascii_letter c \<longleftrightarrow> (65 \<le> c \<and> c \<le> 90) \<or> (97 \<le> c \<and> c \<le> 122)"

definition ascii_digit :: "nat \<Rightarrow> bool" where
  "ascii_digit c \<longleftrightarrow> 48 \<le> c \<and> c \<le> 57"

text \<open>\<open>/^[A-Za-z_][A-Za-z0-9_]*$/u\<close>\<close>

definition env_name :: "utext \<Rightarrow> bool" where
  "env_name n \<longleftrightarrow>
     (case n of [] \<Rightarrow> False
      | c # r \<Rightarrow> (ascii_letter c \<or> c = 95) \<and> list_all (\<lambda>c. ascii_letter c \<or> ascii_digit c \<or> c = 95) r)"

fun env_error :: "(utext \<times> utext) list \<Rightarrow> pane_error option" where
  "env_error [] = None"
| "env_error ((n, v) # es) =
     (if \<not> env_name n then Some (Bad_env_name n) else if \<not> raw_string v then Some Not_raw else env_error es)"

definition validatePaneCommand :: "pane_command \<Rightarrow> pane_error option" where
  "validatePaneCommand c =
     (if \<not> raw_string (pc_cwd c) then Some Not_raw
      else if pc_cwd c = [] then Some Empty_cwd
      else if \<not> raw_string (pc_executable c) then Some Not_raw
      else if pc_executable c = [] then Some Empty_executable
      else if \<not> list_all raw_string (pc_args c) then Some Not_raw
      else env_error (pc_env c))"

text \<open>\<open>windows\<close> says that the platform is \<open>win32\<close>.\<close>

definition resolvePaneShellDialect :: "string option \<Rightarrow> bool \<Rightarrow> pane_error + shell_dialect" where
  "resolvePaneShellDialect configured windows =
     (case configured of
        Some (c # cs) \<Rightarrow>
          (if c # cs = ''posix'' then Inr Posix else if c # cs = ''powershell5'' then Inr Powershell5
           else if c # cs = ''pwsh'' then Inr Pwsh else if c # cs = ''cmd'' then Inr Cmd
           else Inl (Unknown_dialect (c # cs)))
      | _ \<Rightarrow> Inr (if windows then Powershell5 else Posix))"

section \<open>The renderers\<close>

fun join_words :: "utext list \<Rightarrow> utext" where
  "join_words [] = []"
| "join_words [w] = w"
| "join_words (w # toks) = w @ 32 # join_words toks"

text \<open>\<open>/^[A-Za-z0-9_@%+=:,./-]+$/u\<close>\<close>

definition unquoted_char :: "nat \<Rightarrow> bool" where
  "unquoted_char c \<longleftrightarrow> ascii_letter c \<or> ascii_digit c \<or> c \<in> set (lit ''_@%+=:,./-'')"

definition posixServiceWord :: "utext \<Rightarrow> utext" where
  "posixServiceWord v = (if v \<noteq> [] \<and> list_all unquoted_char v then v else sq v)"

definition renderPosix :: "pane_command \<Rightarrow> utext" where
  "renderPosix c =
     (case pc_purpose c of
        Service_pane \<Rightarrow>
          lit ''cd '' @ posixServiceWord (pc_cwd c) @ lit '' && '' @
          join_words (map (\<lambda>(n, v). n @ 61 # posixServiceWord v) (pc_env c) @
            [posixServiceWord (pc_executable c)] @ map posixServiceWord (pc_args c))
      | Agent_pane \<Rightarrow>
          lit ''cd -- '' @ sq (pc_cwd c) @ lit '' && '' @
          join_words ((if pc_env c = [] then [] else lit ''env'' # map (\<lambda>(n, v). sq (n @ 61 # v)) (pc_env c)) @
            [sq (pc_executable c)] @ map sq (pc_args c)))"

record pane_runtime =
  prt_node :: utext
  prt_entry :: utext

definition renderPowerShell :: "(pane_command \<Rightarrow> utext) \<Rightarrow> pane_runtime \<Rightarrow> pane_command \<Rightarrow> pane_error + utext" where
  "renderPowerShell encode rt c =
     (if pc_env c = [] then Inr (
        lit ''& { $savedPath = (Get-Location).Path; $exitCode = 1; try { Set-Location -LiteralPath '' @ psq (pc_cwd c) @
        lit '' -ErrorAction Stop; '' @ join_words ((lit ''& '' @ psq (pc_executable c)) # map psq (pc_args c)) @
        lit ''; $exitCode = $LASTEXITCODE } finally { Set-Location -LiteralPath $savedPath }; $global:LASTEXITCODE = $exitCode }'')
      else if \<not> raw_string (prt_node rt) \<or> \<not> raw_string (prt_entry rt) then Inl Not_raw
      else Inr (
        lit ''& '' @ psq (prt_node rt) @ [32] @ psq (prt_entry rt) @ lit '' --payload '' @ psq (encode c) @
        lit ''; $global:LASTEXITCODE = $LASTEXITCODE''))"

definition cmdRuntimePath :: "(utext \<Rightarrow> bool) \<Rightarrow> utext \<Rightarrow> pane_error + utext" where
  "cmdRuntimePath win_absolute v =
     (if v = [] \<or> \<not> win_absolute v \<or> cmdUnsafe v then Inl (Cmd_runtime_path v) else Inr v)"

definition renderCmd :: "(pane_command \<Rightarrow> utext) \<Rightarrow> (utext \<Rightarrow> bool) \<Rightarrow> pane_runtime \<Rightarrow> pane_command \<Rightarrow> pane_error + utext" where
  "renderCmd encode win_absolute rt c =
     (if pc_env c = [] \<and> list_all (\<lambda>v. \<not> cmdUnsafe v) (pc_cwd c # pc_executable c # pc_args c)
      then Inr (lit ''cd /d '' @ cmdq (pc_cwd c) @ lit '' && '' @ join_words (cmdq (pc_executable c) # map cmdq (pc_args c)))
      else (case cmdRuntimePath win_absolute (prt_node rt) of
        Inl e \<Rightarrow> Inl e
      | Inr node \<Rightarrow>
          (case cmdRuntimePath win_absolute (prt_entry rt) of
             Inl e \<Rightarrow> Inl e
           | Inr ent \<Rightarrow>
               if cmdUnsafe (encode c) then Inl (Cmd_unquotable (encode c))
               else Inr (cmdq node @ [32] @ cmdq ent @ lit '' --payload '' @ cmdq (encode c)))))"

definition renderPaneCommand ::
  "(pane_command \<Rightarrow> utext) \<Rightarrow> (utext \<Rightarrow> bool) \<Rightarrow> pane_runtime \<Rightarrow> pane_command \<Rightarrow> pane_error + shell_dialect \<times> utext" where
  "renderPaneCommand encode win_absolute rt c =
     (case validatePaneCommand c of
        Some e \<Rightarrow> Inl e
      | None \<Rightarrow>
          (case pc_dialect c of
             Posix \<Rightarrow> Inr (Posix, renderPosix c)
           | Powershell5 \<Rightarrow> map_sum id (\<lambda>t. (Powershell5, t)) (renderPowerShell encode rt c)
           | Pwsh \<Rightarrow> map_sum id (\<lambda>t. (Pwsh, t)) (renderPowerShell encode rt c)
           | Cmd \<Rightarrow> map_sum id (\<lambda>t. (Cmd, t)) (renderCmd encode win_absolute rt c)))"

section \<open>What a POSIX shell reads\<close>

text \<open>
  A word is its characters with a mark on the quoted ones; the scanner knows blanks, single quotes, the
  backslash, \<open>&&\<close> and the characters without a meaning of their own, and refuses everything else.
\<close>

type_synonym sh_word = "(nat \<times> bool) list"

datatype sh_token = Word sh_word | And_if

definition flush :: "sh_word option \<Rightarrow> sh_token list \<Rightarrow> sh_token list" where
  "flush cur ts = (case cur of None \<Rightarrow> ts | Some w \<Rightarrow> Word w # ts)"

definition add_char :: "sh_word option \<Rightarrow> nat \<times> bool \<Rightarrow> sh_word option" where
  "add_char cur x = (case cur of None \<Rightarrow> Some [x] | Some w \<Rightarrow> Some (w @ [x]))"

definition open_word :: "sh_word option \<Rightarrow> sh_word option" where
  "open_word cur = (case cur of None \<Rightarrow> Some [] | Some w \<Rightarrow> Some w)"

fun sh_scan :: "bool \<Rightarrow> sh_word option \<Rightarrow> utext \<Rightarrow> sh_token list option" where
  "sh_scan quoted cur [] = (if quoted then None else Some (flush cur []))"
| "sh_scan quoted cur (c # cs) =
     (if quoted then
        (if c = 39 then sh_scan False cur cs else sh_scan True (add_char cur (c, True)) cs)
      else if c = 32 then map_option (flush cur) (sh_scan False None cs)
      else if c = 39 then sh_scan True (open_word cur) cs
      else if c = 92 then (case cs of [] \<Rightarrow> None | d # ds \<Rightarrow> if d = 10 then None else sh_scan False (add_char cur (d, True)) ds)
      else if c = 38 then
        (case cs of
           d # ds \<Rightarrow> if d = 38 then map_option (\<lambda>ts. flush cur (And_if # ts)) (sh_scan False None ds) else None
         | [] \<Rightarrow> None)
      else if unquoted_char c then sh_scan False (add_char cur (c, False)) cs
      else None)"

text \<open>Assignments are the leading words with an unquoted name before the first \<open>=\<close>.\<close>

definition assignment :: "sh_word \<Rightarrow> (utext \<times> utext) option" where
  "assignment w =
     (let n = takeWhile (\<lambda>x. x \<noteq> (61, False)) w; r = dropWhile (\<lambda>x. x \<noteq> (61, False)) w in
      if r \<noteq> [] \<and> list_all (\<lambda>x. \<not> snd x) n \<and> env_name (map fst n) then Some (map fst n, map fst (tl r)) else None)"

fun simple_command :: "sh_token list \<Rightarrow> ((utext \<times> utext) list \<times> utext list) option" where
  "simple_command [] = Some ([], [])"
| "simple_command (And_if # ts) = None"
| "simple_command (Word w # ts) =
     (case assignment w of
        Some nv \<Rightarrow> map_option (\<lambda>(es, as). (nv # es, as)) (simple_command ts)
      | None \<Rightarrow> if list_all (\<lambda>t. t \<noteq> And_if) ts
                then Some ([], map fst w # map (\<lambda>t. case t of Word v \<Rightarrow> map fst v | And_if \<Rightarrow> []) ts) else None)"

text \<open>A word without a quoted character is reserved where a command may start (XCU 2.4, with the words that
  shells add to the list); after an assignment it is an ordinary word.  The reserved words that need other
  characters cannot occur unquoted.\<close>

definition RESERVED_WORDS :: "utext list" where
  "RESERVED_WORDS = map lit
     [''case'', ''coproc'', ''do'', ''done'', ''elif'', ''else'', ''esac'', ''fi'', ''for'', ''function'', ''if'', ''in'', ''namespace'',
      ''select'', ''then'', ''time'', ''until'', ''while'']"

definition reserved :: "sh_word \<Rightarrow> bool" where
  "reserved w \<longleftrightarrow> list_all (\<lambda>x. \<not> snd x) w \<and> map fst w \<in> set RESERVED_WORDS"

definition sh_command :: "sh_token list \<Rightarrow> ((utext \<times> utext) list \<times> utext list) option" where
  "sh_command ts =
     (case ts of
        Word w # _ \<Rightarrow> if reserved w then None else simple_command ts
      | _ \<Rightarrow> None)"

text \<open>The utility \<open>env\<close> takes its leading operands that contain \<open>=\<close> as assignments.\<close>

fun env_utility :: "utext list \<Rightarrow> (utext \<times> utext) list \<times> utext list" where
  "env_utility [] = ([], [])"
| "env_utility (w # ws') =
     (if 61 \<in> set w then
        (case env_utility ws' of (es, as) \<Rightarrow> ((takeWhile (\<lambda>c. c \<noteq> 61) w, tl (dropWhile (\<lambda>c. c \<noteq> 61) w)) # es, as))
      else ([], w # ws'))"

text \<open>Where \<open>cd\<close> goes: the operand \<open>-\<close> stands for the previous directory also after \<open>--\<close>; an operand that begins
  with neither a slash nor a dot component is looked up in the directories of \<open>CDPATH\<close> first.\<close>

datatype cd_target = Directory utext | Searched utext | Previous_directory

definition cd_target :: "utext \<Rightarrow> cd_target" where
  "cd_target d =
     (if d = [45] then Previous_directory
      else if takeWhile (\<lambda>c. c \<noteq> 47) d \<in> {[], [46], [46, 46]} then Directory d
      else Searched d)"

record launched =
  la_cd :: cd_target
  la_env :: "(utext \<times> utext) list"
  la_argv :: "utext list"

text \<open>\<open>cd\<close> takes an operand after \<open>--\<close>, or one that does not look like an option.\<close>

definition cd_operand :: "sh_token list \<Rightarrow> cd_target option" where
  "cd_operand ts =
     (case ts of
        [Word c, Word d] \<Rightarrow>
          if map fst c = lit ''cd'' \<and> d \<noteq> [] \<and> (fst (hd d) \<noteq> 45 \<or> map fst d = [45]) then Some (cd_target (map fst d)) else None
      | [Word c, Word o', Word d] \<Rightarrow>
          if map fst c = lit ''cd'' \<and> map fst o' = lit ''--'' \<and> d \<noteq> [] then Some (cd_target (map fst d)) else None
      | _ \<Rightarrow> None)"

text \<open>The simple command that \<open>cd ... && command\<close> runs when the change of directory succeeds.\<close>

definition sh_run :: "utext \<Rightarrow> launched option" where
  "sh_run line =
     (case sh_scan False None line of
        None \<Rightarrow> None
      | Some ts \<Rightarrow>
          (case (cd_operand (takeWhile (\<lambda>t. t \<noteq> And_if) ts), sh_command (tl (dropWhile (\<lambda>t. t \<noteq> And_if) ts))) of
             (Some d, Some (es, as)) \<Rightarrow> Some \<lparr>la_cd = d, la_env = es, la_argv = as\<rparr>
           | _ \<Rightarrow> None))"

lemma unquoted_plain: "unquoted_char c \<Longrightarrow> c \<noteq> 32 \<and> c \<noteq> 39 \<and> c \<noteq> 92 \<and> c \<noteq> 38"
  by (auto simp: unquoted_char_def ascii_letter_def ascii_digit_def lit_def)

definition mark :: "bool \<Rightarrow> utext \<Rightarrow> sh_word" where
  "mark q v = map (\<lambda>c. (c, q)) v"

lemma mark_simps [simp]: "map fst (mark q v) = v" "mark q [] = []" "mark q (c # v) = (c, q) # mark q v"
  "mark q (v @ w) = mark q v @ mark q w" "mark q v = [] \<longleftrightarrow> v = []"
  by (simp_all add: mark_def comp_def)

lemma scan_quoted: "sh_scan True (Some w) (quote_body [39, 92, 39, 39] v @ 39 # rest) = sh_scan False (Some (w @ mark True v)) rest"
  by (induction v arbitrary: w) (auto simp: quote_body_def add_char_def open_word_def)

lemma scan_sq: "sh_scan False cur (sq v @ rest) = sh_scan False (Some ((case cur of None \<Rightarrow> [] | Some w \<Rightarrow> w) @ mark True v)) rest"
  by (cases cur) (simp_all add: sq_def open_word_def scan_quoted)

lemma scan_plain_some:
  "list_all unquoted_char v \<Longrightarrow> sh_scan False (Some w) (v @ rest) = sh_scan False (Some (w @ mark False v)) rest"
  by (induction v arbitrary: w) (auto simp: add_char_def dest!: unquoted_plain)

lemma scan_plain:
  assumes "list_all unquoted_char v" and "v \<noteq> []"
  shows "sh_scan False None (v @ rest) = sh_scan False (Some (mark False v)) rest"
  using assms scan_plain_some [of "tl v" "[(hd v, False)]" rest] unquoted_plain [of "hd v"]
  by (cases v) (auto simp: add_char_def)

definition scans :: "utext \<Rightarrow> sh_word \<Rightarrow> bool" where
  "scans t w \<longleftrightarrow> (\<forall>rest. sh_scan False None (t @ rest) = sh_scan False (Some w) rest)"

definition service_quoted :: "utext \<Rightarrow> bool" where
  "service_quoted v \<longleftrightarrow> \<not> (v \<noteq> [] \<and> list_all unquoted_char v)"

lemma scans_sq: "scans (sq v) (mark True v)"
  by (simp add: scans_def scan_sq)

lemma scans_service: "scans (posixServiceWord v) (mark (service_quoted v) v)"
  using scans_sq [of v] by (auto simp: scans_def posixServiceWord_def service_quoted_def scan_plain)

lemma env_name_unquoted: "env_name n \<Longrightarrow> list_all unquoted_char n \<and> n \<noteq> [] \<and> 61 \<notin> set n"
  by (auto simp: env_name_def unquoted_char_def ascii_letter_def ascii_digit_def lit_def list_all_iff split: list.splits)

lemma scans_assignment:
  assumes "env_name n"
  shows "scans (n @ 61 # posixServiceWord v) (mark False (n @ [61]) @ mark (service_quoted v) v)"
proof -
  have u: "list_all unquoted_char (n @ [61])" "n @ [61] \<noteq> []"
    using env_name_unquoted [OF assms] by (auto simp: unquoted_char_def lit_def)
  have p: "sh_scan False None ((n @ [61]) @ t) = sh_scan False (Some (mark False (n @ [61]))) t" for t
    by (rule scan_plain [OF u])
  show ?thesis
  proof (cases "service_quoted v")
    case True
    then have "posixServiceWord v = sq v" by (simp only: posixServiceWord_def service_quoted_def if_not_P not_not simp_thms)
    then show ?thesis using p True by (simp add: scans_def scan_sq del: mark_simps)
  next
    case False
    then have "posixServiceWord v = v" "list_all unquoted_char v" by (auto simp: posixServiceWord_def service_quoted_def)
    then show ?thesis using p False by (simp add: scans_def scan_plain_some del: mark_simps)
  qed
qed

lemma scan_join:
  "\<lbrakk>list_all2 scans ts vs; ts \<noteq> []\<rbrakk> \<Longrightarrow> sh_scan False None (join_words ts) = Some (map Word vs)"
proof (induction ts arbitrary: vs rule: join_words.induct)
  case (2 t)
  then obtain v where "vs = [v]" "scans t v" by (auto simp: list_all2_Cons1)
  then show ?case using scans_def [of t v] by (auto simp: flush_def dest: spec [of _ "[]"])
next
  case (3 t u ts)
  then obtain v vs' where v: "vs = v # vs'" "scans t v" "list_all2 scans (u # ts) vs'" by (auto simp: list_all2_Cons1)
  then have "sh_scan False None (join_words (u # ts)) = Some (map Word vs')" using 3(1) by simp
  then show ?case using v(1,2) by (simp add: scans_def flush_def)
qed simp

lemma list_all2_maps: "list_all2 R (map f xs) (map g xs) \<longleftrightarrow> (\<forall>x\<in>set xs. R (f x) (g x))"
  by (simp add: list_all2_conv_all_nth all_set_conv_all_nth)

lemma assignment_word:
  assumes "env_name n"
  shows "assignment (mark False (n @ [61]) @ mark q v) = Some (n, v)"
proof -
  have n: "61 \<notin> set n" using env_name_unquoted [OF assms] by blast
  then have "takeWhile (\<lambda>x. x \<noteq> (61, False)) (mark False n @ (61, False) # mark q v) = mark False n"
    "dropWhile (\<lambda>x. x \<noteq> (61, False)) (mark False n @ (61, False) # mark q v) = (61, False) # mark q v"
    by (subst takeWhile_append2 dropWhile_append2; force simp: mark_def)+
  then show ?thesis using assms by (simp add: assignment_def Let_def) (simp add: mark_def list_all_iff)
qed

lemma no_assignment:
  assumes "q \<or> 61 \<notin> set v"
  shows "assignment (mark q v) = None"
proof -
  have "dropWhile (\<lambda>x. x \<noteq> (61, False)) (mark q v) = []" using assms by (auto simp: mark_def)
  then show ?thesis by (simp add: assignment_def Let_def)
qed

lemma simple_words:
  assumes "\<And>n v. (n, v) \<in> set es \<Longrightarrow> env_name n" and "assignment w = None"
  shows "simple_command (map (\<lambda>(n, v). Word (mark False (n @ [61]) @ mark (service_quoted v) v)) es @ Word w # map Word ws') =
    Some (es, map fst w # map (map fst) ws')"
  using assms
proof (induction es)
  case (Cons e es)
  obtain n v where e: "e = (n, v)" by (cases e)
  have "assignment (mark False (n @ [61]) @ mark (service_quoted v) v) = Some (n, v)"
    using Cons.prems(1) [of n v] e by (intro assignment_word) simp
  moreover have "simple_command (map (\<lambda>(n, v). Word (mark False (n @ [61]) @ mark (service_quoted v) v)) es @ Word w # map Word ws') =
      Some (es, map fst w # map (map fst) ws')"
    by (rule Cons.IH) (use Cons.prems in auto)
  ultimately show ?case using e by (simp del: mark_simps)
qed (simp add: list_all_iff comp_def)

definition posix_argv :: "pane_command \<Rightarrow> utext list" where
  "posix_argv c =
     (if pc_purpose c = Agent_pane \<and> pc_env c \<noteq> [] then lit ''env'' # map (\<lambda>(n, v). n @ 61 # v) (pc_env c) else []) @
     pc_executable c # pc_args c"

lemma valid_env: "env_error es = None \<Longrightarrow> (n, v) \<in> set es \<Longrightarrow> env_name n"
  by (induction es rule: env_error.induct) (auto split: if_split_asm)

lemma validated:
  assumes "validatePaneCommand c = None"
  shows "pc_cwd c \<noteq> []" and "pc_executable c \<noteq> []" and "\<And>n v. (n, v) \<in> set (pc_env c) \<Longrightarrow> env_name n"
  using assms valid_env by (auto simp: validatePaneCommand_def split: if_split_asm)

lemma lit_cd: "lit ''cd '' = [99, 100, 32]" "lit ''cd -- '' = [99, 100, 32, 45, 45, 32]" "lit '' && '' = [32, 38, 38, 32]"
  "lit ''env'' = [101, 110, 118]" "lit ''cd'' = [99, 100]" "lit ''--'' = [45, 45]"
  by (simp_all add: lit_def)

lemma plain_codes: "unquoted_char 99" "unquoted_char 100" "unquoted_char 101" "unquoted_char 110" "unquoted_char 118" "unquoted_char 45"
  by (simp_all add: unquoted_char_def ascii_letter_def lit_def)

lemma scan_line:
  assumes "scans t w" and "sh_scan False None cmd = Some ts"
  shows "sh_scan False None (lit ''cd '' @ t @ lit '' && '' @ cmd) =
      Some (Word (mark False (lit ''cd'')) # Word w # And_if # ts)"
    and "sh_scan False None (lit ''cd -- '' @ t @ lit '' && '' @ cmd) =
      Some (Word (mark False (lit ''cd'')) # Word (mark False (lit ''--'')) # Word w # And_if # ts)"
  using assms by (simp_all add: lit_cd plain_codes add_char_def flush_def scans_def)

lemma env_operands:
  assumes "\<And>n v. (n, v) \<in> set es \<Longrightarrow> env_name n" and "61 \<notin> set x"
  shows "env_utility (map (\<lambda>(n, v). n @ 61 # v) es @ x # as) = (es, x # as)"
  using assms
proof (induction es)
  case (Cons e es)
  obtain n v where e: "e = (n, v)" by (cases e)
  have "61 \<notin> set n" using Cons.prems(1) [of n v] e env_name_unquoted by auto
  then have "takeWhile (\<lambda>c. c \<noteq> 61) (n @ 61 # v) = n" "dropWhile (\<lambda>c. c \<noteq> 61) (n @ 61 # v) = 61 # v"
    by (subst takeWhile_append2 dropWhile_append2; force)+
  moreover have "env_utility (map (\<lambda>(n, v). n @ 61 # v) es @ x # as) = (es, x # as)"
    by (rule Cons.IH) (use Cons.prems in auto)
  ultimately show ?case using e by simp
qed simp

text \<open>What both kinds of pane come to: a line that scans into \<open>cd\<close>, \<open>&&\<close> and words.\<close>

lemma reserved_mark: "reserved (mark q v) \<longleftrightarrow> v \<in> set RESERVED_WORDS \<and> (v = [] \<or> \<not> q)"
proof -
  have "list_all (\<lambda>x. \<not> snd x) (mark q v) \<longleftrightarrow> v = [] \<or> \<not> q" by (cases v) (auto simp: mark_def list_all_iff)
  then show ?thesis by (auto simp: reserved_def)
qed

lemma reserved_no_equals: "(61, False) \<in> set w \<Longrightarrow> \<not> reserved w"
proof -
  have "\<forall>u\<in>set RESERVED_WORDS. 61 \<notin> set u" by (simp add: RESERVED_WORDS_def lit_def)
  then show "(61, False) \<in> set w \<Longrightarrow> \<not> reserved w"
    by (auto simp: reserved_def) (metis fst_conv image_eqI list.set_map)
qed

lemma reserved_words_scan: "v \<in> set RESERVED_WORDS \<Longrightarrow> \<not> service_quoted v"
proof -
  have "\<forall>u\<in>set RESERVED_WORDS. \<not> service_quoted u"
    by (simp add: RESERVED_WORDS_def lit_def service_quoted_def unquoted_char_def ascii_letter_def)
  then show "v \<in> set RESERVED_WORDS \<Longrightarrow> \<not> service_quoted v" by blast
qed

lemma run_service:
  assumes "sh_scan False None cmd = Some ts" and "hd d \<noteq> 45" and "d \<noteq> []"
  shows "sh_run (lit ''cd '' @ posixServiceWord d @ lit '' && '' @ cmd) =
    map_option (\<lambda>(es, as). \<lparr>la_cd = cd_target d, la_env = es, la_argv = as\<rparr>) (sh_command ts)"
proof -
  let ?w = "mark (service_quoted d) d"
  have "cd_operand [Word (mark False (lit ''cd'')), Word ?w] = Some (cd_target d)"
    using assms(2,3) by (cases d) (auto simp: cd_operand_def)
  then show ?thesis
    using scan_line(1) [OF scans_service assms(1)] by (simp add: sh_run_def split: option.split)
qed

lemma run_agent:
  assumes "sh_scan False None cmd = Some ts" and "d \<noteq> []"
  shows "sh_run (lit ''cd -- '' @ sq d @ lit '' && '' @ cmd) =
    map_option (\<lambda>(es, as). \<lparr>la_cd = cd_target d, la_env = es, la_argv = as\<rparr>) (sh_command ts)"
proof -
  have "cd_operand [Word (mark False (lit ''cd'')), Word (mark False (lit ''--'')), Word (mark True d)] = Some (cd_target d)"
    using assms(2) by (simp add: cd_operand_def)
  then show ?thesis
    using scan_line(2) [OF scans_sq assms(1)] by (simp add: sh_run_def split: option.split)
qed

definition service_words :: "pane_command \<Rightarrow> sh_word list" where
  "service_words c =
     map (\<lambda>(n, v). mark False (n @ [61]) @ mark (service_quoted v) v) (pc_env c) @
     mark (service_quoted (pc_executable c)) (pc_executable c) # map (\<lambda>v. mark (service_quoted v) v) (pc_args c)"

lemma service_scan:
  assumes "\<And>n v. (n, v) \<in> set (pc_env c) \<Longrightarrow> env_name n"
  shows "sh_scan False None (join_words (map (\<lambda>(n, v). n @ 61 # posixServiceWord v) (pc_env c) @
      [posixServiceWord (pc_executable c)] @ map posixServiceWord (pc_args c))) = Some (map Word (service_words c))"
proof (rule scan_join)
  have "list_all2 scans (map (\<lambda>(n, v). n @ 61 # posixServiceWord v) (pc_env c))
      (map (\<lambda>(n, v). mark False (n @ [61]) @ mark (service_quoted v) v) (pc_env c))"
    unfolding list_all2_maps using assms scans_assignment by fast
  moreover have "list_all2 scans ([posixServiceWord (pc_executable c)] @ map posixServiceWord (pc_args c))
      (mark (service_quoted (pc_executable c)) (pc_executable c) # map (\<lambda>v. mark (service_quoted v) v) (pc_args c))"
    by (auto simp: list_all2_map1 list_all2_map2 scans_service intro: list_all2I list.rel_refl)
  ultimately show "list_all2 scans (map (\<lambda>(n, v). n @ 61 # posixServiceWord v) (pc_env c) @
      [posixServiceWord (pc_executable c)] @ map posixServiceWord (pc_args c)) (service_words c)"
    unfolding service_words_def by (rule list_all2_appendI)
qed simp

lemma service_simple:
  assumes "\<And>n v. (n, v) \<in> set (pc_env c) \<Longrightarrow> env_name n" and "61 \<notin> set (pc_executable c)"
  shows "simple_command (map Word (service_words c)) = Some (pc_env c, pc_executable c # pc_args c)"
  using simple_words [of "pc_env c" "mark (service_quoted (pc_executable c)) (pc_executable c)" "map (\<lambda>v. mark (service_quoted v) v) (pc_args c)"]
    no_assignment [of "service_quoted (pc_executable c)" "pc_executable c"] assms
  by (simp add: service_words_def comp_def case_prod_unfold del: simple_command.simps)

definition agent_marks :: "pane_command \<Rightarrow> sh_word list" where
  "agent_marks c =
     (if pc_env c = [] then [] else mark False (lit ''env'') # map (\<lambda>(n, v). mark True (n @ 61 # v)) (pc_env c)) @
     mark True (pc_executable c) # map (mark True) (pc_args c)"

lemma agent_scan:
  "sh_scan False None (join_words ((if pc_env c = [] then [] else lit ''env'' # map (\<lambda>(n, v). sq (n @ 61 # v)) (pc_env c)) @
      [sq (pc_executable c)] @ map sq (pc_args c))) = Some (map Word (agent_marks c))"
proof (rule scan_join)
  have e: "scans (lit ''env'') (mark False (lit ''env''))"
    by (simp add: scans_def) (simp add: lit_cd plain_codes add_char_def)
  have "list_all2 scans (if pc_env c = [] then [] else lit ''env'' # map (\<lambda>(n, v). sq (n @ 61 # v)) (pc_env c))
        (if pc_env c = [] then [] else mark False (lit ''env'') # map (\<lambda>(n, v). mark True (n @ 61 # v)) (pc_env c))"
    using e by (auto simp: list_all2_map1 list_all2_map2 scans_sq case_prod_unfold simp del: mark_simps intro: list_all2I list.rel_refl)
  moreover have "list_all2 scans ([sq (pc_executable c)] @ map sq (pc_args c)) (mark True (pc_executable c) # map (mark True) (pc_args c))"
    by (auto simp: list_all2_map1 list_all2_map2 scans_sq simp del: mark_simps intro: list_all2I list.rel_refl)
  ultimately show "list_all2 scans ((if pc_env c = [] then [] else lit ''env'' # map (\<lambda>(n, v). sq (n @ 61 # v)) (pc_env c)) @
      [sq (pc_executable c)] @ map sq (pc_args c)) (agent_marks c)"
    unfolding agent_marks_def by (rule list_all2_appendI)
qed simp

lemma agent_simple:
  assumes "pc_purpose c = Agent_pane" and "pc_executable c \<noteq> []"
  shows "sh_command (map Word (agent_marks c)) = Some ([], posix_argv c)"
proof -
  have f: "map (map fst) (agent_marks c) = posix_argv c"
    by (simp add: agent_marks_def posix_argv_def assms(1) comp_def case_prod_unfold)
  obtain w ws' where w: "agent_marks c = w # ws'" by (cases "agent_marks c") (auto simp: agent_marks_def)
  have x: "w \<in> {mark False (lit ''env''), mark True (pc_executable c)}" using w by (auto simp: agent_marks_def split: if_split_asm)
  then have "assignment w = None" using no_assignment [of False "lit ''env''"] no_assignment [of True] by (auto simp: lit_cd)
  moreover have "lit ''env'' \<notin> set RESERVED_WORDS" by (simp add: RESERVED_WORDS_def lit_def)
  with x have "\<not> reserved w" using assms(2) by (auto simp: reserved_mark simp del: mark_simps)
  ultimately show ?thesis unfolding w f [symmetric] using simple_words [of "[]" w ws'] by (simp add: sh_command_def)
qed

text \<open>C37. The POSIX line of a validated request runs that request: the shell gives \<open>cd\<close> the raw directory
  and, where it could go there, starts one simple command whose words are the raw executable and the raw
  arguments, one word each, with exactly the requested assignments, whatever quotes, blanks or operators the
  values contain.  \<open>cd\<close> goes to the directory named, to the previous one where it is named \<open>-\<close>, and where
  it begins with neither a slash nor a dot component looks along \<open>CDPATH\<close> first.  The directory of a service must not
  start with a dash, and where assignments come before it the executable must not contain an equals
  sign.  A service without assignments whose executable is a reserved word is no command at all: such a
  word is left unquoted, and the shell reads the beginning of a compound command.\<close>

theorem posix_line_runs_request:
  assumes "validatePaneCommand c = None" and "hd (pc_cwd c) \<noteq> 45 \<or> pc_purpose c = Agent_pane"
    and "61 \<notin> set (pc_executable c) \<or> (pc_purpose c = Agent_pane \<and> pc_env c = [])"
  shows "sh_run (renderPosix c) =
      (if pc_purpose c = Service_pane \<and> pc_env c = [] \<and> pc_executable c \<in> set RESERVED_WORDS then None
       else Some \<lparr>la_cd = cd_target (pc_cwd c),
         la_env = (if pc_purpose c = Service_pane then pc_env c else []), la_argv = posix_argv c\<rparr>) \<and>
    (pc_purpose c = Agent_pane \<and> pc_env c \<noteq> [] \<longrightarrow>
      env_utility (tl (posix_argv c)) = (pc_env c, pc_executable c # pc_args c))"
proof (cases "pc_purpose c")
  case Service_pane
  note v = validated [OF assms(1)]
  have r: "sh_run (renderPosix c) = map_option (\<lambda>(es, as). \<lparr>la_cd = cd_target (pc_cwd c), la_env = es, la_argv = as\<rparr>)
      (sh_command (map Word (service_words c)))"
    unfolding renderPosix_def Service_pane pane_purpose.case
    using run_service [OF service_scan [OF v(3)] _ v(1)] assms(2) Service_pane by simp
  have s: "simple_command (map Word (service_words c)) = Some (pc_env c, pc_executable c # pc_args c)"
    using service_simple [OF v(3)] assms(3) Service_pane by simp
  obtain w ws' where w: "service_words c = w # ws'" by (cases "service_words c") (auto simp: service_words_def)
  have "reserved w \<longleftrightarrow> pc_env c = [] \<and> pc_executable c \<in> set RESERVED_WORDS"
  proof (cases "pc_env c")
    case Nil
    then have "w = mark (service_quoted (pc_executable c)) (pc_executable c)" using w by (simp add: service_words_def)
    then show ?thesis using Nil reserved_words_scan v(2) by (auto simp: reserved_mark)
  next
    case (Cons e es)
    then have "(61, False) \<in> set w" using w by (auto simp: service_words_def case_prod_unfold)
    then have "\<not> reserved w" by (rule reserved_no_equals)
    with Cons show ?thesis by simp
  qed
  then have "sh_command (map Word (service_words c)) =
      (if pc_env c = [] \<and> pc_executable c \<in> set RESERVED_WORDS then None else Some (pc_env c, pc_executable c # pc_args c))"
    using s unfolding w by (simp add: sh_command_def)
  then show ?thesis unfolding r by (simp add: Service_pane posix_argv_def)
next
  case Agent_pane
  note v = validated [OF assms(1)]
  have "sh_run (renderPosix c) = Some \<lparr>la_cd = cd_target (pc_cwd c), la_env = [], la_argv = posix_argv c\<rparr>"
    unfolding renderPosix_def Agent_pane pane_purpose.case run_agent [OF agent_scan v(1)] agent_simple [OF Agent_pane v(2)] by simp
  moreover have "env_utility (tl (posix_argv c)) = (pc_env c, pc_executable c # pc_args c)" if "pc_env c \<noteq> []"
    using env_operands [OF v(3)] that assms(3) by (simp add: posix_argv_def Agent_pane)
  ultimately show ?thesis by (simp add: Agent_pane)
qed

definition odd_request :: "pane_purpose \<Rightarrow> pane_command" where
  "odd_request p = \<lparr>pc_cwd = lit ''/a b'', pc_executable = lit ''node'', pc_args = [lit ''it'' @ [39] @ lit ''s; $x'', []],
     pc_env = [(lit ''A'', lit ''x=y z'')], pc_dialect = Posix, pc_purpose = p\<rparr>"

lemma odd_request_valid: "validatePaneCommand (odd_request p) = None"
  by (simp add: validatePaneCommand_def odd_request_def raw_string_def lit_def env_name_def ascii_letter_def)

text \<open>The agent \<open>if\<close> in the directory \<open>-\<close>, and the service \<open>if\<close>.\<close>

definition bare_request :: "pane_purpose \<Rightarrow> utext \<Rightarrow> pane_command" where
  "bare_request p cwd = \<lparr>pc_cwd = cwd, pc_executable = lit ''if'', pc_args = [], pc_env = [], pc_dialect = Posix, pc_purpose = p\<rparr>"

lemma bare_request_valid: "raw_string cwd \<Longrightarrow> cwd \<noteq> [] \<Longrightarrow> validatePaneCommand (bare_request p cwd) = None"
  by (simp add: validatePaneCommand_def bare_request_def raw_string_def lit_def)

theorem posix_line_runs_request_witness:
  "sh_run (renderPosix (odd_request Service_pane)) = Some \<lparr>la_cd = Directory (lit ''/a b''), la_env = [(lit ''A'', lit ''x=y z'')],
      la_argv = [lit ''node'', lit ''it'' @ [39] @ lit ''s; $x'', []]\<rparr> \<and>
   sh_run (renderPosix (bare_request Agent_pane [45])) = Some \<lparr>la_cd = Previous_directory, la_env = [], la_argv = [lit ''if'']\<rparr> \<and>
   sh_run (renderPosix (bare_request Service_pane (lit ''/a''))) = None"
proof (intro conjI)
  show "sh_run (renderPosix (odd_request Service_pane)) = Some \<lparr>la_cd = Directory (lit ''/a b''), la_env = [(lit ''A'', lit ''x=y z'')],
      la_argv = [lit ''node'', lit ''it'' @ [39] @ lit ''s; $x'', []]\<rparr>"
    using posix_line_runs_request [OF odd_request_valid [of Service_pane]]
    by (simp add: odd_request_def posix_argv_def lit_def cd_target_def)
  show "sh_run (renderPosix (bare_request Agent_pane [45])) = Some \<lparr>la_cd = Previous_directory, la_env = [], la_argv = [lit ''if'']\<rparr>"
    using posix_line_runs_request [OF bare_request_valid [of "[45]" Agent_pane]]
    by (simp add: bare_request_def posix_argv_def cd_target_def raw_string_def)
  show "sh_run (renderPosix (bare_request Service_pane (lit ''/a''))) = None"
    using posix_line_runs_request [OF bare_request_valid [of "lit ''/a''" Service_pane]]
    by (simp add: bare_request_def raw_string_def RESERVED_WORDS_def lit_def)
qed

section \<open>What PowerShell reads\<close>

text \<open>
  PowerShell takes five characters for single quotes, also inside a single-quoted string; two in a row stand
  for one, and one alone ends the string.  The result is the value and the rest of the line.
\<close>

definition ps_quote :: "nat \<Rightarrow> bool" where
  "ps_quote c \<longleftrightarrow> c \<in> {39, 0x2018, 0x2019, 0x201A, 0x201B}"

fun ps_string :: "utext \<Rightarrow> (utext \<times> utext) option" where
  "ps_string [] = None"
| "ps_string (c # cs) =
     (if ps_quote c then
        (case cs of
           d # ds \<Rightarrow> if ps_quote d then map_option (\<lambda>(v, r). (d # v, r)) (ps_string ds) else Some ([], cs)
         | [] \<Rightarrow> Some ([], []))
      else map_option (\<lambda>(v, r). (c # v, r)) (ps_string cs))"

definition typographic :: "nat \<Rightarrow> bool" where
  "typographic c \<longleftrightarrow> c \<in> {0x2018, 0x2019, 0x201A, 0x201B}"

lemma ps_body:
  "\<lbrakk>\<And>c. c \<in> set v \<Longrightarrow> \<not> typographic c; rest = [] \<or> \<not> ps_quote (hd rest)\<rbrakk> \<Longrightarrow>
    ps_string (quote_body [39, 39] v @ 39 # rest) = Some (v, rest)"
proof (induction v)
  case Nil
  then show ?case by (cases rest) (simp_all add: quote_body_def ps_quote_def)
next
  case (Cons c v)
  have c: "ps_quote c \<longleftrightarrow> c = 39" using Cons.prems(1) [of c] by (auto simp: ps_quote_def typographic_def)
  have q: "ps_quote 39" by (simp add: ps_quote_def)
  have b: "quote_body [39, 39] (c # v) = (if c = 39 then [39, 39] else [c]) @ quote_body [39, 39] v" by (simp add: quote_body_def)
  show ?case using Cons c q unfolding b by (cases "c = 39") simp_all
qed

text \<open>A value without typographic quotes survives PowerShell quoting unchanged, and the string ends
  exactly where the renderer ends it.\<close>

theorem psq_is_read_back:
  assumes "\<And>c. c \<in> set v \<Longrightarrow> \<not> typographic c" and "rest = [] \<or> \<not> ps_quote (hd rest)"
  shows "\<exists>body. psq v = 39 # body \<and> ps_string (body @ rest) = Some (v, rest)"
  using ps_body [OF assms] by (simp add: psq_def)

theorem psq_is_read_back_witness:
  "\<exists>body. psq (lit ''a'' @ [39] @ lit ''b'') = 39 # body \<and> ps_string (body @ lit '' -x'') = Some (lit ''a'' @ [39] @ lit ''b'', lit '' -x'')"
  by (rule psq_is_read_back) (auto simp: lit_def typographic_def ps_quote_def)

text \<open>A typographic single quote in a value ends the PowerShell string: what follows it in the value is
  read as PowerShell code.  Validation and quoting accept such a value.\<close>

theorem psq_typographic_escapes:
  assumes "\<And>c. c \<in> set a \<Longrightarrow> \<not> ps_quote c" and "b \<noteq> []" and "\<not> ps_quote (hd b)" and "typographic c"
  shows "\<exists>body. psq (a @ c # b) = 39 # body \<and> ps_string (body @ rest) = Some (a, quote_body [39, 39] b @ 39 # rest)"
proof -
  obtain x b' where b: "b = x # b'" "\<not> ps_quote x" using assms(2,3) by (cases b) auto
  have c: "c \<noteq> 39" "ps_quote c" using assms(4) by (auto simp: typographic_def ps_quote_def)
  have q: "quote_body [39, 39] (a @ c # b) = a @ c # quote_body [39, 39] b"
    using assms(1) c(1) by (induction a) (auto simp: quote_body_def ps_quote_def)
  have x: "quote_body [39, 39] b = x # quote_body [39, 39] b'" using b by (auto simp: quote_body_def ps_quote_def)
  have "ps_string (a @ c # quote_body [39, 39] b @ 39 # rest) = Some (a, quote_body [39, 39] b @ 39 # rest)"
    using assms(1) by (induction a) (simp_all add: x c(2) b(2))
  then show ?thesis by (simp add: psq_def q)
qed

theorem psq_typographic_escapes_witness:
  "raw_string (lit ''x'' @ 0x2019 # lit ''; calc #'') \<and>
    (\<exists>body. psq (lit ''x'' @ 0x2019 # lit ''; calc #'') = 39 # body \<and>
      ps_string (body @ []) = Some (lit ''x'', quote_body [39, 39] (lit ''; calc #'') @ 39 # []))"
proof
  show "\<exists>body. psq (lit ''x'' @ 0x2019 # lit ''; calc #'') = 39 # body \<and>
      ps_string (body @ []) = Some (lit ''x'', quote_body [39, 39] (lit ''; calc #'') @ 39 # [])"
    by (rule psq_typographic_escapes) (simp_all add: lit_def ps_quote_def typographic_def)
qed (simp add: raw_string_def lit_def)

section \<open>What the Microsoft C runtime reads\<close>

text \<open>
  One argument: the flag says that a quoted part is open, the number counts the backslashes just read.
  Before a quote, two backslashes stand for one.  The result is the value and the rest of the line.
\<close>

fun ms_arg :: "bool \<Rightarrow> nat \<Rightarrow> utext \<Rightarrow> utext \<times> utext" where
  "ms_arg q n [] = (replicate n 92, [])"
| "ms_arg q n (c # cs) =
     (if c = 92 then ms_arg q (Suc n) cs
      else if c = 34 then
        (if even n then apfst (\<lambda>v. replicate (n div 2) 92 @ v) (ms_arg (\<not> q) 0 cs)
         else apfst (\<lambda>v. replicate (n div 2) 92 @ 34 # v) (ms_arg q 0 cs))
      else if c = 32 \<and> \<not> q then (replicate n 92, c # cs)
      else apfst (\<lambda>v. replicate n 92 @ c # v) (ms_arg q 0 cs))"

lemma ms_backslashes: "ms_arg q n (replicate k 92 @ rest) = ms_arg q (n + k) rest"
  by (induction k arbitrary: n) simp_all

lemma ms_body:
  assumes "rest = [] \<or> hd rest = 32"
  shows "\<lbrakk>34 \<notin> set w; w = [] \<longrightarrow> n = 0; w \<noteq> [] \<longrightarrow> last w \<noteq> 92\<rbrakk> \<Longrightarrow>
    ms_arg True n (w @ replicate (2 * t) 92 @ 34 # rest) = (replicate n 92 @ w @ replicate t 92, rest)"
proof (induction w arbitrary: n)
  case Nil
  have "ms_arg False 0 rest = ([], rest)" using assms by (cases rest) auto
  then show ?case using Nil by (simp add: ms_backslashes)
next
  case (Cons c w)
  show ?case
  proof (cases "c = 92")
    case True
    then have w: "w \<noteq> []" "last w \<noteq> 92" using Cons.prems by (auto split: if_splits)
    then show ?thesis using True Cons by (simp add: replicate_append_same [symmetric])
  next
    case False
    have "ms_arg True 0 (w @ replicate (2 * t) 92 @ 34 # rest) = (replicate 0 92 @ w @ replicate t 92, rest)"
      by (rule Cons.IH) (use Cons.prems in \<open>auto split: if_splits\<close>)
    then show ?thesis using False Cons.prems by auto
  qed
qed

lemma split_trailing:
  "\<exists>w. v = w @ replicate (trailing_backslashes v) 92 \<and> take (length v - trailing_backslashes v) v = w \<and> (w \<noteq> [] \<longrightarrow> last w \<noteq> 92)"
proof -
  let ?b = "takeWhile (\<lambda>c. c = 92) (rev v)" and ?w = "rev (dropWhile (\<lambda>c. c = 92) (rev v))"
  have b: "?b = replicate (trailing_backslashes v) 92"
    unfolding trailing_backslashes_def by (rule replicate_eqI) (auto dest: set_takeWhileD)
  have "v = rev (?b @ dropWhile (\<lambda>c. c = 92) (rev v))" by simp
  then have v: "v = ?w @ replicate (trailing_backslashes v) 92" unfolding rev_append b by simp
  have "take (length v - trailing_backslashes v) v = ?w" by (subst (3) v, subst (1) v) simp
  moreover have "?w \<noteq> [] \<longrightarrow> last ?w \<noteq> 92" using hd_dropWhile [of "\<lambda>c. c = 92" "rev v"] by (auto simp: last_rev)
  ultimately show ?thesis using v by blast
qed

text \<open>A value that the cmd renderer quotes directly reaches the program unchanged, trailing
  backslashes included, and the argument ends where the renderer ends it.\<close>

theorem cmdq_is_read_back:
  assumes "\<not> cmdUnsafe v" and "rest = [] \<or> hd rest = 32"
  shows "ms_arg False 0 (cmdq v @ rest) = (v, rest)"
proof -
  obtain w where w: "v = w @ replicate (trailing_backslashes v) 92" "take (length v - trailing_backslashes v) v = w"
    "w \<noteq> [] \<longrightarrow> last w \<noteq> 92"
    using split_trailing by blast
  have "34 \<notin> set v" using assms(1) by (auto simp: cmdUnsafe_def list_ex_iff)
  then have "34 \<notin> set w" using w(1) by (metis UnI1 set_append)
  then show ?thesis
    using ms_body [OF assms(2), of w 0 "trailing_backslashes v"] w by (simp add: cmdq_def w(2))
qed

theorem cmdq_is_read_back_witness: "ms_arg False 0 (cmdq (lit ''C:'' @ [92] @ lit ''a b'' @ [92]) @ lit '' x'') = (lit ''C:'' @ [92] @ lit ''a b'' @ [92], lit '' x'')"
  by (rule cmdq_is_read_back) (simp_all add: cmdUnsafe_def lit_def)

end
