(* ===== verification/Config.thy ===== *)
theory Config
  imports Hub_View
begin

text \<open>
  The rig's configuration file, \<open>src/core/common/config.ts\<close>: its readers, the read-modify-write of one
  key and of the flow mode, and the value grammar of \<open>tut config set\<close>.

  The file is what \<open>JSON.parse\<close> makes of it; a write leaves the value that \<open>JSON.stringify\<close> printed.
  Objects are association lists with unique keys, updated in place or extended at the end, as JavaScript
  does.  The write chain of the process makes every update one atomic step, so an update is a function on
  the file.  Error messages are a datatype.
\<close>

datatype config_file = No_file | Cannot_read | Not_json | Holds json

datatype launch_mode = Detached | Tui

datatype power_mode = Herdr | Standalone

datatype config_error =
    Config_unreadable
  | Invalid_power
  | Invalid_launch_mode
  | Invalid_catchup
  | Invalid_checkout
  | Invalid_value string string
  | Invalid_role string

section \<open>Objects\<close>

fun put_key :: "string \<Rightarrow> json \<Rightarrow> jobject \<Rightarrow> jobject" where
  "put_key k v [] = [(k, v)]"
| "put_key k v ((a, x) # ob) = (if a = k then (a, v) # ob else (a, x) # put_key k v ob)"

text \<open>\<open>{ ...x }\<close> of a section that is an object or an array, and of the empty object otherwise.\<close>

definition section_of :: "json option \<Rightarrow> jobject" where
  "section_of v =
     (case v of
        Some (JObj ob) \<Rightarrow> ob
      | Some (JArr xs) \<Rightarrow> map (\<lambda>(i, x). (show_nat i, x)) (enumerate 0 xs)
      | _ \<Rightarrow> [])"

lemma put_key_get: "map_of (put_key k v ob) k' = (if k' = k then Some v else map_of ob k')"
  by (induction ob) auto

section \<open>Reading\<close>

datatype read_outcome = Read_ok jobject | Read_missing | Read_invalid

definition parseConfigStrict :: "json \<Rightarrow> jobject option" where
  "parseConfigStrict v =
     (case v of
        JObj ob \<Rightarrow> if map_of ob ''flow_mode'' \<in> {Some (JStr ''manual''), Some (JStr ''auto'')} then Some ob else None
      | _ \<Rightarrow> None)"

definition readConfigFile :: "config_file \<Rightarrow> read_outcome" where
  "readConfigFile f =
     (case f of
        No_file \<Rightarrow> Read_missing
      | Holds v \<Rightarrow> (case parseConfigStrict v of Some ob \<Rightarrow> Read_ok ob | None \<Rightarrow> Read_invalid)
      | _ \<Rightarrow> Read_invalid)"

definition readConfig :: "config_file \<Rightarrow> jobject option" where
  "readConfig f = (case readConfigFile f of Read_ok ob \<Rightarrow> Some ob | _ \<Rightarrow> None)"

definition readFlowMode :: "config_file \<Rightarrow> string" where
  "readFlowMode f =
     (case readConfigFile f of
        Read_ok ob \<Rightarrow> (case map_of ob ''flow_mode'' of Some (JStr m) \<Rightarrow> m | _ \<Rightarrow> ''manual'')
      | _ \<Rightarrow> ''manual'')"

definition launchModeOf :: "json option \<Rightarrow> launch_mode option" where
  "launchModeOf v =
     (if v = Some (JStr ''headless'') \<or> v = Some (JStr ''detached'') then Some Detached
      else if v = Some (JStr ''tui'') then Some Tui else None)"

definition is_object :: "json \<Rightarrow> bool" where
  "is_object v \<longleftrightarrow> (case v of JObj _ \<Rightarrow> True | JArr _ \<Rightarrow> True | _ \<Rightarrow> False)"

definition powerModeOf :: "json \<Rightarrow> config_error + power_mode" where
  "powerModeOf pv =
     (if \<not> is_object pv then Inl Invalid_power
      else (case jget pv ''mode'' of
        None \<Rightarrow> Inr Herdr
      | Some m \<Rightarrow> if m = JStr ''herdr'' then Inr Herdr else if m = JStr ''standalone'' then Inr Standalone else Inl Invalid_power))"

definition readPowerMode :: "config_file \<Rightarrow> config_error + power_mode" where
  "readPowerMode f =
     (case readConfigFile f of
        Read_missing \<Rightarrow> Inr Herdr
      | Read_invalid \<Rightarrow> Inl Config_unreadable
      | Read_ok ob \<Rightarrow> (case map_of ob ''power'' of None \<Rightarrow> Inr Herdr | Some p \<Rightarrow> powerModeOf p))"

definition readPowerModeForSwitch :: "config_file \<Rightarrow> config_error + power_mode" where
  "readPowerModeForSwitch f =
     (case f of
        Holds v \<Rightarrow> (case jget v ''power'' of None \<Rightarrow> Inr Herdr | Some p \<Rightarrow> powerModeOf p)
      | _ \<Rightarrow> Inr Herdr)"

definition readLaunchMode :: "config_file \<Rightarrow> config_error + launch_mode" where
  "readLaunchMode f =
     (case readConfigFile f of
        Read_missing \<Rightarrow> Inr Tui
      | Read_invalid \<Rightarrow> Inl Config_unreadable
      | Read_ok ob \<Rightarrow>
          (case map_of ob ''launch_mode'' of
             None \<Rightarrow> Inr Tui
           | v \<Rightarrow> (case launchModeOf v of Some m \<Rightarrow> Inr m | None \<Rightarrow> Inl Invalid_launch_mode)))"

definition readLaunchCatchup :: "config_file \<Rightarrow> config_error + bool" where
  "readLaunchCatchup f =
     (case readConfigFile f of
        Read_missing \<Rightarrow> Inr False
      | Read_invalid \<Rightarrow> Inl Config_unreadable
      | Read_ok ob \<Rightarrow>
          (case map_of ob ''launch'' of
             None \<Rightarrow> Inr False
           | Some sec \<Rightarrow>
               if \<not> is_object sec then Inl Invalid_catchup
               else (case jget sec ''catchup'' of
                 None \<Rightarrow> Inr False
               | Some v \<Rightarrow> if v = JStr ''off'' then Inr False else if v = JStr ''on'' then Inr True else Inl Invalid_catchup)))"

datatype checkout_mode = Rig_checkout | Anchored

definition readLaunchCheckout :: "config_file \<Rightarrow> config_error + checkout_mode" where
  "readLaunchCheckout f =
     (case readConfigFile f of
        Read_missing \<Rightarrow> Inr Rig_checkout
      | Read_invalid \<Rightarrow> Inl Config_unreadable
      | Read_ok ob \<Rightarrow>
          (case map_of ob ''launch'' of
             None \<Rightarrow> Inr Rig_checkout
           | Some (JObj sec) \<Rightarrow>
               (case map_of sec ''checkout'' of
                  None \<Rightarrow> Inr Rig_checkout
                | Some v \<Rightarrow>
                    if v = JStr ''rig'' then Inr Rig_checkout else if v = JStr ''anchored'' then Inr Anchored
                    else Inl Invalid_checkout)
           | Some _ \<Rightarrow> Inl Invalid_checkout))"

definition string_list :: "json \<Rightarrow> bool" where
  "string_list v = (case v of JArr xs \<Rightarrow> list_all (\<lambda>x. string_of (Some x) \<noteq> None) xs | _ \<Rightarrow> False)"

definition autoSectionOf :: "jobject option \<Rightarrow> state_auto option" where
  "autoSectionOf config =
     (case Option.bind config (\<lambda>ob. map_of ob ''auto'') of
        None \<Rightarrow> None
      | Some cand \<Rightarrow>
          if \<not> is_object cand then None
          else (let remediate =
                      (case jget cand ''remediate'' of
                         None \<Rightarrow> None
                       | Some v \<Rightarrow> Some (if v = JStr ''enter-repress'' then ''enter-repress'' else ''off''));
                    empty = Some \<lparr>sa_remediate = remediate, sa_launch_roles = Some (JArr [])\<rparr>
                in (case jget cand ''launch_roles'' of
                      None \<Rightarrow> empty
                    | Some roles \<Rightarrow>
                        if string_list roles then Some \<lparr>sa_remediate = remediate, sa_launch_roles = Some roles\<rparr>
                        else if jget cand ''remediate'' = None then None else empty)))"

section \<open>Writing\<close>

definition DEFAULT_CONFIG :: jobject where
  "DEFAULT_CONFIG = [(''flow_mode'', JStr ''manual'')]"

text \<open>The read-modify-write: a missing file starts from the defaults, an unreadable one is never replaced.\<close>

definition update_config :: "(jobject \<Rightarrow> jobject) \<Rightarrow> config_file \<Rightarrow> config_error + jobject \<times> config_file" where
  "update_config g f =
     (case readConfigFile f of
        Read_invalid \<Rightarrow> Inl Config_unreadable
      | Read_missing \<Rightarrow> Inr (g DEFAULT_CONFIG, Holds (JObj (g DEFAULT_CONFIG)))
      | Read_ok ob \<Rightarrow> Inr (g ob, Holds (JObj (g ob))))"

definition writeFlowMode :: "string \<Rightarrow> config_file \<Rightarrow> config_error + jobject \<times> config_file" where
  "writeFlowMode mode = update_config (put_key ''flow_mode'' (JStr mode))"

definition ensureConfig :: "config_file \<Rightarrow> config_error + jobject \<times> config_file" where
  "ensureConfig f =
     (case readConfigFile f of
        Read_missing \<Rightarrow> Inr (DEFAULT_CONFIG, Holds (JObj DEFAULT_CONFIG))
      | Read_invalid \<Rightarrow> Inl Config_unreadable
      | Read_ok ob \<Rightarrow> Inr (ob, f))"

datatype assignment_of =
    Launch_mode launch_mode
  | Launch_catchup bool
  | Power power_mode
  | Review_standards string
  | Usage_audit bool
  | Flow string
  | Launch_roles "string list"
  | Remediate string

definition on_off :: "bool \<Rightarrow> json" where
  "on_off b = JStr (if b then ''on'' else ''off'')"

definition apply_assignment :: "assignment_of \<Rightarrow> jobject \<Rightarrow> jobject" where
  "apply_assignment a ob =
     (case a of
        Launch_mode m \<Rightarrow> put_key ''launch_mode'' (JStr (case m of Detached \<Rightarrow> ''detached'' | Tui \<Rightarrow> ''tui'')) ob
      | Launch_catchup b \<Rightarrow>
          put_key ''launch'' (JObj (put_key ''catchup'' (on_off b) (section_of (map_of ob ''launch'')))) ob
      | Review_standards s \<Rightarrow> put_key ''review_standards'' (JStr s) ob
      | Usage_audit b \<Rightarrow> put_key ''usage_audit'' (on_off b) ob
      | Flow m \<Rightarrow> put_key ''flow_mode'' (JStr m) ob
      | Launch_roles rs \<Rightarrow>
          put_key ''auto'' (JObj (put_key ''launch_roles'' (JArr (map JStr rs)) (section_of (map_of ob ''auto'')))) ob
      | Remediate r \<Rightarrow>
          put_key ''auto'' (JObj (put_key ''remediate'' (JStr r)
            (let sec = section_of (map_of ob ''auto'') in
             (''launch_roles'', case map_of sec ''launch_roles'' of Some v \<Rightarrow> v | None \<Rightarrow> JArr []) #
               filter (\<lambda>(k, _). k \<noteq> ''launch_roles'') sec))) ob
      | Power p \<Rightarrow>
          put_key ''power'' (JObj (put_key ''mode'' (JStr (case p of Herdr \<Rightarrow> ''herdr'' | Standalone \<Rightarrow> ''standalone''))
            (section_of (map_of ob ''power'')))) ob)"

definition writeConfigKey :: "assignment_of \<Rightarrow> config_file \<Rightarrow> config_error + jobject \<times> config_file" where
  "writeConfigKey a = update_config (apply_assignment a)"

section \<open>The values of \<open>tut config set\<close>\<close>

definition KNOWN_ROLES :: "string list" where
  "KNOWN_ROLES = [''architect'', ''executor'', ''reviewer'']"

definition CONFIG_KEYS :: "string list" where
  "CONFIG_KEYS = [''flow_mode'', ''launch_mode'', ''launch.catchup'', ''power.mode'', ''auto.launch_roles'', ''auto.remediate'',
     ''usage_audit'', ''review_standards'']"

definition trim_ascii :: "string \<Rightarrow> string" where
  "trim_ascii s = rev (dropWhile is_space (rev (dropWhile is_space s)))"

fun split_at :: "char \<Rightarrow> string \<Rightarrow> string list" where
  "split_at d [] = [[]]"
| "split_at d (c # cs) =
     (if c = d then [] # split_at d cs
      else (case split_at d cs of w # ws' \<Rightarrow> (c # w) # ws' | [] \<Rightarrow> [[c]]))"

fun join_with :: "char \<Rightarrow> string list \<Rightarrow> string" where
  "join_with d [] = []"
| "join_with d [w] = w"
| "join_with d (w # v # ws') = w @ d # join_with d (v # ws')"

definition control_char :: "char \<Rightarrow> bool" where
  "control_char c \<longleftrightarrow> (of_char c :: nat) < 32 \<or> (of_char c :: nat) = 127"

definition review_items :: "string \<Rightarrow> string list" where
  "review_items raw = (if trim_ascii raw = [] then [] else map trim_ascii (split_at (CHR '','') raw))"

definition parseReviewStandards :: "json option \<Rightarrow> config_error + string" where
  "parseReviewStandards raw =
     (case raw of
        Some (JStr s) \<Rightarrow>
          if \<not> list_ex control_char s \<and> list_all (\<lambda>i. i \<noteq> []) (review_items s)
          then Inr (join_with (CHR '','') (review_items s)) else Inl (Invalid_value ''review_standards'' s)
      | _ \<Rightarrow> Inl (Invalid_value ''review_standards'' []))"

fun parse_roles :: "string list \<Rightarrow> string list \<Rightarrow> config_error + string list" where
  "parse_roles [] roles = Inr roles"
| "parse_roles (piece # ps) roles =
     (let role = trim_ascii piece in
      if role = [] then parse_roles ps roles
      else if role \<notin> set KNOWN_ROLES then Inl (Invalid_role role)
      else parse_roles ps (if role \<in> set roles then roles else roles @ [role]))"

definition one_of_two :: "string \<Rightarrow> string \<Rightarrow> string \<Rightarrow> (bool \<Rightarrow> assignment_of) \<Rightarrow> string \<Rightarrow> config_error + assignment_of" where
  "one_of_two key no yes a raw = (if raw = no then Inr (a False) else if raw = yes then Inr (a True) else Inl (Invalid_value key raw))"

text \<open>For a key outside the list the code falls through to the roles, as here.\<close>

definition parseConfigValue :: "string \<Rightarrow> string \<Rightarrow> config_error + assignment_of" where
  "parseConfigValue key raw =
     (if key = ''launch_mode'' then
        (case launchModeOf (Some (JStr raw)) of Some m \<Rightarrow> Inr (Launch_mode m) | None \<Rightarrow> Inl (Invalid_value key raw))
      else if key = ''launch.catchup'' then one_of_two key ''off'' ''on'' Launch_catchup raw
      else if key = ''review_standards'' then map_sum id Review_standards (parseReviewStandards (Some (JStr raw)))
      else if key = ''usage_audit'' then one_of_two key ''off'' ''on'' Usage_audit raw
      else if key = ''flow_mode'' then one_of_two key ''manual'' ''auto'' (\<lambda>b. Flow (if b then ''auto'' else ''manual'')) raw
      else if key = ''auto.remediate'' then
        one_of_two key ''off'' ''enter-repress'' (\<lambda>b. Remediate (if b then ''enter-repress'' else ''off'')) raw
      else if key = ''power.mode'' then one_of_two key ''herdr'' ''standalone'' (\<lambda>b. Power (if b then Standalone else Herdr)) raw
      else map_sum id Launch_roles (parse_roles (split_at (CHR '','') raw) []))"

section \<open>What is set is read\<close>

text \<open>What the readers make of a key after it was assigned.\<close>

definition reads_as :: "assignment_of \<Rightarrow> config_file \<Rightarrow> bool" where
  "reads_as a f =
     (case a of
        Launch_mode m \<Rightarrow> readLaunchMode f = Inr m
      | Launch_catchup b \<Rightarrow> readLaunchCatchup f = Inr b
      | Power p \<Rightarrow> readPowerMode f = Inr p \<and> readPowerModeForSwitch f = Inr p
      | Flow m \<Rightarrow> readFlowMode f = m
      | Launch_roles rs \<Rightarrow> map_option sa_launch_roles (autoSectionOf (readConfig f)) = Some (Some (JArr (map JStr rs)))
      | Remediate r \<Rightarrow> map_option sa_remediate (autoSectionOf (readConfig f)) = Some (Some r)
      | Review_standards s \<Rightarrow> Option.bind (readConfig f) (\<lambda>ob. map_of ob ''review_standards'') = Some (JStr s)
      | Usage_audit b \<Rightarrow> Option.bind (readConfig f) (\<lambda>ob. map_of ob ''usage_audit'') = Some (on_off b))"

text \<open>The top-level key an assignment touches.\<close>

definition touched_key :: "assignment_of \<Rightarrow> string" where
  "touched_key a =
     (case a of Launch_mode _ \<Rightarrow> ''launch_mode'' | Launch_catchup _ \<Rightarrow> ''launch'' | Power _ \<Rightarrow> ''power''
      | Review_standards _ \<Rightarrow> ''review_standards'' | Usage_audit _ \<Rightarrow> ''usage_audit'' | Flow _ \<Rightarrow> ''flow_mode''
      | Launch_roles _ \<Rightarrow> ''auto'' | Remediate _ \<Rightarrow> ''auto'')"

definition subkey :: "assignment_of \<Rightarrow> string" where
  "subkey a =
     (case a of Launch_catchup _ \<Rightarrow> ''catchup'' | Power _ \<Rightarrow> ''mode'' | Launch_roles _ \<Rightarrow> ''launch_roles''
      | Remediate _ \<Rightarrow> ''remediate'' | _ \<Rightarrow> [])"

lemma apply_other: "k \<noteq> touched_key a \<Longrightarrow> map_of (apply_assignment a ob) k = map_of ob k"
  by (cases a) (simp_all add: apply_assignment_def touched_key_def put_key_get)

lemma filtered_get: "map_of (filter (\<lambda>(k, _). k \<noteq> x) sec) k = (if k = x then None else map_of sec k)"
  by (induction sec) auto

lemma apply_sibling:
  assumes "map_of ob (touched_key a) = Some (JObj sec)" and "subkey a \<noteq> []" and "k \<noteq> subkey a"
    and "a \<noteq> Remediate r \<or> map_of sec k \<noteq> None" and "map_of sec k = Some v"
  shows "\<exists>sec'. map_of (apply_assignment a ob) (touched_key a) = Some (JObj sec') \<and> map_of sec' k = Some v"
  using assms by (cases a) (auto simp: apply_assignment_def touched_key_def subkey_def put_key_get section_of_def Let_def filtered_get)

definition flow_value :: "assignment_of \<Rightarrow> bool" where
  "flow_value a = (case a of Flow m \<Rightarrow> m \<in> {''manual'', ''auto''} | Remediate r \<Rightarrow> r \<in> {''off'', ''enter-repress''} | _ \<Rightarrow> True)"

lemma apply_flow:
  assumes "parseConfigStrict (JObj ob) = Some ob" and "flow_value a"
  shows "parseConfigStrict (JObj (apply_assignment a ob)) = Some (apply_assignment a ob)"
proof (cases "touched_key a = ''flow_mode''")
  case True
  then obtain m where "a = Flow m" by (cases a) (auto simp: touched_key_def)
  then show ?thesis using assms(2) by (auto simp: parseConfigStrict_def apply_assignment_def put_key_get flow_value_def)
next
  case False
  then show ?thesis using assms(1) apply_other [of "''flow_mode''" a ob] by (simp add: parseConfigStrict_def split: if_splits)
qed

lemma default_strict: "parseConfigStrict (JObj DEFAULT_CONFIG) = Some DEFAULT_CONFIG"
  by (simp add: parseConfigStrict_def DEFAULT_CONFIG_def)

lemma strict_object: "parseConfigStrict v = Some ob \<Longrightarrow> v = JObj ob"
  by (cases v) (auto simp: parseConfigStrict_def split: if_splits)

lemma update_config_cases:
  assumes "update_config g f = Inr (ob', f')"
  obtains ob where "parseConfigStrict (JObj ob) = Some ob" and "f = Holds (JObj ob) \<or> f = No_file \<and> ob = DEFAULT_CONFIG"
    and "ob' = g ob" and "f' = Holds (JObj (g ob))"
proof (cases f)
  case No_file
  then show thesis using that [OF default_strict] assms by (auto simp: update_config_def readConfigFile_def)
next
  case (Holds v)
  then obtain ob where p: "parseConfigStrict v = Some ob" and e: "ob' = g ob" "f' = Holds (JObj (g ob))"
    using assms by (auto simp: update_config_def readConfigFile_def split: option.splits)
  have "v = JObj ob" by (rule strict_object [OF p])
  then show thesis using that p e Holds by blast
qed (use assms in \<open>simp_all add: update_config_def readConfigFile_def\<close>)

lemma map_sum_Inr_iff: "map_sum id f x = Inr y \<longleftrightarrow> (\<exists>z. x = Inr z \<and> y = f z)"
  by (cases x) auto

lemma parsed_flow_value: "parseConfigValue key raw = Inr a \<Longrightarrow> flow_value a"
  by (auto simp: parseConfigValue_def one_of_two_def flow_value_def map_sum_Inr_iff split: if_splits option.splits)

lemma read_after:
  assumes "parseConfigStrict (JObj ob) = Some ob" and "flow_value a"
  shows "readConfigFile (Holds (JObj (apply_assignment a ob))) = Read_ok (apply_assignment a ob)"
  using apply_flow [OF assms] by (simp add: readConfigFile_def)

lemma string_list_JStr: "string_list (JArr (map JStr rs))"
  by (simp add: string_list_def list_all_iff)

lemma applied_reads:
  assumes "parseConfigStrict (JObj ob) = Some ob" and "flow_value a"
  shows "reads_as a (Holds (JObj (apply_assignment a ob)))"
proof -
  note r = read_after [OF assms]
  have c: "readConfig (Holds (JObj (apply_assignment a ob))) = Some (apply_assignment a ob)" by (simp add: readConfig_def r)
  show ?thesis
  proof (cases a)
    case (Launch_mode m)
    then show ?thesis using r
      by (cases m) (simp_all add: reads_as_def readLaunchMode_def apply_assignment_def put_key_get launchModeOf_def)
  next
    case (Launch_catchup b)
    then show ?thesis using r
      by (simp add: reads_as_def readLaunchCatchup_def apply_assignment_def put_key_get is_object_def on_off_def)
  next
    case (Power p)
    then show ?thesis using r
      by (cases p) (simp_all add: reads_as_def readPowerMode_def readPowerModeForSwitch_def apply_assignment_def put_key_get
          powerModeOf_def is_object_def)
  next
    case (Flow m)
    then show ?thesis using r by (simp add: reads_as_def readFlowMode_def apply_assignment_def put_key_get)
  next
    case (Launch_roles rs)
    then show ?thesis using c string_list_JStr [of rs]
      by (simp add: reads_as_def autoSectionOf_def apply_assignment_def put_key_get is_object_def Let_def)
  next
    case (Remediate x)
    then show ?thesis using c assms(2)
      by (auto simp: reads_as_def autoSectionOf_def apply_assignment_def put_key_get is_object_def Let_def flow_value_def)
  next
    case (Review_standards s)
    then show ?thesis using c by (simp add: reads_as_def apply_assignment_def put_key_get)
  next
    case (Usage_audit b)
    then show ?thesis using c by (simp add: reads_as_def apply_assignment_def put_key_get)
  qed
qed

text \<open>What \<open>tut config set\<close> accepts and writes is what every reader of that key finds, with no reader
  falling back to a default, and every other key of the file keeps its value.\<close>

theorem config_set_get:
  assumes "parseConfigValue key raw = Inr a" and "writeConfigKey a f = Inr (ob', f')"
  shows "reads_as a f' \<and> (\<forall>ob k. f = Holds (JObj ob) \<and> k \<noteq> touched_key a \<longrightarrow> map_of ob' k = map_of ob k)"
proof -
  obtain ob where o: "parseConfigStrict (JObj ob) = Some ob" "f = Holds (JObj ob) \<or> f = No_file \<and> ob = DEFAULT_CONFIG"
    "ob' = apply_assignment a ob" "f' = Holds (JObj (apply_assignment a ob))"
    using update_config_cases [OF assms(2) [unfolded writeConfigKey_def]] by metis
  have "reads_as a f'" using applied_reads [OF o(1) parsed_flow_value [OF assms(1)]] o(4) by simp
  then show ?thesis using o(2,3) apply_other by auto
qed

definition sample_config :: jobject where
  "sample_config = [(''flow_mode'', JStr ''auto''), (''notify'', JNull), (''auto'', JObj [(''launch_roles'', JNum 1)])]"

theorem config_set_get_witness:
  "\<exists>ob' f'. writeConfigKey (Launch_roles [''executor'', ''reviewer'']) (Holds (JObj sample_config)) = Inr (ob', f') \<and>
    reads_as (Launch_roles [''executor'', ''reviewer'']) f' \<and> map_of ob' ''notify'' = Some JNull"
proof -
  have p: "parseConfigValue ''auto.launch_roles'' '' executor,,reviewer,executor'' = Inr (Launch_roles [''executor'', ''reviewer''])"
    by (simp add: parseConfigValue_def trim_ascii_def is_space_def KNOWN_ROLES_def)
  obtain ob' f' where w: "writeConfigKey (Launch_roles [''executor'', ''reviewer'']) (Holds (JObj sample_config)) = Inr (ob', f')"
    by (simp add: writeConfigKey_def update_config_def readConfigFile_def parseConfigStrict_def sample_config_def)
  show ?thesis
    using config_set_get [OF p w] w by (auto simp: touched_key_def sample_config_def)
qed

text \<open>The whitelist that \<open>tut config set\<close> accepts has known roles only, each once.\<close>

lemma parse_roles_ok:
  "\<lbrakk>parse_roles ps roles = Inr rs; distinct roles; set roles \<subseteq> set KNOWN_ROLES\<rbrakk> \<Longrightarrow> distinct rs \<and> set rs \<subseteq> set KNOWN_ROLES"
  by (induction ps arbitrary: roles) (auto simp: Let_def split: if_splits)

text \<open>A configuration that cannot be read is never replaced.\<close>

lemma unreadable_config_kept:
  "readConfigFile f = Read_invalid \<Longrightarrow> writeConfigKey a f = Inl Config_unreadable \<and> writeFlowMode m f = Inl Config_unreadable"
  by (simp add: writeConfigKey_def writeFlowMode_def update_config_def)

text \<open>A section with an unusable whitelist and a \<open>remediate\<close> reads as an explicit empty whitelist, not as absent.\<close>

lemma unusable_whitelist_present:
  "autoSectionOf (Some [(''auto'', JObj [(''launch_roles'', JNum 1), (''remediate'', JStr ''off'')])]) =
    Some \<lparr>sa_remediate = Some ''off'', sa_launch_roles = Some (JArr [])\<rparr>"
  by (simp add: autoSectionOf_def is_object_def string_list_def)

end
