(* ===== verification/Live_Layout.thy ===== *)
theory Live_Layout
  imports Resume "HOL-Library.List_Lexorder" "HOL-Library.Char_ord"
begin

text \<open>
  The layout of the live view, \<open>src/herdr/live-view/layout.ts\<close>: the strict validation of a declared grid
  of seats and one poll's resolution of a seat to a run of the archive.

  Seat identifiers and labels are strings of code units; positions are pairs, where the code prints the
  pair into one string to use it as a set element.  \<open>localeCompare\<close> compares collation keys; the key is the
  argument \<open>key\<close>.  Error texts are a datatype.
\<close>

section \<open>Declaration\<close>

datatype seat_selector = Task_role string string | Run_id string

record seat_spec =
  ss_id :: string
  ss_row :: nat
  ss_column :: nat
  ss_label :: "string option"
  ss_selector :: seat_selector

record layout_spec =
  ly_rows :: nat
  ly_columns :: nat
  ly_seats :: "seat_spec list"

datatype layout_error =
    Not_an_object
  | Bad_schema
  | Bad_rows
  | Bad_columns
  | Seats_not_array
  | No_seats
  | Too_many_seats
  | Seat_not_object
  | Bad_seat_id
  | Duplicate_seat_id string
  | Bad_row string
  | Bad_column string
  | Cell_occupied string
  | Bad_label string
  | Bad_selector string
  | Bad_task string
  | Bad_role string
  | Bad_run_id string
  | Bad_selector_keys string
  | Not_json

definition control :: "char \<Rightarrow> bool" where
  "control c \<longleftrightarrow> (of_char c :: nat) < 32"

definition control_or_del :: "char \<Rightarrow> bool" where
  "control_or_del c \<longleftrightarrow> control c \<or> (of_char c :: nat) = 127"

text \<open>A safe integer in \<open>lo..hi\<close>.\<close>

definition int_between :: "int \<Rightarrow> int \<Rightarrow> json option \<Rightarrow> nat option" where
  "int_between lo hi v = (case safe_int v of None \<Rightarrow> None | Some n \<Rightarrow> if n < lo \<or> hi < n then None else Some (nat n))"

definition seat_id :: "json option \<Rightarrow> string option" where
  "seat_id v =
     (case v of
        Some (JStr s) \<Rightarrow> if s = [] \<or> 64 < length s \<or> list_ex control_or_del s then None else Some s
      | _ \<Rightarrow> None)"

definition seat_label :: "json option \<Rightarrow> string option option" where
  "seat_label v =
     (case v of
        None \<Rightarrow> Some None
      | Some (JStr s) \<Rightarrow> if s = [] \<or> 64 < length s \<or> list_ex control s then None else Some (Some s)
      | _ \<Rightarrow> None)"

definition line_break :: "char \<Rightarrow> bool" where
  "line_break c \<longleftrightarrow> c \<in> {CHR 0x00, CHR 0x0A, CHR 0x0D}"

fun join_comma :: "string list \<Rightarrow> string" where
  "join_comma [] = []"
| "join_comma [k] = k"
| "join_comma (k # ks) = k @ '','' @ join_comma ks"

definition SEAT_ROLES :: "string list" where
  "SEAT_ROLES = [''architect'', ''executor'', ''reviewer'']"

definition parse_selector :: "string \<Rightarrow> json option \<Rightarrow> layout_error + seat_selector" where
  "parse_selector i v =
     (case v of
        Some (JObj sel) \<Rightarrow>
          (let keys = join_comma (sort (map fst sel)) in
           if keys = ''role,task_id'' then
             (case string_of (pget sel ''task_id'') of
                None \<Rightarrow> Inl (Bad_task i)
              | Some t \<Rightarrow>
                  if t = [] \<or> list_ex line_break t then Inl (Bad_task i)
                  else (case string_of (pget sel ''role'') of
                          None \<Rightarrow> Inl (Bad_role i)
                        | Some r \<Rightarrow> if r \<in> set SEAT_ROLES then Inr (Task_role t r) else Inl (Bad_role i)))
           else if keys = ''run_id'' then
             (case string_of (pget sel ''run_id'') of
                None \<Rightarrow> Inl (Bad_run_id i)
              | Some r \<Rightarrow> if run_id_text r then Inr (Run_id r) else Inl (Bad_run_id i))
           else Inl (Bad_selector_keys i))
      | _ \<Rightarrow> Inl (Bad_selector i))"

text \<open>One seat against the identifiers and the cells taken so far.\<close>

definition parse_seat :: "nat \<Rightarrow> nat \<Rightarrow> string list \<Rightarrow> (nat \<times> nat) list \<Rightarrow> json \<Rightarrow> layout_error + seat_spec" where
  "parse_seat rows columns ids cells raw =
     (if \<not> is_plain_object raw then Inl Seat_not_object
      else case seat_id (jget raw ''id'') of
        None \<Rightarrow> Inl Bad_seat_id
      | Some i \<Rightarrow>
          if i \<in> set ids then Inl (Duplicate_seat_id i)
          else (case int_between 0 (int rows - 1) (jget raw ''row'') of
            None \<Rightarrow> Inl (Bad_row i)
          | Some r \<Rightarrow>
              (case int_between 0 (int columns - 1) (jget raw ''column'') of
                 None \<Rightarrow> Inl (Bad_column i)
               | Some c \<Rightarrow>
                   if (r, c) \<in> set cells then Inl (Cell_occupied i)
                   else (case seat_label (jget raw ''label'') of
                     None \<Rightarrow> Inl (Bad_label i)
                   | Some l \<Rightarrow>
                       rbind (parse_selector i (jget raw ''selector'')) (\<lambda>sel.
                         Inr \<lparr>ss_id = i, ss_row = r, ss_column = c, ss_label = l, ss_selector = sel\<rparr>)))))"

definition cell_of :: "seat_spec \<Rightarrow> nat \<times> nat" where
  "cell_of s = (ss_row s, ss_column s)"

fun parse_seats :: "nat \<Rightarrow> nat \<Rightarrow> seat_spec list \<Rightarrow> json list \<Rightarrow> layout_error + seat_spec list" where
  "parse_seats rows columns seats [] = Inr seats"
| "parse_seats rows columns seats (raw # rest) =
     rbind (parse_seat rows columns (map ss_id seats) (map cell_of seats) raw) (\<lambda>s.
       parse_seats rows columns (seats @ [s]) rest)"

definition parseLayout :: "json \<Rightarrow> layout_error + layout_spec" where
  "parseLayout v =
     (if \<not> is_plain_object v then Inl Not_an_object
      else if jget v ''schema'' \<noteq> Some (JNum 1) then Inl Bad_schema
      else case int_between 1 16 (jget v ''rows'') of
        None \<Rightarrow> Inl Bad_rows
      | Some rows \<Rightarrow>
          (case int_between 1 16 (jget v ''columns'') of
             None \<Rightarrow> Inl Bad_columns
           | Some columns \<Rightarrow>
               (case jget v ''seats'' of
                  Some (JArr raws) \<Rightarrow>
                    if raws = [] then Inl No_seats
                    else if rows * columns < length raws then Inl Too_many_seats
                    else rbind (parse_seats rows columns [] raws) (\<lambda>seats.
                           Inr \<lparr>ly_rows = rows, ly_columns = columns, ly_seats = seats\<rparr>)
                | _ \<Rightarrow> Inl Seats_not_array)))"

definition parseLayoutText :: "(string \<Rightarrow> json option) \<Rightarrow> string \<Rightarrow> layout_error + layout_spec" where
  "parseLayoutText parse s = (case parse s of None \<Rightarrow> Inl Not_json | Some v \<Rightarrow> parseLayout v)"

section \<open>Resolution\<close>

datatype seat_resolution =
    Show_run string
  | Waiting
  | Conflict "string list"
  | Unknown_run string
  | Store_unreadable string

definition owned_by :: "string \<Rightarrow> string \<Rightarrow> run_meta \<Rightarrow> bool" where
  "owned_by task role m \<longleftrightarrow>
     rm_task_id m = Some task \<and> (case rm_headless m of None \<Rightarrow> False | Some h \<Rightarrow> jget h ''role'' = Some (JStr role))"

definition seat_matches :: "run_dir list \<Rightarrow> string \<Rightarrow> string \<Rightarrow> string list \<Rightarrow> (string \<times> run_meta) list" where
  "seat_matches store task role ids =
     List.map_filter (\<lambda>i. case read_run store i of
         Some m \<Rightarrow> if owned_by task role m then Some (i, m) else None
       | None \<Rightarrow> None) ids"

text \<open>The first element of the sort by start time and then run id, both descending.\<close>

definition newer :: "(string \<Rightarrow> 'k::linorder) \<Rightarrow> string \<times> run_meta \<Rightarrow> string \<times> run_meta \<Rightarrow> bool" where
  "newer key a b \<longleftrightarrow>
     key (rm_started_at (snd b)) < key (rm_started_at (snd a)) \<or>
     key (rm_started_at (snd b)) = key (rm_started_at (snd a)) \<and> key (fst b) < key (fst a)"

definition latest_match :: "(string \<Rightarrow> 'k::linorder) \<Rightarrow> string \<times> run_meta \<Rightarrow> (string \<times> run_meta) list \<Rightarrow> string \<times> run_meta" where
  "latest_match key m ms = foldl (\<lambda>b a. if newer key a b then a else b) m ms"

definition resolveSeat :: "(string \<Rightarrow> 'k::linorder) \<Rightarrow> run_dir list \<Rightarrow> seat_selector \<Rightarrow> string list option \<Rightarrow> seat_resolution" where
  "resolveSeat key store sel runIds =
     (case sel of
        Run_id i \<Rightarrow> (case read_run store i of None \<Rightarrow> Unknown_run i | Some _ \<Rightarrow> Show_run i)
      | Task_role task role \<Rightarrow>
          (let ids = (case runIds of None \<Rightarrow> map rd_id store | Some is \<Rightarrow> is);
               matches = seat_matches store task role ids;
               unreadable = filter (\<lambda>i. read_run store i = None) ids;
               incomplete = filter (\<lambda>(_, m). \<not> complete m) matches
           in case incomplete of
                [x] \<Rightarrow> Show_run (fst x)
              | x # y # rest \<Rightarrow> Conflict (map fst incomplete)
              | [] \<Rightarrow>
                  (case matches of
                     m # ms \<Rightarrow> Show_run (fst (latest_match key m ms))
                   | [] \<Rightarrow>
                       (case unreadable of
                          u # _ \<Rightarrow> if list_all (\<lambda>i. i \<in> set unreadable) ids then Store_unreadable u else Waiting
                        | [] \<Rightarrow> Waiting))))"

section \<open>An accepted layout\<close>

lemma int_between_Some: "int_between lo hi v = Some n \<Longrightarrow> 0 \<le> lo \<Longrightarrow> lo \<le> int n \<and> int n \<le> hi"
  by (auto simp: int_between_def split: option.splits if_splits)

lemma parse_seat_ok:
  assumes "parse_seat rows columns ids cells raw = Inr s"
  shows "ss_row s < rows \<and> ss_column s < columns \<and> ss_id s \<notin> set ids \<and> cell_of s \<notin> set cells \<and>
    jget raw ''id'' = Some (JStr (ss_id s)) \<and> 1 \<le> length (ss_id s) \<and> length (ss_id s) \<le> 64 \<and>
    parse_selector (ss_id s) (jget raw ''selector'') = Inr (ss_selector s)"
proof -
  from assms obtain i r c l sel where i: "seat_id (jget raw ''id'') = Some i" "i \<notin> set ids"
    and r: "int_between 0 (int rows - 1) (jget raw ''row'') = Some r"
    and c: "int_between 0 (int columns - 1) (jget raw ''column'') = Some c" "(r, c) \<notin> set cells"
    and sel: "parse_selector i (jget raw ''selector'') = Inr sel"
    and s: "s = \<lparr>ss_id = i, ss_row = r, ss_column = c, ss_label = l, ss_selector = sel\<rparr>"
    by (auto simp: parse_seat_def rbind_Inr_iff split: if_splits option.splits)
  from int_between_Some [OF r] int_between_Some [OF c(1)] have "r < rows" "c < columns" by simp_all
  moreover from i(1) have "jget raw ''id'' = Some (JStr i)" "i \<noteq> []" "length i \<le> 64"
    by (auto simp: seat_id_def split: option.splits json.splits if_splits)
  ultimately show ?thesis
    using i(2) c(2) sel by (simp add: s cell_of_def Suc_le_eq)
qed

text \<open>What the seats accepted so far satisfy: inside the grid, no two with one identifier or one cell.\<close>

definition seats_ok :: "nat \<Rightarrow> nat \<Rightarrow> seat_spec list \<Rightarrow> bool" where
  "seats_ok rows columns seats \<longleftrightarrow>
     list_all (\<lambda>s. ss_row s < rows \<and> ss_column s < columns) seats \<and> distinct (map ss_id seats) \<and> distinct (map cell_of seats)"

lemma parse_seats_ok:
  assumes "parse_seats rows columns seats raws = Inr out" and "seats_ok rows columns seats"
  shows "seats_ok rows columns out \<and> length out = length seats + length raws"
  using assms
proof (induction raws arbitrary: seats)
  case (Cons raw raws)
  then obtain s where s: "parse_seat rows columns (map ss_id seats) (map cell_of seats) raw = Inr s"
    and rest: "parse_seats rows columns (seats @ [s]) raws = Inr out"
    by (auto simp: rbind_Inr_iff)
  have "seats_ok rows columns (seats @ [s])"
    using parse_seat_ok [OF s] Cons.prems(2) by (simp add: seats_ok_def)
  from Cons.IH [OF rest this] show ?case by simp
qed simp

lemma parse_seats_prefix:
  "parse_seats rows columns seats raws = Inr out \<Longrightarrow>
     \<exists>new. out = seats @ new \<and>
       list_all2 (\<lambda>raw s. jget raw ''id'' = Some (JStr (ss_id s)) \<and>
         parse_selector (ss_id s) (jget raw ''selector'') = Inr (ss_selector s)) raws new"
proof (induction raws arbitrary: seats)
  case (Cons raw raws)
  then obtain s where s: "parse_seat rows columns (map ss_id seats) (map cell_of seats) raw = Inr s"
    and rest: "parse_seats rows columns (seats @ [s]) raws = Inr out"
    by (auto simp: rbind_Inr_iff)
  from Cons.IH [OF rest] parse_seat_ok [OF s] show ?case by auto
qed simp

text \<open>An accepted layout stays inside its bounds: the grid is at most 16 by 16, there is at least one
  seat and no more seats than cells, every seat lies inside the grid, no two seats share an identifier or
  a cell, and nothing declared is dropped or reordered: the accepted seats carry the declared identifiers
  and selectors one by one.\<close>

theorem layout_within_grid:
  assumes "parseLayout v = Inr l"
  shows "1 \<le> ly_rows l \<and> ly_rows l \<le> 16 \<and> 1 \<le> ly_columns l \<and> ly_columns l \<le> 16 \<and>
    1 \<le> length (ly_seats l) \<and> length (ly_seats l) \<le> ly_rows l * ly_columns l \<and>
    (\<forall>s\<in>set (ly_seats l). ss_row s < ly_rows l \<and> ss_column s < ly_columns l) \<and>
    distinct (map ss_id (ly_seats l)) \<and> distinct (map cell_of (ly_seats l)) \<and>
    (\<exists>raws. jget v ''seats'' = Some (JArr raws) \<and>
      list_all2 (\<lambda>raw s. jget raw ''id'' = Some (JStr (ss_id s)) \<and>
        parse_selector (ss_id s) (jget raw ''selector'') = Inr (ss_selector s)) raws (ly_seats l))"
proof -
  from assms obtain rows columns raws seats where
    r: "int_between 1 16 (jget v ''rows'') = Some rows" and c: "int_between 1 16 (jget v ''columns'') = Some columns"
    and raws: "jget v ''seats'' = Some (JArr raws)" "raws \<noteq> []" "length raws \<le> rows * columns"
    and ps: "parse_seats rows columns [] raws = Inr seats"
    and l: "l = \<lparr>ly_rows = rows, ly_columns = columns, ly_seats = seats\<rparr>"
    by (auto simp: parseLayout_def rbind_Inr_iff split: if_splits option.splits json.splits)
  have "seats_ok rows columns [] " by (simp add: seats_ok_def)
  from parse_seats_ok [OF ps this] have ok: "seats_ok rows columns seats" "length seats = length raws" by simp_all
  from raws(2,3) ok(2) have "1 \<le> length seats" "length seats \<le> rows * columns" by (simp_all add: Suc_le_eq)
  moreover from int_between_Some [OF r] int_between_Some [OF c] have "1 \<le> rows" "rows \<le> 16" "1 \<le> columns" "columns \<le> 16"
    by simp_all
  ultimately show ?thesis
    using ok(1) parse_seats_prefix [OF ps] raws(1) by (simp add: l seats_ok_def list_all_iff)
qed

definition small_layout :: json where
  "small_layout = JObj [(''schema'', JNum 1), (''rows'', JNum 1), (''columns'', JNum 2), (''seats'', JArr
     [JObj [(''id'', JStr ''a''), (''row'', JNum 0), (''column'', JNum 1),
        (''selector'', JObj [(''task_id'', JStr ''t''), (''role'', JStr ''executor'')])]])]"

lemma small_layout_accepted:
  "\<exists>l. parseLayout small_layout = Inr l"
proof -
  have k: "sort [''task_id'', ''role''] = [''role'', ''task_id'']"
    by (simp add: less_eq_char_def list_le_def list_less_def)
  have z: "int_between 0 0 (Some (JNum 0)) = Some 0" "int_between 0 1 (Some (JNum 1)) = Some 1"
    "int_between 1 16 (Some (JNum 1)) = Some 1" "int_between 1 16 (Some (JNum 2)) = Some 2"
    by (simp_all add: int_between_def safe_int_def is_integer_def MAX_SAFE_INTEGER_def)
  have ps: "parse_selector ''a'' (Some (JObj [(''task_id'', JStr ''t''), (''role'', JStr ''executor'')])) = Inr (Task_role ''t'' ''executor'')"
    by (simp add: parse_selector_def k SEAT_ROLES_def line_break_def del: sort_key_simps)
  have si: "seat_id (Some (JStr ''a'')) = Some ''a''"
    by (simp add: seat_id_def control_or_del_def control_def)
  show ?thesis
    by (simp add: parseLayout_def small_layout_def is_plain_object_def z parse_seat_def ps si seat_label_def)
qed

theorem layout_within_grid_witness:
  "\<exists>l. parseLayout small_layout = Inr l \<and> length (ly_seats l) \<le> ly_rows l * ly_columns l"
proof -
  obtain l where l: "parseLayout small_layout = Inr l" using small_layout_accepted by blast
  from layout_within_grid [OF l] l show ?thesis by blast
qed

section \<open>What a seat shows\<close>

lemma latest_match_in: "latest_match key m ms \<in> set (m # ms)"
  unfolding latest_match_def by (induction ms arbitrary: m) auto

lemma newer_trans: "newer key a b \<Longrightarrow> \<not> newer key c b \<Longrightarrow> \<not> newer key c a"
  by (auto simp: newer_def)

lemma latest_match_latest: "x \<in> set (m # ms) \<Longrightarrow> \<not> newer key x (latest_match key m ms)"
  unfolding latest_match_def
proof (induction ms arbitrary: m x)
  case Nil
  then show ?case by (simp add: newer_def)
next
  case (Cons a ms)
  let ?b = "if newer key a m then a else m"
  have b: "\<not> newer key ?b (foldl (\<lambda>b a. if newer key a b then a else b) ?b ms)"
    by (rule Cons.IH) simp
  have le: "\<not> newer key y ?b" if "y \<in> {a, m}" for y
    using that by (auto simp: newer_def)
  consider "x \<in> set ms" | "x \<in> {a, m}" using Cons.prems by auto
  then show ?case
  proof cases
    case 1
    then show ?thesis using Cons.IH [of x ?b] by simp
  next
    case 2
    from le [OF this] b show ?thesis
      by (simp only: foldl_Cons) (auto simp: newer_def)
  qed
qed

lemma seat_matches_iff:
  "(i, m) \<in> set (seat_matches store task role ids) \<longleftrightarrow> i \<in> set ids \<and> read_run store i = Some m \<and> owned_by task role m"
  by (force simp: seat_matches_def map_filter_def split: option.splits if_splits)

definition poll_ids :: "run_dir list \<Rightarrow> string list option \<Rightarrow> string list" where
  "poll_ids store runIds = (case runIds of None \<Rightarrow> map rd_id store | Some is \<Rightarrow> is)"

text \<open>Run \<open>i\<close> of the poll is readable and owned by the task under the role.\<close>

definition seat_owns :: "run_dir list \<Rightarrow> string list option \<Rightarrow> string \<Rightarrow> string \<Rightarrow> string \<Rightarrow> run_meta \<Rightarrow> bool" where
  "seat_owns store runIds task role i m \<longleftrightarrow>
     i \<in> set (poll_ids store runIds) \<and> read_run store i = Some m \<and> owned_by task role m"

text \<open>A seat declared for a task and a role never shows another's run and never picks silently between
  two live ones: a run is shown only if it is owned by that task under that role and is the only unfinished
  one, or, when all of them are finished, none of them started later (or, at the same start, has a greater
  identifier); a conflict names every unfinished run of the pair and there are at least two; \<open>Waiting\<close>
  means there is no readable run of the pair.\<close>

theorem seat_shows_own_run:
  assumes "distinct (poll_ids store runIds)"
  shows "case resolveSeat key store (Task_role task role) runIds of
      Show_run i \<Rightarrow> (\<exists>m. seat_owns store runIds task role i m \<and>
        (if complete m then (\<forall>j n. seat_owns store runIds task role j n \<longrightarrow> complete n \<and> \<not> newer key (j, n) (i, m))
         else (\<forall>j n. seat_owns store runIds task role j n \<longrightarrow> \<not> complete n \<longrightarrow> j = i)))
    | Conflict is \<Rightarrow> 2 \<le> card (set is) \<and> set is = {i. \<exists>m. seat_owns store runIds task role i m \<and> \<not> complete m}
    | Waiting \<Rightarrow> \<not> (\<exists>i m. seat_owns store runIds task role i m)
    | Store_unreadable i \<Rightarrow> \<not> (\<exists>i m. read_run store i = Some m \<and>
        i \<in> set (poll_ids store runIds))
    | Unknown_run i \<Rightarrow> False"
proof -
  define ids where "ids = poll_ids store runIds"
  define owned where "owned = seat_owns store runIds task role"
  define ms where "ms = seat_matches store task role ids"
  define inc where "inc = filter (\<lambda>(_, m). \<not> complete m) ms"
  define un where "un = filter (\<lambda>i. read_run store i = None) ids"
  have owned: "owned i m \<longleftrightarrow> (i, m) \<in> set ms" for i m
    by (simp add: owned_def seat_owns_def ms_def seat_matches_iff ids_def)
  have inc_iff: "(i, m) \<in> set inc \<longleftrightarrow> owned i m \<and> \<not> complete m" for i m
    by (auto simp: inc_def owned)
  have dist: "distinct (map fst inc)"
  proof -
    have "distinct (map fst (List.map_filter (\<lambda>i. case read_run store i of
         Some m \<Rightarrow> if owned_by task role m then Some (i, m) else None | None \<Rightarrow> None) is))" if "distinct is" for "is"
      using that by (induction "is") (force simp: map_filter_def split: option.splits if_splits)+
    from this [of ids] assms(1) have "distinct (map fst ms)" by (simp add: ms_def seat_matches_def ids_def)
    then show ?thesis by (simp add: inc_def distinct_map_filter)
  qed
  have res: "resolveSeat key store (Task_role task role) runIds =
      (case inc of [x] \<Rightarrow> Show_run (fst x) | x # y # rest \<Rightarrow> Conflict (map fst inc)
       | [] \<Rightarrow> (case ms of m # ms \<Rightarrow> Show_run (fst (latest_match key m ms))
            | [] \<Rightarrow> (case un of u # _ \<Rightarrow> if list_all (\<lambda>i. i \<in> set un) ids then Store_unreadable u else Waiting | [] \<Rightarrow> Waiting)))"
    unfolding resolveSeat_def Let_def inc_def un_def ms_def ids_def poll_ids_def by simp
  consider (two) x y rest where "inc = x # y # rest" | (one) x where "inc = [x]"
    | (ended) m rest where "inc = []" "ms = m # rest" | (none) "inc = []" "ms = []"
    by (metis neq_Nil_conv)
  then show ?thesis
  proof cases
    case two
    have "card (set (map fst inc)) = length inc" using dist by (metis distinct_card length_map)
    moreover have "set (map fst inc) = {i. \<exists>m. owned i m \<and> \<not> complete m}"
      using inc_iff by (auto simp: image_iff) (metis fst_conv)
    moreover have "resolveSeat key store (Task_role task role) runIds = Conflict (map fst inc)"
      unfolding res by (simp add: two)
    moreover have "2 \<le> length inc" by (simp add: two)
    ultimately show ?thesis by (simp only: seat_resolution.case owned_def [symmetric])
  next
    case one
    then have "(fst x, snd x) \<in> set inc" by simp
    with inc_iff have x: "owned (fst x) (snd x)" "\<not> complete (snd x)" by blast+
    have "j = fst x" if "owned j n" "\<not> complete n" for j n
      using that inc_iff [of j n] one by auto
    note only = this
    have r: "resolveSeat key store (Task_role task role) runIds = Show_run (fst x)"
      unfolding res by (simp add: one)
    show ?thesis
      unfolding r seat_resolution.case owned_def [symmetric]
      by (rule exI [of _ "snd x"]) (simp only: x if_False simp_thms, use only in blast)
  next
    case ended
    let ?l = "latest_match key m rest"
    have l: "(fst ?l, snd ?l) \<in> set ms" using latest_match_in [of key m rest] ended(2) by simp
    have fin: "complete n" if "owned j n" for j n
      using that inc_iff [of j n] ended(1) by auto
    have top: "\<not> newer key (j, n) ?l" if "owned j n" for j n
      using latest_match_latest [of "(j, n)" m rest key] that ended(2) by (simp add: owned)
    have r: "resolveSeat key store (Task_role task role) runIds = Show_run (fst ?l)"
      unfolding res by (simp add: ended)
    have o: "owned (fst ?l) (snd ?l)" using l by (simp add: owned)
    show ?thesis
      unfolding r seat_resolution.case owned_def [symmetric]
      by (rule exI [of _ "snd ?l"]) (use o fin [OF o] fin top in simp)
  next
    case none
    then have no: "\<not> owned i m" for i m by (simp add: owned)
    have un: "read_run store i = None" if "i \<in> set un" for i
      using that by (simp add: un_def)
    show ?thesis
    proof (cases "un \<noteq> [] \<and> list_all (\<lambda>i. i \<in> set un) ids")
      case True
      then have r: "resolveSeat key store (Task_role task role) runIds = Store_unreadable (hd un)"
        unfolding res by (auto simp: none split: list.split)
      show ?thesis
        unfolding r seat_resolution.case using True un by (auto simp: list_all_iff ids_def)
    next
      case False
      then have r: "resolveSeat key store (Task_role task role) runIds = Waiting"
        unfolding res by (auto simp: none split: list.split)
      show ?thesis
        unfolding r seat_resolution.case owned_def [symmetric] using no by blast
    qed
  qed
qed

definition live_executor :: run_meta where
  "live_executor = finished_codex_run\<lparr>rm_status := Running, rm_ended_at := None,
     rm_headless := Some (JObj [(''role'', JStr ''executor'')])\<rparr>"

definition crowded_store :: "run_dir list" where
  "crowded_store = map (\<lambda>i. \<lparr>rd_id = i, rd_meta = Some live_executor, rd_resume = None, rd_start = None\<rparr>) [''r1'', ''r2'']"

theorem seat_shows_own_run_witness:
  "resolveSeat id crowded_store (Task_role ''t'' ''executor'') None = Conflict [''r1'', ''r2''] \<and>
    {''r1'', ''r2''} = {i. \<exists>m. seat_owns crowded_store None ''t'' ''executor'' i m \<and> \<not> complete m}"
proof -
  have d: "distinct (poll_ids crowded_store None)" by (simp add: poll_ids_def crowded_store_def)
  have m: "owned_by ''t'' ''executor'' live_executor" "\<not> complete live_executor"
    by (simp_all add: owned_by_def complete_def live_executor_def finished_codex_run_def)
  have rd: "read_run crowded_store ''r1'' = Some live_executor" "read_run crowded_store ''r2'' = Some live_executor"
    by (simp_all add: read_run_def crowded_store_def)
  have r: "resolveSeat (id :: string \<Rightarrow> string) crowded_store (Task_role ''t'' ''executor'') None = Conflict [''r1'', ''r2'']"
  proof -
    have ids: "map rd_id crowded_store = [''r1'', ''r2'']" by (simp add: crowded_store_def)
    have "seat_matches crowded_store ''t'' ''executor'' [''r1'', ''r2''] = [(''r1'', live_executor), (''r2'', live_executor)]"
      by (simp add: seat_matches_def map_filter_def rd m)
    then show ?thesis by (simp add: resolveSeat_def ids m)
  qed
  from seat_shows_own_run [OF d, where key = "id :: string \<Rightarrow> string" and task = "''t''" and role = "''executor''"]
  have "set [''r1'', ''r2''] = {i. \<exists>m. seat_owns crowded_store None ''t'' ''executor'' i m \<and> \<not> complete m}"
    unfolding r seat_resolution.case by (rule conjunct2)
  with r show ?thesis by simp
qed

end
