(* ===== verification/Workspace.thy ===== *)
theory Workspace
  imports Agent_Command
begin

text \<open>
  The routing chain of \<open>src/core/common/workspace.ts\<close>: which agent serves a role.  A task's cast wins, then
  the project's \<open>workspace.json\<close> (the checkout's own, supplemented by the shared Hub's), then the user's,
  then the built-in lineup.

  The disk is a function from a directory and a file below it to the file's text (\<open>None\<close> where the read
  fails) and \<open>parse\<close> is \<open>JSON.parse\<close>; \<open>resolve\<close> is \<open>path.resolve\<close>.  Reading \<open>o[role]\<close> in JavaScript also finds the
  members that every object inherits, so a lookup has three outcomes here.
\<close>

section \<open>Property lookup\<close>

text \<open>The members of \<open>Object.prototype\<close>; all are functions except the accessor \<open>__proto__\<close>, whose value is an object.\<close>

definition OBJECT_MEMBERS :: "string list" where
  "OBJECT_MEMBERS = [''constructor'', ''__defineGetter__'', ''__defineSetter__'', ''hasOwnProperty'', ''__lookupGetter__'',
     ''__lookupSetter__'', ''isPrototypeOf'', ''propertyIsEnumerable'', ''toString'', ''valueOf'', ''__proto__'', ''toLocaleString'']"

datatype 'a js_property = Own 'a | Inherited | Undefined

definition js_lookup :: "(string \<times> 'a) list \<Rightarrow> string \<Rightarrow> 'a js_property" where
  "js_lookup ob k =
     (case map_of ob k of Some v \<Rightarrow> Own v | None \<Rightarrow> if k \<in> set OBJECT_MEMBERS then Inherited else Undefined)"

text \<open>An assignment to \<open>__proto__\<close> creates no property.\<close>

definition assignable :: "string \<Rightarrow> bool" where
  "assignable k \<longleftrightarrow> k \<noteq> ''__proto__''"

section \<open>Reading the levels\<close>

definition DEFAULT_ROLES :: "(string \<times> string) list" where
  "DEFAULT_ROLES = [(''architect'', ''codex''), (''executor'', ''pi''), (''reviewer'', ''codex'')]"

definition UNKNOWN_ROLE_AGENT :: string where "UNKNOWN_ROLE_AGENT = ''codex''"

definition DEFAULT_TAB_LABEL :: string where "DEFAULT_TAB_LABEL = ''TUT {role}''"

datatype route_origin = Task_cast | Workspace_project | Workspace_user | Builtin_default

type_synonym role_map = "(string \<times> agent_route) list"

record workspace_levels =
  wl_roles :: "role_map \<times> role_map"
  wl_label :: "string option \<times> string option"

type_synonym disk = "string \<Rightarrow> string \<Rightarrow> string option"

definition readJson :: "(string \<Rightarrow> json option) \<Rightarrow> string option \<Rightarrow> jobject option" where
  "readJson parse content =
     (case Option.bind content parse of Some (JObj ob) \<Rightarrow> Some ob | _ \<Rightarrow> None)"

definition entry_route :: "json \<Rightarrow> agent_route option" where
  "entry_route e =
     (case e of
        JObj raw \<Rightarrow>
          (case pget raw ''agent'' of
             Some (JStr agent) \<Rightarrow>
               if agent = [] then None
               else (case (case pget raw ''args'' of
                        None \<Rightarrow> parseAgentRoute agent
                      | Some args \<Rightarrow> validateAgentRoute (Some (JObj [(''agent'', JStr agent), (''args'', args)]))) of
                       Inr r \<Rightarrow> Some r | Inl _ \<Rightarrow> None)
           | _ \<Rightarrow> None)
      | _ \<Rightarrow> None)"

definition role_entries :: "jobject option \<Rightarrow> jobject" where
  "role_entries raw = (case Option.bind raw (\<lambda>ob. map_of ob ''roles'') of Some (JObj roles) \<Rightarrow> roles | _ \<Rightarrow> [])"

definition parseRoles :: "jobject option \<Rightarrow> role_map" where
  "parseRoles raw =
     List.map_filter (\<lambda>(role, e). if assignable role then map_option (Pair role) (entry_route e) else None) (role_entries raw)"

definition parseTabLabel :: "jobject option \<Rightarrow> string option" where
  "parseTabLabel raw =
     (case Option.bind raw (\<lambda>ob. map_of ob ''naming'') of
        Some (JObj naming) \<Rightarrow>
          (case string_of (map_of naming ''tab_label'') of Some s \<Rightarrow> if s = [] then None else Some s | None \<Rightarrow> None)
      | _ \<Rightarrow> None)"

text \<open>\<open>{...base, ...over}\<close>\<close>

definition spread :: "role_map \<Rightarrow> role_map \<Rightarrow> role_map" where
  "spread base over =
     map (\<lambda>(k, v). (k, case map_of over k of Some w \<Rightarrow> w | None \<Rightarrow> v)) base
     @ filter (\<lambda>(k, _). k \<notin> set (map fst base)) over"

text \<open>\<open>a ?? b\<close>\<close>

definition or_else :: "'a option \<Rightarrow> 'a option \<Rightarrow> 'a option" where
  "or_else a b = (case a of Some x \<Rightarrow> Some x | None \<Rightarrow> b)"

definition readLevels ::
  "(string \<Rightarrow> json option) \<Rightarrow> (string \<Rightarrow> string) \<Rightarrow> disk \<Rightarrow> string \<Rightarrow> string \<Rightarrow> string option \<Rightarrow> workspace_levels" where
  "readLevels parse resolve disk projectRoot userConfigDir fallbackRoot =
     (let l1 = readJson parse (disk projectRoot ''.context-hub/workspace.json'');
          fallback = (case fallbackRoot of
              Some f \<Rightarrow> if resolve f \<noteq> projectRoot then readJson parse (disk f ''.context-hub/workspace.json'') else None
            | None \<Rightarrow> None);
          l2 = readJson parse (disk userConfigDir ''workspace.json'')
      in \<lparr>wl_roles = (spread (parseRoles fallback) (parseRoles l1), parseRoles l2),
          wl_label = (or_else (parseTabLabel l1) (parseTabLabel fallback), parseTabLabel l2)\<rparr>)"

record resolve_options =
  ro_project :: string
  ro_fallback :: "string option"
  ro_user :: string

definition readWorkspaceConfigSnapshot ::
  "(string \<Rightarrow> json option) \<Rightarrow> (string \<Rightarrow> string) \<Rightarrow> disk \<Rightarrow> resolve_options \<Rightarrow> workspace_levels" where
  "readWorkspaceConfigSnapshot parse resolve disk opts =
     readLevels parse resolve disk (resolve (ro_project opts)) (resolve (ro_user opts)) (map_option resolve (ro_fallback opts))"

section \<open>Resolution\<close>

definition parseRouteForResolution :: "agent_route \<Rightarrow> agent_command_error + agent_route" where
  "parseRouteForResolution route =
     (case route of Bare s \<Rightarrow> parseAgentRoute s | Command _ \<Rightarrow> validateAgentRoute (Some (route_json route)))"

text \<open>What a resolution hands out: a route, or the member an unlucky role name found on the prototype.\<close>

datatype route_value = Route agent_route | Prototype_member

definition builtin_route :: "string \<Rightarrow> route_value" where
  "builtin_route role =
     (case js_lookup DEFAULT_ROLES role of
        Own agent \<Rightarrow> Route (Bare agent) | Inherited \<Rightarrow> Prototype_member | Undefined \<Rightarrow> Route (Bare UNKNOWN_ROLE_AGENT))"

definition resolveAgentRouteWithSource ::
  "string \<Rightarrow> cast option \<Rightarrow> workspace_levels \<Rightarrow> agent_command_error + route_value \<times> route_origin" where
  "resolveAgentRouteWithSource role cast levels =
     (case (case cast of None \<Rightarrow> Undefined | Some c \<Rightarrow> js_lookup c role) of
        Own r \<Rightarrow> rbind (parseRouteForResolution r) (\<lambda>v. Inr (Route v, Task_cast))
      | Inherited \<Rightarrow> Inl (if role = ''__proto__'' then Empty_token else Not_a_command)
      | Undefined \<Rightarrow>
          Inr (case js_lookup (fst (wl_roles levels)) role of
                 Own r \<Rightarrow> (Route r, Workspace_project)
               | Inherited \<Rightarrow> (Prototype_member, Workspace_project)
               | Undefined \<Rightarrow>
                   (case js_lookup (snd (wl_roles levels)) role of
                      Own r \<Rightarrow> (Route r, Workspace_user)
                    | Inherited \<Rightarrow> (Prototype_member, Workspace_user)
                    | Undefined \<Rightarrow> (builtin_route role, Builtin_default))))"

definition resolveAgentRoute :: "string \<Rightarrow> cast option \<Rightarrow> workspace_levels \<Rightarrow> agent_command_error + route_value" where
  "resolveAgentRoute role cast levels = rbind (resolveAgentRouteWithSource role cast levels) (\<lambda>r. Inr (fst r))"

definition resolveAgent :: "string \<Rightarrow> cast option \<Rightarrow> workspace_levels \<Rightarrow> agent_command_error + string" where
  "resolveAgent role cast levels =
     rbind (resolveAgentRoute role cast levels) (\<lambda>v.
       case v of Route r \<Rightarrow> formatAgentRoute r
       | Prototype_member \<Rightarrow> Inl (if role = ''__proto__'' then Empty_token else Not_a_command))"

definition resolveTabLabelTemplate :: "workspace_levels \<Rightarrow> string" where
  "resolveTabLabelTemplate levels =
     (case or_else (fst (wl_label levels)) (snd (wl_label levels)) of Some s \<Rightarrow> s | None \<Rightarrow> DEFAULT_TAB_LABEL)"

section \<open>The levels of the chain\<close>

definition project_file :: "(string \<Rightarrow> json option) \<Rightarrow> (string \<Rightarrow> string) \<Rightarrow> disk \<Rightarrow> resolve_options \<Rightarrow> jobject option" where
  "project_file parse resolve disk opts = readJson parse (disk (resolve (ro_project opts)) ''.context-hub/workspace.json'')"

definition fallback_file :: "(string \<Rightarrow> json option) \<Rightarrow> (string \<Rightarrow> string) \<Rightarrow> disk \<Rightarrow> resolve_options \<Rightarrow> jobject option" where
  "fallback_file parse resolve disk opts =
     (case ro_fallback opts of
        None \<Rightarrow> None
      | Some f \<Rightarrow>
          if resolve (resolve f) = resolve (ro_project opts) then None
          else readJson parse (disk (resolve f) ''.context-hub/workspace.json''))"

definition user_file :: "(string \<Rightarrow> json option) \<Rightarrow> (string \<Rightarrow> string) \<Rightarrow> disk \<Rightarrow> resolve_options \<Rightarrow> jobject option" where
  "user_file parse resolve disk opts = readJson parse (disk (resolve (ro_user opts)) ''workspace.json'')"

text \<open>What a file declares for a role: nothing where the entry is missing or malformed.\<close>

definition declared :: "jobject option \<Rightarrow> string \<Rightarrow> agent_route option" where
  "declared raw role = Option.bind (map_of (role_entries raw) role) entry_route"

lemma snapshot_levels:
  "readWorkspaceConfigSnapshot parse resolve disk opts =
     \<lparr>wl_roles = (spread (parseRoles (fallback_file parse resolve disk opts)) (parseRoles (project_file parse resolve disk opts)),
        parseRoles (user_file parse resolve disk opts)),
      wl_label = (or_else (parseTabLabel (project_file parse resolve disk opts)) (parseTabLabel (fallback_file parse resolve disk opts)),
        parseTabLabel (user_file parse resolve disk opts))\<rparr>"
  by (simp add: readWorkspaceConfigSnapshot_def readLevels_def project_file_def fallback_file_def user_file_def Let_def
      split: option.split)

lemma map_of_declared:
  assumes "distinct (map fst es)" and "assignable role"
  shows "map_of (List.map_filter (\<lambda>(role, e). if assignable role then map_option (Pair role) (entry_route e) else None) es) role =
    Option.bind (map_of es role) entry_route"
  using assms(1)
proof (induction es)
  case Nil
  then show ?case by (simp add: map_filter_def)
next
  case (Cons e es)
  obtain k v where e: "e = (k, v)" by (cases e)
  let ?f = "\<lambda>(role, e). if assignable role then map_option (Pair role) (entry_route e) else None"
  have none: "map_of (List.map_filter ?f es) k = None" if "k \<notin> fst ` set es"
    using that by (force simp: map_filter_def map_of_eq_None_iff split: if_splits)
  show ?case
    using Cons none assms(2) by (cases "entry_route v") (auto simp: e map_filter_simps)
qed

lemma parseRoles_declared:
  "distinct (map fst (role_entries raw)) \<Longrightarrow> assignable role \<Longrightarrow> map_of (parseRoles raw) role = declared raw role"
  by (simp add: parseRoles_def declared_def map_of_declared)

lemma map_of_spread: "map_of (spread base over) k = or_else (map_of over k) (map_of base k)"
proof -
  have b: "map_of (map (\<lambda>(k, v). (k, case map_of over k of Some w \<Rightarrow> w | None \<Rightarrow> v)) base) k =
      map_option (\<lambda>v. case map_of over k of Some w \<Rightarrow> w | None \<Rightarrow> v) (map_of base k)"
    by (induction base) (auto split: option.split)
  have f: "map_of (filter (\<lambda>(k, _). k \<notin> set (map fst base)) over) k = (if k \<in> set (map fst base) then None else map_of over k)"
    by (induction over) force+
  have m: "k \<in> set (map fst base) \<longleftrightarrow> map_of base k \<noteq> None"
    by (simp add: map_of_eq_None_iff)
  show ?thesis
    unfolding spread_def map_of_append map_add_def b f m
    by (cases "map_of base k"; cases "map_of over k") (simp_all add: or_else_def)
qed

lemma map_of_filtered: "map_of (List.map_filter g es) role = Some r \<Longrightarrow> \<exists>k v. (k, v) \<in> set es \<and> g (k, v) = Some (role, r)"
  by (force simp: map_filter_def dest!: map_of_SomeD)

lemma entry_route_tokens: "entry_route e = Some r \<Longrightarrow> list_all SHELL_NEUTRAL_TOKEN (route_tokens r)"
  by (auto simp: entry_route_def split: json.splits option.splits if_splits sum.splits
      dest: parseAgentRoute_Inr validateAgentRoute_tokens)

lemma parseRoles_tokens: "map_of (parseRoles raw) role = Some r \<Longrightarrow> list_all SHELL_NEUTRAL_TOKEN (route_tokens r)"
  unfolding parseRoles_def by (auto dest!: map_of_filtered split: if_splits dest: entry_route_tokens)

text \<open>C39. The routing chain, exactly: for a role that is no member of JavaScript's object prototype, the cast
  of the task decides alone, and its error is the error of the resolution; without one the first of the
  project's own file, the shared Hub's file, the user's file and the built-in lineup that declares the role
  well decides, whatever the files say of other roles, and the reported source is that level.\<close>

theorem routing_precedence:
  assumes "role \<notin> set OBJECT_MEMBERS"
    and "distinct (map fst (role_entries (project_file parse resolve disk opts)))"
    and "distinct (map fst (role_entries (fallback_file parse resolve disk opts)))"
    and "distinct (map fst (role_entries (user_file parse resolve disk opts)))"
  shows "resolveAgentRouteWithSource role cast (readWorkspaceConfigSnapshot parse resolve disk opts) =
    (case Option.bind cast (\<lambda>c. map_of c role) of
       Some r \<Rightarrow> (case parseRouteForResolution r of Inl e \<Rightarrow> Inl e | Inr v \<Rightarrow> Inr (Route v, Task_cast))
     | None \<Rightarrow> Inr (case declared (project_file parse resolve disk opts) role of
         Some r \<Rightarrow> (Route r, Workspace_project)
       | None \<Rightarrow> (case declared (fallback_file parse resolve disk opts) role of
         Some r \<Rightarrow> (Route r, Workspace_project)
       | None \<Rightarrow> (case declared (user_file parse resolve disk opts) role of
         Some r \<Rightarrow> (Route r, Workspace_user)
       | None \<Rightarrow> (Route (Bare (case map_of DEFAULT_ROLES role of Some a \<Rightarrow> a | None \<Rightarrow> UNKNOWN_ROLE_AGENT)), Builtin_default)))))"
proof -
  have a: "assignable role" using assms(1) by (auto simp: assignable_def OBJECT_MEMBERS_def)
  have jr: "js_lookup m role = (case map_of m role of Some v \<Rightarrow> Own v | None \<Rightarrow> Undefined)" for m :: role_map
    using assms(1) by (simp add: js_lookup_def)
  have c: "(case cast of None \<Rightarrow> Undefined | Some c \<Rightarrow> js_lookup c role) =
      (case Option.bind cast (\<lambda>c. map_of c role) of Some v \<Rightarrow> Own v | None \<Rightarrow> Undefined)"
    by (cases cast) (simp_all add: jr)
  have b: "builtin_route role = Route (Bare (case map_of DEFAULT_ROLES role of Some a \<Rightarrow> a | None \<Rightarrow> UNKNOWN_ROLE_AGENT))"
    using assms(1) by (simp add: builtin_route_def js_lookup_def split: option.split)
  have p: "js_lookup (spread (parseRoles (fallback_file parse resolve disk opts)) (parseRoles (project_file parse resolve disk opts))) role =
      (case or_else (declared (project_file parse resolve disk opts) role) (declared (fallback_file parse resolve disk opts) role) of
         Some v \<Rightarrow> Own v | None \<Rightarrow> Undefined)"
    by (simp add: jr map_of_spread parseRoles_declared [OF assms(2) a] parseRoles_declared [OF assms(3) a])
  have u: "js_lookup (parseRoles (user_file parse resolve disk opts)) role =
      (case declared (user_file parse resolve disk opts) role of Some v \<Rightarrow> Own v | None \<Rightarrow> Undefined)"
    by (simp add: jr parseRoles_declared [OF assms(4) a])
  show ?thesis
    unfolding resolveAgentRouteWithSource_def c snapshot_levels workspace_levels.simps fst_conv snd_conv p u b
    by (cases "Option.bind cast (\<lambda>c. map_of c role)"; cases "declared (project_file parse resolve disk opts) role";
        cases "declared (fallback_file parse resolve disk opts) role"; cases "declared (user_file parse resolve disk opts) role")
      (simp_all add: or_else_def rbind_def)
qed

lemma neutral_route_normalizes:
  assumes "list_all SHELL_NEUTRAL_TOKEN (route_tokens r)"
  shows "\<exists>c. normalizeAgentRoute r = Inr c"
proof (cases r)
  case (Bare s)
  with assms show ?thesis
    by (simp add: route_tokens_def normalizeAgentRoute_def route_json_def validateAgentRoute_def parse_single)
next
  case (Command c)
  with assms have "validateAgentToken (Some (JStr (ac_agent c))) = Inr (ac_agent c)"
    "traverse (\<lambda>x. validateAgentToken (Some x)) (map JStr (ac_args c)) = Inr (ac_args c)"
    by (simp_all add: route_tokens_def traverse_validate_tokens validateAgentToken_Inr_iff)
  with Command show ?thesis
    by (simp add: normalizeAgentRoute_def route_json_def validateAgentRoute_def)
qed

text \<open>Whatever level decides, the route handed to a launcher is made of shell-neutral tokens, and its
  one-line form exists and reads back as the same command: a malformed workspace file can only lose a role,
  never smuggle syntax into a command line.\<close>

theorem resolved_route_is_neutral:
  assumes "resolveAgentRouteWithSource role cast (readWorkspaceConfigSnapshot parse resolve disk opts) = Inr (Route r, origin)"
  shows "list_all SHELL_NEUTRAL_TOKEN (route_tokens r) \<and>
    (\<exists>c line r'. normalizeAgentRoute r = Inr c \<and>
      resolveAgent role cast (readWorkspaceConfigSnapshot parse resolve disk opts) = Inr line \<and>
      parseAgentRoute line = Inr r' \<and> normalizeAgentRoute r' = Inr c)"
proof -
  let ?levels = "readWorkspaceConfigSnapshot parse resolve disk opts"
  have d: "list_all SHELL_NEUTRAL_TOKEN (route_tokens r)" if "builtin_route role = Route r"
    using that by (auto simp: builtin_route_def js_lookup_def DEFAULT_ROLES_def UNKNOWN_ROLE_AGENT_def route_tokens_def
        SHELL_NEUTRAL_TOKEN_def neutral_char_def split: if_splits)
  have p: "list_all SHELL_NEUTRAL_TOKEN (route_tokens r)" if "parseRouteForResolution r0 = Inr r" for r0
    using that by (auto simp: parseRouteForResolution_def split: agent_route.splits
        dest: parseAgentRoute_Inr validateAgentRoute_tokens)
  have l: "list_all SHELL_NEUTRAL_TOKEN (route_tokens r)"
    if "js_lookup (fst (wl_roles ?levels)) role = Own r \<or> js_lookup (snd (wl_roles ?levels)) role = Own r"
    using that parseRoles_tokens
    by (auto simp: snapshot_levels js_lookup_def map_of_spread or_else_def split: option.splits if_splits)
  from assms d p l have tok: "list_all SHELL_NEUTRAL_TOKEN (route_tokens r)"
    by (auto simp: resolveAgentRouteWithSource_def rbind_Inr_iff split: option.splits js_property.splits)
  from neutral_route_normalizes [OF tok] obtain c where c: "normalizeAgentRoute r = Inr c" by blast
  from formatAgentRoute_roundtrip [OF this] obtain line r' where
    "formatAgentRoute r = Inr line" "parseAgentRoute line = Inr r'" "normalizeAgentRoute r' = Inr c" by blast
  with tok c show ?thesis
    by (simp add: resolveAgent_def resolveAgentRoute_def assms)
qed

text \<open>A concrete chain: the checkout's file misspells the executor and leaves the reviewer to the Hub's file.\<close>

definition sample_opts :: resolve_options where
  "sample_opts = \<lparr>ro_project = ''/w'', ro_fallback = Some ''/hub'', ro_user = ''/u''\<rparr>"

definition sample_disk :: disk where
  "sample_disk d f = (if d = ''/w'' \<or> d = ''/hub'' then Some d else None)"

definition sample_parse :: "string \<Rightarrow> json option" where
  "sample_parse s =
     (if s = ''/w'' then Some (JObj [(''roles'', JObj [(''executor'', JObj [(''agent'', JStr ''a;b'')])])])
      else Some (JObj [(''roles'', JObj [(''reviewer'', JObj [(''agent'', JStr ''pi'')])])]))"

lemma sample_files:
  "role_entries (project_file sample_parse id sample_disk sample_opts) = [(''executor'', JObj [(''agent'', JStr ''a;b'')])]"
  "role_entries (fallback_file sample_parse id sample_disk sample_opts) = [(''reviewer'', JObj [(''agent'', JStr ''pi'')])]"
  "role_entries (user_file sample_parse id sample_disk sample_opts) = []"
  by (simp_all add: project_file_def fallback_file_def user_file_def role_entries_def readJson_def sample_parse_def sample_disk_def
      sample_opts_def)

lemma sample_entries:
  "entry_route (JObj [(''agent'', JStr ''a;b'')]) = None"
  "entry_route (JObj [(''agent'', JStr ''pi'')]) = Some (Bare ''pi'')"
proof -
  have w: "split_words ''a;b'' = [''a;b'']"
    by (simp add: split_words.simps [of "''a;b''"] split_words.simps [of "[]"] is_space_def)
  show "entry_route (JObj [(''agent'', JStr ''a;b'')]) = None"
    by (simp add: entry_route_def parseAgentRoute_def w blank_def is_space_def validateAgentToken_def SHELL_NEUTRAL_TOKEN_def
        neutral_char_def)
  show "entry_route (JObj [(''agent'', JStr ''pi'')]) = Some (Bare ''pi'')"
    using parse_single [of "''pi''"] by (simp add: entry_route_def SHELL_NEUTRAL_TOKEN_def neutral_char_def)
qed

theorem routing_precedence_witness:
  "resolveAgentRouteWithSource ''executor'' None (readWorkspaceConfigSnapshot sample_parse id sample_disk sample_opts) =
    Inr (Route (Bare ''pi''), Builtin_default)"
  by (subst routing_precedence)
    (simp_all add: OBJECT_MEMBERS_def sample_files declared_def sample_entries DEFAULT_ROLES_def)

theorem resolved_route_is_neutral_witness:
  "list_all SHELL_NEUTRAL_TOKEN (route_tokens (Bare ''pi''))"
proof -
  have "map_of (parseRoles (fallback_file sample_parse id sample_disk sample_opts)) ''reviewer'' = Some (Bare ''pi'')"
    "map_of (parseRoles (project_file sample_parse id sample_disk sample_opts)) ''reviewer'' = None"
    by (simp_all add: parseRoles_declared assignable_def sample_files declared_def sample_entries)
  then have "resolveAgentRouteWithSource ''reviewer'' None (readWorkspaceConfigSnapshot sample_parse id sample_disk sample_opts) =
      Inr (Route (Bare ''pi''), Workspace_project)"
    by (simp add: resolveAgentRouteWithSource_def snapshot_levels js_lookup_def map_of_spread or_else_def)
  from resolved_route_is_neutral [OF this] show ?thesis by blast
qed

text \<open>A role that names a member of the object prototype is resolved to that member, as if the project had
  declared it, and no display form exists.\<close>

lemma prototype_role_resolves:
  assumes "role \<in> set OBJECT_MEMBERS" and "map_of (fst (wl_roles levels)) role = None"
  shows "resolveAgentRouteWithSource role None levels = Inr (Prototype_member, Workspace_project)"
    and "\<exists>e. resolveAgent role None levels = Inl e"
  using assms by (simp_all add: resolveAgent_def resolveAgentRoute_def resolveAgentRouteWithSource_def js_lookup_def)

end
