(* ===== verification/Stats.thy ===== *)
theory Stats
  imports Store Run_Meta
begin

text \<open>
  The statistics of \<open>src/core/stats.ts\<close>: what a task's log says of its reviews, roles and revisions, what its
  usage sidecar says of tokens and cost, and the aggregate over the hub.

  Counters are the numbers of the code: natural numbers where the code only increments, integers checked
  against the safe range where it adds measured tokens.  Costs are finite doubles, kept as rationals; the
  rounded addition of doubles is the argument \<open>fadd\<close> (\<open>None\<close> when the sum is not finite), and \<open>date\<close> is
  \<open>Date.parse\<close> (\<open>None\<close> for NaN).  The task log comes from the store of this development; the sidecar is the
  argument \<open>usage\<close>: \<open>None\<close> where reading it throws, \<open>JNull\<close> where the file is missing.
\<close>

section \<open>Counters\<close>

definition VERDICTS :: "string list" where
  "VERDICTS = [''pass'', ''blocked_external'', ''fail_code'', ''fail_design'']"

type_synonym counts = "(string \<times> nat) list"

definition count_of :: "counts \<Rightarrow> string \<Rightarrow> nat" where
  "count_of c k = (case map_of c k of None \<Rightarrow> 0 | Some n \<Rightarrow> n)"

definition increment :: "counts \<Rightarrow> string \<Rightarrow> nat \<Rightarrow> counts" where
  "increment c k amount = AList.update k (count_of c k + amount) c"

definition rate :: "nat \<Rightarrow> nat \<Rightarrow> rat option" where
  "rate passed n = (if n \<noteq> 0 then Some (of_nat passed / of_nat n) else None)"

datatype usage_error =
    Not_an_usage_object
  | Bad_counter
  | Bad_timestamp
  | Bad_source
  | Bad_window
  | Bad_schema_version
  | Bad_attribution
  | Bad_route agent_command_error
  | Agent_mismatch
  | Bad_token_total
  | Bad_cost
  | Bad_unresolved
  | Bad_totals
  | Token_overflow
  | Cost_overflow
  | Unreadable_usage

definition safeAdd :: "int \<Rightarrow> int \<Rightarrow> usage_error + int" where
  "safeAdd a b = (if \<bar>a + b\<bar> \<le> int MAX_SAFE_INTEGER then Inr (a + b) else Inl Token_overflow)"

record tokens =
  tk_rounds :: int
  tk_input :: int
  tk_output :: int
  tk_total :: int
  tk_cost :: "rat option"

type_synonym agent_tokens = "(string \<times> tokens) list"

definition no_tokens :: tokens where
  "no_tokens = \<lparr>tk_rounds = 0, tk_input = 0, tk_output = 0, tk_total = 0, tk_cost = Some 0\<rparr>"

definition add_cost :: "(rat \<Rightarrow> rat \<Rightarrow> rat option) \<Rightarrow> rat option \<Rightarrow> rat option \<Rightarrow> usage_error + rat option" where
  "add_cost fadd a b =
     (case (a, b) of
        (Some x, Some y) \<Rightarrow> (case fadd x y of None \<Rightarrow> Inl Cost_overflow | Some s \<Rightarrow> Inr (Some s))
      | _ \<Rightarrow> Inr None)"

definition addTokens :: "(rat \<Rightarrow> rat \<Rightarrow> rat option) \<Rightarrow> agent_tokens \<Rightarrow> string \<Rightarrow> tokens \<Rightarrow> usage_error + agent_tokens" where
  "addTokens fadd target agent source =
     (let old = (case map_of target agent of None \<Rightarrow> no_tokens | Some t \<Rightarrow> t) in
      rbind (add_cost fadd (tk_cost old) (tk_cost source)) (\<lambda>cost.
      rbind (safeAdd (tk_rounds old) (tk_rounds source)) (\<lambda>rounds.
      rbind (safeAdd (tk_input old) (tk_input source)) (\<lambda>inp.
      rbind (safeAdd (tk_output old) (tk_output source)) (\<lambda>out.
      rbind (safeAdd (tk_total old) (tk_total source)) (\<lambda>total.
        Inr (AList.update agent \<lparr>tk_rounds = rounds, tk_input = inp, tk_output = out, tk_total = total, tk_cost = cost\<rparr> target)))))))"

section \<open>The log of a task\<close>

definition isUsageDelivery :: "context_record \<Rightarrow> bool" where
  "isUsageDelivery r \<longleftrightarrow>
     rec_role r = ''architect'' \<and> rec_content_type r = ''design'' \<or>
     rec_role r = ''executor'' \<and> rec_content_type r \<in> {''code_changes'', ''revision''} \<or>
     rec_role r = ''reviewer'' \<and> rec_content_type r = ''review''"

record metric_state =
  ms_cursor :: fold_cursor
  ms_reviews :: counts
  ms_per_role :: counts
  ms_deliveries :: "nat list"
  ms_pending :: "string list"
  ms_launched :: "string list"
  ms_first :: "string option"
  ms_revisions :: nat
  ms_code :: nat

definition WORKER_ROLES :: "string list" where
  "WORKER_ROLES = [''architect'', ''executor'', ''reviewer'']"

text \<open>The worker whose launch a note marks: its role, when its base version is an integer below the note's own.\<close>

definition usage_marker :: "context_record \<Rightarrow> string option" where
  "usage_marker r =
     (if rec_content_type r \<noteq> ''note'' then None
      else case pget (rec_payload r) ''launch'' of
        None \<Rightarrow> None
      | Some marker \<Rightarrow>
          (case (string_of (jget marker ''role''), jget marker ''base_version'') of
             (Some role, Some (JNum q)) \<Rightarrow>
               if role \<in> set WORKER_ROLES \<and> is_integer q \<and> q < of_nat (rec_version r) then Some role else None
           | _ \<Rightarrow> None))"

definition add_new :: "'a \<Rightarrow> 'a list \<Rightarrow> 'a list" where
  "add_new x xs = (if x \<in> set xs then xs else xs @ [x])"

definition coverage_step :: "metric_state \<Rightarrow> context_record \<Rightarrow> metric_state" where
  "coverage_step s r =
     (case usage_marker r of
        Some role \<Rightarrow> s\<lparr>ms_pending := add_new role (ms_pending s), ms_launched := add_new role (ms_launched s)\<rparr>
      | None \<Rightarrow>
          if rec_role r \<in> set (ms_pending s)
          then s\<lparr>ms_pending := filter (\<lambda>x. x \<noteq> rec_role r) (ms_pending s),
                 ms_deliveries := add_new (rec_version r) (ms_deliveries s)\<rparr>
          else if rec_role r \<notin> set (ms_launched s) \<and> isUsageDelivery r
          then s\<lparr>ms_deliveries := add_new (rec_version r) (ms_deliveries s)\<rparr>
          else s)"

definition DELIVERY_TYPES :: "string list" where
  "DELIVERY_TYPES = [''design'', ''code_changes'', ''revision'', ''review'']"

text \<open>What an accepted record adds; \<open>before\<close> is the status it was folded onto.\<close>

definition count_role :: "metric_state \<Rightarrow> context_record \<Rightarrow> metric_state" where
  "count_role s r =
     (if rec_content_type r \<in> set DELIVERY_TYPES
      then s\<lparr>ms_per_role := increment (ms_per_role s) (rec_role r) 1\<rparr> else s)"

definition count_revision :: "flow \<Rightarrow> metric_state \<Rightarrow> context_record \<Rightarrow> metric_state" where
  "count_revision flow s r =
     (if rec_content_type r = ''revision'' then s\<lparr>ms_revisions := Suc (ms_revisions s)\<rparr>
      else if rec_content_type r = ''code_changes''
      then (let n = Suc (ms_code s) in
            s\<lparr>ms_code := n, ms_revisions := (if 1 < n \<and> flow = Solo then Suc (ms_revisions s) else ms_revisions s)\<rparr>)
      else s)"

definition count_review :: "metric_state \<Rightarrow> string \<Rightarrow> metric_state" where
  "count_review s verdict =
     s\<lparr>ms_reviews := increment (ms_reviews s) verdict 1,
       ms_first := (case ms_first s of None \<Rightarrow> Some verdict | Some v \<Rightarrow> Some v)\<rparr>"

definition accepted :: "status \<Rightarrow> fold_cursor \<Rightarrow> context_record \<Rightarrow> bool" where
  "accepted before c r \<longleftrightarrow>
     \<not> (fc_status c = before \<or> rec_content_type r = ''review'' \<and> fc_gate c \<noteq> [])"

definition metric_step :: "flow \<Rightarrow> metric_state \<Rightarrow> context_record \<Rightarrow> metric_state" where
  "metric_step flow s r =
     (let s1 = coverage_step s r;
          before = fc_status (ms_cursor s1);
          c = foldOntoCursor (ms_cursor s1) [r] flow;
          s2 = s1\<lparr>ms_cursor := c\<rparr>
      in if \<not> accepted before c r then s2
         else if rec_content_type r = ''review''
         then (case verdict_of r of
                 Some v \<Rightarrow> if v \<in> set VERDICTS then count_revision flow (count_role (count_review s2 v) r) r else s2
               | None \<Rightarrow> s2)
         else count_revision flow (count_role s2 r) r)"

definition metric_start :: "flow \<Rightarrow> metric_state" where
  "metric_start flow =
     \<lparr>ms_cursor = initialCursor flow, ms_reviews = map (\<lambda>v. (v, 0)) VERDICTS, ms_per_role = [], ms_deliveries = [],
      ms_pending = [], ms_launched = [], ms_first = None, ms_revisions = 0, ms_code = 0\<rparr>"

record task_metrics =
  me_task :: string
  me_title :: string
  me_flow :: flow
  me_status :: "status option"
  me_waiting :: "string option"
  me_attention :: bool
  me_reviews :: counts
  me_review_count :: nat
  me_pass_rate :: "rat option"
  me_first :: "string option"
  me_revisions :: nat
  me_per_role :: counts

definition total_count :: "counts \<Rightarrow> nat" where
  "total_count c = sum_list (map snd c)"

text \<open>The metrics of one task and its set of expected usage deliveries.\<close>

definition taskMetrics :: "string \<Rightarrow> read_result \<Rightarrow> list_entry \<Rightarrow> task_metrics \<times> nat list" where
  "taskMetrics taskId task entry =
     (let flow = effective_flow (rr_flow task);
          s = foldl (metric_step flow) (metric_start flow) (sort_key rec_version (rr_versions task));
          n = total_count (ms_reviews s)
      in (\<lparr>me_task = taskId, me_title = rr_title task, me_flow = flow, me_status = rr_status task,
           me_waiting = map_option (\<lambda>v. ds_waiting_for (dv_state v)) (le_view entry),
           me_attention = (case le_view entry of None \<Rightarrow> False | Some v \<Rightarrow> ds_needs_attention (dv_state v)),
           me_reviews = ms_reviews s, me_review_count = n, me_pass_rate = rate (count_of (ms_reviews s) ''pass'') n,
           me_first = ms_first s, me_revisions = ms_revisions s, me_per_role = ms_per_role s\<rparr>,
          ms_deliveries s))"

section \<open>The usage sidecar\<close>

definition usage_object :: "json option \<Rightarrow> usage_error + json" where
  "usage_object v = (case v of Some (JObj ob) \<Rightarrow> Inr (JObj ob) | _ \<Rightarrow> Inl Not_an_usage_object)"

definition usage_integer :: "json option \<Rightarrow> usage_error + int" where
  "usage_integer v = (case safe_int v of None \<Rightarrow> Inl Bad_counter | Some n \<Rightarrow> if n < 0 then Inl Bad_counter else Inr n)"

definition instant :: "(string \<Rightarrow> rat option) \<Rightarrow> json option \<Rightarrow> usage_error + rat" where
  "instant date v =
     (case string_of v of
        None \<Rightarrow> Inl Bad_timestamp
      | Some s \<Rightarrow> (case date s of None \<Rightarrow> Inl Bad_timestamp | Some t \<Rightarrow> Inr t))"

definition validateUsageSource :: "(string \<Rightarrow> rat option) \<Rightarrow> json \<Rightarrow> usage_error + unit" where
  "validateUsageSource date rd =
     rbind (usage_integer (jget rd ''round'')) (\<lambda>n.
     rbind (guard (1 \<le> n \<and> absolute_string (jget rd ''session_file'')) Bad_source) (\<lambda>_.
     rbind (usage_integer (jget rd ''start_line'')) (\<lambda>first.
     rbind (guard (1 \<le> first) Bad_source) (\<lambda>_.
     rbind (usage_integer (jget rd ''end_line'')) (\<lambda>fin.
     rbind (guard (first < fin) Bad_source) (\<lambda>_.
     rbind (instant date (jget rd ''window_start'')) (\<lambda>start.
     rbind (instant date (jget rd ''ts'')) (\<lambda>ts.
     rbind (instant date (jget rd ''window_end'')) (\<lambda>stop.
       guard (start \<le> ts \<and> ts \<le> stop) Bad_window)))))))))"

definition find_version :: "int \<Rightarrow> context_record list \<Rightarrow> context_record option" where
  "find_version v rs = find (\<lambda>r. int (rec_version r) = v) rs"

text \<open>The sum of all costs: null once one cost is null, otherwise a finite sum or infinity.\<close>

datatype cost_sum = No_cost | Cost rat | Infinite_cost

definition sum_cost :: "(rat \<Rightarrow> rat \<Rightarrow> rat option) \<Rightarrow> cost_sum \<Rightarrow> rat option \<Rightarrow> cost_sum" where
  "sum_cost fadd a b =
     (case (a, b) of
        (No_cost, _) \<Rightarrow> No_cost
      | (_, None) \<Rightarrow> No_cost
      | (Infinite_cost, Some _) \<Rightarrow> Infinite_cost
      | (Cost x, Some y) \<Rightarrow> (case fadd x y of None \<Rightarrow> Infinite_cost | Some s \<Rightarrow> Cost s))"

record usage_state =
  us_agents :: agent_tokens
  us_launches :: "int list"
  us_measured :: "int list"
  us_total :: int
  us_cost :: cost_sum

text \<open>\<open>cost === null || typeof cost === "number" && cost >= 0\<close>\<close>

definition usage_cost :: "json option \<Rightarrow> usage_error + rat option" where
  "usage_cost v =
     (case v of
        Some JNull \<Rightarrow> Inr None
      | Some (JNum q) \<Rightarrow> if 0 \<le> q then Inr (Some q) else Inl Bad_cost
      | _ \<Rightarrow> Inl Bad_cost)"

definition USAGE_AGENTS :: "string list" where
  "USAGE_AGENTS = [''codex'', ''pi'']"

text \<open>The launch and the delivery a round is attributed to; the result is the launch's marker and the agent.\<close>

definition attribute_round ::
  "context_record list \<Rightarrow> nat list \<Rightarrow> usage_state \<Rightarrow> json \<Rightarrow> int \<Rightarrow> int \<Rightarrow> usage_error + string" where
  "attribute_round versions deliveries s r launch delivery =
     (let record = find_version delivery versions;
          launchRecord = find_version launch versions;
          marker = Option.bind launchRecord (\<lambda>l. pget (rec_payload l) ''launch'')
      in rbind (guard (\<not> (launch < 1 \<or> delivery \<le> launch \<or> launch \<in> set (us_launches s) \<or> delivery \<in> set (us_measured s) \<or>
             (\<not> (0 \<le> delivery \<and> nat delivery \<in> set deliveries) \<and> (case record of None \<Rightarrow> True | Some d \<Rightarrow> \<not> isUsageDelivery d)) \<or>
             marker = None \<or> jget r ''role'' \<noteq> map_option (\<lambda>d. JStr (rec_role d)) record \<or>
             \<not> one_of USAGE_AGENTS (jget r ''agent''))) Bad_attribution) (\<lambda>_.
         rbind (usage_object marker) (\<lambda>m.
         rbind (case jget m ''route'' of
                  None \<Rightarrow> Inr (Option.bind record rec_agent)
                | Some v \<Rightarrow>
                    (case validateAgentRoute (Some v) of
                       Inl e \<Rightarrow> Inl (Bad_route e)
                     | Inr (Bare a) \<Rightarrow> Inr (Some a)
                     | Inr (Command c) \<Rightarrow> Inr (Some (ac_agent c)))) (\<lambda>agent.
           if jget m ''role'' \<noteq> jget r ''role'' \<or> map_option JStr agent \<noteq> jget r ''agent'' then Inl Agent_mismatch
           else (case agent of Some a \<Rightarrow> Inr a | None \<Rightarrow> Inl Agent_mismatch)))))"

definition usage_round ::
  "(rat \<Rightarrow> rat \<Rightarrow> rat option) \<Rightarrow> (string \<Rightarrow> rat option) \<Rightarrow> context_record list \<Rightarrow> nat list \<Rightarrow> usage_state \<Rightarrow> json \<Rightarrow> usage_error + usage_state" where
  "usage_round fadd date versions deliveries s item =
     rbind (usage_object (Some item)) (\<lambda>r.
     rbind (validateUsageSource date r) (\<lambda>_.
     rbind (usage_integer (jget r ''launch_version'')) (\<lambda>launch.
     rbind (usage_integer (jget r ''delivery_version'')) (\<lambda>delivery.
     rbind (attribute_round versions deliveries s r launch delivery) (\<lambda>agent.
     rbind (usage_integer (jget r ''input_tokens'')) (\<lambda>inp.
     rbind (usage_integer (jget r ''output_tokens'')) (\<lambda>out.
     rbind (usage_integer (jget r ''total_tokens'')) (\<lambda>tok.
     rbind (safeAdd inp out) (\<lambda>sum.
     rbind (guard (sum = tok) Bad_token_total) (\<lambda>_.
     rbind (usage_cost (jget r ''cost_usd'')) (\<lambda>cost.
     rbind (addTokens fadd (us_agents s) agent \<lparr>tk_rounds = 1, tk_input = inp, tk_output = out, tk_total = tok, tk_cost = cost\<rparr>) (\<lambda>agents.
     rbind (safeAdd (us_total s) tok) (\<lambda>all.
       Inr \<lparr>us_agents = agents, us_launches = launch # us_launches s, us_measured = delivery # us_measured s,
            us_total = all, us_cost = sum_cost fadd (us_cost s) cost\<rparr>)))))))))))))"

fun usage_rounds ::
  "(rat \<Rightarrow> rat \<Rightarrow> rat option) \<Rightarrow> (string \<Rightarrow> rat option) \<Rightarrow> context_record list \<Rightarrow> nat list \<Rightarrow> usage_state \<Rightarrow> json list \<Rightarrow> usage_error + usage_state" where
  "usage_rounds fadd date versions deliveries s [] = Inr s"
| "usage_rounds fadd date versions deliveries s (item # items) =
     rbind (usage_round fadd date versions deliveries s item) (\<lambda>s'. usage_rounds fadd date versions deliveries s' items)"

definition unresolved_ok :: "json \<Rightarrow> usage_error + unit" where
  "unresolved_ok u =
     rbind (usage_object (Some u)) (\<lambda>item.
     rbind (usage_integer (jget item ''delivery_version'')) (\<lambda>v.
       guard (1 \<le> v \<and> string_of (jget item ''reason'') \<noteq> None) Bad_unresolved))"

definition declared_cost :: "cost_sum \<Rightarrow> json option \<Rightarrow> bool" where
  "declared_cost c v = (case c of No_cost \<Rightarrow> v = Some JNull | Cost q \<Rightarrow> v = Some (JNum q) | Infinite_cost \<Rightarrow> False)"

datatype usage_status = Usage_missing | Usage_invalid usage_error | Usage_complete | Usage_incomplete

record usage_report =
  ur_status :: usage_status
  ur_agents :: agent_tokens
  ur_unresolved :: nat

definition usage_totals ::
  "(rat \<Rightarrow> rat \<Rightarrow> rat option) \<Rightarrow> (string \<Rightarrow> rat option) \<Rightarrow> json \<Rightarrow> json list \<Rightarrow> json list \<Rightarrow> context_record list \<Rightarrow> nat list \<Rightarrow>
    usage_error + usage_report" where
  "usage_totals fadd date usage rounds unresolved versions deliveries =
     rbind (usage_rounds fadd date versions deliveries
         \<lparr>us_agents = [], us_launches = [], us_measured = [], us_total = 0, us_cost = Cost 0\<rparr> rounds) (\<lambda>s.
     rbind (traverse unresolved_ok unresolved) (\<lambda>_.
     rbind (usage_object (jget usage ''total'')) (\<lambda>declared.
     rbind (guard (jget declared ''rounds'' = Some (JNum (of_nat (length rounds))) \<and>
         jget declared ''total_tokens'' = Some (JNum (of_int (us_total s))) \<and>
         declared_cost (us_cost s) (jget declared ''cost_usd'') \<and>
         jget declared ''complete'' = Some (JBool (unresolved = []))) Bad_totals) (\<lambda>_.
       Inr \<lparr>ur_status = (if unresolved = [] \<and> list_all (\<lambda>v. int v \<in> set (us_measured s)) deliveries
             then Usage_complete else Usage_incomplete),
            ur_agents = us_agents s, ur_unresolved = length unresolved\<rparr>))))"

definition usageMetrics ::
  "(rat \<Rightarrow> rat \<Rightarrow> rat option) \<Rightarrow> (string \<Rightarrow> rat option) \<Rightarrow> json \<Rightarrow> context_record list \<Rightarrow> nat list \<Rightarrow> usage_error + usage_report" where
  "usageMetrics fadd date raw versions deliveries =
     (if raw = JNull then Inr \<lparr>ur_status = Usage_missing, ur_agents = [], ur_unresolved = 0\<rparr>
      else rbind (usage_object (Some raw)) (\<lambda>usage.
        case (jget usage ''rounds'', jget usage ''unresolved'') of
          (Some (JArr rounds), Some (JArr unresolved)) \<Rightarrow>
            if jget usage ''schema_version'' = Some (JNum 1)
            then usage_totals fadd date usage rounds unresolved versions deliveries
            else Inl Bad_schema_version
        | _ \<Rightarrow> Inl Bad_schema_version))"

text \<open>A sidecar that cannot be read or does not validate counts for nothing.\<close>

definition usage_report_of ::
  "(rat \<Rightarrow> rat \<Rightarrow> rat option) \<Rightarrow> (string \<Rightarrow> rat option) \<Rightarrow> json option \<Rightarrow> context_record list \<Rightarrow> nat list \<Rightarrow> usage_report" where
  "usage_report_of fadd date raw versions deliveries =
     (case (case raw of None \<Rightarrow> Inl Unreadable_usage | Some v \<Rightarrow> usageMetrics fadd date v versions deliveries) of
        Inl e \<Rightarrow> \<lparr>ur_status = Usage_invalid e, ur_agents = [], ur_unresolved = 0\<rparr>
      | Inr u \<Rightarrow> u)"

section \<open>The batch\<close>

record task_stats =
  tt_metrics :: task_metrics
  tt_usage :: usage_report

text \<open>Every listed task is read once; a read that throws ends the collection.\<close>

fun collect_tasks ::
  "platform \<Rightarrow> (rat \<Rightarrow> rat \<Rightarrow> rat option) \<Rightarrow> (string \<Rightarrow> rat option) \<Rightarrow> (string \<Rightarrow> json option) \<Rightarrow> list_entry list \<Rightarrow> store \<Rightarrow>
    failure + task_stats list" where
  "collect_tasks pf fadd date usage [] st = Inr []"
| "collect_tasks pf fadd date usage (e # es) st =
     (let t = le_task_id e; (res, st') = readTask pf t None st in
      rbind res (\<lambda>task.
        let (m, deliveries) = taskMetrics t task e;
            u = usage_report_of fadd date (usage t) (rr_versions task) deliveries
        in rbind (collect_tasks pf fadd date usage es st') (\<lambda>rest. Inr (\<lparr>tt_metrics = m, tt_usage = u\<rparr> # rest))))"

record coverage =
  cv_complete :: nat
  cv_incomplete :: nat
  cv_missing :: nat
  cv_invalid :: nat

record batch =
  bt_degraded :: "string list"
  bt_statuses :: counts
  bt_reviews :: counts
  bt_review_count :: nat
  bt_pass_rate :: "rat option"
  bt_first_rate :: "rat option"
  bt_reviewed :: nat
  bt_first_pass :: nat
  bt_revisions :: nat
  bt_per_role :: counts
  bt_blockers :: counts
  bt_agents :: agent_tokens
  bt_coverage :: coverage
  bt_complete :: bool

definition add_counts :: "counts \<Rightarrow> counts \<Rightarrow> counts" where
  "add_counts c d = foldl (\<lambda>c (k, n). increment c k n) c d"

definition add_reviews :: "counts \<Rightarrow> counts \<Rightarrow> counts" where
  "add_reviews c d = foldl (\<lambda>c v. increment c v (count_of d v)) c VERDICTS"

fun add_agents :: "(rat \<Rightarrow> rat \<Rightarrow> rat option) \<Rightarrow> agent_tokens \<Rightarrow> agent_tokens \<Rightarrow> usage_error + agent_tokens" where
  "add_agents fadd target [] = Inr target"
| "add_agents fadd target ((agent, t) # rest) =
     rbind (addTokens fadd target agent t) (\<lambda>target'. add_agents fadd target' rest)"

definition status_key :: "status option \<Rightarrow> string \<Rightarrow> string" where
  "status_key s absent = (case s of None \<Rightarrow> absent | Some x \<Rightarrow> status_name x)"

definition blocker_key :: "task_metrics \<Rightarrow> string" where
  "blocker_key m =
     (if me_attention m then ''needs_attention''
      else status_key (me_status m) ''undefined'' @ '':'' @ (case me_waiting m of None \<Rightarrow> ''undefined'' | Some w \<Rightarrow> w))"

definition cover :: "coverage \<Rightarrow> usage_status \<Rightarrow> coverage" where
  "cover c s =
     (case s of
        Usage_complete \<Rightarrow> c\<lparr>cv_complete := Suc (cv_complete c)\<rparr>
      | Usage_incomplete \<Rightarrow> c\<lparr>cv_incomplete := Suc (cv_incomplete c)\<rparr>
      | Usage_missing \<Rightarrow> c\<lparr>cv_missing := Suc (cv_missing c)\<rparr>
      | Usage_invalid _ \<Rightarrow> c\<lparr>cv_invalid := Suc (cv_invalid c)\<rparr>)"

definition batch_step :: "(rat \<Rightarrow> rat \<Rightarrow> rat option) \<Rightarrow> batch \<Rightarrow> task_stats \<Rightarrow> usage_error + batch" where
  "batch_step fadd b x =
     (let m = tt_metrics x; u = tt_usage x in
      rbind (add_agents fadd (bt_agents b) (ur_agents u)) (\<lambda>agents.
        Inr (b\<lparr>bt_reviews := add_reviews (bt_reviews b) (me_reviews m),
               bt_per_role := add_counts (bt_per_role b) (me_per_role m),
               bt_agents := agents,
               bt_statuses := increment (bt_statuses b) (status_key (me_status m) ''unknown'') 1,
               bt_blockers := (if me_status m \<noteq> Some Closed then increment (bt_blockers b) (blocker_key m) 1 else bt_blockers b),
               bt_revisions := bt_revisions b + me_revisions m,
               bt_reviewed := (if me_first m \<noteq> None then Suc (bt_reviewed b) else bt_reviewed b),
               bt_first_pass := (if me_first m = Some ''pass'' then Suc (bt_first_pass b) else bt_first_pass b),
               bt_coverage := cover (bt_coverage b) (ur_status u)\<rparr>)))"

fun batch_fold :: "(rat \<Rightarrow> rat \<Rightarrow> rat option) \<Rightarrow> batch \<Rightarrow> task_stats list \<Rightarrow> usage_error + batch" where
  "batch_fold fadd b [] = Inr b"
| "batch_fold fadd b (x # xs) = rbind (batch_step fadd b x) (\<lambda>b'. batch_fold fadd b' xs)"

definition batch_start :: "string list \<Rightarrow> batch" where
  "batch_start degraded =
     \<lparr>bt_degraded = degraded, bt_statuses = [], bt_reviews = map (\<lambda>v. (v, 0)) VERDICTS, bt_review_count = 0,
      bt_pass_rate = None, bt_first_rate = None, bt_reviewed = 0, bt_first_pass = 0, bt_revisions = 0, bt_per_role = [],
      bt_blockers = [], bt_agents = [],
      bt_coverage = \<lparr>cv_complete = 0, cv_incomplete = 0, cv_missing = 0, cv_invalid = 0\<rparr>, bt_complete = False\<rparr>"

definition finish_batch :: "batch \<Rightarrow> task_stats list \<Rightarrow> batch" where
  "finish_batch b tasks =
     (let n = total_count (bt_reviews b) in
      b\<lparr>bt_review_count := n, bt_pass_rate := rate (count_of (bt_reviews b) ''pass'') n,
        bt_first_rate := rate (bt_first_pass b) (bt_reviewed b),
        bt_complete := (bt_degraded b = [] \<and> list_all (\<lambda>x. ur_status (tt_usage x) = Usage_complete) tasks)\<rparr>)"

datatype stats_error = Task_not_found string | Read_failed failure | Aggregate usage_error

definition collectStats ::
  "platform \<Rightarrow> (rat \<Rightarrow> rat \<Rightarrow> rat option) \<Rightarrow> (string \<Rightarrow> rat option) \<Rightarrow> (string \<Rightarrow> json option) \<Rightarrow> string list \<Rightarrow> store \<Rightarrow>
    stats_error + task_stats list \<times> batch" where
  "collectStats pf fadd date usage selected st =
     (let ((listed, damaged), st') = snapshotTasks pf st;
          wanted = (\<lambda>t. t \<noteq> PROJECT_TASK_ID \<and> (selected = [] \<or> t \<in> set selected));
          entries = filter (\<lambda>e. wanted (le_task_id e)) listed;
          degraded = filter wanted damaged
      in case find (\<lambda>i. i \<notin> set (map le_task_id entries) \<and> i \<notin> set degraded) selected of
           Some i \<Rightarrow> Inl (Task_not_found i)
         | None \<Rightarrow>
             (case collect_tasks pf fadd date usage entries st' of
                Inl f \<Rightarrow> Inl (Read_failed f)
              | Inr tasks \<Rightarrow>
                  (case batch_fold fadd (batch_start degraded) tasks of
                     Inl e \<Rightarrow> Inl (Aggregate e)
                   | Inr b \<Rightarrow> Inr (tasks, finish_batch b tasks))))"

section \<open>Sums and bounds\<close>

lemma set_update_subset: "set (AList.update k v al) \<subseteq> insert (k, v) (set al)"
  by (induction al) auto

lemma sum_update:
  "distinct (map fst c) \<Longrightarrow> total_count (AList.update k v c) + count_of c k = total_count c + v"
proof (induction c)
  case Nil
  then show ?case by (simp add: total_count_def count_of_def)
next
  case (Cons e c)
  obtain a n where e: "e = (a, n)" by (cases e)
  show ?case
  proof (cases "a = k")
    case True
    then show ?thesis by (simp add: e total_count_def count_of_def)
  next
    case False
    with Cons show ?thesis by (simp add: e total_count_def count_of_def)
  qed
qed

lemma total_increment: "distinct (map fst c) \<Longrightarrow> total_count (increment c k n) = total_count c + n"
  using sum_update [of c k "count_of c k + n"] by (simp add: increment_def)

lemma keys_increment: "k \<in> set (map fst c) \<Longrightarrow> map fst (increment c k n) = map fst c"
  by (simp add: increment_def update_keys)

lemma count_of_le_total: "count_of c k \<le> total_count c"
proof (induction c)
  case (Cons e c)
  then show ?case by (cases e) (simp add: count_of_def total_count_def)
qed (simp add: count_of_def)

lemma VERDICTS_distinct: "distinct VERDICTS"
  by (simp add: VERDICTS_def)

definition verdict_counts :: "counts \<Rightarrow> bool" where
  "verdict_counts c \<longleftrightarrow> map fst c = VERDICTS"

lemma verdict_counts_increment:
  "verdict_counts c \<Longrightarrow> v \<in> set VERDICTS \<Longrightarrow> verdict_counts (increment c v n) \<and> total_count (increment c v n) = total_count c + n"
  using VERDICTS_distinct by (auto simp: verdict_counts_def total_increment keys_increment)

lemma total_as_counts: "verdict_counts d \<Longrightarrow> sum_list (map (count_of d) VERDICTS) = total_count d"
  unfolding verdict_counts_def VERDICTS_def
  by (auto simp: map_eq_Cons_conv count_of_def total_count_def)

lemma add_reviews_sum:
  assumes "verdict_counts c" and "verdict_counts d"
  shows "verdict_counts (add_reviews c d) \<and> total_count (add_reviews c d) = total_count c + total_count d"
proof -
  have "verdict_counts (foldl (\<lambda>c v. increment c v (count_of d v)) c vs) \<and>
      total_count (foldl (\<lambda>c v. increment c v (count_of d v)) c vs) = total_count c + sum_list (map (count_of d) vs)"
    if "verdict_counts c" "set vs \<subseteq> set VERDICTS" for c vs
    using that
  proof (induction vs arbitrary: c)
    case (Cons v vs)
    have "verdict_counts (increment c v (count_of d v))"
      "total_count (increment c v (count_of d v)) = total_count c + count_of d v"
      using verdict_counts_increment [OF Cons.prems(1)] Cons.prems(2) by auto
    with Cons.IH [OF this(1)] Cons.prems(2) show ?case by simp
  qed simp
  from this [OF assms(1), of VERDICTS] total_as_counts [OF assms(2)] show ?thesis by (simp add: add_reviews_def)
qed

lemma count_of_increment: "count_of (increment c k n) v = count_of c v + (if v = k then n else 0)"
  by (simp add: increment_def count_of_def update_conv')

lemma add_reviews_count: "v \<in> set VERDICTS \<Longrightarrow> count_of (add_reviews c d) v = count_of c v + count_of d v"
  by (auto simp: add_reviews_def VERDICTS_def count_of_increment)

lemma rate_bounds: "p \<le> n \<Longrightarrow> rate p n = Some q \<Longrightarrow> 0 \<le> q \<and> q \<le> 1"
  by (auto simp: rate_def split: if_splits)

definition tokens_ok :: "tokens \<Rightarrow> bool" where
  "tokens_ok t \<longleftrightarrow>
     0 \<le> tk_rounds t \<and> tk_rounds t \<le> int MAX_SAFE_INTEGER \<and> 0 \<le> tk_input t \<and> 0 \<le> tk_output t \<and>
     tk_total t = tk_input t + tk_output t \<and> tk_total t \<le> int MAX_SAFE_INTEGER"

definition agents_ok :: "agent_tokens \<Rightarrow> bool" where
  "agents_ok as \<longleftrightarrow> (\<forall>(a, t)\<in>set as. a \<in> set USAGE_AGENTS \<and> tokens_ok t)"

lemma safeAdd_Inr: "safeAdd a b = Inr c \<longleftrightarrow> c = a + b \<and> \<bar>a + b\<bar> \<le> int MAX_SAFE_INTEGER"
  by (auto simp: safeAdd_def)

lemma no_tokens_ok: "tokens_ok no_tokens"
  by (simp add: tokens_ok_def no_tokens_def)

lemma addTokens_ok:
  assumes "agents_ok as" and "a \<in> set USAGE_AGENTS" and "tokens_ok t" and "addTokens fadd as a t = Inr out"
  shows "agents_ok out"
proof -
  let ?old = "case map_of as a of None \<Rightarrow> no_tokens | Some t \<Rightarrow> t"
  have old: "tokens_ok ?old"
    using assms(1) no_tokens_ok by (auto simp: agents_ok_def split: option.split dest: map_of_SomeD)
  from assms(4) obtain cost n where out: "out = AList.update a n as"
    and n: "n = \<lparr>tk_rounds = tk_rounds ?old + tk_rounds t, tk_input = tk_input ?old + tk_input t,
      tk_output = tk_output ?old + tk_output t, tk_total = tk_total ?old + tk_total t, tk_cost = cost\<rparr>"
    and b: "\<bar>tk_rounds ?old + tk_rounds t\<bar> \<le> int MAX_SAFE_INTEGER" "\<bar>tk_total ?old + tk_total t\<bar> \<le> int MAX_SAFE_INTEGER"
    by (auto simp: addTokens_def Let_def rbind_Inr_iff safeAdd_Inr)
  have "tokens_ok n"
    using old assms(3) b by (simp add: n tokens_ok_def)
  with assms(1,2) set_update_subset [of a n as] show ?thesis
    by (auto simp: out agents_ok_def)
qed

lemma add_agents_ok: "agents_ok as \<Longrightarrow> agents_ok bs \<Longrightarrow> add_agents fadd as bs = Inr out \<Longrightarrow> agents_ok out"
proof (induction fadd as bs rule: add_agents.induct)
  case (2 fadd target agent t rest)
  then obtain target' where t: "addTokens fadd target agent t = Inr target'" and r: "add_agents fadd target' rest = Inr out"
    by (auto simp: rbind_Inr_iff)
  have t': "agents_ok target'" and rest: "agents_ok rest"
    using addTokens_ok [OF 2(2) _ _ t] 2(3) by (simp_all add: agents_ok_def)
  from 2(1) [OF t' rest r] show ?case .
qed simp

section \<open>What a sidecar contributes\<close>

lemma usage_integer_Inr: "usage_integer v = Inr n \<Longrightarrow> 0 \<le> n"
  by (auto simp: usage_integer_def split: option.splits if_splits)

lemma attribute_round_agent:
  "attribute_round versions deliveries s r launch delivery = Inr a \<Longrightarrow> a \<in> set USAGE_AGENTS"
  unfolding attribute_round_def Let_def
  by (auto simp: rbind_Inr_iff one_of_def split: if_splits option.splits json.splits)

lemma usage_round_ok:
  assumes "usage_round fadd date versions deliveries s item = Inr s'" and "agents_ok (us_agents s)"
  shows "agents_ok (us_agents s')"
proof -
  from assms(1) obtain r agent launch delivery inp out tok cost where
    a: "attribute_round versions deliveries s r launch delivery = Inr agent"
    and n: "usage_integer (jget r ''input_tokens'') = Inr inp" "usage_integer (jget r ''output_tokens'') = Inr out"
    and t: "safeAdd inp out = Inr tok"
    and add: "addTokens fadd (us_agents s) agent \<lparr>tk_rounds = 1, tk_input = inp, tk_output = out, tk_total = tok, tk_cost = cost\<rparr> =
      Inr (us_agents s')"
    unfolding usage_round_def rbind_Inr_iff guard_Inr_iff by fastforce
  have "tokens_ok \<lparr>tk_rounds = 1, tk_input = inp, tk_output = out, tk_total = tok, tk_cost = cost\<rparr>"
    using usage_integer_Inr [OF n(1)] usage_integer_Inr [OF n(2)] t
    by (simp add: tokens_ok_def safeAdd_Inr MAX_SAFE_INTEGER_def)
  from addTokens_ok [OF assms(2) attribute_round_agent [OF a] this add] show ?thesis .
qed

lemma usage_rounds_ok:
  "usage_rounds fadd date versions deliveries s items = Inr s' \<Longrightarrow> agents_ok (us_agents s) \<Longrightarrow> agents_ok (us_agents s')"
proof (induction items arbitrary: s)
  case (Cons item items)
  then obtain s1 where s1: "usage_round fadd date versions deliveries s item = Inr s1"
    and r: "usage_rounds fadd date versions deliveries s1 items = Inr s'"
    by (auto simp: rbind_Inr_iff)
  from Cons.IH [OF r usage_round_ok [OF s1 Cons.prems(2)]] show ?case .
qed simp

lemma usage_totals_ok:
  assumes "usage_totals fadd date usage rounds unresolved versions deliveries = Inr u"
  shows "agents_ok (ur_agents u)"
proof -
  from assms obtain s where "usage_rounds fadd date versions deliveries
      \<lparr>us_agents = [], us_launches = [], us_measured = [], us_total = 0, us_cost = Cost 0\<rparr> rounds = Inr s"
    and "ur_agents u = us_agents s"
    by (auto simp: usage_totals_def rbind_Inr_iff)
  with usage_rounds_ok [OF this(1)] show ?thesis by (simp add: agents_ok_def)
qed

lemma usageMetrics_ok:
  assumes "usageMetrics fadd date raw versions deliveries = Inr u"
  shows "agents_ok (ur_agents u)"
proof (cases "raw = JNull")
  case True
  with assms have "ur_agents u = []" by (auto simp: usageMetrics_def)
  then show ?thesis by (simp add: agents_ok_def)
next
  case False
  with assms obtain usage where u: "(case (jget usage ''rounds'', jget usage ''unresolved'') of
          (Some (JArr rounds), Some (JArr unresolved)) \<Rightarrow>
            if jget usage ''schema_version'' = Some (JNum 1)
            then usage_totals fadd date usage rounds unresolved versions deliveries
            else Inl Bad_schema_version
        | _ \<Rightarrow> Inl Bad_schema_version) = Inr u"
    unfolding usageMetrics_def if_not_P [OF False] rbind_Inr_iff by blast
  then obtain rounds where r: "jget usage ''rounds'' = Some (JArr rounds)"
    by (cases "jget usage ''rounds''") (simp_all split: json.splits)
  with u obtain unresolved where "jget usage ''unresolved'' = Some (JArr unresolved)"
    by (cases "jget usage ''unresolved''") (simp_all split: json.splits)
  with u r have "usage_totals fadd date usage rounds unresolved versions deliveries = Inr u"
    by (simp split: if_splits)
  then show ?thesis by (rule usage_totals_ok)
qed

lemma usage_report_ok: "agents_ok (ur_agents (usage_report_of fadd date raw versions deliveries))"
  using usageMetrics_ok
  by (auto simp: usage_report_of_def agents_ok_def split: option.split sum.split)

section \<open>The counters are sums\<close>

definition tokens_of :: "agent_tokens \<Rightarrow> string \<Rightarrow> tokens" where
  "tokens_of as a = (case map_of as a of None \<Rightarrow> no_tokens | Some t \<Rightarrow> t)"

text \<open>The four counters of an entry.\<close>

definition counters :: "(tokens \<Rightarrow> int) set" where
  "counters = {tk_rounds, tk_input, tk_output, tk_total}"

text \<open>What one measured run contributes, read off its entry in the sidecar, and the runs of an agent.\<close>

definition run_counter :: "string \<Rightarrow> json \<Rightarrow> int" where
  "run_counter k r = (case safe_int (jget r k) of None \<Rightarrow> 0 | Some n \<Rightarrow> n)"

definition run_tokens :: "json \<Rightarrow> tokens" where
  "run_tokens r =
     \<lparr>tk_rounds = 1, tk_input = run_counter ''input_tokens'' r, tk_output = run_counter ''output_tokens'' r,
      tk_total = run_counter ''total_tokens'' r,
      tk_cost = (case jget r ''cost_usd'' of Some (JNum q) \<Rightarrow> Some q | _ \<Rightarrow> None)\<rparr>"

definition agent_runs :: "string \<Rightarrow> json list \<Rightarrow> json list" where
  "agent_runs a rs = filter (\<lambda>r. jget r ''agent'' = Some (JStr a)) rs"

lemma agent_runs_simps [simp]: "agent_runs a [] = []" "agent_runs a (rs @ rs') = agent_runs a rs @ agent_runs a rs'"
  by (simp_all add: agent_runs_def)

definition runs_summed :: "agent_tokens \<Rightarrow> json list \<Rightarrow> bool" where
  "runs_summed as rs \<longleftrightarrow>
     distinct (map fst as) \<and>
     (\<forall>a. (\<forall>f\<in>counters. f (tokens_of as a) = sum_list (map (\<lambda>r. f (run_tokens r)) (agent_runs a rs))) \<and>
       (tk_cost (tokens_of as a) = None \<longleftrightarrow> (\<exists>r\<in>set (agent_runs a rs). tk_cost (run_tokens r) = None)))"

lemma runs_summed_Nil: "runs_summed [] []"
  by (auto simp: runs_summed_def tokens_of_def no_tokens_def counters_def)

lemma add_cost_None: "add_cost fadd x y = Inr c \<Longrightarrow> c = None \<longleftrightarrow> x = None \<or> y = None"
  by (auto simp: add_cost_def split: option.splits dest: sym)

lemma addTokens_adds:
  assumes "addTokens fadd as a t = Inr out"
  shows "\<forall>f\<in>counters. f (tokens_of out c) = f (tokens_of as c) + (if c = a then f t else 0)"
    and "tk_cost (tokens_of out c) = None \<longleftrightarrow> tk_cost (tokens_of as c) = None \<or> c = a \<and> tk_cost t = None"
    and "distinct (map fst as) \<Longrightarrow> distinct (map fst out)"
proof -
  let ?old = "tokens_of as a"
  from assms obtain cost n where out: "out = AList.update a n as" and c: "add_cost fadd (tk_cost ?old) (tk_cost t) = Inr cost"
    and n: "n = \<lparr>tk_rounds = tk_rounds ?old + tk_rounds t, tk_input = tk_input ?old + tk_input t,
      tk_output = tk_output ?old + tk_output t, tk_total = tk_total ?old + tk_total t, tk_cost = cost\<rparr>"
    by (auto simp: addTokens_def Let_def rbind_Inr_iff safeAdd_Inr tokens_of_def)
  have l: "tokens_of out c = (if c = a then n else tokens_of as c)"
    by (simp add: out tokens_of_def update_conv')
  show "\<forall>f\<in>counters. f (tokens_of out c) = f (tokens_of as c) + (if c = a then f t else 0)"
    by (simp add: l n counters_def)
  show "tk_cost (tokens_of out c) = None \<longleftrightarrow> tk_cost (tokens_of as c) = None \<or> c = a \<and> tk_cost t = None"
    using add_cost_None [OF c] by (simp add: l n)
  show "distinct (map fst as) \<Longrightarrow> distinct (map fst out)" by (simp add: out distinct_update)
qed

lemma runs_summed_round:
  assumes "runs_summed as rs" and "addTokens fadd as a (run_tokens r) = Inr out" and "jget r ''agent'' = Some (JStr a)"
  shows "runs_summed out (rs @ [r])"
proof -
  have one: "agent_runs c [r] = (if c = a then [r] else [])" for c
    using assms(3) by (auto simp: agent_runs_def)
  show ?thesis
    unfolding runs_summed_def
  proof (intro conjI allI)
    show "distinct (map fst out)" using addTokens_adds(3) [OF assms(2)] assms(1) by (simp add: runs_summed_def)
    fix c
    show "\<forall>f\<in>counters. f (tokens_of out c) = sum_list (map (\<lambda>r. f (run_tokens r)) (agent_runs c (rs @ [r])))"
      using assms(1) addTokens_adds(1) [OF assms(2), of c] by (cases "c = a") (simp_all add: runs_summed_def one)
    show "tk_cost (tokens_of out c) = None \<longleftrightarrow> (\<exists>r\<in>set (agent_runs c (rs @ [r])). tk_cost (run_tokens r) = None)"
      using assms(1) addTokens_adds(2) [OF assms(2), of c] by (auto simp: runs_summed_def one)
  qed
qed

lemma usage_round_sums:
  assumes "usage_round fadd date versions deliveries s item = Inr s'" and "runs_summed (us_agents s) rs"
    and "us_launches s = rev (map (run_counter ''launch_version'') rs)" and "distinct (us_launches s)"
  shows "runs_summed (us_agents s') (rs @ [item]) \<and>
    us_launches s' = rev (map (run_counter ''launch_version'') (rs @ [item])) \<and> distinct (us_launches s')"
proof -
  from assms(1) obtain r agent launch delivery inp out tok cost where
    r: "usage_object (Some item) = Inr r"
    and l: "usage_integer (jget r ''launch_version'') = Inr launch"
    and a: "attribute_round versions deliveries s r launch delivery = Inr agent"
    and n: "usage_integer (jget r ''input_tokens'') = Inr inp" "usage_integer (jget r ''output_tokens'') = Inr out"
      "usage_integer (jget r ''total_tokens'') = Inr tok" "usage_cost (jget r ''cost_usd'') = Inr cost"
    and add: "addTokens fadd (us_agents s) agent \<lparr>tk_rounds = 1, tk_input = inp, tk_output = out, tk_total = tok, tk_cost = cost\<rparr> =
      Inr (us_agents s')"
    and ls: "us_launches s' = launch # us_launches s"
    unfolding usage_round_def rbind_Inr_iff guard_Inr_iff by fastforce
  have item: "r = item" using r by (auto simp: usage_object_def split: json.splits)
  have i: "run_counter k r = v" if "usage_integer (jget r k) = Inr v" for k v
    using that by (auto simp: usage_integer_def run_counter_def split: option.splits if_splits)
  have "(case jget r ''cost_usd'' of Some (JNum q) \<Rightarrow> Some q | _ \<Rightarrow> None) = cost"
    using n(4) by (auto simp: usage_cost_def split: option.splits json.splits if_splits)
  then have t: "run_tokens r = \<lparr>tk_rounds = 1, tk_input = inp, tk_output = out, tk_total = tok, tk_cost = cost\<rparr>"
    using i [OF n(1)] i [OF n(2)] i [OF n(3)] by (simp add: run_tokens_def)
  have ag: "jget r ''agent'' = Some (JStr agent)" and fresh: "launch \<notin> set (us_launches s)"
    using a unfolding attribute_round_def Let_def
    by (auto simp: rbind_Inr_iff guard_Inr_iff split: if_splits option.splits)
  have "runs_summed (us_agents s') (rs @ [r])"
    by (rule runs_summed_round [OF assms(2) _ ag, of fadd]) (simp add: t add)
  with ls fresh assms(3,4) i [OF l] show ?thesis by (simp add: item)
qed

lemma usage_rounds_sums:
  "\<lbrakk>usage_rounds fadd date versions deliveries s items = Inr s'; runs_summed (us_agents s) rs;
    us_launches s = rev (map (run_counter ''launch_version'') rs); distinct (us_launches s)\<rbrakk> \<Longrightarrow>
    runs_summed (us_agents s') (rs @ items) \<and> distinct (map (run_counter ''launch_version'') (rs @ items))"
proof (induction items arbitrary: s rs)
  case Nil
  then have "distinct (rev (map (run_counter ''launch_version'') rs))" by simp
  with Nil show ?case by simp
next
  case (Cons item items)
  then obtain s1 where s1: "usage_round fadd date versions deliveries s item = Inr s1"
    and r: "usage_rounds fadd date versions deliveries s1 items = Inr s'"
    by (auto simp: rbind_Inr_iff)
  have "runs_summed (us_agents s1) (rs @ [item])" "us_launches s1 = rev (map (run_counter ''launch_version'') (rs @ [item]))"
    "distinct (us_launches s1)"
    using usage_round_sums [OF s1 Cons.prems(2-4)] by blast+
  from Cons.IH [OF r this] show ?case by simp
qed

text \<open>The runs of a sidecar, and those that count: the runs of a sidecar that was accepted.\<close>

definition sidecar_runs :: "json option \<Rightarrow> json list" where
  "sidecar_runs raw = (case Option.bind raw (\<lambda>v. jget v ''rounds'') of Some (JArr rounds) \<Rightarrow> rounds | _ \<Rightarrow> [])"

definition counted_runs :: "usage_status \<Rightarrow> json option \<Rightarrow> json list" where
  "counted_runs s raw = (if s \<in> {Usage_complete, Usage_incomplete} then sidecar_runs raw else [])"

lemma usage_totals_sums:
  assumes "usage_totals fadd date usage rounds unresolved versions deliveries = Inr u"
  shows "runs_summed (ur_agents u) rounds \<and> distinct (map (run_counter ''launch_version'') rounds) \<and>
    ur_status u \<in> {Usage_complete, Usage_incomplete}"
proof -
  from assms obtain s where r: "usage_rounds fadd date versions deliveries
      \<lparr>us_agents = [], us_launches = [], us_measured = [], us_total = 0, us_cost = Cost 0\<rparr> rounds = Inr s"
    and "ur_agents u = us_agents s" and "ur_status u \<in> {Usage_complete, Usage_incomplete}"
    by (auto simp: usage_totals_def rbind_Inr_iff)
  with usage_rounds_sums [OF r, of "[]"] show ?thesis by (simp add: runs_summed_Nil)
qed

lemma usage_report_sums:
  assumes "u = usage_report_of fadd date raw versions deliveries"
  shows "runs_summed (ur_agents u) (counted_runs (ur_status u) raw) \<and>
    distinct (map (run_counter ''launch_version'') (counted_runs (ur_status u) raw))"
proof (cases "\<exists>v. raw = Some v \<and> v \<noteq> JNull \<and> usageMetrics fadd date v versions deliveries = Inr u")
  case True
  then obtain v where v: "raw = Some v" "v \<noteq> JNull" "usageMetrics fadd date v versions deliveries = Inr u" by blast
  from v(3) obtain usage where o': "usage_object (Some v) = Inr usage" and u: "(case (jget usage ''rounds'', jget usage ''unresolved'') of
          (Some (JArr rounds), Some (JArr unresolved)) \<Rightarrow>
            if jget usage ''schema_version'' = Some (JNum 1)
            then usage_totals fadd date usage rounds unresolved versions deliveries
            else Inl Bad_schema_version
        | _ \<Rightarrow> Inl Bad_schema_version) = Inr u"
    unfolding usageMetrics_def if_not_P [OF v(2)] rbind_Inr_iff by blast
  have usage: "usage = v" using o' by (auto simp: usage_object_def split: json.splits)
  obtain rounds where r: "jget usage ''rounds'' = Some (JArr rounds)"
    using u by (cases "jget usage ''rounds''") (simp_all split: json.splits)
  with u obtain unresolved where "jget usage ''unresolved'' = Some (JArr unresolved)"
    by (cases "jget usage ''unresolved''") (simp_all split: json.splits)
  with u r have "usage_totals fadd date usage rounds unresolved versions deliveries = Inr u"
    by (simp split: if_splits)
  then show ?thesis using usage_totals_sums r by (auto simp: counted_runs_def sidecar_runs_def v(1) usage)
next
  case False
  have "ur_agents u = [] \<and> ur_status u \<notin> {Usage_complete, Usage_incomplete}"
  proof (cases raw)
    case None
    then show ?thesis by (simp add: assms usage_report_of_def)
  next
    case (Some v)
    show ?thesis
    proof (cases "usageMetrics fadd date v versions deliveries")
      case (Inr w)
      then have "w = u" by (simp add: assms usage_report_of_def Some)
      with False Some Inr have "v = JNull" by blast
      with Inr \<open>w = u\<close> show ?thesis by (auto simp: usageMetrics_def)
    qed (simp add: assms usage_report_of_def Some)
  qed
  then show ?thesis by (simp add: counted_runs_def runs_summed_Nil)
qed

lemma add_agents_sums:
  "\<lbrakk>add_agents fadd as bs = Inr out; runs_summed as rs; runs_summed bs rs'\<rbrakk> \<Longrightarrow> runs_summed out (rs @ rs')"
proof -
  have step: "distinct (map fst as) \<longrightarrow> distinct (map fst out) \<and>
      (\<forall>c. (\<forall>f\<in>counters. f (tokens_of out c) = f (tokens_of as c) + f (tokens_of bs c)) \<and>
        (tk_cost (tokens_of out c) = None \<longleftrightarrow> tk_cost (tokens_of as c) = None \<or> tk_cost (tokens_of bs c) = None))"
    if "add_agents fadd as bs = Inr out" "distinct (map fst bs)" for as bs
    using that
  proof (induction fadd as bs rule: add_agents.induct)
    case (1 fadd target)
    then show ?case by (auto simp: tokens_of_def no_tokens_def counters_def)
  next
    case (2 fadd target agent t rest)
    then obtain target' where t: "addTokens fadd target agent t = Inr target'" and r: "add_agents fadd target' rest = Inr out"
      by (auto simp: rbind_Inr_iff)
    have d: "distinct (map fst rest)" "agent \<notin> fst ` set rest" using 2(3) by auto
    have b: "tokens_of ((agent, t) # rest) c = (if c = agent then t else tokens_of rest c)" for c
      by (simp add: tokens_of_def)
    have z: "tokens_of rest agent = no_tokens"
      using d(2) by (simp add: tokens_of_def map_of_eq_None_iff [THEN iffD2])
    show ?case
      using 2(1) [OF r d(1)] addTokens_adds [OF t]
      by (auto simp: b z counters_def no_tokens_def)
  qed
  assume "add_agents fadd as bs = Inr out" "runs_summed as rs" "runs_summed bs rs'"
  then show ?thesis using step [of as bs] by (auto simp: runs_summed_def)
qed

section \<open>Accepted reviews\<close>

lemma fold_one: "foldOntoCursor c [r] flow = fold_step flow c r"
  by (simp add: foldOntoCursor_def)

text \<open>A review counts only when it is the move of the transition table that the task was waiting for.\<close>

lemma accepted_review:
  assumes "rec_content_type r = ''review''" and "accepted (fc_status c) (foldOntoCursor c [r] flow) r"
  shows "flow \<noteq> Solo \<and> fc_status c = Reviewing"
proof -
  obtain s' w where f: "fold_record (fc_status c) r flow = (s', w)" by fastforce
  have st: "fc_status (foldOntoCursor c [r] flow) = s'"
    by (simp add: fold_one fold_step_def f Let_def split: option.split)
  have gate: "fc_gate (foldOntoCursor c [r] flow) \<noteq> []" if "w = Some OUT_OF_TABLE" "legal_verdict r"
    using that assms(1)
    by (simp add: fold_one fold_step_def f Let_def record_warning_def push_warning_def split: prod.split)
  from assms st have ne: "s' \<noteq> fc_status c" and ng: "fc_gate (foldOntoCursor c [r] flow) = []"
    by (auto simp: accepted_def)
  have rv: "fc_status c \<noteq> Closed \<and> fold_record (fc_status c) r flow = fold_review (fc_status c) r flow"
    using ne f assms(1) by (cases "fc_status c = Closed") (auto simp: fold_record_def)
  with f ne gate ng show ?thesis
    by (auto simp: fold_review_def Let_def split: if_splits option.splits)
qed

definition verdict_reviews :: "context_record list \<Rightarrow> nat" where
  "verdict_reviews rs =
     length (filter (\<lambda>r. rec_content_type r = ''review'' \<and> (case verdict_of r of None \<Rightarrow> False | Some v \<Rightarrow> v \<in> set VERDICTS)) rs)"

text \<open>What the counters satisfy after the records \<open>rs\<close>.\<close>

definition metric_inv :: "flow \<Rightarrow> context_record list \<Rightarrow> metric_state \<Rightarrow> bool" where
  "metric_inv flow rs s \<longleftrightarrow>
     verdict_counts (ms_reviews s) \<and> total_count (ms_reviews s) \<le> verdict_reviews rs \<and>
     (flow = Solo \<longrightarrow> total_count (ms_reviews s) = 0) \<and>
     (case ms_first s of None \<Rightarrow> total_count (ms_reviews s) = 0 | Some v \<Rightarrow> v \<in> set VERDICTS \<and> 1 \<le> count_of (ms_reviews s) v)"

lemma coverage_step_frame [simp]:
  "ms_cursor (coverage_step s r) = ms_cursor s" "ms_reviews (coverage_step s r) = ms_reviews s" "ms_first (coverage_step s r) = ms_first s"
  by (simp_all add: coverage_step_def split: option.split)

lemma count_role_frame [simp]: "ms_reviews (count_role s r) = ms_reviews s" "ms_first (count_role s r) = ms_first s"
  by (simp_all add: count_role_def)

lemma count_revision_frame [simp]: "ms_reviews (count_revision flow s r) = ms_reviews s" "ms_first (count_revision flow s r) = ms_first s"
  by (simp_all add: count_revision_def Let_def)

text \<open>A step either leaves the review counters alone or counts one accepted review.\<close>

lemma metric_step_cases:
  "(ms_reviews (metric_step flow s r) = ms_reviews s \<and> ms_first (metric_step flow s r) = ms_first s) \<or>
   (\<exists>v. flow \<noteq> Solo \<and> rec_content_type r = ''review'' \<and> verdict_of r = Some v \<and> v \<in> set VERDICTS \<and>
      ms_reviews (metric_step flow s r) = increment (ms_reviews s) v 1 \<and>
      ms_first (metric_step flow s r) = (case ms_first s of None \<Rightarrow> Some v | Some w \<Rightarrow> Some w))"
proof (cases "rec_content_type r = ''review'' \<and> accepted (fc_status (ms_cursor s)) (foldOntoCursor (ms_cursor s) [r] flow) r \<and>
    (\<exists>v\<in>set VERDICTS. verdict_of r = Some v)")
  case True
  then obtain v where v: "verdict_of r = Some v" "v \<in> set VERDICTS" and ct: "rec_content_type r = ''review''"
    and a: "accepted (fc_status (ms_cursor s)) (foldOntoCursor (ms_cursor s) [r] flow) r" by blast
  have "flow \<noteq> Solo" using accepted_review [OF ct a] by simp
  with v ct a show ?thesis
    by (auto simp: metric_step_def Let_def count_review_def)
next
  case False
  then show ?thesis
    by (auto simp: metric_step_def Let_def split: option.split)
qed

lemma metric_inv_step:
  assumes "metric_inv flow rs s"
  shows "metric_inv flow (rs @ [r]) (metric_step flow s r)"
  using metric_step_cases [of flow s r]
proof (elim disjE exE conjE)
  assume e: "ms_reviews (metric_step flow s r) = ms_reviews s" "ms_first (metric_step flow s r) = ms_first s"
  show ?thesis
    using assms unfolding metric_inv_def e by (cases "ms_first s") (simp_all add: verdict_reviews_def)
next
  fix v
  assume v: "flow \<noteq> Solo" "rec_content_type r = ''review''" "verdict_of r = Some v" "v \<in> set VERDICTS"
    and e: "ms_reviews (metric_step flow s r) = increment (ms_reviews s) v 1"
      "ms_first (metric_step flow s r) = (case ms_first s of None \<Rightarrow> Some v | Some w \<Rightarrow> Some w)"
  have "verdict_counts (increment (ms_reviews s) v 1)" "total_count (increment (ms_reviews s) v 1) = total_count (ms_reviews s) + 1"
    using verdict_counts_increment [OF _ v(4), of "ms_reviews s" 1] assms by (simp_all add: metric_inv_def)
  moreover have "verdict_reviews (rs @ [r]) = Suc (verdict_reviews rs)"
    using v by (simp add: verdict_reviews_def)
  ultimately show ?thesis
    using assms v e by (cases "ms_first s") (simp_all add: metric_inv_def count_of_increment)
qed

lemma metric_inv_fold:
  "metric_inv flow done_rs s \<Longrightarrow> metric_inv flow (done_rs @ rs) (foldl (metric_step flow) s rs)"
proof (induction rs arbitrary: done_rs s)
  case (Cons r rs)
  from Cons.IH [OF metric_inv_step [OF Cons.prems, of r]] show ?case by simp
qed simp

lemma metric_inv_start: "metric_inv flow [] (metric_start flow)"
  by (simp add: metric_inv_def metric_start_def verdict_counts_def VERDICTS_def total_count_def verdict_reviews_def)

lemma verdict_reviews_sort: "verdict_reviews (sort_key rec_version rs) = verdict_reviews rs"
  by (simp add: verdict_reviews_def filter_sort)

text \<open>The quality metrics count only what the workflow accepted: a task has at most one count per review
  record with a legal verdict, none at all in the solo flow, its first review is the verdict of a counted
  one, it is absent exactly when nothing was counted, and the pass rate lies between 0 and 1.\<close>

theorem review_metrics_sound:
  assumes "taskMetrics t task entry = (m, deliveries)"
  shows "me_review_count m \<le> verdict_reviews (rr_versions task) \<and>
    (effective_flow (rr_flow task) = Solo \<longrightarrow> me_review_count m = 0) \<and>
    (me_first m = None \<longleftrightarrow> me_review_count m = 0) \<and>
    (\<forall>v. me_first m = Some v \<longrightarrow> v \<in> set VERDICTS \<and> 1 \<le> count_of (me_reviews m) v) \<and>
    (\<forall>q. me_pass_rate m = Some q \<longrightarrow> 0 \<le> q \<and> q \<le> 1)"
proof -
  let ?flow = "effective_flow (rr_flow task)"
  let ?s = "foldl (metric_step ?flow) (metric_start ?flow) (sort_key rec_version (rr_versions task))"
  have inv: "metric_inv ?flow (sort_key rec_version (rr_versions task)) ?s"
    using metric_inv_fold [OF metric_inv_start, of ?flow "sort_key rec_version (rr_versions task)"] by simp
  have m: "me_review_count m = total_count (ms_reviews ?s)" "me_first m = ms_first ?s" "me_reviews m = ms_reviews ?s"
    "me_pass_rate m = rate (count_of (ms_reviews ?s) ''pass'') (total_count (ms_reviews ?s))"
    using assms by (auto simp: taskMetrics_def Let_def)
  have q: "\<forall>q. me_pass_rate m = Some q \<longrightarrow> 0 \<le> q \<and> q \<le> 1"
    using rate_bounds [OF count_of_le_total] by (auto simp: m(4))
  have pos: "me_first m = Some v \<Longrightarrow> total_count (ms_reviews ?s) \<noteq> 0" for v
    using inv count_of_le_total [of "ms_reviews ?s" v] by (auto simp: metric_inv_def m(2))
  from inv q pos show ?thesis
    unfolding metric_inv_def verdict_reviews_sort m(1-3) by (auto split: option.splits)
qed

section \<open>The aggregate\<close>

definition task_runs :: "(string \<Rightarrow> json option) \<Rightarrow> task_stats \<Rightarrow> json list" where
  "task_runs usage x = counted_runs (ur_status (tt_usage x)) (usage (me_task (tt_metrics x)))"

definition task_ok :: "(string \<Rightarrow> json option) \<Rightarrow> task_stats \<Rightarrow> bool" where
  "task_ok usage x \<longleftrightarrow>
     runs_summed (ur_agents (tt_usage x)) (task_runs usage x) \<and> distinct (map (run_counter ''launch_version'') (task_runs usage x)) \<and>
     agents_ok (ur_agents (tt_usage x)) \<and> verdict_counts (me_reviews (tt_metrics x)) \<and>
     me_review_count (tt_metrics x) = total_count (me_reviews (tt_metrics x))"

definition classified :: "coverage \<Rightarrow> nat" where
  "classified c = cv_complete c + cv_incomplete c + cv_missing c + cv_invalid c"

definition batch_inv :: "(string \<Rightarrow> json option) \<Rightarrow> task_stats list \<Rightarrow> batch \<Rightarrow> bool" where
  "batch_inv usage xs b \<longleftrightarrow>
     runs_summed (bt_agents b) (concat (map (task_runs usage) xs)) \<and>
     (\<forall>v\<in>set VERDICTS. count_of (bt_reviews b) v = sum_list (map (\<lambda>x. count_of (me_reviews (tt_metrics x)) v) xs)) \<and>
     bt_revisions b = sum_list (map (\<lambda>x. me_revisions (tt_metrics x)) xs) \<and>
     agents_ok (bt_agents b) \<and> verdict_counts (bt_reviews b) \<and>
     total_count (bt_reviews b) = sum_list (map (\<lambda>x. me_review_count (tt_metrics x)) xs) \<and>
     bt_reviewed b = length (filter (\<lambda>x. me_first (tt_metrics x) \<noteq> None) xs) \<and>
     bt_first_pass b = length (filter (\<lambda>x. me_first (tt_metrics x) = Some ''pass'') xs) \<and>
     classified (bt_coverage b) = length xs \<and>
     cv_complete (bt_coverage b) = length (filter (\<lambda>x. ur_status (tt_usage x) = Usage_complete) xs)"

lemma cover_sum:
  "classified (cover c s) = Suc (classified c)"
  "cv_complete (cover c s) = (if s = Usage_complete then Suc (cv_complete c) else cv_complete c)"
  by (simp_all add: cover_def classified_def split: usage_status.split)

lemma batch_step_inv:
  assumes "batch_step fadd b x = Inr b'" and "batch_inv usage xs b" and "task_ok usage x"
  shows "batch_inv usage (xs @ [x]) b' \<and> bt_degraded b' = bt_degraded b"
proof -
  from assms(1) obtain agents where a: "add_agents fadd (bt_agents b) (ur_agents (tt_usage x)) = Inr agents"
    and b': "b' = b\<lparr>bt_reviews := add_reviews (bt_reviews b) (me_reviews (tt_metrics x)),
               bt_per_role := add_counts (bt_per_role b) (me_per_role (tt_metrics x)),
               bt_agents := agents,
               bt_statuses := increment (bt_statuses b) (status_key (me_status (tt_metrics x)) ''unknown'') 1,
               bt_blockers := (if me_status (tt_metrics x) \<noteq> Some Closed then increment (bt_blockers b) (blocker_key (tt_metrics x)) 1 else bt_blockers b),
               bt_revisions := bt_revisions b + me_revisions (tt_metrics x),
               bt_reviewed := (if me_first (tt_metrics x) \<noteq> None then Suc (bt_reviewed b) else bt_reviewed b),
               bt_first_pass := (if me_first (tt_metrics x) = Some ''pass'' then Suc (bt_first_pass b) else bt_first_pass b),
               bt_coverage := cover (bt_coverage b) (ur_status (tt_usage x))\<rparr>"
    by (auto simp: batch_step_def Let_def rbind_Inr_iff)
  have ag: "agents_ok agents"
    by (rule add_agents_ok [OF _ _ a]) (use assms(2,3) in \<open>simp_all add: batch_inv_def task_ok_def\<close>)
  have rv: "verdict_counts (add_reviews (bt_reviews b) (me_reviews (tt_metrics x)))"
    "total_count (add_reviews (bt_reviews b) (me_reviews (tt_metrics x))) = total_count (bt_reviews b) + me_review_count (tt_metrics x)"
    using add_reviews_sum [of "bt_reviews b" "me_reviews (tt_metrics x)"] assms(2,3) by (simp_all add: batch_inv_def task_ok_def)
  have sums: "runs_summed agents (concat (map (task_runs usage) (xs @ [x])))"
    using add_agents_sums [OF a] assms(2,3) by (simp add: batch_inv_def task_ok_def)
  show ?thesis
    using assms(2) ag rv sums unfolding batch_inv_def b' by (simp add: cover_sum add_reviews_count)
qed

lemma batch_fold_inv:
  "batch_fold fadd b ys = Inr b' \<Longrightarrow> batch_inv usage xs b \<Longrightarrow> list_all (task_ok usage) ys \<Longrightarrow> batch_inv usage (xs @ ys) b' \<and> bt_degraded b' = bt_degraded b"
proof (induction ys arbitrary: b xs)
  case (Cons y ys)
  then obtain b1 where b1: "batch_step fadd b y = Inr b1" and r: "batch_fold fadd b1 ys = Inr b'"
    by (auto simp: rbind_Inr_iff)
  have s: "batch_inv usage (xs @ [y]) b1" "bt_degraded b1 = bt_degraded b"
    using batch_step_inv [OF b1 Cons.prems(2)] Cons.prems(3) by simp_all
  from Cons.IH [OF r s(1)] Cons.prems(3) s(2) show ?case by simp
qed simp

lemma taskMetrics_counts:
  assumes "taskMetrics t task entry = (m, deliveries)"
  shows "verdict_counts (me_reviews m) \<and> me_review_count m = total_count (me_reviews m) \<and> me_task m = t"
proof -
  let ?flow = "effective_flow (rr_flow task)"
  from metric_inv_fold [OF metric_inv_start, of ?flow "sort_key rec_version (rr_versions task)"] assms
  show ?thesis by (auto simp: taskMetrics_def Let_def metric_inv_def)
qed

lemma collect_tasks_ok: "collect_tasks pf fadd date usage es st = Inr xs \<Longrightarrow>
    list_all (task_ok usage) xs \<and> map (\<lambda>x. me_task (tt_metrics x)) xs = map le_task_id es"
proof (induction es arbitrary: st xs)
  case (Cons e es)
  obtain res st' where rt: "readTask pf (le_task_id e) None st = (res, st')" by fastforce
  from Cons.prems obtain task where res: "res = Inr task" by (cases res) (simp_all add: rt Let_def)
  obtain m deliveries where tm: "taskMetrics (le_task_id e) task e = (m, deliveries)" by fastforce
  from Cons.prems obtain rest where rest: "collect_tasks pf fadd date usage es st' = Inr rest"
    and xs: "xs = \<lparr>tt_metrics = m, tt_usage = usage_report_of fadd date (usage (le_task_id e)) (rr_versions task) deliveries\<rparr> # rest"
    by (auto simp: rt res Let_def tm rbind_Inr_iff)
  from Cons.IH [OF rest] taskMetrics_counts [OF tm] usage_report_ok usage_report_sums [OF HOL.refl] show ?case
    by (simp add: xs task_ok_def task_runs_def)
qed simp

lemma batch_start_inv: "batch_inv usage [] (batch_start degraded)"
  by (simp add: runs_summed_Nil batch_inv_def count_of_def batch_start_def agents_ok_def verdict_counts_def total_count_def VERDICTS_def classified_def)

text \<open>C40. The statistics add up and stay inside their bounds.  An agent's counters in the aggregate are the
  sums over its runs in the accepted usage sidecars of the selected tasks: their number, their input, output
  and total tokens, with an unknown cost exactly when the cost of one of these runs is unknown; no run is
  counted twice, since a sidecar names each launch once; and the same holds for each task.  Only the two measured agents
  appear, and their counters are non-negative safe integers whose total is input plus output.  Reviews are
  summed by verdict, the pass rate is the share of passes among them and the first-pass rate the share of
  the reviewed tasks that passed at first, both between 0 and 1 and absent when there is nothing to
  divide by; revisions are summed; the coverage classes partition the tasks, and completeness is claimed exactly
  when no task is degraded and every task is covered.\<close>

theorem stats_within_bounds:
  assumes "collectStats pf fadd date usage selected st = Inr (tasks, b)"
  shows "(\<forall>a. let t = tokens_of (bt_agents b) a; runs = agent_runs a (concat (map (task_runs usage) tasks)) in
      tk_rounds t = int (length runs) \<and> tk_input t = sum_list (map (run_counter ''input_tokens'') runs) \<and>
      tk_output t = sum_list (map (run_counter ''output_tokens'') runs) \<and>
      tk_total t = sum_list (map (run_counter ''total_tokens'') runs) \<and>
      (tk_cost t = None \<longleftrightarrow> (\<exists>r\<in>set runs. tk_cost (run_tokens r) = None))) \<and>
    (\<forall>x\<in>set tasks. runs_summed (ur_agents (tt_usage x)) (task_runs usage x) \<and>
      distinct (map (run_counter ''launch_version'') (task_runs usage x))) \<and>
    (\<forall>(a, t)\<in>set (bt_agents b). a \<in> set USAGE_AGENTS \<and> 0 \<le> tk_rounds t \<and> tk_rounds t \<le> 2 ^ 53 - 1 \<and>
      0 \<le> tk_input t \<and> 0 \<le> tk_output t \<and> tk_total t = tk_input t + tk_output t \<and> tk_total t \<le> 2 ^ 53 - 1) \<and>
    (\<forall>v\<in>set VERDICTS. count_of (bt_reviews b) v = sum_list (map (\<lambda>x. count_of (me_reviews (tt_metrics x)) v) tasks)) \<and>
    bt_review_count b = sum_list (map (\<lambda>x. me_review_count (tt_metrics x)) tasks) \<and>
    bt_reviewed b = length (filter (\<lambda>x. me_first (tt_metrics x) \<noteq> None) tasks) \<and>
    bt_first_pass b = length (filter (\<lambda>x. me_first (tt_metrics x) = Some ''pass'') tasks) \<and>
    bt_pass_rate b = (if bt_review_count b = 0 then None else Some (of_nat (count_of (bt_reviews b) ''pass'') / of_nat (bt_review_count b))) \<and>
    bt_first_rate b = (if bt_reviewed b = 0 then None else Some (of_nat (bt_first_pass b) / of_nat (bt_reviewed b))) \<and>
    (\<forall>q. bt_pass_rate b = Some q \<or> bt_first_rate b = Some q \<longrightarrow> 0 \<le> q \<and> q \<le> 1) \<and>
    bt_revisions b = sum_list (map (\<lambda>x. me_revisions (tt_metrics x)) tasks) \<and>
    cv_complete (bt_coverage b) + cv_incomplete (bt_coverage b) + cv_missing (bt_coverage b) + cv_invalid (bt_coverage b) = length tasks \<and>
    (bt_complete b \<longleftrightarrow> bt_degraded b = [] \<and> cv_complete (bt_coverage b) = length tasks)"
proof -
  from assms obtain degraded b0 es st' where ct: "collect_tasks pf fadd date usage es st' = Inr tasks"
    and bf: "batch_fold fadd (batch_start degraded) tasks = Inr b0" and b: "b = finish_batch b0 tasks"
    by (auto simp: collectStats_def Let_def split: prod.splits option.splits sum.splits)
  have ok: "list_all (task_ok usage) tasks" using collect_tasks_ok [OF ct] by simp
  have inv: "batch_inv usage tasks b0"
    using batch_fold_inv [OF bf batch_start_inv ok] by simp
  have f: "length (filter (\<lambda>x. me_first (tt_metrics x) = Some ''pass'') tasks) \<le>
      length (filter (\<lambda>x. me_first (tt_metrics x) \<noteq> None) tasks)"
    by (induction tasks) auto
  have e: "bt_pass_rate b = rate (count_of (bt_reviews b0) ''pass'') (total_count (bt_reviews b0))"
    "bt_first_rate b = rate (bt_first_pass b0) (bt_reviewed b0)" "bt_agents b = bt_agents b0" "bt_reviews b = bt_reviews b0"
    "bt_review_count b = total_count (bt_reviews b0)" "bt_first_pass b = bt_first_pass b0" "bt_reviewed b = bt_reviewed b0"
    by (simp_all add: b finish_batch_def Let_def)
  have le: "bt_first_pass b0 \<le> bt_reviewed b0"
    using inv f by (simp add: batch_inv_def)
  have rates: "0 \<le> q \<and> q \<le> 1" if "bt_pass_rate b = Some q \<or> bt_first_rate b = Some q" for q
    using that rate_bounds [OF count_of_le_total] rate_bounds [OF le] unfolding e by blast
  have all: "list_all P xs \<longleftrightarrow> length (filter P xs) = length xs" for P and xs :: "task_stats list"
    by (induction xs) (auto, metis Suc_n_not_le_n length_filter_le)
  have ag: "agents_ok (bt_agents b)"
    using inv by (simp add: batch_inv_def e)
  have sums: "runs_summed (bt_agents b) (concat (map (task_runs usage) tasks))"
    using inv by (simp add: batch_inv_def e)
  have counter: "f (tokens_of (bt_agents b) a) =
      sum_list (map (\<lambda>r. f (run_tokens r)) (agent_runs a (concat (map (task_runs usage) tasks))))" if "f \<in> counters" for f a
    using sums that by (simp add: runs_summed_def)
  show ?thesis
  proof (intro conjI)
    show "\<forall>a. let t = tokens_of (bt_agents b) a; runs = agent_runs a (concat (map (task_runs usage) tasks)) in
      tk_rounds t = int (length runs) \<and> tk_input t = sum_list (map (run_counter ''input_tokens'') runs) \<and>
      tk_output t = sum_list (map (run_counter ''output_tokens'') runs) \<and>
      tk_total t = sum_list (map (run_counter ''total_tokens'') runs) \<and>
      (tk_cost t = None \<longleftrightarrow> (\<exists>r\<in>set runs. tk_cost (run_tokens r) = None))"
      using sums counter [of tk_rounds] counter [of tk_input] counter [of tk_output] counter [of tk_total]
      by (simp add: Let_def counters_def run_tokens_def [of r for r] sum_list_triv runs_summed_def)
    show "\<forall>x\<in>set tasks. runs_summed (ur_agents (tt_usage x)) (task_runs usage x) \<and>
      distinct (map (run_counter ''launch_version'') (task_runs usage x))"
      using ok by (simp add: list_all_iff task_ok_def)
    show "\<forall>(a, t)\<in>set (bt_agents b). a \<in> set USAGE_AGENTS \<and> 0 \<le> tk_rounds t \<and> tk_rounds t \<le> 2 ^ 53 - 1 \<and>
      0 \<le> tk_input t \<and> 0 \<le> tk_output t \<and> tk_total t = tk_input t + tk_output t \<and> tk_total t \<le> 2 ^ 53 - 1"
      using ag by (auto simp: agents_ok_def tokens_ok_def MAX_SAFE_INTEGER_def)
    show "\<forall>q. bt_pass_rate b = Some q \<or> bt_first_rate b = Some q \<longrightarrow> 0 \<le> q \<and> q \<le> 1"
      using rates by blast
    show "bt_pass_rate b = (if bt_review_count b = 0 then None else Some (of_nat (count_of (bt_reviews b) ''pass'') / of_nat (bt_review_count b)))"
      "bt_first_rate b = (if bt_reviewed b = 0 then None else Some (of_nat (bt_first_pass b) / of_nat (bt_reviewed b)))"
      by (simp_all add: e rate_def)
    show "\<forall>v\<in>set VERDICTS. count_of (bt_reviews b) v = sum_list (map (\<lambda>x. count_of (me_reviews (tt_metrics x)) v) tasks)"
      "bt_review_count b = sum_list (map (\<lambda>x. me_review_count (tt_metrics x)) tasks)"
      "bt_reviewed b = length (filter (\<lambda>x. me_first (tt_metrics x) \<noteq> None) tasks)"
      "bt_first_pass b = length (filter (\<lambda>x. me_first (tt_metrics x) = Some ''pass'') tasks)"
      "bt_revisions b = sum_list (map (\<lambda>x. me_revisions (tt_metrics x)) tasks)"
      "cv_complete (bt_coverage b) + cv_incomplete (bt_coverage b) + cv_missing (bt_coverage b) + cv_invalid (bt_coverage b) = length tasks"
      "bt_complete b \<longleftrightarrow> bt_degraded b = [] \<and> cv_complete (bt_coverage b) = length tasks"
      using inv all by (simp_all add: b finish_batch_def Let_def batch_inv_def classified_def)
  qed
qed

text \<open>A direct task with one delivery and one passing review.\<close>

definition reviewed_task :: read_result where
  "reviewed_task = \<lparr>rr_title = ''x'', rr_description = None, rr_flow = Some Direct, rr_cast = None, rr_checkout = None,
     rr_status = Some Pending_approval, rr_versions = [sample_record 1 ''executor'' ''code_changes'' [],
       sample_record 2 ''reviewer'' ''review'' [(''verdict'', JStr ''pass'')]]\<rparr>"

definition reviewed_entry :: list_entry where
  "reviewed_entry = \<lparr>le_task_id = ''t'', le_title = ''x'', le_updated_at = '''', le_version = 2, le_view = None, le_flow = None,
     le_cast = None, le_checkout = None\<rparr>"

lemma reviewed_metrics:
  "me_review_count (fst (taskMetrics ''t'' reviewed_task reviewed_entry)) = 1"
proof -
  let ?r1 = "sample_record 1 ''executor'' ''code_changes'' []"
  let ?r2 = "sample_record 2 ''reviewer'' ''review'' [(''verdict'', JStr ''pass'')]"
  have v: "rec_version (sample_record n a c p) = n" for n a c p by (simp add: sample_record_def)
  have s1: "fc_status (ms_cursor (metric_step Direct (metric_start Direct) ?r1)) = Reviewing"
      "fc_gate (ms_cursor (metric_step Direct (metric_start Direct) ?r1)) = []"
      "ms_reviews (metric_step Direct (metric_start Direct) ?r1) = map (\<lambda>v. (v, 0)) VERDICTS"
    by (simp_all add: metric_step_def metric_start_def Let_def fold_one fold_step_def initialCursor_def INITIAL_STATUS_def sample_record_def
        fold_record_def clear_warnings_def is_close_def is_ack_note_def structural_check_def accepted_def decides_def count_role_def
        coverage_step_def usage_marker_def isUsageDelivery_def count_revision_def push_warning_def split: if_splits)
  obtain s where s: "s = metric_step Direct (metric_start Direct) ?r1" by blast
  note s1 = s1 [folded s]
  have f: "fold_record Reviewing ?r2 Direct = (Pending_approval, None)"
    by (simp add: fold_record_def sample_record_def fold_review_def legal_verdict_def verdict_of_def VERDICT_TARGET_DIRECT_def
        VERDICT_TARGET_def)
  have g: "fc_gate (foldOntoCursor (ms_cursor s) [?r2] Direct) = []" "fc_status (foldOntoCursor (ms_cursor s) [?r2] Direct) = Pending_approval"
    using s1 f by (simp_all add: fold_one fold_step_def Let_def clear_warnings_def structural_check_def push_warning_def
        sample_record_def is_close_def is_ack_note_def)
  have "ms_reviews (metric_step Direct s ?r2) = increment (ms_reviews s) ''pass'' 1"
    using g s1 by (simp add: metric_step_def Let_def accepted_def sample_record_def verdict_of_def VERDICTS_def count_review_def)
  then show ?thesis
    using s1(3) by (simp add: taskMetrics_def Let_def reviewed_task_def effective_flow_def v s [symmetric] increment_def
        VERDICTS_def total_count_def count_of_def del: One_nat_def)
qed

theorem review_metrics_sound_witness:
  "me_review_count (fst (taskMetrics ''t'' reviewed_task reviewed_entry)) = 1 \<and>
    me_first (fst (taskMetrics ''t'' reviewed_task reviewed_entry)) \<noteq> None"
proof -
  obtain m d where m: "taskMetrics ''t'' reviewed_task reviewed_entry = (m, d)" by fastforce
  from review_metrics_sound [OF m] reviewed_metrics show ?thesis by (simp add: m)
qed

text \<open>A hub with one direct task: a launch, its delivery by codex and a passing review, with a sidecar that
  measured the run.\<close>

definition prose :: jobject where
  "prose = [(''summary'', JStr ''s''), (''body'', JStr ''b'')]"

definition launch_note :: context_record where
  "launch_note = sample_record 1 ''human'' ''note''
     (prose @ [(''launch'', JObj [(''role'', JStr ''executor''), (''base_version'', JNum 0)])])"

definition codex_delivery :: context_record where
  "codex_delivery = (sample_record 2 ''executor'' ''code_changes'' prose)\<lparr>rec_agent := Some ''codex''\<rparr>"

definition passing_review :: context_record where
  "passing_review = sample_record 3 ''reviewer'' ''review'' (prose @ [(''verdict'', JStr ''pass'')])"

definition measured_meta :: task_meta where
  "measured_meta = one_task_meta\<lparr>tm_flow := Some Direct\<rparr>"

definition measured_dir :: task_dir where
  "measured_dir = (writeMeta measured_meta empty_dir)\<lparr>td_files :=
     [(''v001.note.json'', Doc (record_json launch_note) 0), (''v002.code_changes.json'', Doc (record_json codex_delivery) 0),
      (''v003.review.json'', Doc (record_json passing_review) 0)]\<rparr>"

definition measured_hub :: store where
  "measured_hub = \<lparr>st_tasks = [(''t'', Dir measured_dir)], st_cache = (\<lambda>_. None)\<rparr>"

definition measured_run :: json where
  "measured_run = JObj
     [(''round'', JNum 1), (''session_file'', JStr ''/s''), (''start_line'', JNum 1), (''end_line'', JNum 2), (''window_start'', JStr ''a''),
      (''ts'', JStr ''b''), (''window_end'', JStr ''c''), (''launch_version'', JNum 1), (''delivery_version'', JNum 2),
      (''role'', JStr ''executor''), (''agent'', JStr ''codex''), (''input_tokens'', JNum 7), (''output_tokens'', JNum 5),
      (''total_tokens'', JNum 12), (''cost_usd'', JNum (1/2))]"

definition measured_sidecar :: json where
  "measured_sidecar = JObj [(''schema_version'', JNum 1), (''rounds'', JArr [measured_run]), (''unresolved'', JArr []),
     (''total'', JObj [(''rounds'', JNum 1), (''total_tokens'', JNum 12), (''cost_usd'', JNum (1/2)), (''complete'', JBool True)])]"

lemma measured_names: "taskDirNames measured_dir = [''meta.json'', ''v001.note.json'', ''v002.code_changes.json'', ''v003.review.json'']"
  by (simp add: measured_dir_def taskDirNames_def writeMeta_def empty_dir_def)

lemma measured_versions:
  "recordFileVersion ''v001.note.json'' = Some 1" "recordFileVersion ''v002.code_changes.json'' = Some 2"
  "recordFileVersion ''v003.review.json'' = Some 3" "recordFileVersion ''meta.json'' = None"
  by (simp_all add: recordFileVersion_def is_digit_def ends_with_def line_terminator_def read_nat_def)

lemma measured_records: "record_ok launch_note" "record_ok codex_delivery" "record_ok passing_review"
  by (simp_all add: record_ok_def launch_note_def codex_delivery_def passing_review_def sample_record_def blank_def is_space_def
      nonempty_string_def pget_append prose_def)

lemma measured_read:
  "read_record sha measured_dir ''t'' ''v001.note.json'' = Inr launch_note"
  "read_record sha measured_dir ''t'' ''v002.code_changes.json'' = Inr codex_delivery"
  "read_record sha measured_dir ''t'' ''v003.review.json'' = Inr passing_review"
proof -
  have "rec_task_id launch_note = ''t''" "rec_task_id codex_delivery = ''t''" "rec_task_id passing_review = ''t''"
    by (simp_all add: launch_note_def codex_delivery_def passing_review_def sample_record_def)
  then show "read_record sha measured_dir ''t'' ''v001.note.json'' = Inr launch_note"
    "read_record sha measured_dir ''t'' ''v002.code_changes.json'' = Inr codex_delivery"
    "read_record sha measured_dir ''t'' ''v003.review.json'' = Inr passing_review"
    using record_json_valid [OF measured_records(1)] record_json_valid [OF measured_records(2)] record_json_valid [OF measured_records(3)]
    by (simp_all add: read_record_def readBytes_def measured_dir_def read_direct_def parse_json_def)
qed

lemma measured_paired:
  "readNamedRecordsPaired sha measured_dir ''t'' (filter is_record_name (taskDirNames measured_dir)) =
    Inr [(''v001.note.json'', launch_note), (''v002.code_changes.json'', codex_delivery), (''v003.review.json'', passing_review)]"
  by (simp add: readNamedRecordsPaired_def measured_names is_record_name_def measured_versions name_version_def
      measured_read is_ok_def)

lemma measured_meta_read: "readMeta measured_dir ''t'' = Inr (Some measured_meta)"
proof -
  have "meta_ok measured_meta"
    by (simp add: measured_meta_def one_task_meta_def meta_ok_def blank_def is_space_def)
  from readMeta_writeMeta [OF this, of "''t''" empty_dir] show ?thesis
    by (simp add: measured_meta_def one_task_meta_def measured_dir_def readMeta_def)
qed

lemma measured_derived:
  "\<exists>v e. derivedFor sha parses measured_dir ''t'' (Some Direct) None (taskDirNames measured_dir) already None = Inr (Some (v, e)) \<and>
    (\<forall>already'. derivedFor sha parses measured_dir ''t'' (Some Direct) None (taskDirNames measured_dir) already' (Some e) = Inr (Some (v, e)))"
  if "read_already sha measured_dir ''t'' already"
proof -
  have "\<exists>c. cold_fold sha parses measured_dir ''t'' Direct None (taskDirNames measured_dir) = Inr c"
    by (simp add: cold_fold_def readable_def description_text_def measured_names is_record_name_def measured_versions measured_read)
  then obtain c where c: "cold_fold sha parses measured_dir ''t'' Direct None (taskDirNames measured_dir) = Inr c" by blast
  show ?thesis
    using that by (simp add: derivedFor_def PROJECT_TASK_ID_def foldCursorFor_def effective_flow_def fold_files_cold c)
qed


definition codex_tokens :: tokens where
  "codex_tokens = \<lparr>tk_rounds = 1, tk_input = 7, tk_output = 5, tk_total = 12, tk_cost = Some (1/2)\<rparr>"

lemma measured_usage:
  "\<exists>u. usageMetrics (\<lambda>x y. Some (x + y)) (\<lambda>_. Some 0) measured_sidecar [launch_note, codex_delivery, passing_review] deliveries = Inr u \<and>
    ur_status u \<in> {Usage_complete, Usage_incomplete} \<and> ur_agents u = [(''codex'', codex_tokens)]"
proof -
  let ?vs = "[launch_note, codex_delivery, passing_review]"
  have i: "is_integer (1::rat)" "is_integer (2::rat)" "is_integer (5::rat)" "is_integer (7::rat)" "is_integer (12::rat)" "is_integer (0::rat)"
    "\<lfloor>1::rat\<rfloor> = 1" "\<lfloor>2::rat\<rfloor> = 2" "\<lfloor>5::rat\<rfloor> = 5" "\<lfloor>7::rat\<rfloor> = 7" "\<lfloor>12::rat\<rfloor> = 12"
    by (simp_all add: is_integer_def)
  note num = usage_integer_def safe_int_def i MAX_SAFE_INTEGER_def
  have src: "validateUsageSource (\<lambda>_. Some 0) measured_run = Inr ()"
    by (simp add: validateUsageSource_def measured_run_def jget_def num absolute_string_def absolute_path_def starts_with_def
        instant_def guard_def)
  have find: "find_version 1 ?vs = Some launch_note" "find_version 2 ?vs = Some codex_delivery"
    by (simp_all add: find_version_def launch_note_def codex_delivery_def passing_review_def sample_record_def)
  have marker: "pget (rec_payload launch_note) ''launch'' = Some (JObj [(''role'', JStr ''executor''), (''base_version'', JNum 0)])"
    by (simp add: launch_note_def sample_record_def prose_def pget_append)
  have del: "isUsageDelivery codex_delivery" "rec_role codex_delivery = ''executor''" "rec_agent codex_delivery = Some ''codex''"
    by (simp_all add: isUsageDelivery_def codex_delivery_def sample_record_def)
  have run: "jget measured_run ''role'' = Some (JStr ''executor'')" "jget measured_run ''agent'' = Some (JStr ''codex'')"
    "usage_integer (jget measured_run ''launch_version'') = Inr 1" "usage_integer (jget measured_run ''delivery_version'') = Inr 2"
    "usage_integer (jget measured_run ''input_tokens'') = Inr 7" "usage_integer (jget measured_run ''output_tokens'') = Inr 5"
    "usage_integer (jget measured_run ''total_tokens'') = Inr 12" "usage_cost (jget measured_run ''cost_usd'') = Inr (Some (1/2))"
    "usage_object (Some measured_run) = Inr measured_run"
    by (simp_all add: measured_run_def jget_def num usage_cost_def usage_object_def)
  have mk: "jget (JObj [(''role'', JStr ''executor''), (''base_version'', JNum 0)]) ''role'' = Some (JStr ''executor'')"
    "jget (JObj [(''role'', JStr ''executor''), (''base_version'', JNum 0)]) ''route'' = None"
    by (simp_all add: jget_def)
  let ?s0 = "\<lparr>us_agents = [], us_launches = [], us_measured = [], us_total = 0, us_cost = Cost 0\<rparr>"
  have attr: "attribute_round ?vs deliveries ?s0 measured_run 1 2 = Inr ''codex''"
    unfolding attribute_round_def Let_def find
    by (simp add: guard_def marker del run one_of_def USAGE_AGENTS_def usage_object_def mk)
  have r: "\<exists>s. usage_round (\<lambda>x y. Some (x + y)) (\<lambda>_. Some 0) ?vs deliveries ?s0 measured_run = Inr s \<and> us_total s = 12 \<and> us_cost s = Cost (1/2) \<and> us_agents s = [(''codex'', codex_tokens)]"
    by (simp add: usage_round_def run src attr safeAdd_def MAX_SAFE_INTEGER_def guard_def addTokens_def add_cost_def no_tokens_def sum_cost_def codex_tokens_def)
  then obtain s where s: "usage_round (\<lambda>x y. Some (x + y)) (\<lambda>_. Some 0) ?vs deliveries ?s0 measured_run = Inr s" "us_total s = 12" "us_cost s = Cost (1/2)"
      "us_agents s = [(''codex'', codex_tokens)]"
    by blast
  show ?thesis
    by (simp add: usageMetrics_def measured_sidecar_def usage_object_def jget_def)
      (simp add: usage_totals_def s declared_cost_def jget_def usage_object_def guard_def)
qed

lemma measured_metrics:
  assumes "rr_flow task = Some Direct" and "rr_versions task = [launch_note, codex_delivery, passing_review]"
  shows "me_review_count (fst (taskMetrics ''t'' task entry)) = 1 \<and> me_first (fst (taskMetrics ''t'' task entry)) = Some ''pass''"
proof -
  have v: "rec_version launch_note = 1" "rec_version codex_delivery = 2" "rec_version passing_review = 3"
    by (simp_all add: launch_note_def codex_delivery_def passing_review_def sample_record_def)
  obtain s1 where s1: "s1 = metric_step Direct (metric_start Direct) launch_note" by blast
  have c1: "fc_status (ms_cursor s1) = Implementing" "fc_gate (ms_cursor s1) = []" "fc_prevVersion (ms_cursor s1) = 1"
    "ms_reviews s1 = map (\<lambda>v. (v, 0)) VERDICTS" "ms_first s1 = None" "ms_launched s1 = [''executor'']"
    unfolding s1
    by (simp_all add: metric_step_def metric_start_def Let_def fold_one fold_step_def initialCursor_def INITIAL_STATUS_def launch_note_def
        sample_record_def prose_def fold_record_def clear_warnings_def is_close_def is_ack_note_def structural_check_def accepted_def
        coverage_step_def usage_marker_def pget_def jget_def WORKER_ROLES_def is_integer_def is_ack_def push_warning_def add_new_def)
  obtain s2 where s2: "s2 = metric_step Direct s1 codex_delivery" by blast
  have k: "ms_cursor (coverage_step s r) = ms_cursor s" "ms_reviews (coverage_step s r) = ms_reviews s" "ms_first (coverage_step s r) = ms_first s"
    "ms_cursor (count_role s r) = ms_cursor s" "ms_reviews (count_role s r) = ms_reviews s" "ms_first (count_role s r) = ms_first s"
    "ms_cursor (count_revision flow s r) = ms_cursor s" "ms_reviews (count_revision flow s r) = ms_reviews s"
    "ms_first (count_revision flow s r) = ms_first s" for s r flow
    by (simp_all add: coverage_step_def count_role_def count_revision_def Let_def split: option.split)
  have f1: "fold_record Implementing codex_delivery Direct = (Reviewing, None)"
    by (simp add: fold_record_def codex_delivery_def sample_record_def)
  have g1: "fc_gate (foldOntoCursor c [codex_delivery] Direct) = []" "fc_status (foldOntoCursor c [codex_delivery] Direct) = Reviewing"
      "fc_prevVersion (foldOntoCursor c [codex_delivery] Direct) = 2"
    if "fc_status c = Implementing" "fc_gate c = []" "fc_prevVersion c = 1" for c
    using that f1 v by (simp_all add: fold_one fold_step_def Let_def clear_warnings_def structural_check_def push_warning_def
        codex_delivery_def sample_record_def is_close_def is_ack_note_def decides_def)
  obtain s2 where s2: "s2 = metric_step Direct s1 codex_delivery" by blast
  have t1: "rec_content_type codex_delivery = ''code_changes''" by (simp add: codex_delivery_def sample_record_def)
  have c2: "fc_status (ms_cursor s2) = Reviewing" "fc_gate (ms_cursor s2) = []" "fc_prevVersion (ms_cursor s2) = 2"
    "ms_reviews s2 = map (\<lambda>v. (v, 0)) VERDICTS" "ms_first s2 = None"
    using g1 [OF c1(1-3)] c1 by (simp_all add: s2 metric_step_def Let_def accepted_def k t1)
  have f: "fold_record Reviewing passing_review Direct = (Pending_approval, None)"
    by (simp add: fold_record_def passing_review_def sample_record_def prose_def fold_review_def legal_verdict_def verdict_of_def
        VERDICT_TARGET_DIRECT_def VERDICT_TARGET_def pget_def)
  have g: "fc_gate (foldOntoCursor (ms_cursor s) [passing_review] Direct) = []"
      "fc_status (foldOntoCursor (ms_cursor s) [passing_review] Direct) = Pending_approval"
    if "fc_status (ms_cursor s) = Reviewing" "fc_gate (ms_cursor s) = []" "fc_prevVersion (ms_cursor s) = 2" for s
    using that f by (simp_all add: fold_one fold_step_def Let_def clear_warnings_def structural_check_def push_warning_def
        passing_review_def sample_record_def is_close_def is_ack_note_def)
  have t2: "rec_content_type passing_review = ''review''" "verdict_of passing_review = Some ''pass''"
    by (simp_all add: passing_review_def sample_record_def prose_def verdict_of_def pget_def)
  have c3: "ms_reviews (metric_step Direct s2 passing_review) = increment (ms_reviews s2) ''pass'' 1 \<and>
      ms_first (metric_step Direct s2 passing_review) = Some ''pass''"
    using g [OF c2(1-3)] c2 by (simp add: metric_step_def Let_def accepted_def k t2 VERDICTS_def count_review_def)
  show ?thesis
    using c2(4) c3 by (simp add: taskMetrics_def Let_def assms effective_flow_def v s1 [symmetric] s2 [symmetric] increment_def
        VERDICTS_def total_count_def count_of_def del: One_nat_def)
qed

lemma measured_stats:
  "\<exists>x b. collectStats pf (\<lambda>x y. Some (x + y)) (\<lambda>_. Some 0) (\<lambda>_. Some measured_sidecar) [] measured_hub = Inr ([x], b) \<and>
    task_runs (\<lambda>_. Some measured_sidecar) x = [measured_run] \<and>
    me_review_count (tt_metrics x) = 1 \<and> me_first (tt_metrics x) = Some ''pass''"
proof -
  let ?fadd = "\<lambda>x y::rat. Some (x + y)" and ?date = "\<lambda>_::string. Some (0::rat)" and ?usage = "\<lambda>_::string. Some measured_sidecar"
  let ?paired = "[(''v001.note.json'', launch_note), (''v002.code_changes.json'', codex_delivery), (''v003.review.json'', passing_review)]"
  have desc: "tm_flow measured_meta = Some Direct" "tm_description measured_meta = None" by (simp_all add: measured_meta_def one_task_meta_def)
  have empty: "read_already (pf_sha256 pf) measured_dir ''t'' []" by (simp add: read_already_def)
  obtain v e where d: "derivedFor (pf_sha256 pf) (pf_parses pf) measured_dir ''t'' (Some Direct) None (taskDirNames measured_dir) [] None = Inr (Some (v, e))"
    "\<And>already. derivedFor (pf_sha256 pf) (pf_parses pf) measured_dir ''t'' (Some Direct) None (taskDirNames measured_dir) already (Some e) = Inr (Some (v, e))"
    using measured_derived [OF empty] by blast
  have id: "LEGACY_TASK_ID_PATTERN ''t''" "''t'' \<noteq> PROJECT_TASK_ID"
    by (simp_all add: LEGACY_TASK_ID_PATTERN_def lower_alnum_def PROJECT_TASK_ID_def)
  define st1 where "st1 = put_cache ''t'' (Some e) measured_hub"
  obtain le where snap: "snapshotTasks pf measured_hub = (([le], []), st1)" "le_task_id le = ''t''"
    using id by (simp add: snapshotTasks_def measured_hub_def collect_one_def measured_meta_read desc d(1) st1_def)
  have disk: "meta_of st1 ''t'' = Inr (Some measured_meta)" "dir_or_empty st1 ''t'' = measured_dir" "st_cache st1 ''t'' = Some e"
    using measured_meta_read by (simp_all add: meta_of_def dir_or_empty_def dir_of_def st1_def put_cache_def measured_hub_def)
  obtain task st2 where task: "readTask pf ''t'' None st1 = (Inr task, st2)" "rr_flow task = Some Direct"
    "rr_versions task = [launch_note, codex_delivery, passing_review]"
    using measured_paired [of "pf_sha256 pf"] id disk
    by (simp add: readTask_def requireNonEmptyString_def blank_def is_space_def requireValidTaskId_def guard_def coded_def desc d(2) effective_flow_def Let_def)
  obtain m deliveries where m: "taskMetrics ''t'' task le = (m, deliveries)" by fastforce
  obtain u where u: "usageMetrics ?fadd ?date measured_sidecar (rr_versions task) deliveries = Inr u" "ur_status u \<in> {Usage_complete, Usage_incomplete}"
    "ur_agents u = [(''codex'', codex_tokens)]"
    using measured_usage [of deliveries] task(3) by auto
  let ?x = "\<lparr>tt_metrics = m, tt_usage = u\<rparr>"
  have rep: "usage_report_of ?fadd ?date (Some measured_sidecar) (rr_versions task) deliveries = u"
    by (simp add: usage_report_of_def u(1))
  have tasks: "collect_tasks pf ?fadd ?date ?usage [le] st1 = Inr [?x]"
    by (simp add: snap(2) task(1) m rep)
  have agents: "add_agents ?fadd [] (ur_agents u) = Inr [(''codex'', codex_tokens)]"
    by (simp add: u(3) addTokens_def codex_tokens_def no_tokens_def add_cost_def safeAdd_def MAX_SAFE_INTEGER_def)
  then obtain b0 where "batch_fold ?fadd (batch_start []) [?x] = Inr b0"
    by (simp add: batch_step_def batch_start_def Let_def)
  then have "collectStats pf ?fadd ?date ?usage [] measured_hub = Inr ([?x], finish_batch b0 [?x])"
    using tasks snap id by (simp add: collectStats_def)
  moreover have "me_task m = ''t''" using taskMetrics_counts [OF m] by simp
  then have "task_runs ?usage ?x = [measured_run]"
    using u(2) by (simp add: task_runs_def counted_runs_def sidecar_runs_def measured_sidecar_def jget_def)
  moreover have "me_review_count m = 1 \<and> me_first m = Some ''pass''"
    using measured_metrics [OF task(2,3), of le] m by simp
  ultimately show ?thesis by (intro exI [of _ ?x] exI [of _ "finish_batch b0 [?x]"]) simp
qed

theorem stats_within_bounds_witness:
  "\<exists>tasks b. collectStats sample_platform (\<lambda>x y. Some (x + y)) (\<lambda>_. Some 0) (\<lambda>_. Some measured_sidecar) [] measured_hub = Inr (tasks, b) \<and>
    tk_total (tokens_of (bt_agents b) ''codex'') = 12 \<and> tk_rounds (tokens_of (bt_agents b) ''codex'') = 1 \<and>
    bt_review_count b = 1 \<and> bt_first_rate b = Some 1"
proof -
  obtain x b where c: "collectStats sample_platform (\<lambda>x y. Some (x + y)) (\<lambda>_. Some 0) (\<lambda>_. Some measured_sidecar) [] measured_hub = Inr ([x], b)"
    and x: "task_runs (\<lambda>_. Some measured_sidecar) x = [measured_run]" "me_review_count (tt_metrics x) = 1" "me_first (tt_metrics x) = Some ''pass''"
    using measured_stats [of sample_platform] by blast
  have runs: "agent_runs ''codex'' [measured_run] = [measured_run]" "run_counter ''total_tokens'' measured_run = 12"
    by (simp_all add: agent_runs_def measured_run_def jget_def run_counter_def safe_int_def is_integer_def MAX_SAFE_INTEGER_def)
  note all = stats_within_bounds [OF c]
  have "tk_rounds (tokens_of (bt_agents b) ''codex'') = 1 \<and> tk_total (tokens_of (bt_agents b) ''codex'') = 12"
    using all [THEN conjunct1, rule_format, of "''codex''"] by (simp add: Let_def x(1) runs)
  moreover have "bt_review_count b = 1" "bt_first_rate b = Some 1" using all x(2,3) by simp_all
  ultimately show ?thesis using c by blast
qed


end
