(* ===== verification/Close_Audit.thy ===== *)
theory Close_Audit
  imports Run_Meta
begin

text \<open>
  The audit note of a stop on close, \<open>src/core/run/close-audit.ts\<close>: its stable identity, its payload, the
  search for an earlier copy and the publication; and \<open>auditCloseStop\<close> of
  \<open>src/standalone/launcher-headless/runtime.ts\<close>, the one caller, which reads the task log first.  The Hub is
  the world the calls run in: reading and publishing are functions of it that answer and move it on, so
  what lands between a read and the publication, a read that throws, a refused note and an answer lost on
  the way back are all worlds of the model.
\<close>

definition CLOSE_STOP_OPERATION :: string where "CLOSE_STOP_OPERATION = ''close-stop''"

record audit_stop =
  as_requested :: bool
  as_success :: bool
  as_result :: string
  as_request_id :: "string option"
  as_requested_at :: "string option"
  as_completed_at :: "string option"
  as_phase :: "string option"
  as_outcome :: "string option"

record audit_run =
  au_run_id :: string
  au_attempt :: "string option"

record audit_input =
  ca_task :: string
  ca_close :: "nat option"
  ca_run :: "audit_run option"
  ca_meta :: "run_meta option"
  ca_stop :: "audit_stop option"
  ca_failure :: "string option"

section \<open>Identity\<close>

text \<open>A run always has an identifier here, as its type says, so the code's \<open>attempt:\<close> form never occurs.\<close>

definition closeStopAuditId :: "audit_input \<Rightarrow> string" where
  "closeStopAuditId inp =
     CLOSE_STOP_OPERATION @ '':v'' @ (case ca_close inp of None \<Rightarrow> ''unknown'' | Some v \<Rightarrow> show_nat v) @ '':'' @
       (case ca_run inp of None \<Rightarrow> ''no-run'' | Some r \<Rightarrow> au_run_id r)"

section \<open>Payload\<close>

definition show_int :: "int \<Rightarrow> string" where
  "show_int n = (if n < 0 then ''-'' @ show_nat (nat (- n)) else show_nat (nat n))"

definition show_bool :: "bool \<Rightarrow> string" where
  "show_bool b = (if b then ''true'' else ''false'')"

definition opt_line :: "string \<Rightarrow> string option \<Rightarrow> string list" where
  "opt_line name v = (case v of None \<Rightarrow> [] | Some s \<Rightarrow> [name @ ''='' @ s])"

fun join_lines :: "string list \<Rightarrow> string" where
  "join_lines [] = []"
| "join_lines [l] = l"
| "join_lines (l # ls) = l @ [CHR 0x0A] @ join_lines ls"

definition is_windows :: "run_meta option \<Rightarrow> bool" where
  "is_windows m \<longleftrightarrow> Option.bind m rm_protocol = Some WINDOWS_PROTOCOL"

definition audit_scope :: "run_meta option \<Rightarrow> string" where
  "audit_scope m = (if is_windows m then ''root-and-owned-job'' else ''root-and-original-group'')"

definition audit_descendants :: "run_meta option \<Rightarrow> string" where
  "audit_descendants m = (if is_windows m then ''job-members-only'' else ''not-performed'')"

definition audit_lines :: "audit_input \<Rightarrow> string list" where
  "audit_lines inp =
     [''System stop audit recorded by tut after consuming decision(close): the owned run was stopped through the existing cooperative stop protocol.'',
      ''This is an operation audit, not a human authorization, decision, ack, or launch; it does not reopen or advance the task.'',
      '''',
      ''task_id='' @ ca_task inp,
      ''close_version='' @ (case ca_close inp of None \<Rightarrow> ''unconfirmed'' | Some v \<Rightarrow> show_nat v)]
     @ (case ca_run inp of None \<Rightarrow> [] | Some r \<Rightarrow> (''run_id='' @ au_run_id r) # opt_line ''attempt_id'' (au_attempt r))
     @ (case ca_meta inp of None \<Rightarrow> [] | Some m \<Rightarrow>
          [''pid='' @ show_int (rm_pid m), ''pgid='' @ show_int (rm_pgid m)]
          @ opt_line ''exit_code'' (map_option show_int (rm_exit_code m)) @ opt_line ''exit_signal'' (rm_exit_signal m))
     @ (case ca_stop inp of None \<Rightarrow> [] | Some s \<Rightarrow>
          [''stop_requested='' @ show_bool (as_requested s), ''stop_success='' @ show_bool (as_success s), ''stop_result='' @ as_result s]
          @ opt_line ''stop_request_id'' (as_request_id s) @ opt_line ''stop_requested_at'' (as_requested_at s)
          @ opt_line ''stop_completed_at'' (as_completed_at s) @ opt_line ''stop_phase'' (as_phase s)
          @ opt_line ''stop_outcome'' (as_outcome s))
     @ opt_line ''failure'' (ca_failure inp)
     @ [''scope='' @ audit_scope (ca_meta inp), ''descendants_check='' @ audit_descendants (ca_meta inp)]"

definition audit_summary :: "audit_input \<Rightarrow> string" where
  "audit_summary inp =
     ''close-stop audit'' @ (case ca_run inp of None \<Rightarrow> [] | Some r \<Rightarrow> '': run '' @ au_run_id r)
     @ (case ca_stop inp of None \<Rightarrow> [] | Some s \<Rightarrow> if as_success s then '' (stopped)'' else '' (unconfirmed)'')"

definition str_field :: "string \<Rightarrow> string option \<Rightarrow> jobject" where
  "str_field name v = opt_field name (map_option JStr v)"

definition closeStopAuditPayload :: "audit_input \<Rightarrow> jobject" where
  "closeStopAuditPayload inp =
     [(''summary'', JStr (audit_summary inp)), (''body'', JStr (join_lines (audit_lines inp))),
      (''operation'', JStr CLOSE_STOP_OPERATION), (''audit_id'', JStr (closeStopAuditId inp)), (''task_id'', JStr (ca_task inp))]
     @ opt_field ''close_version'' (map_option (\<lambda>v. JNum (of_nat v)) (ca_close inp))
     @ str_field ''run_id'' (map_option au_run_id (ca_run inp))
     @ str_field ''attempt_id'' (Option.bind (ca_run inp) au_attempt)
     @ (case ca_meta inp of None \<Rightarrow> [] | Some m \<Rightarrow>
          [(''pid'', JNum (of_int (rm_pid m))), (''pgid'', JNum (of_int (rm_pgid m)))]
          @ opt_field ''exit_code'' (map_option (\<lambda>c. JNum (of_int c)) (rm_exit_code m)) @ str_field ''exit_signal'' (rm_exit_signal m))
     @ (case ca_stop inp of None \<Rightarrow> [] | Some s \<Rightarrow>
          [(''stop_requested'', JBool (as_requested s)), (''stop_success'', JBool (as_success s)), (''stop_result'', JStr (as_result s))]
          @ str_field ''stop_request_id'' (as_request_id s) @ str_field ''stop_requested_at'' (as_requested_at s)
          @ str_field ''stop_completed_at'' (as_completed_at s) @ str_field ''stop_phase'' (as_phase s)
          @ str_field ''stop_outcome'' (as_outcome s))
     @ str_field ''failure'' (ca_failure inp)
     @ [(''scope'', JStr (audit_scope (ca_meta inp))), (''descendants_check'', JStr (audit_descendants (ca_meta inp)))]"

section \<open>The task log\<close>

definition carries_audit :: "string \<Rightarrow> context_record \<Rightarrow> bool" where
  "carries_audit auditId r \<longleftrightarrow>
     rec_role r = ''human'' \<and> rec_content_type r = ''note'' \<and>
     pget (rec_payload r) ''operation'' = Some (JStr CLOSE_STOP_OPERATION) \<and>
     pget (rec_payload r) ''audit_id'' = Some (JStr auditId)"

definition hasCloseStopAudit :: "context_record list \<Rightarrow> string \<Rightarrow> bool" where
  "hasCloseStopAudit records auditId \<longleftrightarrow> list_ex (carries_audit auditId) records"

definition effective_step :: "nat option \<Rightarrow> context_record \<Rightarrow> nat option" where
  "effective_step version r =
     (if is_close r then (case version of None \<Rightarrow> Some (rec_version r) | Some v \<Rightarrow> Some (min v (rec_version r))) else version)"

definition effectiveCloseDecisionVersion :: "context_record list \<Rightarrow> nat option" where
  "effectiveCloseDecisionVersion records = foldl effective_step None records"

definition latest_step :: "nat option \<Rightarrow> context_record \<Rightarrow> nat option" where
  "latest_step version r =
     (if is_close r then Some (max (case version of None \<Rightarrow> 0 | Some v \<Rightarrow> v) (rec_version r)) else version)"

definition latestCloseDecisionVersion :: "context_record list \<Rightarrow> nat option" where
  "latestCloseDecisionVersion records = foldl latest_step None records"

section \<open>Publication\<close>

text \<open>What is handed to the Hub.\<close>

record note_input =
  ni_task :: string
  ni_role :: string
  ni_content_type :: string
  ni_agent :: string
  ni_payload :: jobject

definition audit_note :: "audit_input \<Rightarrow> note_input" where
  "audit_note inp =
     \<lparr>ni_task = ca_task inp, ni_role = ''human'', ni_content_type = ''note'', ni_agent = ''tut'',
      ni_payload = closeStopAuditPayload inp @ opt_field ''ref_version'' (map_option (\<lambda>v. JNum (of_nat v)) (ca_close inp))\<rparr>"

datatype publish_result = Skipped | Published nat | Publish_failed

text \<open>\<open>publish\<close> answers the version of the new record, \<open>None\<close> where it throws.\<close>

definition publishCloseStopAudit ::
  "(note_input \<Rightarrow> 'w \<Rightarrow> nat option \<times> 'w) \<Rightarrow> audit_input \<Rightarrow> context_record list \<Rightarrow> 'w \<Rightarrow> publish_result \<times> 'w" where
  "publishCloseStopAudit publish inp records w =
     (if hasCloseStopAudit records (closeStopAuditId inp) then (Skipped, w)
      else (case publish (audit_note inp) w of
              (None, w') \<Rightarrow> (Publish_failed, w')
            | (Some v, w') \<Rightarrow> (Published v, w')))"

text \<open>\<open>auditCloseStop\<close>: \<open>tasklog\<close> reads the log of a task, \<open>None\<close> where it throws.  Then the records stay empty
  and the close version stays as it was given; without a Hub there is no audit.\<close>

definition confirm_close :: "context_record list option \<Rightarrow> audit_input \<Rightarrow> audit_input" where
  "confirm_close answer inp =
     (case answer of
        None \<Rightarrow> inp
      | Some records \<Rightarrow>
          (case (ca_close inp, effectiveCloseDecisionVersion records) of
             (None, Some v) \<Rightarrow> inp\<lparr>ca_close := Some v\<rparr>
           | _ \<Rightarrow> inp))"

definition auditCloseStop ::
  "(note_input \<Rightarrow> 'w \<Rightarrow> nat option \<times> 'w) option \<Rightarrow> (string \<Rightarrow> 'w \<Rightarrow> context_record list option \<times> 'w) \<Rightarrow>
    audit_input \<Rightarrow> 'w \<Rightarrow> publish_result option \<times> 'w" where
  "auditCloseStop hub tasklog inp w =
     (case hub of
        None \<Rightarrow> (None, w)
      | Some publish \<Rightarrow>
          (case tasklog (ca_task inp) w of
             (answer, w1) \<Rightarrow>
               (let records = (case answer of None \<Rightarrow> [] | Some rs \<Rightarrow> rs);
                    inp' = confirm_close answer inp
                in if hasCloseStopAudit records (closeStopAuditId inp') then (Some Skipped, w1)
                   else (case publishCloseStopAudit publish inp' records w1 of (res, w2) \<Rightarrow> (Some res, w2)))))"

section \<open>The cause of the stop\<close>

lemma fold_record_closes: "fst (fold_record s r f) = Closed \<longleftrightarrow> s = Closed \<or> is_close r"
proof (cases "s = Closed \<or> is_close r")
  case True
  then show ?thesis using fold_record_close [of r s f] by auto
next
  case False
  then have "fst (fold_record s r f) \<noteq> Closed"
    by (cases "rec_content_type r = ''decision''")
      (auto simp: fold_record_def fold_decision_def fold_review_def is_close_def Let_def VERDICT_TARGET_def VERDICT_TARGET_DIRECT_def
        split: if_splits option.splits)
  with False show ?thesis by simp
qed

lemma foldl_closes: "foldl (\<lambda>s r. fst (fold_record s r f)) s rs = Closed \<longleftrightarrow> s = Closed \<or> list_ex is_close rs"
  by (induction rs arbitrary: s) (auto simp: fold_record_closes)

lemma derive_closed_iff:
  assumes "task_id \<noteq> PROJECT_TASK_ID"
  shows "\<exists>d. derive task_id rs flow = Some d \<and> (ds_status d = Closed \<longleftrightarrow> list_ex is_close rs)"
proof -
  have "INITIAL_STATUS (effective_flow flow) \<noteq> Closed"
    by (simp add: INITIAL_STATUS_def split: flow.splits)
  then show ?thesis
    using assms by (simp add: derive_eq foldOntoCursor_status initialCursor_def foldl_closes list_ex_iff)
qed

lemma effective_fold:
  "foldl effective_step s rs =
     (case (s, map rec_version (filter is_close rs)) of
        (None, []) \<Rightarrow> None
      | (None, v # vs) \<Rightarrow> Some (fold min vs v)
      | (Some w, vs) \<Rightarrow> Some (fold min vs w))"
  by (induction rs arbitrary: s) (auto simp: effective_step_def min.commute split: option.splits list.splits)

lemma fold_min_le: "fold min vs (w::nat) \<le> w \<and> (\<forall>v\<in>set vs. fold min vs w \<le> v) \<and> fold min vs w \<in> insert w (set vs)"
proof (induction vs arbitrary: w)
  case (Cons v vs)
  from Cons.IH [of "min v w"] show ?case
    by (auto simp: min_def split: if_splits)
qed simp

lemma effective_least:
  "effectiveCloseDecisionVersion rs = Some v \<longleftrightarrow>
     (\<exists>r\<in>set rs. is_close r \<and> rec_version r = v) \<and> (\<forall>r\<in>set rs. is_close r \<longrightarrow> v \<le> rec_version r)"
proof (cases "map rec_version (filter is_close rs)")
  case Nil
  then have "filter is_close rs = []" by simp
  then have "\<not> is_close r" if "r \<in> set rs" for r
    using that by (simp add: filter_empty_conv)
  then show ?thesis
    by (auto simp: effectiveCloseDecisionVersion_def effective_fold Nil)
next
  case (Cons w vs)
  have set: "set (w # vs) = rec_version ` {r \<in> set rs. is_close r}"
    by (simp only: Cons [symmetric]) auto
  have e: "effectiveCloseDecisionVersion rs = Some (fold min vs w)"
    by (simp add: effectiveCloseDecisionVersion_def effective_fold Cons)
  have in_rs: "fold min vs w \<in> rec_version ` {r \<in> set rs. is_close r}"
    using fold_min_le [of vs w] set by (metis list.simps(15))
  have le: "fold min vs w \<le> rec_version r" if "r \<in> set rs" "is_close r" for r
  proof -
    have "rec_version r \<in> set (w # vs)" using that set by blast
    then show ?thesis using fold_min_le [of vs w] by auto
  qed
  show ?thesis
    using in_rs le e by (auto intro: order_antisym)
qed

text \<open>The close version an audit is pinned to is the cause of the stop: the log below it does not derive
  to closed, the log up to it does, and there is no such version exactly when the task is not closed; a
  close repeated later never displaces it.\<close>

theorem effective_close_is_cause:
  assumes "task_id \<noteq> PROJECT_TASK_ID"
  shows "(case effectiveCloseDecisionVersion rs of
      Some v \<Rightarrow>
        (\<exists>d. derive task_id (filter (\<lambda>r. rec_version r < v) rs) flow = Some d \<and> ds_status d \<noteq> Closed) \<and>
        (\<exists>d. derive task_id (filter (\<lambda>r. rec_version r \<le> v) rs) flow = Some d \<and> ds_status d = Closed)
    | None \<Rightarrow> (\<exists>d. derive task_id rs flow = Some d \<and> ds_status d \<noteq> Closed)) \<and>
    (effectiveCloseDecisionVersion rs = Some v \<longrightarrow> (\<forall>r\<in>set later. v \<le> rec_version r) \<longrightarrow>
      effectiveCloseDecisionVersion (rs @ later) = Some v)"
proof (rule conjI)
  show "case effectiveCloseDecisionVersion rs of
      Some v \<Rightarrow>
        (\<exists>d. derive task_id (filter (\<lambda>r. rec_version r < v) rs) flow = Some d \<and> ds_status d \<noteq> Closed) \<and>
        (\<exists>d. derive task_id (filter (\<lambda>r. rec_version r \<le> v) rs) flow = Some d \<and> ds_status d = Closed)
    | None \<Rightarrow> (\<exists>d. derive task_id rs flow = Some d \<and> ds_status d \<noteq> Closed)"
  proof (cases "effectiveCloseDecisionVersion rs")
    case None
    have "\<not> list_ex is_close rs"
    proof
      assume "list_ex is_close rs"
      then have "map rec_version (filter is_close rs) \<noteq> []" by (simp add: filter_empty_conv list_ex_iff)
      with None show False
        by (auto simp: effectiveCloseDecisionVersion_def effective_fold split: list.splits)
    qed
    with derive_closed_iff [OF assms, of rs flow] None show ?thesis by auto
  next
    case (Some v)
    then have r: "\<exists>r\<in>set rs. is_close r \<and> rec_version r = v" "\<forall>r\<in>set rs. is_close r \<longrightarrow> v \<le> rec_version r"
      by (simp_all add: effective_least)
    have "\<not> list_ex is_close (filter (\<lambda>r. rec_version r < v) rs)" "list_ex is_close (filter (\<lambda>r. rec_version r \<le> v) rs)"
      using r by (auto simp: list_ex_iff)
    with derive_closed_iff [OF assms, of "filter (\<lambda>r. rec_version r < v) rs" flow]
      derive_closed_iff [OF assms, of "filter (\<lambda>r. rec_version r \<le> v) rs" flow] Some
    show ?thesis by auto
  qed
  show "effectiveCloseDecisionVersion rs = Some v \<longrightarrow> (\<forall>r\<in>set later. v \<le> rec_version r) \<longrightarrow>
      effectiveCloseDecisionVersion (rs @ later) = Some v"
    by (auto simp: effective_least)
qed

theorem effective_close_is_cause_witness:
  "\<exists>d. derive ''t'' (filter (\<lambda>r. rec_version r < 5)
      [sample_record 5 ''human'' ''decision'' [(''decision'', JStr ''close'')],
       sample_record 7 ''human'' ''decision'' [(''decision'', JStr ''close'')]]) None = Some d \<and> ds_status d \<noteq> Closed"
proof -
  let ?rs = "[sample_record 5 ''human'' ''decision'' [(''decision'', JStr ''close'')],
       sample_record 7 ''human'' ''decision'' [(''decision'', JStr ''close'')]]"
  have "effectiveCloseDecisionVersion ?rs = Some 5"
    by (simp add: effectiveCloseDecisionVersion_def effective_step_def is_close_def decides_def sample_record_def)
  moreover have "''t'' \<noteq> PROJECT_TASK_ID" by (simp add: PROJECT_TASK_ID_def)
  ultimately show ?thesis
    using effective_close_is_cause [of "''t''" ?rs None 5 "[]"] by simp
qed

section \<open>One audit per stop\<close>

text \<open>The record the Hub appends for a note, and the Hub an attempt meets, whose world is the log of the task:
  the read may throw, records of others may land between the read and the publication, and the note is
  accepted, accepted with the answer lost on the way back, or refused.\<close>

definition stored_note :: "nat \<Rightarrow> string \<Rightarrow> note_input \<Rightarrow> context_record" where
  "stored_note v now n =
     \<lparr>rec_version = v, rec_task_id = ni_task n, rec_role = ni_role n, rec_agent = Some (ni_agent n), rec_model = None,
      rec_content_type = ni_content_type n, rec_timestamp = now, rec_payload = ni_payload n, rec_tut_version = None\<rparr>"

datatype hub_answer = Accepted | Answer_lost | Refused

record audit_attempt =
  at_input :: audit_input
  at_hub :: bool
  at_readable :: bool
  at_meanwhile :: "context_record list"
  at_answer :: hub_answer

definition read_log :: "audit_attempt \<Rightarrow> string \<Rightarrow> context_record list \<Rightarrow> context_record list option \<times> context_record list" where
  "read_log a task rs = (if at_readable a then Some rs else None, rs @ at_meanwhile a)"

definition hub_publish :: "string \<Rightarrow> audit_attempt \<Rightarrow> note_input \<Rightarrow> context_record list \<Rightarrow> nat option \<times> context_record list" where
  "hub_publish now a n rs =
     (let v = Suc (list_max (map rec_version rs)); r = stored_note v now n in
      case at_answer a of
        Accepted \<Rightarrow> (Some v, rs @ [r])
      | Answer_lost \<Rightarrow> (None, rs @ [r])
      | Refused \<Rightarrow> (None, rs))"

definition attempt_audit :: "string \<Rightarrow> context_record list \<Rightarrow> audit_attempt \<Rightarrow> context_record list" where
  "attempt_audit now rs a =
     snd (auditCloseStop (if at_hub a then Some (hub_publish now a) else None) (read_log a) (at_input a) rs)"

text \<open>What an attempt writes in a task whose effective close is the record \<open>c\<close>, and the attempts that reach
  the log: a blind one could not read it first.\<close>

definition attempt_input :: "nat \<Rightarrow> audit_attempt \<Rightarrow> audit_input" where
  "attempt_input c a =
     (if ca_close (at_input a) = None \<and> at_readable a then (at_input a)\<lparr>ca_close := Some c\<rparr> else at_input a)"

definition reaches :: "string \<Rightarrow> nat \<Rightarrow> audit_attempt \<Rightarrow> bool" where
  "reaches i c a \<longleftrightarrow> at_hub a \<and> at_answer a \<noteq> Refused \<and> closeStopAuditId (attempt_input c a) = i"

definition blind :: "string \<Rightarrow> nat \<Rightarrow> audit_attempt \<Rightarrow> bool" where
  "blind i c a \<longleftrightarrow> reaches i c a \<and> \<not> at_readable a"

definition audits :: "string \<Rightarrow> context_record list \<Rightarrow> nat" where
  "audits i rs = length (filter (carries_audit i) rs)"

lemma audits_append [simp]: "audits i (rs @ rs') = audits i rs + audits i rs'"
  by (simp add: audits_def)

lemma audits_none: "\<forall>r\<in>set rs. \<not> carries_audit i r \<Longrightarrow> audits i rs = 0"
  by (simp add: audits_def filter_empty_conv)

lemma has_audit_iff: "hasCloseStopAudit rs i \<longleftrightarrow> audits i rs \<noteq> 0"
  by (simp add: hasCloseStopAudit_def audits_def list_ex_iff filter_empty_conv)

lemma stored_carries: "carries_audit i (stored_note v now (audit_note inp)) \<longleftrightarrow> i = closeStopAuditId inp"
  by (auto simp: carries_audit_def stored_note_def audit_note_def closeStopAuditPayload_def)

lemma audits_stored [simp]: "audits i [stored_note v now (audit_note inp)] = (if i = closeStopAuditId inp then 1 else 0)"
  by (simp add: audits_def stored_carries)

lemma confirm_read:
  assumes "effectiveCloseDecisionVersion rs = Some c"
  shows "confirm_close (if at_readable a then Some rs else None) (at_input a) = attempt_input c a"
  using assms by (auto simp: confirm_close_def attempt_input_def split: option.split)

lemma attempt_audit_eq:
  assumes "effectiveCloseDecisionVersion rs = Some c"
  shows "attempt_audit now rs a =
    (if \<not> at_hub a then rs
     else if at_readable a \<and> audits (closeStopAuditId (attempt_input c a)) rs \<noteq> 0 \<or> at_answer a = Refused then rs @ at_meanwhile a
     else rs @ at_meanwhile a @
       [stored_note (Suc (list_max (map rec_version (rs @ at_meanwhile a)))) now (audit_note (attempt_input c a))])"
  using confirm_read [OF assms, of a]
  by (cases "at_readable a"; cases "at_answer a")
    (simp_all add: attempt_audit_def auditCloseStop_def read_log_def publishCloseStopAudit_def hub_publish_def Let_def
      has_audit_iff audits_def)

lemma stored_not_close [simp]: "\<not> is_close (stored_note v now (audit_note inp))"
  by (simp add: is_close_def decides_def stored_note_def audit_note_def)

lemma effective_append:
  assumes "effectiveCloseDecisionVersion rs = Some c" and "\<forall>r\<in>set later. is_close r \<longrightarrow> c \<le> rec_version r"
  shows "effectiveCloseDecisionVersion (rs @ later) = Some c"
  using assms by (auto simp: effective_least)

lemma attempt_audit_step:
  assumes "effectiveCloseDecisionVersion rs = Some c" and "\<forall>r\<in>set (at_meanwhile a). c < rec_version r \<and> \<not> carries_audit i r"
  shows "effectiveCloseDecisionVersion (attempt_audit now rs a) = Some c"
    and "audits i (attempt_audit now rs a) =
      (if \<not> reaches i c a then audits i rs else if blind i c a then Suc (audits i rs) else max 1 (audits i rs))"
    and "\<exists>new. attempt_audit now rs a = rs @ new \<and> (at_hub a \<longrightarrow> set (at_meanwhile a) \<subseteq> set new) \<and>
      (\<forall>r\<in>set new. r \<in> set (at_meanwhile a) \<or>
        (at_hub a \<and> at_answer a \<noteq> Refused \<and> (\<exists>v. r = stored_note v now (audit_note (attempt_input c a)))))"
proof -
  show "effectiveCloseDecisionVersion (attempt_audit now rs a) = Some c"
    unfolding attempt_audit_eq [OF assms(1)] using assms by (auto intro!: effective_append dest: less_imp_le)
  have m: "audits i (at_meanwhile a) = 0" using assms(2) by (simp add: audits_none)
  show "audits i (attempt_audit now rs a) =
      (if \<not> reaches i c a then audits i rs else if blind i c a then Suc (audits i rs) else max 1 (audits i rs))"
    unfolding attempt_audit_eq [OF assms(1)] by (auto simp: reaches_def blind_def m)
  show "\<exists>new. attempt_audit now rs a = rs @ new \<and> (at_hub a \<longrightarrow> set (at_meanwhile a) \<subseteq> set new) \<and>
      (\<forall>r\<in>set new. r \<in> set (at_meanwhile a) \<or>
        (at_hub a \<and> at_answer a \<noteq> Refused \<and> (\<exists>v. r = stored_note v now (audit_note (attempt_input c a)))))"
    unfolding attempt_audit_eq [OF assms(1)] by auto
qed

text \<open>An attempt that cannot read the log writes a second audit beside the first.\<close>

lemma unreadable_log_audits_again:
  assumes "at_hub a" and "\<not> at_readable a" and "at_answer a \<noteq> Refused" and "i = closeStopAuditId (at_input a)"
  shows "audits i (attempt_audit now rs a) = Suc (audits i rs + audits i (at_meanwhile a))"
  using assms
  by (cases "at_answer a")
    (simp_all add: attempt_audit_def auditCloseStop_def read_log_def publishCloseStopAudit_def hub_publish_def Let_def
      confirm_close_def hasCloseStopAudit_def)

text \<open>C28. The audits of one stop.  The task was closed by record \<open>c\<close>, attempts to audit the close follow one
  another, and between the read and the publication of each others may publish anything later than the
  close that is no audit of this stop itself.  Then no record is lost, and what the attempts add are the
  notes of those that reached the Hub, each with its own identity.  Of one identity \<open>i\<close> there is a copy at
  the end exactly when there was one or an attempt for it reached the Hub, be its answer lost or not; and
  the number of copies exceeds the one that deduplication allows by no more than the attempts that
  published without having been able to read the log.  Each of those does add a copy: the deduplication
  holds for readable logs only.\<close>

theorem close_audited_once:
  assumes "effectiveCloseDecisionVersion rs = Some c"
    and "\<forall>a\<in>set atts. \<forall>r\<in>set (at_meanwhile a). c < rec_version r \<and> \<not> carries_audit i r"
    and "out = foldl (attempt_audit now) rs atts"
  shows "audits i rs + length (filter (blind i c) atts) \<le> audits i out \<and>
    audits i out \<le> max 1 (audits i rs) + length (filter (blind i c) atts) \<and>
    (audits i out = 0 \<longleftrightarrow> audits i rs = 0 \<and> (\<forall>a\<in>set atts. \<not> reaches i c a)) \<and>
    (\<exists>new. out = rs @ new \<and> (\<forall>a\<in>set atts. at_hub a \<longrightarrow> set (at_meanwhile a) \<subseteq> set new) \<and>
      (\<forall>r\<in>set new. \<exists>a\<in>set atts. r \<in> set (at_meanwhile a) \<or>
        (at_hub a \<and> at_answer a \<noteq> Refused \<and> (\<exists>v. r = stored_note v now (audit_note (attempt_input c a))))))"
  using assms
proof (induction atts arbitrary: rs)
  case (Cons a atts)
  let ?rs = "attempt_audit now rs a"
  have m: "\<forall>r\<in>set (at_meanwhile a). c < rec_version r \<and> \<not> carries_audit i r" using Cons.prems(2) by simp
  note step = attempt_audit_step [OF Cons.prems(1) m, of now]
  note IH = Cons.IH [OF step(1)]
  have later: "\<forall>a\<in>set atts. \<forall>r\<in>set (at_meanwhile a). c < rec_version r \<and> \<not> carries_audit i r"
    and out: "out = foldl (attempt_audit now) ?rs atts" using Cons.prems(2,3) by simp_all
  obtain new where new: "?rs = rs @ new" "at_hub a \<longrightarrow> set (at_meanwhile a) \<subseteq> set new"
    "\<forall>r\<in>set new. r \<in> set (at_meanwhile a) \<or>
      (at_hub a \<and> at_answer a \<noteq> Refused \<and> (\<exists>v. r = stored_note v now (audit_note (attempt_input c a))))"
    using step(3) by blast
  obtain more' where more': "out = ?rs @ more'" "\<forall>b\<in>set atts. at_hub b \<longrightarrow> set (at_meanwhile b) \<subseteq> set more'"
    "\<forall>r\<in>set more'. \<exists>b\<in>set atts. r \<in> set (at_meanwhile b) \<or>
      (at_hub b \<and> at_answer b \<noteq> Refused \<and> (\<exists>v. r = stored_note v now (audit_note (attempt_input c b))))"
    using IH [OF later out] by blast
  have all: "\<exists>new. out = rs @ new \<and> (\<forall>b\<in>set (a # atts). at_hub b \<longrightarrow> set (at_meanwhile b) \<subseteq> set new) \<and>
      (\<forall>r\<in>set new. \<exists>b\<in>set (a # atts). r \<in> set (at_meanwhile b) \<or>
        (at_hub b \<and> at_answer b \<noteq> Refused \<and> (\<exists>v. r = stored_note v now (audit_note (attempt_input c b)))))"
  proof (intro exI [of _ "new @ more'"] conjI)
    show "out = rs @ new @ more'" by (simp add: more'(1) new(1))
    show "\<forall>b\<in>set (a # atts). at_hub b \<longrightarrow> set (at_meanwhile b) \<subseteq> set (new @ more')" using new(2) more'(2) by auto
    show "\<forall>r\<in>set (new @ more'). \<exists>b\<in>set (a # atts). r \<in> set (at_meanwhile b) \<or>
        (at_hub b \<and> at_answer b \<noteq> Refused \<and> (\<exists>v. r = stored_note v now (audit_note (attempt_input c b))))"
      using new(3) more'(3) by fastforce
  qed
  have reach: "blind i c a \<Longrightarrow> reaches i c a" by (simp add: blind_def)
  show ?case
    using IH [OF later out] all reach unfolding step(2)
    by (auto split: if_splits)
qed simp

text \<open>Three observations of one close: the first audits it although its answer is lost, the second cannot read
  the log and audits it again, the third reads it and stays silent.\<close>

definition sample_close_audit :: audit_input where
  "sample_close_audit = \<lparr>ca_task = ''t'', ca_close = Some 5, ca_run = Some \<lparr>au_run_id = ''r'', au_attempt = Some ''u''\<rparr>,
     ca_meta = None, ca_stop = None, ca_failure = Some ''lost''\<rparr>"

definition sample_attempts :: "audit_attempt list" where
  "sample_attempts =
     [\<lparr>at_input = sample_close_audit\<lparr>ca_close := None\<rparr>, at_hub = True, at_readable = True,
        at_meanwhile = [sample_record 6 ''executor'' ''note'' []], at_answer = Answer_lost\<rparr>,
      \<lparr>at_input = sample_close_audit, at_hub = True, at_readable = False, at_meanwhile = [], at_answer = Accepted\<rparr>,
      \<lparr>at_input = sample_close_audit, at_hub = True, at_readable = True, at_meanwhile = [], at_answer = Accepted\<rparr>]"

theorem close_audited_once_witness:
  "audits (closeStopAuditId sample_close_audit)
     (foldl (attempt_audit ''now'') [sample_record 5 ''human'' ''decision'' [(''decision'', JStr ''close'')]] sample_attempts) \<in> {1, 2}"
proof -
  let ?rs = "[sample_record 5 ''human'' ''decision'' [(''decision'', JStr ''close'')]]"
  let ?i = "closeStopAuditId sample_close_audit"
  have c: "effectiveCloseDecisionVersion ?rs = Some 5"
    by (simp add: effectiveCloseDecisionVersion_def effective_step_def is_close_def decides_def sample_record_def)
  have m: "\<forall>a\<in>set sample_attempts. \<forall>r\<in>set (at_meanwhile a). 5 < rec_version r \<and> \<not> carries_audit ?i r"
    by (simp add: sample_attempts_def sample_record_def carries_audit_def)
  have n: "audits ?i ?rs = 0" by (simp add: audits_def carries_audit_def sample_record_def)
  have b: "length (filter (blind ?i 5) sample_attempts) = 1"
    by (simp add: sample_attempts_def blind_def reaches_def attempt_input_def)
  show ?thesis
    using close_audited_once [OF c m HOL.refl, of "''now''"] by (simp add: n b) linarith
qed

end
