(* ===== verification/Headless_Runtime.thy ===== *)
theory Headless_Runtime
  imports Resume Close_Audit "HOL-Library.List_Lexorder" "HOL-Library.Char_ord" "HOL-Library.AList"
begin

text \<open>
  The ownership of detached runs by the Notifier, \<open>src/standalone/launcher-headless/runtime.ts\<close>: which run
  holds the seat of a task, how seats are rebuilt from the archive, observed and given up, what is reported
  once, and how a close stops and audits the run it finds.

  \<^item> An \<open>Owned\<close> object is shared by the seat map, the attempt in flight and the completion maps and mutated
    through each of them, so objects live in a heap and the maps hold their addresses.
  \<^item> The archive is the list of run directories of \<open>Resume\<close> at the time of the call; \<open>pr\<close> is \<open>probe\<close>, \<open>tasklog\<close> the
    task log (\<open>None\<close> where reading it throws), \<open>mtime\<close> the modification time of a run's log file, \<open>date\<close>
    \<open>Date.parse\<close>.  A poll is one step; what interleaves are the operations.
  \<^item> Log lines and message texts are left out; a notification is an event with its subject.
\<close>

section \<open>State\<close>

record owned =
  ho_task :: string
  ho_title :: string
  ho_role :: string
  ho_agent :: string
  ho_attempt :: string
  ho_run :: "string option"
  ho_starting :: bool
  ho_uncertain :: bool
  ho_root_seen :: bool
  ho_stop_seen :: bool
  ho_intent_only :: bool
  ho_started :: "string option"

record silence =
  sl_mtime :: rat
  sl_since :: rat
  sl_alerted :: bool

datatype notice_reason = Root_failed | Run_unconfirmed | Startup_unconfirmed | Spawn_failed | Stopped_without_publish

datatype runtime_event =
    Attempt_notice string notice_reason
  | Ghost_delivery string nat
  | Silent_run string

record runtime =
  hr_heap :: "nat \<Rightarrow> owned"
  hr_next :: nat
  hr_seats :: "(string \<times> nat) list"
  hr_starting :: "nat list"
  hr_stopping :: "string list"
  hr_initialized :: bool
  hr_known :: "string list"
  hr_completions :: "(string \<times> nat \<times> run_meta) list"
  hr_pending :: "(string \<times> nat) list"
  hr_silence :: "(string \<times> silence) list"
  hr_notices :: "string list"

definition remember :: "'a \<Rightarrow> 'a list \<Rightarrow> 'a list" where
  "remember x xs = (if x \<in> set xs then xs else xs @ [x])"

definition knows :: "runtime \<Rightarrow> string \<Rightarrow> bool" where
  "knows s task \<longleftrightarrow> task \<in> set (hr_known s)"

definition busy :: "runtime \<Rightarrow> string \<Rightarrow> bool" where
  "busy s task \<longleftrightarrow> map_of (hr_seats s) task \<noteq> None"

definition seat_of :: "runtime \<Rightarrow> string \<Rightarrow> owned option" where
  "seat_of s task = map_option (hr_heap s) (map_of (hr_seats s) task)"

definition write_owned :: "nat \<Rightarrow> owned \<Rightarrow> runtime \<Rightarrow> runtime" where
  "write_owned r own s = s\<lparr>hr_heap := (hr_heap s)(r := own)\<rparr>"

definition learn :: "string \<Rightarrow> runtime \<Rightarrow> runtime" where
  "learn task s = s\<lparr>hr_known := remember task (hr_known s)\<rparr>"

definition release :: "string \<Rightarrow> runtime \<Rightarrow> runtime" where
  "release task s = s\<lparr>hr_seats := AList.delete task (hr_seats s)\<rparr>"

definition hush :: "string \<Rightarrow> runtime \<Rightarrow> runtime" where
  "hush run s = s\<lparr>hr_silence := AList.delete run (hr_silence s)\<rparr>"

section \<open>Notifications\<close>

definition NOTICE_LIMIT :: nat where "NOTICE_LIMIT = 1024"

definition once :: "string \<Rightarrow> runtime_event \<Rightarrow> runtime \<Rightarrow> runtime \<times> runtime_event list" where
  "once key event s =
     (if key \<in> set (hr_notices s) then (s, [])
      else (let keys = hr_notices s @ [key] in
            (s\<lparr>hr_notices := (if NOTICE_LIMIT < length keys then tl keys else keys)\<rparr>, [event])))"

definition reason_text :: "notice_reason \<Rightarrow> string" where
  "reason_text x = (case x of Root_failed \<Rightarrow> ''root-failed'' | Run_unconfirmed \<Rightarrow> ''run-unconfirmed''
     | Startup_unconfirmed \<Rightarrow> ''startup-unconfirmed'' | Spawn_failed \<Rightarrow> ''spawn-failed''
     | Stopped_without_publish \<Rightarrow> ''stopped-without-publish'')"

definition diagnostic :: "notice_reason \<Rightarrow> bool" where
  "diagnostic x \<longleftrightarrow> x \<in> {Run_unconfirmed, Stopped_without_publish}"

definition report_key :: "string \<Rightarrow> notice_reason \<Rightarrow> string" where
  "report_key attempt reason = ''headless:'' @ attempt @ '':'' @ (if diagnostic reason then reason_text reason else ''give-up'')"

definition report :: "owned \<Rightarrow> notice_reason \<Rightarrow> runtime \<Rightarrow> runtime \<times> runtime_event list" where
  "report own reason s = once (report_key (ho_attempt own) reason) (Attempt_notice (ho_attempt own) reason) s"

section \<open>Seats\<close>

definition owner_field :: "string \<Rightarrow> json \<Rightarrow> json option" where
  "owner_field k h = (if k = ''agent'' then Option.bind (jget h ''route'') (\<lambda>r. jget r ''agent'') else jget h k)"

text \<open>A field of a validated ownership; the validator guarantees it is a string.\<close>

definition owner_text :: "string \<Rightarrow> json \<Rightarrow> string" where
  "owner_text k h = (case string_of (owner_field k h) of Some s \<Rightarrow> s | None \<Rightarrow> [])"

text \<open>\<open>assertOwnership\<close>, false where it throws.\<close>

definition assertOwnership :: "owned \<Rightarrow> run_meta \<Rightarrow> bool" where
  "assertOwnership own m \<longleftrightarrow>
     Some (rm_run_id m) = ho_run own \<and> rm_task_id m = Some (ho_task own) \<and>
     (case rm_headless m of
        None \<Rightarrow> False
      | Some h \<Rightarrow> owner_field ''attempt_id'' h = Some (JStr (ho_attempt own)) \<and>
          owner_field ''role'' h = Some (JStr (ho_role own)) \<and> owner_field ''agent'' h = Some (JStr (ho_agent own)))"

definition falsy_text :: "string option \<Rightarrow> bool" where
  "falsy_text v \<longleftrightarrow> v = None \<or> v = Some []"

definition queueCompletion :: "nat \<Rightarrow> run_meta \<Rightarrow> runtime \<Rightarrow> runtime" where
  "queueCompletion r m s =
     (let s1 = s\<lparr>hr_pending := AList.delete (rm_run_id m) (hr_pending s)\<rparr> in
      if rm_stop m = None \<and> rm_exit_code m = Some 0 \<and> falsy_text (rm_exit_signal m)
      then s1\<lparr>hr_completions := AList.update (rm_run_id m) (r, m) (hr_completions s1)\<rparr>
      else s1)"

definition replaceSeat :: "string \<Rightarrow> owned \<Rightarrow> run_meta option \<Rightarrow> runtime \<Rightarrow> runtime" where
  "replaceSeat task own previousMeta s =
     (let s1 =
        (case map_of (hr_seats s) task of
           None \<Rightarrow> s
         | Some p \<Rightarrow>
             (case ho_run (hr_heap s p) of
                None \<Rightarrow> s
              | Some run \<Rightarrow>
                  if run = [] \<or> Some run = ho_run own then s
                  else (case previousMeta of
                          Some m \<Rightarrow>
                            if complete m then queueCompletion p m (hush run s)
                            else if map_of (hr_completions s) run = None
                            then (hush run s)\<lparr>hr_pending := AList.update run p (hr_pending s)\<rparr> else hush run s
                        | None \<Rightarrow>
                            if map_of (hr_completions s) run = None
                            then (hush run s)\<lparr>hr_pending := AList.update run p (hr_pending s)\<rparr> else hush run s)))
      in s1\<lparr>hr_heap := (hr_heap s1)(hr_next s1 := own), hr_next := Suc (hr_next s1),
            hr_seats := AList.update task (hr_next s1) (hr_seats s1)\<rparr>)"

definition intent_owned :: "string \<Rightarrow> string \<Rightarrow> json \<Rightarrow> owned" where
  "intent_owned task i h =
     \<lparr>ho_task = task, ho_title = task, ho_role = owner_text ''role'' h, ho_agent = owner_text ''agent'' h,
      ho_attempt = owner_text ''attempt_id'' h, ho_run = Some i, ho_starting = False, ho_uncertain = True,
      ho_root_seen = False, ho_stop_seen = False, ho_intent_only = True, ho_started = None\<rparr>"

definition run_owned :: "string \<Rightarrow> string \<Rightarrow> json \<Rightarrow> owned" where
  "run_owned task i h =
     \<lparr>ho_task = task, ho_title = task, ho_role = owner_text ''role'' h, ho_agent = owner_text ''agent'' h,
      ho_attempt = owner_text ''attempt_id'' h, ho_run = Some i, ho_starting = False, ho_uncertain = False,
      ho_root_seen = False, ho_stop_seen = False, ho_intent_only = False, ho_started = None\<rparr>"

text \<open>The meta of the run in a seat, when it is readable and still the seat's own.\<close>

definition own_meta :: "run_dir list \<Rightarrow> owned \<Rightarrow> run_meta option" where
  "own_meta store own =
     (case Option.bind (ho_run own) (read_run store) of
        Some m \<Rightarrow> if assertOwnership own m then Some m else None
      | None \<Rightarrow> None)"

definition replaceable :: "run_dir list \<Rightarrow> owned option \<Rightarrow> bool" where
  "replaceable store existing =
     (case existing of
        None \<Rightarrow> True
      | Some own \<Rightarrow> ho_run own = None \<or> (case own_meta store own of None \<Rightarrow> False | Some m \<Rightarrow> complete m))"

text \<open>A directory without a readable meta: its startup intent may hold or release a seat.\<close>

definition sync_intent :: "run_dir list \<Rightarrow> string \<Rightarrow> json \<Rightarrow> runtime \<Rightarrow> runtime" where
  "sync_intent store i intent s =
     (let task = owner_text ''task_id'' intent;
          h = (case jget intent ''headless'' of Some h \<Rightarrow> h | None \<Rightarrow> JNull);
          s1 = learn task s;
          existing = seat_of s1 task
      in if (case existing of None \<Rightarrow> False | Some own \<Rightarrow> ho_starting own \<and> ho_attempt own = owner_text ''attempt_id'' h) then s1
         else if jget intent ''startup'' = Some (JStr ''failed'')
         then (if (case existing of None \<Rightarrow> False | Some own \<Rightarrow> ho_run own = Some i) then release task s1 else s1)
         else if (case existing of None \<Rightarrow> True | Some own \<Rightarrow> ho_run own \<noteq> Some i) \<and> replaceable store existing
         then replaceSeat task (intent_owned task i h) (Option.bind existing (own_meta store)) s1
         else s1)"

definition truthy_text :: "string option \<Rightarrow> bool" where
  "truthy_text v \<longleftrightarrow> \<not> falsy_text v"

text \<open>A readable detached run: a complete one may owe a completion check, an incomplete one takes the seat when it is newer.\<close>

definition sync_meta :: "bool \<Rightarrow> string list \<Rightarrow> string \<Rightarrow> run_meta \<Rightarrow> string \<Rightarrow> json \<Rightarrow> runtime \<Rightarrow> runtime" where
  "sync_meta initial previousRuns i m task h s =
     (let s1 = learn task s in
      if complete m then
        (let s2 = hush i s1 in
         if initial \<or> i \<in> set previousRuns
         then queueCompletion (hr_next s2) m (s2\<lparr>hr_heap := (hr_heap s2)(hr_next s2 := run_owned task i h), hr_next := Suc (hr_next s2)\<rparr>)
         else s2)
      else
        (case seat_of s1 task of
           Some own \<Rightarrow>
             if ho_run own = Some i \<or> Some (JStr (ho_attempt own)) = owner_field ''attempt_id'' h then s1
             else if (case ho_started own of None \<Rightarrow> [] | Some t \<Rightarrow> t) < rm_started_at m
             then replaceSeat task ((run_owned task i h)\<lparr>ho_root_seen := truthy_text (rm_root_exited_at m),
                    ho_stop_seen := (rm_stop m \<noteq> None), ho_started := Some (rm_started_at m)\<rparr>) None s1
             else s1
         | None \<Rightarrow>
             replaceSeat task ((run_owned task i h)\<lparr>ho_root_seen := truthy_text (rm_root_exited_at m),
               ho_stop_seen := (rm_stop m \<noteq> None), ho_started := Some (rm_started_at m)\<rparr>) None s1))"

definition sync_dir :: "bool \<Rightarrow> string list \<Rightarrow> run_dir list \<Rightarrow> run_dir \<Rightarrow> runtime \<Rightarrow> runtime" where
  "sync_dir initial previousRuns store d s =
     (case rd_meta d of
        None \<Rightarrow> (case readStartIntent d of None \<Rightarrow> s | Some intent \<Rightarrow> sync_intent store (rd_id d) intent s)
      | Some m \<Rightarrow>
          (case (rm_task_id m, rm_headless m) of
             (Some task, Some h) \<Rightarrow> if task = [] then s else sync_meta initial previousRuns (rd_id d) m task h s
           | _ \<Rightarrow> s))"

definition seat_runs :: "runtime \<Rightarrow> string list" where
  "seat_runs s = List.map_filter (\<lambda>(_, r). ho_run (hr_heap s r)) (hr_seats s)"

definition syncNew :: "bool \<Rightarrow> run_dir list \<Rightarrow> runtime \<Rightarrow> runtime" where
  "syncNew initial store s = fold (sync_dir initial (seat_runs s) store) store s"

definition restore :: "run_dir list \<Rightarrow> runtime \<Rightarrow> runtime" where
  "restore store s = (if hr_initialized s then s else syncNew True store (s\<lparr>hr_initialized := True\<rparr>))"

section \<open>Launching\<close>

record headless_plan =
  hp_task :: string
  hp_title :: string
  hp_role :: string
  hp_attempt :: string
  hp_base :: nat
  hp_trigger :: nat
  hp_route :: agent_command
  hp_route_source :: string
  hp_target_kind :: "string option"
  hp_target_digest :: string
  hp_designated :: "string option"

definition mark_payload :: "headless_plan \<Rightarrow> launch_via \<Rightarrow> jobject" where
  "mark_payload p via =
     [(''summary'', JStr (launchSummary (hp_role p) (hp_base p))),
      (''body'', JStr (''Recorded headless launch of '' @ hp_role p @ '' via '' @ via_name via @ ''; attempt_id='' @ hp_attempt p @ ''.'')),
      (''launch'', JObj [(''protocol_version'', JNum 2), (''role'', JStr (hp_role p)), (''base_version'', JNum (of_nat (hp_base p))),
         (''via'', JStr (via_name via)), (''route'', command_json (hp_route p)), (''route_source'', JStr (hp_route_source p)),
         (''target_kind'', JStr (case hp_target_kind p of None \<Rightarrow> ''headless-posix'' | Some k \<Rightarrow> k)),
         (''target_digest'', JStr (hp_target_digest p)), (''launch_mode'', JStr ''headless''), (''attempt_id'', JStr (hp_attempt p)),
         (''trigger_version'', JNum (of_nat (hp_trigger p)))])]"

definition mark_input :: "headless_plan \<Rightarrow> launch_via \<Rightarrow> append_input" where
  "mark_input p via =
     \<lparr>ai_role = Some (JStr ''human''), ai_content_type = Some (JStr ''note''), ai_payload = Some (JObj (mark_payload p via)),
      ai_agent = None, ai_model = None, ai_expected_version = Some (JNum (of_nat (hp_base p)))\<rparr>"

text \<open>The reservation: the seat is taken before the attempt starts.\<close>

definition launchAttempt :: "headless_plan \<Rightarrow> runtime \<Rightarrow> runtime \<times> nat" where
  "launchAttempt p s =
     (let own = \<lparr>ho_task = hp_task p, ho_title = hp_title p, ho_role = hp_role p, ho_agent = ac_agent (hp_route p),
            ho_attempt = hp_attempt p, ho_run = None, ho_starting = True, ho_uncertain = False, ho_root_seen = False,
            ho_stop_seen = False, ho_intent_only = False, ho_started = None\<rparr>;
          r = hr_next s; s1 = learn (hp_task p) s
      in (s1\<lparr>hr_heap := (hr_heap s1)(r := own), hr_next := Suc r, hr_seats := AList.update (hp_task p) r (hr_seats s1),
             hr_starting := remember r (hr_starting s1)\<rparr>, r))"

text \<open>What the attempt comes to under the admission lock: \<open>spawn\<close> is \<open>startRun\<close>, whose \<open>StartRunError\<close> carries the run.\<close>

datatype spawn_result = Spawned string | Start_error string bool | Other_error

datatype start_outcome = Stale | Covered "occupant list" | Spawn_ended spawn_result

definition start_attempt :: "bool \<Rightarrow> bool \<Rightarrow> run_dir list \<Rightarrow> spawn_result \<Rightarrow> headless_plan \<Rightarrow> start_outcome" where
  "start_attempt locked fresh store spawn p =
     (if \<not> locked then Spawn_ended Other_error
      else if \<not> fresh then Stale
      else (let taskBusy = taskOccupants store (hp_task p) in
            if taskBusy \<noteq> [] then Covered taskBusy
            else (case hp_designated p of
                    None \<Rightarrow> Spawn_ended spawn
                  | Some sid \<Rightarrow>
                      (let sessionBusy = sessionOccupants store (ac_agent (hp_route p)) sid in
                       if sessionBusy \<noteq> [] then Covered sessionBusy else Spawn_ended spawn))))"

definition release_own :: "string \<Rightarrow> nat \<Rightarrow> runtime \<Rightarrow> runtime" where
  "release_own task r s = (if map_of (hr_seats s) task = Some r then release task s else s)"

definition finish_start :: "headless_plan \<Rightarrow> nat \<Rightarrow> start_outcome \<Rightarrow> runtime \<Rightarrow> runtime \<times> runtime_event list" where
  "finish_start p r outcome s =
     (let own = hr_heap s r; s0 = s\<lparr>hr_starting := removeAll r (hr_starting s)\<rparr> in
      case outcome of
        Stale \<Rightarrow> (release_own (hp_task p) r (write_owned r (own\<lparr>ho_starting := False\<rparr>) s0), [])
      | Covered _ \<Rightarrow> (release_own (hp_task p) r (write_owned r (own\<lparr>ho_starting := False\<rparr>) s0), [])
      | Spawn_ended (Spawned i) \<Rightarrow> (write_owned r (own\<lparr>ho_run := Some i, ho_starting := False\<rparr>) s0, [])
      | Spawn_ended (Start_error i uncertain) \<Rightarrow>
          (let own' = own\<lparr>ho_starting := False, ho_run := Some i, ho_uncertain := uncertain\<rparr>;
               s1 = write_owned r own' s0
           in report own' (if uncertain then Startup_unconfirmed else Spawn_failed)
                (if uncertain then s1 else release_own (hp_task p) r s1))
      | Spawn_ended Other_error \<Rightarrow>
          (let own' = own\<lparr>ho_starting := False, ho_uncertain := True\<rparr> in
           report own' Startup_unconfirmed (write_owned r own' s0)))"

section \<open>Observation\<close>

record watch =
  wo_now :: rat
  wo_stall :: rat
  wo_tasks :: "(string \<times> string) list"

definition loud_run :: "watch \<Rightarrow> owned \<Rightarrow> run_meta \<Rightarrow> bool" where
  "loud_run w own m \<longleftrightarrow>
     ho_uncertain own \<or> rm_status m \<noteq> Running \<or> truthy_text (rm_root_exited_at m) \<or> truthy_text (rm_ended_at m) \<or> rm_stop m \<noteq> None \<or>
     map_of (wo_tasks w) (ho_task own) \<in> {None, Some ''closed''}"

definition observeSilence :: "(string \<Rightarrow> rat option) \<Rightarrow> watch \<Rightarrow> owned \<Rightarrow> run_meta \<Rightarrow> runtime \<Rightarrow> runtime \<times> runtime_event list" where
  "observeSilence mtime w own m s =
     (let i = rm_run_id m in
      if loud_run w own m then (hush i s, [])
      else (case mtime i of
              None \<Rightarrow> (hush i s, [])
            | Some t \<Rightarrow>
                (case map_of (hr_silence s) i of
                   Some p \<Rightarrow>
                     if sl_mtime p \<noteq> t \<or> wo_now w < sl_since p
                     then (s\<lparr>hr_silence := AList.update i \<lparr>sl_mtime = t, sl_since = wo_now w, sl_alerted = False\<rparr> (hr_silence s)\<rparr>, [])
                     else if sl_alerted p \<or> wo_now w - sl_since p < wo_stall w then (s, [])
                     else (s\<lparr>hr_silence := AList.update i (p\<lparr>sl_alerted := True\<rparr>) (hr_silence s)\<rparr>, [Silent_run i])
                 | None \<Rightarrow>
                     (s\<lparr>hr_silence := AList.update i \<lparr>sl_mtime = t, sl_since = wo_now w, sl_alerted = False\<rparr> (hr_silence s)\<rparr>, []))))"

record observation =
  ob_ended :: "string list"
  ob_stopped :: "(string \<times> string) list"
  ob_events :: "runtime_event list"

definition observe_stop :: "string \<Rightarrow> nat \<Rightarrow> run_meta \<Rightarrow> runtime \<times> observation \<Rightarrow> runtime \<times> observation" where
  "observe_stop task r m so =
     (case so of (s, ob) \<Rightarrow>
        (case rm_stop m of
           Some q \<Rightarrow>
             if ho_stop_seen (hr_heap s r) then (s, ob)
             else (write_owned r ((hr_heap s r)\<lparr>ho_stop_seen := True\<rparr>) s, ob\<lparr>ob_stopped := ob_stopped ob @ [(task, sq_requested_at q)]\<rparr>)
         | None \<Rightarrow> (s, ob)))"

definition failed_exit :: "run_meta \<Rightarrow> bool" where
  "failed_exit m \<longleftrightarrow> truthy_text (rm_exit_signal m) \<or> (case rm_exit_code m of None \<Rightarrow> False | Some c \<Rightarrow> c \<noteq> 0)"

definition observe_root :: "nat \<Rightarrow> run_meta \<Rightarrow> runtime \<times> observation \<Rightarrow> runtime \<times> observation" where
  "observe_root r m so =
     (case so of (s, ob) \<Rightarrow>
        if (truthy_text (rm_root_exited_at m) \<or> truthy_text (rm_ended_at m)) \<and> \<not> ho_root_seen (hr_heap s r)
        then (let own = (hr_heap s r)\<lparr>ho_root_seen := True\<rparr>; s1 = write_owned r own s in
              if rm_stop m = None \<and> failed_exit m
              then (let (s2, ev) = report own Root_failed s1 in (s2, ob\<lparr>ob_events := ob_events ob @ ev\<rparr>))
              else (s1, ob))
        else (s, ob))"

definition stop_failed :: "run_meta \<Rightarrow> bool" where
  "stop_failed m \<longleftrightarrow> (case rm_stop m of None \<Rightarrow> False | Some q \<Rightarrow> (case sq_result q of None \<Rightarrow> False | Some res \<Rightarrow> \<not> sv_success res))"

definition observe_rest ::
  "(int \<Rightarrow> bool option) \<Rightarrow> (string \<Rightarrow> rat option) \<Rightarrow> watch option \<Rightarrow> string \<Rightarrow> nat \<Rightarrow> string \<Rightarrow> run_meta \<Rightarrow>
    runtime \<times> observation \<Rightarrow> runtime \<times> observation" where
  "observe_rest pr mtime w task r run m so =
     (case so of (s, ob) \<Rightarrow>
        if complete m
        then (queueCompletion r m (hush run (release task s)), ob\<lparr>ob_ended := ob_ended ob @ [task]\<rparr>)
        else if stop_failed m \<or> pr (rm_supervisor m) \<noteq> Some True
        then (let (s1, ev) = report (hr_heap s r) Run_unconfirmed (hush run s) in (s1, ob\<lparr>ob_events := ob_events ob @ ev\<rparr>))
        else (case w of
                None \<Rightarrow> (s, ob)
              | Some w \<Rightarrow>
                  (let own = hr_heap s r;
                       own' = (if ho_intent_only own \<and> rm_status m = Running
                               then own\<lparr>ho_intent_only := False, ho_uncertain := False, ho_started := Some (rm_started_at m)\<rparr> else own);
                       (s1, ev) = observeSilence mtime w own' m (write_owned r own' s)
                   in (s1, ob\<lparr>ob_events := ob_events ob @ ev\<rparr>))))"

definition observe_seat ::
  "(int \<Rightarrow> bool option) \<Rightarrow> (string \<Rightarrow> rat option) \<Rightarrow> run_dir list \<Rightarrow> watch option \<Rightarrow> string \<times> nat \<Rightarrow>
    runtime \<times> observation \<Rightarrow> runtime \<times> observation" where
  "observe_seat pr mtime store w seat so =
     (case (seat, so) of ((task, r), (s, ob)) \<Rightarrow>
        (case (ho_starting (hr_heap s r), ho_run (hr_heap s r)) of
           (False, Some run) \<Rightarrow>
             if run = [] then so
             else (case own_meta store (hr_heap s r) of
                     Some m \<Rightarrow> observe_rest pr mtime w task r run m (observe_root r m (observe_stop task r m so))
                   | None \<Rightarrow>
                       (let (s1, ev) = report (hr_heap s r) Run_unconfirmed (hush run s)
                        in (s1, ob\<lparr>ob_events := ob_events ob @ ev\<rparr>)))
         | _ \<Rightarrow> so))"

section \<open>Completion checks\<close>

definition isDelivery :: "context_record \<Rightarrow> bool" where
  "isDelivery r \<longleftrightarrow>
     rec_role r \<in> {''architect'', ''executor'', ''reviewer''} \<and>
     rec_content_type r \<in> {''design'', ''code_changes'', ''revision'', ''review''}"

record observation_marker =
  om_role :: string
  om_base :: int
  om_mode :: "json option"
  om_attempt :: "json option"

definition launchMarker :: "context_record \<Rightarrow> observation_marker option" where
  "launchMarker r =
     (if rec_content_type r \<noteq> ''note'' then None
      else case pget (rec_payload r) ''launch'' of
        None \<Rightarrow> None
      | Some m \<Rightarrow>
          (case (string_of (jget m ''role''), safe_int (jget m ''base_version'')) of
             (Some role, Some b) \<Rightarrow>
               if role \<in> {''architect'', ''executor'', ''reviewer''} \<and> 0 \<le> b \<and> b < int (rec_version r)
               then Some \<lparr>om_role = role, om_base = b, om_mode = jget m ''launch_mode'', om_attempt = jget m ''attempt_id''\<rparr>
               else None
           | _ \<Rightarrow> None))"

text \<open>The base versions of the later launches of the role: the first of them ends the run's round.\<close>

definition later_bases :: "string \<Rightarrow> string \<Rightarrow> int \<Rightarrow> context_record list \<Rightarrow> int list" where
  "later_bases task role base records =
     List.map_filter (\<lambda>r. if rec_task_id r = task \<and> base < int (rec_version r)
       then (case launchMarker r of
               Some k \<Rightarrow> if om_role k = role \<and> base < om_base k then Some (om_base k) else None
             | None \<Rightarrow> None) else None) records"

definition before_all :: "int list \<Rightarrow> int \<Rightarrow> bool" where
  "before_all bases v \<longleftrightarrow> list_all (\<lambda>b. v \<le> b) bases"

definition delivered :: "string \<Rightarrow> string \<Rightarrow> int \<Rightarrow> context_record list \<Rightarrow> bool" where
  "delivered task role base records \<longleftrightarrow>
     list_ex (\<lambda>r. rec_task_id r = task \<and> base < int (rec_version r) \<and> before_all (later_bases task role base records) (int (rec_version r)) \<and>
       rec_role r = role \<and> isDelivery r) records"

definition base_of_run :: "run_meta \<Rightarrow> int option" where
  "base_of_run m = (case rm_headless m of None \<Rightarrow> None | Some h \<Rightarrow> safe_int (jget h ''base_version''))"

definition check_pending :: "run_dir list \<Rightarrow> string \<times> nat \<Rightarrow> runtime \<Rightarrow> runtime" where
  "check_pending store entry s =
     (case entry of (i, r) \<Rightarrow>
        (case read_run store i of
           Some m \<Rightarrow> if assertOwnership (hr_heap s r) m \<and> complete m then queueCompletion r m s else s
         | None \<Rightarrow> s))"

definition check_completion ::
  "(string \<Rightarrow> context_record list option) \<Rightarrow> string \<times> nat \<times> run_meta \<Rightarrow> runtime \<times> runtime_event list \<Rightarrow> runtime \<times> runtime_event list" where
  "check_completion tasklog entry se =
     (case (entry, se) of ((i, r, m), (s, ev)) \<Rightarrow>
        (let own = hr_heap s r in
         case tasklog (ho_task own) of
           None \<Rightarrow> (s, ev)
         | Some records \<Rightarrow>
             (let ok = (case base_of_run m of None \<Rightarrow> False | Some b \<Rightarrow> delivered (ho_task own) (ho_role own) b records);
                  (s1, ev1) = (if ok then (s, []) else report own Stopped_without_publish s)
              in (s1\<lparr>hr_completions := AList.delete i (hr_completions s1)\<rparr>, ev @ ev1))))"

definition reconcileCompletions ::
  "run_dir list \<Rightarrow> (string \<Rightarrow> context_record list option) \<Rightarrow> runtime \<Rightarrow> runtime \<times> runtime_event list" where
  "reconcileCompletions store tasklog s =
     (let s1 = fold (check_pending store) (hr_pending s) s
      in fold (check_completion tasklog) (hr_completions s1) (s1, []))"

definition observe ::
  "(int \<Rightarrow> bool option) \<Rightarrow> (string \<Rightarrow> rat option) \<Rightarrow> (string \<Rightarrow> context_record list option) \<Rightarrow> run_dir list \<Rightarrow> watch option \<Rightarrow>
    runtime \<Rightarrow> runtime \<times> observation" where
  "observe pr mtime tasklog store w s =
     (let (s1, ob) = fold (observe_seat pr mtime store w) (hr_seats s) (s, \<lparr>ob_ended = [], ob_stopped = [], ob_events = []\<rparr>);
          (s2, ev) = reconcileCompletions store tasklog s1
      in (s2, ob\<lparr>ob_events := ob_events ob @ ev\<rparr>))"

section \<open>Deliveries after the end\<close>

datatype interval_verdict = Consumed | Deferred | Runs_unreadable

definition date_of :: "(string \<Rightarrow> rat option) \<Rightarrow> string option \<Rightarrow> rat option" where
  "date_of date v = Option.bind v date"

text \<open>The newest launch note before a delivery; one that does not parse hides the older ones.\<close>

definition preceding_launch :: "string \<Rightarrow> context_record \<Rightarrow> context_record list \<Rightarrow> context_record option" where
  "preceding_launch task r records =
     (case sort_key (\<lambda>x. - int (rec_version x)) (filter (\<lambda>x. rec_task_id x = task \<and> rec_version x < rec_version r \<and>
           rec_content_type x = ''note'' \<and> pget (rec_payload x) ''launch'' \<noteq> None) records) of
        [] \<Rightarrow> None | x # _ \<Rightarrow> Some x)"

definition marked_run :: "observation_marker \<Rightarrow> run_meta list \<Rightarrow> run_meta option" where
  "marked_run k runs =
     find (\<lambda>m. case rm_headless m of
         None \<Rightarrow> False
       | Some h \<Rightarrow> jget h ''attempt_id'' = om_attempt k \<and> jget h ''role'' = Some (JStr (om_role k)) \<and>
           jget h ''base_version'' = Some (JNum (of_int (om_base k)))) runs"

definition run_interval :: "(string \<Rightarrow> rat option) \<Rightarrow> run_meta \<Rightarrow> (rat \<times> rat) option" where
  "run_interval date m =
     (case (date (rm_started_at m), date_of date (rm_ended_at m)) of
        (Some a, Some b) \<Rightarrow> if b < a then None else Some (a, b)
      | _ \<Rightarrow> None)"

text \<open>A delivery outside every run's interval, with a consistent timeline.\<close>

definition ghost :: "(string \<Rightarrow> rat option) \<Rightarrow> rat \<Rightarrow> context_record \<Rightarrow> context_record \<Rightarrow> run_meta \<Rightarrow> run_meta list \<Rightarrow> bool" where
  "ghost date now preceding r ownedRun runs \<longleftrightarrow>
     (case (date (rec_timestamp r), date (rec_timestamp preceding), date (rm_started_at ownedRun)) of
        (Some t, Some p, start) \<Rightarrow>
          t \<le> now \<and> p \<le> t \<and> list_all (\<lambda>m. run_interval date m \<noteq> None) runs \<and>
          (case start of None \<Rightarrow> True | Some a \<Rightarrow> a \<le> t) \<and>
          \<not> list_ex (\<lambda>m. case run_interval date m of None \<Rightarrow> False | Some (a, b) \<Rightarrow> a \<le> t \<and> t \<le> b) runs
      | _ \<Rightarrow> False)"

definition is_ghost :: "(string \<Rightarrow> rat option) \<Rightarrow> rat \<Rightarrow> string \<Rightarrow> context_record list \<Rightarrow> run_meta list \<Rightarrow> context_record \<Rightarrow> bool" where
  "is_ghost date now task records runs r \<longleftrightarrow>
     (case preceding_launch task r records of
        None \<Rightarrow> False
      | Some preceding \<Rightarrow>
          (case launchMarker preceding of
             None \<Rightarrow> False
           | Some k \<Rightarrow>
               om_mode k = Some (JStr ''headless'') \<and> om_role k = rec_role r \<and>
               (case marked_run k runs of None \<Rightarrow> False | Some m \<Rightarrow> ghost date now preceding r m runs)))"

definition ghost_key :: "string \<Rightarrow> nat \<Rightarrow> string" where
  "ghost_key task v = ''ghost:'' @ task @ '':'' @ show_nat v"

definition ghost_step :: "(context_record \<Rightarrow> bool) \<Rightarrow> string \<Rightarrow> context_record \<Rightarrow> runtime \<times> runtime_event list \<Rightarrow> runtime \<times> runtime_event list" where
  "ghost_step p task r se =
     (case se of (s, ev) \<Rightarrow>
        if p r then (let (s1, ev1) = once (ghost_key task (rec_version r)) (Ghost_delivery task (rec_version r)) s in (s1, ev @ ev1))
        else (s, ev))"

definition reconcileDeliveries ::
  "(string \<Rightarrow> rat option) \<Rightarrow> run_dir list \<Rightarrow> string \<Rightarrow> context_record list \<Rightarrow> nat \<Rightarrow> nat \<Rightarrow> rat \<Rightarrow> runtime \<Rightarrow>
    interval_verdict \<times> runtime \<times> runtime_event list" where
  "reconcileDeliveries date store task records lo hi now s =
     (if \<not> knows s task then (Consumed, s, [])
      else if busy s task then (Deferred, s, [])
      else (let deliveries = filter (\<lambda>r. rec_task_id r = task \<and> lo < rec_version r \<and> rec_version r \<le> hi \<and> isDelivery r) records in
            if deliveries = [] then (Consumed, s, [])
            else if list_ex (\<lambda>d. rd_meta d = None) store then (Runs_unreadable, s, [])
            else (let runs = filter (\<lambda>m. rm_task_id m = Some task \<and> rm_headless m \<noteq> None) (List.map_filter rd_meta store) in
                  if list_ex (\<lambda>m. \<not> complete m) runs then (Deferred, s, [])
                  else (let (s1, ev) = fold (ghost_step (is_ghost date now task records runs) task) deliveries (s, [])
                        in (Consumed, s1, ev)))))"

section \<open>Closing\<close>

text \<open>The synchronous part: the seat at the close, unless the task has none or is being stopped already.\<close>

definition close_begin :: "string \<Rightarrow> runtime \<Rightarrow> runtime \<times> nat option" where
  "close_begin task s =
     (case map_of (hr_seats s) task of
        None \<Rightarrow> (s, None)
      | Some r \<Rightarrow> if task \<in> set (hr_stopping s) then (s, None) else (s\<lparr>hr_stopping := hr_stopping s @ [task]\<rparr>, Some r))"

text \<open>What \<open>stopRun\<close> answers: the final meta, whether it published a request, and the verdict.\<close>

record stop_answer =
  sn_meta :: run_meta
  sn_requested :: bool
  sn_success :: bool
  sn_result :: string

definition audit_stop_of :: "stop_answer \<Rightarrow> audit_stop" where
  "audit_stop_of a =
     (let q = rm_stop (sn_meta a); res = Option.bind q sq_result in
      \<lparr>as_requested = sn_requested a, as_success = sn_success a, as_result = sn_result a,
       as_request_id = map_option sq_id q, as_requested_at = map_option sq_requested_at q,
       as_completed_at = map_option sv_completed_at res, as_phase = map_option (\<lambda>q. phase_name (sq_phase q)) q,
       as_outcome = map_option (\<lambda>r. outcome_name (sv_outcome r)) res\<rparr>)"

definition close_input :: "string \<Rightarrow> nat option \<Rightarrow> owned \<Rightarrow> audit_input" where
  "close_input task closeVersion own =
     \<lparr>ca_task = task, ca_close = closeVersion,
      ca_run = map_option (\<lambda>i. \<lparr>au_run_id = i, au_attempt = Some (ho_attempt own)\<rparr>) (ho_run own),
      ca_meta = None, ca_stop = None, ca_failure = None\<rparr>"

text \<open>The detached part, once the handshakes in flight have settled.  It runs in a world of its own: \<open>stop\<close> is
  \<open>stopRun\<close> (\<open>Inl\<close> its error text), \<open>hub\<close> and \<open>tasklog\<close> are those of \<open>auditCloseStop\<close>, and each call answers and
  moves the world on, so that a world records which calls were made.\<close>

definition close_audit_input ::
  "(string \<Rightarrow> 'w \<Rightarrow> (string + stop_answer) \<times> 'w) \<Rightarrow> string \<Rightarrow> nat option \<Rightarrow> owned \<Rightarrow> 'w \<Rightarrow> audit_input \<times> 'w" where
  "close_audit_input stop task closeVersion own w =
     (let base = close_input task closeVersion own in
      if falsy_text (ho_run own)
      then (base\<lparr>ca_failure := Some ''startup unconfirmed: no run id at close time''\<rparr>, w)
      else (case stop (the (ho_run own)) w of
              (Inl e, w') \<Rightarrow> (base\<lparr>ca_failure := Some (''stop attempt failed: '' @ e)\<rparr>, w')
            | (Inr a, w') \<Rightarrow> (base\<lparr>ca_meta := Some (sn_meta a), ca_stop := Some (audit_stop_of a)\<rparr>, w')))"

text \<open>The archive is listed once more, \<open>None\<close> where that throws; the seat found now is the one that is stopped.\<close>

definition close_sync :: "run_dir list option \<Rightarrow> runtime \<Rightarrow> runtime" where
  "close_sync listing s = (case listing of None \<Rightarrow> s | Some store \<Rightarrow> syncNew False store s)"

definition close_settled :: "run_dir list option \<Rightarrow> string \<Rightarrow> runtime \<Rightarrow> runtime" where
  "close_settled listing task s =
     (let s1 = close_sync listing s in s1\<lparr>hr_stopping := removeAll task (hr_stopping s1)\<rparr>)"

definition close_finish ::
  "run_dir list option \<Rightarrow> (string \<Rightarrow> 'w \<Rightarrow> (string + stop_answer) \<times> 'w) \<Rightarrow>
    (note_input \<Rightarrow> 'w \<Rightarrow> nat option \<times> 'w) option \<Rightarrow> (string \<Rightarrow> 'w \<Rightarrow> context_record list option \<times> 'w) \<Rightarrow>
    string \<Rightarrow> nat option \<Rightarrow> nat \<Rightarrow> runtime \<Rightarrow> 'w \<Rightarrow> runtime \<times> publish_result option \<times> 'w" where
  "close_finish listing stop hub tasklog task closeVersion atClose s w =
     (let s1 = close_sync listing s;
          own = (case seat_of s1 task of Some own \<Rightarrow> own | None \<Rightarrow> hr_heap s1 atClose);
          (inp, w1) = close_audit_input stop task closeVersion own w
      in (close_settled listing task s, auditCloseStop hub tasklog inp w1))"

section \<open>Seats and the identity of their owners\<close>

definition identity :: "owned \<Rightarrow> string \<times> string \<times> string \<times> string \<times> string option" where
  "identity own = (ho_task own, ho_role own, ho_agent own, ho_attempt own, ho_run own)"

lemma own_meta_identity:
  assumes "identity a = identity b"
  shows "own_meta store a = own_meta store b"
proof -
  have "assertOwnership a = assertOwnership b"
    using assms by (simp add: fun_eq_iff identity_def assertOwnership_def split: option.split)
  moreover have "ho_run a = ho_run b" using assms by (simp add: identity_def)
  ultimately show ?thesis by (simp only: own_meta_def)
qed

lemma hush_frame [simp]:
  "hr_seats (hush i s) = hr_seats s" "hr_heap (hush i s) = hr_heap s" "hr_next (hush i s) = hr_next s"
  "hr_stopping (hush i s) = hr_stopping s" "hr_pending (hush i s) = hr_pending s"
  by (simp_all add: hush_def)

lemma learn_frame [simp]:
  "hr_seats (learn t s) = hr_seats s" "hr_heap (learn t s) = hr_heap s" "hr_next (learn t s) = hr_next s"
  "seat_of (learn t s) = seat_of s"
  by (simp_all add: learn_def seat_of_def fun_eq_iff)

lemma once_frame [simp]:
  "hr_seats (fst (once k e s)) = hr_seats s" "hr_heap (fst (once k e s)) = hr_heap s"
  "hr_next (fst (once k e s)) = hr_next s" "hr_pending (fst (once k e s)) = hr_pending s"
  by (simp_all add: once_def Let_def)

lemma report_frame [simp]:
  "hr_seats (fst (report own x s)) = hr_seats s" "hr_heap (fst (report own x s)) = hr_heap s"
  "hr_next (fst (report own x s)) = hr_next s"
  by (simp_all add: report_def)

lemma queueCompletion_frame [simp]:
  "hr_seats (queueCompletion r m s) = hr_seats s" "hr_heap (queueCompletion r m s) = hr_heap s"
  "hr_next (queueCompletion r m s) = hr_next s"
  by (simp_all add: queueCompletion_def Let_def)

lemma replaceSeat_seats:
  "hr_seats (replaceSeat t own pm s) = AList.update t (hr_next s) (hr_seats s)"
  "hr_heap (replaceSeat t own pm s) = (hr_heap s)(hr_next s := own)"
  "hr_next (replaceSeat t own pm s) = Suc (hr_next s)"
  by (simp_all add: replaceSeat_def Let_def split: option.split)

lemma replaceSeat_seat_of [simp]: "seat_of (replaceSeat t own pm s) t = Some own"
  by (simp add: seat_of_def replaceSeat_seats update_conv')

lemma seat_of_release [simp]: "seat_of (release t s) t' = (if t' = t then None else seat_of s t')"
  by (simp add: seat_of_def release_def delete_conv')

text \<open>Addresses in the seat map are allocated.\<close>

definition seats_allocated :: "runtime \<Rightarrow> bool" where
  "seats_allocated s \<longleftrightarrow> (\<forall>(t, r)\<in>set (hr_seats s). r < hr_next s)"

lemma seat_allocated: "seats_allocated s \<Longrightarrow> map_of (hr_seats s) t = Some r \<Longrightarrow> r < hr_next s"
  by (auto simp: seats_allocated_def dest: map_of_SomeD)

lemma seat_of_replaceSeat:
  "seats_allocated s \<Longrightarrow> seat_of (replaceSeat t own pm s) t' = (if t' = t then Some own else seat_of s t')"
  by (cases "map_of (hr_seats s) t'") (auto simp: seat_of_def replaceSeat_seats update_conv' dest: seat_allocated)

lemma set_update_seats: "set (AList.update k v al) \<subseteq> insert (k, v) (set al)"
  by (induction al) auto

lemma set_delete_seats: "set (AList.delete k al) \<subseteq> set al"
  by (induction al) auto

lemma replaceSeat_allocated: "seats_allocated s \<Longrightarrow> seats_allocated (replaceSeat t own pm s)"
  using set_update_seats [of t "hr_next s" "hr_seats s"]
  by (fastforce simp: seats_allocated_def replaceSeat_seats)

lemma release_allocated: "seats_allocated s \<Longrightarrow> seats_allocated (release t s)"
  using set_delete_seats [of t "hr_seats s"] by (auto simp: seats_allocated_def release_def)

section \<open>What a synchronization does to a seat\<close>

definition intent_failed :: "run_dir \<Rightarrow> bool" where
  "intent_failed d \<longleftrightarrow> rd_meta d = None \<and> (\<exists>v. readStartIntent d = Some v \<and> jget v ''startup'' = Some (JStr ''failed''))"

text \<open>One directory leaves a seat alone, gives it to its own run, or releases it because its start failed.\<close>

lemma sync_dir_seat:
  assumes "seats_allocated s"
  shows "seats_allocated (sync_dir initial pr store d s) \<and>
    (seat_of (sync_dir initial pr store d s) t = seat_of s t \<or>
     (\<exists>own. seat_of (sync_dir initial pr store d s) t = Some own \<and> ho_run own = Some (rd_id d)) \<or>
     (seat_of (sync_dir initial pr store d s) t = None \<and> intent_failed d \<and>
       (\<exists>own. seat_of s t = Some own \<and> ho_run own = Some (rd_id d))))"
proof -
  have l: "seats_allocated (learn u s)" for u using assms by (simp add: seats_allocated_def)
  show ?thesis
  proof (cases "rd_meta d")
    case None
    show ?thesis
    proof (cases "readStartIntent d")
      case None
      with \<open>rd_meta d = None\<close> assms show ?thesis by (simp add: sync_dir_def)
    next
      case (Some intent)
      let ?task = "owner_text ''task_id'' intent"
      let ?h = "case jget intent ''headless'' of Some h \<Rightarrow> h | None \<Rightarrow> JNull"
      have e: "sync_dir initial pr store d s = sync_intent store (rd_id d) intent s"
        by (simp add: sync_dir_def \<open>rd_meta d = None\<close> Some)
      have cases: "sync_intent store (rd_id d) intent s \<in>
          {learn ?task s, replaceSeat ?task (intent_owned ?task (rd_id d) ?h) (Option.bind (seat_of s ?task) (own_meta store)) (learn ?task s)} \<or>
        (sync_intent store (rd_id d) intent s = release ?task (learn ?task s) \<and> jget intent ''startup'' = Some (JStr ''failed'') \<and>
          (\<exists>own. seat_of s ?task = Some own \<and> ho_run own = Some (rd_id d)))"
        by (auto simp: sync_intent_def Let_def split: option.splits)
      have i: "ho_run (intent_owned ?task (rd_id d) ?h) = Some (rd_id d)"
        by (simp add: intent_owned_def)
      from cases show ?thesis
      proof (elim disjE conjE exE insertE emptyE)
        fix own
        assume s': "sync_intent store (rd_id d) intent s = release ?task (learn ?task s)"
          and f: "jget intent ''startup'' = Some (JStr ''failed'')" and own: "seat_of s ?task = Some own" "ho_run own = Some (rd_id d)"
        have "intent_failed d" using f Some \<open>rd_meta d = None\<close> by (simp add: intent_failed_def)
        with own release_allocated [OF l] show ?thesis by (auto simp: e s')
      qed (use l i replaceSeat_allocated [OF l] in \<open>auto simp: e seat_of_replaceSeat [OF l]\<close>)
    qed
  next
    case (Some m)
    show ?thesis
    proof (cases "\<exists>task h. rm_task_id m = Some task \<and> rm_headless m = Some h \<and> task \<noteq> []")
      case False
      then have "sync_dir initial pr store d s = s"
        by (auto simp: sync_dir_def Some split: option.split)
      then show ?thesis using assms by simp
    next
      case True
      then obtain task h where th: "rm_task_id m = Some task" "rm_headless m = Some h" "task \<noteq> []" by blast
      have e: "sync_dir initial pr store d s = sync_meta initial pr (rd_id d) m task h s"
        by (simp add: sync_dir_def Some th)
      let ?own = "(run_owned task (rd_id d) h)\<lparr>ho_root_seen := truthy_text (rm_root_exited_at m),
        ho_stop_seen := (rm_stop m \<noteq> None), ho_started := Some (rm_started_at m)\<rparr>"
      have "(hr_seats (sync_dir initial pr store d s) = hr_seats s \<and>
            (\<forall>r < hr_next s. hr_heap (sync_dir initial pr store d s) r = hr_heap s r) \<and>
            hr_next s \<le> hr_next (sync_dir initial pr store d s)) \<or>
          sync_dir initial pr store d s = replaceSeat task ?own None (learn task s)"
        unfolding e sync_meta_def Let_def by (simp split: option.split)
      then show ?thesis
      proof (elim disjE conjE)
        assume a: "hr_seats (sync_dir initial pr store d s) = hr_seats s"
          "\<forall>r < hr_next s. hr_heap (sync_dir initial pr store d s) r = hr_heap s r"
          "hr_next s \<le> hr_next (sync_dir initial pr store d s)"
        have "seat_of (sync_dir initial pr store d s) t = seat_of s t"
          using a(1,2) seat_allocated [OF assms, of t] by (cases "map_of (hr_seats s) t") (simp_all add: seat_of_def)
        moreover have "seats_allocated (sync_dir initial pr store d s)"
          using assms a(1,3) by (fastforce simp: seats_allocated_def)
        ultimately show ?thesis by simp
      next
        assume "sync_dir initial pr store d s = replaceSeat task ?own None (learn task s)"
        moreover have "ho_run ?own = Some (rd_id d)" by (simp add: run_owned_def)
        ultimately show ?thesis using l replaceSeat_allocated [OF l] by (auto simp: seat_of_replaceSeat [OF l])
      qed
    qed
  qed
qed

text \<open>The invariant of the seat map: one seat per task, at an allocated address.\<close>

definition runtime_ok :: "runtime \<Rightarrow> bool" where
  "runtime_ok s \<longleftrightarrow> seats_allocated s \<and> distinct (map fst (hr_seats s))"

lemma replaceSeat_ok: "runtime_ok s \<Longrightarrow> runtime_ok (replaceSeat t own pm s)"
  by (simp add: runtime_ok_def replaceSeat_allocated replaceSeat_seats distinct_update)

lemma release_ok: "runtime_ok s \<Longrightarrow> runtime_ok (release t s)"
  by (simp add: runtime_ok_def release_allocated) (simp add: release_def distinct_delete)

lemma sync_dir_ok: "runtime_ok s \<Longrightarrow> runtime_ok (sync_dir initial pr store d s)"
proof -
  assume ok: "runtime_ok s"
  have l: "runtime_ok (learn u s)" for u using ok by (simp add: runtime_ok_def seats_allocated_def)
  have f: "distinct (map fst (hr_seats (sync_dir initial pr store d s)))"
    using ok replaceSeat_ok [OF l] release_ok [OF l] l
    by (auto simp: sync_dir_def sync_intent_def sync_meta_def Let_def runtime_ok_def split: option.split)
  with sync_dir_seat [of s initial pr store d] ok show ?thesis by (simp add: runtime_ok_def)
qed

lemma sync_fold_seat:
  assumes "distinct (map rd_id ds)" and "runtime_ok s"
  shows "runtime_ok (fold (sync_dir initial pr store) ds s) \<and>
    (seat_of s t = Some own \<longrightarrow> seat_of (fold (sync_dir initial pr store) ds s) t = None \<longrightarrow>
      (\<exists>d\<in>set ds. intent_failed d \<and> ho_run own = Some (rd_id d)))"
  using assms
proof (induction ds arbitrary: s own)
  case (Cons d ds)
  let ?s1 = "sync_dir initial pr store d s"
  have ok: "runtime_ok ?s1" by (rule sync_dir_ok [OF Cons.prems(2)])
  have IH: "runtime_ok (fold (sync_dir initial pr store) ds ?s1)"
    "seat_of ?s1 t = Some own' \<Longrightarrow> seat_of (fold (sync_dir initial pr store) ds ?s1) t = None \<Longrightarrow>
      \<exists>d\<in>set ds. intent_failed d \<and> ho_run own' = Some (rd_id d)" for own'
    using Cons.IH [OF _ ok] Cons.prems(1) by simp_all
  have step: "seat_of ?s1 t = seat_of s t \<or>
     (\<exists>own. seat_of ?s1 t = Some own \<and> ho_run own = Some (rd_id d)) \<or>
     (seat_of ?s1 t = None \<and> intent_failed d \<and> (\<exists>own. seat_of s t = Some own \<and> ho_run own = Some (rd_id d)))"
    using sync_dir_seat [of s initial pr store d t] Cons.prems(2) by (simp add: runtime_ok_def)
  have "\<exists>d'\<in>set (d # ds). intent_failed d' \<and> ho_run own = Some (rd_id d')"
    if own: "seat_of s t = Some own" and gone: "seat_of (fold (sync_dir initial pr store) ds ?s1) t = None"
    using step
  proof (elim disjE exE conjE)
    assume "seat_of ?s1 t = seat_of s t"
    with IH(2) [of own] own gone show ?thesis by auto
  next
    fix own' assume o: "seat_of ?s1 t = Some own'" "ho_run own' = Some (rd_id d)"
    from IH(2) [OF o(1) gone] o(2) Cons.prems(1) have False by auto
    then show ?thesis ..
  next
    fix own' assume "intent_failed d" "seat_of s t = Some own'" "ho_run own' = Some (rd_id d)"
    with own show ?thesis by auto
  qed
  with IH(1) show ?case by simp
qed simp

section \<open>What an observation does to the seats\<close>

lemma write_owned_frame [simp]:
  "hr_seats (write_owned r own s) = hr_seats s" "hr_next (write_owned r own s) = hr_next s"
  "hr_heap (write_owned r own s) = (hr_heap s)(r := own)"
  by (simp_all add: write_owned_def)

text \<open>Same seats, same owners up to their flags.\<close>

definition same_owners :: "runtime \<Rightarrow> runtime \<Rightarrow> bool" where
  "same_owners s s' \<longleftrightarrow> (\<forall>r. identity (hr_heap s' r) = identity (hr_heap s r)) \<and> hr_next s' = hr_next s"

lemma same_owners_refl [simp]: "same_owners s s"
  by (simp add: same_owners_def)

lemma same_owners_trans: "same_owners a b \<Longrightarrow> same_owners b c \<Longrightarrow> same_owners a c"
  by (simp add: same_owners_def)

lemma same_owners_write: "identity own = identity (hr_heap s r) \<Longrightarrow> same_owners s (write_owned r own s)"
  by (simp add: same_owners_def)

lemma same_owners_heap: "hr_heap s' = hr_heap s \<Longrightarrow> hr_next s' = hr_next s \<Longrightarrow> same_owners s s'"
  by (simp add: same_owners_def)

lemma observe_stop_frame:
  "same_owners s (fst (observe_stop t r m (s, ob))) \<and> hr_seats (fst (observe_stop t r m (s, ob))) = hr_seats s"
  by (auto simp: observe_stop_def identity_def same_owners_def split: option.split)

lemma observe_root_fst:
  "fst (observe_root r m (s, ob)) =
     (if (truthy_text (rm_root_exited_at m) \<or> truthy_text (rm_ended_at m)) \<and> \<not> ho_root_seen (hr_heap s r)
      then (if rm_stop m = None \<and> failed_exit m
            then fst (report ((hr_heap s r)\<lparr>ho_root_seen := True\<rparr>) Root_failed (write_owned r ((hr_heap s r)\<lparr>ho_root_seen := True\<rparr>) s))
            else write_owned r ((hr_heap s r)\<lparr>ho_root_seen := True\<rparr>) s)
      else s)"
  by (simp add: observe_root_def Let_def split_beta)

lemma observe_root_frame:
  "same_owners s (fst (observe_root r m (s, ob))) \<and> hr_seats (fst (observe_root r m (s, ob))) = hr_seats s"
  unfolding observe_root_fst by (simp add: same_owners_def identity_def)

lemma observeSilence_frame:
  "hr_seats (fst (observeSilence mtime w own m s)) = hr_seats s" "hr_heap (fst (observeSilence mtime w own m s)) = hr_heap s"
  "hr_next (fst (observeSilence mtime w own m s)) = hr_next s"
  by (simp_all add: observeSilence_def Let_def split: option.split)

text \<open>After the part of an observation that looks at one seat, the seat is there or its run is complete.\<close>

lemma observe_rest_frame:
  "same_owners s (fst (observe_rest pr mtime w t r run m (s, ob))) \<and>
   hr_seats (fst (observe_rest pr mtime w t r run m (s, ob))) =
     (if complete m then AList.delete t (hr_seats s) else hr_seats s)"
proof (cases "complete m")
  case True
  then show ?thesis by (simp add: observe_rest_def same_owners_def release_def)
next
  case nc: False
  show ?thesis
  proof (cases "stop_failed m \<or> pr (rm_supervisor m) \<noteq> Some True")
    case True
    with nc have "fst (observe_rest pr mtime w t r run m (s, ob)) = fst (report (hr_heap s r) Run_unconfirmed (hush run s))"
      by (simp add: observe_rest_def Let_def split_beta)
    with nc show ?thesis by (simp add: same_owners_def)
  next
    case False
    show ?thesis
    proof (cases w)
      case None
      with nc False show ?thesis by (simp add: observe_rest_def)
    next
      case (Some w')
      let ?own = "if ho_intent_only (hr_heap s r) \<and> rm_status m = Running
        then (hr_heap s r)\<lparr>ho_intent_only := False, ho_uncertain := False, ho_started := Some (rm_started_at m)\<rparr> else hr_heap s r"
      have "fst (observe_rest pr mtime w t r run m (s, ob)) = fst (observeSilence mtime w' ?own m (write_owned r ?own s))"
        using nc False by (simp add: observe_rest_def Some Let_def split_beta)
      moreover have "identity (own\<lparr>ho_intent_only := a, ho_uncertain := b, ho_started := c\<rparr>) = identity own" for own a b c
        by (simp add: identity_def)
      ultimately show ?thesis using nc by (simp add: same_owners_def observeSilence_frame)
    qed
  qed
qed

lemma observe_seat_frame:
  "same_owners s (fst (observe_seat pr mtime store w (t, r) (s, ob))) \<and>
   (hr_seats (fst (observe_seat pr mtime store w (t, r) (s, ob))) = hr_seats s \<or>
    hr_seats (fst (observe_seat pr mtime store w (t, r) (s, ob))) = AList.delete t (hr_seats s) \<and>
      (\<exists>m. own_meta store (hr_heap s r) = Some m \<and> complete m))"
proof (cases "\<not> ho_starting (hr_heap s r) \<and> (\<exists>run. ho_run (hr_heap s r) = Some run \<and> run \<noteq> [])")
  case False
  then have "observe_seat pr mtime store w (t, r) (s, ob) = (s, ob)"
    by (auto simp: observe_seat_def split: bool.split option.split)
  then show ?thesis by simp
next
  case True
  then obtain run where run: "\<not> ho_starting (hr_heap s r)" "ho_run (hr_heap s r) = Some run" "run \<noteq> []" by blast
  show ?thesis
  proof (cases "own_meta store (hr_heap s r)")
    case None
    with run have "fst (observe_seat pr mtime store w (t, r) (s, ob)) = fst (report (hr_heap s r) Run_unconfirmed (hush run s))"
      by (simp add: observe_seat_def Let_def split_beta)
    then show ?thesis by (simp add: same_owners_def)
  next
    case (Some m)
    obtain s1 ob1 where s1: "observe_stop t r m (s, ob) = (s1, ob1)" by fastforce
    obtain s2 ob2 where s2: "observe_root r m (s1, ob1) = (s2, ob2)" by fastforce
    have e: "observe_seat pr mtime store w (t, r) (s, ob) = observe_rest pr mtime w t r run m (s2, ob2)"
      using run by (simp add: observe_seat_def Some s1 s2)
    have "same_owners s s2" "hr_seats s2 = hr_seats s"
      using observe_stop_frame [of s t r m ob] observe_root_frame [of s1 r m ob1] by (auto simp: s1 s2 intro: same_owners_trans)
    with observe_rest_frame [of s2 pr mtime w t r run m ob2] Some show ?thesis
      unfolding e by (auto intro: same_owners_trans)
  qed
qed

lemma observe_fold_seats:
  assumes "set es \<subseteq> set (hr_seats s0)" and "runtime_ok s0" and "same_owners s0 s"
    and "\<And>t. map_of (hr_seats s) t = map_of (hr_seats s0) t \<or>
      map_of (hr_seats s) t = None \<and> (\<exists>r m. map_of (hr_seats s0) t = Some r \<and> own_meta store (hr_heap s0 r) = Some m \<and> complete m)"
    and "runtime_ok s"
  shows "let s' = fst (fold (observe_seat pr mtime store w) es (s, ob)) in
    runtime_ok s' \<and> same_owners s0 s' \<and>
    (\<forall>t. map_of (hr_seats s') t = map_of (hr_seats s0) t \<or>
      map_of (hr_seats s') t = None \<and> (\<exists>r m. map_of (hr_seats s0) t = Some r \<and> own_meta store (hr_heap s0 r) = Some m \<and> complete m))"
  using assms(1,3-)
proof (induction es arbitrary: s ob)
  case Nil
  then show ?case by (simp add: Let_def)
next
  case (Cons e es)
  obtain t r where e: "e = (t, r)" by (cases e)
  obtain s1 ob1 where s1: "observe_seat pr mtime store w (t, r) (s, ob) = (s1, ob1)" by fastforce
  have r: "map_of (hr_seats s0) t = Some r"
    using Cons.prems(1) assms(2) by (simp add: e runtime_ok_def)
  have fr: "same_owners s s1" "hr_seats s1 = hr_seats s \<or>
      hr_seats s1 = AList.delete t (hr_seats s) \<and> (\<exists>m. own_meta store (hr_heap s r) = Some m \<and> complete m)"
    using observe_seat_frame [of s pr mtime store w t r ob] by (simp_all add: s1)
  have id: "own_meta store (hr_heap s r) = own_meta store (hr_heap s0 r)"
    by (rule own_meta_identity) (use Cons.prems(2) in \<open>simp add: same_owners_def\<close>)
  have ok: "runtime_ok s1"
    using fr Cons.prems(4) set_delete_seats [of t "hr_seats s"]
    by (auto simp: runtime_ok_def seats_allocated_def same_owners_def distinct_delete)
  have seats: "map_of (hr_seats s1) u = map_of (hr_seats s0) u \<or>
      map_of (hr_seats s1) u = None \<and> (\<exists>r m. map_of (hr_seats s0) u = Some r \<and> own_meta store (hr_heap s0 r) = Some m \<and> complete m)" for u
    using fr(2) Cons.prems(3) [of u] r by (cases "u = t") (auto simp: delete_conv' id)
  have "fold (observe_seat pr mtime store w) (e # es) (s, ob) = fold (observe_seat pr mtime store w) es (s1, ob1)"
    by (simp add: e s1)
  then show ?case
    using Cons.IH [OF _ same_owners_trans [OF Cons.prems(2) fr(1)] seats ok, of ob1] Cons.prems(1) by (simp add: Let_def)
qed

lemma reconcileCompletions_frame:
  "hr_seats (fst (reconcileCompletions store tasklog s)) = hr_seats s \<and>
   hr_heap (fst (reconcileCompletions store tasklog s)) = hr_heap s \<and> hr_next (fst (reconcileCompletions store tasklog s)) = hr_next s"
proof -
  have p: "hr_seats (fold (check_pending store) es s) = hr_seats s \<and> hr_heap (fold (check_pending store) es s) = hr_heap s \<and>
      hr_next (fold (check_pending store) es s) = hr_next s" for es s
  proof (induction es arbitrary: s)
    case (Cons e es)
    have "hr_seats (check_pending store e s) = hr_seats s" "hr_heap (check_pending store e s) = hr_heap s"
      "hr_next (check_pending store e s) = hr_next s"
      by (cases e; simp add: check_pending_def split: option.split)+
    with Cons.IH [of "check_pending store e s"] show ?case by simp
  qed simp
  have c1: "hr_seats (fst (check_completion tasklog e (s, ev))) = hr_seats s \<and> hr_heap (fst (check_completion tasklog e (s, ev))) = hr_heap s \<and>
      hr_next (fst (check_completion tasklog e (s, ev))) = hr_next s" for e s ev
    by (cases e) (simp add: check_completion_def Let_def split_beta split: option.split)
  have c: "hr_seats (fst (fold (check_completion tasklog) es (s, ev))) = hr_seats s \<and>
      hr_heap (fst (fold (check_completion tasklog) es (s, ev))) = hr_heap s \<and>
      hr_next (fst (fold (check_completion tasklog) es (s, ev))) = hr_next s" for es s ev
  proof (induction es arbitrary: s ev)
    case (Cons e es)
    obtain s1 ev1 where s1: "check_completion tasklog e (s, ev) = (s1, ev1)" by fastforce
    from c1 [of e s ev] Cons.IH [of s1 ev1] show ?case by (simp add: s1)
  qed simp
  show ?thesis
    using p [of "hr_pending s" s] c by (simp add: reconcileCompletions_def Let_def)
qed

section \<open>Steps of the runtime\<close>

text \<open>An operation of the runtime on the archive as it stands; a start attempt that ends is labelled with its
  address and what it came to.\<close>

datatype runtime_label = Start_ended nat start_outcome | Other_operation

inductive runtime_step :: "run_dir list \<Rightarrow> runtime_label \<Rightarrow> runtime \<Rightarrow> runtime \<Rightarrow> bool" where
  step_restore: "runtime_step store Other_operation s (restore store s)"
| step_sync: "runtime_step store Other_operation s (syncNew initial store s)"
| step_launch: "runtime_step store Other_operation s (fst (launchAttempt p s))"
| step_finish: "r \<in> set (hr_starting s) \<Longrightarrow> outcome = start_attempt locked fresh store spawn p \<Longrightarrow>
    runtime_step store (Start_ended r outcome) s (fst (finish_start p r outcome s))"
| step_observe: "runtime_step store Other_operation s (fst (observe pr mtime tasklog store w s))"
| step_deliveries: "runtime_step store Other_operation s (fst (snd (reconcileDeliveries date store task records lo hi now s)))"
| step_close_begin: "runtime_step store Other_operation s (fst (close_begin task s))"
| step_close_finish: "listing \<in> {None, Some store} \<Longrightarrow> runtime_step store Other_operation s (close_settled listing task s)"

inductive_cases runtime_stepE: "runtime_step store l s s'"

text \<open>The attempt was dropped before anything was started, or the start certainly failed.\<close>

definition never_started :: "start_outcome \<Rightarrow> bool" where
  "never_started x = (case x of Stale \<Rightarrow> True | Covered _ \<Rightarrow> True | Spawn_ended (Start_error _ uncertain) \<Rightarrow> \<not> uncertain | _ \<Rightarrow> False)"

definition release_evidence :: "run_dir list \<Rightarrow> runtime_label \<Rightarrow> nat \<Rightarrow> owned \<Rightarrow> bool" where
  "release_evidence store l r own \<longleftrightarrow>
     (\<exists>m. own_meta store own = Some m \<and> complete m) \<or>
     (\<exists>d\<in>set store. intent_failed d \<and> ho_run own = Some (rd_id d)) \<or>
     (\<exists>outcome. l = Start_ended r outcome \<and> never_started outcome)"

lemma seats_only:
  "hr_seats s' = hr_seats s \<Longrightarrow> hr_next s' = hr_next s \<Longrightarrow> runtime_ok s \<Longrightarrow> runtime_ok s' \<and> (busy s t \<longrightarrow> busy s' t)"
  by (simp add: runtime_ok_def seats_allocated_def busy_def)

lemma sync_step:
  assumes "runtime_ok s" and "distinct (map rd_id store)" and "map_of (hr_seats s) t = Some r" and "\<not> busy (syncNew initial store s) t"
  shows "release_evidence store l r (hr_heap s r)"
proof -
  have "seat_of s t = Some (hr_heap s r)" "seat_of (syncNew initial store s) t = None"
    using assms(3,4) by (simp_all add: seat_of_def busy_def)
  with sync_fold_seat [OF assms(2,1), of initial "seat_runs s" store t "hr_heap s r"]
  show ?thesis by (simp add: syncNew_def release_evidence_def)
qed

lemma sync_ok: "runtime_ok s \<Longrightarrow> distinct (map rd_id store) \<Longrightarrow> runtime_ok (syncNew initial store s)"
  using sync_fold_seat [of store s] by (simp add: syncNew_def)

lemma launch_ok:
  assumes "runtime_ok s"
  shows "runtime_ok (fst (launchAttempt p s)) \<and> (busy s t \<longrightarrow> busy (fst (launchAttempt p s)) t)"
  using assms set_update_seats [of "hp_task p" "hr_next s" "hr_seats s"]
  by (fastforce simp: launchAttempt_def Let_def runtime_ok_def seats_allocated_def busy_def update_conv' distinct_update)

lemma finish_start_seats:
  "hr_next (fst (finish_start p r x s)) = hr_next s \<and>
   (hr_seats (fst (finish_start p r x s)) = hr_seats s \<or>
    never_started x \<and> map_of (hr_seats s) (hp_task p) = Some r \<and>
    hr_seats (fst (finish_start p r x s)) = AList.delete (hp_task p) (hr_seats s))"
  by (auto simp: finish_start_def Let_def release_own_def release_def never_started_def split: start_outcome.split spawn_result.split)

lemma delete_ok: "runtime_ok s \<Longrightarrow> hr_seats s' = AList.delete t (hr_seats s) \<Longrightarrow> hr_next s' = hr_next s \<Longrightarrow> runtime_ok s'"
  using set_delete_seats [of t "hr_seats s"] by (auto simp: runtime_ok_def seats_allocated_def distinct_delete)

lemma observe_step:
  assumes "runtime_ok s"
  shows "runtime_ok (fst (observe pr mtime tasklog store w s)) \<and>
    (map_of (hr_seats s) t = Some r \<longrightarrow> \<not> busy (fst (observe pr mtime tasklog store w s)) t \<longrightarrow> release_evidence store l r (hr_heap s r))"
proof -
  let ?o = "\<lparr>ob_ended = [], ob_stopped = [], ob_events = []\<rparr>"
  obtain s1 ob1 where s1: "fold (observe_seat pr mtime store w) (hr_seats s) (s, ?o) = (s1, ob1)" by fastforce
  have "runtime_ok s1" and t: "map_of (hr_seats s1) t = map_of (hr_seats s) t \<or> map_of (hr_seats s1) t = None \<and>
      (\<exists>r m. map_of (hr_seats s) t = Some r \<and> own_meta store (hr_heap s r) = Some m \<and> complete m)"
    using observe_fold_seats [of "hr_seats s" s s store pr mtime w ?o] assms by (simp_all add: s1 Let_def)
  have e: "fst (observe pr mtime tasklog store w s) = fst (reconcileCompletions store tasklog s1)"
    by (simp add: observe_def s1 split_beta)
  have fr: "hr_seats (fst (observe pr mtime tasklog store w s)) = hr_seats s1" "hr_next (fst (observe pr mtime tasklog store w s)) = hr_next s1"
    unfolding e using reconcileCompletions_frame [of store tasklog s1] by simp_all
  have "runtime_ok (fst (observe pr mtime tasklog store w s))"
    using \<open>runtime_ok s1\<close> by (simp add: runtime_ok_def seats_allocated_def fr)
  moreover have "release_evidence store l r (hr_heap s r)"
    if "map_of (hr_seats s) t = Some r" "map_of (hr_seats s1) t = None"
    using t that by (auto simp only: release_evidence_def option.simps)
  ultimately show ?thesis unfolding busy_def fr by blast
qed

lemma ghost_fold_frame:
  "hr_seats (fst (fold (ghost_step p task) rs (s, ev))) = hr_seats s \<and> hr_next (fst (fold (ghost_step p task) rs (s, ev))) = hr_next s"
proof (induction rs arbitrary: s ev)
  case (Cons r rs)
  obtain s1 ev1 where s1: "ghost_step p task r (s, ev) = (s1, ev1)" by fastforce
  then have "hr_seats s1 = hr_seats s" "hr_next s1 = hr_next s"
    by (auto simp: ghost_step_def split_beta split: if_splits)
  with Cons.IH [of s1 ev1] show ?case by (simp add: s1)
qed simp

lemma deliveries_frame:
  "hr_seats (fst (snd (reconcileDeliveries date store task records lo hi now s))) = hr_seats s \<and>
   hr_next (fst (snd (reconcileDeliveries date store task records lo hi now s))) = hr_next s"
  using ghost_fold_frame by (simp add: reconcileDeliveries_def Let_def split_beta)

text \<open>C26. A seat is given up only on evidence, and the seat map stays sound: whatever operation runs, there is
  at most one seat per task, and when a task that held a seat has none afterwards then the seat's own run is
  complete in the archive, or the archive says that its start failed, or the step is the end of the very
  attempt that held the seat and nothing was started.  In particular an uncertain start, an unreadable meta, a
  lost supervisor and an incomplete stop all keep the seat.\<close>

theorem seat_released_on_evidence:
  assumes "runtime_step store l s s'" and "runtime_ok s" and "distinct (map rd_id store)"
  shows "runtime_ok s' \<and>
    (\<forall>t r. map_of (hr_seats s) t = Some r \<longrightarrow> \<not> busy s' t \<longrightarrow> release_evidence store l r (hr_heap s r))"
  using assms(1)
proof (cases rule: runtime_step.cases)
  case step_restore
  have ok: "runtime_ok (s\<lparr>hr_initialized := True\<rparr>)" using assms(2) by (simp add: runtime_ok_def seats_allocated_def)
  show ?thesis
    using step_restore sync_ok [OF ok assms(3), of True] sync_step [OF ok assms(3), of _ _ True] assms(2)
    by (auto simp: restore_def busy_def)
next
  case (step_sync initial)
  then show ?thesis using sync_ok [OF assms(2,3), of initial] sync_step [OF assms(2,3), of _ _ initial] by auto
next
  case (step_launch p)
  then show ?thesis using launch_ok [OF assms(2)] by (auto simp: busy_def)
next
  case (step_finish r outcome locked fresh spawn p)
  have fr: "hr_next s' = hr_next s" "hr_seats s' = hr_seats s \<or>
    never_started outcome \<and> map_of (hr_seats s) (hp_task p) = Some r \<and> hr_seats s' = AList.delete (hp_task p) (hr_seats s)"
    using finish_start_seats [of p r outcome s] step_finish by simp_all
  have "runtime_ok s'"
    using fr(2)
  proof (elim disjE conjE)
    assume "hr_seats s' = hr_seats s"
    then show ?thesis using assms(2) fr(1) by (simp add: runtime_ok_def seats_allocated_def)
  next
    assume "hr_seats s' = AList.delete (hp_task p) (hr_seats s)"
    from delete_ok [OF assms(2) this fr(1)] show ?thesis .
  qed
  moreover have "release_evidence store l r' (hr_heap s r')"
    if "map_of (hr_seats s) t = Some r'" "\<not> busy s' t" for t r'
    using that fr(2) step_finish(1) by (cases "t = hp_task p") (auto simp: busy_def delete_conv' release_evidence_def)
  ultimately show ?thesis by blast
next
  case (step_observe pr mtime tasklog w)
  then show ?thesis using observe_step [OF assms(2)] by auto
next
  case (step_deliveries date task records lo hi now)
  then show ?thesis using deliveries_frame assms(2) by (simp add: runtime_ok_def seats_allocated_def busy_def)
next
  case (step_close_begin task)
  have "hr_seats s' = hr_seats s" "hr_next s' = hr_next s"
    by (simp_all add: step_close_begin close_begin_def split: option.split)
  then show ?thesis using assms(2) by (simp add: runtime_ok_def seats_allocated_def busy_def)
next
  case (step_close_finish listing task)
  show ?thesis
  proof (cases listing)
    case None
    then have "hr_seats s' = hr_seats s" "hr_next s' = hr_next s"
      by (simp_all add: step_close_finish close_settled_def close_sync_def Let_def)
    with assms show ?thesis by (auto simp: runtime_ok_def seats_allocated_def busy_def)
  next
    case (Some ds)
    with step_close_finish have "s' = close_settled (Some store) task s" by simp
    then have e: "hr_seats s' = hr_seats (syncNew False store s)" "hr_next s' = hr_next (syncNew False store s)"
      by (simp_all add: close_settled_def close_sync_def Let_def)
    then have "runtime_ok s'" using sync_ok [OF assms(2,3), of False] by (simp add: runtime_ok_def seats_allocated_def)
    moreover have "busy s' t = busy (syncNew False store s) t" for t by (simp add: busy_def e)
    ultimately show ?thesis using sync_step [OF assms(2,3), of _ _ False] by auto
  qed
qed

definition empty_runtime :: runtime where
  "empty_runtime = \<lparr>hr_heap = (\<lambda>_. \<lparr>ho_task = [], ho_title = [], ho_role = [], ho_agent = [], ho_attempt = [], ho_run = None,
       ho_starting = False, ho_uncertain = False, ho_root_seen = False, ho_stop_seen = False, ho_intent_only = False, ho_started = None\<rparr>),
     hr_next = 0, hr_seats = [], hr_starting = [], hr_stopping = [], hr_initialized = True, hr_known = [], hr_completions = [],
     hr_pending = [], hr_silence = [], hr_notices = []\<rparr>"

definition sample_headless_plan :: headless_plan where
  "sample_headless_plan = \<lparr>hp_task = ''t'', hp_title = ''x'', hp_role = ''executor'', hp_attempt = ''u'', hp_base = 1, hp_trigger = 1,
     hp_route = \<lparr>ac_agent = ''codex'', ac_args = []\<rparr>, hp_route_source = ''builtin-default'', hp_target_kind = None,
     hp_target_digest = ''d'', hp_designated = None\<rparr>"

text \<open>The handshake of a reserved launch times out: the seat stays.\<close>

theorem seat_released_on_evidence_witness:
  "busy (fst (finish_start sample_headless_plan 0 (Spawn_ended (Start_error ''r'' True)) (fst (launchAttempt sample_headless_plan empty_runtime)))) ''t''"
proof -
  let ?p = sample_headless_plan and ?x = "Spawn_ended (Start_error ''r'' True)"
  let ?s = "fst (launchAttempt ?p empty_runtime)"
  have ok: "runtime_ok ?s"
    using launch_ok [of empty_runtime ?p] by (simp add: runtime_ok_def seats_allocated_def empty_runtime_def)
  have r: "(0::nat) \<in> set (hr_starting ?s)" "map_of (hr_seats ?s) ''t'' = Some 0"
    by (simp_all add: launchAttempt_def Let_def empty_runtime_def remember_def sample_headless_plan_def learn_def)
  have x: "?x = start_attempt True True [] (Start_error ''r'' True) ?p"
    by (simp add: start_attempt_def taskOccupants_def map_filter_def sample_headless_plan_def)
  have st: "runtime_step [] (Start_ended 0 ?x) ?s (fst (finish_start ?p 0 ?x ?s))"
    by (rule step_finish [OF r(1) x])
  have "\<not> release_evidence [] (Start_ended 0 ?x) 0 (hr_heap ?s 0)"
    by (simp add: release_evidence_def never_started_def own_meta_def read_run_def launchAttempt_def Let_def empty_runtime_def learn_def)
  with seat_released_on_evidence [OF st ok] r(2) show ?thesis by auto
qed

section \<open>A close that meets a queued launch\<close>

definition dir_task :: "run_dir \<Rightarrow> string option" where
  "dir_task d = (case rd_meta d of Some m \<Rightarrow> rm_task_id m | None \<Rightarrow> map_option (owner_text ''task_id'') (readStartIntent d))"

lemma sync_dir_other:
  assumes "seats_allocated s" and "dir_task d \<noteq> Some t"
  shows "seat_of (sync_dir initial pr store d s) t = seat_of s t"
proof -
  have l: "seats_allocated (learn u s)" for u using assms(1) by (simp add: seats_allocated_def)
  show ?thesis
  proof (cases "rd_meta d")
    case None
    then show ?thesis
      using assms(2) by (auto simp: sync_dir_def sync_intent_def dir_task_def Let_def seat_of_replaceSeat [OF l] split: option.split)
  next
    case (Some m)
    have q: "seat_of (queueCompletion r m s) t = seat_of s t" for r m s
      by (simp add: seat_of_def)
    have h: "seat_of (hush i s) t = seat_of s t" for i s
      by (simp add: seat_of_def)
    have a: "seat_of ((hush i (learn u s))\<lparr>hr_heap := (hr_heap (learn u s))(hr_next (learn u s) := own), hr_next := n\<rparr>) t = seat_of s t" for i u own n
      using seat_allocated [OF assms(1), of t] by (cases "map_of (hr_seats s) t") (auto simp: seat_of_def)
    show ?thesis
      using assms(2) Some
      by (auto simp: sync_dir_def sync_meta_def dir_task_def Let_def seat_of_replaceSeat [OF l] q h a [simplified] split: option.split)
  qed
qed

text \<open>A directory that takes no seat and keeps none from another run: a finished round, a run by hand, a startup
  that is known to have failed, or one without a readable record.\<close>

definition settled_dir :: "run_dir \<Rightarrow> bool" where
  "settled_dir d \<longleftrightarrow>
     (case rd_meta d of
        Some m \<Rightarrow> complete m \<or> rm_headless m = None
      | None \<Rightarrow> (case readStartIntent d of None \<Rightarrow> True | Some intent \<Rightarrow> jget intent ''startup'' = Some (JStr ''failed'')))"

lemma seat_of_learn [simp]: "seat_of (learn u s) t = seat_of s t"
  by (simp add: seat_of_def learn_def)

lemma sync_dir_settled:
  assumes "seats_allocated s" and "settled_dir d" and "\<And>own. seat_of s t = Some own \<Longrightarrow> ho_run own \<noteq> Some (rd_id d)"
  shows "seat_of (sync_dir initial pr store d s) t = seat_of s t"
proof (cases "rd_meta d")
  case None
  have r: "seat_of (release u (learn v s)) t = seat_of (learn v s) t" if "u \<noteq> t" for u v
    using that by (simp add: seat_of_def release_def delete_conv')
  show ?thesis
  proof (cases "readStartIntent d")
    case (Some intent)
    have f: "jget intent ''startup'' = Some (JStr ''failed'')" using assms(2) None Some by (simp add: settled_dir_def)
    show ?thesis
    proof (cases "owner_text ''task_id'' intent = t")
      case True
      then show ?thesis
        using assms(3) by (cases "seat_of s t") (simp_all add: sync_dir_def None Some sync_intent_def Let_def f)
    next
      case False
      then show ?thesis by (simp add: sync_dir_def None Some sync_intent_def Let_def f r)
    qed
  qed (simp add: sync_dir_def None)
next
  case (Some m)
  have q: "seat_of (queueCompletion r m s) t = seat_of s t" for r m s
    by (simp add: seat_of_def)
  have h: "seat_of (hush i s) t = seat_of s t" for i s
    by (simp add: seat_of_def)
  have a: "seat_of ((hush i (learn u s))\<lparr>hr_heap := (hr_heap (learn u s))(hr_next (learn u s) := own), hr_next := n\<rparr>) t = seat_of s t" for i u own n
    using seat_allocated [OF assms(1), of t] by (cases "map_of (hr_seats s) t") (auto simp: seat_of_def)
  show ?thesis
    using assms(2) Some
    by (auto simp: settled_dir_def sync_dir_def sync_meta_def Let_def q h a [simplified] split: option.split)
qed

lemma sync_fold_settled:
  assumes "seats_allocated s" and "\<forall>d\<in>set ds. dir_task d = Some t \<longrightarrow> settled_dir d"
    and "\<And>own d. seat_of s t = Some own \<Longrightarrow> d \<in> set ds \<Longrightarrow> ho_run own \<noteq> Some (rd_id d)"
  shows "seats_allocated (fold (sync_dir initial pr store) ds s) \<and> seat_of (fold (sync_dir initial pr store) ds s) t = seat_of s t"
  using assms
proof (induction ds arbitrary: s)
  case (Cons d ds)
  have al: "seats_allocated (sync_dir initial pr store d s)" using sync_dir_seat [OF Cons.prems(1), of initial pr store d t] by simp
  have same: "seat_of (sync_dir initial pr store d s) t = seat_of s t"
  proof (cases "dir_task d = Some t")
    case True
    with Cons.prems(2) have "settled_dir d" by simp
    then show ?thesis using sync_dir_settled [OF Cons.prems(1)] Cons.prems(3) by (metis list.set_intros(1))
  qed (rule sync_dir_other [OF Cons.prems(1)])
  have "seats_allocated (fold (sync_dir initial pr store) ds (sync_dir initial pr store d s)) \<and>
      seat_of (fold (sync_dir initial pr store) ds (sync_dir initial pr store d s)) t = seat_of (sync_dir initial pr store d s) t"
    by (rule Cons.IH [OF al]) (use Cons.prems(2,3) same in auto)
  with same show ?case by simp
qed simp

text \<open>Admission refuses a launch for a task whose archive holds an unfinished run.\<close>

lemma start_attempt_yields:
  assumes "d \<in> set store" and "rd_meta d = Some m" and "rm_task_id m = Some (hp_task p)" and "\<not> complete m"
  shows "start_attempt True fresh store spawn p = Stale \<or> (\<exists>busyRuns. start_attempt True fresh store spawn p = Covered busyRuns)"
proof -
  have "task_occupant store (hp_task p) d \<noteq> None" using assms(2-4) by (simp add: task_occupant_def)
  with assms(1) have "taskOccupants store (hp_task p) \<noteq> []"
    by (auto simp: taskOccupants_def map_filter_def filter_empty_conv)
  then show ?thesis by (auto simp: start_attempt_def Let_def)
qed

lemma yielded_seat:
  assumes "outcome = Stale \<or> (\<exists>busyRuns. outcome = Covered busyRuns)" and "map_of (hr_seats s) (hp_task p) = Some r"
  shows "hr_seats (fst (finish_start p r outcome s)) = AList.delete (hp_task p) (hr_seats s)"
    and "hr_next (fst (finish_start p r outcome s)) = hr_next s"
  using assms by (auto simp: finish_start_def Let_def release_own_def release_def)

text \<open>C27. A close finds the run that really holds the task.  A launch holds the seat of the task, but under
  the admission lock the archive shows an unfinished run somebody else started: the launch yields, and its
  seat is released.  The close that was waiting for the launch lists the archive again, where besides that
  run \<open>d\<close> the task may have any number of earlier directories, finished rounds, runs by hand and startups that
  failed, and other tasks anything: it adopts \<open>d\<close>, makes one call of the stop, for exactly that run, and
  then one audit, which names that run and its attempt and carries the stop's own outcome, its
  failure included; and the task may be closed again.\<close>

theorem close_stops_the_winner:
  assumes "runtime_ok s" and "map_of (hr_seats s) task = Some r" and "hp_task p = task" and "task \<noteq> []"
    and "d \<in> set admitted" and "s1 = fst (finish_start p r (start_attempt True fresh admitted spawn p) s)"
    and "store = ds @ d # es" and "\<forall>d'\<in>set (ds @ es). rd_id d' \<noteq> rd_id d \<and> (dir_task d' = Some task \<longrightarrow> settled_dir d')"
    and "rd_meta d = Some m" and "rm_task_id m = Some task" and "rm_headless m = Some h" and "\<not> complete m" and "rd_id d \<noteq> []"
    and "close_finish (Some store) stop hub tasklog task v r s1 w = (s2, verdict, w')"
  shows "\<not> busy s1 task \<and> task \<notin> set (hr_stopping s2) \<and>
    (\<exists>own. seat_of s2 task = Some own \<and> ho_run own = Some (rd_id d) \<and> ho_attempt own = owner_text ''attempt_id'' h \<and>
      (verdict, w') =
        (case stop (rd_id d) w of
           (Inl e, w1) \<Rightarrow> auditCloseStop hub tasklog ((close_input task v own)\<lparr>ca_failure := Some (''stop attempt failed: '' @ e)\<rparr>) w1
         | (Inr a, w1) \<Rightarrow> auditCloseStop hub tasklog
             ((close_input task v own)\<lparr>ca_meta := Some (sn_meta a), ca_stop := Some (audit_stop_of a)\<rparr>) w1))"
proof -
  have y: "start_attempt True fresh admitted spawn p = Stale \<or> (\<exists>busyRuns. start_attempt True fresh admitted spawn p = Covered busyRuns)"
    using assms(3,10) by (intro start_attempt_yields [OF assms(5,9) _ assms(12)]) simp
  have s1: "hr_seats s1 = AList.delete task (hr_seats s)" "hr_next s1 = hr_next s"
    using yielded_seat [OF y] assms(2,3,6) by simp_all
  have none: "map_of (hr_seats s1) task = None" by (simp add: s1 delete_conv')
  have ok1: "runtime_ok s1" by (rule delete_ok [OF assms(1) s1])
  let ?own = "(run_owned task (rd_id d) h)\<lparr>ho_root_seen := truthy_text (rm_root_exited_at m),
    ho_stop_seen := (rm_stop m \<noteq> None), ho_started := Some (rm_started_at m)\<rparr>"
  let ?sd = "sync_dir False (seat_runs s1) store"
  let ?a = "fold ?sd ds s1"
  have a: "seats_allocated ?a" "seat_of ?a task = None"
    using sync_fold_settled [of s1 ds task False "seat_runs s1" store] ok1 assms(8) none
    by (simp_all add: runtime_ok_def seat_of_def)
  have b: "?sd d ?a = replaceSeat task ?own None (learn task ?a)"
    using assms(4,9-12) a(2) by (simp add: sync_dir_def sync_meta_def Let_def)
  have al: "seats_allocated (?sd d ?a)" using sync_dir_seat [OF a(1)] by blast
  have seat: "seat_of (?sd d ?a) task = Some ?own" unfolding b by (rule replaceSeat_seat_of)
  have run: "ho_run ?own = Some (rd_id d)" "ho_attempt ?own = owner_text ''attempt_id'' h" by (simp_all add: run_owned_def)
  have c: "seat_of (syncNew False store s1) task = Some ?own"
  proof -
    have "fold ?sd (ds @ d # es) s1 = fold ?sd es (?sd d ?a)" by simp
    then have "syncNew False store s1 = fold ?sd es (?sd d ?a)" unfolding syncNew_def assms(7) [symmetric] .
    moreover have "seat_of (fold ?sd es (?sd d ?a)) task = seat_of (?sd d ?a) task"
    proof (rule conjunct2 [OF sync_fold_settled [OF al]])
      show "\<forall>d\<in>set es. dir_task d = Some task \<longrightarrow> settled_dir d" using assms(8) by simp
      fix own d'
      assume "seat_of (?sd d ?a) task = Some own" and "d' \<in> set es"
      with seat have "own = ?own" "rd_id d' \<noteq> rd_id d" using assms(8) by simp_all
      then show "ho_run own \<noteq> Some (rd_id d')" using run(1) by simp
    qed
    ultimately show ?thesis using seat by (simp only:)
  qed
  have f: "falsy_text (ho_run ?own) = False" "the (ho_run ?own) = rd_id d" using assms(13) run(1) by (simp_all add: falsy_text_def)
  have s2: "s2 = close_settled (Some store) task s1" "(verdict, w') =
      (case close_audit_input stop task v ?own w of (inp, w1) \<Rightarrow> auditCloseStop hub tasklog inp w1)"
    using assms(14) c by (simp_all add: close_finish_def close_sync_def Let_def split: prod.splits)
  have "seat_of s2 task = Some ?own" "task \<notin> set (hr_stopping s2)"
    using c by (simp_all add: s2(1) close_settled_def close_sync_def Let_def) (simp add: seat_of_def)
  moreover have "(verdict, w') =
        (case stop (rd_id d) w of
           (Inl e, w1) \<Rightarrow> auditCloseStop hub tasklog ((close_input task v ?own)\<lparr>ca_failure := Some (''stop attempt failed: '' @ e)\<rparr>) w1
         | (Inr a, w1) \<Rightarrow> auditCloseStop hub tasklog
             ((close_input task v ?own)\<lparr>ca_meta := Some (sn_meta a), ca_stop := Some (audit_stop_of a)\<rparr>) w1)"
    unfolding s2(2) close_audit_input_def Let_def f by (simp split: prod.split sum.split)
  moreover have "\<not> busy s1 task" using none by (simp add: busy_def)
  ultimately show ?thesis using run by (intro conjI exI [of _ ?own]) assumption+
qed

text \<open>The archive of the example: an earlier round that is complete, a startup that failed, and the run that
  somebody else started while the launch was waiting.  The world records the stops that were asked for and
  holds the log of the task.\<close>

definition rival_run :: run_meta where
  "rival_run = finished_codex_run\<lparr>rm_run_id := ''r1'', rm_status := Running, rm_ended_at := None,
     rm_headless := Some (JObj [(''role'', JStr ''executor''), (''attempt_id'', JStr ''w'')])\<rparr>"

definition rival_dir :: run_dir where
  "rival_dir = \<lparr>rd_id = ''r1'', rd_meta = Some rival_run, rd_resume = None, rd_start = None\<rparr>"

definition earlier_round :: run_dir where
  "earlier_round = \<lparr>rd_id = ''r0'', rd_meta = Some (finished_codex_run\<lparr>rm_headless := Some (JObj [(''role'', JStr ''executor''), (''attempt_id'', JStr ''a0'')])\<rparr>),
     rd_resume = None, rd_start = None\<rparr>"

definition failed_startup :: run_dir where
  "failed_startup = \<lparr>rd_id = ''r2'', rd_meta = None, rd_resume = None,
     rd_start = Some (JObj [(''task_id'', JStr ''t''), (''cwd'', JStr ''/w''), (''startup'', JStr ''failed''),
       (''headless'', ownership_json sample_ownership 4)])\<rparr>"

lemma failed_startup_read: "readStartIntent failed_startup = rd_start failed_startup"
  using sample_ownership_valid
  by (simp add: readStartIntent_def failed_startup_def validStartIntent_def jget_def one_of_def STARTUP_STATES_def truthy_string_def
      absolute_string_def absolute_path_def starts_with_def)

definition stop_world :: "string \<Rightarrow> string list \<times> context_record list \<Rightarrow> (string + stop_answer) \<times> string list \<times> context_record list" where
  "stop_world run w =
     (Inr \<lparr>sn_meta = finished_codex_run\<lparr>rm_run_id := run\<rparr>, sn_requested = True, sn_success = True, sn_result = ''stopped''\<rparr>,
      fst w @ [run], snd w)"

definition note_world :: "note_input \<Rightarrow> string list \<times> context_record list \<Rightarrow> nat option \<times> string list \<times> context_record list" where
  "note_world n w = (Some (Suc (length (snd w))), fst w, snd w @ [stored_note (Suc (length (snd w))) ''now'' n])"

definition read_world :: "string \<Rightarrow> string list \<times> context_record list \<Rightarrow> context_record list option \<times> string list \<times> context_record list" where
  "read_world task w = (Some (snd w), w)"

theorem close_stops_the_winner_witness:
  "\<exists>s2 inp. close_finish (Some [earlier_round, rival_dir, failed_startup]) stop_world (Some note_world) read_world ''t'' (Some 3) 0
      (fst (finish_start sample_headless_plan 0 (start_attempt True True [earlier_round, rival_dir, failed_startup] Other_error sample_headless_plan)
         (fst (launchAttempt sample_headless_plan empty_runtime)))) ([], []) =
      (s2, Some (Published 1), [''r1''], [stored_note 1 ''now'' (audit_note inp)]) \<and>
    ca_run inp = Some \<lparr>au_run_id = ''r1'', au_attempt = Some ''w''\<rparr> \<and> ca_close inp = Some 3 \<and> ca_failure inp = None \<and>
    map_option as_success (ca_stop inp) = Some True"
proof -
  let ?p = sample_headless_plan
  let ?s = "fst (launchAttempt ?p empty_runtime)"
  let ?h = "JObj [(''role'', JStr ''executor''), (''attempt_id'', JStr ''w'')]"
  let ?store = "[earlier_round, rival_dir, failed_startup]"
  let ?s1 = "fst (finish_start ?p 0 (start_attempt True True ?store Other_error ?p) ?s)"
  have ok: "runtime_ok ?s"
    using launch_ok [of empty_runtime ?p] by (simp add: runtime_ok_def seats_allocated_def empty_runtime_def)
  have r: "map_of (hr_seats ?s) ''t'' = Some 0" "hp_task ?p = ''t''"
    by (simp_all add: launchAttempt_def Let_def empty_runtime_def remember_def sample_headless_plan_def learn_def)
  have m: "rm_task_id rival_run = Some ''t''" "rm_headless rival_run = Some ?h" "\<not> complete rival_run"
    by (simp_all add: rival_run_def finished_codex_run_def complete_def)
  have d: "rd_meta rival_dir = Some rival_run" "rd_id rival_dir = ''r1''" by (simp_all add: rival_dir_def)
  have others: "\<forall>d'\<in>set ([earlier_round] @ [failed_startup]). rd_id d' \<noteq> rd_id rival_dir \<and> (dir_task d' = Some ''t'' \<longrightarrow> settled_dir d')"
    by (simp add: earlier_round_def failed_startup_def rival_dir_def settled_dir_def complete_def finished_codex_run_def
        failed_startup_read [unfolded failed_startup_def] dir_task_def)
  have t: "owner_text ''attempt_id'' ?h = ''w''" by (simp add: owner_text_def owner_field_def)
  obtain s2 verdict w' where c: "close_finish (Some ?store) stop_world (Some note_world) read_world ''t'' (Some 3) 0 ?s1 ([], []) = (s2, verdict, w')"
    by (metis prod_cases3)
  have e: "''t'' \<noteq> []" "rival_dir \<in> set ?store" "?store = [earlier_round] @ rival_dir # [failed_startup]" "rd_id rival_dir \<noteq> []"
    by (simp_all add: d)
  note end_state = close_stops_the_winner [OF ok r e(1,2) HOL.refl e(3) others d(1) m e(4) c]
  then obtain own where own: "ho_run own = Some ''r1''" "ho_attempt own = ''w''"
    "(verdict, w') = (case stop_world ''r1'' ([], []) of
        (Inl e, w1) \<Rightarrow> auditCloseStop (Some note_world) read_world ((close_input ''t'' (Some 3) own)\<lparr>ca_failure := Some (''stop attempt failed: '' @ e)\<rparr>) w1
      | (Inr a, w1) \<Rightarrow> auditCloseStop (Some note_world) read_world
          ((close_input ''t'' (Some 3) own)\<lparr>ca_meta := Some (sn_meta a), ca_stop := Some (audit_stop_of a)\<rparr>) w1)"
    unfolding d(2) t by (elim conjE exE) (rule that)
  let ?a = "\<lparr>sn_meta = finished_codex_run\<lparr>rm_run_id := ''r1''\<rparr>, sn_requested = True, sn_success = True, sn_result = ''stopped''\<rparr>"
  let ?inp = "(close_input ''t'' (Some 3) own)\<lparr>ca_meta := Some (sn_meta ?a), ca_stop := Some (audit_stop_of ?a)\<rparr>"
  have "(verdict, w') = (Some (Published 1), [''r1''], [stored_note 1 ''now'' (audit_note ?inp)])"
    using own(3) by (simp add: stop_world_def auditCloseStop_def read_world_def confirm_close_def close_input_def
        hasCloseStopAudit_def publishCloseStopAudit_def note_world_def effectiveCloseDecisionVersion_def)
  moreover have "ca_run ?inp = Some \<lparr>au_run_id = ''r1'', au_attempt = Some ''w''\<rparr>" "ca_close ?inp = Some 3" "ca_failure ?inp = None"
    "map_option as_success (ca_stop ?inp) = Some True"
    by (simp_all add: close_input_def own audit_stop_of_def Let_def)
  ultimately show ?thesis using c by (intro exI [of _ s2] exI [of _ ?inp]) simp
qed

end
