(* ===== verification/Cli_Args.thy ===== *)
theory Cli_Args
  imports Artifacts Config "HOL-Library.AList"
begin

text \<open>
  The command line of \<open>tut\<close>, \<open>src/core/cli/args.ts\<close>: one tokenizer shared by the subcommands, one parser for each
  subcommand and the pure function \<open>parseArgs\<close> from the argument vector to a parsed command or a usage error.

  Usage errors keep their kind and the values the message quotes; the English text is not modelled.  What the parsers
  ask of their surroundings is the record \<open>cli_env\<close>: the two environment variables, the working directory, Node's
  \<open>path.join\<close> and \<open>path.isAbsolute\<close>, and \<open>JSON.parse\<close> (\<open>None\<close> where it throws).
\<close>

section \<open>Parsed shapes\<close>

datatype usage_error =
    Unknown_argument string
  | Duplicate_flag string
  | Requires_value string
  | Takes_no_value string
  | Unexpected_argument string
  | Missing_argument string string
  | Not_an_integer string string
  | Not_positive string
  | Required string
  | One_working_timeout
  | Bad_mode "string option"
  | Bad_action "string option"
  | Config_key_missing string
  | Config_value_missing
  | Cast_not_pairs string
  | Cast_role string
  | Cast_agent_empty string
  | Cast_agent_invalid string agent_command_error
  | Bad_checkout_text string
  | Checkout_not_json
  | Checkout_not_object
  | Checkout_kind_invalid
  | Checkout_unknown string
  | Checkout_current_combined
  | Checkout_path_twice
  | Checkout_ref_twice
  | Worktree_without_path
  | Bad_flow string
  | Exclusive string string
  | Checkout_kind_conflict string
  | Body_missing
  | Bad_decision "string option"
  | Note_empty
  | Bad_role "string option"
  | Assign_agent_missing
  | Assign_invalid agent_command_error
  | Skill_role string
  | Hinted usage_error
  | Instruction_empty
  | Instruction_missing
  | Run_without_divider
  | Run_without_executable
  | Mcp_arguments
  | Unknown_command string

text \<open>
  A number read by \<open>Number.parseInt(raw, 10)\<close> is a double: the digits' value rounded to 53 significant bits, ties to
  even, and infinite when that reaches \<open>2 ^ 1024\<close>.
\<close>

datatype js_number = Finite nat | Infinite

record create_args =
  cr_title :: string
  cr_description :: string
  cr_creator :: string
  cr_role :: string
  cr_flow :: "flow option"
  cr_cast :: "cast option"
  cr_checkout :: "checkout_route option"
  cr_url :: "string option"

record publish_args =
  pu_task_id :: string
  pu_role :: string
  pu_content_type :: string
  pu_summary :: string
  pu_body :: "string option"
  pu_payload_file :: "string option"
  pu_verdict :: "string option"
  pu_commits :: "string list option"
  pu_ref_version :: "js_number option"
  pu_expected_version :: "js_number option"
  pu_agent :: "string option"
  pu_model :: "string option"
  pu_url :: "string option"

record repair_args =
  ra_from_snapshot :: "string option"
  ra_task_id :: string
  ra_title :: "string option"
  ra_description :: "string option"
  ra_creator :: "string option"
  ra_created_at :: "string option"
  ra_flow :: "flow option"
  ra_cast :: "cast option"
  ra_checkout :: "checkout_route option"
  ra_url :: string

datatype parsed_args =
    Cmd_run "string list" "string option" bool
  | Cmd_ps bool
  | Cmd_attach string
  | Cmd_stop string
  | Cmd_repair_run string
  | Cmd_resume string "string option" bool
  | Cmd_live_view string
  | Cmd_mcp
  | Cmd_serve "js_number option" string
  | Cmd_notify string js_number js_number js_number "js_number option"
  | Cmd_mode string string
  | Cmd_config_get string string
  | Cmd_config_set string string string
  | Cmd_start_next "string option" string bool bool
  | Cmd_launch "string list"
  | Cmd_watch "string option" string js_number
  | Cmd_create create_args
  | Cmd_publish publish_args
  | Cmd_read string "js_number option" bool "string option"
  | Cmd_list "string option" bool "string option"
  | Cmd_status bool "string option"
  | Cmd_stats string "string list" bool
  | Cmd_doctor string string bool string bool
  | Cmd_repair_meta repair_args
  | Cmd_recover_record string string string "string option" string
  | Cmd_decide string string string "string option" "string option"
  | Cmd_ack string "string option" "string option"
  | Cmd_assign string agent_route
  | Cmd_up bool bool "string option" "js_number option" "string option"
  | Cmd_down "string option"
  | Cmd_skill string
  | Cmd_init
  | Cmd_usage "usage_error option"

record cli_env =
  ce_hub_url :: "string option"
  ce_hub_root :: "string option"
  ce_cwd :: string
  ce_join :: "string \<Rightarrow> string \<Rightarrow> string"
  ce_absolute :: "string \<Rightarrow> bool"
  ce_parse :: "string \<Rightarrow> json option"

definition DEFAULT_HUB_URL :: string where "DEFAULT_HUB_URL = ''http://127.0.0.1:3001''"

definition DEFAULT_EVENT_PORT :: nat where "DEFAULT_EVENT_PORT = 3002"

section \<open>The tokenizer\<close>

record tokens =
  positionals :: "string list"
  flags :: "(string \<times> string) list"
  repeated :: "(string \<times> string list) list"
  bools :: "string list"

record flag_spec =
  fs_values :: "string list"
  fs_bools :: "string list"
  fs_repeatable :: "string list"

definition no_tokens :: tokens where
  "no_tokens = \<lparr>positionals = [], flags = [], repeated = [], bools = []\<rparr>"

definition only :: "string list \<Rightarrow> flag_spec" where
  "only vs = \<lparr>fs_values = vs, fs_bools = [], fs_repeatable = []\<rparr>"

text \<open>The name of a flag argument and, after the first \<open>=\<close>, its inline value.\<close>

definition flag_parts :: "string \<Rightarrow> string \<times> string option" where
  "flag_parts arg =
     (takeWhile (\<lambda>c. c \<noteq> CHR ''='') (drop 2 arg),
      case dropWhile (\<lambda>c. c \<noteq> CHR ''='') (drop 2 arg) of [] \<Rightarrow> None | _ # v \<Rightarrow> Some v)"

definition present :: "tokens \<Rightarrow> string \<Rightarrow> bool" where
  "present t name \<longleftrightarrow> map_of (flags t) name \<noteq> None \<or> name \<in> set (bools t)"

text \<open>The first value of a flag goes to \<open>flags\<close>, every later one (of a repeatable flag) to \<open>repeated\<close>.\<close>

definition put_value :: "string \<Rightarrow> string \<Rightarrow> tokens \<Rightarrow> tokens" where
  "put_value name v t =
     (case map_of (flags t) name of
        None \<Rightarrow> t\<lparr>flags := flags t @ [(name, v)]\<rparr>
      | Some first \<Rightarrow>
          t\<lparr>repeated := AList.update name
               ((case map_of (repeated t) name of Some vs \<Rightarrow> vs | None \<Rightarrow> [first]) @ [v]) (repeated t)\<rparr>)"

fun tokenize_from :: "flag_spec \<Rightarrow> string list \<Rightarrow> tokens \<Rightarrow> usage_error + tokens" where
  "tokenize_from spec [] t = Inr t"
| "tokenize_from spec (arg # rest) t =
     (if \<not> starts_with ''--'' arg then tokenize_from spec rest (t\<lparr>positionals := positionals t @ [arg]\<rparr>)
      else (case flag_parts arg of (name, inline) \<Rightarrow>
        if name = [] then Inl (Unknown_argument arg)
        else if name \<notin> set (fs_values spec) \<and> name \<notin> set (fs_bools spec) then Inl (Unknown_argument (''--'' @ name))
        else if present t name \<and> (name \<notin> set (fs_repeatable spec) \<or> name \<in> set (bools t)) then Inl (Duplicate_flag name)
        else if \<not> present t name \<and> name \<in> set (fs_bools spec) then
          (case inline of
             Some v \<Rightarrow> Inl (Takes_no_value name)
           | None \<Rightarrow> tokenize_from spec rest (t\<lparr>bools := bools t @ [name]\<rparr>))
        else
          (case inline of
             Some v \<Rightarrow> tokenize_from spec rest (put_value name v t)
           | None \<Rightarrow>
               (case rest of
                  [] \<Rightarrow> Inl (Requires_value name)
                | v # rest' \<Rightarrow>
                    if starts_with ''--'' v then Inl (Requires_value name)
                    else tokenize_from spec rest' (put_value name v t)))))"

definition tokenize :: "string list \<Rightarrow> flag_spec \<Rightarrow> usage_error + tokens" where
  "tokenize args spec = tokenize_from spec args no_tokens"

section \<open>Reading the tokens\<close>

definition positional :: "tokens \<Rightarrow> nat \<Rightarrow> string option" where
  "positional t n = (if n < length (positionals t) then Some (positionals t ! n) else None)"

definition extraPositionalError :: "tokens \<Rightarrow> nat \<Rightarrow> usage_error + unit" where
  "extraPositionalError t expected =
     (case positional t expected of None \<Rightarrow> Inr () | Some extra \<Rightarrow> Inl (Unexpected_argument extra))"

fun bit_count :: "nat \<Rightarrow> nat" where
  "bit_count n = (if n = 0 then 0 else Suc (bit_count (n div 2)))"

declare bit_count.simps [simp del]

definition round_double :: "nat \<Rightarrow> js_number" where
  "round_double n =
     (if n < 2 ^ 53 then Finite n
      else let e = bit_count n - 53;
               q = n div 2 ^ e;
               r = n mod 2 ^ e;
               m = (if 2 ^ e < 2 * r \<or> 2 ^ e = 2 * r \<and> odd q then Suc q else q) * 2 ^ e
           in if m < 2 ^ 1024 then Finite m else Infinite)"

definition intFlag :: "tokens \<Rightarrow> string \<Rightarrow> usage_error + js_number option" where
  "intFlag t name =
     (case map_of (flags t) name of
        None \<Rightarrow> Inr None
      | Some raw \<Rightarrow>
          if raw = [] \<or> \<not> list_all is_digit raw then Inl (Not_an_integer name raw)
          else Inr (Some (round_double (read_nat raw))))"

definition positiveIntFlag :: "tokens \<Rightarrow> string \<Rightarrow> usage_error + js_number option" where
  "positiveIntFlag t name =
     rbind (intFlag t name) (\<lambda>v. if v = Some (Finite 0) then Inl (Not_positive name) else Inr v)"

definition strFlag :: "tokens \<Rightarrow> string \<Rightarrow> string option" where
  "strFlag t name = map_of (flags t) name"

definition strFlags :: "tokens \<Rightarrow> string \<Rightarrow> string list" where
  "strFlags t name =
     (case map_of (repeated t) name of
        Some vs \<Rightarrow> vs
      | None \<Rightarrow> (case map_of (flags t) name of Some v \<Rightarrow> [v] | None \<Rightarrow> []))"

definition requireStr :: "tokens \<Rightarrow> string \<Rightarrow> usage_error + string" where
  "requireStr t name =
     (case map_of (flags t) name of
        None \<Rightarrow> Inl (Required name)
      | Some v \<Rightarrow> if v = [] then Inl (Required name) else Inr v)"

definition has_bool :: "tokens \<Rightarrow> string \<Rightarrow> bool" where
  "has_bool t name \<longleftrightarrow> name \<in> set (bools t)"

abbreviation or_else :: "'a option \<Rightarrow> 'a \<Rightarrow> 'a" where
  "or_else v d \<equiv> (case v of Some x \<Rightarrow> x | None \<Rightarrow> d)"

text \<open>\<open>strFlag(t, "url") ?? process.env.TUT_HUB_URL ?? DEFAULT_HUB_URL\<close>.\<close>

definition hub_url :: "cli_env \<Rightarrow> tokens \<Rightarrow> string" where
  "hub_url env t = or_else (strFlag t ''url'') (or_else (ce_hub_url env) DEFAULT_HUB_URL)"

definition CONTEXT_ROOT :: string where "CONTEXT_ROOT = ''.context-hub''"

definition root_flag :: "tokens \<Rightarrow> string" where
  "root_flag t = or_else (strFlag t ''root'') CONTEXT_ROOT"

text \<open>A positional argument a command cannot do without.\<close>

definition requirePositional :: "string \<Rightarrow> string \<Rightarrow> tokens \<Rightarrow> nat \<Rightarrow> usage_error + string" where
  "requirePositional command what t n =
     (case positional t n of None \<Rightarrow> Inl (Missing_argument command what) | Some v \<Rightarrow> Inr v)"

section \<open>Services and modes\<close>

definition parseServe :: "string list \<Rightarrow> usage_error + parsed_args" where
  "parseServe args =
     rbind (tokenize args (only [''port'', ''root''])) (\<lambda>t.
     rbind (intFlag t ''port'') (\<lambda>port.
     Inr (Cmd_serve port (root_flag t))))"

definition WORKING_FLAGS :: "string list" where
  "WORKING_FLAGS = [''working-timeout'', ''launch-working-timeout'', ''launch-timeout'']"

definition number_or :: "js_number option \<Rightarrow> nat \<Rightarrow> js_number" where
  "number_or v d = or_else v (Finite d)"

definition parseNotify :: "cli_env \<Rightarrow> string list \<Rightarrow> usage_error + parsed_args" where
  "parseNotify env args =
     rbind (tokenize args (only ([''url'', ''interval'', ''event-port'', ''stall-timeout''] @ WORKING_FLAGS))) (\<lambda>t.
     rbind (intFlag t ''interval'') (\<lambda>interval.
     rbind (intFlag t ''stall-timeout'') (\<lambda>stall.
     rbind (positiveIntFlag t ''event-port'') (\<lambda>eventPort.
     rbind (traverse (intFlag t) WORKING_FLAGS) (\<lambda>values.
       let workingValues = List.map_filter (\<lambda>v. v) values in
       if 1 < length workingValues then Inl One_working_timeout
       else Inr (Cmd_notify (hub_url env t) (number_or interval 5) (number_or eventPort DEFAULT_EVENT_PORT)
                   (number_or stall 30) (case workingValues of [] \<Rightarrow> None | w # _ \<Rightarrow> Some w)))))))"

definition parseMode :: "cli_env \<Rightarrow> string list \<Rightarrow> usage_error + parsed_args" where
  "parseMode env args =
     rbind (tokenize args (only [''url''])) (\<lambda>t.
     rbind (extraPositionalError t 1) (\<lambda>_.
       if positional t 0 = Some ''manual'' then Inr (Cmd_mode ''manual'' (hub_url env t))
       else if positional t 0 = Some ''auto'' then Inr (Cmd_mode ''auto'' (hub_url env t))
       else Inl (Bad_mode (positional t 0))))"

definition parseConfig :: "string list \<Rightarrow> usage_error + parsed_args" where
  "parseConfig args =
     rbind (tokenize args (only [''root''])) (\<lambda>t.
       if positional t 0 \<noteq> Some ''get'' \<and> positional t 0 \<noteq> Some ''set'' then Inl (Bad_action (positional t 0))
       else (case positional t 1 of
         None \<Rightarrow> Inl (Config_key_missing (the (positional t 0)))
       | Some key \<Rightarrow>
           if key = [] then Inl (Config_key_missing (the (positional t 0)))
           else if positional t 0 = Some ''get'' then
             rbind (extraPositionalError t 2) (\<lambda>_. Inr (Cmd_config_get key (root_flag t)))
           else (case positional t 2 of
             None \<Rightarrow> Inl Config_value_missing
           | Some v \<Rightarrow> rbind (extraPositionalError t 3) (\<lambda>_. Inr (Cmd_config_set key v (root_flag t))))))"

definition parseStartNext :: "cli_env \<Rightarrow> string list \<Rightarrow> usage_error + parsed_args" where
  "parseStartNext env args =
     rbind (tokenize args ((only [''url''])\<lparr>fs_bools := [''force'', ''fresh'']\<rparr>)) (\<lambda>t.
     rbind (extraPositionalError t 1) (\<lambda>_.
     Inr (Cmd_start_next (positional t 0) (hub_url env t) (has_bool t ''force'') (has_bool t ''fresh''))))"

definition parseWatch :: "cli_env \<Rightarrow> string list \<Rightarrow> usage_error + parsed_args" where
  "parseWatch env args =
     rbind (tokenize args (only [''url'', ''interval''])) (\<lambda>t.
     rbind (extraPositionalError t 1) (\<lambda>_.
     rbind (intFlag t ''interval'') (\<lambda>interval.
     Inr (Cmd_watch (positional t 0) (hub_url env t) (number_or interval 5)))))"

section \<open>Casts and checkouts\<close>

text \<open>The text after a comma continues with \<open>\s*(?:architect|executor|reviewer)=\<close>.\<close>

definition role_boundary :: "string \<Rightarrow> bool" where
  "role_boundary s \<longleftrightarrow> list_ex (\<lambda>role. starts_with (role @ ''='') (dropWhile is_space s)) CAST_ROLES"

fun split_boundary :: "string \<Rightarrow> string list" where
  "split_boundary [] = [[]]"
| "split_boundary (c # s) =
     (if c = CHR '','' \<and> role_boundary s then [] # split_boundary s
      else (case split_boundary s of [] \<Rightarrow> [[c]] | e # es \<Rightarrow> (c # e) # es))"

definition splitCastEntries :: "string \<Rightarrow> string list" where
  "splitCastEntries raw = filter (\<lambda>e. e \<noteq> []) (map trim_ascii (split_boundary raw))"

definition parse_cast_pair :: "string \<Rightarrow> usage_error + (string \<times> agent_route)" where
  "parse_cast_pair pair =
     (if CHR ''='' \<notin> set pair \<or> hd pair = CHR ''='' then Inl (Cast_not_pairs pair)
      else let role = trim_ascii (takeWhile (\<lambda>c. c \<noteq> CHR ''='') pair);
               command = trim_ascii (tl (dropWhile (\<lambda>c. c \<noteq> CHR ''='') pair))
           in if role \<notin> set CAST_ROLES then Inl (Cast_role role)
              else if command = [] then Inl (Cast_agent_empty role)
              else (case parseAgentRoute command of
                      Inl e \<Rightarrow> Inl (Cast_agent_invalid role e)
                    | Inr route \<Rightarrow> Inr (role, route)))"

definition assign_all :: "cast \<Rightarrow> cast \<Rightarrow> cast" where
  "assign_all out pairs = foldl (\<lambda>c (role, route). AList.update role route c) out pairs"

definition parseCastPairs :: "string \<Rightarrow> usage_error + cast" where
  "parseCastPairs raw =
     rbind (traverse parse_cast_pair (splitCastEntries raw)) (\<lambda>pairs.
       let out = assign_all [] pairs in if out = [] then Inl (Cast_not_pairs raw) else Inr out)"

text \<open>The loop over the values of \<open>--cast\<close>: each one is merged over what the earlier ones said.\<close>

definition parse_casts :: "string list \<Rightarrow> usage_error + cast option" where
  "parse_casts raws =
     foldl (\<lambda>acc raw. rbind acc (\<lambda>cast. rbind (parseCastPairs raw) (\<lambda>parsed.
              Inr (Some (assign_all (or_else cast []) parsed))))) (Inr None) raws"

definition checkoutPart :: "json option \<Rightarrow> string \<Rightarrow> usage_error + string option" where
  "checkoutPart v field =
     (case v of
        None \<Rightarrow> Inr None
      | Some (JStr s) \<Rightarrow> if blank s \<or> has_control s then Inl (Bad_checkout_text field) else Inr (Some s)
      | Some _ \<Rightarrow> Inl (Bad_checkout_text field))"

text \<open>A checkout route while it is parsed: the path of a worktree may still come from another flag.\<close>

datatype draft_route = Draft_current | Draft_worktree "string option" "string option"

text \<open>\<open>/^[A-Za-z]:[\\/]/\<close>.\<close>

definition drive_path :: "string \<Rightarrow> bool" where
  "drive_path s =
     (case s of
        d # c # sl # _ \<Rightarrow> (let n = (of_char d :: nat) in n \<in> {65..90} \<or> n \<in> {97..122}) \<and> c = CHR '':'' \<and>
          (of_char sl = (92 :: nat) \<or> sl = CHR ''/'')
      | _ \<Rightarrow> False)"

definition checkout_path_like :: "cli_env \<Rightarrow> string \<Rightarrow> bool" where
  "checkout_path_like env spec \<longleftrightarrow>
     ce_absolute env spec \<or> starts_with ''./'' spec \<or> starts_with ''../'' spec \<or> drive_path spec \<or>
     starts_with [char_of (92 :: nat), char_of (92 :: nat)] spec"

definition json_checkout :: "cli_env \<Rightarrow> string \<Rightarrow> usage_error + draft_route" where
  "json_checkout env spec =
     (case ce_parse env spec of
        None \<Rightarrow> Inl Checkout_not_json
      | Some (JObj candidate) \<Rightarrow>
          if pget candidate ''kind'' = Some (JStr ''current'') then Inr Draft_current
          else if pget candidate ''kind'' = Some (JStr ''worktree'') then
            rbind (checkoutPart (pget candidate ''path'') ''checkout.path'') (\<lambda>p.
            rbind (checkoutPart (pget candidate ''ref'') ''checkout.ref'') (\<lambda>r.
            Inr (Draft_worktree p r)))
          else Inl Checkout_kind_invalid
      | Some _ \<Rightarrow> Inl Checkout_not_object)"

definition draft_checkout :: "cli_env \<Rightarrow> string \<Rightarrow> usage_error + draft_route" where
  "draft_checkout env raw =
     (let spec = trim_ascii raw in
      if spec = ''current'' then Inr Draft_current
      else if spec = ''worktree'' then Inr (Draft_worktree None None)
      else if starts_with ''worktree:'' spec \<or> starts_with ''worktree='' spec then
        Inr (Draft_worktree (Some (drop 9 spec)) None)
      else if starts_with ''{'' spec then json_checkout env spec
      else if checkout_path_like env spec then Inr (Draft_worktree (Some spec) None)
      else Inl (Checkout_unknown raw))"

definition either_part :: "string option \<Rightarrow> string option \<Rightarrow> string option" where
  "either_part a b = (case a of Some x \<Rightarrow> Some x | None \<Rightarrow> b)"

definition merge_checkout :: "string option \<Rightarrow> string option \<Rightarrow> draft_route \<Rightarrow> usage_error + checkout_route option" where
  "merge_checkout pathValue refValue route =
     (case route of
        Draft_current \<Rightarrow>
          if pathValue \<noteq> None \<or> refValue \<noteq> None then Inl Checkout_current_combined else Inr (Some Current)
      | Draft_worktree p r \<Rightarrow>
          if p \<noteq> None \<and> pathValue \<noteq> None then Inl Checkout_path_twice
          else if r \<noteq> None \<and> refValue \<noteq> None then Inl Checkout_ref_twice
          else rbind (checkoutPart (map_option JStr (either_part p pathValue)) ''checkout-path'') (\<lambda>checkedPath.
               rbind (checkoutPart (map_option JStr (either_part r refValue)) ''checkout-ref'') (\<lambda>checkedRef.
               (case checkedPath of
                  None \<Rightarrow> Inl Worktree_without_path
                | Some cp \<Rightarrow> Inr (Some (Worktree cp checkedRef))))))"

definition parseCheckoutSpec ::
    "cli_env \<Rightarrow> string option \<Rightarrow> string option \<Rightarrow> string option \<Rightarrow> usage_error + checkout_route option" where
  "parseCheckoutSpec env raw pathValue refValue =
     (if raw = None \<and> pathValue = None \<and> refValue = None then Inr None
      else rbind (case raw of None \<Rightarrow> Inr (Draft_worktree None None) | Some r \<Rightarrow> draft_checkout env r)
             (merge_checkout pathValue refValue))"

section \<open>Creating and publishing\<close>

definition parse_flow :: "string option \<Rightarrow> usage_error + flow option" where
  "parse_flow v =
     (case v of
        None \<Rightarrow> Inr None
      | Some s \<Rightarrow>
          if s = ''full'' then Inr (Some Full) else if s = ''direct'' then Inr (Some Direct)
          else if s = ''solo'' then Inr (Some Solo) else Inl (Bad_flow s))"

text \<open>One value under two spellings of a flag.\<close>

definition either_flag :: "tokens \<Rightarrow> string \<Rightarrow> string \<Rightarrow> usage_error + string option" where
  "either_flag t a b =
     (if strFlag t a \<noteq> None \<and> strFlag t b \<noteq> None then Inl (Exclusive a b)
      else Inr (either_part (strFlag t a) (strFlag t b)))"

text \<open>What \<open>--checkout-kind\<close> makes of the checkout spec.\<close>

definition kind_spec :: "string option \<Rightarrow> string option \<Rightarrow> usage_error + string option" where
  "kind_spec kind spec =
     (case kind of
        None \<Rightarrow> Inr spec
      | Some k \<Rightarrow>
          if k \<noteq> ''current'' \<and> k \<noteq> ''worktree'' then Inl Checkout_kind_invalid
          else if k = ''current'' then
            (if spec \<noteq> None \<and> spec \<noteq> Some ''current'' then Inl (Checkout_kind_conflict ''current'')
             else Inr (Some ''current''))
          else if spec = Some ''current'' then Inl (Checkout_kind_conflict ''worktree'')
          else Inr (Some (or_else spec ''worktree'')))"

definition CREATE_FLAGS :: flag_spec where
  "CREATE_FLAGS = (only [''title'', ''description'', ''creator'', ''role'', ''flow'', ''cast'', ''checkout'',
     ''checkout-kind'', ''checkout-path'', ''checkout-ref'', ''worktree'', ''worktree-path'', ''worktree-ref'', ''url''])
     \<lparr>fs_repeatable := [''cast'']\<rparr>"

definition parseCreate :: "cli_env \<Rightarrow> string list \<Rightarrow> usage_error + parsed_args" where
  "parseCreate env args =
     rbind (tokenize args CREATE_FLAGS) (\<lambda>t.
     rbind (requireStr t ''title'') (\<lambda>title.
     rbind (requireStr t ''description'') (\<lambda>description.
     rbind (requireStr t ''creator'') (\<lambda>creator.
     rbind (requireStr t ''role'') (\<lambda>role.
     rbind (parse_flow (strFlag t ''flow'')) (\<lambda>flow.
     rbind (parse_casts (strFlags t ''cast'')) (\<lambda>cast.
     rbind (either_flag t ''checkout'' ''worktree'') (\<lambda>spec.
     rbind (kind_spec (strFlag t ''checkout-kind'') spec) (\<lambda>checkoutSpec.
     rbind (either_flag t ''checkout-path'' ''worktree-path'') (\<lambda>checkoutPath.
     rbind (either_flag t ''checkout-ref'' ''worktree-ref'') (\<lambda>checkoutRef.
     rbind (parseCheckoutSpec env checkoutSpec checkoutPath checkoutRef) (\<lambda>checkout.
     Inr (Cmd_create \<lparr>cr_title = title, cr_description = description, cr_creator = creator, cr_role = role,
       cr_flow = flow, cr_cast = cast, cr_checkout = checkout, cr_url = strFlag t ''url''\<rparr>)))))))))))))"

definition split_commits :: "string \<Rightarrow> string list" where
  "split_commits raw = filter (\<lambda>c. c \<noteq> []) (map trim_ascii (split_at (CHR '','') raw))"

definition parsePublish :: "string list \<Rightarrow> usage_error + parsed_args" where
  "parsePublish args =
     rbind (tokenize args (only [''role'', ''content-type'', ''summary'', ''body'', ''payload-file'', ''verdict'',
       ''commits'', ''ref-version'', ''expected-version'', ''agent'', ''model'', ''url''])) (\<lambda>t.
     rbind (extraPositionalError t 1) (\<lambda>_.
     rbind (requirePositional ''publish'' ''task_id'' t 0) (\<lambda>taskId.
     rbind (requireStr t ''role'') (\<lambda>role.
     rbind (requireStr t ''content-type'') (\<lambda>contentType.
     rbind (requireStr t ''summary'') (\<lambda>summary.
       if strFlag t ''body'' = None \<and> strFlag t ''payload-file'' = None then Inl Body_missing
       else if strFlag t ''body'' \<noteq> None \<and> strFlag t ''payload-file'' \<noteq> None then
         Inl (Exclusive ''body'' ''payload-file'')
       else
         rbind (intFlag t ''ref-version'') (\<lambda>refVersion.
         rbind (intFlag t ''expected-version'') (\<lambda>expectedVersion.
         Inr (Cmd_publish \<lparr>pu_task_id = taskId, pu_role = role, pu_content_type = contentType, pu_summary = summary,
           pu_body = strFlag t ''body'', pu_payload_file = strFlag t ''payload-file'',
           pu_verdict = strFlag t ''verdict'', pu_commits = map_option split_commits (strFlag t ''commits''),
           pu_ref_version = refVersion, pu_expected_version = expectedVersion,
           pu_agent = strFlag t ''agent'', pu_model = strFlag t ''model'', pu_url = strFlag t ''url''\<rparr>)))))))))"

section \<open>Reading\<close>

definition parseRead :: "string list \<Rightarrow> usage_error + parsed_args" where
  "parseRead args =
     rbind (tokenize args ((only [''since-version'', ''url''])\<lparr>fs_bools := [''json'']\<rparr>)) (\<lambda>t.
     rbind (extraPositionalError t 1) (\<lambda>_.
     rbind (requirePositional ''read'' ''task_id'' t 0) (\<lambda>taskId.
     rbind (intFlag t ''since-version'') (\<lambda>since.
     Inr (Cmd_read taskId since (has_bool t ''json'') (strFlag t ''url''))))))"

definition parseList :: "string list \<Rightarrow> usage_error + parsed_args" where
  "parseList args =
     rbind (tokenize args ((only [''status'', ''url''])\<lparr>fs_bools := [''json'']\<rparr>)) (\<lambda>t.
     Inr (Cmd_list (strFlag t ''status'') (has_bool t ''json'') (strFlag t ''url'')))"

definition parseStatus :: "string list \<Rightarrow> usage_error + parsed_args" where
  "parseStatus args =
     rbind (tokenize args ((only [''url''])\<lparr>fs_bools := [''json'']\<rparr>)) (\<lambda>t.
     rbind (extraPositionalError t 0) (\<lambda>_.
     Inr (Cmd_status (has_bool t ''json'') (strFlag t ''url''))))"

definition parseDoctor :: "cli_env \<Rightarrow> string list \<Rightarrow> usage_error + parsed_args" where
  "parseDoctor env args =
     rbind (tokenize args ((only [''root'', ''url'', ''checkout''])\<lparr>fs_bools := [''json'', ''fix-preflight'']\<rparr>)) (\<lambda>t.
     rbind (extraPositionalError t 0) (\<lambda>_.
     Inr (Cmd_doctor (root_flag t) (hub_url env t) (has_bool t ''json'') (or_else (strFlag t ''checkout'') (ce_cwd env))
       (has_bool t ''fix-preflight''))))"

section \<open>Repairs and decisions\<close>

definition REPAIR_FLAGS :: flag_spec where
  "REPAIR_FLAGS = (only [''from-snapshot'', ''title'', ''description'', ''creator'', ''created-at'', ''flow'', ''cast'',
     ''checkout'', ''url''])\<lparr>fs_repeatable := [''cast'']\<rparr>"

definition parseRepairMeta :: "cli_env \<Rightarrow> string list \<Rightarrow> usage_error + parsed_args" where
  "parseRepairMeta env args =
     rbind (tokenize args REPAIR_FLAGS) (\<lambda>t.
     rbind (extraPositionalError t 1) (\<lambda>_.
     rbind (requirePositional ''repair-meta'' ''task_id'' t 0) (\<lambda>taskId.
     rbind (parse_flow (strFlag t ''flow'')) (\<lambda>flow.
     rbind (parse_casts (strFlags t ''cast'')) (\<lambda>cast.
     rbind (parseCheckoutSpec env (strFlag t ''checkout'') None None) (\<lambda>checkout.
     Inr (Cmd_repair_meta \<lparr>ra_from_snapshot = strFlag t ''from-snapshot'', ra_task_id = taskId,
       ra_title = strFlag t ''title'', ra_description = strFlag t ''description'', ra_creator = strFlag t ''creator'',
       ra_created_at = strFlag t ''created-at'', ra_flow = flow, ra_cast = cast, ra_checkout = checkout,
       ra_url = hub_url env t\<rparr>)))))))"

definition parseRecoverRecord :: "cli_env \<Rightarrow> string list \<Rightarrow> usage_error + parsed_args" where
  "parseRecoverRecord env args =
     rbind (tokenize args (only [''from'', ''source'', ''url''])) (\<lambda>t.
     rbind (extraPositionalError t 2) (\<lambda>_.
     rbind (requirePositional ''recover-record'' ''task_id'' t 0) (\<lambda>taskId.
     rbind (requirePositional ''recover-record'' ''record file'' t 1) (\<lambda>recordFile.
     rbind (requireStr t ''from'') (\<lambda>src.
     Inr (Cmd_recover_record taskId recordFile src (strFlag t ''source'') (hub_url env t)))))))"

definition parseDecide :: "string list \<Rightarrow> usage_error + parsed_args" where
  "parseDecide args =
     rbind (tokenize args (only [''decision'', ''by'', ''reason'', ''url''])) (\<lambda>t.
     rbind (extraPositionalError t 1) (\<lambda>_.
     rbind (requirePositional ''decide'' ''task_id'' t 0) (\<lambda>taskId.
     (case strFlag t ''decision'' of
        None \<Rightarrow> Inl (Bad_decision None)
      | Some decision \<Rightarrow>
          if decision \<notin> {''approve'', ''reject'', ''close''} then Inl (Bad_decision (Some decision))
          else rbind (requireStr t ''by'') (\<lambda>by'.
               Inr (Cmd_decide taskId decision by' (strFlag t ''reason'') (strFlag t ''url'')))))))"

definition parseAck :: "string list \<Rightarrow> usage_error + parsed_args" where
  "parseAck args =
     rbind (tokenize args (only [''note'', ''url''])) (\<lambda>t.
     rbind (extraPositionalError t 1) (\<lambda>_.
     rbind (requirePositional ''ack'' ''task_id'' t 0) (\<lambda>taskId.
       if strFlag t ''note'' = Some [] then Inl Note_empty
       else Inr (Cmd_ack taskId (strFlag t ''note'') (strFlag t ''url'')))))"

text \<open>Everything after the role belongs to the agent's command and does not go through the tokenizer.\<close>

definition parseAssign :: "string list \<Rightarrow> usage_error + parsed_args" where
  "parseAssign args =
     (case args of
        [] \<Rightarrow> Inl (Bad_role None)
      | role # command \<Rightarrow>
          if role \<notin> set CAST_ROLES then Inl (Bad_role (Some role))
          else if command = [] then Inl Assign_agent_missing
          else (case parseAgentInvocation command of
                  Inl e \<Rightarrow> Inl (Assign_invalid e)
                | Inr agent \<Rightarrow> Inr (Cmd_assign role agent)))"

section \<open>The rig\<close>

definition parseUp :: "string list \<Rightarrow> usage_error + parsed_args" where
  "parseUp args =
     rbind (tokenize args ((only [''url'', ''event-port'', ''root''])\<lparr>fs_bools := [''dry-run'', ''adopt'']\<rparr>)) (\<lambda>t.
     rbind (extraPositionalError t 0) (\<lambda>_.
     rbind (positiveIntFlag t ''event-port'') (\<lambda>eventPort.
     Inr (Cmd_up (has_bool t ''dry-run'') (has_bool t ''adopt'') (strFlag t ''url'') eventPort (strFlag t ''root'')))))"

definition parseDown :: "string list \<Rightarrow> usage_error + parsed_args" where
  "parseDown args =
     rbind (tokenize args (only [''root''])) (\<lambda>t.
     rbind (extraPositionalError t 0) (\<lambda>_.
     Inr (Cmd_down (strFlag t ''root''))))"

definition SKILL_ROLES :: "string list" where
  "SKILL_ROLES = [''host'', ''architect'', ''executor'', ''reviewer'']"

definition parseSkill :: "string list \<Rightarrow> usage_error + parsed_args" where
  "parseSkill args =
     rbind (tokenize args (only [])) (\<lambda>t.
     rbind (extraPositionalError t 1) (\<lambda>_.
     rbind (requirePositional ''skill'' ''role'' t 0) (\<lambda>role.
       if role \<notin> set SKILL_ROLES then Inl (Skill_role role) else Inr (Cmd_skill role))))"

definition parseStats :: "cli_env \<Rightarrow> string list \<Rightarrow> usage_error + parsed_args" where
  "parseStats env args =
     rbind (tokenize args ((only [''root''])\<lparr>fs_bools := [''json'']\<rparr>)) (\<lambda>t.
     Inr (Cmd_stats (or_else (strFlag t ''root'') (ce_join env (or_else (ce_hub_root env) ''.'') CONTEXT_ROOT))
       (positionals t) (has_bool t ''json'')))"

definition parseInit :: "string list \<Rightarrow> usage_error + parsed_args" where
  "parseInit args =
     rbind (tokenize args (only [])) (\<lambda>t. rbind (extraPositionalError t 0) (\<lambda>_. Inr Cmd_init))"

definition parseLaunch :: "string list \<Rightarrow> usage_error + parsed_args" where
  "parseLaunch args = Inr (Cmd_launch args)"

section \<open>Runs\<close>

text \<open>The arguments before the first \<open>--\<close>, and those after it when there is one.\<close>

definition before_divider :: "string list \<Rightarrow> string list" where
  "before_divider args = takeWhile (\<lambda>a. a \<noteq> ''--'') args"

definition after_divider :: "string list \<Rightarrow> string list option" where
  "after_divider args = (case dropWhile (\<lambda>a. a \<noteq> ''--'') args of [] \<Rightarrow> None | _ # rest \<Rightarrow> Some rest)"

definition parseResume :: "string list \<Rightarrow> usage_error + parsed_args" where
  "parseResume args =
     (let front = before_divider args; rear = or_else (after_divider args) [] in
      case tokenize front ((only [])\<lparr>fs_bools := [''fix-preflight'']\<rparr>) of
        Inl e \<Rightarrow> Inl (if list_ex (starts_with ''-'') front then Hinted e else e)
      | Inr t \<Rightarrow>
          let ps = positionals t @ rear in
          if after_divider args \<noteq> None \<and> 1 < length (positionals t) then Inl (Unexpected_argument (positionals t ! 1))
          else if 1 < length rear then Inl (Unexpected_argument (rear ! 1))
          else if 2 < length ps then Inl (Unexpected_argument (ps ! 2))
          else (case ps of
             [] \<Rightarrow> Inl (Missing_argument ''resume'' ''run-id'')
           | [runId] \<Rightarrow>
               if after_divider args \<noteq> None then Inl Instruction_missing
               else Inr (Cmd_resume runId None (has_bool t ''fix-preflight''))
           | runId # instruction # _ \<Rightarrow>
               if instruction = [] then Inl Instruction_empty
               else Inr (Cmd_resume runId (Some instruction) (has_bool t ''fix-preflight''))))"

definition parseLiveView :: "string list \<Rightarrow> usage_error + parsed_args" where
  "parseLiveView args =
     rbind (tokenize args (only [''layout''])) (\<lambda>t.
     rbind (extraPositionalError t 0) (\<lambda>_.
     rbind (requireStr t ''layout'') (\<lambda>layout. Inr (Cmd_live_view layout))))"

datatype process_command = P_run | P_ps | P_attach | P_stop | P_repair

definition process_spec :: "process_command \<Rightarrow> flag_spec" where
  "process_spec command =
     (case command of
        P_run \<Rightarrow> (only [''task''])\<lparr>fs_bools := [''fix-preflight'']\<rparr>
      | P_ps \<Rightarrow> (only [])\<lparr>fs_bools := [''json'']\<rparr>
      | _ \<Rightarrow> only [])"

definition command_name :: "process_command \<Rightarrow> string" where
  "command_name command =
     (case command of P_run \<Rightarrow> ''run'' | P_ps \<Rightarrow> ''ps'' | P_attach \<Rightarrow> ''attach'' | P_stop \<Rightarrow> ''stop''
      | P_repair \<Rightarrow> ''repair-run'')"

text \<open>\<open>if (extra)\<close> and \<open>!t.positionals[0]\<close> test for truth: an empty string counts as absent.\<close>

definition parseProcessCommand :: "process_command \<Rightarrow> string list \<Rightarrow> usage_error + parsed_args" where
  "parseProcessCommand command args =
     (if command = P_run \<and> after_divider args = None then Inl Run_without_divider
      else
        rbind (tokenize (if command = P_run then before_divider args else args) (process_spec command)) (\<lambda>t.
          let expected = (if command \<in> {P_attach, P_stop, P_repair} then 1 else 0) in
          if positional t expected \<noteq> None \<and> positional t expected \<noteq> Some [] then
            Inl (Unexpected_argument (the (positional t expected)))
          else (case command of
             P_run \<Rightarrow>
               let argv = the (after_divider args) in
               if argv = [] \<or> hd argv = [] \<or> strFlag t ''task'' = Some [] then Inl Run_without_executable
               else Inr (Cmd_run argv (strFlag t ''task'') (has_bool t ''fix-preflight''))
           | P_ps \<Rightarrow> Inr (Cmd_ps (has_bool t ''json''))
           | _ \<Rightarrow>
               (case positional t 0 of
                  None \<Rightarrow> Inl (Missing_argument (command_name command) ''run-id'')
                | Some runId \<Rightarrow>
                    if runId = [] then Inl (Missing_argument (command_name command) ''run-id'')
                    else Inr (case command of P_attach \<Rightarrow> Cmd_attach runId | P_stop \<Rightarrow> Cmd_stop runId
                              | _ \<Rightarrow> Cmd_repair_run runId)))))"

section \<open>The command\<close>

definition usage_or :: "usage_error + parsed_args \<Rightarrow> parsed_args" where
  "usage_or r = (case r of Inl e \<Rightarrow> Cmd_usage (Some e) | Inr c \<Rightarrow> c)"

definition dispatch :: "cli_env \<Rightarrow> string \<Rightarrow> string list \<Rightarrow> usage_error + parsed_args" where
  "dispatch env first rest =
     (if first = ''run'' then parseProcessCommand P_run rest
      else if first = ''ps'' then parseProcessCommand P_ps rest
      else if first = ''attach'' then parseProcessCommand P_attach rest
      else if first = ''stop'' then parseProcessCommand P_stop rest
      else if first = ''repair-run'' then parseProcessCommand P_repair rest
      else if first = ''resume'' then parseResume rest
      else if first = ''live-view'' then parseLiveView rest
      else if first = ''mcp'' then (if rest = [] then Inr Cmd_mcp else Inl Mcp_arguments)
      else if first = ''serve'' then parseServe rest
      else if first = ''notify'' then parseNotify env rest
      else if first = ''mode'' then parseMode env rest
      else if first = ''config'' then parseConfig rest
      else if first = ''start-next'' then parseStartNext env rest
      else if first = ''launch'' then parseLaunch rest
      else if first = ''watch'' then parseWatch env rest
      else if first = ''create'' then parseCreate env rest
      else if first = ''publish'' then parsePublish rest
      else if first = ''read'' then parseRead rest
      else if first = ''list'' then parseList rest
      else if first = ''status'' then parseStatus rest
      else if first = ''stats'' then parseStats env rest
      else if first = ''doctor'' then parseDoctor env rest
      else if first = ''repair-meta'' then parseRepairMeta env rest
      else if first = ''recover-record'' then parseRecoverRecord env rest
      else if first = ''decide'' then parseDecide rest
      else if first = ''ack'' then parseAck rest
      else if first = ''assign'' then parseAssign rest
      else if first = ''up'' then parseUp rest
      else if first = ''down'' then parseDown rest
      else if first = ''skill'' then parseSkill rest
      else if first = ''init'' then parseInit rest
      else Inl (Unknown_command first))"

definition parseArgs :: "cli_env \<Rightarrow> string list \<Rightarrow> parsed_args" where
  "parseArgs env argv =
     (case argv of [] \<Rightarrow> Cmd_usage None | first # rest \<Rightarrow> usage_or (dispatch env first rest))"

section \<open>The grammar of a command line\<close>

text \<open>
  What the arguments of a command mean: flags with a value, written \<open>--name=value\<close> (\<open>True\<close>) or as two arguments,
  switches, and positional arguments.
\<close>

datatype cli_item = Flag string string bool | Switch string | Arg string

definition spell :: "cli_item \<Rightarrow> string list" where
  "spell i = (case i of
       Flag n v True \<Rightarrow> [''--'' @ n @ CHR ''='' # v]
     | Flag n v False \<Rightarrow> [''--'' @ n, v]
     | Switch b \<Rightarrow> [''--'' @ b]
     | Arg p \<Rightarrow> [p])"

definition item_names :: "cli_item \<Rightarrow> string list" where
  "item_names i = (case i of Flag n _ _ \<Rightarrow> [n] | Switch b \<Rightarrow> [b] | Arg _ \<Rightarrow> [])"

definition item_ok :: "flag_spec \<Rightarrow> cli_item \<Rightarrow> bool" where
  "item_ok spec i = (case i of
       Flag n v joined \<Rightarrow> n \<in> set (fs_values spec) \<and> n \<noteq> [] \<and> CHR ''='' \<notin> set n \<and> (joined \<or> \<not> starts_with ''--'' v)
     | Switch b \<Rightarrow> b \<in> set (fs_bools spec) \<and> b \<noteq> [] \<and> CHR ''='' \<notin> set b
     | Arg p \<Rightarrow> \<not> starts_with ''--'' p)"

text \<open>A line of the command: every item is legal and no flag occurs twice unless it is repeatable.\<close>

definition single_names :: "flag_spec \<Rightarrow> cli_item list \<Rightarrow> string list" where
  "single_names spec items = filter (\<lambda>n. n \<notin> set (fs_repeatable spec)) (concat (map item_names items))"

definition valid_line :: "flag_spec \<Rightarrow> cli_item list \<Rightarrow> bool" where
  "valid_line spec items \<longleftrightarrow> list_all (item_ok spec) items \<and> distinct (single_names spec items)"

definition add_item :: "tokens \<Rightarrow> cli_item \<Rightarrow> tokens" where
  "add_item t i = (case i of
       Flag n v _ \<Rightarrow> put_value n v t
     | Switch b \<Rightarrow> t\<lparr>bools := bools t @ [b]\<rparr>
     | Arg p \<Rightarrow> t\<lparr>positionals := positionals t @ [p]\<rparr>)"

definition flag_values :: "string \<Rightarrow> cli_item list \<Rightarrow> string list" where
  "flag_values name items = List.map_filter (\<lambda>i. case i of Flag n v _ \<Rightarrow> if n = name then Some v else None | _ \<Rightarrow> None) items"

definition spec_ok :: "flag_spec \<Rightarrow> bool" where
  "spec_ok spec \<longleftrightarrow> set (fs_values spec) \<inter> set (fs_bools spec) = {} \<and> set (fs_repeatable spec) \<subseteq> set (fs_values spec)"

lemma starts_with_dashes: "starts_with ''--'' arg \<longleftrightarrow> (\<exists>r. arg = ''--'' @ r)"
  by (rule starts_with_iff)

lemma cut_at: "d \<notin> set n \<Longrightarrow> takeWhile (\<lambda>c. c \<noteq> d) (n @ d # v) = n \<and> dropWhile (\<lambda>c. c \<noteq> d) (n @ d # v) = d # v"
  by (induction n) auto

lemma cut_none: "d \<notin> set n \<Longrightarrow> takeWhile (\<lambda>c. c \<noteq> d) n = n \<and> dropWhile (\<lambda>c. c \<noteq> d) n = []"
  by (induction n) auto

lemma cut_cases:
  "(\<exists>v. s = takeWhile (\<lambda>c. c \<noteq> d) s @ d # v \<and> dropWhile (\<lambda>c. c \<noteq> d) s = d # v) \<or>
   s = takeWhile (\<lambda>c. c \<noteq> d) s \<and> dropWhile (\<lambda>c. c \<noteq> d) s = []"
  by (induction s) auto

lemma not_in_takeWhile: "d \<notin> set (takeWhile (\<lambda>c. c \<noteq> d) s)"
  by (induction s) auto

lemma flag_parts_joined: "CHR ''='' \<notin> set n \<Longrightarrow> flag_parts (''--'' @ n @ CHR ''='' # v) = (n, Some v)"
  using cut_at [of "CHR ''=''" n v] by (simp add: flag_parts_def)

lemma flag_parts_plain: "CHR ''='' \<notin> set n \<Longrightarrow> flag_parts (''--'' @ n) = (n, None)"
  by (simp add: flag_parts_def cut_none)

lemma flag_parts_arg:
  assumes "starts_with ''--'' arg" "flag_parts arg = (n, inline)"
  shows "CHR ''='' \<notin> set n \<and>
    arg = ''--'' @ n @ (case inline of Some v \<Rightarrow> CHR ''='' # v | None \<Rightarrow> [])"
proof -
  obtain r where r: "arg = ''--'' @ r"
    using assms(1) by (auto simp: starts_with_dashes)
  have n: "n = takeWhile (\<lambda>c. c \<noteq> CHR ''='') r"
    and i: "inline = (case dropWhile (\<lambda>c. c \<noteq> CHR ''='') r of [] \<Rightarrow> None | _ # v \<Rightarrow> Some v)"
    using assms(2) by (simp_all add: flag_parts_def r)
  have "r = n @ (case inline of Some v \<Rightarrow> CHR ''='' # v | None \<Rightarrow> [])"
    using cut_cases [of r "CHR ''=''"]
  proof (elim disjE exE conjE)
    fix v
    assume "r = takeWhile (\<lambda>c. c \<noteq> CHR ''='') r @ CHR ''='' # v" and d: "dropWhile (\<lambda>c. c \<noteq> CHR ''='') r = CHR ''='' # v"
    then show ?thesis unfolding i d by (simp add: n)
  next
    assume "r = takeWhile (\<lambda>c. c \<noteq> CHR ''='') r" and d: "dropWhile (\<lambda>c. c \<noteq> CHR ''='') r = []"
    then show ?thesis unfolding i d by (simp add: n)
  qed
  then show ?thesis
    using not_in_takeWhile [of "CHR ''=''" r] by (simp add: n r)
qed

lemma present_iff: "present t n \<longleftrightarrow> n \<in> fst ` set (flags t) \<or> n \<in> set (bools t)"
  by (simp add: present_def map_of_eq_None_iff)

lemma put_value_simps [simp]:
  "bools (put_value n v t) = bools t" "positionals (put_value n v t) = positionals t"
  "fst ` set (flags (put_value n v t)) = insert n (fst ` set (flags t))"
  by (auto simp: put_value_def map_of_eq_None_iff split: option.splits dest: map_of_SomeD intro: rev_image_eqI)

lemma present_add: "present (add_item t i) n \<longleftrightarrow> present t n \<or> n \<in> set (item_names i)"
  by (auto simp: present_iff add_item_def item_names_def split: cli_item.splits)

lemma bools_add:
  "set (bools t) \<subseteq> set (fs_bools spec) \<Longrightarrow> item_ok spec i \<Longrightarrow> set (bools (add_item t i)) \<subseteq> set (fs_bools spec)"
  by (auto simp: add_item_def item_ok_def split: cli_item.splits)

lemma spell_not_Nil [simp]: "spell i \<noteq> []"
  by (simp add: spell_def split: cli_item.splits bool.splits)

lemma starts_dashes [simp]: "starts_with ''--'' (CHR ''-'' # CHR ''-'' # n)"
  by (simp add: starts_with_def)

text \<open>One item of the line is one step of the loop.\<close>

definition may_add :: "flag_spec \<Rightarrow> tokens \<Rightarrow> cli_item \<Rightarrow> bool" where
  "may_add spec t i \<longleftrightarrow> (\<forall>n\<in>set (item_names i). present t n \<longrightarrow> n \<in> set (fs_repeatable spec))"

lemma tokenize_item:
  assumes spec: "spec_ok spec" and b: "set (bools t) \<subseteq> set (fs_bools spec)"
    and ok: "item_ok spec i" and add: "may_add spec t i"
  shows "tokenize_from spec (spell i @ rest) t = tokenize_from spec rest (add_item t i)"
proof (cases i)
  case (Arg p)
  then show ?thesis using ok by (simp add: spell_def add_item_def item_ok_def)
next
  case (Switch n)
  with ok have n: "n \<in> set (fs_bools spec)" "n \<noteq> []" "CHR ''='' \<notin> set n"
    by (simp_all add: item_ok_def)
  moreover have "\<not> present t n"
    using add spec n(1) by (auto simp: Switch may_add_def item_names_def spec_ok_def)
  ultimately show ?thesis
    using flag_parts_plain [of n] by (simp add: Switch spell_def add_item_def)
next
  case (Flag n v joined)
  with ok have n: "n \<in> set (fs_values spec)" "n \<noteq> []" "CHR ''='' \<notin> set n" "joined \<or> \<not> starts_with ''--'' v"
    by (simp_all add: item_ok_def)
  moreover have "n \<notin> set (fs_bools spec)" "n \<notin> set (bools t)"
    using spec n(1) b by (auto simp: spec_ok_def)
  moreover have "present t n \<longrightarrow> n \<in> set (fs_repeatable spec)"
    using add by (simp add: Flag may_add_def item_names_def)
  ultimately show ?thesis
    using flag_parts_plain [of n] flag_parts_joined [of n v]
    by (cases joined) (auto simp: Flag spell_def add_item_def)
qed

lemma tokenize_step:
  assumes spec: "spec_ok spec" and b: "set (bools t) \<subseteq> set (fs_bools spec)"
    and r: "tokenize_from spec (arg # rest) t = Inr t'"
  shows "\<exists>i rest'. item_ok spec i \<and> may_add spec t i \<and> arg # rest = spell i @ rest' \<and>
    tokenize_from spec rest' (add_item t i) = Inr t'"
proof (cases "starts_with ''--'' arg")
  case False
  then show ?thesis
    using r by (intro exI [of _ "Arg arg"] exI [of _ rest])
      (simp add: item_ok_def may_add_def item_names_def spell_def add_item_def)
next
  case True
  obtain n inline where p: "flag_parts arg = (n, inline)" by fastforce
  note a = flag_parts_arg [OF True p]
  have n: "n \<noteq> []" "n \<in> set (fs_values spec) \<or> n \<in> set (fs_bools spec)"
    "present t n \<longrightarrow> n \<in> set (fs_repeatable spec) \<and> n \<notin> set (bools t)"
    using r True p by (auto split: if_splits)
  show ?thesis
  proof (cases "n \<in> set (fs_bools spec)")
    case sw: True
    then have np: "\<not> present t n"
      using n(3) spec by (auto simp: spec_ok_def)
    have "inline = None" and t': "tokenize_from spec rest (t\<lparr>bools := bools t @ [n]\<rparr>) = Inr t'"
      using r True p np sw by (auto split: if_splits option.splits)
    then show ?thesis
      using a sw np n(1)
      by (intro exI [of _ "Switch n"] exI [of _ rest])
        (simp add: item_ok_def may_add_def item_names_def spell_def add_item_def)
  next
    case False
    with n(2) have v: "n \<in> set (fs_values spec)" by simp
    show ?thesis
    proof (cases inline)
      case (Some val)
      have "tokenize_from spec rest (put_value n val t) = Inr t'"
        using r True p False Some by (auto split: if_splits)
      then show ?thesis
        using a v n Some
        by (intro exI [of _ "Flag n val True"] exI [of _ rest])
          (simp add: item_ok_def may_add_def item_names_def spell_def add_item_def)
    next
      case None
      obtain val rest' where "rest = val # rest'" "\<not> starts_with ''--'' val" "tokenize_from spec rest' (put_value n val t) = Inr t'"
        using r True p False None by (auto split: if_splits list.splits)
      then show ?thesis
        using a v n None
        by (intro exI [of _ "Flag n val False"] exI [of _ rest'])
          (simp add: item_ok_def may_add_def item_names_def spell_def add_item_def)
    qed
  qed
qed

lemma single_names_Cons: "single_names spec (i # items) = filter (\<lambda>n. n \<notin> set (fs_repeatable spec)) (item_names i) @ single_names spec items"
  by (simp add: single_names_def)

lemma tokenize_spelled:
  assumes "spec_ok spec" "set (bools t) \<subseteq> set (fs_bools spec)" "valid_line spec items"
    and "\<And>n. n \<in> set (single_names spec items) \<Longrightarrow> \<not> present t n"
  shows "tokenize_from spec (concat (map spell items)) t = Inr (foldl add_item t items)"
  using assms
proof (induction items arbitrary: t)
  case Nil
  then show ?case by simp
next
  case (Cons i items)
  have ok: "item_ok spec i" "valid_line spec items"
    using Cons.prems(3) by (simp_all add: valid_line_def single_names_Cons)
  have add: "may_add spec t i"
    using Cons.prems(4) by (auto simp: may_add_def single_names_Cons)
  have "tokenize_from spec (concat (map spell items)) (add_item t i) = Inr (foldl add_item (add_item t i) items)"
  proof (rule Cons.IH [OF Cons.prems(1) bools_add [OF Cons.prems(2) ok(1)] ok(2)])
    fix n
    assume n: "n \<in> set (single_names spec items)"
    then have "n \<notin> set (fs_repeatable spec)" by (simp add: single_names_def)
    with Cons.prems(3,4) n show "\<not> present (add_item t i) n"
      by (auto simp: present_add valid_line_def single_names_Cons)
  qed
  then show ?case
    using tokenize_item [OF Cons.prems(1,2) ok(1) add] by simp
qed

lemma tokenize_reads_line:
  assumes "spec_ok spec" "set (bools t) \<subseteq> set (fs_bools spec)" "tokenize_from spec args t = Inr t'"
  shows "\<exists>items. valid_line spec items \<and> (\<forall>n\<in>set (single_names spec items). \<not> present t n) \<and>
    args = concat (map spell items) \<and> t' = foldl add_item t items"
  using assms
proof (induction args arbitrary: t rule: length_induct)
  case (1 args)
  show ?case
  proof (cases args)
    case Nil
    with 1 show ?thesis by (intro exI [of _ "[]"]) (simp add: valid_line_def single_names_def)
  next
    case (Cons arg rest)
    obtain i rest' where i: "item_ok spec i" "may_add spec t i" "args = spell i @ rest'"
      "tokenize_from spec rest' (add_item t i) = Inr t'"
      using tokenize_step [OF 1(2,3)] 1(4) unfolding Cons by blast
    have "length rest' < length args"
      using spell_not_Nil [of i] i(3) by simp
    then obtain items where items: "valid_line spec items" "\<forall>n\<in>set (single_names spec items). \<not> present (add_item t i) n"
      "rest' = concat (map spell items)" "t' = foldl add_item (add_item t i) items"
      using 1(1) 1(2) bools_add [OF 1(3) i(1)] i(4) by blast
    have one: "distinct (item_names i)"
      by (simp add: item_names_def split: cli_item.splits)
    have "valid_line spec (i # items)"
      using items(1,2) i(1) one by (auto simp: valid_line_def single_names_Cons present_add)
    moreover have "\<forall>n\<in>set (single_names spec (i # items)). \<not> present t n"
      using items(2) i(2) by (auto simp: single_names_Cons present_add may_add_def)
    ultimately show ?thesis
      using i(3) items(3,4) by (intro exI [of _ "i # items"]) simp
  qed
qed

text \<open>What the parsers read off the tokens of a line.\<close>

definition repeats_known :: "tokens \<Rightarrow> bool" where
  "repeats_known t \<longleftrightarrow> fst ` set (repeated t) \<subseteq> fst ` set (flags t)"

lemma not_known: "repeats_known t \<Longrightarrow> map_of (flags t) n = None \<Longrightarrow> map_of (repeated t) n = None"
  by (auto simp: repeats_known_def map_of_eq_None_iff)

lemma repeats_put: "repeats_known t \<Longrightarrow> repeats_known (put_value n v t)"
  by (auto simp: repeats_known_def put_value_def dom_update split: option.splits dest!: map_of_SomeD intro: rev_image_eqI)

lemma repeats_add: "repeats_known t \<Longrightarrow> repeats_known (add_item t i)"
  by (cases i) (simp_all add: add_item_def repeats_put, simp_all add: repeats_known_def)

lemma strFlags_put:
  assumes "repeats_known t"
  shows "strFlags (put_value n v t) m = strFlags t m @ (if m = n then [v] else [])"
  using not_known [OF assms] by (auto simp: strFlags_def put_value_def update_conv' map_add_def split: option.splits)

lemma strFlags_other [simp]:
  "strFlags (t\<lparr>bools := bs\<rparr>) m = strFlags t m" "strFlags (t\<lparr>positionals := ps\<rparr>) m = strFlags t m"
  by (simp_all add: strFlags_def cong: option.case_cong)

lemma strFlags_add: "repeats_known t \<Longrightarrow> strFlags (add_item t i) m = strFlags t m @ flag_values m [i]"
  by (cases i) (simp_all add: strFlags_put flag_values_def map_filter_simps add_item_def)

lemma flag_values_Cons: "flag_values m (i # items) = flag_values m [i] @ flag_values m items"
  by (simp add: flag_values_def map_filter_simps split: option.splits)

definition line_args :: "cli_item list \<Rightarrow> string list" where
  "line_args items = List.map_filter (\<lambda>i. case i of Arg p \<Rightarrow> Some p | _ \<Rightarrow> None) items"

definition line_switches :: "cli_item list \<Rightarrow> string list" where
  "line_switches items = List.map_filter (\<lambda>i. case i of Switch b \<Rightarrow> Some b | _ \<Rightarrow> None) items"

lemma line_tokens:
  "repeats_known t \<Longrightarrow> strFlags (foldl add_item t items) m = strFlags t m @ flag_values m items \<and>
    positionals (foldl add_item t items) = positionals t @ line_args items \<and>
    bools (foldl add_item t items) = bools t @ line_switches items"
proof (induction items arbitrary: t)
  case Nil
  then show ?case by (simp add: flag_values_def map_filter_simps line_args_def line_switches_def)
next
  case (Cons i items)
  from Cons.IH [OF repeats_add [OF Cons.prems]] show ?case
    unfolding flag_values_Cons [of m i items]
    by (cases i) (simp_all add: strFlags_add [OF Cons.prems], simp_all add: add_item_def map_filter_simps line_args_def line_switches_def)
qed

section \<open>Values the store accepts\<close>

lemma parsed_route_valid:
  assumes "parseAgentRoute s = Inr r"
  shows "validateAgentRoute (Some (route_json r)) = Inr r"
proof -
  have tok: "list_all SHELL_NEUTRAL_TOKEN (route_tokens r)"
    using parseAgentRoute_Inr [OF assms] by blast
  obtain ts where "token_route ts = Inr r"
    using assms by (auto simp: parseAgentRoute_def rbind_Inr_iff split: if_splits)
  then have "ac_args c \<noteq> []" if "r = Command c" for c
    using that by (cases ts) (auto simp: token_route_def split: if_splits)
  with tok show ?thesis
    by (cases r) (auto simp: route_tokens_def route_json_def validateAgentRoute_def parse_single
      traverse_validate_tokens validateAgentToken_Inr_iff rbind_Inr_iff pget_def)
qed

definition cast_ok :: "cast \<Rightarrow> bool" where
  "cast_ok c \<longleftrightarrow> distinct (map fst c) \<and>
     (\<forall>(role, r)\<in>set c. role \<in> set CAST_ROLES \<and> validateAgentRoute (Some (route_json r)) = Inr r)"

lemma cast_ok_update:
  assumes "cast_ok c" "role \<in> set CAST_ROLES" "validateAgentRoute (Some (route_json r)) = Inr r"
  shows "cast_ok (AList.update role r c)"
proof -
  have "set (AList.update role r c) \<subseteq> insert (role, r) (set c)"
    by (induction c) auto
  with assms show ?thesis by (auto simp: cast_ok_def distinct_update)
qed

lemma cast_ok_assign: "cast_ok c \<Longrightarrow> (\<And>role r. (role, r) \<in> set ps \<Longrightarrow>
    role \<in> set CAST_ROLES \<and> validateAgentRoute (Some (route_json r)) = Inr r) \<Longrightarrow> cast_ok (assign_all c ps)"
  unfolding assign_all_def by (induction ps arbitrary: c) (auto intro: cast_ok_update)

lemma update_not_Nil: "AList.update k v al \<noteq> []"
  by (cases al) auto

lemma assign_keeps: "c \<noteq> [] \<Longrightarrow> assign_all c ps \<noteq> []"
  unfolding assign_all_def by (induction ps arbitrary: c) (simp_all add: update_not_Nil split_beta)

lemma assign_not_Nil: "ps \<noteq> [] \<Longrightarrow> assign_all c ps \<noteq> []"
  using assign_keeps [OF update_not_Nil] by (cases ps) (auto simp: assign_all_def split_beta)

lemma parse_cast_pair_ok:
  "parse_cast_pair p = Inr (role, r) \<Longrightarrow> role \<in> set CAST_ROLES \<and> validateAgentRoute (Some (route_json r)) = Inr r"
  by (auto simp: parse_cast_pair_def Let_def parsed_route_valid split: if_splits sum.splits)

lemma parseCastPairs_ok:
  assumes "parseCastPairs raw = Inr c"
  shows "cast_ok c \<and> c \<noteq> []"
proof -
  obtain ps where ps: "traverse parse_cast_pair (splitCastEntries raw) = Inr ps" "c = assign_all [] ps" "c \<noteq> []"
    using assms by (auto simp: parseCastPairs_def rbind_Inr_iff Let_def split: if_splits)
  have "role \<in> set CAST_ROLES \<and> validateAgentRoute (Some (route_json r)) = Inr r" if "(role, r) \<in> set ps" for role r
    using ps(1) that parse_cast_pair_ok by (fastforce simp: traverse_Inr_iff list_all2_conv_all_nth in_set_conv_nth)
  then show ?thesis
    using ps(2,3) cast_ok_assign [of "[]" ps] by (simp add: cast_ok_def)
qed

lemma parse_casts_ok:
  assumes "parse_casts raws = Inr (Some c)"
  shows "cast_ok c \<and> c \<noteq> []"
proof -
  let ?step = "\<lambda>acc raw. rbind acc (\<lambda>cast. rbind (parseCastPairs raw) (\<lambda>parsed. Inr (Some (assign_all (or_else cast []) parsed))))"
  have stuck: "foldl ?step (Inl e) raws = Inl e" for e raws
    by (induction raws) simp_all
  have "foldl ?step (Inr acc) raws = Inr (Some c) \<Longrightarrow> (\<And>a. acc = Some a \<Longrightarrow> cast_ok a \<and> a \<noteq> []) \<Longrightarrow> cast_ok c \<and> c \<noteq> []" for acc
  proof (induction raws arbitrary: acc)
    case Nil
    then show ?case by simp
  next
    case (Cons raw raws)
    obtain parsed where p: "parseCastPairs raw = Inr parsed"
      using Cons.prems(1) stuck by (cases "parseCastPairs raw") auto
    have "cast_ok (or_else acc [])"
      using Cons.prems(2) by (cases acc) (simp_all add: cast_ok_def)
    then have ok: "cast_ok (assign_all (or_else acc []) parsed)"
      by (rule cast_ok_assign) (use parseCastPairs_ok [OF p] in \<open>auto simp: cast_ok_def\<close>)
    have ne: "assign_all (or_else acc []) parsed \<noteq> []"
      using parseCastPairs_ok [OF p] by (simp add: assign_not_Nil)
    show ?case
    proof (rule Cons.IH [of "Some (assign_all (or_else acc []) parsed)"])
      show "foldl ?step (Inr (Some (assign_all (or_else acc []) parsed))) raws = Inr (Some c)"
        using Cons.prems(1) p by simp
    qed (use ok ne in simp)
  qed
  from this [of None] assms show ?thesis by (simp add: parse_casts_def)
qed

lemma checkoutPart_ok: "checkoutPart v f = Inr (Some p) \<Longrightarrow> v = Some (JStr p) \<and> \<not> blank p \<and> \<not> has_control p"
  by (auto simp: checkoutPart_def split: option.splits json.splits if_splits)

lemma parseCheckoutSpec_ok:
  assumes "parseCheckoutSpec env raw pv rv = Inr ck"
  shows "requireValidCheckout (map_option checkout_json ck) = Inr ck"
proof (cases ck)
  case None
  then show ?thesis by (simp add: requireValidCheckout_def)
next
  case (Some c)
  show ?thesis
  proof (cases c)
    case Current
    then show ?thesis by (simp add: Some requireValidCheckout_def checkout_json_def pget_def)
  next
    case (Worktree p ref)
    obtain route where "merge_checkout pv rv route = Inr (Some (Worktree p ref))"
      using assms unfolding Some Worktree parseCheckoutSpec_def by (auto simp: rbind_Inr_iff split: if_split_asm)
    then obtain v f w g where "checkoutPart v f = Inr (Some p)" "checkoutPart w g = Inr ref"
      by (cases route) (auto simp: merge_checkout_def rbind_Inr_iff split: if_split_asm option.split_asm)
    then show ?thesis
      by (cases ref) (auto simp: Some Worktree requireValidCheckout_def checkout_json_def routeValue_def pget_def opt_field_def
        dest!: checkoutPart_ok)
  qed
qed

lemma cast_ok_accepted: "cast_ok c \<Longrightarrow> c \<noteq> [] \<Longrightarrow> requireValidCast (Some (cast_json c)) = Inr (Some c)"
proof -
  assume c: "cast_ok c" "c \<noteq> []"
  have "traverse cast_entry (map (\<lambda>(role, r). (role, route_json r)) c) = Inr c"
    using c(1) traverse_id [of c "\<lambda>(role, r). cast_entry (role, route_json r)" id]
    by (auto simp: traverse_map cast_ok_def cast_entry_def case_prod_unfold)
  with c(2) show ?thesis by (simp add: requireValidCast_def cast_json_def)
qed

text \<open>A created or rebuilt task carries only routing that the store's own validation returns unchanged.\<close>

definition store_accepts :: "flow option \<Rightarrow> cast option \<Rightarrow> checkout_route option \<Rightarrow> bool" where
  "store_accepts flow cast checkout \<longleftrightarrow>
     requireValidFlow (map_option (\<lambda>f. JStr (flow_name f)) flow) = Inr flow \<and>
     requireValidCast (map_option cast_json cast) = Inr cast \<and>
     requireValidCheckout (map_option checkout_json checkout) = Inr checkout"

lemma store_acceptsI:
  assumes "parse_casts raws = Inr cast" "parseCheckoutSpec env raw pv rv = Inr checkout"
  shows "store_accepts flow cast checkout"
proof -
  have "requireValidCast (map_option cast_json cast) = Inr cast"
    using parse_casts_ok cast_ok_accepted assms(1) by (cases cast) (auto simp: requireValidCast_def)
  then show ?thesis
    using parseCheckoutSpec_ok [OF assms(2)] by (simp add: store_accepts_def flow_name_valid)
qed

lemma repair_is_accepted:
  "parseRepairMeta env args = Inr (Cmd_repair_meta r) \<Longrightarrow> store_accepts (ra_flow r) (ra_cast r) (ra_checkout r)"
  by (auto simp: parseRepairMeta_def rbind_Inr_iff intro: store_acceptsI)

section \<open>Two lines that are accepted\<close>

text \<open>The kind a user asks for is compared with the spelling of the checkout only, and \<open>create\<close> does not count its
  positional arguments.\<close>

definition plain_line :: "string list" where
  "plain_line = [''--title=Fix'', ''--description=d'', ''--creator=a'', ''--role=executor'']"

lemma kind_conflict_slips_through:
  "\<exists>c. parseArgs env (''create'' # plain_line @ [''--checkout-kind=worktree'', ''--checkout= current'']) = Cmd_create c \<and>
     cr_checkout c = Some Current"
proof -
  have "tokenize (plain_line @ [''--checkout-kind=worktree'', ''--checkout= current'']) CREATE_FLAGS =
      Inr (no_tokens\<lparr>flags := [(''title'', ''Fix''), (''description'', ''d''), (''creator'', ''a''), (''role'', ''executor''),
        (''checkout-kind'', ''worktree''), (''checkout'', '' current'')]\<rparr>)"
    by (simp add: plain_line_def tokenize_def no_tokens_def CREATE_FLAGS_def only_def flag_parts_def starts_with_def present_def put_value_def)
  moreover have "parseCheckoutSpec env (Some '' current'') None None = Inr (Some Current)"
    by (simp add: parseCheckoutSpec_def draft_checkout_def trim_ascii_def is_space_def merge_checkout_def)
  ultimately show ?thesis
    by (simp add: parseArgs_def dispatch_def parseCreate_def no_tokens_def requireStr_def strFlag_def strFlags_def
        parse_flow_def parse_casts_def either_flag_def kind_spec_def either_part_def usage_or_def)
qed

lemma create_ignores_positionals:
  "\<exists>c. parseArgs env (''create'' # plain_line @ [''the'', ''bug'']) = Cmd_create c \<and> cr_title c = ''Fix''"
proof -
  have "tokenize (plain_line @ [''the'', ''bug'']) CREATE_FLAGS =
      Inr (no_tokens\<lparr>flags := [(''title'', ''Fix''), (''description'', ''d''), (''creator'', ''a''), (''role'', ''executor'')],
        positionals := [''the'', ''bug'']\<rparr>)"
    by (simp add: plain_line_def tokenize_def no_tokens_def CREATE_FLAGS_def only_def flag_parts_def starts_with_def present_def put_value_def)
  then show ?thesis
    by (simp add: parseArgs_def dispatch_def parseCreate_def no_tokens_def requireStr_def strFlag_def strFlags_def
        parse_flow_def parse_casts_def either_flag_def kind_spec_def either_part_def parseCheckoutSpec_def usage_or_def)
qed

section \<open>Properties\<close>

text \<open>C29. The tokenizer accepts exactly the lines of its grammar: flags in either spelling, switches and positional
  arguments, each legal for the command and no flag twice unless it is repeatable.  What it returns is what the
  line says: every value of every flag in input order, the switches and the positional arguments.\<close>

theorem command_line_grammar:
  assumes "spec_ok spec"
  shows "(tokenize args spec = Inr t \<longleftrightarrow>
     (\<exists>items. valid_line spec items \<and> args = concat (map spell items) \<and> t = foldl add_item no_tokens items)) \<and>
    strFlags (foldl add_item no_tokens items) m = flag_values m items \<and>
    bools (foldl add_item no_tokens items) = line_switches items \<and>
    positionals (foldl add_item no_tokens items) = line_args items"
proof (intro conjI iffI)
  have e: "repeats_known no_tokens" "strFlags no_tokens m = []" "bools no_tokens = []" "positionals no_tokens = []"
    "\<not> present no_tokens n" for n
    by (simp_all add: repeats_known_def no_tokens_def strFlags_def present_def)
  show "strFlags (foldl add_item no_tokens items) m = flag_values m items"
    "bools (foldl add_item no_tokens items) = line_switches items"
    "positionals (foldl add_item no_tokens items) = line_args items"
    using line_tokens [OF e(1), of items m] by (simp_all add: e)
  show "\<exists>items. valid_line spec items \<and> args = concat (map spell items) \<and> t = foldl add_item no_tokens items"
    if "tokenize args spec = Inr t"
    using tokenize_reads_line [OF assms, of no_tokens args t] that by (auto simp: tokenize_def e)
  show "tokenize args spec = Inr t"
    if "\<exists>items. valid_line spec items \<and> args = concat (map spell items) \<and> t = foldl add_item no_tokens items"
    using that tokenize_spelled [OF assms, of no_tokens] by (auto simp: tokenize_def e)
qed

theorem command_line_grammar_witness:
  "spec_ok CREATE_FLAGS \<and> (\<exists>t. tokenize [''--title=Fix'', ''--cast'', ''executor=pi'', ''--cast=reviewer=codex''] CREATE_FLAGS = Inr t \<and>
     strFlags t ''cast'' = [''executor=pi'', ''reviewer=codex''])"
proof -
  let ?items = "[Flag ''title'' ''Fix'' True, Flag ''cast'' ''executor=pi'' False, Flag ''cast'' ''reviewer=codex'' True]"
  have s: "spec_ok CREATE_FLAGS"
    by (simp add: spec_ok_def CREATE_FLAGS_def only_def)
  have v: "valid_line CREATE_FLAGS ?items"
    by (simp add: valid_line_def single_names_def item_names_def item_ok_def CREATE_FLAGS_def only_def starts_with_def)
  have a: "[''--title=Fix'', ''--cast'', ''executor=pi'', ''--cast=reviewer=codex''] = concat (map spell ?items)"
    by (simp add: spell_def)
  have "flag_values ''cast'' ?items = [''executor=pi'', ''reviewer=codex'']"
    by (simp add: flag_values_def map_filter_simps)
  then have f: "strFlags (foldl add_item no_tokens ?items) ''cast'' = [''executor=pi'', ''reviewer=codex'']"
    using command_line_grammar [OF s, of "[]" no_tokens ?items "''cast''"] by metis
  have "tokenize (concat (map spell ?items)) CREATE_FLAGS = Inr (foldl add_item no_tokens ?items)"
    by (rule iffD2 [OF command_line_grammar [OF s, THEN conjunct1]]) (intro exI conjI, rule v, rule HOL.refl, rule HOL.refl)
  with s f show ?thesis unfolding a by (intro conjI exI)
qed

text \<open>C30. Everything about routing that \<open>tut create\<close> sends passes the store's own validation unchanged: the flow,
  the cast with every agent command and the checkout, which is the current one or a worktree with a path; and no
  required field is empty.\<close>

theorem created_routing_is_accepted:
  assumes "parseArgs env (''create'' # args) = Cmd_create c"
  shows "store_accepts (cr_flow c) (cr_cast c) (cr_checkout c) \<and>
    cr_title c \<noteq> [] \<and> cr_description c \<noteq> [] \<and> cr_creator c \<noteq> [] \<and> cr_role c \<noteq> []"
proof -
  have "parseCreate env args = Inr (Cmd_create c)"
    using assms by (simp add: parseArgs_def dispatch_def usage_or_def split: sum.splits)
  moreover have "requireStr t n = Inr v \<Longrightarrow> v \<noteq> []" for t n v
    by (auto simp: requireStr_def split: option.splits if_splits)
  ultimately show ?thesis
    by (auto simp: parseCreate_def rbind_Inr_iff intro: store_acceptsI)
qed

lemma sample_line:
  "tokenize [''--title=Fix'', ''--description=d'', ''--creator=a'', ''--role=architect'', ''--cast=executor=pi'',
     ''--checkout'', ''worktree:/w''] CREATE_FLAGS = Inr (no_tokens\<lparr>flags := [(''title'', ''Fix''), (''description'', ''d''),
     (''creator'', ''a''), (''role'', ''architect''), (''cast'', ''executor=pi''), (''checkout'', ''worktree:/w'')]\<rparr>)"
  by (simp add: tokenize_def no_tokens_def CREATE_FLAGS_def only_def flag_parts_def starts_with_def present_def put_value_def)

lemma sample_cast: "parse_casts [''executor=pi''] = Inr (Some [(''executor'', Bare ''pi'')])"
proof -
  have "parseAgentRoute ''pi'' = Inr (Bare ''pi'')"
    by (rule parse_single) (simp add: SHELL_NEUTRAL_TOKEN_def neutral_char_def)
  then show ?thesis
    by (simp add: parse_casts_def parseCastPairs_def splitCastEntries_def trim_ascii_def is_space_def
        parse_cast_pair_def CAST_ROLES_def Artifacts.CAST_ROLES_def assign_all_def)
qed

lemma sample_checkout: "parseCheckoutSpec env (Some ''worktree:/w'') None None = Inr (Some (Worktree ''/w'' None))"
  by (simp add: parseCheckoutSpec_def draft_checkout_def trim_ascii_def is_space_def starts_with_def merge_checkout_def
      either_part_def checkoutPart_def blank_def has_control_def)

theorem created_routing_is_accepted_witness:
  "\<forall>env. \<exists>c. parseArgs env [''create'', ''--title=Fix'', ''--description=d'', ''--creator=a'', ''--role=architect'',
      ''--cast=executor=pi'', ''--checkout'', ''worktree:/w''] = Cmd_create c \<and>
     cr_checkout c = Some (Worktree ''/w'' None) \<and> store_accepts (cr_flow c) (cr_cast c) (cr_checkout c)"
proof
  fix env
  obtain c where c: "parseArgs env (''create'' # [''--title=Fix'', ''--description=d'', ''--creator=a'', ''--role=architect'',
      ''--cast=executor=pi'', ''--checkout'', ''worktree:/w'']) = Cmd_create c" and k: "cr_checkout c = Some (Worktree ''/w'' None)"
    by (simp add: parseArgs_def dispatch_def parseCreate_def sample_line no_tokens_def requireStr_def strFlag_def strFlags_def
        parse_flow_def sample_cast either_flag_def kind_spec_def either_part_def sample_checkout usage_or_def)
  from created_routing_is_accepted [OF c] c k
  show "\<exists>c. parseArgs env [''create'', ''--title=Fix'', ''--description=d'', ''--creator=a'', ''--role=architect'',
      ''--cast=executor=pi'', ''--checkout'', ''worktree:/w''] = Cmd_create c \<and>
     cr_checkout c = Some (Worktree ''/w'' None) \<and> store_accepts (cr_flow c) (cr_cast c) (cr_checkout c)" by blast
qed

end
