(* ===== verification/Polling.thy ===== *)
theory Polling
  imports Json "HOL-Library.State_Monad"
begin

text \<open>
  Code between awaits, and the polling loop the pane launcher is built on: \<open>deliveryStatusWindow\<close> of
  \<open>src/herdr/launcher/delivery.ts\<close>.  The code is written in the state monad of the library; \<open>wp\<close> is the weakest
  precondition of a step.

  The interface \<open>poller\<close> is what the loop relies on: a clock that does not run backwards, a stop signal that costs no
  time, and a timer that does not fire early.  Under these laws the loop returns once its fuel covers the time that is
  left; the clients (\<open>Delivery\<close>, \<open>Remediator\<close>) interpret it on their own clocks.
\<close>

section \<open>Steps\<close>

definition gets :: "('s \<Rightarrow> 'a) \<Rightarrow> ('s, 'a) state" where
  "gets f = State (\<lambda>s. (f s, s))"

definition modify :: "('s \<Rightarrow> 's) \<Rightarrow> ('s, unit) state" where
  "modify f = State (\<lambda>s. ((), f s))"

text \<open>
  \<open>deliveryStatusWindow\<close> with the body of the \<open>for await\<close> loop over it: the body ends the loop with \<open>Inl\<close> or goes on with
  \<open>Inr\<close>.  The result is \<open>None\<close> when the fuel is used up.
\<close>

fun status_window ::
    "nat \<Rightarrow> ('s, bool) state \<Rightarrow> ('s, rat) state \<Rightarrow> (rat \<Rightarrow> ('s, unit) state) \<Rightarrow> rat \<Rightarrow> rat \<Rightarrow> ('s, 'x) state \<Rightarrow>
     ('x \<Rightarrow> 'c \<Rightarrow> ('s, 'r + 'c) state) \<Rightarrow> 'c \<Rightarrow> ('s, ('r + 'c) option) state" where
  "status_window 0 stop clock sleep deadline poll read body c = State_Monad.return None"
| "status_window (Suc n) stop clock sleep deadline poll read body c = do {
     a \<leftarrow> stop;
     if a then State_Monad.return (Some (Inr c))
     else do {
       t \<leftarrow> clock;
       if deadline \<le> t then State_Monad.return (Some (Inr c))
       else do {
         x \<leftarrow> read;
         r \<leftarrow> body x c;
         (case r of
            Inl e \<Rightarrow> State_Monad.return (Some (Inl e))
          | Inr c' \<Rightarrow> do {
              t' \<leftarrow> clock;
              a' \<leftarrow> stop;
              if deadline \<le> t' \<or> a' then State_Monad.return (Some (Inr c'))
              else do {
                sleep (min poll (deadline - t'));
                status_window n stop clock sleep deadline poll read body c'
              }
            })
       }
     }
   }"

section \<open>Weakest preconditions\<close>

definition wp :: "('s, 'a) state \<Rightarrow> ('a \<Rightarrow> 's \<Rightarrow> bool) \<Rightarrow> 's \<Rightarrow> bool" where
  "wp m Q s = (case run_state m s of (a, s') \<Rightarrow> Q a s')"

lemma wp_basic [simp]:
  "wp (State_Monad.return x) Q s = Q x s"
  "wp (State_Monad.bind m f) P s = wp m (\<lambda>a. wp (f a) P) s"
  "wp (gets g) R s = R (g s) s"
  "wp (modify h) U s = U () (h s)"
  by (simp_all add: wp_def gets_def modify_def split: prod.split)

lemma wp_if: "wp (if b then m else m') Q s = (if b then wp m Q s else wp m' Q s)"
  by simp

lemma wp_mono: "wp m P s \<Longrightarrow> (\<And>a s'. P a s' \<Longrightarrow> Q a s') \<Longrightarrow> wp m Q s"
  by (simp add: wp_def split: prod.splits)

lemma wp_run: "wp m Q s \<Longrightarrow> run_state m s = (a, s') \<Longrightarrow> Q a s'"
  by (simp add: wp_def)

text \<open>The polling loop: the invariant is indexed by the iterations that are left.\<close>

lemma wp_window:
  assumes stop: "\<And>n c s. I n c s \<Longrightarrow> wp stop (\<lambda>_. I n c) s"
    and clock: "\<And>n c s. I n c s \<Longrightarrow> wp clock (\<lambda>_. I n c) s"
    and sleep: "\<And>n c s ms. I n c s \<Longrightarrow> wp (sleep ms) (\<lambda>_. I n c) s"
    and body: "\<And>n c s. I (Suc n) c s \<Longrightarrow>
      wp read (\<lambda>x. wp (body x c) (\<lambda>r s'. case r of Inl e \<Rightarrow> Q e s' | Inr c' \<Rightarrow> I n c' s')) s"
    and weaken: "\<And>n c s. I (Suc n) c s \<Longrightarrow> I n c s"
    and start: "I n c s"
  shows "wp (status_window n stop clock sleep deadline poll read body c)
    (\<lambda>r s'. case r of None \<Rightarrow> True | Some (Inl e) \<Rightarrow> Q e s' | Some (Inr c') \<Rightarrow> I 0 c' s') s"
  using start
proof (induction n arbitrary: c s)
  case 0
  then show ?case by simp
next
  case (Suc n)
  have zero: "I k c s \<Longrightarrow> I 0 c s" for k c s
    by (induction k) (auto dest: weaken)
  let ?R = "\<lambda>r s'. case r of None \<Rightarrow> True | Some (Inl e) \<Rightarrow> Q e s' | Some (Inr c') \<Rightarrow> I 0 c' s'"
  let ?again = "\<lambda>c'. do { t' \<leftarrow> clock; a' \<leftarrow> stop;
      if deadline \<le> t' \<or> a' then State_Monad.return (Some (Inr c'))
      else do { sleep (min poll (deadline - t')); status_window n stop clock sleep deadline poll read body c' } }"
  let ?rest = "\<lambda>r. case r of Inl e \<Rightarrow> State_Monad.return (Some (Inl e)) | Inr c' \<Rightarrow> ?again c'"
  have again: "wp (?again c') ?R s'" if i: "I n c' s'" for c' s'
  proof -
    have "wp (if b then State_Monad.return (Some (Inr c'))
        else do { sleep ms; status_window n stop clock sleep deadline poll read body c' }) ?R s2" if i: "I n c' s2" for b ms s2
      using zero [OF i] by (simp add: wp_if wp_mono [OF sleep [OF i] Suc.IH])
    then show ?thesis
      unfolding wp_basic by (intro wp_mono [OF clock [OF i]] wp_mono [OF stop])
  qed
  have rest: "wp (?rest r) ?R s'" if "case r of Inl e \<Rightarrow> Q e s' | Inr c' \<Rightarrow> I n c' s'" for r s'
    using that again by (cases r) simp_all
  have turn: "wp (do { x \<leftarrow> read; r \<leftarrow> body x c; ?rest r }) ?R s'" if "I (Suc n) c s'" for s'
    unfolding wp_basic by (rule wp_mono [OF body [OF that]], rule wp_mono, assumption, rule rest)
  have inner: "wp (do { t \<leftarrow> clock; if deadline \<le> t then State_Monad.return (Some (Inr c))
      else do { x \<leftarrow> read; r \<leftarrow> body x c; ?rest r } }) ?R s'" if i: "I (Suc n) c s'" for s'
    unfolding wp_basic wp_if by (rule wp_mono [OF clock [OF i]]) (simp add: zero turn [unfolded wp_basic])
  show ?case
    unfolding status_window.simps wp_basic wp_if
    by (rule wp_mono [OF stop [OF Suc.prems]]) (simp add: zero inner [unfolded wp_basic wp_if])
qed

section \<open>Time\<close>

text \<open>A step that keeps the clock sound and does not turn it back; a phase that ends with an outcome from a time on.\<close>

definition passes :: "('s \<Rightarrow> bool) \<Rightarrow> ('s \<Rightarrow> rat) \<Rightarrow> ('s, 'a) state \<Rightarrow> bool" where
  "passes good time m \<longleftrightarrow> (\<forall>s. good s \<longrightarrow> wp m (\<lambda>_ s'. good s' \<and> time s \<le> time s') s)"

definition ends_from :: "('s \<Rightarrow> bool) \<Rightarrow> ('s \<Rightarrow> rat) \<Rightarrow> ('a \<Rightarrow> bool) \<Rightarrow> rat \<Rightarrow> ('s, 'a) state \<Rightarrow> bool" where
  "ends_from good time ok T m \<longleftrightarrow> (\<forall>s. good s \<and> T \<le> time s \<longrightarrow> wp m (\<lambda>r _. ok r) s)"

named_theorems keeping "steps that only let time pass"
named_theorems ending "phases that end with an outcome"

lemma passesD: "passes good time m \<Longrightarrow> good s \<Longrightarrow> wp m (\<lambda>_ s'. good s' \<and> time s \<le> time s') s"
  by (simp add: passes_def)

lemma wp_conj: "wp m P s \<Longrightarrow> wp m Q s \<Longrightarrow> wp m (\<lambda>a s'. P a s' \<and> Q a s') s"
  by (simp add: wp_def split: prod.splits)

lemma passes_bind [keeping]:
  assumes "passes good time m" "\<And>x. passes good time (f x)"
  shows "passes good time (State_Monad.bind m f)"
  unfolding passes_def wp_basic
proof (intro allI impI, rule wp_mono [OF passesD [OF assms(1)]], assumption)
  fix s x s'
  assume "good s' \<and> time s \<le> time s'"
  then show "wp (f x) (\<lambda>_ s'. good s' \<and> time s \<le> time s') s'"
    by (intro wp_mono [OF passesD [OF assms(2)]]) auto
qed

lemma passes_basic [keeping]: "passes good time (State_Monad.return x)" "passes good time (gets g)"
  by (simp_all add: passes_def)

lemma passes_if [keeping]: "(b \<Longrightarrow> passes good time m) \<Longrightarrow> (\<not> b \<Longrightarrow> passes good time m') \<Longrightarrow> passes good time (if b then m else m')"
  by simp

lemma passes_option [keeping]:
  "(\<And>x. v = Some x \<Longrightarrow> passes good time (f x)) \<Longrightarrow> passes good time m \<Longrightarrow> passes good time (case v of None \<Rightarrow> m | Some x \<Rightarrow> f x)"
  by (cases v) simp_all

lemma passes_sum [keeping]:
  "(\<And>x. v = Inl x \<Longrightarrow> passes good time (f x)) \<Longrightarrow> (\<And>y. v = Inr y \<Longrightarrow> passes good time (g y)) \<Longrightarrow>
     passes good time (case v of Inl x \<Rightarrow> f x | Inr y \<Rightarrow> g y)"
  by (cases v) simp_all

lemma ends_bind [ending]:
  assumes "passes good time m" "\<And>x. ends_from good time ok T (f x)"
  shows "ends_from good time ok T (State_Monad.bind m f)"
  unfolding ends_from_def wp_basic
proof (intro allI impI, elim conjE, rule wp_mono [OF passesD [OF assms(1)]], assumption)
  fix s x s'
  assume "T \<le> time s" "good s' \<and> time s \<le> time s'"
  then show "wp (f x) (\<lambda>r _. ok r) s'"
    using assms(2) [of x] unfolding ends_from_def by (meson order_trans)
qed

lemma ends_return [ending]: "ok x \<Longrightarrow> ends_from good time ok T (State_Monad.return x)"
  by (simp add: ends_from_def)

lemma ends_if [ending]:
  "ends_from good time ok T m \<Longrightarrow> ends_from good time ok T m' \<Longrightarrow> ends_from good time ok T (if b then m else m')"
  by simp

lemma ends_option [ending]:
  "(\<And>x. ends_from good time ok T (f x)) \<Longrightarrow> ends_from good time ok T m \<Longrightarrow> ends_from good time ok T (case v of None \<Rightarrow> m | Some x \<Rightarrow> f x)"
  by (cases v) simp_all

section \<open>The interface of a poller\<close>

locale poller =
  fixes clock :: "('s, rat) state"
    and stop :: "('s, bool) state"
    and sleep :: "rat \<Rightarrow> ('s, unit) state"
    and good :: "'s \<Rightarrow> bool"
    and time :: "'s \<Rightarrow> rat"
  assumes clock_reads: "good s \<Longrightarrow> wp clock (\<lambda>t s'. good s' \<and> time s \<le> t \<and> t \<le> time s') s"
    and stop_passes: "passes good time stop"
    and sleep_waits: "good s \<Longrightarrow> wp (sleep ms) (\<lambda>_ s'. good s' \<and> time s \<le> time s' \<and> time s + ms \<le> time s') s"
begin

lemma clock_passes: "passes good time clock"
  unfolding passes_def by (intro allI impI, rule wp_mono [OF clock_reads]) auto

lemma sleep_passes: "passes good time (sleep ms)"
  unfolding passes_def by (intro allI impI, rule wp_mono [OF sleep_waits]) auto

lemma ends_clock:
  assumes "\<And>t. ends_from good time ok t (f t)"
  shows "ends_from good time ok T (State_Monad.bind clock f)"
  unfolding ends_from_def wp_basic
proof (intro allI impI, elim conjE, rule wp_mono [OF clock_reads], assumption)
  fix s t s'
  assume "good s' \<and> time s \<le> t \<and> t \<le> time s'"
  then show "wp (f t) (\<lambda>r _. ok r) s'"
    using assms [of t] by (simp add: ends_from_def)
qed

text \<open>The test at the head of a round, and the pause at its end.\<close>

lemma head_of_round:
  assumes "good s" and go: "\<And>s'. good s' \<Longrightarrow> time s \<le> time s' \<Longrightarrow> time s < deadline \<Longrightarrow> wp m Q s'"
    and exit: "\<And>s'. good s' \<Longrightarrow> time s \<le> time s' \<Longrightarrow> Q x s'"
  shows "wp (do { a \<leftarrow> stop; if a then State_Monad.return x
      else do { t \<leftarrow> clock; if deadline \<le> t then State_Monad.return x else m } }) Q s"
  unfolding wp_basic wp_if
proof (rule wp_mono [OF passesD [OF stop_passes assms(1)]])
  fix a s1
  assume s1: "good s1 \<and> time s \<le> time s1"
  have "wp clock (\<lambda>t. if deadline \<le> t then Q x else wp m Q) s1"
    by (rule wp_mono [OF clock_reads]) (use s1 go exit in auto)
  then show "if a then Q x s1 else wp clock (\<lambda>t s'. if deadline \<le> t then Q x s' else wp m Q s') s1"
    using s1 exit by (auto elim: wp_mono)
qed

lemma end_of_round:
  assumes "good s"
    and go: "\<And>s'. good s' \<Longrightarrow> time s \<le> time s' \<Longrightarrow> deadline \<le> time s' \<or> time s + poll \<le> time s' \<Longrightarrow> wp m Q s'"
    and exit: "\<And>s'. good s' \<Longrightarrow> time s \<le> time s' \<Longrightarrow> Q x s'"
  shows "wp (do { t \<leftarrow> clock; a \<leftarrow> stop; if deadline \<le> t \<or> a then State_Monad.return x
      else do { sleep (min poll (deadline - t)); m } }) Q s"
  unfolding wp_basic wp_if
proof (rule wp_mono [OF clock_reads [OF assms(1)]])
  fix t s1
  assume s1: "good s1 \<and> time s \<le> t \<and> t \<le> time s1"
  have stop: "wp stop (\<lambda>_ s2. good s2 \<and> t \<le> time s2) s1"
    by (rule wp_mono [OF passesD [OF stop_passes]]) (use s1 in auto)
  have pause: "wp (sleep (min poll (deadline - t))) (\<lambda>_. wp m Q) s2" if s2: "good s2" "t \<le> time s2" for s2
    by (rule wp_mono [OF sleep_waits [OF s2(1)]], rule go) (use s1 s2 in \<open>auto simp: min_def split: if_splits\<close>)
  show "wp stop (\<lambda>a s'. if deadline \<le> t \<or> a then Q x s' else wp (sleep (min poll (deadline - t))) (\<lambda>_. wp m Q) s') s1"
    by (rule wp_mono [OF stop]) (use s1 pause exit in auto)
qed

lemma window_passes:
  assumes "passes good time read" "\<And>x c. passes good time (body x c)"
  shows "passes good time (status_window n stop clock sleep deadline poll read body c)"
proof (induction n arbitrary: c)
  case (Suc n)
  show ?case
    unfolding status_window.simps
    by (intro passes_bind passes_if passes_sum passes_basic stop_passes clock_passes sleep_passes assms Suc.IH)
qed (simp add: passes_basic)

lemma window_returns:
  assumes poll: "0 \<le> poll" and read: "passes good time read" and body: "\<And>x c. passes good time (body x c)"
    and "good s" "deadline \<le> time s + of_nat n * poll"
  shows "wp (status_window (Suc n) stop clock sleep deadline poll read body c)
    (\<lambda>r s'. r \<noteq> None \<and> good s' \<and> time s \<le> time s') s"
  using assms(4,5)
proof (induction n arbitrary: s c)
  case 0
  then show ?case
    by (subst status_window.simps) (rule head_of_round, simp_all)
next
  case (Suc n)
  let ?loop = "\<lambda>c. status_window (Suc n) stop clock sleep deadline poll read body c"
  let ?Q = "\<lambda>r s'. r \<noteq> None \<and> good s' \<and> time s \<le> time s'"
  let ?again = "\<lambda>c'. do { t' \<leftarrow> clock; a' \<leftarrow> stop;
      if deadline \<le> t' \<or> a' then State_Monad.return (Some (Inr c'))
      else do { sleep (min poll (deadline - t')); ?loop c' } }"
  have again: "wp (?again c') ?Q s1" if s1: "good s1" "time s \<le> time s1" for c' s1
  proof (rule end_of_round [OF s1(1)])
    fix s2
    assume s2: "good s2" "time s1 \<le> time s2" "deadline \<le> time s2 \<or> time s1 + poll \<le> time s2"
    have "0 \<le> of_nat n * poll" using poll by simp
    then have "deadline \<le> time s2 + of_nat n * poll"
      using s2(3) Suc.prems(2) s1(2) by (auto simp: algebra_simps)
    then show "wp (?loop c') ?Q s2"
      by (intro wp_mono [OF Suc.IH [OF s2(1)]]) (use s1 s2 in auto)
  qed (use s1 in auto)
  have turn: "wp (do { x \<leftarrow> read; r \<leftarrow> body x c;
      (case r of Inl e \<Rightarrow> State_Monad.return (Some (Inl e)) | Inr c' \<Rightarrow> ?again c') }) ?Q s1"
    if s1: "good s1" "time s \<le> time s1" for s1
    unfolding wp_basic
  proof (rule wp_mono [OF passesD [OF read s1(1)]], rule wp_mono [OF passesD [OF body]])
    fix x s2 r s3
    assume s2: "good s2 \<and> time s1 \<le> time s2"
    then show "good s2" ..
    assume "good s3 \<and> time s2 \<le> time s3"
    with s1(2) s2 show "wp (case r of Inl e \<Rightarrow> State_Monad.return (Some (Inl e)) | Inr c' \<Rightarrow> ?again c') ?Q s3"
      using again [of s3] by (cases r) auto
  qed
  show ?case
    by (subst status_window.simps) (rule head_of_round [OF Suc.prems(1)], use turn in auto)
qed

text \<open>With a poll of at least one unit, one more round than the units that are left is enough.\<close>

lemma window_fuel:
  assumes "1 \<le> poll" "b < n" "good s" "deadline \<le> time s + of_nat b"
    "passes good time read" "\<And>x c. passes good time (body x c)"
  shows "wp (status_window n stop clock sleep deadline (of_nat poll) read body c)
    (\<lambda>r s'. r \<noteq> None \<and> good s' \<and> time s \<le> time s') s"
proof -
  obtain m where n: "n = Suc m" "b \<le> m" using assms(2) by (cases n) auto
  have "(of_nat b :: rat) \<le> of_nat (m * poll)"
    using n(2) assms(1) by (simp only: of_nat_le_iff) (metis le_trans mult.right_neutral mult_le_mono2)
  then have "deadline \<le> time s + of_nat m * of_nat poll"
    using assms(4) by simp
  then show ?thesis
    unfolding n(1) by (intro window_returns) (use assms in auto)
qed

end

end
