(* ===== verification/Delivery.thy ===== *)
theory Delivery
  imports Config Task_Spec Polling
begin

text \<open>
  The delivery of one prompt to an agent's pane, \<open>src/herdr/launcher/delivery.ts\<close> (\<open>createDelivery\<close>), over the client
  contract of \<open>herdr-client-v2.ts\<close>: wait for a usable baseline status, send the text once, let the composer settle, send
  Enter once, and watch for the status to flip.  Nothing observed proves that the agent consumed the prompt, so every
  attempt ends either as \<open>not-sent\<close> or as \<open>unconfirmed\<close> with one block of evidence, which \<open>escalation.ts\<close> validates again
  where it is received.

  The code is straight-line with early returns, between awaits of the client and of timers; it is written in the state
  monad of the library.  The surroundings are a record: the clock by the number of its readings (the time slept in timers
  comes on top), how long a timer really takes, the abort signal and the answers of the client by the number of awaits
  before them (\<open>None\<close> where the call throws).  Times are rationals (the rounding of \<open>performance.now()\<close> differences is
  not modelled).  The polling loop takes fuel; \<open>delivery_terminates\<close> shows
  how much is enough when timers do not fire early.
\<close>

section \<open>Vocabulary of the client contract\<close>

datatype agent_status = S_idle | S_working | S_blocked | S_done | S_unknown

datatype transport_fault =
    INVALID_ARGUMENT | NOT_STARTED | SPAWN_FAILED | EXIT_ERROR | SIGNAL | TIMEOUT | ABORTED | INVALID_ACK | INTERNAL

datatype read_fault =
    Transport transport_fault
  | INVALID_JSON | INVALID_SHAPE | PANE_MISSING | PANE_DUPLICATE | IDENTITY_CHANGED
  | STATUS_MISSING | STATUS_INVALID | LATE_RESULT | WRONG_SEQUENCE

datatype give_up_reason =
    R_text_uncertain | R_enter_not_sent | R_enter_uncertain | R_identity_invalid | R_baseline_working
  | R_baseline_unknown | R_attribution_unavailable | R_status_unavailable | R_deadline | R_cancelled

record agent_session =
  as_agent :: string
  as_kind :: string
  as_value :: string

record pane_identity =
  pi_pane :: string
  pi_terminal :: "string option"
  pi_workspace :: "string option"
  pi_session :: "agent_session option"

record call_context =
  cc_attempt :: string
  cc_sequence :: nat
  cc_deadline :: rat

datatype send_kind = Sent | Not_sent | Uncertain

record send_result =
  sd_kind :: send_kind
  sd_attempt :: string
  sd_sequence :: nat
  sd_finished :: rat
  sd_fault :: "transport_fault option"

record status_sample =
  sp_attempt :: string
  sp_sequence :: nat
  sp_started :: rat
  sp_finished :: rat
  sp_status :: agent_status
  sp_identity :: "pane_identity option"
  sp_error :: "read_fault option"

section \<open>Limits\<close>

record knobs =
  kn_ready :: nat
  kn_flip :: nat
  kn_poll :: nat
  kn_call :: nat

definition BASELINE_READINESS_MS :: nat where "BASELINE_READINESS_MS = 90000"

text \<open>A limit of the environment, or its default with a warning when the text is not an integer in range.\<close>

definition knob :: "(string \<Rightarrow> string option) \<Rightarrow> string \<Rightarrow> nat \<Rightarrow> nat \<Rightarrow> nat \<times> string list" where
  "knob env key fallback limit =
     (case env key of
        None \<Rightarrow> (fallback, [])
      | Some raw \<Rightarrow>
          if raw \<noteq> [] \<and> list_all is_digit raw \<and> 1 \<le> read_nat raw \<and> read_nat raw \<le> limit then (read_nat raw, [])
          else (fallback, [key]))"

definition parseDeliveryKnobs :: "(string \<Rightarrow> string option) \<Rightarrow> knobs \<times> string list" where
  "parseDeliveryKnobs env =
     (let (flip, w1) = knob env ''TUT_STATUS_FLIP_TIMEOUT_MS'' 30000 60000;
          (ready, w2) = knob env ''TUT_BASELINE_READY_TIMEOUT_MS'' BASELINE_READINESS_MS (2 ^ 53 - 1);
          (poll, w3) = knob env ''TUT_STATUS_POLL_MS'' (min 250 flip) flip;
          (call, w4) = knob env ''TUT_HERDR_TIMEOUT_MS'' 10000 (2 ^ 53 - 1)
      in (\<lparr>kn_ready = ready, kn_flip = flip, kn_poll = poll, kn_call = min call 10000\<rparr>, w1 @ w2 @ w3 @ w4))"

definition knobs_ok :: "knobs \<Rightarrow> bool" where
  "knobs_ok k \<longleftrightarrow> 1 \<le> kn_ready k \<and> 1 \<le> kn_flip k \<and> kn_flip k \<le> 60000 \<and> 1 \<le> kn_poll k \<and> kn_poll k \<le> kn_flip k \<and>
     1 \<le> kn_call k \<and> kn_call k \<le> 10000"

section \<open>The attempt\<close>

datatype branch = Born | Continuation

record delivery_input =
  di_target :: pane_identity
  di_prompt :: utext
  di_branch :: branch
  di_agent :: "string option"

record evidence =
  ev_target :: "(pane_identity \<times> string \<times> nat) option"
  ev_wait :: "(rat \<times> rat) option"
  ev_attempt :: string
  ev_pane :: string
  ev_reason :: give_up_reason
  ev_before :: agent_status
  ev_last :: agent_status
  ev_error :: "read_fault option"
  ev_flip :: bool
  ev_text :: send_kind
  ev_text_error :: "transport_fault option"
  ev_enter :: "send_kind option"
  ev_enter_error :: "transport_fault option"
  ev_text_calls :: nat
  ev_budget :: nat
  ev_elapsed :: "rat option"
  ev_total :: rat
  ev_sequence :: "nat option"

text \<open>The two outcomes; \<open>exitCode\<close> and \<open>retry\<close> are determined by the kind.\<close>

datatype not_sent_reason = Text_not_sent | Budget_unavailable

datatype outcome =
    Not_delivered not_sent_reason
  | Unconfirmed give_up_reason send_kind "send_kind option"

text \<open>What an attempt does: calls of the client, diagnostic lines, and the give-up with its escalation.\<close>

datatype wait_action = A_not_sent | A_deadline | A_fallback

datatype action =
    Read_status call_context
  | Send_text utext call_context
  | Send_enter call_context
  | Log_sample status_sample
  | Log_wait_start agent_status rat
  | Log_ready agent_status
  | Log_exhausted agent_status wait_action "rat option"
  | Log_text send_kind "transport_fault option"
  | Log_enter send_kind "transport_fault option"
  | Log_settle rat
  | Log_working "nat option"
  | Log_give_up evidence
  | Warn_unconfirmed give_up_reason
  | Escalate string evidence

record attempt =
  at_ticks :: nat
  at_awaits :: nat
  at_slept :: rat
  at_sequence :: nat
  at_t0 :: "rat option"
  at_text :: send_kind
  at_text_calls :: nat
  at_wait_start :: "rat option"
  at_wait_budget :: rat
  at_wait_elapsed :: "rat option"
  at_enter :: "send_kind option"
  at_text_error :: "transport_fault option"
  at_enter_error :: "transport_fault option"
  at_target :: pane_identity
  at_baseline :: agent_status
  at_last :: agent_status
  at_status_error :: "read_fault option"
  at_last_sequence :: "nat option"
  at_flip :: bool
  at_out :: "action list"

definition fresh_attempt :: "pane_identity \<Rightarrow> attempt" where
  "fresh_attempt target = \<lparr>at_ticks = 0, at_awaits = 0, at_slept = 0, at_sequence = 0, at_t0 = None, at_text = Not_sent, at_text_calls = 0,
     at_wait_start = None, at_wait_budget = 0, at_wait_elapsed = None, at_enter = None, at_text_error = None,
     at_enter_error = None, at_target = target, at_baseline = S_unknown, at_last = S_unknown, at_status_error = None,
     at_last_sequence = None, at_flip = False, at_out = []\<rparr>"

record delivery_world =
  dw_now :: "nat \<Rightarrow> rat"
  dw_sleep :: "nat \<Rightarrow> rat \<Rightarrow> rat"
  dw_aborted :: "nat \<Rightarrow> bool"
  dw_read :: "nat \<Rightarrow> status_sample option"
  dw_text :: "nat \<Rightarrow> send_result option"
  dw_enter :: "nat \<Rightarrow> send_result option"
  dw_attempt :: string
  dw_digest :: "utext \<Rightarrow> string"

record delivery_options =
  op_evidence :: bool
  op_deadline :: "rat option"
  op_escalate :: bool

section \<open>Steps of the monad\<close>

definition now :: "delivery_world \<Rightarrow> (attempt, rat) state" where
  "now w = State (\<lambda>s. (dw_now w (at_ticks s) + at_slept s, s\<lparr>at_ticks := Suc (at_ticks s)\<rparr>))"

text \<open>The signal can only change while the code awaits something.\<close>

definition aborted :: "delivery_world \<Rightarrow> (attempt, bool) state" where
  "aborted w = gets (\<lambda>s. dw_aborted w (at_awaits s))"

definition await :: "(nat \<Rightarrow> 'a) \<Rightarrow> (attempt, 'a) state" where
  "await answer = State (\<lambda>s. (answer (at_awaits s), s\<lparr>at_awaits := Suc (at_awaits s)\<rparr>))"

definition emit :: "action \<Rightarrow> (attempt, unit) state" where
  "emit a = modify (\<lambda>s. s\<lparr>at_out := at_out s @ [a]\<rparr>)"

section \<open>Calls of the client\<close>

definition next_call :: "delivery_world \<Rightarrow> knobs \<Rightarrow> rat \<Rightarrow> (attempt, call_context) state" where
  "next_call w k deadline = do {
     modify (\<lambda>s. s\<lparr>at_sequence := Suc (at_sequence s)\<rparr>);
     n \<leftarrow> gets at_sequence;
     t \<leftarrow> now w;
     State_Monad.return \<lparr>cc_attempt = dw_attempt w, cc_sequence = n, cc_deadline = min deadline (t + of_nat (kn_call k))\<rparr>
   }"

definition stopped :: "delivery_world \<Rightarrow> rat \<Rightarrow> (attempt, bool) state" where
  "stopped w limit = do {
     a \<leftarrow> aborted w;
     if a then State_Monad.return True else do { t \<leftarrow> now w; State_Monad.return (limit \<le> t) }
   }"

text \<open>\<open>stopped() || totalDeadline - now() < 2 * knobs.callMs + knobs.flipMs + 4000\<close>.\<close>

definition budget_short :: "delivery_world \<Rightarrow> knobs \<Rightarrow> rat \<Rightarrow> (attempt, bool) state" where
  "budget_short w k limit = do {
     s \<leftarrow> stopped w limit;
     if s then State_Monad.return True
     else do { t \<leftarrow> now w; State_Monad.return (limit - t < of_nat (2 * kn_call k + kn_flip k + 4000)) }
   }"

text \<open>The late check: \<open>signal.aborted || now() >= ctx.deadlineMonoMs || finishedMonoMs >= ctx.deadlineMonoMs\<close>.\<close>

definition late :: "delivery_world \<Rightarrow> rat \<Rightarrow> rat \<Rightarrow> (attempt, bool) state" where
  "late w deadline finished = do {
     a \<leftarrow> aborted w;
     if a then State_Monad.return True
     else do { t \<leftarrow> now w; State_Monad.return (deadline \<le> t \<or> deadline \<le> finished) }
   }"

definition internal_result :: "delivery_world \<Rightarrow> call_context \<Rightarrow> (attempt, send_result) state" where
  "internal_result w ctx = do {
     started \<leftarrow> now w;
     finished \<leftarrow> now w;
     State_Monad.return \<lparr>sd_kind = Uncertain, sd_attempt = dw_attempt w, sd_sequence = cc_sequence ctx, sd_finished = finished,
       sd_fault = Some INTERNAL\<rparr>
   }"

text \<open>The answer of the transport, with every doubt turned into \<open>uncertain\<close>; only a proven \<open>not-sent\<close> stays one.\<close>

definition send :: "delivery_world \<Rightarrow> (nat \<Rightarrow> send_result option) \<Rightarrow> call_context \<Rightarrow> (attempt, send_result) state" where
  "send w answers ctx = do {
     answer \<leftarrow> await answers;
     r \<leftarrow> (case answer of Some r \<Rightarrow> State_Monad.return r | None \<Rightarrow> internal_result w ctx);
     let r = (if sd_attempt r \<noteq> dw_attempt w \<or> sd_sequence r \<noteq> cc_sequence ctx
              then r\<lparr>sd_kind := Uncertain, sd_fault := Some INTERNAL\<rparr> else r);
     if sd_kind r = Not_sent then State_Monad.return r
     else do {
       l \<leftarrow> late w (cc_deadline ctx) (sd_finished r);
       a \<leftarrow> aborted w;
       State_Monad.return (if l then r\<lparr>sd_kind := Uncertain, sd_fault := Some (if a then ABORTED else TIMEOUT)\<rparr> else r)
     }
   }"

text \<open>\<open>sent.kind === 'sent' ? null : sent.trace.fault ?? 'INTERNAL'\<close>.\<close>

definition fault_of :: "send_result \<Rightarrow> transport_fault option" where
  "fault_of r = (if sd_kind r = Sent then None else Some (case sd_fault r of Some f \<Rightarrow> f | None \<Rightarrow> INTERNAL))"

definition UNACCEPTED :: "read_fault list" where
  "UNACCEPTED = [LATE_RESULT, Transport ABORTED, WRONG_SEQUENCE]"

definition internal_sample :: "delivery_world \<Rightarrow> call_context \<Rightarrow> (attempt, status_sample) state" where
  "internal_sample w ctx = do {
     started \<leftarrow> now w;
     finished \<leftarrow> now w;
     State_Monad.return \<lparr>sp_attempt = cc_attempt ctx, sp_sequence = cc_sequence ctx, sp_started = started, sp_finished = finished,
       sp_status = S_unknown, sp_identity = None, sp_error = Some (Transport INTERNAL)\<rparr>
   }"

definition judge_sample :: "delivery_world \<Rightarrow> call_context \<Rightarrow> status_sample \<Rightarrow> (attempt, status_sample) state" where
  "judge_sample w ctx x = do {
     a \<leftarrow> aborted w;
     if a then State_Monad.return (x\<lparr>sp_status := S_unknown, sp_error := Some (Transport ABORTED)\<rparr>)
     else do {
       t \<leftarrow> now w;
       State_Monad.return
         (if cc_deadline ctx \<le> t \<or> cc_deadline ctx \<le> sp_finished x \<or> cc_deadline ctx \<le> sp_started x then
            x\<lparr>sp_status := S_unknown, sp_error := Some LATE_RESULT\<rparr>
          else if sp_attempt x \<noteq> dw_attempt w \<or> sp_sequence x \<noteq> cc_sequence ctx then
            x\<lparr>sp_status := S_unknown, sp_error := Some WRONG_SEQUENCE\<rparr>
          else x)
     }
   }"

text \<open>Late data never overwrites the last accepted observation.\<close>

definition accept_sample :: "call_context \<Rightarrow> status_sample \<Rightarrow> attempt \<Rightarrow> attempt" where
  "accept_sample ctx x s =
     (if (case sp_error x of Some e \<Rightarrow> e \<in> set UNACCEPTED | None \<Rightarrow> False) then s
      else s\<lparr>at_last := (if sp_error x = None then sp_status x else S_unknown), at_status_error := sp_error x,
             at_last_sequence := Some (cc_sequence ctx)\<rparr>)"

definition read_status :: "delivery_world \<Rightarrow> knobs \<Rightarrow> rat \<Rightarrow> (attempt \<Rightarrow> bool) \<Rightarrow> (attempt, status_sample) state" where
  "read_status w k deadline quiet = do {
     silent \<leftarrow> gets quiet;
     ctx \<leftarrow> next_call w k deadline;
     emit (Read_status ctx);
     answer \<leftarrow> await (dw_read w);
     x \<leftarrow> (case answer of Some x \<Rightarrow> State_Monad.return x | None \<Rightarrow> internal_sample w ctx);
     x \<leftarrow> judge_sample w ctx x;
     modify (accept_sample ctx x);
     (if silent then State_Monad.return () else emit (Log_sample x));
     State_Monad.return x
   }"

definition invalidIdentity :: "status_sample \<Rightarrow> bool" where
  "invalidIdentity x \<longleftrightarrow> (case sp_error x of Some e \<Rightarrow> e \<in> {PANE_MISSING, PANE_DUPLICATE, IDENTITY_CHANGED} | None \<Rightarrow> False)"

section \<open>Ending an attempt\<close>

text \<open>Text is a list of UTF-16 code units here, because the tail counts them.\<close>

definition prompt_tail :: "(utext \<Rightarrow> string) \<Rightarrow> utext \<Rightarrow> string \<times> nat" where
  "prompt_tail digest prompt =
     (let t = filter (\<lambda>c. \<not> ws c) prompt; t' = drop (length t - 80) t in (digest t', length t'))"

definition evidence_of ::
    "delivery_world \<Rightarrow> delivery_options \<Rightarrow> knobs \<Rightarrow> delivery_input \<Rightarrow> rat \<Rightarrow> give_up_reason \<Rightarrow> rat \<Rightarrow> attempt \<Rightarrow> evidence" where
  "evidence_of w o' k i start reason finished s =
     \<lparr>ev_target = (if op_evidence o' then Some (at_target s, prompt_tail (dw_digest w) (di_prompt i)) else None),
      ev_wait = map_option (\<lambda>ws. (at_wait_budget s,
        case at_wait_elapsed s of Some e \<Rightarrow> e | None \<Rightarrow> max 0 (finished - ws))) (at_wait_start s),
      ev_attempt = dw_attempt w, ev_pane = pi_pane (di_target i), ev_reason = reason,
      ev_before = at_baseline s, ev_last = at_last s, ev_error = at_status_error s, ev_flip = at_flip s,
      ev_text = at_text s, ev_text_error = at_text_error s, ev_enter = at_enter s, ev_enter_error = at_enter_error s,
      ev_text_calls = at_text_calls s, ev_budget = kn_flip k,
      ev_elapsed = (if at_enter s = None then None else map_option (\<lambda>t. max 0 (finished - t)) (at_t0 s)),
      ev_total = max 0 (finished - start), ev_sequence = at_last_sequence s\<rparr>"

definition give_up ::
    "delivery_world \<Rightarrow> delivery_options \<Rightarrow> knobs \<Rightarrow> delivery_input \<Rightarrow> rat \<Rightarrow> give_up_reason \<Rightarrow> rat \<Rightarrow> (attempt, outcome) state" where
  "give_up w o' k i start reason finished = do {
     s \<leftarrow> gets id;
     let e = evidence_of w o' k i start reason finished s;
     (if at_flip s then emit (Log_working (at_last_sequence s)) else State_Monad.return ());
     emit (Log_give_up e);
     emit (Warn_unconfirmed reason);
     (if op_escalate o' then emit (Escalate (pi_pane (di_target i)) e) else State_Monad.return ());
     State_Monad.return (Unconfirmed reason (at_text s) (at_enter s))
   }"

definition finish ::
    "delivery_world \<Rightarrow> delivery_options \<Rightarrow> knobs \<Rightarrow> delivery_input \<Rightarrow> rat \<Rightarrow> give_up_reason \<Rightarrow> (attempt, outcome) state" where
  "finish w o' k i start reason = do { t \<leftarrow> now w; give_up w o' k i start reason t }"

section \<open>The phases\<close>

text \<open>One sample of the baseline window.  \<open>Inl (Some outcome)\<close> ends the attempt, \<open>Inl None\<close> is the baseline ready.\<close>

definition baseline_body ::
    "delivery_world \<Rightarrow> delivery_options \<Rightarrow> knobs \<Rightarrow> delivery_input \<Rightarrow> rat \<Rightarrow> rat \<Rightarrow> status_sample \<Rightarrow> bool \<Rightarrow>
     (attempt, outcome option + bool) state" where
  "baseline_body w o' k i start readiness before settling = do {
     a \<leftarrow> aborted w;
     if a then do { r \<leftarrow> finish w o' k i start R_cancelled; State_Monad.return (Inl (Some r)) }
     else if invalidIdentity before then do { r \<leftarrow> finish w o' k i start R_identity_invalid; State_Monad.return (Inl (Some r)) }
     else do {
       let baseline = (if sp_error before = None then sp_status before else S_unknown);
       modify (\<lambda>s. s\<lparr>at_baseline := baseline,
         at_target := (case sp_error before of None \<Rightarrow> (case sp_identity before of Some t \<Rightarrow> t | None \<Rightarrow> at_target s) | Some _ \<Rightarrow> at_target s)\<rparr>);
       let settling' = (settling \<or> di_branch i = Born \<and> baseline = S_working);
       waiting \<leftarrow> gets (\<lambda>s. at_wait_start s \<noteq> None);
       if baseline \<noteq> S_unknown \<and> (\<not> settling' \<or> baseline = S_idle) then do {
         (if waiting then emit (Log_ready baseline) else State_Monad.return ());
         State_Monad.return (Inl None)
       }
       else do {
         (if waiting then State_Monad.return ()
          else do {
            modify (\<lambda>s. s\<lparr>at_wait_start := Some start, at_wait_budget := max 0 (readiness - start)\<rparr>);
            emit (Log_wait_start baseline (max 0 (readiness - start)))
          });
         State_Monad.return (Inr settling')
       }
     }
   }"

text \<open>The wait for a timer of the caller; its end is one of the awaits.\<close>

definition sleep_ms :: "delivery_world \<Rightarrow> rat \<Rightarrow> (attempt, unit) state" where
  "sleep_ms w ms = State (\<lambda>s. ((), s\<lparr>at_awaits := Suc (at_awaits s), at_slept := at_slept s + dw_sleep w (at_awaits s) ms\<rparr>))"

definition baseline_window ::
    "nat \<Rightarrow> delivery_world \<Rightarrow> delivery_options \<Rightarrow> knobs \<Rightarrow> delivery_input \<Rightarrow> rat \<Rightarrow> rat \<Rightarrow> (attempt, (outcome option + bool) option) state" where
  "baseline_window n w o' k i start readiness =
     status_window n (aborted w) (now w) (sleep_ms w) readiness (of_nat (kn_poll k))
       (read_status w k readiness (\<lambda>s. at_wait_start s \<noteq> None)) (baseline_body w o' k i start readiness) False"

text \<open>The settle pause before Enter for Codex: \<open>Some outcome\<close> when the attempt ends here.\<close>

definition flip_deadline :: "knobs \<Rightarrow> rat \<Rightarrow> rat \<Rightarrow> rat" where
  "flip_deadline k t0 limit = min (t0 + of_nat (kn_flip k)) limit"

text \<open>\<open>t0 ??= now()\<close>.\<close>

definition start_flip :: "delivery_world \<Rightarrow> (attempt, rat) state" where
  "start_flip w = do {
     t \<leftarrow> gets at_t0;
     (case t of
        Some v \<Rightarrow> State_Monad.return v
      | None \<Rightarrow> do { v \<leftarrow> now w; modify (\<lambda>s. s\<lparr>at_t0 := Some v\<rparr>); State_Monad.return v })
   }"

definition stop_reason :: "delivery_world \<Rightarrow> (attempt, give_up_reason) state" where
  "stop_reason w = do { a \<leftarrow> aborted w; State_Monad.return (if a then R_cancelled else R_deadline) }"

definition settle ::
    "delivery_world \<Rightarrow> delivery_options \<Rightarrow> knobs \<Rightarrow> delivery_input \<Rightarrow> rat \<Rightarrow> rat \<Rightarrow> (attempt, outcome option) state" where
  "settle w o' k i start limit = do {
     t0 \<leftarrow> start_flip w;
     let deadline = flip_deadline k t0 limit;
     t \<leftarrow> now w;
     let pause = min 250 (max 0 (deadline - t));
     emit (Log_settle pause);
     sleep_ms w pause;
     st \<leftarrow> stopped w limit;
     over \<leftarrow> (if st then State_Monad.return True else do { t' \<leftarrow> now w; State_Monad.return (deadline \<le> t') });
     if over then do { why \<leftarrow> stop_reason w; r \<leftarrow> finish w o' k i start why; State_Monad.return (Some r) }
     else State_Monad.return None
   }"

text \<open>One sample of the observation window; the flag says that some status was known after Enter.\<close>

definition observe_body ::
    "delivery_world \<Rightarrow> delivery_options \<Rightarrow> knobs \<Rightarrow> delivery_input \<Rightarrow> rat \<Rightarrow> rat \<Rightarrow> status_sample \<Rightarrow> bool \<Rightarrow>
     (attempt, (outcome option \<times> bool) + bool) state" where
  "observe_body w o' k i start deadline x known = do {
     a \<leftarrow> aborted w;
     if a then do { r \<leftarrow> finish w o' k i start R_cancelled; State_Monad.return (Inl (Some r, known)) }
     else do {
       observed \<leftarrow> now w;
       if deadline \<le> observed then State_Monad.return (Inl (None, known))
       else if invalidIdentity x then do { r \<leftarrow> finish w o' k i start R_identity_invalid; State_Monad.return (Inl (Some r, known)) }
       else if sp_error x = None \<and> sp_status x = S_working then do {
         modify (\<lambda>s. s\<lparr>at_flip := True\<rparr>);
         r \<leftarrow> give_up w o' k i start R_attribution_unavailable observed;
         State_Monad.return (Inl (Some r, True))
       }
       else State_Monad.return (Inr (known \<or> sp_error x = None \<and> sp_status x \<noteq> S_unknown))
     }
   }"

definition observe_window ::
    "nat \<Rightarrow> delivery_world \<Rightarrow> delivery_options \<Rightarrow> knobs \<Rightarrow> delivery_input \<Rightarrow> rat \<Rightarrow> rat \<Rightarrow>
     (attempt, ((outcome option \<times> bool) + bool) option) state" where
  "observe_window n w o' k i start deadline =
     status_window n (aborted w) (now w) (sleep_ms w) deadline (of_nat (kn_poll k))
       (read_status w k deadline (\<lambda>_. False)) (observe_body w o' k i start deadline) False"

text \<open>The end of the observation window without a flip.\<close>

definition exhausted ::
    "delivery_world \<Rightarrow> delivery_options \<Rightarrow> knobs \<Rightarrow> delivery_input \<Rightarrow> rat \<Rightarrow> bool \<Rightarrow> (attempt, outcome) state" where
  "exhausted w o' k i start known = do {
     a \<leftarrow> aborted w;
     finish w o' k i start (if a then R_cancelled else if known then R_deadline else R_status_unavailable)
   }"

definition observe_phase ::
    "nat \<Rightarrow> delivery_world \<Rightarrow> delivery_options \<Rightarrow> knobs \<Rightarrow> delivery_input \<Rightarrow> rat \<Rightarrow> rat \<Rightarrow> (attempt, outcome option) state" where
  "observe_phase n w o' k i start deadline = do {
     r \<leftarrow> observe_window n w o' k i start deadline;
     (case r of
        None \<Rightarrow> State_Monad.return None
      | Some (Inl (Some out, known)) \<Rightarrow> State_Monad.return (Some out)
      | Some (Inl (None, known)) \<Rightarrow> do { out \<leftarrow> exhausted w o' k i start known; State_Monad.return (Some out) }
      | Some (Inr known) \<Rightarrow> do { out \<leftarrow> exhausted w o' k i start known; State_Monad.return (Some out) })
   }"

text \<open>Enter is sent at most once; \<open>None\<close> is the end of the fuel.\<close>

definition enter_phase ::
    "nat \<Rightarrow> delivery_world \<Rightarrow> delivery_options \<Rightarrow> knobs \<Rightarrow> delivery_input \<Rightarrow> rat \<Rightarrow> rat \<Rightarrow> (attempt, outcome option) state" where
  "enter_phase n w o' k i start limit = do {
     t0 \<leftarrow> start_flip w;
     let deadline = flip_deadline k t0 limit;
     ctx \<leftarrow> next_call w k deadline;
     emit (Send_enter ctx);
     entered \<leftarrow> send w (dw_enter w) ctx;
     modify (\<lambda>s. s\<lparr>at_enter := Some (sd_kind entered), at_enter_error := fault_of entered\<rparr>);
     emit (Log_enter (sd_kind entered) (fault_of entered));
     a \<leftarrow> aborted w;
     baseline \<leftarrow> gets at_baseline;
     if a then do { r \<leftarrow> finish w o' k i start R_cancelled; State_Monad.return (Some r) }
     else if sd_kind entered \<noteq> Sent then do {
       r \<leftarrow> finish w o' k i start (if sd_kind entered = Not_sent then R_enter_not_sent else R_enter_uncertain);
       State_Monad.return (Some r) }
     else if baseline = S_working then do { r \<leftarrow> finish w o' k i start R_baseline_working; State_Monad.return (Some r) }
     else observe_phase n w o' k i start deadline
   }"

definition pause_phase ::
    "nat \<Rightarrow> delivery_world \<Rightarrow> delivery_options \<Rightarrow> knobs \<Rightarrow> delivery_input \<Rightarrow> rat \<Rightarrow> rat \<Rightarrow> (attempt, outcome option) state" where
  "pause_phase n w o' k i start limit =
     (if (case di_agent i of Some a \<Rightarrow> a = ''codex''
          | None \<Rightarrow> (case pi_session (di_target i) of Some s \<Rightarrow> as_agent s = ''codex'' | None \<Rightarrow> False)) then do {
        r \<leftarrow> settle w o' k i start limit;
        (case r of Some out \<Rightarrow> State_Monad.return (Some out) | None \<Rightarrow> enter_phase n w o' k i start limit)
      }
      else enter_phase n w o' k i start limit)"

text \<open>The text is sent exactly once.\<close>

definition text_phase ::
    "nat \<Rightarrow> delivery_world \<Rightarrow> delivery_options \<Rightarrow> knobs \<Rightarrow> delivery_input \<Rightarrow> rat \<Rightarrow> rat \<Rightarrow> (attempt, outcome option) state" where
  "text_phase n w o' k i start limit = do {
     baseline \<leftarrow> gets at_baseline;
     (if baseline \<noteq> S_working then do { t \<leftarrow> now w; modify (\<lambda>s. s\<lparr>at_t0 := Some t\<rparr>) } else State_Monad.return ());
     t0 \<leftarrow> gets at_t0;
     modify (\<lambda>s. s\<lparr>at_text_calls := 1\<rparr>);
     ctx \<leftarrow> next_call w k (case t0 of None \<Rightarrow> limit | Some t \<Rightarrow> flip_deadline k t limit);
     emit (Send_text (di_prompt i) ctx);
     sent \<leftarrow> send w (dw_text w) ctx;
     modify (\<lambda>s. s\<lparr>at_text := sd_kind sent, at_text_error := fault_of sent\<rparr>);
     emit (Log_text (sd_kind sent) (fault_of sent));
     if sd_kind sent = Not_sent then State_Monad.return (Some (Not_delivered Text_not_sent))
     else if sd_kind sent = Uncertain then do { r \<leftarrow> finish w o' k i start R_text_uncertain; State_Monad.return (Some r) }
     else do {
       st \<leftarrow> stopped w limit;
       if st then do { why \<leftarrow> stop_reason w; r \<leftarrow> finish w o' k i start why; State_Monad.return (Some r) }
       else pause_phase n w o' k i start limit
     }
   }"

definition log_exhausted :: "delivery_world \<Rightarrow> knobs \<Rightarrow> rat \<Rightarrow> (attempt, unit) state" where
  "log_exhausted w k limit = do {
     short \<leftarrow> budget_short w k limit;
     baseline \<leftarrow> gets at_baseline;
     elapsed \<leftarrow> gets at_wait_elapsed;
     emit (Log_exhausted baseline (if baseline = S_unknown then A_not_sent else if short then A_deadline else A_fallback) elapsed)
   }"

text \<open>After the baseline window: \<open>ready\<close> says that it ended with a usable baseline.\<close>

definition after_baseline ::
    "nat \<Rightarrow> delivery_world \<Rightarrow> delivery_options \<Rightarrow> knobs \<Rightarrow> delivery_input \<Rightarrow> rat \<Rightarrow> rat \<Rightarrow> bool \<Rightarrow> (attempt, outcome option) state" where
  "after_baseline n w o' k i start limit ready = do {
     ws \<leftarrow> gets at_wait_start;
     (case ws of None \<Rightarrow> State_Monad.return ()
      | Some t0 \<Rightarrow> do { t \<leftarrow> now w; modify (\<lambda>s. s\<lparr>at_wait_elapsed := Some (max 0 (t - t0))\<rparr>) });
     a \<leftarrow> aborted w;
     if a then do { r \<leftarrow> finish w o' k i start R_cancelled; State_Monad.return (Some r) }
     else do {
       (if ready then State_Monad.return () else log_exhausted w k limit);
       baseline \<leftarrow> gets at_baseline;
       if baseline = S_unknown then do { r \<leftarrow> finish w o' k i start R_baseline_unknown; State_Monad.return (Some r) }
       else do {
         short \<leftarrow> budget_short w k limit;
         if short then do { r \<leftarrow> finish w o' k i start R_deadline; State_Monad.return (Some r) }
         else text_phase n w o' k i start limit
       }
     }
   }"

definition deliver ::
    "nat \<Rightarrow> delivery_world \<Rightarrow> delivery_options \<Rightarrow> knobs \<Rightarrow> delivery_input \<Rightarrow> (attempt, outcome option) state" where
  "deliver n w o' k i = do {
     start \<leftarrow> now w;
     let limit = (case op_deadline o' of Some d \<Rightarrow> d | None \<Rightarrow> start + 170000);
     short \<leftarrow> budget_short w k limit;
     if short then State_Monad.return (Some (Not_delivered Budget_unavailable))
     else do {
       t \<leftarrow> now w;
       let readiness = min (t + of_nat (kn_ready k)) limit;
       r \<leftarrow> baseline_window n w o' k i start readiness;
       (case r of
          None \<Rightarrow> State_Monad.return None
        | Some (Inl (Some out)) \<Rightarrow> State_Monad.return (Some out)
        | Some (Inl None) \<Rightarrow> after_baseline n w o' k i start limit True
        | Some (Inr _) \<Rightarrow> after_baseline n w o' k i start limit False)
     }
   }"

definition run_delivery ::
    "nat \<Rightarrow> delivery_world \<Rightarrow> delivery_options \<Rightarrow> knobs \<Rightarrow> delivery_input \<Rightarrow> outcome option \<times> attempt" where
  "run_delivery n w o' k i = run_state (deliver n w o' k i) (fresh_attempt (di_target i))"

section \<open>The evidence on the wire\<close>

definition status_json :: "agent_status \<Rightarrow> json" where
  "status_json x = JStr (case x of S_idle \<Rightarrow> ''idle'' | S_working \<Rightarrow> ''working'' | S_blocked \<Rightarrow> ''blocked''
     | S_done \<Rightarrow> ''done'' | S_unknown \<Rightarrow> ''unknown'')"

definition fault_name :: "transport_fault \<Rightarrow> string" where
  "fault_name f = (case f of INVALID_ARGUMENT \<Rightarrow> ''INVALID_ARGUMENT'' | NOT_STARTED \<Rightarrow> ''NOT_STARTED''
     | SPAWN_FAILED \<Rightarrow> ''SPAWN_FAILED'' | EXIT_ERROR \<Rightarrow> ''EXIT_ERROR'' | SIGNAL \<Rightarrow> ''SIGNAL'' | TIMEOUT \<Rightarrow> ''TIMEOUT''
     | ABORTED \<Rightarrow> ''ABORTED'' | INVALID_ACK \<Rightarrow> ''INVALID_ACK'' | INTERNAL \<Rightarrow> ''INTERNAL'')"

definition read_fault_name :: "read_fault \<Rightarrow> string" where
  "read_fault_name f = (case f of Transport t \<Rightarrow> fault_name t | INVALID_JSON \<Rightarrow> ''INVALID_JSON''
     | INVALID_SHAPE \<Rightarrow> ''INVALID_SHAPE'' | PANE_MISSING \<Rightarrow> ''PANE_MISSING'' | PANE_DUPLICATE \<Rightarrow> ''PANE_DUPLICATE''
     | IDENTITY_CHANGED \<Rightarrow> ''IDENTITY_CHANGED'' | STATUS_MISSING \<Rightarrow> ''STATUS_MISSING'' | STATUS_INVALID \<Rightarrow> ''STATUS_INVALID''
     | LATE_RESULT \<Rightarrow> ''LATE_RESULT'' | WRONG_SEQUENCE \<Rightarrow> ''WRONG_SEQUENCE'')"

definition reason_name :: "give_up_reason \<Rightarrow> string" where
  "reason_name r = (case r of R_text_uncertain \<Rightarrow> ''text-uncertain'' | R_enter_not_sent \<Rightarrow> ''enter-not-sent''
     | R_enter_uncertain \<Rightarrow> ''enter-uncertain'' | R_identity_invalid \<Rightarrow> ''identity-invalid''
     | R_baseline_working \<Rightarrow> ''baseline-working'' | R_baseline_unknown \<Rightarrow> ''baseline-unknown''
     | R_attribution_unavailable \<Rightarrow> ''attribution-unavailable'' | R_status_unavailable \<Rightarrow> ''status-unavailable''
     | R_deadline \<Rightarrow> ''deadline'' | R_cancelled \<Rightarrow> ''cancelled'')"

definition kind_name :: "send_kind \<Rightarrow> string" where
  "kind_name x = (case x of Sent \<Rightarrow> ''sent'' | Not_sent \<Rightarrow> ''not-sent'' | Uncertain \<Rightarrow> ''uncertain'')"

definition or_null :: "('a \<Rightarrow> json) \<Rightarrow> 'a option \<Rightarrow> json" where
  "or_null f v = (case v of None \<Rightarrow> JNull | Some x \<Rightarrow> f x)"

definition identity_json :: "pane_identity \<Rightarrow> json" where
  "identity_json p = JObj [(''paneId'', JStr (pi_pane p)), (''terminalId'', or_null JStr (pi_terminal p)),
     (''workspaceId'', or_null JStr (pi_workspace p)),
     (''agentSession'', or_null (\<lambda>a. JObj [(''agent'', JStr (as_agent a)), (''kind'', JStr (as_kind a)),
        (''value'', JStr (as_value a))]) (pi_session p)),
     (''serverEpoch'', JNull), (''agentGeneration'', JNull)]"

definition evidence_head :: "evidence \<Rightarrow> jobject" where
  "evidence_head e =
     (case ev_target e of None \<Rightarrow> []
      | Some (t, digest, n) \<Rightarrow> [(''target'', identity_json t),
          (''prompt_tail'', JObj [(''sha256'', JStr digest), (''length'', JNum (of_nat n))])]) @
     (case ev_wait e of None \<Rightarrow> []
      | Some (b, el) \<Rightarrow> [(''baseline_wait'', JObj [(''budget_ms'', JNum b), (''elapsed_ms'', JNum el)])])"

definition evidence_tail :: "evidence \<Rightarrow> jobject" where
  "evidence_tail e =
     [(''schema'', JNum 2), (''attempt_id'', JStr (ev_attempt e)), (''pane_id'', JStr (ev_pane e)),
      (''reason'', JStr (reason_name (ev_reason e))), (''status_before'', status_json (ev_before e)),
      (''status_last'', status_json (ev_last e)),
      (''status_error'', or_null (\<lambda>f. JStr (read_fault_name f)) (ev_error e)), (''status_flip'', JBool (ev_flip e)),
      (''submit_confirmed'', JBool False), (''attribution'', JStr ''unavailable''),
      (''text_transport'', JStr (kind_name (ev_text e))),
      (''text_error'', or_null (\<lambda>f. JStr (fault_name f)) (ev_text_error e)),
      (''enter_transport'', JStr (case ev_enter e of None \<Rightarrow> ''not-attempted'' | Some x \<Rightarrow> kind_name x)),
      (''enter_error'', or_null (\<lambda>f. JStr (fault_name f)) (ev_enter_error e)),
      (''text_calls'', JNum (of_nat (ev_text_calls e))), (''enter_calls'', JNum (if ev_enter e = None then 0 else 1)),
      (''budget_ms'', JNum (of_nat (ev_budget e))), (''elapsed_ms'', or_null JNum (ev_elapsed e)),
      (''total_elapsed_ms'', JNum (ev_total e)),
      (''last_query_sequence'', or_null (\<lambda>n. JNum (of_nat n)) (ev_sequence e)),
      (''detector_source'', JNull), (''detector_age_ms'', JNull), (''server_epoch'', JNull), (''agent_generation'', JNull)]"

definition evidence_json :: "evidence \<Rightarrow> json" where
  "evidence_json e = JObj (evidence_head e @ evidence_tail e)"

text \<open>\<open>parseDeliveryV2\<close> of \<open>escalation.ts\<close>: the block as it is, or \<open>None\<close>.\<close>

definition TRANSPORT_FAULTS :: "string list" where
  "TRANSPORT_FAULTS = [''INVALID_ARGUMENT'', ''NOT_STARTED'', ''SPAWN_FAILED'', ''EXIT_ERROR'', ''SIGNAL'', ''TIMEOUT'',
     ''ABORTED'', ''INVALID_ACK'', ''INTERNAL'']"

definition READ_FAULTS :: "string list" where
  "READ_FAULTS = TRANSPORT_FAULTS @ [''INVALID_JSON'', ''INVALID_SHAPE'', ''PANE_MISSING'', ''PANE_DUPLICATE'',
     ''IDENTITY_CHANGED'', ''STATUS_MISSING'', ''STATUS_INVALID'', ''LATE_RESULT'', ''WRONG_SEQUENCE'']"

definition REASONS :: "string list" where
  "REASONS = [''text-uncertain'', ''enter-not-sent'', ''enter-uncertain'', ''identity-invalid'', ''baseline-working'',
     ''baseline-unknown'', ''attribution-unavailable'', ''status-unavailable'', ''deadline'', ''cancelled'']"

definition STATUSES :: "string list" where
  "STATUSES = [''idle'', ''working'', ''blocked'', ''done'', ''unknown'']"

definition member_of :: "string list \<Rightarrow> json option \<Rightarrow> bool" where
  "member_of xs v \<longleftrightarrow> (case v of Some (JStr s) \<Rightarrow> s \<in> set xs | _ \<Rightarrow> False)"

definition nonnegative :: "json option \<Rightarrow> bool" where
  "nonnegative v \<longleftrightarrow> (case v of Some (JNum q) \<Rightarrow> 0 \<le> q | _ \<Rightarrow> False)"

definition base_ok :: "jobject \<Rightarrow> bool" where
  "base_ok v \<longleftrightarrow>
     pget v ''schema'' = Some (JNum 2) \<and> nonempty_string (pget v ''attempt_id'') \<and> nonempty_string (pget v ''pane_id'') \<and>
     member_of REASONS (pget v ''reason'') \<and> member_of STATUSES (pget v ''status_before'') \<and>
     member_of STATUSES (pget v ''status_last'') \<and>
     (pget v ''status_error'' = Some JNull \<or> member_of READ_FAULTS (pget v ''status_error'')) \<and>
     pget v ''status_flip'' \<in> {Some (JBool True), Some (JBool False)} \<and>
     pget v ''submit_confirmed'' = Some (JBool False) \<and> pget v ''attribution'' = Some (JStr ''unavailable'') \<and>
     pget v ''text_calls'' \<in> {Some (JNum 0), Some (JNum 1)} \<and> pget v ''enter_calls'' \<in> {Some (JNum 0), Some (JNum 1)} \<and>
     nonnegative (pget v ''budget_ms'') \<and> nonnegative (pget v ''total_elapsed_ms'') \<and>
     (case pget v ''last_query_sequence'' of
        Some JNull \<Rightarrow> True
      | Some (JNum q) \<Rightarrow> is_integer q \<and> 0 < q \<and> q \<le> 9007199254740991
      | _ \<Rightarrow> False) \<and>
     pget v ''detector_source'' = Some JNull \<and> pget v ''detector_age_ms'' = Some JNull \<and>
     pget v ''server_epoch'' = Some JNull \<and> pget v ''agent_generation'' = Some JNull"

definition wait_ok :: "jobject \<Rightarrow> bool" where
  "wait_ok v \<longleftrightarrow>
     (case pget v ''baseline_wait'' of
        None \<Rightarrow> True
      | Some (JObj b) \<Rightarrow> nonnegative (pget b ''budget_ms'') \<and> nonnegative (pget b ''elapsed_ms'')
      | Some _ \<Rightarrow> False)"

definition text_ok :: "jobject \<Rightarrow> bool" where
  "text_ok v \<longleftrightarrow>
     (if pget v ''text_calls'' = Some (JNum 0) then
        pget v ''text_transport'' = Some (JStr ''not-sent'') \<and> pget v ''text_error'' = Some JNull \<and>
        pget v ''enter_calls'' = Some (JNum 0) \<and> pget v ''status_flip'' = Some (JBool False) \<and>
        member_of [''baseline-unknown'', ''identity-invalid'', ''cancelled'', ''deadline''] (pget v ''reason'')
      else if pget v ''reason'' = Some (JStr ''text-uncertain'') then
        pget v ''text_transport'' = Some (JStr ''uncertain'') \<and> member_of TRANSPORT_FAULTS (pget v ''text_error'') \<and>
        pget v ''enter_calls'' = Some (JNum 0)
      else pget v ''text_transport'' = Some (JStr ''sent'') \<and> pget v ''text_error'' = Some JNull)"

definition enter_ok :: "jobject \<Rightarrow> bool" where
  "enter_ok v \<longleftrightarrow>
     (if pget v ''enter_calls'' = Some (JNum 0) then
        pget v ''enter_transport'' = Some (JStr ''not-attempted'') \<and> pget v ''enter_error'' = Some JNull \<and>
        pget v ''elapsed_ms'' = Some JNull
      else nonnegative (pget v ''elapsed_ms'') \<and>
        (if pget v ''enter_transport'' = Some (JStr ''sent'') then pget v ''enter_error'' = Some JNull
         else pget v ''enter_transport'' \<in> {Some (JStr ''not-sent''), Some (JStr ''uncertain'')} \<and>
           member_of TRANSPORT_FAULTS (pget v ''enter_error'')))"

text \<open>\<open>v.elapsed_ms >= v.budget_ms\<close> for two numbers.\<close>

definition elapsed_below :: "jobject \<Rightarrow> bool" where
  "elapsed_below v \<longleftrightarrow>
     (case (pget v ''elapsed_ms'', pget v ''budget_ms'') of (Some (JNum e), Some (JNum b)) \<Rightarrow> e < b | _ \<Rightarrow> False)"

definition flip_ok :: "jobject \<Rightarrow> bool" where
  "flip_ok v \<longleftrightarrow>
     (pget v ''status_flip'' = Some (JBool True) \<longrightarrow>
        member_of [''idle'', ''blocked'', ''done''] (pget v ''status_before'') \<and>
        pget v ''status_last'' = Some (JStr ''working'') \<and> pget v ''enter_transport'' = Some (JStr ''sent'') \<and>
        pget v ''status_error'' = Some JNull \<and> nonnegative (pget v ''elapsed_ms'') \<and> elapsed_below v) \<and>
     (pget v ''reason'' = Some (JStr ''attribution-unavailable'') \<longrightarrow> pget v ''status_flip'' = Some (JBool True))"

definition parseDeliveryV2 :: "json option \<Rightarrow> jobject option" where
  "parseDeliveryV2 value =
     (case value of
        Some (JObj v) \<Rightarrow> if base_ok v \<and> wait_ok v \<and> text_ok v \<and> enter_ok v \<and> flip_ok v then Some v else None
      | _ \<Rightarrow> None)"

section \<open>Evidence that is accepted\<close>

text \<open>What a block of evidence has to satisfy, field by field.\<close>

definition before_text :: "evidence \<Rightarrow> bool" where
  "before_text e \<longleftrightarrow> ev_text e = Not_sent \<and> ev_text_error e = None \<and> ev_enter e = None \<and> \<not> ev_flip e \<and>
     ev_reason e \<in> {R_baseline_unknown, R_identity_invalid, R_cancelled, R_deadline}"

definition after_text :: "evidence \<Rightarrow> bool" where
  "after_text e \<longleftrightarrow>
     (if ev_reason e = R_text_uncertain then ev_text e = Uncertain \<and> ev_text_error e \<noteq> None \<and> ev_enter e = None
      else ev_text e = Sent \<and> ev_text_error e = None \<and> ev_reason e \<noteq> R_baseline_unknown)"

definition enter_part :: "evidence \<Rightarrow> bool" where
  "enter_part e \<longleftrightarrow>
     (case ev_enter e of
        None \<Rightarrow> ev_enter_error e = None \<and> ev_elapsed e = None
      | Some kind \<Rightarrow> (\<exists>t. ev_elapsed e = Some t \<and> 0 \<le> t) \<and> (kind = Sent \<longleftrightarrow> ev_enter_error e = None))"

definition flip_part :: "evidence \<Rightarrow> bool" where
  "flip_part e \<longleftrightarrow>
     (ev_flip e \<longrightarrow> ev_before e \<in> {S_idle, S_blocked, S_done} \<and> ev_last e = S_working \<and> ev_enter e = Some Sent \<and>
        ev_error e = None \<and> (\<exists>t. ev_elapsed e = Some t \<and> t < of_nat (ev_budget e))) \<and>
     (ev_reason e = R_attribution_unavailable \<longrightarrow> ev_flip e)"

definition evidence_ok :: "evidence \<Rightarrow> bool" where
  "evidence_ok e \<longleftrightarrow>
     \<not> blank (ev_attempt e) \<and> \<not> blank (ev_pane e) \<and> 0 \<le> ev_total e \<and>
     (\<forall>n. ev_sequence e = Some n \<longrightarrow> 0 < n \<and> n \<le> 9007199254740991) \<and>
     (\<forall>b t. ev_wait e = Some (b, t) \<longrightarrow> 0 \<le> b \<and> 0 \<le> t) \<and>
     (ev_text_calls e = 0 \<and> before_text e \<or> ev_text_calls e = 1 \<and> after_text e) \<and> enter_part e \<and> flip_part e"

lemma skip_head:
  "k \<noteq> ''target'' \<Longrightarrow> k \<noteq> ''prompt_tail'' \<Longrightarrow> k \<noteq> ''baseline_wait'' \<Longrightarrow> pget (evidence_head e @ xs) k = pget xs k"
  by (auto simp: evidence_head_def pget_append split: option.split)

lemma head_wait:
  "pget xs ''baseline_wait'' = None \<Longrightarrow> pget (evidence_head e @ xs) ''baseline_wait'' =
     map_option (\<lambda>(b, t). JObj [(''budget_ms'', JNum b), (''elapsed_ms'', JNum t)]) (ev_wait e)"
  by (auto simp: evidence_head_def pget_append split: option.split)

lemma tail_wait: "pget (evidence_tail e) ''baseline_wait'' = None"
  by (simp add: evidence_tail_def)

lemma evidence_fields:
  "pget (evidence_head e @ evidence_tail e) ''schema'' = Some (JNum 2)"
  "pget (evidence_head e @ evidence_tail e) ''attempt_id'' = Some (JStr (ev_attempt e))"
  "pget (evidence_head e @ evidence_tail e) ''pane_id'' = Some (JStr (ev_pane e))"
  "pget (evidence_head e @ evidence_tail e) ''reason'' = Some (JStr (reason_name (ev_reason e)))"
  "pget (evidence_head e @ evidence_tail e) ''status_before'' = Some (status_json (ev_before e))"
  "pget (evidence_head e @ evidence_tail e) ''status_last'' = Some (status_json (ev_last e))"
  "pget (evidence_head e @ evidence_tail e) ''status_error'' = Some (or_null (\<lambda>f. JStr (read_fault_name f)) (ev_error e))"
  "pget (evidence_head e @ evidence_tail e) ''status_flip'' = Some (JBool (ev_flip e))"
  "pget (evidence_head e @ evidence_tail e) ''submit_confirmed'' = Some (JBool False)"
  "pget (evidence_head e @ evidence_tail e) ''attribution'' = Some (JStr ''unavailable'')"
  "pget (evidence_head e @ evidence_tail e) ''text_transport'' = Some (JStr (kind_name (ev_text e)))"
  "pget (evidence_head e @ evidence_tail e) ''text_error'' = Some (or_null (\<lambda>f. JStr (fault_name f)) (ev_text_error e))"
  "pget (evidence_head e @ evidence_tail e) ''enter_transport'' = Some (JStr (case ev_enter e of None \<Rightarrow> ''not-attempted'' | Some x \<Rightarrow> kind_name x))"
  "pget (evidence_head e @ evidence_tail e) ''enter_error'' = Some (or_null (\<lambda>f. JStr (fault_name f)) (ev_enter_error e))"
  "pget (evidence_head e @ evidence_tail e) ''text_calls'' = Some (JNum (of_nat (ev_text_calls e)))"
  "pget (evidence_head e @ evidence_tail e) ''enter_calls'' = Some (JNum (if ev_enter e = None then 0 else 1))"
  "pget (evidence_head e @ evidence_tail e) ''budget_ms'' = Some (JNum (of_nat (ev_budget e)))"
  "pget (evidence_head e @ evidence_tail e) ''elapsed_ms'' = Some (or_null JNum (ev_elapsed e))"
  "pget (evidence_head e @ evidence_tail e) ''total_elapsed_ms'' = Some (JNum (ev_total e))"
  "pget (evidence_head e @ evidence_tail e) ''last_query_sequence'' = Some (or_null (\<lambda>n. JNum (of_nat n)) (ev_sequence e))"
  "pget (evidence_head e @ evidence_tail e) ''detector_source'' = Some JNull"
  "pget (evidence_head e @ evidence_tail e) ''detector_age_ms'' = Some JNull"
  "pget (evidence_head e @ evidence_tail e) ''server_epoch'' = Some JNull"
  "pget (evidence_head e @ evidence_tail e) ''agent_generation'' = Some JNull"
  "pget (evidence_head e @ evidence_tail e) ''baseline_wait'' = map_option (\<lambda>(b, t). JObj [(''budget_ms'', JNum b), (''elapsed_ms'', JNum t)]) (ev_wait e)"
  by (simp_all add: skip_head head_wait [OF tail_wait], simp_all add: evidence_tail_def)

lemma named_faults [simp]:
  "fault_name f \<in> set TRANSPORT_FAULTS" "read_fault_name g \<in> set READ_FAULTS" "reason_name r \<in> set REASONS"
  by (simp_all add: fault_name_def TRANSPORT_FAULTS_def read_fault_name_def READ_FAULTS_def reason_name_def REASONS_def
      split: transport_fault.split read_fault.split give_up_reason.split)

lemma member_status [simp]: "member_of STATUSES (Some (status_json x))"
  by (simp add: member_of_def status_json_def STATUSES_def split: agent_status.split)

lemma reason_names:
  "reason_name r = ''text-uncertain'' \<longleftrightarrow> r = R_text_uncertain"
  "reason_name r = ''attribution-unavailable'' \<longleftrightarrow> r = R_attribution_unavailable"
  by (cases r; simp add: reason_name_def)+

lemma early_reason:
  "r \<in> {R_baseline_unknown, R_identity_invalid, R_cancelled, R_deadline} \<Longrightarrow>
     reason_name r \<in> set [''baseline-unknown'', ''identity-invalid'', ''cancelled'', ''deadline'']"
  by (auto simp: reason_name_def)

lemma fault_or_null:
  "or_null (\<lambda>f. JStr (read_fault_name f)) x = JNull \<or> member_of READ_FAULTS (Some (or_null (\<lambda>f. JStr (read_fault_name f)) x))"
  by (cases x) (simp_all add: or_null_def member_of_def)

lemma kind_names: "kind_name x = ''sent'' \<longleftrightarrow> x = Sent" "kind_name x = ''not-sent'' \<longleftrightarrow> x = Not_sent"
  "kind_name x = ''uncertain'' \<longleftrightarrow> x = Uncertain"
  by (simp_all add: kind_name_def split: send_kind.split)

lemma evidence_ok_accepted:
  assumes "evidence_ok e"
  shows "\<exists>v. evidence_json e = JObj v \<and> parseDeliveryV2 (Some (evidence_json e)) = Some v"
proof -
  let ?v = "evidence_head e @ evidence_tail e"
  note f = evidence_fields [of e]
  have seq: "case or_null (\<lambda>n. JNum (of_nat n)) (ev_sequence e) of JNull \<Rightarrow> True
      | JNum q \<Rightarrow> is_integer q \<and> 0 < q \<and> q \<le> 9007199254740991 | _ \<Rightarrow> False"
  proof (cases "ev_sequence e")
    case None
    then show ?thesis by (simp add: or_null_def)
  next
    case (Some n)
    then have "0 < n" "n \<le> 9007199254740991" using assms by (auto simp: evidence_ok_def)
    moreover from this(2) have "(of_nat n :: rat) \<le> of_nat 9007199254740991" by (simp only: of_nat_le_iff)
    ultimately show ?thesis by (simp add: Some or_null_def is_integer_def)
  qed
  have "base_ok ?v"
    unfolding base_ok_def f
  proof (intro conjI)
    show "case Some (or_null (\<lambda>n. JNum (of_nat n)) (ev_sequence e)) of Some JNull \<Rightarrow> True
        | Some (JNum q) \<Rightarrow> is_integer q \<and> 0 < q \<and> q \<le> 9007199254740991 | _ \<Rightarrow> False"
      using seq by simp
    show "Some (or_null (\<lambda>f. JStr (read_fault_name f)) (ev_error e)) = Some JNull \<or>
        member_of READ_FAULTS (Some (or_null (\<lambda>f. JStr (read_fault_name f)) (ev_error e)))"
      using fault_or_null [of "ev_error e"] by simp
    show "member_of REASONS (Some (JStr (reason_name (ev_reason e))))"
      by (simp add: member_of_def)
  qed (use assms in \<open>auto simp: evidence_ok_def nonempty_string_def nonnegative_def\<close>)
  moreover have "wait_ok ?v"
    using assms unfolding wait_ok_def f by (auto simp: evidence_ok_def nonnegative_def pget_def split: option.split)
  moreover have "text_ok ?v"
  proof (cases "ev_text_calls e = 0")
    case True
    then have "before_text e" using assms by (simp add: evidence_ok_def)
    then show ?thesis
      using True early_reason [of "ev_reason e"] unfolding text_ok_def f
      by (simp add: before_text_def or_null_def member_of_def kind_name_def)
  next
    case False
    then have one: "ev_text_calls e = 1" and after: "after_text e" using assms by (auto simp: evidence_ok_def)
    show ?thesis
    proof (cases "ev_reason e = R_text_uncertain")
      case True
      then show ?thesis
        using one after unfolding text_ok_def f
        by (auto simp: after_text_def or_null_def member_of_def kind_name_def reason_names)
    next
      case False
      then show ?thesis
        using one after unfolding text_ok_def f
        by (auto simp: after_text_def or_null_def kind_name_def reason_names)
    qed
  qed
  moreover have "enter_ok ?v"
  proof (cases "ev_enter e")
    case None
    then show ?thesis
      using assms unfolding enter_ok_def f by (simp add: evidence_ok_def enter_part_def or_null_def)
  next
    case (Some kind)
    then obtain t where t: "ev_elapsed e = Some t" "0 \<le> t" "kind = Sent \<longleftrightarrow> ev_enter_error e = None"
      using assms by (auto simp: evidence_ok_def enter_part_def)
    then show ?thesis
      using Some unfolding enter_ok_def f
      by (cases kind) (auto simp: or_null_def nonnegative_def member_of_def kind_name_def)
  qed
  moreover have "flip_ok ?v"
  proof (cases "ev_flip e")
    case True
    then obtain t where "ev_before e \<in> {S_idle, S_blocked, S_done}" "ev_last e = S_working" "ev_enter e = Some Sent"
      "ev_error e = None" "ev_elapsed e = Some t" "t < of_nat (ev_budget e)" "0 \<le> t"
      using assms by (auto simp: evidence_ok_def flip_part_def enter_part_def)
    then show ?thesis
      using True unfolding flip_ok_def elapsed_below_def f
      by (auto simp: or_null_def nonnegative_def member_of_def kind_name_def status_json_def)
  next
    case False
    then have "ev_reason e \<noteq> R_attribution_unavailable"
      using assms by (auto simp: evidence_ok_def flip_part_def)
    then show ?thesis
      using False unfolding flip_ok_def f by (simp add: reason_names)
  qed
  ultimately show ?thesis
    by (simp add: parseDeliveryV2_def evidence_json_def)
qed

section \<open>Weakest preconditions\<close>

lemma wp_clock [simp]:
  "wp (now w) Q a = Q (dw_now w (at_ticks a) + at_slept a) (a\<lparr>at_ticks := Suc (at_ticks a)\<rparr>)"
  "wp (aborted w) P a = P (dw_aborted w (at_awaits a)) a"
  "wp (await f) R a = R (f (at_awaits a)) (a\<lparr>at_awaits := Suc (at_awaits a)\<rparr>)"
  "wp (emit x) U a = U () (a\<lparr>at_out := at_out a @ [x]\<rparr>)"
  "wp (sleep_ms w ms) V a = V () (a\<lparr>at_awaits := Suc (at_awaits a), at_slept := at_slept a + dw_sleep w (at_awaits a) ms\<rparr>)"
  by (simp_all add: wp_def now_def aborted_def await_def emit_def gets_def modify_def sleep_ms_def)

section \<open>What an attempt has done\<close>

definition texts :: "attempt \<Rightarrow> nat" where
  "texts s = length (filter (\<lambda>a. case a of Send_text _ _ \<Rightarrow> True | _ \<Rightarrow> False) (at_out s))"

definition enters :: "attempt \<Rightarrow> nat" where
  "enters s = length (filter (\<lambda>a. case a of Send_enter _ \<Rightarrow> True | _ \<Rightarrow> False) (at_out s))"

definition ends :: "attempt \<Rightarrow> action list" where
  "ends s = filter (\<lambda>a. case a of Log_give_up _ \<Rightarrow> True | Escalate _ _ \<Rightarrow> True | _ \<Rightarrow> False) (at_out s)"

text \<open>Nothing given up yet, and the counters agree with the calls that were made.\<close>

definition core :: "attempt \<Rightarrow> bool" where
  "core s \<longleftrightarrow> texts s = at_text_calls s \<and> enters s = (if at_enter s = None then 0 else 1) \<and> ends s = [] \<and>
     0 \<le> at_wait_budget s \<and> (\<forall>e. at_wait_elapsed s = Some e \<longrightarrow> 0 \<le> e) \<and>
     (\<forall>n. at_last_sequence s = Some n \<longrightarrow> 0 < n \<and> n \<le> at_sequence s) \<and> \<not> at_flip s \<and>
     (at_enter s = None \<longrightarrow> at_enter_error s = None) \<and>
     (\<forall>x. at_enter s = Some x \<longrightarrow> at_t0 s \<noteq> None \<and> (x = Sent \<longleftrightarrow> at_enter_error s = None))"

definition before :: "attempt \<Rightarrow> bool" where
  "before s \<longleftrightarrow> core s \<and> at_text_calls s = 0 \<and> at_text s = Not_sent \<and> at_text_error s = None \<and> at_enter s = None"

definition typed :: "attempt \<Rightarrow> bool" where
  "typed s \<longleftrightarrow> core s \<and> at_text_calls s = 1 \<and> at_text s = Sent \<and> at_text_error s = None"

definition pressed :: "attempt \<Rightarrow> bool" where
  "pressed s \<longleftrightarrow> typed s \<and> at_enter s = Some Sent \<and> at_baseline s \<in> {S_idle, S_blocked, S_done}"

definition room :: "nat \<Rightarrow> attempt \<Rightarrow> bool" where
  "room n s \<longleftrightarrow> at_sequence s + n \<le> 9007199254740991"

lemma texts_simps [simp]:
  "texts (s\<lparr>at_out := at_out s @ as\<rparr>) = texts s + length (filter (\<lambda>a. case a of Send_text _ _ \<Rightarrow> True | _ \<Rightarrow> False) as)"
  "enters (s\<lparr>at_out := at_out s @ as\<rparr>) = enters s + length (filter (\<lambda>a. case a of Send_enter _ \<Rightarrow> True | _ \<Rightarrow> False) as)"
  "ends (s\<lparr>at_out := at_out s @ as\<rparr>) =
     ends s @ filter (\<lambda>a. case a of Log_give_up _ \<Rightarrow> True | Escalate _ _ \<Rightarrow> True | _ \<Rightarrow> False) as"
  by (simp_all add: texts_def enters_def ends_def)

text \<open>Facts that do not depend on the time, and facts that survive a status query.\<close>

definition timeless :: "(attempt \<Rightarrow> bool) \<Rightarrow> bool" where
  "timeless P \<longleftrightarrow> (\<forall>s n m r. P s \<longrightarrow> P (s\<lparr>at_ticks := n\<rparr>) \<and> P (s\<lparr>at_awaits := m\<rparr>) \<and> P (s\<lparr>at_awaits := m, at_slept := r\<rparr>))"

lemma timelessD:
  "timeless P \<Longrightarrow> P s \<Longrightarrow> P (s\<lparr>at_ticks := n\<rparr>)"
  "timeless P \<Longrightarrow> P s \<Longrightarrow> P (s\<lparr>at_awaits := m\<rparr>)"
  "timeless P \<Longrightarrow> P s \<Longrightarrow> P (s\<lparr>at_awaits := m, at_slept := r\<rparr>)"
  by (simp_all add: timeless_def)

lemma timeless_facts [intro]:
  "timeless core" "timeless before" "timeless typed" "timeless pressed" "timeless (room n)"
  "timeless P \<Longrightarrow> timeless Q \<Longrightarrow> timeless (\<lambda>s. P s \<and> Q s)"
  "timeless (\<lambda>s. at_sequence s = k)" "timeless (\<lambda>s. at_t0 s = t)" "timeless (\<lambda>s. at_baseline s = b)"
  by (auto simp: timeless_def core_def before_def typed_def pressed_def room_def texts_def enters_def ends_def)

lemma wp_frame:
  assumes "timeless P" "P s"
  shows "wp (stopped w d) (\<lambda>_. P) s" "wp (budget_short w k d) (\<lambda>_. P) s" "wp (late w d t) (\<lambda>_. P) s"
    "wp (internal_result w ctx) (\<lambda>_. P) s" "wp (internal_sample w ctx) (\<lambda>_. P) s" "wp (judge_sample w ctx x) (\<lambda>_. P) s"
    "wp (stop_reason w) (\<lambda>_. P) s" "wp (sleep_ms w r) (\<lambda>_. P) s" "wp (now w) (\<lambda>_. P) s" "wp (aborted w) (\<lambda>_. P) s"
  using assms by (simp_all add: stopped_def budget_short_def late_def internal_result_def internal_sample_def judge_sample_def
      stop_reason_def timelessD)

lemma wp_send:
  assumes "timeless P" "P s"
  shows "wp (send w f ctx) (\<lambda>_. P) s"
proof -
  have late: "wp (do { l \<leftarrow> late w d t; a \<leftarrow> aborted w; State_Monad.return (g l a) }) (\<lambda>_. P) s'" if "P s'" for s' d t g
    unfolding wp_basic by (rule wp_mono [OF wp_frame(3) [OF assms(1) that]]) simp
  have rest: "wp (let r = h r in if sd_kind r = Not_sent then State_Monad.return r
      else do { l \<leftarrow> late w d (sd_finished r); a \<leftarrow> aborted w; State_Monad.return (g r l a) }) (\<lambda>_. P) s'" if "P s'" for r h d g s'
    unfolding Let_def using that late [OF that, of d "sd_finished (h r)" "g (h r)"]
    by (cases "sd_kind (h r) = Not_sent") simp_all
  have answer: "wp (case x of Some r \<Rightarrow> State_Monad.return r | None \<Rightarrow> internal_result w ctx) (\<lambda>_. P) s'" if "P s'" for x s'
    using that wp_frame(4) [OF assms(1) that] by (cases x) simp_all
  show ?thesis
    unfolding send_def wp_basic wp_clock
    by (rule wp_mono [OF answer], rule timelessD [OF assms], rule rest)
qed

text \<open>The facts a status query leaves alone: it spends a sequence number, logs, and may record what it saw.\<close>

definition queried :: "(attempt \<Rightarrow> bool) \<Rightarrow> bool" where
  "queried P \<longleftrightarrow> timeless P \<and> (\<forall>s. P s \<longrightarrow> P (s\<lparr>at_sequence := Suc (at_sequence s)\<rparr>)) \<and>
     (\<forall>s c x. P s \<longrightarrow> P (s\<lparr>at_out := at_out s @ [Read_status c]\<rparr>) \<and> P (s\<lparr>at_out := at_out s @ [Log_sample x]\<rparr>)) \<and>
     (\<forall>s l e. P s \<longrightarrow> 0 < at_sequence s \<longrightarrow>
        P (s\<lparr>at_last := l, at_status_error := e, at_last_sequence := Some (at_sequence s)\<rparr>))"

lemma queried_facts: "queried before" "queried typed" "queried pressed"
  by (auto simp: queried_def intro: timeless_facts) (auto simp: before_def typed_def pressed_def core_def texts_def enters_def ends_def)

lemma wp_next_call:
  assumes "timeless P" "P (s\<lparr>at_sequence := Suc (at_sequence s)\<rparr>)"
  shows "wp (next_call w k d) (\<lambda>ctx s'. P s' \<and> cc_sequence ctx = Suc (at_sequence s) \<and> at_sequence s' = Suc (at_sequence s) \<and>
    cc_deadline ctx \<le> d) s"
  using assms by (simp add: next_call_def timelessD)

lemma wp_read:
  assumes "queried P" "P s" "room (Suc n) s"
  shows "wp (read_status w k d q) (\<lambda>x s'. P s' \<and> room n s' \<and>
    (sp_error x = None \<longrightarrow> at_last s' = sp_status x \<and> at_status_error s' = None)) s"
proof -
  let ?N = "Suc (at_sequence s)"
  let ?P = "\<lambda>s'. P s' \<and> at_sequence s' = ?N"
  have t: "timeless ?P" "timeless P"
    using assms(1) by (auto simp: queried_def timeless_def)
  have room: "room n s'" if "at_sequence s' = ?N" for s'
    using assms(3) that by (simp add: room_def)
  have answer: "wp (case x of Some r \<Rightarrow> State_Monad.return r | None \<Rightarrow> internal_sample w ctx) (\<lambda>_. ?P) s'" if "?P s'" for x ctx s'
    using that wp_frame(5) [OF t(1) that] by (cases x) simp_all
  have accept: "?P (accept_sample ctx x s') \<and> (sp_error x = None \<longrightarrow> at_last (accept_sample ctx x s') = sp_status x \<and>
      at_status_error (accept_sample ctx x s') = None)" if "?P s'" "cc_sequence ctx = ?N" for ctx x s'
    using that assms(1) by (auto simp: accept_sample_def queried_def split: option.splits)
  have log: "?P (s'\<lparr>at_out := at_out s' @ [Log_sample x]\<rparr>)" if "?P s'" for s' x
    using that assms(1) by (auto simp: queried_def)
  have finish: "wp (do { modify (accept_sample ctx x);
        (if silent then State_Monad.return () else emit (Log_sample x)); State_Monad.return x })
      (\<lambda>x s'. P s' \<and> room n s' \<and> (sp_error x = None \<longrightarrow> at_last s' = sp_status x \<and> at_status_error s' = None)) s'"
    if "?P s'" "cc_sequence ctx = ?N" for ctx x silent s'
    using accept [OF that] log [of "accept_sample ctx x s'" x] room by (cases silent) simp_all
  have call: "wp (do { emit (Read_status ctx); answer \<leftarrow> await (dw_read w);
        x \<leftarrow> (case answer of Some x \<Rightarrow> State_Monad.return x | None \<Rightarrow> internal_sample w ctx);
        x \<leftarrow> judge_sample w ctx x; modify (accept_sample ctx x);
        (if silent then State_Monad.return () else emit (Log_sample x)); State_Monad.return x })
      (\<lambda>x s'. P s' \<and> room n s' \<and> (sp_error x = None \<longrightarrow> at_last s' = sp_status x \<and> at_status_error s' = None)) s'"
    if "?P s'" and c: "cc_sequence ctx = ?N" for ctx silent s'
  proof -
    have "?P (s'\<lparr>at_out := at_out s' @ [Read_status ctx]\<rparr>)"
      using that assms(1) by (auto simp: queried_def)
    from timelessD(2) [OF t(1) this] show ?thesis
      unfolding wp_basic wp_clock
      by (intro wp_mono [OF answer] wp_mono [OF wp_frame(6) [OF t(1)]] finish [unfolded wp_basic] c) assumption+
  qed
  have "P (s\<lparr>at_sequence := ?N\<rparr>)"
    using assms(1,2) by (auto simp: queried_def)
  from wp_next_call [OF t(2) this] show ?thesis
    unfolding read_status_def wp_basic
    by (rule wp_mono) (rule call [unfolded wp_basic], simp_all)
qed

section \<open>Every end of an attempt\<close>

text \<open>
  What holds of an attempt that ended: it typed and pressed at most once, pressed only after a text that was sent, and
  gave up exactly once with evidence the receiver accepts, or has provably typed nothing.
\<close>

definition ended :: "delivery_options \<Rightarrow> delivery_input \<Rightarrow> outcome \<Rightarrow> attempt \<Rightarrow> bool" where
  "ended o' i out s \<longleftrightarrow> texts s \<le> 1 \<and> enters s \<le> texts s \<and> (enters s = 1 \<longrightarrow> at_text s = Sent) \<and>
     (case out of
        Not_delivered r \<Rightarrow> enters s = 0 \<and> (texts s = 1 \<longrightarrow> at_text s = Not_sent) \<and> ends s = []
      | Unconfirmed r t e \<Rightarrow> \<exists>ev.
          ends s = Log_give_up ev # (if op_escalate o' then [Escalate (pi_pane (di_target i)) ev] else []) \<and>
          evidence_ok ev \<and> ev_reason ev = r \<and> ev_text ev = t \<and> ev_enter ev = e)"

definition named :: "delivery_world \<Rightarrow> delivery_input \<Rightarrow> bool" where
  "named w i \<longleftrightarrow> \<not> blank (dw_attempt w) \<and> \<not> blank (pi_pane (di_target i))"

definition uncertain_text :: "attempt \<Rightarrow> bool" where
  "uncertain_text s \<longleftrightarrow> core s \<and> at_text_calls s = 1 \<and> at_text s = Uncertain \<and> at_text_error s \<noteq> None \<and> at_enter s = None"

definition may_end :: "give_up_reason \<Rightarrow> attempt \<Rightarrow> bool" where
  "may_end r s \<longleftrightarrow> room 0 s \<and>
     (before s \<and> r \<in> {R_baseline_unknown, R_identity_invalid, R_cancelled, R_deadline} \<or>
      typed s \<and> r \<notin> {R_text_uncertain, R_attribution_unavailable, R_baseline_unknown} \<or>
      uncertain_text s \<and> r = R_text_uncertain)"

lemma may_end_core: "may_end r s \<Longrightarrow> core s \<and> texts s \<le> 1 \<and> enters s \<le> texts s \<and> (enters s = 1 \<longrightarrow> at_text s = Sent)"
  by (auto simp: may_end_def before_def typed_def uncertain_text_def core_def)

lemma core_evidence:
  assumes "core s" "room 0 s" "named w i"
  shows "\<not> blank (ev_attempt (evidence_of w o' k i start r t s)) \<and> \<not> blank (ev_pane (evidence_of w o' k i start r t s)) \<and>
    0 \<le> ev_total (evidence_of w o' k i start r t s) \<and>
    (\<forall>n. ev_sequence (evidence_of w o' k i start r t s) = Some n \<longrightarrow> 0 < n \<and> n \<le> 9007199254740991) \<and>
    (\<forall>b e. ev_wait (evidence_of w o' k i start r t s) = Some (b, e) \<longrightarrow> 0 \<le> b \<and> 0 \<le> e) \<and>
    enter_part (evidence_of w o' k i start r t s)"
proof -
  have "0 < n \<and> n \<le> 9007199254740991" if "at_last_sequence s = Some n" for n
    using assms(1,2) that by (auto simp: core_def room_def)
  moreover have "enter_part (evidence_of w o' k i start r t s)"
  proof (cases "at_enter s")
    case None
    then show ?thesis using assms(1) by (simp add: enter_part_def evidence_of_def core_def)
  next
    case (Some x)
    then obtain t0 where "at_t0 s = Some t0" "x = Sent \<longleftrightarrow> at_enter_error s = None"
      using assms(1) by (auto simp: core_def)
    then show ?thesis using Some by (simp add: enter_part_def evidence_of_def)
  qed
  ultimately show ?thesis
    using assms(1,3) by (auto simp: evidence_of_def named_def core_def split: option.splits)
qed

lemma may_end_evidence:
  assumes "may_end r s" "named w i"
  shows "evidence_ok (evidence_of w o' k i start r t s)"
proof -
  have s: "core s" "room 0 s" using assms(1) may_end_core by (auto simp: may_end_def)
  have "ev_text_calls (evidence_of w o' k i start r t s) = 0 \<and> before_text (evidence_of w o' k i start r t s) \<or>
      ev_text_calls (evidence_of w o' k i start r t s) = 1 \<and> after_text (evidence_of w o' k i start r t s)"
    using assms(1) by (auto simp: may_end_def before_def typed_def uncertain_text_def core_def evidence_of_def before_text_def after_text_def)
  moreover have "flip_part (evidence_of w o' k i start r t s)"
    using assms(1) s(1) by (auto simp: may_end_def core_def evidence_of_def flip_part_def)
  ultimately show ?thesis
    using core_evidence [OF s assms(2)] by (auto simp: evidence_ok_def)
qed

lemma wp_give_up:
  assumes "evidence_ok (evidence_of w o' k i start r t s)" "ends s = []"
    "texts s \<le> 1" "enters s \<le> texts s" "enters s = 1 \<longrightarrow> at_text s = Sent"
  shows "wp (give_up w o' k i start r t) (ended o' i) s"
proof -
  have "ev_reason (evidence_of w o' k i start r t s) = r" "ev_text (evidence_of w o' k i start r t s) = at_text s"
    "ev_enter (evidence_of w o' k i start r t s) = at_enter s"
    by (simp_all add: evidence_of_def)
  with assms show ?thesis
    by (simp add: give_up_def Let_def ended_def)
qed

lemma wp_finish:
  assumes "may_end r s" "named w i"
  shows "wp (finish w o' k i start r) (ended o' i) s"
proof -
  let ?s = "s\<lparr>at_ticks := Suc (at_ticks s)\<rparr>"
  have "may_end r ?s"
    using assms(1) by (auto simp: may_end_def uncertain_text_def intro: timelessD [OF timeless_facts(1)]
        timelessD [OF timeless_facts(2)] timelessD [OF timeless_facts(3)] timelessD [OF timeless_facts(5)])
  note m = may_end_evidence [OF this assms(2)] may_end_core [OF this]
  show ?thesis
    unfolding finish_def wp_basic wp_clock
    by (rule wp_give_up [OF m(1)]) (use m(2) in \<open>auto simp: core_def\<close>)
qed

lemma wp_finish_some:
  assumes "may_end r s" "named w i"
  shows "wp (do { x \<leftarrow> finish w o' k i start r; State_Monad.return (f x) }) (\<lambda>y s'. \<exists>x. y = f x \<and> ended o' i x s') s"
  unfolding wp_basic by (rule wp_mono [OF wp_finish [OF assms]]) auto

section \<open>The phases keep the books\<close>

lemma room_0: "room n s \<Longrightarrow> room 0 s"
  by (simp add: room_def)

lemma may_end_before: "before s \<Longrightarrow> room n s \<Longrightarrow> r \<in> {R_baseline_unknown, R_identity_invalid, R_cancelled, R_deadline} \<Longrightarrow> may_end r s"
  by (auto simp: may_end_def room_0)

lemma may_end_typed: "typed s \<Longrightarrow> room n s \<Longrightarrow> r \<notin> {R_text_uncertain, R_attribution_unavailable, R_baseline_unknown} \<Longrightarrow> may_end r s"
  by (auto simp: may_end_def room_0)

lemma timeless_conj: "timeless P \<Longrightarrow> timeless (room n) \<Longrightarrow> timeless (\<lambda>s. P s \<and> room n s)"
  by (simp add: timeless_def)

lemma wp_baseline_body:
  assumes "before s" "room n s" "named w i"
  shows "wp (baseline_body w o' k i start readiness x settling)
    (\<lambda>r s'. case r of
       Inl (Some out) \<Rightarrow> ended o' i out s'
     | Inl None \<Rightarrow> before s' \<and> room n s' \<and> at_baseline s' \<noteq> S_unknown
     | Inr _ \<Rightarrow> before s' \<and> room n s') s"
proof -
  let ?b = "if sp_error x = None then sp_status x else S_unknown"
  let ?Q = "\<lambda>r s'. case r of
       Inl (Some out) \<Rightarrow> ended o' i out s'
     | Inl None \<Rightarrow> before s' \<and> room n s' \<and> at_baseline s' \<noteq> S_unknown
     | Inr (_ :: bool) \<Rightarrow> before s' \<and> room n s'"
  have stop: "wp (do { r \<leftarrow> finish w o' k i start why; State_Monad.return (Inl (Some r)) }) ?Q s"
    if "why \<in> {R_identity_invalid, R_cancelled}" for why
  proof (rule wp_mono [OF wp_finish_some [OF may_end_before [OF assms(1,2)] assms(3)]])
    show "why \<in> {R_baseline_unknown, R_identity_invalid, R_cancelled, R_deadline}" using that by auto
  qed auto
  show ?thesis
  proof (cases "dw_aborted w (at_awaits s) \<or> invalidIdentity x")
    case True
    then show ?thesis
      using stop [of R_cancelled] stop [of R_identity_invalid] by (auto simp: baseline_body_def)
  next
    case False
    then show ?thesis
      using assms(1,2) by (auto simp: baseline_body_def Let_def before_def core_def texts_def enters_def ends_def room_def)
  qed
qed

lemma wp_baseline_window:
  assumes "before s" "room (n + m) s" "named w i"
  shows "wp (baseline_window n w o' k i start readiness)
    (\<lambda>r s'. case r of
       None \<Rightarrow> True
     | Some (Inl (Some out)) \<Rightarrow> ended o' i out s'
     | Some (Inl None) \<Rightarrow> before s' \<and> room m s'
     | Some (Inr _) \<Rightarrow> before s' \<and> room m s') s"
proof -
  let ?I = "\<lambda>j (c::bool) s. before s \<and> room (j + m) s"
  let ?Q = "\<lambda>e s'. case e of Some out \<Rightarrow> ended o' i out s' | None \<Rightarrow> before s' \<and> room m s'"
  have less: "room (Suc j + m) s' \<Longrightarrow> room (j + m) s'" "room (j + m) s' \<Longrightarrow> room m s'" for j s'
    by (simp_all add: room_def)
  have t: "timeless (\<lambda>s. before s \<and> room (j + m) s)" for j
    by (intro timeless_conj timeless_facts)
  have "wp (baseline_window n w o' k i start readiness)
    (\<lambda>r s'. case r of None \<Rightarrow> True | Some (Inl e) \<Rightarrow> ?Q e s' | Some (Inr c') \<Rightarrow> ?I 0 c' s') s"
    unfolding baseline_window_def
  proof (rule wp_window [where I = ?I and Q = ?Q])
    show "wp (read_status w k readiness (\<lambda>s. at_wait_start s \<noteq> None))
        (\<lambda>x. wp (baseline_body w o' k i start readiness x c)
          (\<lambda>r s'. case r of Inl e \<Rightarrow> ?Q e s' | Inr c' \<Rightarrow> ?I j c' s')) s'" if "?I (Suc j) c s'" for j c s'
    proof (rule wp_mono [OF wp_read [where P = before and n = "j + m"]])
      show "queried before" by (rule queried_facts)
      fix x :: status_sample and s2
      assume "before s2 \<and> room (j + m) s2 \<and> (sp_error x = None \<longrightarrow> at_last s2 = sp_status x \<and> at_status_error s2 = None)"
      then show "wp (baseline_body w o' k i start readiness x c) (\<lambda>r s'. case r of Inl e \<Rightarrow> ?Q e s' | Inr c' \<Rightarrow> ?I j c' s') s2"
        by (intro wp_mono [OF wp_baseline_body [where n = "j + m", OF _ _ assms(3)]])
          (auto split: sum.splits option.splits dest: less(2))
    qed (use that in simp_all)
  qed (use assms less wp_frame [OF t] in auto)
  then show ?thesis
    by (rule wp_mono) (auto split: option.splits sum.splits)
qed

lemma evidence_flip:
  "evidence_of w o' k i start r t (s\<lparr>at_flip := True\<rparr>) = (evidence_of w o' k i start r t s)\<lparr>ev_flip := True\<rparr>"
  "enter_part (e\<lparr>ev_flip := True\<rparr>) = enter_part e"
  by (simp_all add: evidence_of_def enter_part_def cong: option.case_cong)

lemma wp_observe_body:
  assumes "pressed s" "room n s" "named w i" "sp_error x = None \<longrightarrow> at_last s = sp_status x \<and> at_status_error s = None"
    and t0: "at_t0 s = Some t0" and deadline: "deadline \<le> t0 + of_nat (kn_flip k)" and flip: "1 \<le> kn_flip k"
  shows "wp (observe_body w o' k i start deadline x known)
    (\<lambda>r s'. case r of
       Inl (Some out, _) \<Rightarrow> ended o' i out s'
     | Inl (None, _) \<Rightarrow> pressed s' \<and> room n s'
     | Inr _ \<Rightarrow> pressed s' \<and> room n s' \<and> at_t0 s' = Some t0) s"
proof -
  let ?Q = "\<lambda>r s'. case r of
       Inl (Some out, _) \<Rightarrow> ended o' i out s'
     | Inl (None, _) \<Rightarrow> pressed s' \<and> room n s'
     | Inr (_ :: bool) \<Rightarrow> pressed s' \<and> room n s' \<and> at_t0 s' = Some t0"
  let ?t = "dw_now w (at_ticks s) + at_slept s"
  let ?s = "s\<lparr>at_ticks := Suc (at_ticks s)\<rparr>"
  have s': "pressed ?s" "room n ?s"
    using assms(1,2) by (auto intro: timelessD timeless_facts)
  have stop: "wp (do { r \<leftarrow> finish w o' k i start why; State_Monad.return (Inl (Some r, known)) }) ?Q s2"
    if "pressed s2" "room n s2" "why \<in> {R_identity_invalid, R_cancelled}" for why s2
    by (rule wp_mono [OF wp_finish_some [OF may_end_typed [OF _ that(2)] assms(3)]]) (use that in \<open>auto simp: pressed_def\<close>)
  have flipped: "wp (do { r \<leftarrow> give_up w o' k i start R_attribution_unavailable ?t; State_Monad.return (Inl (Some r, True)) })
      ?Q (?s\<lparr>at_flip := True\<rparr>)" if "?t < deadline" "sp_error x = None" "sp_status x = S_working"
  proof -
    let ?f = "?s\<lparr>at_flip := True\<rparr>"
    let ?e = "evidence_of w o' k i start R_attribution_unavailable ?t ?f"
    have "?t - t0 < of_nat (kn_flip k)" using that(1) deadline by linarith
    then have "flip_part ?e"
      using assms(1,4) that t0 flip by (auto simp: flip_part_def evidence_of_def pressed_def typed_def)
    moreover have "core ?s" using s' by (simp add: pressed_def typed_def)
    from core_evidence [OF this room_0 [OF s'(2)] assms(3), of o' k start R_attribution_unavailable ?t]
    have "\<not> blank (ev_attempt ?e) \<and> \<not> blank (ev_pane ?e) \<and> 0 \<le> ev_total ?e \<and>
      (\<forall>n. ev_sequence ?e = Some n \<longrightarrow> 0 < n \<and> n \<le> 9007199254740991) \<and>
      (\<forall>b t. ev_wait ?e = Some (b, t) \<longrightarrow> 0 \<le> b \<and> 0 \<le> t) \<and> enter_part ?e"
      unfolding evidence_flip by simp
    moreover have "ev_text_calls ?e = 1" "after_text ?e"
      using assms(1) by (auto simp: evidence_of_def after_text_def pressed_def typed_def)
    ultimately have "evidence_ok ?e" by (simp add: evidence_ok_def)
    moreover have "ends ?f = [] \<and> texts ?f \<le> 1 \<and> enters ?f \<le> texts ?f \<and> (enters ?f = 1 \<longrightarrow> at_text ?f = Sent)"
      using assms(1) by (auto simp: pressed_def typed_def core_def texts_def enters_def ends_def)
    ultimately show ?thesis
      unfolding wp_basic by (intro wp_mono [OF wp_give_up]) auto
  qed
  show ?thesis
  proof (cases "dw_aborted w (at_awaits s)")
    case True
    then show ?thesis using stop [OF assms(1,2), of R_cancelled] by (simp add: observe_body_def)
  next
    case False
    then show ?thesis
      using s' t0 stop [OF s', of R_identity_invalid] flipped
      by (auto simp: observe_body_def)
  qed
qed

definition ended_if :: "delivery_options \<Rightarrow> delivery_input \<Rightarrow> outcome option \<Rightarrow> attempt \<Rightarrow> bool" where
  "ended_if o' i r s \<longleftrightarrow> (\<forall>out. r = Some out \<longrightarrow> ended o' i out s)"

lemma ended_if_None [simp]: "ended_if o' i None s"
  by (simp add: ended_if_def)

lemma wp_end:
  assumes "may_end r s" "named w i"
  shows "wp (do { x \<leftarrow> finish w o' k i start r; State_Monad.return (Some x) }) (ended_if o' i) s"
  by (rule wp_mono [OF wp_finish_some [OF assms]]) (auto simp: ended_if_def)

lemma wp_observe_window:
  assumes "pressed s" "room (n + m) s" "named w i" "at_t0 s = Some t0"
    "deadline \<le> t0 + of_nat (kn_flip k)" "1 \<le> kn_flip k"
  shows "wp (observe_window n w o' k i start deadline)
    (\<lambda>r s'. case r of
       None \<Rightarrow> True
     | Some (Inl (Some out, _)) \<Rightarrow> ended o' i out s'
     | Some (Inl (None, _)) \<Rightarrow> pressed s' \<and> room m s'
     | Some (Inr _) \<Rightarrow> pressed s' \<and> room m s') s"
proof -
  let ?P = "\<lambda>s. pressed s \<and> at_t0 s = Some t0"
  let ?I = "\<lambda>j (c::bool) s. ?P s \<and> room (j + m) s"
  let ?Q = "\<lambda>e s'. case e of (Some out, (_ :: bool)) \<Rightarrow> ended o' i out s' | (None, _) \<Rightarrow> pressed s' \<and> room m s'"
  have less: "room (Suc j + m) s' \<Longrightarrow> room (j + m) s'" "room (j + m) s' \<Longrightarrow> room m s'" for j s'
    by (simp_all add: room_def)
  have t: "timeless (\<lambda>s. ?P s \<and> room (j + m) s)" for j
    by (intro timeless_conj timeless_facts)
  have q: "queried ?P"
    using queried_facts(3) timeless_facts(6) [OF timeless_facts(4) timeless_facts(8)] by (simp add: queried_def)
  have "wp (observe_window n w o' k i start deadline)
    (\<lambda>r s'. case r of None \<Rightarrow> True | Some (Inl e) \<Rightarrow> ?Q e s' | Some (Inr c') \<Rightarrow> ?I 0 c' s') s"
    unfolding observe_window_def
  proof (rule wp_window [where I = ?I and Q = ?Q])
    show "wp (read_status w k deadline (\<lambda>_. False))
        (\<lambda>x. wp (observe_body w o' k i start deadline x c)
          (\<lambda>r s'. case r of Inl e \<Rightarrow> ?Q e s' | Inr c' \<Rightarrow> ?I j c' s')) s'" if "?I (Suc j) c s'" for j c s'
    proof (rule wp_mono [OF wp_read [OF q, where n = "j + m"]])
      fix x :: status_sample and s2
      assume "?P s2 \<and> room (j + m) s2 \<and> (sp_error x = None \<longrightarrow> at_last s2 = sp_status x \<and> at_status_error s2 = None)"
      then show "wp (observe_body w o' k i start deadline x c) (\<lambda>r s'. case r of Inl e \<Rightarrow> ?Q e s' | Inr c' \<Rightarrow> ?I j c' s') s2"
        by (intro wp_mono [OF wp_observe_body [where n = "j + m", OF _ _ assms(3) _ _ assms(5,6)]])
          (auto split: sum.splits option.splits prod.splits dest: less(2))
    qed (use that in simp_all)
  qed (use assms less wp_frame [OF t] in auto)
  then show ?thesis
    by (rule wp_mono) (auto split: option.splits sum.splits prod.splits)
qed

lemma wp_exhausted:
  assumes "pressed s" "room m s" "named w i"
  shows "wp (do { out \<leftarrow> exhausted w o' k i start known; State_Monad.return (Some out) }) (ended_if o' i) s"
  using wp_end [OF may_end_typed [OF _ assms(2)] assms(3)] assms(1)
  by (simp add: exhausted_def pressed_def)

lemma wp_observe_phase:
  assumes "pressed s" "room n s" "named w i" "at_t0 s = Some t0"
    "deadline \<le> t0 + of_nat (kn_flip k)" "1 \<le> kn_flip k"
  shows "wp (observe_phase n w o' k i start deadline) (ended_if o' i) s"
proof -
  have ex: "wp (exhausted w o' k i start known) (\<lambda>out. wp (State_Monad.return (Some out)) (ended_if o' i)) s'"
    if "pressed s'" "room 0 s'" for known s'
    using wp_exhausted [OF that assms(3)] by (simp only: wp_basic)
  have "room (n + 0) s" using assms(2) by simp
  from wp_observe_window [OF assms(1) this assms(3-6)] show ?thesis
    unfolding observe_phase_def wp_basic
    by (rule wp_mono) (auto simp: ex ended_if_def split: option.splits sum.splits prod.splits)
qed

definition settled :: "attempt \<Rightarrow> bool" where
  "settled s \<longleftrightarrow> typed s \<and> at_enter s = None \<and> at_baseline s \<noteq> S_unknown"

lemma timeless_settled: "timeless settled"
  by (auto simp: timeless_def settled_def typed_def core_def texts_def enters_def ends_def)

lemma wp_start_flip:
  assumes "settled s" "room n s"
  shows "wp (start_flip w) (\<lambda>t s'. settled s' \<and> room n s' \<and> at_t0 s' = Some t) s"
  using assms by (cases "at_t0 s")
    (auto simp: start_flip_def settled_def typed_def core_def texts_def enters_def ends_def room_def)

lemma fault_of_None [simp]: "fault_of r = None \<longleftrightarrow> sd_kind r = Sent"
  by (simp add: fault_of_def)

text \<open>While the answer to Enter is awaited: whatever it is, the books will be in order.\<close>

definition pressing :: "nat \<Rightarrow> rat \<Rightarrow> attempt \<Rightarrow> bool" where
  "pressing n t s \<longleftrightarrow> room n s \<and> at_t0 s = Some t \<and> at_baseline s \<noteq> S_unknown \<and>
     (\<forall>x e. (x = Sent \<longleftrightarrow> e = None) \<longrightarrow> typed (s\<lparr>at_enter := Some x, at_enter_error := e\<rparr>))"

lemma timeless_pressing: "timeless (pressing n t)"
  by (auto simp: timeless_def pressing_def room_def typed_def core_def texts_def enters_def ends_def)

lemma pressing_start:
  "settled s \<Longrightarrow> room n s \<Longrightarrow> at_t0 s = Some t \<Longrightarrow> pressing n t (s\<lparr>at_out := at_out s @ [Send_enter ctx]\<rparr>)"
  by (auto simp: pressing_def settled_def room_def typed_def core_def texts_def enters_def ends_def)

lemma wp_enter_phase:
  assumes "settled s" "room (Suc n) s" "named w i" "1 \<le> kn_flip k"
  shows "wp (enter_phase n w o' k i start limit) (ended_if o' i) s"
proof -
  have answer: "wp (do { modify (\<lambda>s. s\<lparr>at_enter := Some (sd_kind e), at_enter_error := fault_of e\<rparr>);
      emit (Log_enter (sd_kind e) (fault_of e)); a \<leftarrow> aborted w; baseline \<leftarrow> gets at_baseline;
      if a then do { r \<leftarrow> finish w o' k i start R_cancelled; State_Monad.return (Some r) }
      else if sd_kind e \<noteq> Sent then do {
        r \<leftarrow> finish w o' k i start (if sd_kind e = Not_sent then R_enter_not_sent else R_enter_uncertain);
        State_Monad.return (Some r) }
      else if baseline = S_working then do { r \<leftarrow> finish w o' k i start R_baseline_working; State_Monad.return (Some r) }
      else observe_phase n w o' k i start (flip_deadline k t limit) }) (ended_if o' i) s'"
    if p: "pressing n t s'" for e t s'
  proof -
    let ?s = "s'\<lparr>at_enter := Some (sd_kind e), at_enter_error := fault_of e,
      at_out := at_out s' @ [Log_enter (sd_kind e) (fault_of e)]\<rparr>"
    have typed: "typed ?s" and room: "room n ?s" and t: "at_t0 ?s = Some t" and b: "at_baseline ?s \<noteq> S_unknown"
      using p by (auto simp: pressing_def room_def typed_def core_def texts_def enters_def ends_def)
    have stop: "wp (finish w o' k i start r) (\<lambda>x. wp (State_Monad.return (Some x)) (ended_if o' i)) ?s"
      if "r \<notin> {R_text_uncertain, R_attribution_unavailable, R_baseline_unknown}" for r
      using wp_end [OF may_end_typed [OF typed room that] assms(3)] by (simp only: wp_basic)
    have "pressed ?s" if "sd_kind e = Sent" "at_baseline s' \<noteq> S_working"
      using typed b that by (cases "at_baseline s'") (simp_all add: pressed_def)
    then have watch: "wp (observe_phase n w o' k i start (flip_deadline k t limit)) (ended_if o' i) ?s"
      if "sd_kind e = Sent" "at_baseline s' \<noteq> S_working"
      using wp_observe_phase [OF _ room assms(3) t _ assms(4)] that by (simp add: flip_deadline_def)
    show ?thesis
      using stop [of R_cancelled] stop [of R_enter_not_sent] stop [of R_enter_uncertain] stop [of R_baseline_working] watch
      by (cases "dw_aborted w (at_awaits s')"; cases "sd_kind e"; cases "at_baseline s' = S_working") simp_all
  qed
  have after: "wp (do { entered \<leftarrow> send w (dw_enter w) ctx; m entered }) Q s'"
    if "pressing n t s'" "\<And>e s2. pressing n t s2 \<Longrightarrow> wp (m e) Q s2" for ctx t s' m and Q :: "outcome option \<Rightarrow> attempt \<Rightarrow> bool"
    unfolding wp_basic by (rule wp_mono [OF wp_send [OF timeless_pressing that(1)] that(2)])
  have call: "wp (do { ctx \<leftarrow> next_call w k (flip_deadline k t limit); emit (Send_enter ctx);
      entered \<leftarrow> send w (dw_enter w) ctx; m entered }) Q s'"
    if "settled s'" "room (Suc n) s'" "at_t0 s' = Some t" "\<And>e s2. pressing n t s2 \<Longrightarrow> wp (m e) Q s2"
    for t s' m and Q :: "outcome option \<Rightarrow> attempt \<Rightarrow> bool"
  proof -
    let ?P = "\<lambda>s. settled s \<and> room n s \<and> at_t0 s = Some t"
    have "timeless ?P" by (intro timeless_facts timeless_settled)
    moreover have "?P (s'\<lparr>at_sequence := Suc (at_sequence s')\<rparr>)"
      using that(1-3) by (auto simp: settled_def typed_def core_def texts_def enters_def ends_def room_def)
    ultimately show ?thesis
      unfolding wp_basic
      by (intro wp_mono [OF wp_next_call [where P = ?P]]) (simp_all add: after [OF pressing_start that(4), unfolded wp_basic])
  qed
  show ?thesis
    unfolding enter_phase_def Let_def
    by (subst wp_basic(2), rule wp_mono [OF wp_start_flip [OF assms(1,2)]]) (rule call, simp_all add: answer del: wp_basic)
qed

lemma settled_log [simp]: "settled (s\<lparr>at_out := at_out s @ [Log_settle p]\<rparr>) = settled s"
  "room n (s\<lparr>at_out := at_out s @ as\<rparr>) = room n s"
  by (simp_all add: settled_def typed_def core_def room_def)

lemma wp_settle:
  assumes "settled s" "room n s" "named w i"
  shows "wp (settle w o' k i start limit) (\<lambda>r s'. case r of Some out \<Rightarrow> ended o' i out s' | None \<Rightarrow> settled s' \<and> room n s') s"
    (is "wp _ ?Q s")
proof -
  let ?P = "\<lambda>s. settled s \<and> room n s"
  have t: "timeless ?P"
    by (intro timeless_conj timeless_settled timeless_facts)
  have stop: "wp (do { why \<leftarrow> stop_reason w; r \<leftarrow> finish w o' k i start why; State_Monad.return (Some r) }) ?Q s'" if "?P s'" for s'
  proof -
    have "wp (do { r \<leftarrow> finish w o' k i start why; State_Monad.return (Some r) }) ?Q s'"
      if "why \<in> {R_cancelled, R_deadline}" for why
      by (rule wp_mono [OF wp_finish_some [OF may_end_typed [where n = n] assms(3)]])
        (use that \<open>?P s'\<close> in \<open>auto simp: settled_def\<close>)
    then show ?thesis by (simp add: stop_reason_def)
  qed
  have over: "wp (do { over \<leftarrow> (if st then State_Monad.return True else do { t' \<leftarrow> now w; State_Monad.return (d \<le> t') });
      if over then do { why \<leftarrow> stop_reason w; r \<leftarrow> finish w o' k i start why; State_Monad.return (Some r) }
      else State_Monad.return None }) ?Q s'" if "?P s'" for st d s'
    using stop [OF that] stop [OF timelessD(1) [OF t that]] timelessD(1) [OF t that] by (cases st) simp_all
  have pause: "wp (do { emit (Log_settle p); sleep_ms w p; st \<leftarrow> stopped w limit; m st }) ?Q s'"
    if "?P s'" "\<And>st s2. ?P s2 \<Longrightarrow> wp (m st) ?Q s2" for p m s'
  proof -
    have "?P (s'\<lparr>at_out := at_out s' @ [Log_settle p]\<rparr>)" using that(1) by simp
    from timelessD(3) [OF t this] show ?thesis
      unfolding wp_basic wp_clock by (intro wp_mono [OF wp_frame(1) [OF t]] that(2)) assumption+
  qed
  show ?thesis
    unfolding settle_def Let_def
    by (subst wp_basic(2), rule wp_mono [OF wp_start_flip [OF assms(1,2)]], subst wp_basic(2), subst wp_clock(1))
      (rule pause [OF timelessD(1) [OF t]], simp, rule over)
qed

lemma wp_pause_phase:
  assumes "settled s" "room (Suc n) s" "named w i" "1 \<le> kn_flip k"
  shows "wp (pause_phase n w o' k i start limit) (ended_if o' i) s"
proof -
  have "wp (do { r \<leftarrow> settle w o' k i start limit;
      (case r of Some out \<Rightarrow> State_Monad.return (Some out) | None \<Rightarrow> enter_phase n w o' k i start limit) }) (ended_if o' i) s"
    unfolding wp_basic
    by (rule wp_mono [OF wp_settle [OF assms(1-3)]])
      (auto simp: ended_if_def [of _ _ "Some _"] wp_enter_phase [OF _ _ assms(3,4)] split: option.split)
  then show ?thesis
    using wp_enter_phase [OF assms] unfolding pause_phase_def wp_if by simp
qed

text \<open>While the answer to the text is awaited.\<close>

definition typing :: "nat \<Rightarrow> attempt \<Rightarrow> bool" where
  "typing n s \<longleftrightarrow> room n s \<and> core s \<and> at_text_calls s = 1 \<and> at_enter s = None \<and> at_baseline s \<noteq> S_unknown"

lemma timeless_typing: "timeless (typing n)"
  by (auto simp: timeless_def typing_def room_def core_def texts_def enters_def ends_def)

lemma wp_text_phase:
  assumes "before s" "room (Suc (Suc n)) s" "at_baseline s \<noteq> S_unknown" "named w i" "1 \<le> kn_flip k"
  shows "wp (text_phase n w o' k i start limit) (ended_if o' i) s"
proof -
  have answer: "wp (do { modify (\<lambda>s. s\<lparr>at_text := sd_kind r, at_text_error := fault_of r\<rparr>);
      emit (Log_text (sd_kind r) (fault_of r));
      if sd_kind r = Not_sent then State_Monad.return (Some (Not_delivered Text_not_sent))
      else if sd_kind r = Uncertain then do { r \<leftarrow> finish w o' k i start R_text_uncertain; State_Monad.return (Some r) }
      else do {
        st \<leftarrow> stopped w limit;
        if st then do { why \<leftarrow> stop_reason w; r \<leftarrow> finish w o' k i start why; State_Monad.return (Some r) }
        else pause_phase n w o' k i start limit
      } }) (ended_if o' i) s'" if p: "typing (Suc n) s'" for r s'
  proof -
    let ?s = "s'\<lparr>at_text := sd_kind r, at_text_error := fault_of r, at_out := at_out s' @ [Log_text (sd_kind r) (fault_of r)]\<rparr>"
    let ?P = "\<lambda>s. settled s \<and> room (Suc n) s"
    have t: "timeless ?P"
      by (intro timeless_conj timeless_settled timeless_facts)
    have base: "core ?s" "at_text_calls ?s = 1" "at_enter ?s = None" "room (Suc n) ?s"
      using p by (auto simp: typing_def core_def room_def texts_def enters_def ends_def)
    consider "sd_kind r = Not_sent" | "sd_kind r = Uncertain" | "sd_kind r = Sent"
      by (cases "sd_kind r") auto
    then show ?thesis
    proof cases
      case 1
      then show ?thesis
        using base by (auto simp: ended_if_def ended_def core_def)
    next
      case 2
      then have "may_end R_text_uncertain ?s"
        using base by (auto simp: may_end_def uncertain_text_def room_def)
      from wp_end [OF this assms(4)] 2 show ?thesis by simp
    next
      case 3
      then have "?P ?s"
        using base p by (auto simp: settled_def typed_def typing_def)
      moreover have "wp (if st then do { why \<leftarrow> stop_reason w; r \<leftarrow> finish w o' k i start why; State_Monad.return (Some r) }
          else pause_phase n w o' k i start limit) (ended_if o' i) s2" if s2: "?P s2" for st s2
      proof -
        have "wp (do { r \<leftarrow> finish w o' k i start why; State_Monad.return (Some r) }) (ended_if o' i) s2"
          if "why \<in> {R_cancelled, R_deadline}" for why
          using wp_end [OF may_end_typed [where n = "Suc n"] assms(4)] s2 that by (auto simp: settled_def)
        then show ?thesis
          using wp_pause_phase [OF _ _ assms(4,5)] s2 by (cases st) (simp_all add: stop_reason_def)
      qed
      ultimately show ?thesis
        using 3 wp_mono [OF wp_frame(1) [OF t, of ?s w limit]] by simp
    qed
  qed
  let ?P = "\<lambda>s. \<forall>ctx. typing (Suc n) (s\<lparr>at_out := at_out s @ [Send_text (di_prompt i) ctx]\<rparr>)"
  have t: "timeless ?P"
    by (auto simp: timeless_def typing_def room_def core_def texts_def enters_def ends_def)
  have call: "wp (do { ctx \<leftarrow> next_call w k d; emit (Send_text (di_prompt i) ctx); sent \<leftarrow> send w (dw_text w) ctx; m sent }) Q s'"
    if "?P (s'\<lparr>at_sequence := Suc (at_sequence s')\<rparr>)" "\<And>r s2. typing (Suc n) s2 \<Longrightarrow> wp (m r) Q s2"
    for d m s' and Q :: "outcome option \<Rightarrow> attempt \<Rightarrow> bool"
  proof -
    have sent: "wp (send w (dw_text w) ctx) (\<lambda>r. wp (m r) Q) s2" if "typing (Suc n) s2" for ctx s2
      by (rule wp_mono [OF wp_send [OF timeless_typing that]]) (rule \<open>\<And>r s2. typing (Suc n) s2 \<Longrightarrow> wp (m r) Q s2\<close>)
    show ?thesis
      unfolding wp_basic
      by (rule wp_mono [OF wp_next_call [where P = ?P, OF t that(1)]]) (simp add: sent)
  qed
  have "?P (s'\<lparr>at_text_calls := 1, at_sequence := Suc (at_sequence s')\<rparr>)"
    if "before s'" "room (Suc (Suc n)) s'" "at_baseline s' \<noteq> S_unknown" for s'
    using that by (auto simp: typing_def before_def core_def room_def texts_def enters_def ends_def)
  moreover have "before (s\<lparr>at_ticks := x, at_t0 := Some y\<rparr>)" "room (Suc (Suc n)) (s\<lparr>at_ticks := x, at_t0 := Some y\<rparr>)" for x y
    using assms(1,2) by (auto simp: before_def core_def room_def texts_def enters_def ends_def)
  ultimately have "?P ((s\<lparr>at_ticks := x, at_t0 := Some y\<rparr>)\<lparr>at_text_calls := 1, at_sequence := Suc (at_sequence s)\<rparr>)"
    "?P (s\<lparr>at_text_calls := 1, at_sequence := Suc (at_sequence s)\<rparr>)" for x y
    using assms(1-3) by fastforce+
  note start = this
  have tail: "wp (do { t0 \<leftarrow> gets at_t0; modify (\<lambda>s. s\<lparr>at_text_calls := 1\<rparr>); ctx \<leftarrow> next_call w k (f t0);
      emit (Send_text (di_prompt i) ctx); sent \<leftarrow> send w (dw_text w) ctx; m sent }) Q s'"
    if "?P (s'\<lparr>at_text_calls := 1, at_sequence := Suc (at_sequence s')\<rparr>)" "\<And>r s2. typing (Suc n) s2 \<Longrightarrow> wp (m r) Q s2"
    for f m s' and Q :: "outcome option \<Rightarrow> attempt \<Rightarrow> bool"
    unfolding wp_basic(2) [of "gets at_t0"] wp_basic(3) wp_basic(2) [of "modify _"] wp_basic(4)
    by (rule call) (use that in simp_all)
  show ?thesis
  proof (cases "at_baseline s = S_working")
    case True
    then show ?thesis
      unfolding text_phase_def wp_basic(2) [of "gets at_baseline"] wp_basic(3)
      by (simp only: True HOL.simp_thms if_False State_Monad.bind_left_identity) (rule tail [OF start(2) answer])
  next
    case False
    have "?P ((s\<lparr>at_ticks := Suc (at_ticks s), at_t0 := Some (dw_now w (at_ticks s) + at_slept s)\<rparr>)
        \<lparr>at_text_calls := 1, at_sequence := Suc (at_sequence (s\<lparr>at_ticks := Suc (at_ticks s), at_t0 := Some (dw_now w (at_ticks s) + at_slept s)\<rparr>))\<rparr>)"
      using start(1) by simp
    note go = tail [OF this answer]
    show ?thesis
      unfolding text_phase_def wp_basic(2) [of "gets at_baseline"] wp_basic(3)
      by (simp only: False HOL.simp_thms if_True State_Monad.bind_assoc wp_basic(2) [of "now w"] wp_basic(2) [of "modify _"]
          wp_basic(4) wp_clock(1)) (rule go)
  qed
qed

lemma before_log [simp]: "before (s\<lparr>at_out := at_out s @ [Log_exhausted b a e]\<rparr>) = before s"
  by (simp add: before_def core_def)

lemma wp_log_exhausted:
  assumes "before s" "room m s"
  shows "wp (log_exhausted w k limit) (\<lambda>_ s'. before s' \<and> room m s') s"
proof -
  have t: "timeless (\<lambda>s. before s \<and> room m s)"
    by (intro timeless_conj timeless_facts)
  show ?thesis
    unfolding log_exhausted_def wp_basic by (rule wp_mono [OF wp_frame(2) [OF t]]) (use assms in simp_all)
qed

lemma wp_after_baseline:
  assumes "before s" "room (Suc (Suc n)) s" "named w i" "1 \<le> kn_flip k"
  shows "wp (after_baseline n w o' k i start limit ready) (ended_if o' i) s"
proof -
  let ?P = "\<lambda>s. before s \<and> room (Suc (Suc n)) s"
  have t: "timeless ?P"
    by (intro timeless_conj timeless_facts)
  have stop: "wp (do { r \<leftarrow> finish w o' k i start why; State_Monad.return (Some r) }) (ended_if o' i) s'"
    if "?P s'" "why \<in> {R_cancelled, R_baseline_unknown, R_deadline}" for why s'
    using wp_end [OF may_end_before [where n = "Suc (Suc n)"] assms(3)] that by auto
  have send: "wp (do { baseline \<leftarrow> gets at_baseline;
      if baseline = S_unknown then do { r \<leftarrow> finish w o' k i start R_baseline_unknown; State_Monad.return (Some r) }
      else do {
        short \<leftarrow> budget_short w k limit;
        if short then do { r \<leftarrow> finish w o' k i start R_deadline; State_Monad.return (Some r) }
        else text_phase n w o' k i start limit } }) (ended_if o' i) s'" if "?P s'" for s'
  proof (cases "at_baseline s' = S_unknown")
    case True
    then show ?thesis using stop [OF that, of R_baseline_unknown] by simp
  next
    case False
    let ?R = "\<lambda>s. ?P s \<and> at_baseline s \<noteq> S_unknown"
    have "timeless ?R" using t by (simp add: timeless_def)
    from wp_frame(2) [OF this, of s' w k limit] that False
    have "wp (budget_short w k limit) (\<lambda>_. ?R) s'" by simp
    then have "wp (do { short \<leftarrow> budget_short w k limit;
        if short then do { r \<leftarrow> finish w o' k i start R_deadline; State_Monad.return (Some r) }
        else text_phase n w o' k i start limit }) (ended_if o' i) s'"
      unfolding wp_basic(2) [of "budget_short w k limit"]
      by (rule wp_mono) (use stop [of _ R_deadline] wp_text_phase [OF _ _ _ assms(3,4)] in auto)
    with False show ?thesis by simp
  qed
  have log: "wp (do { (if ready then State_Monad.return () else log_exhausted w k limit); m }) (ended_if o' i) s'"
    if "?P s'" "\<And>s2. ?P s2 \<Longrightarrow> wp m (ended_if o' i) s2" for m s'
    using that wp_mono [OF wp_log_exhausted, of s' "Suc (Suc n)"] by (cases ready) auto
  have rest: "wp (do { a \<leftarrow> aborted w;
      if a then do { r \<leftarrow> finish w o' k i start R_cancelled; State_Monad.return (Some r) }
      else do { (if ready then State_Monad.return () else log_exhausted w k limit); baseline \<leftarrow> gets at_baseline;
        if baseline = S_unknown then do { r \<leftarrow> finish w o' k i start R_baseline_unknown; State_Monad.return (Some r) }
        else do {
          short \<leftarrow> budget_short w k limit;
          if short then do { r \<leftarrow> finish w o' k i start R_deadline; State_Monad.return (Some r) }
          else text_phase n w o' k i start limit } } }) (ended_if o' i) s'" if "?P s'" for s'
    using stop [OF that, of R_cancelled] log [OF that send]
    unfolding wp_basic(2) [of "aborted w"] wp_clock(2) by (cases "dw_aborted w (at_awaits s')") simp_all
  have "?P (s\<lparr>at_ticks := x, at_wait_elapsed := Some (max 0 y)\<rparr>)" for x y
    using assms(1,2) by (auto simp: before_def core_def room_def texts_def enters_def ends_def)
  note waited = rest [OF this]
  show ?thesis
  proof (cases "at_wait_start s")
    case None
    then show ?thesis
      using rest assms(1,2) unfolding after_baseline_def wp_basic(2) [of "gets at_wait_start"] wp_basic(3) by simp
  next
    case (Some t0)
    show ?thesis
      unfolding after_baseline_def wp_basic(2) [of "gets at_wait_start"] wp_basic(3) Some option.case
        State_Monad.bind_assoc wp_basic(2) [of "now w"] wp_clock(1) wp_basic(2) [of "modify _"] wp_basic(4)
      using waited [of "dw_now w (at_ticks s) + at_slept s - t0" "Suc (at_ticks s)"] by simp
  qed
qed

lemma fresh_before: "before (fresh_attempt t)" "at_sequence (fresh_attempt t) = 0"
  by (simp_all add: before_def core_def fresh_attempt_def texts_def enters_def ends_def)

lemma wp_deliver:
  assumes "before s" "at_sequence s + (2 * n + 2) \<le> 9007199254740991" "named w i" "1 \<le> kn_flip k"
  shows "wp (deliver n w o' k i) (ended_if o' i) s"
proof -
  let ?P = "\<lambda>s. before s \<and> room (n + Suc (Suc n)) s"
  have p: "?P s" using assms(1,2) by (simp add: room_def)
  have t: "timeless ?P"
    by (intro timeless_conj timeless_facts)
  have main: "wp (do { r \<leftarrow> baseline_window n w o' k i start readiness;
      (case r of
         None \<Rightarrow> State_Monad.return None
       | Some (Inl (Some out)) \<Rightarrow> State_Monad.return (Some out)
       | Some (Inl None) \<Rightarrow> after_baseline n w o' k i start limit True
       | Some (Inr _) \<Rightarrow> after_baseline n w o' k i start limit False) }) (ended_if o' i) s'"
    if "?P s'" for start readiness limit s'
    unfolding wp_basic(2)
    by (rule wp_mono [OF wp_baseline_window [where m = "Suc (Suc n)", OF _ _ assms(3)]])
      (use that wp_after_baseline [OF _ _ assms(3,4)] in \<open>auto simp: ended_if_def [of _ _ "Some _"] split: option.splits sum.splits\<close>)
  have none: "ended_if o' i (Some (Not_delivered Budget_unavailable)) s'" if "?P s'" for s'
    using that by (auto simp: ended_if_def ended_def before_def core_def)
  show ?thesis
    unfolding deliver_def Let_def wp_basic(2) [of "now w"] wp_clock(1) wp_basic(2) [of "budget_short w k _"]
    by (rule wp_mono [OF wp_frame(2) [OF t timelessD(1) [OF t p]]])
      (use none main timelessD(1) [OF t] in auto)
qed

lemma delivery_ended:
  assumes "run_delivery n w o' k i = (Some out, s)" "named w i" "1 \<le> kn_flip k" "2 * n + 2 \<le> 9007199254740991"
  shows "ended o' i out s"
proof -
  have "wp (deliver n w o' k i) (ended_if o' i) (fresh_attempt (di_target i))"
    by (rule wp_deliver) (use assms fresh_before in simp_all)
  from wp_run [OF this assms(1) [unfolded run_delivery_def]] show ?thesis
    by (simp add: ended_if_def)
qed

section \<open>Every attempt ends\<close>

text \<open>The clock never runs backwards and no timer fires early.\<close>

definition steady :: "delivery_world \<Rightarrow> bool" where
  "steady w \<longleftrightarrow> (\<forall>j. dw_now w j \<le> dw_now w (Suc j)) \<and> (\<forall>j ms. 0 \<le> dw_sleep w j ms \<and> ms \<le> dw_sleep w j ms)"

definition time :: "delivery_world \<Rightarrow> attempt \<Rightarrow> rat" where
  "time w s = dw_now w (at_ticks s) + at_slept s"

definition running :: "delivery_world \<Rightarrow> attempt \<Rightarrow> bool" where
  "running w s \<longleftrightarrow> steady w \<and> (\<forall>t. at_t0 s = Some t \<longrightarrow> t \<le> time w s)"

text \<open>The clock of an attempt is a poller; the interface supplies the termination of both windows.\<close>

lemma running_now:
  assumes "running w s"
  shows "wp (now w) (\<lambda>t s'. running w s' \<and> time w s \<le> t \<and> t \<le> time w s') s"
proof -
  have "dw_now w (at_ticks s) \<le> dw_now w (Suc (at_ticks s))"
    using assms by (simp add: running_def steady_def)
  then show ?thesis
    using assms by (auto simp: running_def time_def)
qed

lemma running_sleep:
  assumes "running w s"
  shows "wp (sleep_ms w ms) (\<lambda>_ s'. running w s' \<and> time w s \<le> time w s' \<and> time w s + ms \<le> time w s') s"
proof -
  have d: "0 \<le> dw_sleep w (at_awaits s) ms" "ms \<le> dw_sleep w (at_awaits s) ms"
    using assms by (simp_all add: running_def steady_def)
  show ?thesis
    using assms d by (auto simp: running_def time_def intro: order_trans)
qed

interpretation attempt_clock: poller "now w" "aborted w" "sleep_ms w" "running w" "time w" for w
  by unfold_locales (simp_all only: running_now running_sleep, simp add: passes_def)

abbreviation keeps :: "delivery_world \<Rightarrow> (attempt, 'a) state \<Rightarrow> bool" where
  "keeps w \<equiv> passes (running w) (time w)"

abbreviation ends_after :: "delivery_world \<Rightarrow> rat \<Rightarrow> (attempt, 'a option) state \<Rightarrow> bool" where
  "ends_after w \<equiv> ends_from (running w) (time w) (\<lambda>r. r \<noteq> None)"

lemma keeps_modify [keeping]:
  "(\<And>s. at_ticks (h s) = at_ticks s \<and> at_slept (h s) = at_slept s \<and> at_t0 (h s) = at_t0 s) \<Longrightarrow> keeps w (modify h)"
  by (simp add: passes_def running_def time_def)

lemma keeps_basic [keeping]:
  "keeps w (now w)" "keeps w (aborted w)" "keeps w (sleep_ms w ms)" "keeps w (emit a)" "keeps w (await f)"
  by (rule attempt_clock.clock_passes attempt_clock.stop_passes attempt_clock.sleep_passes)+
    (simp_all add: passes_def running_def time_def)

lemma keeps_calls [keeping]:
  "keeps w (next_call w k d)" "keeps w (stopped w d)" "keeps w (budget_short w k d)" "keeps w (late w d t)"
    "keeps w (internal_result w ctx)" "keeps w (internal_sample w ctx)" "keeps w (judge_sample w ctx x)" "keeps w (stop_reason w)"
  unfolding next_call_def stopped_def budget_short_def late_def internal_result_def internal_sample_def judge_sample_def stop_reason_def
  by (intro keeping; simp)+

lemma accept_sample_time: "at_ticks (accept_sample ctx x s) = at_ticks s \<and> at_slept (accept_sample ctx x s) = at_slept s \<and>
    at_t0 (accept_sample ctx x s) = at_t0 s"
  by (simp add: accept_sample_def)

lemma keeps_send [keeping]: "keeps w (send w f ctx)"
  unfolding send_def Let_def by (intro keeping; simp)

lemma keeps_read [keeping]: "keeps w (read_status w k d q)"
  unfolding read_status_def by (intro keeping; simp add: accept_sample_time)

lemma keeps_finish [keeping]:
  "keeps w (give_up w o' k i start r t)" "keeps w (finish w o' k i start r)" "keeps w (exhausted w o' k i start known)"
  unfolding give_up_def finish_def exhausted_def Let_def by (intro keeping; simp)+

lemma keeps_bodies [keeping]:
  "keeps w (baseline_body w o' k i start readiness x c)" "keeps w (observe_body w o' k i start deadline x known)"
    "keeps w (log_exhausted w k limit)"
  unfolding baseline_body_def observe_body_def log_exhausted_def Let_def by (intro keeping; simp)+

lemma keeps_start_flip:
  assumes "running w s"
  shows "wp (start_flip w) (\<lambda>t s'. running w s' \<and> time w s \<le> time w s' \<and> t \<le> time w s') s"
proof (cases "at_t0 s")
  case (Some t)
  then show ?thesis using assms by (simp add: start_flip_def running_def)
next
  case None
  have "wp (now w) (\<lambda>v. wp (do { modify (\<lambda>s. s\<lparr>at_t0 := Some v\<rparr>); State_Monad.return v })
      (\<lambda>t s'. running w s' \<and> time w s \<le> time w s' \<and> t \<le> time w s')) s"
    by (rule wp_mono [OF running_now [OF assms]]) (auto simp: running_def time_def)
  then show ?thesis using None by (simp add: start_flip_def)
qed

lemma keeps_settle [keeping]: "keeps w (settle w o' k i start limit)"
proof -
  have "keeps w (start_flip w)"
    unfolding passes_def by (intro allI impI, rule wp_mono [OF keeps_start_flip]) auto
  then show ?thesis
    unfolding settle_def Let_def by (intro keeping; simp)
qed

lemma knob_range: "1 \<le> fallback \<Longrightarrow> fallback \<le> limit \<Longrightarrow> knob env key fallback limit = (v, warn) \<Longrightarrow> 1 \<le> v \<and> v \<le> limit"
  by (auto simp: knob_def split: option.splits if_splits)

lemma knobs_in_range: "knobs_ok (fst (parseDeliveryKnobs env))"
proof -
  obtain flip w1 where f: "knob env ''TUT_STATUS_FLIP_TIMEOUT_MS'' 30000 60000 = (flip, w1)" by fastforce
  obtain ready w2 where r: "knob env ''TUT_BASELINE_READY_TIMEOUT_MS'' BASELINE_READINESS_MS (2 ^ 53 - 1) = (ready, w2)" by fastforce
  obtain poll w3 where p: "knob env ''TUT_STATUS_POLL_MS'' (min 250 flip) flip = (poll, w3)" by fastforce
  obtain call w4 where c: "knob env ''TUT_HERDR_TIMEOUT_MS'' 10000 (2 ^ 53 - 1) = (call, w4)" by fastforce
  have "1 \<le> flip \<and> flip \<le> 60000" by (rule knob_range [OF _ _ f]) simp_all
  moreover have "1 \<le> ready" using knob_range [OF _ _ r] by (simp add: BASELINE_READINESS_MS_def)
  moreover have "1 \<le> poll \<and> poll \<le> flip" by (rule knob_range [OF _ _ p]) (use calculation in auto)
  moreover have "1 \<le> call" using knob_range [OF _ _ c] by simp
  ultimately show ?thesis
    unfolding parseDeliveryKnobs_def f Let_def prod.case r p c by (simp add: knobs_ok_def)
qed

lemma observe_ends:
  assumes "1 \<le> kn_poll k" "kn_flip k < n" "deadline \<le> T + of_nat (kn_flip k)"
  shows "ends_after w T (observe_phase n w o' k i start deadline)"
  unfolding ends_from_def
proof (intro allI impI, elim conjE)
  fix s
  assume s: "running w s" "T \<le> time w s"
  have "deadline \<le> time w s + of_nat (kn_flip k)" using assms(3) s(2) by linarith
  note window = attempt_clock.window_fuel [OF assms(1,2) s(1) this]
  have "wp (observe_window n w o' k i start deadline) (\<lambda>r _. r \<noteq> None) s"
    unfolding observe_window_def
    by (rule wp_mono [OF window]) (auto intro: keeping)
  then show "wp (observe_phase n w o' k i start deadline) (\<lambda>r _. r \<noteq> None) s"
    unfolding observe_phase_def wp_basic
    by (rule wp_mono) (auto simp: wp_def split: option.splits sum.splits prod.splits)
qed

lemma enter_ends:
  assumes "1 \<le> kn_poll k" "kn_flip k < n"
  shows "ends_after w T (enter_phase n w o' k i start limit)"
  unfolding ends_from_def
proof (intro allI impI, elim conjE)
  fix s
  assume s: "running w s" "T \<le> time w s"
  have rest: "ends_after w t (do {
       ctx \<leftarrow> next_call w k (flip_deadline k t limit);
       emit (Send_enter ctx);
       entered \<leftarrow> send w (dw_enter w) ctx;
       modify (\<lambda>s. s\<lparr>at_enter := Some (sd_kind entered), at_enter_error := fault_of entered\<rparr>);
       emit (Log_enter (sd_kind entered) (fault_of entered));
       a \<leftarrow> aborted w;
       baseline \<leftarrow> gets at_baseline;
       if a then do { r \<leftarrow> finish w o' k i start R_cancelled; State_Monad.return (Some r) }
       else if sd_kind entered \<noteq> Sent then do {
         r \<leftarrow> finish w o' k i start (if sd_kind entered = Not_sent then R_enter_not_sent else R_enter_uncertain);
         State_Monad.return (Some r) }
       else if baseline = S_working then do { r \<leftarrow> finish w o' k i start R_baseline_working; State_Monad.return (Some r) }
       else observe_phase n w o' k i start (flip_deadline k t limit) })" for t
    by (intro ending keeping observe_ends assms; simp add: flip_deadline_def)
  show "wp (enter_phase n w o' k i start limit) (\<lambda>r _. r \<noteq> None) s"
    unfolding enter_phase_def Let_def wp_basic(2) [of "start_flip w"]
    by (rule wp_mono [OF keeps_start_flip [OF s(1)]]) (use rest in \<open>auto simp: ends_from_def\<close>)
qed

lemma text_ends:
  assumes "1 \<le> kn_poll k" "kn_flip k < n"
  shows "ends_after w T (text_phase n w o' k i start limit)"
proof -
  have rest: "ends_after w T (do { t0 \<leftarrow> gets at_t0;
     modify (\<lambda>s. s\<lparr>at_text_calls := 1\<rparr>);
     ctx \<leftarrow> next_call w k (case t0 of None \<Rightarrow> limit | Some t \<Rightarrow> flip_deadline k t limit);
     emit (Send_text (di_prompt i) ctx);
     sent \<leftarrow> send w (dw_text w) ctx;
     modify (\<lambda>s. s\<lparr>at_text := sd_kind sent, at_text_error := fault_of sent\<rparr>);
     emit (Log_text (sd_kind sent) (fault_of sent));
     if sd_kind sent = Not_sent then State_Monad.return (Some (Not_delivered Text_not_sent))
     else if sd_kind sent = Uncertain then do { r \<leftarrow> finish w o' k i start R_text_uncertain; State_Monad.return (Some r) }
     else do {
       st \<leftarrow> stopped w limit;
       if st then do { why \<leftarrow> stop_reason w; r \<leftarrow> finish w o' k i start why; State_Monad.return (Some r) }
       else pause_phase n w o' k i start limit
     } })" for T
    unfolding pause_phase_def by (intro ending keeping enter_ends assms; simp)
  have head: "keeps w (do { t \<leftarrow> now w; modify (\<lambda>s. s\<lparr>at_t0 := Some t\<rparr>) })"
    unfolding passes_def wp_basic(2) [of "now w"]
    by (intro allI impI, rule wp_mono [OF running_now]) (auto simp: running_def time_def)
  show ?thesis
    unfolding text_phase_def by (intro ends_bind keeping head rest)
qed

lemma after_baseline_ends:
  assumes "1 \<le> kn_poll k" "kn_flip k < n"
  shows "ends_after w T (after_baseline n w o' k i start limit ready)"
  unfolding after_baseline_def by (intro ending keeping text_ends assms; simp)

lemma deliver_ends:
  assumes "1 \<le> kn_poll k" "kn_flip k < n" "kn_ready k < n"
  shows "ends_after w T (deliver n w o' k i)"
proof -
  have window: "ends_after w t (do { r \<leftarrow> baseline_window n w o' k i start (min (t + of_nat (kn_ready k)) limit);
       (case r of
          None \<Rightarrow> State_Monad.return None
        | Some (Inl (Some out)) \<Rightarrow> State_Monad.return (Some out)
        | Some (Inl None) \<Rightarrow> after_baseline n w o' k i start limit True
        | Some (Inr _) \<Rightarrow> after_baseline n w o' k i start limit False) })" for t start limit
    unfolding ends_from_def wp_basic
  proof (intro allI impI, elim conjE)
    fix s
    assume s: "running w s" "t \<le> time w s"
    have "min (t + of_nat (kn_ready k)) limit \<le> time w s + of_nat (kn_ready k)" using s(2) by linarith
    note fuelled = attempt_clock.window_fuel [OF assms(1,3) s(1) this]
    have "wp (baseline_window n w o' k i start (min (t + of_nat (kn_ready k)) limit))
        (\<lambda>r s'. r \<noteq> None \<and> running w s' \<and> time w s \<le> time w s') s"
      unfolding baseline_window_def by (rule fuelled) (auto intro: keeping)
    then show "wp (baseline_window n w o' k i start (min (t + of_nat (kn_ready k)) limit))
        (\<lambda>r. wp (case r of
          None \<Rightarrow> State_Monad.return None
        | Some (Inl (Some out)) \<Rightarrow> State_Monad.return (Some out)
        | Some (Inl None) \<Rightarrow> after_baseline n w o' k i start limit True
        | Some (Inr _) \<Rightarrow> after_baseline n w o' k i start limit False) (\<lambda>r _. r \<noteq> None)) s"
      using after_baseline_ends [OF assms(1,2)]
      by (elim wp_mono) (auto simp: ends_from_def split: option.splits sum.splits)
  qed
  show ?thesis
    unfolding deliver_def Let_def
    by (intro attempt_clock.ends_clock ends_bind keeps_calls ends_if ends_return option.distinct(2) window)
qed

section \<open>Properties\<close>

text \<open>C21. A delivery types the prompt at most once and presses Enter at most once, and presses it only after a text
  whose transport was confirmed as sent.  An attempt reported as not delivered, the only outcome that may be
  retried, has pressed nothing and has typed nothing or was told that nothing was typed.\<close>

theorem delivery_types_once:
  assumes "run_delivery n w o' (fst (parseDeliveryKnobs env)) i = (Some out, s)"
    "named w i" "2 * n + 2 \<le> 9007199254740991"
  shows "texts s \<le> 1 \<and> enters s \<le> texts s \<and> (enters s = 1 \<longrightarrow> at_text s = Sent) \<and>
    (\<forall>r. out = Not_delivered r \<longrightarrow> enters s = 0 \<and> (texts s = 1 \<longrightarrow> at_text s = Not_sent))"
  using delivery_ended [OF assms(1,2) _ assms(3)] knobs_in_range [of env]
  by (auto simp: ended_def knobs_ok_def)

text \<open>C22. An unconfirmed delivery is given up exactly once, and the block of evidence it logs and escalates passes the
  validation the receiver applies to it.\<close>

theorem give_up_evidence_accepted:
  assumes "run_delivery n w o' (fst (parseDeliveryKnobs env)) i = (Some (Unconfirmed r t e), s)"
    "named w i" "2 * n + 2 \<le> 9007199254740991"
  shows "\<exists>ev v. ends s = Log_give_up ev # (if op_escalate o' then [Escalate (pi_pane (di_target i)) ev] else []) \<and>
    ev_reason ev = r \<and> evidence_json ev = JObj v \<and> parseDeliveryV2 (Some (evidence_json ev)) = Some v"
proof -
  have "ended o' i (Unconfirmed r t e) s"
    using delivery_ended [OF assms(1,2) _ assms(3)] knobs_in_range [of env] by (simp add: knobs_ok_def)
  then obtain ev where "ends s = Log_give_up ev # (if op_escalate o' then [Escalate (pi_pane (di_target i)) ev] else [])"
    "ev_reason ev = r" "evidence_ok ev"
    by (auto simp: ended_def)
  with evidence_ok_accepted [of ev] show ?thesis by blast
qed

text \<open>C23. Every delivery ends: when the clock does not run backwards and no timer fires early, one more round of fuel
  than the milliseconds of the two windows is enough, whatever the client answers.\<close>

theorem delivery_terminates:
  assumes "steady w" "k = fst (parseDeliveryKnobs env)" "kn_ready k < n" "kn_flip k < n"
  shows "\<exists>out s. run_delivery n w o' k i = (Some out, s)"
proof -
  let ?s = "fresh_attempt (di_target i)"
  have "1 \<le> kn_poll k"
    using knobs_in_range [of env] assms(2) by (simp add: knobs_ok_def)
  moreover have "running w ?s"
    using assms(1) by (simp add: running_def fresh_attempt_def)
  ultimately have "wp (deliver n w o' k i) (\<lambda>r _. r \<noteq> None) ?s"
    using deliver_ends [OF _ assms(4,3), of w "time w ?s" o' i] by (simp add: ends_from_def)
  then show ?thesis
    by (auto simp: wp_def run_delivery_def split: prod.splits)
qed

section \<open>A delivery that is observed\<close>

definition sample_target :: pane_identity where
  "sample_target = \<lparr>pi_pane = ''p1'', pi_terminal = None, pi_workspace = None, pi_session = None\<rparr>"

definition sample_world :: delivery_world where
  "sample_world = \<lparr>dw_now = (\<lambda>_. 0), dw_sleep = (\<lambda>_ ms. max 0 ms), dw_aborted = (\<lambda>_. False),
     dw_read = (\<lambda>j. Some \<lparr>sp_attempt = ''a1'', sp_sequence = Suc j, sp_started = 0, sp_finished = 0,
       sp_status = S_idle, sp_identity = None, sp_error = None\<rparr>),
     dw_text = (\<lambda>_. None), dw_enter = (\<lambda>_. None), dw_attempt = ''a1'', dw_digest = (\<lambda>_. [])\<rparr>"

definition sample_options :: delivery_options where
  "sample_options = \<lparr>op_evidence = False, op_deadline = None, op_escalate = True\<rparr>"

definition sample_input :: delivery_input where
  "sample_input = \<lparr>di_target = sample_target, di_prompt = [103, 111], di_branch = Continuation, di_agent = Some ''pi''\<rparr>"

lemma sample_knobs: "fst (parseDeliveryKnobs (\<lambda>_. None)) = \<lparr>kn_ready = 90000, kn_flip = 30000, kn_poll = 250, kn_call = 10000\<rparr>"
  by (simp add: parseDeliveryKnobs_def knob_def BASELINE_READINESS_MS_def)

lemma sample_named: "named sample_world sample_input"
  by (simp add: named_def sample_world_def sample_input_def sample_target_def blank_def is_space_def)

lemma sample_steady: "steady sample_world"
  by (simp add: steady_def sample_world_def)

lemma sample_clock:
  "run_state (now sample_world) s = (at_slept s, s\<lparr>at_ticks := Suc (at_ticks s)\<rparr>)"
  "run_state (aborted sample_world) s = (False, s)"
  by (simp_all add: now_def aborted_def gets_def sample_world_def)

lemma sample_fields: "dw_attempt sample_world = ''a1''" "dw_text sample_world = (\<lambda>_. None)" 
  "dw_read sample_world j = Some \<lparr>sp_attempt = ''a1'', sp_sequence = Suc j, sp_started = 0, sp_finished = 0,
       sp_status = S_idle, sp_identity = None, sp_error = None\<rparr>"
  by (simp_all add: sample_world_def)

lemma sample_basic:
  "run_state (gets f) s = (f s, s)" "run_state (modify g) s = ((), g s)"
  "run_state (emit a) s = ((), s\<lparr>at_out := at_out s @ [a]\<rparr>)"
  "run_state (await h) s = (h (at_awaits s), s\<lparr>at_awaits := Suc (at_awaits s)\<rparr>)"
  by (simp_all add: gets_def modify_def emit_def await_def)

lemma sample_run:
  "\<exists>s. run_delivery 1 sample_world sample_options (fst (parseDeliveryKnobs (\<lambda>_. None))) sample_input =
     (Some (Unconfirmed R_text_uncertain Uncertain None), s) \<and> texts s = 1"
  unfolding sample_knobs
  by (simp add: run_delivery_def deliver_def budget_short_def stopped_def sample_options_def fresh_attempt_def sample_basic sample_clock sample_fields
    baseline_window_def read_status_def next_call_def judge_sample_def accept_sample_def baseline_body_def invalidIdentity_def sample_input_def
    after_baseline_def text_phase_def send_def internal_result_def late_def finish_def give_up_def flip_deadline_def fault_of_def texts_def Let_def)

theorem delivery_types_once_witness:
  "\<exists>s. run_delivery 1 sample_world sample_options (fst (parseDeliveryKnobs (\<lambda>_. None))) sample_input =
     (Some (Unconfirmed R_text_uncertain Uncertain None), s) \<and> texts s = 1 \<and> enters s \<le> 1 \<and> (enters s = 1 \<longrightarrow> at_text s = Sent)"
  using sample_run delivery_types_once [OF _ sample_named] by fastforce

theorem give_up_evidence_accepted_witness:
  "\<exists>s ev v. run_delivery 1 sample_world sample_options (fst (parseDeliveryKnobs (\<lambda>_. None))) sample_input =
     (Some (Unconfirmed R_text_uncertain Uncertain None), s) \<and>
     ends s = [Log_give_up ev, Escalate ''p1'' ev] \<and> parseDeliveryV2 (Some (evidence_json ev)) = Some v"
proof -
  obtain s where run: "run_delivery 1 sample_world sample_options (fst (parseDeliveryKnobs (\<lambda>_. None))) sample_input =
      (Some (Unconfirmed R_text_uncertain Uncertain None), s)"
    using sample_run by blast
  show ?thesis
    using give_up_evidence_accepted [OF run sample_named] run by (auto simp: sample_options_def sample_input_def sample_target_def)
qed

theorem delivery_terminates_witness:
  "\<exists>out s. run_delivery 90001 sample_world sample_options (fst (parseDeliveryKnobs (\<lambda>_. None))) sample_input = (Some out, s)"
  by (rule delivery_terminates [OF sample_steady HOL.refl]) (simp_all add: sample_knobs)

end
