(* ===== verification/Remediator.thy ===== *)
theory Remediator
  imports Delivery
begin

text \<open>
  The controlled second Enter, \<open>src/herdr/launcher/remediator.ts\<close>: when a delivery was given up although both calls were
  acknowledged, the Notifier may press Enter once more for the agent, after every check that the prompt is still there.

  One call of \<open>remediate\<close> is a synchronous head (checks, claim of the attempt, reservation of the pane) and a body of
  awaits.  The body is written in the state monad, with \<open>return\<close> inside \<open>try\<close> and exceptions as the left side of a sum;
  its surroundings are the record \<open>rem_world\<close> (\<open>None\<close> where the call throws), asked by the number of awaits before.
  Calls share only the claimed attempts and the reserved panes, so several of them interleave as steps over that state.

  Text is a list of UTF-16 code units.  The message of an exception is not modelled.
\<close>

section \<open>Attempts\<close>

definition MAX_REMEDIATION_ATTEMPTS :: nat where "MAX_REMEDIATION_ATTEMPTS = 4096"

definition MAX_CONCURRENT_REMEDIATIONS :: nat where "MAX_CONCURRENT_REMEDIATIONS = 64"

datatype claim_result = New_attempt | Duplicate | Full

definition claim :: "string \<Rightarrow> string list \<Rightarrow> claim_result \<times> string list" where
  "claim a ids =
     (if a \<in> set ids then (Duplicate, ids)
      else if MAX_REMEDIATION_ATTEMPTS \<le> length ids then (Full, ids)
      else (New_attempt, ids @ [a]))"

section \<open>Evidence of a remediation\<close>

datatype rem_act = No_action | Machine_enter

datatype rem_result = Skipped | Attempting | Working_observed | Gave_up

datatype rem_attribution = Machine_remediation | Unavailable

datatype staged_basis = Text_transport_sent | Codex_input_tail

text \<open>\<open>lastReadError\<close>: the message of an exception, or the fault of a sample.\<close>

datatype read_problem = Threw | Faulted read_fault

datatype rem_reason =
    Evidence_insufficient | Concurrency_limit | Attempt_capacity | Duplicate_attempt
  | Lifecycle_changed | Identity_invalid read_fault
  | Window_not_reached | Tail_not_matched | Reevaluation_deadline | Baseline_still_unknown
  | Pane_mismatch | Input_changed | Status_or_lifecycle_changed "read_problem option" | Machine_presses
  | Status_changed | Flip_deadline | Enter_unconfirmed | Seen_working | Status_unavailable "read_problem option"
  | Control_error

record rem_evidence =
  re_action :: rem_act
  re_result :: rem_result
  re_enter :: "send_kind option"
  re_flip :: bool
  re_attribution :: rem_attribution
  re_reason :: rem_reason
  re_basis :: "staged_basis option"
  re_again :: bool

definition no_evidence :: rem_evidence where
  "no_evidence = \<lparr>re_action = No_action, re_result = Skipped, re_enter = None, re_flip = False, re_attribution = Unavailable,
     re_reason = Evidence_insufficient, re_basis = None, re_again = False\<rparr>"

record rem_request =
  rq_agent :: string
  rq_pane :: string
  rq_evidence :: "json option"
  rq_records :: bool

section \<open>Which evidence may lead to a key\<close>

definition nonworking :: "json option \<Rightarrow> bool" where
  "nonworking v \<longleftrightarrow> member_of [''idle'', ''blocked'', ''done''] v"

definition identity_fault :: "string \<Rightarrow> bool" where
  "identity_fault f \<longleftrightarrow> f \<in> {''PANE_MISSING'', ''PANE_DUPLICATE'', ''IDENTITY_CHANGED''}"

definition filled_string :: "json option \<Rightarrow> bool" where
  "filled_string v \<longleftrightarrow> (case v of Some (JStr s) \<Rightarrow> s \<noteq> [] | _ \<Rightarrow> False)"

definition unknown_baseline :: "jobject \<Rightarrow> bool" where
  "unknown_baseline e \<longleftrightarrow>
     pget e ''reason'' = Some (JStr ''baseline-unknown'') \<and> pget e ''status_before'' = Some (JStr ''unknown'')"

definition reevaluates :: "string \<Rightarrow> jobject \<Rightarrow> bool" where
  "reevaluates agent e \<longleftrightarrow>
     pget e ''reason'' = Some (JStr ''attribution-unavailable'') \<and> pget e ''status_flip'' = Some (JBool True) \<and>
     pget e ''status_last'' = Some (JStr ''working'') \<and> nonworking (pget e ''status_before'') \<and> agent = ''codex''"

definition insufficient :: "string \<Rightarrow> jobject \<Rightarrow> bool" where
  "insufficient agent e \<longleftrightarrow>
     (\<not> reevaluates agent e \<and> \<not> unknown_baseline e \<and>
        (pget e ''reason'' \<noteq> Some (JStr ''deadline'') \<or> \<not> nonworking (pget e ''status_before'') \<or>
         \<not> nonworking (pget e ''status_last''))) \<or>
     (\<not> reevaluates agent e \<and> pget e ''status_flip'' = Some (JBool True)) \<or>
     (\<not> unknown_baseline e \<and> pget e ''status_error'' \<noteq> Some JNull) \<or>
     (case pget e ''status_error'' of Some (JStr f) \<Rightarrow> identity_fault f | _ \<Rightarrow> False) \<or>
     pget e ''text_transport'' \<noteq> Some (JStr ''sent'') \<or> pget e ''enter_transport'' \<noteq> Some (JStr ''sent'') \<or>
     pget e ''text_error'' \<noteq> Some JNull \<or> pget e ''enter_error'' \<noteq> Some JNull \<or>
     pget e ''enter_calls'' \<noteq> Some (JNum 1) \<or> pget e ''last_query_sequence'' = Some JNull"

text \<open>The frozen target of the evidence, which \<open>parseDeliveryV2\<close> does not look into.\<close>

definition targetOf :: "jobject \<Rightarrow> string \<Rightarrow> json option" where
  "targetOf e agent =
     (case pget e ''target'' of
        Some (JObj t) \<Rightarrow>
          if pget t ''paneId'' = pget e ''pane_id'' \<and>
             (case pget t ''agentSession'' of
                Some JNull \<Rightarrow> True
              | Some (JObj a) \<Rightarrow> pget a ''agent'' = Some (JStr agent) \<and> filled_string (pget a ''kind'') \<and> filled_string (pget a ''value'')
              | _ \<Rightarrow> False) \<and>
             list_all (\<lambda>k. pget t k = Some JNull \<or> filled_string (pget t k)) [''terminalId'', ''workspaceId'']
          then Some (JObj t) else None
      | _ \<Rightarrow> None)"

section \<open>The visible composer of Codex\<close>

definition word_unit :: "nat \<Rightarrow> bool" where
  "word_unit c \<longleftrightarrow> (48 \<le> c \<and> c \<le> 57) \<or> (65 \<le> c \<and> c \<le> 90) \<or> c = 95 \<or> (97 \<le> c \<and> c \<le> 122)"

definition codes :: "string \<Rightarrow> utext" where
  "codes s = map of_char s"

text \<open>\<open>.* \<middot> \S\<close> from here on.\<close>

fun dotted :: "utext \<Rightarrow> bool" where
  "dotted [] = False"
| "dotted (c # t) =
     ((starts [32, 183, 32] (c # t) \<and> (case drop 2 t of d # _ \<Rightarrow> \<not> ws d | [] \<Rightarrow> False)) \<or> (\<not> terminator c \<and> dotted t))"

definition footer_line :: "utext \<Rightarrow> bool" where
  "footer_line line \<longleftrightarrow>
     (let hint = codes ''  ? for shortcuts''; model = codes ''  GPT-'' in
      (starts hint line \<and> (case drop (length hint) line of c # _ \<Rightarrow> \<not> word_unit c | [] \<Rightarrow> True)) \<or>
      (starts model line \<and> (case drop (length model) line of c # t \<Rightarrow> \<not> ws c \<and> dotted t | [] \<Rightarrow> False)))"

definition lower_hex :: "char \<Rightarrow> bool" where
  "lower_hex c \<longleftrightarrow> c \<in> set ''0123456789abcdef''"

text \<open>The last line that starts like a composer, with the lines after it.\<close>

fun last_composer :: "utext list \<Rightarrow> (utext \<times> utext list) option" where
  "last_composer [] = None"
| "last_composer (l # ls) =
     (case last_composer ls of Some r \<Rightarrow> Some r | None \<Rightarrow> if starts [8250, 32] l then Some (l, ls) else None)"

definition pendingCodexInput :: "(utext \<Rightarrow> string) \<Rightarrow> utext \<Rightarrow> json option \<Rightarrow> bool" where
  "pendingCodexInput digest screen tail =
     (case tail of
        Some (JObj t) \<Rightarrow>
          (case (pget t ''sha256'', pget t ''length'') of
             (Some (JStr h), Some (JNum n)) \<Rightarrow>
               if n < 1 \<or> 80 < n \<or> length h \<noteq> 64 \<or> \<not> list_all lower_hex h then False
               else (case last_composer (split_lines screen) of
                  None \<Rightarrow> False
                | Some (line, rest) \<Rightarrow>
                    if \<not> list_ex (\<lambda>l. trim l = []) rest then False
                    else
                      let body = takeWhile (\<lambda>l. trim l \<noteq> []) rest;
                          footer = filter (\<lambda>l. trim l \<noteq> []) (dropWhile (\<lambda>l. trim l \<noteq> []) rest)
                      in if footer = [] \<or> \<not> list_all footer_line footer then False
                         else prompt_tail digest (drop 2 line @ concat (map (\<lambda>l. 10 # l) body)) = (h, nat \<lfloor>n\<rfloor>) \<and> is_integer n)
           | _ \<Rightarrow> False)
      | _ \<Rightarrow> False)"

section \<open>The body of one call\<close>

datatype rem_event =
    R_can bool
  | R_match bool
  | R_screen bool
  | R_read call_context
  | R_seen agent_status
  | R_record rem_evidence
  | R_enter call_context
  | R_time rat

datatype rem_exit = Exit_with rem_evidence | Exit_thrown | Exit_fuel

record rem_run =
  rr_ticks :: nat
  rr_awaits :: nat
  rr_slept :: rat
  rr_sequence :: nat
  rr_problem :: "read_problem option"
  rr_evidence :: rem_evidence
  rr_out :: "rem_event list"

record rem_world =
  rw_now :: "nat \<Rightarrow> rat"
  rw_sleep :: "nat \<Rightarrow> rat \<Rightarrow> rat"
  rw_can :: "nat \<Rightarrow> bool option"
  rw_match :: "nat \<Rightarrow> bool option"
  rw_screen :: "nat \<Rightarrow> utext option"
  rw_read :: "nat \<Rightarrow> status_sample option"
  rw_enter :: "nat \<Rightarrow> send_result option"
  rw_record :: "nat \<Rightarrow> unit option"
  rw_digest :: "utext \<Rightarrow> string"

text \<open>What the head leaves to the body.\<close>

record rem_job =
  rj_attempt :: string
  rj_pane :: string
  rj_label :: string
  rj_target :: json
  rj_tail :: "json option"
  rj_again :: bool
  rj_unknown :: bool
  rj_records :: bool

definition ebind :: "('s, 'e + 'a) state \<Rightarrow> ('a \<Rightarrow> ('s, 'e + 'b) state) \<Rightarrow> ('s, 'e + 'b) state" where
  "ebind m f = do { r \<leftarrow> m; (case r of Inl e \<Rightarrow> State_Monad.return (Inl e) | Inr a \<Rightarrow> f a) }"

definition clock :: "rem_world \<Rightarrow> (rem_run, rat) state" where
  "clock w = State (\<lambda>s. (rw_now w (rr_ticks s) + rr_slept s, s\<lparr>rr_ticks := Suc (rr_ticks s)\<rparr>))"

definition pause :: "rem_world \<Rightarrow> rat \<Rightarrow> (rem_run, unit) state" where
  "pause w ms = State (\<lambda>s. ((), s\<lparr>rr_awaits := Suc (rr_awaits s), rr_slept := rr_slept s + rw_sleep w (rr_awaits s) ms\<rparr>))"

definition shown_event :: "rem_event \<Rightarrow> (rem_run, unit) state" where
  "shown_event x = modify (\<lambda>s. s\<lparr>rr_out := rr_out s @ [x]\<rparr>)"

definition ask :: "(nat \<Rightarrow> 'a option) \<Rightarrow> ('a \<Rightarrow> rem_event) \<Rightarrow> (rem_run, rem_exit + 'a) state" where
  "ask answers shown = do {
     n \<leftarrow> gets rr_awaits;
     modify (\<lambda>s. s\<lparr>rr_awaits := Suc n\<rparr>);
     (case answers n of
        None \<Rightarrow> State_Monad.return (Inl Exit_thrown)
      | Some a \<Rightarrow> do { shown_event (shown a); State_Monad.return (Inr a) })
   }"

text \<open>\<open>{ ...result, reason }\<close>, and a few fields more.\<close>

definition stop_with :: "rem_reason \<Rightarrow> (rem_run, rem_exit + 'a) state" where
  "stop_with reason = do {
     e \<leftarrow> gets rr_evidence;
     State_Monad.return (Inl (Exit_with (e\<lparr>re_reason := reason\<rparr>)))
   }"

definition give_up_with :: "rem_reason \<Rightarrow> (rem_run, rem_exit + 'a) state" where
  "give_up_with reason = do {
     e \<leftarrow> gets rr_evidence;
     State_Monad.return (Inl (Exit_with (e\<lparr>re_result := Gave_up, re_reason := reason\<rparr>)))
   }"

definition record_action :: "rem_world \<Rightarrow> rem_job \<Rightarrow> (rem_evidence \<Rightarrow> rem_evidence) \<Rightarrow> (rem_run, rem_exit + unit) state" where
  "record_action w j f = do {
     e \<leftarrow> gets rr_evidence;
     if rj_records j then ask (rw_record w) (\<lambda>_. R_record (f e)) else State_Monad.return (Inr ())
   }"

definition rem_call :: "rem_world \<Rightarrow> knobs \<Rightarrow> rem_job \<Rightarrow> rat option \<Rightarrow> (rem_run, call_context) state" where
  "rem_call w k j deadline = do {
     d \<leftarrow> (case deadline of Some d \<Rightarrow> State_Monad.return d
          | None \<Rightarrow> do { t \<leftarrow> clock w; State_Monad.return (t + of_nat (kn_call k)) });
     n \<leftarrow> gets rr_sequence;
     modify (\<lambda>s. s\<lparr>rr_sequence := Suc n\<rparr>);
     t \<leftarrow> clock w;
     State_Monad.return \<lparr>cc_attempt = rj_attempt j, cc_sequence = Suc n, cc_deadline = min d (t + of_nat (kn_call k))\<rparr>
   }"

text \<open>The identity of a sample has to be the frozen target, as JSON.\<close>

definition judged :: "rem_job \<Rightarrow> status_sample \<Rightarrow> status_sample" where
  "judged j x =
     (if sp_error x = None \<and> (case sp_identity x of None \<Rightarrow> True | Some p \<Rightarrow> identity_json p \<noteq> rj_target j)
      then x\<lparr>sp_status := S_unknown, sp_error := Some IDENTITY_CHANGED\<rparr> else x)"

definition rem_accept :: "rem_job \<Rightarrow> status_sample \<Rightarrow> (rem_run, status_sample option) state" where
  "rem_accept j x = do {
     let y = judged j x;
     (case sp_error y of
        Some f \<Rightarrow> modify (\<lambda>s. s\<lparr>rr_problem := Some (Faulted f)\<rparr>)
      | None \<Rightarrow> shown_event (R_seen (sp_status y)));
     State_Monad.return (Some y)
   }"

definition rem_query :: "rem_world \<Rightarrow> rem_job \<Rightarrow> call_context \<Rightarrow> (rem_run, status_sample option) state" where
  "rem_query w j ctx = do {
     shown_event (R_read ctx);
     n \<leftarrow> gets rr_awaits;
     modify (\<lambda>s. s\<lparr>rr_awaits := Suc n\<rparr>);
     (case rw_read w n of
        None \<Rightarrow> do { modify (\<lambda>s. s\<lparr>rr_problem := Some Threw\<rparr>); State_Monad.return None }
      | Some x \<Rightarrow>
          if sp_attempt x \<noteq> cc_attempt ctx \<or> sp_sequence x \<noteq> cc_sequence ctx then State_Monad.return None
          else do {
            t \<leftarrow> clock w;
            if cc_deadline ctx \<le> t \<or> cc_deadline ctx \<le> sp_finished x \<or> cc_deadline ctx \<le> sp_started x then State_Monad.return None
            else rem_accept j x
          })
   }"

definition rem_read :: "rem_world \<Rightarrow> knobs \<Rightarrow> rem_job \<Rightarrow> rat option \<Rightarrow> (rem_run, status_sample option) state" where
  "rem_read w k j deadline = do { ctx \<leftarrow> rem_call w k j deadline; rem_query w j ctx }"

text \<open>A loop over the window: \<open>Inl (Inl e)\<close> leaves the call, \<open>Inl (Inr b)\<close> the loop.\<close>

definition rem_window ::
    "nat \<Rightarrow> rem_world \<Rightarrow> knobs \<Rightarrow> rem_job \<Rightarrow> rat \<Rightarrow>
     (status_sample option \<Rightarrow> 'c \<Rightarrow> (rem_run, (rem_exit + 'b) + 'c) state) \<Rightarrow> ('c \<Rightarrow> 'b) \<Rightarrow> 'c \<Rightarrow> (rem_run, rem_exit + 'b) state" where
  "rem_window n w k j deadline body after c = do {
     r \<leftarrow> status_window n (State_Monad.return False) (clock w) (pause w) deadline (of_nat (kn_poll k))
       (rem_read w k j (Some deadline)) body c;
     State_Monad.return (case r of None \<Rightarrow> Inl Exit_fuel | Some (Inl x) \<Rightarrow> x | Some (Inr c') \<Rightarrow> Inr (after c'))
   }"

text \<open>An exit of a step inside a loop body leaves the call.\<close>

definition leaving :: "(rem_run, rem_exit + 'a) state \<Rightarrow> ('a \<Rightarrow> (rem_run, (rem_exit + 'b) + 'c) state) \<Rightarrow>
    (rem_run, (rem_exit + 'b) + 'c) state" where
  "leaving m f = do { r \<leftarrow> m; (case r of Inl e \<Rightarrow> State_Monad.return (Inl (Inl e)) | Inr a \<Rightarrow> f a) }"

definition identity_broken :: "status_sample option \<Rightarrow> read_fault option" where
  "identity_broken x = (case x of
     Some y \<Rightarrow> if invalidIdentity y then sp_error y else None
   | None \<Rightarrow> None)"

definition known_status :: "status_sample option \<Rightarrow> bool" where
  "known_status x \<longleftrightarrow> (case x of Some y \<Rightarrow> sp_error y = None \<and> sp_status y \<noteq> S_unknown | None \<Rightarrow> False)"

definition seen_status :: "agent_status \<Rightarrow> status_sample option \<Rightarrow> bool" where
  "seen_status st x \<longleftrightarrow> (case x of Some y \<Rightarrow> sp_error y = None \<and> sp_status y = st | None \<Rightarrow> False)"

text \<open>
  The reevaluation: three idle samples over two seconds, then the composer still holds the prompt.  The clock readings the
  two seconds are measured with are kept among the events (\<open>R_time\<close>).
\<close>

record stability =
  sb_since :: "rat option"
  sb_samples :: nat
  sb_reason :: rem_reason

definition noted :: "rem_world \<Rightarrow> (rem_run, rat) state" where
  "noted w = do { t \<leftarrow> clock w; shown_event (R_time t); State_Monad.return t }"

definition stable_gate :: "rem_world \<Rightarrow> rem_job \<Rightarrow> rat \<Rightarrow> stability \<Rightarrow> (rem_run, (rem_exit + bool \<times> rem_reason) + stability) state" where
  "stable_gate w j deadline c =
     leaving (ask (rw_match w) R_match) (\<lambda>m.
     if \<not> m then leaving (stop_with Pane_mismatch) (\<lambda>u :: unit. State_Monad.return (Inr c))
     else leaving (ask (\<lambda>n. map_option (\<lambda>screen. pendingCodexInput (rw_digest w) screen (rj_tail j)) (rw_screen w n)) R_screen) (\<lambda>held.
       if \<not> held then State_Monad.return (Inr (c\<lparr>sb_reason := Tail_not_matched\<rparr>))
       else do {
         t \<leftarrow> clock w;
         State_Monad.return (Inl (Inr (t < deadline, Reevaluation_deadline)))
       }))"

definition stable_idle :: "rem_world \<Rightarrow> rem_job \<Rightarrow> rat \<Rightarrow> stability \<Rightarrow> (rem_run, (rem_exit + bool \<times> rem_reason) + stability) state" where
  "stable_idle w j deadline c = do {
     since \<leftarrow> (case sb_since c of Some t0 \<Rightarrow> State_Monad.return t0 | None \<Rightarrow> noted w);
     let c = c\<lparr>sb_since := Some since, sb_samples := Suc (sb_samples c)\<rparr>;
     early \<leftarrow> (if sb_samples c < 3 then State_Monad.return True
              else do { t' \<leftarrow> noted w; State_Monad.return (t' - since < 2000) });
     if early then State_Monad.return (Inr c) else stable_gate w j deadline c
   }"

definition stable_body ::
    "rem_world \<Rightarrow> rem_job \<Rightarrow> rat \<Rightarrow> status_sample option \<Rightarrow> stability \<Rightarrow> (rem_run, (rem_exit + bool \<times> rem_reason) + stability) state" where
  "stable_body w j deadline x c =
     leaving (ask (rw_can w) R_can) (\<lambda>can.
     if \<not> can then leaving (stop_with Lifecycle_changed) (\<lambda>u :: unit. State_Monad.return (Inr c))
     else do {
       t \<leftarrow> clock w;
       if deadline \<le> t then State_Monad.return (Inl (Inr (False, sb_reason c)))
       else (case identity_broken x of
          Some f \<Rightarrow> leaving (stop_with (Identity_invalid f)) (\<lambda>u :: unit. State_Monad.return (Inr c))
        | None \<Rightarrow>
            if \<not> seen_status S_idle x then State_Monad.return (Inr (c\<lparr>sb_since := None, sb_samples := 0\<rparr>))
            else stable_idle w j deadline c)
     })"

definition reevaluation :: "nat \<Rightarrow> rem_world \<Rightarrow> knobs \<Rightarrow> rem_job \<Rightarrow> (rem_run, rem_exit + unit) state" where
  "reevaluation n w k j =
     ebind (record_action w j id) (\<lambda>_. do {
       modify (\<lambda>s. s\<lparr>rr_evidence := (rr_evidence s)\<lparr>re_again := True\<rparr>\<rparr>);
       t \<leftarrow> clock w;
       let deadline = t + of_nat (kn_ready k);
       ebind (rem_window n w k j deadline (stable_body w j deadline) (\<lambda>c. (False, sb_reason c))
           \<lparr>sb_since = None, sb_samples = 0, sb_reason = Window_not_reached\<rparr>)
         (\<lambda>(ready, reason). if ready then State_Monad.return (Inr ()) else give_up_with reason)
     })"

definition classify_body ::
    "rem_world \<Rightarrow> rem_job \<Rightarrow> rat \<Rightarrow> status_sample option \<Rightarrow> unit \<Rightarrow> (rem_run, (rem_exit + bool) + unit) state" where
  "classify_body w j deadline x c =
     leaving (ask (rw_can w) R_can) (\<lambda>can.
     if \<not> can then leaving (stop_with Lifecycle_changed) (\<lambda>u :: unit. State_Monad.return (Inr c))
     else do {
       t \<leftarrow> clock w;
       if deadline \<le> t then State_Monad.return (Inl (Inr False))
       else (case identity_broken x of
          Some f \<Rightarrow> leaving (stop_with (Identity_invalid f)) (\<lambda>u :: unit. State_Monad.return (Inr c))
        | None \<Rightarrow> State_Monad.return (if known_status x then Inl (Inr True) else Inr c))
     })"

definition classification :: "nat \<Rightarrow> rem_world \<Rightarrow> knobs \<Rightarrow> rem_job \<Rightarrow> (rem_run, rem_exit + unit) state" where
  "classification n w k j = do {
     t \<leftarrow> clock w;
     let deadline = t + of_nat (kn_ready k);
     ebind (rem_window n w k j deadline (classify_body w j deadline) (\<lambda>_. False) ())
       (\<lambda>ready. if ready then State_Monad.return (Inr ()) else give_up_with Baseline_still_unknown)
   }"

text \<open>The checks right before the key: lifecycle, pane, composer, status, and the intention on record.\<close>

definition may_press :: "rem_job \<Rightarrow> agent_status \<Rightarrow> bool" where
  "may_press j st \<longleftrightarrow> (if rj_again j then st = S_idle else st \<in> {S_idle, S_blocked, S_done})"

definition fits :: "rem_job \<Rightarrow> status_sample option \<Rightarrow> bool" where
  "fits j x \<longleftrightarrow> (case x of Some y \<Rightarrow> sp_error y = None \<and> may_press j (sp_status y) | None \<Rightarrow> False)"

definition check_pane :: "rem_world \<Rightarrow> (rem_run, rem_exit + unit) state" where
  "check_pane w =
     ebind (ask (rw_can w) R_can) (\<lambda>can.
     if \<not> can then stop_with Pane_mismatch
     else ebind (ask (rw_match w) R_match) (\<lambda>m. if m then State_Monad.return (Inr ()) else stop_with Pane_mismatch))"

definition check_composer :: "rem_world \<Rightarrow> rem_job \<Rightarrow> (rem_run, rem_exit + unit) state" where
  "check_composer w j = do {
     modify (\<lambda>s. s\<lparr>rr_evidence := (rr_evidence s)\<lparr>re_basis := Some (if rj_again j then Codex_input_tail else Text_transport_sent)\<rparr>\<rparr>);
     if \<not> rj_again j then State_Monad.return (Inr ())
     else ebind (ask (\<lambda>n. map_option (\<lambda>screen. pendingCodexInput (rw_digest w) screen (rj_tail j)) (rw_screen w n)) R_screen)
       (\<lambda>held. if held then State_Monad.return (Inr ()) else stop_with Input_changed)
   }"

definition changed :: "(rem_run, rem_exit + unit) state" where
  "changed = do { p \<leftarrow> gets rr_problem; stop_with (Status_or_lifecycle_changed p) }"

definition check_status :: "rem_world \<Rightarrow> knobs \<Rightarrow> rem_job \<Rightarrow> (rem_run, rem_exit + unit) state" where
  "check_status w k j = do {
     before \<leftarrow> rem_read w k j None;
     if \<not> fits j before then changed
     else ebind (ask (rw_can w) R_can) (\<lambda>can. if can then State_Monad.return (Inr ()) else changed)
   }"

definition intention :: "rem_evidence \<Rightarrow> rem_evidence" where
  "intention e = e\<lparr>re_action := Machine_enter, re_result := Attempting, re_reason := Machine_presses\<rparr>"

definition check_again :: "rem_world \<Rightarrow> knobs \<Rightarrow> rem_job \<Rightarrow> (rem_run, rem_exit + unit) state" where
  "check_again w k j = do {
     ok \<leftarrow> (if \<not> rj_again j then State_Monad.return True
           else do { x \<leftarrow> rem_read w k j None; State_Monad.return (seen_status S_idle x) });
     if \<not> ok then stop_with Status_changed
     else ebind (ask (rw_can w) R_can) (\<lambda>can. if can then State_Monad.return (Inr ()) else stop_with Lifecycle_changed)
   }"

text \<open>The key, and the observation after it.\<close>

definition press_key :: "rem_world \<Rightarrow> rat \<Rightarrow> call_context \<Rightarrow> (rem_run, rem_exit + rat) state" where
  "press_key w deadline ctx = do {
     shown_event (R_enter ctx);
     n \<leftarrow> gets rr_awaits;
     modify (\<lambda>s. s\<lparr>rr_awaits := Suc n\<rparr>);
     (case rw_enter w n of
        None \<Rightarrow> State_Monad.return (Inl Exit_thrown)
      | Some r \<Rightarrow> do {
          foul \<leftarrow> (if sd_attempt r \<noteq> cc_attempt ctx \<or> sd_sequence r \<noteq> cc_sequence ctx then State_Monad.return True
                  else do { t' \<leftarrow> clock w; State_Monad.return (cc_deadline ctx \<le> t' \<or> cc_deadline ctx \<le> sd_finished r) });
          modify (\<lambda>s. s\<lparr>rr_evidence := (rr_evidence s)\<lparr>re_enter := Some (if foul then Uncertain else sd_kind r)\<rparr>\<rparr>);
          if foul \<or> sd_kind r \<noteq> Sent then stop_with Enter_unconfirmed else State_Monad.return (Inr deadline)
        })
   }"

definition press :: "rem_world \<Rightarrow> knobs \<Rightarrow> rem_job \<Rightarrow> (rem_run, rem_exit + rat) state" where
  "press w k j = do {
     modify (\<lambda>s. s\<lparr>rr_evidence := (rr_evidence s)\<lparr>re_action := Machine_enter, re_result := Gave_up, re_reason := Flip_deadline\<rparr>\<rparr>);
     t \<leftarrow> clock w;
     let deadline = t + of_nat (kn_flip k);
     ctx \<leftarrow> rem_call w k j (Some deadline);
     press_key w deadline ctx
   }"

definition watch_body ::
    "rem_world \<Rightarrow> rem_job \<Rightarrow> status_sample option \<Rightarrow> bool \<Rightarrow> (rem_run, (rem_exit + bool) + bool) state" where
  "watch_body w j x known =
     (if seen_status S_working x then do {
        e \<leftarrow> gets rr_evidence;
        State_Monad.return (Inl (Inl (Exit_with (e\<lparr>re_result := Working_observed, re_flip := True,
          re_attribution := Machine_remediation, re_reason := Seen_working\<rparr>))))
      }
      else leaving (ask (rw_can w) R_can) (\<lambda>can.
        if \<not> can then leaving (stop_with Lifecycle_changed) (\<lambda>u :: unit. State_Monad.return (Inr known))
        else (case identity_broken x of
          Some f \<Rightarrow> leaving (stop_with (Identity_invalid f)) (\<lambda>u :: unit. State_Monad.return (Inr known))
        | None \<Rightarrow> State_Monad.return (Inr (known \<or> known_status x)))))"

definition watch :: "nat \<Rightarrow> rem_world \<Rightarrow> knobs \<Rightarrow> rem_job \<Rightarrow> rat \<Rightarrow> (rem_run, rem_exit + unit) state" where
  "watch n w k j deadline =
     ebind (rem_window n w k j deadline (watch_body w j) id False) (\<lambda>known. do {
       p \<leftarrow> gets rr_problem;
       stop_with (if known then Flip_deadline else Status_unavailable p)
     })"

definition rem_body :: "nat \<Rightarrow> rem_world \<Rightarrow> knobs \<Rightarrow> rem_job \<Rightarrow> (rem_run, rem_exit + unit) state" where
  "rem_body n w k j =
     ebind (if rj_again j then reevaluation n w k j else State_Monad.return (Inr ())) (\<lambda>_.
     ebind (if rj_unknown j then classification n w k j else State_Monad.return (Inr ())) (\<lambda>_.
     ebind (check_pane w) (\<lambda>_.
     ebind (check_composer w j) (\<lambda>_.
     ebind (check_status w k j) (\<lambda>_.
     ebind (record_action w j intention) (\<lambda>_.
     ebind (check_again w k j) (\<lambda>_.
     ebind (press w k j) (watch n w k j))))))))"

text \<open>The \<open>catch\<close>, and the result of a call.  \<open>None\<close> is the end of the fuel.\<close>

definition caught :: "rem_evidence \<Rightarrow> rem_evidence" where
  "caught e = (if re_action e = Machine_enter \<and> re_enter e = None then e\<lparr>re_enter := Some Uncertain\<rparr> else e)\<lparr>re_reason := Control_error\<rparr>"

definition rem_answer :: "(rem_exit + unit) \<times> rem_run \<Rightarrow> rem_evidence option" where
  "rem_answer r = (case r of
     (Inl (Exit_with e), _) \<Rightarrow> Some e
   | (Inl Exit_thrown, s) \<Rightarrow> Some (caught (rr_evidence s))
   | _ \<Rightarrow> None)"

definition fresh_run :: rem_run where
  "fresh_run = \<lparr>rr_ticks = 0, rr_awaits = 0, rr_slept = 0, rr_sequence = 0, rr_problem = None, rr_evidence = no_evidence, rr_out = []\<rparr>"

definition run_job :: "nat \<Rightarrow> rem_world \<Rightarrow> knobs \<Rightarrow> rem_job \<Rightarrow> rem_evidence option \<times> rem_run" where
  "run_job n w k j = (let r = run_state (rem_body n w k j) fresh_run in (rem_answer r, snd r))"

section \<open>Calls that share their state\<close>

record remediator =
  rd_used :: "string list"
  rd_busy :: "string list"

definition job_of :: "rem_request \<Rightarrow> jobject \<Rightarrow> json \<Rightarrow> rem_job" where
  "job_of q e target = \<lparr>rj_attempt = the (string_of (pget e ''attempt_id'')), rj_pane = the (string_of (pget e ''pane_id'')),
     rj_label = rq_pane q, rj_target = target, rj_tail = pget e ''prompt_tail'', rj_again = reevaluates (rq_agent q) e,
     rj_unknown = unknown_baseline e, rj_records = rq_records q\<rparr>"

text \<open>The head of \<open>remediate\<close>, up to the reservation of the pane.\<close>

definition begin_remediation :: "remediator \<Rightarrow> rem_request \<Rightarrow> (rem_evidence + rem_job) \<times> remediator" where
  "begin_remediation r q =
     (case parseDeliveryV2 (rq_evidence q) of
        None \<Rightarrow> (Inl no_evidence, r)
      | Some e \<Rightarrow>
          if insufficient (rq_agent q) e then (Inl no_evidence, r)
          else (case targetOf e (rq_agent q) of
             None \<Rightarrow> (Inl no_evidence, r)
           | Some target \<Rightarrow>
               let j = job_of q e target in
               if rj_pane j \<in> set (rd_busy r) then (Inl no_evidence, r)
               else if MAX_CONCURRENT_REMEDIATIONS \<le> length (rd_busy r)
                 then (Inl (no_evidence\<lparr>re_reason := Concurrency_limit\<rparr>), r)
               else (case claim (rj_attempt j) (rd_used r) of
                  (Duplicate, _) \<Rightarrow> (Inl (no_evidence\<lparr>re_reason := Duplicate_attempt\<rparr>), r)
                | (Full, _) \<Rightarrow> (Inl (no_evidence\<lparr>re_reason := Attempt_capacity\<rparr>), r)
                | (New_attempt, used) \<Rightarrow> (Inr j, r\<lparr>rd_used := used, rd_busy := rd_busy r @ [rj_pane j]\<rparr>))))"

text \<open>The \<open>finally\<close>.\<close>

definition end_remediation :: "remediator \<Rightarrow> rem_job \<Rightarrow> remediator" where
  "end_remediation r j = r\<lparr>rd_busy := filter (\<lambda>p. p \<noteq> rj_pane j) (rd_busy r)\<rparr>"

section \<open>Reasoning about a call\<close>

lemma wp_steps [simp]:
  "wp (clock w) Q a = Q (rw_now w (rr_ticks a) + rr_slept a) (a\<lparr>rr_ticks := Suc (rr_ticks a)\<rparr>)"
  "wp (pause w ms) R a = R () (a\<lparr>rr_awaits := Suc (rr_awaits a), rr_slept := rr_slept a + rw_sleep w (rr_awaits a) ms\<rparr>)"
  "wp (shown_event x) U a = U () (a\<lparr>rr_out := rr_out a @ [x]\<rparr>)"
  by (simp_all add: wp_def clock_def pause_def shown_event_def modify_def)

lemma wp_ebind: "wp (ebind m f) Q s = wp m (\<lambda>r s'. case r of Inl e \<Rightarrow> Q (Inl e) s' | Inr a \<Rightarrow> wp (f a) Q s') s"
  unfolding ebind_def wp_basic by (rule arg_cong [where f = "\<lambda>Q. wp m Q s"]) (auto simp: fun_eq_iff split: sum.split)

lemma wp_ask:
  "wp (ask answers shown) Q s =
     (case answers (rr_awaits s) of
        None \<Rightarrow> Q (Inl Exit_thrown) (s\<lparr>rr_awaits := Suc (rr_awaits s)\<rparr>)
      | Some a \<Rightarrow> Q (Inr a) (s\<lparr>rr_awaits := Suc (rr_awaits s), rr_out := rr_out s @ [shown a]\<rparr>))"
  by (simp add: ask_def split: option.split)

lemma wp_stop:
  "wp (stop_with reason) Q s = Q (Inl (Exit_with ((rr_evidence s)\<lparr>re_reason := reason\<rparr>))) s"
  "wp (give_up_with reason) R s = R (Inl (Exit_with ((rr_evidence s)\<lparr>re_result := Gave_up, re_reason := reason\<rparr>))) s"
  by (simp_all add: stop_with_def give_up_with_def)

text \<open>Triples with a second postcondition for the exits.\<close>

definition triple :: "('s \<Rightarrow> bool) \<Rightarrow> ('s, 'e + 'a) state \<Rightarrow> ('a \<Rightarrow> 's \<Rightarrow> bool) \<Rightarrow> ('e \<Rightarrow> 's \<Rightarrow> bool) \<Rightarrow> bool" where
  "triple P m Q E \<longleftrightarrow> (\<forall>s. P s \<longrightarrow> wp m (\<lambda>r s'. case r of Inl e \<Rightarrow> E e s' | Inr a \<Rightarrow> Q a s') s)"

lemma tripleI: "(\<And>s. P s \<Longrightarrow> wp m (\<lambda>r s'. case r of Inl e \<Rightarrow> E e s' | Inr a \<Rightarrow> Q a s') s) \<Longrightarrow> triple P m Q E"
  by (simp add: triple_def)

lemma tripleD: "triple P m Q E \<Longrightarrow> P s \<Longrightarrow> wp m (\<lambda>r s'. case r of Inl e \<Rightarrow> E e s' | Inr a \<Rightarrow> Q a s') s"
  by (simp add: triple_def)

lemma triple_ebind:
  assumes "triple P m Q E" "\<And>a. triple (Q a) (f a) R E"
  shows "triple P (ebind m f) R E"
proof (rule tripleI, unfold wp_ebind, rule wp_mono [OF tripleD [OF assms(1)]], assumption)
  fix s r s'
  assume "case r of Inl e \<Rightarrow> E e s' | Inr a \<Rightarrow> Q a s'"
  then show "case r of Inl e \<Rightarrow> (case Inl e of Inl e \<Rightarrow> E e s' | Inr a \<Rightarrow> R a s')
      | Inr a \<Rightarrow> wp (f a) (\<lambda>r s'. case r of Inl e \<Rightarrow> E e s' | Inr a \<Rightarrow> R a s') s'"
    using tripleD [OF assms(2)] by (cases r) auto
qed

lemma gated_return: "(\<And>s. P s \<Longrightarrow> Q x s) \<Longrightarrow> triple P (State_Monad.return (Inr x)) Q E"
  by (simp add: triple_def)

lemma gated_if: "(b \<Longrightarrow> triple P m Q E) \<Longrightarrow> (\<not> b \<Longrightarrow> triple P m' Q E) \<Longrightarrow> triple P (if b then m else m') Q E"
  by simp

section \<open>At most one key, after every check\<close>

definition is_press :: "rem_event \<Rightarrow> bool" where
  "is_press x \<longleftrightarrow> (case x of R_enter _ \<Rightarrow> True | _ \<Rightarrow> False)"

definition presses :: "rem_event list \<Rightarrow> nat" where
  "presses xs = length (filter is_press xs)"

lemma presses_simps [simp]:
  "presses [] = 0" "presses (x # xs) = (if is_press x then Suc (presses xs) else presses xs)" "presses (xs @ ys) = presses xs + presses ys"
  "is_press (R_enter c)" "\<not> is_press (R_can b)" "\<not> is_press (R_match b)" "\<not> is_press (R_screen b)" "\<not> is_press (R_read c)"
  "\<not> is_press (R_seen st)" "\<not> is_press (R_record e)" "\<not> is_press (R_time t)"
  by (simp_all add: presses_def is_press_def)

text \<open>The events that lead to the key.\<close>

definition leads_to_key :: "rem_job \<Rightarrow> call_context \<Rightarrow> agent_status \<Rightarrow> rem_evidence \<Rightarrow> call_context \<Rightarrow> rem_event list" where
  "leads_to_key j c st e c' =
     [R_can True, R_match True] @ (if rj_again j then [R_screen True] else []) @ [R_read c, R_seen st, R_can True] @
     (if rj_records j then [R_record e] else []) @ (if rj_again j then [R_read c', R_seen S_idle] else []) @ [R_can True]"

text \<open>
  What a call has to observe before those events.  After an unknown baseline: a classifiable status, then the lifecycle.
  For an agent that had been seen working: a stretch in which every status query was answered with an accepted idle
  sample, three at least and two seconds from the first clock reading to the last, then the pane and the composer.
\<close>

fun statuses :: "rem_event list \<Rightarrow> agent_status list" where
  "statuses [] = []"
| "statuses (x # xs) = (case x of R_seen st \<Rightarrow> st # statuses xs | _ \<Rightarrow> statuses xs)"

fun queries :: "rem_event list \<Rightarrow> nat" where
  "queries [] = 0"
| "queries (x # xs) = (case x of R_read _ \<Rightarrow> Suc (queries xs) | _ \<Rightarrow> queries xs)"

fun readings :: "rem_event list \<Rightarrow> rat list" where
  "readings [] = []"
| "readings (x # xs) = (case x of R_time t \<Rightarrow> t # readings xs | _ \<Rightarrow> readings xs)"

definition idle_stretch :: "rat \<Rightarrow> nat \<Rightarrow> rem_event list \<Rightarrow> bool" where
  "idle_stretch t n xs \<longleftrightarrow> statuses xs = replicate n S_idle \<and> queries xs = n \<and> R_can False \<notin> set xs \<and> R_match False \<notin> set xs \<and>
     readings xs \<noteq> [] \<and> hd (readings xs) = t \<and> presses xs = 0"

definition idle_long_enough :: "rem_event list \<Rightarrow> bool" where
  "idle_long_enough xs \<longleftrightarrow> (\<exists>t n. idle_stretch t n xs \<and> 3 \<le> n \<and> 2000 \<le> last (readings xs) - t)"

definition grounds :: "rem_job \<Rightarrow> rem_event list \<Rightarrow> bool" where
  "grounds j xs \<longleftrightarrow>
     (if rj_unknown j then \<exists>c st. st \<noteq> S_unknown \<and> xs = [R_read c, R_seen st, R_can True]
      else if rj_again j then \<exists>ys. idle_long_enough ys \<and> xs = ys @ [R_match True, R_screen True]
      else xs = [])"

definition pressed_once :: "rem_job \<Rightarrow> rem_event list \<Rightarrow> bool" where
  "pressed_once j out \<longleftrightarrow> (\<exists>p xs c st e c' c'' post. out = p @ xs @ leads_to_key j c st e c' @ R_enter c'' # post \<and>
     grounds j xs \<and> may_press j st \<and> re_action e = Machine_enter \<and> presses p = 0 \<and> presses xs = 0 \<and> presses post = 0)"

lemma events_append [simp]:
  "statuses (xs @ ys) = statuses xs @ statuses ys" "queries (xs @ ys) = queries xs + queries ys"
  "readings (xs @ ys) = readings xs @ readings ys"
  by (induction xs) (simp_all split: rem_event.split)

definition calm :: "rem_run \<Rightarrow> bool" where
  "calm s \<longleftrightarrow> presses (rr_out s) = 0 \<and> re_action (rr_evidence s) = No_action \<and> re_enter (rr_evidence s) = None \<and>
     re_result (rr_evidence s) = Skipped"

definition acted :: "rem_job \<Rightarrow> rem_run \<Rightarrow> bool" where
  "acted j s \<longleftrightarrow> pressed_once j (rr_out s) \<and> re_action (rr_evidence s) = Machine_enter \<and> re_result (rr_evidence s) = Gave_up"

definition truthful :: "rem_job \<Rightarrow> rem_evidence \<Rightarrow> rem_event list \<Rightarrow> bool" where
  "truthful j e out \<longleftrightarrow> (if re_action e = Machine_enter then pressed_once j out else presses out = 0) \<and>
     (re_result e = Working_observed \<longrightarrow> re_enter e = Some Sent \<and> out \<noteq> [] \<and> last out = R_seen S_working)"

definition left :: "rem_job \<Rightarrow> rem_exit \<Rightarrow> rem_run \<Rightarrow> bool" where
  "left j x s \<longleftrightarrow> (case x of Exit_with e \<Rightarrow> truthful j e (rr_out s) | Exit_thrown \<Rightarrow> calm s \<or> acted j s | Exit_fuel \<Rightarrow> True)"

definition ending_in :: "rem_event list \<Rightarrow> rem_run \<Rightarrow> bool" where
  "ending_in xs s \<longleftrightarrow> calm s \<and> (\<exists>p. rr_out s = p @ xs)"

lemma calm_leaves: "calm s \<Longrightarrow> truthful j ((rr_evidence s)\<lparr>re_reason := r\<rparr>) (rr_out s)"
  "calm s \<Longrightarrow> truthful j ((rr_evidence s)\<lparr>re_result := Gave_up, re_reason := r\<rparr>) (rr_out s)"
  by (simp_all add: calm_def truthful_def)

lemma acted_leaves: "acted j s \<Longrightarrow> truthful j ((rr_evidence s)\<lparr>re_reason := r\<rparr>) (rr_out s)"
  by (simp add: acted_def truthful_def)

lemma pressed_more: "pressed_once j out \<Longrightarrow> presses xs = 0 \<Longrightarrow> pressed_once j (out @ xs)"
  unfolding pressed_once_def by (elim exE conjE) (rule exI, rule exI, rule exI, rule exI, rule exI, rule exI, rule exI, rule exI, fastforce)

text \<open>A query adds the call and, when the sample is accepted, what was seen.\<close>

definition seen_events :: "call_context \<Rightarrow> status_sample option \<Rightarrow> rem_event list" where
  "seen_events c x = R_read c # (case x of Some y \<Rightarrow> if sp_error y = None then [R_seen (sp_status y)] else [] | None \<Rightarrow> [])"

lemma wp_rem_call:
  "wp (rem_call w k j d) (\<lambda>c s'. rr_evidence s' = rr_evidence s \<and> rr_out s' = rr_out s) s"
  by (simp add: rem_call_def split: option.split)

lemma wp_rem_read:
  "wp (rem_read w k j d) (\<lambda>x s'. rr_evidence s' = rr_evidence s \<and> (\<exists>c. rr_out s' = rr_out s @ seen_events c x)) s"
  unfolding rem_read_def wp_basic
proof (rule wp_mono [OF wp_rem_call])
  fix c and s1 :: rem_run
  assume s1: "rr_evidence s1 = rr_evidence s \<and> rr_out s1 = rr_out s"
  let ?Q = "\<lambda>x s'. rr_evidence s' = rr_evidence s \<and> (\<exists>c. rr_out s' = rr_out s @ seen_events c x)"
  have accept: "wp (rem_accept j x) ?Q s2" if "rr_evidence s2 = rr_evidence s" "rr_out s2 = rr_out s @ [R_read c]" for x and s2 :: rem_run
    using that by (auto simp: rem_accept_def Let_def seen_events_def split: option.split)
  show "wp (rem_query w j c) ?Q s1"
    using s1 accept by (auto simp: rem_query_def seen_events_def split: option.split)
qed

lemma seen_no_press [simp]: "presses (seen_events c x) = 0"
  by (auto simp: seen_events_def split: option.split)

lemma seen_status_events: "seen_status st x \<Longrightarrow> seen_events c x = [R_read c, R_seen st]"
  by (auto simp: seen_status_def seen_events_def split: option.splits)

lemma fits_events: "fits j x \<Longrightarrow> \<exists>st. may_press j st \<and> seen_events c x = [R_read c, R_seen st]"
  by (auto simp: fits_def seen_events_def split: option.splits)

text \<open>Facts about a call that do not depend on its counters.\<close>

definition unclocked :: "(rem_run \<Rightarrow> bool) \<Rightarrow> bool" where
  "unclocked P \<longleftrightarrow> (\<forall>s n m r. P s \<longrightarrow> P (s\<lparr>rr_ticks := n\<rparr>) \<and> P (s\<lparr>rr_awaits := m\<rparr>) \<and> P (s\<lparr>rr_awaits := m, rr_slept := r\<rparr>) \<and>
     P (s\<lparr>rr_sequence := n\<rparr>))"

lemma unclocked_facts: "unclocked calm" "unclocked (acted j)" "unclocked (ending_in xs)"
  by (auto simp: unclocked_def calm_def acted_def ending_in_def)

lemma unclockedD: "unclocked P \<Longrightarrow> P s \<Longrightarrow> P (s\<lparr>rr_ticks := n\<rparr>)" "unclocked P \<Longrightarrow> P s \<Longrightarrow> P (s\<lparr>rr_awaits := m\<rparr>)"
  "unclocked P \<Longrightarrow> P s \<Longrightarrow> P (s\<lparr>rr_awaits := m, rr_slept := r\<rparr>)"
  by (simp_all add: unclocked_def)

lemma triple_window:
  assumes I: "\<And>c. unclocked (I c)" and fuel: "\<And>s. E Exit_fuel s"
    and body: "\<And>c s. I c s \<Longrightarrow> wp (rem_read w k j (Some deadline)) (\<lambda>x. wp (body x c) (\<lambda>r s'.
      case r of Inl (Inl e) \<Rightarrow> E e s' | Inl (Inr b) \<Rightarrow> Q b s' | Inr c' \<Rightarrow> I c' s')) s"
    and after: "\<And>c s. I c s \<Longrightarrow> Q (after c) s"
  shows "triple (I c) (rem_window n w k j deadline body after c) Q E"
proof (rule tripleI)
  fix s
  assume s: "I c s"
  let ?Q = "\<lambda>e s'. case e of Inl e \<Rightarrow> E e s' | Inr b \<Rightarrow> Q b s'"
  have "wp (status_window n (State_Monad.return False) (clock w) (pause w) deadline (of_nat (kn_poll k))
      (rem_read w k j (Some deadline)) body c)
    (\<lambda>r s'. case r of None \<Rightarrow> True | Some (Inl e) \<Rightarrow> ?Q e s' | Some (Inr c') \<Rightarrow> I c' s') s"
  proof (rule wp_window [where I = "\<lambda>_. I"])
    fix c and s :: rem_run
    assume "I c s"
    from body [OF this] show "wp (rem_read w k j (Some deadline)) (\<lambda>x. wp (body x c) (\<lambda>r s'.
        case r of Inl e \<Rightarrow> ?Q e s' | Inr c' \<Rightarrow> I c' s')) s"
      by (rule wp_mono) (erule wp_mono, auto split: sum.splits)
  qed (use s unclockedD [OF I] in auto)
  then show "wp (rem_window n w k j deadline body after c) ?Q s"
    unfolding rem_window_def wp_basic
    by (rule wp_mono) (auto simp: fuel after split: option.splits sum.splits)
qed

lemma wp_leaving: "wp (leaving m f) Q s = wp m (\<lambda>r s'. case r of Inl e \<Rightarrow> Q (Inl (Inl e)) s' | Inr a \<Rightarrow> wp (f a) Q s') s"
  unfolding leaving_def wp_basic by (rule arg_cong [where f = "\<lambda>Q. wp m Q s"]) (auto simp: fun_eq_iff split: sum.split)

lemma calm_out: "calm s \<Longrightarrow> presses xs = 0 \<Longrightarrow> calm (s\<lparr>rr_awaits := n, rr_out := rr_out s @ xs\<rparr>)"
  "calm s \<Longrightarrow> calm (s\<lparr>rr_awaits := n\<rparr>)" "calm s \<Longrightarrow> calm (s\<lparr>rr_ticks := n\<rparr>)"
  by (simp_all add: calm_def)

lemma calm_left: "calm s \<Longrightarrow> left j (Exit_with ((rr_evidence s)\<lparr>re_reason := r\<rparr>)) s"
  "calm s \<Longrightarrow> left j (Exit_with ((rr_evidence s)\<lparr>re_result := Gave_up, re_reason := r\<rparr>)) s"
  "calm s \<Longrightarrow> left j Exit_thrown s" "left j Exit_fuel s"
  by (simp_all add: left_def calm_leaves)

lemma wp_read_calm:
  assumes "calm s" "\<And>x s'. calm s' \<Longrightarrow> Q x s'"
  shows "wp (rem_read w k j d) Q s"
  by (rule wp_mono [OF wp_rem_read]) (use assms in \<open>auto simp: calm_def\<close>)

text \<open>Loop bodies of a calm call.\<close>

definition body_post :: "rem_job \<Rightarrow> (rem_exit + 'b) + 'c \<Rightarrow> rem_run \<Rightarrow> bool" where
  "body_post j r s \<longleftrightarrow> (case r of Inl (Inl e) \<Rightarrow> left j e s | Inl (Inr b) \<Rightarrow> calm s | Inr c \<Rightarrow> calm s)"

lemma body_post_simps [simp]:
  "body_post j (Inl (Inl e)) s = left j e s" "body_post j (Inl (Inr b)) s = calm s" "body_post j (Inr c) s = calm s"
  by (simp_all add: body_post_def)

definition body_ok :: "rem_job \<Rightarrow> (rem_run, (rem_exit + 'b) + 'c) state \<Rightarrow> bool" where
  "body_ok j m \<longleftrightarrow> (\<forall>s. calm s \<longrightarrow> wp m (body_post j) s)"

abbreviation stays_calm :: "(rem_run, 'a) state \<Rightarrow> bool" where
  "stays_calm \<equiv> passes calm (\<lambda>_. 0)"

named_theorems calming "steps that keep a call calm"

lemma stays_calm_basic [calming]: "stays_calm (clock w)" "stays_calm (State_Monad.return x)" "stays_calm (gets f)"
  by (simp_all add: passes_def calm_def)

lemma body_leaving [calming]:
  assumes "triple calm m (\<lambda>_. calm) (left j)" "\<And>a. body_ok j (f a)"
  shows "body_ok j (leaving m f)"
  unfolding body_ok_def wp_leaving
proof (intro allI impI, rule wp_mono [OF tripleD [OF assms(1)]], assumption)
  fix s s' and r :: "rem_exit + 'a"
  assume "case r of Inl e \<Rightarrow> left j e s' | Inr a \<Rightarrow> calm s'"
  then show "case r of Inl e \<Rightarrow> body_post j (Inl (Inl e)) s' | Inr a \<Rightarrow> wp (f a) (body_post j) s'"
    using assms(2) unfolding body_ok_def by (cases r) simp_all
qed

lemma body_bind [calming]:
  assumes "stays_calm m" "\<And>x. body_ok j (f x)"
  shows "body_ok j (State_Monad.bind m f)"
  unfolding body_ok_def wp_basic
  by (intro allI impI, rule wp_mono [OF passesD [OF assms(1)]]) (use assms(2) in \<open>auto simp: body_ok_def\<close>)

lemma body_return [calming]: "body_ok j (State_Monad.return (Inr c))" "body_ok j (State_Monad.return (Inl (Inr b)))"
  by (simp_all add: body_ok_def)

lemma body_return_if [calming]: "body_ok j (State_Monad.return x) \<Longrightarrow> body_ok j (State_Monad.return y) \<Longrightarrow>
    body_ok j (State_Monad.return (if b then x else y))"
  by simp

lemma body_if [calming]: "body_ok j m \<Longrightarrow> body_ok j m' \<Longrightarrow> body_ok j (if b then m else m')"
  by simp

lemma body_option [calming]: "(\<And>x. body_ok j (f x)) \<Longrightarrow> body_ok j m \<Longrightarrow> body_ok j (case v of None \<Rightarrow> m | Some x \<Rightarrow> f x)"
  by (cases v) simp_all

lemma triple_ask [calming]: "(\<And>a. \<not> is_press (shown a)) \<Longrightarrow> triple calm (ask f shown) (\<lambda>_. calm) (left j)"
  by (rule tripleI) (auto simp: wp_ask calm_out calm_left split: option.split)

lemma triple_stop [calming]: "triple calm (stop_with r) Q (left j)" "triple calm (give_up_with r) Q (left j)"
  by (rule tripleI, simp add: wp_stop calm_left)+

lemma shown_no_press [calming]: "\<And>b. \<not> is_press (R_can b)" "\<And>b. \<not> is_press (R_match b)" "\<And>b. \<not> is_press (R_screen b)"
  by simp_all

lemma stays_calm_if [calming]: "stays_calm m \<Longrightarrow> stays_calm m' \<Longrightarrow> stays_calm (if b then m else m')"
  by simp

text \<open>The loop that waits for a classifiable status.\<close>

definition ending_known :: "rem_run \<Rightarrow> bool" where
  "ending_known s \<longleftrightarrow> (\<exists>c st. st \<noteq> S_unknown \<and> ending_in [R_read c, R_seen st, R_can True] s)"

lemma known_status_events: "known_status x \<Longrightarrow> \<exists>st. st \<noteq> S_unknown \<and> seen_events c x = [R_read c, R_seen st]"
  by (auto simp: known_status_def seen_events_def split: option.splits)

lemma classify_body_known:
  assumes "calm s" "rr_evidence s' = rr_evidence s \<and> (\<exists>c. rr_out s' = rr_out s @ seen_events c x)"
  shows "wp (classify_body w j deadline x u)
    (\<lambda>r s'. case r of Inl (Inl e) \<Rightarrow> left j e s' | Inl (Inr b) \<Rightarrow> if b then ending_known s' else calm s' | Inr c' \<Rightarrow> calm s') s'"
proof -
  obtain c where c: "rr_evidence s' = rr_evidence s" "rr_out s' = rr_out s @ seen_events c x"
    using assms(2) by blast
  have s': "calm s'"
    using assms(1) c by (simp add: calm_def)
  have known: "ending_known (s'\<lparr>rr_awaits := n, rr_out := rr_out s' @ [R_can True], rr_ticks := m\<rparr>)" if k: "known_status x" for n m
  proof -
    obtain st where "st \<noteq> S_unknown" "seen_events c x = [R_read c, R_seen st]"
      using known_status_events [OF k] by blast
    with c s' show ?thesis
      unfolding ending_known_def ending_in_def
      by (intro exI [of _ c] exI [of _ st]) (simp add: calm_def)
  qed
  show ?thesis
    using s' known
    by (auto simp: classify_body_def wp_leaving wp_ask wp_stop calm_left calm_out left_def truthful_def calm_def
        split: option.split)
qed

text \<open>The loop that waits for idle stability: its state remembers the stretch that is still idle.\<close>

definition steady_idle :: "stability \<Rightarrow> rem_run \<Rightarrow> bool" where
  "steady_idle c s \<longleftrightarrow> calm s \<and>
     (case sb_since c of
        None \<Rightarrow> sb_samples c = 0
      | Some t \<Rightarrow> \<exists>p xs. rr_out s = p @ xs \<and> idle_stretch t (sb_samples c) xs)"

definition ending_stable :: "rem_run \<Rightarrow> bool" where
  "ending_stable s \<longleftrightarrow> (\<exists>xs. idle_long_enough xs \<and> ending_in (xs @ [R_match True, R_screen True]) s)"

lemma steady_unclocked: "unclocked (steady_idle c)"
  by (auto simp: unclocked_def steady_idle_def calm_def split: option.split)

lemma idle_stretch_more:
  "idle_stretch t n xs \<Longrightarrow> idle_stretch t n (xs @ [R_time u])"
  "idle_stretch t n xs \<Longrightarrow> idle_stretch t n (xs @ [R_match True, R_screen b])"
  "idle_stretch t n xs \<Longrightarrow> idle_stretch t (Suc n) (xs @ [R_read c, R_seen S_idle, R_can True])"
  "idle_stretch u (Suc 0) [R_read c, R_seen S_idle, R_can True, R_time u]"
  by (simp_all add: idle_stretch_def replicate_append_same [symmetric])

text \<open>Where a stretch has been found, and what the gate makes of it.\<close>

definition in_stretch :: "rat \<Rightarrow> nat \<Rightarrow> rem_event list \<Rightarrow> rem_run \<Rightarrow> bool" where
  "in_stretch t n xs s \<longleftrightarrow> calm s \<and> idle_stretch t n xs \<and> (\<exists>p. rr_out s = p @ xs)"

definition stable_post :: "rem_job \<Rightarrow> (rem_exit + bool \<times> rem_reason) + stability \<Rightarrow> rem_run \<Rightarrow> bool" where
  "stable_post j r s \<longleftrightarrow> (case r of Inl (Inl e) \<Rightarrow> left j e s | Inl (Inr b) \<Rightarrow> if fst b then ending_stable s else calm s
     | Inr c \<Rightarrow> steady_idle c s)"

lemma stable_post_simps [simp]:
  "stable_post j (Inl (Inl e)) s = left j e s" "stable_post j (Inl (Inr b)) s = (if fst b then ending_stable s else calm s)"
  "stable_post j (Inr c) s = steady_idle c s"
  by (simp_all add: stable_post_def)

lemma in_stretch_steady: "in_stretch t n xs s \<Longrightarrow> sb_since c = Some t \<Longrightarrow> sb_samples c = n \<Longrightarrow> steady_idle c s"
  by (auto simp: in_stretch_def steady_idle_def)

lemma in_stretch_out:
  "in_stretch t n xs s \<Longrightarrow> idle_stretch t' n' (xs @ ys) \<Longrightarrow> rr_evidence s' = rr_evidence s \<Longrightarrow> rr_out s' = rr_out s @ ys \<Longrightarrow>
     in_stretch t' n' (xs @ ys) s'"
  by (auto simp: in_stretch_def calm_def idle_stretch_def)

lemma stable_gate_post:
  assumes "in_stretch t n xs s" "sb_since c = Some t" "sb_samples c = n" "3 \<le> n" "2000 \<le> last (readings xs) - t"
  shows "wp (stable_gate w j deadline c) (stable_post j) s"
proof -
  have s: "calm s" using assms(1) by (simp add: in_stretch_def)
  obtain p where p: "rr_out s = p @ xs" "idle_stretch t n xs" using assms(1) by (auto simp: in_stretch_def)
  have held: "ending_stable (s\<lparr>rr_awaits := a, rr_out := rr_out s @ [R_match True, R_screen True], rr_ticks := m\<rparr>)" for a m
    unfolding ending_stable_def idle_long_enough_def ending_in_def
    using p s assms(4,5) by (intro exI [of _ xs]) (auto simp: calm_def)
  have not_held: "steady_idle (c\<lparr>sb_reason := r\<rparr>) (s\<lparr>rr_awaits := a, rr_out := rr_out s @ [R_match True, R_screen False]\<rparr>)" for a r
    by (rule in_stretch_steady [OF in_stretch_out [OF assms(1) idle_stretch_more(2) [OF p(2), where b = False]]]) (simp_all add: assms(2,3))
  have calm_held: "calm (s\<lparr>rr_awaits := a, rr_out := rr_out s @ ys, rr_ticks := m\<rparr>)" if "presses ys = 0" for a m ys
    using s that by (simp add: calm_def)
  show ?thesis
    using s held not_held calm_held [of "[R_match True, R_screen True]"]
    by (auto simp: stable_gate_def wp_leaving wp_ask wp_stop calm_left calm_out left_def truthful_def calm_def
        split: option.split)
qed

lemma stable_body_post:
  assumes "steady_idle c s" "rr_evidence s' = rr_evidence s \<and> (\<exists>q. rr_out s' = rr_out s @ seen_events q x)"
  shows "wp (stable_body w j deadline x c) (stable_post j) s'"
proof -
  obtain q where q: "rr_evidence s' = rr_evidence s" "rr_out s' = rr_out s @ seen_events q x"
    using assms(2) by blast
  have s': "calm s'"
    using assms(1) q by (simp add: calm_def steady_idle_def)
  let ?s = "\<lambda>m. s'\<lparr>rr_awaits := Suc (rr_awaits s'), rr_out := rr_out s' @ [R_can True], rr_ticks := m\<rparr>"
  have gate: "wp (do {
       early \<leftarrow> (if Suc (sb_samples c) < 3 then State_Monad.return True
                else do { t' \<leftarrow> noted w; State_Monad.return (t' - t < 2000) });
       if early then State_Monad.return (Inr (c\<lparr>sb_since := Some t, sb_samples := Suc (sb_samples c)\<rparr>))
       else stable_gate w j deadline (c\<lparr>sb_since := Some t, sb_samples := Suc (sb_samples c)\<rparr>)
     }) (stable_post j) s2"
    if s2: "in_stretch t (Suc (sb_samples c)) xs s2" for t xs s2
  proof (cases "Suc (sb_samples c) < 3")
    case True
    with in_stretch_steady [OF s2] show ?thesis by simp
  next
    case False
    let ?u = "rw_now w (rr_ticks s2) + rr_slept s2"
    let ?s3 = "s2\<lparr>rr_ticks := Suc (rr_ticks s2), rr_out := rr_out s2 @ [R_time ?u]\<rparr>"
    have s3: "in_stretch t (Suc (sb_samples c)) (xs @ [R_time ?u]) ?s3"
      using s2 by (intro in_stretch_out [OF s2 idle_stretch_more(1)]) (auto simp: in_stretch_def)
    show ?thesis
      using False in_stretch_steady [OF s3] stable_gate_post [OF s3, of "c\<lparr>sb_since := Some t, sb_samples := Suc (sb_samples c)\<rparr>" w j deadline]
      by (auto simp: noted_def)
  qed
  have idle: "wp (stable_idle w j deadline c) (stable_post j) (?s m)" if x: "seen_status S_idle x" for m
  proof -
    note ev = seen_status_events [OF x, of q]
    show ?thesis
    proof (cases "sb_since c")
      case None
      let ?u = "rw_now w m + rr_slept s'"
      let ?s3 = "(?s m)\<lparr>rr_ticks := Suc m, rr_out := rr_out (?s m) @ [R_time ?u]\<rparr>"
      have "in_stretch ?u (Suc 0) [R_read q, R_seen S_idle, R_can True, R_time ?u] ?s3"
        using q ev s' idle_stretch_more(4) by (auto simp: in_stretch_def calm_def)
      moreover have "sb_samples c = 0" using None assms(1) by (simp add: steady_idle_def)
      ultimately have "in_stretch ?u (Suc (sb_samples c)) [R_read q, R_seen S_idle, R_can True, R_time ?u] ?s3" by simp
      from gate [OF this] show ?thesis
        using None by (simp add: stable_idle_def Let_def noted_def cong: if_cong)
    next
      case (Some t)
      with assms(1) obtain p xs where "rr_out s = p @ xs" "idle_stretch t (sb_samples c) xs"
        by (auto simp: steady_idle_def)
      then have "in_stretch t (Suc (sb_samples c)) (xs @ [R_read q, R_seen S_idle, R_can True]) (?s m)"
        using q ev s' idle_stretch_more(3) by (auto simp: in_stretch_def calm_def)
      from gate [OF this] show ?thesis using Some by (simp add: stable_idle_def Let_def cong: if_cong)
    qed
  qed
  have reset: "steady_idle (c\<lparr>sb_since := None, sb_samples := 0\<rparr>) (?s m)" "calm (?s m)" for m
    using s' by (simp_all add: steady_idle_def calm_def)
  show ?thesis
    using s' idle reset
    by (auto simp: stable_body_def Let_def wp_leaving wp_ask wp_stop calm_left calm_out left_def truthful_def calm_def
        split: option.split)
qed

lemma triple_calm_bind [calming]:
  assumes "stays_calm m" "\<And>x. triple calm (f x) Q E"
  shows "triple calm (State_Monad.bind m f) Q E"
  unfolding triple_def wp_basic
  by (intro allI impI, rule wp_mono [OF passesD [OF assms(1)]]) (use assms(2) in \<open>auto simp: triple_def\<close>)

lemma triple_if_calm [calming]: "triple P m Q E \<Longrightarrow> triple P m' Q E \<Longrightarrow> triple P (if b then m else m') Q E"
  by simp

lemma calm_return [calming]: "triple calm (State_Monad.return (Inr x)) (\<lambda>_. calm) E"
  by (simp add: triple_def)

lemma stays_calm_evidence [calming]:
  "stays_calm (modify (\<lambda>s. s\<lparr>rr_evidence := (rr_evidence s)\<lparr>re_again := True\<rparr>\<rparr>))"
  "stays_calm (modify (\<lambda>s. s\<lparr>rr_evidence := (rr_evidence s)\<lparr>re_basis := b\<rparr>\<rparr>))"
  by (simp_all add: passes_def calm_def)

lemma record_calm: "triple calm (record_action w j f) (\<lambda>_. calm) (left j)"
  unfolding record_action_def by (intro calming) simp

lemma reevaluation_stable: "triple calm (reevaluation n w k j) (\<lambda>_. ending_stable) (left j)"
proof -
  have window: "triple calm (rem_window n w k j deadline (stable_body w j deadline) (\<lambda>c. (False, sb_reason c))
      \<lparr>sb_since = None, sb_samples = 0, sb_reason = Window_not_reached\<rparr>)
      (\<lambda>b s'. if fst b then ending_stable s' else calm s') (left j)" for deadline
  proof -
    let ?c = "\<lparr>sb_since = None, sb_samples = 0, sb_reason = Window_not_reached\<rparr>"
    have "triple (steady_idle ?c) (rem_window n w k j deadline (stable_body w j deadline) (\<lambda>c. (False, sb_reason c)) ?c)
        (\<lambda>b s'. if fst b then ending_stable s' else calm s') (left j)"
    proof (rule triple_window [OF steady_unclocked])
      fix c and s :: rem_run
      assume "steady_idle c s"
      from stable_body_post [OF this] show "wp (rem_read w k j (Some deadline)) (\<lambda>x. wp (stable_body w j deadline x c)
          (\<lambda>r s'. case r of Inl (Inl e) \<Rightarrow> left j e s' | Inl (Inr b) \<Rightarrow> if fst b then ending_stable s' else calm s'
             | Inr c' \<Rightarrow> steady_idle c' s')) s"
        unfolding stable_post_def [abs_def] by (rule wp_mono [OF wp_rem_read])
    qed (simp_all add: left_def steady_idle_def)
    then show ?thesis by (simp add: triple_def steady_idle_def)
  qed
  have tail: "triple (\<lambda>s'. if fst b then ending_stable s' else calm s')
      (case b of (ready, reason) \<Rightarrow> if ready then State_Monad.return (Inr ()) else give_up_with reason) (\<lambda>_. ending_stable) (left j)" for b
    by (cases b) (auto simp: triple_def wp_stop calm_left)
  show ?thesis
    unfolding reevaluation_def Let_def
    by (intro triple_ebind [OF record_calm] triple_ebind [OF window] calming tail)
qed

lemma classification_known: "triple calm (classification n w k j) (\<lambda>_. ending_known) (left j)"
proof -
  have window: "triple calm (rem_window n w k j deadline (classify_body w j deadline) (\<lambda>_. False) ())
      (\<lambda>b s'. if b then ending_known s' else calm s') (left j)" for deadline
  proof (rule triple_window [where I = "\<lambda>_. calm", OF unclocked_facts(1)])
    fix c and s :: rem_run
    assume "calm s"
    from classify_body_known [OF this] show "wp (rem_read w k j (Some deadline)) (\<lambda>x. wp (classify_body w j deadline x c) (\<lambda>r s'.
        case r of Inl (Inl e) \<Rightarrow> left j e s' | Inl (Inr b) \<Rightarrow> if b then ending_known s' else calm s' | Inr c' \<Rightarrow> calm s')) s"
      by (rule wp_mono [OF wp_rem_read])
  qed (simp_all add: left_def)
  have tail: "triple (\<lambda>s'. if b then ending_known s' else calm s')
      (if b then State_Monad.return (Inr ()) else give_up_with r) (\<lambda>_. ending_known) (left j)" for b r
    by (auto simp: triple_def wp_stop calm_left)
  show ?thesis
    unfolding classification_def Let_def
    by (intro triple_ebind [OF window] calming tail)
qed

text \<open>The checks, one group of events after the other.\<close>

lemma ending_calm: "ending_in xs s \<Longrightarrow> calm s" "calm s \<Longrightarrow> ending_in [] s"
  by (simp_all add: ending_in_def)

lemma ending_more: "ending_in xs s \<Longrightarrow> presses ys = 0 \<Longrightarrow> ending_in (xs @ ys) (s\<lparr>rr_awaits := n, rr_out := rr_out s @ ys\<rparr>)"
  by (auto simp: ending_in_def calm_def)

lemma triple_check:
  assumes "triple (ending_in (xs @ [shown True])) m Q (left j)" "triple calm m' Q (left j)" "\<not> is_press (shown True)" "\<not> is_press (shown False)"
  shows "triple (ending_in xs) (ebind (ask f shown) (\<lambda>b. if b then m else m')) Q (left j)"
proof (rule tripleI)
  fix s
  assume s: "ending_in xs s"
  let ?s = "\<lambda>b. s\<lparr>rr_awaits := Suc (rr_awaits s), rr_out := rr_out s @ [shown b]\<rparr>"
  let ?R = "\<lambda>r s'. case r of Inl e \<Rightarrow> left j e s' | Inr a \<Rightarrow> Q a s'"
  have "wp m ?R (?s True)"
    by (rule tripleD [OF assms(1)]) (rule ending_more [OF s], simp add: assms(3))
  moreover have "wp m' ?R (?s False)"
    by (rule tripleD [OF assms(2)]) (use ending_calm(1) [OF s] assms(4) in \<open>simp add: calm_out\<close>)
  moreover have "left j Exit_thrown (s\<lparr>rr_awaits := Suc (rr_awaits s)\<rparr>)"
    using ending_calm(1) [OF s] by (simp add: calm_left calm_out)
  ultimately show "wp (ebind (ask f shown) (\<lambda>b. if b then m else m')) ?R s"
    by (auto simp: wp_ebind wp_ask split: option.split)
qed

lemma if_not: "(if \<not> b then m else m') = (if b then m' else m)"
  by simp

lemma pane_checked: "triple (ending_in xs) (check_pane w) (\<lambda>_. ending_in (xs @ [R_can True, R_match True])) (left j)"
proof -
  have "triple (ending_in xs) (check_pane w) (\<lambda>_. ending_in ((xs @ [R_can True]) @ [R_match True])) (left j)"
    unfolding check_pane_def if_not
    by (intro triple_check triple_stop) (simp_all add: triple_def)
  then show ?thesis by simp
qed

lemma composer_checked:
  "triple (ending_in xs) (check_composer w j) (\<lambda>_. ending_in (xs @ (if rj_again j then [R_screen True] else []))) (left j)"
proof (rule tripleI)
  fix s
  assume s: "ending_in xs s"
  let ?s = "s\<lparr>rr_evidence := (rr_evidence s)\<lparr>re_basis := Some (if rj_again j then Codex_input_tail else Text_transport_sent)\<rparr>\<rparr>"
  have s': "ending_in xs ?s"
    using s by (simp add: ending_in_def calm_def)
  let ?screen = "\<lambda>n. map_option (\<lambda>screen. pendingCodexInput (rw_digest w) screen (rj_tail j)) (rw_screen w n)"
  have "triple (ending_in xs) (ebind (ask ?screen R_screen) (\<lambda>held. if held then State_Monad.return (Inr ()) else stop_with Input_changed))
      (\<lambda>_. ending_in (xs @ [R_screen True])) (left j)"
    by (intro triple_check triple_stop) (simp_all add: triple_def)
  note screen = tripleD [OF this s']
  show "wp (check_composer w j)
      (\<lambda>r s'. case r of Inl e \<Rightarrow> left j e s' | Inr a \<Rightarrow> ending_in (xs @ (if rj_again j then [R_screen True] else [])) s') s"
  proof (cases "rj_again j")
    case True
    with screen show ?thesis by (simp only: check_composer_def wp_basic simp_thms if_True if_False)
  next
    case False
    with s' show ?thesis by (simp add: check_composer_def)
  qed
qed

lemma triple_ex: "(\<And>x. triple (P x) m Q E) \<Longrightarrow> triple (\<lambda>s. \<exists>x. P x s) m Q E"
  by (auto simp: triple_def)

lemma triple_conj: "(p \<Longrightarrow> triple P m Q E) \<Longrightarrow> triple (\<lambda>s. p \<and> P s) m Q E"
  by (auto simp: triple_def)

lemma gated_post: "triple P m Q E \<Longrightarrow> (\<And>a s. Q a s \<Longrightarrow> R a s) \<Longrightarrow> triple P m R E"
  by (auto simp: triple_def elim!: wp_mono split: sum.splits)

lemma ending_read:
  fixes s s' :: rem_run
  assumes "ending_in xs s" "rr_evidence s' = rr_evidence s \<and> (\<exists>c. rr_out s' = rr_out s @ seen_events c x)"
  shows "calm s'" "\<exists>c. ending_in (xs @ seen_events c x) s'"
proof -
  from assms(2) obtain c where c: "rr_evidence s' = rr_evidence s" "rr_out s' = rr_out s @ seen_events c x" by blast
  with assms(1) have "ending_in (xs @ seen_events c x) s'" by (auto simp: ending_in_def calm_def)
  then show "calm s'" "\<exists>c. ending_in (xs @ seen_events c x) s'" by (auto simp: ending_calm)
qed

lemma changed_leaves: "triple calm changed Q (left j)"
  unfolding changed_def by (intro calming)

lemma status_checked:
  "triple (ending_in xs) (check_status w k j)
     (\<lambda>_ s'. \<exists>c st. may_press j st \<and> ending_in (xs @ [R_read c, R_seen st, R_can True]) s') (left j)"
proof (rule tripleI, unfold check_status_def wp_basic, rule wp_mono [OF wp_rem_read])
  let ?Q = "\<lambda>_ :: unit. \<lambda>s'. \<exists>c st. may_press j st \<and> ending_in (xs @ [R_read c, R_seen st, R_can True]) s'"
  let ?m = "ebind (ask (rw_can w) R_can) (\<lambda>can. if can then State_Monad.return (Inr ()) else changed)"
  fix x and s s' :: rem_run
  assume "ending_in xs s" "rr_evidence s' = rr_evidence s \<and> (\<exists>c. rr_out s' = rr_out s @ seen_events c x)"
  note r = ending_read [OF this]
  have checked: "triple (ending_in (xs @ [R_read c, R_seen st])) ?m ?Q (left j)" if "may_press j st" for c st
    by (intro triple_check changed_leaves) (use that in \<open>auto simp: triple_def\<close>)
  show "wp (if \<not> fits j x then changed else ?m) (\<lambda>r s'. case r of Inl e \<Rightarrow> left j e s' | Inr a \<Rightarrow> ?Q a s') s'"
  proof (cases "fits j x")
    case True
    from r(2) obtain c where c: "ending_in (xs @ seen_events c x) s'" ..
    from fits_events [OF True] obtain st where "may_press j st" "seen_events c x = [R_read c, R_seen st]" by blast
    with c have "may_press j st" "ending_in (xs @ [R_read c, R_seen st]) s'" by simp_all
    from tripleD [OF checked [OF this(1)] this(2)] True show ?thesis by simp
  next
    case False
    with tripleD [OF changed_leaves r(1)] show ?thesis by simp
  qed
qed

lemma intention_recorded:
  "triple (ending_in xs) (record_action w j intention)
     (\<lambda>_ s'. \<exists>e. re_action e = Machine_enter \<and> ending_in (xs @ (if rj_records j then [R_record e] else [])) s') (left j)"
proof (rule tripleI)
  fix s
  assume s: "ending_in xs s"
  let ?e = "intention (rr_evidence s)"
  have "re_action ?e = Machine_enter" by (simp add: intention_def)
  moreover have "ending_in (xs @ [R_record ?e]) (s\<lparr>rr_awaits := Suc (rr_awaits s), rr_out := rr_out s @ [R_record ?e]\<rparr>)"
    by (rule ending_more [OF s]) simp
  moreover have "left j Exit_thrown (s\<lparr>rr_awaits := Suc (rr_awaits s)\<rparr>)"
    using ending_calm(1) [OF s] by (simp add: calm_left calm_out)
  ultimately show "wp (record_action w j intention) (\<lambda>r s'. case r of Inl e \<Rightarrow> left j e s'
      | Inr a \<Rightarrow> \<exists>e. re_action e = Machine_enter \<and> ending_in (xs @ (if rj_records j then [R_record e] else [])) s') s"
    using s by (auto simp: record_action_def wp_ask split: option.split intro: exI [where x = ?e])
qed

lemma wp_return_eta: "wp (State_Monad.return x) Q = Q x"
  by (simp add: fun_eq_iff)

lemma idle_again:
  "triple (ending_in xs) (check_again w k j)
     (\<lambda>_ s'. \<exists>c. ending_in (xs @ (if rj_again j then [R_read c, R_seen S_idle] else []) @ [R_can True]) s') (left j)"
proof -
  let ?m = "ebind (ask (rw_can w) R_can) (\<lambda>can. if can then State_Monad.return (Inr ()) else stop_with Lifecycle_changed)"
  have check: "triple (ending_in ys) ?m (\<lambda>_. ending_in (ys @ [R_can True])) (left j)" for ys
    by (intro triple_check triple_stop) (simp_all add: triple_def)
  show ?thesis
  proof (cases "rj_again j")
    case False
    with check [of xs] show ?thesis by (simp add: check_again_def triple_def)
  next
    case True
    show ?thesis
    proof (rule tripleI)
      fix s :: rem_run
      assume s: "ending_in xs s"
      let ?Q = "\<lambda>r s'. case r of Inl e \<Rightarrow> left j e s' | Inr (a :: unit) \<Rightarrow> \<exists>c. ending_in (xs @ [R_read c, R_seen S_idle] @ [R_can True]) s'"
      have "wp (rem_read w k j None) (\<lambda>x. wp (if \<not> seen_status S_idle x then stop_with Status_changed else ?m) ?Q) s"
      proof (rule wp_mono [OF wp_rem_read])
        fix x and s' :: rem_run
        assume "rr_evidence s' = rr_evidence s \<and> (\<exists>c. rr_out s' = rr_out s @ seen_events c x)"
        note r = ending_read [OF s this]
        show "wp (if \<not> seen_status S_idle x then stop_with Status_changed else ?m) ?Q s'"
        proof (cases "seen_status S_idle x")
          case False
          with r(1) show ?thesis by (simp add: wp_stop calm_left)
        next
          case True
          from r(2) obtain c where "ending_in (xs @ [R_read c, R_seen S_idle]) s'"
            unfolding seen_status_events [OF True] ..
          from tripleD [OF check this] have "wp ?m ?Q s'" by (rule wp_mono) (auto split: sum.splits)
          with True show ?thesis by simp
        qed
      qed
      then have "wp (check_again w k j) ?Q s"
        using True by (simp only: check_again_def wp_basic wp_return_eta simp_thms if_True if_False)
      then show "wp (check_again w k j) (\<lambda>r s'. case r of Inl e \<Rightarrow> left j e s'
          | Inr a \<Rightarrow> \<exists>c. ending_in (xs @ (if rj_again j then [R_read c, R_seen S_idle] else []) @ [R_can True]) s') s"
        using True by (simp only: simp_thms if_True append_Cons append_Nil)
    qed
  qed
qed

lemma key_pressed:
  assumes "may_press j st" "re_action e = Machine_enter" "grounds j xs"
  shows "triple (ending_in (xs @ leads_to_key j c st e c')) (press w k j)
    (\<lambda>_ s'. acted j s' \<and> re_enter (rr_evidence s') = Some Sent) (left j)"
proof (rule tripleI)
  fix s
  assume s: "ending_in (xs @ leads_to_key j c st e c') s"
  let ?Q = "\<lambda>r s'. case r of Inl e \<Rightarrow> left j e s' | Inr (a :: rat) \<Rightarrow> acted j s' \<and> re_enter (rr_evidence s') = Some Sent"
  let ?s = "s\<lparr>rr_evidence := (rr_evidence s)\<lparr>re_action := Machine_enter, re_result := Gave_up, re_reason := Flip_deadline\<rparr>, rr_ticks := Suc (rr_ticks s)\<rparr>"
  from s obtain p where p: "rr_out s = p @ xs @ leads_to_key j c st e c'" "presses p = 0" "presses xs = 0"
    by (auto simp: ending_in_def calm_def)
  have key: "pressed_once j (rr_out s @ [R_enter ctx])" for ctx
    unfolding pressed_once_def using p assms
    by (intro exI [where x = p] exI [where x = xs] exI [where x = c] exI [where x = st] exI [where x = e] exI [where x = c'] exI [where x = ctx] exI [where x = "[]"]) simp
  have pressing: "wp (press_key w deadline ctx) ?Q s1"
    if "rr_evidence s1 = rr_evidence ?s \<and> rr_out s1 = rr_out ?s" for deadline ctx and s1 :: rem_run
    using that key [of ctx]
    by (auto simp: press_key_def wp_stop left_def truthful_def acted_def split: option.split)
  have "wp (rem_call w k j d) (\<lambda>ctx. wp (press_key w deadline ctx) ?Q) ?s" for d deadline
    by (rule wp_mono [OF wp_rem_call pressing])
  then show "wp (press w k j) ?Q s"
    by (simp add: press_def Let_def)
qed

lemma acted_seen:
  assumes "acted j s" "rr_evidence s' = rr_evidence s \<and> (\<exists>c. rr_out s' = rr_out s @ seen_events c x)"
  shows "acted j s'"
  using assms by (auto simp: acted_def pressed_more)

lemma acted_left: "acted j s \<Longrightarrow> left j (Exit_with ((rr_evidence s)\<lparr>re_reason := r\<rparr>)) s" "acted j s \<Longrightarrow> left j Exit_thrown s"
  by (simp_all add: left_def acted_leaves)

lemma acted_out: "acted j s \<Longrightarrow> presses xs = 0 \<Longrightarrow> acted j (s\<lparr>rr_awaits := n, rr_out := rr_out s @ xs\<rparr>)"
  "acted j s \<Longrightarrow> acted j (s\<lparr>rr_awaits := n\<rparr>)"
  by (simp_all add: acted_def pressed_more)

lemma acted_left_out: "acted j s \<Longrightarrow> presses xs = 0 \<Longrightarrow>
    left j (Exit_with ((rr_evidence s)\<lparr>re_reason := r\<rparr>)) (s\<lparr>rr_awaits := n, rr_out := rr_out s @ xs\<rparr>)"
  using acted_left(1) [OF acted_out(1)] by fastforce

lemma watch_truthful:
  "triple (\<lambda>s. acted j s \<and> re_enter (rr_evidence s) = Some Sent) (watch n w k j deadline) (\<lambda>_ _. False) (left j)"
proof -
  let ?I = "\<lambda>s. acted j s \<and> re_enter (rr_evidence s) = Some Sent"
  have "unclocked ?I"
    using unclocked_facts(2) by (auto simp: unclocked_def)
  moreover have "wp (rem_read w k j (Some deadline)) (\<lambda>x. wp (watch_body w j x known) (\<lambda>r s'.
      case r of Inl (Inl e) \<Rightarrow> left j e s' | Inl (Inr b) \<Rightarrow> ?I s' | Inr c' \<Rightarrow> ?I s')) s" if s: "?I s" for known and s :: rem_run
  proof (rule wp_mono [OF wp_rem_read])
    fix x and s' :: rem_run
    assume r: "rr_evidence s' = rr_evidence s \<and> (\<exists>c. rr_out s' = rr_out s @ seen_events c x)"
    have s': "?I s'" using s r acted_seen [OF _ r] by simp
    have seen: "rr_out s' \<noteq> [] \<and> last (rr_out s') = R_seen S_working" if "seen_status S_working x"
      using r seen_status_events [OF that] by auto
    show "wp (watch_body w j x known) (\<lambda>r s'.
      case r of Inl (Inl e) \<Rightarrow> left j e s' | Inl (Inr b) \<Rightarrow> ?I s' | Inr c' \<Rightarrow> ?I s') s'"
    proof (cases "seen_status S_working x")
      case True
      then show ?thesis
        using s' seen [OF True] by (auto simp: watch_body_def left_def truthful_def acted_def)
    next
      case False
      then show ?thesis
        using s' by (auto simp: watch_body_def wp_leaving wp_ask wp_stop acted_left acted_left_out acted_out split: option.split)
    qed
  qed
  ultimately have "triple ?I (rem_window n w k j deadline (watch_body w j) id False) (\<lambda>_. ?I) (left j)"
    by (intro triple_window [where I = "\<lambda>_. ?I"]) (auto simp: left_def)
  then show ?thesis
    unfolding watch_def
    by (rule triple_ebind) (auto simp: triple_def wp_stop acted_left)
qed

text \<open>The grounds of a call, in front of the checks.\<close>

definition ending_grounded :: "rem_job \<Rightarrow> rem_run \<Rightarrow> bool" where
  "ending_grounded j s \<longleftrightarrow> (\<exists>xs. grounds j xs \<and> ending_in xs s)"

definition reevaluated :: "rem_job \<Rightarrow> rem_run \<Rightarrow> bool" where
  "reevaluated j s \<longleftrightarrow> calm s \<and> (rj_again j \<longrightarrow> ending_stable s)"

lemma stable_calm: "ending_stable s \<Longrightarrow> calm s" "ending_known s \<Longrightarrow> calm s"
  by (auto simp: ending_stable_def ending_known_def ending_in_def)

lemma reevaluated_first:
  "triple calm (if rj_again j then reevaluation n w k j else State_Monad.return (Inr ())) (\<lambda>_. reevaluated j) (left j)"
proof (cases "rj_again j")
  case True
  then have "ending_stable s \<Longrightarrow> reevaluated j s" for s
    by (simp add: reevaluated_def stable_calm)
  with gated_post [OF reevaluation_stable] True show ?thesis by simp
qed (simp add: triple_def reevaluated_def)

lemma grounded_second:
  "triple (reevaluated j) (if rj_unknown j then classification n w k j else State_Monad.return (Inr ())) (\<lambda>_. ending_grounded j) (left j)"
proof (cases "rj_unknown j")
  case True
  have "triple (reevaluated j) (classification n w k j) (\<lambda>_. ending_known) (left j)"
    using classification_known [of n w k j] by (simp add: triple_def reevaluated_def)
  moreover have "ending_known s \<Longrightarrow> ending_grounded j s" for s
    using True by (auto simp: ending_known_def ending_grounded_def grounds_def)
  ultimately show ?thesis
    using True gated_post by (simp add: gated_post)
next
  case False
  have "ending_grounded j s" if s: "reevaluated j s" for s
  proof (cases "rj_again j")
    case True
    with s obtain xs where "idle_long_enough xs" "ending_in (xs @ [R_match True, R_screen True]) s"
      by (auto simp: reevaluated_def ending_stable_def)
    with True False show ?thesis by (auto simp: ending_grounded_def grounds_def)
  next
    case again: False
    with s have "ending_in [] s" by (simp add: reevaluated_def ending_calm(2))
    with again False show ?thesis by (auto simp: ending_grounded_def grounds_def)
  qed
  with False show ?thesis by (simp add: triple_def)
qed

lemma body_truthful: "triple calm (rem_body n w k j) (\<lambda>_ _. False) (left j)"
proof -
  let ?checks = "\<lambda>xs. xs @ [R_can True, R_match True] @ (if rj_again j then [R_screen True] else [])"
  have key: "triple (\<lambda>s. \<exists>c. ending_in (xs @ leads_to_key j c0 st e c) s) (ebind (press w k j) (watch n w k j)) (\<lambda>_ _. False) (left j)"
    if "may_press j st" "re_action e = Machine_enter" "grounds j xs" for c0 st e xs
    by (intro triple_ex triple_ebind [OF key_pressed [OF that]] watch_truthful)
  have again: "triple (ending_in ((?checks xs @ [R_read c0, R_seen st, R_can True]) @ (if rj_records j then [R_record e] else [])))
      (ebind (check_again w k j) (\<lambda>_. ebind (press w k j) (watch n w k j))) (\<lambda>_ _. False) (left j)"
    if "may_press j st" "re_action e = Machine_enter" "grounds j xs" for c0 st e xs
    by (rule triple_ebind [OF idle_again], use key [OF that] in \<open>simp add: leads_to_key_def\<close>)
  have recorded: "triple (\<lambda>s. \<exists>c st. may_press j st \<and> ending_in (?checks xs @ [R_read c, R_seen st, R_can True]) s)
      (ebind (record_action w j intention) (\<lambda>_. ebind (check_again w k j) (\<lambda>_. ebind (press w k j) (watch n w k j)))) (\<lambda>_ _. False) (left j)"
    if "grounds j xs" for xs
    by (intro triple_ex triple_conj, rule triple_ebind [OF intention_recorded], intro triple_ex triple_conj, use again [OF _ _ that] in simp)
  have checked: "triple (ending_in xs) (ebind (check_pane w) (\<lambda>_. ebind (check_composer w j) (\<lambda>_. ebind (check_status w k j) (\<lambda>_.
      ebind (record_action w j intention) (\<lambda>_. ebind (check_again w k j) (\<lambda>_. ebind (press w k j) (watch n w k j))))))) (\<lambda>_ _. False) (left j)"
    if "grounds j xs" for xs
    using recorded [OF that]
    by (intro triple_ebind [OF pane_checked] triple_ebind [OF composer_checked] triple_ebind [OF status_checked]) simp
  have "triple (ending_grounded j) (ebind (check_pane w) (\<lambda>_. ebind (check_composer w j) (\<lambda>_. ebind (check_status w k j) (\<lambda>_.
      ebind (record_action w j intention) (\<lambda>_. ebind (check_again w k j) (\<lambda>_. ebind (press w k j) (watch n w k j))))))) (\<lambda>_ _. False) (left j)"
    unfolding ending_grounded_def by (intro triple_ex triple_conj checked)
  then show ?thesis
    unfolding rem_body_def
    by (intro triple_ebind [OF reevaluated_first] triple_ebind [OF grounded_second])
qed

lemma caught_facts [simp]: "re_action (caught e) = re_action e" "re_result (caught e) = re_result e"
  by (simp_all add: caught_def)

lemma remediation_truthful:
  assumes "run_job n w k j = (Some ev, s)"
  shows "truthful j ev (rr_out s)"
proof -
  obtain r where r: "run_state (rem_body n w k j) fresh_run = (r, s)" "rem_answer (r, s) = Some ev"
    using assms by (cases "run_state (rem_body n w k j) fresh_run") (simp add: run_job_def Let_def)
  have "calm fresh_run"
    by (simp add: calm_def fresh_run_def no_evidence_def)
  from tripleD [OF body_truthful [of n w k j] this] r(1) have "case r of Inl x \<Rightarrow> left j x s | Inr a \<Rightarrow> False"
    by (simp add: wp_def)
  then show ?thesis
    using r(2) by (auto simp: rem_answer_def left_def truthful_def calm_def acted_def split: sum.splits rem_exit.splits)
qed

section \<open>Many calls at once\<close>

text \<open>
  Calls begin and end in any order.  The body of a call touches nothing that another call reads, so it is one step, with
  surroundings of its own; what it did is kept in a history.
\<close>

record rem_system =
  sy_state :: remediator
  sy_running :: "rem_job list"
  sy_history :: "(string \<times> rem_event list) list"

inductive rem_step :: "rem_system \<Rightarrow> rem_system \<Rightarrow> bool" where
  refuse: "begin_remediation (sy_state y) q = (Inl e, r) \<Longrightarrow> rem_step y (y\<lparr>sy_state := r\<rparr>)"
| begins: "begin_remediation (sy_state y) q = (Inr j, r) \<Longrightarrow>
    rem_step y (y\<lparr>sy_state := r, sy_running := sy_running y @ [j]\<rparr>)"
| ends: "j \<in> set (sy_running y) \<Longrightarrow> run_job n w k j = (Some e, s) \<Longrightarrow>
    rem_step y (y\<lparr>sy_state := end_remediation (sy_state y) j, sy_running := remove1 j (sy_running y),
      sy_history := sy_history y @ [(rj_attempt j, rr_out s)]\<rparr>)"

inductive rem_runs :: "rem_system \<Rightarrow> rem_system \<Rightarrow> bool" where
  none: "rem_runs y y"
| more: "rem_runs y z \<Longrightarrow> rem_step z z' \<Longrightarrow> rem_runs y z'"

definition idle_system :: rem_system where
  "idle_system = \<lparr>sy_state = \<lparr>rd_used = [], rd_busy = []\<rparr>, sy_running = [], sy_history = []\<rparr>"

definition keys_for :: "string \<Rightarrow> rem_system \<Rightarrow> nat" where
  "keys_for a y = sum_list (map (\<lambda>(b, out). if b = a then presses out else 0) (sy_history y))"

definition system_ok :: "rem_system \<Rightarrow> bool" where
  "system_ok y \<longleftrightarrow>
     length (rd_used (sy_state y)) \<le> MAX_REMEDIATION_ATTEMPTS \<and>
     rd_busy (sy_state y) = map rj_pane (sy_running y) \<and> distinct (map rj_pane (sy_running y)) \<and>
     length (sy_running y) \<le> MAX_CONCURRENT_REMEDIATIONS \<and>
     distinct (map rj_attempt (sy_running y) @ map fst (sy_history y)) \<and>
     rj_attempt ` set (sy_running y) \<union> fst ` set (sy_history y) \<subseteq> set (rd_used (sy_state y)) \<and>
     (\<forall>(a, out)\<in>set (sy_history y). presses out \<le> 1)"

lemma begin_started:
  assumes "begin_remediation r q = (Inr j, r')"
  shows "rj_pane j \<notin> set (rd_busy r) \<and> length (rd_busy r) < MAX_CONCURRENT_REMEDIATIONS \<and> rj_attempt j \<notin> set (rd_used r) \<and>
    length (rd_used r) < MAX_REMEDIATION_ATTEMPTS \<and> r' = \<lparr>rd_used = rd_used r @ [rj_attempt j], rd_busy = rd_busy r @ [rj_pane j]\<rparr>"
  using assms
  by (auto simp: begin_remediation_def Let_def claim_def not_le split: option.splits if_splits)

lemma begin_refused: "begin_remediation r q = (Inl e, r') \<Longrightarrow> r' = r"
  by (auto simp: begin_remediation_def Let_def claim_def split: option.splits if_splits)

lemma pressed_one: "pressed_once j out \<Longrightarrow> presses out = 1"
  by (auto simp: pressed_once_def leads_to_key_def)

lemma truthful_presses: "truthful j e out \<Longrightarrow> presses out \<le> 1"
  using pressed_one by (fastforce simp: truthful_def split: if_splits)

lemma map_remove1_distinct:
  "distinct (map f xs) \<Longrightarrow> x \<in> set xs \<Longrightarrow> filter (\<lambda>p. p \<noteq> f x) (map f xs) = map f (remove1 x xs)"
  by (induction xs) (force simp: image_iff intro!: filter_True)+

lemma system_step: "rem_step y z \<Longrightarrow> system_ok y \<Longrightarrow> system_ok z"
proof (induction rule: rem_step.induct)
  case (refuse y q e r)
  from begin_refused [OF refuse(1)] refuse(2) show ?case by simp
next
  case (begins y q j r)
  from begin_started [OF begins(1)] begins(2) show ?case
    by (auto simp: system_ok_def image_iff)
next
  case (ends j y n w k e s)
  have "presses (rr_out s) \<le> 1"
    by (rule truthful_presses [OF remediation_truthful [OF ends(2)]])
  moreover have "filter (\<lambda>p. p \<noteq> rj_pane j) (map rj_pane (sy_running y)) = map rj_pane (remove1 j (sy_running y))"
    by (rule map_remove1_distinct) (use ends in \<open>simp_all add: system_ok_def\<close>)
  moreover have "mset (sy_running y) = add_mset j (mset (remove1 j (sy_running y)))"
    using ends(1) by simp
  from arg_cong [OF this, of "image_mset rj_attempt"]
  have perm: "mset (map rj_attempt (sy_running y) @ map fst (sy_history y)) =
      mset (map rj_attempt (remove1 j (sy_running y)) @ map fst (sy_history y) @ [rj_attempt j])"
    by (simp only: mset_map mset_append image_mset_add_mset) simp
  moreover note mset_eq_imp_distinct_iff [OF perm] mset_eq_setD [OF perm]
  moreover have "distinct (map rj_pane (remove1 j (sy_running y)))"
    using ends(1,3) map_remove1_distinct [of rj_pane "sy_running y" j] by (metis distinct_filter system_ok_def)
  moreover have "length (remove1 j (sy_running y)) \<le> length (sy_running y)"
    by (simp add: length_remove1)
  ultimately show ?case
    using ends(3) unfolding system_ok_def end_remediation_def by (auto simp: image_Un)
qed

lemma system_runs: "rem_runs y z \<Longrightarrow> system_ok y \<Longrightarrow> system_ok z"
  by (induction rule: rem_runs.induct) (auto intro: system_step)

lemma idle_ok: "system_ok idle_system"
  by (simp add: system_ok_def idle_system_def)

lemma keys_bound:
  "distinct (map fst h) \<Longrightarrow> \<forall>(a, out)\<in>set h. presses out \<le> 1 \<Longrightarrow>
     sum_list (map (\<lambda>(b, out). if b = a then presses out else 0) h) \<le> 1"
proof (induction h)
  case (Cons x h)
  obtain b out where x: "x = (b, out)" by (cases x)
  show ?case
  proof (cases "b = a")
    case True
    have zero: "sum_list (map (\<lambda>(b, out). if b = a then presses out else 0) g) = 0" if "a \<notin> fst ` set g" for g
      using that by (induction g) (auto split: prod.splits)
    have "a \<notin> fst ` set h" using Cons.prems(1) True x by auto
    then show ?thesis using Cons.prems(2) True x by (simp add: zero)
  next
    case False
    then show ?thesis using Cons x by simp
  qed
qed simp

section \<open>Every call returns\<close>

definition rem_steady :: "rem_world \<Rightarrow> bool" where
  "rem_steady w \<longleftrightarrow> (\<forall>j. rw_now w j \<le> rw_now w (Suc j)) \<and> (\<forall>j ms. 0 \<le> rw_sleep w j ms \<and> ms \<le> rw_sleep w j ms)"

definition rem_time :: "rem_world \<Rightarrow> rem_run \<Rightarrow> rat" where
  "rem_time w s = rw_now w (rr_ticks s) + rr_slept s"

interpretation call_clock: poller "clock w" "State_Monad.return False" "pause w" "\<lambda>_. rem_steady w" "rem_time w" for w
proof
  fix s :: rem_run and ms
  assume w: "rem_steady w"
  have now: "rw_now w (rr_ticks s) \<le> rw_now w (Suc (rr_ticks s))" "0 \<le> rw_sleep w (rr_awaits s) ms" "ms \<le> rw_sleep w (rr_awaits s) ms"
    using w by (simp_all add: rem_steady_def)
  then show "wp (clock w) (\<lambda>t s'. rem_steady w \<and> rem_time w s \<le> t \<and> t \<le> rem_time w s') s"
    using w by (simp add: rem_time_def)
  show "wp (pause w ms) (\<lambda>_ s'. rem_steady w \<and> rem_time w s \<le> rem_time w s' \<and> rem_time w s + ms \<le> rem_time w s') s"
    using w now by (simp add: rem_time_def)
qed (simp add: passes_basic)

abbreviation lasts :: "rem_world \<Rightarrow> (rem_run, 'a) state \<Rightarrow> bool" where
  "lasts w \<equiv> passes (\<lambda>_. rem_steady w) (rem_time w)"

abbreviation answers_from :: "rem_world \<Rightarrow> rat \<Rightarrow> (rem_run, rem_exit + 'a) state \<Rightarrow> bool" where
  "answers_from w \<equiv> ends_from (\<lambda>_. rem_steady w) (rem_time w) (\<lambda>r. r \<noteq> Inl Exit_fuel)"

lemma lasts_modify [keeping]:
  "(\<And>s. rr_ticks (h s) = rr_ticks s \<and> rr_slept (h s) = rr_slept s) \<Longrightarrow> lasts w (modify h)"
  by (simp add: passes_def rem_time_def)

lemma lasts_clock [keeping]: "lasts w (clock w)" "lasts w (pause w ms)"
  by (rule call_clock.clock_passes call_clock.sleep_passes)+

lemma lasts_event [keeping]: "lasts w (shown_event x)"
  unfolding shown_event_def by (rule lasts_modify) simp

lemma lasts_small [keeping]:
  "lasts w (ask f shown)" "lasts w (stop_with r)" "lasts w (give_up_with r)" "lasts w (rem_accept j x)"
  unfolding ask_def stop_with_def give_up_with_def rem_accept_def Let_def by (intro keeping; simp)+

lemma lasts_ebind [keeping]: "lasts w m \<Longrightarrow> (\<And>a. lasts w (f a)) \<Longrightarrow> lasts w (ebind m f)"
  unfolding ebind_def by (intro keeping)

lemma lasts_leaving [keeping]: "lasts w m \<Longrightarrow> (\<And>a. lasts w (f a)) \<Longrightarrow> lasts w (leaving m f)"
  unfolding leaving_def by (intro keeping)

lemma lasts_calls [keeping]:
  "lasts w (rem_call w k j d)" "lasts w (rem_query w j ctx)" "lasts w (record_action w j f)" "lasts w (press_key w t ctx)"
  unfolding rem_call_def rem_query_def record_action_def press_key_def by (intro keeping; simp)+

lemma lasts_read [keeping]: "lasts w (rem_read w k j d)"
  unfolding rem_read_def by (intro keeping)

lemma lasts_noted [keeping]: "lasts w (noted w)"
  unfolding noted_def by (intro keeping)

lemma lasts_idle [keeping]: "lasts w (stable_gate w j deadline c)" "lasts w (stable_idle w j deadline c)"
proof -
  show gate: "lasts w (stable_gate w j deadline c)" for c
    unfolding stable_gate_def by (intro keeping)
  show "lasts w (stable_idle w j deadline c)"
    unfolding stable_idle_def Let_def by (intro keeping gate)
qed

lemma lasts_bodies [keeping]:
  "lasts w (stable_body w j deadline x c)" "lasts w (classify_body w j deadline x u)" "lasts w (watch_body w j x known)"
  unfolding stable_body_def classify_body_def watch_body_def Let_def by (intro keeping; simp)+

lemma lasts_window [keeping]: "(\<And>x c. lasts w (body x c)) \<Longrightarrow> lasts w (rem_window n w k j deadline body after c)"
  unfolding rem_window_def by (intro keeping call_clock.window_passes)

lemma lasts_phases [keeping]:
  "lasts w (reevaluation n w k j)" "lasts w (classification n w k j)" "lasts w (check_pane w)" "lasts w (check_composer w j)"
  "lasts w changed" "lasts w (check_status w k j)" "lasts w (check_again w k j)"
proof -
  show changed: "lasts w changed" unfolding changed_def by (intro keeping)
  show "lasts w (reevaluation n w k j)" "lasts w (classification n w k j)" "lasts w (check_pane w)" "lasts w (check_composer w j)"
    "lasts w (check_status w k j)" "lasts w (check_again w k j)"
    unfolding reevaluation_def classification_def check_pane_def check_composer_def check_status_def check_again_def Let_def
    by (intro keeping changed; auto intro: keeping)+
qed

lemma answers_ebind [ending]:
  assumes "lasts w m" "answers_from w T m" "\<And>a. answers_from w T (f a)"
  shows "answers_from w T (ebind m f)"
  unfolding ends_from_def wp_ebind
proof (intro allI impI, elim conjE)
  fix s :: rem_run
  assume s: "rem_steady w" "T \<le> rem_time w s"
  show "wp m (\<lambda>r s'. case r of Inl e \<Rightarrow> Inl e \<noteq> Inl Exit_fuel | Inr a \<Rightarrow> wp (f a) (\<lambda>r _. r \<noteq> Inl Exit_fuel) s') s"
  proof (rule wp_mono [OF wp_conj [OF passesD [OF assms(1) s(1)]]])
    show "wp m (\<lambda>r _. r \<noteq> Inl Exit_fuel) s"
      using assms(2) s by (simp add: ends_from_def)
    fix r :: "rem_exit + 'a" and s' :: rem_run
    assume "(rem_steady w \<and> rem_time w s \<le> rem_time w s') \<and> r \<noteq> Inl Exit_fuel"
    then show "case r of Inl e \<Rightarrow> Inl e \<noteq> Inl Exit_fuel | Inr a \<Rightarrow> wp (f a) (\<lambda>r _. r \<noteq> Inl Exit_fuel) s'"
      using assms(3) s(2) by (cases r) (auto simp: ends_from_def)
  qed
qed

lemma answers_small [ending]:
  "answers_from w T (ask f shown)" "answers_from w T (stop_with r)" "answers_from w T (give_up_with r)" "answers_from w T (record_action w j h)"
  by (simp_all add: ends_from_def wp_ask wp_stop record_action_def split: option.split)

text \<open>Loop bodies leave the call by themselves, never for want of fuel.\<close>

abbreviation unfuelled :: "(rem_run, (rem_exit + 'b) + 'c) state \<Rightarrow> bool" where
  "unfuelled \<equiv> ends_from (\<lambda>_. True) (\<lambda>_. 0) (\<lambda>r. r \<noteq> Inl (Inl Exit_fuel)) 0"

lemma always_passes [ending]: "passes (\<lambda>_. True) (\<lambda>_. 0) m"
  by (simp add: passes_def wp_def split: prod.split)

lemma unfuelled_leaving [ending]:
  assumes "\<And>s. wp m (\<lambda>r _. r \<noteq> Inl Exit_fuel) s" "\<And>a. unfuelled (f a)"
  shows "unfuelled (leaving m f)"
  unfolding ends_from_def wp_leaving
proof (intro allI impI, rule wp_mono [OF assms(1)])
  fix r :: "rem_exit + 'a" and s' :: rem_run
  assume "r \<noteq> Inl Exit_fuel"
  then show "case r of Inl e \<Rightarrow> Inl (Inl e) \<noteq> Inl (Inl Exit_fuel)
      | Inr a \<Rightarrow> wp (f a) (\<lambda>r _. r \<noteq> Inl (Inl Exit_fuel)) s'"
    using assms(2) by (cases r) (auto simp: ends_from_def)
qed

lemma asking_answers [ending]:
  "wp (ask f shown) (\<lambda>r _. r \<noteq> Inl Exit_fuel) s" "wp (stop_with reason) (\<lambda>r _. r \<noteq> Inl Exit_fuel) s"
  by (simp_all add: wp_ask wp_stop split: option.split)

lemma unfuelled_idle [ending]: "unfuelled (stable_gate w j deadline c)" "unfuelled (stable_idle w j deadline c)"
proof -
  show gate: "unfuelled (stable_gate w j deadline c)" for c
    unfolding stable_gate_def by (intro ending; simp)
  show "unfuelled (stable_idle w j deadline c)"
    unfolding stable_idle_def Let_def by (intro ending gate; simp)
qed

lemma unfuelled_bodies:
  "unfuelled (stable_body w j deadline x c)" "unfuelled (classify_body w j deadline x u)" "unfuelled (watch_body w j x known)"
  unfolding stable_body_def classify_body_def watch_body_def Let_def by (intro ending; simp)+

lemma answers_window:
  assumes "1 \<le> kn_poll k" "b < n" "deadline \<le> T + of_nat b"
    and body: "\<And>x c. lasts w (body x c)" "\<And>x c. unfuelled (body x c)"
  shows "answers_from w T (rem_window n w k j deadline body after c)"
  unfolding ends_from_def
proof (intro allI impI, elim conjE)
  fix s :: rem_run
  assume s: "rem_steady w" "T \<le> rem_time w s"
  let ?loop = "status_window n (State_Monad.return False) (clock w) (pause w) deadline (of_nat (kn_poll k))
      (rem_read w k j (Some deadline)) body c"
  have "deadline \<le> rem_time w s + of_nat b" using assms(3) s(2) by linarith
  from call_clock.window_fuel [OF assms(1,2) s(1) this lasts_read body(1)]
  have returns: "wp ?loop (\<lambda>r _. r \<noteq> None) s" by (rule wp_mono) simp
  have inner: "wp (rem_read w k j (Some deadline)) (\<lambda>x. wp (body x c)
      (\<lambda>r s'. case r of Inl e \<Rightarrow> e \<noteq> Inl Exit_fuel | Inr c' \<Rightarrow> True)) s'" for c s'
  proof (rule wp_mono [of _ "\<lambda>_ _. True"])
    show "wp (rem_read w k j (Some deadline)) (\<lambda>_ _. True) s'" by (simp add: wp_def split: prod.split)
    fix x s2
    have "wp (body x c) (\<lambda>r _. r \<noteq> Inl (Inl Exit_fuel)) s2"
      using body(2) by (simp add: ends_from_def)
    then show "wp (body x c) (\<lambda>r s'. case r of Inl e \<Rightarrow> e \<noteq> Inl Exit_fuel | Inr c' \<Rightarrow> True) s2"
      by (rule wp_mono) (auto split: sum.split)
  qed
  have "wp ?loop (\<lambda>r s'. case r of None \<Rightarrow> True | Some (Inl e) \<Rightarrow> e \<noteq> Inl Exit_fuel | Some (Inr c') \<Rightarrow> True) s"
    by (rule wp_window [where I = "\<lambda>_ _ _. True"]) (simp_all add: inner)
  from wp_conj [OF returns this]
  show "wp (rem_window n w k j deadline body after c) (\<lambda>r _. r \<noteq> Inl Exit_fuel) s"
    unfolding rem_window_def wp_basic by (rule wp_mono) (auto split: option.splits sum.splits)
qed

lemma watch_answers:
  assumes "1 \<le> kn_poll k" "kn_flip k < n" "deadline \<le> T + of_nat (kn_flip k)"
  shows "answers_from w T (ebind (press_key w deadline ctx) (watch n w k j))"
  unfolding ends_from_def wp_ebind
proof (intro allI impI, elim conjE)
  fix s :: rem_run
  assume s: "rem_steady w" "T \<le> rem_time w s"
  have "wp (press_key w deadline ctx) (\<lambda>r _. r \<noteq> Inl Exit_fuel \<and> (\<forall>d. r = Inr d \<longrightarrow> d = deadline)) s"
    by (auto simp: press_key_def wp_stop split: option.split)
  from wp_conj [OF this passesD [OF lasts_calls(4) s(1)]]
  show "wp (press_key w deadline ctx) (\<lambda>r s'. case r of Inl e \<Rightarrow> Inl e \<noteq> Inl Exit_fuel
      | Inr d \<Rightarrow> wp (watch n w k j d) (\<lambda>r _. r \<noteq> Inl Exit_fuel) s') s"
  proof (rule wp_mono)
    fix r :: "rem_exit + rat" and s' :: rem_run
    assume r: "(r \<noteq> Inl Exit_fuel \<and> (\<forall>d. r = Inr d \<longrightarrow> d = deadline)) \<and> rem_steady w \<and> rem_time w s \<le> rem_time w s'"
    have "answers_from w (rem_time w s') (watch n w k j deadline)"
      unfolding watch_def
      by (intro answers_ebind answers_window [where b = "kn_flip k"] ends_bind ending keeping unfuelled_bodies)
        (use assms s r in auto)
    then show "case r of Inl e \<Rightarrow> Inl e \<noteq> Inl Exit_fuel | Inr d \<Rightarrow> wp (watch n w k j d) (\<lambda>r _. r \<noteq> Inl Exit_fuel) s'"
      using r by (cases r) (auto simp: ends_from_def)
  qed
qed

lemma ebind_assoc: "ebind (State_Monad.bind m f) g = State_Monad.bind m (\<lambda>x. ebind (f x) g)"
  by (simp add: ebind_def)

lemma body_answers:
  assumes "1 \<le> kn_poll k" "kn_flip k < n" "kn_ready k < n"
  shows "answers_from w T (rem_body n w k j)"
proof -
  have again: "answers_from w T (reevaluation n w k j)" for T
    unfolding reevaluation_def Let_def
    by (intro answers_ebind call_clock.ends_clock answers_window [where b = "kn_ready k"] ends_bind keeping answers_small unfuelled_bodies assms)
      (auto intro: ending)
  have classify: "answers_from w T (classification n w k j)" for T
    unfolding classification_def Let_def
    by (intro answers_ebind call_clock.ends_clock answers_window [where b = "kn_ready k"] ends_bind keeping answers_small unfuelled_bodies assms)
      (auto intro: ending)
  have press: "answers_from w T (ebind (press w k j) (watch n w k j))" for T
    unfolding press_def Let_def ebind_assoc
    by (intro ends_bind call_clock.ends_clock watch_answers assms keeping) simp_all
  have checks: "answers_from w T (check_pane w)" "answers_from w T (check_composer w j)" "answers_from w T (check_status w k j)"
    "answers_from w T (check_again w k j)" for T
    unfolding check_pane_def check_composer_def check_status_def check_again_def changed_def
    by (intro ending keeping; auto intro: ending keeping)+
  show ?thesis
    unfolding rem_body_def
    by (intro answers_ebind again classify press checks answers_small keeping ends_if passes_if ends_return passes_basic) simp_all
qed

section \<open>Properties\<close>

text \<open>
  Evidence worth a key: the text and one Enter were acknowledged without an error, some status was read, the last fault
  was none of identity, and the reason fits what was seen.
\<close>

definition worth_a_key :: "string \<Rightarrow> jobject \<Rightarrow> bool" where
  "worth_a_key agent e \<longleftrightarrow>
     pget e ''text_transport'' = Some (JStr ''sent'') \<and> pget e ''enter_transport'' = Some (JStr ''sent'') \<and>
     pget e ''text_error'' = Some JNull \<and> pget e ''enter_error'' = Some JNull \<and> pget e ''enter_calls'' = Some (JNum 1) \<and>
     pget e ''last_query_sequence'' \<noteq> Some JNull \<and>
     pget e ''status_error'' \<notin> (\<lambda>f. Some (JStr f)) ` {''PANE_MISSING'', ''PANE_DUPLICATE'', ''IDENTITY_CHANGED''} \<and>
     (let before = pget e ''status_before''; after = pget e ''status_last''; flip = (pget e ''status_flip'' = Some (JBool True));
          clean = (pget e ''status_error'' = Some JNull) in
      (pget e ''reason'' = Some (JStr ''deadline'') \<and> nonworking before \<and> nonworking after \<and> \<not> flip \<and> clean) \<or>
      (pget e ''reason'' = Some (JStr ''attribution-unavailable'') \<and> agent = ''codex'' \<and> nonworking before \<and>
         after = Some (JStr ''working'') \<and> flip \<and> clean) \<or>
      (pget e ''reason'' = Some (JStr ''baseline-unknown'') \<and> before = Some (JStr ''unknown'') \<and> \<not> flip))"

lemma sufficient_worth: "\<not> insufficient agent e \<Longrightarrow> worth_a_key agent e"
  by (auto simp: insufficient_def worth_a_key_def Let_def reevaluates_def unknown_baseline_def identity_fault_def)

lemma begin_evidence:
  assumes "begin_remediation r q = (Inr j, r')"
  obtains e where "parseDeliveryV2 (rq_evidence q) = Some e" "worth_a_key (rq_agent q) e"
    "targetOf e (rq_agent q) = Some (rj_target j)" "j = job_of q e (rj_target j)"
  using assms by (auto simp: begin_remediation_def job_of_def Let_def split: option.splits if_splits prod.splits claim_result.splits
      dest!: sufficient_worth)

text \<open>C24. The audit of a remediation tells the truth about the key, and the key has every gate behind it.
  \<open>machine-enter\<close> is reported exactly when Enter was pressed, and then it was pressed once.  Its delivery was worth a key
  and its pane is the frozen one of that evidence.  An agent that had been seen working was seen idle at least three
  times over two seconds without any other answer, in the right pane, with the prompt still in its composer; one whose
  status had been unknown was seen in a known status under the lifecycle check.  Right before the key come the lifecycle
  check, the pane, the composer again (when the agent had been seen working), a fresh status that admits the key, the
  lifecycle, the recorded intention, the idle status again and a last lifecycle check.  A flip is reported only when a
  working status was the last thing seen.\<close>

theorem remediation_gated:
  assumes "begin_remediation r q = (Inr j, r')" "run_job n w k j = (Some ev, s)"
  shows "(re_action ev = Machine_enter \<longrightarrow> pressed_once j (rr_out s)) \<and>
    (re_action ev \<noteq> Machine_enter \<longrightarrow> presses (rr_out s) = 0) \<and>
    (re_result ev = Working_observed \<longrightarrow> re_enter ev = Some Sent \<and> last (rr_out s) = R_seen S_working) \<and>
    (\<exists>e. parseDeliveryV2 (rq_evidence q) = Some e \<and> worth_a_key (rq_agent q) e \<and>
      targetOf e (rq_agent q) = Some (rj_target j) \<and>
      (rj_again j \<longleftrightarrow> pget e ''reason'' = Some (JStr ''attribution-unavailable'')) \<and>
      (rj_unknown j \<longleftrightarrow> pget e ''reason'' = Some (JStr ''baseline-unknown'')))"
proof -
  obtain e where e: "parseDeliveryV2 (rq_evidence q) = Some e" "worth_a_key (rq_agent q) e"
    "targetOf e (rq_agent q) = Some (rj_target j)" "j = job_of q e (rj_target j)"
    by (rule begin_evidence [OF assms(1)])
  have "rj_again j = reevaluates (rq_agent q) e" "rj_unknown j = unknown_baseline e"
    by (subst e(4), simp add: job_of_def)+
  with e(2) have modes: "rj_again j \<longleftrightarrow> pget e ''reason'' = Some (JStr ''attribution-unavailable'')"
    "rj_unknown j \<longleftrightarrow> pget e ''reason'' = Some (JStr ''baseline-unknown'')"
    by (auto simp: worth_a_key_def reevaluates_def unknown_baseline_def Let_def)
  show ?thesis
    using remediation_truthful [OF assms(2)] e(1-3) modes by (auto simp: truthful_def)
qed

text \<open>C25. However calls interleave, at most one key is pressed for one attempt, no two calls work on the same pane, and
  neither the calls at work nor the remembered attempts outgrow their limits.\<close>

theorem one_key_per_attempt:
  assumes "rem_runs idle_system y"
  shows "keys_for a y \<le> 1 \<and> distinct (map rj_pane (sy_running y)) \<and> length (sy_running y) \<le> MAX_CONCURRENT_REMEDIATIONS \<and>
    length (rd_used (sy_state y)) \<le> MAX_REMEDIATION_ATTEMPTS"
proof -
  have "system_ok y" by (rule system_runs [OF assms idle_ok])
  then show ?thesis
    using keys_bound [of "sy_history y" a] by (auto simp: system_ok_def keys_for_def)
qed

text \<open>Every remediation returns when the clock does not run backwards and no timer fires early: one more round of fuel
  than either window has milliseconds is enough.\<close>

theorem remediation_returns:
  assumes "rem_steady w" "k = fst (parseDeliveryKnobs env)" "kn_ready k < n" "kn_flip k < n"
  shows "\<exists>ev s. run_job n w k j = (Some ev, s)"
proof -
  obtain x s where x: "run_state (rem_body n w k j) fresh_run = (x, s)" by fastforce
  have "1 \<le> kn_poll k" using knobs_in_range [of env] assms(2) by (simp add: knobs_ok_def)
  from body_answers [OF this assms(4,3), of w "rem_time w fresh_run" j] assms(1)
  have "wp (rem_body n w k j) (\<lambda>r _. r \<noteq> Inl Exit_fuel) fresh_run"
    unfolding ends_from_def by blast
  then have "x \<noteq> Inl Exit_fuel"
    by (simp add: wp_def x)
  moreover have "calm fresh_run" by (simp add: calm_def fresh_run_def no_evidence_def)
  from tripleD [OF body_truthful [of n w k j] this] x have "\<exists>e. x = Inl e"
    by (simp add: wp_def split: sum.splits)
  ultimately show ?thesis
    using x by (auto simp: run_job_def rem_answer_def Let_def split: rem_exit.splits)
qed

section \<open>Evidence the launcher never sends\<close>

lemma evidence_unknown_baseline:
  assumes "evidence_ok e" "ev_reason e = R_baseline_unknown"
  shows "ev_text e = Not_sent"
  using assms by (auto simp: evidence_ok_def before_text_def after_text_def)

text \<open>
  A delivery that ends with an unknown baseline has sent nothing, so its evidence is refused by the head of \<open>remediate\<close>:
  the wait for a classifiable status is never entered on evidence of this launcher.
\<close>

lemma unknown_baseline_refused:
  assumes "evidence_ok e" "ev_reason e = R_baseline_unknown"
  shows "begin_remediation r (q\<lparr>rq_evidence := Some (evidence_json e)\<rparr>) = (Inl no_evidence, r)"
proof -
  obtain v where v: "evidence_json e = JObj v" "parseDeliveryV2 (Some (evidence_json e)) = Some v"
    using evidence_ok_accepted [OF assms(1)] by blast
  have "v = evidence_head e @ evidence_tail e" using v(1) by (simp add: evidence_json_def)
  then have "insufficient (rq_agent q) v"
    using evidence_unknown_baseline [OF assms] by (simp add: insufficient_def evidence_fields kind_name_def)
  then show ?thesis using v(2) by (simp add: begin_remediation_def)
qed

section \<open>A remediation that is observed\<close>

definition given_up :: evidence where
  "given_up = \<lparr>ev_target = Some (sample_target, [], 2), ev_wait = None, ev_attempt = ''a1'', ev_pane = ''p1'', ev_reason = R_deadline,
     ev_before = S_idle, ev_last = S_idle, ev_error = None, ev_flip = False, ev_text = Sent, ev_text_error = None,
     ev_enter = Some Sent, ev_enter_error = None, ev_text_calls = 1, ev_budget = 30000, ev_elapsed = Some 30000, ev_total = 30000,
     ev_sequence = Some 4\<rparr>"

definition sample_request :: rem_request where
  "sample_request = \<lparr>rq_agent = ''pi'', rq_pane = ''coder'', rq_evidence = Some (evidence_json given_up), rq_records = True\<rparr>"

definition sample_job :: rem_job where
  "sample_job = \<lparr>rj_attempt = ''a1'', rj_pane = ''p1'', rj_label = ''coder'', rj_target = identity_json sample_target,
     rj_tail = Some (JObj [(''sha256'', JStr []), (''length'', JNum 2)]), rj_again = False, rj_unknown = False, rj_records = True\<rparr>"

definition sample_reply :: "nat \<Rightarrow> send_result" where
  "sample_reply n = \<lparr>sd_kind = Sent, sd_attempt = ''a1'', sd_sequence = n, sd_finished = 0, sd_fault = None\<rparr>"

definition sample_status :: "nat \<Rightarrow> agent_status \<Rightarrow> status_sample" where
  "sample_status n st = \<lparr>sp_attempt = ''a1'', sp_sequence = n, sp_started = 0, sp_finished = 0, sp_status = st,
     sp_identity = Some sample_target, sp_error = None\<rparr>"

definition calm_world :: rem_world where
  "calm_world = \<lparr>rw_now = (\<lambda>_. 0), rw_sleep = (\<lambda>_ ms. max 0 ms), rw_can = (\<lambda>_. Some True), rw_match = (\<lambda>_. Some True),
     rw_screen = (\<lambda>_. None), rw_read = (\<lambda>n. Some (if n < 5 then sample_status 1 S_idle else sample_status 3 S_working)),
     rw_enter = (\<lambda>_. Some (sample_reply 2)), rw_record = (\<lambda>_. Some ()), rw_digest = (\<lambda>_. [])\<rparr>"

lemma given_up_fields:
  "ev_attempt given_up = ''a1''" "ev_pane given_up = ''p1''" "ev_reason given_up = R_deadline" "ev_before given_up = S_idle"
  "ev_last given_up = S_idle" "ev_error given_up = None" "\<not> ev_flip given_up" "ev_text given_up = Sent" "ev_text_error given_up = None"
  "ev_enter given_up = Some Sent" "ev_enter_error given_up = None" "ev_sequence given_up = Some 4" "ev_target given_up = Some (sample_target, [], 2)"
  "ev_wait given_up = None"
  by (simp_all add: given_up_def)

lemma calm_fields:
  "rw_can calm_world n = Some True" "rw_match calm_world n = Some True" "rw_screen calm_world n = None"
  "rw_read calm_world n = Some (if n < 5 then sample_status 1 S_idle else sample_status 3 S_working)"
  "rw_enter calm_world n = Some (sample_reply 2)" "rw_record calm_world n = Some ()"
  by (simp_all add: calm_world_def)

lemma given_up_ok: "evidence_ok given_up"
  by (simp add: evidence_ok_def given_up_def blank_def is_space_def after_text_def enter_part_def flip_part_def)

lemma sample_begun:
  "begin_remediation (sy_state idle_system) sample_request = (Inr sample_job, \<lparr>rd_used = [''a1''], rd_busy = [''p1'']\<rparr>)"
proof -
  let ?v = "evidence_head given_up @ evidence_tail given_up"
  have v: "parseDeliveryV2 (rq_evidence sample_request) = Some ?v"
    using evidence_ok_accepted [OF given_up_ok] by (auto simp: sample_request_def evidence_json_def)
  note f = evidence_fields [of given_up]
  have g: "pget ?v ''target'' = Some (identity_json sample_target)"
    "pget ?v ''prompt_tail'' = Some (JObj [(''sha256'', JStr []), (''length'', JNum 2)])"
    by (simp_all add: evidence_head_def given_up_fields)
  have modes: "\<not> reevaluates ''pi'' ?v" "\<not> unknown_baseline ?v"
    by (simp_all add: reevaluates_def unknown_baseline_def f given_up_fields reason_name_def)
  have enough: "\<not> insufficient ''pi'' ?v"
    by (simp add: insufficient_def modes f given_up_fields reason_name_def nonworking_def member_of_def status_json_def kind_name_def or_null_def)
  have target: "targetOf ?v ''pi'' = Some (identity_json sample_target)"
    by (simp add: targetOf_def g f identity_json_def sample_target_def given_up_fields or_null_def)
  have job: "job_of sample_request ?v (identity_json sample_target) = sample_job"
    by (simp add: job_of_def f g modes sample_request_def sample_job_def string_of_def given_up_fields)
  have "rq_agent sample_request = ''pi''" by (simp add: sample_request_def)
  then show ?thesis
    by (simp add: begin_remediation_def v enough target job Let_def claim_def idle_system_def MAX_CONCURRENT_REMEDIATIONS_def
      MAX_REMEDIATION_ATTEMPTS_def) (simp add: sample_job_def)
qed

lemma run_steps:
  "run_state (clock calm_world) s = (rr_slept s, s\<lparr>rr_ticks := Suc (rr_ticks s)\<rparr>)"
  "run_state (shown_event x) s = ((), s\<lparr>rr_out := rr_out s @ [x]\<rparr>)"
  "run_state (gets f) s = (f s, s)" "run_state (modify h) s = ((), h s)"
  by (simp_all add: clock_def calm_world_def shown_event_def gets_def modify_def)

lemma sample_remediated:
  "\<exists>ev s. run_job 1 calm_world (fst (parseDeliveryKnobs (\<lambda>_. None))) sample_job = (Some ev, s) \<and>
     re_action ev = Machine_enter \<and> re_result ev = Working_observed"
  unfolding sample_knobs
  by (simp add: run_job_def rem_body_def sample_job_def check_pane_def check_composer_def check_status_def check_again_def
    record_action_def press_def press_key_def watch_def rem_window_def watch_body_def ebind_def leaving_def ask_def rem_read_def
    rem_call_def rem_query_def rem_accept_def judged_def fits_def may_press_def seen_status_def Let_def run_steps stop_with_def
    calm_fields sample_status_def sample_reply_def fresh_run_def intention_def no_evidence_def rem_answer_def)

theorem remediation_gated_witness:
  "\<exists>j r' ev s. begin_remediation (sy_state idle_system) sample_request = (Inr j, r') \<and>
     run_job 1 calm_world (fst (parseDeliveryKnobs (\<lambda>_. None))) j = (Some ev, s) \<and> pressed_once j (rr_out s) \<and>
     re_result ev = Working_observed \<and> last (rr_out s) = R_seen S_working"
proof -
  obtain ev s where run: "run_job 1 calm_world (fst (parseDeliveryKnobs (\<lambda>_. None))) sample_job = (Some ev, s)"
    "re_action ev = Machine_enter" "re_result ev = Working_observed"
    using sample_remediated by blast
  from remediation_gated [OF sample_begun run(1)] run sample_begun show ?thesis by blast
qed

theorem one_key_per_attempt_witness:
  "\<exists>y. rem_runs idle_system y \<and> sy_history y \<noteq> [] \<and> keys_for ''a1'' y \<le> 1"
proof -
  obtain ev s where run: "run_job 1 calm_world (fst (parseDeliveryKnobs (\<lambda>_. None))) sample_job = (Some ev, s)"
    using sample_remediated by blast
  let ?r = "\<lparr>rd_used = [''a1''], rd_busy = [''p1'']\<rparr>"
  let ?y = "idle_system\<lparr>sy_state := ?r, sy_running := sy_running idle_system @ [sample_job]\<rparr>"
  let ?z = "?y\<lparr>sy_state := end_remediation (sy_state ?y) sample_job, sy_running := remove1 sample_job (sy_running ?y),
      sy_history := sy_history ?y @ [(rj_attempt sample_job, rr_out s)]\<rparr>"
  have "rem_step idle_system ?y" by (rule begins [OF sample_begun])
  moreover have "rem_step ?y ?z" by (rule ends [OF _ run]) simp
  ultimately have "rem_runs idle_system ?z" by (blast intro: rem_runs.intros)
  moreover have "sy_history ?z \<noteq> []" by simp
  ultimately show ?thesis using one_key_per_attempt [of ?z "''a1''"] by blast
qed

theorem remediation_returns_witness:
  "\<exists>ev s. run_job 90001 calm_world (fst (parseDeliveryKnobs (\<lambda>_. None))) sample_job = (Some ev, s)"
  by (rule remediation_returns [OF _ HOL.refl]) (simp_all add: sample_knobs rem_steady_def calm_world_def)

end
