(* ===== verification/Herdr_Client.thy ===== *)
theory Herdr_Client
  imports Delivery Launch
begin

text \<open>
  The control-plane client of the terminal host, \<open>src/herdr/launcher/legacy-herdr-client.ts\<close> with the decoders of
  \<open>herdr-client-v2.ts\<close>: the argument vectors of the verbs, what their answers are read as, the life of one child process,
  and the two judgements a delivery relies on, \<open>not-sent\<close> as proof that nothing ran and an accepted status as one row of
  the right pane.

  A child process is the list of the events Node reports, in any order; each carries the clock and the abort signal at
  that moment; two readings of the clock with nothing between them are one.  \<open>parse\<close> is \<open>JSON.parse\<close> (\<open>None\<close> where it throws).
  Message texts are not modelled.
\<close>

section \<open>Reading answers\<close>

datatype herdr_error = SPAWN_ERROR | Exit_error | INVALID_RESPONSE | Bad_argument | Timeout_error

definition resultObject :: "json \<Rightarrow> jobject" where
  "resultObject v =
     (case v of JObj ob \<Rightarrow> (case pget ob ''result'' of Some (JObj r) \<Rightarrow> r | _ \<Rightarrow> ob) | _ \<Rightarrow> [])"

definition responseRows :: "json \<Rightarrow> string \<Rightarrow> json list option" where
  "responseRows v key =
     (case v of
        JArr xs \<Rightarrow> Some xs
      | _ \<Rightarrow> (case jget v key of
                Some (JArr xs) \<Rightarrow> Some xs
              | _ \<Rightarrow> (case pget (resultObject v) key of Some (JArr xs) \<Rightarrow> Some xs | _ \<Rightarrow> None)))"

record herdr_pane =
  hp_id :: string
  hp_label :: "string option"
  hp_tab :: "string option"
  hp_workspace :: "string option"
  hp_cwd :: "string option"
  hp_status :: "string option"

definition filled :: "json option \<Rightarrow> string option" where
  "filled v = (case v of Some (JStr s) \<Rightarrow> if s = [] then None else Some s | _ \<Rightarrow> None)"

definition paneFrom :: "json \<Rightarrow> herdr_pane option" where
  "paneFrom v =
     (case v of
        JObj ob \<Rightarrow> map_option (\<lambda>p. \<lparr>hp_id = p, hp_label = string_of (pget ob ''label''), hp_tab = string_of (pget ob ''tab_id''),
          hp_workspace = string_of (pget ob ''workspace_id''), hp_cwd = string_of (pget ob ''cwd''),
          hp_status = string_of (pget ob ''agent_status'')\<rparr>) (filled (pget ob ''pane_id''))
      | _ \<Rightarrow> None)"

record herdr_tab =
  ht_id :: string
  ht_label :: "string option"
  ht_workspace :: "string option"
  ht_count :: "rat option"

definition tabFrom :: "json \<Rightarrow> herdr_tab option" where
  "tabFrom v =
     (case v of
        JObj ob \<Rightarrow>
          (case (case string_of (pget ob ''tab_id'') of Some t \<Rightarrow> Some t | None \<Rightarrow> string_of (pget ob ''id'')) of
             Some t \<Rightarrow> if t = [] then None
               else Some \<lparr>ht_id = t, ht_label = string_of (pget ob ''label''), ht_workspace = string_of (pget ob ''workspace_id''),
                 ht_count = (case pget ob ''pane_count'' of Some (JNum q) \<Rightarrow> Some q | _ \<Rightarrow> None)\<rparr>
           | None \<Rightarrow> None)
      | _ \<Rightarrow> None)"

definition is_object :: "json option \<Rightarrow> bool" where
  "is_object v \<longleftrightarrow> (case v of Some (JObj _) \<Rightarrow> True | _ \<Rightarrow> False)"

text \<open>A nested object of the result, or of the answer itself.\<close>

definition part_of :: "json \<Rightarrow> string \<Rightarrow> json option" where
  "part_of v key =
     (if is_object (pget (resultObject v) key) then pget (resultObject v) key
      else if is_object (jget v key) then jget v key else None)"

definition paneIdFrom :: "json \<Rightarrow> string option" where
  "paneIdFrom v =
     (case v of
        JObj ob \<Rightarrow>
          (case filled (case part_of v ''pane'' of Some p \<Rightarrow> jget p ''pane_id'' | None \<Rightarrow> None) of
             Some p \<Rightarrow> Some p
           | None \<Rightarrow> (case filled (pget (resultObject v) ''pane_id'') of
               Some p \<Rightarrow> Some p
             | None \<Rightarrow> filled (pget ob ''pane_id'')))
      | _ \<Rightarrow> None)"

text \<open>The later spread wins, so the identifier beside the answer hides the one in the result.\<close>

definition tabIdFrom :: "json \<Rightarrow> string option \<times> string option" where
  "tabIdFrom v =
     (case v of
        JObj ob \<Rightarrow>
          ((case (case part_of v ''tab'' of Some t \<Rightarrow> tabFrom t | None \<Rightarrow> None) of
              Some t \<Rightarrow> Some (ht_id t)
            | None \<Rightarrow> (case filled (pget ob ''tab_id'') of Some t \<Rightarrow> Some t | None \<Rightarrow> filled (pget (resultObject v) ''tab_id''))),
           filled (case part_of v ''root_pane'' of Some p \<Rightarrow> jget p ''pane_id'' | None \<Rightarrow> None))
      | _ \<Rightarrow> (None, None))"

section \<open>Argument vectors\<close>

definition argument :: "string \<Rightarrow> herdr_error + string" where
  "argument s = (if s = [] \<or> CHR 0x00 \<in> set s then Inl Bad_argument else Inr s)"

definition optionalArgument :: "string option \<Rightarrow> herdr_error + string option" where
  "optionalArgument v = (case v of None \<Rightarrow> Inr None | Some s \<Rightarrow> map_sum id Some (argument s))"

definition flag_arg :: "string \<Rightarrow> string option \<Rightarrow> string list" where
  "flag_arg name v = (case v of None \<Rightarrow> [] | Some s \<Rightarrow> [name, s])"

definition resolveHerdrExecutable :: "string option \<Rightarrow> string option \<Rightarrow> bool \<Rightarrow> herdr_error + string" where
  "resolveHerdrExecutable configured env windows =
     (case (case configured of Some s \<Rightarrow> Some s | None \<Rightarrow> env) of
        Some s \<Rightarrow> if s \<noteq> [] then argument s else Inr (if windows then ''herdr.exe'' else ''herdr'')
      | None \<Rightarrow> Inr (if windows then ''herdr.exe'' else ''herdr''))"

definition paneEnvArgs :: "(string \<times> string) list \<Rightarrow> string list" where
  "paneEnvArgs env = concat (map (\<lambda>(k, v). [''--env'', k @ ''='' @ v]) env)"

record tab_options =
  to_workspace :: "string option"
  to_cwd :: "string option"
  to_label :: "string option"
  to_no_focus :: bool

record split_options =
  so_env :: "(string \<times> string) list"
  so_pane :: "string option"
  so_current :: bool
  so_direction :: "string option"
  so_no_focus :: bool
  so_cwd :: "string option"

record move_options =
  mo_tab :: string
  mo_split :: "string option"
  mo_ratio :: "string option"
  mo_no_focus :: bool
  mo_target :: "string option"

text \<open>One verb for each command; the arguments are checked in the order of the code.\<close>

datatype verb =
    Pane_list
  | Tab_list "string option"
  | Tab_create tab_options
  | Pane_split split_options
  | Pane_move string move_options
  | Pane_close string
  | Pane_rename string string
  | Pane_run string string
  | Pane_read string "string option" "string option"
  | Pane_send_text string string
  | Pane_send_keys string "string list"

definition no_focus :: "bool \<Rightarrow> string list" where
  "no_focus b = (if b then [''--no-focus''] else [])"

definition tabCreate_argv :: "tab_options \<Rightarrow> herdr_error + string list" where
  "tabCreate_argv p =
     rbind (optionalArgument (to_workspace p)) (\<lambda>workspace.
     rbind (optionalArgument (to_cwd p)) (\<lambda>cwd.
     rbind (optionalArgument (to_label p)) (\<lambda>label.
     Inr ([''tab'', ''create''] @
       (case workspace of
          Some w \<Rightarrow> [''--workspace'', w] @ flag_arg ''--cwd'' cwd @ flag_arg ''--label'' label @ no_focus (to_no_focus p)
        | None \<Rightarrow> flag_arg ''--label'' label @ no_focus (to_no_focus p) @ flag_arg ''--cwd'' cwd)))))"

definition paneSplit_argv :: "split_options \<Rightarrow> herdr_error + string list" where
  "paneSplit_argv p =
     rbind (optionalArgument (so_pane p)) (\<lambda>pane.
     rbind (case pane of Some x \<Rightarrow> Inr [x] | None \<Rightarrow> if so_current p then Inr [''--current''] else Inl Bad_argument) (\<lambda>source.
     rbind (optionalArgument (so_direction p)) (\<lambda>direction.
     rbind (optionalArgument (so_cwd p)) (\<lambda>cwd.
     Inr ([''pane'', ''split''] @ source @ flag_arg ''--direction'' direction @ no_focus (so_no_focus p) @
       flag_arg ''--cwd'' cwd @ paneEnvArgs (so_env p))))))"

definition paneMove_argv :: "string \<Rightarrow> move_options \<Rightarrow> herdr_error + string list" where
  "paneMove_argv pane p =
     rbind (argument pane) (\<lambda>pane.
     rbind (argument (mo_tab p)) (\<lambda>tab.
     rbind (optionalArgument (mo_split p)) (\<lambda>split.
     rbind (optionalArgument (mo_ratio p)) (\<lambda>ratio.
     rbind (optionalArgument (mo_target p)) (\<lambda>target.
     Inr ([''pane'', ''move'', pane, ''--tab'', tab] @ flag_arg ''--split'' split @ flag_arg ''--ratio'' ratio @
       no_focus (mo_no_focus p) @ flag_arg ''--target-pane'' target))))))"

definition verb_argv :: "verb \<Rightarrow> herdr_error + string list" where
  "verb_argv v =
     (case v of
        Pane_list \<Rightarrow> Inr [''pane'', ''list'']
      | Tab_list w \<Rightarrow> rbind (optionalArgument w) (\<lambda>w. Inr ([''tab'', ''list''] @ flag_arg ''--workspace'' w))
      | Tab_create p \<Rightarrow> tabCreate_argv p
      | Pane_split p \<Rightarrow> paneSplit_argv p
      | Pane_move pane p \<Rightarrow> paneMove_argv pane p
      | Pane_close pane \<Rightarrow> rbind (argument pane) (\<lambda>p. Inr [''pane'', ''close'', p])
      | Pane_rename pane label \<Rightarrow> rbind (argument pane) (\<lambda>p. rbind (argument label) (\<lambda>l. Inr [''pane'', ''rename'', p, l]))
      | Pane_run pane cmd \<Rightarrow> rbind (argument pane) (\<lambda>p. rbind (argument cmd) (\<lambda>c. Inr [''pane'', ''run'', p, c]))
      | Pane_read pane source lines \<Rightarrow>
          rbind (argument pane) (\<lambda>p. rbind (optionalArgument source) (\<lambda>s. rbind (optionalArgument lines) (\<lambda>l.
            Inr ([''pane'', ''read'', p] @ flag_arg ''--source'' s @ flag_arg ''--lines'' l))))
      | Pane_send_text pane t \<Rightarrow> rbind (argument pane) (\<lambda>p. rbind (argument t) (\<lambda>t. Inr [''pane'', ''send-text'', p, t]))
      | Pane_send_keys pane keys \<Rightarrow>
          rbind (argument pane) (\<lambda>p. rbind (traverse argument keys) (\<lambda>ks. Inr ([''pane'', ''send-keys'', p] @ ks))))"

section \<open>One child process\<close>

record call_trace =
  ct_attempt :: string
  ct_sequence :: nat
  ct_started :: rat
  ct_finished :: rat
  ct_spawned :: bool
  ct_exit :: "int option"
  ct_signal :: "string option"
  ct_fault :: "transport_fault option"

record command_result =
  cr_code :: "int option"
  cr_signal :: "string option"
  cr_stdout :: string
  cr_stderr :: string
  cr_error :: bool
  cr_timed :: bool
  cr_trace :: "call_trace option"

text \<open>What the process reports: the clock and the abort signal when the handler runs, and the clock when it settles.\<close>

datatype report =
    Spawned
  | Out string
  | Err string
  | Failed bool
  | Closed_with "int option" "string option"
  | Aborted
  | Timer

record child_event =
  ce_report :: report
  ce_aborted :: bool
  ce_now :: rat
  ce_done :: rat

text \<open>How the start goes: the spawn call may throw, or return a child with or without a process id.\<close>

datatype spawn_outcome = Spawn_throws | Child bool

record child_world =
  cw_started :: rat
  cw_aborted :: bool
  cw_now :: rat
  cw_done :: rat
  cw_spawn :: spawn_outcome
  cw_late_abort :: bool
  cw_events :: "child_event list"

record child_state =
  cs_result :: "command_result option"
  cs_spawned :: bool
  cs_timed :: bool
  cs_stdout :: string
  cs_stderr :: string

definition deliveryDeadline :: "rat \<Rightarrow> call_context \<Rightarrow> rat \<Rightarrow> rat" where
  "deliveryDeadline timeout call started = min (cc_deadline call) (started + (if 0 < timeout then min timeout 10000 else 10000))"

definition valid_call :: "call_context \<Rightarrow> bool" where
  "valid_call c \<longleftrightarrow> cc_attempt c \<noteq> [] \<and> 1 \<le> cc_sequence c \<and> cc_sequence c \<le> MAX_SAFE_INTEGER"

definition trace_of :: "call_context \<Rightarrow> rat \<Rightarrow> call_trace" where
  "trace_of c started = \<lparr>ct_attempt = cc_attempt c, ct_sequence = cc_sequence c, ct_started = started, ct_finished = started,
     ct_spawned = False, ct_exit = None, ct_signal = None, ct_fault = None\<rparr>"

text \<open>\<open>settle\<close>: the first result stays.\<close>

definition settle_child ::
    "call_context option \<Rightarrow> rat \<Rightarrow> rat \<Rightarrow> int option \<Rightarrow> string option \<Rightarrow> bool \<Rightarrow> transport_fault option \<Rightarrow> child_state \<Rightarrow> child_state" where
  "settle_child call started finished code sig error fault s =
     (if cs_result s \<noteq> None then s
      else s\<lparr>cs_result := Some \<lparr>cr_code = code, cr_signal = sig, cr_stdout = cs_stdout s, cr_stderr = cs_stderr s, cr_error = error,
        cr_timed = (fault = Some TIMEOUT),
        cr_trace = map_option (\<lambda>c. (trace_of c started)\<lparr>ct_spawned := cs_spawned s, ct_finished := finished, ct_exit := code,
          ct_signal := sig, ct_fault := fault\<rparr>) call\<rparr>\<rparr>)"

definition close_fault :: "rat \<Rightarrow> call_context option \<Rightarrow> rat \<Rightarrow> child_event \<Rightarrow> bool \<Rightarrow> int option \<Rightarrow> string option \<Rightarrow> transport_fault option" where
  "close_fault timeout call started e timed code sig =
     (if call \<noteq> None \<and> ce_aborted e then Some ABORTED
      else if (case call of Some c \<Rightarrow> deliveryDeadline timeout c started \<le> ce_now e | None \<Rightarrow> False) then Some TIMEOUT
      else if timed then Some TIMEOUT
      else if (case sig of Some x \<Rightarrow> x \<noteq> [] | None \<Rightarrow> False) then Some SIGNAL
      else if code \<noteq> Some 0 then Some EXIT_ERROR else None)"

definition child_step :: "rat \<Rightarrow> call_context option \<Rightarrow> rat \<Rightarrow> child_state \<Rightarrow> child_event \<Rightarrow> child_state" where
  "child_step timeout call started s e =
     (case ce_report e of
        Spawned \<Rightarrow> if cs_result s = None then s\<lparr>cs_spawned := True\<rparr> else s
      | Out t \<Rightarrow> if cs_result s = None then s\<lparr>cs_stdout := cs_stdout s @ t\<rparr> else s
      | Err t \<Rightarrow> if cs_result s = None then s\<lparr>cs_stderr := cs_stderr s @ t\<rparr> else s
      | Failed known \<Rightarrow> settle_child call started (ce_done e) None None True
          (Some (if \<not> cs_spawned s \<and> known then SPAWN_FAILED else INTERNAL)) s
      | Closed_with code sig \<Rightarrow> settle_child call started (ce_done e) code sig False
          (close_fault timeout call started e (cs_timed s) code sig) s
      | Aborted \<Rightarrow> (case call of Some _ \<Rightarrow> settle_child call started (ce_done e) None None False (Some ABORTED) s | None \<Rightarrow> s)
      | Timer \<Rightarrow> (case call of
            Some _ \<Rightarrow> settle_child call started (ce_done e) None None False (Some TIMEOUT) s
          | None \<Rightarrow> if cs_result s = None then s\<lparr>cs_timed := True\<rparr> else s))"

definition fresh_child :: child_state where
  "fresh_child = \<lparr>cs_result = None, cs_spawned = False, cs_timed = False, cs_stdout = [], cs_stderr = []\<rparr>"

definition child_start :: "rat \<Rightarrow> call_context option \<Rightarrow> child_world \<Rightarrow> child_state" where
  "child_start timeout call w =
     (let stop = (\<lambda>fault. settle_child call (cw_started w) (cw_done w) None None False (Some fault)) in
      case call of
        Some c \<Rightarrow>
          if cw_aborted w then stop ABORTED fresh_child
          else if deliveryDeadline timeout c (cw_started w) \<le> cw_now w then stop NOT_STARTED fresh_child
          else (case cw_spawn w of
             Spawn_throws \<Rightarrow> settle_child call (cw_started w) (cw_done w) None None True (Some SPAWN_FAILED) fresh_child
           | Child pid \<Rightarrow> (let s = fresh_child\<lparr>cs_spawned := pid\<rparr> in if cw_late_abort w then stop ABORTED s else s))
      | None \<Rightarrow>
          (case cw_spawn w of
             Spawn_throws \<Rightarrow> settle_child call (cw_started w) (cw_done w) None None True (Some SPAWN_FAILED) fresh_child
           | Child pid \<Rightarrow> fresh_child\<lparr>cs_spawned := pid\<rparr>))"

text \<open>
  \<open>command\<close>: an invalid argument throws for the legacy callers and is a result for a delivery; \<open>Inr None\<close> is a promise
  that has not settled after the events.
\<close>

definition command :: "rat \<Rightarrow> call_context option \<Rightarrow> string list \<Rightarrow> child_world \<Rightarrow> herdr_error + command_result option" where
  "command timeout call args w =
     (if is_ok (traverse argument args) \<and> (case call of Some c \<Rightarrow> valid_call c | None \<Rightarrow> True)
      then Inr (cs_result (foldl (child_step timeout call (cw_started w)) (child_start timeout call w) (cw_events w)))
      else (case call of
         None \<Rightarrow> Inl Bad_argument
       | Some c \<Rightarrow> Inr (Some \<lparr>cr_code = None, cr_signal = None, cr_stdout = [], cr_stderr = [], cr_error = False, cr_timed = False,
           cr_trace = Some ((trace_of c (cw_started w))\<lparr>ct_finished := cw_done w, ct_fault := Some INVALID_ARGUMENT\<rparr>)\<rparr>)))"

definition successful :: "command_result \<Rightarrow> herdr_error + command_result" where
  "successful r =
     (if cr_error r then Inl SPAWN_ERROR
      else if cr_timed r then Inl Timeout_error
      else if cr_code r \<noteq> Some 0 then Inl Exit_error
      else Inr r)"

section \<open>Delivery calls\<close>

definition refuses :: "jobject \<Rightarrow> bool" where
  "refuses ob \<longleftrightarrow> pget ob ''error'' \<noteq> None \<or> pget ob ''ok'' = Some (JBool False) \<or> pget ob ''success'' = Some (JBool False)"

definition validDeliveryAck :: "(string \<Rightarrow> json option) \<Rightarrow> string \<Rightarrow> bool" where
  "validDeliveryAck parse stdout =
     (let t = trim_ascii stdout in
      if t = [] \<or> t = ''ok'' then True
      else (case parse t of
         Some (JObj ob) \<Rightarrow>
           if refuses ob \<or> pget ob ''type'' \<notin> {None, Some (JStr ''ok'')} then False
           else if pget ob ''result'' \<noteq> None \<and> \<not> is_object (pget ob ''result'') then False
           else (let r = resultObject (JObj ob) in pget r ''type'' = Some (JStr ''ok'') \<and> \<not> refuses r)
       | _ \<Rightarrow> False))"

definition paneIdentityFrom :: "jobject \<Rightarrow> pane_identity" where
  "paneIdentityFrom row =
     \<lparr>pi_pane = (case string_of (pget row ''pane_id'') of Some p \<Rightarrow> p | None \<Rightarrow> []),
      pi_terminal = filled (pget row ''terminal_id''), pi_workspace = filled (pget row ''workspace_id''),
      pi_session = (case pget row ''agent_session'' of
          Some (JObj s) \<Rightarrow>
            (case (filled (pget s ''agent''), filled (pget s ''kind''), filled (pget s ''value'')) of
               (Some a, Some k, Some v) \<Rightarrow> Some \<lparr>as_agent = a, as_kind = k, as_value = v\<rparr>
             | _ \<Rightarrow> None)
        | _ \<Rightarrow> None)\<rparr>"

definition pane_rows :: "json \<Rightarrow> json list option" where
  "pane_rows v =
     (let r = (if is_object (jget v ''result'') then the (jget v ''result'') else v) in
      case r of JArr xs \<Rightarrow> Some xs | _ \<Rightarrow> (case jget r ''panes'' of Some (JArr xs) \<Rightarrow> Some xs | _ \<Rightarrow> None))"

definition refused_answer :: "json \<Rightarrow> bool" where
  "refused_answer v \<longleftrightarrow>
     (case v of JObj ob \<Rightarrow> refuses ob \<or> refuses (resultObject v) | _ \<Rightarrow> False)"

definition is_row :: "pane_identity \<Rightarrow> json \<Rightarrow> bool" where
  "is_row target row \<longleftrightarrow> is_object (Some row) \<and> jget row ''pane_id'' = Some (JStr (pi_pane target))"

definition kept_part :: "'a option \<Rightarrow> 'a option \<Rightarrow> bool" where
  "kept_part expected got \<longleftrightarrow> (case expected of None \<Rightarrow> True | Some x \<Rightarrow> got = Some x)"

definition same_identity :: "pane_identity \<Rightarrow> pane_identity \<Rightarrow> bool" where
  "same_identity target got \<longleftrightarrow> kept_part (pi_terminal target) (pi_terminal got) \<and>
     kept_part (pi_workspace target) (pi_workspace got) \<and> kept_part (pi_session target) (pi_session got)"

definition revision_of :: "jobject \<Rightarrow> rat option" where
  "revision_of row = (case pget row ''revision'' of Some (JNum q) \<Rightarrow> Some q | _ \<Rightarrow> None)"

definition nullish :: "json option \<Rightarrow> bool" where
  "nullish v \<longleftrightarrow> v = None \<or> v = Some JNull"

definition status_of :: "json option \<Rightarrow> agent_status option" where
  "status_of v = (case v of
     Some (JStr s) \<Rightarrow>
       if s = ''idle'' then Some S_idle else if s = ''working'' then Some S_working else if s = ''blocked'' then Some S_blocked
       else if s = ''done'' then Some S_done else if s = ''unknown'' then Some S_unknown else None
   | _ \<Rightarrow> None)"

text \<open>The checks on the row of the pane, in their order.\<close>

definition row_fault :: "pane_identity \<Rightarrow> rat option \<Rightarrow> jobject \<Rightarrow> read_fault option" where
  "row_fault target previous row =
     (if \<not> same_identity target (paneIdentityFrom row) \<or>
         (case (revision_of row, previous) of (Some q, Some p) \<Rightarrow> q < p | _ \<Rightarrow> False) then Some IDENTITY_CHANGED
      else if \<not> nullish (pget row ''revision'') \<and>
         (case pget row ''revision'' of Some (JNum q) \<Rightarrow> \<not> is_integer q \<or> of_nat MAX_SAFE_INTEGER < q \<or> q < 0 | _ \<Rightarrow> True) then Some INVALID_SHAPE
      else if list_ex (\<lambda>k. \<not> nullish (pget row k) \<and> filled (pget row k) = None) [''terminal_id'', ''workspace_id''] then Some INVALID_SHAPE
      else if \<not> nullish (pget row ''agent_session'') \<and> pi_session (paneIdentityFrom row) = None then Some INVALID_SHAPE
      else if nullish (pget row ''agent_status'') then Some STATUS_MISSING
      else if status_of (pget row ''agent_status'') = None then Some STATUS_INVALID
      else None)"

text \<open>The sample that is passed in, its pane revision beside it.\<close>

definition parseStatusSample ::
    "(string \<Rightarrow> json option) \<Rightarrow> string \<Rightarrow> pane_identity \<Rightarrow> status_sample \<Rightarrow> rat option \<Rightarrow> status_sample \<times> rat option" where
  "parseStatusSample parse stdout target x previous =
     (let fail = (\<lambda>f. (x\<lparr>sp_status := S_unknown, sp_error := Some f\<rparr>, None)) in
      case parse stdout of
        None \<Rightarrow> fail INVALID_JSON
      | Some v \<Rightarrow>
          if refused_answer v then fail INVALID_SHAPE
          else (case pane_rows v of
             None \<Rightarrow> fail INVALID_SHAPE
           | Some rows \<Rightarrow>
               (case filter (is_row target) rows of
                  [JObj row] \<Rightarrow>
                    (let y = x\<lparr>sp_identity := Some (paneIdentityFrom row)\<rparr> in
                     case row_fault target previous row of
                       Some f \<Rightarrow> (y\<lparr>sp_status := S_unknown, sp_error := Some f\<rparr>, revision_of row)
                     | None \<Rightarrow> (y\<lparr>sp_status := the (status_of (pget row ''agent_status'')), sp_error := None\<rparr>, revision_of row))
                | [] \<Rightarrow> fail PANE_MISSING
                | _ \<Rightarrow> fail PANE_DUPLICATE)))"

record delivery_call =
  dc_child :: child_world
  dc_aborted :: bool
  dc_finished :: rat

text \<open>\<open>None\<close>: the child has not settled.\<close>

definition deliverySend ::
    "(string \<Rightarrow> json option) \<Rightarrow> rat \<Rightarrow> string list \<Rightarrow> call_context \<Rightarrow> delivery_call \<Rightarrow> (send_kind \<times> call_trace) option" where
  "deliverySend parse timeout args call w =
     (case command timeout (Some call) args (dc_child w) of
        Inr None \<Rightarrow> None
      | Inr (Some r) \<Rightarrow>
          (case cr_trace r of
             Some t \<Rightarrow>
               let t = (if ct_fault t \<noteq> None then t
                        else t\<lparr>ct_finished := dc_finished w, ct_fault :=
                          (if dc_aborted w then Some ABORTED
                           else if deliveryDeadline timeout call (ct_started t) \<le> dc_finished w then Some TIMEOUT
                           else if \<not> (ct_spawned t \<and> validDeliveryAck parse (cr_stdout r)) then Some INVALID_ACK else None)\<rparr>);
                   notSent = (\<not> ct_spawned t \<and> (case ct_fault t of Some f \<Rightarrow> f \<in> {INVALID_ARGUMENT, NOT_STARTED, SPAWN_FAILED, ABORTED} | None \<Rightarrow> False))
               in Some (if notSent then Not_sent else if ct_fault t = None then Sent else Uncertain, t)
           | None \<Rightarrow> Some (Uncertain, (trace_of call (cw_started (dc_child w)))\<lparr>ct_finished := dc_finished w, ct_fault := Some INTERNAL\<rparr>))
      | Inl _ \<Rightarrow> Some (Uncertain, (trace_of call (cw_started (dc_child w)))\<lparr>ct_finished := dc_finished w, ct_fault := Some INTERNAL\<rparr>))"

definition send_verb :: "pane_identity \<Rightarrow> string option \<Rightarrow> string list" where
  "send_verb target message =
     (case message of
        Some m \<Rightarrow> [''pane'', ''send-text'', pi_pane target, m]
      | None \<Rightarrow> [''pane'', ''send-keys'', pi_pane target, ''Enter''])"

definition send_answer :: "send_kind \<times> call_trace \<Rightarrow> send_result" where
  "send_answer r = \<lparr>sd_kind = fst r, sd_attempt = ct_attempt (snd r), sd_sequence = ct_sequence (snd r),
     sd_finished = ct_finished (snd r), sd_fault = ct_fault (snd r)\<rparr>"

text \<open>
  The last revision accepted for a target, with the attempt it belongs to (the \<open>WeakMap\<close> entry of the target).
\<close>

definition blank_sample :: "call_context \<Rightarrow> rat \<Rightarrow> status_sample" where
  "blank_sample call t = \<lparr>sp_attempt = cc_attempt call, sp_sequence = cc_sequence call, sp_started = t, sp_finished = t,
     sp_status = S_unknown, sp_identity = None, sp_error = None\<rparr>"

definition readAgentStatus ::
    "(string \<Rightarrow> json option) \<Rightarrow> rat \<Rightarrow> pane_identity \<Rightarrow> call_context \<Rightarrow> delivery_call \<Rightarrow> (string \<times> rat) option \<Rightarrow>
     ((status_sample \<times> rat option) option) \<times> (string \<times> rat) option" where
  "readAgentStatus parse timeout target call w known =
     (let base = blank_sample call (cw_started (dc_child w)) in
      if argument (pi_pane target) = Inl Bad_argument
        then (Some (base\<lparr>sp_finished := dc_finished w, sp_error := Some (Transport INVALID_ARGUMENT)\<rparr>, None), known)
      else (case command timeout (Some call) [''pane'', ''list''] (dc_child w) of
         Inr None \<Rightarrow> (None, known)
       | Inr (Some r) \<Rightarrow>
           (case cr_trace r of
              None \<Rightarrow> (Some (base\<lparr>sp_finished := dc_finished w, sp_error := Some (Transport INTERNAL)\<rparr>, None), known)
            | Some t \<Rightarrow>
                let x = base\<lparr>sp_started := ct_started t, sp_finished := ct_finished t, sp_error := map_option Transport (ct_fault t)\<rparr> in
                if ct_fault t \<noteq> None then (Some (x, None), known)
                else
                  let previous = (case known of Some (a, p) \<Rightarrow> if a = cc_attempt call then Some p else None | None \<Rightarrow> None);
                      (y, revision) = parseStatusSample parse (cr_stdout r) target x previous;
                      y = y\<lparr>sp_finished := dc_finished w\<rparr>
                  in if dc_aborted w then (Some (y\<lparr>sp_status := S_unknown, sp_error := Some (Transport ABORTED)\<rparr>, revision), known)
                     else if deliveryDeadline timeout call (ct_started t) \<le> dc_finished w
                       then (Some (y\<lparr>sp_status := S_unknown, sp_error := Some LATE_RESULT\<rparr>, revision), known)
                     else (Some (y, revision),
                       (case (sp_identity y, revision) of
                          (Some _, Some q) \<Rightarrow> if sp_error y \<noteq> Some IDENTITY_CHANGED then Some (cc_attempt call, q) else known
                        | _ \<Rightarrow> known)))
       | Inl _ \<Rightarrow> (Some (base\<lparr>sp_finished := dc_finished w, sp_error := Some (Transport INTERNAL)\<rparr>, None), known)))"

section \<open>What the kinds of a send prove\<close>

text \<open>The start was reached, and Node returned a running child.\<close>

definition ran :: "rat \<Rightarrow> string list \<Rightarrow> call_context \<Rightarrow> child_world \<Rightarrow> bool" where
  "ran timeout args call w \<longleftrightarrow> is_ok (traverse argument args) \<and> valid_call call \<and> \<not> cw_aborted w \<and>
     cw_now w < deliveryDeadline timeout call (cw_started w) \<and> cw_spawn w = Child True"

text \<open>The traces a process of a delivery can leave behind.\<close>

definition child_ok :: "call_context \<Rightarrow> rat \<Rightarrow> bool \<Rightarrow> child_state \<Rightarrow> bool" where
  "child_ok call started alive s \<longleftrightarrow> (alive \<longrightarrow> cs_spawned s) \<and>
     (case cs_result s of
        None \<Rightarrow> True
      | Some r \<Rightarrow> (\<exists>t. cr_trace r = Some t \<and> (alive \<longrightarrow> ct_spawned t) \<and> ct_started t = started \<and>
          ct_attempt t = cc_attempt call \<and> ct_sequence t = cc_sequence call \<and>
          (ct_fault t = None \<longrightarrow> cr_code r = Some 0 \<and> ct_exit t = Some 0)))"

lemma settle_ok:
  assumes "child_ok call started alive s" "fault = None \<longrightarrow> code = Some 0"
  shows "child_ok call started alive (settle_child (Some call) started fin code sig err fault s)"
  using assms by (auto simp: child_ok_def settle_child_def trace_of_def)

lemma close_fault_None: "close_fault timeout call started e timed code sig = None \<Longrightarrow> code = Some 0"
  by (auto simp: close_fault_def split: if_splits)

lemma step_ok: "child_ok call started alive s \<Longrightarrow> child_ok call started alive (child_step timeout (Some call) started s e)"
  by (cases "ce_report e")
    (auto simp: child_step_def intro!: settle_ok dest: close_fault_None, auto simp: child_ok_def split: option.splits)

lemma steps_ok: "child_ok call started alive s \<Longrightarrow> child_ok call started alive (foldl (child_step timeout (Some call) started) s es)"
  by (induction es arbitrary: s) (auto intro: step_ok)

lemma fresh_ok: "child_ok call started False fresh_child" "pid \<Longrightarrow> child_ok call started pid (fresh_child\<lparr>cs_spawned := pid\<rparr>)"
  "child_ok call started False (fresh_child\<lparr>cs_spawned := pid\<rparr>)"
  by (simp_all add: child_ok_def fresh_child_def)

lemma start_ok:
  assumes "alive \<longrightarrow> \<not> cw_aborted w \<and> cw_now w < deliveryDeadline timeout call (cw_started w) \<and> cw_spawn w = Child True"
  shows "child_ok call (cw_started w) alive (child_start timeout (Some call) w)"
proof (cases alive)
  case True
  have "child_ok call (cw_started w) True (fresh_child\<lparr>cs_spawned := True\<rparr>)" by (rule fresh_ok) simp
  with True assms show ?thesis
    by (auto simp: child_start_def Let_def not_le [symmetric] intro!: settle_ok)
next
  case False
  then show ?thesis
    by (auto simp: child_start_def Let_def intro!: settle_ok fresh_ok split: spawn_outcome.split)
qed

lemma command_trace:
  assumes "command timeout (Some call) args w = Inr (Some r)"
  shows "\<exists>t. cr_trace r = Some t \<and> (ran timeout args call w \<longrightarrow> ct_spawned t) \<and> ct_started t = cw_started w \<and>
    ct_attempt t = cc_attempt call \<and> ct_sequence t = cc_sequence call \<and> (ct_fault t = None \<longrightarrow> cr_code r = Some 0 \<and> ct_exit t = Some 0)"
proof (cases "is_ok (traverse argument args) \<and> valid_call call")
  case False
  then show ?thesis
    using assms by (auto simp: command_def ran_def trace_of_def)
next
  case True
  let ?s = "foldl (child_step timeout (Some call) (cw_started w)) (child_start timeout (Some call) w) (cw_events w)"
  have "child_ok call (cw_started w) (ran timeout args call w) ?s"
    by (rule steps_ok, rule start_ok) (simp add: ran_def)
  moreover have "cs_result ?s = Some r" using assms True by (simp add: command_def)
  ultimately show ?thesis by (simp add: child_ok_def)
qed

text \<open>The kind of a delivery call is a proof of what happened, whatever the order of the child's events: \<open>not-sent\<close>
  means that no child was ever running, \<open>sent\<close> that the child exited with 0, unaborted and in time, and acknowledged; a
  child that ran without this proof is \<open>uncertain\<close>.  Attempt and sequence are those of the call.\<close>

theorem send_kind_is_proof:
  assumes "deliverySend parse timeout args call w = Some (kind, t)"
  shows "(kind = Not_sent \<longrightarrow> \<not> ran timeout args call (dc_child w)) \<and>
    (kind = Sent \<longrightarrow> ct_spawned t \<and> ct_exit t = Some 0 \<and> \<not> dc_aborted w \<and>
       dc_finished w < deliveryDeadline timeout call (cw_started (dc_child w)) \<and>
       (\<exists>r. command timeout (Some call) args (dc_child w) = Inr (Some r) \<and> validDeliveryAck parse (cr_stdout r))) \<and>
    (ran timeout args call (dc_child w) \<longrightarrow> kind \<in> {Sent, Uncertain}) \<and>
    ct_attempt t = cc_attempt call \<and> ct_sequence t = cc_sequence call"
proof (cases "command timeout (Some call) args (dc_child w)")
  case (Inl e)
  then show ?thesis
    using assms by (auto simp: deliverySend_def trace_of_def)
next
  case (Inr v)
  then obtain r where r: "command timeout (Some call) args (dc_child w) = Inr (Some r)"
    using assms by (cases v) (auto simp: deliverySend_def)
  from command_trace [OF this] obtain u where u: "cr_trace r = Some u" "ran timeout args call (dc_child w) \<longrightarrow> ct_spawned u"
    "ct_started u = cw_started (dc_child w)" "ct_attempt u = cc_attempt call" "ct_sequence u = cc_sequence call"
    "ct_fault u = None \<longrightarrow> cr_code r = Some 0 \<and> ct_exit u = Some 0"
    by (elim exE conjE) (rule that; assumption)
  define x where "x = (if dc_aborted w then Some ABORTED
      else if deliveryDeadline timeout call (ct_started u) \<le> dc_finished w then Some TIMEOUT
      else if \<not> (ct_spawned u \<and> validDeliveryAck parse (cr_stdout r)) then Some INVALID_ACK else None)"
  define v where "v = (if ct_fault u \<noteq> None then u else u\<lparr>ct_finished := dc_finished w, ct_fault := x\<rparr>)"
  have same: "ct_spawned v = ct_spawned u" "ct_exit v = ct_exit u" "ct_attempt v = cc_attempt call" "ct_sequence v = cc_sequence call"
    "ct_fault v = None \<longleftrightarrow> ct_fault u = None \<and> x = None"
    using u by (auto simp: v_def)
  have "deliverySend parse timeout args call w = Some
      (if \<not> ct_spawned v \<and> (case ct_fault v of Some f \<Rightarrow> f \<in> {INVALID_ARGUMENT, NOT_STARTED, SPAWN_FAILED, ABORTED} | None \<Rightarrow> False)
       then Not_sent else if ct_fault v = None then Sent else Uncertain, v)"
    unfolding deliverySend_def r sum.case option.case u(1) Let_def v_def x_def by (rule HOL.refl)
  from trans [OF this [symmetric] assms] have both: "(if \<not> ct_spawned v \<and>
        (case ct_fault v of Some f \<Rightarrow> f \<in> {INVALID_ARGUMENT, NOT_STARTED, SPAWN_FAILED, ABORTED} | None \<Rightarrow> False)
      then Not_sent else if ct_fault v = None then Sent else Uncertain) = kind \<and> v = t"
    by (rule option.inject [THEN iffD1, THEN prod.inject [THEN iffD1]])
  note result = conjunct1 [OF both] conjunct2 [OF both]
  have proved: "ct_spawned u \<and> \<not> dc_aborted w \<and> dc_finished w < deliveryDeadline timeout call (cw_started (dc_child w)) \<and>
      validDeliveryAck parse (cr_stdout r)" if "x = None"
    using that unfolding x_def u(3) by (auto split: if_splits)
  show ?thesis
    using result same proved u(2,6) r by (cases "ct_spawned u") (auto simp: u(3) split: if_splits)
qed

end
