(* ===== verification/Spec2Isabelle.thy ===== *)
theory Spec2Isabelle
  imports Artifacts Record_Lint Store_Runs Invocation Engine Stop_Controller Run_Lock Run_Repair Resume Shell_Renderer Config Live_Layout Workspace Stats Headless_Runtime Cli_Args Delivery Remediator Herdr_Client
begin

text \<open>
  Verification development for TUT (take-ur-turn).
\<close>

end
